(* ===== verification/Prelude.thy ===== *)
theory Prelude
  imports Complex_Main "HOL-Library.Sublist"
begin

text \<open>
  The shared base of the development: the collections the component proofs draw on, the
  Go standard-library string and number routines the modelled code calls
  (\<open>strings.Split\<close>, \<open>strings.Index\<close>, \<open>strings.TrimSpace\<close>, \<open>strings.ToLower\<close>,
  \<open>strconv.Atoi\<close>, \<open>strconv.Itoa\<close>, two's-complement wrap-around), and the list lemmas
  several components use. A Go \<open>string\<close> is a byte sequence and is modelled as a HOL
  \<open>string\<close>, whose characters are bytes.
\<close>

named_theorems path_simps \<open>equations that evaluate record paths\<close>
named_theorems split_simps \<open>equations about splitting strings\<close>
named_theorems outcome_simps \<open>equations that evaluate error outcomes\<close>

subsection \<open>strings.Split on a one-byte separator\<close>

fun split_on :: "char \<Rightarrow> string \<Rightarrow> string list" where
  "split_on c [] = [[]]"
| "split_on c (x # xs) =
     (if x = c then [] # split_on c xs
      else (case split_on c xs of [] \<Rightarrow> [[x]] | p # ps \<Rightarrow> (x # p) # ps))"

lemma split_on_ne [simp]: "split_on c s \<noteq> []"
  by (cases s) (auto split: list.splits)

lemma hd_split_on [split_simps]: "hd (split_on c s) = takeWhile (\<lambda>x. x \<noteq> c) s"
  by (induction s) (auto split: list.splits simp: hd_Cons_tl dest: arg_cong[where f = hd])

lemma split_on_sep_free: "p \<in> set (split_on c s) \<Longrightarrow> c \<notin> set p"
proof (induction s arbitrary: p)
  case (Cons x xs)
  then show ?case by (cases "split_on c xs") (auto split: if_splits)
qed simp

lemma split_on_no_sep [split_simps]: "c \<notin> set s \<Longrightarrow> split_on c s = [s]"
  by (induction s) auto

lemma split_on_Cons_sep [split_simps]:
  "c \<notin> set p \<Longrightarrow> split_on c (p @ c # s) = p # split_on c s"
  by (induction p) auto

fun join_with :: "char \<Rightarrow> string list \<Rightarrow> string" where
  "join_with c [] = []"
| "join_with c [p] = p"
| "join_with c (p # q # ps) = p @ c # join_with c (q # ps)"

lemma split_on_join:
  "ps \<noteq> [] \<Longrightarrow> \<forall>p \<in> set ps. c \<notin> set p \<Longrightarrow> split_on c (join_with c ps) = ps"
  by (induction c ps rule: join_with.induct) (auto simp: split_simps)

lemma join_split_on [simp]: "join_with c (split_on c s) = s"
proof (induction s)
  case (Cons x xs)
  obtain p ps where "split_on c xs = p # ps" by (cases "split_on c xs") auto
  with Cons show ?case by (cases ps) auto
qed simp

subsection \<open>strings.Index of a one-byte string\<close>

fun index_of :: "char \<Rightarrow> string \<Rightarrow> nat option" where
  "index_of c [] = None"
| "index_of c (x # xs) = (if x = c then Some 0 else map_option Suc (index_of c xs))"

lemma index_of_None [simp]: "index_of c s = None \<longleftrightarrow> c \<notin> set s"
  by (induction s) auto

lemma index_of_notin [simp]: "c \<notin> set s \<Longrightarrow> index_of c s = None"
  by simp

lemma index_of_SomeD:
  "index_of c s = Some i \<Longrightarrow> i < length s \<and> s ! i = c \<and> take i s = takeWhile (\<lambda>x. x \<noteq> c) s"
  by (induction s arbitrary: i) (auto split: if_splits)

lemma index_of_append [simp]: "c \<notin> set p \<Longrightarrow> index_of c (p @ c # s) = Some (length p)"
  by (induction p) auto

subsection \<open>strconv.Itoa and strconv.Atoi\<close>

definition digit_char :: "nat \<Rightarrow> char" where
  "digit_char d = char_of (48 + d)"

fun show_nat :: "nat \<Rightarrow> string" where
  "show_nat n = (if n < 10 then [digit_char n]
                 else show_nat (n div 10) @ [digit_char (n mod 10)])"

declare show_nat.simps [simp del]

definition itoa :: "int \<Rightarrow> string" where
  "itoa i = (if i < 0 then CHR ''-'' # show_nat (nat (- i)) else show_nat (nat i))"

definition is_digit :: "char \<Rightarrow> bool" where
  "is_digit c \<longleftrightarrow> 48 \<le> (of_char c :: nat) \<and> (of_char c :: nat) \<le> 57"

definition digits_value :: "string \<Rightarrow> nat" where
  "digits_value s = foldl (\<lambda>n c. 10 * n + (of_char c - 48)) 0 s"

definition int64_min :: int where "int64_min = - (2 ^ 63)"
definition int64_max :: int where "int64_max = 2 ^ 63 - 1"

definition parse_digits :: "string \<Rightarrow> nat option" where
  "parse_digits s = (if s = [] \<or> \<not> list_all is_digit s then None else Some (digits_value s))"

definition atoi :: "string \<Rightarrow> int option" where
  "atoi s =
     (let (neg, ds) = (case s of [] \<Rightarrow> (False, [])
                       | c # cs \<Rightarrow> (if c = CHR ''-'' then (True, cs)
                                   else if c = CHR ''+'' then (False, cs) else (False, s)))
      in (case parse_digits ds of
            None \<Rightarrow> None
          | Some n \<Rightarrow>
              (let i = (if neg then - int n else int n)
               in if int64_min \<le> i \<and> i \<le> int64_max then Some i else None)))"

lemma of_char_digit [simp]: "d < 10 \<Longrightarrow> (of_char (digit_char d) :: nat) = 48 + d"
  by (simp add: digit_char_def)

lemma is_digit_digit_char [simp]: "d < 10 \<Longrightarrow> is_digit (digit_char d)"
  by (simp add: is_digit_def)

lemma digits_value_snoc: "digits_value (s @ [c]) = 10 * digits_value s + (of_char c - 48)"
  by (simp add: digits_value_def)

lemma show_nat_digits: "list_all is_digit (show_nat n) \<and> show_nat n \<noteq> []"
proof (induction n rule: show_nat.induct)
  case (1 n)
  then show ?case by (subst (1 2) show_nat.simps) (auto)
qed

lemma digits_value_show_nat [simp]: "digits_value (show_nat n) = n"
proof (induction n rule: show_nat.induct)
  case (1 n)
  show ?case
  proof (cases "n < 10")
    case True
    then show ?thesis by (subst show_nat.simps) (simp add: digits_value_def)
  next
    case False
    with 1 show ?thesis by (subst show_nat.simps) (simp add: digits_value_snoc)
  qed
qed

lemma parse_digits_show_nat [simp]: "parse_digits (show_nat n) = Some n"
  using show_nat_digits [of n] by (simp add: parse_digits_def)

lemma hd_show_nat: "is_digit (hd (show_nat n))"
  using show_nat_digits [of n] by (cases "show_nat n") auto

lemma atoi_itoa:
  assumes "int64_min \<le> i" "i \<le> int64_max"
  shows "atoi (itoa i) = Some i"
proof (cases "i < 0")
  case True
  with assms show ?thesis by (simp add: atoi_def itoa_def)
next
  case False
  obtain c cs where s: "show_nat (nat i) = c # cs"
    using show_nat_digits [of "nat i"] by (cases "show_nat (nat i)") auto
  with hd_show_nat [of "nat i"] have "c \<noteq> CHR ''-''" "c \<noteq> CHR ''+''"
    by (auto simp: is_digit_def)
  moreover have "parse_digits (c # cs) = Some (nat i)"
    by (simp flip: s)
  ultimately show ?thesis using False assms s by (simp add: atoi_def itoa_def)
qed

subsection \<open>strings.TrimSpace and strings.ToLower\<close>

text \<open>
  \<open>TrimSpace\<close> removes Unicode white space. \<open>utf8_spaces\<close> lists the UTF-8 encodings of
  every code point \<open>unicode.IsSpace\<close> accepts: the six ASCII ones, U+0085, U+00A0, U+1680,
  U+2000 to U+200A, U+2028, U+2029, U+202F, U+205F and U+3000.
\<close>

definition bytes :: "nat list \<Rightarrow> string" where
  "bytes ns = map char_of ns"

definition utf8_spaces :: "string list" where
  "utf8_spaces = map bytes
     ([[9], [10], [11], [12], [13], [32], [194, 133], [194, 160], [225, 154, 128]]
      @ map (\<lambda>k. [226, 128, k]) [128..<139]
      @ [[226, 128, 168], [226, 128, 169], [226, 128, 175], [226, 129, 159], [227, 128, 128]])"

definition space_prefix :: "string list \<Rightarrow> string \<Rightarrow> nat" where
  "space_prefix sps s = (case find (\<lambda>p. prefix p s) sps of None \<Rightarrow> 0 | Some p \<Rightarrow> length p)"

function trim_left :: "string list \<Rightarrow> string \<Rightarrow> string" where
  "trim_left sps s =
     (if space_prefix sps s = 0 \<or> s = [] then s else trim_left sps (drop (space_prefix sps s) s))"
  by pat_completeness auto
termination
  by (relation "measure (\<lambda>(_, s). length s)") auto

declare trim_left.simps [simp del]

definition trim_space :: "string \<Rightarrow> string" where
  "trim_space s = rev (trim_left (map rev utf8_spaces) (rev (trim_left utf8_spaces s)))"

text \<open>
  \<open>ToLower\<close> on the ASCII letters, and on the only two code points outside ASCII whose lower
  case is an ASCII letter (U+0130 to \<open>i\<close>, U+212A to \<open>k\<close>). Every other code point outside
  ASCII lower-cases to a code point outside ASCII and is kept as it is, which cannot change
  the outcome of a comparison with an ASCII constant, the only use made of it here.
\<close>

definition ascii_lower :: "char \<Rightarrow> char" where
  "ascii_lower c =
     (if 65 \<le> (of_char c :: nat) \<and> (of_char c :: nat) \<le> 90 then char_of ((of_char c :: nat) + 32) else c)"

fun to_lower :: "string \<Rightarrow> string" where
  "to_lower [] = []"
| "to_lower (a # s) =
     (case s of
        [] \<Rightarrow> [ascii_lower a]
      | b # s' \<Rightarrow>
          if a = CHR 0xC4 \<and> b = CHR 0xB0 then CHR ''i'' # to_lower s'
          else if a = CHR 0xE2 \<and> b = CHR 0x84 \<and> s' \<noteq> [] \<and> hd s' = CHR 0xAA
               then CHR ''k'' # to_lower (tl s')
          else ascii_lower a # to_lower s)"

subsection \<open>Fixed-width integers\<close>

text \<open>Go's \<open>int\<close> and \<open>int64\<close> arithmetic wraps modulo \<open>2 ^ 64\<close> into two's complement.\<close>

definition wrap64 :: "int \<Rightarrow> int" where
  "wrap64 i = (i + 2 ^ 63) mod 2 ^ 64 - 2 ^ 63"

lemma wrap64_id [simp]: "int64_min \<le> i \<Longrightarrow> i \<le> int64_max \<Longrightarrow> wrap64 i = i"
  by (simp add: wrap64_def int64_min_def int64_max_def)

lemma wrap64_bounds: "int64_min \<le> wrap64 i \<and> wrap64 i \<le> int64_max"
proof -
  have "0 \<le> (i + 2 ^ 63) mod 2 ^ 64" "(i + 2 ^ 63) mod 2 ^ 64 < (2::int) ^ 64"
    by simp_all
  then show ?thesis by (simp add: wrap64_def int64_min_def int64_max_def)
qed

subsection \<open>Lists and options\<close>

lemma takeWhile_takeWhile_neq:
  "takeWhile (\<lambda>x. x \<noteq> d) (takeWhile (\<lambda>x. x \<noteq> c) s) = takeWhile (\<lambda>x. x \<noteq> c \<and> x \<noteq> d) s"
  by (induction s) auto

lemma takeWhile_neq_id: "c \<notin> set s \<Longrightarrow> takeWhile (\<lambda>x. x \<noteq> c) s = s"
  by (induction s) auto

lemma find_SomeD: "find P xs = Some x \<Longrightarrow> x \<in> set xs \<and> P x"
  by (induction xs) (auto split: if_splits)

lemma find_None_iff_all: "find P xs = None \<longleftrightarrow> (\<forall>x \<in> set xs. \<not> P x)"
  by (induction xs) auto

subsection \<open>strings.ReplaceAll, strings.Split and strings.Join\<close>

text \<open>\<open>strings.ReplaceAll\<close> for a pattern that is not empty.\<close>

fun ReplaceAll :: "string \<Rightarrow> string \<Rightarrow> string \<Rightarrow> string" where
  "ReplaceAll old new [] = []"
| "ReplaceAll old new (c # s) =
     (if old \<noteq> [] \<and> prefix old (c # s) then new @ ReplaceAll old new (drop (length old - 1) s)
      else c # ReplaceAll old new s)"

text \<open>\<open>strings.Split\<close> and \<open>strings.Join\<close> for a separator that is not empty.\<close>

function split_str :: "string \<Rightarrow> string \<Rightarrow> string list" where
  "split_str sep s =
     (if s = [] \<or> sep = [] then [s]
      else if prefix sep s then [] # split_str sep (drop (length sep) s)
      else (case split_str sep (tl s) of [] \<Rightarrow> [s] | p # ps \<Rightarrow> (hd s # p) # ps))"
  by pat_completeness auto
termination
  by (relation "measure (\<lambda>(sep, s). length s)") auto

declare split_str.simps [simp del]

fun join_str :: "string \<Rightarrow> string list \<Rightarrow> string" where
  "join_str sep [] = []"
| "join_str sep [p] = p"
| "join_str sep (p # q # ps) = p @ sep @ join_str sep (q # ps)"

lemma split_str_ne [simp]: "split_str sep s \<noteq> []"
  by (subst split_str.simps) (auto split: list.split)

lemma join_str_Cons: "ps \<noteq> [] \<Longrightarrow> join_str sep (p # ps) = p @ sep @ join_str sep ps"
  by (cases ps) auto

lemma join_str_hd: "join_str sep ((c # p) # ps) = c # join_str sep (p # ps)"
  by (cases ps) auto

lemma join_split_str [simp]: "join_str sep (split_str sep s) = s"
proof (induction sep s rule: split_str.induct)
  case (1 sep s)
  consider "s = [] \<or> sep = []" | "s \<noteq> []" "sep \<noteq> []" "prefix sep s" | "s \<noteq> []" "sep \<noteq> []" "\<not> prefix sep s" by blast
  then show ?case
  proof cases
    case 1
    then show ?thesis by (subst split_str.simps) auto
  next
    case 2
    then have "split_str sep s = [] # split_str sep (drop (length sep) s)" by (subst split_str.simps) simp
    moreover have "s = sep @ drop (length sep) s" using 2(3) by (auto simp: prefix_def)
    ultimately show ?thesis using "1.IH"(1) 2 by (simp add: join_str_Cons)
  next
    case 3
    obtain p ps where p: "split_str sep (tl s) = p # ps" by (cases "split_str sep (tl s)") auto
    then have "split_str sep s = (hd s # p) # ps" using 3 by (subst split_str.simps) simp
    then show ?thesis using "1.IH"(2) 3 p by (simp add: join_str_hd)
  qed
qed

subsection \<open>Texts without white space\<close>

definition plain_char :: "char \<Rightarrow> bool" where
  "plain_char c \<longleftrightarrow> 33 \<le> (of_char c :: nat) \<and> (of_char c :: nat) < 128"

lemma trim_left_plain:
  assumes "list_all (\<lambda>p. p \<noteq> [] \<and> \<not> plain_char (hd p)) ps" "s = [] \<or> plain_char (hd s)"
  shows "trim_left ps s = s"
proof -
  have "\<not> prefix p s" if "p \<in> set ps" for p
  proof -
    from that assms(1) have "p \<noteq> []" "\<not> plain_char (hd p)" by (simp_all add: list_all_iff)
    then obtain c cs where c: "p = c # cs" "\<not> plain_char c" by (cases p) auto
    with assms(2) show ?thesis by (cases s) auto
  qed
  then have "find (\<lambda>p. prefix p s) ps = None" by (simp add: find_None_iff)
  then show ?thesis by (subst trim_left.simps) (simp add: space_prefix_def)
qed

lemma trim_space_plain:
  assumes "list_all plain_char s"
  shows "trim_space s = s"
proof -
  have h: "s = [] \<or> plain_char (hd s)" "rev s = [] \<or> plain_char (hd (rev s))"
    using assms by (metis hd_in_set list_all_iff set_rev)+
  have "list_all (\<lambda>p. p \<noteq> [] \<and> \<not> plain_char (hd p)) utf8_spaces"
    "list_all (\<lambda>p. p \<noteq> [] \<and> \<not> plain_char (hd p)) (map rev utf8_spaces)"
    by (simp_all add: utf8_spaces_def bytes_def plain_char_def)
  with h show ?thesis by (simp add: trim_space_def trim_left_plain)
qed

end
