(* ===== verification/RecordPath.thy ===== *)
theory RecordPath
  imports Prelude
begin

text \<open>
  The values a record holds and the path navigation of \<open>internal/recordpath/path.go\<close>, with
  the metadata stripping of \<open>internal/metadata/accessor.go\<close>.

  A Go \<open>any\<close> holding decoded JSON is a \<open>gval\<close>: untyped nil, bool, int, float64, string,
  \<open>[]any\<close>, \<open>map[string]any\<close>, or a value of another dynamic type, of which the code uses
  only the type name and the \<open>%v\<close> rendering. A record \<open>map[string]any\<close> is a partial map.
  The code updates the maps it reaches in place; the model returns the updated root, so it
  describes records that share no map or slice with another live value.
\<close>

subsection \<open>Values\<close>

text \<open>A float64 is an exact rational, an infinity or a NaN.\<close>

datatype go_float = FFin rat | FPosInf | FNegInf | FNaN

datatype gval =
    GNil
  | GBool bool
  | GInt int
  | GFloat go_float
  | GStr string
  | GArr "gval list"
  | GMap "string \<Rightarrow> gval option"
  | GOther string string

type_synonym grecord = "string \<Rightarrow> gval option"

datatype path_error = ErrEmptyPath | ErrInvalidArrayIndex string

definition as_map :: "gval \<Rightarrow> grecord option" where
  "as_map v = (case v of GMap m \<Rightarrow> Some m | _ \<Rightarrow> None)"

definition as_arr :: "gval \<Rightarrow> gval list option" where
  "as_arr v = (case v of GArr xs \<Rightarrow> Some xs | _ \<Rightarrow> None)"

definition as_str :: "gval \<Rightarrow> string option" where
  "as_str v = (case v of GStr s \<Rightarrow> Some s | _ \<Rightarrow> None)"

definition as_bool :: "gval \<Rightarrow> bool option" where
  "as_bool v = (case v of GBool b \<Rightarrow> Some b | _ \<Rightarrow> None)"

lemma as_map_simps [simp]: "as_map (GMap m) = Some m" "as_map GNil = None" "as_map (GArr xs) = None"
  "as_map (GStr s) = None" "as_map (GInt i) = None" "as_map (GBool b) = None"
  by (simp_all add: as_map_def)

lemma as_arr_simps [simp]: "as_arr (GArr xs) = Some xs" "as_arr GNil = None" "as_arr (GMap m) = None"
  "as_arr (GStr s) = None" "as_arr (GInt i) = None" "as_arr (GBool b) = None"
  by (simp_all add: as_arr_def)

lemma as_str_simps [simp]: "as_str (GStr s) = Some s" "as_str GNil = None" "as_str (GMap m) = None"
  "as_str (GArr xs) = None" "as_str (GInt i) = None" "as_str (GBool b) = None"
  by (simp_all add: as_str_def)

lemma as_bool_simps [simp]: "as_bool (GBool b) = Some b" "as_bool GNil = None" "as_bool (GMap m) = None"
  "as_bool (GArr xs) = None" "as_bool (GInt i) = None" "as_bool (GStr s) = None"
  by (simp_all add: as_bool_def)

lemma as_map_Some [simp]: "as_map v = Some m \<longleftrightarrow> v = GMap m"
  by (cases v) (auto simp: as_map_def)

lemma as_arr_Some [simp]: "as_arr v = Some xs \<longleftrightarrow> v = GArr xs"
  by (cases v) (auto simp: as_arr_def)

subsection \<open>Path segments\<close>

definition IsNested :: "string \<Rightarrow> bool" where
  "IsNested path \<longleftrightarrow> (\<exists>c \<in> set path. c = CHR ''.'' \<or> c = CHR ''['')"

definition ParsePart :: "string \<Rightarrow> path_error + (string \<times> int \<times> bool)" where
  "ParsePart part =
     (case index_of (CHR ''['') part of
        None \<Rightarrow> Inr (part, -1, False)
      | Some idx \<Rightarrow>
          (case index_of (CHR '']'') part of
             None \<Rightarrow> Inl (ErrInvalidArrayIndex part)
           | Some endIdx \<Rightarrow>
               if endIdx < idx + 1 then Inl (ErrInvalidArrayIndex part)
               else if endIdx \<noteq> length part - 1 then Inl (ErrInvalidArrayIndex part)
               else (case atoi (drop (idx + 1) (take endIdx part)) of
                       None \<Rightarrow> Inl (ErrInvalidArrayIndex part)
                     | Some arrayIndex \<Rightarrow>
                         if arrayIndex < 0 then Inl (ErrInvalidArrayIndex part)
                         else Inr (take idx part, arrayIndex, True))))"

subsection \<open>Reading\<close>

definition getFromMap :: "gval \<Rightarrow> string \<Rightarrow> gval option" where
  "getFromMap current key = (case as_map current of None \<Rightarrow> None | Some m \<Rightarrow> m key)"

definition getFromArray :: "gval \<Rightarrow> int \<Rightarrow> gval option" where
  "getFromArray current index =
     (case as_arr current of
        None \<Rightarrow> None
      | Some arr \<Rightarrow> if index < 0 \<or> index \<ge> int (length arr) then None else Some (arr ! nat index))"

definition navigateStep :: "gval \<Rightarrow> string \<Rightarrow> gval option" where
  "navigateStep current part =
     (case ParsePart part of
        Inl _ \<Rightarrow> None
      | Inr (key, arrayIdx, hasIndex) \<Rightarrow>
          (case getFromMap current key of
             None \<Rightarrow> None
           | Some next \<Rightarrow> if hasIndex then getFromArray next arrayIdx else Some next))"

fun nav_loop :: "gval \<Rightarrow> string list \<Rightarrow> gval option" where
  "nav_loop current [] = Some current"
| "nav_loop current (p # ps) =
     (case navigateStep current p of None \<Rightarrow> None | Some next \<Rightarrow> nav_loop next ps)"

definition navigate :: "grecord \<Rightarrow> string \<Rightarrow> bool \<Rightarrow> (gval \<times> string) option" where
  "navigate obj path stopBeforeLast =
     (if path = [] then None
      else let parts = split_on (CHR ''.'') path;
               walked = (if stopBeforeLast then butlast parts else parts);
               lastPart = (if stopBeforeLast then last parts else [])
           in map_option (\<lambda>c. (c, lastPart)) (nav_loop (GMap obj) walked))"

definition Get :: "grecord \<Rightarrow> string \<Rightarrow> gval option" where
  "Get obj path = map_option fst (navigate obj path False)"

subsection \<open>Writing\<close>

definition ensureMapAtPath :: "grecord \<Rightarrow> string \<Rightarrow> grecord" where
  "ensureMapAtPath current key =
     (case Option.bind (current key) as_map of Some m \<Rightarrow> m | None \<Rightarrow> Map.empty)"

definition ensureArrayAtPath :: "grecord \<Rightarrow> string \<Rightarrow> gval list" where
  "ensureArrayAtPath current key =
     (case Option.bind (current key) as_arr of Some xs \<Rightarrow> xs | None \<Rightarrow> [])"

definition grow_to :: "gval list \<Rightarrow> nat \<Rightarrow> gval list" where
  "grow_to arr index =
     (if length arr \<le> index then arr @ replicate (index + 1 - length arr) GNil else arr)"

text \<open>
  The array grows to the index, whatever the index: the code makes the missing elements in one
  \<open>make\<close>. That \<open>make\<close> ends the program when it asks for more than there can be (a Go slice length,
  or the memory); an index of this size is outside the model, see \<open>huge_index_accepted\<close>.
\<close>

definition setArrayElement :: "grecord \<Rightarrow> string \<Rightarrow> nat \<Rightarrow> gval \<Rightarrow> grecord" where
  "setArrayElement current key index v =
     current(key \<mapsto> GArr ((grow_to (ensureArrayAtPath current key) index)[index := v]))"

definition ensureMapInArray :: "grecord \<Rightarrow> string \<Rightarrow> nat \<Rightarrow> grecord" where
  "ensureMapInArray current key index =
     (case as_map (grow_to (ensureArrayAtPath current key) index ! index) of
        Some m \<Rightarrow> m | None \<Rightarrow> Map.empty)"

text \<open>
  The loop of \<open>Set\<close>. The code descends through references and mutates as it goes, so an
  error in a later segment leaves the intermediate containers it has already created: the
  result pairs the error with the record as the code leaves it.
\<close>

fun set_loop :: "grecord \<Rightarrow> string list \<Rightarrow> gval \<Rightarrow> path_error option \<times> grecord" where
  "set_loop current [] v = (None, current)"
| "set_loop current (p # ps) v =
     (case ParsePart p of
        Inl e \<Rightarrow> (Some e, current)
      | Inr (part, index, hasIndex) \<Rightarrow>
          if \<not> hasIndex then
            (if ps = [] then (None, current(part \<mapsto> v))
             else let (e, next) = set_loop (ensureMapAtPath current part) ps v
                  in (e, current(part \<mapsto> GMap next)))
          else if ps = [] then (None, setArrayElement current part (nat index) v)
          else let (e, next) = set_loop (ensureMapInArray current part (nat index)) ps v
               in (e, setArrayElement current part (nat index) (GMap next)))"

definition Set :: "grecord \<Rightarrow> string \<Rightarrow> gval \<Rightarrow> path_error option \<times> grecord" where
  "Set obj path v =
     (if path = [] then (Some ErrEmptyPath, obj) else set_loop obj (split_on (CHR ''.'') path) v)"

subsection \<open>Deleting\<close>

definition deleteFromMap :: "grecord \<Rightarrow> string \<Rightarrow> int \<Rightarrow> bool \<Rightarrow> grecord" where
  "deleteFromMap parent key arrayIdx hasIndex =
     (if hasIndex then
        (case Option.bind (parent key) as_arr of
           None \<Rightarrow> parent
         | Some arr \<Rightarrow>
             if arrayIdx \<ge> int (length arr) then parent
             else parent(key \<mapsto> GArr (take (nat arrayIdx) arr @ drop (nat arrayIdx + 1) arr)))
      else parent(key := None))"

definition deleteFromArray :: "gval list \<Rightarrow> string \<Rightarrow> int \<Rightarrow> bool \<Rightarrow> gval list" where
  "deleteFromArray parent key arrayIdx hasIndex =
     (if hasIndex \<and> arrayIdx < int (length parent) then
        (case as_map (parent ! nat arrayIdx) of
           None \<Rightarrow> parent
         | Some elem \<Rightarrow> parent[nat arrayIdx := GMap (elem(key := None))])
      else parent)"

definition deleteLeafFromParent :: "gval \<Rightarrow> string \<Rightarrow> gval" where
  "deleteLeafFromParent parent lastPart =
     (case ParsePart lastPart of
        Inl _ \<Rightarrow> parent
      | Inr (key, arrayIdx, hasIndex) \<Rightarrow>
          (case parent of
             GMap p \<Rightarrow> GMap (deleteFromMap p key arrayIdx hasIndex)
           | GArr p \<Rightarrow> GArr (deleteFromArray p key arrayIdx hasIndex)
           | _ \<Rightarrow> parent))"

text \<open>
  \<open>Delete\<close> navigates to the parent by reference and edits it there. The functional rendering
  rebuilds the path down to the parent; \<open>delete_at_navigated\<close> below ties it to \<open>navigate\<close>.
\<close>

definition put_step :: "gval \<Rightarrow> string \<Rightarrow> gval \<Rightarrow> gval" where
  "put_step current part child =
     (case (ParsePart part, current) of
        (Inr (key, arrayIdx, hasIndex), GMap m) \<Rightarrow>
          (if hasIndex then
             (case Option.bind (m key) as_arr of
                Some arr \<Rightarrow> GMap (m(key \<mapsto> GArr (arr[nat arrayIdx := child])))
              | None \<Rightarrow> current)
           else GMap (m(key \<mapsto> child)))
      | _ \<Rightarrow> current)"

fun delete_at :: "gval \<Rightarrow> string list \<Rightarrow> string \<Rightarrow> gval" where
  "delete_at current [] lastPart = deleteLeafFromParent current lastPart"
| "delete_at current (p # ps) lastPart =
     (case navigateStep current p of
        None \<Rightarrow> current
      | Some next \<Rightarrow> put_step current p (delete_at next ps lastPart))"

definition Delete :: "grecord \<Rightarrow> string \<Rightarrow> grecord" where
  "Delete obj path =
     (case navigate obj path True of
        None \<Rightarrow> obj
      | Some (_, lastPart) \<Rightarrow>
          (case as_map (delete_at (GMap obj) (butlast (split_on (CHR ''.'') path)) lastPart) of
             Some m \<Rightarrow> m | None \<Rightarrow> obj))"

subsection \<open>Metadata\<close>

definition DefaultFieldName :: string where "DefaultFieldName = ''_metadata''"

definition LoopFieldName :: string where "LoopFieldName = ''loop''"

text \<open>A nil record is \<open>None\<close>.\<close>

definition StripFromRecord :: "grecord option \<Rightarrow> string \<Rightarrow> grecord option" where
  "StripFromRecord r fieldName =
     (case r of
        None \<Rightarrow> None
      | Some m \<Rightarrow>
          let f = (if fieldName = [] then DefaultFieldName else fieldName)
          in (if m f = None then Some m else Some (\<lambda>k. if k \<noteq> f then m k else None)))"

definition StripFromRecords :: "grecord option list option \<Rightarrow> string \<Rightarrow> grecord option list option" where
  "StripFromRecords records fieldName = map_option (map (\<lambda>r. StripFromRecord r fieldName)) records"

subsection \<open>Segments: facts\<close>

lemma ParsePart_plain [path_simps]: "CHR ''['' \<notin> set p \<Longrightarrow> ParsePart p = Inr (p, -1, False)"
  by (simp add: ParsePart_def)

lemma ParsePart_key:
  assumes "ParsePart p = Inr (k, i, h)"
  shows "k = takeWhile (\<lambda>c. c \<noteq> CHR ''['') p"
proof (cases "index_of (CHR ''['') p")
  case None
  then have p: "takeWhile (\<lambda>c. c \<noteq> CHR ''['') p = p"
    by (rule takeWhile_neq_id [OF index_of_None [THEN iffD1]])
  have "k = p" using None assms by (simp add: ParsePart_def)
  then show ?thesis by (simp only: p)
next
  case (Some idx)
  then have "k = take idx p"
    using assms by (auto simp: ParsePart_def split: option.splits if_splits)
  with index_of_SomeD [OF Some] show ?thesis by simp
qed

lemma ParsePart_index: "ParsePart p = Inr (k, i, h) \<Longrightarrow> h \<Longrightarrow> 0 \<le> i"
  by (auto simp: ParsePart_def split: option.splits if_splits)

lemma ParsePart_noindex: "ParsePart p = Inr (k, i, h) \<Longrightarrow> \<not> h \<Longrightarrow> i = -1 \<and> k = p"
  by (auto simp: ParsePart_def split: option.splits if_splits)

lemma itoa_no_bracket: "i \<ge> 0 \<Longrightarrow> CHR '']'' \<notin> set (itoa i)"
proof
  assume "i \<ge> 0" "CHR '']'' \<in> set (itoa i)"
  then have "is_digit (CHR '']'')"
    using show_nat_digits [of "nat i"] by (auto simp: itoa_def list_all_iff)
  then show False by (simp add: is_digit_def)
qed

lemma ParsePart_indexed:
  assumes k: "CHR ''['' \<notin> set k" "CHR '']'' \<notin> set k" and i: "0 \<le> i" "i \<le> int64_max"
  shows "ParsePart (k @ ''['' @ itoa i @ '']'') = Inr (k, i, True)"
proof -
  let ?p = "k @ CHR ''['' # itoa i @ [CHR '']'']"
  have a: "index_of (CHR ''['') ?p = Some (length k)" using k by simp
  have "CHR '']'' \<notin> set (k @ CHR ''['' # itoa i)"
    using k itoa_no_bracket [OF i(1)] by simp
  from index_of_append [OF this, of "[]"]
  have b: "index_of (CHR '']'') ?p = Some (length k + 1 + length (itoa i))" by simp
  have c: "atoi (drop (length k + 1) (take (length k + 1 + length (itoa i)) ?p)) = Some i"
    using i by (simp add: atoi_itoa int64_min_def)
  show ?thesis using i(1) by (simp add: ParsePart_def a b c [simplified])
qed


subsection \<open>Reading: facts\<close>

abbreviation seg_key :: "string \<Rightarrow> string" where
  "seg_key p \<equiv> takeWhile (\<lambda>c. c \<noteq> CHR ''['') p"

lemma getFromMap_simps [simp]: "getFromMap (GMap m) k = m k"
  "as_map v = None \<Longrightarrow> getFromMap v k = None"
  by (simp_all add: getFromMap_def)

lemma getFromArray_simps [simp]:
  "getFromArray (GArr xs) i = (if i < 0 \<or> int (length xs) \<le> i then None else Some (xs ! nat i))"
  "as_arr v = None \<Longrightarrow> getFromArray v i = None"
  by (simp_all add: getFromArray_def)

lemma nav_loop_append:
  "nav_loop v (ps @ qs) = Option.bind (nav_loop v ps) (\<lambda>c. nav_loop c qs)"
  by (induction ps arbitrary: v) (auto split: option.splits)

lemma navigateStep_nonmap: "as_map v = None \<Longrightarrow> navigateStep v p = None"
  by (auto simp: navigateStep_def split: sum.splits)

lemma nav_loop_nonmap: "as_map v = None \<Longrightarrow> nav_loop v (p # ps) = None"
  by (simp add: navigateStep_nonmap)

lemma nav_loop_empty: "nav_loop (GMap Map.empty) (p # ps) = None"
  by (auto simp: navigateStep_def split: sum.splits)

lemma Get_eq: "path \<noteq> [] \<Longrightarrow> Get obj path = nav_loop (GMap obj) (split_on (CHR ''.'') path)"
  by (simp add: Get_def navigate_def option.map_comp comp_def option.map_ident)

lemma Get_Nil [simp]: "Get obj [] = None"
  by (simp add: Get_def navigate_def)

lemma navigateStep_cong_key:
  "m (seg_key p) = m' (seg_key p) \<Longrightarrow> navigateStep (GMap m) p = navigateStep (GMap m') p"
  by (auto simp: navigateStep_def dest: ParsePart_key split: sum.splits)

lemma navigateStep_plain:
  "ParsePart p = Inr (k, i, False) \<Longrightarrow> navigateStep (GMap m) p = m k"
  by (auto simp: navigateStep_def split: option.splits)

lemma navigateStep_indexed:
  "ParsePart p = Inr (k, i, True) \<Longrightarrow>
   navigateStep (GMap m) p = Option.bind (m k) (\<lambda>v. getFromArray v i)"
  by (auto simp: navigateStep_def split: option.splits)

subsection \<open>Writing: facts\<close>

lemma grow_to_length [simp]: "index < length (grow_to arr index)"
  by (simp add: grow_to_def)

lemma grow_to_length_int [simp]: "0 \<le> i \<Longrightarrow> \<not> int (length (grow_to arr (nat i))) \<le> i"
  using grow_to_length [of "nat i" arr] by linarith

lemma grow_to_nth: "j < length arr \<Longrightarrow> grow_to arr index ! j = arr ! j"
  by (simp add: grow_to_def nth_append)

lemma grow_to_nth_new: "length arr \<le> j \<Longrightarrow> j \<le> index \<Longrightarrow> grow_to arr index ! j = GNil"
  by (auto simp: grow_to_def nth_append)

lemma set_loop_error_iff:
  "fst (set_loop cur ps v) = None \<longleftrightarrow> (\<forall>p \<in> set ps. \<exists>r. ParsePart p = Inr r)"
  by (induction cur ps v rule: set_loop.induct)
     (auto split: sum.splits prod.splits)

lemma set_loop_nav:
  "set_loop cur ps v = (None, cur') \<Longrightarrow> ps \<noteq> [] \<Longrightarrow> nav_loop (GMap cur') ps = Some v"
proof (induction cur ps v arbitrary: cur' rule: set_loop.induct)
  case (2 cur p ps v)
  from "2.prems" obtain k i h where p: "ParsePart p = Inr (k, i, h)"
    by (auto split: sum.splits)
  show ?case
  proof (cases h)
    case False
    with "2.prems" "2.IH" p show ?thesis
      by (auto simp: navigateStep_plain split: if_splits prod.splits)
  next
    case True
    with ParsePart_index [OF p] have i: "0 \<le> i" by simp
    with i True "2.prems" "2.IH" p show ?thesis
      by (auto simp: navigateStep_indexed setArrayElement_def split: if_splits prod.splits)
  qed
qed simp

lemma set_loop_root_frame:
  "ps \<noteq> [] \<Longrightarrow> k \<noteq> seg_key (hd ps) \<Longrightarrow> snd (set_loop cur ps v) k = cur k"
  by (cases ps) (auto simp: setArrayElement_def dest: ParsePart_key split: sum.splits prod.splits)

lemma set_loop_flat:
  "CHR ''['' \<notin> set p \<Longrightarrow> set_loop cur [p] v = (None, cur(p \<mapsto> v))"
  by (simp add: path_simps)


lemma nav_as_map_or_empty:
  "ps \<noteq> [] \<Longrightarrow>
   nav_loop (GMap (case as_map v of Some m \<Rightarrow> m | None \<Rightarrow> Map.empty)) ps = nav_loop v ps"
  by (cases ps; cases "as_map v") (simp_all add: nav_loop_nonmap nav_loop_empty del: nav_loop.simps)

lemma nav_empty: "ps \<noteq> [] \<Longrightarrow> nav_loop (GMap (\<lambda>_. None)) ps = None"
  by (cases ps) (simp_all add: nav_loop_empty del: nav_loop.simps)

lemma nav_GNil: "ps \<noteq> [] \<Longrightarrow> nav_loop GNil ps = None"
  by (cases ps) (simp_all add: nav_loop_nonmap del: nav_loop.simps)

lemma nav_ensureMapAtPath:
  "ps \<noteq> [] \<Longrightarrow> nav_loop (GMap (ensureMapAtPath cur k)) ps = Option.bind (cur k) (\<lambda>v. nav_loop v ps)"
  by (cases "cur k") (simp_all add: ensureMapAtPath_def nav_as_map_or_empty nav_empty)

lemma nav_ensureMapInArray:
  assumes "ps \<noteq> []" "0 \<le> i"
  shows "nav_loop (GMap (ensureMapInArray cur k (nat i))) ps
           = Option.bind (Option.bind (cur k) (\<lambda>v. getFromArray v i)) (\<lambda>v. nav_loop v ps)"
proof (cases "Option.bind (cur k) as_arr")
  case None
  then have "Option.bind (cur k) (\<lambda>v. getFromArray v i) = None"
    by (cases "cur k") auto
  then show ?thesis
    using None assms by (simp add: ensureMapInArray_def ensureArrayAtPath_def grow_to_nth_new nav_empty)
next
  case (Some arr)
  then have "cur k = Some (GArr arr)" by (cases "cur k") auto
  then show ?thesis
    using assms
    by (cases "i < int (length arr)")
       (simp_all add: ensureMapInArray_def ensureArrayAtPath_def grow_to_nth grow_to_nth_new
          nat_less_iff le_nat_iff nav_as_map_or_empty nav_GNil nav_empty)
qed

text \<open>
  Writing at one path leaves every path that parts from it at a differing key as it was, at
  any depth and through arrays, whatever the writes create on the way.
\<close>

lemma set_loop_frame:
  assumes "seg_key a \<noteq> seg_key b"
  shows "nav_loop (GMap (snd (set_loop cur (pre @ a # as) v))) (pre @ b # bs)
           = nav_loop (GMap cur) (pre @ b # bs)"
proof (induction pre arbitrary: cur)
  case Nil
  have "snd (set_loop cur (a # as) v) (seg_key b) = cur (seg_key b)"
    using assms by (intro set_loop_root_frame) auto
  then have "navigateStep (GMap (snd (set_loop cur (a # as) v))) b = navigateStep (GMap cur) b"
    by (rule navigateStep_cong_key)
  then show ?case by simp
next
  case (Cons p pre)
  show ?case
  proof (cases "ParsePart p")
    case (Inl e)
    then show ?thesis by simp
  next
    case (Inr r)
    obtain k i h where r: "r = (k, i, h)" by (cases r)
    show ?thesis
    proof (cases h)
      case False
      then show ?thesis
        using Cons.IH [of "ensureMapAtPath cur k"] Inr r
        by (cases "cur k") (simp_all add: navigateStep_plain nav_ensureMapAtPath case_prod_beta)
    next
      case True
      with ParsePart_index [of p k i h] Inr r have i: "0 \<le> i" by simp
      then show ?thesis
        using Cons.IH [of "ensureMapInArray cur k (nat i)"] Inr r True
        by (cases "Option.bind (cur k) (\<lambda>v. getFromArray v i)")
           (simp_all add: navigateStep_indexed nav_ensureMapInArray setArrayElement_def case_prod_beta)
    qed
  qed
qed


subsection \<open>Deleting: facts\<close>

lemma navigateStep_mapD: "navigateStep v p = Some w \<Longrightarrow> \<exists>m. v = GMap m"
  by (cases v) (auto simp: navigateStep_nonmap as_map_def)

lemma navigateStep_put_step:
  assumes "navigateStep v p = Some w"
  shows "navigateStep (put_step v p child) p = Some child"
proof -
  obtain m where v: "v = GMap m" using navigateStep_mapD [OF assms] by auto
  obtain k i h where p: "ParsePart p = Inr (k, i, h)"
    using assms by (auto simp: navigateStep_def split: sum.splits)
  show ?thesis
  proof (cases h)
    case False
    with assms v p show ?thesis by (simp add: put_step_def navigateStep_plain)
  next
    case True
    with ParsePart_index [OF p] have "0 \<le> i" by simp
    moreover obtain arr where "m k = Some (GArr arr)" "i < int (length arr)" "w = arr ! nat i"
      using assms True p v
      by (auto simp: navigateStep_indexed getFromArray_def bind_eq_Some_conv split: option.splits if_splits)
    ultimately show ?thesis using True p v
      by (simp add: put_step_def navigateStep_indexed nat_less_iff)
  qed
qed

lemma put_step_map: "navigateStep v p = Some w \<Longrightarrow> \<exists>m. put_step v p child = GMap m"
  by (auto dest!: navigateStep_mapD simp: put_step_def split: sum.splits option.splits)

lemma deleteLeaf_map: "\<exists>m'. deleteLeafFromParent (GMap m) l = GMap m'"
  by (auto simp: deleteLeafFromParent_def split: sum.splits)

lemma delete_at_map: "\<exists>m'. delete_at (GMap m) ps l = GMap m'"
  by (cases ps) (auto simp: deleteLeaf_map put_step_map split: option.splits)

lemma delete_at_nav_None: "nav_loop v ps = None \<Longrightarrow> delete_at v ps l = v"
proof (induction ps arbitrary: v)
  case (Cons p ps)
  show ?case
  proof (cases "navigateStep v p")
    case (Some w)
    then have "delete_at w ps l = w" using Cons by simp
    moreover obtain m where m: "v = GMap m" using navigateStep_mapD [OF Some] by auto
    ultimately show ?thesis
      using Some by (auto simp: put_step_def navigateStep_def getFromArray_def fun_upd_idem
          split: sum.splits option.splits if_splits)
  qed simp
qed simp

text \<open>When the walk succeeds, the parent it reaches is edited exactly there.\<close>

lemma delete_at_navigated:
  "nav_loop v ps = Some parent \<Longrightarrow>
   nav_loop (delete_at v ps l) ps = Some (deleteLeafFromParent parent l)"
  by (induction ps arbitrary: v) (auto simp: navigateStep_put_step split: option.splits)

lemma navigateStep_deleteLeaf:
  assumes "CHR ''['' \<notin> set l"
  shows "navigateStep (deleteLeafFromParent parent l) l = None"
proof (cases parent)
  case (GMap m)
  with assms show ?thesis
    by (simp add: deleteLeafFromParent_def deleteFromMap_def navigateStep_def path_simps)
qed (use assms in \<open>auto simp: deleteLeafFromParent_def deleteFromArray_def path_simps as_map_def
                     intro!: navigateStep_nonmap\<close>)

lemma Delete_eq:
  "path \<noteq> [] \<Longrightarrow>
   GMap (Delete obj path) = delete_at (GMap obj) (butlast (split_on (CHR ''.'') path))
                                      (last (split_on (CHR ''.'') path))"
  using delete_at_map [of obj "butlast (split_on (CHR ''.'') path)" "last (split_on (CHR ''.'') path)"]
  by (cases "nav_loop (GMap obj) (butlast (split_on (CHR ''.'') path))")
     (auto simp: Delete_def navigate_def delete_at_nav_None)

lemma Delete_Nil [simp]: "Delete obj [] = obj"
  by (simp add: Delete_def navigate_def)

lemma put_step_root_frame:
  assumes "k \<noteq> seg_key p" "put_step (GMap m) p child = GMap m'"
  shows "m' k = m k"
proof (cases "ParsePart p")
  case (Inr r)
  obtain k' i h where r: "r = (k', i, h)" by (cases r)
  with Inr ParsePart_key assms(1) have "k \<noteq> k'" by blast
  with assms(2) Inr r show ?thesis by (auto simp: put_step_def split: option.splits if_splits)
qed (use assms in \<open>simp add: put_step_def\<close>)

lemma deleteLeaf_root_frame:
  assumes "k \<noteq> seg_key l" "deleteLeafFromParent (GMap m) l = GMap m'"
  shows "m' k = m k"
proof (cases "ParsePart l")
  case (Inr r)
  obtain k' i h where r: "r = (k', i, h)" by (cases r)
  with Inr ParsePart_key assms(1) have "k \<noteq> k'" by blast
  with assms(2) Inr r show ?thesis
    by (auto simp: deleteLeafFromParent_def deleteFromMap_def split: option.splits if_splits)
qed (use assms in \<open>simp add: deleteLeafFromParent_def\<close>)

lemma delete_at_root_frame:
  assumes "k \<noteq> seg_key (hd (ps @ [l]))" "delete_at (GMap m) ps l = GMap m'"
  shows "m' k = m k"
  using assms
  by (cases ps) (auto dest: deleteLeaf_root_frame put_step_root_frame split: option.splits)

lemma Delete_root_frame:
  assumes "k \<noteq> seg_key (takeWhile (\<lambda>c. c \<noteq> CHR ''.'') path)"
  shows "Delete obj path k = obj k"
proof (cases "path = []")
  case False
  have "hd (butlast (split_on (CHR ''.'') path) @ [last (split_on (CHR ''.'') path)])
          = takeWhile (\<lambda>c. c \<noteq> CHR ''.'') path"
    by (simp add: split_simps)
  with delete_at_root_frame [OF _ Delete_eq [OF False, symmetric]] assms show ?thesis by metis
qed simp

lemma Set_root_frame:
  assumes "k \<noteq> seg_key (takeWhile (\<lambda>c. c \<noteq> CHR ''.'') path)"
  shows "snd (Set obj path v) k = obj k"
  using assms by (simp add: Set_def set_loop_root_frame split_simps)

lemma not_IsNested: "\<not> IsNested path \<Longrightarrow> CHR ''.'' \<notin> set path \<and> CHR ''['' \<notin> set path"
  by (auto simp: IsNested_def)

lemma Set_flat: "\<not> IsNested path \<Longrightarrow> path \<noteq> [] \<Longrightarrow> Set obj path v = (None, obj(path \<mapsto> v))"
  by (simp add: Set_def split_simps not_IsNested path_simps)

lemma Delete_flat: "\<not> IsNested path \<Longrightarrow> path \<noteq> [] \<Longrightarrow> Delete obj path = obj(path := None)"
  by (simp add: Delete_def navigate_def split_simps not_IsNested deleteLeafFromParent_def
        deleteFromMap_def path_simps)


subsection \<open>Properties\<close>

lemma Set_eq:
  "path \<noteq> [] \<Longrightarrow> Set obj path v = set_loop obj (split_on (CHR ''.'') path) v"
  by (simp add: Set_def)

definition parses :: "string \<Rightarrow> bool" where
  "parses path \<longleftrightarrow> path \<noteq> [] \<and> list_all (\<lambda>p. case ParsePart p of Inl _ \<Rightarrow> False | Inr _ \<Rightarrow> True) (split_on (CHR ''.'') path)"

lemma Set_ok_iff: "fst (Set obj path v) = None \<longleftrightarrow> parses path"
proof (cases "path = []")
  case True
  then show ?thesis by (simp add: Set_def parses_def)
next
  case False
  have "(case ParsePart p of Inl _ \<Rightarrow> False | Inr _ \<Rightarrow> True) \<longleftrightarrow> (\<exists>r. ParsePart p = Inr r)" for p
    by (cases "ParsePart p") auto
  with False show ?thesis
    by (simp add: Set_eq set_loop_error_iff parses_def list_all_iff)
qed

text \<open>
  C14. Writing a path and reading it back gives the written value, whatever the record held
  before: maps and arrays on the way are created, replaced or grown as needed. The write
  succeeds exactly when the path is not empty and each of its segments parses.
\<close>
theorem Set_Get:
  "(fst (Set obj path v) = None \<longleftrightarrow> parses path)
   \<and> (parses path \<longrightarrow> Get (snd (Set obj path v)) path = Some v)"
proof (intro conjI impI)
  show "fst (Set obj path v) = None \<longleftrightarrow> parses path" by (rule Set_ok_iff)
  assume p: "parses path"
  then have ne: "path \<noteq> []" by (simp add: parses_def)
  obtain obj' where s: "Set obj path v = (None, obj')"
    using p Set_ok_iff [of obj path v] by (cases "Set obj path v") auto
  with ne have "nav_loop (GMap obj') (split_on (CHR ''.'') path) = Some v"
    using set_loop_nav [of obj "split_on (CHR ''.'') path" v obj'] by (simp add: Set_eq)
  with s ne show "Get (snd (Set obj path v)) path = Some v" by (simp add: Get_eq)
qed

theorem Set_Get_witness:
  "Get (snd (Set [''a'' \<mapsto> GInt 1] ''a[1].b'' (GBool True))) ''a[1].b'' = Some (GBool True)"
proof -
  have "parses ''a[1].b''" by code_simp
  with Set_Get [of "[''a'' \<mapsto> GInt 1]" "''a[1].b''" "GBool True"] show ?thesis by simp
qed

text \<open>
  A write or a delete touches only its own branch: a path that leaves the written path at
  some segment with another field name reads the same afterwards.
\<close>
theorem Set_frame:
  assumes "split_on (CHR ''.'') path = pre @ a # as" "split_on (CHR ''.'') other = pre @ b # bs"
    and "seg_key a \<noteq> seg_key b" "path \<noteq> []" "other \<noteq> []"
  shows "Get (snd (Set obj path v)) other = Get obj other"
  using assms by (simp add: Set_eq Get_eq set_loop_frame)

theorem Set_frame_witness:
  "Get (snd (Set [''a'' \<mapsto> GMap [''c'' \<mapsto> GInt 1]] ''a.b.d'' (GInt 2))) ''a.c'' = Some (GInt 1)"
proof -
  have s: "split_on (CHR ''.'') ''a.b.d'' = [''a''] @ ''b'' # [''d'']"
    "split_on (CHR ''.'') ''a.c'' = [''a''] @ ''c'' # []" by simp_all
  have "seg_key ''b'' \<noteq> seg_key ''c''" by simp
  from Set_frame [OF s this, of "[''a'' \<mapsto> GMap [''c'' \<mapsto> GInt 1]]" "GInt 2"]
  show ?thesis by (simp add: Get_eq navigateStep_def path_simps)
qed

text \<open>
  Deleting a path whose last segment is a plain field name removes it: the path reads as
  absent afterwards, and fields outside the path's first segment keep their value.
\<close>
theorem Delete_Get:
  assumes "CHR ''['' \<notin> set (last (split_on (CHR ''.'') path))"
  shows "Get (Delete obj path) path = None
    \<and> (k \<noteq> seg_key (takeWhile (\<lambda>c. c \<noteq> CHR ''.'') path) \<longrightarrow> Delete obj path k = obj k)"
proof (intro conjI impI)
  show "Delete obj path k = obj k" if "k \<noteq> seg_key (takeWhile (\<lambda>c. c \<noteq> CHR ''.'') path)"
    using that by (rule Delete_root_frame)
  let ?ps = "butlast (split_on (CHR ''.'') path)" and ?l = "last (split_on (CHR ''.'') path)"
  have split: "split_on (CHR ''.'') path = ?ps @ [?l]" by simp
  show "Get (Delete obj path) path = None"
  proof (cases "path = []")
    case False
    have "nav_loop (delete_at (GMap obj) ?ps ?l) (?ps @ [?l]) = None"
    proof (cases "nav_loop (GMap obj) ?ps")
      case None
      then show ?thesis by (simp only: delete_at_nav_None nav_loop_append) simp
    next
      case (Some parent)
      note nav = delete_at_navigated [OF this, of ?l]
      show ?thesis
        by (simp only: nav_loop_append nav) (simp add: navigateStep_deleteLeaf [OF assms])
    qed
    with False show ?thesis by (simp add: Get_eq Delete_eq flip: split)
  qed simp
qed

theorem Delete_Get_witness:
  "Get (Delete [''a'' \<mapsto> GArr [GMap [''b'' \<mapsto> GInt 1]]] ''a[0].b'') ''a[0].b'' = None"
proof -
  have "CHR ''['' \<notin> set (last (split_on (CHR ''.'') ''a[0].b''))" by simp
  from Delete_Get [OF this] show ?thesis by blast
qed

text \<open>
  Segments round-trip: the text \<open>name[i]\<close> of a field name without brackets and an index
  in the int64 range parses back into the name and the index.
\<close>
theorem ParsePart_roundtrip:
  assumes "CHR ''['' \<notin> set k" "CHR '']'' \<notin> set k" "0 \<le> i" "i \<le> int64_max"
  shows "ParsePart (k @ ''['' @ itoa i @ '']'') = Inr (k, i, True) \<and> ParsePart k = Inr (k, -1, False)"
  using ParsePart_indexed [OF assms] ParsePart_plain [OF assms(1)] by simp

theorem ParsePart_roundtrip_witness: "ParsePart ''items[10]'' = Inr (''items'', 10, True)"
proof -
  have "itoa 10 = ''10''" by code_simp
  with ParsePart_roundtrip [of "''items''" 10] show ?thesis by (simp add: int64_max_def)
qed

subsection \<open>Indices beyond the model\<close>

text \<open>
  No index is too large for \<open>ParsePart\<close>: it accepts the largest integer, for which the length
  \<open>index + 1 - len(arr)\<close> that \<open>setArrayElement\<close> asks \<open>make\<close> for wraps to a negative number. Go panics
  there; the functions above describe indices for which the array can be made.
\<close>

lemma huge_index_accepted:
  "ParsePart (''a['' @ itoa int64_max @ '']'') = Inr (''a'', int64_max, True)"
  "wrap64 (int64_max + 1 - int (length ([] :: gval list))) < 0"
proof -
  show "ParsePart (''a['' @ itoa int64_max @ '']'') = Inr (''a'', int64_max, True)"
    using ParsePart_indexed [of "''a''" int64_max] by (simp add: int64_max_def)
  show "wrap64 (int64_max + 1 - int (length ([] :: gval list))) < 0"
    by (simp add: wrap64_def int64_max_def)
qed

end
