(* ===== verification/Urlsan.thy ===== *)
theory Urlsan
  imports Prelude
begin

text \<open>
  The URL redaction of \<open>internal/urlsan\<close>. URL parsing and rendering (\<open>net/url\<close>) and the
  search for URLs inside free text (the third-party \<open>xurls\<close>) are parameters, gathered in
  a \<open>url_env\<close>: \<open>url_parse\<close> is \<open>url.Parse\<close> (None for an error), \<open>url_render\<close> is
  \<open>URL.String\<close>, and \<open>url_spans\<close> splits a text into the segments \<open>xurls\<close> matches (marked
  True) and the text between them.
\<close>

text \<open>\<open>Kept\<close> stands for the URL fields the sanitizer leaves alone (scheme, host, path).\<close>

record parsed_url =
  Kept :: string
  RawQuery :: string
  Fragment :: string
  User :: "string option"

record url_env =
  url_parse :: "string \<Rightarrow> parsed_url option"
  url_render :: "parsed_url \<Rightarrow> string"
  url_spans :: "string \<Rightarrow> (bool \<times> string) list"

definition Sanitize :: "url_env \<Rightarrow> string \<Rightarrow> string" where
  "Sanitize env raw =
     (if raw = [] then []
      else (case url_parse env raw of
              None \<Rightarrow> ''[invalid URL]''
            | Some parsed \<Rightarrow> url_render env (parsed\<lparr>RawQuery := [], Fragment := [], User := None\<rparr>)))"

definition RedactText :: "url_env \<Rightarrow> string \<Rightarrow> string" where
  "RedactText env text =
     (if text = [] then []
      else concat (map (\<lambda>(is_url, s). if is_url then Sanitize env s else s) (url_spans env text)))"

text \<open>What an observer of the sanitized form may learn of a URL: only the kept fields.\<close>

definition same_public :: "url_env \<Rightarrow> string \<Rightarrow> string \<Rightarrow> bool" where
  "same_public env a b \<longleftrightarrow>
     a \<noteq> [] \<and> b \<noteq> [] \<and> map_option Kept (url_parse env a) = map_option Kept (url_parse env b)"

lemma Sanitize_same_public: "same_public env a b \<Longrightarrow> Sanitize env a = Sanitize env b"
  by (cases "url_parse env a"; cases "url_parse env b")
     (auto simp: same_public_def Sanitize_def intro!: arg_cong[where f = "url_render env"])

definition spans_agree :: "url_env \<Rightarrow> (bool \<times> string) list \<Rightarrow> (bool \<times> string) list \<Rightarrow> bool" where
  "spans_agree env xs ys \<longleftrightarrow>
     list_all2 (\<lambda>(u, s) (u', s'). u = u' \<and> (if u then same_public env s s' else s = s')) xs ys"

lemma spans_agree_redact:
  "spans_agree env xs ys \<Longrightarrow>
   map (\<lambda>(u, s). if u then Sanitize env s else s) xs
     = map (\<lambda>(u, s). if u then Sanitize env s else s) ys"
  unfolding spans_agree_def
  by (induction rule: list_all2_induct) (auto simp: Sanitize_same_public split: if_splits)

text \<open>A concrete environment: a URL is everything up to the first question mark.\<close>

definition demo_env :: url_env where
  "demo_env = \<lparr>
     url_parse = (\<lambda>s. Some \<lparr>Kept = takeWhile (\<lambda>c. c \<noteq> CHR ''?'') s,
                           RawQuery = dropWhile (\<lambda>c. c \<noteq> CHR ''?'') s,
                           Fragment = [], User = None\<rparr>),
     url_render = (\<lambda>u. Kept u @ RawQuery u @ Fragment u),
     url_spans = (\<lambda>s. [(False, take 5 s), (True, drop 5 s)])\<rparr>"

text \<open>Redaction hides secrets (non-interference): two messages whose text between URLs is
  the same and whose URLs differ only in query string, fragment or credentials are redacted
  to the same string, so nothing of those parts can reach a marker or a log line.\<close>

theorem RedactText_noninterference:
  assumes "spans_agree env (url_spans env t1) (url_spans env t2)"
    and "t1 \<noteq> []" and "t2 \<noteq> []"
  shows "RedactText env t1 = RedactText env t2"
  using spans_agree_redact [OF assms(1)] assms(2,3) by (simp add: RedactText_def)

theorem RedactText_noninterference_witness:
  "RedactText demo_env ''call http://h?k=1'' = RedactText demo_env ''call http://h?k=2''"
  by (rule RedactText_noninterference)
     (simp_all add: demo_env_def spans_agree_def same_public_def)

end
