(* ===== verification/Errors.thy ===== *)
theory Errors
  imports RecordPath Urlsan
begin

text \<open>
  The error classification of \<open>internal/errhandling/errors.go\<close> and
  \<open>internal/errhandling/module_error.go\<close>.

  A Go error is an interface value; the classifier only asks it for its text, whether it
  (or an error it wraps) is one of a few known values or types, and what it wraps. \<open>gerr\<close>
  keeps exactly that: a \<open>*ClassifiedError\<close>, or a node with its kind, its \<open>Error()\<close> text,
  the answer of its \<open>Timeout()\<close> method if it has one, its \<open>ModuleError\<close> accessors if it
  implements them, the result of its \<open>Classify()\<close> method if it is \<open>Classifiable\<close>, and the
  errors it wraps with one \<open>Unwrap() error\<close> or (last field True) an \<open>Unwrap() []error\<close>.
\<close>

subsection \<open>Errors\<close>

type_synonym category = string

abbreviation CategoryNetwork :: category where "CategoryNetwork \<equiv> ''network''"
abbreviation CategoryAuthentication :: category where "CategoryAuthentication \<equiv> ''authentication''"
abbreviation CategoryValidation :: category where "CategoryValidation \<equiv> ''validation''"
abbreviation CategoryRateLimit :: category where "CategoryRateLimit \<equiv> ''rate_limit''"
abbreviation CategoryServer :: category where "CategoryServer \<equiv> ''server''"
abbreviation CategoryNotFound :: category where "CategoryNotFound \<equiv> ''not_found''"
abbreviation CategoryUnknown :: category where "CategoryUnknown \<equiv> ''unknown''"

text \<open>
  The kinds the code tests for. \<open>KDeadlineExceeded\<close> and \<open>KCanceled\<close> are the context
  sentinels and the errors whose \<open>Is\<close> method answers for them; \<open>KHTTPError\<close> is
  \<open>httpclient.Error\<close> with its raw Retry-After header.
\<close>

datatype ekind =
    KPlain
  | KDeadlineExceeded
  | KCanceled
  | KOpError string string
  | KDNSError string
  | KURLError string string string
  | KHTTPError string

record modmeta =
  me_code :: string
  me_module :: string
  me_index :: int
  me_details :: grecord

datatype gerr =
    ClassifiedE classified
  | NodeE ekind string "bool option" "modmeta option" "classified option option" "gerr list" bool
and classified =
    Classified (Category: category) (Retryable: bool) (StatusCode: int) (Message: string)
               (OriginalErr: "gerr option")

definition ClassifiedError_Error :: "classified \<Rightarrow> string" where
  "ClassifiedError_Error e =
     (if StatusCode e > 0
      then Category e @ '' error (status '' @ itoa (StatusCode e) @ ''): '' @ Message e
      else Category e @ '' error: '' @ Message e)"

definition err_text :: "gerr \<Rightarrow> string" where
  "err_text e = (case e of ClassifiedE c \<Rightarrow> ClassifiedError_Error c | NodeE _ msg _ _ _ _ _ \<Rightarrow> msg)"

text \<open>\<open>fmt.Errorf\<close> with one \<open>%w\<close>: the text, and the error it wraps.\<close>

definition errorf :: "string \<Rightarrow> gerr \<Rightarrow> gerr" where
  "errorf msg w = NodeE KPlain msg None None None [w] False"

text \<open>\<open>errors.Is\<close> and \<open>errors.As\<close> walk an error and what it wraps, depth first.\<close>

fun err_chain :: "gerr \<Rightarrow> gerr list" where
  "err_chain (ClassifiedE (Classified c r s m None)) = [ClassifiedE (Classified c r s m None)]"
| "err_chain (ClassifiedE (Classified c r s m (Some e))) =
     ClassifiedE (Classified c r s m (Some e)) # err_chain e"
| "err_chain (NodeE k msg t mo cl ws multi) =
     NodeE k msg t mo cl ws multi # concat (map err_chain ws)"

fun first_some :: "('a \<Rightarrow> 'b option) \<Rightarrow> 'a list \<Rightarrow> 'b option" where
  "first_some f [] = None"
| "first_some f (x # xs) = (case f x of Some y \<Rightarrow> Some y | None \<Rightarrow> first_some f xs)"

lemma first_some_None: "first_some f xs = None \<longleftrightarrow> (\<forall>x \<in> set xs. f x = None)"
  by (induction xs) (auto split: option.split)

fun node_kind :: "gerr \<Rightarrow> ekind" where
  "node_kind (ClassifiedE c) = KPlain"
| "node_kind (NodeE k _ _ _ _ _ _) = k"

fun node_timeout :: "gerr \<Rightarrow> bool option" where
  "node_timeout (ClassifiedE c) = None"
| "node_timeout (NodeE _ _ t _ _ _ _) = t"

fun node_module :: "gerr \<Rightarrow> modmeta option" where
  "node_module (ClassifiedE c) = None"
| "node_module (NodeE _ _ _ mo _ _ _) = mo"

fun node_classify :: "gerr \<Rightarrow> classified option option" where
  "node_classify (ClassifiedE c) = None"
| "node_classify (NodeE _ _ _ _ cl _ _) = cl"

fun node_classified :: "gerr \<Rightarrow> classified option" where
  "node_classified (ClassifiedE c) = Some c"
| "node_classified (NodeE _ _ _ _ _ _ _) = None"

text \<open>\<open>errors.Unwrap\<close> follows only an \<open>Unwrap() error\<close>.\<close>

fun go_unwrap :: "gerr \<Rightarrow> gerr option" where
  "go_unwrap (ClassifiedE c) = OriginalErr c"
| "go_unwrap (NodeE _ _ _ _ _ [w] False) = Some w"
| "go_unwrap (NodeE _ _ _ _ _ _ _) = None"

definition is_deadline :: "gerr \<Rightarrow> bool" where
  "is_deadline err \<longleftrightarrow> list_ex (\<lambda>e. node_kind e = KDeadlineExceeded) (err_chain err)"

definition is_canceled :: "gerr \<Rightarrow> bool" where
  "is_canceled err \<longleftrightarrow> list_ex (\<lambda>e. node_kind e = KCanceled) (err_chain err)"

definition as_classified :: "gerr \<Rightarrow> classified option" where
  "as_classified err = first_some node_classified (err_chain err)"

definition as_op_error :: "gerr \<Rightarrow> (string \<times> string) option" where
  "as_op_error err =
     first_some (\<lambda>e. case node_kind e of KOpError op nt \<Rightarrow> Some (op, nt) | _ \<Rightarrow> None) (err_chain err)"

definition as_dns_error :: "gerr \<Rightarrow> string option" where
  "as_dns_error err =
     first_some (\<lambda>e. case node_kind e of KDNSError n \<Rightarrow> Some n | _ \<Rightarrow> None) (err_chain err)"

definition as_url_error :: "gerr \<Rightarrow> (string \<times> string \<times> string) option" where
  "as_url_error err =
     first_some (\<lambda>e. case node_kind e of KURLError op u t \<Rightarrow> Some (op, u, t) | _ \<Rightarrow> None) (err_chain err)"

definition as_timeout :: "gerr \<Rightarrow> bool option" where
  "as_timeout err = first_some node_timeout (err_chain err)"

definition AsModuleError :: "gerr option \<Rightarrow> modmeta option" where
  "AsModuleError err = (case err of None \<Rightarrow> None | Some e \<Rightarrow> first_some node_module (err_chain e))"

definition as_http_error :: "gerr \<Rightarrow> string option" where
  "as_http_error err =
     first_some (\<lambda>e. case node_kind e of KHTTPError ra \<Rightarrow> Some ra | _ \<Rightarrow> None) (err_chain err)"

text \<open>The first error of the chain that implements \<open>Classifiable\<close>.\<close>

definition as_classifiable :: "gerr \<Rightarrow> gerr option" where
  "as_classifiable err = find (\<lambda>e. node_classify e \<noteq> None) (err_chain err)"

lemma in_chain_size: "x \<in> set (err_chain e) \<Longrightarrow> size x \<le> size e"
proof (induction e rule: err_chain.induct)
  case (3 k msg t mo cl ws multi)
  show ?case
  proof (cases "x = NodeE k msg t mo cl ws multi")
    case False
    with "3.prems" obtain w where w: "w \<in> set ws" "x \<in> set (err_chain w)" by auto
    with "3.IH" have "size x \<le> size w" by blast
    also have "size w \<le> size_list size ws" using w(1) by (simp add: size_list_estimation')
    finally show ?thesis by simp
  qed simp
qed auto

lemma go_unwrap_size: "go_unwrap e = Some w \<Longrightarrow> size w < size e"
proof (induction e rule: go_unwrap.induct)
  case (1 c)
  then show ?case by (cases c) auto
qed auto

lemma as_classifiable_size: "as_classifiable e = Some c \<Longrightarrow> go_unwrap c = Some w \<Longrightarrow> size w < size e"
  using in_chain_size go_unwrap_size find_SomeD unfolding as_classifiable_def
  by (metis order.strict_trans2)

function classifyFromChain :: "gerr \<Rightarrow> classified option" where
  "classifyFromChain e =
     (case as_classifiable e of
        None \<Rightarrow> None
      | Some c \<Rightarrow>
          (case node_classify c of
             Some (Some cl) \<Rightarrow> Some cl
           | _ \<Rightarrow> (case go_unwrap c of None \<Rightarrow> None | Some w \<Rightarrow> classifyFromChain w)))"
  by pat_completeness auto
termination
  by (relation "measure size") (auto simp: as_classifiable_size)

declare classifyFromChain.simps [simp del]

definition explicitClassification :: "gerr \<Rightarrow> classified option" where
  "explicitClassification err =
     (case as_classified err of Some c \<Rightarrow> Some c | None \<Rightarrow> classifyFromChain err)"

subsection \<open>Classification\<close>

definition ClassifyHTTPStatus :: "int \<Rightarrow> string \<Rightarrow> classified" where
  "ClassifyHTTPStatus s msg =
     (if s = 401 then Classified CategoryAuthentication False s ''unauthorized'' None
      else if s = 403 then Classified CategoryAuthentication False s ''forbidden'' None
      else if s = 400 then Classified CategoryValidation False s ''bad request'' None
      else if s = 422 then Classified CategoryValidation False s ''unprocessable entity'' None
      else if s = 404 then Classified CategoryNotFound False s ''not found'' None
      else if s = 429 then Classified CategoryRateLimit True s ''rate limited'' None
      else if s = 500 then Classified CategoryServer True s ''internal server error'' None
      else if s = 502 then Classified CategoryServer True s ''bad gateway'' None
      else if s = 503 then Classified CategoryServer True s ''service unavailable'' None
      else if s = 504 then Classified CategoryServer True s ''gateway timeout'' None
      else if s \<ge> 500 then Classified CategoryServer True s ''server error'' None
      else if s \<ge> 400 then Classified CategoryValidation False s ''client error'' None
      else Classified CategoryUnknown True s msg None)"

definition ClassifyNetworkError :: "url_env \<Rightarrow> gerr option \<Rightarrow> classified" where
  "ClassifyNetworkError env err =
     (case err of
        None \<Rightarrow> Classified CategoryUnknown False 0 ''nil error'' None
      | Some e \<Rightarrow>
          if is_deadline e then Classified CategoryNetwork True 0 ''request timeout'' (Some e)
          else if is_canceled e then Classified CategoryNetwork False 0 ''context canceled'' (Some e)
          else (case as_op_error e of
              Some (op, nt) \<Rightarrow>
                Classified CategoryNetwork True 0 (''network error: '' @ op @ '' '' @ nt) (Some e)
            | None \<Rightarrow>
              (case as_dns_error e of
                 Some n \<Rightarrow> Classified CategoryNetwork True 0 (''DNS error: '' @ n) (Some e)
               | None \<Rightarrow>
                 (case as_url_error e of
                    Some (op, u, t) \<Rightarrow>
                      Classified CategoryNetwork True 0
                        (''URL error: '' @ op @ '' '' @ Sanitize env u @ '': '' @ t) (Some e)
                  | None \<Rightarrow>
                      if as_timeout e = Some True
                      then Classified CategoryNetwork True 0 ''timeout'' (Some e)
                      else Classified CategoryUnknown True 0 (err_text e) (Some e)))))"

definition ClassifyError :: "url_env \<Rightarrow> gerr option \<Rightarrow> classified" where
  "ClassifyError env err =
     (case err of
        None \<Rightarrow> Classified CategoryUnknown False 0 ''nil error'' None
      | Some e \<Rightarrow>
          (case explicitClassification e of
             Some cl \<Rightarrow> cl
           | None \<Rightarrow>
               if is_deadline e then Classified CategoryNetwork True 0 ''request timeout'' (Some e)
               else if is_canceled e then Classified CategoryNetwork False 0 ''context canceled'' (Some e)
               else if as_op_error e \<noteq> None \<or> as_dns_error e \<noteq> None \<or> as_url_error e \<noteq> None
               then ClassifyNetworkError env (Some e)
               else Classified CategoryUnknown True 0 (err_text e) (Some e)))"

definition IsRetryable :: "url_env \<Rightarrow> gerr option \<Rightarrow> bool" where
  "IsRetryable env err =
     (case err of
        None \<Rightarrow> False
      | Some e \<Rightarrow>
          (case as_classified e of
             Some c \<Rightarrow> Retryable c
           | None \<Rightarrow>
               if is_deadline e then True
               else if is_canceled e then False
               else Retryable (ClassifyError env (Some e))))"

definition GetErrorCategory :: "gerr option \<Rightarrow> category" where
  "GetErrorCategory err =
     (case err of
        None \<Rightarrow> CategoryUnknown
      | Some e \<Rightarrow> (case explicitClassification e of Some cl \<Rightarrow> Category cl | None \<Rightarrow> CategoryUnknown))"

definition IsFatal :: "gerr option \<Rightarrow> bool" where
  "IsFatal err =
     (case err of
        None \<Rightarrow> False
      | Some _ \<Rightarrow>
          GetErrorCategory err \<in> {CategoryAuthentication, CategoryValidation, CategoryNotFound})"

definition IsRetryableStatusCode :: "int \<Rightarrow> int list \<Rightarrow> bool" where
  "IsRetryableStatusCode statusCode retryableCodes = list_ex (\<lambda>code. statusCode = code) retryableCodes"

definition NewNetworkError :: "string \<Rightarrow> gerr option \<Rightarrow> classified" where
  "NewNetworkError message orig = Classified CategoryNetwork True 0 message orig"

definition NewAuthenticationError :: "int \<Rightarrow> string \<Rightarrow> gerr option \<Rightarrow> classified" where
  "NewAuthenticationError s message orig = Classified CategoryAuthentication False s message orig"

definition NewServerError :: "int \<Rightarrow> string \<Rightarrow> gerr option \<Rightarrow> classified" where
  "NewServerError s message orig = Classified CategoryServer True s message orig"

definition NewValidationError :: "int \<Rightarrow> string \<Rightarrow> gerr option \<Rightarrow> classified" where
  "NewValidationError s message orig = Classified CategoryValidation False s message orig"

definition NewRateLimitError :: "string \<Rightarrow> gerr option \<Rightarrow> classified" where
  "NewRateLimitError message orig = Classified CategoryRateLimit True 429 message orig"


subsection \<open>Walking the chain: facts\<close>

text \<open>\<open>fmt.Errorf("...: %w", e)\<close>.\<close>

definition wrap_err :: "string \<Rightarrow> gerr \<Rightarrow> gerr" where
  "wrap_err msg e = NodeE KPlain msg None None None [e] False"

lemma chain_wrap [simp]: "err_chain (wrap_err msg e) = wrap_err msg e # err_chain e"
  by (simp add: wrap_err_def)

lemma node_wrap [simp]: "node_kind (wrap_err msg e) = KPlain" "node_timeout (wrap_err msg e) = None"
  "node_module (wrap_err msg e) = None" "node_classify (wrap_err msg e) = None"
  "node_classified (wrap_err msg e) = None" "err_text (wrap_err msg e) = msg"
  by (simp_all add: wrap_err_def err_text_def)

lemma as_wrap [simp]:
  "is_deadline (wrap_err msg e) = is_deadline e" "is_canceled (wrap_err msg e) = is_canceled e"
  "as_classified (wrap_err msg e) = as_classified e" "as_op_error (wrap_err msg e) = as_op_error e"
  "as_dns_error (wrap_err msg e) = as_dns_error e" "as_url_error (wrap_err msg e) = as_url_error e"
  "as_timeout (wrap_err msg e) = as_timeout e" "as_classifiable (wrap_err msg e) = as_classifiable e"
  "AsModuleError (Some (wrap_err msg e)) = AsModuleError (Some e)"
  by (simp_all add: is_deadline_def is_canceled_def as_classified_def as_op_error_def as_dns_error_def
        as_url_error_def as_timeout_def as_classifiable_def AsModuleError_def)

lemma classifyFromChain_wrap [simp]: "classifyFromChain (wrap_err msg e) = classifyFromChain e"
  by (subst (1 2) classifyFromChain.simps) simp

lemma explicit_wrap [simp]: "explicitClassification (wrap_err msg e) = explicitClassification e"
  by (simp add: explicitClassification_def split: option.split)

lemma as_classified_ClassifiedE [simp]: "as_classified (ClassifiedE c) = Some c"
  by (cases c; cases "OriginalErr c") (auto simp: as_classified_def)

lemma explicit_ClassifiedE [simp]: "explicitClassification (ClassifiedE c) = Some c"
  by (simp add: explicitClassification_def)

lemma ClassifyError_ClassifiedE [simp]: "ClassifyError env (Some (ClassifiedE c)) = c"
  by (simp add: ClassifyError_def)

definition linear_err :: "gerr \<Rightarrow> bool" where
  "linear_err e \<longleftrightarrow>
     list_all (\<lambda>x. case x of NodeE _ _ _ _ _ ws multi \<Rightarrow> ws = [] \<or> (\<exists>w. ws = [w]) \<and> \<not> multi
                         | ClassifiedE _ \<Rightarrow> True) (err_chain e)"

lemma linear_chain:
  assumes "linear_err e"
  shows "err_chain e = e # (case go_unwrap e of None \<Rightarrow> [] | Some w \<Rightarrow> err_chain w)"
  using assms unfolding linear_err_def
  by (induction e rule: err_chain.induct) auto

lemma linear_unwrap: "linear_err e \<Longrightarrow> go_unwrap e = Some w \<Longrightarrow> linear_err w"
  using linear_chain [of e] by (auto simp: linear_err_def)

lemma classifyFromChain_step:
  assumes "linear_err e"
  shows "classifyFromChain e =
           (case node_classify e of
              Some (Some cl) \<Rightarrow> Some cl
            | _ \<Rightarrow> (case go_unwrap e of None \<Rightarrow> None | Some w \<Rightarrow> classifyFromChain w))"
proof (cases "node_classify e")
  case None
  have "as_classifiable e = (case go_unwrap e of None \<Rightarrow> None | Some w \<Rightarrow> as_classifiable w)"
    using None linear_chain [OF assms] by (auto simp: as_classifiable_def split: option.splits)
  then show ?thesis
    using None classifyFromChain.simps [of e] classifyFromChain.simps
    by (auto split: option.splits)
next
  case (Some co)
  then have "as_classifiable e = Some e"
    using linear_chain [OF assms] by (simp add: as_classifiable_def)
  then show ?thesis by (subst classifyFromChain.simps) simp
qed

lemma classifyFromChain_linear:
  "linear_err e \<Longrightarrow>
   classifyFromChain e = first_some (\<lambda>x. Option.bind (node_classify x) (\<lambda>cl. cl)) (err_chain e)"
proof (induction e rule: measure_induct_rule [of size])
  case (less e)
  have tail: "(case go_unwrap e of None \<Rightarrow> None | Some w \<Rightarrow> classifyFromChain w)
      = first_some (\<lambda>x. Option.bind (node_classify x) (\<lambda>cl. cl))
          (case go_unwrap e of None \<Rightarrow> [] | Some w \<Rightarrow> err_chain w)"
    using less.IH less.prems
    by (auto simp: go_unwrap_size linear_unwrap split: option.splits)
  show ?case
    unfolding classifyFromChain_step [OF less.prems] linear_chain [OF less.prems]
    by (cases "node_classify e" rule: option.exhaust)
       (auto simp: tail split: option.splits)
qed

subsection \<open>Properties\<close>

text \<open>HTTP statuses: exactly 429, every status from 500 up, and the statuses below 400 that
  reach the classifier are retried by default; the category is network-side (rate limit or
  server) exactly for 429 and from 500 up, and the verdict keeps the status code.\<close>

theorem ClassifyHTTPStatus_verdict:
  "Retryable (ClassifyHTTPStatus s msg) = (s = 429 \<or> s \<ge> 500 \<or> s < 400)
   \<and> (Category (ClassifyHTTPStatus s msg) \<in> {CategoryRateLimit, CategoryServer}) = (s = 429 \<or> s \<ge> 500)
   \<and> IsFatal (Some (ClassifiedE (ClassifyHTTPStatus s msg))) = (\<not> Retryable (ClassifyHTTPStatus s msg))
   \<and> StatusCode (ClassifyHTTPStatus s msg) = s"
  by (simp add: ClassifyHTTPStatus_def IsFatal_def GetErrorCategory_def)

text \<open>Context wrapping is transparent: wrapping an error with \<open>fmt.Errorf("...: %w")\<close>,
  as every layer of the runtime does, never changes its category, its retryability, its status
  code or whether it is reported fatal.\<close>

theorem ClassifyError_wrap_invariant:
  "Category (ClassifyError env (Some (wrap_err msg e))) = Category (ClassifyError env (Some e))
   \<and> Retryable (ClassifyError env (Some (wrap_err msg e))) = Retryable (ClassifyError env (Some e))
   \<and> StatusCode (ClassifyError env (Some (wrap_err msg e))) = StatusCode (ClassifyError env (Some e))
   \<and> IsFatal (Some (wrap_err msg e)) = IsFatal (Some e)
   \<and> IsRetryable env (Some (wrap_err msg e)) = IsRetryable env (Some e)"
proof -
  have net: "Category (ClassifyNetworkError env (Some (wrap_err msg e))) = Category (ClassifyNetworkError env (Some e))
     \<and> Retryable (ClassifyNetworkError env (Some (wrap_err msg e))) = Retryable (ClassifyNetworkError env (Some e))
     \<and> StatusCode (ClassifyNetworkError env (Some (wrap_err msg e))) = StatusCode (ClassifyNetworkError env (Some e))"
    by (cases "as_op_error e"; cases "as_dns_error e"; cases "as_url_error e")
       (simp_all add: ClassifyNetworkError_def case_prod_beta)
  have fatal: "IsFatal (Some (wrap_err msg e)) = IsFatal (Some e)"
    by (simp add: IsFatal_def GetErrorCategory_def)
  show ?thesis
    using net fatal
    by (cases "explicitClassification e"; cases "as_classified e")
       (simp_all add: ClassifyError_def IsRetryable_def)
qed

text \<open>On an error chain built from single wraps, \<open>classifyFromChain\<close> answers with the first
  error of the chain that implements \<open>Classifiable\<close> and does not decline: the walk that skips
  past declining errors is the plain left-to-right search.\<close>

theorem classifyFromChain_first:
  assumes "linear_err e"
  shows "classifyFromChain e = first_some (\<lambda>x. Option.bind (node_classify x) (\<lambda>cl. cl)) (err_chain e)"
  using assms by (rule classifyFromChain_linear)

definition demo_classified :: classified where
  "demo_classified = Classified CategoryValidation False 0 ''bad'' None"

definition demo_chain :: gerr where
  "demo_chain = wrap_err ''outer'' (NodeE KPlain ''declines'' None None (Some None)
     [NodeE KPlain ''inner'' None None (Some (Some demo_classified)) [] False] False)"

theorem classifyFromChain_first_witness: "classifyFromChain demo_chain = Some demo_classified"
proof -
  have "linear_err demo_chain" by (simp add: demo_chain_def linear_err_def wrap_err_def)
  from classifyFromChain_first [OF this] show ?thesis by (simp add: demo_chain_def)
qed

text \<open>\<open>IsRetryable\<close> and \<open>ClassifyError\<close> give the same verdict on every error that carries a
  \<open>ClassifiedError\<close> or does not wrap a context error. (They part on a \<open>Classifiable\<close> module error
  that wraps a context error: see \<open>IsRetryable_ClassifyError_disagree\<close>.)\<close>

theorem IsRetryable_ClassifyError:
  assumes "as_classified e \<noteq> None \<or> (\<not> is_deadline e \<and> \<not> is_canceled e) \<or> classifyFromChain e = None"
  shows "IsRetryable env (Some e) = Retryable (ClassifyError env (Some e))"
  using assms by (auto simp: IsRetryable_def ClassifyError_def explicitClassification_def split: option.splits)

theorem IsRetryable_ClassifyError_witness:
  "IsRetryable demo_env (Some demo_chain) = Retryable (ClassifyError demo_env (Some demo_chain))"
  by (rule IsRetryable_ClassifyError)
     (simp add: demo_chain_def is_deadline_def is_canceled_def wrap_err_def)

text \<open>A validation failure that wraps an expired deadline: classified final, yet retryable.\<close>

definition demo_disagree :: gerr where
  "demo_disagree = NodeE KPlain ''query failed'' None None (Some (Some demo_classified))
     [NodeE KDeadlineExceeded ''context deadline exceeded'' (Some True) None None [] False] False"

theorem IsRetryable_ClassifyError_disagree:
  "IsRetryable env (Some demo_disagree) \<and> \<not> Retryable (ClassifyError env (Some demo_disagree))"
proof -
  have "classifyFromChain demo_disagree = Some demo_classified"
    by (subst classifyFromChain.simps) (simp add: demo_disagree_def as_classifiable_def)
  moreover have "as_classified demo_disagree = None" "is_deadline demo_disagree"
    by (simp_all add: demo_disagree_def as_classified_def is_deadline_def)
  ultimately show ?thesis
    by (simp add: IsRetryable_def ClassifyError_def explicitClassification_def demo_classified_def)
qed

end
