(* ===== verification/Markers.thy ===== *)
theory Markers
  imports Errors
begin

text \<open>
  Error markers: \<open>internal/errhandling/marker.go\<close> (overrides, marker construction, the
  reserved record field), \<open>marker_tally.go\<close> (the per-run counters) and \<open>record_error.go\<close>
  (what a failed record becomes under an onError strategy). The tally a context carries is an
  explicit state component; \<open>None\<close> is the nil tally of a module run outside a pipeline.
\<close>

subsection \<open>Markers\<close>

definition RecordErrorsField :: string where "RecordErrorsField = ''_errors''"

record marker =
  mk_Module :: string
  mk_Category :: category
  mk_Retryable :: bool
  mk_Code :: string
  mk_StatusCode :: int
  mk_Message :: string
  mk_Attempts :: int
  mk_RecordIndex :: int

record overrides =
  Functional :: "int list"
  Technical :: "int list"

record marker_source =
  ms_Module :: string
  ms_RecordIndex :: int
  ms_Attempts :: int
  ms_Overrides :: overrides

definition overrides_IsEmpty :: "overrides \<Rightarrow> bool" where
  "overrides_IsEmpty o' \<longleftrightarrow> length (Functional o') = 0 \<and> length (Technical o') = 0"

definition isTechnicalCategory :: "category \<Rightarrow> bool" where
  "isTechnicalCategory c =
     (if c \<in> {CategoryNetwork, CategoryServer, CategoryRateLimit} then True else False)"

definition apply_overrides :: "overrides \<Rightarrow> int \<Rightarrow> category \<Rightarrow> bool \<Rightarrow> category \<times> bool" where
  "apply_overrides o' statusCode category retryable =
     (if statusCode = 0 \<or> overrides_IsEmpty o' then (category, retryable)
      else if statusCode \<in> set (Functional o') then
        (if isTechnicalCategory category \<or> category = CategoryUnknown then (CategoryValidation, False)
         else (category, False))
      else if statusCode \<in> set (Technical o') then
        (if \<not> isTechnicalCategory category then (CategoryServer, True) else (category, True))
      else (category, retryable))"

definition NewMarker :: "url_env \<Rightarrow> marker_source \<Rightarrow> gerr option \<Rightarrow> marker" where
  "NewMarker env src err =
     (let m = \<lparr>mk_Module = ms_Module src, mk_Category = CategoryUnknown, mk_Retryable = False,
               mk_Code = [], mk_StatusCode = 0, mk_Message = [], mk_Attempts = ms_Attempts src,
               mk_RecordIndex = ms_RecordIndex src\<rparr>
      in (case err of
            None \<Rightarrow> m
          | Some e \<Rightarrow>
              let cl = ClassifyError env err;
                  (cat, retry) = apply_overrides (ms_Overrides src) (StatusCode cl) (Category cl) (Retryable cl);
                  m = m\<lparr>mk_StatusCode := StatusCode cl, mk_Category := cat, mk_Retryable := retry,
                        mk_Message := RedactText env (err_text e)\<rparr>
              in (case AsModuleError err of
                    None \<Rightarrow> m
                  | Some me \<Rightarrow>
                      let m = (if me_code me \<noteq> [] then m\<lparr>mk_Code := me_code me\<rparr> else m);
                          m = (if mk_Module m = [] then m\<lparr>mk_Module := me_module me\<rparr> else m)
                      in (if mk_RecordIndex m < 0 \<and> me_index me \<ge> 0
                          then m\<lparr>mk_RecordIndex := me_index me\<rparr> else m))))"

definition marker_Map :: "marker \<Rightarrow> grecord" where
  "marker_Map m =
     (let out = [''module'' \<mapsto> GStr (mk_Module m), ''category'' \<mapsto> GStr (mk_Category m),
                 ''retryable'' \<mapsto> GBool (mk_Retryable m), ''message'' \<mapsto> GStr (mk_Message m)];
          out = (if mk_Code m \<noteq> [] then out(''code'' \<mapsto> GStr (mk_Code m)) else out);
          out = (if mk_StatusCode m \<noteq> 0 then out(''statusCode'' \<mapsto> GInt (mk_StatusCode m)) else out);
          out = (if mk_Attempts m > 0 then out(''attempts'' \<mapsto> GInt (mk_Attempts m)) else out)
      in (if mk_RecordIndex m \<ge> 0 then out(''recordIndex'' \<mapsto> GInt (mk_RecordIndex m)) else out))"

definition AnnotateRecord :: "grecord option \<Rightarrow> marker \<Rightarrow> grecord" where
  "AnnotateRecord record m =
     (let r = (case record of None \<Rightarrow> Map.empty | Some r \<Rightarrow> r);
          existing = (case Option.bind (r RecordErrorsField) as_arr of None \<Rightarrow> [] | Some xs \<Rightarrow> xs)
      in r(RecordErrorsField \<mapsto> GArr (existing @ [GMap (marker_Map m)])))"

definition RecordMarkers :: "grecord option \<Rightarrow> grecord list option" where
  "RecordMarkers record =
     (case Option.bind record (\<lambda>r. Option.bind (r RecordErrorsField) as_arr) of
        None \<Rightarrow> None
      | Some raw \<Rightarrow>
          (let out = List.map_filter as_map raw
           in if raw = [] \<or> out = [] then None else Some out))"

definition HasMarkers :: "grecord option \<Rightarrow> bool" where
  "HasMarkers record \<longleftrightarrow> (case RecordMarkers record of None \<Rightarrow> False | Some ms \<Rightarrow> length ms > 0)"

definition IsReservedRecordPath :: "string \<Rightarrow> bool" where
  "IsReservedRecordPath path \<longleftrightarrow>
     takeWhile (\<lambda>c. c \<noteq> CHR ''.'' \<and> c \<noteq> CHR ''['') path = RecordErrorsField"

datatype target_error = ErrReservedTarget string

definition ValidateRecordTarget :: "string \<Rightarrow> target_error option" where
  "ValidateRecordTarget path =
     (if IsReservedRecordPath path then Some (ErrReservedTarget path) else None)"

subsection \<open>The tally\<close>

type_synonym tally = "string \<Rightarrow> int option"

definition NewMarkerTally :: tally where "NewMarkerTally = Map.empty"

definition tally_Record :: "tally option \<Rightarrow> category \<Rightarrow> tally option" where
  "tally_Record t category =
     (case t of
        None \<Rightarrow> None
      | Some counts \<Rightarrow>
          let c = (if category = [] then CategoryUnknown else category)
          in Some (counts(c \<mapsto> (case counts c of None \<Rightarrow> 0 | Some n \<Rightarrow> n) + 1)))"

definition tally_Counts :: "tally option \<Rightarrow> tally option" where
  "tally_Counts t =
     (case t of None \<Rightarrow> None | Some counts \<Rightarrow> if counts = Map.empty then None else Some counts)"

subsection \<open>onError strategies\<close>

type_synonym strategy = string

abbreviation OnErrorFail :: strategy where "OnErrorFail \<equiv> ''fail''"
abbreviation OnErrorSkip :: strategy where "OnErrorSkip \<equiv> ''skip''"
abbreviation OnErrorLog :: strategy where "OnErrorLog \<equiv> ''log''"

datatype strategy_error = ErrInvalidStrategy string

definition ParseOnErrorStrategy :: "string \<Rightarrow> strategy_error + strategy" where
  "ParseOnErrorStrategy s =
     (let n = to_lower (trim_space s)
      in if n = [] then Inr OnErrorFail
         else if n = ''fail'' then Inr OnErrorFail
         else if n = ''skip'' then Inr OnErrorSkip
         else if n = ''log'' then Inr OnErrorLog
         else Inl (ErrInvalidStrategy s))"

datatype outcome = OutcomeStop | OutcomeDrop | OutcomeKeep

fun outcome_String :: "outcome \<Rightarrow> string" where
  "outcome_String OutcomeStop = ''stop''"
| "outcome_String OutcomeDrop = ''drop''"
| "outcome_String OutcomeKeep = ''keep''"

definition HandleRecordError ::
  "url_env \<Rightarrow> tally option \<Rightarrow> strategy \<Rightarrow> grecord option \<Rightarrow> marker_source \<Rightarrow> gerr option
   \<Rightarrow> outcome \<times> grecord option \<times> tally option" where
  "HandleRecordError env t strategy record src err =
     (if strategy = OnErrorSkip then (OutcomeDrop, None, t)
      else if strategy = OnErrorLog then
        (let marker = NewMarker env src err
         in (OutcomeKeep, Some (AnnotateRecord record marker), tally_Record t (mk_Category marker)))
      else if strategy = OnErrorFail then (OutcomeStop, None, t)
      else (OutcomeStop, None, t))"

subsection \<open>Facts\<close>

lemma ParseOnErrorStrategy_valid:
  "ParseOnErrorStrategy s = Inr st \<Longrightarrow> st \<in> {OnErrorFail, OnErrorSkip, OnErrorLog}"
  by (auto simp: ParseOnErrorStrategy_def Let_def split: if_splits)

lemma HandleRecordError_simps [outcome_simps]:
  "HandleRecordError env t OnErrorFail r src e = (OutcomeStop, None, t)"
  "HandleRecordError env t OnErrorSkip r src e = (OutcomeDrop, None, t)"
  "HandleRecordError env t OnErrorLog r src e =
     (OutcomeKeep, Some (AnnotateRecord r (NewMarker env src e)),
      tally_Record t (mk_Category (NewMarker env src e)))"
  by (simp_all add: HandleRecordError_def Let_def)

lemma reserved_iff_seg_key:
  "IsReservedRecordPath path \<longleftrightarrow> seg_key (takeWhile (\<lambda>c. c \<noteq> CHR ''.'') path) = RecordErrorsField"
  by (simp add: IsReservedRecordPath_def takeWhile_takeWhile_neq)

lemma map_filter_snoc_map [simp]:
  "List.map_filter as_map (xs @ [GMap m]) = List.map_filter as_map xs @ [m]"
  by (simp add: List.map_filter_def)

lemma map_filter_Nil [simp]: "List.map_filter f [] = []"
  by (simp add: List.map_filter_def)

lemma marker_list_of_annotated:
  "RecordMarkers (Some (AnnotateRecord r m))
     = Some ((case RecordMarkers r of None \<Rightarrow> [] | Some ms \<Rightarrow> ms) @ [marker_Map m])"
proof (cases "Option.bind r (\<lambda>r. Option.bind (r RecordErrorsField) as_arr)")
  case None
  have "(case Option.bind ((case r of None \<Rightarrow> Map.empty | Some r \<Rightarrow> r) RecordErrorsField) as_arr of
           None \<Rightarrow> [] | Some xs \<Rightarrow> xs) = []"
    using None by (cases r) auto
  with None show ?thesis by (simp add: RecordMarkers_def AnnotateRecord_def)
next
  case (Some raw)
  then obtain r' where r: "r = Some r'" "Option.bind (r' RecordErrorsField) as_arr = Some raw"
    by (cases r) auto
  then show ?thesis by (auto simp: RecordMarkers_def AnnotateRecord_def Let_def)
qed

text \<open>The total a tally counts.\<close>

definition tally_total :: "tally \<Rightarrow> int" where
  "tally_total t = (\<Sum>c \<in> dom t. the (t c))"

lemma tally_total_record:
  assumes "finite (dom t)" "tally_Record (Some t) c = Some t'"
  shows "finite (dom t') \<and> tally_total t' = tally_total t + 1"
proof -
  define k where "k = (if c = [] then CategoryUnknown else c)"
  have t': "t' = t(k \<mapsto> (case t k of None \<Rightarrow> 0 | Some n \<Rightarrow> n) + 1)"
    using assms(2) by (simp add: tally_Record_def Let_def k_def)
  have rest: "(\<Sum>x \<in> dom t - {k}. the (t' x)) = (\<Sum>x \<in> dom t - {k}. the (t x))"
    by (rule sum.cong) (auto simp: t')
  have "tally_total t' = the (t' k) + (\<Sum>x \<in> dom t - {k}. the (t' x))"
    using assms(1) by (simp add: tally_total_def t' sum.insert_remove)
  moreover have "tally_total t = (case t k of None \<Rightarrow> 0 | Some n \<Rightarrow> n) + (\<Sum>x \<in> dom t - {k}. the (t x))"
    using assms(1) by (cases "t k") (auto simp: tally_total_def sum.remove [of _ k] domIff)
  ultimately show ?thesis using assms(1) rest by (simp add: t')
qed


lemma AnnotateRecord_other:
  "k \<noteq> RecordErrorsField \<Longrightarrow> AnnotateRecord (Some r) m k = r k"
  by (simp add: AnnotateRecord_def Let_def)

lemma RecordMarkers_cong:
  "r RecordErrorsField = r' RecordErrorsField \<Longrightarrow> RecordMarkers (Some r) = RecordMarkers (Some r')"
  by (simp add: RecordMarkers_def)

lemma Set_reserved_frame:
  "\<not> IsReservedRecordPath path \<Longrightarrow> snd (Set r path v) RecordErrorsField = r RecordErrorsField"
  by (metis Set_root_frame reserved_iff_seg_key)

lemma Delete_reserved_frame:
  "\<not> IsReservedRecordPath path \<Longrightarrow> Delete r path RecordErrorsField = r RecordErrorsField"
  by (metis Delete_root_frame reserved_iff_seg_key)

lemma isTechnicalCategory_consts [simp]:
  "isTechnicalCategory CategoryServer" "isTechnicalCategory CategoryNetwork"
  "isTechnicalCategory CategoryRateLimit" "\<not> isTechnicalCategory CategoryValidation"
  "\<not> isTechnicalCategory CategoryNotFound" "\<not> isTechnicalCategory CategoryUnknown"
  "\<not> isTechnicalCategory CategoryAuthentication"
  by (simp_all add: isTechnicalCategory_def)

subsection \<open>Properties\<close>

text \<open>The trace cannot be forged by a field write: a path the target validation accepts
  leaves the markers of a record as they were, whether a value is written there or deleted,
  through every nesting and array index the path language allows.\<close>

theorem reserved_markers_protected:
  assumes "ValidateRecordTarget path = None"
  shows "RecordMarkers (Some (snd (Set r path v))) = RecordMarkers (Some r)
         \<and> RecordMarkers (Some (Delete r path)) = RecordMarkers (Some r)"
  using assms
  by (auto simp: ValidateRecordTarget_def Set_reserved_frame Delete_reserved_frame
           intro!: RecordMarkers_cong split: if_splits)

theorem reserved_markers_protected_witness:
  "RecordMarkers (Some (snd (Set [''_errors'' \<mapsto> GArr [GMap Map.empty]] ''payload._errors[0]'' (GInt 1))))
     = Some [Map.empty]"
proof -
  have "ValidateRecordTarget ''payload._errors[0]'' = None"
    by (simp add: ValidateRecordTarget_def IsReservedRecordPath_def RecordErrorsField_def)
  from reserved_markers_protected [OF this, of "[''_errors'' \<mapsto> GArr [GMap Map.empty]]" "GInt 1"]
  show ?thesis by (simp add: RecordMarkers_def RecordErrorsField_def List.map_filter_def)
qed

text \<open>The check is exact: a rejected path is one whose write lands in the reserved key, so a
  write there always replaces or extends what the record holds under \<open>_errors\<close>.\<close>

theorem reserved_path_writes_errors:
  assumes "ValidateRecordTarget path \<noteq> None" and "fst (Set Map.empty path v) = None"
  shows "snd (Set Map.empty path v) RecordErrorsField \<noteq> None
         \<and> (\<forall>k. k \<noteq> RecordErrorsField \<longrightarrow> snd (Set Map.empty path v) k = None)"
proof -
  have key: "seg_key (takeWhile (\<lambda>c. c \<noteq> CHR ''.'') path) = RecordErrorsField"
    using assms(1) by (auto simp: ValidateRecordTarget_def reserved_iff_seg_key split: if_splits)
  have path: "path \<noteq> []" using assms(2) by (auto simp: Set_def)
  have nav: "Get (snd (Set Map.empty path v)) path = Some v"
    using assms(2) path set_loop_nav [of Map.empty "split_on (CHR ''.'') path" v]
    by (simp add: Get_eq Set_def prod_eq_iff)
  have "snd (Set Map.empty path v) RecordErrorsField \<noteq> None"
  proof
    assume none: "snd (Set Map.empty path v) RecordErrorsField = None"
    obtain p ps where ps: "split_on (CHR ''.'') path = p # ps"
      by (cases "split_on (CHR ''.'') path") auto
    then have "p = takeWhile (\<lambda>c. c \<noteq> CHR ''.'') path" using hd_split_on [of "CHR ''.''" path] by simp
    with none key have "navigateStep (GMap (snd (Set Map.empty path v))) p
                          = navigateStep (GMap Map.empty) p"
      by (intro navigateStep_cong_key) simp
    then have "nav_loop (GMap (snd (Set Map.empty path v))) (p # ps) = None"
      using nav_loop_empty [of p ps] by simp
    with nav ps path show False by (simp add: Get_eq)
  qed
  then show ?thesis using Set_root_frame [of _ path Map.empty v] key by auto
qed

theorem reserved_path_writes_errors_witness:
  "snd (Set Map.empty ''_errors[1].x'' (GInt 1)) RecordErrorsField \<noteq> None"
proof -
  have "ValidateRecordTarget ''_errors[1].x'' \<noteq> None"
    by (simp add: ValidateRecordTarget_def IsReservedRecordPath_def RecordErrorsField_def)
  moreover have "fst (Set Map.empty ''_errors[1].x'' (GInt 1)) = None" by code_simp
  ultimately show ?thesis using reserved_path_writes_errors by blast
qed

text \<open>Markers accumulate: annotating a record appends exactly one marker after those it
  carries, keeps every other field, and a nil record is materialised.\<close>

theorem AnnotateRecord_appends:
  "RecordMarkers (Some (AnnotateRecord r m))
     = Some ((case RecordMarkers r of None \<Rightarrow> [] | Some ms \<Rightarrow> ms) @ [marker_Map m])
   \<and> (k \<noteq> RecordErrorsField \<longrightarrow> AnnotateRecord r m k = Option.bind r (\<lambda>r. r k))"
  by (rule conjI [OF marker_list_of_annotated]) (cases r; simp add: AnnotateRecord_def Let_def)

theorem AnnotateRecord_appends_witness:
  "RecordMarkers (Some (AnnotateRecord None (NewMarker demo_env
      \<lparr>ms_Module = ''set'', ms_RecordIndex = 0, ms_Attempts = 0,
       ms_Overrides = \<lparr>Functional = [], Technical = []\<rparr>\<rparr> None))) \<noteq> None
   \<and> AnnotateRecord (Some [''id'' \<mapsto> GInt 1]) (NewMarker demo_env
      \<lparr>ms_Module = ''set'', ms_RecordIndex = 0, ms_Attempts = 0,
       ms_Overrides = \<lparr>Functional = [], Technical = []\<rparr>\<rparr> None) ''id'' = Some (GInt 1)"
  using AnnotateRecord_appends [of None] AnnotateRecord_appends [of "Some [''id'' \<mapsto> GInt 1]" _ "''id''"]
  by (simp add: RecordErrorsField_def)

text \<open>Classification overrides: for a marker built with overrides the verdict and the category
  never contradict each other. A status listed as functional is final even when it is also listed
  as technical, with a category that is not a transport one; a status listed only as technical is
  retryable with a transport category; any other status keeps the classifier's own verdict.\<close>

theorem NewMarker_overrides:
  fixes src err env
  defines "m \<equiv> NewMarker env src (Some err)" and "cl \<equiv> ClassifyError env (Some err)"
  shows "mk_StatusCode m = StatusCode cl
    \<and> (StatusCode cl \<noteq> 0 \<and> StatusCode cl \<in> set (Functional (ms_Overrides src)) \<longrightarrow>
         \<not> mk_Retryable m \<and> \<not> isTechnicalCategory (mk_Category m) \<and> mk_Category m \<noteq> CategoryUnknown)
    \<and> (StatusCode cl \<noteq> 0 \<and> StatusCode cl \<in> set (Technical (ms_Overrides src))
         \<and> StatusCode cl \<notin> set (Functional (ms_Overrides src)) \<longrightarrow>
         mk_Retryable m \<and> isTechnicalCategory (mk_Category m))
    \<and> (StatusCode cl = 0 \<or> StatusCode cl \<notin> set (Functional (ms_Overrides src))
                          \<union> set (Technical (ms_Overrides src)) \<longrightarrow>
         mk_Retryable m = Retryable cl \<and> mk_Category m = Category cl)"
proof -
  have shape: "mk_StatusCode m = StatusCode cl \<and> (mk_Category m, mk_Retryable m)
      = apply_overrides (ms_Overrides src) (StatusCode cl) (Category cl) (Retryable cl)"
    unfolding m_def cl_def
    by (cases "AsModuleError (Some err)") (auto simp: NewMarker_def Let_def case_prod_beta)
  then show ?thesis
    by (auto simp: apply_overrides_def overrides_IsEmpty_def split: if_splits)
qed

definition demo_source :: marker_source where
  "demo_source = \<lparr>ms_Module = ''http_call'', ms_RecordIndex = 0, ms_Attempts = 1,
     ms_Overrides = \<lparr>Functional = [503], Technical = [503, 409]\<rparr>\<rparr>"

theorem NewMarker_overrides_witness:
  "\<not> mk_Retryable (NewMarker demo_env demo_source (Some (ClassifiedE (ClassifyHTTPStatus 503 []))))
   \<and> mk_Retryable (NewMarker demo_env demo_source (Some (ClassifiedE (ClassifyHTTPStatus 409 []))))"
  using NewMarker_overrides [of demo_env demo_source "ClassifiedE (ClassifyHTTPStatus 503 [])"]
    NewMarker_overrides [of demo_env demo_source "ClassifiedE (ClassifyHTTPStatus 409 [])"]
  by (simp add: demo_source_def ClassifyHTTPStatus_def)

text \<open>The run's counters count every marker and nothing else: handling a failed record adds one
  to the tally when the record is kept with a marker, and leaves it alone when the record is
  dropped or the run stops.\<close>

theorem HandleRecordError_tally:
  assumes "finite (dom t)"
    and "HandleRecordError env (Some t) strategy record src err = (oc, r', Some t')"
  shows "tally_total t' = tally_total t + (if oc = OutcomeKeep then 1 else 0)
         \<and> (oc = OutcomeKeep) = (strategy = OnErrorLog) \<and> (oc = OutcomeKeep) = (r' \<noteq> None)"
  using assms tally_total_record
  by (auto simp: HandleRecordError_def Let_def split: if_splits)

theorem HandleRecordError_tally_witness:
  "tally_total (the (snd (snd (HandleRecordError demo_env (Some NewMarkerTally) OnErrorLog None demo_source None)))) = 1"
proof -
  let ?h = "HandleRecordError demo_env (Some NewMarkerTally) OnErrorLog None demo_source None"
  obtain oc r' t' where h: "?h = (oc, r', Some t')"
    by (auto simp: HandleRecordError_simps tally_Record_def Let_def NewMarkerTally_def)
  have "finite (dom NewMarkerTally)" by (simp add: NewMarkerTally_def)
  from HandleRecordError_tally [OF this h] h show ?thesis
    by (simp add: HandleRecordError_simps tally_total_def NewMarkerTally_def)
qed

end
