(* ===== verification/Retry.thy ===== *)
theory Retry
  imports Markers
begin

text \<open>
  The retry policy of \<open>pkg/connector/retry.go\<close> (validation, exponential backoff, status
  list) and the retry executor of \<open>internal/errhandling/retry.go\<close>.

  Durations are nanoseconds in a wrapping int64, as \<open>time.Duration\<close> is. Float64 arithmetic
  on the backoff (\<open>float64(n)\<close>, \<open>*\<close>, \<open>math.Pow\<close>) is a \<open>float_ops\<close> parameter, so that no
  theorem depends on a particular rounding; what the proofs need of it is the named
  hypothesis \<open>float_sound\<close>.

  The executor runs in a world of type \<open>'w\<close>, which carries whatever the retried function,
  the callback and the waiting change. \<open>ctx_done\<close> is the non-blocking look at \<open>ctx.Done()\<close>
  with the error \<open>ctx.Err()\<close> gives; \<open>wait_delay\<close> is the select between \<open>ctx.Done()\<close> and the
  timer, and says whether the context won.
\<close>

subsection \<open>Configuration\<close>

record RetryConfig =
  MaxAttempts :: int
  DelayMs :: int
  BackoffMultiplier :: go_float
  MaxDelayMs :: int
  RetryableStatusCodes :: "int list"
  UseRetryAfterHeader :: bool
  RetryHintFromBody :: string

definition MaxRetryAttempts :: int where "MaxRetryAttempts = 10"

definition MinBackoffMultiplier :: go_float where "MinBackoffMultiplier = FFin 1"

definition DefaultRetryableStatusCodes :: "int list" where
  "DefaultRetryableStatusCodes = [429, 500, 502, 503, 504]"

definition DefaultRetryConfig :: RetryConfig where
  "DefaultRetryConfig = \<lparr>MaxAttempts = 3, DelayMs = 1000, BackoffMultiplier = FFin 2,
     MaxDelayMs = 30000, RetryableStatusCodes = DefaultRetryableStatusCodes,
     UseRetryAfterHeader = False, RetryHintFromBody = []\<rparr>"

fun float_less :: "go_float \<Rightarrow> go_float \<Rightarrow> bool" where
  "float_less FNaN _ = False"
| "float_less _ FNaN = False"
| "float_less (FFin a) (FFin b) = (a < b)"
| "float_less FNegInf b = (b \<noteq> FNegInf)"
| "float_less _ FNegInf = False"
| "float_less FPosInf _ = False"
| "float_less (FFin _) FPosInf = True"

datatype retry_config_error =
    ErrMaxAttemptsNegative
  | ErrMaxAttemptsTooLarge
  | ErrDelayNegative
  | ErrBackoffTooSmall
  | ErrMaxDelayNegative

definition RetryConfig_Validate :: "RetryConfig \<Rightarrow> retry_config_error option" where
  "RetryConfig_Validate c =
     (if MaxAttempts c < 0 then Some ErrMaxAttemptsNegative
      else if MaxAttempts c > MaxRetryAttempts then Some ErrMaxAttemptsTooLarge
      else if DelayMs c < 0 then Some ErrDelayNegative
      else if float_less (BackoffMultiplier c) MinBackoffMultiplier then Some ErrBackoffTooSmall
      else if MaxDelayMs c < 0 then Some ErrMaxDelayNegative
      else None)"

definition IsStatusCodeRetryable :: "RetryConfig \<Rightarrow> int \<Rightarrow> bool" where
  "IsStatusCodeRetryable c statusCode = list_ex (\<lambda>code. statusCode = code) (RetryableStatusCodes c)"

record float_ops =
  f_of_int :: "int \<Rightarrow> go_float"
  f_mul :: "go_float \<Rightarrow> go_float \<Rightarrow> go_float"
  f_pow :: "go_float \<Rightarrow> go_float \<Rightarrow> go_float"
  f_to_int64_special :: "go_float \<Rightarrow> int"

definition trunc_rat :: "rat \<Rightarrow> int" where
  "trunc_rat q = (if q \<ge> 0 then \<lfloor>q\<rfloor> else \<lceil>q\<rceil>)"

text \<open>
  The conversion float64 to int64 truncates towards zero; outside the range of int64 its
  result is implementation-specific in Go, hence \<open>f_to_int64_special\<close>.
\<close>

definition float_to_int64 :: "float_ops \<Rightarrow> go_float \<Rightarrow> int" where
  "float_to_int64 ops f =
     (case f of
        FFin q \<Rightarrow> if int64_min \<le> trunc_rat q \<and> trunc_rat q \<le> int64_max then trunc_rat q
                  else f_to_int64_special ops f
      | _ \<Rightarrow> f_to_int64_special ops f)"

definition Millisecond :: int where "Millisecond = 1000000"

definition CalculateDelay :: "float_ops \<Rightarrow> RetryConfig \<Rightarrow> int \<Rightarrow> int" where
  "CalculateDelay ops c attempt =
     (let attempt = (if attempt < 0 then 0 else attempt);
          delayMs = f_mul ops (f_of_int ops (DelayMs c))
                              (f_pow ops (BackoffMultiplier c) (f_of_int ops attempt));
          delayMs = (if float_less (f_of_int ops (MaxDelayMs c)) delayMs
                     then f_of_int ops (MaxDelayMs c) else delayMs)
      in wrap64 (float_to_int64 ops delayMs * Millisecond))"

definition duration_ms :: "int \<Rightarrow> int" where
  "duration_ms d = (if d \<ge> 0 then d div Millisecond else - ((- d) div Millisecond))"

definition clampDelay :: "int \<Rightarrow> int \<Rightarrow> int" where
  "clampDelay d maxDelayMs =
     (if d < 0 then 0
      else if maxDelayMs \<le> 0 then d
      else let maxDelay = wrap64 (maxDelayMs * Millisecond)
           in if d > maxDelay then maxDelay else d)"

definition GetTimeoutDuration :: "int \<Rightarrow> int \<Rightarrow> int" where
  "GetTimeoutDuration timeoutMs defaultTimeout =
     (if timeoutMs > 0 then wrap64 (timeoutMs * Millisecond) else defaultTimeout)"

definition ShouldRetry :: "url_env \<Rightarrow> RetryConfig \<Rightarrow> int \<Rightarrow> gerr option \<Rightarrow> bool" where
  "ShouldRetry env c attempt err =
     (if err = None then False
      else if MaxAttempts c = 0 then False
      else if attempt \<ge> MaxAttempts c then False
      else IsRetryable env err)"

subsection \<open>The executor\<close>

record retry_info =
  TotalAttempts :: int
  RetryCount :: int
  RetryDelaysMs :: "int list"
  TotalDurationMs :: int

record retry_executor =
  re_config :: RetryConfig
  re_info :: retry_info
  re_errors :: "gerr list"
  re_successful :: int

definition zero_info :: retry_info where
  "zero_info = \<lparr>TotalAttempts = 0, RetryCount = 0, RetryDelaysMs = [], TotalDurationMs = 0\<rparr>"

definition NewRetryExecutor :: "RetryConfig \<Rightarrow> retry_executor" where
  "NewRetryExecutor config =
     \<lparr>re_config = config, re_info = zero_info, re_errors = [], re_successful = 0\<rparr>"

definition resetRetryState :: "retry_executor \<Rightarrow> retry_executor" where
  "resetRetryState e = e\<lparr>re_info := zero_info, re_errors := [], re_successful := 0\<rparr>"

definition GetRetryInfo :: "retry_executor \<Rightarrow> retry_info" where
  "GetRetryInfo e = re_info e"

definition SuccessfulAttempt :: "retry_executor \<Rightarrow> int" where
  "SuccessfulAttempt e = re_successful e"

record ('w, 'r) retry_env =
  run_fn :: "'w \<Rightarrow> ('r + gerr) \<times> 'w"
  ctx_done :: "'w \<Rightarrow> gerr option"
  wait_delay :: "int \<Rightarrow> 'w \<Rightarrow> gerr option \<times> 'w"
  on_attempt :: "int \<Rightarrow> gerr option \<Rightarrow> int \<Rightarrow> 'w \<Rightarrow> 'w"
  ExtractRetryAfter :: "(gerr \<Rightarrow> int option) option"
  millisSince :: "'w \<Rightarrow> int"
  env_url :: url_env
  env_float :: float_ops

text \<open>\<open>NilNil\<close> is the return of a nil result with a nil error.\<close>

datatype 'r retry_out = Done 'r | Failed gerr | NilNil

abbreviation set_info :: "(retry_info \<Rightarrow> retry_info) \<Rightarrow> retry_executor \<Rightarrow> retry_executor" where
  "set_info f e \<equiv> e\<lparr>re_info := f (re_info e)\<rparr>"

abbreviation set_duration :: "int \<Rightarrow> retry_executor \<Rightarrow> retry_executor" where
  "set_duration ms \<equiv> set_info (\<lambda>i. i\<lparr>TotalDurationMs := ms\<rparr>)"

definition ctx_failure :: "('w, 'r) retry_env \<Rightarrow> gerr \<Rightarrow> gerr" where
  "ctx_failure env ce = ClassifiedE (ClassifyNetworkError (env_url env) (Some ce))"

text \<open>The loop of \<open>Execute\<close>.\<close>

function execute_loop ::
  "('w, 'r) retry_env \<Rightarrow> nat \<Rightarrow> gerr option \<Rightarrow> retry_executor \<Rightarrow> 'w
   \<Rightarrow> 'r retry_out \<times> retry_executor \<times> 'w" where
  "execute_loop env attempt lastErr e w =
     (if \<not> int attempt < MaxAttempts (re_config e) + 1 then
        ((case lastErr of None \<Rightarrow> NilNil | Some err \<Rightarrow> Failed err),
         set_duration (millisSince env w)
           (set_info (\<lambda>i. i\<lparr>RetryCount := TotalAttempts i - 1\<rparr>) e), w)
      else
        let e = set_info (\<lambda>i. i\<lparr>TotalAttempts := int attempt + 1\<rparr>) e
        in (case ctx_done env w of
              Some ce \<Rightarrow> (Failed (ctx_failure env ce), set_duration (millisSince env w) e, w)
            | None \<Rightarrow>
                (case run_fn env w of
                   (Inl r, w) \<Rightarrow>
                     (Done r,
                      set_duration (millisSince env w)
                        (set_info (\<lambda>i. i\<lparr>RetryCount := int attempt\<rparr>)
                          (e\<lparr>re_successful := int attempt + 1\<rparr>)), w)
                 | (Inr err, w) \<Rightarrow>
                     let e = e\<lparr>re_errors := re_errors e @ [err]\<rparr>;
                         classified = ClassifyError (env_url env) (Some err)
                     in if \<not> Retryable classified then
                          (Failed err, set_duration (millisSince env w) e, w)
                        else if int attempt \<ge> MaxAttempts (re_config e) then
                          (Failed err,
                           set_duration (millisSince env w)
                             (set_info (\<lambda>i. i\<lparr>RetryCount := TotalAttempts i - 1\<rparr>) e), w)
                        else
                          let delay = CalculateDelay (env_float env) (re_config e) (int attempt);
                              e = set_info (\<lambda>i. i\<lparr>RetryDelaysMs := RetryDelaysMs i @ [duration_ms delay]\<rparr>) e
                          in (case wait_delay env delay w of
                                (Some ce, w) \<Rightarrow>
                                  (Failed (ctx_failure env ce), set_duration (millisSince env w) e, w)
                              | (None, w) \<Rightarrow> execute_loop env (Suc attempt) (Some err) e w))))"
  by pat_completeness auto
termination
  by (relation "measure (\<lambda>(env, attempt, lastErr, e, w). nat (MaxAttempts (re_config e) + 1 - int attempt))")
     auto

declare execute_loop.simps [simp del]

definition Execute ::
  "('w, 'r) retry_env \<Rightarrow> retry_executor \<Rightarrow> 'w \<Rightarrow> 'r retry_out \<times> retry_executor \<times> 'w" where
  "Execute env e w = execute_loop env 0 None (resetRetryState e) w"

text \<open>The loop of \<open>ExecuteWithHooks\<close>, with the delay override and the callback.\<close>

definition hooked_delay :: "('w, 'r) retry_env \<Rightarrow> RetryConfig \<Rightarrow> int \<Rightarrow> gerr \<Rightarrow> int" where
  "hooked_delay env c attempt err =
     (let delay = CalculateDelay (env_float env) c attempt
      in (case ExtractRetryAfter env of
            None \<Rightarrow> delay
          | Some h \<Rightarrow> (case h err of Some override \<Rightarrow> clampDelay override (MaxDelayMs c) | None \<Rightarrow> delay)))"

function hooks_loop ::
  "('w, 'r) retry_env \<Rightarrow> nat \<Rightarrow> gerr option \<Rightarrow> retry_executor \<Rightarrow> 'w
   \<Rightarrow> 'r retry_out \<times> retry_executor \<times> 'w" where
  "hooks_loop env attempt lastErr e w =
     (if \<not> int attempt < MaxAttempts (re_config e) + 1 then
        ((case lastErr of None \<Rightarrow> NilNil | Some err \<Rightarrow> Failed err),
         set_duration (millisSince env w)
           (set_info (\<lambda>i. i\<lparr>RetryCount := TotalAttempts i - 1\<rparr>) e), w)
      else
        let e = set_info (\<lambda>i. i\<lparr>TotalAttempts := int attempt + 1\<rparr>) e
        in (case ctx_done env w of
              Some ce \<Rightarrow> (Failed (ctx_failure env ce), set_duration (millisSince env w) e, w)
            | None \<Rightarrow>
                (case run_fn env w of
                   (Inl r, w) \<Rightarrow>
                     let w = on_attempt env (int attempt) None 0 w
                     in (Done r,
                         set_duration (millisSince env w)
                           (set_info (\<lambda>i. i\<lparr>RetryCount := int attempt\<rparr>)
                             (e\<lparr>re_successful := int attempt + 1\<rparr>)), w)
                 | (Inr err, w) \<Rightarrow>
                     let e = e\<lparr>re_errors := re_errors e @ [err]\<rparr>;
                         classified = ClassifyError (env_url env) (Some err);
                         retrying = (int attempt < MaxAttempts (re_config e) \<and> Retryable classified);
                         delay = (if retrying then hooked_delay env (re_config e) (int attempt) err else 0);
                         e = (if retrying
                              then set_info (\<lambda>i. i\<lparr>RetryDelaysMs := RetryDelaysMs i @ [duration_ms delay]\<rparr>) e
                              else e);
                         w = on_attempt env (int attempt) (Some err) delay w
                     in if \<not> Retryable classified then
                          (Failed err, set_duration (millisSince env w) e, w)
                        else if int attempt \<ge> MaxAttempts (re_config e) then
                          (Failed err,
                           set_duration (millisSince env w)
                             (set_info (\<lambda>i. i\<lparr>RetryCount := TotalAttempts i - 1\<rparr>) e), w)
                        else
                          (case wait_delay env delay w of
                             (Some ce, w) \<Rightarrow>
                               (Failed (ctx_failure env ce), set_duration (millisSince env w) e, w)
                           | (None, w) \<Rightarrow> hooks_loop env (Suc attempt) (Some err) e w))))"
  by pat_completeness auto
termination
  by (relation "measure (\<lambda>(env, attempt, lastErr, e, w). nat (MaxAttempts (re_config e) + 1 - int attempt))")
     (auto split: if_splits)

declare hooks_loop.simps [simp del]

definition ExecuteWithHooks ::
  "('w, 'r) retry_env \<Rightarrow> retry_executor \<Rightarrow> 'w \<Rightarrow> 'r retry_out \<times> retry_executor \<times> 'w" where
  "ExecuteWithHooks env e w = hooks_loop env 0 None (resetRetryState e) w"

definition ExecuteWithCallback ::
  "('w, 'r) retry_env \<Rightarrow> retry_executor \<Rightarrow> 'w \<Rightarrow> 'r retry_out \<times> retry_executor \<times> 'w" where
  "ExecuteWithCallback env e w = ExecuteWithHooks (env\<lparr>ExtractRetryAfter := None\<rparr>) e w"


subsection \<open>The loop: facts\<close>

definition retry_ok :: "('w, 'r) retry_env \<Rightarrow> gerr \<Rightarrow> bool" where
  "retry_ok env err = Retryable (ClassifyError (env_url env) (Some err))"

definition loop_state :: "('w, 'r) retry_env \<Rightarrow> nat \<Rightarrow> retry_executor \<Rightarrow> bool" where
  "loop_state env attempt e \<longleftrightarrow>
     TotalAttempts (re_info e) = int attempt \<and> length (re_errors e) = attempt
     \<and> length (RetryDelaysMs (re_info e)) = attempt \<and> list_all (retry_ok env) (re_errors e)
     \<and> re_successful e = 0 \<and> RetryCount (re_info e) = 0"

definition loop_result :: "('w, 'r) retry_env \<Rightarrow> int \<Rightarrow> 'r retry_out \<Rightarrow> retry_executor \<Rightarrow> bool" where
  "loop_result env mx out e \<longleftrightarrow>
     TotalAttempts (re_info e) \<le> mx + 1 \<and> int (length (RetryDelaysMs (re_info e))) \<le> mx
     \<and> list_all (retry_ok env) (butlast (re_errors e))
     \<and> (case out of
          Done r \<Rightarrow> list_all (retry_ok env) (re_errors e)
                    \<and> int (length (re_errors e)) + 1 = TotalAttempts (re_info e)
                    \<and> re_successful e = TotalAttempts (re_info e)
                    \<and> RetryCount (re_info e) = TotalAttempts (re_info e) - 1
        | Failed err \<Rightarrow>
            re_successful e = 0
            \<and> (re_errors e \<noteq> [] \<and> err = last (re_errors e)
                 \<and> int (length (re_errors e)) = TotalAttempts (re_info e)
                 \<and> (\<not> retry_ok env err \<or> TotalAttempts (re_info e) = mx + 1)
               \<or> (\<exists>ce. err = ctx_failure env ce))
        | NilNil \<Rightarrow> False)"


lemma hooks_loop_result:
  assumes "loop_state env attempt e" "int attempt \<le> MaxAttempts (re_config e)"
    "hooks_loop env attempt le e w = (out, e', w')"
  shows "loop_result env (MaxAttempts (re_config e)) out e'"
  using assms
proof (induction "nat (MaxAttempts (re_config e) + 1 - int attempt)"
       arbitrary: attempt le e w rule: less_induct)
  case less
  note eq = less.prems(3) [unfolded hooks_loop.simps [of env attempt le e w]]
  show ?case
  proof (cases "ctx_done env w")
    case (Some ce)
    then show ?thesis using eq less.prems(1,2)
      by (auto simp: loop_result_def loop_state_def Let_def ctx_failure_def list_all_iff dest: in_set_butlastD)
  next
    case None
    obtain res w1 where run: "run_fn env w = (res, w1)" by fastforce
    show ?thesis
    proof (cases res)
      case (Inl r)
      with None run eq less.prems(1,2) show ?thesis
        by (auto simp: loop_result_def loop_state_def Let_def list_all_iff dest: in_set_butlastD)
    next
      case (Inr err)
      show ?thesis
      proof (cases "retry_ok env err \<and> int attempt < MaxAttempts (re_config e)")
        case False
        with None run Inr eq less.prems(1,2) show ?thesis
          by (auto simp: loop_result_def loop_state_def Let_def retry_ok_def split: if_splits)
      next
        case True
        define dl where "dl = hooked_delay env (re_config e) (int attempt) err"
        define e1 where "e1 = set_info (\<lambda>i. i\<lparr>RetryDelaysMs := RetryDelaysMs i @ [duration_ms dl]\<rparr>)
           ((set_info (\<lambda>i. i\<lparr>TotalAttempts := int attempt + 1\<rparr>) e)\<lparr>re_errors := re_errors e @ [err]\<rparr>)"
        obtain wr w2 where wait: "wait_delay env dl (on_attempt env (int attempt) (Some err) dl w1) = (wr, w2)"
          by fastforce
        have st: "loop_state env (Suc attempt) e1" "re_config e1 = re_config e"
          using less.prems(1) True by (simp_all add: e1_def loop_state_def)
        show ?thesis
        proof (cases wr)
          case (Some ce)
          with None run Inr True wait eq less.prems(1,2) show ?thesis
            by (auto simp: loop_result_def loop_state_def Let_def retry_ok_def dl_def list_all_iff
                     dest: in_set_butlastD)
        next
          case None': None
          have "hooks_loop env attempt le e w = hooks_loop env (Suc attempt) (Some err) e1 w2"
            using None None' run Inr True wait
            by (subst hooks_loop.simps) (simp add: Let_def retry_ok_def dl_def e1_def)
          with less.hyps [of e1 "Suc attempt" "Some err" w2] less.prems st True show ?thesis
            by simp
        qed
      qed
    qed
  qed
qed

lemma execute_hooks_loop:
  assumes "\<And>a er d w. on_attempt env a er d w = w" "ExtractRetryAfter env = None"
  shows "hooks_loop env attempt le e w = execute_loop env attempt le e w"
proof (induction "nat (MaxAttempts (re_config e) + 1 - int attempt)"
       arbitrary: attempt le e w rule: less_induct)
  case less
  have dl: "hooked_delay env (re_config e) (int attempt) err
              = CalculateDelay (env_float env) (re_config e) (int attempt)" for err
    by (simp add: hooked_delay_def assms(2))
  show ?case
    unfolding hooks_loop.simps [of env attempt le e w] execute_loop.simps [of env attempt le e w]
    using less.hyps
    by (auto simp: Let_def assms dl split: option.split sum.split prod.split)
qed


subsection \<open>The contract\<close>

text \<open>The abstract contract of a retry loop over a list of attempt results.\<close>

fun retry_spec :: "url_env \<Rightarrow> nat \<Rightarrow> ('r + gerr) list \<Rightarrow> 'r retry_out \<times> nat" where
  "retry_spec u n [] = (NilNil, 0)"
| "retry_spec u n (Inl r # rs) = (Done r, 1)"
| "retry_spec u n (Inr err # rs) =
     (if \<not> Retryable (ClassifyError u (Some err)) \<or> n = 0 then (Failed err, 1)
      else apsnd Suc (retry_spec u (n - 1) rs))"

definition scripted :: "url_env \<Rightarrow> float_ops \<Rightarrow> (gerr \<Rightarrow> int option) option \<Rightarrow> (('r + gerr) list, 'r) retry_env" where
  "scripted u f h = \<lparr>run_fn = (\<lambda>rs. (hd rs, tl rs)), ctx_done = (\<lambda>_. None),
     wait_delay = (\<lambda>_ rs. (None, rs)), on_attempt = (\<lambda>_ _ _ rs. rs), ExtractRetryAfter = h,
     millisSince = (\<lambda>_. 0), env_url = u, env_float = f\<rparr>"

lemma hooks_loop_script:
  assumes "int attempt \<le> MaxAttempts (re_config e)"
    "nat (MaxAttempts (re_config e)) - attempt < length rs"
    "hooks_loop (scripted u f h) attempt le e rs = (out, e', w')"
  shows "retry_spec u (nat (MaxAttempts (re_config e)) - attempt) rs
           = (out, nat (TotalAttempts (re_info e')) - attempt)
         \<and> int attempt < TotalAttempts (re_info e')"
  using assms
proof (induction rs arbitrary: attempt le e)
  case (Cons x rs)
  note eq = Cons.prems(3) [unfolded hooks_loop.simps [of _ attempt le e]]
  show ?case
  proof (cases x)
    case (Inl r)
    with eq Cons.prems(1) show ?thesis by (auto simp: scripted_def Let_def)
  next
    case (Inr err)
    show ?thesis
    proof (cases "Retryable (ClassifyError u (Some err)) \<and> int attempt < MaxAttempts (re_config e)")
      case False
      with Inr eq Cons.prems(1) show ?thesis by (auto simp: scripted_def Let_def split: if_splits)
    next
      case True
      obtain e1 where e1: "hooks_loop (scripted u f h) (Suc attempt) (Some err) e1 rs = (out, e', w')"
          "re_config e1 = re_config e"
        using eq Inr True by (auto simp: scripted_def Let_def split: if_splits)
      have n: "nat (MaxAttempts (re_config e)) - attempt = Suc (nat (MaxAttempts (re_config e)) - Suc attempt)"
        using True by linarith
      from Cons.IH [OF _ _ e1(1)] e1(2) Cons.prems(2) True n
      have "retry_spec u (nat (MaxAttempts (re_config e)) - Suc attempt) rs
              = (out, nat (TotalAttempts (re_info e')) - Suc attempt)
            \<and> int (Suc attempt) < TotalAttempts (re_info e')"
        by (simp del: retry_spec.simps)
      with Inr True n show ?thesis by auto
    qed
  qed
qed simp

definition nonneg_float :: "go_float \<Rightarrow> bool" where
  "nonneg_float x = (case x of FFin q \<Rightarrow> 0 \<le> q | FPosInf \<Rightarrow> True | FNegInf \<Rightarrow> False | FNaN \<Rightarrow> False)"

text \<open>
  What IEEE 754 gives: integers up to \<open>2 ^ 53\<close> are exact, a positive integer converts to a
  positive finite value, the product of a positive finite value and a non-negative one is
  non-negative, and so is a power of a base that is at least one.
\<close>

definition float_sound :: "float_ops \<Rightarrow> bool" where
  "float_sound ops \<longleftrightarrow>
     (\<forall>i. \<bar>i\<bar> \<le> 2 ^ 53 \<longrightarrow> f_of_int ops i = FFin (of_int i))
     \<and> (\<forall>i. 0 < i \<longrightarrow> i \<le> int64_max \<longrightarrow> (\<exists>q. f_of_int ops i = FFin q \<and> 0 < q))
     \<and> (\<forall>q y. 0 < q \<longrightarrow> nonneg_float y \<longrightarrow> nonneg_float (f_mul ops (FFin q) y))
     \<and> (\<forall>x y. \<not> float_less x (FFin 1) \<longrightarrow> x \<noteq> FNaN \<longrightarrow> nonneg_float y \<longrightarrow> nonneg_float (f_pow ops x y))"

lemma CalculateDelay_bounds:
  assumes "float_sound ops" "RetryConfig_Validate c = None" "BackoffMultiplier c \<noteq> FNaN"
    and "0 < DelayMs c" "DelayMs c \<le> int64_max" "MaxDelayMs c * Millisecond \<le> int64_max"
    and "attempt \<le> 2 ^ 53"
  shows "0 \<le> CalculateDelay ops c attempt \<and> CalculateDelay ops c attempt \<le> MaxDelayMs c * Millisecond"
proof -
  define a where "a = (if attempt < 0 then 0 else attempt)"
  define d where "d = f_mul ops (f_of_int ops (DelayMs c)) (f_pow ops (BackoffMultiplier c) (f_of_int ops a))"
  have mx: "0 \<le> MaxDelayMs c" "MaxDelayMs c \<le> 9223372036854"
    using assms(2,6) by (auto simp: RetryConfig_Validate_def Millisecond_def int64_max_def split: if_splits)
  have base: "\<not> float_less (BackoffMultiplier c) (FFin 1)"
    using assms(2) by (auto simp: RetryConfig_Validate_def MinBackoffMultiplier_def split: if_splits)
  have fm: "f_of_int ops (MaxDelayMs c) = FFin (of_int (MaxDelayMs c))"
    and fa: "f_of_int ops a = FFin (of_int a)"
    using assms(1,7) mx by (auto simp: float_sound_def a_def)
  have "nonneg_float (f_of_int ops a)" unfolding fa by (simp add: nonneg_float_def a_def)
  with assms(1,3) base have "nonneg_float (f_pow ops (BackoffMultiplier c) (f_of_int ops a))"
    unfolding float_sound_def by blast
  moreover obtain q where "f_of_int ops (DelayMs c) = FFin q" "0 < q"
    using assms(1,4,5) unfolding float_sound_def by blast
  ultimately have "nonneg_float d"
    using assms(1) unfolding float_sound_def d_def by simp
  then obtain r where r: "(if float_less (f_of_int ops (MaxDelayMs c)) d then f_of_int ops (MaxDelayMs c) else d) = FFin r"
      "0 \<le> r" "r \<le> of_int (MaxDelayMs c)"
    using mx fm
    by (cases d; cases "float_less (FFin (of_int (MaxDelayMs c))) d") (auto simp: nonneg_float_def)
  have t: "0 \<le> trunc_rat r" "trunc_rat r \<le> MaxDelayMs c"
    using r(2,3) by (auto simp: trunc_rat_def floor_le_iff)
  then have "float_to_int64 ops (FFin r) = trunc_rat r"
    using mx by (simp add: float_to_int64_def int64_min_def int64_max_def)
  moreover have "CalculateDelay ops c attempt = wrap64 (float_to_int64 ops
      (if float_less (f_of_int ops (MaxDelayMs c)) d then f_of_int ops (MaxDelayMs c) else d) * Millisecond)"
    by (simp only: CalculateDelay_def Let_def a_def d_def)
  ultimately have "CalculateDelay ops c attempt = wrap64 (trunc_rat r * Millisecond)"
    by (simp only: r(1))
  moreover have "0 \<le> trunc_rat r * Millisecond" "trunc_rat r * Millisecond \<le> MaxDelayMs c * Millisecond"
    using t by (simp_all add: Millisecond_def)
  ultimately show ?thesis using assms(6) by (simp add: int64_min_def)
qed

definition exact_ops :: float_ops where
  "exact_ops = \<lparr>f_of_int = (\<lambda>i. FFin (of_int i)),
     f_mul = (\<lambda>x y. case (x, y) of (FFin a, FFin b) \<Rightarrow> FFin (a * b) | (FFin a, FPosInf) \<Rightarrow> FPosInf | _ \<Rightarrow> FNaN),
     f_pow = (\<lambda>x y. case (x, y) of (FFin a, FFin b) \<Rightarrow> FFin (a ^ nat \<lfloor>b\<rfloor>) | (FPosInf, _) \<Rightarrow> FPosInf | (_, FPosInf) \<Rightarrow> FPosInf | _ \<Rightarrow> FNaN),
     f_to_int64_special = (\<lambda>_. int64_min)\<rparr>"

lemma float_sound_exact: "float_sound exact_ops"
  unfolding float_sound_def
  by (auto simp: exact_ops_def nonneg_float_def not_less split: go_float.splits)


subsection \<open>Properties\<close>

lemma loop_state_start: "loop_state env 0 (resetRetryState e)"
  by (simp add: loop_state_def resetRetryState_def zero_info_def)

lemma re_config_reset [simp]: "re_config (resetRetryState e) = re_config e"
  by (simp add: resetRetryState_def)

text \<open>Retry budget, in every world: with a configuration that passes validation the function runs
  at most \<open>MaxAttempts + 1\<close> times, at most \<open>MaxAttempts\<close> delays are taken, no attempt follows an
  error that is not retryable, and a returned error is the last one recorded (unretryable, or the
  budget is spent) or the classified end of the context. It never returns a nil result with a nil
  error.\<close>

theorem ExecuteWithHooks_budget:
  assumes "RetryConfig_Validate (re_config e) = None"
    and "ExecuteWithHooks env e w = (out, e', w')"
  shows "TotalAttempts (re_info e') \<le> MaxAttempts (re_config e) + 1
    \<and> TotalAttempts (re_info e') \<le> 11
    \<and> int (length (RetryDelaysMs (re_info e'))) \<le> MaxAttempts (re_config e)
    \<and> list_all (\<lambda>err. Retryable (ClassifyError (env_url env) (Some err))) (butlast (re_errors e'))
    \<and> out \<noteq> NilNil
    \<and> (\<forall>err. out = Failed err \<longrightarrow>
         (err = last (re_errors e')
            \<and> (\<not> Retryable (ClassifyError (env_url env) (Some err))
               \<or> TotalAttempts (re_info e') = MaxAttempts (re_config e) + 1))
         \<or> (\<exists>ce. err = ClassifiedE (ClassifyNetworkError (env_url env) (Some ce))))"
proof -
  have "0 \<le> MaxAttempts (re_config e)" "MaxAttempts (re_config e) \<le> 10"
    using assms(1) by (auto simp: RetryConfig_Validate_def MaxRetryAttempts_def split: if_splits)
  moreover from this assms(2) have "loop_result env (MaxAttempts (re_config e)) out e'"
    using hooks_loop_result [OF loop_state_start, of e env None w out e' w']
    by (simp add: ExecuteWithHooks_def)
  ultimately show ?thesis
    by (auto simp: loop_result_def retry_ok_def [abs_def] ctx_failure_def split: retry_out.splits)
qed

definition demo_retry :: gerr where
  "demo_retry = ClassifiedE (Classified CategoryServer True 503 ''busy'' None)"

definition demo_fatal :: gerr where
  "demo_fatal = ClassifiedE (Classified CategoryValidation False 400 ''bad request'' None)"

theorem ExecuteWithHooks_budget_witness:
  "\<exists>out e' w'. ExecuteWithHooks (scripted demo_env exact_ops None) (NewRetryExecutor DefaultRetryConfig)
                 [Inr demo_retry, Inl (7::int)] = (out, e', w') \<and> TotalAttempts (re_info e') \<le> 11"
proof -
  obtain out e' w' where r: "ExecuteWithHooks (scripted demo_env exact_ops None)
      (NewRetryExecutor DefaultRetryConfig) [Inr demo_retry, Inl (7::int)] = (out, e', w')"
    by (metis prod_cases3)
  have "RetryConfig_Validate (re_config (NewRetryExecutor DefaultRetryConfig)) = None"
    by (simp add: NewRetryExecutor_def DefaultRetryConfig_def RetryConfig_Validate_def
          MaxRetryAttempts_def MinBackoffMultiplier_def)
  from ExecuteWithHooks_budget [OF this r] r show ?thesis by blast
qed

text \<open>C5. The executor refines its contract: on any sequence of attempt results long enough for the
  budget, without cancellation, it returns what the specification \<open>retry_spec\<close> returns (the first
  success, or the first error that is final or exhausts the budget) after exactly that many calls,
  whatever delays the backoff or a Retry-After override gives.\<close>

theorem ExecuteWithHooks_refines_spec:
  assumes "0 \<le> MaxAttempts c" and "nat (MaxAttempts c) < length rs"
    and "ExecuteWithHooks (scripted u f h) (NewRetryExecutor c) rs = (out, e', w')"
  shows "retry_spec u (nat (MaxAttempts c)) rs = (out, nat (TotalAttempts (re_info e')))"
  using hooks_loop_script [of 0 "resetRetryState (NewRetryExecutor c)" rs u f h None out e' w'] assms
  by (simp add: ExecuteWithHooks_def NewRetryExecutor_def)

theorem ExecuteWithHooks_refines_spec_witness:
  "fst (ExecuteWithHooks (scripted demo_env exact_ops None) (NewRetryExecutor DefaultRetryConfig)
         [Inr demo_retry, Inl (7::int), Inl 8, Inl 9]) = Done 7"
proof -
  let ?rs = "[Inr demo_retry, Inl (7::int), Inl 8, Inl 9]"
  obtain out e' w' where r: "ExecuteWithHooks (scripted demo_env exact_ops None)
      (NewRetryExecutor DefaultRetryConfig) ?rs = (out, e', w')"
    by (metis prod_cases3)
  have "retry_spec demo_env 3 ?rs = (out, nat (TotalAttempts (re_info e')))"
    using ExecuteWithHooks_refines_spec [OF _ _ r] by (simp add: DefaultRetryConfig_def)
  with r show ?thesis by (simp add: demo_retry_def)
qed

text \<open>The two retry loops agree: \<open>Execute\<close> is \<open>ExecuteWithHooks\<close> with no hook and a callback that
  does nothing, in result, bookkeeping and world, for every configuration.\<close>

theorem Execute_eq_ExecuteWithHooks:
  assumes "\<And>a er d w. on_attempt env a er d w = w" and "ExtractRetryAfter env = None"
  shows "ExecuteWithHooks env e w = Execute env e w"
  by (simp add: ExecuteWithHooks_def Execute_def execute_hooks_loop [OF assms])

theorem Execute_eq_ExecuteWithHooks_witness:
  "ExecuteWithHooks (scripted demo_env exact_ops None) (NewRetryExecutor DefaultRetryConfig) [Inl (1::int)]
     = Execute (scripted demo_env exact_ops None) (NewRetryExecutor DefaultRetryConfig) [Inl (1::int)]"
  by (rule Execute_eq_ExecuteWithHooks) (simp_all add: scripted_def)

text \<open>Backoff bound: for a validated configuration whose cap fits a duration, every computed delay
  lies between zero and the configured maximum, for any float arithmetic with the IEEE basics.\<close>

theorem CalculateDelay_capped:
  assumes "float_sound ops" and "RetryConfig_Validate c = None" and "BackoffMultiplier c \<noteq> FNaN"
    and "0 < DelayMs c" and "DelayMs c \<le> int64_max" and "MaxDelayMs c * Millisecond \<le> int64_max"
    and "attempt \<le> 2 ^ 53"
  shows "0 \<le> CalculateDelay ops c attempt \<and> CalculateDelay ops c attempt \<le> MaxDelayMs c * Millisecond"
  using assms by (rule CalculateDelay_bounds)

theorem CalculateDelay_capped_witness:
  "CalculateDelay exact_ops DefaultRetryConfig 7 \<le> 30000000000"
proof -
  have "RetryConfig_Validate DefaultRetryConfig = None"
    by (simp add: DefaultRetryConfig_def RetryConfig_Validate_def MaxRetryAttempts_def MinBackoffMultiplier_def)
  from CalculateDelay_capped [OF float_sound_exact this, of 7] show ?thesis
    by (simp add: DefaultRetryConfig_def int64_max_def Millisecond_def)
qed

text \<open>
  What the validation does not exclude: a cap of \<open>9223372036855\<close> ms or more overflows the
  duration, and the computed delay is negative.
\<close>

definition huge_cap :: RetryConfig where
  "huge_cap = DefaultRetryConfig\<lparr>DelayMs := 9223372036855, MaxDelayMs := 9223372036855, BackoffMultiplier := FFin 1\<rparr>"

theorem CalculateDelay_overflow:
  "RetryConfig_Validate huge_cap = None \<and> CalculateDelay exact_ops huge_cap 0 < 0"
  by (simp add: huge_cap_def DefaultRetryConfig_def RetryConfig_Validate_def MaxRetryAttempts_def
        MinBackoffMultiplier_def CalculateDelay_def exact_ops_def float_to_int64_def trunc_rat_def
        int64_min_def int64_max_def wrap64_def Millisecond_def)

text \<open>
  A run that retried once and then met a final error reports two attempts and one delay, but a
  retry count of zero: \<open>RetryCount\<close> is only written on success and on exhaustion.
\<close>

theorem RetryCount_not_recorded_on_fatal:
  "\<exists>e'. ExecuteWithHooks (scripted demo_env exact_ops None) (NewRetryExecutor DefaultRetryConfig)
          [Inr demo_retry, Inr demo_fatal, Inl (7::int)] = (Failed demo_fatal, e', [Inl 7])
        \<and> TotalAttempts (re_info e') = 2 \<and> length (RetryDelaysMs (re_info e')) = 1
        \<and> RetryCount (re_info e') = 0"
  by (simp add: ExecuteWithHooks_def hooks_loop.simps scripted_def NewRetryExecutor_def
        resetRetryState_def zero_info_def DefaultRetryConfig_def demo_retry_def demo_fatal_def Let_def)

end
