(* ===== verification/Persistence.thy ===== *)
theory Persistence
  imports Retry
begin

text \<open>
  State persistence, \<open>src/internal/persistence\<close>: the state file of a pipeline (\<open>state.go\<close>),
  the statePersistence settings (\<open>config.go\<close>), the extraction of the last record's ID
  (\<open>id_extractor.go\<close>) and the variables a template sees (\<open>RenderState\<close> of \<open>render.go\<close>).

  Instants are integers in nanoseconds. The file system is a map from a directory and a file
  name to the bytes of the file; \<open>fs_ops\<close> holds what \<open>os.MkdirAll\<close>, \<open>os.WriteFile\<close>,
  \<open>os.Rename\<close>, \<open>os.ReadFile\<close> and \<open>os.Remove\<close> answer, so that each of them can fail, and the
  two directions of the JSON codec. A failed write leaves arbitrary bytes in its file.
\<close>

subsection \<open>State and settings\<close>

record State =
  st_PipelineID :: string
  LastTimestamp :: "int option"
  LastID :: "string option"
  UpdatedAt :: int

record TimestampConfig =
  ts_Enabled :: bool
  ts_QueryParam :: string

record IDConfig =
  id_Enabled :: bool
  id_Field :: string
  id_QueryParam :: string

record StatePersistenceConfig =
  pc_Timestamp :: "TimestampConfig option"
  pc_ID :: "IDConfig option"
  StoragePath :: string

definition TimestampEnabled :: "StatePersistenceConfig option \<Rightarrow> bool" where
  "TimestampEnabled c =
     (case c of None \<Rightarrow> False
      | Some c \<Rightarrow> (case pc_Timestamp c of None \<Rightarrow> False | Some t \<Rightarrow> ts_Enabled t))"

definition IDEnabled :: "StatePersistenceConfig option \<Rightarrow> bool" where
  "IDEnabled c =
     (case c of None \<Rightarrow> False
      | Some c \<Rightarrow> (case pc_ID c of None \<Rightarrow> False | Some i \<Rightarrow> id_Enabled i))"

definition persistence_IsEnabled :: "StatePersistenceConfig option \<Rightarrow> bool" where
  "persistence_IsEnabled c =
     (case c of
        None \<Rightarrow> False
      | Some c \<Rightarrow>
          (case pc_Timestamp c of None \<Rightarrow> False | Some t \<Rightarrow> ts_Enabled t)
          \<or> (case pc_ID c of None \<Rightarrow> False | Some i \<Rightarrow> id_Enabled i))"

text \<open>A checked type assertion on a map entry, with the default the code keeps otherwise.\<close>

definition str_field :: "grecord \<Rightarrow> string \<Rightarrow> string" where
  "str_field m k = (case Option.bind (m k) as_str of None \<Rightarrow> [] | Some s \<Rightarrow> s)"

definition bool_field :: "grecord \<Rightarrow> string \<Rightarrow> bool" where
  "bool_field m k = (case Option.bind (m k) as_bool of None \<Rightarrow> False | Some b \<Rightarrow> b)"

definition ParseStatePersistenceConfig :: "grecord option \<Rightarrow> StatePersistenceConfig option" where
  "ParseStatePersistenceConfig config =
     (case config of
        None \<Rightarrow> None
      | Some config \<Rightarrow>
          (case Option.bind (config ''statePersistence'') as_map of
             None \<Rightarrow> None
           | Some sp \<Rightarrow>
               Some \<lparr>pc_Timestamp =
                       map_option (\<lambda>ts. \<lparr>ts_Enabled = bool_field ts ''enabled'',
                                         ts_QueryParam = str_field ts ''queryParam''\<rparr>)
                                  (Option.bind (sp ''timestamp'') as_map),
                     pc_ID =
                       map_option (\<lambda>i. \<lparr>id_Enabled = bool_field i ''enabled'',
                                        id_Field = str_field i ''field'',
                                        id_QueryParam = str_field i ''queryParam''\<rparr>)
                                  (Option.bind (sp ''id'') as_map),
                     StoragePath = str_field sp ''storagePath''\<rparr>))"

subsection \<open>The state store\<close>

definition DefaultStatePath :: string where "DefaultStatePath = ''./cannectors-data/state''"

record StateStore = basePath :: string

definition NewStateStore :: "string \<Rightarrow> StateStore" where
  "NewStateStore p = \<lparr>basePath = (if p = [] then DefaultStatePath else p)\<rparr>"

type_synonym file_path = "string \<times> string"
type_synonym files = "file_path \<Rightarrow> string option"

text \<open>
  \<open>filepath.Base\<close>: trailing slashes are dropped, then everything up to the last slash; an
  empty path gives a dot and a path of slashes only gives a slash.
\<close>

definition go_Base :: "string \<Rightarrow> string" where
  "go_Base p =
     (if p = [] then ''.''
      else let q = rev (dropWhile (\<lambda>c. c = CHR ''/'') (rev p));
               b = rev (takeWhile (\<lambda>c. c \<noteq> CHR ''/'') (rev q))
           in if b = [] then ''/'' else b)"

text \<open>
  \<open>filepath.Join\<close> of the base path and \<open>safeName.json\<close>: the name has no slash, except when it
  is a slash itself, and joining \<open>/.json\<close> to a directory gives its file \<open>.json\<close>.
\<close>

definition filePath :: "StateStore \<Rightarrow> string \<Rightarrow> file_path" where
  "filePath s pipelineID =
     (let safeName = go_Base pipelineID
      in (basePath s, (if safeName = ''/'' then [] else safeName) @ ''.json''))"

definition tempPath :: "file_path \<Rightarrow> file_path" where
  "tempPath p = (fst p, snd p @ ''.tmp'')"

record fs_ops =
  mkdir_err :: "string \<Rightarrow> gerr option"
  write_err :: "file_path \<Rightarrow> (gerr \<times> string option) option"
  rename_err :: "file_path \<Rightarrow> file_path \<Rightarrow> gerr option"
  remove_err :: "file_path \<Rightarrow> gerr option"
  read_err :: "file_path \<Rightarrow> gerr option"
  encode_json :: "State \<Rightarrow> gerr + string"
  decode_json :: "string \<Rightarrow> gerr + State"

datatype store_error =
    ErrInvalidPipelineID
  | ErrNilState
  | ErrCreateDir gerr
  | ErrMarshal gerr
  | ErrWriteTemp gerr
  | ErrRename gerr
  | ErrReadState gerr
  | ErrUnmarshal gerr
  | ErrDeleteState gerr
  | ErrCheckState gerr

text \<open>
  \<open>Save\<close> with the successive contents of the disk, oldest first: the last one is the disk when
  the call returns, and a process killed during the call leaves one of them.
\<close>

definition save_run ::
  "fs_ops \<Rightarrow> StateStore \<Rightarrow> string \<Rightarrow> State option \<Rightarrow> files \<Rightarrow> store_error option \<times> files list" where
  "save_run ops s pipelineID state fs =
     (if pipelineID = [] then (Some ErrInvalidPipelineID, [fs])
      else (case state of
              None \<Rightarrow> (Some ErrNilState, [fs])
            | Some st \<Rightarrow>
                (case mkdir_err ops (basePath s) of
                   Some e \<Rightarrow> (Some (ErrCreateDir e), [fs])
                 | None \<Rightarrow>
                     let st = st\<lparr>st_PipelineID := pipelineID\<rparr>
                     in (case encode_json ops st of
                           Inl e \<Rightarrow> (Some (ErrMarshal e), [fs])
                         | Inr data \<Rightarrow>
                             let p = filePath s pipelineID; tp = tempPath p
                             in (case write_err ops tp of
                                   Some (e, left) \<Rightarrow> (Some (ErrWriteTemp e), [fs, fs(tp := left)])
                                 | None \<Rightarrow>
                                     let fs1 = fs(tp := Some data)
                                     in (case rename_err ops tp p of
                                           Some e \<Rightarrow>
                                             (Some (ErrRename e),
                                              [fs, fs1, if remove_err ops tp = None then fs1(tp := None) else fs1])
                                         | None \<Rightarrow> (None, [fs, fs1, fs1(p := Some data, tp := None)])))))))"

definition state_Save ::
  "fs_ops \<Rightarrow> StateStore \<Rightarrow> string \<Rightarrow> State option \<Rightarrow> files \<Rightarrow> store_error option \<times> files" where
  "state_Save ops s pipelineID state fs =
     (case save_run ops s pipelineID state fs of (err, trace) \<Rightarrow> (err, last trace))"

definition state_Load :: "fs_ops \<Rightarrow> StateStore \<Rightarrow> string \<Rightarrow> files \<Rightarrow> store_error + State option" where
  "state_Load ops s pipelineID fs =
     (if pipelineID = [] then Inl ErrInvalidPipelineID
      else (case fs (filePath s pipelineID) of
              None \<Rightarrow> Inr None
            | Some data \<Rightarrow>
                (case read_err ops (filePath s pipelineID) of
                   Some e \<Rightarrow> Inl (ErrReadState e)
                 | None \<Rightarrow>
                     (case decode_json ops data of
                        Inl e \<Rightarrow> Inl (ErrUnmarshal e)
                      | Inr st \<Rightarrow> Inr (Some st)))))"

definition state_Delete :: "fs_ops \<Rightarrow> StateStore \<Rightarrow> string \<Rightarrow> files \<Rightarrow> store_error option \<times> files" where
  "state_Delete ops s pipelineID fs =
     (if pipelineID = [] then (Some ErrInvalidPipelineID, fs)
      else (case fs (filePath s pipelineID) of
              None \<Rightarrow> (None, fs)
            | Some _ \<Rightarrow>
                (case remove_err ops (filePath s pipelineID) of
                   Some e \<Rightarrow> (Some (ErrDeleteState e), fs)
                 | None \<Rightarrow> (None, fs(filePath s pipelineID := None)))))"

definition state_Exists :: "fs_ops \<Rightarrow> StateStore \<Rightarrow> string \<Rightarrow> files \<Rightarrow> store_error + bool" where
  "state_Exists ops s pipelineID fs =
     (if pipelineID = [] then Inl ErrInvalidPipelineID
      else (case fs (filePath s pipelineID) of
              None \<Rightarrow> Inr False
            | Some _ \<Rightarrow> (case read_err ops (filePath s pipelineID) of
                            Some e \<Rightarrow> Inl (ErrCheckState e) | None \<Rightarrow> Inr True)))"

subsection \<open>Record IDs\<close>

datatype id_error =
    ErrNilRecord
  | ErrEmptyFieldPath
  | ErrInvalidFieldType string
  | ErrFieldNotFound string
  | ErrNoRecords
  | ErrFromLastRecord id_error

record fmt_env =
  fmt_float :: "go_float \<Rightarrow> string"
  fmt_value :: "gval \<Rightarrow> string"

definition valueToString :: "fmt_env \<Rightarrow> gval \<Rightarrow> string" where
  "valueToString env v =
     (case v of
        GStr s \<Rightarrow> s
      | GFloat f \<Rightarrow>
          (case f of
             FFin r \<Rightarrow> if r = of_int \<lfloor>r\<rfloor> \<and> int64_min \<le> \<lfloor>r\<rfloor> \<and> \<lfloor>r\<rfloor> \<le> int64_max then itoa \<lfloor>r\<rfloor>
                       else fmt_float env f
           | _ \<Rightarrow> fmt_float env f)
      | GInt i \<Rightarrow> itoa i
      | _ \<Rightarrow> fmt_value env v)"

fun extract_loop :: "string \<Rightarrow> gval \<Rightarrow> string list \<Rightarrow> string list \<Rightarrow> id_error + gval" where
  "extract_loop fieldPath current done' [] = Inr current"
| "extract_loop fieldPath current done' (part # parts) =
     (case as_map current of
        None \<Rightarrow> Inl (ErrInvalidFieldType (join_with (CHR ''.'') done'))
      | Some m \<Rightarrow>
          (case m part of
             None \<Rightarrow> Inl (ErrFieldNotFound fieldPath)
           | Some value \<Rightarrow> extract_loop fieldPath value (done' @ [part]) parts))"

definition ExtractID :: "fmt_env \<Rightarrow> grecord option \<Rightarrow> string \<Rightarrow> id_error + string" where
  "ExtractID env record fieldPath =
     (case record of
        None \<Rightarrow> Inl ErrNilRecord
      | Some r \<Rightarrow>
          if fieldPath = [] then Inl ErrEmptyFieldPath
          else (case extract_loop fieldPath (GMap r) [] (split_on (CHR ''.'') fieldPath) of
                  Inl e \<Rightarrow> Inl e
                | Inr v \<Rightarrow> Inr (valueToString env v)))"

definition ExtractLastID :: "fmt_env \<Rightarrow> grecord option list \<Rightarrow> string \<Rightarrow> id_error + string" where
  "ExtractLastID env records fieldPath =
     (if length records = 0 then Inl ErrNoRecords
      else (case ExtractID env (records ! (length records - 1)) fieldPath of
              Inl e \<Rightarrow> Inl (ErrFromLastRecord e)
            | Inr i \<Rightarrow> Inr i))"

subsection \<open>State variables\<close>

definition EpochTimestamp :: string where "EpochTimestamp = ''1970-01-01T00:00:00Z''"

definition RenderState :: "(int \<Rightarrow> string) \<Rightarrow> State option \<Rightarrow> StatePersistenceConfig option \<Rightarrow> grecord" where
  "RenderState fmt_rfc3339 state cfg =
     (let vars = [''lastTimestamp'' \<mapsto> GStr EpochTimestamp]
      in (case state of
            None \<Rightarrow> vars
          | Some st \<Rightarrow>
              let vars = (case LastTimestamp st of
                            Some t \<Rightarrow> if cfg = None \<or> TimestampEnabled cfg
                                      then vars(''lastTimestamp'' \<mapsto> GStr (fmt_rfc3339 t)) else vars
                          | None \<Rightarrow> vars)
              in (case LastID st of
                    Some i \<Rightarrow> if cfg = None \<or> IDEnabled cfg then vars(''lastId'' \<mapsto> GStr i) else vars
                  | None \<Rightarrow> vars)))"


subsection \<open>File names\<close>

definition plain_id :: "string \<Rightarrow> bool" where
  "plain_id i \<longleftrightarrow> i \<noteq> [] \<and> CHR ''/'' \<notin> set i"

lemma dropWhile_neq_id: "c \<notin> set s \<Longrightarrow> dropWhile (\<lambda>x. x = c) s = s"
  by (cases s) auto

lemma go_Base_plain: "plain_id i \<Longrightarrow> go_Base i = i \<and> i \<noteq> ''/''"
  by (auto simp: plain_id_def go_Base_def dropWhile_neq_id takeWhile_neq_id)

lemma filePath_inj:
  "plain_id i \<Longrightarrow> plain_id j \<Longrightarrow> filePath s i = filePath s j \<longleftrightarrow> i = j"
  by (auto simp: filePath_def go_Base_plain Let_def)

lemma tempPath_neq [simp]: "tempPath p \<noteq> filePath s i" "filePath s i \<noteq> tempPath p"
proof -
  have "last (snd (tempPath p)) \<noteq> last (snd (filePath s i))"
    by (simp add: tempPath_def filePath_def Let_def)
  then show "tempPath p \<noteq> filePath s i" "filePath s i \<noteq> tempPath p" by auto
qed

subsection \<open>What a save leaves on disk\<close>

definition agree_but :: "file_path \<Rightarrow> files \<Rightarrow> files \<Rightarrow> bool" where
  "agree_but t x y \<longleftrightarrow> (\<forall>q. q \<noteq> t \<longrightarrow> x q = y q)"

lemma agree_butD: "agree_but t x y \<Longrightarrow> q \<noteq> t \<Longrightarrow> x q = y q"
  by (simp add: agree_but_def del: split_paired_All)

lemma agree_but_simps [simp]: "agree_but t x x" "agree_but t (x(t := v)) x"
  "agree_but t (x(t := v, t := w)) x"
  by (simp_all add: agree_but_def del: split_paired_All)

lemma save_run_cases:
  assumes "save_run ops s i (Some st) fs = (err, trace)"
  obtains (stored) data where "i \<noteq> []" "err = None" "encode_json ops (st\<lparr>st_PipelineID := i\<rparr>) = Inr data"
      "last trace = fs(tempPath (filePath s i) := None, filePath s i := Some data)"
      "\<forall>x \<in> set (butlast trace). agree_but (tempPath (filePath s i)) x fs"
  | (failed) "err \<noteq> None" "\<forall>x \<in> set trace. agree_but (tempPath (filePath s i)) x fs"
  using assms
  by (auto simp: save_run_def Let_def fun_upd_twist split: if_splits option.splits sum.splits)

lemma save_run_ne: "snd (save_run ops s i st fs) \<noteq> []"
  by (auto simp: save_run_def Let_def split: option.splits sum.splits)

lemma state_Save_done:
  assumes "state_Save ops s i (Some st) fs = (None, fs')"
  obtains data where "i \<noteq> []" "encode_json ops (st\<lparr>st_PipelineID := i\<rparr>) = Inr data"
    "fs' = fs(tempPath (filePath s i) := None, filePath s i := Some data)"
proof -
  obtain trace where t: "save_run ops s i (Some st) fs = (None, trace)" "fs' = last trace"
    using assms by (auto simp: state_Save_def split: prod.splits)
  show thesis by (rule save_run_cases [OF t(1)]) (use t(2) that in auto)
qed

lemma state_Save_frame:
  assumes "state_Save ops s i (Some st) fs = (err, fs')" "q \<noteq> filePath s i \<or> err \<noteq> None"
    "q \<noteq> tempPath (filePath s i)"
  shows "fs' q = fs q"
proof -
  obtain trace where t: "save_run ops s i (Some st) fs = (err, trace)" "fs' = last trace"
    using assms by (auto simp: state_Save_def split: prod.splits)
  have "trace \<noteq> []" using save_run_ne [of ops s i "Some st" fs] t by simp
  then have "last trace \<in> set trace" by simp
  with assms(2,3) t show ?thesis
    by (cases rule: save_run_cases [OF t(1)]) (auto intro: agree_butD)
qed

subsection \<open>The cursor contract\<close>

text \<open>
  What the executor and the inputs rely on: a save that reports success is what the next load
  of the same pipeline returns, after a delete that reports success nothing is loaded, a save or
  a delete that fails leaves the stored state alone, and pipelines do not see each other. The laws hold for the identifiers \<open>idok\<close> and the states \<open>good\<close>.
\<close>

locale cursor_store =
  fixes save :: "string \<Rightarrow> State \<Rightarrow> 'fs \<Rightarrow> bool \<times> 'fs"
    and delete :: "string \<Rightarrow> 'fs \<Rightarrow> bool \<times> 'fs"
    and load :: "string \<Rightarrow> 'fs \<Rightarrow> State option"
    and idok :: "string \<Rightarrow> bool"
    and good :: "string \<Rightarrow> State \<Rightarrow> bool"
  assumes saved: "idok i \<Longrightarrow> good i st \<Longrightarrow> save i st fs = (True, fs') \<Longrightarrow> load i fs' = Some (st\<lparr>st_PipelineID := i\<rparr>)"
    and kept: "idok i \<Longrightarrow> save i st fs = (False, fs') \<Longrightarrow> load i fs' = load i fs"
    and separate: "idok i \<Longrightarrow> idok j \<Longrightarrow> j \<noteq> i \<Longrightarrow> save i st fs = (b, fs') \<Longrightarrow> load j fs' = load j fs"
    and deleted: "idok i \<Longrightarrow> delete i fs = (b, fs') \<Longrightarrow> load i fs' = (if b then None else load i fs)"
    and delete_separate: "idok i \<Longrightarrow> idok j \<Longrightarrow> j \<noteq> i \<Longrightarrow> delete i fs = (b, fs') \<Longrightarrow> load j fs' = load j fs"
begin

text \<open>
  A history of saves and deletes (\<open>None\<close>), the operations of it that succeeded, and the state
  they leave for a pipeline: that of its last save, none after a delete.
\<close>

fun replay :: "(string \<times> State option) list \<Rightarrow> 'fs \<Rightarrow> (string \<times> State option) list \<times> 'fs" where
  "replay [] fs = ([], fs)"
| "replay ((i, op) # es) fs =
     (case (case op of Some st \<Rightarrow> save i st fs | None \<Rightarrow> delete i fs) of (b, fs') \<Rightarrow>
        (case replay es fs' of (done', fs'') \<Rightarrow> (if b then (i, op) # done' else done', fs'')))"

fun last_saved :: "string \<Rightarrow> (string \<times> State option) list \<Rightarrow> State option \<Rightarrow> State option" where
  "last_saved i [] st0 = st0"
| "last_saved i ((j, op) # es) st0 =
     last_saved i es (if i = j then map_option (\<lambda>st. st\<lparr>st_PipelineID := j\<rparr>) op else st0)"

lemma load_replay:
  assumes "idok i" "\<forall>(j, op) \<in> set es. idok j \<and> (\<forall>st. op = Some st \<longrightarrow> good j st)" "replay es fs = (done', fs')"
  shows "load i fs' = last_saved i done' (load i fs)"
  using assms(2,3)
proof (induction es arbitrary: fs done')
  case (Cons e es)
  obtain j op where e: "e = (j, op)" by (cases e)
  obtain b fs1 where s: "(case op of Some st \<Rightarrow> save j st fs | None \<Rightarrow> delete j fs) = (b, fs1)" by fastforce
  obtain d fs2 where r: "replay es fs1 = (d, fs2)" by (cases "replay es fs1")
  from Cons e s r have fs2: "fs2 = fs'" and d: "done' = (if b then (j, op) # d else d)"
    and jok: "idok j" "\<And>st. op = Some st \<Longrightarrow> good j st" by auto
  have step: "load i fs1 = (if b \<and> i = j then map_option (\<lambda>st. st\<lparr>st_PipelineID := j\<rparr>) op else load i fs)"
  proof (cases op)
    case None
    with s deleted [OF jok(1)] delete_separate [OF jok(1) assms(1)] show ?thesis by (cases "i = j") auto
  next
    case (Some st)
    with s have sv: "save j st fs = (b, fs1)" by simp
    show ?thesis
    proof (cases "i = j")
      case True
      with saved [OF jok(1) jok(2) [OF Some]] kept [OF jok(1)] sv Some show ?thesis by (cases b) auto
    next
      case False
      with separate [OF jok(1) assms(1) False sv] show ?thesis by simp
    qed
  qed
  from Cons r fs2 have "load i fs' = last_saved i d (load i fs1)" by auto
  with step d show ?case by simp
qed simp

end

definition save_ok :: "fs_ops \<Rightarrow> StateStore \<Rightarrow> string \<Rightarrow> State \<Rightarrow> files \<Rightarrow> bool \<times> files" where
  "save_ok ops s i st fs = (case state_Save ops s i (Some st) fs of (err, fs') \<Rightarrow> (err = None, fs'))"

definition delete_ok :: "fs_ops \<Rightarrow> StateStore \<Rightarrow> string \<Rightarrow> files \<Rightarrow> bool \<times> files" where
  "delete_ok ops s i fs = (case state_Delete ops s i fs of (err, fs') \<Rightarrow> (err = None, fs'))"

definition load_state :: "fs_ops \<Rightarrow> StateStore \<Rightarrow> string \<Rightarrow> files \<Rightarrow> State option" where
  "load_state ops s i fs = (case state_Load ops s i fs of Inl _ \<Rightarrow> None | Inr st \<Rightarrow> st)"

text \<open>The file is readable, and the JSON of the state decodes to the state.\<close>

definition codec_ok :: "fs_ops \<Rightarrow> StateStore \<Rightarrow> string \<Rightarrow> State \<Rightarrow> bool" where
  "codec_ok ops s i st \<longleftrightarrow>
     read_err ops (filePath s i) = None
     \<and> (case encode_json ops (st\<lparr>st_PipelineID := i\<rparr>) of
          Inl _ \<Rightarrow> True | Inr data \<Rightarrow> decode_json ops data = Inr (st\<lparr>st_PipelineID := i\<rparr>))"

lemma load_state_cong: "fs (filePath s i) = fs' (filePath s i) \<Longrightarrow> load_state ops s i fs = load_state ops s i fs'"
  by (simp add: load_state_def state_Load_def)

interpretation files: cursor_store "save_ok ops s" "delete_ok ops s" "load_state ops s" plain_id "codec_ok ops s"
  for ops s
proof unfold_locales
  show "load_state ops s i fs' = Some (st\<lparr>st_PipelineID := i\<rparr>)"
    if "plain_id i" "codec_ok ops s i st" "save_ok ops s i st fs = (True, fs')" for i st fs fs'
  proof -
    from that(3) have "state_Save ops s i (Some st) fs = (None, fs')"
      by (auto simp: save_ok_def split: prod.splits)
    then show ?thesis
      by (rule state_Save_done)
        (use that in \<open>simp add: load_state_def state_Load_def codec_ok_def\<close>)
  qed
  show "load_state ops s i fs' = load_state ops s i fs"
    if "plain_id i" "save_ok ops s i st fs = (False, fs')" for i st fs fs'
    using that
    by (intro load_state_cong) (auto simp: save_ok_def intro: state_Save_frame split: prod.splits)
  show "load_state ops s j fs' = load_state ops s j fs"
    if "plain_id i" "plain_id j" "j \<noteq> i" "save_ok ops s i st fs = (b, fs')" for i j st fs b fs'
    using that filePath_inj [of j i s]
    by (intro load_state_cong) (auto simp: save_ok_def intro: state_Save_frame split: prod.splits)
  show "load_state ops s i fs' = (if b then None else load_state ops s i fs)"
    if "plain_id i" "delete_ok ops s i fs = (b, fs')" for i fs b fs'
    using that by (auto simp: delete_ok_def state_Delete_def load_state_def state_Load_def plain_id_def
        split: option.splits if_splits)
  show "load_state ops s j fs' = load_state ops s j fs"
    if "plain_id i" "plain_id j" "j \<noteq> i" "delete_ok ops s i fs = (b, fs')" for i j fs b fs'
    using that filePath_inj [of j i s]
    by (intro load_state_cong) (auto simp: delete_ok_def state_Delete_def split: option.splits if_splits)
qed


subsection \<open>Reading an ID\<close>

lemma extract_loop_nav:
  "list_all (\<lambda>p. CHR ''['' \<notin> set p) ps \<Longrightarrow>
   extract_loop path v done' ps = Inr w \<longleftrightarrow> nav_loop v ps = Some w"
  by (induction path v done' ps rule: extract_loop.induct)
    (auto simp: navigateStep_def path_simps getFromMap_def split: option.splits)

lemma split_parts_free: "c \<notin> set s \<Longrightarrow> list_all (\<lambda>p. c \<notin> set p) (split_on d s)"
proof (induction s)
  case (Cons x xs)
  then show ?case by (cases "split_on d xs") auto
qed simp

subsection \<open>Properties\<close>

text \<open>
  C7. Saving is atomic. At every moment of a save, and so after a crash during it, the
  state file of the pipeline holds either what it held before or, once the save has reported
  success, the complete encoding of the new state; the state file of any other pipeline whose
  identifier is a plain name is never touched.
\<close>
theorem state_Save_atomic:
  assumes "save_run ops s i (Some st) fs = (err, trace)" "disk \<in> set trace"
  shows "(disk (filePath s i) = fs (filePath s i)
          \<or> (err = None \<and> disk = last trace
             \<and> Some (disk (filePath s i)) = (case encode_json ops (st\<lparr>st_PipelineID := i\<rparr>) of
                                                Inl _ \<Rightarrow> None | Inr data \<Rightarrow> Some (Some data))))
    \<and> (plain_id i \<and> plain_id j \<and> j \<noteq> i \<longrightarrow> disk (filePath s j) = fs (filePath s j))"
proof (cases rule: save_run_cases [OF assms(1), case_names stored failed])
  case (stored data)
  have ne: "trace \<noteq> []" using save_run_ne [of ops s i "Some st" fs] assms(1) by simp
  then have "disk \<in> set (butlast trace @ [last trace])" using assms(2) by simp
  then consider "disk \<in> set (butlast trace)" | "disk = last trace" by auto
  then show ?thesis
  proof cases
    case 1
    with stored(5) have "agree_but (tempPath (filePath s i)) disk fs" by blast
    then have "disk (filePath s k) = fs (filePath s k)" for k by (rule agree_butD) simp
    then show ?thesis by simp
  next
    case 2
    with stored filePath_inj [of j i s] show ?thesis by simp
  qed
next
  case failed
  with assms(2) have "agree_but (tempPath (filePath s i)) disk fs" by blast
  then have "disk (filePath s k) = fs (filePath s k)" for k by (rule agree_butD) simp
  then show ?thesis by simp
qed

definition demo_state :: State where
  "demo_state = \<lparr>st_PipelineID = [], LastTimestamp = Some 5, LastID = Some ''7'', UpdatedAt = 7\<rparr>"

text \<open>A disk that never fails, with a codec that only knows the demo states.\<close>

definition demo_ops :: fs_ops where
  "demo_ops = \<lparr>mkdir_err = (\<lambda>_. None), write_err = (\<lambda>_. None), rename_err = (\<lambda>_ _. None),
     remove_err = (\<lambda>_. None), read_err = (\<lambda>_. None), encode_json = (\<lambda>st. Inr (st_PipelineID st)),
     decode_json = (\<lambda>d. Inr (demo_state\<lparr>st_PipelineID := d\<rparr>))\<rparr>"

theorem state_Save_atomic_witness:
  "(snd (save_run demo_ops (NewStateStore []) ''p'' (Some demo_state) Map.empty) ! 1) (DefaultStatePath, ''p.json'') = None
   \<and> (snd (save_run demo_ops (NewStateStore []) ''p'' (Some demo_state) Map.empty) ! 2) (DefaultStatePath, ''p.json'') = Some ''p''"
proof -
  let ?r = "save_run demo_ops (NewStateStore []) ''p'' (Some demo_state) Map.empty"
  have p: "filePath (NewStateStore []) ''p'' = (DefaultStatePath, ''p.json'')"
    by (simp add: filePath_def NewStateStore_def go_Base_def)
  have tr: "?r = (None, [Map.empty, Map.empty((DefaultStatePath, ''p.json.tmp'') := Some ''p''),
      Map.empty((DefaultStatePath, ''p.json.tmp'') := Some ''p'', (DefaultStatePath, ''p.json'') := Some ''p'',
        (DefaultStatePath, ''p.json.tmp'') := None)])"
    using p by (simp add: save_run_def demo_ops_def demo_state_def Let_def tempPath_def)
  have "snd ?r ! 2 \<in> set (snd ?r)" by (simp add: tr)
  from state_Save_atomic [of demo_ops "NewStateStore []" "''p''" demo_state Map.empty "fst ?r" "snd ?r", OF _ this]
  have "(snd ?r ! 2) (DefaultStatePath, ''p.json'') = Some ''p'' \<or> (snd ?r ! 2) (DefaultStatePath, ''p.json'') = None"
    by (auto simp: p demo_ops_def)
  then show ?thesis by (simp add: tr)
qed

text \<open>
  C8. Resumption. After any history of saves and deletes, by any pipelines with plain names, some
  of which failed, loading the state of a pipeline returns the state of its last successful save,
  nothing when a successful delete of it came later, and what was stored before the history when
  neither was among it. The file is readable and the JSON of a saved state decodes to this state.
\<close>
theorem load_after_history:
  assumes "plain_id i" "\<forall>(j, op) \<in> set es. plain_id j \<and> (\<forall>st. op = Some st \<longrightarrow> codec_ok ops s j st)"
    and "files.replay ops s es fs = (done', fs')"
  shows "load_state ops s i fs' = files.last_saved i done' (load_state ops s i fs)"
  using assms by (rule files.load_replay)

theorem load_after_history_witness:
  "load_state demo_ops (NewStateStore []) ''p''
     (snd (files.replay demo_ops (NewStateStore [])
        [(''p'', Some demo_state), (''q'', Some demo_state), (''q'', None), (''p'', None), (''p'', Some demo_state)] Map.empty))
   = Some (demo_state\<lparr>st_PipelineID := ''p''\<rparr>)"
proof -
  let ?s = "NewStateStore []"
  let ?es = "[(''p'', Some demo_state), (''q'', Some demo_state), (''q'', None), (''p'', None), (''p'', Some demo_state)]"
  have sv: "fst (save_ok demo_ops ?s i demo_state fs)" "fst (delete_ok demo_ops ?s i fs)" if "i \<noteq> []" for i fs
    using that by (simp_all add: save_ok_def state_Save_def save_run_def delete_ok_def state_Delete_def demo_ops_def Let_def
        split: option.split)
  obtain d fs' where r: "files.replay demo_ops ?s ?es Map.empty = (d, fs')"
    by (cases "files.replay demo_ops ?s ?es Map.empty")
  have "\<forall>(j, op) \<in> set ?es. plain_id j \<and> (\<forall>st. op = Some st \<longrightarrow> codec_ok demo_ops ?s j st)"
    by (simp add: plain_id_def codec_ok_def demo_ops_def demo_state_def)
  from load_after_history [OF _ this r, of "''p''"]
  have "load_state demo_ops ?s ''p'' fs' = files.last_saved ''p'' d (load_state demo_ops ?s ''p'' Map.empty)"
    by (simp add: plain_id_def)
  moreover have "d = ?es" using r sv by (auto simp: case_prod_beta)
  ultimately show ?thesis using r by simp
qed

text \<open>
  On a path without array indices, the ID the persistence layer reads is the text of the
  value the record path reads: both find it or both fail.
\<close>
theorem ExtractID_eq_Get:
  assumes "CHR ''['' \<notin> set path"
  shows "ExtractID env (Some r) path = Inr i \<longleftrightarrow> (\<exists>v. Get r path = Some v \<and> i = valueToString env v)"
proof (cases "path = []")
  case False
  have "extract_loop path (GMap r) [] (split_on (CHR ''.'') path) = Inr w \<longleftrightarrow> Get r path = Some w" for w
    using extract_loop_nav [OF split_parts_free [OF assms]] False by (simp add: Get_eq)
  moreover have "ExtractID env (Some r) path = Inr i \<longleftrightarrow>
      (\<exists>w. extract_loop path (GMap r) [] (split_on (CHR ''.'') path) = Inr w \<and> i = valueToString env w)"
    using False by (auto simp: ExtractID_def split: sum.split)
  ultimately show ?thesis by simp
qed (simp add: ExtractID_def)

definition demo_fmt :: fmt_env where
  "demo_fmt = \<lparr>fmt_float = (\<lambda>_. []), fmt_value = (\<lambda>_. [])\<rparr>"

theorem ExtractID_eq_Get_witness:
  "ExtractID demo_fmt (Some [''data'' \<mapsto> GMap [''id'' \<mapsto> GInt 42]]) ''data.id'' = Inr ''42''"
proof -
  have "Get [''data'' \<mapsto> GMap [''id'' \<mapsto> GInt 42]] ''data.id'' = Some (GInt 42)"
    by (simp add: Get_eq navigateStep_def path_simps)
  moreover have "itoa 42 = ''42''" by code_simp
  ultimately show ?thesis
    using ExtractID_eq_Get [of "''data.id''" demo_fmt "[''data'' \<mapsto> GMap [''id'' \<mapsto> GInt 42]]" "''42''"]
    by (simp add: valueToString_def)
qed

text \<open>
  The file name keeps only the last element of the identifier: two pipelines whose
  identifiers end in the same element share one state file.
\<close>
theorem state_file_shared: "filePath s ''orders/daily'' = filePath s ''daily''"
  by (simp add: filePath_def go_Base_def Let_def)

end
