(* ===== verification/Pipeline.thy ===== *)
theory Pipeline
  imports Persistence Markers
begin

text \<open>
  The pipeline executor, \<open>src/internal/runtime/pipeline.go\<close> and \<open>records_input.go\<close>: one
  execution of Input, Filters and Output. Modules are records of the operations of their Go
  interfaces; an optional interface (\<open>StatePersistentInput\<close>, \<open>ConnectableModule\<close>,
  \<open>PreviewableModule\<close>, \<open>RetryInfoProvider\<close>) is an optional field. A module operation reads
  and changes the world \<open>'w\<close> outside the executor: network, databases, the module's own
  fields, the context. The clock is read from the world. The state files are the disk of
  \<open>Persistence\<close>. \<open>calls\<close> is not part of the program: it records each call of a module or of
  the state store in order, so that the lemmas can speak of the order. Logging and the
  durations only logged are left out.
\<close>

subsection \<open>Modules\<close>

type_synonym records = "grecord option list"
type_synonym op_preview = grecord

record 'w persistent_input =
  SetPipelineID :: "string \<Rightarrow> 'w \<Rightarrow> 'w"
  SetStateStore :: "StateStore \<Rightarrow> 'w \<Rightarrow> 'w"
  LoadState :: "files \<Rightarrow> 'w \<Rightarrow> (gerr + State option) \<times> 'w"
  GetPersistenceConfig :: "'w \<Rightarrow> StatePersistenceConfig option"

record 'w input_module =
  in_Fetch :: "'w \<Rightarrow> (gerr + records) \<times> 'w"
  in_Close :: "'w \<Rightarrow> gerr option \<times> 'w"
  in_RetryInfo :: "('w \<Rightarrow> retry_info option) option"
  in_Persistent :: "'w persistent_input option"

record 'w filter_module =
  f_Process :: "records \<Rightarrow> tally option \<times> 'w \<Rightarrow> (gerr + records) \<times> tally option \<times> 'w"

record 'w output_module =
  out_Send :: "records \<Rightarrow> 'w \<Rightarrow> (int \<times> gerr option) \<times> 'w"
  out_Close :: "'w \<Rightarrow> gerr option \<times> 'w"
  out_Connect :: "('w \<Rightarrow> gerr option \<times> 'w) option"
  out_Preview :: "(records \<Rightarrow> bool \<Rightarrow> 'w \<Rightarrow> (gerr + op_preview list) \<times> 'w) option"
  out_RetryInfo :: "('w \<Rightarrow> retry_info option) option"

record pipeline_config =
  pl_ID :: string
  pl_OutputType :: "string option"
  pl_ShowCredentials :: "bool option"

record 'w executor =
  inputModule :: "'w input_module option"
  filterModules :: "'w filter_module option list"
  outputModule :: "'w output_module option"
  dryRun :: bool
  retainModules :: bool
  stateStore :: "StateStore option"

record execution_error =
  ee_Code :: string
  ee_Message :: string
  ee_Module :: string
  ee_Category :: category
  ee_Type :: string
  ee_Details :: "grecord option"

record execution_result =
  er_PipelineID :: string
  er_Status :: string
  er_StartedAt :: int
  er_CompletedAt :: "int option"
  RecordsProcessed :: int
  RecordsFailed :: int
  ErrorCounts :: "tally option"
  er_Error :: "execution_error option"
  RetryInfo :: "retry_info option"
  DryRunPreview :: "op_preview list"
  DryRunPreviewUnsupported :: string
  DryRunPreviewError :: string

datatype call =
    CSetPipelineID | CSetStateStore | CLoadState
  | CConnect | CFetch | CCloseInput
  | CProcess nat records
  | CPreview | CSend records | CSave State | CCloseOutput

record 'w run =
  rw :: 'w
  disk :: files
  exec :: "'w executor"
  rresult :: execution_result
  calls :: "call list"

record 'w runtime_env =
  time_now :: "'w \<Rightarrow> int"
  err_url :: url_env
  fs :: fs_ops
  fmt :: fmt_env

abbreviation StatusSuccess :: string where "StatusSuccess \<equiv> ''success''"
abbreviation StatusError :: string where "StatusError \<equiv> ''error''"

definition plain_error :: "string \<Rightarrow> gerr" where
  "plain_error msg = NodeE KPlain msg None None None [] False"

definition ErrNilPipeline :: gerr where
  "ErrNilPipeline = plain_error ''pipeline configuration is nil''"

definition ErrNilInputModule :: gerr where
  "ErrNilInputModule = plain_error ''input module is nil''"

definition ErrNilOutputModule :: gerr where
  "ErrNilOutputModule = plain_error ''output module is nil''"

definition NewExecutorWithModules ::
  "'w input_module option \<Rightarrow> 'w filter_module option list \<Rightarrow> 'w output_module option \<Rightarrow> bool \<Rightarrow> 'w executor" where
  "NewExecutorWithModules i fm out dry =
     \<lparr>inputModule = i, filterModules = fm, outputModule = out, dryRun = dry, retainModules = False,
      stateStore = None\<rparr>"

definition RetainModules :: "'w executor \<Rightarrow> 'w executor" where
  "RetainModules e = e\<lparr>retainModules := True\<rparr>"

definition exec_SetStateStore :: "StateStore option \<Rightarrow> 'w executor \<Rightarrow> 'w executor" where
  "exec_SetStateStore s e = e\<lparr>stateStore := s\<rparr>"

subsection \<open>Steps\<close>

definition log_call :: "call \<Rightarrow> 'w run \<Rightarrow> 'w run" where
  "log_call c r = r\<lparr>calls := calls r @ [c]\<rparr>"

abbreviation set_result :: "(execution_result \<Rightarrow> execution_result) \<Rightarrow> 'w run \<Rightarrow> 'w run" where
  "set_result f r \<equiv> r\<lparr>rresult := f (rresult r)\<rparr>"

definition newErrorResult :: "int \<Rightarrow> execution_result" where
  "newErrorResult startedAt =
     \<lparr>er_PipelineID = [], er_Status = StatusError, er_StartedAt = startedAt, er_CompletedAt = None,
      RecordsProcessed = 0, RecordsFailed = 0, ErrorCounts = None, er_Error = None, RetryInfo = None,
      DryRunPreview = [], DryRunPreviewUnsupported = [], DryRunPreviewError = []\<rparr>"

definition buildExecutionError :: "url_env \<Rightarrow> string \<Rightarrow> string \<Rightarrow> gerr \<Rightarrow> execution_error" where
  "buildExecutionError env code stage err =
     (let ex = \<lparr>ee_Code = code, ee_Message = err_text err, ee_Module = stage, ee_Category = [],
                ee_Type = [], ee_Details = None\<rparr>;
          ex = (case AsModuleError (Some err) of
                  None \<Rightarrow> ex
                | Some me \<Rightarrow>
                    let ex = (if me_code me \<noteq> [] then ex\<lparr>ee_Code := me_code me\<rparr> else ex);
                        ex = (if me_module me \<noteq> [] then ex\<lparr>ee_Module := me_module me\<rparr> else ex)
                    in (if me_details me \<noteq> Map.empty \<or> me_index me \<ge> 0
                        then ex\<lparr>ee_Details := Some (if me_index me \<ge> 0
                               then (me_details me)(''record_index'' \<mapsto> GInt (me_index me))
                               else me_details me)\<rparr>
                        else ex));
          cl = ClassifyError env (Some err);
          ex = ex\<lparr>ee_Category := Category cl\<rparr>
      in ex\<lparr>ee_Type := (if IsFatal (Some err) then ''fatal'' else ''retryable'')\<rparr>)"

definition validateExecution ::
  "'w runtime_env \<Rightarrow> pipeline_config option \<Rightarrow> 'w run \<Rightarrow> gerr option \<times> 'w run" where
  "validateExecution env p r =
     (let failure = (\<lambda>stage err. (Some err,
            set_result (\<lambda>x. x\<lparr>er_CompletedAt := Some (time_now env (rw r)),
                               er_Error := Some (buildExecutionError (err_url env) ''INVALID_INPUT'' stage err)\<rparr>) r))
      in (if p = None then failure [] ErrNilPipeline
          else if inputModule (exec r) = None then failure ''input'' ErrNilInputModule
          else if outputModule (exec r) = None \<and> \<not> dryRun (exec r) then failure ''output'' ErrNilOutputModule
          else (None, r)))"

definition close_input :: "'w input_module \<Rightarrow> 'w run \<Rightarrow> 'w run" where
  "close_input m r = log_call CCloseInput (r\<lparr>rw := snd (in_Close m (rw r))\<rparr>)"

definition close_output :: "'w output_module \<Rightarrow> 'w run \<Rightarrow> 'w run" where
  "close_output m r = log_call CCloseOutput (r\<lparr>rw := snd (out_Close m (rw r))\<rparr>)"

definition setupStatePersistence ::
  "pipeline_config \<Rightarrow> 'w run \<Rightarrow> StatePersistenceConfig option \<times> 'w run" where
  "setupStatePersistence p r =
     (case Option.bind (inputModule (exec r)) in_Persistent of
        None \<Rightarrow> (None, r)
      | Some sp \<Rightarrow>
          let r = log_call CSetPipelineID (r\<lparr>rw := SetPipelineID sp (pl_ID p) (rw r)\<rparr>);
              r = (case GetPersistenceConfig sp (rw r) of
                     None \<Rightarrow> r
                   | Some c \<Rightarrow> if StoragePath c \<noteq> []
                               then r\<lparr>exec := (exec r)\<lparr>stateStore := Some (NewStateStore (StoragePath c))\<rparr>\<rparr>
                               else r);
              r = (case stateStore (exec r) of
                     None \<Rightarrow> r
                   | Some s \<Rightarrow> log_call CSetStateStore (r\<lparr>rw := SetStateStore sp s (rw r)\<rparr>));
              (_, w) = LoadState sp (disk r) (rw r);
              r = log_call CLoadState (r\<lparr>rw := w\<rparr>)
          in (GetPersistenceConfig sp (rw r), r))"

definition connectOutput :: "'w run \<Rightarrow> gerr option \<times> 'w run" where
  "connectOutput r =
     (if dryRun (exec r) then (None, r)
      else (case Option.bind (outputModule (exec r)) out_Connect of
              None \<Rightarrow> (None, r)
            | Some connect \<Rightarrow>
                let (err, w) = connect (rw r) in (err, log_call CConnect (r\<lparr>rw := w\<rparr>))))"

definition reserveMetadataField :: "records \<Rightarrow> records" where
  "reserveMetadataField records =
     map (map_option (\<lambda>record. if record DefaultFieldName \<noteq> None then record(DefaultFieldName := None) else record))
       records"

definition input_retry_info :: "'w input_module \<Rightarrow> 'w run \<Rightarrow> 'w run" where
  "input_retry_info m r =
     (case in_RetryInfo m of None \<Rightarrow> r | Some f \<Rightarrow> set_result (\<lambda>x. x\<lparr>RetryInfo := f (rw r)\<rparr>) r)"

definition executeInput ::
  "'w runtime_env \<Rightarrow> 'w input_module \<Rightarrow> 'w run \<Rightarrow> (gerr + records) \<times> 'w run" where
  "executeInput env m r =
     (let (res, w) = in_Fetch m (rw r);
          r = log_call CFetch (r\<lparr>rw := w\<rparr>)
      in (case res of
            Inl err \<Rightarrow>
              (Inl (errorf (''executing input module: '' @ err_text err) err),
               input_retry_info m
                 (set_result (\<lambda>x. x\<lparr>er_CompletedAt := Some (time_now env (rw r)),
                    er_Error := Some (buildExecutionError (err_url env) ''INPUT_FAILED'' ''input'' err)\<rparr>) r))
          | Inr records \<Rightarrow> (Inr (reserveMetadataField records), input_retry_info m r)))"

text \<open>\<open>executeFilters\<close>: the loop from filter \<open>i\<close>; a failure comes with the index of the filter.\<close>

fun executeFilters ::
  "nat \<Rightarrow> 'w filter_module option list \<Rightarrow> records \<Rightarrow> tally option \<Rightarrow> 'w run
   \<Rightarrow> ((gerr \<times> nat) + records) \<times> tally option \<times> 'w run" where
  "executeFilters i [] records t r = (Inr records, t, r)"
| "executeFilters i (None # ms) records t r = executeFilters (Suc i) ms records t r"
| "executeFilters i (Some m # ms) records t r =
     (let (res, t', w) = f_Process m records (t, rw r);
          r' = log_call (CProcess i records) (r\<lparr>rw := w\<rparr>)
      in (case res of
            Inl err \<Rightarrow> (Inl (err, i), t', r')
          | Inr records' \<Rightarrow> executeFilters (Suc i) ms records' t' r'))"

definition executeFiltersWithResult ::
  "'w runtime_env \<Rightarrow> records \<Rightarrow> tally option \<Rightarrow> 'w run \<Rightarrow> (gerr + records) \<times> tally option \<times> 'w run" where
  "executeFiltersWithResult env records t r =
     (case executeFilters 0 (filterModules (exec r)) records t r of
        (Inr rs, t', r') \<Rightarrow> (Inr rs, t', r')
      | (Inl (err, i), t', r') \<Rightarrow>
          let errMsg = ''filter module '' @ itoa (int i) @ '' failed: '' @ err_text err;
              ex = (buildExecutionError (err_url env) ''FILTER_FAILED'' ''filter'' err)
                     \<lparr>ee_Message := errMsg, ee_Details := Some [''filterIndex'' \<mapsto> GInt (int i)]\<rparr>
          in (Inl (errorf (''executing filter module '' @ itoa (int i) @ '': '' @ err_text err) err), t',
              set_result (\<lambda>x. x\<lparr>er_CompletedAt := Some (time_now env (rw r')), er_Error := Some ex\<rparr>) r'))"

definition outputModuleType :: "pipeline_config \<Rightarrow> string" where
  "outputModuleType p = (case pl_OutputType p of None \<Rightarrow> [] | Some t \<Rightarrow> t)"

definition executeDryRunPreview :: "pipeline_config \<Rightarrow> records \<Rightarrow> 'w run \<Rightarrow> 'w run" where
  "executeDryRunPreview p records r =
     (case outputModule (exec r) of
        None \<Rightarrow> r
      | Some out \<Rightarrow>
          (case out_Preview out of
             None \<Rightarrow> set_result (\<lambda>x. x\<lparr>DryRunPreviewUnsupported := outputModuleType p\<rparr>) r
           | Some preview \<Rightarrow>
               let (res, w) = preview records (case pl_ShowCredentials p of None \<Rightarrow> False | Some b \<Rightarrow> b) (rw r);
                   r = log_call CPreview (r\<lparr>rw := w\<rparr>)
               in (case res of
                     Inl err \<Rightarrow> set_result (\<lambda>x. x\<lparr>DryRunPreviewError := err_text err\<rparr>) r
                   | Inr previews \<Rightarrow> set_result (\<lambda>x. x\<lparr>DryRunPreview := previews\<rparr>) r)))"

definition executeOutput :: "records \<Rightarrow> 'w run \<Rightarrow> (int \<times> int \<times> gerr option) \<times> 'w run" where
  "executeOutput records r =
     (case (dryRun (exec r), outputModule (exec r)) of
        (False, Some out) \<Rightarrow>
          let ((sent, err), w) = out_Send out records (rw r)
          in ((sent, int (length records) - sent, err), log_call (CSend records) (r\<lparr>rw := w\<rparr>))
      | _ \<Rightarrow> ((int (length records), 0, None), r))"

definition output_retry_info :: "'w run \<Rightarrow> 'w run" where
  "output_retry_info r =
     (case Option.bind (outputModule (exec r)) out_RetryInfo of
        None \<Rightarrow> r | Some f \<Rightarrow> set_result (\<lambda>x. x\<lparr>RetryInfo := f (rw r)\<rparr>) r)"

definition executeOutputWithResult ::
  "'w runtime_env \<Rightarrow> records \<Rightarrow> 'w run \<Rightarrow> gerr option \<times> 'w run" where
  "executeOutputWithResult env records r =
     (case executeOutput records r of
        ((sent, failed, Some err), r) \<Rightarrow>
          (Some (errorf (''executing output module: '' @ err_text err) err),
           output_retry_info
             (set_result (\<lambda>x. x\<lparr>er_CompletedAt := Some (time_now env (rw r)), RecordsProcessed := sent,
                RecordsFailed := failed,
                er_Error := Some (buildExecutionError (err_url env) ''OUTPUT_FAILED'' ''output'' err)\<rparr>) r))
      | ((sent, failed, None), r) \<Rightarrow>
          (None, set_result (\<lambda>x. x\<lparr>RecordsProcessed := sent, RecordsFailed := failed\<rparr>) (output_retry_info r)))"

text \<open>The ID read from the raw records, before any filter.\<close>

definition extract_last_id :: "'w runtime_env \<Rightarrow> StatePersistenceConfig option \<Rightarrow> records \<Rightarrow> string option" where
  "extract_last_id env cfg raw =
     (case Option.bind cfg pc_ID of
        Some idc \<Rightarrow>
          if id_Enabled idc \<and> id_Field idc \<noteq> [] \<and> length raw > 0
          then (case ExtractLastID (fmt env) raw (id_Field idc) of Inl _ \<Rightarrow> None | Inr i \<Rightarrow> Some i)
          else None
      | None \<Rightarrow> None)"

text \<open>The input is closed as soon as it has been read, unless the caller retains the modules.\<close>

definition release_input :: "'w input_module \<Rightarrow> 'w run \<Rightarrow> 'w run" where
  "release_input m r =
     (if retainModules (exec r) then r
      else (let r = close_input m r in r\<lparr>exec := (exec r)\<lparr>inputModule := None\<rparr>\<rparr>))"

definition executePipelineStages ::
  "'w runtime_env \<Rightarrow> pipeline_config \<Rightarrow> StatePersistenceConfig option \<Rightarrow> 'w input_module \<Rightarrow> 'w run
   \<Rightarrow> (gerr + string option) \<times> 'w run" where
  "executePipelineStages env p cfg m r =
     (case connectOutput r of
        (Some err, r) \<Rightarrow> (Inl err, r)
      | (None, r) \<Rightarrow>
          let (fetched, r) = executeInput env m r;
              r = release_input m r
          in (case fetched of
                Inl err \<Rightarrow> (Inl err, r)
              | Inr raw \<Rightarrow>
                  let lastID = extract_last_id env cfg raw
                  in (case executeFiltersWithResult env raw (Some NewMarkerTally) r of
                        (Inl err, _, r) \<Rightarrow> (Inl err, r)
                      | (Inr filtered, t, r) \<Rightarrow>
                          let r = set_result (\<lambda>x. x\<lparr>ErrorCounts := tally_Counts t\<rparr>) r;
                              r = (if dryRun (exec r) then executeDryRunPreview p filtered r else r)
                          in (case executeOutputWithResult env filtered r of
                                (Some err, r) \<Rightarrow> (Inl err, r)
                              | (None, r) \<Rightarrow> (Inr lastID, r)))))"

definition persistState ::
  "'w runtime_env \<Rightarrow> StateStore \<Rightarrow> string \<Rightarrow> int \<Rightarrow> string option \<Rightarrow> StatePersistenceConfig \<Rightarrow> 'w run \<Rightarrow> 'w run" where
  "persistState env store pipelineID executionStart lastID cfg r =
     (let state = \<lparr>st_PipelineID = pipelineID,
                   LastTimestamp = (if TimestampEnabled (Some cfg) then Some executionStart else None),
                   LastID = (if IDEnabled (Some cfg) \<and> lastID \<noteq> None then lastID else None),
                   UpdatedAt = time_now env (rw r)\<rparr>
      in (if LastTimestamp state \<noteq> None \<or> LastID state \<noteq> None
          then log_call (CSave state) (r\<lparr>disk := snd (state_Save (fs env) store pipelineID (Some state) (disk r))\<rparr>)
          else r))"

definition finalizeSuccess :: "'w runtime_env \<Rightarrow> 'w run \<Rightarrow> 'w run" where
  "finalizeSuccess env r =
     set_result (\<lambda>x. x\<lparr>er_Status := StatusSuccess, er_CompletedAt := Some (time_now env (rw r)), er_Error := None\<rparr>) r"

text \<open>The body of \<open>ExecuteWithContext\<close> after validation, without the deferred close of the output.\<close>

definition execute_validated ::
  "'w runtime_env \<Rightarrow> pipeline_config \<Rightarrow> 'w input_module \<Rightarrow> int \<Rightarrow> 'w run \<Rightarrow> gerr option \<times> 'w run" where
  "execute_validated env p m startedAt r =
     (let r = set_result (\<lambda>x. x\<lparr>er_PipelineID := pl_ID p\<rparr>) r;
          (cfg, r) = setupStatePersistence p r
      in (case executePipelineStages env p cfg m r of
            (Inl err, r) \<Rightarrow> (Some err, r)
          | (Inr lastID, r) \<Rightarrow>
              let r = (case (cfg, stateStore (exec r)) of
                         (Some c, Some store) \<Rightarrow>
                           if persistence_IsEnabled cfg
                           then persistState env store (pl_ID p) startedAt lastID c r else r
                       | _ \<Rightarrow> r)
              in (None, finalizeSuccess env r)))"

definition ExecuteWithContext ::
  "'w runtime_env \<Rightarrow> pipeline_config option \<Rightarrow> 'w executor \<Rightarrow> 'w \<Rightarrow> files \<Rightarrow> gerr option \<times> 'w run" where
  "ExecuteWithContext env pl e w d =
     (let startedAt = time_now env w;
          r = \<lparr>rw = w, disk = d, exec = e, rresult = newErrorResult startedAt, calls = []\<rparr>
      in (case validateExecution env pl r of
            (Some err, r) \<Rightarrow> (Some err, r)
          | (None, r) \<Rightarrow>
              (case (pl, inputModule (exec r)) of
                 (Some p, Some m) \<Rightarrow>
                   let (err, r') = execute_validated env p m startedAt r
                   in (err, (case outputModule (exec r) of
                               Some out \<Rightarrow> if retainModules (exec r) then r' else close_output out r'
                             | None \<Rightarrow> r'))
               | _ \<Rightarrow> (None, r))))"

definition newRecordsInput :: "records \<Rightarrow> 'w input_module" where
  "newRecordsInput records =
     \<lparr>in_Fetch = (\<lambda>w. (Inr records, w)), in_Close = (\<lambda>w. (None, w)), in_RetryInfo = None, in_Persistent = None\<rparr>"

text \<open>The executor is copied before its input is replaced, so the caller's executor is unchanged.\<close>

definition ExecuteWithRecordsContext ::
  "'w runtime_env \<Rightarrow> pipeline_config option \<Rightarrow> 'w executor \<Rightarrow> records \<Rightarrow> 'w \<Rightarrow> files \<Rightarrow> gerr option \<times> 'w run" where
  "ExecuteWithRecordsContext env pl e records w d =
     (case ExecuteWithContext env pl (e\<lparr>inputModule := Some (newRecordsInput records)\<rparr>) w d of
        (err, r) \<Rightarrow> (err, r\<lparr>exec := e\<rparr>))"


subsection \<open>What a stretch of a run does\<close>

text \<open>
  The position of a call in an execution over \<open>n\<close> filters, and the invariant of a stretch of
  the run between two positions: its calls come in strictly increasing position, none of them
  connects or sends in dry-run mode, none closes a module the caller retains, and the
  configuration of the executor stays.
\<close>

fun rank :: "nat \<Rightarrow> call \<Rightarrow> nat" where
  "rank n CSetPipelineID = 0"
| "rank n CSetStateStore = 1"
| "rank n CLoadState = 2"
| "rank n CConnect = 3"
| "rank n CFetch = 4"
| "rank n CCloseInput = 5"
| "rank n (CProcess i _) = 6 + i"
| "rank n CPreview = 6 + n"
| "rank n (CSend _) = 7 + n"
| "rank n (CSave _) = 8 + n"
| "rank n CCloseOutput = 9 + n"

fun reaches_output :: "call \<Rightarrow> bool" where
  "reaches_output CConnect = True"
| "reaches_output (CSend _) = True"
| "reaches_output _ = False"

fun is_close :: "call \<Rightarrow> bool" where
  "is_close CCloseInput = True"
| "is_close CCloseOutput = True"
| "is_close _ = False"

definition allowed :: "'w executor \<Rightarrow> call \<Rightarrow> bool" where
  "allowed e c \<longleftrightarrow> \<not> (dryRun e \<and> reaches_output c) \<and> \<not> (retainModules e \<and> is_close c)"

lemma allowed_simps [simp]:
  "\<not> reaches_output c \<Longrightarrow> \<not> is_close c \<Longrightarrow> allowed e c" "\<not> retainModules e \<Longrightarrow> \<not> reaches_output c \<Longrightarrow> allowed e c"
  "\<not> dryRun e \<Longrightarrow> \<not> is_close c \<Longrightarrow> allowed e c"
  by (simp_all add: allowed_def)

definition same_exec :: "'w executor \<Rightarrow> 'w executor \<Rightarrow> bool" where
  "same_exec e e' \<longleftrightarrow> filterModules e' = filterModules e \<and> outputModule e' = outputModule e
     \<and> dryRun e' = dryRun e \<and> retainModules e' = retainModules e"

definition phase :: "nat \<Rightarrow> nat \<Rightarrow> nat \<Rightarrow> 'w run \<Rightarrow> 'w run \<Rightarrow> bool" where
  "phase n lo hi r r' \<longleftrightarrow>
     (\<exists>cs. calls r' = calls r @ cs \<and> sorted_wrt (<) (map (rank n) cs)
        \<and> (\<forall>c \<in> set cs. lo \<le> rank n c \<and> rank n c < hi \<and> allowed (exec r) c))
     \<and> same_exec (exec r) (exec r')"

lemma same_exec_refl [simp]: "same_exec e e" by (simp add: same_exec_def)

lemma phase_same: "calls r' = calls r \<Longrightarrow> same_exec (exec r) (exec r') \<Longrightarrow> phase n lo hi r r'"
  by (auto simp: phase_def)

lemma phase_refl [simp]: "phase n lo hi r r"
  by (simp add: phase_same)

lemma phase_one:
  "calls r' = calls r @ [c] \<Longrightarrow> lo \<le> rank n c \<Longrightarrow> rank n c < hi \<Longrightarrow> allowed (exec r) c
   \<Longrightarrow> same_exec (exec r) (exec r') \<Longrightarrow> phase n lo hi r r'"
  by (auto simp: phase_def)

lemma phase_trans:
  assumes "phase n lo mid r r'" "phase n mid hi r' r''" "lo \<le> mid" "mid \<le> hi"
  shows "phase n lo hi r r''"
proof -
  from assms(1) obtain cs where cs: "calls r' = calls r @ cs" "sorted_wrt (<) (map (rank n) cs)"
      "\<forall>c \<in> set cs. lo \<le> rank n c \<and> rank n c < mid \<and> allowed (exec r) c"
      "same_exec (exec r) (exec r')"
    by (auto simp: phase_def)
  from assms(2) obtain ds where ds: "calls r'' = calls r' @ ds" "sorted_wrt (<) (map (rank n) ds)"
      "\<forall>c \<in> set ds. mid \<le> rank n c \<and> rank n c < hi \<and> allowed (exec r') c"
      "same_exec (exec r') (exec r'')"
    by (auto simp: phase_def)
  have "sorted_wrt (<) (map (rank n) (cs @ ds))"
    using cs ds by (fastforce simp: sorted_wrt_append)
  moreover have "same_exec (exec r) (exec r'')" "allowed (exec r') = allowed (exec r)"
    using cs(4) ds(4) by (simp_all add: same_exec_def allowed_def fun_eq_iff)
  moreover have "\<forall>c \<in> set (cs @ ds). lo \<le> rank n c \<and> rank n c < hi \<and> allowed (exec r) c"
    using cs(3) ds(3) calculation(3) assms(3,4) by fastforce
  ultimately show ?thesis using cs(1) ds(1) unfolding phase_def by (intro conjI exI [of _ "cs @ ds"]) simp_all
qed

lemma phase_mono: "phase n lo hi r r' \<Longrightarrow> lo' \<le> lo \<Longrightarrow> hi \<le> hi' \<Longrightarrow> phase n lo' hi' r r'"
  unfolding phase_def by (meson order.trans order.strict_trans2)

lemma phase_exec: "phase n lo hi r r' \<Longrightarrow> same_exec (exec r) (exec r')"
  by (simp add: phase_def)

lemma phase_calls: "phase n lo hi r r' \<Longrightarrow> c \<in> set (calls r') \<Longrightarrow> c \<in> set (calls r) \<or> (lo \<le> rank n c \<and> rank n c < hi)"
  by (auto simp: phase_def)

text \<open>A fetch since \<open>r0\<close> is followed by the close of the input, which only follows a fetch.\<close>

definition closed_ok :: "'w run \<Rightarrow> 'w run \<Rightarrow> bool" where
  "closed_ok r0 r \<longleftrightarrow> (retainModules (exec r0) \<or> CFetch \<notin> set (calls r) \<or> CFetch \<in> set (calls r0)
     \<or> CCloseInput \<in> set (calls r))
   \<and> (CCloseInput \<in> set (calls r) \<longrightarrow> CFetch \<in> set (calls r) \<or> CCloseInput \<in> set (calls r0))"

lemma closed_ok_phase:
  assumes "phase n lo hi r r'" "6 \<le> lo" "closed_ok r0 r"
  shows "closed_ok r0 r'"
proof -
  from assms(1) obtain cs where cs: "calls r' = calls r @ cs" "\<forall>c \<in> set cs. lo \<le> rank n c"
    by (auto simp: phase_def)
  then have "CFetch \<notin> set cs" "CCloseInput \<notin> set cs" using assms(2) by fastforce+
  with cs(1) assms(3) show ?thesis by (auto simp: closed_ok_def)
qed

lemma closed_ok_nofetch:
  "CFetch \<notin> set (calls r') \<Longrightarrow> CCloseInput \<in> set (calls r') \<longrightarrow> CCloseInput \<in> set (calls r) \<Longrightarrow> closed_ok r r'"
  by (simp add: closed_ok_def)

subsection \<open>The stages\<close>

lemma run_simps [simp]:
  "disk (log_call c r) = disk r" "exec (log_call c r) = exec r" "calls (log_call c r) = calls r @ [c]"
  "rresult (log_call c r) = rresult r" "rw (log_call c r) = rw r"
  by (simp_all add: log_call_def)

lemma retry_info_simps [simp]:
  "disk (input_retry_info m r) = disk r" "exec (input_retry_info m r) = exec r"
  "calls (input_retry_info m r) = calls r" "rw (input_retry_info m r) = rw r"
  "disk (output_retry_info r) = disk r" "exec (output_retry_info r) = exec r"
  "calls (output_retry_info r) = calls r" "rw (output_retry_info r) = rw r"
  by (simp_all add: input_retry_info_def output_retry_info_def split: option.split)

lemma retry_info_result [simp]:
  "er_Error (rresult (input_retry_info m r)) = er_Error (rresult r)"
  "er_Error (rresult (output_retry_info r)) = er_Error (rresult r)"
  "er_Status (rresult (input_retry_info m r)) = er_Status (rresult r)"
  "er_Status (rresult (output_retry_info r)) = er_Status (rresult r)"
  "RecordsProcessed (rresult (output_retry_info r)) = RecordsProcessed (rresult r)"
  "RecordsFailed (rresult (output_retry_info r)) = RecordsFailed (rresult r)"
  by (simp_all add: input_retry_info_def output_retry_info_def split: option.split)

lemma connect_phase:
  assumes "connectOutput r = (err, r')"
  shows "phase n 3 4 r r' \<and> disk r' = disk r \<and> rresult r' = rresult r"
  using assms
  by (auto simp: connectOutput_def Let_def intro!: phase_one [where c = CConnect]
      split: if_splits option.splits prod.splits)

lemma input_phase:
  assumes "executeInput env m r = (res, r')"
  shows "phase n 4 5 r r' \<and> disk r' = disk r \<and> er_Status (rresult r') = er_Status (rresult r)"
  using assms
  by (auto simp: executeInput_def Let_def intro!: phase_one [where c = CFetch]
      split: prod.splits sum.splits)

lemma release_phase:
  "phase n 5 6 r (release_input m r) \<and> disk (release_input m r) = disk r \<and> rresult (release_input m r) = rresult r"
  by (auto simp: release_input_def close_input_def Let_def same_exec_def intro!: phase_one [where c = CCloseInput])

lemma input_fetches: "executeInput env m r = (res, r') \<Longrightarrow> CFetch \<in> set (calls r')"
  by (auto simp: executeInput_def Let_def split: prod.splits sum.splits)

lemma fetch_phase:
  assumes "connectOutput r = (None, r1)" "executeInput env m r1 = (res, r2)"
  shows "phase n 3 6 r (release_input m r2) \<and> disk (release_input m r2) = disk r
    \<and> er_Status (rresult (release_input m r2)) = er_Status (rresult r) \<and> closed_ok r (release_input m r2)"
  using phase_trans [OF connect_phase [OF assms(1), THEN conjunct1]
      phase_trans [OF input_phase [OF assms(2), THEN conjunct1] release_phase [THEN conjunct1]], of n m]
    connect_phase [OF assms(1), of n] input_phase [OF assms(2), of n] release_phase [of n r2 m]
    phase_exec [OF connect_phase [OF assms(1), THEN conjunct1]]
    phase_exec [OF input_phase [OF assms(2), THEN conjunct1]] input_fetches [OF assms(2)]
  by (auto simp: closed_ok_def release_input_def close_input_def Let_def same_exec_def)

lemma filters_phase:
  assumes "executeFilters i ms records t r = (res, t', r')" "i + length ms \<le> n"
  shows "phase n (6 + i) (6 + n) r r' \<and> disk r' = disk r \<and> rresult r' = rresult r"
  using assms
proof (induction i ms records t r rule: executeFilters.induct)
  case (2 i ms records t r)
  then show ?case by (auto intro: phase_mono)
next
  case (3 i m ms records t r)
  obtain x t1 w1 where p: "f_Process m records (t, rw r) = (x, t1, w1)"
    by (cases "f_Process m records (t, rw r)") auto
  define r1 where "r1 = log_call (CProcess i records) (r\<lparr>rw := w1\<rparr>)"
  have one: "phase n (6 + i) (6 + Suc i) r r1"
    by (rule phase_one [where c = "CProcess i records"]) (simp_all add: r1_def)
  have same: "disk r1 = disk r" "rresult r1 = rresult r" by (simp_all add: r1_def)
  show ?case
  proof (cases x)
    case (Inl err)
    have "phase n (6 + i) (6 + n) r r1"
      by (rule phase_mono [OF one]) (use "3.prems"(2) in auto)
    with Inl "3.prems" p same show ?thesis by (auto simp: Let_def simp flip: r1_def)
  next
    case (Inr recs)
    from "3.prems" p Inr have run: "executeFilters (Suc i) ms recs t1 r1 = (res, t', r')"
      by (simp add: r1_def)
    have IH: "phase n (6 + Suc i) (6 + n) r1 r' \<and> disk r' = disk r1 \<and> rresult r' = rresult r1"
      using "3.IH" [OF refl p [symmetric] refl r1_def Inr] run "3.prems"(2) by simp
    then have "phase n (6 + i) (6 + n) r r'"
      using "3.prems"(2) by (intro phase_trans [OF one]) auto
    with IH same show ?thesis by simp
  qed
qed simp


lemma filters_result_phase:
  assumes "executeFiltersWithResult env records t r = (res, t', r')" "n = length (filterModules (exec r))"
  shows "phase n 6 (6 + n) r r' \<and> disk r' = disk r \<and> er_Status (rresult r') = er_Status (rresult r)"
proof -
  obtain x t1 r1 where f: "executeFilters 0 (filterModules (exec r)) records t r = (x, t1, r1)"
    by (cases "executeFilters 0 (filterModules (exec r)) records t r") auto
  have p: "phase n 6 (6 + n) r r1" and "disk r1 = disk r" "rresult r1 = rresult r"
    using filters_phase [OF f, of n] assms(2) by simp_all
  moreover have "disk r' = disk r1" "er_Status (rresult r') = er_Status (rresult r1)" "phase n (6 + n) (6 + n) r1 r'"
    using assms(1) f
    by (auto simp: executeFiltersWithResult_def Let_def intro!: phase_same split: sum.splits prod.splits)
  ultimately show ?thesis using phase_trans [OF p] by auto
qed

lemma preview_phase:
  "phase n (6 + n) (7 + n) r (executeDryRunPreview p rs r) \<and> disk (executeDryRunPreview p rs r) = disk r
   \<and> er_Status (rresult (executeDryRunPreview p rs r)) = er_Status (rresult r)"
proof (cases "Option.bind (outputModule (exec r)) out_Preview")
  case None
  then show ?thesis
    by (auto simp: executeDryRunPreview_def intro!: phase_same split: option.splits)
next
  case (Some preview)
  then show ?thesis
    by (auto simp: executeDryRunPreview_def Let_def intro!: phase_one [where c = CPreview]
        split: option.splits prod.splits sum.splits)
qed

lemma output_phase:
  assumes "executeOutputWithResult env rs r = (err, r')"
  shows "phase n (7 + n) (8 + n) r r' \<and> disk r' = disk r \<and> er_Status (rresult r') = er_Status (rresult r)"
proof (cases "\<not> dryRun (exec r) \<and> outputModule (exec r) \<noteq> None")
  case True
  with assms show ?thesis
    by (auto simp: executeOutputWithResult_def executeOutput_def intro!: phase_one [where c = "CSend rs"]
        split: option.splits prod.splits bool.splits)
next
  case False
  with assms show ?thesis
    by (auto simp: executeOutputWithResult_def executeOutput_def intro!: phase_same
        split: option.splits prod.splits bool.splits)
qed

lemma setup_phase:
  assumes "setupStatePersistence p r = (cfg, r')"
  shows "phase n 0 3 r r' \<and> disk r' = disk r \<and> rresult r' = rresult r \<and> inputModule (exec r') = inputModule (exec r)"
proof (cases "Option.bind (inputModule (exec r)) in_Persistent")
  case None
  with assms show ?thesis by (simp add: setupStatePersistence_def)
next
  case (Some sp)
  define r1 where "r1 = log_call CSetPipelineID (r\<lparr>rw := SetPipelineID sp (pl_ID p) (rw r)\<rparr>)"
  define r2 where "r2 = (case GetPersistenceConfig sp (rw r1) of
      None \<Rightarrow> r1
    | Some c \<Rightarrow> if StoragePath c \<noteq> []
                then r1\<lparr>exec := (exec r1)\<lparr>stateStore := Some (NewStateStore (StoragePath c))\<rparr>\<rparr> else r1)"
  define r3 where "r3 = (case stateStore (exec r2) of
      None \<Rightarrow> r2 | Some s \<Rightarrow> log_call CSetStateStore (r2\<lparr>rw := SetStateStore sp s (rw r2)\<rparr>))"
  define r4 where "r4 = log_call CLoadState (r3\<lparr>rw := snd (LoadState sp (disk r3) (rw r3))\<rparr>)"
  have r': "r' = r4"
    using assms unfolding setupStatePersistence_def Some r4_def r3_def r2_def r1_def Let_def case_prod_beta
    by simp
  have p1: "phase n 0 1 r r1" by (rule phase_one [where c = CSetPipelineID]) (simp_all add: r1_def)
  have p2: "phase n 1 1 r1 r2" by (rule phase_same) (simp_all add: r2_def same_exec_def split: option.split)
  have p3: "phase n 1 2 r2 r3"
    by (cases "stateStore (exec r2)")
      (simp_all add: r3_def phase_same, rule phase_one [where c = CSetStateStore], simp_all)
  have p4: "phase n 2 3 r3 r4" by (rule phase_one [where c = CLoadState]) (simp_all add: r4_def)
  have "phase n 0 3 r r4"
    using phase_trans [OF p1 phase_trans [OF p2 phase_trans [OF p3 p4]]] by simp
  then show ?thesis
    by (simp add: r' r4_def r3_def r2_def r1_def split: option.split)
qed

text \<open>
  An execution of the stages ends early, before the output, or with the outcome of the output
  on the records the filters returned.
\<close>

lemma stages_cases:
  assumes "executePipelineStages env p cfg m r = (res, r')" "n = length (filterModules (exec r))"
  obtains (early) err where "res = Inl err" "phase n 3 (7 + n) r r'" "disk r' = disk r"
      "er_Status (rresult r') = er_Status (rresult r)" "CFetch \<notin> set (calls r) \<longrightarrow> closed_ok r r'"
  | (late) filtered r6 e7 raw where "phase n 3 (7 + n) r r6" "disk r6 = disk r" "closed_ok r r6"
      "er_Status (rresult r6) = er_Status (rresult r)"
      "executeOutputWithResult env filtered r6 = (e7, r')"
      "res = (case e7 of None \<Rightarrow> Inr (extract_last_id env cfg raw) | Some err \<Rightarrow> Inl err)"
proof -
  obtain e1 r1 x2 r2 where c: "connectOutput r = (e1, r1)" and i: "executeInput env m r1 = (x2, r2)"
    by (cases "connectOutput r"; cases "executeInput env m (snd (connectOutput r))") auto
  define r3 where "r3 = release_input m r2"
  show thesis
  proof (cases "\<exists>raw. e1 = None \<and> x2 = Inr raw")
    case False
    then consider err where "e1 = Some err" | err where "e1 = None" "x2 = Inl err" by (cases e1; cases x2) auto
    then show thesis
    proof cases
      case (1 err)
      with c assms(1) have r': "res = Inl err" "r' = r1" by (simp_all add: executePipelineStages_def)
      have "CFetch \<notin> set (calls r) \<longrightarrow> CFetch \<notin> set (calls r1)"
        "CCloseInput \<in> set (calls r1) \<longrightarrow> CCloseInput \<in> set (calls r)"
        using phase_calls [OF connect_phase [OF c, of n, THEN conjunct1], of CFetch]
          phase_calls [OF connect_phase [OF c, of n, THEN conjunct1], of CCloseInput] by auto
      with r' connect_phase [OF c, of n] show thesis
        by (intro early [of err]) (auto intro: phase_mono closed_ok_nofetch)
    next
      case (2 err)
      with fetch_phase [of r r1 env m x2 r2 n] c i assms(1) show thesis
        by (intro early [of err]) (auto simp: executePipelineStages_def intro: phase_mono)
    qed
  next
    case True
    then obtain raw where raw: "e1 = None" "x2 = Inr raw" by auto
    have p3: "phase n 3 6 r r3" "disk r3 = disk r" "er_Status (rresult r3) = er_Status (rresult r)"
        "closed_ok r r3"
      using fetch_phase [of r r1 env m x2 r2 n] c i raw by (simp_all add: r3_def)
    obtain x4 t4 r4 where f: "executeFiltersWithResult env raw (Some NewMarkerTally) r3 = (x4, t4, r4)"
      by (cases "executeFiltersWithResult env raw (Some NewMarkerTally) r3") auto
    have n: "n = length (filterModules (exec r3))"
      using phase_exec [OF p3(1)] assms(2) by (simp add: same_exec_def)
    note p4 = filters_result_phase [OF f n]
    have p14: "phase n 3 (6 + n) r r4" using phase_trans [OF p3(1) p4 [THEN conjunct1]] by simp
    define r5 where "r5 = set_result (\<lambda>x. x\<lparr>ErrorCounts := tally_Counts t4\<rparr>) r4"
    define r6 where "r6 = (if dryRun (exec r5) then executeDryRunPreview p (projr x4) r5 else r5)"
    have p6: "phase n (6 + n) (7 + n) r4 r6 \<and> disk r6 = disk r4 \<and> er_Status (rresult r6) = er_Status (rresult r4)"
      using preview_phase [of n r5 p "projr x4"] phase_trans [of n "6 + n" "6 + n" r4 r5 "7 + n" r6]
      by (auto simp: r6_def r5_def phase_same)
    note run = assms(1) c i f raw r3_def [symmetric]
    have cl: "closed_ok r r4" "closed_ok r r6"
      using closed_ok_phase [OF p4 [THEN conjunct1] _ p3(4)] closed_ok_phase [OF p6 [THEN conjunct1]] by simp_all
    show thesis
    proof (cases x4)
      case (Inl err)
      with run p14 p3 p4 cl show thesis
        by (intro early [of err]) (auto simp: executePipelineStages_def Let_def intro: phase_mono)
    next
      case (Inr filtered)
      obtain e7 r7 where o7: "executeOutputWithResult env filtered r6 = (e7, r7)"
        by (cases "executeOutputWithResult env filtered r6")
      from Inr have projr: "projr x4 = filtered" by simp
      have "r' = r7 \<and> res = (case e7 of None \<Rightarrow> Inr (extract_last_id env cfg raw) | Some err \<Rightarrow> Inl err)"
        using run Inr o7 projr unfolding executePipelineStages_def Let_def r6_def r5_def projr
        by (auto split: option.splits)
      with o7 p14 p6 p3 p4 cl show thesis
        by (intro late [of r6 filtered e7 raw]) (auto intro: phase_trans [OF p14])
    qed
  qed
qed

lemma stages_phase:
  assumes "executePipelineStages env p cfg m r = (res, r')" "n = length (filterModules (exec r))"
  shows "phase n 3 (8 + n) r r' \<and> disk r' = disk r \<and> er_Status (rresult r') = er_Status (rresult r)"
proof (cases rule: stages_cases [OF assms, case_names early late])
  case (early err)
  then show ?thesis by (auto intro: phase_mono)
next
  case (late filtered r6 e7 raw)
  note o7 = output_phase [OF late(5), of n]
  with late show ?thesis using phase_trans [OF late(1) o7 [THEN conjunct1]] by simp
qed


lemma output_accounting:
  assumes "executeOutputWithResult env filtered r = (err, r')"
  shows "RecordsProcessed (rresult r') + RecordsFailed (rresult r') = int (length filtered)
    \<and> (if dryRun (exec r) \<or> outputModule (exec r) = None
       then calls r' = calls r \<and> err = None \<and> RecordsFailed (rresult r') = 0
       else calls r' = calls r @ [CSend filtered])"
  using assms
  by (auto simp: executeOutputWithResult_def executeOutput_def split: option.splits prod.splits bool.splits)

subsection \<open>The whole execution\<close>

definition start_run :: "'w runtime_env \<Rightarrow> 'w executor \<Rightarrow> 'w \<Rightarrow> files \<Rightarrow> 'w run" where
  "start_run env e w d =
     \<lparr>rw = w, disk = d, exec = e, rresult = newErrorResult (time_now env w), calls = []\<rparr>"

text \<open>An execution is refused by validation, or is the body followed by the deferred close.\<close>

lemma execute_cases:
  assumes "ExecuteWithContext env pl e w d = (err, r)"
  obtains (refused) verr where "err = Some verr" "calls r = []" "disk r = d" "exec r = e"
      "er_Status (rresult r) = StatusError" "er_Error (rresult r) \<noteq> None"
      "pl = None \<or> inputModule e = None \<or> (outputModule e = None \<and> \<not> dryRun e)"
  | (run) p m r' where "pl = Some p" "inputModule e = Some m" "outputModule e \<noteq> None \<or> dryRun e"
      "execute_validated env p m (time_now env w) (start_run env e w d) = (err, r')"
      "r = (case outputModule e of Some out \<Rightarrow> if retainModules e then r' else close_output out r' | None \<Rightarrow> r')"
  using assms
  by (cases "execute_validated env (the pl) (the (inputModule e)) (time_now env w) (start_run env e w d)")
    (auto simp: ExecuteWithContext_def validateExecution_def start_run_def Let_def newErrorResult_def
      split: if_splits option.splits prod.splits)

lemma persistState_cases:
  obtains (nothing) "persistState env store i t lid cfg r = r"
  | (saved) st d where "persistState env store i t lid cfg r = log_call (CSave st) (r\<lparr>disk := d\<rparr>)"
  by (cases "persistState env store i t lid cfg r = r") (auto simp: persistState_def Let_def split: if_splits)

lemma persist_phase: "phase n (8 + n) (9 + n) r (persistState env store i t lid cfg r)"
  by (rule persistState_cases [of env store i t lid cfg r])
    (auto simp: phase_one [where c = "CSave _"])

text \<open>The body: its stages from the state \<open>r1\<close> the persistence set-up leaves, then the save.\<close>

lemma validated_cases:
  assumes "execute_validated env p m t0 r = (err, r')" "n = length (filterModules (exec r))"
  obtains cfg r1 res r2 where
    "phase n 0 3 r r1" "disk r1 = disk r" "er_Status (rresult r1) = er_Status (rresult r)"
    "executePipelineStages env p cfg m r1 = (res, r2)" "n = length (filterModules (exec r1))"
    "setupStatePersistence p (set_result (\<lambda>x. x\<lparr>er_PipelineID := pl_ID p\<rparr>) r) = (cfg, r1)"
    "case res of
       Inl e \<Rightarrow> err = Some e \<and> r' = r2
     | Inr lid \<Rightarrow> err = None \<and> (\<exists>r3. r' = finalizeSuccess env r3
         \<and> (r3 = r2 \<or> (\<exists>c store. cfg = Some c \<and> persistence_IsEnabled cfg \<and> stateStore (exec r2) = Some store
                      \<and> r3 = persistState env store (pl_ID p) t0 lid c r2)))"
proof -
  define r0 where "r0 = set_result (\<lambda>x. x\<lparr>er_PipelineID := pl_ID p\<rparr>) r"
  obtain cfg r1 where s: "setupStatePersistence p r0 = (cfg, r1)" by (cases "setupStatePersistence p r0")
  note su = setup_phase [OF s, of n]
  obtain res r2 where st: "executePipelineStages env p cfg m r1 = (res, r2)"
    by (cases "executePipelineStages env p cfg m r1")
  show thesis
  proof (rule that [OF _ _ _ st])
    show "phase n 0 3 r r1" using su by (auto simp: r0_def phase_def)
    show "disk r1 = disk r" "er_Status (rresult r1) = er_Status (rresult r)" using su by (simp_all add: r0_def)
    show "n = length (filterModules (exec r1))"
      using su assms(2) phase_exec [of n 0 3 r0 r1] by (simp add: same_exec_def r0_def)
    show "setupStatePersistence p (set_result (\<lambda>x. x\<lparr>er_PipelineID := pl_ID p\<rparr>) r) = (cfg, r1)"
      using s by (simp add: r0_def)
    show "case res of
       Inl e \<Rightarrow> err = Some e \<and> r' = r2
     | Inr lid \<Rightarrow> err = None \<and> (\<exists>r3. r' = finalizeSuccess env r3
         \<and> (r3 = r2 \<or> (\<exists>c store. cfg = Some c \<and> persistence_IsEnabled cfg \<and> stateStore (exec r2) = Some store
                      \<and> r3 = persistState env store (pl_ID p) t0 lid c r2)))"
      using assms(1) s st
      by (cases res; cases cfg; cases "stateStore (exec r2)")
        (auto simp: execute_validated_def Let_def simp flip: r0_def split: if_splits)
  qed
qed

lemma finalize_simps [simp]:
  "calls (finalizeSuccess env r) = calls r" "disk (finalizeSuccess env r) = disk r"
  "exec (finalizeSuccess env r) = exec r" "er_Status (rresult (finalizeSuccess env r)) = StatusSuccess"
  "er_Error (rresult (finalizeSuccess env r)) = None"
  "RecordsProcessed (rresult (finalizeSuccess env r)) = RecordsProcessed (rresult r)"
  "RecordsFailed (rresult (finalizeSuccess env r)) = RecordsFailed (rresult r)"
  by (simp_all add: finalizeSuccess_def)

lemma validated_phase:
  assumes "execute_validated env p m t0 r = (err, r')" "n = length (filterModules (exec r))"
  shows "phase n 0 (9 + n) r r'
    \<and> (case err of
         Some _ \<Rightarrow> phase n 0 (8 + n) r r' \<and> disk r' = disk r \<and> er_Status (rresult r') = er_Status (rresult r)
       | None \<Rightarrow> er_Status (rresult r') = StatusSuccess \<and> er_Error (rresult r') = None)"
proof (rule validated_cases [OF assms])
  fix cfg r1 res r2
  assume a: "phase n 0 3 r r1" "disk r1 = disk r" "er_Status (rresult r1) = er_Status (rresult r)"
    "executePipelineStages env p cfg m r1 = (res, r2)" "n = length (filterModules (exec r1))"
    "case res of
       Inl e \<Rightarrow> err = Some e \<and> r' = r2
     | Inr lid \<Rightarrow> err = None \<and> (\<exists>r3. r' = finalizeSuccess env r3
         \<and> (r3 = r2 \<or> (\<exists>c store. cfg = Some c \<and> persistence_IsEnabled cfg \<and> stateStore (exec r2) = Some store
                      \<and> r3 = persistState env store (pl_ID p) t0 lid c r2)))"
  note st = stages_phase [OF a(4,5)]
  have p2: "phase n 0 (8 + n) r r2" using phase_trans [OF a(1) st [THEN conjunct1]] by simp
  show ?thesis
  proof (cases res)
    case (Inl e)
    with a st p2 show ?thesis by (auto intro: phase_mono)
  next
    case (Inr lid)
    with a(6) obtain r3 where r3: "err = None" "r' = finalizeSuccess env r3"
        "r3 = r2 \<or> (\<exists>c store. r3 = persistState env store (pl_ID p) t0 lid c r2)" by auto
    then have "phase n (8 + n) (9 + n) r2 r3" using persist_phase by fastforce
    then have "phase n (8 + n) (9 + n) r2 r'" using r3(2) by (simp add: phase_def)
    with p2 r3 show ?thesis by (auto intro: phase_trans)
  qed
qed


lemma close_output_simps [simp]:
  "calls (close_output m r) = calls r @ [CCloseOutput]" "disk (close_output m r) = disk r"
  "exec (close_output m r) = exec r" "rresult (close_output m r) = rresult r"
  by (simp_all add: close_output_def)

lemma start_run_simps [simp]:
  "calls (start_run env e w d) = []" "disk (start_run env e w d) = d" "exec (start_run env e w d) = e"
  "rw (start_run env e w d) = w" "er_Status (rresult (start_run env e w d)) = StatusError"
  by (simp_all add: start_run_def newErrorResult_def)

lemma execute_phase:
  assumes "ExecuteWithContext env pl e w d = (err, r)" "n = length (filterModules e)"
  shows "phase n 0 (10 + n) (start_run env e w d) r"
proof (rule execute_cases [OF assms(1)])
  assume "calls r = []" "exec r = e"
  then show ?thesis by (simp add: phase_same)
next
  fix p m r'
  assume v: "execute_validated env p m (time_now env w) (start_run env e w d) = (err, r')"
    and r: "r = (case outputModule e of Some out \<Rightarrow> if retainModules e then r' else close_output out r' | None \<Rightarrow> r')"
  have p1: "phase n 0 (9 + n) (start_run env e w d) r'" using validated_phase [OF v] assms(2) by simp
  have "phase n (9 + n) (10 + n) r' r"
  proof (cases "r = r'")
    case False
    with r phase_exec [OF p1] show ?thesis
      by (auto intro!: phase_one [where c = CCloseOutput] simp: same_exec_def split: option.splits if_splits)
  qed simp
  then show ?thesis using phase_trans [OF p1] by simp
qed

text \<open>The records handed to the output are accounted for.\<close>

definition accounted :: "gerr option \<Rightarrow> 'w run \<Rightarrow> bool" where
  "accounted err r \<longleftrightarrow>
     (\<forall>rs. CSend rs \<in> set (calls r) \<longrightarrow>
        RecordsProcessed (rresult r) + RecordsFailed (rresult r) = int (length rs))
     \<and> (err = None \<longrightarrow> (if dryRun (exec r) then RecordsFailed (rresult r) = 0
                        else \<exists>rs. CSend rs \<in> set (calls r)))"

lemma accounted_cong:
  "accounted err r \<Longrightarrow> rresult r' = rresult r \<or> (RecordsProcessed (rresult r') = RecordsProcessed (rresult r)
     \<and> RecordsFailed (rresult r') = RecordsFailed (rresult r))
   \<Longrightarrow> (\<And>rs. CSend rs \<in> set (calls r') \<longleftrightarrow> CSend rs \<in> set (calls r)) \<Longrightarrow> dryRun (exec r') = dryRun (exec r)
   \<Longrightarrow> accounted err r'"
  by (auto simp: accounted_def)

lemma stages_accounted:
  assumes "executePipelineStages env p cfg m r = (res, r')" "\<And>rs. CSend rs \<notin> set (calls r)"
    and "outputModule (exec r) \<noteq> None \<or> dryRun (exec r)"
  shows "accounted (case res of Inl e \<Rightarrow> Some e | Inr _ \<Rightarrow> None) r'"
proof (cases rule: stages_cases [OF assms(1) refl, case_names early late])
  case (early err)
  then have "CSend rs \<notin> set (calls r')" for rs
    using phase_calls [OF early(2), of "CSend rs"] assms(2) by auto
  with early show ?thesis by (simp add: accounted_def)
next
  case (late filtered r6 e7 raw)
  have none: "CSend rs \<notin> set (calls r6)" for rs
    using phase_calls [OF late(1), of "CSend rs"] assms(2) by auto
  have ex: "dryRun (exec r6) = dryRun (exec r)" "outputModule (exec r6) = outputModule (exec r)"
    "dryRun (exec r') = dryRun (exec r)"
    using phase_exec [OF late(1)] phase_exec [OF output_phase [OF late(5), of 0, THEN conjunct1]]
    by (simp_all add: same_exec_def)
  from output_accounting [OF late(5)] none ex assms(3) late(6) show ?thesis
    by (auto simp: accounted_def split: if_splits option.splits)
qed

lemma persistState_saved:
  assumes "CSave st \<in> set (calls (persistState env store i t lid cfg r))" "CSave st \<notin> set (calls r)"
  shows "disk (persistState env store i t lid cfg r) = snd (state_Save (fs env) store i (Some st) (disk r))
    \<and> st_PipelineID st = i \<and> LastTimestamp st = (if TimestampEnabled (Some cfg) then Some t else None)
    \<and> LastID st = (if IDEnabled (Some cfg) then lid else None)"
  using assms by (auto simp: persistState_def Let_def split: if_splits)

lemma persist_accounted: "accounted err r \<Longrightarrow> accounted err (persistState env store i t lid cfg r)"
  by (rule persistState_cases [of env store i t lid cfg r]) (auto simp: accounted_def)

lemma validated_accounted:
  assumes "execute_validated env p m t0 r = (err, r')" "calls r = []"
    and "outputModule (exec r) \<noteq> None \<or> dryRun (exec r)"
  shows "accounted err r'"
proof (rule validated_cases [OF assms(1) refl])
  fix cfg r1 res r2
  assume a: "phase (length (filterModules (exec r))) 0 3 r r1"
    "executePipelineStages env p cfg m r1 = (res, r2)"
    "case res of
       Inl e \<Rightarrow> err = Some e \<and> r' = r2
     | Inr lid \<Rightarrow> err = None \<and> (\<exists>r3. r' = finalizeSuccess env r3
         \<and> (r3 = r2 \<or> (\<exists>c store. cfg = Some c \<and> persistence_IsEnabled cfg \<and> stateStore (exec r2) = Some store
                      \<and> r3 = persistState env store (pl_ID p) t0 lid c r2)))"
  have "CSend rs \<notin> set (calls r1)" for rs using phase_calls [OF a(1), of "CSend rs"] assms(2) by auto
  moreover have "outputModule (exec r1) \<noteq> None \<or> dryRun (exec r1)"
    using phase_exec [OF a(1)] assms(3) by (simp add: same_exec_def)
  ultimately have acc: "accounted (case res of Inl e \<Rightarrow> Some e | Inr _ \<Rightarrow> None) r2"
    by (rule stages_accounted [OF a(2)])
  show ?thesis
  proof (cases res)
    case (Inl e)
    with acc a(3) show ?thesis by simp
  next
    case (Inr lid)
    with a(3) obtain r3 where r3: "err = None" "r' = finalizeSuccess env r3"
        "r3 = r2 \<or> (\<exists>c store. r3 = persistState env store (pl_ID p) t0 lid c r2)" by auto
    then have "accounted None r3" using acc Inr persist_accounted by fastforce
    with r3 show ?thesis by (auto intro: accounted_cong)
  qed
qed

lemma execute_accounted:
  assumes "ExecuteWithContext env pl e w d = (err, r)"
  shows "accounted err r"
proof (rule execute_cases [OF assms])
  fix p m r'
  assume v: "execute_validated env p m (time_now env w) (start_run env e w d) = (err, r')"
    "outputModule e \<noteq> None \<or> dryRun e"
    and r: "r = (case outputModule e of Some out \<Rightarrow> if retainModules e then r' else close_output out r' | None \<Rightarrow> r')"
  from validated_accounted [OF v(1)] v(2) have "accounted err r'" by simp
  then show ?thesis using r by (auto intro: accounted_cong split: option.split)
qed (simp_all add: accounted_def)

lemma validated_closed:
  assumes "execute_validated env p m t0 r = (err, r')" "calls r = []"
  shows "closed_ok r r'"
proof (rule validated_cases [OF assms(1) refl])
  fix cfg r1 res r2
  assume a: "phase (length (filterModules (exec r))) 0 3 r r1"
    "executePipelineStages env p cfg m r1 = (res, r2)"
    "case res of
       Inl e \<Rightarrow> err = Some e \<and> r' = r2
     | Inr lid \<Rightarrow> err = None \<and> (\<exists>r3. r' = finalizeSuccess env r3
         \<and> (r3 = r2 \<or> (\<exists>c store. cfg = Some c \<and> persistence_IsEnabled cfg \<and> stateStore (exec r2) = Some store
                      \<and> r3 = persistState env store (pl_ID p) t0 lid c r2)))"
  have no: "CFetch \<notin> set (calls r1)" "CCloseInput \<notin> set (calls r1)"
    using phase_calls [OF a(1), of CFetch] phase_calls [OF a(1), of CCloseInput] assms(2) by auto
  have ret: "retainModules (exec r1) = retainModules (exec r)" using phase_exec [OF a(1)] by (simp add: same_exec_def)
  have "closed_ok r1 r2"
  proof (cases rule: stages_cases [OF a(2) refl, case_names early late])
    case (early err)
    with no show ?thesis by simp
  next
    case (late filtered r6 e7 raw)
    show ?thesis by (rule closed_ok_phase [OF output_phase [OF late(5), THEN conjunct1] _ late(3)]) simp
  qed
  then have "closed_ok r r2" using no ret by (auto simp: closed_ok_def)
  then have ps: "closed_ok r (persistState env store i t lid c r2)" for store i t lid c
    by (rule closed_ok_phase [OF persist_phase, rotated]) simp
  show ?thesis
  proof (cases res)
    case (Inl e)
    with a(3) \<open>closed_ok r r2\<close> show ?thesis by simp
  next
    case (Inr lid)
    with a(3) obtain r3 where "r' = finalizeSuccess env r3" "closed_ok r r3"
      using ps \<open>closed_ok r r2\<close> by auto
    then show ?thesis by (simp add: closed_ok_def)
  qed
qed

text \<open>A concrete executor: one record with an ID, a filter that keeps it, an output that takes all.\<close>

definition demo_cfg :: StatePersistenceConfig where
  "demo_cfg = \<lparr>pc_Timestamp = Some \<lparr>ts_Enabled = True, ts_QueryParam = []\<rparr>,
     pc_ID = Some \<lparr>id_Enabled = True, id_Field = ''id'', id_QueryParam = []\<rparr>, StoragePath = []\<rparr>"

definition demo_record :: grecord where
  "demo_record = [''id'' \<mapsto> GStr ''7'']"

definition demo_input :: "nat input_module" where
  "demo_input = \<lparr>in_Fetch = (\<lambda>w. (Inr [Some demo_record], w + 1)), in_Close = (\<lambda>w. (None, w)), in_RetryInfo = None,
     in_Persistent = Some \<lparr>SetPipelineID = (\<lambda>_ w. w), SetStateStore = (\<lambda>_ w. w),
       LoadState = (\<lambda>_ w. (Inr None, w)), GetPersistenceConfig = (\<lambda>_. Some demo_cfg)\<rparr>\<rparr>"

definition demo_filter :: "nat filter_module" where
  "demo_filter = \<lparr>f_Process = (\<lambda>rs (t, w). (Inr rs, t, w))\<rparr>"

definition demo_output :: "nat output_module" where
  "demo_output = \<lparr>out_Send = (\<lambda>rs w. ((int (length rs), None), w + 1)), out_Close = (\<lambda>w. (None, w)),
     out_Connect = Some (\<lambda>w. (None, w)), out_Preview = None, out_RetryInfo = None\<rparr>"

definition demo_executor :: "bool \<Rightarrow> nat executor" where
  "demo_executor dry = exec_SetStateStore (Some (NewStateStore []))
     (NewExecutorWithModules (Some demo_input) [Some demo_filter] (Some demo_output) dry)"

definition demo_runtime :: "nat runtime_env" where
  "demo_runtime = \<lparr>time_now = int, err_url = demo_env, fs = demo_ops, fmt = \<lparr>fmt_float = (\<lambda>_. []), fmt_value = (\<lambda>_. [])\<rparr>\<rparr>"

definition demo_pipeline :: pipeline_config where
  "demo_pipeline = \<lparr>pl_ID = ''p'', pl_OutputType = Some ''database'', pl_ShowCredentials = None\<rparr>"

lemmas demo_defs = demo_executor_def demo_pipeline_def demo_input_def demo_filter_def
  demo_output_def exec_SetStateStore_def NewExecutorWithModules_def

lemmas execution_defs = ExecuteWithContext_def validateExecution_def execute_validated_def
  setupStatePersistence_def executePipelineStages_def connectOutput_def executeInput_def
  release_input_def close_input_def close_output_def executeFiltersWithResult_def executeOutputWithResult_def
  executeOutput_def executeDryRunPreview_def persistState_def finalizeSuccess_def input_retry_info_def
  output_retry_info_def newErrorResult_def

lemma demo_simps [simp]:
  "TimestampEnabled (Some demo_cfg)" "IDEnabled (Some demo_cfg)" "persistence_IsEnabled (Some demo_cfg)"
  "StoragePath demo_cfg = []" "time_now demo_runtime = int" "fs demo_runtime = demo_ops"
  by (simp_all add: TimestampEnabled_def IDEnabled_def persistence_IsEnabled_def demo_cfg_def demo_runtime_def)

lemma demo_last_id: "extract_last_id demo_runtime (Some demo_cfg) [Some demo_record] = Some ''7''"
  by (simp add: extract_last_id_def demo_cfg_def demo_record_def ExtractLastID_def ExtractID_def valueToString_def)

lemma demo_reserve: "reserveMetadataField [Some demo_record] = [Some demo_record]"
  by (simp add: reserveMetadataField_def demo_record_def DefaultFieldName_def)

definition demo_saved :: State where
  "demo_saved = demo_state\<lparr>st_PipelineID := ''p''\<rparr>"

lemma demo_execution:
  "fst (ExecuteWithContext demo_runtime (Some demo_pipeline) (demo_executor dry) 5 d) = None
   \<and> calls (snd (ExecuteWithContext demo_runtime (Some demo_pipeline) (demo_executor dry) 5 d)) =
       [CSetPipelineID, CSetStateStore, CLoadState] @ (if dry then [] else [CConnect]) @ [CFetch, CCloseInput,
        CProcess 0 [Some demo_record]] @ (if dry then [] else [CSend [Some demo_record]])
       @ [CSave (demo_saved\<lparr>UpdatedAt := if dry then 6 else 7\<rparr>), CCloseOutput]
   \<and> disk (snd (ExecuteWithContext demo_runtime (Some demo_pipeline) (demo_executor dry) 5 d)) =
       snd (state_Save demo_ops (NewStateStore []) ''p'' (Some (demo_saved\<lparr>UpdatedAt := if dry then 6 else 7\<rparr>)) d)"
  by (cases dry) (simp_all add: execution_defs demo_defs demo_last_id demo_reserve Let_def demo_saved_def demo_state_def)

subsection \<open>Properties\<close>

definition final_calls :: "gerr option \<times> 'w run \<Rightarrow> call list" where
  "final_calls x = calls (snd x)"

text \<open>
  C1. The order of an execution. Whatever the modules do, each operation of a module is
  called at most once and in the documented order: the pipeline ID and the state store are
  handed to the input and its state is loaded, the output connects, the input fetches and is
  closed, the filters run in their order, the preview or the send happens, the state is saved,
  and the output is closed last.
\<close>
theorem execution_order:
  "sorted_wrt (<) (map (rank (length (filterModules e))) (final_calls (ExecuteWithContext env pl e w d)))"
proof -
  obtain err r where x: "ExecuteWithContext env pl e w d = (err, r)"
    by (cases "ExecuteWithContext env pl e w d")
  show ?thesis using execute_phase [OF x refl] by (auto simp: phase_def x final_calls_def)
qed


text \<open>
  C2. A failed execution keeps the cursor: when an error is returned the state files are
  exactly what they were, nothing was saved and the status is \<open>error\<close>; when none is returned the
  status is \<open>success\<close> and no error is reported. So a cursor moves only after the records were
  sent.
\<close>
theorem error_keeps_state:
  assumes "ExecuteWithContext env pl e w d = (err, r)"
  shows "case err of
      Some _ \<Rightarrow> disk r = d \<and> er_Status (rresult r) = StatusError \<and> (\<forall>st. CSave st \<notin> set (calls r))
    | None \<Rightarrow> er_Status (rresult r) = StatusSuccess \<and> er_Error (rresult r) = None"
proof (rule execute_cases [OF assms])
  fix p m r'
  assume v: "execute_validated env p m (time_now env w) (start_run env e w d) = (err, r')"
    and r: "r = (case outputModule e of Some out \<Rightarrow> if retainModules e then r' else close_output out r' | None \<Rightarrow> r')"
  note vp = validated_phase [OF v, of "length (filterModules e)"]
  have same: "disk r = disk r'" "rresult r = rresult r'" "CSave st \<in> set (calls r) \<longleftrightarrow> CSave st \<in> set (calls r')" for st
    using r by (auto split: option.split)
  show ?thesis
  proof (cases err)
    case (Some x)
    with vp have "phase (length (filterModules e)) 0 (8 + length (filterModules e)) (start_run env e w d) r'" by simp
    then have "CSave st \<notin> set (calls r')" for st using phase_calls [where c = "CSave st"] by fastforce
    with vp Some same show ?thesis by simp
  next
    case None
    with vp same show ?thesis by simp
  qed
qed auto




theorem error_keeps_state_witness:
  "er_Status (rresult (snd (ExecuteWithContext demo_runtime (Some demo_pipeline) (demo_executor False) 5 Map.empty)))
     = StatusSuccess"
proof -
  obtain r where x: "ExecuteWithContext demo_runtime (Some demo_pipeline) (demo_executor False) 5 Map.empty = (None, r)"
    using demo_execution [of False Map.empty]
    by (cases "ExecuteWithContext demo_runtime (Some demo_pipeline) (demo_executor False) 5 Map.empty") simp
  from error_keeps_state [OF x] x show ?thesis by simp
qed

text \<open>
  Accounting. Whenever records were handed to the output, the processed and the failed
  counts of the result add up to their number, in success and in failure; a successful
  execution that is not a dry run has handed its records to the output.
\<close>
theorem records_accounted:
  assumes "ExecuteWithContext env pl e w d = (err, r)"
  shows "(\<forall>rs. CSend rs \<in> set (calls r) \<longrightarrow>
            RecordsProcessed (rresult r) + RecordsFailed (rresult r) = int (length rs))
    \<and> (err = None \<and> \<not> dryRun e \<longrightarrow> (\<exists>rs. CSend rs \<in> set (calls r)))"
  using execute_accounted [OF assms] phase_exec [OF execute_phase [OF assms refl]]
  by (auto simp: accounted_def same_exec_def)

theorem records_accounted_witness:
  "RecordsProcessed (rresult (snd (ExecuteWithContext demo_runtime (Some demo_pipeline) (demo_executor False) 5 Map.empty)))
   + RecordsFailed (rresult (snd (ExecuteWithContext demo_runtime (Some demo_pipeline) (demo_executor False) 5 Map.empty))) = 1"
proof -
  obtain err r where x: "ExecuteWithContext demo_runtime (Some demo_pipeline) (demo_executor False) 5 Map.empty = (err, r)"
    by (cases "ExecuteWithContext demo_runtime (Some demo_pipeline) (demo_executor False) 5 Map.empty")
  have "CSend [Some demo_record] \<in> set (calls r)" using demo_execution [of False Map.empty] x by simp
  with records_accounted [OF x] x show ?thesis by fastforce
qed

lemma count_once: "distinct cs \<Longrightarrow> count_list cs c = (if c \<in> set cs then 1 else 0)"
  by (induction cs) auto

text \<open>
  C4. Resources. Unless the caller retains the modules, the output is closed exactly once, by the
  last call, and the input is closed exactly once when it was fetched from and never when it was
  not, which is when connecting the output failed. When the caller retains them neither module is
  closed. This is for an execution that has both modules and passed validation.
\<close>
theorem modules_released:
  assumes "ExecuteWithContext env (Some p) e w d = (err, r)" "inputModule e \<noteq> None" "outputModule e \<noteq> None"
  shows "if retainModules e then CCloseInput \<notin> set (calls r) \<and> CCloseOutput \<notin> set (calls r)
         else count_list (calls r) CCloseInput = count_list (calls r) CFetch \<and> count_list (calls r) CFetch \<le> 1
           \<and> count_list (calls r) CCloseOutput = 1 \<and> last (calls r) = CCloseOutput"
proof (cases "retainModules e")
  case True
  with execute_phase [OF assms(1) refl] show ?thesis by (auto simp: phase_def allowed_def)
next
  case False
  have "sorted_wrt (<) (map (rank (length (filterModules e))) (calls r))"
    using execute_phase [OF assms(1) refl] by (auto simp: phase_def)
  then have "distinct (calls r)" by (metis strict_sorted_iff distinct_map)
  then have once: "count_list (calls r) c = (if c \<in> set (calls r) then 1 else 0)" for c by (rule count_once)
  have "(CFetch \<in> set (calls r)) = (CCloseInput \<in> set (calls r)) \<and> CCloseOutput \<in> set (calls r) \<and> last (calls r) = CCloseOutput"
  proof (rule execute_cases [OF assms(1)])
    fix p' m r'
    assume v: "execute_validated env p' m (time_now env w) (start_run env e w d) = (err, r')"
      and r: "r = (case outputModule e of Some out \<Rightarrow> if retainModules e then r' else close_output out r' | None \<Rightarrow> r')"
    from validated_closed [OF v] have "closed_ok (start_run env e w d) r'" by simp
    with r False assms(3) show ?thesis by (auto simp: closed_ok_def)
  qed (use assms in auto)
  with False show ?thesis by (simp add: once)
qed

theorem modules_released_witness:
  "last (calls (snd (ExecuteWithContext demo_runtime (Some demo_pipeline) (demo_executor False) 5 Map.empty))) = CCloseOutput"
proof -
  obtain err r where x: "ExecuteWithContext demo_runtime (Some demo_pipeline) (demo_executor False) 5 Map.empty = (err, r)"
    by (cases "ExecuteWithContext demo_runtime (Some demo_pipeline) (demo_executor False) 5 Map.empty")
  have "\<not> retainModules (demo_executor False)" "inputModule (demo_executor False) \<noteq> None"
    "outputModule (demo_executor False) \<noteq> None" by (simp_all add: demo_defs)
  with modules_released [OF x] x show ?thesis by simp
qed

text \<open>
  Filters compose. Running two chains of filters one after the other is running the
  first and, when it succeeds, the second on its result, the tally and the world it left; a
  missing filter module is skipped, and a failure names the position of the failing filter and
  runs none after it.
\<close>
theorem executeFilters_append:
  "executeFilters i (ms @ ms') records t r =
     (case executeFilters i ms records t r of
        (Inr records', t', r') \<Rightarrow> executeFilters (i + length ms) ms' records' t' r'
      | (Inl failure, t', r') \<Rightarrow> (Inl failure, t', r'))"
proof (induction i ms records t r rule: executeFilters.induct)
  case (3 i m ms records t r)
  obtain x t1 w1 where p: "f_Process m records (t, rw r) = (x, t1, w1)"
    by (cases "f_Process m records (t, rw r)") auto
  show ?case
  proof (cases x)
    case (Inr recs)
    have len: "i + length (Some m # ms) = Suc i + length ms" by simp
    from "3.IH" [OF refl p [symmetric] refl refl Inr] p Inr show ?thesis unfolding len by (simp add: Let_def)
  qed (simp add: p Let_def)
next
  case (2 i ms records t r)
  have len: "i + length (None # ms) = Suc i + length ms" by simp
  from "2.IH" show ?case unfolding len by simp
qed simp


text \<open>
  Fetched records reach the pipeline without the runtime's own \<open>_metadata\<close> field, and
  otherwise as the input returned them: none is added, dropped or reordered and no other field
  changes.
\<close>
theorem executeInput_reserves_metadata:
  assumes "executeInput env m r = (Inr records, r')"
  shows "\<exists>raw. fst (in_Fetch m (rw r)) = Inr raw \<and> length records = length raw
    \<and> (\<forall>i < length raw. records ! i = StripFromRecord (raw ! i) [])"
proof -
  from assms obtain raw where raw: "fst (in_Fetch m (rw r)) = Inr raw" "records = reserveMetadataField raw"
    by (auto simp: executeInput_def Let_def split: prod.splits sum.splits)
  have strip: "map_option (\<lambda>record. if record DefaultFieldName \<noteq> None then record(DefaultFieldName := None) else record) x
      = StripFromRecord x []" for x
    by (cases x) (auto simp: StripFromRecord_def fun_eq_iff Let_def)
  then have "records = map (\<lambda>x. StripFromRecord x []) raw"
    using raw(2) unfolding reserveMetadataField_def strip by simp
  then show ?thesis using raw(1) by simp
qed

theorem executeInput_reserves_metadata_witness:
  "\<exists>raw. fst (in_Fetch demo_input 5) = Inr raw \<and> (\<forall>i < length raw. [Some demo_record] ! i = StripFromRecord (raw ! i) [])"
proof -
  let ?r = "start_run demo_runtime (demo_executor False) 5 Map.empty"
  have "executeInput demo_runtime demo_input ?r = (Inr [Some demo_record], snd (executeInput demo_runtime demo_input ?r))"
    by (simp add: executeInput_def demo_input_def demo_reserve Let_def)
  from executeInput_reserves_metadata [OF this] show ?thesis by (auto simp: start_run_def)
qed

text \<open>
  Push inputs leave no cursor. An execution on records that were pushed (a webhook)
  leaves the executor as it was and the state files untouched: it neither loads nor saves
  state, whatever the executor was configured with.
\<close>
theorem ExecuteWithRecords_stateless:
  assumes "ExecuteWithRecordsContext env pl e records w d = (err, r)"
  shows "exec r = e \<and> disk r = d
    \<and> list_all (\<lambda>c. c \<noteq> CSetPipelineID \<and> c \<noteq> CSetStateStore \<and> c \<noteq> CLoadState \<and> (\<forall>st. c \<noteq> CSave st)) (calls r)"
proof -
  let ?e = "e\<lparr>inputModule := Some (newRecordsInput records)\<rparr>"
  let ?bad = "\<lambda>c. c = CSetPipelineID \<or> c = CSetStateStore \<or> c = CLoadState \<or> (\<exists>st. c = CSave st)"
  obtain r0 where x: "ExecuteWithContext env pl ?e w d = (err, r0)" and r: "r = r0\<lparr>exec := e\<rparr>"
    using assms by (auto simp: ExecuteWithRecordsContext_def split: prod.splits)
  have "disk r0 = d \<and> (\<forall>c \<in> set (calls r0). \<not> ?bad c)"
  proof (rule execute_cases [OF x])
    fix p m r'
    assume m: "inputModule ?e = Some m"
      and v: "execute_validated env p m (time_now env w) (start_run env ?e w d) = (err, r')"
      and r0: "r0 = (case outputModule ?e of Some out \<Rightarrow> if retainModules ?e then r' else close_output out r' | None \<Rightarrow> r')"
    have "disk r' = d \<and> (\<forall>c \<in> set (calls r'). \<not> ?bad c)"
    proof (rule validated_cases [OF v refl])
      fix cfg r1 res r2
      assume a: "executePipelineStages env p cfg m r1 = (res, r2)"
        "setupStatePersistence p (set_result (\<lambda>x. x\<lparr>er_PipelineID := pl_ID p\<rparr>) (start_run env ?e w d)) = (cfg, r1)"
        "case res of
           Inl e \<Rightarrow> err = Some e \<and> r' = r2
         | Inr lid \<Rightarrow> err = None \<and> (\<exists>r3. r' = finalizeSuccess env r3
             \<and> (r3 = r2 \<or> (\<exists>c store. cfg = Some c \<and> persistence_IsEnabled cfg \<and> stateStore (exec r2) = Some store
                          \<and> r3 = persistState env store (pl_ID p) (time_now env w) lid c r2)))"
      from a(2) have s: "cfg = None" "disk r1 = d" "calls r1 = []"
        by (auto simp: setupStatePersistence_def newRecordsInput_def)
      note st = stages_phase [OF a(1) refl]
      have "\<not> ?bad c" if "c \<in> set (calls r2)" for c
        using phase_calls [OF st [THEN conjunct1] that] s(3) by auto
      with a(3) s(1,2) st show ?thesis by (cases res) auto
    qed
    then show ?thesis using r0 by (auto split: option.splits)
  qed auto
  then show ?thesis using r by (auto simp: list_all_iff)
qed

theorem ExecuteWithRecords_stateless_witness:
  "disk (snd (ExecuteWithRecordsContext demo_runtime (Some demo_pipeline) (demo_executor False) [Some demo_record] 5 Map.empty))
     = Map.empty"
proof -
  obtain err r where x: "ExecuteWithRecordsContext demo_runtime (Some demo_pipeline) (demo_executor False)
      [Some demo_record] 5 Map.empty = (err, r)"
    by (cases "ExecuteWithRecordsContext demo_runtime (Some demo_pipeline) (demo_executor False) [Some demo_record] 5 Map.empty")
  from ExecuteWithRecords_stateless [OF x] x show ?thesis by simp
qed


lemma load_after_save:
  assumes "plain_id i" "codec_ok ops store i st" "st_PipelineID st = i"
  shows "load_state ops store i (snd (state_Save ops store i (Some st) d)) \<in> {Some st, load_state ops store i d}"
proof -
  obtain err d' where sv: "state_Save ops store i (Some st) d = (err, d')"
    by (cases "state_Save ops store i (Some st) d")
  have "save_ok ops store i st d = (err = None, d')" by (simp add: save_ok_def sv)
  then show ?thesis
    using files.saved [OF assms(1,2), of d d'] files.kept [OF assms(1), of ops store st d d'] sv assms(3)
    by (cases err) auto
qed

text \<open>
  The saved cursor. The state a successful execution saves carries the instant at which
  the execution started (not the one at which it ended) as its timestamp, so records changed
  while it ran are fetched again; the next load of the pipeline returns that state or, when
  writing the file failed, the state stored before.
\<close>
theorem cursor_after_success:
  assumes "ExecuteWithContext env (Some p) e w d = (None, r)" "CSave st \<in> set (calls r)"
    and "plain_id (pl_ID p)" "\<forall>store. codec_ok (fs env) store (pl_ID p) st"
  shows "LastTimestamp st \<in> {None, Some (time_now env w)}
    \<and> (\<exists>store. load_state (fs env) store (pl_ID p) (disk r) \<in> {Some st, load_state (fs env) store (pl_ID p) d})"
proof (rule execute_cases [OF assms(1)])
  fix p' m r'
  assume "Some p = Some p'" and v: "execute_validated env p' m (time_now env w) (start_run env e w d) = (None, r')"
    and r: "r = (case outputModule e of Some out \<Rightarrow> if retainModules e then r' else close_output out r' | None \<Rightarrow> r')"
  then have p': "p' = p" by simp
  have r': "disk r = disk r'" "CSave st \<in> set (calls r')"
    using r assms(2) by (auto split: option.splits if_splits)
  show ?thesis
  proof (rule validated_cases [OF v refl])
    fix cfg r1 res r2
    assume a: "phase (length (filterModules (exec (start_run env e w d)))) 0 3 (start_run env e w d) r1"
      "disk r1 = disk (start_run env e w d)"
      "executePipelineStages env p' cfg m r1 = (res, r2)"
      "case res of
         Inl e \<Rightarrow> None = Some e \<and> r' = r2
       | Inr lid \<Rightarrow> None = None \<and> (\<exists>r3. r' = finalizeSuccess env r3
           \<and> (r3 = r2 \<or> (\<exists>c store. cfg = Some c \<and> persistence_IsEnabled cfg \<and> stateStore (exec r2) = Some store
                        \<and> r3 = persistState env store (pl_ID p') (time_now env w) lid c r2)))"
    note st = stages_phase [OF a(3) refl]
    have no: "CSave st \<notin> set (calls r2)"
      using phase_calls [OF st [THEN conjunct1], of "CSave st"] phase_calls [OF a(1), of "CSave st"]
        phase_exec [OF a(1)] by (auto simp: same_exec_def)
    with a(4) r'(2) obtain lid c store where
      r3: "r' = finalizeSuccess env (persistState env store (pl_ID p) (time_now env w) lid c r2)"
      by (cases res) (auto simp: p')
    have sv: "disk r' = snd (state_Save (fs env) store (pl_ID p) (Some st) d)" "st_PipelineID st = pl_ID p"
      "LastTimestamp st \<in> {None, Some (time_now env w)}"
      using persistState_saved [of st env store "pl_ID p" "time_now env w" lid c r2] no r'(2) r3 st a(2) by auto
    then show ?thesis
      using load_after_save [OF assms(3), of "fs env" store st d] assms(4) r'(1) by auto
  qed
qed simp

theorem cursor_after_success_witness:
  "\<exists>store. load_state demo_ops store ''p''
      (disk (snd (ExecuteWithContext demo_runtime (Some demo_pipeline) (demo_executor False) 5 Map.empty)))
     \<in> {Some demo_saved, None}"
proof -
  obtain r where x: "ExecuteWithContext demo_runtime (Some demo_pipeline) (demo_executor False) 5 Map.empty = (None, r)"
    using demo_execution [of False Map.empty]
    by (cases "ExecuteWithContext demo_runtime (Some demo_pipeline) (demo_executor False) 5 Map.empty") simp
  have "demo_saved\<lparr>UpdatedAt := 7\<rparr> = demo_saved" by (simp add: demo_saved_def demo_state_def)
  then have "CSave demo_saved \<in> set (calls r)" using demo_execution [of False Map.empty] x by simp
  moreover have "plain_id (pl_ID demo_pipeline)" by (simp add: plain_id_def demo_pipeline_def)
  moreover have "\<forall>store. codec_ok (fs demo_runtime) store (pl_ID demo_pipeline) demo_saved"
    by (simp add: codec_ok_def demo_ops_def demo_saved_def demo_pipeline_def)
  ultimately have "\<exists>store. load_state demo_ops store ''p'' (disk r)
      \<in> {Some demo_saved, load_state demo_ops store ''p'' Map.empty}"
    using cursor_after_success [OF x] by (simp add: demo_pipeline_def)
  moreover have "load_state demo_ops store ''p'' Map.empty = None" for store
    by (simp add: load_state_def state_Load_def)
  ultimately show ?thesis using x by simp
qed

text \<open>
  Persistence does not look at the dry-run flag: a dry run that sent nothing saves the cursor
  as if it had, and the next real run starts after the records it only previewed.
\<close>
theorem dry_run_saves_state:
  "CSave (demo_saved\<lparr>UpdatedAt := 6\<rparr>) \<in>
     set (calls (snd (ExecuteWithContext demo_runtime (Some demo_pipeline) (demo_executor True) 5 d)))
   \<and> (\<forall>rs. CSend rs \<notin> set (calls (snd (ExecuteWithContext demo_runtime (Some demo_pipeline) (demo_executor True) 5 d))))
   \<and> disk (snd (ExecuteWithContext demo_runtime (Some demo_pipeline) (demo_executor True) 5 Map.empty))
       (DefaultStatePath, ''p.json'') \<noteq> None"
proof -
  have "filePath (NewStateStore []) ''p'' = (DefaultStatePath, ''p.json'')"
    by (simp add: filePath_def NewStateStore_def go_Base_def)
  then have "snd (state_Save demo_ops (NewStateStore []) ''p'' (Some st) Map.empty) (DefaultStatePath, ''p.json'') \<noteq> None" for st
    by (simp add: state_Save_def save_run_def demo_ops_def Let_def tempPath_def)
  then show ?thesis using demo_execution [of True] by auto
qed

text \<open>
  When the output cannot connect, the execution ends before the input is closed, and the result
  carries neither an error nor a completion time.
\<close>
theorem connect_failure_unreported:
  assumes "out_Connect out = Some (\<lambda>w. (Some cerr, w))" "outputModule e = Some out" "inputModule e = Some m"
    "in_Persistent m = None" "\<not> dryRun e"
  shows "\<exists>r. ExecuteWithContext env (Some p) e w d = (Some cerr, r) \<and> CCloseInput \<notin> set (calls r)
    \<and> er_Error (rresult r) = None \<and> er_CompletedAt (rresult r) = None"
  using assms by (simp add: execution_defs Let_def)

text \<open>
  A save replaces the whole state: with both cursors enabled, an execution that fetched nothing
  stores a timestamp and no ID, which erases the ID cursor of the executions before.
\<close>
theorem empty_fetch_erases_id:
  assumes "TimestampEnabled (Some cfg)" "plain_id i"
    and "\<And>st. codec_ok (fs env) store i st" "\<And>st d. fst (state_Save (fs env) store i (Some st) d) = None"
  shows "\<exists>st. load_state (fs env) store i (disk (persistState env store i t None cfg r)) = Some st \<and> LastID st = None"
proof -
  obtain st where st: "calls (persistState env store i t None cfg r) = calls r @ [CSave st]" "LastID st = None"
    "disk (persistState env store i t None cfg r) = snd (state_Save (fs env) store i (Some st) (disk r))"
    "st_PipelineID st = i"
    using assms(1) by (auto simp: persistState_def Let_def)
  obtain d' where d': "state_Save (fs env) store i (Some st) (disk r) = (None, d')"
    using assms(4) [of st "disk r"] by (cases "state_Save (fs env) store i (Some st) (disk r)") auto
  have "load_state (fs env) store i d' = Some (st\<lparr>st_PipelineID := i\<rparr>)"
    by (rule files.saved [where fs = "disk r", OF assms(2,3)]) (simp add: save_ok_def d')
  with st d' show ?thesis by auto
qed

end
