(* ===== verification/FieldFilters.thy ===== *)
theory FieldFilters
  imports Pipeline
begin

text \<open>
  The field filters of \<open>src/internal/modules/filter\<close>: \<open>set.go\<close>, \<open>remove.go\<close>, \<open>drop.go\<close> and
  \<open>stub.go\<close>, and the contract of a filter that keeps the error markers of the records it lets
  through. A filter works on a batch of records and reports the context's cancellation: the
  argument \<open>cancel k\<close> is what the context answers at the check before record \<open>k\<close>. The filters
  change the records in place; a nil record is \<open>None\<close>.
\<close>

subsection \<open>Errors\<close>

definition path_gerr :: "path_error \<Rightarrow> gerr" where
  "path_gerr e =
     (case e of
        ErrEmptyPath \<Rightarrow> plain_error ''empty path''
      | ErrInvalidArrayIndex part \<Rightarrow>
          errorf (''invalid array index in path: \"'' @ part @ ''\"'') (plain_error ''invalid array index in path''))"

text \<open>A Go panic: assigning to a key of a nil map.\<close>

datatype 'a outcome_or_panic = Returns 'a | NilMapPanic

subsection \<open>The set filter\<close>

record SetConfig =
  sc_OnError :: string
  sc_Target :: string
  sc_Value :: gval
  sc_HasValue :: bool

datatype set_config_error =
    SetTargetRequired | SetValueRequired | SetReserved target_error | SetStrategy strategy_error

definition NewSetFromConfig :: "SetConfig \<Rightarrow> set_config_error + SetConfig" where
  "NewSetFromConfig c =
     (if sc_Target c = [] then Inl SetTargetRequired
      else if \<not> sc_HasValue c then Inl SetValueRequired
      else (case ValidateRecordTarget (sc_Target c) of
              Some e \<Rightarrow> Inl (SetReserved e)
            | None \<Rightarrow> (case ParseOnErrorStrategy (sc_OnError c) of
                         Inl e \<Rightarrow> Inl (SetStrategy e)
                       | Inr _ \<Rightarrow> Inr c)))"

text \<open>On a nil record the first write panics, unless the first segment does not parse.\<close>

definition set_processRecord :: "SetConfig \<Rightarrow> grecord option \<Rightarrow> (gerr + grecord) outcome_or_panic" where
  "set_processRecord c r =
     (case r of
        None \<Rightarrow>
          if \<not> IsNested (sc_Target c) then NilMapPanic
          else (case ParsePart (hd (split_on (CHR ''.'') (sc_Target c))) of
                  Inl e \<Rightarrow> Returns (Inl (path_gerr e))
                | Inr _ \<Rightarrow> NilMapPanic)
      | Some r \<Rightarrow>
          if \<not> IsNested (sc_Target c) then Returns (Inr (r(sc_Target c \<mapsto> sc_Value c)))
          else (case Set r (sc_Target c) (sc_Value c) of
                  (Some e, _) \<Rightarrow> Returns (Inl (path_gerr e))
                | (None, r') \<Rightarrow> Returns (Inr r')))"

fun set_loop_records ::
  "(nat \<Rightarrow> gerr option) \<Rightarrow> SetConfig \<Rightarrow> nat \<Rightarrow> records \<Rightarrow> records \<Rightarrow> (gerr + records) outcome_or_panic" where
  "set_loop_records cancel c i [] result = Returns (Inr result)"
| "set_loop_records cancel c i (r # rs) result =
     (case (if 0 < i \<and> i mod 100 = 0 then cancel i else None) of
        Some e \<Rightarrow> Returns (Inl e)
      | None \<Rightarrow>
          (case set_processRecord c r of
             NilMapPanic \<Rightarrow> NilMapPanic
           | Returns (Inl e) \<Rightarrow>
               Returns (Inl (errorf (''processing record '' @ itoa (int i) @ '': '' @ err_text e) e))
           | Returns (Inr r') \<Rightarrow> set_loop_records cancel c (Suc i) rs (result @ [Some r'])))"

definition set_Process ::
  "(nat \<Rightarrow> gerr option) \<Rightarrow> SetConfig \<Rightarrow> records \<Rightarrow> (gerr + records) outcome_or_panic" where
  "set_Process cancel c rs =
     (case cancel 0 of
        Some e \<Rightarrow> Returns (Inl e)
      | None \<Rightarrow> if length rs = 0 then Returns (Inr rs) else set_loop_records cancel c 0 rs [])"

subsection \<open>The remove filter\<close>

text \<open>
  The \<open>target\<close> of the configuration: absent, a string, or a list whose entries need not be
  strings (the case \<open>[]string\<close> is the list of strings). Other types carry their \<open>%T\<close> text.
\<close>

datatype remove_error =
    TargetRequired | TargetEmpty | TargetListEmpty | TargetNotString nat | TargetEntryEmpty nat
  | TargetBadType string | RemoveStrategy strategy_error

fun normalize_list :: "nat \<Rightarrow> gval list \<Rightarrow> string list \<Rightarrow> remove_error + string list" where
  "normalize_list i [] out = Inr out"
| "normalize_list i (v # vs) out =
     (case as_str v of
        None \<Rightarrow> Inl (TargetNotString i)
      | Some s \<Rightarrow> if s = [] then Inl (TargetEntryEmpty i) else normalize_list (Suc i) vs (out @ [s]))"

definition normalizeRemoveTarget :: "(gval \<Rightarrow> string) \<Rightarrow> gval \<Rightarrow> remove_error + string list" where
  "normalizeRemoveTarget fmt_T raw =
     (case raw of
        GNil \<Rightarrow> Inl TargetRequired
      | GStr v \<Rightarrow> if v = [] then Inl TargetEmpty else Inr [v]
      | GArr v \<Rightarrow> if length v = 0 then Inl TargetListEmpty else normalize_list 0 v []
      | _ \<Rightarrow> Inl (TargetBadType (fmt_T raw)))"

fun unique_targets :: "string list \<Rightarrow> string list \<Rightarrow> string list" where
  "unique_targets [] out = out"
| "unique_targets (t # ts) out = (if t \<in> set out then unique_targets ts out else unique_targets ts (out @ [t]))"

definition NewRemoveFromConfig ::
  "(gval \<Rightarrow> string) \<Rightarrow> string \<Rightarrow> string list \<Rightarrow> gval \<Rightarrow> remove_error + string list" where
  "NewRemoveFromConfig fmt_T onError targetList target =
     (case ParseOnErrorStrategy onError of
        Inl e \<Rightarrow> Inl (RemoveStrategy e)
      | Inr _ \<Rightarrow>
          (case (if length targetList = 0 then normalizeRemoveTarget fmt_T target else Inr targetList) of
             Inl e \<Rightarrow> Inl e
           | Inr ts \<Rightarrow> Inr (unique_targets ts [])))"

fun remove_fields :: "string list \<Rightarrow> grecord \<Rightarrow> grecord" where
  "remove_fields [] r = r"
| "remove_fields (t # ts) r = remove_fields ts (if \<not> IsNested t then r(t := None) else Delete r t)"

definition remove_processRecord :: "string list \<Rightarrow> grecord option \<Rightarrow> grecord option" where
  "remove_processRecord targets r = (case r of None \<Rightarrow> None | Some r \<Rightarrow> Some (remove_fields targets r))"

fun remove_loop_records ::
  "(nat \<Rightarrow> gerr option) \<Rightarrow> string list \<Rightarrow> nat \<Rightarrow> records \<Rightarrow> records \<Rightarrow> gerr + records" where
  "remove_loop_records cancel ts i [] result = Inr result"
| "remove_loop_records cancel ts i (r # rs) result =
     (case (if 0 < i \<and> i mod 100 = 0 then cancel i else None) of
        Some e \<Rightarrow> Inl e
      | None \<Rightarrow> remove_loop_records cancel ts (Suc i) rs (result @ [remove_processRecord ts r]))"

definition remove_Process :: "(nat \<Rightarrow> gerr option) \<Rightarrow> string list \<Rightarrow> records \<Rightarrow> gerr + records" where
  "remove_Process cancel ts rs =
     (case cancel 0 of
        Some e \<Rightarrow> Inl e
      | None \<Rightarrow> if length rs = 0 then Inr rs else remove_loop_records cancel ts 0 rs [])"

subsection \<open>The drop filter and the stub\<close>

definition drop_Process :: "(nat \<Rightarrow> gerr option) \<Rightarrow> records \<Rightarrow> gerr + records" where
  "drop_Process cancel rs = (case cancel 0 of Some e \<Rightarrow> Inl e | None \<Rightarrow> Inr [])"

definition stub_Process :: "records \<Rightarrow> gerr + records" where
  "stub_Process rs = Inr rs"

subsection \<open>Facts\<close>

text \<open>What \<open>Process\<close> computes when it is neither canceled nor stopped.\<close>

lemma set_loop_records_ok:
  "set_loop_records cancel c i rs result = Returns (Inr out) \<Longrightarrow>
   \<exists>ys. out = result @ map Some ys \<and> list_all2 (\<lambda>r y. set_processRecord c r = Returns (Inr y)) rs ys"
proof (induction cancel c i rs result rule: set_loop_records.induct)
  case (2 cancel c i r rs result)
  from "2.prems" obtain r' where r': "set_processRecord c r = Returns (Inr r')"
      "set_loop_records cancel c (Suc i) rs (result @ [Some r']) = Returns (Inr out)"
      "(if 0 < i \<and> i mod 100 = 0 then cancel i else None) = None"
    by (auto split: option.splits outcome_or_panic.splits sum.splits)
  from "2.IH" [OF r'(3,1) refl r'(2)] obtain ys where
    "out = (result @ [Some r']) @ map Some ys" "list_all2 (\<lambda>r y. set_processRecord c r = Returns (Inr y)) rs ys"
    by blast
  with r'(1) show ?case by (intro exI [of _ "r' # ys"]) simp
qed (intro exI [of _ "[]"], simp)

lemma set_Process_ok:
  "set_Process cancel c rs = Returns (Inr out) \<Longrightarrow>
   \<exists>ys. out = map Some ys \<and> list_all2 (\<lambda>r y. set_processRecord c r = Returns (Inr y)) rs ys"
  using set_loop_records_ok [of cancel c 0 rs "[]" out]
  by (cases "rs = []") (simp_all add: set_Process_def split: option.splits)

lemma remove_loop_records_eq:
  "remove_loop_records cancel ts i rs result =
     (case find (\<lambda>k. 0 < k \<and> k mod 100 = 0 \<and> cancel k \<noteq> None) [i..<i + length rs] of
        Some k \<Rightarrow> Inl (the (cancel k))
      | None \<Rightarrow> Inr (result @ map (remove_processRecord ts) rs))"
proof (induction cancel ts i rs result rule: remove_loop_records.induct)
  case (2 cancel ts i r rs result)
  have up: "[i..<i + length (r # rs)] = i # [Suc i..<Suc i + length rs]" by (simp add: upt_conv_Cons del: upt_Suc)
  show ?case
  proof (cases "0 < i \<and> i mod 100 = 0 \<and> cancel i \<noteq> None")
    case True
    then show ?thesis unfolding up by auto
  next
    case False
    then have c: "(if 0 < i \<and> i mod 100 = 0 then cancel i else None) = None" by auto
    have "find P (i # xs) = find P xs" if "\<not> P i" for P and xs :: "nat list" using that by simp
    with "2.IH" [OF c] False c show ?thesis unfolding up by (auto simp del: upt_Suc split: option.split)
  qed
qed simp

lemma unique_targets_spec: "distinct out \<Longrightarrow> distinct (unique_targets ts out) \<and> set (unique_targets ts out) = set out \<union> set ts"
  by (induction ts out rule: unique_targets.induct) auto

lemma remove_fields_frame:
  "\<forall>t \<in> set ts. k \<noteq> seg_key (takeWhile (\<lambda>c. c \<noteq> CHR ''.'') t) \<Longrightarrow> remove_fields ts r k = r k"
proof (induction ts r rule: remove_fields.induct)
  case (2 t ts r)
  have "(if \<not> IsNested t then r(t := None) else Delete r t) k = r k"
  proof (cases "IsNested t")
    case True
    with "2.prems" show ?thesis by (simp add: Delete_root_frame)
  next
    case False
    then have "seg_key (takeWhile (\<lambda>c. c \<noteq> CHR ''.'') t) = t"
      using not_IsNested [OF False] by (simp add: takeWhile_neq_id)
    with False "2.prems" show ?thesis by auto
  qed
  with "2" show ?case by simp
qed simp


subsection \<open>Filters that keep the error markers\<close>

definition raw_markers :: "grecord option \<Rightarrow> gval list" where
  "raw_markers r =
     (case r of None \<Rightarrow> [] | Some m \<Rightarrow> (case Option.bind (m RecordErrorsField) as_arr of None \<Rightarrow> [] | Some xs \<Rightarrow> xs))"

text \<open>
  The contract between the executor and the filters of this file: a record a filter lets
  through descends from a record it was given and carries at least the markers of that record,
  in their order. A chain of such filters keeps the contract.
\<close>

definition descends :: "records \<Rightarrow> records \<Rightarrow> bool" where
  "descends rs rs' \<longleftrightarrow> (\<forall>r' \<in> set rs'. \<exists>r \<in> set rs. prefix (raw_markers r) (raw_markers r'))"

definition marker_safe :: "'w filter_module \<Rightarrow> bool" where
  "marker_safe m \<longleftrightarrow> (\<forall>rs s rs'. fst (f_Process m rs s) = Inr rs' \<longrightarrow> descends rs rs')"

lemma descends_refl [simp]: "descends rs rs"
  by (auto simp: descends_def)

lemma descends_trans: "descends rs rs' \<Longrightarrow> descends rs' rs'' \<Longrightarrow> descends rs rs''"
  unfolding descends_def by (meson prefix_order.trans)

lemma executeFilters_safe:
  assumes "\<forall>m \<in> set ms. case m of None \<Rightarrow> True | Some f \<Rightarrow> marker_safe f"
    and "executeFilters i ms rs t r = (Inr rs', t', r')"
  shows "descends rs rs'"
  using assms
proof (induction i ms rs t r rule: executeFilters.induct)
  case (3 i m ms rs t r)
  obtain x t1 w1 where p: "f_Process m rs (t, rw r) = (x, t1, w1)"
    by (cases "f_Process m rs (t, rw r)") auto
  from "3.prems" p obtain recs where x: "x = Inr recs"
      "executeFilters (Suc i) ms recs t1 (log_call (CProcess i rs) (r\<lparr>rw := w1\<rparr>)) = (Inr rs', t', r')"
    by (auto simp: Let_def split: sum.splits)
  have "marker_safe m" using "3.prems"(1) by simp
  then have "fst (f_Process m rs (t, rw r)) = Inr recs \<longrightarrow> descends rs recs" unfolding marker_safe_def by blast
  then have "descends rs recs" using p x(1) by simp
  moreover have "descends recs rs'" using "3.IH" [OF refl p [symmetric] refl refl x(1)] "3.prems"(1) x(2) by simp
  ultimately show ?case by (rule descends_trans)
qed auto

text \<open>
  A filter that treats its records one by one, for the configurations \<open>ok\<close> its constructor
  accepts. \<open>step\<close> is what it makes of one record, \<open>run\<close> what it makes of a batch when it
  returns. A step that keeps the markers makes a safe module.
\<close>

locale record_filter =
  fixes ok :: "'c \<Rightarrow> bool"
    and step :: "'c \<Rightarrow> grecord option \<Rightarrow> grecord option"
    and run :: "'c \<Rightarrow> 'w \<Rightarrow> records \<Rightarrow> gerr + records"
  assumes run_steps: "ok c \<Longrightarrow> run c w rs = Inr rs' \<Longrightarrow> set rs' \<subseteq> step c ` set rs"
    and step_markers: "ok c \<Longrightarrow> prefix (raw_markers r) (raw_markers (step c r))"
begin

lemma run_descends: "ok c \<Longrightarrow> run c w rs = Inr rs' \<Longrightarrow> descends rs rs'"
  using run_steps [of c w rs rs'] step_markers unfolding descends_def by blast

lemma module_safe: "ok c \<Longrightarrow> marker_safe \<lparr>f_Process = (\<lambda>rs (t, w). (run c w rs, t, w))\<rparr>"
  by (auto simp: marker_safe_def run_descends)

end

lemma validated_target_kept: "ValidateRecordTarget t = None \<Longrightarrow> RecordErrorsField \<noteq> seg_key (takeWhile (\<lambda>c. c \<noteq> CHR ''.'') t)"
  by (auto simp: ValidateRecordTarget_def reserved_iff_seg_key split: if_splits)

lemma raw_markers_cong: "m RecordErrorsField = m' RecordErrorsField \<Longrightarrow> raw_markers (Some m) = raw_markers (Some m')"
  by (simp add: raw_markers_def)

lemma set_step_markers:
  assumes "NewSetFromConfig c0 = Inr c" "set_processRecord c r = Returns (Inr y)"
  shows "raw_markers (Some y) = raw_markers r"
proof -
  have t: "RecordErrorsField \<noteq> seg_key (takeWhile (\<lambda>c. c \<noteq> CHR ''.'') (sc_Target c))"
    using assms(1) by (intro validated_target_kept)
      (auto simp: NewSetFromConfig_def split: if_splits option.splits sum.splits)
  obtain m where m: "r = Some m" using assms(2) by (auto simp: set_processRecord_def split: option.splits if_splits sum.splits)
  have "y RecordErrorsField = m RecordErrorsField"
  proof (cases "IsNested (sc_Target c)")
    case True
    then have "y = snd (Set m (sc_Target c) (sc_Value c))"
      using assms(2) m by (auto simp: set_processRecord_def split: option.splits prod.splits)
    then show ?thesis using Set_root_frame [OF t] by simp
  next
    case False
    moreover have "seg_key (takeWhile (\<lambda>c. c \<noteq> CHR ''.'') (sc_Target c)) = sc_Target c"
      using not_IsNested [OF False] by (simp add: takeWhile_neq_id)
    ultimately show ?thesis using assms(2) m t by (auto simp: set_processRecord_def)
  qed
  with m show ?thesis by (simp add: raw_markers_def)
qed

text \<open>
  The modules of the executor made of the filters. \<open>cancel w k\<close> is the context's answer in the
  world \<open>w\<close>; a panic of the set filter is a failed execution with the runtime's message.
\<close>

definition set_run :: "('w \<Rightarrow> nat \<Rightarrow> gerr option) \<Rightarrow> SetConfig \<Rightarrow> 'w \<Rightarrow> records \<Rightarrow> gerr + records" where
  "set_run cancel c w rs =
     (case set_Process (cancel w) c rs of
        Returns x \<Rightarrow> x | NilMapPanic \<Rightarrow> Inl (plain_error ''assignment to entry in nil map''))"

definition set_module :: "('w \<Rightarrow> nat \<Rightarrow> gerr option) \<Rightarrow> SetConfig \<Rightarrow> 'w filter_module" where
  "set_module cancel c = \<lparr>f_Process = (\<lambda>rs (t, w). (set_run cancel c w rs, t, w))\<rparr>"

definition remove_module :: "('w \<Rightarrow> nat \<Rightarrow> gerr option) \<Rightarrow> string list \<Rightarrow> 'w filter_module" where
  "remove_module cancel ts = \<lparr>f_Process = (\<lambda>rs (t, w). (remove_Process (cancel w) ts rs, t, w))\<rparr>"

definition drop_module :: "('w \<Rightarrow> nat \<Rightarrow> gerr option) \<Rightarrow> 'w filter_module" where
  "drop_module cancel = \<lparr>f_Process = (\<lambda>rs (t, w). (drop_Process (cancel w) rs, t, w))\<rparr>"

definition stub_module :: "'w filter_module" where
  "stub_module = \<lparr>f_Process = (\<lambda>rs (t, w). (stub_Process rs, t, w))\<rparr>"

definition set_step :: "SetConfig \<Rightarrow> grecord option \<Rightarrow> grecord option" where
  "set_step c r = (case set_processRecord c r of Returns (Inr y) \<Rightarrow> Some y | _ \<Rightarrow> r)"

definition accepted_set :: "SetConfig \<Rightarrow> bool" where
  "accepted_set c \<longleftrightarrow> NewSetFromConfig c = Inr c"

definition leaves_markers :: "string list \<Rightarrow> bool" where
  "leaves_markers ts \<longleftrightarrow> list_all (\<lambda>t. \<not> IsReservedRecordPath t) ts"

lemma set_run_steps: "set_Process cancel c rs = Returns (Inr rs') \<Longrightarrow> set rs' \<subseteq> set_step c ` set rs"
proof -
  assume "set_Process cancel c rs = Returns (Inr rs')"
  from set_Process_ok [OF this] obtain ys where
    ys: "rs' = map Some ys" "list_all2 (\<lambda>r y. set_processRecord c r = Returns (Inr y)) rs ys" by blast
  show ?thesis
  proof
    fix x assume "x \<in> set rs'"
    then obtain k where k: "k < length ys" "x = Some (ys ! k)" using ys(1) by (auto simp: in_set_conv_nth)
    with ys(2) have "k < length rs" "set_processRecord c (rs ! k) = Returns (Inr (ys ! k))"
      by (auto simp: list_all2_conv_all_nth)
    with k show "x \<in> set_step c ` set rs" by (intro image_eqI [of _ _ "rs ! k"]) (simp_all add: set_step_def)
  qed
qed

lemma remove_run: "remove_Process cancel ts rs = Inr rs' \<Longrightarrow> rs' = map (remove_processRecord ts) rs"
  by (auto simp: remove_Process_def remove_loop_records_eq split: option.splits if_splits)


lemma set_run_Inr: "set_run cancel c w rs = Inr rs' \<Longrightarrow> set_Process (cancel w) c rs = Returns (Inr rs')"
  by (auto simp: set_run_def split: outcome_or_panic.splits)

interpretation set_filter: record_filter accepted_set set_step "set_run cancel"
  for cancel :: "'w \<Rightarrow> nat \<Rightarrow> gerr option"
proof unfold_locales
  show "set rs' \<subseteq> set_step c ` set rs" if "set_run cancel c w rs = Inr rs'" for c w rs rs'
    using set_run_steps [OF set_run_Inr [OF that]] .
  show "prefix (raw_markers r) (raw_markers (set_step c r))" if "accepted_set c" for c r
    using set_step_markers [of c c r] that
    by (auto simp: set_step_def accepted_set_def split: outcome_or_panic.splits sum.splits)
qed

interpretation remove_filter: record_filter leaves_markers remove_processRecord "\<lambda>ts w rs. remove_Process (cancel w) ts rs"
  for cancel :: "'w \<Rightarrow> nat \<Rightarrow> gerr option"
proof unfold_locales
  show "set rs' \<subseteq> remove_processRecord c ` set rs" if "remove_Process (cancel w) c rs = Inr rs'" for c w rs rs'
    using remove_run [OF that] by simp
  show "prefix (raw_markers r) (raw_markers (remove_processRecord c r))" if "leaves_markers c" for c r
  proof (cases r)
    case (Some m)
    have "\<forall>t \<in> set c. RecordErrorsField \<noteq> seg_key (takeWhile (\<lambda>c. c \<noteq> CHR ''.'') t)"
      using that by (auto simp: leaves_markers_def list_all_iff reserved_iff_seg_key)
    then have "remove_fields c m RecordErrorsField = m RecordErrorsField" by (rule remove_fields_frame)
    with Some show ?thesis by (simp add: remove_processRecord_def raw_markers_def)
  qed (simp add: remove_processRecord_def)
qed

interpretation drop_filter: record_filter "\<lambda>_. True" "\<lambda>_ r. r" "\<lambda>_ w rs. drop_Process (cancel w) rs"
  for cancel :: "'w \<Rightarrow> nat \<Rightarrow> gerr option"
  by unfold_locales (auto simp: drop_Process_def split: option.splits)

interpretation stub_filter: record_filter "\<lambda>_. True" "\<lambda>_ r. r" "\<lambda>_ _ rs. stub_Process rs"
  by unfold_locales (auto simp: stub_Process_def)

lemmas field_modules_safe =
  set_filter.module_safe [folded set_module_def] remove_filter.module_safe [folded remove_module_def]
  drop_filter.module_safe [OF TrueI, folded drop_module_def] stub_filter.module_safe [OF TrueI, folded stub_module_def]

lemma delete_at_absent:
  assumes "m t = None" "delete_at (GMap m) ps l = GMap m'"
  shows "m' t = None"
proof (cases ps)
  case Nil
  with assms show ?thesis
    by (auto simp: deleteLeafFromParent_def deleteFromMap_def split: sum.splits option.splits if_splits)
next
  case (Cons p qs)
  show ?thesis
  proof (cases "navigateStep (GMap m) p")
    case None
    with assms Cons show ?thesis by simp
  next
    case (Some w)
    with assms Cons show ?thesis
      by (auto simp: put_step_def navigateStep_def split: sum.splits option.splits if_splits)
  qed
qed

lemma Delete_absent:
  assumes "m t = None"
  shows "Delete m p t = None"
proof (cases "p = []")
  case False
  from delete_at_absent [OF assms Delete_eq [OF False, of m, symmetric]] show ?thesis .
qed (simp add: assms)

lemma remove_fields_keeps_absent: "m t = None \<Longrightarrow> remove_fields ts m t = None"
proof (induction ts m rule: remove_fields.induct)
  case (2 u ts m)
  then have "(if \<not> IsNested u then m(u := None) else Delete m u) t = None" by (simp add: Delete_absent)
  with "2.IH" show ?case by simp
qed simp

lemma remove_fields_absent: "t \<in> set ts \<Longrightarrow> \<not> IsNested t \<Longrightarrow> remove_fields ts r t = None"
proof (induction ts r rule: remove_fields.induct)
  case (2 u ts r)
  then show ?case by (cases "t \<in> set ts") (simp_all add: remove_fields_keeps_absent)
qed simp

subsection \<open>Properties\<close>

text \<open>
  The set filter. When an accepted set filter returns, the batch has the same number of
  records in the same order, the target path of each reads as the configured value, every
  field outside the target's first segment is unchanged, and the error markers are untouched.
\<close>
theorem set_Process_correct:
  assumes "NewSetFromConfig c0 = Inr c" "set_Process cancel c rs = Returns (Inr rs')"
  shows "length rs' = length rs \<and>
    (\<forall>i < length rs. \<exists>m m'. rs ! i = Some m \<and> rs' ! i = Some m' \<and> Get m' (sc_Target c) = Some (sc_Value c)
       \<and> (\<forall>k. k \<noteq> seg_key (takeWhile (\<lambda>x. x \<noteq> CHR ''.'') (sc_Target c)) \<longrightarrow> m' k = m k)
       \<and> raw_markers (rs' ! i) = raw_markers (rs ! i))"
proof -
  from set_Process_ok [OF assms(2)] obtain ys where
    ys: "rs' = map Some ys" "list_all2 (\<lambda>r y. set_processRecord c r = Returns (Inr y)) rs ys" by blast
  have t: "sc_Target c \<noteq> []"
    using assms(1) by (auto simp: NewSetFromConfig_def split: if_splits option.splits sum.splits)
  have "\<exists>m m'. rs ! i = Some m \<and> rs' ! i = Some m' \<and> Get m' (sc_Target c) = Some (sc_Value c)
       \<and> (\<forall>k. k \<noteq> seg_key (takeWhile (\<lambda>x. x \<noteq> CHR ''.'') (sc_Target c)) \<longrightarrow> m' k = m k)
       \<and> raw_markers (rs' ! i) = raw_markers (rs ! i)" if "i < length rs" for i
  proof -
    have st: "set_processRecord c (rs ! i) = Returns (Inr (ys ! i))" and i: "i < length ys"
      using ys(2) that by (auto simp: list_all2_conv_all_nth)
    then obtain m where m: "rs ! i = Some m"
      by (auto simp: set_processRecord_def split: option.splits if_splits sum.splits)
    have "Set m (sc_Target c) (sc_Value c) = (None, ys ! i)"
      using st m Set_flat [OF _ t] by (auto simp: set_processRecord_def split: if_splits option.splits prod.splits)
    then have "Get (ys ! i) (sc_Target c) = Some (sc_Value c)"
      "\<forall>k. k \<noteq> seg_key (takeWhile (\<lambda>x. x \<noteq> CHR ''.'') (sc_Target c)) \<longrightarrow> (ys ! i) k = m k"
      using set_loop_nav [of m "split_on (CHR ''.'') (sc_Target c)" "sc_Value c" "ys ! i"] t
        Set_root_frame [of _ "sc_Target c" m "sc_Value c"]
      by (auto simp: Set_eq Get_eq)
    moreover have "rs' ! i = Some (ys ! i)" using ys(1) i by simp
    ultimately show ?thesis using m set_step_markers [OF assms(1) st] by auto
  qed
  then show ?thesis using ys by (auto dest: list_all2_lengthD)
qed

definition demo_set :: SetConfig where
  "demo_set = \<lparr>sc_OnError = [], sc_Target = ''meta.tags[0]'', sc_Value = GStr ''x'', sc_HasValue = True\<rparr>"

lemma parse_default_strategy: "ParseOnErrorStrategy [] = Inr OnErrorFail"
  by (simp add: ParseOnErrorStrategy_def trim_space_def trim_left.simps)

lemma demo_set_ok: "NewSetFromConfig demo_set = Inr demo_set"
proof -
  have "ValidateRecordTarget ''meta.tags[0]'' = None" by code_simp
  then show ?thesis by (simp add: NewSetFromConfig_def demo_set_def parse_default_strategy)
qed

theorem set_Process_correct_witness:
  "\<exists>m'. set_Process (\<lambda>_. None) demo_set [Some [''id'' \<mapsto> GInt 1]] = Returns (Inr [Some m'])
     \<and> Get m' ''meta.tags[0]'' = Some (GStr ''x'') \<and> m' ''id'' = Some (GInt 1)"
proof -
  have nest: "IsNested ''meta.tags[0]''" by code_simp
  have "parses ''meta.tags[0]''" by code_simp
  then obtain m' where "Set [''id'' \<mapsto> GInt 1] ''meta.tags[0]'' (GStr ''x'') = (None, m')"
    using Set_ok_iff [of "[''id'' \<mapsto> GInt 1]" "''meta.tags[0]''" "GStr ''x''"] by (cases "Set [''id'' \<mapsto> GInt 1] ''meta.tags[0]'' (GStr ''x'')") auto
  with nest have run: "set_Process (\<lambda>_. None) demo_set [Some [''id'' \<mapsto> GInt 1]] = Returns (Inr [Some m'])"
    by (simp add: set_Process_def set_processRecord_def demo_set_def)
  from set_Process_correct [OF demo_set_ok run] run show ?thesis by (auto simp: demo_set_def)
qed

text \<open>
  The remove filter never fails once started: it keeps the number and the order of the
  records, afterwards every flat target is absent, and a field that is the first segment of no
  target is unchanged. Listing a target twice makes no difference, since the constructor drops
  repetitions.
\<close>
theorem remove_Process_correct:
  assumes "NewRemoveFromConfig fmt_T onError parsed target = Inr ts" "remove_Process cancel ts rs = Inr rs'"
  shows "distinct ts \<and> rs' = map (map_option (remove_fields ts)) rs
    \<and> (\<forall>m. \<forall>t \<in> set ts. \<not> IsNested t \<longrightarrow> remove_fields ts m t = None)
    \<and> (\<forall>m k. (\<forall>t \<in> set ts. k \<noteq> seg_key (takeWhile (\<lambda>x. x \<noteq> CHR ''.'') t)) \<longrightarrow> remove_fields ts m k = m k)"
proof -
  have "distinct ts"
    using assms(1) unique_targets_spec [of "[]"]
    by (auto simp: NewRemoveFromConfig_def split: sum.splits if_splits)
  moreover have "remove_processRecord ts = map_option (remove_fields ts)"
    by (auto simp: remove_processRecord_def fun_eq_iff split: option.split)
  ultimately show ?thesis
    using remove_run [OF assms(2)] remove_fields_absent remove_fields_frame by auto
qed

theorem remove_Process_correct_witness:
  "remove_Process (\<lambda>_. None) [''a''] [Some [''a'' \<mapsto> GInt 1, ''b'' \<mapsto> GInt 2], None] =
     Inr [Some [''b'' \<mapsto> GInt 2], None]"
proof -
  have c: "NewRemoveFromConfig (\<lambda>_. []) [] [] (GArr [GStr ''a'', GStr ''a'']) = Inr [''a'']"
    by (simp add: NewRemoveFromConfig_def normalizeRemoveTarget_def parse_default_strategy)
  have "remove_Process (\<lambda>_. None) [''a''] [Some [''a'' \<mapsto> GInt 1, ''b'' \<mapsto> GInt 2], None] =
      Inr (map (remove_processRecord [''a'']) [Some [''a'' \<mapsto> GInt 1, ''b'' \<mapsto> GInt 2], None])"
    by (simp add: remove_Process_def)
  note run = this
  have "\<not> IsNested ''a''" by code_simp
  then have "remove_fields [''a''] m = m(''a'' := None)" for m by simp
  then show ?thesis using remove_Process_correct [OF c run, THEN conjunct2, THEN conjunct1] run by simp
qed

text \<open>
  Error markers survive the field filters. In any chain of set filters accepted by their
  constructor, remove filters whose targets leave the reserved field alone, drop filters and
  stubs, every record that comes out descends from one that went in and carries its error
  markers, as a prefix of its own.
\<close>
theorem field_filters_keep_markers:
  assumes "set ms \<subseteq> {None, Some (drop_module cancel), Some stub_module}
      \<union> {Some (set_module cancel c) | c. accepted_set c} \<union> {Some (remove_module cancel ts) | ts. leaves_markers ts}"
    and "executeFilters i ms rs t r = (Inr rs', t', r')"
  shows "descends rs rs'"
proof (rule executeFilters_safe [OF _ assms(2)])
  show "\<forall>m \<in> set ms. case m of None \<Rightarrow> True | Some f \<Rightarrow> marker_safe f"
  proof
    fix m assume "m \<in> set ms"
    with assms(1) consider "m = None" | "m = Some (drop_module cancel)" | "m = Some stub_module"
      | c where "m = Some (set_module cancel c)" "accepted_set c"
      | ts where "m = Some (remove_module cancel ts)" "leaves_markers ts" by blast
    then show "case m of None \<Rightarrow> True | Some f \<Rightarrow> marker_safe f"
      by cases (simp_all add: field_modules_safe)
  qed
qed

theorem field_filters_keep_markers_witness:
  "descends [Some [''id'' \<mapsto> GInt 1]]
     (projr (fst (executeFilters 0 [Some (remove_module (\<lambda>_ _. None) [''id'']), None :: nat filter_module option]
        [Some [''id'' \<mapsto> GInt 1]] None (start_run demo_runtime (demo_executor False) 0 Map.empty))))"
proof -
  let ?ms = "[Some (remove_module (\<lambda>_ _. None) [''id'']), None :: nat filter_module option]"
  let ?r = "start_run demo_runtime (demo_executor False) 0 Map.empty"
  have run: "executeFilters 0 ?ms [Some [''id'' \<mapsto> GInt 1]] None ?r =
      (Inr [Some (remove_fields [''id''] [''id'' \<mapsto> GInt 1])], None,
       log_call (CProcess 0 [Some [''id'' \<mapsto> GInt 1]]) ?r)"
    by (simp add: remove_module_def remove_Process_def remove_processRecord_def Let_def)
  have "leaves_markers [''id'']" by code_simp
  then have "set ?ms \<subseteq> {None, Some (drop_module (\<lambda>_ _. None)), Some stub_module}
      \<union> {Some (set_module (\<lambda>_ _. None) c) | c. accepted_set c} \<union> {Some (remove_module (\<lambda>_ _. None) ts) | ts. leaves_markers ts}"
    by auto
  from field_filters_keep_markers [OF this run] run show ?thesis by simp
qed

end
