(* ===== verification/HttpRetry.thy ===== *)
theory HttpRetry
  imports Retry
begin

text \<open>
  Retried HTTP requests: \<open>internal/httpclient/doretry.go\<close> on top of the retry executor,
  with \<open>retry_after.go\<close>, \<open>retry_hint.go\<close> and \<open>error.go\<close>.

  The transport is a parameter: \<open>do_request\<close> is \<open>http.Client.Do\<close> on a clone of the request,
  \<open>get_body\<close> is \<open>req.GetBody\<close> when the request has one. A response carries its status, its
  Retry-After header, the bytes of its body stream and the error, if any, that follows them.
  The closure of \<open>DoWithRetry\<close> captures \<open>attempt\<close> and \<open>lastResp\<close>: they are fields of the
  world the executor runs in.
\<close>

subsection \<open>Responses, errors, Retry-After\<close>

record http_response =
  rs_StatusCode :: int
  rs_Status :: string
  rs_RetryAfter :: string
  rs_stream :: string
  rs_stream_err :: "gerr option"

record http_request =
  rq_Method :: string
  rq_URL :: string

definition maxErrorBodyBytes :: nat where "maxErrorBodyBytes = 1 * 1024 * 1024"

definition http_Error_Error :: "url_env \<Rightarrow> int \<Rightarrow> string \<Rightarrow> string \<Rightarrow> string \<Rightarrow> string \<Rightarrow> string" where
  "http_Error_Error env code status endpoint meth message =
     (if meth \<noteq> []
      then ''http error '' @ itoa code @ '' ('' @ status @ '') '' @ meth @ '' ''
           @ Sanitize env endpoint @ '': '' @ message
      else ''http error '' @ itoa code @ '' ('' @ status @ '') from ''
           @ Sanitize env endpoint @ '': '' @ message)"

definition ParseRetryAfter :: "(string \<Rightarrow> int option) \<Rightarrow> int \<Rightarrow> string \<Rightarrow> int option" where
  "ParseRetryAfter parse_http_time now value =
     (if value = [] then None
      else (case atoi value of
              Some seconds \<Rightarrow>
                if seconds \<ge> 0 then Some (wrap64 (seconds * 1000000000))
                else map_option (\<lambda>t. t - now) (parse_http_time value)
            | None \<Rightarrow> map_option (\<lambda>t. t - now) (parse_http_time value)))"

definition RetryAfterFromError :: "(string \<Rightarrow> int option) \<Rightarrow> int \<Rightarrow> gerr option \<Rightarrow> int option" where
  "RetryAfterFromError parse_http_time now err =
     (case err of
        None \<Rightarrow> None
      | Some e \<Rightarrow> (case as_http_error e of None \<Rightarrow> None
                               | Some header \<Rightarrow> ParseRetryAfter parse_http_time now header))"

subsection \<open>Retry hints\<close>

definition MaxRetryHintExpressionLength :: nat where "MaxRetryHintExpressionLength = 10000"

datatype hint_error = ErrHintTooLong nat | ErrHintCompile

text \<open>The expression engine (\<open>expr\<close>) and \<open>json.Unmarshal\<close> are parameters.\<close>

definition CompileRetryHint :: "(string \<Rightarrow> 'p option) \<Rightarrow> string \<Rightarrow> hint_error + 'p option" where
  "CompileRetryHint expr_compile expression =
     (if expression = [] then Inr None
      else if length expression > MaxRetryHintExpressionLength then Inl (ErrHintTooLong (length expression))
      else (case expr_compile expression of None \<Rightarrow> Inl ErrHintCompile | Some p \<Rightarrow> Inr (Some p)))"

definition EvalRetryHint ::
  "(string \<Rightarrow> grecord option) \<Rightarrow> ('p \<Rightarrow> grecord \<Rightarrow> gval option) \<Rightarrow> 'p option \<Rightarrow> string \<Rightarrow> bool \<times> bool" where
  "EvalRetryHint unmarshal expr_run program body =
     (case program of
        None \<Rightarrow> (False, False)
      | Some p \<Rightarrow>
          if body = [] then (False, False)
          else (case unmarshal body of
                  None \<Rightarrow> (False, False)
                | Some data \<Rightarrow>
                    (case expr_run p [''body'' \<mapsto> GMap data] of
                       None \<Rightarrow> (False, False)
                     | Some result \<Rightarrow> (case as_bool result of Some b \<Rightarrow> (b, True) | None \<Rightarrow> (False, False)))))"

subsection \<open>DoWithRetry\<close>

record 'h http_client =
  get_body :: "('h \<Rightarrow> gerr option \<times> 'h) option"
  do_request :: "'h \<Rightarrow> (gerr + http_response) \<times> 'h"

record 'h retry_hooks =
  OnRetry :: "(int \<Rightarrow> gerr option \<Rightarrow> int \<Rightarrow> 'h \<Rightarrow> 'h) option"
  ShouldRetryBody :: "(string \<Rightarrow> bool \<times> bool) option"
  OnAttemptFailure :: "(int \<Rightarrow> http_response \<Rightarrow> gerr \<Rightarrow> 'h \<Rightarrow> bool \<times> 'h) option"
  IsSuccessStatus :: "(int \<Rightarrow> bool) option"

record 'h run_context =
  rc_done :: "'h \<Rightarrow> gerr option"
  rc_wait :: "int \<Rightarrow> 'h \<Rightarrow> gerr option \<times> 'h"
  rc_elapsed :: "'h \<Rightarrow> int"
  rc_now :: int
  rc_parse_http_time :: "string \<Rightarrow> int option"
  rc_url :: url_env
  rc_float :: float_ops

record 'h do_state =
  ds_attempt :: int
  ds_lastResp :: "http_response option"
  ds_net :: 'h

definition readBody :: "http_response \<Rightarrow> gerr + string" where
  "readBody resp =
     (if rs_StatusCode resp \<ge> 400 \<and> length (rs_stream resp) \<ge> maxErrorBodyBytes
      then Inr (take maxErrorBodyBytes (rs_stream resp))
      else (case rs_stream_err resp of Some e \<Rightarrow> Inl e | None \<Rightarrow> Inr (rs_stream resp)))"

definition body_forces_retry :: "'h retry_hooks \<Rightarrow> string \<Rightarrow> bool" where
  "body_forces_retry hooks body =
     (case ShouldRetryBody hooks of
        None \<Rightarrow> False
      | Some f \<Rightarrow> (case f body of (retry, hinted) \<Rightarrow> hinted \<and> retry))"

definition synthetic_retry :: "http_response \<Rightarrow> gerr" where
  "synthetic_retry resp =
     ClassifiedE (Classified CategoryServer True (rs_StatusCode resp) ''retry forced by retryHintFromBody'' None)"

definition set_retryable :: "bool \<Rightarrow> classified \<Rightarrow> classified" where
  "set_retryable b c = (case c of Classified cat r s m o' \<Rightarrow> Classified cat b s m o')"

definition set_original :: "gerr \<Rightarrow> classified \<Rightarrow> classified" where
  "set_original e c = (case c of Classified cat r s m o' \<Rightarrow> Classified cat r s m (Some e))"

text \<open>The classified error of a status of 400 or more, before the \<open>OnAttemptFailure\<close> hook.\<close>

definition classify_response ::
  "url_env \<Rightarrow> RetryConfig \<Rightarrow> 'h retry_hooks \<Rightarrow> http_request \<Rightarrow> http_response \<Rightarrow> string \<Rightarrow> classified" where
  "classify_response env cfg hooks req resp body =
     (let classified = ClassifyHTTPStatus (rs_StatusCode resp) (rs_Status resp);
          classified = set_original
            (NodeE (KHTTPError (rs_RetryAfter resp))
               (http_Error_Error env (rs_StatusCode resp) (rs_Status resp) (rq_URL req) (rq_Method req) (rs_Status resp))
               None None None [] False) classified;
          classified = (if length (RetryableStatusCodes cfg) > 0
                        then set_retryable (IsStatusCodeRetryable cfg (rs_StatusCode resp)) classified
                        else classified)
      in (case ShouldRetryBody hooks of
            None \<Rightarrow> classified
          | Some f \<Rightarrow> (case f body of (wantRetry, hinted) \<Rightarrow>
                          if hinted \<and> \<not> wantRetry then set_retryable False classified else classified)))"

text \<open>The closure \<open>fn\<close>: one attempt.\<close>

definition attempt_fn ::
  "url_env \<Rightarrow> RetryConfig \<Rightarrow> 'h retry_hooks \<Rightarrow> http_request \<Rightarrow> 'h http_client \<Rightarrow> 'h do_state
   \<Rightarrow> (http_response + gerr) \<times> 'h do_state" where
  "attempt_fn env cfg hooks req client s =
     (let s = s\<lparr>ds_attempt := ds_attempt s + 1, ds_lastResp := None\<rparr>;
          (bodyErr, s) = (case get_body client of
                            None \<Rightarrow> (None, s)
                          | Some g \<Rightarrow> (let (e, h) = g (ds_net s) in (e, s\<lparr>ds_net := h\<rparr>)))
      in (case bodyErr of
            Some err \<Rightarrow> (Inr (ClassifiedE (NewNetworkError ''rewinding request body'' (Some err))), s)
          | None \<Rightarrow>
              (case do_request client (ds_net s) of
                 (Inl err, h) \<Rightarrow> (Inr (ClassifiedE (ClassifyNetworkError env (Some err))), s\<lparr>ds_net := h\<rparr>)
               | (Inr resp, h) \<Rightarrow>
                   let s = s\<lparr>ds_net := h\<rparr>
                   in (case readBody resp of
                         Inl readErr \<Rightarrow>
                           (Inr (ClassifiedE (NewNetworkError ''reading response body'' (Some readErr))), s)
                       | Inr body \<Rightarrow>
                           let resp = resp\<lparr>rs_stream := body, rs_stream_err := None\<rparr>;
                               s = s\<lparr>ds_lastResp := Some resp\<rparr>
                           in if (case IsSuccessStatus hooks of None \<Rightarrow> False | Some f \<Rightarrow> f (rs_StatusCode resp))
                              then (if body_forces_retry hooks body then (Inr (synthetic_retry resp), s)
                                    else (Inl resp, s))
                              else if rs_StatusCode resp \<ge> 400 then
                                let classified = classify_response env cfg hooks req resp body
                                in (case OnAttemptFailure hooks of
                                      None \<Rightarrow> (Inr (ClassifiedE classified), s)
                                    | Some f \<Rightarrow>
                                        let (force, h) = f (ds_attempt s) resp (ClassifiedE classified) (ds_net s)
                                        in (Inr (ClassifiedE (if force then set_retryable True classified else classified)),
                                            s\<lparr>ds_net := h\<rparr>))
                              else if body_forces_retry hooks body then (Inr (synthetic_retry resp), s)
                              else (Inl resp, s)))))"

definition do_env ::
  "'h run_context \<Rightarrow> RetryConfig \<Rightarrow> 'h retry_hooks \<Rightarrow> http_request \<Rightarrow> 'h http_client
   \<Rightarrow> ('h do_state, http_response) retry_env" where
  "do_env ctx cfg hooks req client =
     \<lparr>run_fn = attempt_fn (rc_url ctx) cfg hooks req client,
      ctx_done = (\<lambda>s. rc_done ctx (ds_net s)),
      wait_delay = (\<lambda>d s. let (r, h) = rc_wait ctx d (ds_net s) in (r, s\<lparr>ds_net := h\<rparr>)),
      on_attempt = (\<lambda>a err d s. case OnRetry hooks of None \<Rightarrow> s
                                  | Some f \<Rightarrow> s\<lparr>ds_net := f a err d (ds_net s)\<rparr>),
      ExtractRetryAfter =
        (if UseRetryAfterHeader cfg
         then Some (\<lambda>err. RetryAfterFromError (rc_parse_http_time ctx) (rc_now ctx) (Some err)) else None),
      millisSince = (\<lambda>s. rc_elapsed ctx (ds_net s)),
      env_url = rc_url ctx,
      env_float = rc_float ctx\<rparr>"

definition ErrNilClient :: gerr where
  "ErrNilClient = NodeE KPlain ''httpclient: nil client'' None None None [] False"

definition DoWithRetry ::
  "'h run_context \<Rightarrow> 'h http_client option \<Rightarrow> http_request \<Rightarrow> RetryConfig \<Rightarrow> 'h retry_hooks \<Rightarrow> 'h
   \<Rightarrow> (http_response option \<times> gerr option) \<times> 'h" where
  "DoWithRetry ctx client req cfg hooks h =
     (case client of
        None \<Rightarrow> ((None, Some ErrNilClient), h)
      | Some cl \<Rightarrow>
          let (out, _, s) = ExecuteWithHooks (do_env ctx cfg hooks req cl) (NewRetryExecutor cfg)
                              \<lparr>ds_attempt = -1, ds_lastResp = None, ds_net = h\<rparr>
          in ((ds_lastResp s, (case out of Failed err \<Rightarrow> Some err | _ \<Rightarrow> None)), ds_net s))"


subsection \<open>Facts\<close>

text \<open>How a run of the executor ends: with the last call of the function, or with the context.\<close>

lemma hooks_loop_end:
  assumes "int attempt \<le> MaxAttempts (re_config e)"
    and "hooks_loop env attempt le e w = (out, e', w')"
  shows "(\<exists>r w0 w1 a. out = Done r \<and> run_fn env w0 = (Inl r, w1) \<and> w' = on_attempt env a None 0 w1)
       \<or> (\<exists>err w0 w1 a d. out = Failed err \<and> run_fn env w0 = (Inr err, w1)
             \<and> w' = on_attempt env a (Some err) d w1)
       \<or> (\<exists>ce. out = Failed (ctx_failure env ce))"
  using assms
proof (induction "nat (MaxAttempts (re_config e) + 1 - int attempt)"
       arbitrary: attempt le e w rule: less_induct)
  case less
  note eq = less.prems(2) [unfolded hooks_loop.simps [of env attempt le e w]]
  obtain res w1 where run: "run_fn env w = (res, w1)" by fastforce
  show ?case
  proof (cases "ctx_done env w")
    case (Some ce)
    with eq less.prems(1) show ?thesis by (auto simp: Let_def)
  next
    case None
    show ?thesis
    proof (cases res)
      case (Inl r)
      with None run eq less.prems(1) have "out = Done r" "w' = on_attempt env (int attempt) None 0 w1"
        by (auto simp: Let_def)
      with run Inl show ?thesis by blast
    next
      case (Inr err)
      define ok where "ok \<longleftrightarrow> Retryable (ClassifyError (env_url env) (Some err))
                              \<and> int attempt < MaxAttempts (re_config e)"
      show ?thesis
      proof (cases ok)
        case False
        with None run Inr eq less.prems(1) have "out = Failed err"
          "\<exists>d. w' = on_attempt env (int attempt) (Some err) d w1"
          by (auto simp: Let_def ok_def split: if_splits)
        with run Inr show ?thesis by blast
      next
        case True
        define dl where "dl = hooked_delay env (re_config e) (int attempt) err"
        obtain wr w2 where wait: "wait_delay env dl (on_attempt env (int attempt) (Some err) dl w1) = (wr, w2)"
          by fastforce
        show ?thesis
        proof (cases wr)
          case (Some ce)
          with None run Inr True wait eq less.prems(1) show ?thesis
            by (auto simp: Let_def ok_def dl_def)
        next
          case None': None
          obtain e1 where e1: "hooks_loop env (Suc attempt) (Some err) e1 w2 = (out, e', w')"
              "re_config e1 = re_config e"
            using None None' run Inr True wait eq less.prems(1) by (auto simp: Let_def ok_def dl_def)
          with less.hyps [of e1 "Suc attempt" "Some err" w2] True less.prems(1) show ?thesis
            by (simp add: ok_def)
        qed
      qed
    qed
  qed
qed

lemma StatusCode_setters [simp]: "StatusCode (set_retryable b c) = StatusCode c"
  "StatusCode (set_original o' c) = StatusCode c" "Category (set_retryable b c) = Category c"
  "Category (set_original o' c) = Category c" "Retryable (set_retryable b c) = b"
  "Retryable (set_original o' c) = Retryable c"
  by (cases c; simp add: set_retryable_def set_original_def)+

lemma StatusCode_network [simp]: "StatusCode (ClassifyNetworkError env err) = 0"
  by (simp add: ClassifyNetworkError_def split: option.split prod.split)

lemma StatusCode_classify_response [simp]:
  "StatusCode (classify_response env cfg hooks req resp body) = rs_StatusCode resp"
  by (auto simp: classify_response_def Let_def ClassifyHTTPStatus_def split: option.split prod.split)

lemma Retryable_classify_response:
  "RetryableStatusCodes cfg \<noteq> [] \<Longrightarrow> ShouldRetryBody hooks = None \<Longrightarrow>
   Retryable (classify_response env cfg hooks req resp body) = IsStatusCodeRetryable cfg (rs_StatusCode resp)"
  by (simp add: classify_response_def Let_def)

lemma attempt_fn_success:
  assumes "attempt_fn env cfg hooks req client s = (Inl r, s')"
  shows "ds_lastResp s' = Some r
         \<and> (rs_StatusCode r < 400 \<or> (\<exists>f. IsSuccessStatus hooks = Some f \<and> f (rs_StatusCode r)))
         \<and> \<not> body_forces_retry hooks (rs_stream r)"
  using assms
  by (auto simp: attempt_fn_def Let_def
           split: option.splits prod.splits sum.splits if_splits)

lemma attempt_fn_failure:
  assumes "attempt_fn env cfg hooks req client s = (Inr err, s')"
  shows "\<exists>c. err = ClassifiedE c
           \<and> (StatusCode c = 0 \<and> Category c \<in> {CategoryNetwork, CategoryUnknown}
              \<or> (\<exists>r. ds_lastResp s' = Some r \<and> rs_StatusCode r = StatusCode c))"
  using assms
  by (auto simp: attempt_fn_def Let_def NewNetworkError_def synthetic_retry_def ClassifyNetworkError_def
           split: option.splits prod.splits sum.splits if_splits)


lemma DoWithRetry_end:
  assumes "0 \<le> MaxAttempts cfg" "DoWithRetry ctx (Some cl) req cfg hooks h = ((resp, err), h')"
  shows "(\<exists>r s0 s1. err = None \<and> resp = ds_lastResp s1 \<and> attempt_fn (rc_url ctx) cfg hooks req cl s0 = (Inl r, s1))
       \<or> (\<exists>e s0 s1. err = Some e \<and> resp = ds_lastResp s1 \<and> attempt_fn (rc_url ctx) cfg hooks req cl s0 = (Inr e, s1))
       \<or> (\<exists>ce. err = Some (ClassifiedE (ClassifyNetworkError (rc_url ctx) (Some ce))))"
proof -
  obtain out e' s where run: "hooks_loop (do_env ctx cfg hooks req cl) 0 None
      (resetRetryState (NewRetryExecutor cfg)) \<lparr>ds_attempt = -1, ds_lastResp = None, ds_net = h\<rparr> = (out, e', s)"
    by (metis prod_cases3)
  then have res: "resp = ds_lastResp s" "err = (case out of Failed e \<Rightarrow> Some e | _ \<Rightarrow> None)"
    using assms(2) by (simp_all add: DoWithRetry_def ExecuteWithHooks_def)
  have keep: "ds_lastResp (on_attempt (do_env ctx cfg hooks req cl) a er d s1) = ds_lastResp s1" for a er d s1
    by (simp add: do_env_def split: option.split)
  have fn: "run_fn (do_env ctx cfg hooks req cl) = attempt_fn (rc_url ctx) cfg hooks req cl"
    "env_url (do_env ctx cfg hooks req cl) = rc_url ctx"
    by (simp_all add: do_env_def)
  from hooks_loop_end [OF _ run] assms(1) have
    "(\<exists>r w0 w1 a. out = Done r \<and> attempt_fn (rc_url ctx) cfg hooks req cl w0 = (Inl r, w1)
          \<and> s = on_attempt (do_env ctx cfg hooks req cl) a None 0 w1)
     \<or> (\<exists>e w0 w1 a d. out = Failed e \<and> attempt_fn (rc_url ctx) cfg hooks req cl w0 = (Inr e, w1)
          \<and> s = on_attempt (do_env ctx cfg hooks req cl) a (Some e) d w1)
     \<or> (\<exists>ce. out = Failed (ctx_failure (do_env ctx cfg hooks req cl) ce))"
    by (simp add: NewRetryExecutor_def fn)
  then show ?thesis
  proof (elim disjE exE conjE)
    fix r w0 w1 a
    assume "out = Done r" "attempt_fn (rc_url ctx) cfg hooks req cl w0 = (Inl r, w1)"
      "s = on_attempt (do_env ctx cfg hooks req cl) a None 0 w1"
    with res keep show ?thesis by auto
  next
    fix e w0 w1 a d
    assume "out = Failed e" "attempt_fn (rc_url ctx) cfg hooks req cl w0 = (Inr e, w1)"
      "s = on_attempt (do_env ctx cfg hooks req cl) a (Some e) d w1"
    with res keep show ?thesis by auto
  next
    fix ce assume "out = Failed (ctx_failure (do_env ctx cfg hooks req cl) ce)"
    with res show ?thesis by (auto simp: ctx_failure_def fn)
  qed
qed

subsection \<open>Invariants of a retried request\<close>

text \<open>What every step of the loop preserves, the loop preserves.\<close>

lemma hooks_loop_invariant:
  assumes "\<And>w r w'. P w \<Longrightarrow> run_fn env w = (r, w') \<Longrightarrow> P w'"
    and "\<And>w a er d. P w \<Longrightarrow> P (on_attempt env a er d w)"
    and "\<And>w d r w'. P w \<Longrightarrow> wait_delay env d w = (r, w') \<Longrightarrow> P w'"
    and "P w" "hooks_loop env attempt le e w = (out, e', w')"
  shows "P w'"
  using assms(4,5)
proof (induction "nat (MaxAttempts (re_config e) + 1 - int attempt)"
       arbitrary: attempt le e w rule: less_induct)
  case less
  note eq = less.prems(2) [unfolded hooks_loop.simps [of env attempt le e w]]
  obtain res w1 where run: "run_fn env w = (res, w1)" by fastforce
  have w1: "P w1" by (rule assms(1) [OF less.prems(1) run])
  show ?case
  proof (cases "\<not> int attempt < MaxAttempts (re_config e) + 1 \<or> ctx_done env w \<noteq> None \<or> isl res")
    case True
    with eq run less.prems(1) w1 assms(2) show ?thesis
      by (cases res) (auto simp: Let_def split: if_splits option.splits)
  next
    case False
    then obtain err where res: "res = Inr err" by (cases res) auto
    define ok where "ok \<longleftrightarrow> Retryable (ClassifyError (env_url env) (Some err)) \<and> int attempt < MaxAttempts (re_config e)"
    define dl where "dl = (if ok then hooked_delay env (re_config e) (int attempt) err else 0)"
    let ?w2 = "on_attempt env (int attempt) (Some err) dl w1"
    have w2: "P ?w2" by (rule assms(2) [OF w1])
    show ?thesis
    proof (cases ok)
      case False
      with eq run res \<open>\<not> (\<not> int attempt < _ \<or> _)\<close> have "w' = ?w2"
        by (auto simp: Let_def ok_def dl_def split: if_splits)
      with w2 show ?thesis by simp
    next
      case True
      obtain wr w3 where wait: "wait_delay env dl ?w2 = (wr, w3)" by fastforce
      have w3: "P w3" by (rule assms(3) [OF w2 wait])
      show ?thesis
      proof (cases wr)
        case (Some ce)
        with eq run res \<open>\<not> (\<not> int attempt < _ \<or> _)\<close> True wait have "w' = w3"
          by (auto simp: Let_def ok_def dl_def)
        with w3 show ?thesis by simp
      next
        case None
        obtain e1 where "hooks_loop env (Suc attempt) (Some err) e1 w3 = (out, e', w')"
            "re_config e1 = re_config e"
          using None eq run res \<open>\<not> (\<not> int attempt < _ \<or> _)\<close> True wait by (auto simp: Let_def ok_def dl_def)
        with less.hyps [of e1 "Suc attempt" w3] True w3 show ?thesis by (simp add: ok_def)
      qed
    qed
  qed
qed

lemma attempt_fn_net:
  assumes "attempt_fn env cfg hooks req client s = (r, s')" "P (ds_net s)"
    and "\<And>h e h' g. P h \<Longrightarrow> get_body client = Some g \<Longrightarrow> g h = (e, h') \<Longrightarrow> P h'"
    and "\<And>h e h'. P h \<Longrightarrow> do_request client h = (e, h') \<Longrightarrow> P h'"
    and "\<And>h f a resp er b h'. P h \<Longrightarrow> OnAttemptFailure hooks = Some f \<Longrightarrow> f a resp er h = (b, h') \<Longrightarrow> P h'"
  shows "P (ds_net s')"
proof -
  obtain be h1 where h1: "(case get_body client of None \<Rightarrow> (None, ds_net s) | Some g \<Rightarrow> g (ds_net s)) = (be, h1)"
    by fastforce
  obtain rr h2 where rr: "do_request client h1 = (rr, h2)" by fastforce
  have p1: "P h1" using h1 assms(2,3) by (auto split: option.splits)
  have p2: "P h2" by (rule assms(4) [OF p1 rr])
  let ?s0 = "s\<lparr>ds_attempt := ds_attempt s + 1, ds_lastResp := None\<rparr>"
  have first: "(case get_body client of
                  None \<Rightarrow> (None, ?s0)
                | Some g \<Rightarrow> (let (e, h) = g (ds_net ?s0) in (e, ?s0\<lparr>ds_net := h\<rparr>))) = (be, ?s0\<lparr>ds_net := h1\<rparr>)"
    using h1 by (cases "get_body client") auto
  have "ds_net s' = h1 \<or> ds_net s' = h2
      \<or> (\<exists>f a resp er b. OnAttemptFailure hooks = Some f \<and> f a resp er h2 = (b, ds_net s'))"
  proof (cases be)
    case (Some e)
    with assms(1) show ?thesis unfolding attempt_fn_def Let_def first [unfolded Let_def] by auto
  next
    case be: None
    show ?thesis
    proof (cases rr)
      case (Inl e)
      with assms(1) rr be show ?thesis unfolding attempt_fn_def Let_def first [unfolded Let_def] by auto
    next
      case (Inr resp)
      with assms(1) rr be show ?thesis unfolding attempt_fn_def Let_def first [unfolded Let_def]
        by (auto split: sum.splits option.splits if_splits prod.splits)
    qed
  qed
  then show ?thesis using p1 p2 assms(5) by metis
qed

lemma DoWithRetry_invariant:
  assumes "DoWithRetry ctx (Some cl) req cfg hooks h = (r, h')" "P h"
    and "\<And>h e h' g. P h \<Longrightarrow> get_body cl = Some g \<Longrightarrow> g h = (e, h') \<Longrightarrow> P h'"
    and "\<And>h e h'. P h \<Longrightarrow> do_request cl h = (e, h') \<Longrightarrow> P h'"
    and "\<And>h f a resp er b h'. P h \<Longrightarrow> OnAttemptFailure hooks = Some f \<Longrightarrow> f a resp er h = (b, h') \<Longrightarrow> P h'"
    and "\<And>h f a er d. P h \<Longrightarrow> OnRetry hooks = Some f \<Longrightarrow> P (f a er d h)"
    and "\<And>h d e h'. P h \<Longrightarrow> rc_wait ctx d h = (e, h') \<Longrightarrow> P h'"
  shows "P h'"
proof -
  let ?env = "do_env ctx cfg hooks req cl"
  obtain out e' s where run: "hooks_loop ?env 0 None
      (resetRetryState (NewRetryExecutor cfg)) \<lparr>ds_attempt = -1, ds_lastResp = None, ds_net = h\<rparr> = (out, e', s)"
    by (metis prod_cases3)
  have "P (ds_net s)"
  proof (rule hooks_loop_invariant [where P = "\<lambda>w. P (ds_net w)", OF _ _ _ _ run])
    fix w r w' assume w: "P (ds_net w)" and "run_fn ?env w = (r, w')"
    then have "attempt_fn (rc_url ctx) cfg hooks req cl w = (r, w')" by (simp add: do_env_def)
    from attempt_fn_net [where P = P, OF this w assms(3) assms(4) assms(5)] show "P (ds_net w')" .
  next
    fix w :: "'a do_state" and a er d assume "P (ds_net w)"
    then show "P (ds_net (on_attempt ?env a er d w))"
      using assms(6) by (auto simp: do_env_def split: option.split)
  next
    fix w d r w' assume "P (ds_net w)" "wait_delay ?env d w = (r, w')"
    then show "P (ds_net w')" using assms(7) by (auto simp: do_env_def Let_def split: prod.splits)
  qed (simp add: assms(2))
  with run assms(1) show ?thesis by (simp add: DoWithRetry_def ExecuteWithHooks_def)
qed

text \<open>A response handed back as a success was received in some attempt.\<close>

lemma attempt_fn_received:
  assumes "attempt_fn env cfg hooks req client s = (Inl r, s')"
  shows "\<exists>h raw h' body. do_request client h = (Inr raw, h') \<and> readBody raw = Inr body
    \<and> r = raw\<lparr>rs_stream := body, rs_stream_err := None\<rparr>"
  using assms
  by (fastforce simp: attempt_fn_def Let_def split: option.splits prod.splits sum.splits if_splits)

subsection \<open>Properties\<close>

text \<open>No failure passes for a success: when \<open>DoWithRetry\<close> returns no error there is a response,
  its status is below 400 or the caller's own success rule accepts it, and its body does not ask
  for a retry.\<close>

theorem DoWithRetry_success:
  assumes "0 \<le> MaxAttempts cfg"
    and "DoWithRetry ctx (Some cl) req cfg hooks h = ((resp, None), h')"
  shows "\<exists>r. resp = Some r
           \<and> (rs_StatusCode r < 400 \<or> (\<exists>f. IsSuccessStatus hooks = Some f \<and> f (rs_StatusCode r)))
           \<and> \<not> body_forces_retry hooks (rs_stream r)"
  using DoWithRetry_end [OF assms] attempt_fn_success by fastforce

text \<open>Every failure of a retried request is classified, and the classification matches the
  response handed back: an error with a status code comes with the response of that very status,
  and an error without one is a network (or unknown) failure.\<close>

theorem DoWithRetry_failure:
  assumes "0 \<le> MaxAttempts cfg"
    and "DoWithRetry ctx (Some cl) req cfg hooks h = ((resp, Some err), h')"
  shows "\<exists>c. err = ClassifiedE c
           \<and> (StatusCode c = 0 \<and> Category c \<in> {CategoryNetwork, CategoryUnknown}
              \<or> (\<exists>r. resp = Some r \<and> rs_StatusCode r = StatusCode c))"
proof -
  have "Category (ClassifyNetworkError env (Some ce)) \<in> {CategoryNetwork, CategoryUnknown}" for env ce
    by (simp add: ClassifyNetworkError_def split: option.split prod.split)
  then show ?thesis using DoWithRetry_end [OF assms] attempt_fn_failure by fastforce
qed

definition demo_ctx :: "http_response list run_context" where
  "demo_ctx = \<lparr>rc_done = (\<lambda>_. None), rc_wait = (\<lambda>_ h. (None, h)), rc_elapsed = (\<lambda>_. 0), rc_now = 0,
     rc_parse_http_time = (\<lambda>_. None), rc_url = demo_env, rc_float = exact_ops\<rparr>"

definition demo_client :: "http_response list http_client" where
  "demo_client = \<lparr>get_body = None, do_request = (\<lambda>h. (Inr (hd h), tl h))\<rparr>"

definition no_hooks :: "http_response list retry_hooks" where
  "no_hooks = \<lparr>OnRetry = None, ShouldRetryBody = None, OnAttemptFailure = None, IsSuccessStatus = None\<rparr>"

definition demo_response :: "int \<Rightarrow> http_response" where
  "demo_response s = \<lparr>rs_StatusCode = s, rs_Status = ''status'', rs_RetryAfter = [], rs_stream = ''{}'',
     rs_stream_err = None\<rparr>"

definition demo_request :: http_request where
  "demo_request = \<lparr>rq_Method = ''GET'', rq_URL = ''http://h''\<rparr>"

lemma demo_readBody: "readBody (demo_response s) = Inr ''{}''"
  by (simp add: readBody_def demo_response_def maxErrorBodyBytes_def)


lemma demo_response_simps [simp]:
  "rs_StatusCode (demo_response s) = s" "rs_stream (demo_response s) = ''{}''"
  "demo_response s\<lparr>rs_stream := ''{}'', rs_stream_err := None\<rparr> = demo_response s"
  by (simp_all add: demo_response_def)

lemma demo_attempt_ok:
  "s < 400 \<Longrightarrow> attempt_fn u cfg no_hooks req demo_client
     \<lparr>ds_attempt = a, ds_lastResp = l, ds_net = demo_response s # h\<rparr>
   = (Inl (demo_response s), \<lparr>ds_attempt = a + 1, ds_lastResp = Some (demo_response s), ds_net = h\<rparr>)"
  by (simp add: attempt_fn_def demo_client_def no_hooks_def demo_readBody body_forces_retry_def Let_def)

lemma demo_attempt_err:
  "400 \<le> s \<Longrightarrow> attempt_fn u cfg no_hooks req demo_client
     \<lparr>ds_attempt = a, ds_lastResp = l, ds_net = demo_response s # h\<rparr>
   = (Inr (ClassifiedE (classify_response u cfg no_hooks req (demo_response s) ''{}'')),
      \<lparr>ds_attempt = a + 1, ds_lastResp = Some (demo_response s), ds_net = h\<rparr>)"
  by (simp add: attempt_fn_def demo_client_def demo_readBody Let_def)
     (simp add: no_hooks_def)

lemma demo_env_simps [simp]:
  "run_fn (do_env demo_ctx cfg no_hooks req cl) = attempt_fn demo_env cfg no_hooks req cl"
  "ctx_done (do_env demo_ctx cfg no_hooks req cl) s = None"
  "wait_delay (do_env demo_ctx cfg no_hooks req cl) d s = (None, s)"
  "on_attempt (do_env demo_ctx cfg no_hooks req cl) a er d s = s"
  "env_url (do_env demo_ctx cfg no_hooks req cl) = demo_env"
  by (simp_all add: do_env_def demo_ctx_def no_hooks_def)

lemma demo_retryable [simp]:
  "Retryable (classify_response u DefaultRetryConfig no_hooks req (demo_response s) b)
     = (s \<in> {429, 500, 502, 503, 504})"
  by (subst Retryable_classify_response)
     (auto simp: DefaultRetryConfig_def DefaultRetryableStatusCodes_def no_hooks_def IsStatusCodeRetryable_def)

lemma demo_config [simp]: "MaxAttempts DefaultRetryConfig = 3"
  "re_config (NewRetryExecutor cfg) = cfg"
  by (simp_all add: DefaultRetryConfig_def NewRetryExecutor_def)

lemma demo_run_503_200:
  "DoWithRetry demo_ctx (Some demo_client) demo_request DefaultRetryConfig no_hooks
     [demo_response 503, demo_response 200] = ((Some (demo_response 200), None), [])"
  by (simp add: DoWithRetry_def ExecuteWithHooks_def hooks_loop.simps demo_attempt_ok demo_attempt_err Let_def)

lemma demo_run_404:
  "DoWithRetry demo_ctx (Some demo_client) demo_request DefaultRetryConfig no_hooks [demo_response 404]
     = ((Some (demo_response 404), Some (ClassifiedE (classify_response demo_env DefaultRetryConfig no_hooks
           demo_request (demo_response 404) ''{}''))), [])"
  by (simp add: DoWithRetry_def ExecuteWithHooks_def hooks_loop.simps demo_attempt_err Let_def)

theorem DoWithRetry_success_witness:
  "\<exists>r. fst (DoWithRetry demo_ctx (Some demo_client) demo_request DefaultRetryConfig no_hooks
              [demo_response 503, demo_response 200]) = (Some r, None) \<and> rs_StatusCode r < 400"
  using DoWithRetry_success [OF _ demo_run_503_200] unfolding demo_run_503_200 by (auto simp: no_hooks_def)

theorem DoWithRetry_failure_witness:
  "\<exists>r err. fst (DoWithRetry demo_ctx (Some demo_client) demo_request DefaultRetryConfig no_hooks [demo_response 404])
     = (Some r, Some err) \<and> rs_StatusCode r = 404"
  using DoWithRetry_failure [OF _ demo_run_404] unfolding demo_run_404 by auto

text \<open>The allowlist is exact: with a configured list of retryable status codes and no hooks, an
  error response is marked retryable exactly when its status is on the list, whatever the default
  classification says.\<close>

theorem DoWithRetry_allowlist:
  assumes "RetryableStatusCodes cfg \<noteq> []" "ShouldRetryBody hooks = None" "OnAttemptFailure hooks = None"
    and "IsSuccessStatus hooks = None"
    and "attempt_fn env cfg hooks req client s = (Inr (ClassifiedE c), s')" and "400 \<le> StatusCode c"
  shows "Retryable c = (StatusCode c \<in> set (RetryableStatusCodes cfg))"
  using assms
  by (auto simp: attempt_fn_def Let_def NewNetworkError_def synthetic_retry_def body_forces_retry_def
        Retryable_classify_response IsStatusCodeRetryable_def list_ex_iff
        split: option.splits prod.splits sum.splits if_splits)

definition teapot_config :: RetryConfig where
  "teapot_config = DefaultRetryConfig\<lparr>RetryableStatusCodes := [404]\<rparr>"

theorem DoWithRetry_allowlist_witness:
  "Retryable (classify_response demo_env teapot_config no_hooks demo_request (demo_response 404) ''{}'')"
  using DoWithRetry_allowlist
    [of teapot_config no_hooks, OF _ _ _ _ demo_attempt_err [of 404 demo_env teapot_config demo_request "-1" None "[]"]]
  by (simp add: teapot_config_def no_hooks_def)

text \<open>
  An allowlisted 404 is retried, yet the execution report, which asks \<open>IsFatal\<close>, calls the same
  error fatal: \<open>IsFatal\<close> reads the category and not the verdict.
\<close>

theorem retryable_error_reported_fatal:
  "Retryable (classify_response demo_env teapot_config no_hooks demo_request (demo_response 404) ''{}'')
   \<and> IsFatal (Some (ClassifiedE
        (classify_response demo_env teapot_config no_hooks demo_request (demo_response 404) ''{}'')))"
proof -
  have "Category (classify_response demo_env teapot_config no_hooks demo_request (demo_response 404) ''{}'')
          = CategoryNotFound"
    by (simp add: classify_response_def Let_def no_hooks_def ClassifyHTTPStatus_def)
  then show ?thesis
    by (simp add: Retryable_classify_response IsFatal_def GetErrorCategory_def)
       (simp add: teapot_config_def no_hooks_def IsStatusCodeRetryable_def Retryable_classify_response)
qed

end
