(* ===== verification/CacheContract.thy ===== *)
theory CacheContract
  imports Prelude
begin

text \<open>
  The contract between a call filter and its response cache (the interface \<open>Cache\<close> of
  \<open>src/internal/cache/lru.go\<close>). A client looks a key up, and stores what it fetched when
  the key is absent. \<open>view c t k\<close> is what the cache would answer for \<open>k\<close> at time \<open>t\<close>.
  The laws leave the provider free to forget any entry at any time, and forbid it to answer a
  value nobody stored under the key. \<open>faithful\<close> is the client's invariant: every answer the
  cache can give, now or later, is one the client accepts for the key.
\<close>

locale ttl_cache =
  fixes lookup :: "'c \<Rightarrow> int \<Rightarrow> string \<Rightarrow> 'v option \<times> 'c"
    and store :: "'c \<Rightarrow> int \<Rightarrow> string \<Rightarrow> 'v \<Rightarrow> 'c"
    and view :: "'c \<Rightarrow> int \<Rightarrow> string \<Rightarrow> 'v option"
  assumes lookup_view: "fst (lookup c t k) = view c t k"
    and lookup_frame: "view (snd (lookup c t k)) t' k' = Some v \<Longrightarrow> view c t' k' = Some v"
    and store_same: "view (store c t k v) t' k = Some w \<Longrightarrow> w = v"
    and store_frame: "k' \<noteq> k \<Longrightarrow> view (store c t k v) t' k' = Some w \<Longrightarrow> view c t' k' = Some w"
begin

definition faithful :: "(string \<Rightarrow> 'v \<Rightarrow> bool) \<Rightarrow> 'c \<Rightarrow> bool" where
  "faithful ok c \<longleftrightarrow> (\<forall>t k v. view c t k = Some v \<longrightarrow> ok k v)"

lemma faithfulD: "faithful ok c \<Longrightarrow> view c t k = Some v \<Longrightarrow> ok k v"
  by (auto simp: faithful_def)

lemma faithful_answer: "faithful ok c \<Longrightarrow> lookup c t k = (Some v, c') \<Longrightarrow> ok k v"
  using lookup_view [of c t k] faithfulD [of ok c t k v] by simp

lemma faithful_lookup: "faithful ok c \<Longrightarrow> faithful ok (snd (lookup c t k))"
  by (auto simp: faithful_def dest: lookup_frame)

lemma faithful_store:
  assumes "faithful ok c" "ok k v"
  shows "faithful ok (store c t k v)"
  unfolding faithful_def
proof (intro allI impI)
  fix t' k' w
  assume "view (store c t k v) t' k' = Some w"
  with assms show "ok k' w"
    by (cases "k' = k") (auto dest: store_same store_frame faithfulD)
qed

lemma faithful_empty: "(\<And>t k. view c t k = None) \<Longrightarrow> faithful ok c"
  by (simp add: faithful_def)

end

end
