(* ===== verification/LruCache.thy ===== *)
theory LruCache
  imports CacheContract
begin

text \<open>
  The LRU cache with per-entry expiry, \<open>src/internal/cache/lru.go\<close>. Times and durations are
  integers in nanoseconds. Every operation that reads the clock takes the instant as
  an argument, and \<open>evictLRU\<close> takes the order \<open>ks\<close> in which Go's \<open>range\<close> visits the map,
  which the language leaves open: the lemmas hold for every order. The mutex makes each
  operation atomic, so a run is a sequence of operations.
\<close>

record 'v cacheItem =
  item_value :: 'v
  expiresAt :: int
  lastUsed :: int

record cache_stats =
  Hits :: int
  Misses :: int
  Evictions :: int

record 'v LRUCache =
  maxSize :: int
  defaultTTL :: int
  items :: "string \<Rightarrow> 'v cacheItem option"
  hits :: int
  misses :: int
  evictions :: int

definition Minute :: int where "Minute = 60 * 1000000000"

definition isExpired :: "'v cacheItem \<Rightarrow> int \<Rightarrow> bool" where
  "isExpired it now \<longleftrightarrow> expiresAt it < now"

definition NewLRUCache :: "int \<Rightarrow> int \<Rightarrow> 'v LRUCache" where
  "NewLRUCache m ttl =
     \<lparr>maxSize = (if m \<le> 0 then 1000 else m), defaultTTL = (if ttl \<le> 0 then 5 * Minute else ttl),
      items = Map.empty, hits = 0, misses = 0, evictions = 0\<rparr>"

definition cache_len :: "'v LRUCache \<Rightarrow> int" where
  "cache_len c = int (card (dom (items c)))"

definition cache_Get :: "'v LRUCache \<Rightarrow> int \<Rightarrow> string \<Rightarrow> 'v option \<times> 'v LRUCache" where
  "cache_Get c now key =
     (case items c key of
        None \<Rightarrow> (None, c\<lparr>misses := misses c + 1\<rparr>)
      | Some it \<Rightarrow>
          if isExpired it now
          then (None, c\<lparr>items := (items c)(key := None), misses := misses c + 1\<rparr>)
          else (Some (item_value it),
                c\<lparr>items := (items c)(key \<mapsto> it\<lparr>lastUsed := now\<rparr>), hits := hits c + 1\<rparr>))"

text \<open>The variables of the loop of \<open>evictLRU\<close>: \<open>first\<close>, \<open>oldestKey\<close> and \<open>oldestTime\<close>.\<close>

fun evict_scan :: "(string \<Rightarrow> 'v cacheItem option) \<Rightarrow> string list \<Rightarrow> bool \<times> string \<times> int \<Rightarrow> bool \<times> string \<times> int"
where
  "evict_scan its [] st = st"
| "evict_scan its (k # ks) (first, oldestKey, oldestTime) =
     evict_scan its ks
       (case its k of
          None \<Rightarrow> (first, oldestKey, oldestTime)
        | Some it \<Rightarrow> if first \<or> lastUsed it < oldestTime then (False, k, lastUsed it)
                     else (first, oldestKey, oldestTime))"

definition evictLRU :: "string list \<Rightarrow> 'v LRUCache \<Rightarrow> 'v LRUCache" where
  "evictLRU ks c =
     (if cache_len c = 0 then c
      else (case evict_scan (items c) ks (True, [], 0) of
              (_, oldestKey, _) \<Rightarrow>
                if oldestKey \<noteq> []
                then c\<lparr>items := (items c)(oldestKey := None), evictions := evictions c + 1\<rparr>
                else c))"

definition cache_Set :: "string list \<Rightarrow> 'v LRUCache \<Rightarrow> int \<Rightarrow> string \<Rightarrow> 'v \<Rightarrow> int \<Rightarrow> 'v LRUCache" where
  "cache_Set ks c now key value ttl =
     (let ttl' = (if ttl \<le> 0 then defaultTTL c else ttl);
          c' = (if cache_len c \<ge> maxSize c \<and> items c key = None then evictLRU ks c else c)
      in c'\<lparr>items := (items c')(key \<mapsto> \<lparr>item_value = value, expiresAt = now + ttl', lastUsed = now\<rparr>)\<rparr>)"

definition cache_Delete :: "'v LRUCache \<Rightarrow> string \<Rightarrow> 'v LRUCache" where
  "cache_Delete c key = c\<lparr>items := (items c)(key := None)\<rparr>"

definition cache_Clear :: "'v LRUCache \<Rightarrow> 'v LRUCache" where
  "cache_Clear c = c\<lparr>items := Map.empty\<rparr>"

definition cache_Size :: "'v LRUCache \<Rightarrow> int" where
  "cache_Size c = cache_len c"

definition cache_Stats :: "'v LRUCache \<Rightarrow> cache_stats" where
  "cache_Stats c = \<lparr>Hits = hits c, Misses = misses c, Evictions = evictions c\<rparr>"

fun clean_scan :: "int \<Rightarrow> string list \<Rightarrow> (string \<Rightarrow> 'v cacheItem option) \<Rightarrow> int \<Rightarrow> (string \<Rightarrow> 'v cacheItem option) \<times> int"
where
  "clean_scan now [] its count = (its, count)"
| "clean_scan now (k # ks) its count =
     (case its k of
        None \<Rightarrow> clean_scan now ks its count
      | Some it \<Rightarrow> if isExpired it now then clean_scan now ks (its(k := None)) (count + 1)
                   else clean_scan now ks its count)"

definition CleanExpired :: "string list \<Rightarrow> 'v LRUCache \<Rightarrow> int \<Rightarrow> int \<times> 'v LRUCache" where
  "CleanExpired ks c now =
     (case clean_scan now ks (items c) 0 of (its, count) \<Rightarrow> (count, c\<lparr>items := its\<rparr>))"

text \<open>What the cache answers for a key at an instant.\<close>

definition cache_view :: "'v LRUCache \<Rightarrow> int \<Rightarrow> string \<Rightarrow> 'v option" where
  "cache_view c t k =
     (case items c k of None \<Rightarrow> None | Some it \<Rightarrow> if isExpired it t then None else Some (item_value it))"

text \<open>
  The states a client can bring the cache into: \<open>K\<close> holds the keys it uses, and the clock
  never goes back. The two loops over the map visit every key once, in any order.
\<close>

inductive cache_reach :: "string set \<Rightarrow> int \<Rightarrow> int \<Rightarrow> int \<Rightarrow> 'v LRUCache \<Rightarrow> bool"
  for K :: "string set" and m ttl0 :: int where
  new: "cache_reach K m ttl0 t (NewLRUCache m ttl0)"
| tick: "cache_reach K m ttl0 t c \<Longrightarrow> t \<le> t' \<Longrightarrow> cache_reach K m ttl0 t' c"
| get: "cache_reach K m ttl0 t c \<Longrightarrow> k \<in> K \<Longrightarrow> cache_reach K m ttl0 t (snd (cache_Get c t k))"
| set: "cache_reach K m ttl0 t c \<Longrightarrow> k \<in> K \<Longrightarrow> distinct ks \<Longrightarrow> set ks = dom (items c)
        \<Longrightarrow> cache_reach K m ttl0 t (cache_Set ks c t k v ttl)"
| delete: "cache_reach K m ttl0 t c \<Longrightarrow> k \<in> K \<Longrightarrow> cache_reach K m ttl0 t (cache_Delete c k)"
| clear: "cache_reach K m ttl0 t c \<Longrightarrow> cache_reach K m ttl0 t (cache_Clear c)"
| clean: "cache_reach K m ttl0 t c \<Longrightarrow> distinct ks \<Longrightarrow> set ks = dom (items c)
        \<Longrightarrow> cache_reach K m ttl0 t (snd (CleanExpired ks c t))"

subsection \<open>The eviction scan\<close>

lemma evict_scan_started:
  assumes "its b = Some ib" "t = lastUsed ib"
  shows "\<exists>k it. evict_scan its ks (False, b, t) = (False, k, lastUsed it) \<and> its k = Some it
           \<and> k \<in> insert b (set ks) \<and> lastUsed it \<le> t
           \<and> (\<forall>j \<in> set ks. \<forall>ij. its j = Some ij \<longrightarrow> lastUsed it \<le> lastUsed ij)"
  using assms
proof (induction ks arbitrary: b ib t)
  case (Cons j ks)
  have step: "\<exists>b' ib'. its b' = Some ib' \<and> b' \<in> insert b {j} \<and> lastUsed ib' \<le> t
      \<and> (\<forall>ij. its j = Some ij \<longrightarrow> lastUsed ib' \<le> lastUsed ij)
      \<and> evict_scan its (j # ks) (False, b, t) = evict_scan its ks (False, b', lastUsed ib')"
  proof (cases "its j")
    case None
    with Cons.prems show ?thesis by (intro exI [of _ b] exI [of _ ib]) auto
  next
    case (Some ij)
    with Cons.prems show ?thesis
      by (cases "lastUsed ij < t") (rule exI [of _ j], force, rule exI [of _ b], force)
  qed
  then obtain b' ib' where s: "its b' = Some ib'" "b' \<in> insert b {j}" "lastUsed ib' \<le> t"
      "\<forall>ij. its j = Some ij \<longrightarrow> lastUsed ib' \<le> lastUsed ij"
      "evict_scan its (j # ks) (False, b, t) = evict_scan its ks (False, b', lastUsed ib')"
    by blast
  from Cons.IH [OF s(1) refl] obtain k it where
    k: "evict_scan its ks (False, b', lastUsed ib') = (False, k, lastUsed it)" "its k = Some it"
      "k \<in> insert b' (set ks)" "lastUsed it \<le> lastUsed ib'"
      "\<forall>j \<in> set ks. \<forall>ij. its j = Some ij \<longrightarrow> lastUsed it \<le> lastUsed ij"
    by blast
  have "k \<in> insert b (set (j # ks))" using k(3) s(2) by auto
  moreover have "lastUsed it \<le> t" using k(4) s(3) by linarith
  moreover have "lastUsed it \<le> lastUsed ij" if "i \<in> set (j # ks)" "its i = Some ij" for i ij
    using that k(4,5) s(4) by (cases "i = j") fastforce+
  ultimately show ?case using k(1,2) s(5) by auto
qed simp

lemma evict_scan_oldest:
  assumes "set ks = dom its" "its \<noteq> Map.empty"
  shows "\<exists>k it. evict_scan its ks (True, [], 0) = (False, k, lastUsed it) \<and> its k = Some it
           \<and> (\<forall>j ij. its j = Some ij \<longrightarrow> lastUsed it \<le> lastUsed ij)"
proof (cases ks)
  case Nil
  with assms show ?thesis by auto
next
  case (Cons b bs)
  with assms obtain ib where ib: "its b = Some ib" by (metis domD list.set_intros(1))
  from evict_scan_started [where its = its and b = b and ib = ib and ks = bs, OF ib refl]
  obtain k it where
    r: "evict_scan its bs (False, b, lastUsed ib) = (False, k, lastUsed it)" "its k = Some it"
    and le: "lastUsed it \<le> lastUsed ib"
      "\<forall>j \<in> set bs. \<forall>ij. its j = Some ij \<longrightarrow> lastUsed it \<le> lastUsed ij"
    by blast
  have "lastUsed it \<le> lastUsed ij" if "its j = Some ij" for j ij
  proof -
    from that assms Cons have "j \<in> insert b (set bs)" by (metis domI list.simps(15))
    with le that ib show ?thesis by auto
  qed
  with r ib Cons show ?thesis by auto
qed

definition is_oldest :: "'v LRUCache \<Rightarrow> string \<Rightarrow> bool" where
  "is_oldest c k \<longleftrightarrow> (\<exists>it. items c k = Some it \<and> (\<forall>j ij. items c j = Some ij \<longrightarrow> lastUsed it \<le> lastUsed ij))"

lemma evictLRU_cases:
  assumes "set ks = dom (items c)" "finite (dom (items c))" "items c \<noteq> Map.empty"
  shows "\<exists>k. is_oldest c k \<and>
    evictLRU ks c = (if k = [] then c
                     else c\<lparr>items := (items c)(k := None), evictions := evictions c + 1\<rparr>)"
proof -
  from evict_scan_oldest [OF assms(1,3)] obtain k it where
    k: "evict_scan (items c) ks (True, [], 0) = (False, k, lastUsed it)" "items c k = Some it"
      "\<forall>j ij. items c j = Some ij \<longrightarrow> lastUsed it \<le> lastUsed ij" by blast
  moreover have "cache_len c \<noteq> 0"
    using assms by (simp add: cache_len_def card_eq_0_iff)
  ultimately show ?thesis
    by (intro exI [of _ k]) (auto simp: evictLRU_def is_oldest_def)
qed

lemma evictLRU_consts [simp]:
  "maxSize (evictLRU ks c) = maxSize c" "defaultTTL (evictLRU ks c) = defaultTTL c"
  by (auto simp: evictLRU_def split: prod.splits)

lemma evictLRU_items: "items (evictLRU ks c) k = Some it \<Longrightarrow> items c k = Some it"
  by (auto simp: evictLRU_def split: prod.splits if_splits)

lemma evictLRU_dom: "dom (items (evictLRU ks c)) \<subseteq> dom (items c)"
  by (auto dest: evictLRU_items)


subsection \<open>Bounds\<close>

lemma maxSize_consts [simp]:
  "maxSize (snd (cache_Get c t k)) = maxSize c" "maxSize (cache_Set ks c t k v ttl) = maxSize c"
  "maxSize (cache_Delete c k) = maxSize c" "maxSize (cache_Clear c) = maxSize c"
  "maxSize (snd (CleanExpired ks c t)) = maxSize c"
  by (auto simp: cache_Get_def cache_Set_def cache_Delete_def cache_Clear_def CleanExpired_def
      Let_def split: option.splits prod.splits)

lemma defaultTTL_consts [simp]:
  "defaultTTL (snd (cache_Get c t k)) = defaultTTL c"
  "defaultTTL (cache_Set ks c t k v ttl) = defaultTTL c"
  "defaultTTL (cache_Delete c k) = defaultTTL c" "defaultTTL (cache_Clear c) = defaultTTL c"
  "defaultTTL (snd (CleanExpired ks c t)) = defaultTTL c"
  by (auto simp: cache_Get_def cache_Set_def cache_Delete_def cache_Clear_def CleanExpired_def
      Let_def split: option.splits prod.splits)

lemma clean_scan_items:
  "fst (clean_scan now ks its n) k =
     (if k \<in> set ks \<and> (\<exists>it. its k = Some it \<and> isExpired it now) then None else its k)"
proof (induction ks arbitrary: its n)
  case (Cons j ks)
  then show ?case by (cases "its j") auto
qed simp

lemma CleanExpired_items:
  "items (snd (CleanExpired ks c now)) k =
     (if k \<in> set ks \<and> (\<exists>it. items c k = Some it \<and> isExpired it now) then None else items c k)"
  using clean_scan_items [of now ks "items c" 0 k]
  by (auto simp: CleanExpired_def split: prod.splits)

lemma cache_Get_dom: "dom (items (snd (cache_Get c t k))) \<subseteq> dom (items c)"
  by (auto simp: cache_Get_def split: option.splits if_splits)

lemma cache_Set_dom: "dom (items (cache_Set ks c t k v ttl)) \<subseteq> insert k (dom (items c))"
  using evictLRU_dom [of ks c] by (auto simp: cache_Set_def Let_def split: if_splits)

definition lru_inv :: "string set \<Rightarrow> 'v LRUCache \<Rightarrow> bool" where
  "lru_inv K c \<longleftrightarrow> finite (dom (items c)) \<and> dom (items c) \<subseteq> K \<and> 0 < maxSize c \<and> 0 < defaultTTL c"

lemma reach_inv: "cache_reach K m ttl0 t c \<Longrightarrow> lru_inv K c"
proof (induction rule: cache_reach.induct)
  case (new t)
  then show ?case by (simp add: lru_inv_def NewLRUCache_def Minute_def)
next
  case (get t c k)
  then show ?case
    using cache_Get_dom [of c t k] by (auto simp: lru_inv_def intro: finite_subset)
next
  case (set t c k ks v ttl)
  then show ?case
    using cache_Set_dom [of ks c t k v ttl] finite_subset [OF cache_Set_dom [of ks c t k v ttl]]
    by (simp add: lru_inv_def) blast
next
  case (delete t c k)
  then show ?case
    by (auto simp: lru_inv_def cache_Delete_def intro: rev_finite_subset)
next
  case (clear t c)
  then show ?case by (simp add: lru_inv_def cache_Clear_def)
next
  case (clean t c ks)
  then show ?case
    by (auto simp: lru_inv_def CleanExpired_items dom_def intro: rev_finite_subset split: if_splits)
qed

lemma cache_len_mono:
  "finite (dom (items c)) \<Longrightarrow> dom (items c') \<subseteq> dom (items c) \<Longrightarrow> cache_len c' \<le> cache_len c"
  by (simp add: cache_len_def card_mono)

lemma dom_ne_empty: "finite (dom (items c)) \<Longrightarrow> 0 < cache_len c \<Longrightarrow> items c \<noteq> Map.empty"
  by (auto simp: cache_len_def)

lemma cache_Set_len:
  assumes inv: "lru_inv K c" and K: "[] \<notin> K" and ks: "set ks = dom (items c)"
    and le: "cache_len c \<le> maxSize c"
  shows "cache_len (cache_Set ks c t k v ttl) \<le> maxSize c"
proof -
  note fin = inv[unfolded lru_inv_def, THEN conjunct1]
  let ?c = "cache_Set ks c t k v ttl"
  consider (old) "items c k \<noteq> None" | (room) "items c k = None" "cache_len c < maxSize c"
    | (full) "items c k = None" "cache_len c = maxSize c" using le by fastforce
  then show ?thesis
  proof cases
    case old
    then have "dom (items ?c) \<subseteq> dom (items c)"
      by (auto simp: cache_Set_def Let_def split: if_splits)
    with cache_len_mono [OF fin] le show ?thesis by fastforce
  next
    case room
    then have "dom (items ?c) = insert k (dom (items c))" by (simp add: cache_Set_def Let_def)
    with room fin show ?thesis by (simp add: cache_len_def card_insert_if)
  next
    case full
    with inv have "0 < cache_len c" by (simp add: lru_inv_def)
    from evictLRU_cases [OF ks fin dom_ne_empty [OF fin this]] obtain z where
      z: "is_oldest c z" "evictLRU ks c =
        (if z = [] then c else c\<lparr>items := (items c)(z := None), evictions := evictions c + 1\<rparr>)"
      by blast
    then have od: "z \<in> dom (items c)" by (auto simp: is_oldest_def)
    with inv K have "z \<noteq> []" by (auto simp: lru_inv_def)
    with z full have "dom (items ?c) = insert k (dom (items c) - {z})"
      by (simp add: cache_Set_def Let_def)
    moreover have "card (insert k (dom (items c) - {z})) = Suc (card (dom (items c) - {z}))"
      using full fin by (simp add: domIff)
    ultimately show ?thesis using card_Suc_Diff1 [OF fin od] full by (simp add: cache_len_def)
  qed
qed

lemma reach_bounded:
  assumes "cache_reach K m ttl0 t c" "[] \<notin> K"
  shows "cache_len c \<le> maxSize c"
  using assms
proof (induction rule: cache_reach.induct)
  case (new t)
  then show ?case by (simp add: cache_len_def NewLRUCache_def)
next
  case (get t c k)
  note cache_len_mono [OF _ cache_Get_dom, of c t k] reach_inv [OF get.hyps(1)]
  with get show ?case by (simp add: lru_inv_def)
next
  case (set t c k ks v ttl)
  with cache_Set_len [OF reach_inv [OF set.hyps(1)], of ks] show ?case by simp
next
  case (delete t c k)
  note cache_len_mono [of c "cache_Delete c k"] reach_inv [OF delete.hyps(1)]
  with delete show ?case by (force simp: lru_inv_def cache_Delete_def)
next
  case (clear t c)
  with reach_inv [OF clear.hyps(1)] show ?case
    by (simp add: lru_inv_def cache_Clear_def cache_len_def)
next
  case (clean t c ks)
  note cache_len_mono [of c "snd (CleanExpired ks c t)"] reach_inv [OF clean.hyps(1)]
  with clean show ?case
    by (force simp: lru_inv_def CleanExpired_items dom_def split: if_splits)
qed simp

lemma reach_maxSize:
  "cache_reach K m ttl0 t c \<Longrightarrow> maxSize c = (if m \<le> 0 then 1000 else m)"
  by (induction rule: cache_reach.induct) (auto simp: NewLRUCache_def)


subsection \<open>The cache contract\<close>

lemma cache_Get_view: "fst (cache_Get c t k) = cache_view c t k"
  by (simp add: cache_Get_def cache_view_def split: option.split)

lemma cache_Get_frame:
  "cache_view (snd (cache_Get c t k)) t' k' = Some v \<Longrightarrow> cache_view c t' k' = Some v"
  by (cases "k' = k")
    (auto simp: cache_Get_def cache_view_def isExpired_def split: option.splits if_splits)

lemma cache_Set_view:
  "cache_view (cache_Set ks c t k v ttl) t' k =
     (if t + (if ttl \<le> 0 then defaultTTL c else ttl) < t' then None else Some v)"
  by (simp add: cache_Set_def cache_view_def isExpired_def Let_def)

lemma cache_Set_frame:
  "k' \<noteq> k \<Longrightarrow> cache_view (cache_Set ks c t k v ttl) t' k' = Some w \<Longrightarrow> cache_view c t' k' = Some w"
  by (auto simp: cache_Set_def cache_view_def Let_def split: option.splits if_splits
      dest: evictLRU_items)

text \<open>
  The LRU cache provides the contract for every time to live \<open>ttl\<close> and every visiting order
  \<open>order\<close> of the eviction scan.
\<close>

interpretation lru: ttl_cache cache_Get "\<lambda>c t k v. cache_Set (order c) c t k v ttl" cache_view
  for order :: "'v LRUCache \<Rightarrow> string list" and ttl :: int
proof unfold_locales
  show "fst (cache_Get c t k) = cache_view c t k" for c :: "'v LRUCache" and t k
    by (rule cache_Get_view)
  show "cache_view c t' k' = Some v" if "cache_view (snd (cache_Get c t k)) t' k' = Some v"
    for c :: "'v LRUCache" and t k t' k' v
    using that by (rule cache_Get_frame)
  show "w = v" if "cache_view (cache_Set (order c) c t k v ttl) t' k = Some w"
    for c :: "'v LRUCache" and t k v t' w
    using that by (simp add: cache_Set_view split: if_splits)
  show "cache_view c t' k' = Some w"
    if "k' \<noteq> k" "cache_view (cache_Set (order c) c t k v ttl) t' k' = Some w"
    for c :: "'v LRUCache" and t k v t' k' w
    using that by (rule cache_Set_frame)
qed

subsection \<open>Properties\<close>

text \<open>
  The cache never holds more than its configured maximum of entries (1000 when the
  configured maximum is not positive), whatever the operations, times to live and orders of
  iteration, provided the client never uses the empty key.
\<close>
theorem LRUCache_bounded:
  assumes "cache_reach K m ttl0 t c" "[] \<notin> K"
  shows "cache_Size c \<le> (if m \<le> 0 then 1000 else m)"
  using reach_bounded [OF assms] reach_maxSize [OF assms(1)] by (simp add: cache_Size_def)

theorem LRUCache_bounded_witness:
  "cache_Size (cache_Set [''a''] (cache_Set [] (NewLRUCache 1 0) 0 ''a'' True 0) 1 ''b'' False 0) \<le> 1"
proof -
  let ?c = "cache_Set [] (NewLRUCache 1 0) 0 ''a'' True 0 :: bool LRUCache"
  have "cache_reach {''a'', ''b''} 1 0 0 ?c"
    by (rule cache_reach.set [OF cache_reach.new]) (auto simp: NewLRUCache_def)
  then have "cache_reach {''a'', ''b''} 1 0 1 ?c" by (rule cache_reach.tick) simp
  then have "cache_reach {''a'', ''b''} 1 0 1 (cache_Set [''a''] ?c 1 ''b'' False 0)"
    by (rule cache_reach.set)
      (auto simp: NewLRUCache_def cache_Set_def cache_len_def Let_def split: if_splits)
  from LRUCache_bounded [OF this] show ?thesis by simp
qed

text \<open>
  Storing a new key in a full cache evicts exactly one entry, one whose last use is the
  oldest; every other entry stays as it was and the eviction is counted. An existing key is
  replaced in place and a cache with room evicts nothing.
\<close>
theorem cache_Set_evicts_oldest:
  assumes "lru_inv K c" "[] \<notin> K" "set ks = dom (items c)"
  shows "if items c k = None \<and> cache_len c \<ge> maxSize c
         then (\<exists>z. is_oldest c z
                 \<and> dom (items (cache_Set ks c t k v ttl)) = insert k (dom (items c) - {z})
                 \<and> (\<forall>j. j \<noteq> k \<longrightarrow> j \<noteq> z \<longrightarrow> items (cache_Set ks c t k v ttl) j = items c j)
                 \<and> evictions (cache_Set ks c t k v ttl) = evictions c + 1)
         else dom (items (cache_Set ks c t k v ttl)) = insert k (dom (items c))
              \<and> (\<forall>j. j \<noteq> k \<longrightarrow> items (cache_Set ks c t k v ttl) j = items c j)
              \<and> evictions (cache_Set ks c t k v ttl) = evictions c"
proof (cases "items c k = None \<and> cache_len c \<ge> maxSize c")
  case True
  have fin: "finite (dom (items c))" and "0 < cache_len c" using assms True by (auto simp: lru_inv_def)
  from evictLRU_cases [OF assms(3) fin dom_ne_empty [OF this]] obtain z where
    z: "is_oldest c z" "evictLRU ks c =
      (if z = [] then c else c\<lparr>items := (items c)(z := None), evictions := evictions c + 1\<rparr>)"
    by blast
  then have "z \<noteq> []" using assms by (auto simp: is_oldest_def lru_inv_def)
  with z True have "is_oldest c z
      \<and> dom (items (cache_Set ks c t k v ttl)) = insert k (dom (items c) - {z})
      \<and> (\<forall>j. j \<noteq> k \<longrightarrow> j \<noteq> z \<longrightarrow> items (cache_Set ks c t k v ttl) j = items c j)
      \<and> evictions (cache_Set ks c t k v ttl) = evictions c + 1"
    by (simp add: cache_Set_def Let_def)
  then have "\<exists>z. is_oldest c z
      \<and> dom (items (cache_Set ks c t k v ttl)) = insert k (dom (items c) - {z})
      \<and> (\<forall>j. j \<noteq> k \<longrightarrow> j \<noteq> z \<longrightarrow> items (cache_Set ks c t k v ttl) j = items c j)
      \<and> evictions (cache_Set ks c t k v ttl) = evictions c + 1" by (rule exI)
  with True show ?thesis by simp
next
  case False
  then show ?thesis by (auto simp: cache_Set_def Let_def)
qed

definition demo_full :: "bool LRUCache" where
  "demo_full = \<lparr>maxSize = 2, defaultTTL = 10,
     items = [''a'' \<mapsto> \<lparr>item_value = True, expiresAt = 11, lastUsed = 1\<rparr>,
              ''b'' \<mapsto> \<lparr>item_value = False, expiresAt = 12, lastUsed = 2\<rparr>],
     hits = 0, misses = 0, evictions = 0\<rparr>"

theorem cache_Set_evicts_oldest_witness:
  "evictions (cache_Set [''b'', ''a''] demo_full 3 ''c'' True 0) = 1
   \<and> items (cache_Set [''b'', ''a''] demo_full 3 ''c'' True 0) ''a'' = None"
proof -
  have "lru_inv {''a'', ''b''} demo_full" by (simp add: lru_inv_def demo_full_def)
  moreover have ks: "set [''b'', ''a''] = dom (items demo_full)" by (auto simp: demo_full_def)
  moreover have "items demo_full ''c'' = None \<and> cache_len demo_full \<ge> maxSize demo_full"
    by (simp add: demo_full_def cache_len_def)
  ultimately obtain z where "is_oldest demo_full z"
      "dom (items (cache_Set [''b'', ''a''] demo_full 3 ''c'' True 0)) = insert ''c'' (dom (items demo_full) - {z})"
      "evictions (cache_Set [''b'', ''a''] demo_full 3 ''c'' True 0) = evictions demo_full + 1"
    using cache_Set_evicts_oldest [of "{''a'', ''b''}" demo_full "[''b'', ''a'']" "''c''" 3 True 0] by auto
  moreover from this(1) have "z = ''a''" by (auto simp: is_oldest_def demo_full_def split: if_splits)
  ultimately have "''a'' \<notin> dom (items (cache_Set [''b'', ''a''] demo_full 3 ''c'' True 0))"
      "evictions (cache_Set [''b'', ''a''] demo_full 3 ''c'' True 0) = evictions demo_full + 1"
    by simp_all
  then show ?thesis by (simp add: domIff) (simp add: demo_full_def)
qed

text \<open>
  A stored value is returned until its time to live has passed and never after it, and
  looking a key up never makes the cache answer anything it would not have answered before.
\<close>
theorem cache_Get_after_Set:
  "fst (cache_Get (cache_Set ks c t k v ttl) t' k) =
     (if t' \<le> t + (if ttl \<le> 0 then defaultTTL c else ttl) then Some v else None)
   \<and> cache_view (snd (cache_Get c t k)) t' k' \<in> {None, cache_view c t' k'}"
  using cache_Get_frame [of c t k t' k']
  by (cases "cache_view (snd (cache_Get c t k)) t' k'") (auto simp: cache_Get_view cache_Set_view)

text \<open>
  The empty key is the one key \<open>evictLRU\<close> cannot remove: it tests \<open>oldestKey\<close> against the
  empty string to see whether the loop found a key. Once the empty key is the least recently
  used entry, no eviction happens any more and the cache grows without bound. A configured
  cache key template that renders to nothing produces the empty key.
\<close>

definition stuck :: "int \<Rightarrow> nat \<Rightarrow> 'v LRUCache \<Rightarrow> bool" where
  "stuck t n c \<longleftrightarrow> (\<exists>i0. items c [] = Some i0 \<and> (\<forall>j ij. items c j = Some ij \<longrightarrow> j \<noteq> [] \<longrightarrow> lastUsed i0 < lastUsed ij))
     \<and> dom (items c) = (\<lambda>i. replicate i (CHR ''k'')) ` {..n} \<and> maxSize c = 1"

lemma stuck_oldest: "stuck t n c \<Longrightarrow> is_oldest c z \<Longrightarrow> z = []"
  unfolding stuck_def is_oldest_def by (metis leD)

lemma stuck_Set:
  assumes "cache_reach UNIV 1 ttl0 t c" "stuck t n c" "\<forall>k ik. items c k = Some ik \<longrightarrow> lastUsed ik \<le> t"
  shows "\<exists>ks. distinct ks \<and> set ks = dom (items c)
           \<and> stuck (t + 1) (Suc n) (cache_Set ks c (t + 1) (replicate (Suc n) (CHR ''k'')) v 0)
           \<and> (\<forall>k ik. items (cache_Set ks c (t + 1) (replicate (Suc n) (CHR ''k'')) v 0) k = Some ik
                \<longrightarrow> lastUsed ik \<le> t + 1)"
proof -
  let ?k = "replicate (Suc n) (CHR ''k'')"
  have d: "dom (items c) = (\<lambda>i. replicate i (CHR ''k'')) ` {..n}" and m: "maxSize c = 1"
    using assms(2) unfolding stuck_def by blast+
  have fin: "finite (dom (items c))" unfolding d by (rule finite_imageI) simp
  from finite_distinct_list [OF fin] obtain ks where ks: "set ks = dom (items c)" "distinct ks" by blast
  obtain i0 where i0: "items c [] = Some i0"
      "\<And>j ij. items c j = Some ij \<Longrightarrow> j \<noteq> [] \<Longrightarrow> lastUsed i0 < lastUsed ij"
    using assms(2) unfolding stuck_def by blast
  then have ne: "items c \<noteq> Map.empty" by auto
  from evictLRU_cases [OF ks(1) fin ne] obtain z where z: "is_oldest c z" "evictLRU ks c =
      (if z = [] then c else c\<lparr>items := (items c)(z := None), evictions := evictions c + 1\<rparr>)"
    by blast
  from stuck_oldest [OF assms(2) z(1)] z(2) have ev: "evictLRU ks c = c" by simp
  then have set_eq: "items (cache_Set ks c (t + 1) ?k v 0) =
      (items c)(?k \<mapsto> \<lparr>item_value = v, expiresAt = t + 1 + defaultTTL c, lastUsed = t + 1\<rparr>)"
    using ev by (simp add: cache_Set_def Let_def)
  have "lastUsed i0 \<le> t" using assms(3) i0(1) by blast
  then have "stuck (t + 1) (Suc n) (cache_Set ks c (t + 1) ?k v 0)"
    using i0 d m unfolding stuck_def set_eq by (auto simp: atMost_Suc)
  moreover have "\<forall>k ik. items (cache_Set ks c (t + 1) ?k v 0) k = Some ik \<longrightarrow> lastUsed ik \<le> t + 1"
    using assms(3) unfolding set_eq by (force split: if_splits)
  ultimately show ?thesis using ks by blast
qed

lemma stuck_reach:
  "\<exists>c :: bool LRUCache. cache_reach UNIV 1 ttl0 (int n) c \<and> stuck (int n) n c
     \<and> (\<forall>k ik. items c k = Some ik \<longrightarrow> lastUsed ik \<le> int n)"
proof (induction n)
  case 0
  let ?c = "cache_Set [] (NewLRUCache 1 ttl0) 0 [] True 0 :: bool LRUCache"
  have "cache_reach UNIV 1 ttl0 0 ?c"
    by (rule cache_reach.set [OF cache_reach.new]) (auto simp: NewLRUCache_def)
  moreover have "items ?c = [[] \<mapsto> \<lparr>item_value = True, expiresAt = defaultTTL ?c, lastUsed = 0\<rparr>]" "maxSize ?c = 1"
    by (auto simp: NewLRUCache_def cache_Set_def Let_def cache_len_def)
  ultimately show ?case by (intro exI [of _ ?c]) (simp add: stuck_def)
next
  case (Suc n)
  then obtain c :: "bool LRUCache" where c: "cache_reach UNIV 1 ttl0 (int n) c" "stuck (int n) n c"
      "\<forall>k ik. items c k = Some ik \<longrightarrow> lastUsed ik \<le> int n" by blast
  from stuck_Set [OF this, of True] obtain ks where
    ks: "distinct ks" "set ks = dom (items c)"
      "stuck (int n + 1) (Suc n) (cache_Set ks c (int n + 1) (replicate (Suc n) (CHR ''k'')) True 0)"
      "\<forall>k ik. items (cache_Set ks c (int n + 1) (replicate (Suc n) (CHR ''k'')) True 0) k = Some ik
                \<longrightarrow> lastUsed ik \<le> int n + 1"
    by blast
  have "cache_reach UNIV 1 ttl0 (int n + 1) (cache_Set ks c (int n + 1) (replicate (Suc n) (CHR ''k'')) True 0)"
    by (rule cache_reach.set [OF cache_reach.tick [OF c(1)] _ ks(1,2)]) auto
  with ks(3,4) show ?case by (metis of_nat_Suc add.commute)
qed

theorem empty_key_blocks_eviction:
  "\<exists>c :: bool LRUCache. cache_reach UNIV 1 ttl0 (int n) c \<and> cache_Size c = int n + 1"
proof -
  from stuck_reach [of ttl0 n] obtain c :: "bool LRUCache" where
    c: "cache_reach UNIV 1 ttl0 (int n) c" "stuck (int n) n c" by blast
  have "inj_on (\<lambda>i. replicate i (CHR ''k'')) {..n}" by (auto simp: inj_on_def dest: arg_cong [where f = length])
  with c(2) have "cache_Size c = int n + 1"
    by (simp add: stuck_def cache_Size_def cache_len_def card_image)
  with c(1) show ?thesis by blast
qed

end
