(* ===== verification/CallMerge.thy ===== *)
theory CallMerge
  imports Markers
begin

text \<open>
  The merge contract the call filters share, \<open>src/internal/modules/filter/call_merge.go\<close>:
  how a response is folded into a record under \<open>merge\<close>, \<open>replace\<close> and \<open>append\<close>. Records
  and responses are values here, so the copies \<open>cloneCallMap\<close> and \<open>cloneCallList\<close> make are
  equal to their argument (\<open>cloneCallData_id\<close>). The text \<open>%T\<close> gives for the type of a value
  is a parameter.
\<close>

abbreviation mergeStrategyMerge :: string where "mergeStrategyMerge \<equiv> ''merge''"
abbreviation mergeStrategyReplace :: string where "mergeStrategyReplace \<equiv> ''replace''"
abbreviation mergeStrategyAppend :: string where "mergeStrategyAppend \<equiv> ''append''"

definition defaultCallMergeStrategy :: string where
  "defaultCallMergeStrategy = mergeStrategyMerge"

datatype contract_error =
    InvalidMergeStrategy string string
  | ResultKeyRequired string
  | ResultKeyReserved string target_error

definition normalizeCallMergeStrategy :: "string \<Rightarrow> string \<Rightarrow> contract_error + string" where
  "normalizeCallMergeStrategy moduleType strategy =
     (if strategy = [] then Inr defaultCallMergeStrategy
      else if strategy = mergeStrategyMerge \<or> strategy = mergeStrategyReplace \<or> strategy = mergeStrategyAppend
      then Inr strategy
      else Inl (InvalidMergeStrategy moduleType strategy))"

definition resolveCallMergeContract ::
  "string \<Rightarrow> string \<Rightarrow> string \<Rightarrow> contract_error + (string \<times> string)" where
  "resolveCallMergeContract moduleType strategy resultKey =
     (case normalizeCallMergeStrategy moduleType strategy of
        Inl err \<Rightarrow> Inl err
      | Inr normalized \<Rightarrow>
          (let key = trim_space resultKey
           in if normalized = mergeStrategyAppend \<and> key = [] then Inl (ResultKeyRequired moduleType)
              else (case ValidateRecordTarget key of
                      Some e \<Rightarrow> Inl (ResultKeyReserved moduleType e)
                    | None \<Rightarrow> Inr (normalized, key))))"

definition ErrCallResultType :: gerr where
  "ErrCallResultType = NodeE KPlain ''call result is neither an object nor a list'' None None None [] False"

definition ErrCallMergeStrategyMismatch :: gerr where
  "ErrCallMergeStrategyMismatch =
     NodeE KPlain ''call result does not fit the configured mergeStrategy'' None None None [] False"

definition em_dash :: string where "em_dash = bytes [226, 128, 148]"

definition callContractError :: "string \<Rightarrow> gerr \<Rightarrow> gerr" where
  "callContractError msg sentinel =
     ClassifiedE (NewValidationError 0 (err_text (errorf msg sentinel)) (Some (errorf msg sentinel)))"

primrec cloneCallData :: "gval \<Rightarrow> gval" where
  "cloneCallData GNil = GNil"
| "cloneCallData (GBool b) = GBool b"
| "cloneCallData (GInt i) = GInt i"
| "cloneCallData (GFloat f) = GFloat f"
| "cloneCallData (GStr s) = GStr s"
| "cloneCallData (GArr xs) = GArr (map cloneCallData xs)"
| "cloneCallData (GMap m) = GMap (\<lambda>k. map_option cloneCallData (m k))"
| "cloneCallData (GOther t s) = GOther t s"

definition cloneCallMap :: "grecord \<Rightarrow> grecord" where
  "cloneCallMap data = (\<lambda>k. map_option cloneCallData (data k))"

definition cloneCallList :: "gval list \<Rightarrow> gval list" where
  "cloneCallList items = map cloneCallData items"

text \<open>
  The value of one key of \<open>deepMerge\<close>: \<open>deep_value vb va\<close> is what the loop stores when the
  key holds \<open>va\<close> in the first map and \<open>vb\<close> in the second.
\<close>

primrec deep_value :: "gval \<Rightarrow> gval \<Rightarrow> gval" where
  "deep_value GNil va = GNil"
| "deep_value (GBool b) va = GBool b"
| "deep_value (GInt i) va = GInt i"
| "deep_value (GFloat f) va = GFloat f"
| "deep_value (GStr s) va = GStr s"
| "deep_value (GArr xs) va = GArr xs"
| "deep_value (GMap mb) va =
     (case as_map va of
        None \<Rightarrow> GMap mb
      | Some ma \<Rightarrow>
          GMap (\<lambda>k. case map_option deep_value (mb k) of
                      None \<Rightarrow> ma k
                    | Some f \<Rightarrow> (case ma k of None \<Rightarrow> mb k | Some va' \<Rightarrow> Some (f va'))))"
| "deep_value (GOther t s) va = GOther t s"

definition deepMerge :: "grecord \<Rightarrow> grecord \<Rightarrow> grecord" where
  "deepMerge a b =
     (\<lambda>k. case b k of
            None \<Rightarrow> a k
          | Some vb \<Rightarrow> (case a k of None \<Rightarrow> Some vb | Some va \<Rightarrow> Some (deep_value vb va)))"

definition appendUnder :: "string \<Rightarrow> grecord \<Rightarrow> gval \<Rightarrow> grecord" where
  "appendUnder resultKey record data = record(resultKey \<mapsto> data)"

definition mergeCallMap :: "string \<Rightarrow> string \<Rightarrow> grecord \<Rightarrow> grecord \<Rightarrow> grecord" where
  "mergeCallMap strategy resultKey record data =
     (let data = cloneCallMap data
      in if strategy = mergeStrategyReplace then record ++ data
         else if strategy = mergeStrategyAppend then appendUnder resultKey record (GMap data)
         else deepMerge record data)"

definition appendCallList ::
  "string \<Rightarrow> string \<Rightarrow> string \<Rightarrow> grecord \<Rightarrow> gval list \<Rightarrow> gerr + grecord" where
  "appendCallList moduleType strategy resultKey record items =
     (if strategy \<noteq> mergeStrategyAppend then
        (if length items = 0 then Inr record
         else Inl (callContractError
           (moduleType @ '': call result does not fit the configured mergeStrategy: the response holds a list of ''
            @ itoa (int (length items)) @ '' item(s), which mergeStrategy \"'' @ strategy
            @ ''\" cannot fold into the record '' @ em_dash @ '' use mergeStrategy: append with a resultKey, then iterate with the loop filter'')
           ErrCallMergeStrategyMismatch))
      else Inr (appendUnder resultKey record (GArr (cloneCallList items))))"

definition mergeCallResult ::
  "(gval \<Rightarrow> string) \<Rightarrow> string \<Rightarrow> string \<Rightarrow> string \<Rightarrow> grecord \<Rightarrow> gval \<Rightarrow> gerr + grecord" where
  "mergeCallResult fmt_T moduleType strategy resultKey record data =
     (case data of
        GNil \<Rightarrow> Inl (callContractError
          (moduleType @ '': call result is neither an object nor a list: the response holds null, which cannot enrich a record '' @ em_dash @ '' check dataField'')
          ErrCallResultType)
      | GMap value \<Rightarrow> Inr (mergeCallMap strategy resultKey record value)
      | GArr value \<Rightarrow> appendCallList moduleType strategy resultKey record value
      | _ \<Rightarrow> Inl (callContractError
          (moduleType @ '': call result is neither an object nor a list: the response holds '' @ fmt_T data @ '' '' @ em_dash @ '' check dataField'')
          ErrCallResultType))"

subsection \<open>Facts\<close>

lemma cloneCallData_id [simp]: "cloneCallData v = v"
proof (induction v)
  case (GArr xs)
  then show ?case by (simp add: map_idI)
next
  case (GMap m)
  have "map_option cloneCallData (m k) = m k" for k
    using GMap.IH [of "m k"] by (cases "m k") (auto simp: image_iff, metis)
  then show ?case by simp
qed simp_all

lemma cloneCallMap_id [simp]: "cloneCallMap m = m"
  by (simp add: cloneCallMap_def fun_eq_iff option.map_ident_strong)

lemma cloneCallList_id [simp]: "cloneCallList xs = xs"
  by (simp add: cloneCallList_def map_idI)

lemma deep_value_cases:
  "deep_value vb va = (case (vb, va) of (GMap mb, GMap ma) \<Rightarrow> GMap (deepMerge ma mb) | _ \<Rightarrow> vb)"
  by (cases vb; cases va) (auto simp: deepMerge_def fun_eq_iff as_map_def split: option.split)

lemma deepMerge_apply:
  "deepMerge a b k =
     (case b k of None \<Rightarrow> a k
      | Some vb \<Rightarrow> Some (case (vb, a k) of (GMap mb, Some (GMap ma)) \<Rightarrow> GMap (deepMerge ma mb) | _ \<Rightarrow> vb))"
  by (auto simp: deepMerge_def deep_value_cases split: option.split gval.split)

lemma deepMerge_outside: "b k = None \<Longrightarrow> deepMerge a b k = a k"
  by (simp add: deepMerge_def)

lemma deepMerge_empty [simp]: "deepMerge a Map.empty = a" "deepMerge Map.empty b = b"
  by (simp_all add: deepMerge_def fun_eq_iff split: option.split)

lemma dom_deepMerge [simp]: "dom (deepMerge a b) = dom a \<union> dom b"
  by (auto simp: deepMerge_def split: option.splits)

lemma deep_value_idem: "deep_value vb (deep_value vb va) = deep_value vb va \<and> deep_value vb vb = vb"
proof (induction vb arbitrary: va)
  case (GMap mb)
  have idem: "deep_value v (deep_value v w) = deep_value v w" "deep_value v v = v" if "mb k = Some v" for k v w
    using GMap.IH [of "Some v" v] rangeI [of mb k] that by simp_all
  then show ?case
    by (cases va) (auto simp: fun_eq_iff as_map_def split: option.split)
qed simp_all


lemma deepMerge_idem: "deepMerge (deepMerge a b) b = deepMerge a b"
  by (auto simp: deepMerge_def fun_eq_iff deep_value_idem split: option.split)

lemma resolved_contract:
  assumes "resolveCallMergeContract moduleType strategy resultKey = Inr (st, key)"
  shows "st \<in> {mergeStrategyMerge, mergeStrategyReplace, mergeStrategyAppend}"
    and "st = mergeStrategyAppend \<Longrightarrow> key \<noteq> []" and "\<not> IsReservedRecordPath key"
  using assms
  by (auto simp: resolveCallMergeContract_def normalizeCallMergeStrategy_def
      defaultCallMergeStrategy_def ValidateRecordTarget_def Let_def split: if_splits)

lemma mergeCallMap_apply:
  "mergeCallMap strategy resultKey record data =
     (if strategy = mergeStrategyReplace then record ++ data
      else if strategy = mergeStrategyAppend then record(resultKey \<mapsto> GMap data)
      else deepMerge record data)"
  by (simp add: mergeCallMap_def appendUnder_def)

lemma contract_error_verdict:
  "ClassifyError env (Some (callContractError msg s)) =
     NewValidationError 0 msg (Some (errorf msg s))"
  by (simp add: callContractError_def ClassifyError_def explicitClassification_def as_classified_def
      NewValidationError_def err_text_def errorf_def)

lemma contract_error_cause: "s \<in> set (err_chain (callContractError msg s))"
  by (cases s rule: err_chain.cases) (simp_all add: callContractError_def NewValidationError_def errorf_def)

subsection \<open>Properties\<close>

text \<open>
  Which responses enrich a record. Under a resolved contract an object always merges; a
  list merges when the strategy is append or the list is empty, and an empty list leaves the
  record alone outside append; null and scalars never do. Every refusal is a non-retryable
  validation error from whose chain the sentinel for the cause can be recovered.
\<close>
theorem mergeCallResult_contract:
  assumes "resolveCallMergeContract moduleType strategy resultKey = Inr (st, key)"
  shows "case mergeCallResult fmt_T moduleType st key record data of
      Inr r \<Rightarrow>
        (case data of
           GMap m \<Rightarrow> r = mergeCallMap st key record m
         | GArr xs \<Rightarrow> (if st = mergeStrategyAppend then r = record(key \<mapsto> GArr xs)
                       else xs = [] \<and> r = record)
         | _ \<Rightarrow> False)
    | Inl e \<Rightarrow>
        Category (ClassifyError env (Some e)) = CategoryValidation \<and> \<not> Retryable (ClassifyError env (Some e))
        \<and> (case data of
             GMap m \<Rightarrow> False
           | GArr xs \<Rightarrow> xs \<noteq> [] \<and> st \<noteq> mergeStrategyAppend \<and> ErrCallMergeStrategyMismatch \<in> set (err_chain e)
           | _ \<Rightarrow> ErrCallResultType \<in> set (err_chain e))"
  using resolved_contract [OF assms]
  by (cases data)
    (auto simp: mergeCallResult_def appendCallList_def appendUnder_def contract_error_verdict
      contract_error_cause NewValidationError_def)

theorem mergeCallResult_contract_witness:
  "mergeCallResult (\<lambda>_. []) ''http_call'' ''append'' ''res'' Map.empty (GArr [GInt 1]) =
     Inr [''res'' \<mapsto> GArr [GInt 1]]"
proof -
  have "resolveCallMergeContract ''http_call'' ''append'' ''res'' = Inr (''append'', ''res'')"
    by code_simp
  from mergeCallResult_contract [OF this, of demo_env "GArr [GInt 1]" Map.empty "\<lambda>_. []"] show ?thesis
    by (auto split: sum.splits)
qed

text \<open>
  An enrichment keeps what the response does not mention: under every strategy a field of
  the record whose key is neither in the response nor the result key keeps its value, the
  keys of the result are those of the record, of the response (merge, replace) and the result
  key (append), and merging the same response again changes nothing.
\<close>
theorem mergeCallMap_frame:
  assumes "st \<in> {mergeStrategyMerge, mergeStrategyReplace, mergeStrategyAppend}"
  shows "dom (mergeCallMap st key record data) =
           dom record \<union> (if st = mergeStrategyAppend then {key} else dom data)
    \<and> (\<forall>k \<in> dom record - (if st = mergeStrategyAppend then {key} else dom data).
         mergeCallMap st key record data k = record k)
    \<and> mergeCallMap st key (mergeCallMap st key record data) data = mergeCallMap st key record data"
  using assms
  by (auto simp: mergeCallMap_apply deepMerge_outside deepMerge_idem map_add_def domIff split: option.splits)

theorem mergeCallMap_frame_witness:
  "mergeCallMap ''merge'' [] [''a'' \<mapsto> GInt 1] [''b'' \<mapsto> GInt 2] ''a'' = Some (GInt 1)
   \<and> dom (mergeCallMap ''merge'' [] [''a'' \<mapsto> GInt 1] [''b'' \<mapsto> GInt 2]) = {''a'', ''b''}"
  using mergeCallMap_frame [of "''merge''" "[]" "[''a'' \<mapsto> GInt 1]" "[''b'' \<mapsto> GInt 2]"]
  by auto

text \<open>
  The reserved error list is protected from the result key, not from the response: an API
  whose answer has a top-level \<open>_errors\<close> field replaces the markers of the record under merge
  and replace.
\<close>
theorem response_overwrites_markers:
  assumes "st \<in> {mergeStrategyMerge, mergeStrategyReplace}"
  shows "RecordMarkers (Some (mergeCallMap st key (AnnotateRecord record marker) [RecordErrorsField \<mapsto> GArr []])) = None"
  using assms
  by (auto simp: mergeCallMap_apply RecordMarkers_def AnnotateRecord_def deepMerge_apply Let_def)

end
