(* ===== verification/UrlQuery.thy ===== *)
theory UrlQuery
  imports Errors "HOL-Library.List_Lexorder" "HOL-Library.Char_ord"
begin

text \<open>
  Query strings: \<open>src/internal/httpclient/url.go\<close>, with the routines of \<open>net/url\<close> it uses
  (\<open>QueryEscape\<close>, \<open>QueryUnescape\<close>, \<open>PathEscape\<close>) written out. Parsing and printing a whole URL
  is a parameter: \<open>parse_full\<close> splits a URL into its raw query and the function that prints the
  URL with another raw query. A Go map of parameters is an association list with distinct
  keys; \<open>slices.Sorted\<close> orders keys by their bytes, the order of \<open>List_Lexorder\<close>.
\<close>

definition hex_digit :: "nat \<Rightarrow> char" where
  "hex_digit d = (if d < 10 then char_of (48 + d) else char_of (55 + d))"

definition hex_value :: "char \<Rightarrow> nat option" where
  "hex_value c =
     (let n = (of_char c :: nat)
      in if 48 \<le> n \<and> n \<le> 57 then Some (n - 48)
         else if 65 \<le> n \<and> n \<le> 70 then Some (n - 55)
         else if 97 \<le> n \<and> n \<le> 102 then Some (n - 87)
         else None)"

definition unreserved :: "char \<Rightarrow> bool" where
  "unreserved c \<longleftrightarrow>
     (let n = (of_char c :: nat)
      in (48 \<le> n \<and> n \<le> 57) \<or> (65 \<le> n \<and> n \<le> 90) \<or> (97 \<le> n \<and> n \<le> 122)
         \<or> c \<in> {CHR ''-'', CHR ''_'', CHR ''.'', CHR ''~''})"

definition percent :: "char \<Rightarrow> string" where
  "percent c = [CHR ''%'', hex_digit (of_char c div 16), hex_digit (of_char c mod 16)]"

definition QueryEscape :: "string \<Rightarrow> string" where
  "QueryEscape s = concat (map (\<lambda>c. if unreserved c then [c] else if c = CHR '' '' then ''+'' else percent c) s)"

definition PathEscape :: "string \<Rightarrow> string" where
  "PathEscape s = concat (map (\<lambda>c.
     if unreserved c \<or> c \<in> {CHR ''$'', CHR ''&'', CHR ''+'', CHR ''='', CHR '':'', CHR ''@''} then [c] else percent c) s)"

fun QueryUnescape :: "string \<Rightarrow> string option" where
  "QueryUnescape [] = Some []"
| "QueryUnescape (c # s) =
     (if c = CHR ''%'' then
        (case s of
           a # b # t \<Rightarrow>
             (case (hex_value a, hex_value b) of
                (Some x, Some y) \<Rightarrow> map_option (Cons (char_of (16 * x + y))) (QueryUnescape t)
              | _ \<Rightarrow> None)
         | _ \<Rightarrow> None)
      else map_option (Cons (if c = CHR ''+'' then CHR '' '' else c)) (QueryUnescape s))"

text \<open>The replacer \<open>queryComponentEscaper\<close>: leftmost match first, the text is scanned once.\<close>

fun queryComponentEscaper :: "string \<Rightarrow> string" where
  "queryComponentEscaper [] = []"
| "queryComponentEscaper (c # s) =
     (if c = CHR ''+'' then ''%20'' @ queryComponentEscaper s
      else if c = CHR ''%'' \<and> take 2 s = ''24'' then CHR ''$'' # queryComponentEscaper (drop 2 s)
      else c # queryComponentEscaper s)"

definition EscapeQueryComponent :: "string \<Rightarrow> string" where
  "EscapeQueryComponent s = queryComponentEscaper (QueryEscape s)"

definition queryPairName :: "string \<Rightarrow> string" where
  "queryPairName pair =
     (let name = takeWhile (\<lambda>c. c \<noteq> CHR ''='') pair
      in (case QueryUnescape name of None \<Rightarrow> name | Some decoded \<Rightarrow> decoded))"

record go_url =
  url_scheme :: string
  url_host :: string
  url_query :: string
  print_with :: "string \<Rightarrow> string"

definition encode_spaces :: "string \<Rightarrow> string" where
  "encode_spaces s = concat (map (\<lambda>c. if c = CHR '' '' then ''%20'' else [c]) s)"

definition NormalizeURL :: "(string \<Rightarrow> gerr + go_url) \<Rightarrow> string \<Rightarrow> gerr + string" where
  "NormalizeURL parse_full raw =
     (if CHR '' '' \<notin> set raw then Inr raw
      else (case parse_full raw of
              Inl err \<Rightarrow> Inl (errorf (''parsing endpoint URL for normalization: '' @ err_text err) err)
            | Inr u \<Rightarrow> Inr (print_with u (encode_spaces (url_query u)))))"

text \<open>
  \<open>ValidateAbsoluteURL\<close> of \<open>method.go\<close>, and the header checks of \<open>headers.go\<close>, whose rules for
  a name and a value are parameters (\<open>httpguts\<close>).
\<close>

definition ValidateAbsoluteURL :: "url_env \<Rightarrow> (string \<Rightarrow> gerr + go_url) \<Rightarrow> string \<Rightarrow> gerr option" where
  "ValidateAbsoluteURL env parse_full raw =
     (let shown = ''invalid URL \"'' @ Sanitize env raw @ ''\"''
      in if trim_space raw = [] then Some (NodeE KPlain ''URL is empty'' None None None [] False)
         else (case parse_full raw of
                 Inl err \<Rightarrow> Some (errorf (shown @ '': '' @ err_text err) err)
               | Inr u \<Rightarrow>
                   if url_scheme u \<noteq> ''http'' \<and> url_scheme u \<noteq> ''https''
                   then Some (NodeE KPlain (shown @ '': scheme must be http or https'') None None None [] False)
                   else if url_host u = []
                   then Some (NodeE KPlain (shown @ '': host is empty'') None None None [] False)
                   else None))"

record header_rules =
  ValidHeaderFieldName :: "string \<Rightarrow> bool"
  ValidHeaderFieldValue :: "string \<Rightarrow> bool"

definition AddValidatedHeader ::
  "header_rules \<Rightarrow> (string \<Rightarrow> string option) \<Rightarrow> string \<Rightarrow> string \<Rightarrow> gerr + (string \<Rightarrow> string option)" where
  "AddValidatedHeader rules headers name value =
     (if name = [] then Inl (NodeE KPlain ''header name cannot be empty'' None None None [] False)
      else if \<not> ValidHeaderFieldName rules name
      then Inl (NodeE KPlain (''header name is not a valid RFC 7230 token: \"'' @ name @ ''\"'') None None None [] False)
      else if \<not> ValidHeaderFieldValue rules value
      then Inl (errorf (''header \"'' @ name @ ''\": header value is not a valid RFC 7230 field-value'')
                  (NodeE KPlain ''header value is not a valid RFC 7230 field-value'' None None None [] False))
      else Inr (headers(name \<mapsto> value)))"

text \<open>The pairs kept from the endpoint, and the pairs appended.\<close>

definition kept_pairs :: "string \<Rightarrow> (string \<times> string) list \<Rightarrow> string list" where
  "kept_pairs rawQuery params =
     filter (\<lambda>pair. pair \<noteq> [] \<and> map_of params (queryPairName pair) = None) (split_on (CHR ''&'') rawQuery)"

definition added_pairs :: "(string \<times> string) list \<Rightarrow> string list" where
  "added_pairs params =
     map (\<lambda>name. EscapeQueryComponent name @ ''='' @ EscapeQueryComponent (the (map_of params name)))
       (sort (map fst params))"

definition MergeQueryParams ::
  "(string \<Rightarrow> gerr + go_url) \<Rightarrow> string \<Rightarrow> (string \<times> string) list \<Rightarrow> gerr + string" where
  "MergeQueryParams parse_full endpoint params =
     (if length params = 0 then Inr endpoint
      else (case parse_full endpoint of
              Inl err \<Rightarrow> Inl (errorf (''parsing endpoint URL for query parameters: '' @ err_text err) err)
            | Inr parsed \<Rightarrow>
                Inr (print_with parsed
                       (encode_spaces (join_with (CHR ''&'') (kept_pairs (url_query parsed) params @ added_pairs params))))))"

subsection \<open>Facts\<close>

lemma unreserved_neq: "unreserved c \<Longrightarrow> c \<noteq> CHR ''+'' \<and> c \<noteq> CHR ''%'' \<and> c \<noteq> CHR ''$'' \<and> c \<noteq> CHR ''&'' \<and> c \<noteq> CHR ''='' \<and> c \<noteq> CHR '' ''"
  by (auto simp: unreserved_def Let_def)

lemma of_hex_digit: "d < 16 \<Longrightarrow> (of_char (hex_digit d) :: nat) = (if d < 10 then 48 + d else 55 + d)"
  by (simp add: hex_digit_def)

lemma hex_digit_props:
  assumes "d < 16"
  shows "hex_value (hex_digit d) = Some d" "unreserved (hex_digit d)"
    "hex_digit d \<noteq> CHR ''+''" "hex_digit d \<noteq> CHR ''%''"
proof -
  show "hex_value (hex_digit d) = Some d" using assms by (simp add: hex_value_def of_hex_digit Let_def)
  show "unreserved (hex_digit d)" using assms by (simp add: unreserved_def of_hex_digit Let_def)
  then show "hex_digit d \<noteq> CHR ''+''" "hex_digit d \<noteq> CHR ''%''" by (simp_all add: unreserved_neq)
qed

lemma nibbles: "(of_char c :: nat) div 16 < 16" "(of_char c :: nat) mod 16 < 16"
  using nat_of_char_less_256 [of c] by (simp_all add: less_mult_imp_div_less)

lemma digit_chars: "char_of (48::nat) = CHR ''0''" "char_of (50::nat) = CHR ''2''" "char_of (52::nat) = CHR ''4''"
  by (rule of_char_eqI [where 'a = nat]; simp)+

text \<open>One escaped character.\<close>

definition component_char :: "char \<Rightarrow> string" where
  "component_char c = (if unreserved c \<or> c = CHR ''$'' then [c] else percent c)"

lemma percent_unescape: "QueryUnescape (percent c @ t) = map_option (Cons c) (QueryUnescape t)"
proof -
  have "16 * (of_char c div 16) + of_char c mod 16 = (of_char c :: nat)" by simp
  then have "(char_of (16 * (of_char c div 16) + of_char c mod 16 :: nat) :: char) = c"
    by (simp only: char_of_char)
  then show ?thesis
    by (simp add: percent_def hex_digit_props [OF nibbles(1)] hex_digit_props [OF nibbles(2)])
qed

lemma percent_24: "take 2 [hex_digit (of_char c div 16), hex_digit (of_char c mod 16)] = ''24'' \<longleftrightarrow> c = CHR ''$''"
proof
  assume "take 2 [hex_digit (of_char c div 16), hex_digit (of_char c mod 16)] = ''24''"
  then have "hex_value (hex_digit (of_char c div 16)) = Some 2" "hex_value (hex_digit (of_char c mod 16)) = Some 4"
    by (simp_all add: hex_value_def)
  then have "(of_char c :: nat) div 16 = 2" "(of_char c :: nat) mod 16 = 4"
    using hex_digit_props(1) [OF nibbles(1)] hex_digit_props(1) [OF nibbles(2)] by simp_all
  then have "(of_char c :: nat) = 36" using div_mult_mod_eq [of "of_char c :: nat" 16] by simp
  then have "(of_char c :: nat) = of_char (CHR ''$'')" by simp
  then show "c = CHR ''$''" by (rule of_char_eqI)
qed (simp add: hex_digit_def digit_chars)

lemma escaper_char:
  "queryComponentEscaper ((if unreserved c then [c] else if c = CHR '' '' then ''+'' else percent c) @ t)
     = component_char c @ queryComponentEscaper t"
proof -
  have sp: "percent (CHR '' '') = ''%20''" and dl: "percent (CHR ''$'') = ''%24''"
    by (simp_all add: percent_def hex_digit_def digit_chars)
  have un: "\<not> unreserved (CHR '' '')" "\<not> unreserved (CHR ''$'')"
    using unreserved_neq [of "CHR '' ''"] unreserved_neq [of "CHR ''$''"] by auto
  consider "unreserved c" | "c = CHR '' ''" | "c = CHR ''$''"
    | "\<not> unreserved c" "c \<noteq> CHR '' ''" "c \<noteq> CHR ''$''" by blast
  then show ?thesis
  proof cases
    case 1
    with unreserved_neq [OF this] show ?thesis by (simp add: component_char_def)
  next
    case 4
    with percent_24 [of c] show ?thesis
      using hex_digit_props [OF nibbles(1), of c] hex_digit_props [OF nibbles(2), of c]
      by (simp add: component_char_def percent_def)
  qed (simp_all add: component_char_def un sp dl)
qed

lemma EscapeQueryComponent_eq: "EscapeQueryComponent s = concat (map component_char s)"
  unfolding EscapeQueryComponent_def QueryEscape_def
  by (induction s) (simp_all only: list.map concat.simps escaper_char queryComponentEscaper.simps)

lemma QueryUnescape_component: "QueryUnescape (concat (map component_char s)) = Some s"
proof (induction s)
  case (Cons c s)
  then show ?case
    using unreserved_neq [of c] percent_unescape [of c "concat (map component_char s)"]
    by (cases "unreserved c \<or> c = CHR ''$''") (auto simp: component_char_def [of c])
qed simp

lemma component_safe: "c \<in> set (EscapeQueryComponent s) \<Longrightarrow> unreserved c \<or> c = CHR ''$'' \<or> c = CHR ''%''"
  using hex_digit_props(2) [OF nibbles(1)] hex_digit_props(2) [OF nibbles(2)]
  by (auto simp: EscapeQueryComponent_eq component_char_def percent_def split: if_splits)

lemma encode_spaces_append [simp]: "encode_spaces (a @ b) = encode_spaces a @ encode_spaces b"
  by (simp add: encode_spaces_def)

lemma encode_spaces_id: "CHR '' '' \<notin> set s \<Longrightarrow> encode_spaces s = s"
  by (induction s) (auto simp: encode_spaces_def)

lemma encode_spaces_free: "CHR '' '' \<notin> set (encode_spaces s)"
  by (auto simp: encode_spaces_def split: if_splits)


lemma split_parts_sub: "p \<in> set (split_on c s) \<Longrightarrow> set p \<subseteq> set s"
proof (induction s arbitrary: p)
  case (Cons x xs)
  then show ?case by (cases "split_on c xs") (fastforce split: if_splits)+
qed simp

lemma set_join_with: "set (join_with c ps) \<subseteq> insert c (\<Union>p \<in> set ps. set p)"
  by (induction c ps rule: join_with.induct) auto

lemma component_name:
  assumes "CHR ''='' \<notin> set (EscapeQueryComponent name)"
  shows "queryPairName (EscapeQueryComponent name @ ''='' @ v) = name"
proof -
  have "takeWhile (\<lambda>c. c \<noteq> CHR ''='') (EscapeQueryComponent name @ ''='' @ v) = EscapeQueryComponent name"
    using assms takeWhile_neq_id [OF assms] by (auto simp: takeWhile_append)
  then show ?thesis
    using QueryUnescape_component [of name] by (simp add: queryPairName_def EscapeQueryComponent_eq)
qed

lemma component_no: "CHR ''='' \<notin> set (EscapeQueryComponent s)" "CHR ''&'' \<notin> set (EscapeQueryComponent s)"
  "CHR '' '' \<notin> set (EscapeQueryComponent s)"
  using component_safe [of _ s] unreserved_neq by fastforce+

subsection \<open>Properties\<close>

text \<open>
  A query parameter cannot break out. Whatever bytes a value holds, its escaped form
  decodes back to it and consists of unreserved characters, percent signs and dollar signs:
  it can neither end its parameter, start another one, nor reach the fragment.
\<close>
theorem EscapeQueryComponent_roundtrip:
  "QueryUnescape (EscapeQueryComponent s) = Some s
   \<and> list_all (\<lambda>c. unreserved c \<or> c = CHR ''$'' \<or> c = CHR ''%'') (EscapeQueryComponent s)"
  using component_safe by (auto simp: list_all_iff EscapeQueryComponent_eq QueryUnescape_component)

text \<open>
  Merging static parameters into an endpoint keeps the endpoint's own pairs, verbatim and
  in order, except those whose decoded name is configured; each configured name then appears
  exactly once, with its value, and the resulting query holds no raw space. Nothing is parsed or
  printed when there is nothing to add.
\<close>
theorem MergeQueryParams_correct:
  assumes "parse_full endpoint = Inr u" "distinct (map fst params)" "params \<noteq> []" "CHR '' '' \<notin> set (url_query u)"
  shows "\<exists>q. MergeQueryParams parse_full endpoint params = Inr (print_with u q) \<and> CHR '' '' \<notin> set q
    \<and> split_on (CHR ''&'') q = kept_pairs (url_query u) params @ added_pairs params
    \<and> map queryPairName (added_pairs params) = sort (map fst params)
    \<and> MergeQueryParams parse_full endpoint [] = Inr endpoint"
proof -
  let ?ps = "kept_pairs (url_query u) params @ added_pairs params"
  have kept: "p \<in> set (kept_pairs (url_query u) params) \<Longrightarrow> CHR ''&'' \<notin> set p \<and> CHR '' '' \<notin> set p" for p
    using split_parts_sub [of p "CHR ''&''" "url_query u"] split_on_sep_free [of p "CHR ''&''" "url_query u"] assms(4)
    unfolding kept_pairs_def set_filter by blast
  have added: "p \<in> set (added_pairs params) \<Longrightarrow> CHR ''&'' \<notin> set p \<and> CHR '' '' \<notin> set p" for p
    using component_no unfolding added_pairs_def set_map by (elim imageE) simp
  have "length (added_pairs params) = length params" by (simp add: added_pairs_def)
  then have ne: "?ps \<noteq> []" using assms(3) by auto
  have no_sp: "CHR '' '' \<notin> set (join_with (CHR ''&'') ?ps)"
  proof
    assume "CHR '' '' \<in> set (join_with (CHR ''&'') ?ps)"
    from subsetD [OF set_join_with this] obtain p where "p \<in> set ?ps" "CHR '' '' \<in> set p" by auto
    with kept [of p] added [of p] show False by auto
  qed
  have "split_on (CHR ''&'') (join_with (CHR ''&'') ?ps) = ?ps"
    by (rule split_on_join [OF ne]) (use kept added in auto)
  moreover have "map queryPairName (added_pairs params) = sort (map fst params)"
    using component_name [OF component_no(1)] by (simp add: added_pairs_def comp_def)
  ultimately show ?thesis
    using assms(1,3) no_sp by (auto simp: MergeQueryParams_def encode_spaces_id)
qed


theorem MergeQueryParams_correct_witness:
  "\<exists>q. MergeQueryParams (\<lambda>s. Inr \<lparr>url_scheme = [], url_host = [], url_query = ''a=1&b=2'', print_with = (\<lambda>q. ''h?'' @ q)\<rparr>) ''h?a=1&b=2'' [(''a'', ''x'')]
         = Inr (''h?'' @ q) \<and> split_on (CHR ''&'') q = [''b=2'', ''a=x'']"
proof -
  let ?u = "\<lparr>url_scheme = [], url_host = [], url_query = ''a=1&b=2'', print_with = (\<lambda>q. ''h?'' @ q)\<rparr>"
  have "kept_pairs (url_query ?u) [(''a'', ''x'')] = [''b=2'']"
    by (simp add: kept_pairs_def queryPairName_def)
  moreover have "added_pairs [(''a'', ''x'')] = [''a=x'']"
    by (simp add: added_pairs_def EscapeQueryComponent_eq component_char_def unreserved_def)
  ultimately show ?thesis
    using MergeQueryParams_correct [of "\<lambda>s. Inr ?u" "''h?a=1&b=2''" ?u "[(''a'', ''x'')]"] by auto
qed

end
