(* ===== verification/HttpCall.thy ===== *)
theory HttpCall
  imports HttpRetry LruCache CallMerge UrlQuery FieldFilters
begin

text \<open>
  The http_call filter, \<open>src/internal/modules/filter/http_call.go\<close>, \<open>http_call_config.go\<close> and
  \<open>http_call_merge.go\<close>: one HTTP request per record, memoized in the LRU cache, its response
  folded into the record. The request goes through \<open>DoWithRetry\<close>. Template rendering
  (\<open>Compile\<close> and \<open>Render\<close> on the record's context), URL parsing, JSON decoding, the
  authentication handler and the network are parameters, gathered in \<open>call_env\<close>.
\<close>

subsection \<open>Configuration\<close>

record KeyConfig =
  kc_Field :: string
  kc_ParamType :: string
  kc_ParamName :: string

record call_request =
  cr_Method :: string
  cr_URL :: string
  cr_Headers :: "string \<Rightarrow> string option"
  cr_Body :: "string option"

record 'h call_env =
  ce_ctx :: "'h run_context"
  ce_client :: "call_request \<Rightarrow> 'h http_client"
  ce_render :: "string \<Rightarrow> string \<Rightarrow> grecord \<Rightarrow> gerr + string"
  ce_parse_url :: "string \<Rightarrow> gerr + go_url"
  ce_rules :: header_rules
  ce_unmarshal :: "string \<Rightarrow> gerr + grecord"
  ce_auth :: "(call_request \<Rightarrow> 'h \<Rightarrow> (gerr + call_request) \<times> 'h) option"
  ce_fmt_v :: "gval \<Rightarrow> string"
  ce_fmt_T :: "gval \<Rightarrow> string"
  ce_clock :: "'h \<Rightarrow> int"
  ce_order :: "gval LRUCache \<Rightarrow> string list"

record HTTPCallModule =
  hc_endpoint :: string
  hc_method :: string
  hc_keys :: "KeyConfig list"
  hc_retry :: RetryConfig
  hc_hint :: "string \<Rightarrow> bool \<times> bool"
  hc_cacheEnabled :: bool
  hc_mergeStrategy :: string
  hc_resultKey :: string
  hc_dataField :: string
  hc_onError :: strategy
  hc_headers :: "(string \<times> string) list"
  hc_cacheTTL :: int
  hc_cacheKey :: string
  hc_bodyTemplate :: string
  hc_queryParams :: "(string \<times> string) list"
  hc_overrides :: overrides

record 'h call_state =
  cs_net :: 'h
  cs_cache :: "gval LRUCache"

text \<open>An \<open>HTTPCallError\<close>: the error, and its \<open>Attempts\<close> field.\<close>

type_synonym call_error = "gerr \<times> int"

definition data_codes :: "string list" where
  "data_codes = [''HTTP_CALL_JSON_PARSE'', ''HTTP_CALL_DATA_FIELD_MISSING'', ''HTTP_CALL_DATA_FIELD_TYPE'',
                 ''HTTP_CALL_MERGE_MISMATCH'']"

definition HTTPCallError_Classify :: "string \<Rightarrow> string \<Rightarrow> classified option" where
  "HTTPCallError_Classify code msg =
     (if code \<in> set data_codes then Some (Classified CategoryValidation False 0 msg None) else None)"

definition HTTPCallError_Details :: "string \<Rightarrow> int \<Rightarrow> string \<Rightarrow> grecord" where
  "HTTPCallError_Details endpoint statusCode keyValue =
     (let d = Map.empty;
          d = (if endpoint \<noteq> [] then d(''endpoint'' \<mapsto> GStr endpoint) else d);
          d = (if statusCode \<noteq> 0 then d(''status_code'' \<mapsto> GInt statusCode) else d)
      in (if keyValue \<noteq> [] then d(''key_value'' \<mapsto> GStr keyValue) else d))"

definition newHTTPCallError ::
  "url_env \<Rightarrow> string \<Rightarrow> string \<Rightarrow> int \<Rightarrow> string \<Rightarrow> int \<Rightarrow> string \<Rightarrow> gerr list \<Rightarrow> int \<Rightarrow> call_error" where
  "newHTTPCallError env code message recordIdx endpoint statusCode keyValue cause attempts =
     (NodeE KPlain message None
        (Some \<lparr>me_code = code, me_module = ''http_call'', me_index = recordIdx,
               me_details = HTTPCallError_Details (Sanitize env endpoint) statusCode keyValue\<rparr>)
        (Some (HTTPCallError_Classify code message)) cause False, attempts)"

definition contains_sub :: "string \<Rightarrow> string \<Rightarrow> bool" where
  "contains_sub p s = list_ex (\<lambda>i. prefix p (drop i s)) [0..<Suc (length s)]"

definition HasVariables :: "string \<Rightarrow> bool" where
  "HasVariables s \<longleftrightarrow> (contains_sub ''{{'' s \<and> contains_sub ''}}'' s) \<or> contains_sub ''{%'' s"

subsection \<open>Keys, URL and cache key\<close>

definition compositeKeyString :: "HTTPCallModule \<Rightarrow> (string \<Rightarrow> string option) option \<Rightarrow> string" where
  "compositeKeyString m keyValues =
     (case keyValues of
        None \<Rightarrow> []
      | Some kv \<Rightarrow>
          let parts = map (\<lambda>k. case kv (kc_ParamName k) of None \<Rightarrow> [] | Some v \<Rightarrow> v) (hc_keys m)
          in foldl (\<lambda>acc p. acc @ ''::'' @ p) (case parts of [] \<Rightarrow> [] | p # _ \<Rightarrow> p) (tl parts))"

definition call_fail ::
  "'h call_env \<Rightarrow> HTTPCallModule \<Rightarrow> int \<Rightarrow> string \<Rightarrow> string \<Rightarrow> int \<Rightarrow> (string \<Rightarrow> string option) option \<Rightarrow> call_error" where
  "call_fail env m idx code msg status kv =
     newHTTPCallError (rc_url (ce_ctx env)) code msg idx (hc_endpoint m) status (compositeKeyString m kv) [] 0"

fun extract_keys ::
  "'h call_env \<Rightarrow> HTTPCallModule \<Rightarrow> grecord \<Rightarrow> int \<Rightarrow> KeyConfig list \<Rightarrow> (string \<Rightarrow> string option)
   \<Rightarrow> call_error + (string \<Rightarrow> string option)" where
  "extract_keys env m record idx [] result = Inr result"
| "extract_keys env m record idx (k # ks) result =
     (let failed = (\<lambda>why. Inl (call_fail env m idx ''HTTP_CALL_KEY_EXTRACT''
            (''http_call failed to extract key from record '' @ itoa idx @ '': field '' @ [CHR 0x27] @ kc_Field k @ [CHR 0x27] @ why)
            0 None))
      in (case Get record (kc_Field k) of
            None \<Rightarrow> failed '' not found''
          | Some GNil \<Rightarrow> failed '' is null''
          | Some v \<Rightarrow>
              let keyValue = (case as_str v of Some s \<Rightarrow> s | None \<Rightarrow> ce_fmt_v env v)
              in if keyValue = [] then failed '' is empty''
                 else extract_keys env m record idx ks (result(kc_ParamName k \<mapsto> keyValue))))"

text \<open>\<open>strings.Replace(s, old, new, 1)\<close>.\<close>

fun replace_first :: "string \<Rightarrow> string \<Rightarrow> string \<Rightarrow> string" where
  "replace_first old new [] = (if old = [] then new else [])"
| "replace_first old new (c # s) =
     (if prefix old (c # s) then new @ drop (length old) (c # s) else c # replace_first old new s)"

definition path_keys :: "HTTPCallModule \<Rightarrow> (string \<Rightarrow> string option) \<Rightarrow> string \<Rightarrow> string" where
  "path_keys m kv endpoint =
     foldl (\<lambda>e k. if kc_ParamType k = ''path''
                  then replace_first (''{'' @ kc_ParamName k @ ''}'')
                         (PathEscape (case kv (kc_ParamName k) of None \<Rightarrow> [] | Some v \<Rightarrow> v)) e
                  else e) endpoint (hc_keys m)"

fun render_params ::
  "'h call_env \<Rightarrow> grecord \<Rightarrow> (string \<times> string) list \<Rightarrow> gerr + (string \<times> string) list" where
  "render_params env record [] = Inr []"
| "render_params env record ((name, value) # ps) =
     (case (if \<not> HasVariables value then Inr value
            else (case ce_render env value ''text'' record of
                    Inl err \<Rightarrow> Inl (errorf (''evaluating queryParams[\"'' @ name @ ''\"] template: '' @ err_text err) err)
                  | Inr out \<Rightarrow> Inr out)) of
        Inl err \<Rightarrow> Inl err
      | Inr out \<Rightarrow> (case render_params env record ps of Inl err \<Rightarrow> Inl err | Inr rest \<Rightarrow> Inr ((name, out) # rest)))"

definition applyQueryParams :: "'h call_env \<Rightarrow> HTTPCallModule \<Rightarrow> string \<Rightarrow> grecord \<Rightarrow> gerr + string" where
  "applyQueryParams env m endpoint record =
     (if length (hc_queryParams m) = 0 then Inr endpoint
      else (case render_params env record (hc_queryParams m) of
              Inl err \<Rightarrow> Inl err
            | Inr rendered \<Rightarrow> MergeQueryParams (ce_parse_url env) endpoint rendered))"

definition put_param :: "string \<Rightarrow> string \<Rightarrow> (string \<times> string) list \<Rightarrow> (string \<times> string) list" where
  "put_param n v ps = (if n \<in> fst ` set ps then map (\<lambda>(k, w). if k = n then (k, v) else (k, w)) ps else ps @ [(n, v)])"

definition query_keys :: "HTTPCallModule \<Rightarrow> (string \<Rightarrow> string option) \<Rightarrow> (string \<times> string) list" where
  "query_keys m kv =
     foldl (\<lambda>ps k. if kc_ParamType k = ''query''
                   then put_param (kc_ParamName k) (case kv (kc_ParamName k) of None \<Rightarrow> [] | Some v \<Rightarrow> v) ps
                   else ps) [] (hc_keys m)"

definition buildRequestURL ::
  "'h call_env \<Rightarrow> HTTPCallModule \<Rightarrow> (string \<Rightarrow> string option) option \<Rightarrow> grecord \<Rightarrow> gerr + string" where
  "buildRequestURL env m keyValues record =
     (let kv = (case keyValues of None \<Rightarrow> Map.empty | Some kv \<Rightarrow> kv)
      in (case (if HasVariables (hc_endpoint m)
                then (case ce_render env (hc_endpoint m) ''url'' record of
                        Inl err \<Rightarrow> Inl (errorf (''evaluating endpoint template: '' @ err_text err) err)
                      | Inr r \<Rightarrow> Inr r)
                else Inr (hc_endpoint m)) of
            Inl err \<Rightarrow> Inl err
          | Inr endpoint \<Rightarrow>
              (case applyQueryParams env m (path_keys m kv endpoint) record of
                 Inl err \<Rightarrow> Inl err
               | Inr endpoint \<Rightarrow>
                   let queryKeys = query_keys m kv
                   in (if length queryKeys > 0
                       then (case MergeQueryParams (ce_parse_url env) endpoint queryKeys of
                               Inl err \<Rightarrow> Inl (errorf (''parsing endpoint URL: '' @ err_text err) err)
                             | Inr merged \<Rightarrow> NormalizeURL (ce_parse_url env) merged)
                       else NormalizeURL (ce_parse_url env) endpoint))))"

definition buildCacheKey ::
  "'h call_env \<Rightarrow> HTTPCallModule \<Rightarrow> string \<Rightarrow> (string \<Rightarrow> string option) option \<Rightarrow> grecord \<Rightarrow> string" where
  "buildCacheKey env m requestURL keyValues record =
     (if hc_cacheKey m \<noteq> [] then
        (case ce_render env (hc_cacheKey m) ''text'' record of
           Inl err \<Rightarrow> requestURL @ ''::'' @ compositeKeyString m keyValues
         | Inr key \<Rightarrow> key)
      else requestURL @ ''::'' @ compositeKeyString m keyValues)"


subsection \<open>The request\<close>

fun add_headers ::
  "'h call_env \<Rightarrow> HTTPCallModule \<Rightarrow> int \<Rightarrow> (string \<Rightarrow> string option) option \<Rightarrow> grecord \<Rightarrow> (string \<times> string) list
   \<Rightarrow> (string \<Rightarrow> string option) \<Rightarrow> call_error + (string \<Rightarrow> string option)" where
  "add_headers env m idx kv record [] validated = Inr validated"
| "add_headers env m idx kv record ((key, value) # hs) validated =
     (case (if HasVariables value then ce_render env value ''text'' record else Inr value) of
        Inl err \<Rightarrow> Inl (call_fail env m idx ''HTTP_CALL_HTTP_ERROR''
                         (''http_call header template render failed: '' @ err_text err) 0 kv)
      | Inr evaluated \<Rightarrow>
          (case AddValidatedHeader (ce_rules env) validated key evaluated of
             Inl err \<Rightarrow> Inl (call_fail env m idx ''HTTP_CALL_HTTP_ERROR''
                              (''http_call invalid header: '' @ err_text err) 0 kv)
           | Inr v' \<Rightarrow> add_headers env m idx kv record hs v'))"

fun add_key_headers ::
  "'h call_env \<Rightarrow> HTTPCallModule \<Rightarrow> int \<Rightarrow> (string \<Rightarrow> string option) option \<Rightarrow> KeyConfig list
   \<Rightarrow> (string \<Rightarrow> string option) \<Rightarrow> call_error + (string \<Rightarrow> string option)" where
  "add_key_headers env m idx kv [] validated = Inr validated"
| "add_key_headers env m idx kv (k # ks) validated =
     (let v = (case Option.bind kv (\<lambda>f. f (kc_ParamName k)) of None \<Rightarrow> [] | Some v \<Rightarrow> v)
      in (if kc_ParamType k = ''header'' \<and> v \<noteq> []
          then (case AddValidatedHeader (ce_rules env) validated (kc_ParamName k) v of
                  Inl err \<Rightarrow> Inl (call_fail env m idx ''HTTP_CALL_HTTP_ERROR''
                                   (''http_call invalid key header: '' @ err_text err) 0 kv)
                | Inr v' \<Rightarrow> add_key_headers env m idx kv ks v')
          else add_key_headers env m idx kv ks validated))"

text \<open>
  \<open>http.Header.Set\<close> stores a value under the canonical form of the name: the first letter and
  each letter after a hyphen in upper case, the others in lower case. The names are valid
  tokens here, they passed \<open>AddValidatedHeader\<close>. The order in which Go ranges over the map of
  headers is the order of the configured list, which only matters for two names with one
  canonical form.
\<close>

definition ascii_upper :: "char \<Rightarrow> char" where
  "ascii_upper c =
     (if 97 \<le> (of_char c :: nat) \<and> (of_char c :: nat) \<le> 122 then char_of ((of_char c :: nat) - 32) else c)"

fun canonical_from :: "bool \<Rightarrow> string \<Rightarrow> string" where
  "canonical_from upper [] = []"
| "canonical_from upper (c # s) = (if upper then ascii_upper c else ascii_lower c) # canonical_from (c = CHR ''-'') s"

definition header_Set :: "(string \<Rightarrow> string option) \<Rightarrow> string \<Rightarrow> string \<Rightarrow> (string \<Rightarrow> string option)" where
  "header_Set h name value = h(canonical_from True name \<mapsto> value)"

definition set_headers ::
  "(string \<Rightarrow> string option) \<Rightarrow> string list \<Rightarrow> (string \<Rightarrow> string option) \<Rightarrow> (string \<Rightarrow> string option)" where
  "set_headers h names validated =
     foldl (\<lambda>h name. case validated name of None \<Rightarrow> h | Some v \<Rightarrow> header_Set h name v) h names"

text \<open>
  \<open>http.NewRequestWithContext\<close> fails on a bad method or an unparsable URL: the constructor
  has checked the method and the URL has just been parsed.
\<close>

definition buildHTTPRequest ::
  "'h call_env \<Rightarrow> HTTPCallModule \<Rightarrow> string \<Rightarrow> (string \<Rightarrow> string option) option \<Rightarrow> int \<Rightarrow> grecord \<Rightarrow> 'h
   \<Rightarrow> (call_error + call_request) \<times> 'h" where
  "buildHTTPRequest env m requestURL kv idx record h =
     (case ValidateAbsoluteURL (rc_url (ce_ctx env)) (ce_parse_url env) requestURL of
        Some err \<Rightarrow> (Inl (call_fail env m idx ''HTTP_CALL_HTTP_ERROR''
                           (''http_call invalid request URL: '' @ err_text err) 0 kv), h)
      | None \<Rightarrow>
          (case (if hc_bodyTemplate m \<noteq> []
                 then map_sum id Some (ce_render env (hc_bodyTemplate m) ''json'' record) else Inr None) of
             Inl err \<Rightarrow> (Inl (call_fail env m idx ''HTTP_CALL_HTTP_ERROR''
                                (''http_call body template render failed: '' @ err_text err) 0 kv), h)
           | Inr body \<Rightarrow>
               (case add_headers env m idx kv record (hc_headers m) Map.empty of
                  Inl e \<Rightarrow> (Inl e, h)
                | Inr v1 \<Rightarrow>
                    (case add_key_headers env m idx kv (hc_keys m) v1 of
                       Inl e \<Rightarrow> (Inl e, h)
                     | Inr validated \<Rightarrow>
                         let base = [''User-Agent'' \<mapsto> ''Cannectors-Runtime/1.0'', ''Accept'' \<mapsto> ''application/json''];
                             base = (if hc_bodyTemplate m \<noteq> [] then base(''Content-Type'' \<mapsto> ''application/json'') else base);
                             req = \<lparr>cr_Method = hc_method m, cr_URL = requestURL, cr_Headers = set_headers base (map fst (hc_headers m) @ map kc_ParamName (hc_keys m)) validated,
                                    cr_Body = body\<rparr>
                         in (case ce_auth env of
                               None \<Rightarrow> (Inr req, h)
                             | Some apply \<Rightarrow>
                                 (case apply req h of
                                    (Inl err, h) \<Rightarrow> (Inl (call_fail env m idx ''HTTP_CALL_HTTP_ERROR''
                                                           (''http_call failed to apply auth: '' @ err_text err) 0 kv), h)
                                  | (Inr req, h) \<Rightarrow> (Inr req, h)))))))"

text \<open>
  A call either runs to a result or panics on a nil response, which \<open>DoWithRetry\<close> returns
  without an error when the retry configuration allows fewer than zero attempts.
\<close>

datatype 'a maybe_panic = Ran 'a | NilPointerPanic

text \<open>
  The closure \<open>OnRetry\<close> counts the attempts: the count is kept beside the network state while
  \<open>DoWithRetry\<close> runs.
\<close>

definition counting_client :: "'h http_client \<Rightarrow> ('h \<times> 'c) http_client" where
  "counting_client cl =
     \<lparr>get_body = map_option (\<lambda>g (h, a). case g h of (e, h') \<Rightarrow> (e, (h', a))) (get_body cl),
      do_request = (\<lambda>(h, a). case do_request cl h of (r, h') \<Rightarrow> (r, (h', a)))\<rparr>"

definition counting_ctx :: "'h run_context \<Rightarrow> ('h \<times> 'c) run_context" where
  "counting_ctx c =
     \<lparr>rc_done = (\<lambda>(h, a). rc_done c h), rc_wait = (\<lambda>d (h, a). case rc_wait c d h of (e, h') \<Rightarrow> (e, (h', a))),
      rc_elapsed = (\<lambda>(h, a). rc_elapsed c h), rc_now = rc_now c, rc_parse_http_time = rc_parse_http_time c,
      rc_url = rc_url c, rc_float = rc_float c\<rparr>"

definition call_hooks :: "HTTPCallModule \<Rightarrow> ('h \<times> int) retry_hooks" where
  "call_hooks m =
     \<lparr>OnRetry = Some (\<lambda>attempt err d (h, a). (h, attempt + 1)), ShouldRetryBody = Some (hc_hint m),
      OnAttemptFailure = None, IsSuccessStatus = None\<rparr>"

text \<open>
  The status of a failure is the one of the \<open>httpclient.Error\<close> in its chain, which is the
  status of the last response \<open>DoWithRetry\<close> returns beside the error.
\<close>

definition executeHTTPRequest ::
  "'h call_env \<Rightarrow> HTTPCallModule \<Rightarrow> string \<Rightarrow> (string \<Rightarrow> string option) option \<Rightarrow> int \<Rightarrow> grecord \<Rightarrow> 'h
   \<Rightarrow> (call_error + string \<times> int) maybe_panic \<times> 'h" where
  "executeHTTPRequest env m requestURL kv idx record h =
     (case buildHTTPRequest env m requestURL kv idx record h of
        (Inl e, h) \<Rightarrow> (Ran (Inl e), h)
      | (Inr req, h) \<Rightarrow>
          let ((resp, err), (h, attempts)) =
                DoWithRetry (counting_ctx (ce_ctx env)) (Some (counting_client (ce_client env req)))
                  \<lparr>rq_Method = cr_Method req, rq_URL = cr_URL req\<rparr> (hc_retry m) (call_hooks m) (h, 0);
              fail = (\<lambda>msg status cause att. newHTTPCallError (rc_url (ce_ctx env)) ''HTTP_CALL_HTTP_ERROR'' msg idx
                        (hc_endpoint m) status (compositeKeyString m kv) cause att)
          in (case err of
                Some err \<Rightarrow>
                  let statusCode = (case resp of None \<Rightarrow> 0 | Some r \<Rightarrow> rs_StatusCode r);
                      body = (case resp of None \<Rightarrow> [] | Some r \<Rightarrow> rs_stream r);
                      snippet = (if as_http_error err \<noteq> None
                                 then (if length body > 200 then take 200 body @ ''...'' else body) else [])
                  in (if statusCode \<ge> 400
                      then (Ran (Inl (fail (''http_call HTTP error '' @ itoa statusCode @ '': '' @ snippet) statusCode [err] attempts)), h)
                      else (Ran (Inl (fail (''http_call HTTP request failed: '' @ err_text err) statusCode [err] attempts)), h))
              | None \<Rightarrow>
                  (case resp of
                     None \<Rightarrow> (NilPointerPanic, h)
                   | Some r \<Rightarrow>
                       (case rs_stream_err r of
                          Some readErr \<Rightarrow>
                            (Ran (Inl (fail (''http_call failed to read response: '' @ err_text readErr) (rs_StatusCode r) [] 0)), h)
                        | None \<Rightarrow> (Ran (Inr (rs_stream r, rs_StatusCode r)), h)))))"

definition extractDataField ::
  "'h call_env \<Rightarrow> HTTPCallModule \<Rightarrow> grecord \<Rightarrow> int \<Rightarrow> int \<Rightarrow> call_error + gval" where
  "extractDataField env m responseData idx status =
     (let fail = (\<lambda>code msg cause. newHTTPCallError (rc_url (ce_ctx env)) code msg idx (hc_endpoint m) status [] cause 0)
      in (case Get responseData (hc_dataField m) of
            None \<Rightarrow> Inl (fail ''HTTP_CALL_DATA_FIELD_MISSING''
                          (''http_call dataField \"'' @ hc_dataField m @ ''\" is missing from the response'') [])
          | Some data \<Rightarrow>
              (case data of
                 GMap v \<Rightarrow> Inr data
               | GArr v \<Rightarrow> Inr data
               | _ \<Rightarrow> Inl (fail ''HTTP_CALL_DATA_FIELD_TYPE''
                           (''http_call dataField \"'' @ hc_dataField m @ ''\" holds '' @ ce_fmt_T env data
                            @ '', expected an object or a list'')
                           [errorf (err_text ErrCallResultType @ '': '' @ ce_fmt_T env data) ErrCallResultType]))))"

definition parseResponseData ::
  "'h call_env \<Rightarrow> HTTPCallModule \<Rightarrow> string \<Rightarrow> int \<Rightarrow> int \<Rightarrow> call_error + gval" where
  "parseResponseData env m body status idx =
     (case ce_unmarshal env body of
        Inl err \<Rightarrow> Inl (newHTTPCallError (rc_url (ce_ctx env)) ''HTTP_CALL_JSON_PARSE''
                         (''http_call failed to parse response: '' @ err_text err) idx (hc_endpoint m) status [] [] 0)
      | Inr responseData \<Rightarrow>
          if hc_dataField m \<noteq> [] then extractDataField env m responseData idx status
          else Inr (GMap responseData))"

definition fetchResponseData ::
  "'h call_env \<Rightarrow> HTTPCallModule \<Rightarrow> string \<Rightarrow> (string \<Rightarrow> string option) option \<Rightarrow> int \<Rightarrow> grecord \<Rightarrow> 'h
   \<Rightarrow> (call_error + gval) maybe_panic \<times> 'h" where
  "fetchResponseData env m requestURL kv idx record h =
     (case executeHTTPRequest env m requestURL kv idx record h of
        (NilPointerPanic, h) \<Rightarrow> (NilPointerPanic, h)
      | (Ran (Inl e), h) \<Rightarrow> (Ran (Inl e), h)
      | (Ran (Inr (body, status)), h) \<Rightarrow> (Ran (parseResponseData env m body status idx), h))"

definition mergeData ::
  "'h call_env \<Rightarrow> HTTPCallModule \<Rightarrow> grecord \<Rightarrow> gval \<Rightarrow> int \<Rightarrow> (string \<Rightarrow> string option) option \<Rightarrow> call_error + grecord" where
  "mergeData env m record responseData idx kv =
     (case mergeCallResult (ce_fmt_T env) ''http_call'' (hc_mergeStrategy m) (hc_resultKey m) record responseData of
        Inl err \<Rightarrow>
          Inl (newHTTPCallError (rc_url (ce_ctx env)) ''HTTP_CALL_MERGE_MISMATCH''
                 (case as_classified err of Some c \<Rightarrow> Message c | None \<Rightarrow> err_text err) idx (hc_endpoint m) 0
                 (compositeKeyString m kv) [err] 0)
      | Inr merged \<Rightarrow> Inr merged)"

subsection \<open>One record\<close>

definition call_processRecord ::
  "'h call_env \<Rightarrow> HTTPCallModule \<Rightarrow> grecord \<Rightarrow> int \<Rightarrow> 'h call_state \<Rightarrow> ((call_error + grecord) \<times> bool) maybe_panic \<times> 'h call_state" where
  "call_processRecord env m record idx s =
     (case (if length (hc_keys m) > 0 then map_sum id Some (extract_keys env m record idx (hc_keys m) Map.empty) else Inr None) of
        Inl e \<Rightarrow> (Ran (Inl e, False), s)
      | Inr kv \<Rightarrow>
          (case buildRequestURL env m kv record of
             Inl err \<Rightarrow> (Ran (Inl (call_fail env m idx ''HTTP_CALL_HTTP_ERROR''
                                 (''http_call failed to build request URL: '' @ err_text err) 0 kv), False), s)
           | Inr requestURL \<Rightarrow>
               let cacheKey = buildCacheKey env m requestURL kv record;
                   (cached, s) = (if hc_cacheEnabled m
                                  then (case cache_Get (cs_cache s) (ce_clock env (cs_net s)) cacheKey of
                                          (d, c) \<Rightarrow> (d, s\<lparr>cs_cache := c\<rparr>))
                                  else (None, s))
               in (case cached of
                     Some data \<Rightarrow> (Ran (mergeData env m record data idx kv, True), s)
                   | None \<Rightarrow>
                       (case fetchResponseData env m requestURL kv idx record (cs_net s) of
                          (NilPointerPanic, h) \<Rightarrow> (NilPointerPanic, s\<lparr>cs_net := h\<rparr>)
                        | (Ran (Inl e), h) \<Rightarrow> (Ran (Inl e, False), s\<lparr>cs_net := h\<rparr>)
                        | (Ran (Inr data), h) \<Rightarrow>
                            let s = s\<lparr>cs_net := h\<rparr>;
                                s = (if hc_cacheEnabled m
                                     then s\<lparr>cs_cache := cache_Set (ce_order env (cs_cache s)) (cs_cache s)
                                              (ce_clock env (cs_net s)) cacheKey data (hc_cacheTTL m)\<rparr>
                                     else s)
                            in (Ran (mergeData env m record data idx kv, False), s)))))"

subsection \<open>The batch\<close>

definition call_source :: "HTTPCallModule \<Rightarrow> int \<Rightarrow> int \<Rightarrow> marker_source" where
  "call_source m idx attempts =
     \<lparr>ms_Module = ''http_call'', ms_RecordIndex = idx, ms_Attempts = attempts, ms_Overrides = hc_overrides m\<rparr>"

text \<open>
  The loop of \<open>Process\<close>. A nil record reads as an empty map: every access of the filter to the
  record is a read or a copy.
\<close>

fun call_loop ::
  "'h call_env \<Rightarrow> HTTPCallModule \<Rightarrow> nat \<Rightarrow> records \<Rightarrow> records \<Rightarrow> tally option \<Rightarrow> 'h call_state
   \<Rightarrow> (gerr + records) maybe_panic \<times> tally option \<times> 'h call_state" where
  "call_loop env m i [] result t s = (Ran (Inr result), t, s)"
| "call_loop env m i (r # rs) result t s =
     (case rc_done (ce_ctx env) (cs_net s) of
        Some e \<Rightarrow> (Ran (Inl e), t, s)
      | None \<Rightarrow>
          (case call_processRecord env m (case r of None \<Rightarrow> Map.empty | Some x \<Rightarrow> x) (int i) s of
             (NilPointerPanic, s') \<Rightarrow> (NilPointerPanic, t, s')
           | (Ran (Inr enriched, _), s') \<Rightarrow> call_loop env m (Suc i) rs (result @ [Some enriched]) t s'
           | (Ran (Inl (err, attempts), _), s') \<Rightarrow>
               (case HandleRecordError (rc_url (ce_ctx env)) t (hc_onError m) r (call_source m (int i) attempts) (Some err) of
                  (OutcomeStop, _, t') \<Rightarrow> (Ran (Inl err), t', s')
                | (OutcomeDrop, _, t') \<Rightarrow> call_loop env m (Suc i) rs result t' s'
                | (OutcomeKeep, marked, t') \<Rightarrow> call_loop env m (Suc i) rs (result @ [marked]) t' s')))"

definition call_Process ::
  "'h call_env \<Rightarrow> HTTPCallModule \<Rightarrow> records \<Rightarrow> tally option \<Rightarrow> 'h call_state
   \<Rightarrow> (gerr + records) maybe_panic \<times> tally option \<times> 'h call_state" where
  "call_Process env m rs t s = call_loop env m 0 rs [] t s"


subsection \<open>Facts\<close>

text \<open>What identifies the call of a record: its key values, its URL and its cache key.\<close>

definition call_key ::
  "'h call_env \<Rightarrow> HTTPCallModule \<Rightarrow> grecord \<Rightarrow> int \<Rightarrow> ((string \<Rightarrow> string option) option \<times> string \<times> string) option" where
  "call_key env m record idx =
     (case (if length (hc_keys m) > 0 then map_sum id Some (extract_keys env m record idx (hc_keys m) Map.empty) else Inr None) of
        Inl e \<Rightarrow> None
      | Inr kv \<Rightarrow>
          (case buildRequestURL env m kv record of
             Inl err \<Rightarrow> None
           | Inr url \<Rightarrow> Some (kv, url, buildCacheKey env m url kv record)))"

text \<open>\<open>v\<close> is a response some request with the cache key \<open>k\<close> got.\<close>

definition served :: "'h call_env \<Rightarrow> HTTPCallModule \<Rightarrow> string \<Rightarrow> gval \<Rightarrow> bool" where
  "served env m k v \<longleftrightarrow>
     (\<exists>record idx kv url h h'. call_key env m record idx = Some (kv, url, k)
        \<and> fetchResponseData env m url kv idx record h = (Ran (Inr v), h'))"

lemma servedI:
  "\<lbrakk>call_key env m record idx = Some (kv, url, k); fetchResponseData env m url kv idx record h = (Ran (Inr v), h')\<rbrakk>
   \<Longrightarrow> served env m k v"
  unfolding served_def by blast

lemma processRecord_key:
  assumes "call_key env m record idx = Some (kv, url, key)"
  shows "call_processRecord env m record idx s =
     (let (cached, s) = (if hc_cacheEnabled m
                         then (case cache_Get (cs_cache s) (ce_clock env (cs_net s)) key of
                                 (d, c) \<Rightarrow> (d, s\<lparr>cs_cache := c\<rparr>))
                         else (None, s))
      in (case cached of
            Some data \<Rightarrow> (Ran (mergeData env m record data idx kv, True), s)
          | None \<Rightarrow>
              (case fetchResponseData env m url kv idx record (cs_net s) of
                 (NilPointerPanic, h) \<Rightarrow> (NilPointerPanic, s\<lparr>cs_net := h\<rparr>)
               | (Ran (Inl e), h) \<Rightarrow> (Ran (Inl e, False), s\<lparr>cs_net := h\<rparr>)
               | (Ran (Inr data), h) \<Rightarrow>
                   let s = s\<lparr>cs_net := h\<rparr>;
                       s = (if hc_cacheEnabled m
                            then s\<lparr>cs_cache := cache_Set (ce_order env (cs_cache s)) (cs_cache s)
                                     (ce_clock env (cs_net s)) key data (hc_cacheTTL m)\<rparr>
                            else s)
                   in (Ran (mergeData env m record data idx kv, False), s))))"
  using assms by (auto simp: call_key_def call_processRecord_def Let_def split: sum.splits)

lemma processRecord_nokey:
  "call_key env m record idx = None \<Longrightarrow> \<exists>e. call_processRecord env m record idx s = (Ran (Inl e, False), s)"
  by (auto simp: call_key_def call_processRecord_def Let_def split: sum.splits)

subsection \<open>Properties\<close>

text \<open>
  C6. The cache never mixes calls up. If every answer the cache can give is a response some
  request with the same cache key got, this is still so after a record has been processed, and
  the data merged into the record, cached or fetched, is a response got for the record's own
  cache key; a cache hit sends nothing.
\<close>
theorem call_cache_faithful:
  assumes "lru.faithful (served env m) (cs_cache s)"
    and "call_processRecord env m record idx s = (Ran (res, hit), s')"
  shows "lru.faithful (served env m) (cs_cache s')
    \<and> (hit \<longrightarrow> cs_net s' = cs_net s)
    \<and> (\<forall>r'. res = Inr r' \<longrightarrow> (\<exists>kv url key v. call_key env m record idx = Some (kv, url, key)
              \<and> served env m key v \<and> mergeData env m record v idx kv = Inr r'))"
proof (cases "call_key env m record idx")
  case None
  from processRecord_nokey [OF this, of s] assms show ?thesis by auto
next
  case (Some x)
  obtain kv url key where x: "x = (kv, url, key)" by (cases x)
  note run = assms(2)[unfolded processRecord_key [OF Some[unfolded x]]]
  show ?thesis
  proof (cases "hc_cacheEnabled m")
    case False
    obtain y h where f: "fetchResponseData env m url kv idx record (cs_net s) = (y, h)"
      by (cases "fetchResponseData env m url kv idx record (cs_net s)")
    have "served env m key v" if "y = Ran (Inr v)" for v
      using servedI [OF Some [unfolded x]] f that by blast
    then show ?thesis using run False f assms(1) Some x
      by (cases y) (auto simp: Let_def split: sum.splits)
  next
    case True
    obtain d c where g: "cache_Get (cs_cache s) (ce_clock env (cs_net s)) key = (d, c)"
      by (cases "cache_Get (cs_cache s) (ce_clock env (cs_net s)) key")
    have c: "lru.faithful (served env m) c" using lru.faithful_lookup [OF assms(1), of _ key] g by (metis snd_conv)
    show ?thesis
    proof (cases d)
      case (Some data)
      then have "served env m key data" using lru.faithful_answer [OF assms(1)] g by blast
      with run True g Some c \<open>call_key env m record idx = Some x\<close> x show ?thesis by auto
    next
      case None
      obtain y h where f: "fetchResponseData env m url kv idx record (cs_net s) = (y, h)"
        by (cases "fetchResponseData env m url kv idx record (cs_net s)")
      have sv: "served env m key v" if "y = Ran (Inr v)" for v
        using servedI [OF \<open>call_key env m record idx = Some x\<close> [unfolded x]] f that by blast
      then have "lru.faithful (served env m) (cache_Set ks c t key v ttl)" if "y = Ran (Inr v)" for v ks t ttl
        using lru.faithful_store [OF c, of key v "\<lambda>_. ks" t ttl] that by simp
      with run True g None c f sv \<open>call_key env m record idx = Some x\<close> x show ?thesis
        by (cases y) (auto simp: Let_def split: sum.splits)
    qed
  qed
qed

text \<open>
  What a successful batch returns: the results of the records in order, a failed record left
  out under skip and annotated under log.
\<close>

definition record_result ::
  "'h call_env \<Rightarrow> HTTPCallModule \<Rightarrow> nat \<Rightarrow> grecord option \<Rightarrow> call_error + grecord \<Rightarrow> records" where
  "record_result env m i r res =
     (case res of
        Inr x \<Rightarrow> [Some x]
      | Inl (err, attempts) \<Rightarrow>
          if hc_onError m = OnErrorLog
          then [Some (AnnotateRecord r (NewMarker (rc_url (ce_ctx env)) (call_source m (int i) attempts) (Some err)))]
          else [])"

definition processed :: "'h call_env \<Rightarrow> HTTPCallModule \<Rightarrow> nat \<Rightarrow> grecord option \<Rightarrow> call_error + grecord \<Rightarrow> bool" where
  "processed env m i r res \<longleftrightarrow>
     (\<exists>s hit s'. call_processRecord env m (case r of None \<Rightarrow> Map.empty | Some x \<Rightarrow> x) (int i) s = (Ran (res, hit), s'))"

lemma processedI:
  "call_processRecord env m (case r of None \<Rightarrow> Map.empty | Some x \<Rightarrow> x) (int i) s = (Ran (res, hit), s')
   \<Longrightarrow> processed env m i r res"
  unfolding processed_def by blast

fun batch :: "'h call_env \<Rightarrow> HTTPCallModule \<Rightarrow> nat \<Rightarrow> records \<Rightarrow> (call_error + grecord) list \<Rightarrow> records option" where
  "batch env m i [] [] = Some []"
| "batch env m i (r # rs) (res # results) =
     map_option (\<lambda>out. record_result env m i r res @ out) (batch env m (Suc i) rs results)"
| "batch env m i _ _ = None"

definition batch_runs :: "'h call_env \<Rightarrow> HTTPCallModule \<Rightarrow> nat \<Rightarrow> records \<Rightarrow> (call_error + grecord) list \<Rightarrow> bool" where
  "batch_runs env m i rs results \<longleftrightarrow> list_all2 (\<lambda>(j, r) res. processed env m j r res) (enumerate i rs) results
     \<and> (hc_onError m = OnErrorFail \<longrightarrow> list_all (\<lambda>x. \<not> isl x) results)"

lemma batch_runs_Cons:
  "batch_runs env m (Suc i) rs results \<Longrightarrow> processed env m i r res \<Longrightarrow> (hc_onError m = OnErrorFail \<Longrightarrow> \<not> isl res)
   \<Longrightarrow> batch_runs env m i (r # rs) (res # results)"
  by (simp add: batch_runs_def)

lemma call_loop_success:
  assumes "call_loop env m i rs result t s = (Ran (Inr out), t', s')"
    and "hc_onError m \<in> {OnErrorFail, OnErrorSkip, OnErrorLog}"
  shows "\<exists>results rest. batch_runs env m i rs results \<and> batch env m i rs results = Some rest \<and> out = result @ rest"
  using assms(1)
proof (induction rs arbitrary: i result t s)
  case Nil
  then show ?case by (intro exI [of _ "[]"]) (simp add: batch_runs_def)
next
  case (Cons r rs)
  have live: "rc_done (ce_ctx env) (cs_net s) = None" using Cons.prems by (auto split: option.splits)
  obtain y s1 where run: "call_processRecord env m (case r of None \<Rightarrow> Map.empty | Some x \<Rightarrow> x) (int i) s = (y, s1)"
    by (meson surj_pair)
  obtain x hit where y: "y = Ran (x, hit)" using Cons.prems live run by (cases y) auto
  note pr = processedI [OF run[unfolded y]]
  have step: ?case
    if "call_loop env m (Suc i) rs (result @ record_result env m i r x) t1 s1 = (Ran (Inr out), t', s')"
      "hc_onError m = OnErrorFail \<Longrightarrow> \<not> isl x" for t1
  proof -
    from Cons.IH [OF that(1)] obtain results rest where b: "batch_runs env m (Suc i) rs results"
        "batch env m (Suc i) rs results = Some rest" "out = (result @ record_result env m i r x) @ rest" by blast
    show ?thesis
      by (rule exI [of _ "x # results"], rule exI [of _ "record_result env m i r x @ rest"])
        (simp add: b batch_runs_Cons [OF b(1) pr that(2)])
  qed
  show ?case
  proof (cases x)
    case (Inr enriched)
    with Cons.prems live run y show ?thesis by (intro step [of t]) (simp_all add: record_result_def)
  next
    case (Inl e)
    obtain err att where e: "e = (err, att)" by (cases e)
    note now = Cons.prems live run y Inl e
    consider "hc_onError m = OnErrorFail" | "hc_onError m = OnErrorSkip" | "hc_onError m = OnErrorLog"
      using assms(2) by blast
    then show ?thesis
    proof cases
      case 1
      with now show ?thesis by (simp add: outcome_simps)
    next
      case 2
      with now show ?thesis by (intro step [of t]) (simp_all add: record_result_def outcome_simps)
    next
      case 3
      with now show ?thesis by (intro step) (simp_all add: record_result_def outcome_simps)
    qed
  qed
qed

lemma call_loop_failure:
  assumes "call_loop env m i rs result t s = (Ran (Inl err), t', s')"
    and "hc_onError m \<in> {OnErrorFail, OnErrorSkip, OnErrorLog}"
  shows "(\<exists>h. rc_done (ce_ctx env) h = Some err)
    \<or> (hc_onError m = OnErrorFail
       \<and> (\<exists>j att. j < length rs \<and> processed env m (i + j) (rs ! j) (Inl (err, att))))"
  using assms(1)
proof (induction rs arbitrary: i result t s)
  case Nil
  then show ?case by simp
next
  case (Cons r rs)
  show ?case
  proof (cases "rc_done (ce_ctx env) (cs_net s)")
    case (Some e)
    with Cons.prems show ?thesis by auto
  next
    case live: None
    obtain y s1 where run: "call_processRecord env m (case r of None \<Rightarrow> Map.empty | Some x \<Rightarrow> x) (int i) s = (y, s1)"
      by (meson surj_pair)
    obtain x hit where y: "y = Ran (x, hit)" using Cons.prems live run by (cases y) auto
    note pr = processedI [OF run[unfolded y]]
    have step: ?thesis
      if "call_loop env m (Suc i) rs result' t1 s1 = (Ran (Inl err), t', s')" for result' t1
    proof -
      from Cons.IH [OF that] show ?thesis
        by (metis Suc_less_eq add_Suc_shift length_Cons nth_Cons_Suc)
    qed
    show ?thesis
    proof (cases x)
      case (Inr enriched)
      with Cons.prems live run y show ?thesis by (intro step [of _ t]) simp
    next
      case (Inl e)
      obtain err' att where e: "e = (err', att)" by (cases e)
      note now = Cons.prems live run y Inl e
      consider "hc_onError m = OnErrorFail" | "hc_onError m = OnErrorSkip" | "hc_onError m = OnErrorLog"
        using assms(2) by blast
      then show ?thesis
      proof cases
        case 1
        with now have "err' = err" by (simp add: outcome_simps)
        with pr Inl e have "processed env m (i + 0) ((r # rs) ! 0) (Inl (err, att))" by simp
        with 1 show ?thesis by (metis length_greater_0_conv list.distinct(1))
      next
        case 2
        with now show ?thesis by (intro step) (simp add: outcome_simps)
      next
        case 3
        with now show ?thesis by (intro step) (simp add: outcome_simps)
      qed
    qed
  qed
qed

text \<open>
  What a batch returns. A batch that succeeds has processed every record, in order, and
  returns their results in order: a failed record is left out under skip, kept with its error
  marker under log, and under fail there is none. A batch that fails does so because the
  context ended or, under fail only, with the error of one of its records.
\<close>
theorem call_Process_outcome:
  assumes "hc_onError m \<in> {OnErrorFail, OnErrorSkip, OnErrorLog}"
    and "call_Process env m rs t s = (Ran res, t', s')"
  shows "case res of
      Inr out \<Rightarrow> \<exists>results. batch_runs env m 0 rs results \<and> batch env m 0 rs results = Some out
    | Inl err \<Rightarrow> (\<exists>h. rc_done (ce_ctx env) h = Some err)
        \<or> (hc_onError m = OnErrorFail \<and> (\<exists>j att. j < length rs \<and> processed env m j (rs ! j) (Inl (err, att))))"
proof (cases res)
  case (Inl err)
  with assms(2) call_loop_failure [OF _ assms(1), of env 0 rs "[]" t s err t' s'] show ?thesis
    by (simp add: call_Process_def)
next
  case (Inr out)
  with assms(2) call_loop_success [OF _ assms(1), of env 0 rs "[]" t s out t' s'] show ?thesis
    by (simp add: call_Process_def)
qed

text \<open>
  With the default cache key the request body and the templated headers do not identify the
  call: two records whose bodies differ share one entry, so that the second record gets the
  first record's response and its request is never sent.
\<close>

theorem body_not_in_cache_key:
  assumes "hc_cacheEnabled m" "hc_cacheKey m = []" "hc_keys m = []" "hc_queryParams m = []"
    and "\<not> HasVariables (hc_endpoint m)" "0 < hc_cacheTTL m"
    and "call_processRecord env m r1 i s = (Ran (Inr x, False), s1)"
  shows "\<exists>data s2. call_processRecord env m r2 j s1 = (Ran (mergeData env m r2 data j None, True), s2)
      \<and> Inr x = mergeData env m r1 data i None \<and> cs_net s2 = cs_net s1"
proof -
  have bru: "buildRequestURL env m None r = NormalizeURL (ce_parse_url env) (hc_endpoint m)" for r
    using assms by (simp add: buildRequestURL_def path_keys_def query_keys_def applyQueryParams_def)
  show ?thesis
  proof (cases "NormalizeURL (ce_parse_url env) (hc_endpoint m)")
    case (Inl e)
    with assms bru have "call_key env m r1 i = None" by (simp add: call_key_def)
    from processRecord_nokey [OF this, of s] assms show ?thesis by auto
  next
    case (Inr url)
    define k where "k = url @ ''::''"
    have key: "call_key env m r n = Some (None, url, k)" for r n
      using assms bru Inr by (simp add: call_key_def buildCacheKey_def compositeKeyString_def k_def)
    obtain d c where g: "cache_Get (cs_cache s) (ce_clock env (cs_net s)) k = (d, c)"
      by (cases "cache_Get (cs_cache s) (ce_clock env (cs_net s)) k")
    obtain y h where f: "fetchResponseData env m url None i r1 (cs_net s) = (y, h)"
      by (cases "fetchResponseData env m url None i r1 (cs_net s)")
    note run = assms(7)[unfolded processRecord_key [OF key]]
    have d: "d = None" using run g assms(1) by (cases d) (auto simp: Let_def)
    obtain data where y: "y = Ran (Inr data)" and m1: "mergeData env m r1 data i None = Inr x"
      and s1: "s1 = s\<lparr>cs_cache := cache_Set (ce_order env c) c (ce_clock env h) k data (hc_cacheTTL m), cs_net := h\<rparr>"
      using run g d f assms(1) by (cases y) (auto simp: Let_def split: sum.splits)
    have "fst (cache_Get (cs_cache s1) (ce_clock env (cs_net s1)) k) = Some data"
      using assms(6) by (simp add: s1 cache_Get_view cache_Set_view)
    then obtain c' where "cache_Get (cs_cache s1) (ce_clock env (cs_net s1)) k = (Some data, c')"
      by (cases "cache_Get (cs_cache s1) (ce_clock env (cs_net s1)) k") simp
    then have "call_processRecord env m r2 j s1 = (Ran (mergeData env m r2 data j None, True), s1\<lparr>cs_cache := c'\<rparr>)"
      using assms(1) by (simp add: processRecord_key [OF key])
    with m1 show ?thesis by (intro exI [of _ data] exI [of _ "s1\<lparr>cs_cache := c'\<rparr>"]) simp
  qed
qed

subsection \<open>A concrete call\<close>

definition demo_call_env :: "http_response list call_env" where
  "demo_call_env = \<lparr>ce_ctx = demo_ctx, ce_client = (\<lambda>_. demo_client), ce_render = (\<lambda>src _ _. Inr src),
     ce_parse_url = (\<lambda>s. Inr \<lparr>url_scheme = ''http'', url_host = ''h'', url_query = [], print_with = (\<lambda>_. s)\<rparr>),
     ce_rules = \<lparr>ValidHeaderFieldName = (\<lambda>_. True), ValidHeaderFieldValue = (\<lambda>_. True)\<rparr>,
     ce_unmarshal = (\<lambda>_. Inr [''b'' \<mapsto> GInt 2]), ce_auth = None, ce_fmt_v = (\<lambda>_. ''v''), ce_fmt_T = (\<lambda>_. ''T''),
     ce_clock = (\<lambda>_. 0), ce_order = (\<lambda>_. [])\<rparr>"

definition demo_call :: HTTPCallModule where
  "demo_call = \<lparr>hc_endpoint = ''http://h'', hc_method = ''GET'', hc_keys = [], hc_retry = DefaultRetryConfig,
     hc_hint = (\<lambda>_. (False, False)), hc_cacheEnabled = True, hc_mergeStrategy = ''merge'', hc_resultKey = [],
     hc_dataField = [], hc_onError = OnErrorLog, hc_headers = [], hc_cacheTTL = 10, hc_cacheKey = [],
     hc_bodyTemplate = [], hc_queryParams = [], hc_overrides = \<lparr>Functional = [], Technical = []\<rparr>\<rparr>"

definition demo_call_state :: "http_response list call_state" where
  "demo_call_state = \<lparr>cs_net = [demo_response 200], cs_cache = NewLRUCache 10 0\<rparr>"

lemma demo_novars: "\<not> HasVariables ''http://h''"
  by code_simp

lemma demo_key: "call_key demo_call_env demo_call record idx = Some (None, ''http://h'', ''http://h::'')"
  using demo_novars
  by (simp add: call_key_def demo_call_def demo_call_env_def buildRequestURL_def path_keys_def query_keys_def
      applyQueryParams_def NormalizeURL_def buildCacheKey_def compositeKeyString_def)

lemma absolute_URL_valid:
  "\<lbrakk>trim_space raw \<noteq> []; parse raw = Inr p; url_scheme p \<in> {''http'', ''https''}; url_host p \<noteq> []\<rbrakk>
   \<Longrightarrow> ValidateAbsoluteURL u parse raw = None"
  by (auto simp: ValidateAbsoluteURL_def Let_def)

lemma demo_trim: "trim_space ''http://h'' \<noteq> []"
  by code_simp

lemma demo_build: "\<exists>req. buildHTTPRequest demo_call_env demo_call ''http://h'' None idx record h = (Inr req, h)"
proof -
  from demo_trim have "ValidateAbsoluteURL u (ce_parse_url demo_call_env) ''http://h'' = None" for u
    by (rule absolute_URL_valid [where p = "\<lparr>url_scheme = ''http'', url_host = ''h'', url_query = [],
        print_with = (\<lambda>_. ''http://h'')\<rparr>"]) (simp_all add: demo_call_env_def)
  then show ?thesis
    by (simp add: buildHTTPRequest_def demo_call_env_def demo_call_def Let_def)
qed

lemma demo_fetch:
  "\<exists>h'. fetchResponseData demo_call_env demo_call ''http://h'' None idx record [demo_response 200]
     = (Ran (Inr (GMap [''b'' \<mapsto> GInt 2])), h')"
proof -
  obtain req where b: "buildHTTPRequest demo_call_env demo_call ''http://h'' None idx record [demo_response 200]
      = (Inr req, [demo_response 200])" using demo_build by blast
  have att: "attempt_fn u DefaultRetryConfig (call_hooks demo_call) q (counting_client demo_client)
      \<lparr>ds_attempt = n, ds_lastResp = None, ds_net = ([demo_response 200], 0)\<rparr>
    = (Inl (demo_response 200), \<lparr>ds_attempt = n + 1, ds_lastResp = Some (demo_response 200), ds_net = ([], 0)\<rparr>)" for u q n
    by (simp add: attempt_fn_def counting_client_def demo_client_def call_hooks_def demo_call_def demo_readBody
        body_forces_retry_def Let_def)
  have "\<exists>a. DoWithRetry (counting_ctx demo_ctx) (Some (counting_client demo_client)) q DefaultRetryConfig
      (call_hooks demo_call) ([demo_response 200], 0) = ((Some (demo_response 200), None), ([], a))" for q
  proof -
    let ?e = "do_env (counting_ctx demo_ctx) DefaultRetryConfig (call_hooks demo_call) q (counting_client demo_client)"
    have e: "run_fn ?e = attempt_fn demo_env DefaultRetryConfig (call_hooks demo_call) q (counting_client demo_client)"
        "ctx_done ?e s = None" "env_url ?e = demo_env" for s
      by (simp_all add: do_env_def counting_ctx_def demo_ctx_def split: prod.split)
    have net: "\<exists>a. ds_net (on_attempt ?e x y z \<lparr>ds_attempt = n, ds_lastResp = l, ds_net = (h, k)\<rparr>) = (h, a)
        \<and> ds_lastResp (on_attempt ?e x y z \<lparr>ds_attempt = n, ds_lastResp = l, ds_net = (h, k)\<rparr>) = l" for x y z n l h k
      by (simp add: do_env_def call_hooks_def)
    show ?thesis using net
      by (simp add: DoWithRetry_def ExecuteWithHooks_def hooks_loop.simps e att Let_def)
  qed
  then obtain a where "DoWithRetry (counting_ctx demo_ctx) (Some (counting_client demo_client))
      \<lparr>rq_Method = cr_Method req, rq_URL = cr_URL req\<rparr> DefaultRetryConfig
      (call_hooks demo_call) ([demo_response 200], 0) = ((Some (demo_response 200), None), ([], a))" by blast
  with b show ?thesis
    by (simp add: fetchResponseData_def executeHTTPRequest_def demo_call_env_def demo_call_def demo_response_def
        parseResponseData_def Let_def)
qed

lemma demo_merge:
  "mergeData demo_call_env demo_call [''a'' \<mapsto> GInt 1] (GMap [''b'' \<mapsto> GInt 2]) idx kv
     = Inr [''a'' \<mapsto> GInt 1, ''b'' \<mapsto> GInt 2]"
proof -
  have m: "mergeStrategyReplace \<noteq> ''merge''" "mergeStrategyAppend \<noteq> ''merge''" by code_simp+
  have "mergeCallMap ''merge'' k [''a'' \<mapsto> GInt 1] [''b'' \<mapsto> GInt 2] = [''a'' \<mapsto> GInt 1, ''b'' \<mapsto> GInt 2]" for k
    using m by (auto simp: mergeCallMap_def deepMerge_apply fun_eq_iff split: option.splits)
  then show ?thesis by (simp add: mergeData_def mergeCallResult_def demo_call_def)
qed

lemma demo_call_run:
  "\<exists>s'. call_processRecord demo_call_env demo_call [''a'' \<mapsto> GInt 1] 0 demo_call_state
     = (Ran (Inr [''a'' \<mapsto> GInt 1, ''b'' \<mapsto> GInt 2], False), s')"
proof -
  have on: "hc_cacheEnabled demo_call" by (simp add: demo_call_def)
  have miss: "cache_Get (NewLRUCache 10 0 :: gval LRUCache) t k = (None, (NewLRUCache 10 0)\<lparr>misses := 1\<rparr>)" for t k
    by (simp add: cache_Get_def NewLRUCache_def)
  obtain h' where "fetchResponseData demo_call_env demo_call ''http://h'' None 0 [''a'' \<mapsto> GInt 1] [demo_response 200]
      = (Ran (Inr (GMap [''b'' \<mapsto> GInt 2])), h')" using demo_fetch by blast
  with on miss show ?thesis
    by (simp add: processRecord_key [OF demo_key] demo_call_state_def demo_merge Let_def)
qed

theorem call_cache_faithful_witness:
  "\<exists>v. served demo_call_env demo_call ''http://h::'' v
     \<and> mergeData demo_call_env demo_call [''a'' \<mapsto> GInt 1] v 0 None = Inr [''a'' \<mapsto> GInt 1, ''b'' \<mapsto> GInt 2]"
proof -
  obtain s' where run: "call_processRecord demo_call_env demo_call [''a'' \<mapsto> GInt 1] 0 demo_call_state
     = (Ran (Inr [''a'' \<mapsto> GInt 1, ''b'' \<mapsto> GInt 2], False), s')" using demo_call_run by blast
  have "lru.faithful (served demo_call_env demo_call) (cs_cache demo_call_state)"
    by (rule lru.faithful_empty) (simp add: demo_call_state_def NewLRUCache_def cache_view_def)
  from call_cache_faithful [OF this run] demo_key show ?thesis by auto
qed

theorem call_Process_outcome_witness:
  "\<exists>results. batch_runs demo_call_env demo_call 0 [Some [''a'' \<mapsto> GInt 1]] results
     \<and> batch demo_call_env demo_call 0 [Some [''a'' \<mapsto> GInt 1]] results
         = Some [Some [''a'' \<mapsto> GInt 1, ''b'' \<mapsto> GInt 2]]"
proof -
  obtain s' where "call_processRecord demo_call_env demo_call [''a'' \<mapsto> GInt 1] 0 demo_call_state
     = (Ran (Inr [''a'' \<mapsto> GInt 1, ''b'' \<mapsto> GInt 2], False), s')" using demo_call_run by blast
  then have "call_Process demo_call_env demo_call [Some [''a'' \<mapsto> GInt 1]] None demo_call_state
      = (Ran (Inr [Some [''a'' \<mapsto> GInt 1, ''b'' \<mapsto> GInt 2]]), None, s')"
    by (simp add: call_Process_def) (simp add: demo_call_env_def demo_ctx_def)
  from call_Process_outcome [OF _ this] show ?thesis by (simp add: demo_call_def)
qed

end
