(* ===== verification/Batching.thy ===== *)
theory Batching
  imports Prelude
begin

text \<open>
  Grouping records into requests: \<open>src/internal/modules/output/batching.go\<close> and
  \<open>request_mode.go\<close>, and the success condition of a response
  (\<open>http_request_success.go\<close>). Shared by the HTTP and the SOAP output.
\<close>

subsection \<open>Request mode and batch size\<close>

abbreviation requestModeBatch :: string where "requestModeBatch \<equiv> ''batch''"
abbreviation requestModeSingle :: string where "requestModeSingle \<equiv> ''single''"

datatype output_config_error =
    ErrInvalidRequestMode string string
  | ErrNegativeBatchSize string int
  | ErrBatchSizeInSingleMode string
  | ErrKeyField nat | ErrKeyParamTypeMissing nat | ErrKeyParamType nat string | ErrKeyParamName nat
  | ErrNoStatusCodes | ErrStatusCodeRange int | ErrDuplicateStatusCode int
  | ErrExpressionTooLong nat | ErrExpressionInvalid string

definition normalizeRequestMode :: "string \<Rightarrow> string \<Rightarrow> output_config_error + string" where
  "normalizeRequestMode mode moduleType =
     (if mode = [] then Inr requestModeBatch
      else if mode = requestModeBatch \<or> mode = requestModeSingle then Inr mode
      else Inl (ErrInvalidRequestMode moduleType mode))"

definition normalizeBatchSize :: "int \<Rightarrow> string \<Rightarrow> string \<Rightarrow> output_config_error + int" where
  "normalizeBatchSize batchSize requestMode moduleType =
     (if batchSize = 0 then Inr 0
      else if batchSize < 0 then Inl (ErrNegativeBatchSize moduleType batchSize)
      else if requestMode = requestModeSingle then Inl (ErrBatchSizeInSingleMode moduleType)
      else Inr batchSize)"

text \<open>\<open>slices.Chunk\<close>: full slices of \<open>n\<close> elements, the last one possibly shorter.\<close>

function slices_Chunk :: "'a list \<Rightarrow> nat \<Rightarrow> 'a list list" where
  "slices_Chunk xs n =
     (if xs = [] \<or> n = 0 then [] else take n xs # slices_Chunk (drop n xs) n)"
  by pat_completeness auto
termination
  by (relation "measure (\<lambda>(xs, n). length xs)") auto

declare slices_Chunk.simps [simp del]

definition chunkRecords :: "'a list \<Rightarrow> int \<Rightarrow> 'a list list" where
  "chunkRecords records n =
     (if length records = 0 then []
      else if n \<le> 0 then [records]
      else slices_Chunk records (nat n))"

subsection \<open>Facts\<close>

lemma slices_Chunk_concat: "0 < n \<Longrightarrow> concat (slices_Chunk xs n) = xs"
  by (induction xs n rule: slices_Chunk.induct) (subst slices_Chunk.simps, auto)

lemma slices_Chunk_sizes:
  "0 < n \<Longrightarrow> list_all (\<lambda>b. b \<noteq> [] \<and> length b \<le> n) (slices_Chunk xs n)
    \<and> list_all (\<lambda>b. length b = n) (butlast (slices_Chunk xs n))"
proof (induction xs n rule: slices_Chunk.induct)
  case (1 xs n)
  show ?case
  proof (cases "xs = []")
    case True
    then show ?thesis by (subst (1 2) slices_Chunk.simps) simp
  next
    case False
    have "slices_Chunk (drop n xs) n \<noteq> [] \<Longrightarrow> length (take n xs) = n"
      by (subst (asm) slices_Chunk.simps) (auto split: if_splits)
    with 1 False show ?thesis by (subst (1 2) slices_Chunk.simps) auto
  qed
qed

lemma Suc_div: "0 < n \<Longrightarrow> (m + n) div n = Suc (m div n)" for m n :: nat
  by simp

lemma slices_Chunk_length: "0 < n \<Longrightarrow> length (slices_Chunk xs n) = (length xs + n - 1) div n"
proof (induction xs n rule: slices_Chunk.induct)
  case (1 xs n)
  show ?case
  proof (cases "xs = []")
    case True
    with 1 show ?thesis by (subst slices_Chunk.simps) simp
  next
    case False
    have "length (slices_Chunk xs n) = Suc ((length (drop n xs) + n - 1) div n)"
      using 1 False by (subst slices_Chunk.simps) simp
    also have "\<dots> = (length xs + n - 1) div n"
    proof (cases "n \<le> length xs")
      case True
      then have e: "length xs + n - 1 = (length (drop n xs) + n - 1) + n" using 1(2) by simp
      have "((length (drop n xs) + n - 1) + n) div n = Suc ((length (drop n xs) + n - 1) div n)"
        by (rule Suc_div [OF 1(2)])
      then show ?thesis by (simp only: e)
    next
      case short: False
      then have e: "length xs + n - 1 = (length xs - 1) + n" "length xs - 1 < n" using False by (cases xs; simp)+
      have "((length xs - 1) + n) div n = Suc ((length xs - 1) div n)"
        by (rule Suc_div [OF 1(2)])
      moreover have "(length (drop n xs) + n - 1) div n = 0" "(length xs - 1) div n = 0"
        using short e(2) 1(2) by simp_all
      ultimately show ?thesis by (simp only: e(1))
    qed
    finally show ?thesis .
  qed
qed

subsection \<open>Properties\<close>

text \<open>
  Batching loses nothing: the batches, in order, are the records, in order; none is empty,
  none exceeds the configured size and all but the last are full; without a size there is one
  batch, and their number is the quotient rounded up.
\<close>
theorem chunkRecords_correct:
  "concat (chunkRecords records n) = records
   \<and> list_all (\<lambda>b. b \<noteq> [] \<and> (0 < n \<longrightarrow> int (length b) \<le> n)) (chunkRecords records n)
   \<and> (0 < n \<longrightarrow> list_all (\<lambda>b. int (length b) = n) (butlast (chunkRecords records n))
        \<and> int (length (chunkRecords records n)) = (int (length records) + n - 1) div n)
   \<and> (n \<le> 0 \<longrightarrow> length (chunkRecords records n) \<le> 1)"
proof (cases "0 < n \<and> records \<noteq> []")
  case True
  define k where "k = nat n"
  have n: "0 < k" "n = int k" using True by (auto simp: k_def)
  have "int ((length records + k - 1) div k) = (int (length records) + int k - 1) div int k"
    using n True by (simp add: zdiv_int of_nat_diff)
  with True n slices_Chunk_concat [OF n(1), of records] slices_Chunk_sizes [OF n(1), of records]
    slices_Chunk_length [OF n(1), of records]
  show ?thesis by (auto simp: chunkRecords_def list_all_iff)
next
  case False
  then show ?thesis by (auto simp: chunkRecords_def)
qed

theorem chunkRecords_correct_witness:
  "length (chunkRecords [1::nat, 2, 3, 4, 5] 2) = 3 \<and> concat (chunkRecords [1::nat, 2, 3, 4, 5] 2) = [1, 2, 3, 4, 5]"
  using chunkRecords_correct [of "[1::nat, 2, 3, 4, 5]" 2] by simp

end
