(* ===== verification/HttpOutput.thy ===== *)
theory HttpOutput
  imports HttpCall Batching
begin

text \<open>
  The httpRequest output, \<open>src/internal/modules/output/http_request*.go\<close>: one request per batch
  or per record, its URL, headers and body resolved from the (first) record, sent through
  \<open>DoWithRetry\<close>, the response judged by the configured success condition. The parameters are
  those of the http_call filter (\<open>call_env\<close>), JSON coding, the expression engine and the
  authentication handler.
\<close>

subsection \<open>Configuration\<close>

record 'h auth_handler =
  ah_Type :: string
  ah_Apply :: "call_request \<Rightarrow> 'h \<Rightarrow> (gerr + call_request) \<times> 'h"
  ah_Invalidate :: "('h \<Rightarrow> 'h) option"
  ah_Preview :: "(call_request \<Rightarrow> 'h \<Rightarrow> gerr + call_request) option"

record 'h out_env =
  oe_call :: "'h call_env"
  oe_handler :: "'h auth_handler option"
  oe_marshal :: "records \<Rightarrow> gerr + string"
  oe_marshal_one :: "grecord option \<Rightarrow> gerr + string"
  oe_unmarshal :: "string \<Rightarrow> gerr + gval"
  oe_expr :: "int \<Rightarrow> http_response \<Rightarrow> gval \<Rightarrow> gerr + gval"
  oe_media_type :: "string \<Rightarrow> string option"
  oe_order :: "(string \<Rightarrow> string option) \<Rightarrow> string list"
  oe_indent :: "records \<Rightarrow> gerr + string"
  oe_indent_one :: "grecord option \<Rightarrow> gerr + string"

record HTTPRequestModule =
  ho_endpoint :: string
  ho_method :: string
  ho_headers :: "(string \<times> string) list"
  ho_requestMode :: string
  ho_batchSize :: int
  ho_keys :: "KeyConfig list"
  ho_queryParams :: "(string \<times> string) list"
  ho_body :: string
  ho_retry :: RetryConfig
  ho_onError :: strategy
  ho_successCodes :: "int list option"
  ho_successExpression :: string
  ho_hint :: "string \<Rightarrow> bool \<times> bool"
  ho_bodyTarget :: string
  ho_contentTypeTemplated :: bool
  ho_defaultBodyDisabled :: bool

text \<open>The world of the module: the network and \<open>lastRetryInfo\<close>.\<close>

record 'h out_state =
  os_net :: 'h
  os_lastRetryInfo :: "retry_info option"

definition MaxOAuth2Retries :: int where "MaxOAuth2Retries = 2"

definition ErrOAuth2InvalidCredentials :: gerr where
  "ErrOAuth2InvalidCredentials =
     NodeE KPlain ''OAuth2 credentials appear invalid after token refresh'' None None None [] False"

definition ErrJSONMarshal :: gerr where
  "ErrJSONMarshal = NodeE KPlain ''failed to marshal records to JSON'' None None None [] False"

text \<open>\<open>fmt.Errorf\<close> with two \<open>%w\<close>.\<close>

definition errorf2 :: "string \<Rightarrow> gerr \<Rightarrow> gerr \<Rightarrow> gerr" where
  "errorf2 msg a b = NodeE KPlain msg None None None [a, b] True"

definition validateRequestKeyEntries :: "KeyConfig list \<Rightarrow> output_config_error option" where
  "validateRequestKeyEntries keys =
     first_some (\<lambda>(i, k).
        if kc_Field k = [] then Some (ErrKeyField i)
        else if kc_ParamType k = [] then Some (ErrKeyParamTypeMissing i)
        else if kc_ParamType k \<noteq> ''query'' \<and> kc_ParamType k \<noteq> ''path'' \<and> kc_ParamType k \<noteq> ''header''
        then Some (ErrKeyParamType i (kc_ParamType k))
        else if kc_ParamName k = [] then Some (ErrKeyParamName i)
        else None) (enumerate 0 keys)"

text \<open>The success condition: the status codes and the expression, whose compiler is a parameter.\<close>

definition MaxSuccessExpressionLength :: nat where "MaxSuccessExpressionLength = 10000"

definition defaultSuccessCodes :: "int list" where "defaultSuccessCodes = [200, 201, 202, 203, 204]"

fun check_status_codes :: "int list \<Rightarrow> int list \<Rightarrow> output_config_error option" where
  "check_status_codes seen [] = None"
| "check_status_codes seen (code # codes) =
     (if code < 100 \<or> code > 599 then Some (ErrStatusCodeRange code)
      else if code \<in> set seen then Some (ErrDuplicateStatusCode code)
      else check_status_codes (code # seen) codes)"

definition validateSuccessStatusCodes :: "int list \<Rightarrow> output_config_error option" where
  "validateSuccessStatusCodes codes = (if length codes = 0 then Some ErrNoStatusCodes else check_status_codes [] codes)"

text \<open>The configuration is the expression and the codes, where nil differs from an empty list.\<close>

definition buildSuccessCondition ::
  "(string \<Rightarrow> string option) \<Rightarrow> (string \<times> int list option) option
   \<Rightarrow> output_config_error + (int list option \<times> string)" where
  "buildSuccessCondition compile_error cfg =
     (case cfg of
        None \<Rightarrow> Inr (Some defaultSuccessCodes, [])
      | Some (expression, statusCodes) \<Rightarrow>
          (case Option.bind statusCodes validateSuccessStatusCodes of
             Some err \<Rightarrow> Inl err
           | None \<Rightarrow>
               if expression \<noteq> [] \<and> length expression > MaxSuccessExpressionLength
               then Inl (ErrExpressionTooLong (length expression))
               else (case (if expression \<noteq> [] then compile_error expression else None) of
                       Some e \<Rightarrow> Inl (ErrExpressionInvalid e)
                     | None \<Rightarrow>
                         if expression = [] \<and> statusCodes = None then Inr (Some defaultSuccessCodes, [])
                         else Inr (statusCodes, expression))))"

subsection \<open>Values of a record\<close>

definition ValueToString :: "(gval \<Rightarrow> string) \<Rightarrow> gval \<Rightarrow> string" where
  "ValueToString fmt_v v =
     (case v of
        GNil \<Rightarrow> []
      | GStr s \<Rightarrow> s
      | GFloat (FFin r) \<Rightarrow>
          if r = of_int \<lfloor>r\<rfloor> \<and> int64_min \<le> \<lfloor>r\<rfloor> \<and> \<lfloor>r\<rfloor> \<le> int64_max then itoa \<lfloor>r\<rfloor> else fmt_v v
      | GInt i \<Rightarrow> itoa i
      | GBool b \<Rightarrow> (if b then ''true'' else ''false'')
      | _ \<Rightarrow> fmt_v v)"

definition requireRecordFieldString :: "(gval \<Rightarrow> string) \<Rightarrow> grecord \<Rightarrow> string \<Rightarrow> gerr + string" where
  "requireRecordFieldString fmt_v record path =
     (let fail = (\<lambda>why. Inl (NodeE KPlain (''field \"'' @ path @ ''\" is '' @ why @ '' in record'') None None None [] False))
      in (case Get record path of
            None \<Rightarrow> fail ''missing''
          | Some GNil \<Rightarrow> fail ''null''
          | Some v \<Rightarrow> (let str = ValueToString fmt_v v in if str = [] then fail ''empty'' else Inr str)))"

subsection \<open>URL\<close>

fun out_path_keys :: "(gval \<Rightarrow> string) \<Rightarrow> grecord \<Rightarrow> KeyConfig list \<Rightarrow> string \<Rightarrow> gerr + string" where
  "out_path_keys fmt_v record [] endpoint = Inr endpoint"
| "out_path_keys fmt_v record (k # ks) endpoint =
     (if kc_ParamType k = ''path''
      then (case requireRecordFieldString fmt_v record (kc_Field k) of
              Inl err \<Rightarrow> Inl (errorf (''path key \"'' @ kc_ParamName k @ ''\": '' @ err_text err) err)
            | Inr value \<Rightarrow> out_path_keys fmt_v record ks
                (ReplaceAll (''{'' @ kc_ParamName k @ ''}'') (PathEscape value) endpoint))
      else out_path_keys fmt_v record ks endpoint)"

fun out_query_keys ::
  "(gval \<Rightarrow> string) \<Rightarrow> grecord \<Rightarrow> KeyConfig list \<Rightarrow> (string \<times> string) list \<Rightarrow> gerr + (string \<times> string) list" where
  "out_query_keys fmt_v record [] params = Inr params"
| "out_query_keys fmt_v record (k # ks) params =
     (if kc_ParamType k = ''query''
      then (case requireRecordFieldString fmt_v record (kc_Field k) of
              Inl err \<Rightarrow> Inl (errorf (''query key \"'' @ kc_ParamName k @ ''\": '' @ err_text err) err)
            | Inr value \<Rightarrow> out_query_keys fmt_v record ks (put_param (kc_ParamName k) value params))
      else out_query_keys fmt_v record ks params)"

definition hasQueryKey :: "HTTPRequestModule \<Rightarrow> bool" where
  "hasQueryKey m = list_ex (\<lambda>k. kc_ParamType k = ''query'') (ho_keys m)"

definition validateURL :: "(string \<Rightarrow> gerr + go_url) \<Rightarrow> string \<Rightarrow> gerr option" where
  "validateURL parse urlStr =
     (let plain = (\<lambda>msg. NodeE KPlain msg None None None [] False)
      in if urlStr = [] then Some (plain ''empty URL'')
         else (case parse urlStr of
                 Inl err \<Rightarrow> Some (errorf (''invalid URL format: '' @ err_text err) err)
               | Inr u \<Rightarrow>
                   if url_scheme u = [] then Some (plain ''URL missing scheme'')
                   else if (url_scheme u = ''http'' \<or> url_scheme u = ''https'') \<and> url_host u = []
                   then Some (plain ''URL missing host'')
                   else None))"

definition resolveEndpointWithStaticQuery :: "'h out_env \<Rightarrow> HTTPRequestModule \<Rightarrow> string \<Rightarrow> string" where
  "resolveEndpointWithStaticQuery env m endpoint =
     (case MergeQueryParams (ce_parse_url (oe_call env)) endpoint (ho_queryParams m) of
        Inl err \<Rightarrow> endpoint | Inr merged \<Rightarrow> merged)"

definition out_query ::
  "'h out_env \<Rightarrow> HTTPRequestModule \<Rightarrow> grecord \<Rightarrow> string \<Rightarrow> gerr + string" where
  "out_query env m record endpoint =
     (if length (ho_queryParams m) > 0 \<or> hasQueryKey m
      then (case render_params (oe_call env) record (ho_queryParams m) of
              Inl err \<Rightarrow> Inl err
            | Inr params \<Rightarrow>
                (case out_query_keys (ce_fmt_v (oe_call env)) record (ho_keys m) params of
                   Inl err \<Rightarrow> Inl err
                 | Inr params \<Rightarrow>
                     (case MergeQueryParams (ce_parse_url (oe_call env)) endpoint params of
                        Inl err \<Rightarrow> Inl (errorf (''parsing endpoint URL after template evaluation: '' @ err_text err) err)
                      | Inr merged \<Rightarrow> Inr merged)))
      else Inr endpoint)"

definition resolveEndpointForRecord :: "'h out_env \<Rightarrow> HTTPRequestModule \<Rightarrow> grecord \<Rightarrow> gerr + string" where
  "resolveEndpointForRecord env m record =
     (case (if HasVariables (ho_endpoint m)
            then (case ce_render (oe_call env) (ho_endpoint m) ''url'' record of
                    Inl err \<Rightarrow> Inl (errorf (''evaluating endpoint template: '' @ err_text err) err)
                  | Inr r \<Rightarrow> Inr r)
            else Inr (ho_endpoint m)) of
        Inl err \<Rightarrow> Inl err
      | Inr endpoint \<Rightarrow>
          (case out_path_keys (ce_fmt_v (oe_call env)) record (ho_keys m) endpoint of
             Inl err \<Rightarrow> Inl err
           | Inr endpoint \<Rightarrow>
               (case out_query env m record endpoint of
                  Inl err \<Rightarrow> Inl err
                | Inr finalURL \<Rightarrow>
                    (case validateURL (ce_parse_url (oe_call env)) finalURL of
                       Some err \<Rightarrow> Inl (errorf (''endpoint is invalid after template evaluation: '' @ err_text err) err)
                     | None \<Rightarrow> NormalizeURL (ce_parse_url (oe_call env)) finalURL))))"

text \<open>A nil record reads as an empty map.\<close>

abbreviation rec_fields :: "grecord option \<Rightarrow> grecord" where
  "rec_fields r \<equiv> (case r of None \<Rightarrow> Map.empty | Some x \<Rightarrow> x)"

definition resolveEndpointForBatch :: "'h out_env \<Rightarrow> HTTPRequestModule \<Rightarrow> string \<Rightarrow> records \<Rightarrow> gerr + string" where
  "resolveEndpointForBatch env m endpoint records =
     (case records of
        [] \<Rightarrow> Inr (resolveEndpointWithStaticQuery env m endpoint)
      | r # _ \<Rightarrow> resolveEndpointForRecord env m (rec_fields r))"

subsection \<open>Headers\<close>

fun out_header_fold ::
  "'h out_env \<Rightarrow> grecord \<Rightarrow> (string \<times> string) list \<Rightarrow> (string \<Rightarrow> string option) \<Rightarrow> gerr + (string \<Rightarrow> string option)" where
  "out_header_fold env record [] headers = Inr headers"
| "out_header_fold env record ((name, value) # hs) headers =
     (case (if HasVariables value
            then (case ce_render (oe_call env) value ''text'' record of
                    Inl err \<Rightarrow> Inl (errorf (''evaluating header \"'' @ name @ ''\": '' @ err_text err) err)
                  | Inr v \<Rightarrow> Inr (v, v = []))
            else Inr (value, False)) of
        Inl err \<Rightarrow> Inl err
      | Inr (v, skip) \<Rightarrow>
          if skip then out_header_fold env record hs headers
          else (case AddValidatedHeader (ce_rules (oe_call env)) headers name v of
                  Inl err \<Rightarrow> Inl (errorf (''invalid header \"'' @ name @ ''\": '' @ err_text err) err)
                | Inr headers \<Rightarrow> out_header_fold env record hs headers))"

fun out_key_headers ::
  "'h out_env \<Rightarrow> grecord \<Rightarrow> KeyConfig list \<Rightarrow> (string \<Rightarrow> string option) \<Rightarrow> gerr + (string \<Rightarrow> string option)" where
  "out_key_headers env record [] headers = Inr headers"
| "out_key_headers env record (k # ks) headers =
     (if kc_ParamType k = ''header''
      then (case requireRecordFieldString (ce_fmt_v (oe_call env)) record (kc_Field k) of
              Inl err \<Rightarrow> Inl (errorf (''header key \"'' @ kc_ParamName k @ ''\": '' @ err_text err) err)
            | Inr value \<Rightarrow>
                (case AddValidatedHeader (ce_rules (oe_call env)) headers (kc_ParamName k) value of
                   Inl err \<Rightarrow> Inl (errorf (''invalid key header \"'' @ kc_ParamName k @ ''\": '' @ err_text err) err)
                 | Inr headers \<Rightarrow> out_key_headers env record ks headers))
      else out_key_headers env record ks headers)"

definition extractHeadersFromRecord ::
  "'h out_env \<Rightarrow> HTTPRequestModule \<Rightarrow> grecord \<Rightarrow> gerr + (string \<Rightarrow> string option)" where
  "extractHeadersFromRecord env m record =
     (case out_header_fold env record (ho_headers m) Map.empty of
        Inl err \<Rightarrow> Inl err
      | Inr headers \<Rightarrow> out_key_headers env record (ho_keys m) headers)"

fun static_headers ::
  "header_rules \<Rightarrow> (string \<times> string) list \<Rightarrow> (string \<Rightarrow> string option) \<Rightarrow> gerr + (string \<Rightarrow> string option)" where
  "static_headers rules [] headers = Inr headers"
| "static_headers rules ((name, value) # hs) headers =
     (if HasVariables value then static_headers rules hs headers
      else (case AddValidatedHeader rules headers name value of
              Inl err \<Rightarrow> Inl (errorf (''invalid header \"'' @ name @ ''\": '' @ err_text err) err)
            | Inr headers \<Rightarrow> static_headers rules hs headers))"

definition buildBaseHeadersMap ::
  "'h out_env \<Rightarrow> HTTPRequestModule \<Rightarrow> (string \<Rightarrow> string option) \<Rightarrow> gerr + (string \<Rightarrow> string option)" where
  "buildBaseHeadersMap env m recordHeaders =
     (case static_headers (ce_rules (oe_call env)) (ho_headers m)
             [''User-Agent'' \<mapsto> ''Cannectors-Runtime/1.0'', ''Content-Type'' \<mapsto> ''application/json''] of
        Inl err \<Rightarrow> Inl err
      | Inr headers \<Rightarrow> Inr (headers ++ recordHeaders))"

subsection \<open>Body\<close>

definition jsonContentTypeFromHeaders :: "(string \<Rightarrow> string option) \<Rightarrow> (string \<Rightarrow> string option) \<Rightarrow> bool" where
  "jsonContentTypeFromHeaders media headers =
     (let contentType = (case headers ''Content-Type'' of None \<Rightarrow> [] | Some v \<Rightarrow> v);
          contentType = (if contentType = [] then ''application/json'' else contentType)
      in (case media contentType of
            None \<Rightarrow> False
          | Some mediaType \<Rightarrow> mediaType = ''application/json'' \<or> suffix ''+json'' mediaType))"

definition bodyTargetFor :: "'h out_env \<Rightarrow> HTTPRequestModule \<Rightarrow> grecord \<Rightarrow> string" where
  "bodyTargetFor env m record =
     (if \<not> ho_contentTypeTemplated m then ho_bodyTarget m
      else (case ce_render (oe_call env) (case map_of (ho_headers m) ''Content-Type'' of None \<Rightarrow> [] | Some v \<Rightarrow> v)
                   ''text'' record of
              Inl err \<Rightarrow> ''json''
            | Inr rendered \<Rightarrow>
                if rendered = [] then ''json''
                else if jsonContentTypeFromHeaders (oe_media_type env) [''Content-Type'' \<mapsto> rendered] then ''json''
                else ''text''))"

definition buildBodyForRecord :: "'h out_env \<Rightarrow> HTTPRequestModule \<Rightarrow> grecord option \<Rightarrow> gerr + string" where
  "buildBodyForRecord env m record =
     (if ho_body m \<noteq> [] then
        (case ce_render (oe_call env) (ho_body m) (bodyTargetFor env m (rec_fields record)) (rec_fields record) of
           Inl err \<Rightarrow> Inl (errorf (''evaluating body template: '' @ err_text err) err)
         | Inr body \<Rightarrow> Inr body)
      else if ho_defaultBodyDisabled m then Inr []
      else oe_marshal_one env (StripFromRecord record DefaultFieldName))"

text \<open>The body of a batch: a template sees only the first record.\<close>

definition batch_body :: "'h out_env \<Rightarrow> HTTPRequestModule \<Rightarrow> records \<Rightarrow> gerr + string" where
  "batch_body env m records =
     (if ho_body m \<noteq> [] then
        (case records of
           [] \<Rightarrow> Inr (ho_body m)
         | r # _ \<Rightarrow>
             (case ce_render (oe_call env) (ho_body m) (bodyTargetFor env m (rec_fields r)) (rec_fields r) of
                Inl err \<Rightarrow> Inl (errorf (''evaluating body template: '' @ err_text err) err)
              | Inr body \<Rightarrow> Inr body))
      else if ho_defaultBodyDisabled m then Inr []
      else (case oe_marshal env (the (StripFromRecords (Some records) DefaultFieldName)) of
              Inl err \<Rightarrow> Inl (errorf2 (err_text ErrJSONMarshal @ '': '' @ err_text err) ErrJSONMarshal err)
            | Inr body \<Rightarrow> Inr body))"

subsection \<open>The request\<close>

definition out_buildHTTPRequest ::
  "'h out_env \<Rightarrow> HTTPRequestModule \<Rightarrow> string \<Rightarrow> string \<Rightarrow> (string \<Rightarrow> string option) \<Rightarrow> 'h
   \<Rightarrow> (gerr + call_request) \<times> 'h" where
  "out_buildHTTPRequest env m endpoint body recordHeaders h =
     (case ValidateAbsoluteURL (rc_url (ce_ctx (oe_call env))) (ce_parse_url (oe_call env)) endpoint of
        Some err \<Rightarrow> (Inl err, h)
      | None \<Rightarrow>
          (case buildBaseHeadersMap env m recordHeaders of
             Inl err \<Rightarrow> (Inl err, h)
           | Inr headers \<Rightarrow>
               let req = \<lparr>cr_Method = ho_method m, cr_URL = endpoint,
                          cr_Headers = set_headers Map.empty (oe_order env headers) headers, cr_Body = Some body\<rparr>
               in (case oe_handler env of
                     None \<Rightarrow> (Inr req, h)
                   | Some handler \<Rightarrow>
                       (case ah_Apply handler req h of
                          (Inl err, h) \<Rightarrow> (Inl (errorf (''applying authentication: '' @ err_text err) err), h)
                        | (Inr req, h) \<Rightarrow> (Inr req, h)))))"

definition statusAllowedAsSuccess :: "HTTPRequestModule \<Rightarrow> int \<Rightarrow> bool" where
  "statusAllowedAsSuccess m statusCode =
     (case ho_successCodes m of
        None \<Rightarrow> True
      | Some codes \<Rightarrow> statusCode \<in> set codes \<or> statusCode < 400)"

text \<open>\<open>regexp\<close> \<open>\bbody\b\<close>: the word with no word character next to it.\<close>

definition word_char :: "char \<Rightarrow> bool" where
  "word_char c =
     (let n = (of_char c :: nat)
      in (48 \<le> n \<and> n \<le> 57) \<or> (65 \<le> n \<and> n \<le> 90) \<or> (97 \<le> n \<and> n \<le> 122) \<or> n = 95)"

definition expressionReferencesBody :: "string \<Rightarrow> bool" where
  "expressionReferencesBody e =
     list_ex (\<lambda>i. prefix ''body'' (drop i e) \<and> (i = 0 \<or> \<not> word_char (e ! (i - 1)))
                  \<and> (i + 4 \<ge> length e \<or> \<not> word_char (e ! (i + 4)))) [0..<length e]"

definition errSuccessExpressionBodyNotJSON :: gerr where
  "errSuccessExpressionBodyNotJSON =
     NodeE KPlain ''httpRequest success.expression references body but response is not valid JSON'' None None None [] False"

definition evaluateSuccessExpression ::
  "'h out_env \<Rightarrow> HTTPRequestModule \<Rightarrow> http_response \<Rightarrow> string \<Rightarrow> gerr + bool" where
  "evaluateSuccessExpression env m resp body =
     (if ho_successExpression m = [] then Inr True
      else (case (if length body > 0
                  then (case oe_unmarshal env body of
                          Inl err \<Rightarrow> if expressionReferencesBody (ho_successExpression m)
                                     then Inl errSuccessExpressionBodyNotJSON else Inr GNil
                        | Inr parsedBody \<Rightarrow> Inr parsedBody)
                  else Inr GNil) of
              Inl err \<Rightarrow> Inl err
            | Inr value \<Rightarrow>
                (case oe_expr env (rs_StatusCode resp) resp value of
                   Inl err \<Rightarrow> Inl (errorf (''httpRequest success.expression evaluation failed: '' @ err_text err) err)
                 | Inr result \<Rightarrow>
                     (case as_bool result of
                        None \<Rightarrow> Inl (NodeE KPlain (''httpRequest success.expression must return a boolean (got ''
                                  @ ce_fmt_T (oe_call env) result @ '')'') None None None [] False)
                      | Some matched \<Rightarrow> Inr matched))))"

definition isResponseSuccess ::
  "'h out_env \<Rightarrow> HTTPRequestModule \<Rightarrow> http_response \<Rightarrow> string \<Rightarrow> gerr + bool" where
  "isResponseSuccess env m resp body =
     (let statusOK = (case ho_successCodes m of None \<Rightarrow> True | Some codes \<Rightarrow> rs_StatusCode resp \<in> set codes)
      in (case evaluateSuccessExpression env m resp body of
            Inl err \<Rightarrow> Inl err | Inr exprOK \<Rightarrow> Inr (statusOK \<and> exprOK)))"

text \<open>
  The variables the hooks close over: the count of OAuth2 refreshes and the delays. They are
  kept beside the network while \<open>DoWithRetry\<close> runs.
\<close>

definition handleOAuth2Unauthorized ::
  "'h out_env \<Rightarrow> http_response \<Rightarrow> 'h \<times> int \<times> int list \<Rightarrow> bool \<times> ('h \<times> int \<times> int list)" where
  "handleOAuth2Unauthorized env resp = (\<lambda>(h, retryCount, delays).
     if rs_StatusCode resp \<noteq> 401 then (False, (h, retryCount, delays))
     else (case Option.bind (oe_handler env) ah_Invalidate of
             None \<Rightarrow> (False, (h, retryCount, delays))
           | Some invalidate \<Rightarrow>
               if retryCount \<ge> MaxOAuth2Retries then (False, (h, retryCount, delays))
               else (True, (invalidate h, retryCount + 1, delays))))"

definition out_hooks :: "'h out_env \<Rightarrow> HTTPRequestModule \<Rightarrow> ('h \<times> int \<times> int list) retry_hooks" where
  "out_hooks env m =
     \<lparr>OnRetry = Some (\<lambda>attempt err nextDelay (h, n, delays).
                  if err = None then (h, n, delays)
                  else (h, n, if nextDelay > 0 then delays @ [duration_ms nextDelay] else delays)),
      ShouldRetryBody = Some (ho_hint m),
      OnAttemptFailure = Some (\<lambda>_ resp _ w. handleOAuth2Unauthorized env resp w),
      IsSuccessStatus = Some (statusAllowedAsSuccess m)\<rparr>"

text \<open>\<open>recordRetryFailure\<close> and \<open>recordRetrySuccess\<close>, whose only effect is \<open>lastRetryInfo\<close>.\<close>

definition failure_info :: "int list \<Rightarrow> retry_info" where
  "failure_info delaysMs =
     zero_info\<lparr>TotalAttempts := int (length delaysMs) + 1, RetryCount := int (length delaysMs),
               RetryDelaysMs := delaysMs\<rparr>"

definition success_info :: "int list \<Rightarrow> retry_info option" where
  "success_info delaysMs = (if length delaysMs > 0 then Some (failure_info delaysMs) else None)"

definition invalid_credentials :: "string \<Rightarrow> int \<Rightarrow> gerr" where
  "invalid_credentials endpoint status =
     errorf (err_text ErrOAuth2InvalidCredentials @ '': endpoint='' @ endpoint @ '' status='' @ itoa status)
       ErrOAuth2InvalidCredentials"

text \<open>
  What the response \<open>DoWithRetry\<close> returned means: \<open>None\<close> for success. Its body has been read
  and rewound, so that reading it again fails only if the rewound body does.
\<close>

definition judge_response ::
  "'h out_env \<Rightarrow> HTTPRequestModule \<Rightarrow> string \<Rightarrow> int \<Rightarrow> http_response \<Rightarrow> gerr option" where
  "judge_response env m endpoint refreshes resp =
     (let respBody = take maxErrorBodyBytes (rs_stream resp)
      in (case (if length (rs_stream resp) < maxErrorBodyBytes then rs_stream_err resp else None) of
            Some readErr \<Rightarrow> Some (errorf (''reading response body: '' @ err_text readErr) readErr)
          | None \<Rightarrow>
              (case isResponseSuccess env m resp respBody of
                 Inl err \<Rightarrow> Some err
               | Inr True \<Rightarrow> None
               | Inr False \<Rightarrow>
                   if rs_StatusCode resp = 401 \<and> refreshes \<ge> MaxOAuth2Retries
                   then Some (invalid_credentials endpoint (rs_StatusCode resp))
                   else
                     let snippet = (if length respBody > 500 then take 500 respBody @ ''...'' else respBody)
                     in Some (ClassifiedE (set_original
                          (NodeE (KHTTPError (rs_RetryAfter resp))
                             (http_Error_Error (rc_url (ce_ctx (oe_call env))) (rs_StatusCode resp) (rs_Status resp)
                                endpoint (ho_method m) ''status not in successCodes'') None None None [] False)
                          (ClassifyHTTPStatus (rs_StatusCode resp) snippet))))))"

definition doRequestWithHeaders ::
  "'h out_env \<Rightarrow> HTTPRequestModule \<Rightarrow> string \<Rightarrow> string \<Rightarrow> (string \<Rightarrow> string option) \<Rightarrow> 'h out_state
   \<Rightarrow> gerr option maybe_panic \<times> 'h out_state" where
  "doRequestWithHeaders env m endpoint body recordHeaders s =
     (case out_buildHTTPRequest env m endpoint body recordHeaders (os_net s) of
        (Inl err, h) \<Rightarrow> (Ran (Some err), s\<lparr>os_net := h\<rparr>)
      | (Inr req, h) \<Rightarrow>
          let ((resp, err), (h, refreshes, delays)) =
                DoWithRetry (counting_ctx (ce_ctx (oe_call env)))
                  (Some (counting_client (ce_client (oe_call env) req)))
                  \<lparr>rq_Method = cr_Method req, rq_URL = cr_URL req\<rparr> (ho_retry m) (out_hooks env m) (h, 0, []);
              s = s\<lparr>os_net := h\<rparr>
          in (case err of
                Some err \<Rightarrow>
                  let err = (case resp of
                               Some r \<Rightarrow> if refreshes \<ge> MaxOAuth2Retries \<and> rs_StatusCode r = 401
                                         then invalid_credentials endpoint (rs_StatusCode r) else err
                             | None \<Rightarrow> err)
                  in (Ran (Some err), s\<lparr>os_lastRetryInfo := Some (failure_info delays)\<rparr>)
              | None \<Rightarrow>
                  (case resp of
                     None \<Rightarrow> (NilPointerPanic, s)
                   | Some r \<Rightarrow>
                       (case judge_response env m endpoint refreshes r of
                          Some err \<Rightarrow> (Ran (Some err), s\<lparr>os_lastRetryInfo := Some (failure_info delays)\<rparr>)
                        | None \<Rightarrow> (Ran None, s\<lparr>os_lastRetryInfo := success_info delays\<rparr>)))))"

subsection \<open>Sending\<close>

definition sendOneBatch ::
  "'h out_env \<Rightarrow> HTTPRequestModule \<Rightarrow> records \<Rightarrow> 'h out_state \<Rightarrow> gerr option maybe_panic \<times> 'h out_state" where
  "sendOneBatch env m records s =
     (case batch_body env m records of
        Inl err \<Rightarrow> (Ran (Some err), s)
      | Inr body \<Rightarrow>
          (case resolveEndpointForBatch env m (ho_endpoint m) records of
             Inl err \<Rightarrow> (Ran (Some err), s)
           | Inr endpoint \<Rightarrow>
               (case (case records of
                        [] \<Rightarrow> Inr Map.empty | r # _ \<Rightarrow> extractHeadersFromRecord env m (rec_fields r)) of
                  Inl err \<Rightarrow> (Ran (Some err), s)
                | Inr headers \<Rightarrow> doRequestWithHeaders env m endpoint body headers s)))"

text \<open>The loop of \<open>sendBatchMode\<close>, from batch \<open>i\<close> on.\<close>

fun batch_loop ::
  "'h out_env \<Rightarrow> HTTPRequestModule \<Rightarrow> nat \<Rightarrow> records list \<Rightarrow> int \<Rightarrow> 'h out_state
   \<Rightarrow> (int \<times> gerr option) maybe_panic \<times> 'h out_state" where
  "batch_loop env m i [] sent s = (Ran (sent, None), s)"
| "batch_loop env m i (b # bs) sent s =
     (case rc_done (ce_ctx (oe_call env)) (os_net s) of
        Some e \<Rightarrow> (Ran (sent, Some e), s)
      | None \<Rightarrow>
          (case sendOneBatch env m b s of
             (NilPointerPanic, s) \<Rightarrow> (NilPointerPanic, s)
           | (Ran (Some err), s) \<Rightarrow>
               if ho_onError m = OnErrorSkip \<or> ho_onError m = OnErrorLog
               then batch_loop env m (Suc i) bs sent s
               else (Ran (sent, Some (errorf (''httpRequest batch '' @ itoa (int i) @ '': '' @ err_text err) err)), s)
           | (Ran None, s) \<Rightarrow> batch_loop env m (Suc i) bs (sent + int (length b)) s))"

definition sendBatchMode ::
  "'h out_env \<Rightarrow> HTTPRequestModule \<Rightarrow> records \<Rightarrow> 'h out_state \<Rightarrow> (int \<times> gerr option) maybe_panic \<times> 'h out_state" where
  "sendBatchMode env m records s = batch_loop env m 0 (chunkRecords records (ho_batchSize m)) 0 s"

text \<open>The work of \<open>sendSingleRecordMode\<close> for one record; the error carries the text of its wrap.\<close>

definition send_record ::
  "'h out_env \<Rightarrow> HTTPRequestModule \<Rightarrow> nat \<Rightarrow> grecord option \<Rightarrow> 'h out_state \<Rightarrow> gerr option maybe_panic \<times> 'h out_state" where
  "send_record env m i record s =
     (let wrap = (\<lambda>err. errorf (''at record '' @ itoa (int i) @ '': '' @ err_text err) err)
      in (case buildBodyForRecord env m record of
            Inl err \<Rightarrow>
              (Ran (Some (errorf2 (err_text ErrJSONMarshal @ '' at record '' @ itoa (int i) @ '': '' @ err_text err)
                            ErrJSONMarshal err)), s)
          | Inr body \<Rightarrow>
              (case resolveEndpointForRecord env m (rec_fields record) of
                 Inl err \<Rightarrow> (Ran (Some (wrap err)), s)
               | Inr endpoint \<Rightarrow>
                   (case extractHeadersFromRecord env m (rec_fields record) of
                      Inl err \<Rightarrow> (Ran (Some (wrap err)), s)
                    | Inr headers \<Rightarrow> doRequestWithHeaders env m endpoint body headers s))))"

fun single_loop ::
  "'h out_env \<Rightarrow> HTTPRequestModule \<Rightarrow> nat \<Rightarrow> records \<Rightarrow> int \<Rightarrow> 'h out_state
   \<Rightarrow> (int \<times> gerr option) maybe_panic \<times> 'h out_state" where
  "single_loop env m i [] sent s = (Ran (sent, None), s)"
| "single_loop env m i (r # rs) sent s =
     (case send_record env m i r s of
        (NilPointerPanic, s) \<Rightarrow> (NilPointerPanic, s)
      | (Ran (Some err), s) \<Rightarrow>
          if ho_onError m = OnErrorFail then (Ran (sent, Some err), s)
          else single_loop env m (Suc i) rs sent s
      | (Ran None, s) \<Rightarrow> single_loop env m (Suc i) rs (sent + 1) s)"

definition sendSingleRecordMode ::
  "'h out_env \<Rightarrow> HTTPRequestModule \<Rightarrow> records \<Rightarrow> 'h out_state \<Rightarrow> (int \<times> gerr option) maybe_panic \<times> 'h out_state" where
  "sendSingleRecordMode env m records s = single_loop env m 0 records 0 s"

definition output_Send ::
  "'h out_env \<Rightarrow> HTTPRequestModule \<Rightarrow> records \<Rightarrow> 'h out_state \<Rightarrow> (int \<times> gerr option) maybe_panic \<times> 'h out_state" where
  "output_Send env m records s =
     (if length records = 0 then (Ran (0, None), s)
      else if ho_requestMode m = requestModeSingle then sendSingleRecordMode env m records s
      else sendBatchMode env m records s)"

definition output_GetRetryInfo :: "'h out_state \<Rightarrow> retry_info option" where
  "output_GetRetryInfo s = os_lastRetryInfo s"

subsection \<open>Previews\<close>

record HTTPPreview =
  pv_Endpoint :: string
  pv_Method :: string
  pv_Headers :: "string \<Rightarrow> string option"
  pv_BodyPreview :: string
  pv_RecordCount :: int

definition maskValue :: "string \<Rightarrow> string" where
  "maskValue valueType = ''[MASKED-'' @ map ascii_upper valueType @ '']''"

definition addMaskedAuthHeaders ::
  "'h out_env \<Rightarrow> (string \<Rightarrow> string option) \<Rightarrow> (string \<Rightarrow> string option)" where
  "addMaskedAuthHeaders env headers =
     (case oe_handler env of
        None \<Rightarrow> headers
      | Some handler \<Rightarrow>
          if ah_Type handler = ''api-key'' then headers(''X-API-Key'' \<mapsto> maskValue ''api-key'')
          else if ah_Type handler = ''bearer'' then headers(''Authorization'' \<mapsto> ''Bearer '' @ maskValue ''token'')
          else if ah_Type handler = ''basic'' then headers(''Authorization'' \<mapsto> ''Basic '' @ maskValue ''credentials'')
          else if ah_Type handler = ''oauth2'' then headers(''Authorization'' \<mapsto> ''Bearer '' @ maskValue ''oauth2-token'')
          else if headers ''Authorization'' = None then headers(''Authorization'' \<mapsto> maskValue ''auth'')
          else headers)"

text \<open>
  The credentials are read off a mock request that is never sent. \<open>http.NewRequestWithContext\<close>
  does not fail on its constant URL.
\<close>

definition mockReq :: call_request where
  "mockReq = \<lparr>cr_Method = ''GET'', cr_URL = ''http://example.com'', cr_Headers = Map.empty, cr_Body = None\<rparr>"

definition addUnmaskedAuthHeaders ::
  "'h out_env \<Rightarrow> (string \<Rightarrow> string option) \<Rightarrow> 'h \<Rightarrow> (string \<Rightarrow> string option) \<times> 'h" where
  "addUnmaskedAuthHeaders env headers h =
     (case oe_handler env of
        None \<Rightarrow> (headers, h)
      | Some handler \<Rightarrow>
          (case (case ah_Preview handler of
                   Some previewer \<Rightarrow> (previewer mockReq h, h)
                 | None \<Rightarrow> ah_Apply handler mockReq h) of
             (Inl err, h) \<Rightarrow> (addMaskedAuthHeaders env headers, h)
           | (Inr req, h) \<Rightarrow> (headers ++ cr_Headers req, h)))"

definition buildPreviewHeaders ::
  "'h out_env \<Rightarrow> HTTPRequestModule \<Rightarrow> (string \<Rightarrow> string option) \<Rightarrow> bool \<Rightarrow> 'h
   \<Rightarrow> (gerr + (string \<Rightarrow> string option)) \<times> 'h" where
  "buildPreviewHeaders env m recordHeaders showCredentials h =
     (case buildBaseHeadersMap env m recordHeaders of
        Inl err \<Rightarrow> (Inl err, h)
      | Inr headers \<Rightarrow>
          if showCredentials
          then (case addUnmaskedAuthHeaders env headers h of (headers, h) \<Rightarrow> (Inr headers, h))
          else (Inr (addMaskedAuthHeaders env headers), h))"

definition maxBodyPreviewSize :: nat where "maxBodyPreviewSize = 1024 * 1024"

text \<open>\<open>strings.LastIndex\<close> of a newline, \<open>-1\<close> without one.\<close>

definition LastNewline :: "string \<Rightarrow> int" where
  "LastNewline s = (if CHR 0x0A \<in> set s then int (length s) - 1 - int (length (takeWhile (\<lambda>c. c \<noteq> CHR 0x0A) (rev s))) else -1)"

definition truncate_preview :: "string \<Rightarrow> string" where
  "truncate_preview s =
     (if length s \<le> maxBodyPreviewSize then s
      else let truncated = take maxBodyPreviewSize s;
               lastNewline = LastNewline truncated;
               truncated = (if lastNewline > int maxBodyPreviewSize - 100 then take (nat lastNewline) truncated else truncated)
           in truncated @ CHR 0x0A # ''... (truncated, '' @ itoa (int (length s)) @ '' bytes total, ''
                @ itoa (int (length truncated)) @ '' bytes shown)'')"

definition formatJSONPreview :: "(gerr + string) \<Rightarrow> gerr + string" where
  "formatJSONPreview marshalled = (case marshalled of Inl err \<Rightarrow> Inl err | Inr s \<Rightarrow> Inr (truncate_preview s))"

definition previewOneBatch ::
  "'h out_env \<Rightarrow> HTTPRequestModule \<Rightarrow> bool \<Rightarrow> records \<Rightarrow> 'h \<Rightarrow> (gerr + HTTPPreview) \<times> 'h" where
  "previewOneBatch env m showCredentials records h =
     (case resolveEndpointForBatch env m (ho_endpoint m) records of
        Inl err \<Rightarrow> (Inl err, h)
      | Inr endpoint \<Rightarrow>
          (case formatJSONPreview (oe_indent env records) of
             Inl err \<Rightarrow> (Inl (errorf (''formatting body preview: '' @ err_text err) err), h)
           | Inr bodyPreview \<Rightarrow>
               (case (case records of
                        [] \<Rightarrow> Inr Map.empty | r # _ \<Rightarrow> extractHeadersFromRecord env m (rec_fields r)) of
                  Inl err \<Rightarrow> (Inl err, h)
                | Inr batchHeaders \<Rightarrow>
                    (case buildPreviewHeaders env m batchHeaders showCredentials h of
                       (Inl err, h) \<Rightarrow> (Inl err, h)
                     | (Inr headers, h) \<Rightarrow>
                         (Inr \<lparr>pv_Endpoint = endpoint, pv_Method = ho_method m, pv_Headers = headers,
                               pv_BodyPreview = bodyPreview, pv_RecordCount = int (length records)\<rparr>, h)))))"

text \<open>The body of the loop of \<open>previewSingleRecordMode\<close>.\<close>

definition preview_record ::
  "'h out_env \<Rightarrow> HTTPRequestModule \<Rightarrow> bool \<Rightarrow> grecord option \<Rightarrow> 'h \<Rightarrow> (gerr + HTTPPreview) \<times> 'h" where
  "preview_record env m showCredentials record h =
     (case resolveEndpointForRecord env m (rec_fields record) of
        Inl err \<Rightarrow> (Inl err, h)
      | Inr endpoint \<Rightarrow>
          (case formatJSONPreview (oe_indent_one env record) of
             Inl err \<Rightarrow> (Inl (errorf (''formatting body preview: '' @ err_text err) err), h)
           | Inr bodyPreview \<Rightarrow>
               (case extractHeadersFromRecord env m (rec_fields record) of
                  Inl err \<Rightarrow> (Inl err, h)
                | Inr recordHeaders \<Rightarrow>
                    (case buildPreviewHeaders env m recordHeaders showCredentials h of
                       (Inl err, h) \<Rightarrow> (Inl err, h)
                     | (Inr headers, h) \<Rightarrow>
                         (Inr \<lparr>pv_Endpoint = endpoint, pv_Method = ho_method m, pv_Headers = headers,
                               pv_BodyPreview = bodyPreview, pv_RecordCount = 1\<rparr>, h)))))"

text \<open>The two loops: the first error ends them.\<close>

fun preview_all :: "('b \<Rightarrow> 'h \<Rightarrow> (gerr + HTTPPreview) \<times> 'h) \<Rightarrow> 'b list \<Rightarrow> 'h \<Rightarrow> (gerr + HTTPPreview list) \<times> 'h" where
  "preview_all f [] h = (Inr [], h)"
| "preview_all f (x # xs) h =
     (case f x h of
        (Inl err, h) \<Rightarrow> (Inl err, h)
      | (Inr preview, h) \<Rightarrow>
          (case preview_all f xs h of (Inl err, h) \<Rightarrow> (Inl err, h) | (Inr ps, h) \<Rightarrow> (Inr (preview # ps), h)))"

definition previewBatchMode ::
  "'h out_env \<Rightarrow> HTTPRequestModule \<Rightarrow> records \<Rightarrow> bool \<Rightarrow> 'h \<Rightarrow> (gerr + HTTPPreview list) \<times> 'h" where
  "previewBatchMode env m records showCredentials h =
     preview_all (previewOneBatch env m showCredentials) (chunkRecords records (ho_batchSize m)) h"

definition previewSingleRecordMode ::
  "'h out_env \<Rightarrow> HTTPRequestModule \<Rightarrow> records \<Rightarrow> bool \<Rightarrow> 'h \<Rightarrow> (gerr + HTTPPreview list) \<times> 'h" where
  "previewSingleRecordMode env m records showCredentials h =
     preview_all (preview_record env m showCredentials) records h"

definition PreviewOperations ::
  "'h out_env \<Rightarrow> HTTPRequestModule \<Rightarrow> records \<Rightarrow> bool \<Rightarrow> 'h \<Rightarrow> (gerr + HTTPPreview list) \<times> 'h" where
  "PreviewOperations env m records showCredentials h =
     (if length records = 0 then (Inr [], h)
      else if ho_requestMode m = requestModeSingle then previewSingleRecordMode env m records showCredentials h
      else previewBatchMode env m records showCredentials h)"

subsection \<open>Facts: the requests of a send\<close>

text \<open>
  A send makes one request per batch, or per record in single mode. \<open>request_run\<close> is the run of
  the request for one group of records, \<open>request_result\<close> holds of a result some such run ended with.
\<close>

definition request_groups :: "HTTPRequestModule \<Rightarrow> records \<Rightarrow> records list" where
  "request_groups m records =
     (if ho_requestMode m = requestModeSingle then map (\<lambda>r. [r]) records else chunkRecords records (ho_batchSize m))"

definition request_run ::
  "'h out_env \<Rightarrow> HTTPRequestModule \<Rightarrow> records \<Rightarrow> 'h out_state \<Rightarrow> gerr option maybe_panic \<Rightarrow> 'h out_state \<Rightarrow> bool" where
  "request_run env m b s res s' \<longleftrightarrow>
     (if ho_requestMode m = requestModeSingle
      then (\<exists>i r. b = [r] \<and> send_record env m i r s = (res, s'))
      else sendOneBatch env m b s = (res, s'))"

definition request_result :: "'h out_env \<Rightarrow> HTTPRequestModule \<Rightarrow> records \<Rightarrow> gerr option \<Rightarrow> bool" where
  "request_result env m b res \<longleftrightarrow> (\<exists>s s'. request_run env m b s (Ran res) s')"

definition delivered :: "(records \<times> gerr option) list \<Rightarrow> int" where
  "delivered tried = sum_list (map (\<lambda>(b, res). if res = None then int (length b) else 0) tried)"

lemma delivered_simps [simp]:
  "delivered [] = 0"
  "delivered ((b, res) # tried) = (if res = None then int (length b) else 0) + delivered tried"
  by (simp_all add: delivered_def)

text \<open>
  The log of a send: the groups tried with their results. All are tried unless the send ended
  with an error: the end of the context, or under fail the failure of the last group tried.
\<close>

definition send_log ::
  "'h out_env \<Rightarrow> HTTPRequestModule \<Rightarrow> records list \<Rightarrow> gerr option \<Rightarrow> (records \<times> gerr option) list \<Rightarrow> bool" where
  "send_log env m bs err tried \<longleftrightarrow>
     list_all (\<lambda>(b, res). request_result env m b res) tried \<and> prefix (map fst tried) bs
   \<and> (case err of
        None \<Rightarrow> map fst tried = bs \<and> (ho_onError m = OnErrorFail \<longrightarrow> list_all (\<lambda>(b, res). res = None) tried)
      | Some e \<Rightarrow> (\<exists>h. rc_done (ce_ctx (oe_call env)) h = Some e)
          \<or> (ho_onError m = OnErrorFail \<and> tried \<noteq> []
             \<and> (\<exists>err. snd (last tried) = Some err \<and> err \<in> set (err_chain e))
             \<and> list_all (\<lambda>(b, res). res = None) (butlast tried)))"

lemma chain_self: "e \<in> set (err_chain e)"
  by (cases e rule: err_chain.cases) simp_all

lemma send_log_Nil: "send_log env m [] None []"
  by (simp add: send_log_def)

lemma send_log_Cons:
  assumes "send_log env m bs err tried" "request_result env m b res"
    and "res = None \<or> ho_onError m \<noteq> OnErrorFail"
  shows "send_log env m (b # bs) err ((b, res) # tried)"
  using assms by (cases res) (auto simp: send_log_def split: option.splits)

lemma send_log_stop:
  assumes "request_result env m b (Some err)" "ho_onError m = OnErrorFail" "err \<in> set (err_chain e)"
  shows "send_log env m (b # bs) (Some e) [(b, Some err)]"
  using assms by (auto simp: send_log_def)

lemma batch_loop_log:
  assumes "batch_loop env m i bs sent s = (Ran (n, err), s')"
    and "ho_requestMode m \<noteq> requestModeSingle" "ho_onError m \<in> {OnErrorFail, OnErrorSkip, OnErrorLog}"
  shows "\<exists>tried. send_log env m bs err tried \<and> n = sent + delivered tried"
  using assms(1)
proof (induction bs arbitrary: i sent s)
  case Nil
  then show ?case by (intro exI [of _ "[]"]) (simp add: send_log_def)
next
  case (Cons b bs)
  show ?case
  proof (cases "rc_done (ce_ctx (oe_call env)) (os_net s)")
    case (Some e)
    with Cons.prems have "err = Some e" "n = sent" by auto
    with Some show ?thesis by (intro exI [of _ "[]"]) (auto simp: send_log_def)
  next
    case live: None
    obtain y s1 where run: "sendOneBatch env m b s = (y, s1)" by (meson surj_pair)
    obtain res where y: "y = Ran res" using Cons.prems live run by (cases y) auto
    have sent: "request_result env m b res" using run y assms(2) by (auto simp: request_result_def request_run_def)
    show ?thesis
    proof (cases "res = None \<or> ho_onError m \<noteq> OnErrorFail")
      case True
      then have "batch_loop env m (Suc i) bs (sent + (if res = None then int (length b) else 0)) s1 = (Ran (n, err), s')"
        using Cons.prems live run y assms(3) by (cases res) auto
      from Cons.IH [OF this] obtain tried where
        t: "send_log env m bs err tried" "n = sent + (if res = None then int (length b) else 0) + delivered tried" by blast
      from send_log_Cons [OF t(1) sent True] t(2) show ?thesis by (intro exI [of _ "(b, res) # tried"]) auto
    next
      case False
      then obtain e where e: "res = Some e" by auto
      with Cons.prems live run y False have n: "n = sent"
        "err = Some (errorf (''httpRequest batch '' @ itoa (int i) @ '': '' @ err_text e) e)" by auto
      have "e \<in> set (err_chain (errorf msg e))" for msg by (simp add: errorf_def chain_self)
      from send_log_stop [where bs = bs, OF sent [unfolded e] _ this] n False show ?thesis
        by (intro exI [of _ "[(b, Some e)]"]) auto
    qed
  qed
qed

lemma single_loop_log:
  assumes "single_loop env m i rs sent s = (Ran (n, err), s')" "ho_requestMode m = requestModeSingle"
  shows "\<exists>tried. send_log env m (map (\<lambda>r. [r]) rs) err tried \<and> n = sent + delivered tried"
  using assms(1)
proof (induction rs arbitrary: i sent s)
  case Nil
  then show ?case by (intro exI [of _ "[]"]) (simp add: send_log_def)
next
  case (Cons r rs)
  obtain y s1 where run: "send_record env m i r s = (y, s1)" by (meson surj_pair)
  obtain res where y: "y = Ran res" using Cons.prems run by (cases y) auto
  have sent: "request_result env m [r] res" using run y assms(2) by (auto simp: request_result_def request_run_def)
  show ?case
  proof (cases "res = None \<or> ho_onError m \<noteq> OnErrorFail")
    case True
    then have "single_loop env m (Suc i) rs (sent + (if res = None then 1 else 0)) s1 = (Ran (n, err), s')"
      using Cons.prems run y by (cases res) auto
    from Cons.IH [OF this] obtain tried where
      t: "send_log env m (map (\<lambda>r. [r]) rs) err tried" "n = sent + (if res = None then 1 else 0) + delivered tried" by blast
    from send_log_Cons [OF t(1) sent True] t(2) show ?thesis by (intro exI [of _ "([r], res) # tried"]) auto
  next
    case False
    then obtain e where e: "res = Some e" by auto
    with Cons.prems run y False have n: "n = sent" "err = Some e" by auto
    from send_log_stop [where bs = "map (\<lambda>r. [r]) rs", OF sent [unfolded e] _ chain_self] n False show ?thesis
      by (intro exI [of _ "[([r], Some e)]"]) auto
  qed
qed

lemma request_groups_concat: "concat (request_groups m records) = records"
  by (auto simp: request_groups_def chunkRecords_def slices_Chunk_concat)

subsection \<open>Facts: one request\<close>

lemma counting_client_received:
  "do_request (counting_client cl) h = (r, h') \<Longrightarrow> \<exists>g g'. do_request cl g = (r, g')"
  by (cases h) (auto simp: counting_client_def split: prod.splits)

lemma doRequest_received:
  assumes "doRequestWithHeaders env m endpoint body headers s = (Ran None, s')" "0 \<le> MaxAttempts (ho_retry m)"
  shows "\<exists>req h raw h' b resp. do_request (ce_client (oe_call env) req) h = (Inr raw, h') \<and> readBody raw = Inr b
    \<and> resp = raw\<lparr>rs_stream := b, rs_stream_err := None\<rparr>
    \<and> isResponseSuccess env m resp (take maxErrorBodyBytes b) = Inr True
    \<and> \<not> body_forces_retry (out_hooks env m) b"
proof -
  obtain req h where b: "out_buildHTTPRequest env m endpoint body headers (os_net s) = (Inr req, h)"
    using assms(1) by (auto simp: doRequestWithHeaders_def split: prod.splits sum.splits)
  obtain resp err h' n ds where d: "DoWithRetry (counting_ctx (ce_ctx (oe_call env)))
                  (Some (counting_client (ce_client (oe_call env) req)))
                  \<lparr>rq_Method = cr_Method req, rq_URL = cr_URL req\<rparr> (ho_retry m) (out_hooks env m) (h, 0, [])
        = ((resp, err), (h', n, ds))" by (metis surj_pair)
  have err: "err = None" and j: "\<exists>r. resp = Some r \<and> judge_response env m endpoint n r = None"
    using assms(1) b d by (auto simp: doRequestWithHeaders_def Let_def split: option.splits)
  from j obtain r where r: "resp = Some r" "judge_response env m endpoint n r = None" by blast
  from r(2) have ok: "isResponseSuccess env m r (take maxErrorBodyBytes (rs_stream r)) = Inr True"
    by (auto simp: judge_response_def Let_def split: option.splits sum.splits bool.splits if_splits)
  from DoWithRetry_end [OF assms(2) d [unfolded err]] obtain r' s0 s1 where
    a: "resp = ds_lastResp s1" "attempt_fn (rc_url (ce_ctx (oe_call env))) (ho_retry m) (out_hooks env m)
      \<lparr>rq_Method = cr_Method req, rq_URL = cr_URL req\<rparr> (counting_client (ce_client (oe_call env) req)) s0 = (Inl r', s1)"
    by (auto simp: counting_ctx_def)
  from attempt_fn_success [OF a(2)] a(1) r(1) have rr: "r' = r" "\<not> body_forces_retry (out_hooks env m) (rs_stream r)" by auto
  from attempt_fn_received [OF a(2)] rr(1) obtain h2 raw h3 bd where
    g: "do_request (ce_client (oe_call env) req) h2 = (Inr raw, h3)" "readBody raw = Inr bd"
       "r = raw\<lparr>rs_stream := bd, rs_stream_err := None\<rparr>" by (metis counting_client_received)
  with g ok rr show ?thesis by (intro exI conjI) (assumption | simp)+
qed

text \<open>
  \<open>sent\<close> reads the requests sent so far off the network: only \<open>do_request\<close> extends it.
\<close>

definition request_log :: "'h out_env \<Rightarrow> ('h \<Rightarrow> call_request list) \<Rightarrow> bool" where
  "request_log env sent \<longleftrightarrow>
     (\<forall>req h. sent (snd (do_request (ce_client (oe_call env) req) h)) = sent h @ [req])
   \<and> (\<forall>req g h. get_body (ce_client (oe_call env) req) = Some g \<longrightarrow> sent (snd (g h)) = sent h)
   \<and> (\<forall>d h. sent (snd (rc_wait (ce_ctx (oe_call env)) d h)) = sent h)
   \<and> (\<forall>a req h. oe_handler env = Some a \<longrightarrow> sent (snd (ah_Apply a req h)) = sent h)
   \<and> (\<forall>a f h. oe_handler env = Some a \<and> ah_Invalidate a = Some f \<longrightarrow> sent (f h) = sent h)"

lemma build_sends_nothing:
  assumes "request_log env sent" "out_buildHTTPRequest env m endpoint body headers h = (r, h')"
  shows "sent h' = sent h"
proof (cases "oe_handler env")
  case None
  with assms(2) show ?thesis by (auto simp: out_buildHTTPRequest_def Let_def split: option.splits sum.splits)
next
  case (Some a)
  have "sent (snd (ah_Apply a req h)) = sent h" for req h using assms(1) Some by (auto simp: request_log_def)
  from this [of _ h] show ?thesis using assms(2) Some
    by (auto simp: out_buildHTTPRequest_def Let_def split: option.splits sum.splits prod.splits) (metis snd_conv)+
qed

lemma counting_steps:
  "do_request (counting_client cl) (h, a) = (fst (do_request cl h), (snd (do_request cl h), a))"
  "rc_wait (counting_ctx c) d (h, a) = (fst (rc_wait c d h), (snd (rc_wait c d h), a))"
  "get_body (counting_client cl) = map_option (\<lambda>g (h, a). (fst (g h), (snd (g h), a))) (get_body cl)"
  by (simp_all add: counting_client_def counting_ctx_def split_beta)

lemma refresh_sends_nothing:
  assumes "request_log env sent" "handleOAuth2Unauthorized env resp (h, n, ds) = (b, (h', n', ds'))"
    and "0 \<le> n" "n \<le> MaxOAuth2Retries"
  shows "sent h' = sent h \<and> 0 \<le> n' \<and> n' \<le> MaxOAuth2Retries"
  using assms by (auto simp: handleOAuth2Unauthorized_def request_log_def Option.bind_eq_Some_conv
      split: if_splits option.splits)

text \<open>The requests sent are copies of one request, and the refreshes are bounded.\<close>

definition resent :: "call_request \<Rightarrow> call_request list \<Rightarrow> ('h \<Rightarrow> call_request list) \<Rightarrow> 'h \<times> int \<times> int list \<Rightarrow> bool" where
  "resent req before sent w \<longleftrightarrow>
     (\<exists>k. sent (fst w) = before @ replicate k req) \<and> 0 \<le> fst (snd w) \<and> fst (snd w) \<le> MaxOAuth2Retries"

lemma resent_keep: "\<lbrakk>resent req before sent w; sent (fst w') = sent (fst w); snd w' = snd w\<rbrakk> \<Longrightarrow> resent req before sent w'"
  by (simp add: resent_def)

lemma resent_again:
  assumes "resent req before sent w" "sent (fst w') = sent (fst w) @ [req]" "snd w' = snd w"
  shows "resent req before sent w'"
proof -
  from assms(1) obtain k where "sent (fst w) = before @ replicate k req" by (auto simp: resent_def)
  with assms(2) have "sent (fst w') = before @ replicate (Suc k) req" by (simp add: replicate_append_same)
  with assms(1,3) show ?thesis unfolding resent_def by metis
qed

lemma DoWithRetry_resends:
  assumes lg: "request_log env sent"
    and run: "DoWithRetry (counting_ctx (ce_ctx (oe_call env))) (Some (counting_client (ce_client (oe_call env) req)))
        q cfg (out_hooks env m) (h, 0, []) = (r, w')"
  shows "resent req (sent h) sent w'"
proof (rule DoWithRetry_invariant [where P = "resent req (sent h) sent", OF run])
  show "resent req (sent h) sent (h, 0, [])" by (auto simp: resent_def MaxOAuth2Retries_def intro: exI [of _ 0])
next
  fix w e w' g assume "resent req (sent h) sent w"
    "get_body (counting_client (ce_client (oe_call env) req)) = Some g" "g w = (e, w')"
  then show "resent req (sent h) sent w'"
    using lg by (cases w) (auto simp: counting_steps request_log_def elim!: resent_keep)
next
  fix w e w' assume "resent req (sent h) sent w" "do_request (counting_client (ce_client (oe_call env) req)) w = (e, w')"
  then show "resent req (sent h) sent w'"
    using lg by (cases w) (auto simp: counting_steps request_log_def elim!: resent_again)
next
  fix w f a resp er b w' assume "resent req (sent h) sent w" "OnAttemptFailure (out_hooks env m) = Some f"
    "f a resp er w = (b, w')"
  then show "resent req (sent h) sent w'"
    by (cases w; cases w') (auto simp: out_hooks_def resent_def dest: refresh_sends_nothing [OF lg])
next
  fix w f a er d assume "resent req (sent h) sent w" "OnRetry (out_hooks env m) = Some f"
  then show "resent req (sent h) sent (f a er d w)" by (cases w) (auto simp: out_hooks_def resent_def)
next
  fix w d e w' assume "resent req (sent h) sent w" "rc_wait (counting_ctx (ce_ctx (oe_call env))) d w = (e, w')"
  then show "resent req (sent h) sent w'"
    using lg by (cases w) (auto simp: counting_steps request_log_def elim!: resent_keep)
qed

lemma doRequest_resends:
  assumes lg: "request_log env sent" and run: "doRequestWithHeaders env m endpoint body headers s = (res, s')"
  shows "sent (os_net s') = sent (os_net s)
       \<or> (\<exists>req h k. out_buildHTTPRequest env m endpoint body headers (os_net s) = (Inr req, h)
              \<and> sent (os_net s') = sent (os_net s) @ replicate k req)"
proof -
  obtain b h where b: "out_buildHTTPRequest env m endpoint body headers (os_net s) = (b, h)" by (meson surj_pair)
  from build_sends_nothing [OF lg b] have h: "sent h = sent (os_net s)" .
  show ?thesis
  proof (cases b)
    case (Inl e)
    with run b h show ?thesis by (auto simp: doRequestWithHeaders_def)
  next
    case (Inr req)
    obtain resp err h' n ds where d: "DoWithRetry (counting_ctx (ce_ctx (oe_call env)))
                  (Some (counting_client (ce_client (oe_call env) req)))
                  \<lparr>rq_Method = cr_Method req, rq_URL = cr_URL req\<rparr> (ho_retry m) (out_hooks env m) (h, 0, [])
        = ((resp, err), (h', n, ds))" by (metis surj_pair)
    from DoWithRetry_resends [OF lg d] obtain k where k: "sent h' = sent h @ replicate k req" by (auto simp: resent_def)
    have "os_net s' = h'" using run b Inr d
      by (auto simp: doRequestWithHeaders_def Let_def split: option.splits)
    with b Inr k h show ?thesis by auto
  qed
qed

subsection \<open>Facts: previews\<close>

definition group_headers :: "'h out_env \<Rightarrow> HTTPRequestModule \<Rightarrow> records \<Rightarrow> gerr + (string \<Rightarrow> string option)" where
  "group_headers env m g = (case g of [] \<Rightarrow> Inr Map.empty | r # _ \<Rightarrow> extractHeadersFromRecord env m (rec_fields r))"

lemma request_run_sends:
  assumes lg: "request_log env sent" and run: "request_run env m g s res s'"
  shows "sent (os_net s') = sent (os_net s)
       \<or> (\<exists>endpoint headers body req h k. resolveEndpointForBatch env m (ho_endpoint m) g = Inr endpoint
              \<and> group_headers env m g = Inr headers
              \<and> out_buildHTTPRequest env m endpoint body headers (os_net s) = (Inr req, h)
              \<and> sent (os_net s') = sent (os_net s) @ replicate k req)"
proof -
  have "sent (os_net s') = sent (os_net s) \<or> (\<exists>endpoint headers body. resolveEndpointForBatch env m (ho_endpoint m) g = Inr endpoint
      \<and> group_headers env m g = Inr headers \<and> doRequestWithHeaders env m endpoint body headers s = (res, s'))"
  proof (cases "ho_requestMode m = requestModeSingle")
    case True
    then obtain i r where g: "g = [r]" and r: "send_record env m i r s = (res, s')"
      using run by (auto simp: request_run_def)
    from r show ?thesis
      by (auto simp: g send_record_def Let_def group_headers_def resolveEndpointForBatch_def split: sum.splits)
  next
    case False
    then have r: "sendOneBatch env m g s = (res, s')" using run by (simp add: request_run_def)
    then show ?thesis by (auto simp: sendOneBatch_def group_headers_def split: sum.splits)
  qed
  then show ?thesis
  proof
    assume "\<exists>endpoint headers body. resolveEndpointForBatch env m (ho_endpoint m) g = Inr endpoint
      \<and> group_headers env m g = Inr headers \<and> doRequestWithHeaders env m endpoint body headers s = (res, s')"
    then obtain endpoint headers body where e: "resolveEndpointForBatch env m (ho_endpoint m) g = Inr endpoint"
      "group_headers env m g = Inr headers" "doRequestWithHeaders env m endpoint body headers s = (res, s')" by blast
    from doRequest_resends [OF lg e(3)] e(1,2) show ?thesis by blast
  qed simp
qed

lemma preview_batch_parts:
  assumes "previewOneBatch env m sc g h = (Inr p, h')"
  shows "resolveEndpointForBatch env m (ho_endpoint m) g = Inr (pv_Endpoint p) \<and> pv_Method p = ho_method m
       \<and> pv_RecordCount p = int (length g)
       \<and> (\<exists>headers. group_headers env m g = Inr headers \<and> buildPreviewHeaders env m headers sc h = (Inr (pv_Headers p), h'))"
  using assms by (auto simp: previewOneBatch_def group_headers_def split: sum.splits prod.splits)

lemma preview_record_parts:
  assumes "preview_record env m sc r h = (Inr p, h')"
  shows "resolveEndpointForBatch env m (ho_endpoint m) [r] = Inr (pv_Endpoint p) \<and> pv_Method p = ho_method m
       \<and> pv_RecordCount p = int (length [r])
       \<and> (\<exists>headers. group_headers env m [r] = Inr headers \<and> buildPreviewHeaders env m headers sc h = (Inr (pv_Headers p), h'))"
  using assms by (auto simp: preview_record_def group_headers_def resolveEndpointForBatch_def split: sum.splits prod.splits)

lemma preview_all_each:
  "preview_all f xs h = (Inr ps, h') \<Longrightarrow> list_all2 (\<lambda>x p. \<exists>h h'. f x h = (Inr p, h')) xs ps"
  by (induction xs arbitrary: h ps) (auto split: prod.splits sum.splits)

lemma preview_all_still: "(\<And>x h. snd (f x h) = h) \<Longrightarrow> snd (preview_all f xs h) = h"
  by (induction xs arbitrary: h) (auto split: prod.splits sum.splits, (metis snd_conv)+)

lemma previews_of_groups:
  assumes "PreviewOperations env m records sc h = (Inr ps, h')"
  shows "list_all2 (\<lambda>g p. resolveEndpointForBatch env m (ho_endpoint m) g = Inr (pv_Endpoint p) \<and> pv_Method p = ho_method m
       \<and> pv_RecordCount p = int (length g)
       \<and> (\<exists>headers h h'. group_headers env m g = Inr headers \<and> buildPreviewHeaders env m headers sc h = (Inr (pv_Headers p), h')))
     (request_groups m records) ps"
proof (cases "ho_requestMode m = requestModeSingle")
  case True
  then have "list_all2 (\<lambda>r p. \<exists>h h'. preview_record env m sc r h = (Inr p, h')) records ps"
    using assms by (auto simp: PreviewOperations_def previewSingleRecordMode_def split: if_splits dest: preview_all_each)
  then show ?thesis
    by (simp add: request_groups_def True list.rel_map) (auto elim!: list_all2_mono dest!: preview_record_parts)
next
  case False
  have "list_all2 (\<lambda>g p. \<exists>h h'. previewOneBatch env m sc g h = (Inr p, h')) (chunkRecords records (ho_batchSize m)) ps"
  proof (cases "records = []")
    case True
    with assms show ?thesis by (simp add: PreviewOperations_def chunkRecords_def)
  next
    case nonempty: False
    with assms False have "preview_all (previewOneBatch env m sc) (chunkRecords records (ho_batchSize m)) h = (Inr ps, h')"
      by (simp add: PreviewOperations_def previewBatchMode_def)
    then show ?thesis by (rule preview_all_each)
  qed
  then show ?thesis
    by (simp add: request_groups_def False) (auto elim!: list_all2_mono dest!: preview_batch_parts)
qed

text \<open>Nothing but the authentication reads the handler.\<close>

lemma handler_frame [simp]:
  "resolveEndpointForBatch (env\<lparr>oe_handler := a\<rparr>) m e g = resolveEndpointForBatch env m e g"
  "resolveEndpointForRecord (env\<lparr>oe_handler := a\<rparr>) m r = resolveEndpointForRecord env m r"
  "extractHeadersFromRecord (env\<lparr>oe_handler := a\<rparr>) m r = extractHeadersFromRecord env m r"
  "buildBaseHeadersMap (env\<lparr>oe_handler := a\<rparr>) m hs = buildBaseHeadersMap env m hs"
proof -
  have hf: "out_header_fold (env\<lparr>oe_handler := a\<rparr>) rec hs acc = out_header_fold env rec hs acc" for rec hs acc
    by (induction env rec hs acc rule: out_header_fold.induct) (auto split: sum.splits)
  have kf: "out_key_headers (env\<lparr>oe_handler := a\<rparr>) rec ks acc = out_key_headers env rec ks acc" for rec ks acc
    by (induction env rec ks acc rule: out_key_headers.induct) (auto split: sum.splits)
  show rr: "resolveEndpointForRecord (env\<lparr>oe_handler := a\<rparr>) m r = resolveEndpointForRecord env m r" for r
    by (simp add: resolveEndpointForRecord_def out_query_def cong: sum.case_cong option.case_cong if_cong)
  show "resolveEndpointForBatch (env\<lparr>oe_handler := a\<rparr>) m e g = resolveEndpointForBatch env m e g"
    by (simp add: resolveEndpointForBatch_def rr resolveEndpointWithStaticQuery_def split: list.split)
  show "extractHeadersFromRecord (env\<lparr>oe_handler := a\<rparr>) m r = extractHeadersFromRecord env m r"
    by (simp add: extractHeadersFromRecord_def hf kf cong: sum.case_cong)
  show "buildBaseHeadersMap (env\<lparr>oe_handler := a\<rparr>) m hs = buildBaseHeadersMap env m hs"
    by (simp add: buildBaseHeadersMap_def)
qed

lemma masked_by_type:
  "addMaskedAuthHeaders (env\<lparr>oe_handler := Some a\<rparr>) hs
     = addMaskedAuthHeaders (env\<lparr>oe_handler := Some (a\<lparr>ah_Apply := f, ah_Invalidate := i, ah_Preview := p\<rparr>)\<rparr>) hs"
  by (simp add: addMaskedAuthHeaders_def)

subsection \<open>Properties\<close>

text \<open>
  C12. A send accounts for its records. The records are tried in order in the groups of the
  request mode; the count it returns is the number of records in the groups whose request
  succeeded. Without an error every group was tried, and under fail every request succeeded; an
  error is the end of the context, or under fail the failure of the last group tried, the first
  to fail.
\<close>
theorem output_Send_accounting:
  assumes "output_Send env m records s = (Ran (n, err), s')"
    and "ho_onError m \<in> {OnErrorFail, OnErrorSkip, OnErrorLog}"
  shows "concat (request_groups m records) = records
       \<and> (\<exists>tried. send_log env m (request_groups m records) err tried \<and> n = delivered tried)"
proof (intro conjI request_groups_concat)
  consider "records = []" | "records \<noteq> []" "ho_requestMode m = requestModeSingle"
    | "records \<noteq> []" "ho_requestMode m \<noteq> requestModeSingle" by blast
  then show "\<exists>tried. send_log env m (request_groups m records) err tried \<and> n = delivered tried"
  proof cases
    case 1
    with assms(1) have "n = 0" "err = None" by (auto simp: output_Send_def)
    with 1 show ?thesis by (intro exI [of _ "[]"]) (simp add: request_groups_def chunkRecords_def send_log_Nil)
  next
    case 2
    with assms(1) single_loop_log [of env m 0 records 0 s n err s'] show ?thesis
      by (auto simp: output_Send_def sendSingleRecordMode_def request_groups_def)
  next
    case 3
    with assms batch_loop_log [of env m 0 "chunkRecords records (ho_batchSize m)" 0 s n err s'] show ?thesis
      by (auto simp: output_Send_def sendBatchMode_def request_groups_def)
  qed
qed

text \<open>
  A request counts as sent only if a response was received whose body could be read, whose
  status and body the success condition accepts, and that asks for no retry.
\<close>
theorem doRequest_success:
  assumes "doRequestWithHeaders env m endpoint body headers s = (Ran None, s')" "0 \<le> MaxAttempts (ho_retry m)"
  shows "\<exists>req h raw h' b resp. do_request (ce_client (oe_call env) req) h = (Inr raw, h') \<and> readBody raw = Inr b
    \<and> resp = raw\<lparr>rs_stream := b, rs_stream_err := None\<rparr>
    \<and> isResponseSuccess env m resp (take maxErrorBodyBytes b) = Inr True
    \<and> \<not> body_forces_retry (out_hooks env m) b"
  by (rule doRequest_received [OF assms])

text \<open>
  Every attempt of a request sends the same request: what reaches the network is the request
  that was built, headers and credentials included, repeated. A token invalidated after a 401 is
  therefore not replaced in the attempts that follow.
\<close>
theorem attempts_send_same_request:
  assumes "request_log env sent" "doRequestWithHeaders env m endpoint body headers s = (res, s')"
  shows "sent (os_net s') = sent (os_net s)
       \<or> (\<exists>req h k. out_buildHTTPRequest env m endpoint body headers (os_net s) = (Inr req, h)
              \<and> sent (os_net s') = sent (os_net s) @ replicate k req)"
  by (rule doRequest_resends [OF assms])

text \<open>The request the handler makes of one without credentials.\<close>

definition credentialed :: "'h out_env \<Rightarrow> call_request \<Rightarrow> call_request \<Rightarrow> bool" where
  "credentialed env raw req \<longleftrightarrow>
     (case oe_handler env of None \<Rightarrow> req = raw | Some a \<Rightarrow> \<exists>h h'. ah_Apply a raw h = (Inr req, h'))"

lemma preview_base:
  assumes "buildPreviewHeaders env m headers sc h = (Inr hs, h')"
  shows "\<exists>base. buildBaseHeadersMap env m headers = Inr base
    \<and> (\<not> sc \<or> oe_handler env = None \<longrightarrow> hs = addMaskedAuthHeaders env base)"
  using assms by (auto simp: buildPreviewHeaders_def addUnmaskedAuthHeaders_def addMaskedAuthHeaders_def split: sum.splits if_splits)

lemma built_credentialed:
  assumes "out_buildHTTPRequest env m endpoint body headers h = (Inr req, h')" "buildBaseHeadersMap env m headers = Inr base"
  shows "credentialed env \<lparr>cr_Method = ho_method m, cr_URL = endpoint,
           cr_Headers = set_headers Map.empty (oe_order env base) base, cr_Body = Some body\<rparr> req"
  using assms by (auto simp: out_buildHTTPRequest_def credentialed_def Let_def split: option.splits prod.splits sum.splits)


text \<open>
  Masked previews keep the credentials secret: with credentials hidden, the previews depend
  on the type of the authentication handler and on nothing else of it, and asking for them
  leaves the world as it was.
\<close>
theorem preview_hides_credentials:
  "PreviewOperations (env\<lparr>oe_handler := Some a\<rparr>) m records False h
     = PreviewOperations (env\<lparr>oe_handler := Some (a\<lparr>ah_Apply := f, ah_Invalidate := i, ah_Preview := p\<rparr>)\<rparr>) m records False h
   \<and> snd (PreviewOperations (env\<lparr>oe_handler := Some a\<rparr>) m records False h) = h"
proof
  let ?a = "env\<lparr>oe_handler := Some a\<rparr>"
  let ?b = "env\<lparr>oe_handler := Some (a\<lparr>ah_Apply := f, ah_Invalidate := i, ah_Preview := p\<rparr>)\<rparr>"
  have bp: "buildPreviewHeaders ?a m hs False g = buildPreviewHeaders ?b m hs False g" for hs g
    by (simp add: buildPreviewHeaders_def split: sum.split)
       (simp add: masked_by_type [where env = env and a = a and f = f and i = i and p = p])
  have "previewOneBatch ?a m False = previewOneBatch ?b m False" "preview_record ?a m False = preview_record ?b m False"
    by (intro ext, simp add: previewOneBatch_def preview_record_def bp
          cong: sum.case_cong list.case_cong option.case_cong prod.case_cong)+
  then show "PreviewOperations ?a m records False h = PreviewOperations ?b m records False h"
    by (simp add: PreviewOperations_def previewBatchMode_def previewSingleRecordMode_def)
  have still: "snd (buildPreviewHeaders ?a m hs False g) = g" for hs g
    by (simp add: buildPreviewHeaders_def split: sum.split)
  have "snd (previewOneBatch ?a m False b g) = g" "snd (preview_record ?a m False r g) = g" for b r g
    using still by (auto simp: previewOneBatch_def preview_record_def split: sum.split prod.split) (metis snd_conv)+
  then show "snd (PreviewOperations ?a m records False h) = h"
    by (simp add: PreviewOperations_def previewBatchMode_def previewSingleRecordMode_def preview_all_still)
qed

subsection \<open>A concrete send\<close>

text \<open>The network is the list of the requests received; it answers 200 to each.\<close>

definition echo_env :: "call_request list out_env" where
  "echo_env = \<lparr>oe_call = \<lparr>
       ce_ctx = \<lparr>rc_done = (\<lambda>_. None), rc_wait = (\<lambda>_ h. (None, h)), rc_elapsed = (\<lambda>_. 0), rc_now = 0,
                 rc_parse_http_time = (\<lambda>_. None), rc_url = demo_env, rc_float = exact_ops\<rparr>,
       ce_client = (\<lambda>req. \<lparr>get_body = None, do_request = (\<lambda>h. (Inr (demo_response 200), h @ [req]))\<rparr>),
       ce_render = (\<lambda>src _ _. Inr src),
       ce_parse_url = (\<lambda>s. Inr \<lparr>url_scheme = ''http'', url_host = ''h'', url_query = [], print_with = (\<lambda>_. s)\<rparr>),
       ce_rules = \<lparr>ValidHeaderFieldName = (\<lambda>_. True), ValidHeaderFieldValue = (\<lambda>_. True)\<rparr>,
       ce_unmarshal = (\<lambda>_. Inr Map.empty), ce_auth = None, ce_fmt_v = (\<lambda>_. ''v''), ce_fmt_T = (\<lambda>_. ''T''),
       ce_clock = (\<lambda>_. 0), ce_order = (\<lambda>_. [])\<rparr>,
     oe_handler = None, oe_marshal = (\<lambda>_. Inr ''[]''), oe_marshal_one = (\<lambda>_. Inr ''{}''),
     oe_unmarshal = (\<lambda>_. Inr GNil), oe_expr = (\<lambda>_ _ _. Inr (GBool True)), oe_media_type = Some,
     oe_order = (\<lambda>_. [''User-Agent'']), oe_indent = (\<lambda>_. Inr ''[]''), oe_indent_one = (\<lambda>_. Inr ''{}'')\<rparr>"

definition echo_module :: HTTPRequestModule where
  "echo_module = \<lparr>ho_endpoint = ''http://h'', ho_method = ''POST'', ho_headers = [], ho_requestMode = ''batch'',
     ho_batchSize = 1, ho_keys = [], ho_queryParams = [], ho_body = [], ho_retry = DefaultRetryConfig,
     ho_onError = OnErrorFail, ho_successCodes = Some defaultSuccessCodes, ho_successExpression = [],
     ho_hint = (\<lambda>_. (False, False)), ho_bodyTarget = ''json'', ho_contentTypeTemplated = False,
     ho_defaultBodyDisabled = False\<rparr>"

definition echo_request :: call_request where
  "echo_request = \<lparr>cr_Method = ''POST'', cr_URL = ''http://h'',
     cr_Headers = [''User-Agent'' \<mapsto> ''Cannectors-Runtime/1.0''], cr_Body = Some ''[]''\<rparr>"

abbreviation echo_state :: "call_request list \<Rightarrow> call_request list out_state" where
  "echo_state h \<equiv> \<lparr>os_net = h, os_lastRetryInfo = None\<rparr>"

lemma echo_log: "request_log echo_env (\<lambda>h. h)"
  by (simp add: request_log_def echo_env_def)

lemma echo_env_simps:
  "ce_parse_url (oe_call echo_env) = (\<lambda>s. Inr \<lparr>url_scheme = ''http'', url_host = ''h'', url_query = [], print_with = (\<lambda>_. s)\<rparr>)"
  "oe_order echo_env = (\<lambda>_. [''User-Agent''])" "oe_handler echo_env = None"
  "rc_done (ce_ctx (oe_call echo_env)) h = None" "oe_marshal echo_env = (\<lambda>_. Inr ''[]'')"
  "oe_indent echo_env = (\<lambda>_. Inr ''[]'')"
  "ce_client (oe_call echo_env) = (\<lambda>req. \<lparr>get_body = None, do_request = (\<lambda>h. (Inr (demo_response 200), h @ [req]))\<rparr>)"
  by (simp_all add: echo_env_def)

lemma echo_endpoint: "resolveEndpointForRecord echo_env echo_module r = Inr ''http://h''"
proof -
  have m: "ho_endpoint echo_module = ''http://h''" "ho_keys echo_module = []" "ho_queryParams echo_module = []"
    by (simp_all add: echo_module_def)
  show ?thesis
    by (simp add: resolveEndpointForRecord_def m demo_novars out_query_def hasQueryKey_def validateURL_def
        NormalizeURL_def echo_env_simps)
qed

lemma echo_base: "buildBaseHeadersMap echo_env echo_module Map.empty
   = Inr [''User-Agent'' \<mapsto> ''Cannectors-Runtime/1.0'', ''Content-Type'' \<mapsto> ''application/json'']"
  by (simp add: buildBaseHeadersMap_def echo_module_def)

lemma echo_build:
  "out_buildHTTPRequest echo_env echo_module ''http://h'' ''[]'' Map.empty h = (Inr echo_request, h)"
proof -
  have c: "canonical_from True ''User-Agent'' = ''User-Agent''"
    by (simp add: ascii_upper_def ascii_lower_def)
  from demo_trim have v: "ValidateAbsoluteURL u (ce_parse_url (oe_call echo_env)) ''http://h'' = None" for u
    by (intro absolute_URL_valid [where p = "\<lparr>url_scheme = ''http'', url_host = ''h'', url_query = [],
        print_with = (\<lambda>_. ''http://h'')\<rparr>"]) (simp_all only: echo_env_simps go_url.simps list.simps insert_iff simp_thms)
  have s: "set_headers Map.empty [''User-Agent''] [''User-Agent'' \<mapsto> v, ''Content-Type'' \<mapsto> w] = [''User-Agent'' \<mapsto> v]" for v w
    by (simp add: set_headers_def header_Set_def c del: canonical_from.simps)
  have e: "ho_method echo_module = ''POST''" by (simp add: echo_module_def)
  have v: "ValidateAbsoluteURL (rc_url (ce_ctx (oe_call echo_env))) (ce_parse_url (oe_call echo_env)) ''http://h'' = None"
    by (rule v)
  show ?thesis unfolding out_buildHTTPRequest_def v echo_base by (simp add: e s echo_request_def echo_env_simps Let_def)
qed

lemma echo_attempt:
  "attempt_fn u DefaultRetryConfig (out_hooks echo_env echo_module) q (counting_client (ce_client (oe_call echo_env) req))
      \<lparr>ds_attempt = n, ds_lastResp = None, ds_net = (h, 0, [])\<rparr>
    = (Inl (demo_response 200), \<lparr>ds_attempt = n + 1, ds_lastResp = Some (demo_response 200), ds_net = (h @ [req], 0, [])\<rparr>)"
  by (simp add: attempt_fn_def counting_client_def echo_env_def out_hooks_def echo_module_def demo_readBody
      body_forces_retry_def Let_def statusAllowedAsSuccess_def defaultSuccessCodes_def)

lemma echo_DoWithRetry:
  "DoWithRetry (counting_ctx (ce_ctx (oe_call echo_env))) (Some (counting_client (ce_client (oe_call echo_env) req)))
     q DefaultRetryConfig (out_hooks echo_env echo_module) (h, 0, []) = ((Some (demo_response 200), None), (h @ [req], 0, []))"
proof -
  let ?e = "do_env (counting_ctx (ce_ctx (oe_call echo_env))) DefaultRetryConfig (out_hooks echo_env echo_module) q
    (counting_client (ce_client (oe_call echo_env) req))"
  have e: "run_fn ?e = attempt_fn demo_env DefaultRetryConfig (out_hooks echo_env echo_module) q
             (counting_client (ce_client (oe_call echo_env) req))"
      "ctx_done ?e s = None" "env_url ?e = demo_env" for s
    by (simp_all add: do_env_def counting_ctx_def echo_env_def split: prod.split)
  have net: "on_attempt ?e x None z \<lparr>ds_attempt = n, ds_lastResp = l, ds_net = (h, k)\<rparr>
      = \<lparr>ds_attempt = n, ds_lastResp = l, ds_net = (h, k)\<rparr>" for x z n l h k
    by (cases k) (simp add: do_env_def out_hooks_def)
  show ?thesis
    by (simp add: DoWithRetry_def ExecuteWithHooks_def hooks_loop.simps e echo_attempt net Let_def)
qed

lemma echo_doRequest:
  "doRequestWithHeaders echo_env echo_module ''http://h'' ''[]'' Map.empty (echo_state h)
     = (Ran None, echo_state (h @ [echo_request]))"
proof -
  have j: "judge_response echo_env echo_module ''http://h'' 0 (demo_response 200) = None"
    by (simp add: judge_response_def isResponseSuccess_def evaluateSuccessExpression_def echo_module_def
        defaultSuccessCodes_def demo_response_def maxErrorBodyBytes_def)
  have cfg: "ho_retry echo_module = DefaultRetryConfig" by (simp add: echo_module_def)
  show ?thesis
    by (simp add: doRequestWithHeaders_def echo_build cfg echo_DoWithRetry j success_info_def)
qed

lemma echo_headers: "extractHeadersFromRecord echo_env echo_module r = Inr Map.empty"
  by (simp add: extractHeadersFromRecord_def echo_module_def)

lemma echo_batch: "sendOneBatch echo_env echo_module [r] (echo_state h) = (Ran None, echo_state (h @ [echo_request]))"
proof -
  have b: "batch_body echo_env echo_module [r] = Inr ''[]''" by (simp add: batch_body_def echo_env_def echo_module_def)
  have e: "ho_endpoint echo_module = ''http://h''" by (simp add: echo_module_def)
  show ?thesis
    by (simp add: sendOneBatch_def b e resolveEndpointForBatch_def echo_endpoint echo_headers echo_doRequest)
qed

lemma echo_groups: "request_groups echo_module [None, None] = [[None], [None]]"
  by (simp add: request_groups_def echo_module_def chunkRecords_def slices_Chunk.simps)

lemma echo_Send:
  "output_Send echo_env echo_module [None, None] (echo_state []) = (Ran (2, None), echo_state [echo_request, echo_request])"
proof -
  have d: "rc_done (ce_ctx (oe_call echo_env)) h = None" for h by (simp add: echo_env_def)
  have m: "ho_requestMode echo_module \<noteq> requestModeSingle" "ho_batchSize echo_module = 1"
    by (simp_all add: echo_module_def)
  show ?thesis
    by (simp add: output_Send_def sendBatchMode_def m chunkRecords_def slices_Chunk.simps d echo_batch)
qed

theorem output_Send_accounting_witness:
  "\<exists>tried. send_log echo_env echo_module [[None], [None]] None tried \<and> 2 = delivered tried"
  using output_Send_accounting [OF echo_Send] by (simp add: echo_module_def echo_groups [unfolded echo_module_def])

theorem doRequest_success_witness:
  "\<exists>resp b. isResponseSuccess echo_env echo_module resp (take maxErrorBodyBytes b) = Inr True"
  using doRequest_success [OF echo_doRequest [of "[]"]] by (auto simp: echo_module_def DefaultRetryConfig_def)

theorem attempts_send_same_request_witness:
  "\<exists>req k. [echo_request] = replicate k req"
  using attempts_send_same_request [OF echo_log echo_doRequest [of "[]"]] by auto

lemma echo_preview:
  "\<exists>p. PreviewOperations echo_env echo_module [None] False h = (Inr [p], h) \<and> pv_Endpoint p = ''http://h''"
proof -
  have m: "ho_requestMode echo_module \<noteq> requestModeSingle" "ho_batchSize echo_module = 1"
    by (simp_all add: echo_module_def)
  have i: "oe_indent echo_env rs = Inr ''[]''" for rs by (simp add: echo_env_def)
  show ?thesis
    by (simp add: PreviewOperations_def m previewBatchMode_def chunkRecords_def slices_Chunk.simps previewOneBatch_def
        resolveEndpointForBatch_def echo_endpoint echo_headers buildPreviewHeaders_def echo_base i formatJSONPreview_def)
qed


end
