(* ===== verification/Scheduler.thy ===== *)
theory Scheduler
  imports Errors "HOL-Library.Multiset"
begin

text \<open>
  The scheduler, \<open>src/internal/scheduler/scheduler.go\<close>: pipelines registered under cron
  schedules, each execution on a goroutine of its own, requests that arrive while the pipeline
  runs kept in a bounded queue, and a shutdown that waits for the executions in flight.

  A state holds the registrations ever made (the heap of \<open>registeredPipeline\<close>s, an address is
  an index), the map from pipeline IDs to the current ones, the flags, the wait group and the
  goroutines with their program counters. A step is one critical section under \<open>s.mu\<close> or
  \<open>reg.mu\<close>, or the begin or the end of an execution. The cron library is a parameter: \<open>fires\<close>
  tells, from the calls made to it so far, which registrations it may fire.
\<close>

subsection \<open>State\<close>

record sched_pipeline =
  sp_ID :: string
  sp_Enabled :: bool
  sp_Input :: "string option option"

record registeredPipeline =
  rg_pipeline :: sched_pipeline
  rg_entry :: nat
  rg_running :: bool
  rg_queue :: nat

definition DefaultQueueCapacity :: nat where "DefaultQueueCapacity = 100"

datatype sched_error =
    SchedNilPipeline
  | SchedDisabled string
  | SchedEmptySchedule string
  | SchedInvalidCron string "gerr option"
  | SchedPipelineRunning string
  | SchedAddFunc string gerr
  | SchedNotFound string
  | SchedAlreadyRunning
  | SchedNotStarted
  | SchedNextRunNotReady string

text \<open>The calls to the cron library, in order.\<close>

datatype cron_call = CronAdd nat nat | CronRemove nat | CronStart | CronStop

text \<open>
  Where a goroutine of \<open>executePipeline\<close> is. The context it captured is the number of the
  \<open>Start\<close> that made it; the last argument counts the calls of \<open>wg.Done\<close> it has deferred, one
  for each nested \<open>executeQueuedPipeline\<close>.
\<close>

datatype pc =
    Fired
  | Admitted nat
  | Starting nat nat
  | Executing nat
  | Finishing nat
  | Dequeued nat
  | Abandoned nat
  | Leaving nat

text \<open>
  Where a call of \<open>Stop\<close> is: cron stopped, waiting for the executions, about to clear. Its last
  two places carry the number of the \<open>Start\<close> it halted. \<open>stopped\<close> is not part of the program: it
  holds the numbers of the \<open>Start\<close>s for which a \<open>Stop\<close> has returned without an error.
\<close>

datatype stop_pc = StopHalting | StopWaiting nat | StopClearing nat

record sched =
  regs :: "registeredPipeline list"
  pipelines :: "string \<Rightarrow> nat option"
  started :: bool
  epoch :: nat
  cancelled :: "nat set"
  wg :: nat
  threads :: "(nat \<times> pc) multiset"
  stops :: "stop_pc multiset"
  stopped :: "nat set"
  cron :: "cron_call list"

definition NewScheduler :: sched where
  "NewScheduler = \<lparr>regs = [], pipelines = Map.empty, started = False, epoch = 0, cancelled = {}, wg = 0,
     threads = {#}, stops = {#}, stopped = {}, cron = []\<rparr>"

subsection \<open>Operations of the owner\<close>

definition ValidateCronExpression :: "(string \<Rightarrow> gerr option) \<Rightarrow> string \<Rightarrow> sched_error option" where
  "ValidateCronExpression parse expr =
     (if expr = [] then Some (SchedInvalidCron [] None)
      else (case parse expr of Some err \<Rightarrow> Some (SchedInvalidCron expr (Some err)) | None \<Rightarrow> None))"

definition GetScheduleFromInput :: "(string \<Rightarrow> string option) \<Rightarrow> sched_pipeline option \<Rightarrow> string" where
  "GetScheduleFromInput unmarshal p =
     (case Option.bind p sp_Input of
        Some (Some raw) \<Rightarrow> (case unmarshal raw of None \<Rightarrow> [] | Some schedule \<Rightarrow> schedule)
      | _ \<Rightarrow> [])"

text \<open>\<open>add\<close> is what \<open>cron.AddFunc\<close> answers: an error or the ID of the new entry.\<close>

definition add_registration :: "(gerr + nat) \<Rightarrow> sched_pipeline \<Rightarrow> sched \<Rightarrow> sched_error option \<times> sched" where
  "add_registration add p s =
     (case add of
        Inl err \<Rightarrow> (Some (SchedAddFunc (sp_ID p) err), s)
      | Inr entryID \<Rightarrow>
          let a = length (regs s);
              reg = \<lparr>rg_pipeline = p, rg_entry = entryID, rg_running = False, rg_queue = 0\<rparr>
          in (None, s\<lparr>regs := regs s @ [reg], pipelines := (pipelines s)(sp_ID p \<mapsto> a),
                       cron := cron s @ [CronAdd entryID a]\<rparr>))"

definition Register ::
  "(string \<Rightarrow> gerr option) \<Rightarrow> (string \<Rightarrow> string option) \<Rightarrow> (gerr + nat) \<Rightarrow> sched_pipeline option \<Rightarrow> sched
   \<Rightarrow> sched_error option \<times> sched" where
  "Register parse unmarshal add pl s =
     (case pl of
        None \<Rightarrow> (Some SchedNilPipeline, s)
      | Some p \<Rightarrow>
          if \<not> sp_Enabled p then (Some (SchedDisabled (sp_ID p)), s)
          else
            let schedule = GetScheduleFromInput unmarshal pl
            in if schedule = [] then (Some (SchedEmptySchedule (sp_ID p)), s)
               else (case ValidateCronExpression parse schedule of
                  Some err \<Rightarrow> (Some err, s)
                | None \<Rightarrow>
                    (case pipelines s (sp_ID p) of
                       Some a \<Rightarrow> if rg_running (regs s ! a) then (Some (SchedPipelineRunning (sp_ID p)), s)
                                 else add_registration add p
                                        (s\<lparr>cron := cron s @ [CronRemove (rg_entry (regs s ! a))],
                                           pipelines := (pipelines s)(sp_ID p := None)\<rparr>)
                     | None \<Rightarrow> add_registration add p s)))"

definition Unregister :: "string \<Rightarrow> sched \<Rightarrow> sched_error option \<times> sched" where
  "Unregister i s =
     (case pipelines s i of
        None \<Rightarrow> (Some (SchedNotFound i), s)
      | Some a \<Rightarrow> (None, s\<lparr>cron := cron s @ [CronRemove (rg_entry (regs s ! a))], pipelines := (pipelines s)(i := None)\<rparr>))"

definition Start :: "sched \<Rightarrow> sched_error option \<times> sched" where
  "Start s =
     (if started s then (Some SchedAlreadyRunning, s)
      else (None, s\<lparr>epoch := epoch s + 1, started := True, cron := cron s @ [CronStart]\<rparr>))"

text \<open>
  \<open>Stop\<close> in its sections: stopping cron, clearing the flag and cancelling the context, the wait
  for the wait group (a section that does nothing while the group is not at zero, and ends with
  an error when the caller's context does), and clearing the pipelines with their queues.
\<close>

definition stop_cron :: "sched \<Rightarrow> sched" where
  "stop_cron s = s\<lparr>cron := cron s @ [CronStop], stops := add_mset StopHalting (stops s)\<rparr>"

definition stop_halt :: "sched \<Rightarrow> sched" where
  "stop_halt s = s\<lparr>started := False, cancelled := insert (epoch s) (cancelled s),
                   stops := add_mset (StopWaiting (epoch s)) (stops s - {#StopHalting#})\<rparr>"

definition stop_waited :: "nat \<Rightarrow> sched \<Rightarrow> sched" where
  "stop_waited e s =
     (if wg s = 0 then s\<lparr>stops := add_mset (StopClearing e) (stops s - {#StopWaiting e#})\<rparr> else s)"

definition stop_timeout :: "nat \<Rightarrow> sched \<Rightarrow> sched" where
  "stop_timeout e s = s\<lparr>stops := stops s - {#StopWaiting e#}\<rparr>"

definition drain_queues :: "nat set \<Rightarrow> registeredPipeline list \<Rightarrow> registeredPipeline list" where
  "drain_queues addrs rs = map (\<lambda>(a, r). if a \<in> addrs then r\<lparr>rg_queue := 0\<rparr> else r) (enumerate 0 rs)"

definition stop_clear :: "nat \<Rightarrow> sched \<Rightarrow> sched" where
  "stop_clear e s = s\<lparr>regs := drain_queues (ran (pipelines s)) (regs s), pipelines := Map.empty,
                    stops := stops s - {#StopClearing e#}, stopped := insert e (stopped s)\<rparr>"

text \<open>The queries.\<close>

definition HasPipeline :: "sched \<Rightarrow> string \<Rightarrow> bool" where
  "HasPipeline s i \<longleftrightarrow> pipelines s i \<noteq> None"

definition IsRunning :: "sched \<Rightarrow> string \<Rightarrow> bool" where
  "IsRunning s i = (case pipelines s i of None \<Rightarrow> False | Some a \<Rightarrow> rg_running (regs s ! a))"

definition PipelineCount :: "sched \<Rightarrow> nat" where
  "PipelineCount s = card (dom (pipelines s))"

definition GetQueueLength :: "sched \<Rightarrow> string \<Rightarrow> nat" where
  "GetQueueLength s i = (case pipelines s i of None \<Rightarrow> 0 | Some a \<Rightarrow> rg_queue (regs s ! a))"

definition IsQueued :: "sched \<Rightarrow> string \<Rightarrow> bool" where
  "IsQueued s i \<longleftrightarrow> GetQueueLength s i > 0"

text \<open>\<open>next\<close> is the time of the next activation cron reports for an entry, if it has one.\<close>

definition GetNextRun :: "(nat \<Rightarrow> int option) \<Rightarrow> sched \<Rightarrow> string \<Rightarrow> sched_error + int" where
  "GetNextRun next_run s i =
     (case pipelines s i of
        None \<Rightarrow> Inl (SchedNotFound i)
      | Some a \<Rightarrow>
          if \<not> started s then Inl SchedNotStarted
          else (case next_run (rg_entry (regs s ! a)) of
                  None \<Rightarrow> Inl (SchedNextRunNotReady i) | Some t \<Rightarrow> Inr t))"

subsection \<open>Executions\<close>

definition set_reg :: "nat \<Rightarrow> (registeredPipeline \<Rightarrow> registeredPipeline) \<Rightarrow> sched \<Rightarrow> sched" where
  "set_reg a f s = s\<lparr>regs := (regs s)[a := f (regs s ! a)]\<rparr>"

text \<open>
  The section of a goroutine at one program counter: the new state and the next program
  counter, none when the goroutine has returned.
\<close>

definition tryStartExecution :: "nat \<Rightarrow> sched \<Rightarrow> bool \<times> sched" where
  "tryStartExecution a s =
     (if rg_running (regs s ! a)
      then (False, if rg_queue (regs s ! a) < DefaultQueueCapacity
                   then set_reg a (\<lambda>r. r\<lparr>rg_queue := rg_queue r + 1\<rparr>) s else s)
      else (True, set_reg a (\<lambda>r. r\<lparr>rg_running := True\<rparr>) s))"

definition finishExecution :: "nat \<Rightarrow> sched \<Rightarrow> bool \<times> sched" where
  "finishExecution a s =
     (if rg_queue (regs s ! a) > 0 then (True, set_reg a (\<lambda>r. r\<lparr>rg_queue := rg_queue r - 1\<rparr>) s)
      else (False, set_reg a (\<lambda>r. r\<lparr>rg_running := False\<rparr>) s))"

fun thread_section :: "nat \<Rightarrow> pc \<Rightarrow> sched \<Rightarrow> pc option \<times> sched" where
  "thread_section a Fired s =
     (if started s then (Some (Admitted (epoch s)), s\<lparr>wg := wg s + 1\<rparr>) else (None, s))"
| "thread_section a (Admitted c) s =
     (case tryStartExecution a s of
        (True, s) \<Rightarrow> (Some (Starting c 1), s)
      | (False, s) \<Rightarrow> (Some (Leaving 1), s))"
| "thread_section a (Starting c n) s =
     (if c \<in> cancelled s then (Some (Finishing n), s) else (Some (Executing n), s))"
| "thread_section a (Executing n) s = (Some (Finishing n), s)"
| "thread_section a (Finishing n) s =
     (case finishExecution a s of
        (True, s) \<Rightarrow> (Some (Dequeued n), s)
      | (False, s) \<Rightarrow> (Some (Leaving n), s))"
| "thread_section a (Dequeued n) s =
     (if started s then (Some (Starting (epoch s) (n + 1)), s\<lparr>wg := wg s + 1\<rparr>) else (Some (Abandoned n), s))"
| "thread_section a (Abandoned n) s = (Some (Leaving n), set_reg a (\<lambda>r. r\<lparr>rg_running := False\<rparr>) s)"
| "thread_section a (Leaving n) s =
     (if n = 0 then (None, s) else (Some (Leaving (n - 1)), s\<lparr>wg := wg s - 1\<rparr>))"

text \<open>One step of one goroutine.\<close>

inductive thread_step :: "sched \<Rightarrow> sched \<Rightarrow> bool" where
  "(a, p) \<in># threads s \<Longrightarrow> thread_section a p s = (p', s')
   \<Longrightarrow> thread_step s (s'\<lparr>threads := (case p' of None \<Rightarrow> {#} | Some q \<Rightarrow> {#(a, q)#}) + (threads s - {#(a, p)#})\<rparr>)"

text \<open>Any step of the system.\<close>

inductive sched_step :: "(cron_call list \<Rightarrow> nat \<Rightarrow> bool) \<Rightarrow> sched \<Rightarrow> sched \<Rightarrow> bool"
  for fires :: "cron_call list \<Rightarrow> nat \<Rightarrow> bool" where
  fire: "a < length (regs s) \<Longrightarrow> fires (cron s) a \<Longrightarrow> sched_step fires s (s\<lparr>threads := add_mset (a, Fired) (threads s)\<rparr>)"
| thread: "thread_step s s' \<Longrightarrow> sched_step fires s s'"
| register: "Register parse unmarshal add pl s = (e, s') \<Longrightarrow> sched_step fires s s'"
| unregister: "Unregister i s = (e, s') \<Longrightarrow> sched_step fires s s'"
| start: "Start s = (e, s') \<Longrightarrow> sched_step fires s s'"
| context_ends: "sched_step fires s (s\<lparr>cancelled := insert (epoch s) (cancelled s)\<rparr>)"
| stop: "sched_step fires s (stop_cron s)"
| halt: "StopHalting \<in># stops s \<Longrightarrow> sched_step fires s (stop_halt s)"
| waited: "StopWaiting e \<in># stops s \<Longrightarrow> sched_step fires s (stop_waited e s)"
| timeout: "StopWaiting e \<in># stops s \<Longrightarrow> sched_step fires s (stop_timeout e s)"
| clear: "StopClearing e \<in># stops s \<Longrightarrow> sched_step fires s (stop_clear e s)"

inductive sched_reach :: "(cron_call list \<Rightarrow> nat \<Rightarrow> bool) \<Rightarrow> sched \<Rightarrow> bool"
  for fires :: "cron_call list \<Rightarrow> nat \<Rightarrow> bool" where
  new: "sched_reach fires NewScheduler"
| step: "sched_reach fires s \<Longrightarrow> sched_step fires s s' \<Longrightarrow> sched_reach fires s'"

subsection \<open>Invariants\<close>

text \<open>A goroutine holds its registration from the moment it has set \<open>running\<close>.\<close>

fun holding :: "pc \<Rightarrow> bool" where
  "holding (Starting c n) = True"
| "holding (Executing n) = True"
| "holding (Finishing n) = True"
| "holding (Dequeued n) = True"
| "holding (Abandoned n) = True"
| "holding _ = False"

text \<open>The calls of \<open>wg.Done\<close> a goroutine owes.\<close>

fun owes :: "pc \<Rightarrow> nat" where
  "owes Fired = 0"
| "owes (Admitted c) = 1"
| "owes (Starting c n) = n"
| "owes (Executing n) = n"
| "owes (Finishing n) = n"
| "owes (Dequeued n) = n"
| "owes (Abandoned n) = n"
| "owes (Leaving n) = n"

definition holders :: "nat \<Rightarrow> (nat \<times> pc) multiset \<Rightarrow> nat" where
  "holders a T = size {#x \<in># T. fst x = a \<and> holding (snd x)#}"

lemma holders_simps [simp]:
  "holders a {#} = 0"
  "holders a (add_mset (b, p) T) = (if b = a \<and> holding p then Suc (holders a T) else holders a T)"
  by (simp_all add: holders_def)

definition owed :: "(nat \<times> pc) multiset \<Rightarrow> nat" where
  "owed T = (\<Sum>x\<in>#T. owes (snd x))"

lemma owed_simps [simp]: "owed {#} = 0" "owed (add_mset (b, p) T) = owes p + owed T"
  by (simp_all add: owed_def)

definition sched_inv :: "sched \<Rightarrow> bool" where
  "sched_inv s \<longleftrightarrow>
     (\<forall>(a, p) \<in># threads s. a < length (regs s) \<and> (holding p \<longrightarrow> 0 < owes p))
   \<and> (\<forall>a < length (regs s). holders a (threads s) = (if rg_running (regs s ! a) then 1 else 0)
        \<and> rg_queue (regs s ! a) \<le> DefaultQueueCapacity)
   \<and> wg s = owed (threads s)
   \<and> (\<forall>i a. pipelines s i = Some a \<longrightarrow> a < length (regs s) \<and> sp_ID (rg_pipeline (regs s ! a)) = i)"

lemma set_reg_simps [simp]:
  "threads (set_reg a f s) = threads s" "wg (set_reg a f s) = wg s" "pipelines (set_reg a f s) = pipelines s"
  "started (set_reg a f s) = started s" "cron (set_reg a f s) = cron s" "stops (set_reg a f s) = stops s" "stopped (set_reg a f s) = stopped s"
  "cancelled (set_reg a f s) = cancelled s" "epoch (set_reg a f s) = epoch s"
  "regs (set_reg a f s) = (regs s)[a := f (regs s ! a)]"
  by (simp_all add: set_reg_def)

lemma thread_section_consts:
  "thread_section a p s = (q, s') \<Longrightarrow>
     threads s' = threads s \<and> pipelines s' = pipelines s \<and> started s' = started s \<and> cron s' = cron s
   \<and> stops s' = stops s \<and> stopped s' = stopped s \<and> cancelled s' = cancelled s \<and> epoch s' = epoch s \<and> length (regs s') = length (regs s)"
  by (cases p) (auto simp: tryStartExecution_def finishExecution_def split: if_splits)

lemma thread_section_regs:
  assumes "thread_section a p s = (q, s')" "b < length (regs s)"
  shows "rg_pipeline (regs s' ! b) = rg_pipeline (regs s ! b) \<and> (b \<noteq> a \<longrightarrow> regs s' ! b = regs s ! b)"
  using assms
  by (cases "b = a"; cases p) (auto simp: tryStartExecution_def finishExecution_def split: if_splits)

definition next_threads :: "nat \<Rightarrow> pc option \<Rightarrow> (nat \<times> pc) multiset" where
  "next_threads a q = (case q of None \<Rightarrow> {#} | Some q \<Rightarrow> {#(a, q)#})"

lemma next_threads_simps [simp]: "next_threads a None = {#}" "next_threads a (Some q) = {#(a, q)#}"
  by (simp_all add: next_threads_def)

lemma thread_stepE [consumes 1]:
  assumes "thread_step s s'"
  obtains a p q s0 T where "threads s = add_mset (a, p) T" "thread_section a p s = (q, s0)"
    "s' = s0\<lparr>threads := next_threads a q + T\<rparr>"
  using assms by (auto simp: thread_step.simps next_threads_def dest!: multi_member_split)

lemma thread_step_inv:
  assumes "thread_step s s'" "sched_inv s"
  shows "sched_inv s'"
  using assms(1)
proof (cases rule: thread_stepE)
  case (1 a p q s0 T)
  note c = thread_section_consts [OF 1(2)]
  have a: "a < length (regs s)" and pos: "holding p \<Longrightarrow> 0 < owes p"
    using assms(2) 1(1) by (auto simp: sched_inv_def)
  have one: "holders a (threads s) = (if rg_running (regs s ! a) then 1 else 0)" "wg s = owed (threads s)"
    "rg_queue (regs s ! a) \<le> DefaultQueueCapacity"
    using assms(2) a by (auto simp: sched_inv_def)
  have local: "holders a (next_threads a q + T) = (if rg_running (regs s0 ! a) then 1 else 0)
      \<and> rg_queue (regs s0 ! a) \<le> DefaultQueueCapacity \<and> wg s0 = owed (next_threads a q + T)
      \<and> (\<forall>q'. q = Some q' \<longrightarrow> holding q' \<longrightarrow> 0 < owes q')"
    using 1(1,2) one a pos
    by (cases p) (auto simp: tryStartExecution_def finishExecution_def split: if_splits)
  have other: "holders b (next_threads a q + T) = holders b (threads s)" if "b \<noteq> a" for b
    using that 1(1) by (cases q) auto
  have ok: "\<forall>(b, r) \<in># next_threads a q + T. b < length (regs s0) \<and> (holding r \<longrightarrow> 0 < owes r)"
    using local a assms(2) 1(1) c by (cases q) (auto simp: sched_inv_def)
  have regs: "holders b (next_threads a q + T) = (if rg_running (regs s0 ! b) then 1 else 0)
      \<and> rg_queue (regs s0 ! b) \<le> DefaultQueueCapacity" if "b < length (regs s)" for b
    using local other [of b] thread_section_regs [OF 1(2) that] assms(2) that
    by (cases "b = a") (auto simp: sched_inv_def)
  have "pipelines s i = Some b \<Longrightarrow> b < length (regs s) \<and> sp_ID (rg_pipeline (regs s0 ! b)) = i" for i b
    using assms(2) thread_section_regs [OF 1(2), of b] by (auto simp: sched_inv_def)
  with local ok regs c show ?thesis unfolding 1(3) sched_inv_def
    by (intro conjI; simp)
qed

lemma enumerate_drain: "length (drain_queues A rs) = length rs"
  by (simp add: drain_queues_def)

lemma drain_queues_nth:
  "b < length rs \<Longrightarrow> drain_queues A rs ! b = (if b \<in> A then (rs ! b)\<lparr>rg_queue := 0\<rparr> else rs ! b)"
  by (simp add: drain_queues_def nth_enumerate_eq)

lemma holders_fresh: "\<forall>(a, p) \<in># T. a < n \<Longrightarrow> holders n T = 0"
  by (induction T) auto

lemma add_registration_inv:
  assumes "sched_inv s" "add_registration add p s = (e, s')"
  shows "sched_inv s'"
proof (cases add)
  case (Inl err)
  with assms show ?thesis by (simp add: add_registration_def)
next
  case (Inr i)
  have "holders (length (regs s)) (threads s) = 0"
    by (rule holders_fresh) (use assms(1) in \<open>auto simp: sched_inv_def\<close>)
  with assms Inr show ?thesis
    by (auto simp: add_registration_def sched_inv_def Let_def nth_append less_Suc_eq split: if_splits)
qed

lemma Register_inv:
  assumes "sched_inv s" "Register parse unmarshal add pl s = (e, s')"
  shows "sched_inv s'"
proof -
  have del: "sched_inv (s\<lparr>cron := c, pipelines := (pipelines s)(i := None)\<rparr>)" for c i
    using assms(1) by (auto simp: sched_inv_def split: if_splits)
  show ?thesis
    using assms(2) add_registration_inv [OF assms(1)] add_registration_inv [OF del] assms(1)
    by (auto simp: Register_def Let_def split: option.splits if_splits)
qed

lemma sched_step_inv: "sched_step fires s s' \<Longrightarrow> sched_inv s \<Longrightarrow> sched_inv s'"
proof (induction rule: sched_step.induct)
  case (thread s s')
  then show ?case by (rule thread_step_inv)
next
  case (register parse unmarshal add pl s e s')
  then show ?case by (rule Register_inv [rotated])
next
  case (unregister i s e s')
  then show ?case by (auto simp: Unregister_def sched_inv_def split: option.splits if_splits)
next
  case (start s e s')
  then show ?case by (auto simp: Start_def sched_inv_def split: if_splits)
next
  case (clear e s)
  then show ?case by (auto simp: stop_clear_def sched_inv_def drain_queues_nth enumerate_drain)
qed (auto simp: sched_inv_def stop_cron_def stop_halt_def stop_waited_def stop_timeout_def)

lemma sched_reach_inv: "sched_reach fires s \<Longrightarrow> sched_inv s"
proof (induction rule: sched_reach.induct)
  case new
  show ?case by (simp add: sched_inv_def NewScheduler_def)
qed (rule sched_step_inv)

subsection \<open>No request is stranded\<close>

definition no_stop_inv :: "sched \<Rightarrow> bool" where
  "no_stop_inv s \<longleftrightarrow> CronStop \<in> set (cron s) \<or>
     (stops s = {#} \<and> (\<forall>(a, p) \<in># threads s. (p \<noteq> Fired \<longrightarrow> started s) \<and> (\<forall>n. p \<noteq> Abandoned n))
      \<and> (\<forall>a < length (regs s). \<not> rg_running (regs s ! a) \<longrightarrow> rg_queue (regs s ! a) = 0))"

lemma thread_step_no_stop:
  assumes "thread_step s s'" "sched_inv s" "no_stop_inv s"
  shows "no_stop_inv s'"
  using assms(1)
proof (cases rule: thread_stepE)
  case (1 a p q s0 T)
  note c = thread_section_consts [OF 1(2)]
  show ?thesis
  proof (cases "CronStop \<in> set (cron s)")
    case True
    with c 1(3) show ?thesis by (simp add: no_stop_inv_def)
  next
    case False
    have a: "a < length (regs s)" using assms(2) 1(1) by (auto simp: sched_inv_def)
    have p: "p \<noteq> Fired \<longrightarrow> started s" "\<And>n. p \<noteq> Abandoned n" and T: "\<forall>(b, r) \<in># T. (r \<noteq> Fired \<longrightarrow> started s) \<and> (\<forall>n. r \<noteq> Abandoned n)"
      and idle: "\<And>b. b < length (regs s) \<Longrightarrow> \<not> rg_running (regs s ! b) \<Longrightarrow> rg_queue (regs s ! b) = 0" and st: "stops s = {#}"
      using assms(3) False 1(1) by (auto simp: no_stop_inv_def)
    have q: "\<forall>r. q = Some r \<longrightarrow> started s \<and> (\<forall>n. r \<noteq> Abandoned n)"
      using 1(2) p by (cases p) (auto simp: tryStartExecution_def finishExecution_def split: if_splits)
    have "\<not> rg_running (regs s0 ! a) \<longrightarrow> rg_queue (regs s0 ! a) = 0"
      using 1(2) p a idle [of a] by (cases p) (auto simp: tryStartExecution_def finishExecution_def split: if_splits)
    then have "\<forall>b < length (regs s). \<not> rg_running (regs s0 ! b) \<longrightarrow> rg_queue (regs s0 ! b) = 0"
      using thread_section_regs [OF 1(2)] idle by metis
    with q T st c show ?thesis unfolding 1(3) no_stop_inv_def by (cases q) auto
  qed
qed

lemma add_registration_no_stop:
  "no_stop_inv s \<Longrightarrow> add_registration add p s = (e, s') \<Longrightarrow> no_stop_inv s'"
  by (auto simp: add_registration_def no_stop_inv_def Let_def nth_append less_Suc_eq split: sum.splits if_splits)

lemma Register_no_stop:
  assumes "no_stop_inv s" "Register parse unmarshal add pl s = (e, s')"
  shows "no_stop_inv s'"
proof -
  have del: "no_stop_inv (s\<lparr>cron := cron s @ [CronRemove j], pipelines := (pipelines s)(i := None)\<rparr>)" for i j
    using assms(1) by (auto simp: no_stop_inv_def)
  show ?thesis
    using assms(2) add_registration_no_stop [OF assms(1)] add_registration_no_stop [OF del] assms(1)
    by (auto simp: Register_def Let_def split: option.splits if_splits)
qed

lemma sched_step_no_stop: "sched_step fires s s' \<Longrightarrow> sched_inv s \<Longrightarrow> no_stop_inv s \<Longrightarrow> no_stop_inv s'"
proof (induction rule: sched_step.induct)
  case (thread s s')
  then show ?case by (rule thread_step_no_stop)
next
  case (register parse unmarshal add pl s e s')
  then show ?case by (metis Register_no_stop)
next
  case (unregister i s e s')
  then show ?case by (auto simp: Unregister_def no_stop_inv_def split: option.splits if_splits)
next
  case (start s e s')
  then show ?case by (auto simp: Start_def no_stop_inv_def split: if_splits)
qed (auto simp: no_stop_inv_def stop_cron_def stop_halt_def stop_waited_def stop_timeout_def stop_clear_def)

lemma sched_reach_no_stop: "sched_reach fires s \<Longrightarrow> no_stop_inv s"
proof (induction rule: sched_reach.induct)
  case new
  show ?case by (simp add: no_stop_inv_def NewScheduler_def)
next
  case (step s s')
  then show ?case using sched_step_no_stop sched_reach_inv by blast
qed

lemma holder_exists: "0 < holders a T \<Longrightarrow> \<exists>p. (a, p) \<in># T \<and> holding p"
  by (induction T) (auto split: if_splits)

subsection \<open>The executions drain\<close>

fun pc_work :: "pc \<Rightarrow> nat" where
  "pc_work Fired = 9"
| "pc_work (Admitted c) = 8"
| "pc_work (Starting c n) = n + 4"
| "pc_work (Executing n) = n + 3"
| "pc_work (Finishing n) = n + 2"
| "pc_work (Dequeued n) = n + 6"
| "pc_work (Abandoned n) = n + 2"
| "pc_work (Leaving n) = n + 1"

definition sched_work :: "sched \<Rightarrow> nat" where
  "sched_work s = (\<Sum>x\<in>#threads s. pc_work (snd x)) + 5 * sum_list (map rg_queue (regs s))"

lemma queue_update:
  "a < length rs \<Longrightarrow> sum_list (map rg_queue (rs[a := r])) + rg_queue (rs ! a) = sum_list (map rg_queue rs) + rg_queue r"
proof (induction rs arbitrary: a)
  case (Cons x rs)
  then show ?case by (cases a) auto
qed simp

lemma thread_step_work:
  assumes "thread_step s s'" "sched_inv s"
  shows "sched_work s' < sched_work s"
  using assms(1)
proof (cases rule: thread_stepE)
  case (1 a p q s0 T)
  have a: "a < length (regs s)" using assms(2) 1(1) by (auto simp: sched_inv_def)
  note u = queue_update [OF a]
  show ?thesis
    using 1(1,2) u [of "(regs s ! a)\<lparr>rg_running := True\<rparr>"] u [of "(regs s ! a)\<lparr>rg_running := False\<rparr>"]
      u [of "(regs s ! a)\<lparr>rg_queue := Suc (rg_queue (regs s ! a))\<rparr>"]
      u [of "(regs s ! a)\<lparr>rg_queue := rg_queue (regs s ! a) - 1\<rparr>"]
    unfolding 1(3) sched_work_def
    by (cases p) (auto simp: tryStartExecution_def finishExecution_def split: if_splits)
qed

lemma thread_step_enabled: "(a, p) \<in># threads s \<Longrightarrow> \<exists>s'. thread_step s s'"
  by (metis surj_pair thread_step.intros)

lemma thread_steps_inv: "(thread_step ^^ n) s s' \<Longrightarrow> sched_inv s \<Longrightarrow> sched_inv s' \<and> n + sched_work s' \<le> sched_work s"
proof (induction n arbitrary: s')
  case (Suc n)
  then obtain s1 where "(thread_step ^^ n) s s1" "thread_step s1 s'" by auto
  with Suc thread_step_work [of s1 s'] thread_step_inv [of s1 s'] show ?case by fastforce
qed simp

lemma thread_steps_no_stop:
  "(thread_step ^^ n) s s' \<Longrightarrow> sched_inv s \<Longrightarrow> no_stop_inv s
   \<Longrightarrow> no_stop_inv s' \<and> cron s' = cron s \<and> length (regs s') = length (regs s)"
proof (induction n arbitrary: s')
  case (Suc n)
  then obtain s1 where run: "(thread_step ^^ n) s s1" and one: "thread_step s1 s'" by auto
  from Suc.IH [OF run Suc.prems(2,3)] thread_steps_inv [OF run Suc.prems(2)] thread_step_no_stop [OF one]
  have "no_stop_inv s'" "cron s1 = cron s" "length (regs s1) = length (regs s)" by auto
  moreover have "cron s' = cron s1 \<and> length (regs s') = length (regs s1)"
    using one by (cases rule: thread_stepE) (use thread_section_consts in auto)
  ultimately show ?case by simp
qed simp

subsection \<open>What a stop has established\<close>

lemma quiet_threads:
  assumes "sched_inv s" "wg s = 0"
  shows "\<forall>(a, p) \<in># threads s. p = Fired \<or> p = Leaving 0"
proof (intro ballI)
  fix x assume "x \<in># threads s"
  with assms have "owes (snd x) = 0 \<and> \<not> holding (snd x)" by (fastforce simp: sched_inv_def owed_def)
  then show "case x of (a, p) \<Rightarrow> p = Fired \<or> p = Leaving 0" by (cases x; cases "snd x") auto
qed

text \<open>
  The \<open>Start\<close> a call of \<open>Stop\<close> halted is not a later one, and while it is the last one the
  scheduler is off; past its wait the wait group is at zero and stays there.
\<close>

definition stop_inv :: "sched \<Rightarrow> bool" where
  "stop_inv s \<longleftrightarrow>
     (\<forall>e. StopWaiting e \<in># stops s \<or> StopClearing e \<in># stops s \<or> e \<in> stopped s \<longrightarrow>
        e \<le> epoch s \<and> (e = epoch s \<longrightarrow> \<not> started s))
   \<and> (StopClearing (epoch s) \<in># stops s \<or> epoch s \<in> stopped s \<longrightarrow> wg s = 0)"

lemma thread_step_quiet:
  assumes "thread_step s s'" "sched_inv s"
  shows "stops s' = stops s \<and> stopped s' = stopped s \<and> epoch s' = epoch s \<and> started s' = started s
    \<and> (\<not> started s \<and> wg s = 0 \<longrightarrow> wg s' = 0)"
  using assms(1)
proof (cases rule: thread_stepE)
  case (1 a p q s0 T)
  have "wg s = 0 \<longrightarrow> p = Fired \<or> p = Leaving 0" using quiet_threads [OF assms(2)] 1(1) by auto
  with 1 thread_section_consts [OF 1(2)] show ?thesis by auto
qed

lemma Register_consts:
  "Register parse unmarshal add pl s = (e, s') \<Longrightarrow>
     stops s' = stops s \<and> stopped s' = stopped s \<and> epoch s' = epoch s \<and> started s' = started s \<and> wg s' = wg s"
  by (auto simp: Register_def add_registration_def Let_def split: option.splits sum.splits if_splits)

lemma Unregister_consts:
  "Unregister i s = (e, s') \<Longrightarrow>
     stops s' = stops s \<and> stopped s' = stopped s \<and> epoch s' = epoch s \<and> started s' = started s \<and> wg s' = wg s"
  by (auto simp: Unregister_def split: option.splits)

lemma stop_mem: "x \<in># add_mset y (M - {#z#}) \<Longrightarrow> x = y \<or> x \<in># M" "x \<in># M - {#z#} \<Longrightarrow> x \<in># M"
  by (auto dest: in_diffD)

lemma sched_step_stop: "sched_step fires s s' \<Longrightarrow> sched_inv s \<Longrightarrow> stop_inv s \<Longrightarrow> stop_inv s'"
proof (induction rule: sched_step.induct)
  case (thread s s')
  from thread(3) thread_step_quiet [OF thread(1,2)] show ?case unfolding stop_inv_def by metis
next
  case (register parse unmarshal add pl s e s')
  with Register_consts show ?case unfolding stop_inv_def by metis
next
  case (unregister i s e s')
  with Unregister_consts show ?case unfolding stop_inv_def by metis
next
  case (start s e s')
  then show ?case by (fastforce simp: stop_inv_def Start_def split: if_splits)
next
  case (halt s)
  then show ?case by (auto simp: stop_inv_def stop_halt_def dest: stop_mem)
next
  case (waited e s)
  then show ?case by (auto simp: stop_inv_def stop_waited_def dest: stop_mem)
next
  case (timeout e s)
  then show ?case by (auto simp: stop_inv_def stop_timeout_def dest: stop_mem)
next
  case (clear e s)
  then show ?case by (auto simp: stop_inv_def stop_clear_def dest: stop_mem)
qed (auto simp: stop_inv_def stop_cron_def)

lemma sched_reach_stop: "sched_reach fires s \<Longrightarrow> stop_inv s"
proof (induction rule: sched_reach.induct)
  case new
  show ?case by (simp add: stop_inv_def NewScheduler_def)
next
  case (step s s')
  then show ?case using sched_step_stop sched_reach_inv by blast
qed

lemma sched_step_stopped:
  "sched_step fires s s' \<Longrightarrow> \<not> started s \<and> started s' \<and> epoch s' = epoch s + 1
     \<or> epoch s' = epoch s \<and> stopped s \<subseteq> stopped s' \<or> started s"
proof (induction rule: sched_step.induct)
  case (thread s s')
  from thread show ?case
    by (cases rule: thread_stepE) (use thread_section_consts in fastforce)
next
  case (register parse unmarshal add pl s e s')
  then show ?case using Register_consts by blast
next
  case (unregister i s e s')
  then show ?case using Unregister_consts by blast
next
  case (start s e s')
  then show ?case by (auto simp: Start_def split: if_splits)
qed (auto simp: stop_cron_def stop_halt_def stop_waited_def stop_timeout_def stop_clear_def)

subsection \<open>Properties\<close>

text \<open>
  C9. Executions of one registration never overlap. Whatever the cron library fires and however
  the goroutines interleave with registrations, starts and stops, at most one goroutine holds a
  registration, it is marked running exactly while one does, and at most
  \<open>DefaultQueueCapacity\<close> requests wait for it.
\<close>
theorem executions_do_not_overlap:
  assumes "sched_reach fires s" "a < length (regs s)"
  shows "holders a (threads s) \<le> 1 \<and> (holders a (threads s) = 1) = rg_running (regs s ! a)
    \<and> rg_queue (regs s ! a) \<le> DefaultQueueCapacity
    \<and> \<not> {#(a, Executing n), (a, Executing m)#} \<subseteq># threads s"
proof -
  have h: "holders a (threads s) = (if rg_running (regs s ! a) then 1 else 0)"
      "rg_queue (regs s ! a) \<le> DefaultQueueCapacity"
    using sched_reach_inv [OF assms(1)] assms(2) by (auto simp: sched_inv_def)
  then have "\<not> {#(a, Executing n), (a, Executing m)#} \<subseteq># threads s"
    by (auto simp: subset_mset.le_iff_add split: if_splits)
  with h show ?thesis by simp
qed

text \<open>
  C10. No request is stranded. As long as \<open>Stop\<close> has never been called on the scheduler, a request
  that waits in a queue has a goroutine that holds the registration, and it is taken: however the
  goroutines interleave, they run out of steps, after at most \<open>sched_work\<close> of them when no new
  request arrives, and then the queue is empty and the registration free. (After a \<open>Stop\<close> whose
  wait timed out a queue can keep its requests.)
\<close>
theorem queued_requests_served:
  assumes "sched_reach fires s" "CronStop \<notin> set (cron s)" "a < length (regs s)" "0 < rg_queue (regs s ! a)"
  shows "(\<exists>p. (a, p) \<in># threads s \<and> holding p \<and> started s)
    \<and> (\<forall>n s'. (thread_step ^^ n) s s' \<longrightarrow> n \<le> sched_work s
         \<and> ((\<forall>s''. \<not> thread_step s' s'') \<longrightarrow> rg_queue (regs s' ! a) = 0 \<and> \<not> rg_running (regs s' ! a)))"
proof (intro conjI allI impI)
  note inv = sched_reach_inv [OF assms(1)] and no = sched_reach_no_stop [OF assms(1)]
  have "rg_running (regs s ! a)" "\<forall>(b, p) \<in># threads s. p \<noteq> Fired \<longrightarrow> started s"
    using no assms by (auto simp: no_stop_inv_def)
  moreover have "holders a (threads s) = (if rg_running (regs s ! a) then 1 else 0)"
    using inv assms(3) by (auto simp: sched_inv_def)
  ultimately show "\<exists>p. (a, p) \<in># threads s \<and> holding p \<and> started s" using holder_exists [of a "threads s"] by fastforce
  fix n s' assume run: "(thread_step ^^ n) s s'"
  note inv' = thread_steps_inv [OF run inv]
  from inv' show "n \<le> sched_work s" by simp
  assume "\<forall>s''. \<not> thread_step s' s''"
  then have "threads s' = {#}" using thread_step_enabled by (metis multiset_nonemptyE surj_pair)
  then have "\<not> rg_running (regs s' ! a)" if "a < length (regs s')"
    using inv' that by (auto simp: sched_inv_def split: if_splits)
  moreover have "no_stop_inv s' \<and> cron s' = cron s \<and> length (regs s') = length (regs s)"
    using thread_steps_no_stop [OF run inv no] .
  ultimately show "rg_queue (regs s' ! a) = 0" "\<not> rg_running (regs s' ! a)"
    using assms(2,3) by (auto simp: no_stop_inv_def)
qed

text \<open>
  C11. Graceful shutdown. Once a \<open>Stop\<close> has returned without an error, and until the next \<open>Start\<close>,
  the scheduler is stopped, its wait group is at zero, no registration is running and no goroutine
  is executing or will be: those left have not been admitted or are returning. Every step but a
  new \<open>Start\<close> keeps this.
\<close>
theorem stopped_is_quiet:
  assumes "sched_reach fires s" "epoch s \<in> stopped s"
  shows "\<not> started s \<and> wg s = 0 \<and> (\<forall>(a, p) \<in># threads s. p = Fired \<or> p = Leaving 0)
    \<and> (\<forall>a < length (regs s). \<not> rg_running (regs s ! a))
    \<and> (sched_step fires s s' \<longrightarrow> started s' \<and> epoch s' = epoch s + 1 \<or> epoch s' \<in> stopped s')"
proof -
  note inv = sched_reach_inv [OF assms(1)]
  have off: "\<not> started s" "wg s = 0" using sched_reach_stop [OF assms(1)] assms(2) by (auto simp: stop_inv_def)
  note quiet = quiet_threads [OF inv off(2)]
  moreover have "\<not> rg_running (regs s ! a)" if "a < length (regs s)" for a
  proof
    assume "rg_running (regs s ! a)"
    then have "0 < holders a (threads s)" using inv that by (simp add: sched_inv_def)
    from holder_exists [OF this] quiet show False by fastforce
  qed
  moreover have "started s' \<and> epoch s' = epoch s + 1 \<or> epoch s' \<in> stopped s'" if "sched_step fires s s'"
    using sched_step_stopped [OF that] assms(2) off(1) by auto
  ultimately show ?thesis using off by blast
qed

text \<open>
  A stop terminates. If the executions themselves return, the goroutines of any reachable
  state run out of steps: without new requests they take at most \<open>sched_work\<close> steps, whatever
  their interleaving, and when none can step all have returned and the wait group is at zero,
  so that \<open>Stop\<close> proceeds.
\<close>
theorem executions_drain:
  assumes "sched_reach fires s" "(thread_step ^^ n) s s'"
  shows "n \<le> sched_work s \<and> ((\<forall>s''. \<not> thread_step s' s'') \<longrightarrow> threads s' = {#} \<and> wg s' = 0)"
proof -
  have inv: "sched_inv s'" "n \<le> sched_work s"
    using thread_steps_inv [OF assms(2) sched_reach_inv [OF assms(1)]] by auto
  moreover have "threads s' = {#} \<and> wg s' = 0" if "\<forall>s''. \<not> thread_step s' s''"
  proof -
    have "threads s' = {#}" using thread_step_enabled that by (metis multiset_nonemptyE surj_pair)
    with inv(1) show ?thesis by (simp add: sched_inv_def)
  qed
  ultimately show ?thesis by blast
qed

subsection \<open>A concrete run\<close>

text \<open>
  The cron library as its documentation describes it: an entry fires while the scheduler runs,
  from the call that adds it until the call that removes it.
\<close>

fun cron_apply :: "bool \<times> (nat \<times> nat) list \<Rightarrow> cron_call \<Rightarrow> bool \<times> (nat \<times> nat) list" where
  "cron_apply (on, es) (CronAdd i a) = (on, es @ [(i, a)])"
| "cron_apply (on, es) (CronRemove i) = (on, filter (\<lambda>e. fst e \<noteq> i) es)"
| "cron_apply (on, es) CronStart = (True, es)"
| "cron_apply (on, es) CronStop = (False, es)"

definition documented_cron :: "cron_call list \<Rightarrow> nat \<Rightarrow> bool" where
  "documented_cron h a = (case foldl cron_apply (False, []) h of (on, es) \<Rightarrow> on \<and> a \<in> snd ` set es)"

definition demo_sp :: sched_pipeline where
  "demo_sp = \<lparr>sp_ID = ''p'', sp_Enabled = True, sp_Input = Some (Some ''raw'')\<rparr>"

definition demo_register :: "nat \<Rightarrow> sched \<Rightarrow> sched" where
  "demo_register i s = snd (Register (\<lambda>_. None) (\<lambda>_. Some ''@daily'') (Inr i) (Some demo_sp) s)"

definition demo_section :: "nat \<Rightarrow> pc \<Rightarrow> sched \<Rightarrow> sched" where
  "demo_section a p s = (case thread_section a p s of (p', s') \<Rightarrow>
     s'\<lparr>threads := next_threads a p' + (threads s - {#(a, p)#})\<rparr>)"

lemma reach_register: "sched_reach f s \<Longrightarrow> sched_reach f (demo_register i s)"
  unfolding demo_register_def by (rule sched_reach.step, assumption, rule sched_step.register) (rule surjective_pairing)

lemma reach_unregister: "sched_reach f s \<Longrightarrow> sched_reach f (snd (Unregister i s))"
  by (rule sched_reach.step, assumption, rule sched_step.unregister) (rule surjective_pairing)

lemma reach_start: "sched_reach f s \<Longrightarrow> sched_reach f (snd (Start s))"
  by (rule sched_reach.step, assumption, rule sched_step.start) (rule surjective_pairing)

lemma reach_section: "sched_reach f s \<Longrightarrow> (a, p) \<in># threads s \<Longrightarrow> sched_reach f (demo_section a p s)"
proof -
  assume r: "sched_reach f s" and m: "(a, p) \<in># threads s"
  obtain q s' where q: "thread_section a p s = (q, s')" by (cases "thread_section a p s")
  from thread_step.intros [OF m q] have "thread_step s (demo_section a p s)"
    by (simp add: demo_section_def q next_threads_def)
  with r show ?thesis by (blast intro: sched_reach.step sched_step.thread)
qed

lemma reach_fire:
  "sched_reach f s \<Longrightarrow> a < length (regs s) \<Longrightarrow> f (cron s) a
   \<Longrightarrow> sched_reach f (s\<lparr>threads := add_mset (a, Fired) (threads s)\<rparr>)"
  by (blast intro: sched_reach.step sched_step.fire)

text \<open>From the request to the execution, in three sections.\<close>

lemma reach_execution:
  assumes "sched_reach f s" "a < length (regs s)" "f (cron s) a" "started s" "epoch s \<notin> cancelled s"
    and "\<not> rg_running (regs s ! a)"
  shows "\<exists>s'. sched_reach f s' \<and> threads s' = add_mset (a, Executing 1) (threads s) \<and> cron s' = cron s
    \<and> regs s' = (regs s)[a := (regs s ! a)\<lparr>rg_running := True\<rparr>] \<and> started s' \<and> epoch s' = epoch s
    \<and> cancelled s' = cancelled s \<and> pipelines s' = pipelines s"
proof -
  let ?s1 = "s\<lparr>threads := add_mset (a, Fired) (threads s)\<rparr>"
  let ?s2 = "demo_section a Fired ?s1"
  let ?s3 = "demo_section a (Admitted (epoch s)) ?s2"
  let ?s4 = "demo_section a (Starting (epoch s) 1) ?s3"
  have 1: "sched_reach f ?s1" by (rule reach_fire [OF assms(1-3)])
  have 2: "sched_reach f ?s2" by (rule reach_section [OF 1]) simp
  have t2: "?s2 = s\<lparr>threads := add_mset (a, Admitted (epoch s)) (threads s), wg := wg s + 1\<rparr>"
    using assms by (simp add: demo_section_def)
  have 3: "sched_reach f ?s3" by (rule reach_section [OF 2]) (simp add: t2)
  have t3: "?s3 = set_reg a (\<lambda>r. r\<lparr>rg_running := True\<rparr>)
      (s\<lparr>threads := add_mset (a, Starting (epoch s) 1) (threads s), wg := wg s + 1\<rparr>)"
    unfolding t2 using assms by (simp add: demo_section_def tryStartExecution_def set_reg_def)
  have 4: "sched_reach f ?s4" by (rule reach_section [OF 3]) (simp add: t3)
  have "?s4 = set_reg a (\<lambda>r. r\<lparr>rg_running := True\<rparr>)
      (s\<lparr>threads := add_mset (a, Executing 1) (threads s), wg := wg s + 1\<rparr>)"
    unfolding t3 using assms by (simp add: demo_section_def set_reg_def)
  with 4 assms show ?thesis by (intro exI [of _ ?s4]) simp
qed

text \<open>
  \<open>Stop\<close> forgets the registrations but leaves their entries in cron, and a later \<open>Start\<close> starts
  cron again: a pipeline registered before and after a stop is executed twice per tick, by two
  goroutines at once.
\<close>

definition demo_restarted :: sched where
  "demo_restarted = snd (Start (demo_register 2 (stop_clear 1 (stop_waited 1 (stop_halt (stop_cron
     (snd (Start (demo_register 1 NewScheduler)))))))))"

lemma demo_restarted_reach: "sched_reach documented_cron demo_restarted"
proof -
  let ?s1 = "stop_cron (snd (Start (demo_register 1 NewScheduler)))"
  have r1: "sched_reach documented_cron ?s1"
    by (rule sched_reach.step [OF _ sched_step.stop]) (intro reach_start reach_register sched_reach.new)
  have st: "stops ?s1 = {#StopHalting#}" "wg ?s1 = 0" "epoch ?s1 = 1"
    by (simp_all add: demo_register_def Register_def add_registration_def Start_def stop_cron_def NewScheduler_def
        demo_sp_def GetScheduleFromInput_def ValidateCronExpression_def)
  have r2: "sched_reach documented_cron (stop_halt ?s1)"
    by (rule sched_reach.step [OF r1 sched_step.halt]) (use st in simp)
  have r3: "sched_reach documented_cron (stop_waited 1 (stop_halt ?s1))"
    by (rule sched_reach.step [OF r2 sched_step.waited]) (use st in \<open>simp_all add: stop_halt_def\<close>)
  have "sched_reach documented_cron (stop_clear 1 (stop_waited 1 (stop_halt ?s1)))"
    by (rule sched_reach.step [OF r3 sched_step.clear]) (use st in \<open>simp add: stop_waited_def stop_halt_def\<close>)
  then show ?thesis unfolding demo_restarted_def by (intro reach_start reach_register)
qed

lemma demo_restarted_eq:
  "demo_restarted = \<lparr>regs = [\<lparr>rg_pipeline = demo_sp, rg_entry = 1, rg_running = False, rg_queue = 0\<rparr>,
      \<lparr>rg_pipeline = demo_sp, rg_entry = 2, rg_running = False, rg_queue = 0\<rparr>],
    pipelines = [''p'' \<mapsto> 1], started = True, epoch = 2, cancelled = {1}, wg = 0, threads = {#}, stops = {#}, stopped = {1},
    cron = [CronAdd 1 0, CronStart, CronStop, CronAdd 2 1, CronStart]\<rparr>"
  by (simp add: demo_restarted_def demo_register_def Register_def add_registration_def Start_def stop_cron_def
      stop_halt_def stop_waited_def stop_clear_def NewScheduler_def demo_sp_def GetScheduleFromInput_def
      ValidateCronExpression_def drain_queues_def Let_def)

theorem restart_runs_pipeline_twice:
  "\<exists>s. sched_reach documented_cron s \<and> threads s = {#(0, Executing 1), (1, Executing 1)#}
     \<and> sp_ID (rg_pipeline (regs s ! 0)) = sp_ID (rg_pipeline (regs s ! 1))"
proof -
  have c: "documented_cron [CronAdd 1 0, CronStart, CronStop, CronAdd 2 1, CronStart] 0"
    "documented_cron [CronAdd 1 0, CronStart, CronStop, CronAdd 2 1, CronStart] 1"
    by (simp_all add: documented_cron_def)
  from reach_execution [OF demo_restarted_reach, of 0] c(1) obtain s where
    s: "sched_reach documented_cron s" "threads s = {#(0, Executing 1)#}" "cron s = cron demo_restarted"
      "regs s = (regs demo_restarted)[0 := (regs demo_restarted ! 0)\<lparr>rg_running := True\<rparr>]" "started s"
      "epoch s = epoch demo_restarted" "cancelled s = cancelled demo_restarted"
    by (auto simp: demo_restarted_eq)
  from reach_execution [OF s(1), of 1] c(2) s show ?thesis by (auto simp: demo_restarted_eq add_mset_commute)
qed

text \<open>
  \<open>Unregister\<close>, unlike \<open>Register\<close>, does not ask whether the pipeline is executing: registering
  the pipeline again while its old execution runs lets the two overlap.
\<close>

definition demo_started :: sched where
  "demo_started = snd (Start (demo_register 1 NewScheduler))"

lemma demo_started_eq:
  "demo_started = \<lparr>regs = [\<lparr>rg_pipeline = demo_sp, rg_entry = 1, rg_running = False, rg_queue = 0\<rparr>],
    pipelines = [''p'' \<mapsto> 0], started = True, epoch = 1, cancelled = {}, wg = 0, threads = {#}, stops = {#}, stopped = {},
    cron = [CronAdd 1 0, CronStart]\<rparr>"
  by (simp add: demo_started_def demo_register_def Register_def add_registration_def Start_def NewScheduler_def
      demo_sp_def GetScheduleFromInput_def ValidateCronExpression_def Let_def)

lemma demo_executing:
  "\<exists>s. sched_reach documented_cron s \<and> threads s = {#(0, Executing 1)#} \<and> cron s = [CronAdd 1 0, CronStart]
     \<and> regs s = [\<lparr>rg_pipeline = demo_sp, rg_entry = 1, rg_running = True, rg_queue = 0\<rparr>] \<and> started s
     \<and> epoch s = 1 \<and> cancelled s = {} \<and> pipelines s = [''p'' \<mapsto> 0]"
proof -
  have "sched_reach documented_cron demo_started"
    unfolding demo_started_def by (intro reach_start reach_register sched_reach.new)
  moreover have "documented_cron (cron demo_started) 0" by (simp add: documented_cron_def demo_started_eq)
  ultimately show ?thesis using reach_execution [of documented_cron demo_started 0] by (auto simp: demo_started_eq)
qed

theorem unregister_lets_executions_overlap:
  "\<exists>s. sched_reach documented_cron s \<and> CronStop \<notin> set (cron s) \<and> threads s = {#(0, Executing 1), (1, Executing 1)#}
     \<and> sp_ID (rg_pipeline (regs s ! 0)) = sp_ID (rg_pipeline (regs s ! 1))"
proof -
  obtain s where s: "sched_reach documented_cron s" "threads s = {#(0, Executing 1)#}" "cron s = [CronAdd 1 0, CronStart]"
     "regs s = [\<lparr>rg_pipeline = demo_sp, rg_entry = 1, rg_running = True, rg_queue = 0\<rparr>]" "started s"
     "epoch s = 1" "cancelled s = {}" "pipelines s = [''p'' \<mapsto> 0]" using demo_executing by blast
  let ?t = "demo_register 2 (snd (Unregister ''p'' s))"
  have t: "regs ?t = [\<lparr>rg_pipeline = demo_sp, rg_entry = 1, rg_running = True, rg_queue = 0\<rparr>,
        \<lparr>rg_pipeline = demo_sp, rg_entry = 2, rg_running = False, rg_queue = 0\<rparr>]"
      "cron ?t = [CronAdd 1 0, CronStart, CronRemove 1, CronAdd 2 1]" "threads ?t = {#(0, Executing 1)#}"
      "started ?t" "epoch ?t = 1" "cancelled ?t = {}"
    using s by (simp_all add: demo_register_def Register_def add_registration_def Unregister_def demo_sp_def
        GetScheduleFromInput_def ValidateCronExpression_def Let_def)
  have "documented_cron [CronAdd 1 0, CronStart, CronRemove 1, CronAdd 2 1] 1" by (simp add: documented_cron_def)
  with t reach_execution [OF reach_register [OF reach_unregister [OF s(1)]], of 1 2 "''p''"]
  show ?thesis by (auto simp: add_mset_commute)
qed

text \<open>A second request while the first executes waits in the queue.\<close>

lemma demo_queued:
  "\<exists>s. sched_reach documented_cron s \<and> threads s = {#(0, Executing 1), (0, Leaving 1)#} \<and> CronStop \<notin> set (cron s)
     \<and> regs s = [\<lparr>rg_pipeline = demo_sp, rg_entry = 1, rg_running = True, rg_queue = 1\<rparr>]"
proof -
  obtain s where s: "sched_reach documented_cron s" "threads s = {#(0, Executing 1)#}" "cron s = [CronAdd 1 0, CronStart]"
     "regs s = [\<lparr>rg_pipeline = demo_sp, rg_entry = 1, rg_running = True, rg_queue = 0\<rparr>]" "started s"
    using demo_executing by blast
  let ?s1 = "s\<lparr>threads := add_mset (0, Fired) (threads s)\<rparr>"
  let ?s2 = "demo_section 0 Fired ?s1"
  let ?s3 = "demo_section 0 (Admitted (epoch s)) ?s2"
  have 1: "sched_reach documented_cron ?s1"
    by (rule reach_fire [OF s(1)]) (simp_all add: s documented_cron_def)
  have 2: "sched_reach documented_cron ?s2" by (rule reach_section [OF 1]) simp
  have t2: "?s2 = s\<lparr>threads := add_mset (0, Admitted (epoch s)) (threads s), wg := wg s + 1\<rparr>"
    using s by (simp add: demo_section_def)
  have 3: "sched_reach documented_cron ?s3" by (rule reach_section [OF 2]) (simp add: t2)
  have "?s3 = set_reg 0 (\<lambda>r. r\<lparr>rg_queue := rg_queue r + 1\<rparr>)
      (s\<lparr>threads := add_mset (0, Leaving 1) (threads s), wg := wg s + 1\<rparr>)"
    unfolding t2 using s by (simp add: demo_section_def tryStartExecution_def set_reg_def DefaultQueueCapacity_def)
  with 3 s show ?thesis by (intro exI [of _ ?s3]) (simp add: add_mset_commute)
qed

theorem executions_do_not_overlap_witness:
  "\<exists>s. sched_reach documented_cron s \<and> (0, Executing 1) \<in># threads s \<and> holders 0 (threads s) = 1"
proof -
  obtain s where s: "sched_reach documented_cron s" "threads s = {#(0, Executing 1)#}"
     "regs s = [\<lparr>rg_pipeline = demo_sp, rg_entry = 1, rg_running = True, rg_queue = 0\<rparr>]"
    using demo_executing by blast
  from executions_do_not_overlap [OF s(1), of 0] s show ?thesis by (intro exI [of _ s]) simp
qed

theorem queued_requests_served_witness:
  "\<exists>s. sched_reach documented_cron s \<and> rg_queue (regs s ! 0) = 1
     \<and> (\<exists>p. (0, p) \<in># threads s \<and> holding p \<and> started s)
     \<and> (\<forall>n s'. (thread_step ^^ n) s s' \<and> (\<forall>s''. \<not> thread_step s' s'') \<longrightarrow> rg_queue (regs s' ! 0) = 0)"
proof -
  obtain s where s: "sched_reach documented_cron s" "CronStop \<notin> set (cron s)"
     "regs s = [\<lparr>rg_pipeline = demo_sp, rg_entry = 1, rg_running = True, rg_queue = 1\<rparr>]"
    using demo_queued by blast
  have q: "0 < length (regs s)" "0 < rg_queue (regs s ! 0)" "rg_queue (regs s ! 0) = 1" by (simp_all add: s(3))
  from queued_requests_served [OF s(1,2) q(1,2)] s(1) q(3) show ?thesis by blast
qed

theorem stopped_is_quiet_witness:
  "\<exists>s. sched_reach documented_cron s \<and> epoch s = 1 \<and> length (regs s) = 1 \<and> \<not> rg_running (regs s ! 0) \<and> wg s = 0"
proof -
  let ?s1 = "stop_cron demo_started"
  let ?s = "stop_clear 1 (stop_waited 1 (stop_halt ?s1))"
  have r1: "sched_reach documented_cron ?s1"
    unfolding demo_started_def
    by (rule sched_reach.step [OF _ sched_step.stop]) (intro reach_start reach_register sched_reach.new)
  have r2: "sched_reach documented_cron (stop_halt ?s1)"
    by (rule sched_reach.step [OF r1 sched_step.halt]) (simp add: stop_cron_def)
  have r3: "sched_reach documented_cron (stop_waited 1 (stop_halt ?s1))"
    by (rule sched_reach.step [OF r2 sched_step.waited]) (simp add: stop_halt_def stop_cron_def demo_started_eq)
  have r: "sched_reach documented_cron ?s"
    by (rule sched_reach.step [OF r3 sched_step.clear])
      (simp add: stop_waited_def stop_halt_def stop_cron_def demo_started_eq)
  have e: "epoch ?s = 1" "length (regs ?s) = 1" "epoch ?s \<in> stopped ?s"
    by (simp_all add: demo_started_eq stop_cron_def stop_halt_def stop_waited_def stop_clear_def enumerate_drain)
  from stopped_is_quiet [OF r e(3)] e(1,2) r show ?thesis by (intro exI [of _ ?s]) auto
qed

theorem executions_drain_witness:
  "\<exists>s s'. sched_reach documented_cron s \<and> thread_step s s' \<and> 1 \<le> sched_work s"
proof -
  obtain s where s: "sched_reach documented_cron s" "threads s = {#(0, Executing 1)#}"
    using demo_executing by blast
  then obtain s' where s': "thread_step s s'" using thread_step_enabled [of 0 "Executing 1" s] by auto
  then have "(thread_step ^^ 1) s s'" by auto
  from executions_drain [OF s(1) this] s s' show ?thesis by blast
qed

end
