(* ===== verification/RecordHeap.thy ===== *)
theory RecordHeap
  imports RecordPath
begin

text \<open>
  The functions of \<open>internal/recordpath/path.go\<close> on a heap of maps and backing arrays, where Go
  runs them: records share maps and slices, and a write through one of them is seen through
  all. \<open>RecordPath\<close> has the same functions on values. The refinement below shows that they agree
  on a record that is a tree, and that nothing outside the tree changes.
\<close>

subsection \<open>The heap\<close>

text \<open>
  A reference is an address. A slice is the address of its backing array and its length; its
  capacity is the length of the array. The slices of a record all start at the first element.
\<close>

datatype hval =
    HNil
  | HBool bool
  | HInt int
  | HFloat go_float
  | HStr string
  | HArr nat nat
  | HMap nat
  | HOther string string

record heap =
  maps :: "nat \<Rightarrow> string \<Rightarrow> hval option"
  arrs :: "nat \<Rightarrow> hval list"
  fresh :: nat

definition put_map :: "nat \<Rightarrow> string \<Rightarrow> hval \<Rightarrow> heap \<Rightarrow> heap" where
  "put_map a key v h = h\<lparr>maps := (maps h)(a := (maps h a)(key \<mapsto> v))\<rparr>"

definition del_map :: "nat \<Rightarrow> string \<Rightarrow> heap \<Rightarrow> heap" where
  "del_map a key h = h\<lparr>maps := (maps h)(a := (maps h a)(key := None))\<rparr>"

definition put_arr :: "nat \<Rightarrow> hval list \<Rightarrow> heap \<Rightarrow> heap" where
  "put_arr a xs h = h\<lparr>arrs := (arrs h)(a := xs)\<rparr>"

definition new_map :: "heap \<Rightarrow> nat \<times> heap" where
  "new_map h = (fresh h, h\<lparr>maps := (maps h)(fresh h := Map.empty), fresh := fresh h + 1\<rparr>)"

definition new_arr :: "hval list \<Rightarrow> heap \<Rightarrow> nat \<times> heap" where
  "new_arr xs h = (fresh h, h\<lparr>arrs := (arrs h)(fresh h := xs), fresh := fresh h + 1\<rparr>)"

subsection \<open>Reading\<close>

definition h_getFromMap :: "heap \<Rightarrow> hval \<Rightarrow> string \<Rightarrow> hval option" where
  "h_getFromMap h current key = (case current of HMap a \<Rightarrow> maps h a key | _ \<Rightarrow> None)"

definition h_getFromArray :: "heap \<Rightarrow> hval \<Rightarrow> int \<Rightarrow> hval option" where
  "h_getFromArray h current index =
     (case current of
        HArr a n \<Rightarrow> if index < 0 \<or> index \<ge> int n then None else Some (arrs h a ! nat index)
      | _ \<Rightarrow> None)"

definition h_navigateStep :: "heap \<Rightarrow> hval \<Rightarrow> string \<Rightarrow> hval option" where
  "h_navigateStep h current part =
     (case ParsePart part of
        Inl _ \<Rightarrow> None
      | Inr (key, arrayIdx, hasIndex) \<Rightarrow>
          (case h_getFromMap h current key of
             None \<Rightarrow> None
           | Some next \<Rightarrow> if hasIndex then h_getFromArray h next arrayIdx else Some next))"

fun h_nav_loop :: "heap \<Rightarrow> hval \<Rightarrow> string list \<Rightarrow> hval option" where
  "h_nav_loop h current [] = Some current"
| "h_nav_loop h current (p # ps) =
     (case h_navigateStep h current p of None \<Rightarrow> None | Some next \<Rightarrow> h_nav_loop h next ps)"

definition h_Get :: "heap \<Rightarrow> nat \<Rightarrow> string \<Rightarrow> hval option" where
  "h_Get h obj path = (if path = [] then None else h_nav_loop h (HMap obj) (split_on (CHR ''.'') path))"

subsection \<open>Writing\<close>

definition h_ensureMapAtPath :: "nat \<Rightarrow> string \<Rightarrow> heap \<Rightarrow> nat \<times> heap" where
  "h_ensureMapAtPath current key h =
     (case maps h current key of
        Some (HMap b) \<Rightarrow> (b, h)
      | _ \<Rightarrow> (case new_map h of (b, h) \<Rightarrow> (b, put_map current key (HMap b) h)))"

definition h_ensureArrayAtPath :: "nat \<Rightarrow> string \<Rightarrow> heap \<Rightarrow> (nat \<times> nat) \<times> heap" where
  "h_ensureArrayAtPath current key h =
     (case maps h current key of
        Some (HArr b n) \<Rightarrow> ((b, n), h)
      | _ \<Rightarrow> (case new_arr [] h of (b, h) \<Rightarrow> ((b, 0), put_map current key (HArr b 0) h)))"

text \<open>
  \<open>append(arr, make([]any, k)...)\<close>: in place while the capacity lasts, otherwise into a new
  array whose spare capacity (\<open>spare\<close>) the language leaves open.
\<close>

definition append_nils :: "(nat \<Rightarrow> nat) \<Rightarrow> nat \<times> nat \<Rightarrow> nat \<Rightarrow> heap \<Rightarrow> (nat \<times> nat) \<times> heap" where
  "append_nils spare arr need h =
     (case arr of (b, n) \<Rightarrow>
        if need \<le> length (arrs h b)
        then ((b, need), put_arr b (take n (arrs h b) @ replicate (need - n) HNil @ drop need (arrs h b)) h)
        else (case new_arr (take n (arrs h b) @ replicate (need - n + spare need) HNil) h of
                (b', h) \<Rightarrow> ((b', need), h)))"

definition h_grow :: "(nat \<Rightarrow> nat) \<Rightarrow> nat \<Rightarrow> string \<Rightarrow> nat \<Rightarrow> heap \<Rightarrow> (nat \<times> nat) \<times> heap" where
  "h_grow spare current key index h =
     (case h_ensureArrayAtPath current key h of
        ((b, n), h) \<Rightarrow>
          if n \<le> index
          then (case append_nils spare (b, n) (index + 1) h of
                  ((b, n), h) \<Rightarrow> ((b, n), put_map current key (HArr b n) h))
          else ((b, n), h))"

definition h_setArrayElement :: "(nat \<Rightarrow> nat) \<Rightarrow> nat \<Rightarrow> string \<Rightarrow> nat \<Rightarrow> hval \<Rightarrow> heap \<Rightarrow> heap" where
  "h_setArrayElement spare current key index v h =
     (case h_grow spare current key index h of
        ((b, n), h) \<Rightarrow> put_arr b ((arrs h b)[index := v]) h)"

definition h_ensureMapInArray :: "(nat \<Rightarrow> nat) \<Rightarrow> nat \<Rightarrow> string \<Rightarrow> nat \<Rightarrow> heap \<Rightarrow> nat \<times> heap" where
  "h_ensureMapInArray spare current key index h =
     (case h_grow spare current key index h of
        ((b, n), h) \<Rightarrow>
          (case arrs h b ! index of
             HMap c \<Rightarrow> (c, h)
           | _ \<Rightarrow> (case new_map h of (c, h) \<Rightarrow> (c, put_arr b ((arrs h b)[index := HMap c]) h))))"

fun h_set_loop :: "(nat \<Rightarrow> nat) \<Rightarrow> nat \<Rightarrow> string list \<Rightarrow> hval \<Rightarrow> heap \<Rightarrow> path_error option \<times> heap" where
  "h_set_loop spare current [] v h = (None, h)"
| "h_set_loop spare current (p # ps) v h =
     (case ParsePart p of
        Inl e \<Rightarrow> (Some e, h)
      | Inr (part, index, hasIndex) \<Rightarrow>
          if \<not> hasIndex then
            (if ps = [] then (None, put_map current part v h)
             else (case h_ensureMapAtPath current part h of (next, h) \<Rightarrow> h_set_loop spare next ps v h))
          else if ps = [] then (None, h_setArrayElement spare current part (nat index) v h)
          else (case h_ensureMapInArray spare current part (nat index) h of (next, h) \<Rightarrow> h_set_loop spare next ps v h))"

definition h_Set :: "(nat \<Rightarrow> nat) \<Rightarrow> nat \<Rightarrow> string \<Rightarrow> hval \<Rightarrow> heap \<Rightarrow> path_error option \<times> heap" where
  "h_Set spare obj path v h =
     (if path = [] then (Some ErrEmptyPath, h) else h_set_loop spare obj (split_on (CHR ''.'') path) v h)"

subsection \<open>Deleting\<close>

text \<open>\<open>append(arr[:i], arr[i+1:]...)\<close> moves the tail down in place and leaves the last element twice.\<close>

definition h_deleteFromMap :: "nat \<Rightarrow> string \<Rightarrow> int \<Rightarrow> bool \<Rightarrow> heap \<Rightarrow> heap" where
  "h_deleteFromMap parent key arrayIdx hasIndex h =
     (if hasIndex then
        (case maps h parent key of
           Some (HArr b n) \<Rightarrow>
             if arrayIdx \<ge> int n then h
             else let xs = arrs h b; i = nat arrayIdx
                  in put_map parent key (HArr b (n - 1))
                       (put_arr b (take i xs @ drop (i + 1) (take n xs) @ drop (n - 1) xs) h)
         | _ \<Rightarrow> h)
      else del_map parent key h)"

definition h_deleteFromArray :: "nat \<times> nat \<Rightarrow> string \<Rightarrow> int \<Rightarrow> bool \<Rightarrow> heap \<Rightarrow> heap" where
  "h_deleteFromArray parent key arrayIdx hasIndex h =
     (case parent of (b, n) \<Rightarrow>
        if hasIndex \<and> arrayIdx < int n then
          (case arrs h b ! nat arrayIdx of HMap c \<Rightarrow> del_map c key h | _ \<Rightarrow> h)
        else h)"

definition h_deleteLeafFromParent :: "hval \<Rightarrow> string \<Rightarrow> heap \<Rightarrow> heap" where
  "h_deleteLeafFromParent parent lastPart h =
     (case ParsePart lastPart of
        Inl _ \<Rightarrow> h
      | Inr (key, arrayIdx, hasIndex) \<Rightarrow>
          (case parent of
             HMap a \<Rightarrow> h_deleteFromMap a key arrayIdx hasIndex h
           | HArr b n \<Rightarrow> h_deleteFromArray (b, n) key arrayIdx hasIndex h
           | _ \<Rightarrow> h))"

definition h_Delete :: "nat \<Rightarrow> string \<Rightarrow> heap \<Rightarrow> heap" where
  "h_Delete obj path h =
     (if path = [] then h
      else let parts = split_on (CHR ''.'') path
           in (case h_nav_loop h (HMap obj) (butlast parts) of
                 None \<Rightarrow> h
               | Some parent \<Rightarrow> h_deleteLeafFromParent parent (last parts) h))"

subsection \<open>Trees\<close>

text \<open>
  \<open>rep h S v g\<close>: in the heap \<open>h\<close> the value \<open>v\<close> is a tree with the value \<open>g\<close>, made of the
  containers at the addresses \<open>S\<close>, each reached along one path only.
\<close>

fun scalar :: "hval \<Rightarrow> gval option" where
  "scalar HNil = Some GNil"
| "scalar (HBool b) = Some (GBool b)"
| "scalar (HInt i) = Some (GInt i)"
| "scalar (HFloat f) = Some (GFloat f)"
| "scalar (HStr s) = Some (GStr s)"
| "scalar (HOther t s) = Some (GOther t s)"
| "scalar (HArr a n) = None"
| "scalar (HMap a) = None"

definition apart :: "('i \<Rightarrow> nat set) \<Rightarrow> bool" where
  "apart S \<longleftrightarrow> (\<forall>i j. i \<noteq> j \<longrightarrow> S i \<inter> S j = {})"

lemma apart_upd: "apart F \<Longrightarrow> (\<And>j. j \<noteq> k \<Longrightarrow> F j \<inter> C = {}) \<Longrightarrow> apart (F(k := C))"
  unfolding apart_def by (metis fun_upd_apply inf_commute)

inductive rep :: "heap \<Rightarrow> nat set \<Rightarrow> hval \<Rightarrow> gval \<Rightarrow> bool" for h :: heap where
  rep_scalar: "scalar v = Some g \<Longrightarrow> rep h {} v g"
| rep_map: "a < fresh h \<Longrightarrow> apart S \<Longrightarrow> a \<notin> (\<Union>k. S k)
    \<Longrightarrow> (\<And>k. maps h a k = None \<Longrightarrow> m k = None \<and> S k = {})
    \<Longrightarrow> (\<And>k v. maps h a k = Some v \<Longrightarrow> \<exists>g. m k = Some g \<and> rep h (S k) v g)
    \<Longrightarrow> rep h (insert a (\<Union>k. S k)) (HMap a) (GMap m)"
| rep_arr: "a < fresh h \<Longrightarrow> apart S \<Longrightarrow> a \<notin> (\<Union>i. S i)
    \<Longrightarrow> n \<le> length (arrs h a) \<Longrightarrow> length gs = n
    \<Longrightarrow> (\<And>i. i \<ge> n \<Longrightarrow> S i = {})
    \<Longrightarrow> (\<And>i. i < n \<Longrightarrow> rep h (S i) (arrs h a ! i) (gs ! i))
    \<Longrightarrow> rep h (insert a (\<Union>i. S (i :: nat))) (HArr a n) (GArr gs)"

inductive_cases rep_scalarE: "rep h S HNil g" "rep h S (HBool b) g" "rep h S (HInt i) g"
  "rep h S (HFloat f) g" "rep h S (HStr s) g" "rep h S (HOther t s) g"
inductive_cases rep_mapE: "rep h S (HMap a) g"
inductive_cases rep_arrE: "rep h S (HArr a n) g"

lemma rep_below: "rep h S v g \<Longrightarrow> S \<subseteq> {..<fresh h}"
proof (induction rule: rep.induct)
  case (rep_map a S m)
  have "S k \<subseteq> {..<fresh h}" for k
    using rep_map.hyps(4) rep_map.IH by (cases "maps h a k") auto
  with rep_map.hyps(1) show ?case by auto
next
  case (rep_arr a S n gs)
  have "S k \<subseteq> {..<fresh h}" for k
    using rep_arr.hyps(6) rep_arr.IH by (cases "k < n") auto
  with rep_arr.hyps(1) show ?case by auto
qed simp

text \<open>Heaps that agree on a set of addresses.\<close>

definition agree :: "nat set \<Rightarrow> heap \<Rightarrow> heap \<Rightarrow> bool" where
  "agree S h h' \<longleftrightarrow> fresh h \<le> fresh h' \<and> (\<forall>a \<in> S. maps h' a = maps h a \<and> arrs h' a = arrs h a)"

lemma agree_refl [simp]: "agree S h h"
  by (simp add: agree_def)

lemma agree_mono: "agree S h h' \<Longrightarrow> T \<subseteq> S \<Longrightarrow> agree T h h'"
  by (auto simp: agree_def)

lemma agree_trans: "agree S h h' \<Longrightarrow> agree S h' h'' \<Longrightarrow> agree S h h''"
  by (auto simp: agree_def)

lemma rep_agree: "rep h S v g \<Longrightarrow> agree S h h' \<Longrightarrow> rep h' S v g"
proof (induction rule: rep.induct)
  case (rep_scalar v g)
  show ?case by (rule rep.rep_scalar) (rule rep_scalar.hyps)
next
  case (rep_map a S m)
  have a: "maps h' a = maps h a" "fresh h \<le> fresh h'" using rep_map.prems by (simp_all add: agree_def)
  have sub: "agree (S k) h h'" for k by (rule agree_mono [OF rep_map.prems]) auto
  show ?case
  proof (rule rep.rep_map)
    fix k v assume "maps h' a k = Some v"
    with rep_map.IH sub a show "\<exists>g. m k = Some g \<and> rep h' (S k) v g" by fastforce
  qed (use rep_map.hyps a in auto)
next
  case (rep_arr a S n gs)
  have a: "arrs h' a = arrs h a" "fresh h \<le> fresh h'" using rep_arr.prems by (simp_all add: agree_def)
  have sub: "agree (S k) h h'" for k by (rule agree_mono [OF rep_arr.prems]) auto
  show ?case by (rule rep.rep_arr) (use rep_arr.hyps rep_arr.IH a sub in auto)
qed

text \<open>
  Taking a child out of a container and putting another tree in its place.
\<close>

lemma rep_map_focus:
  assumes "rep h S (HMap a) (GMap m)"
  obtains C R where "S = R \<union> C" "R \<inter> C = {}" "a \<in> R" "a < fresh h"
    "maps h a k = None \<Longrightarrow> m k = None"
    "\<And>v. maps h a k = Some v \<Longrightarrow> \<exists>g. m k = Some g \<and> rep h C v g"
    "\<And>h' C' v' g'. \<lbrakk>rep h' C' v' g'; agree (R - {a}) h h'; maps h' a = (maps h a)(k \<mapsto> v'); R \<inter> C' = {}\<rbrakk>
       \<Longrightarrow> rep h' (R \<union> C') (HMap a) (GMap (m(k \<mapsto> g')))"
    "\<And>h'. \<lbrakk>agree (R - {a}) h h'; maps h' a = (maps h a)(k := None)\<rbrakk> \<Longrightarrow> rep h' R (HMap a) (GMap (m(k := None)))"
proof -
  from assms obtain F where S: "S = insert a (\<Union>k. F k)" and a: "a < fresh h" and d: "apart F" "a \<notin> (\<Union>k. F k)"
    and n: "\<And>k. maps h a k = None \<Longrightarrow> m k = None \<and> F k = {}"
    and v: "\<And>k v. maps h a k = Some v \<Longrightarrow> \<exists>g. m k = Some g \<and> rep h (F k) v g"
    by (cases rule: rep_mapE) auto
  define R where "R = insert a (\<Union>j \<in> - {k}. F j)"
  have disj: "F i \<inter> F j = {}" if "i \<noteq> j" for i j using d(1) that by (simp add: apart_def)
  have keep: "rep h' (F j) v g" if "rep h (F j) v g" "j \<noteq> k" "agree (R - {a}) h h'" for h' j v g
  proof -
    have "F j \<subseteq> R - {a}" using that(2) d(2) by (auto simp: R_def)
    with that(1,3) show ?thesis by (metis rep_agree agree_mono)
  qed
  show ?thesis
  proof
    show "S = R \<union> F k" using S by (auto simp: R_def)
    show "R \<inter> F k = {}" using disj d(2) by (auto simp: R_def)
    show "a \<in> R" by (simp add: R_def)
    show "a < fresh h" by (rule a)
    show "m k = None" if "maps h a k = None" using n that by blast
    show "\<exists>g. m k = Some g \<and> rep h (F k) v g" if "maps h a k = Some v" for v using that by (rule v)
  next
    fix h' C' v' g' assume r: "rep h' C' v' g'" "agree (R - {a}) h h'" "maps h' a = (maps h a)(k \<mapsto> v')" "R \<inter> C' = {}"
    have "rep h' (insert a (\<Union>j. (F(k := C')) j)) (HMap a) (GMap (m(k \<mapsto> g')))"
    proof (rule rep_map)
      show "a < fresh h'" using a r(2) by (auto simp: agree_def)
      have "F j \<inter> C' = {}" if "j \<noteq> k" for j using that r(4) by (auto simp: R_def)
      with d(1) show "apart (F(k := C'))" by (simp add: apart_upd)
      show "a \<notin> (\<Union>j. (F(k := C')) j)" using d(2) r(4) by (auto simp: R_def)
    next
      fix j assume "maps h' a j = None"
      with r(3) n show "(m(k \<mapsto> g')) j = None \<and> (F(k := C')) j = {}" by (auto split: if_splits)
    next
      fix j w assume w: "maps h' a j = Some w"
      show "\<exists>g. (m(k \<mapsto> g')) j = Some g \<and> rep h' ((F(k := C')) j) w g"
      proof (cases "j = k")
        case True
        with w r(1,3) show ?thesis by simp
      next
        case False
        with w r(3) have "maps h a j = Some w" by simp
        from v [OF this] keep [OF _ False r(2)] False show ?thesis by auto
      qed
    qed
    moreover have "insert a (\<Union>j. (F(k := C')) j) = R \<union> C'" by (auto simp: R_def split: if_splits)
    ultimately show "rep h' (R \<union> C') (HMap a) (GMap (m(k \<mapsto> g')))" by simp
  next
    fix h' assume r: "agree (R - {a}) h h'" "maps h' a = (maps h a)(k := None)"
    have "rep h' (insert a (\<Union>j. (F(k := {})) j)) (HMap a) (GMap (m(k := None)))"
    proof (rule rep_map)
      show "a < fresh h'" using a r(1) by (auto simp: agree_def)
      show "apart (F(k := {}))" using disj by (auto simp: apart_def)
      show "a \<notin> (\<Union>j. (F(k := {})) j)" using d(2) by (auto split: if_splits)
    next
      fix j assume "maps h' a j = None"
      with r(2) n show "(m(k := None)) j = None \<and> (F(k := {})) j = {}" by (auto split: if_splits)
    next
      fix j w assume w: "maps h' a j = Some w"
      with r(2) have j: "j \<noteq> k" "maps h a j = Some w" by (auto split: if_splits)
      from v [OF j(2)] keep [OF _ j(1) r(1)] j(1)
      show "\<exists>g. (m(k := None)) j = Some g \<and> rep h' ((F(k := {})) j) w g" by auto
    qed
    moreover have "insert a (\<Union>j. (F(k := {})) j) = R" by (auto simp: R_def split: if_splits)
    ultimately show "rep h' R (HMap a) (GMap (m(k := None)))" by simp
  qed
qed

lemma rep_arr_focus:
  assumes "rep h S (HArr a n) (GArr gs)" "i < n"
  obtains C R where "S = R \<union> C" "R \<inter> C = {}" "a \<in> R" "a < fresh h" "n \<le> length (arrs h a)" "length gs = n"
    "rep h C (arrs h a ! i) (gs ! i)"
    "\<And>h' C' v' g'. \<lbrakk>rep h' C' v' g'; agree (R - {a}) h h'; arrs h' a = (arrs h a)[i := v']; R \<inter> C' = {}\<rbrakk>
       \<Longrightarrow> rep h' (R \<union> C') (HArr a n) (GArr (gs[i := g']))"
proof -
  from assms(1) obtain F where S: "S = insert a (\<Union>k. F (k :: nat))" and a: "a < fresh h"
    and d: "apart F" "a \<notin> (\<Union>k. F k)" and l: "n \<le> length (arrs h a)" "length gs = n"
    and n: "\<And>k. k \<ge> n \<Longrightarrow> F k = {}"
    and v: "\<And>k. k < n \<Longrightarrow> rep h (F k) (arrs h a ! k) (gs ! k)"
    by (cases rule: rep_arrE) auto
  define R where "R = insert a (\<Union>j \<in> - {i}. F j)"
  have disj: "F x \<inter> F j = {}" if "x \<noteq> j" for x j using d(1) that by (simp add: apart_def)
  show ?thesis
  proof
    show "S = R \<union> F i" using S by (auto simp: R_def)
    show "R \<inter> F i = {}" using disj d(2) by (auto simp: R_def)
    show "a \<in> R" "a < fresh h" "n \<le> length (arrs h a)" "length gs = n" by (simp_all add: R_def a l)
    show "rep h (F i) (arrs h a ! i) (gs ! i)" by (rule v [OF assms(2)])
  next
    fix h' C' v' g' assume r: "rep h' C' v' g'" "agree (R - {a}) h h'" "arrs h' a = (arrs h a)[i := v']" "R \<inter> C' = {}"
    have "rep h' (insert a (\<Union>j. (F(i := C')) j)) (HArr a n) (GArr (gs[i := g']))"
    proof (rule rep_arr)
      show "a < fresh h'" using a r(2) by (auto simp: agree_def)
      have "F j \<inter> C' = {}" if "j \<noteq> i" for j using that r(4) by (auto simp: R_def)
      with d(1) show "apart (F(i := C'))" by (simp add: apart_upd)
      show "a \<notin> (\<Union>j. (F(i := C')) j)" using d(2) r(4) by (auto simp: R_def)
      show "n \<le> length (arrs h' a)" "length (gs[i := g']) = n" using l r(3) by simp_all
      show "(F(i := C')) j = {}" if "j \<ge> n" for j using that n assms(2) by auto
    next
      fix j assume j: "j < n"
      show "rep h' ((F(i := C')) j) (arrs h' a ! j) (gs[i := g'] ! j)"
      proof (cases "j = i")
        case True
        with r(1,3) l assms(2) show ?thesis by simp
      next
        case False
        then have "F j \<subseteq> R - {a}" using d(2) by (auto simp: R_def)
        with v [OF j] r(2) have "rep h' (F j) (arrs h a ! j) (gs ! j)" by (metis rep_agree agree_mono)
        with False r(3) show ?thesis by simp
      qed
    qed
    moreover have "insert a (\<Union>j. (F(i := C')) j) = R \<union> C'" by (auto simp: R_def split: if_splits)
    ultimately show "rep h' (R \<union> C') (HArr a n) (GArr (gs[i := g']))" by simp
  qed
qed

lemma rep_empty_map: "maps h a = Map.empty \<Longrightarrow> a < fresh h \<Longrightarrow> rep h {a} (HMap a) (GMap Map.empty)"
  using rep_map [of a h "\<lambda>_. {}" "Map.empty"] by (simp add: apart_def)

lemma rep_nils: "a < fresh h \<Longrightarrow> n \<le> length (arrs h a) \<Longrightarrow> \<forall>i < n. arrs h a ! i = HNil
   \<Longrightarrow> rep h {a} (HArr a n) (GArr (replicate n GNil))"
  using rep_arr [of a h "\<lambda>_. {}" n "replicate n GNil"] by (simp add: apart_def rep_scalar)

subsection \<open>Refinement: writing\<close>

text \<open>
  \<open>hole h R a v f\<close>: the container at \<open>a\<close>, made of \<open>R\<close>, has a hole that holds \<open>v\<close>; with a tree
  of value \<open>g\<close> behind \<open>v\<close> it is the map \<open>f g\<close>. \<open>changes S h h'\<close>: of the allocated addresses only
  those in \<open>S\<close> are written.
\<close>

definition hole :: "heap \<Rightarrow> nat set \<Rightarrow> nat \<Rightarrow> hval \<Rightarrow> (gval \<Rightarrow> grecord) \<Rightarrow> bool" where
  "hole h R a v f \<longleftrightarrow> (\<forall>h' C g. rep h' C v g \<longrightarrow> agree R h h' \<longrightarrow> R \<inter> C = {} \<longrightarrow> rep h' (R \<union> C) (HMap a) (GMap (f g)))"

definition changes :: "nat set \<Rightarrow> heap \<Rightarrow> heap \<Rightarrow> bool" where
  "changes S h h' \<longleftrightarrow> agree ({..<fresh h} - S) h h'"

lemma changes_iff:
  "changes S h h' \<longleftrightarrow> fresh h \<le> fresh h'
     \<and> (\<forall>a. a < fresh h \<longrightarrow> a \<notin> S \<longrightarrow> maps h' a = maps h a \<and> arrs h' a = arrs h a)"
  by (auto simp: changes_def agree_def)

lemma changes_trans:
  assumes "changes S h h'" "changes T h' h''" "T \<subseteq> S \<union> {fresh h..}"
  shows "changes S h h''"
proof -
  have "a \<notin> T \<and> a < fresh h'" if "a < fresh h" "a \<notin> S" for a
    using that assms(1,3) by (force simp: changes_iff)
  with assms(1,2) show ?thesis by (simp add: changes_iff)
qed

lemma changes_refl [simp]: "changes S h h"
  by (simp add: changes_iff)

lemma changes_mono: "changes S h h' \<Longrightarrow> S \<subseteq> T \<Longrightarrow> changes T h h'"
  by (auto simp: changes_iff)

lemma changes_fresh: "changes S h h' \<Longrightarrow> fresh h \<le> fresh h'"
  by (simp add: changes_iff)

lemma rep_changes:
  assumes "rep h T v g" "changes S h h'" "S \<inter> T = {}"
  shows "rep h' T v g"
proof (rule rep_agree [OF assms(1)])
  show "agree T h h'" using assms(2,3) rep_below [OF assms(1)] by (auto simp: changes_iff agree_def)
qed

lemma scalar_not_container: "scalar v = Some g \<Longrightarrow> as_map g = None \<and> as_arr g = None"
  by (cases v) (auto simp: as_map_def as_arr_def)

lemma heap_simps [simp]:
  "fresh (put_map a k v h) = fresh h" "arrs (put_map a k v h) = arrs h"
  "maps (put_map a k v h) = (maps h)(a := (maps h a)(k \<mapsto> v))"
  "fresh (del_map a k h) = fresh h" "arrs (del_map a k h) = arrs h"
  "maps (del_map a k h) = (maps h)(a := (maps h a)(k := None))"
  "fresh (put_arr a xs h) = fresh h" "maps (put_arr a xs h) = maps h" "arrs (put_arr a xs h) = (arrs h)(a := xs)"
  by (simp_all add: put_map_def del_map_def put_arr_def)

lemma rep_as_map: "rep h C v g \<Longrightarrow> \<nexists>c. v = HMap c \<Longrightarrow> as_map g = None"
  by (cases rule: rep.cases) (auto dest: scalar_not_container)

lemma rep_as_arr: "rep h C v g \<Longrightarrow> \<nexists>b n. v = HArr b n \<Longrightarrow> as_arr g = None"
  by (cases rule: rep.cases) (auto dest: scalar_not_container)

lemma dis_fresh:
  assumes "R \<subseteq> {..<(n::nat)}" "R \<inter> C = {}" "C' \<subseteq> C \<union> {n..<k}"
  shows "R \<inter> C' = {}"
proof -
  have False if "x \<in> R" "x \<in> C'" for x
  proof -
    from subsetD [OF assms(3) that(2)] have "x \<in> C \<or> n \<le> x" by auto
    with that(1) assms(1,2) show False by auto
  qed
  then show ?thesis by blast
qed

lemma ensureMap_rep:
  assumes "rep h S (HMap a) (GMap m)" "h_ensureMapAtPath a k h = (b, h1)"
  shows "changes S h h1 \<and> (\<exists>R C. R \<inter> C = {} \<and> R \<union> C \<subseteq> S \<union> {fresh h..<fresh h1}
    \<and> rep h1 C (HMap b) (GMap (ensureMapAtPath m k)) \<and> hole h1 R a (HMap b) (\<lambda>g. m(k \<mapsto> g)))"
proof -
  from rep_map_focus [OF assms(1), of k] obtain C R where S: "S = R \<union> C" "R \<inter> C = {}" "a \<in> R" "a < fresh h"
    and none: "maps h a k = None \<Longrightarrow> m k = None"
    and some: "\<And>v. maps h a k = Some v \<Longrightarrow> \<exists>g. m k = Some g \<and> rep h C v g"
    and put: "\<And>h' C' v' g'. \<lbrakk>rep h' C' v' g'; agree (R - {a}) h h'; maps h' a = (maps h a)(k \<mapsto> v'); R \<inter> C' = {}\<rbrakk>
       \<Longrightarrow> rep h' (R \<union> C') (HMap a) (GMap (m(k \<mapsto> g')))" by metis
  have R: "R \<subseteq> {..<fresh h}" using rep_below [OF assms(1)] S(1) by simp
  show ?thesis
  proof (cases "\<exists>b0. maps h a k = Some (HMap b0)")
    case True
    then have b: "maps h a k = Some (HMap b)" "h1 = h" using assms(2) by (auto simp: h_ensureMapAtPath_def)
    from some [OF b(1)] obtain g where g: "m k = Some g" "rep h C (HMap b) g" by blast
    then obtain m' where "g = GMap m'" by (auto elim: rep_mapE)
    with g have "rep h C (HMap b) (GMap (ensureMapAtPath m k))" by (simp add: ensureMapAtPath_def)
    moreover have "hole h R a (HMap b) (\<lambda>g. m(k \<mapsto> g))" unfolding hole_def
    proof (intro allI impI)
      fix h' C' g' assume "rep h' C' (HMap b) g'" "agree R h h'" "R \<inter> C' = {}"
      with put b(1) S(3) show "rep h' (R \<union> C') (HMap a) (GMap (m(k \<mapsto> g')))"
        by (simp add: agree_def fun_upd_idem)
    qed
    ultimately show ?thesis using S b(2) by auto
  next
    case False
    then have h1: "b = fresh h" "h1 = put_map a k (HMap b) (snd (new_map h))"
      using assms(2) by (auto simp: h_ensureMapAtPath_def new_map_def split: option.splits hval.splits)
    have e: "ensureMapAtPath m k = Map.empty"
    proof (cases "maps h a k")
      case None
      with none show ?thesis by (simp add: ensureMapAtPath_def)
    next
      case (Some v)
      with some obtain g where "m k = Some g" "rep h C v g" by blast
      moreover from this(2) False Some have "as_map g = None" by (intro rep_as_map) auto
      ultimately show ?thesis by (simp add: ensureMapAtPath_def)
    qed
    have f: "fresh h1 = fresh h + 1" "maps h1 = (maps h)(b := Map.empty, a := (maps h a)(k \<mapsto> HMap b))" "arrs h1 = arrs h"
      using h1 S(4) by (simp_all add: new_map_def)
    have "changes S h h1" using S(1,3) f h1(1) by (auto simp: changes_iff)
    moreover have "rep h1 {b} (HMap b) (GMap (ensureMapAtPath m k))"
      using f S(4) h1(1) by (simp add: e rep_empty_map)
    moreover have "hole h1 R a (HMap b) (\<lambda>g. m(k \<mapsto> g))" unfolding hole_def
    proof (intro allI impI)
      fix h' C' g' assume r: "rep h' C' (HMap b) g'" "agree R h1 h'" "R \<inter> C' = {}"
      have "agree (R - {a}) h h'" using r(2) f R h1(1) by (auto simp: agree_def)
      moreover have "maps h' a = (maps h a)(k \<mapsto> HMap b)" using r(2) f S(3) by (auto simp: agree_def)
      ultimately show "rep h' (R \<union> C') (HMap a) (GMap (m(k \<mapsto> g')))" using r by (intro put)
    qed
    moreover have "R \<inter> {b} = {}" using R h1(1) by auto
    ultimately show ?thesis using S(1) f h1(1)
      by (intro conjI exI [of _ R] exI [of _ "{b}"]) auto
  qed
qed

lemma ensureArray_rep:
  assumes "rep h S (HMap a) (GMap m)" "h_ensureArrayAtPath a k h = ((b, n), h1)"
  shows "changes S h h1 \<and> maps h1 a k = Some (HArr b n)
    \<and> (\<exists>S1 \<subseteq> S \<union> {fresh h..<fresh h1}. rep h1 S1 (HMap a) (GMap (m(k \<mapsto> GArr (ensureArrayAtPath m k)))))"
proof -
  from rep_map_focus [OF assms(1), of k] obtain C R where S: "S = R \<union> C" "R \<inter> C = {}" "a \<in> R" "a < fresh h"
    and none: "maps h a k = None \<Longrightarrow> m k = None"
    and some: "\<And>v. maps h a k = Some v \<Longrightarrow> \<exists>g. m k = Some g \<and> rep h C v g"
    and put: "\<And>h' C' v' g'. \<lbrakk>rep h' C' v' g'; agree (R - {a}) h h'; maps h' a = (maps h a)(k \<mapsto> v'); R \<inter> C' = {}\<rbrakk>
       \<Longrightarrow> rep h' (R \<union> C') (HMap a) (GMap (m(k \<mapsto> g')))" by metis
  have R: "R \<subseteq> {..<fresh h}" using rep_below [OF assms(1)] S(1) by simp
  show ?thesis
  proof (cases "\<exists>b0 n0. maps h a k = Some (HArr b0 n0)")
    case True
    then have b: "maps h a k = Some (HArr b n)" "h1 = h" using assms(2) by (auto simp: h_ensureArrayAtPath_def)
    from some [OF b(1)] obtain g where g: "m k = Some g" "rep h C (HArr b n) g" by blast
    then obtain gs where "g = GArr gs" by (auto elim: rep_arrE)
    with g have "m(k \<mapsto> GArr (ensureArrayAtPath m k)) = m" by (simp add: ensureArrayAtPath_def fun_upd_idem)
    with b assms(1) show ?thesis by auto
  next
    case False
    then have h1: "b = fresh h" "n = 0" "h1 = put_map a k (HArr b 0) (snd (new_arr [] h))"
      using assms(2) by (auto simp: h_ensureArrayAtPath_def new_arr_def split: option.splits hval.splits)
    have e: "ensureArrayAtPath m k = []"
    proof (cases "maps h a k")
      case None
      with none show ?thesis by (simp add: ensureArrayAtPath_def)
    next
      case (Some v)
      with some obtain g where "m k = Some g" "rep h C v g" by blast
      moreover from this(2) False Some have "as_arr g = None" by (intro rep_as_arr) auto
      ultimately show ?thesis by (simp add: ensureArrayAtPath_def)
    qed
    have f: "fresh h1 = fresh h + 1" "arrs h1 = (arrs h)(b := [])" "maps h1 = (maps h)(a := (maps h a)(k \<mapsto> HArr b 0))"
      using h1 S(4) by (simp_all add: new_arr_def)
    have "changes S h h1" using S(1,3) f h1(1) by (auto simp: changes_iff)
    moreover have "rep h1 {b} (HArr b 0) (GArr [])" using rep_nils [of b h1 0] f h1(1) by simp
    then have "rep h1 (R \<union> {b}) (HMap a) (GMap (m(k \<mapsto> GArr [])))"
      using f R h1(1) by (intro put) (auto simp: agree_def)
    ultimately show ?thesis using S(1) f h1(1,2) e by (auto intro!: exI [of _ "R \<union> {b}"])
  qed
qed

lemma rep_arr_extend:
  assumes "rep h C (HArr b n) (GArr gs)"
  obtains F where "C = insert b F" "b \<notin> F"
    "\<And>h' b' n'. \<lbrakk>n \<le> n'; agree F h h'; b' < fresh h'; b' \<notin> F; n' \<le> length (arrs h' b');
        \<forall>i < n. arrs h' b' ! i = arrs h b ! i; \<forall>i. n \<le> i \<longrightarrow> i < n' \<longrightarrow> arrs h' b' ! i = HNil\<rbrakk>
      \<Longrightarrow> rep h' (insert b' F) (HArr b' n') (GArr (gs @ replicate (n' - n) GNil))"
proof -
  from assms obtain F where C: "C = insert b (\<Union>k. F (k :: nat))" and d: "apart F" "b \<notin> (\<Union>k. F k)"
    and l: "length gs = n" and n: "\<And>k. k \<ge> n \<Longrightarrow> F k = {}"
    and v: "\<And>k. k < n \<Longrightarrow> rep h (F k) (arrs h b ! k) (gs ! k)"
    by (cases rule: rep_arrE) auto
  show ?thesis
  proof
    show "C = insert b (\<Union>k. F k)" "b \<notin> (\<Union>k. F k)" by (fact C, fact d(2))
  next
    fix h' b' n'
    assume r: "n \<le> n'" "agree (\<Union>k. F k) h h'" "b' < fresh h'" "b' \<notin> (\<Union>k. F k)" "n' \<le> length (arrs h' b')"
      "\<forall>i < n. arrs h' b' ! i = arrs h b ! i" "\<forall>i. n \<le> i \<longrightarrow> i < n' \<longrightarrow> arrs h' b' ! i = HNil"
    show "rep h' (insert b' (\<Union>k. F k)) (HArr b' n') (GArr (gs @ replicate (n' - n) GNil))"
    proof (rule rep_arr)
      show "F k = {}" if "k \<ge> n'" for k using n r(1) that by simp
      show "rep h' (F k) (arrs h' b' ! k) ((gs @ replicate (n' - n) GNil) ! k)" if "k < n'" for k
      proof (cases "k < n")
        case True
        have "agree (F k) h h'" by (rule agree_mono [OF r(2)]) auto
        from rep_agree [OF v [OF True] this] r(6) True l show ?thesis by (simp add: nth_append)
      next
        case False
        with r(7) that l n [of k] show ?thesis by (simp add: nth_append rep_scalar)
      qed
    qed (use r d l in simp_all)
  qed
qed

lemma append_nils_rep:
  assumes "rep h C (HArr b n) (GArr gs)" "append_nils spare (b, n) need h = ((b', n'), h')" "n \<le> need"
  shows "n' = need \<and> changes C h h' \<and> maps h' = maps h
    \<and> (\<exists>C' \<subseteq> C \<union> {fresh h..<fresh h'}. rep h' C' (HArr b' n') (GArr (gs @ replicate (need - n) GNil)))"
proof -
  from rep_arr_extend [OF assms(1)] obtain F where F: "C = insert b F" "b \<notin> F"
    and ext: "\<And>h' b' n'. \<lbrakk>n \<le> n'; agree F h h'; b' < fresh h'; b' \<notin> F; n' \<le> length (arrs h' b');
        \<forall>i < n. arrs h' b' ! i = arrs h b ! i; \<forall>i. n \<le> i \<longrightarrow> i < n' \<longrightarrow> arrs h' b' ! i = HNil\<rbrakk>
      \<Longrightarrow> rep h' (insert b' F) (HArr b' n') (GArr (gs @ replicate (n' - n) GNil))" by metis
  have b: "C \<subseteq> {..<fresh h}" by (rule rep_below [OF assms(1)])
  have len: "n \<le> length (arrs h b)" using assms(1) by (cases rule: rep_arrE) auto
  show ?thesis
  proof (cases "need \<le> length (arrs h b)")
    case True
    then have e: "b' = b" "n' = need"
      "h' = put_arr b (take n (arrs h b) @ replicate (need - n) HNil @ drop need (arrs h b)) h"
      using assms(2) by (auto simp: append_nils_def)
    have "rep h' (insert b F) (HArr b need) (GArr (gs @ replicate (need - n) GNil))"
      by (rule ext) (use assms(3) e b F len True in \<open>auto simp: agree_def nth_append\<close>)
    with e F(1) show ?thesis by (auto simp: changes_iff)
  next
    case False
    then have e: "b' = fresh h" "n' = need"
      "h' = h\<lparr>arrs := (arrs h)(b' := take n (arrs h b) @ replicate (need - n + spare need) HNil), fresh := fresh h + 1\<rparr>"
      using assms(2) by (auto simp: append_nils_def new_arr_def)
    have "rep h' (insert b' F) (HArr b' need) (GArr (gs @ replicate (need - n) GNil))"
      by (rule ext) (use assms(3) e b F len in \<open>auto simp: agree_def nth_append\<close>)
    with e F(1) show ?thesis by (auto simp: changes_iff intro!: exI [of _ "insert b' F"])
  qed
qed

lemma grow_rep:
  assumes "rep h S (HMap a) (GMap m)" "h_grow spare a k i h = ((b, n), h1)"
  shows "changes S h h1 \<and> maps h1 a k = Some (HArr b n) \<and> i < n
    \<and> (\<exists>S1 \<subseteq> S \<union> {fresh h..<fresh h1}. rep h1 S1 (HMap a) (GMap (m(k \<mapsto> GArr (grow_to (ensureArrayAtPath m k) i)))))"
proof -
  let ?gs = "ensureArrayAtPath m k"
  obtain b0 n0 h0 where e: "h_ensureArrayAtPath a k h = ((b0, n0), h0)" by (metis surj_pair)
  from ensureArray_rep [OF assms(1) e] obtain S0 where
    c: "changes S h h0" and k: "maps h0 a k = Some (HArr b0 n0)" and S0: "S0 \<subseteq> S \<union> {fresh h..<fresh h0}"
    and r: "rep h0 S0 (HMap a) (GMap (m(k \<mapsto> GArr ?gs)))" by blast
  from rep_map_focus [OF r, of k] obtain C R where S: "S0 = R \<union> C" "R \<inter> C = {}" "a \<in> R"
    and some: "\<And>v. maps h0 a k = Some v \<Longrightarrow> \<exists>g. (m(k \<mapsto> GArr ?gs)) k = Some g \<and> rep h0 C v g"
    and put0: "\<And>h' C' v' g'. \<lbrakk>rep h' C' v' g'; agree (R - {a}) h0 h'; maps h' a = (maps h0 a)(k \<mapsto> v'); R \<inter> C' = {}\<rbrakk>
       \<Longrightarrow> rep h' (R \<union> C') (HMap a) (GMap ((m(k \<mapsto> GArr ?gs))(k \<mapsto> g')))" by metis
  from some [OF k] have arr: "rep h0 C (HArr b0 n0) (GArr ?gs)" by simp
  note put = put0 [unfolded fun_upd_upd]
  have len: "length ?gs = n0" using arr by (cases rule: rep_arrE) auto
  show ?thesis
  proof (cases "n0 \<le> i")
    case False
    with assms(2) e have "b = b0" "n = n0" "h1 = h0" by (simp_all add: h_grow_def)
    with c k S0 r len False show ?thesis by (auto simp: grow_to_def)
  next
    case True
    obtain h2 where ap: "append_nils spare (b0, n0) (i + 1) h0 = ((b, n), h2)" and h1: "h1 = put_map a k (HArr b n) h2"
      using assms(2) e True by (auto simp: h_grow_def split: prod.splits)
    from append_nils_rep [OF arr ap] True obtain C' where n: "n = i + 1" and c2: "changes C h0 h2" and mm: "maps h2 = maps h0"
      and C': "C' \<subseteq> C \<union> {fresh h0..<fresh h2}" and r2: "rep h2 C' (HArr b n) (GArr (?gs @ replicate (i + 1 - n0) GNil))"
      by auto
    have Rb: "R \<subseteq> {..<fresh h0}" using rep_below [OF r] S(1) by simp
      have dis: "R \<inter> C' = {}" by (rule dis_fresh [OF Rb S(2) C'])
    have "agree (R - {a}) h0 h1"
      using c2 Rb S(2) mm by (auto simp: agree_def changes_iff h1)
    moreover have "rep h1 C' (HArr b n) (GArr (?gs @ replicate (i + 1 - n0) GNil))"
      by (rule rep_agree [OF r2]) (use dis S(3) in \<open>auto simp: agree_def h1\<close>)
    ultimately have "rep h1 (R \<union> C') (HMap a) (GMap (m(k \<mapsto> GArr (?gs @ replicate (i + 1 - n0) GNil))))"
      by (intro put) (use dis mm in \<open>simp_all add: h1\<close>)
    moreover have "changes S0 h0 h1" using c2 S(1,3) by (auto simp: changes_iff h1)
    then have "changes S h h1" by (rule changes_trans [OF c]) (use S0 in auto)
    moreover have "R \<union> C' \<subseteq> S \<union> {fresh h..<fresh h1}"
      using S0 S(1) C' changes_fresh [OF c] changes_fresh [OF c2] by (fastforce simp: h1)
    moreover have "grow_to ?gs i = ?gs @ replicate (i + 1 - n0) GNil" "maps h1 a k = Some (HArr b n)" "i < n"
      using True len n by (simp_all add: grow_to_def h1)
    ultimately show ?thesis by metis
  qed
qed

lemma rep_slot:
  assumes "rep h S (HMap a) (GMap m)" "maps h a k = Some (HArr b n)" "m k = Some (GArr gs)" "i < n"
  obtains C R where "S = R \<union> C" "R \<inter> C = {}" "a \<in> R" "b \<in> R" "i < length (arrs h b)" "length gs = n"
    "rep h C (arrs h b ! i) (gs ! i)"
    "\<And>h' C' v' g'. \<lbrakk>rep h' C' v' g'; agree (R - {b}) h h'; maps h' b = maps h b; arrs h' b = (arrs h b)[i := v'];
        R \<inter> C' = {}\<rbrakk> \<Longrightarrow> rep h' (R \<union> C') (HMap a) (GMap (m(k \<mapsto> GArr (gs[i := g']))))"
proof -
  from rep_map_focus [OF assms(1), of k] obtain D Q where Q: "S = Q \<union> D" "Q \<inter> D = {}" "a \<in> Q"
    and some: "\<And>v. maps h a k = Some v \<Longrightarrow> \<exists>g. m k = Some g \<and> rep h D v g"
    and putm: "\<And>h' C' v' g'. \<lbrakk>rep h' C' v' g'; agree (Q - {a}) h h'; maps h' a = (maps h a)(k \<mapsto> v'); Q \<inter> C' = {}\<rbrakk>
       \<Longrightarrow> rep h' (Q \<union> C') (HMap a) (GMap (m(k \<mapsto> g')))" by metis
  from some [OF assms(2)] assms(3) have "rep h D (HArr b n) (GArr gs)" by simp
  from rep_arr_focus [OF this assms(4)] obtain C P where P: "D = P \<union> C" "P \<inter> C = {}" "b \<in> P" "n \<le> length (arrs h b)"
      "length gs = n" and c: "rep h C (arrs h b ! i) (gs ! i)"
    and puta: "\<And>h' C' v' g'. \<lbrakk>rep h' C' v' g'; agree (P - {b}) h h'; arrs h' b = (arrs h b)[i := v']; P \<inter> C' = {}\<rbrakk>
       \<Longrightarrow> rep h' (P \<union> C') (HArr b n) (GArr (gs[i := g']))" by metis
  show ?thesis
  proof
    show "S = (Q \<union> P) \<union> C" "(Q \<union> P) \<inter> C = {}" "a \<in> Q \<union> P" "b \<in> Q \<union> P" using P(1-3) Q by auto
    show "i < length (arrs h b)" "length gs = n" using P(4,5) assms(4) by simp_all
    show "rep h C (arrs h b ! i) (gs ! i)" by (rule c)
  next
    fix h' C' v' g' assume r: "rep h' C' v' g'" "agree (Q \<union> P - {b}) h h'" "maps h' b = maps h b"
      "arrs h' b = (arrs h b)[i := v']" "(Q \<union> P) \<inter> C' = {}"
    have "rep h' (P \<union> C') (HArr b n) (GArr (gs[i := g']))"
      by (rule puta [OF r(1)]) (use r in \<open>auto elim: agree_mono\<close>)
    moreover have "agree (Q - {a}) h h'" using r(2) Q(2) P(1,3) by (auto simp: agree_def)
    moreover have "maps h' a = (maps h a)(k \<mapsto> HArr b n)"
      using r(2,3) Q(3) assms(2) by (cases "a = b") (auto simp: agree_def fun_upd_idem)
    ultimately have "rep h' (Q \<union> (P \<union> C')) (HMap a) (GMap (m(k \<mapsto> GArr (gs[i := g']))))"
      using r(5) Q(2) P(1) by (intro putm) auto
    then show "rep h' ((Q \<union> P) \<union> C') (HMap a) (GMap (m(k \<mapsto> GArr (gs[i := g']))))" by (simp add: Un_assoc)
  qed
qed

lemma put_map_rep:
  assumes "rep h S (HMap a) (GMap m)" "rep h T v g" "S \<inter> T = {}"
  shows "changes S h (put_map a k v h)
    \<and> (\<exists>S' \<subseteq> S \<union> T. rep (put_map a k v h) S' (HMap a) (GMap (m(k \<mapsto> g))))"
proof -
  from rep_map_focus [OF assms(1), of k] obtain C R where S: "S = R \<union> C" "R \<inter> C = {}" "a \<in> R"
    and put: "\<And>h' C' v' g'. \<lbrakk>rep h' C' v' g'; agree (R - {a}) h h'; maps h' a = (maps h a)(k \<mapsto> v'); R \<inter> C' = {}\<rbrakk>
       \<Longrightarrow> rep h' (R \<union> C') (HMap a) (GMap (m(k \<mapsto> g')))" by metis
  have "rep (put_map a k v h) T v g"
    by (rule rep_agree [OF assms(2)]) (use S assms(3) in \<open>auto simp: agree_def\<close>)
  then have "rep (put_map a k v h) (R \<union> T) (HMap a) (GMap (m(k \<mapsto> g)))"
    by (rule put) (use S assms(3) in \<open>auto simp: agree_def\<close>)
  with S show ?thesis by (auto simp: changes_iff intro!: exI [of _ "R \<union> T"])
qed

lemma setArrayElement_rep:
  assumes "rep h S (HMap a) (GMap m)" "rep h T v g" "S \<inter> T = {}"
    and "h_setArrayElement spare a k i v h = h'"
  shows "changes S h h' \<and> (\<exists>S' \<subseteq> S \<union> T \<union> {fresh h..<fresh h'}. rep h' S' (HMap a) (GMap (setArrayElement m k i g)))"
proof -
  obtain b n h1 where e: "h_grow spare a k i h = ((b, n), h1)" by (metis surj_pair)
  with assms(4) have h': "h' = put_arr b ((arrs h1 b)[i := v]) h1" by (simp add: h_setArrayElement_def)
  let ?gs = "grow_to (ensureArrayAtPath m k) i"
  from grow_rep [OF assms(1) e] obtain S1 where c: "changes S h h1" and k: "maps h1 a k = Some (HArr b n)" and i: "i < n"
    and S1: "S1 \<subseteq> S \<union> {fresh h..<fresh h1}" and r: "rep h1 S1 (HMap a) (GMap (m(k \<mapsto> GArr ?gs)))" by blast
  have sk: "(m(k \<mapsto> GArr ?gs)) k = Some (GArr ?gs)" by simp
  obtain C R where S: "S1 = R \<union> C" "R \<inter> C = {}" "a \<in> R" "b \<in> R" "i < length (arrs h1 b)" "length ?gs = n"
    and el: "rep h1 C (arrs h1 b ! i) (?gs ! i)"
    and put0: "\<And>h' C' v' g'. \<lbrakk>rep h' C' v' g'; agree (R - {b}) h1 h'; maps h' b = maps h1 b; arrs h' b = (arrs h1 b)[i := v'];
        R \<inter> C' = {}\<rbrakk> \<Longrightarrow> rep h' (R \<union> C') (HMap a) (GMap ((m(k \<mapsto> GArr ?gs))(k \<mapsto> GArr (?gs[i := g']))))"
    by (rule rep_slot [OF r k sk i]) (rule that; assumption)
  note put = put0 [unfolded fun_upd_upd setArrayElement_def [symmetric]]
  have T: "T \<subseteq> {..<fresh h}" by (rule rep_below [OF assms(2)])
  have d: "S1 \<inter> T = {}" using dis_fresh [OF T _ S1] assms(3) by auto
  have v1: "rep h1 T v g" by (rule rep_changes [OF assms(2) c assms(3)])
  have "rep h' T v g" by (rule rep_agree [OF v1]) (use d S in \<open>auto simp: agree_def h'\<close>)
  then have "rep h' (R \<union> T) (HMap a) (GMap (setArrayElement m k i g))"
    by (rule put) (use S d in \<open>auto simp: agree_def h'\<close>)
  moreover have "changes S1 h1 h'" using S by (auto simp: changes_iff h')
  then have "changes S h h'" by (rule changes_trans [OF c]) (use S1 in auto)
  moreover have "R \<union> T \<subseteq> S \<union> T \<union> {fresh h..<fresh h'}" using S1 S(1) by (auto simp: h')
  ultimately show ?thesis by blast
qed

lemma ensureMapInArray_rep:
  assumes "rep h S (HMap a) (GMap m)" "h_ensureMapInArray spare a k i h = (c, h1)"
  shows "changes S h h1 \<and> (\<exists>R C. R \<inter> C = {} \<and> R \<union> C \<subseteq> S \<union> {fresh h..<fresh h1}
    \<and> rep h1 C (HMap c) (GMap (ensureMapInArray m k i)) \<and> hole h1 R a (HMap c) (\<lambda>g. setArrayElement m k i g))"
proof -
  obtain b n h0 where e: "h_grow spare a k i h = ((b, n), h0)" by (metis surj_pair)
  let ?gs = "grow_to (ensureArrayAtPath m k) i"
  from grow_rep [OF assms(1) e] obtain S1 where ch: "changes S h h0" and k: "maps h0 a k = Some (HArr b n)" and i: "i < n"
    and S1: "S1 \<subseteq> S \<union> {fresh h..<fresh h0}" and r: "rep h0 S1 (HMap a) (GMap (m(k \<mapsto> GArr ?gs)))" by blast
  have sk: "(m(k \<mapsto> GArr ?gs)) k = Some (GArr ?gs)" by simp
  obtain C R where S: "S1 = R \<union> C" "R \<inter> C = {}" "a \<in> R" "b \<in> R" "i < length (arrs h0 b)" "length ?gs = n"
    and el: "rep h0 C (arrs h0 b ! i) (?gs ! i)"
    and put0: "\<And>h' C' v' g'. \<lbrakk>rep h' C' v' g'; agree (R - {b}) h0 h'; maps h' b = maps h0 b; arrs h' b = (arrs h0 b)[i := v'];
        R \<inter> C' = {}\<rbrakk> \<Longrightarrow> rep h' (R \<union> C') (HMap a) (GMap ((m(k \<mapsto> GArr ?gs))(k \<mapsto> GArr (?gs[i := g']))))"
    by (rule rep_slot [OF r k sk i]) (rule that; assumption)
  note put = put0 [unfolded fun_upd_upd setArrayElement_def [symmetric]]
  have R: "R \<subseteq> {..<fresh h0}" using rep_below [OF r] S(1) by simp
  show ?thesis
  proof (cases "\<exists>c0. arrs h0 b ! i = HMap c0")
    case True
    then have c: "arrs h0 b ! i = HMap c" "h1 = h0" using assms(2) e by (auto simp: h_ensureMapInArray_def)
    from el c obtain m' where "?gs ! i = GMap m'" by (auto elim: rep_mapE)
    with el c have "rep h0 C (HMap c) (GMap (ensureMapInArray m k i))" by (simp add: ensureMapInArray_def)
    moreover have "hole h0 R a (HMap c) (\<lambda>g. setArrayElement m k i g)" unfolding hole_def
    proof (intro allI impI)
      fix h' C' g' assume q: "rep h' C' (HMap c) g'" "agree R h0 h'" "R \<inter> C' = {}"
      have ag: "agree (R - {b}) h0 h'" using q(2) by (auto simp: agree_def)
      have mb: "maps h' b = maps h0 b" using q(2) S(4) by (simp add: agree_def)
      have "arrs h' b = arrs h0 b" using q(2) S(4) by (simp add: agree_def)
      then have ab: "arrs h' b = (arrs h0 b)[i := HMap c]" using c(1) list_update_id [of "arrs h0 b" i] by simp
      show "rep h' (R \<union> C') (HMap a) (GMap (setArrayElement m k i g'))" by (rule put [OF q(1) ag mb ab q(3)])
    qed
    moreover have "R \<union> C \<subseteq> S \<union> {fresh h..<fresh h1}" using S1 S(1) c(2) by simp
    ultimately show ?thesis using S(2) ch c(2) by blast
  next
    case False
    then have h1: "c = fresh h0" "h1 = put_arr b ((arrs h0 b)[i := HMap c]) (snd (new_map h0))"
      using assms(2) e by (auto simp: h_ensureMapInArray_def new_map_def split: hval.splits)
    have m': "ensureMapInArray m k i = Map.empty"
    proof -
      have "as_map (?gs ! i) = None" by (rule rep_as_map [OF el False])
      then show ?thesis by (simp add: ensureMapInArray_def)
    qed
    have f: "fresh h1 = fresh h0 + 1" "maps h1 = (maps h0)(c := Map.empty)" "arrs h1 = (arrs h0)(b := (arrs h0 b)[i := HMap c])"
      using h1 by (simp_all add: new_map_def)
    have "changes S1 h0 h1" using S(1,4) f h1(1) by (auto simp: changes_iff)
    then have "changes S h h1" by (rule changes_trans [OF ch]) (use S1 in auto)
    moreover have "rep h1 {c} (HMap c) (GMap (ensureMapInArray m k i))" using f h1(1) by (simp add: m' rep_empty_map)
    moreover have "hole h1 R a (HMap c) (\<lambda>g. setArrayElement m k i g)" unfolding hole_def
    proof (intro allI impI)
      fix h' C' g' assume q: "rep h' C' (HMap c) g'" "agree R h1 h'" "R \<inter> C' = {}"
      have nc: "c \<notin> R" using R h1(1) by auto
      then have ag: "agree (R - {b}) h0 h'" and mb: "maps h' b = maps h0 b" and ab: "arrs h' b = (arrs h0 b)[i := HMap c]"
        using q(2) f S(4) by (auto simp: agree_def)
      show "rep h' (R \<union> C') (HMap a) (GMap (setArrayElement m k i g'))" by (rule put [OF q(1) ag mb ab q(3)])
    qed
    moreover have "R \<inter> {c} = {}" using R h1(1) by auto
    moreover have "R \<union> {c} \<subseteq> S \<union> {fresh h..<fresh h1}"
      using S1 S(1) f h1(1) changes_fresh [OF ch] by auto
    ultimately show ?thesis by blast
  qed
qed

text \<open>One step of the descent, given what the rest of the path does to the child.\<close>

lemma descend_rep:
  assumes "rep h S (HMap a) (GMap m)" "rep h T v g" "S \<inter> T = {}" "changes S h h1"
    and C: "R \<inter> C = {}" "R \<union> C \<subseteq> S \<union> {fresh h..<fresh h1}" "hole h1 R a (HMap b) f"
    and sub: "rep h1 T v g \<Longrightarrow> C \<inter> T = {} \<Longrightarrow> changes C h1 h'
       \<and> (\<exists>C' \<subseteq> C \<union> T \<union> {fresh h1..<fresh h'}. rep h' C' (HMap b) (GMap next))"
  shows "changes S h h' \<and> (\<exists>S' \<subseteq> S \<union> T \<union> {fresh h..<fresh h'}. rep h' S' (HMap a) (GMap (f (GMap next))))"
proof -
  have T: "T \<subseteq> {..<fresh h}" by (rule rep_below [OF assms(2)])
  have le: "fresh h \<le> fresh h1" by (rule changes_fresh [OF assms(4)])
  have "T \<inter> (R \<union> C) = {}" by (rule dis_fresh [OF T _ C(2)]) (use assms(3) in auto)
  then have d: "R \<inter> T = {}" "C \<inter> T = {}" by auto
  from sub [OF rep_changes [OF assms(2,4,3)] d(2)] obtain C' where ch: "changes C h1 h'"
    and C': "C' \<subseteq> (C \<union> T) \<union> {fresh h1..<fresh h'}" and r: "rep h' C' (HMap b) (GMap next)" by (auto simp: Un_assoc)
  have "S \<subseteq> {..<fresh h}" by (rule rep_below [OF assms(1)])
  then have R: "R \<subseteq> {..<fresh h1}" using C(2) le by fastforce
  have "agree R h1 h'" using ch R C(1) by (auto simp: changes_iff agree_def)
  moreover have "R \<inter> C' = {}" by (rule dis_fresh [OF R _ C']) (use C(1) d(1) in auto)
  ultimately have "rep h' (R \<union> C') (HMap a) (GMap (f (GMap next)))" using C(3) r by (simp add: hole_def)
  moreover have "changes S h h'" by (rule changes_trans [OF assms(4) ch]) (use C(2) in auto)
  moreover have "R \<union> C' \<subseteq> S \<union> T \<union> {fresh h..<fresh h'}"
  proof -
    have "{fresh h..<fresh h1} \<subseteq> {fresh h..<fresh h'}" "{fresh h1..<fresh h'} \<subseteq> {fresh h..<fresh h'}"
      using changes_fresh [OF ch] le by auto
    with C(2) C' show ?thesis by blast
  qed
  ultimately show ?thesis by blast
qed

lemma set_loop_rep:
  assumes "rep h S (HMap a) (GMap m)" "rep h T v g" "S \<inter> T = {}" "h_set_loop spare a ps v h = (e, h')"
  shows "e = fst (set_loop m ps g) \<and> changes S h h'
    \<and> (\<exists>S' \<subseteq> S \<union> T \<union> {fresh h..<fresh h'}. rep h' S' (HMap a) (GMap (snd (set_loop m ps g))))"
  using assms
proof (induction ps arbitrary: h S a m)
  case Nil
  then show ?case by auto
next
  case (Cons p ps)
  show ?case
  proof (cases "ParsePart p")
    case (Inl err)
    with Cons.prems show ?thesis by auto
  next
    case (Inr r)
    obtain part i ix where r: "r = (part, i, ix)" by (cases r)
    show ?thesis
    proof (cases "ps = []")
      case last: True
      show ?thesis
      proof (cases ix)
        case True
        then have e: "e = None" "h_setArrayElement spare a part (nat i) v h = h'" using Cons.prems(4) Inr r last by auto
        from setArrayElement_rep [OF Cons.prems(1-3) e(2)] e(1) True Inr r last show ?thesis by auto
      next
        case False
        then have e: "e = None" "h' = put_map a part v h" using Cons.prems(4) Inr r last by auto
        have "set_loop m (p # ps) g = (None, m(part \<mapsto> g))" using Inr r last False by simp
        moreover from put_map_rep [OF Cons.prems(1-3), of part] obtain S' where "changes S h h'" "S' \<subseteq> S \<union> T"
          "rep h' S' (HMap a) (GMap (m(part \<mapsto> g)))" using e(2) by blast
        ultimately show ?thesis using e(1) by (simp del: fun_upd_apply) blast
      qed
    next
      case more: False
      show ?thesis
      proof (cases ix)
        case True
        obtain b h1 where b: "h_ensureMapInArray spare a part (nat i) h = (b, h1)" by (meson surj_pair)
        with Cons.prems(4) Inr r more True have run: "h_set_loop spare b ps v h1 = (e, h')" by simp
        let ?m1 = "ensureMapInArray m part (nat i)"
        from ensureMapInArray_rep [OF Cons.prems(1) b] obtain R C where ch: "changes S h h1" and C: "R \<inter> C = {}"
          "R \<union> C \<subseteq> S \<union> {fresh h..<fresh h1}" "hole h1 R a (HMap b) (\<lambda>g. setArrayElement m part (nat i) g)"
          and c: "rep h1 C (HMap b) (GMap ?m1)" by blast
        have e: "e = fst (set_loop ?m1 ps g)" if "rep h1 T v g" "C \<inter> T = {}" using Cons.IH [OF c that run] by simp
        have d: "C \<inter> T = {}" using dis_fresh [OF rep_below [OF Cons.prems(2)] _ C(2)] Cons.prems(3) by auto
        have "changes S h h' \<and> (\<exists>S' \<subseteq> S \<union> T \<union> {fresh h..<fresh h'}.
            rep h' S' (HMap a) (GMap (setArrayElement m part (nat i) (GMap (snd (set_loop ?m1 ps g))))))"
          by (rule descend_rep [OF Cons.prems(1-3) ch C]) (use Cons.IH [OF c _ _ run] in blast)
        with e [OF rep_changes [OF Cons.prems(2) ch Cons.prems(3)] d] Inr r more True show ?thesis
          by (simp add: split_beta del: fun_upd_apply)
      next
        case False
        obtain b h1 where b: "h_ensureMapAtPath a part h = (b, h1)" by (meson surj_pair)
        with Cons.prems(4) Inr r more False have run: "h_set_loop spare b ps v h1 = (e, h')" by simp
        let ?m1 = "ensureMapAtPath m part"
        from ensureMap_rep [OF Cons.prems(1) b] obtain R C where ch: "changes S h h1" and C: "R \<inter> C = {}"
          "R \<union> C \<subseteq> S \<union> {fresh h..<fresh h1}" "hole h1 R a (HMap b) (\<lambda>g. m(part \<mapsto> g))"
          and c: "rep h1 C (HMap b) (GMap ?m1)" by blast
        have e: "e = fst (set_loop ?m1 ps g)" if "rep h1 T v g" "C \<inter> T = {}" using Cons.IH [OF c that run] by simp
        have d: "C \<inter> T = {}" using dis_fresh [OF rep_below [OF Cons.prems(2)] _ C(2)] Cons.prems(3) by auto
        have "changes S h h' \<and> (\<exists>S' \<subseteq> S \<union> T \<union> {fresh h..<fresh h'}.
            rep h' S' (HMap a) (GMap (m(part \<mapsto> GMap (snd (set_loop ?m1 ps g))))))"
          by (rule descend_rep [OF Cons.prems(1-3) ch C]) (use Cons.IH [OF c _ _ run] in blast)
        with e [OF rep_changes [OF Cons.prems(2) ch Cons.prems(3)] d] Inr r more False show ?thesis
          by (simp add: split_beta del: fun_upd_apply)
      qed
    qed
  qed
qed

subsection \<open>Refinement: reading\<close>

lemma getFromMap_rep:
  assumes "rep h S v g"
  shows "(h_getFromMap h v k = None \<longrightarrow> getFromMap g k = None)
    \<and> (\<forall>w. h_getFromMap h v k = Some w \<longrightarrow> (\<exists>g' C. getFromMap g k = Some g' \<and> C \<subseteq> S \<and> rep h C w g'))"
  using assms
proof (cases rule: rep.cases)
  case rep_scalar
  then show ?thesis by (cases v) (auto simp: h_getFromMap_def getFromMap_def as_map_def)
next
  case (rep_map a F m)
  have "\<exists>g' C. m k = Some g' \<and> C \<subseteq> S \<and> rep h C w g'" if "maps h a k = Some w" for w
  proof -
    from rep_map(8) [OF that] obtain g' where "m k = Some g'" "rep h (F k) w g'" by blast
    moreover have "F k \<subseteq> S" using rep_map(1) by auto
    ultimately show ?thesis by blast
  qed
  with rep_map show ?thesis by (simp add: h_getFromMap_def)
next
  case rep_arr
  then show ?thesis by (auto simp: h_getFromMap_def)
qed

lemma getFromArray_rep:
  assumes "rep h S v g"
  shows "(h_getFromArray h v i = None \<longrightarrow> getFromArray g i = None)
    \<and> (\<forall>w. h_getFromArray h v i = Some w \<longrightarrow> (\<exists>g' C. getFromArray g i = Some g' \<and> C \<subseteq> S \<and> rep h C w g'))"
  using assms
proof (cases rule: rep.cases)
  case rep_scalar
  then show ?thesis by (cases v) (auto simp: h_getFromArray_def getFromArray_def as_arr_def)
next
  case rep_map
  then show ?thesis by (auto simp: h_getFromArray_def)
next
  case (rep_arr a F n gs)
  have "\<exists>C. C \<subseteq> S \<and> rep h C (arrs h a ! nat i) (gs ! nat i)" if "0 \<le> i" "i < int n"
  proof -
    have "rep h (F (nat i)) (arrs h a ! nat i) (gs ! nat i)" by (rule rep_arr) (use that in simp)
    moreover have "F (nat i) \<subseteq> S" using rep_arr(1) by auto
    ultimately show ?thesis by blast
  qed
  with rep_arr show ?thesis by (auto simp: h_getFromArray_def)
qed

lemma navigateStep_rep:
  assumes "rep h S v g"
  shows "(h_navigateStep h v p = None \<longrightarrow> navigateStep g p = None)
    \<and> (\<forall>w. h_navigateStep h v p = Some w \<longrightarrow> (\<exists>g' C. navigateStep g p = Some g' \<and> C \<subseteq> S \<and> rep h C w g'))"
proof (cases "ParsePart p")
  case (Inl e)
  then show ?thesis by (simp add: h_navigateStep_def navigateStep_def)
next
  case (Inr r)
  obtain k i ix where r: "r = (k, i, ix)" by (cases r)
  show ?thesis
  proof (cases "h_getFromMap h v k")
    case None
    with getFromMap_rep [OF assms, of k] Inr r show ?thesis by (simp add: h_navigateStep_def navigateStep_def)
  next
    case (Some w)
    with getFromMap_rep [OF assms, of k] obtain g' C where g: "getFromMap g k = Some g'" "C \<subseteq> S" "rep h C w g'" by blast
    from getFromArray_rep [OF g(3), of i] Some g Inr r show ?thesis
      by (auto simp: h_navigateStep_def navigateStep_def) (metis subset_trans)
  qed
qed

lemma nav_loop_rep:
  assumes "rep h S v g"
  shows "(h_nav_loop h v ps = None \<longrightarrow> nav_loop g ps = None)
    \<and> (\<forall>w. h_nav_loop h v ps = Some w \<longrightarrow> (\<exists>g' C. nav_loop g ps = Some g' \<and> C \<subseteq> S \<and> rep h C w g'))"
  using assms
proof (induction ps arbitrary: v g S)
  case Nil
  then show ?case by auto
next
  case (Cons p ps)
  show ?case
  proof (cases "h_navigateStep h v p")
    case None
    with navigateStep_rep [OF Cons.prems, of p] show ?thesis by simp
  next
    case (Some w)
    with navigateStep_rep [OF Cons.prems, of p] obtain g' C where g: "navigateStep g p = Some g'" "C \<subseteq> S" "rep h C w g'" by blast
    from Cons.IH [OF g(3)] Some g show ?thesis by (auto) (metis subset_trans)
  qed
qed

subsection \<open>Refinement: deleting\<close>

lemma arr_remove_rep:
  assumes "rep h C (HArr b n) (GArr gs)" "i < n"
    and h': "agree (C - {b}) h h'" "fresh h \<le> fresh h'"
      "arrs h' b = take i (arrs h b) @ drop (i + 1) (take n (arrs h b)) @ drop (n - 1) (arrs h b)"
  shows "\<exists>C' \<subseteq> C. rep h' C' (HArr b (n - 1)) (GArr (take i gs @ drop (i + 1) gs))"
proof -
  from assms(1) obtain F where C: "C = insert b (\<Union>k. F (k :: nat))" and b: "b < fresh h" and d: "apart F" "b \<notin> (\<Union>k. F k)"
    and l: "n \<le> length (arrs h b)" "length gs = n" and n: "\<And>k. k \<ge> n \<Longrightarrow> F k = {}"
    and v: "\<And>k. k < n \<Longrightarrow> rep h (F k) (arrs h b ! k) (gs ! k)"
    by (cases rule: rep_arrE) auto
  define G where "G = (\<lambda>j. if j < i then F j else F (j + 1))"
  have disj: "F x \<inter> F j = {}" if "x \<noteq> j" for x j using d(1) that by (simp add: apart_def)
  have sub: "(\<Union>k. G k) \<subseteq> (\<Union>k. F k)" by (auto simp: G_def split: if_splits)
  have at': "arrs h' b ! j = arrs h b ! (if j < i then j else j + 1)" if "j < n - 1" for j
    using that assms(2) l by (auto simp: h'(3) nth_append)
  have gt: "(take i gs @ drop (i + 1) gs) ! j = gs ! (if j < i then j else j + 1)" if "j < n - 1" for j
    using that assms(2) l by (auto simp: nth_append)
  have "rep h' (insert b (\<Union>k. G k)) (HArr b (n - 1)) (GArr (take i gs @ drop (i + 1) gs))"
  proof (rule rep_arr)
    show "b < fresh h'" using b h'(2) by simp
    show "apart G" using disj by (auto simp: apart_def G_def)
    show "b \<notin> (\<Union>k. G k)" using d(2) sub by blast
    show "n - 1 \<le> length (arrs h' b)" "length (take i gs @ drop (i + 1) gs) = n - 1"
      using assms(2) l by (simp_all add: h'(3))
    show "G j = {}" if "j \<ge> n - 1" for j using that assms(2) n by (auto simp: G_def)
  next
    fix j assume j: "j < n - 1"
    let ?k = "if j < i then j else j + 1"
    have "F ?k \<subseteq> C - {b}" using C d(2) by auto
    then have "agree (F ?k) h h'" using h'(1) by (rule agree_mono [rotated])
    moreover have "?k < n" using j by auto
    ultimately have "rep h' (F ?k) (arrs h b ! ?k) (gs ! ?k)" by (intro rep_agree [OF v])
    then show "rep h' (G j) (arrs h' b ! j) ((take i gs @ drop (i + 1) gs) ! j)"
      unfolding at' [OF j] gt [OF j] G_def by (cases "j < i") simp_all
  qed
  moreover have "insert b (\<Union>k. G k) \<subseteq> C" using C sub by blast
  ultimately show ?thesis by blast
qed

lemma deleteFromMap_rep:
  assumes "rep h S (HMap a) (GMap m)" "ix \<Longrightarrow> 0 \<le> i"
  shows "changes S h (h_deleteFromMap a k i ix h) \<and> fresh (h_deleteFromMap a k i ix h) = fresh h
    \<and> (\<exists>S' \<subseteq> S. rep (h_deleteFromMap a k i ix h) S' (HMap a) (GMap (deleteFromMap m k i ix)))"
proof -
  obtain C R where S: "S = R \<union> C" "R \<inter> C = {}" "a \<in> R" "a < fresh h"
    and none: "maps h a k = None \<Longrightarrow> m k = None"
    and some: "\<And>v. maps h a k = Some v \<Longrightarrow> \<exists>g. m k = Some g \<and> rep h C v g"
    and put: "\<And>h' C' v' g'. \<lbrakk>rep h' C' v' g'; agree (R - {a}) h h'; maps h' a = (maps h a)(k \<mapsto> v'); R \<inter> C' = {}\<rbrakk>
       \<Longrightarrow> rep h' (R \<union> C') (HMap a) (GMap (m(k \<mapsto> g')))"
    and del: "\<And>h'. \<lbrakk>agree (R - {a}) h h'; maps h' a = (maps h a)(k := None)\<rbrakk> \<Longrightarrow> rep h' R (HMap a) (GMap (m(k := None)))"
    by (rule rep_map_focus [OF assms(1), of k]) (rule that; assumption)
  consider "\<not> ix" | b n where "ix" "maps h a k = Some (HArr b n)" "i < int n"
    | "ix" "\<forall>b n. maps h a k = Some (HArr b n) \<longrightarrow> int n \<le> i" by (meson not_less)
  then show ?thesis
  proof cases
    case 1
    have "rep (del_map a k h) R (HMap a) (GMap (m(k := None)))" by (rule del) (auto simp: agree_def)
    moreover have "changes S h (del_map a k h)" using S by (auto simp: changes_iff)
    ultimately show ?thesis using 1 S(1) by (auto simp: h_deleteFromMap_def deleteFromMap_def)
  next
    case (2 b n)
    from some [OF 2(2)] obtain g where g0: "m k = Some g" "rep h C (HArr b n) g" by blast
    then obtain gs where "g = GArr gs" by (auto elim: rep_arrE)
    with g0 have g: "m k = Some (GArr gs)" "rep h C (HArr b n) (GArr gs)" by simp_all
    have l: "length gs = n" "b \<in> C" using g(2) by (auto elim: rep_arrE)
    let ?xs = "take (nat i) (arrs h b) @ drop (nat i + 1) (take n (arrs h b)) @ drop (n - 1) (arrs h b)"
    let ?h = "put_map a k (HArr b (n - 1)) (put_arr b ?xs h)"
    have ab: "a \<noteq> b" using l(2) S by auto
    have "\<exists>C' \<subseteq> C. rep ?h C' (HArr b (n - 1)) (GArr (take (nat i) gs @ drop (nat i + 1) gs))"
      by (rule arr_remove_rep [OF g(2)]) (use 2 assms(2) S l in \<open>auto simp: agree_def\<close>)
    then obtain C' where C': "C' \<subseteq> C" "rep ?h C' (HArr b (n - 1)) (GArr (take (nat i) gs @ drop (nat i + 1) gs))" by blast
    have "rep ?h (R \<union> C') (HMap a) (GMap (m(k \<mapsto> GArr (take (nat i) gs @ drop (nat i + 1) gs))))"
      by (rule put [OF C'(2)]) (use S C'(1) l in \<open>auto simp: agree_def\<close>)
    moreover have "h_deleteFromMap a k i ix h = ?h" using 2 by (simp add: h_deleteFromMap_def Let_def)
    moreover have "deleteFromMap m k i ix = m(k \<mapsto> GArr (take (nat i) gs @ drop (nat i + 1) gs))"
      using 2 g(1) l(1) by (simp add: deleteFromMap_def)
    moreover have "changes S h ?h" using S l by (auto simp: changes_iff)
    moreover have "R \<union> C' \<subseteq> S" using S(1) C'(1) by blast
    ultimately show ?thesis by (metis heap_simps(1,7))
  next
    case 3
    have "h_deleteFromMap a k i ix h = h" using 3
      by (auto simp: h_deleteFromMap_def Let_def split: option.splits hval.splits)
    moreover have "deleteFromMap m k i ix = m"
    proof (cases "Option.bind (m k) as_arr")
      case None
      with 3(1) show ?thesis by (simp add: deleteFromMap_def)
    next
      case (Some gs)
      then have gs: "m k = Some (GArr gs)" by (auto simp: Option.bind_eq_Some_conv)
      with none obtain v where v: "maps h a k = Some v" by (cases "maps h a k") auto
      from some [OF v] gs have "rep h C v (GArr gs)" by simp
      then have "\<exists>b. v = HArr b (length gs)" by (cases rule: rep.cases) (auto dest: scalar_not_container)
      with 3 v gs show ?thesis by (auto simp: deleteFromMap_def)
    qed
    ultimately show ?thesis using assms(1) by auto
  qed
qed

lemma deleteFromArray_rep:
  assumes "rep h S (HArr b n) (GArr gs)" "ix \<Longrightarrow> 0 \<le> i"
  shows "changes S h (h_deleteFromArray (b, n) k i ix h) \<and> fresh (h_deleteFromArray (b, n) k i ix h) = fresh h
    \<and> (\<exists>S' \<subseteq> S. rep (h_deleteFromArray (b, n) k i ix h) S' (HArr b n) (GArr (deleteFromArray gs k i ix)))"
proof (cases "ix \<and> i < int n")
  case False
  moreover have "length gs = n" using assms(1) by (auto elim: rep_arrE)
  ultimately show ?thesis using assms(1) by (auto simp: h_deleteFromArray_def deleteFromArray_def)
next
  case True
  then have i: "nat i < n" using assms(2) by auto
  obtain C R where S: "S = R \<union> C" "R \<inter> C = {}" "b \<in> R" "b < fresh h" "n \<le> length (arrs h b)" "length gs = n"
    and el: "rep h C (arrs h b ! nat i) (gs ! nat i)"
    and put: "\<And>h' C' v' g'. \<lbrakk>rep h' C' v' g'; agree (R - {b}) h h'; arrs h' b = (arrs h b)[nat i := v']; R \<inter> C' = {}\<rbrakk>
       \<Longrightarrow> rep h' (R \<union> C') (HArr b n) (GArr (gs[nat i := g']))"
    by (rule rep_arr_focus [OF assms(1) i]) (rule that; assumption)
  show ?thesis
  proof (cases "\<exists>c. arrs h b ! nat i = HMap c")
    case False
    then have "as_map (gs ! nat i) = None" using rep_as_map [OF el] by simp
    moreover have "h_deleteFromArray (b, n) k i ix h = h" using False
      by (auto simp: h_deleteFromArray_def split: hval.splits)
    ultimately show ?thesis using assms(1) by (auto simp: deleteFromArray_def)
  next
    case m: True
    then obtain c where c: "arrs h b ! nat i = HMap c" by blast
    from el c obtain m where g: "gs ! nat i = GMap m" by (auto elim: rep_mapE)
    with el c have "rep h C (HMap c) (GMap m)" by simp
    from deleteFromMap_rep [OF this, of False i k] obtain C' where ch: "changes C h (del_map c k h)" and C': "C' \<subseteq> C"
      and r: "rep (del_map c k h) C' (HMap c) (GMap (m(k := None)))"
      by (auto simp: h_deleteFromMap_def deleteFromMap_def)
    have "rep (del_map c k h) (R \<union> C') (HArr b n) (GArr (gs[nat i := GMap (m(k := None))]))"
    proof (rule put [OF r])
      show "agree (R - {b}) h (del_map c k h)"
        using ch S(2) rep_below [OF assms(1)] S(1) by (auto simp: changes_iff agree_def)
      show "arrs (del_map c k h) b = (arrs h b)[nat i := HMap c]" using c list_update_id [of "arrs h b" "nat i"] by simp
      show "R \<inter> C' = {}" using S(2) C' by blast
    qed
    moreover have "h_deleteFromArray (b, n) k i ix h = del_map c k h" using True c by (simp add: h_deleteFromArray_def)
    moreover have "deleteFromArray gs k i ix = gs[nat i := GMap (m(k := None))]"
      using True S(6) g by (simp add: deleteFromArray_def)
    moreover have "changes S h (del_map c k h)" using ch S(1) by (auto elim: changes_mono)
    moreover have "R \<union> C' \<subseteq> S" using S(1) C' by blast
    ultimately show ?thesis by (metis heap_simps(4))
  qed
qed

lemma delete_leaf_rep:
  assumes "rep h S v g"
  shows "changes S h (h_deleteLeafFromParent v l h) \<and> fresh (h_deleteLeafFromParent v l h) = fresh h
    \<and> (\<exists>S' \<subseteq> S. rep (h_deleteLeafFromParent v l h) S' v (deleteLeafFromParent g l))"
proof (cases "ParsePart l")
  case (Inl e)
  with assms show ?thesis by (auto simp: h_deleteLeafFromParent_def deleteLeafFromParent_def)
next
  case (Inr r)
  obtain k i ix where r: "r = (k, i, ix)" by (cases r)
  have pos: "ix \<Longrightarrow> 0 \<le> i" using ParsePart_index Inr r by blast
  from assms show ?thesis
  proof (cases rule: rep.cases)
    case rep_scalar
    then have "h_deleteLeafFromParent v l h = h" "deleteLeafFromParent g l = g" using Inr r
      by (cases v; auto simp: h_deleteLeafFromParent_def deleteLeafFromParent_def)+
    with assms show ?thesis by auto
  next
    case (rep_map a F m)
    with assms have "rep h S (HMap a) (GMap m)" by simp
    from deleteFromMap_rep [where k = k, OF this pos] Inr r rep_map(2,3) show ?thesis
      by (simp add: h_deleteLeafFromParent_def deleteLeafFromParent_def)
  next
    case (rep_arr a F n gs)
    with assms have "rep h S (HArr a n) (GArr gs)" by simp
    from deleteFromArray_rep [where k = k, OF this pos] Inr r rep_arr(2,3) show ?thesis
      by (simp add: h_deleteLeafFromParent_def deleteLeafFromParent_def)
  qed
qed

text \<open>One step of the walk to the parent: the child at a segment can be replaced by what is left of it.\<close>

lemma navigateStep_focus:
  assumes "rep h S v g" "h_navigateStep h v p = Some w"
  obtains C R g' where "S = R \<union> C" "R \<inter> C = {}" "navigateStep g p = Some g'" "rep h C w g'"
    "\<And>h' C' g''. \<lbrakk>rep h' C' w g''; agree R h h'; R \<inter> C' = {}\<rbrakk> \<Longrightarrow> rep h' (R \<union> C') v (put_step g p g'')"
proof -
  obtain k i ix where p: "ParsePart p = Inr (k, i, ix)"
    using assms(2) by (cases "ParsePart p") (auto simp: h_navigateStep_def)
  obtain u where u: "h_getFromMap h v k = Some u" "if ix then h_getFromArray h u i = Some w else u = w"
    using assms(2) p by (auto simp: h_navigateStep_def split: option.splits if_splits)
  then obtain a where a: "v = HMap a" "maps h a k = Some u" by (auto simp: h_getFromMap_def split: hval.splits)
  with assms(1) obtain m where g: "g = GMap m" by (auto elim: rep_mapE)
  have r: "rep h S (HMap a) (GMap m)" using assms(1) a g by simp
  obtain C R where S: "S = R \<union> C" "R \<inter> C = {}" "a \<in> R" "a < fresh h"
    and none: "maps h a k = None \<Longrightarrow> m k = None"
    and some: "\<And>v. maps h a k = Some v \<Longrightarrow> \<exists>g. m k = Some g \<and> rep h C v g"
    and put: "\<And>h' C' v' g'. \<lbrakk>rep h' C' v' g'; agree (R - {a}) h h'; maps h' a = (maps h a)(k \<mapsto> v'); R \<inter> C' = {}\<rbrakk>
       \<Longrightarrow> rep h' (R \<union> C') (HMap a) (GMap (m(k \<mapsto> g')))"
    and del: "\<And>h'. \<lbrakk>agree (R - {a}) h h'; maps h' a = (maps h a)(k := None)\<rbrakk> \<Longrightarrow> rep h' R (HMap a) (GMap (m(k := None)))"
    by (rule rep_map_focus [OF r, of k]) (rule that; assumption)
  from some [OF a(2)] obtain gu where gu: "m k = Some gu" "rep h C u gu" by blast
  show ?thesis
  proof (cases ix)
    case False
    with u have w: "u = w" by simp
    show ?thesis
    proof (rule that [OF S(1,2)])
      show "navigateStep g p = Some gu" using p g gu(1) False by (simp add: navigateStep_def)
      show "rep h C w gu" using gu(2) w by simp
    next
      fix h' C' g'' assume q: "rep h' C' w g''" "agree R h h'" "R \<inter> C' = {}"
      have "rep h' (R \<union> C') (HMap a) (GMap (m(k \<mapsto> g'')))"
      proof (rule put [OF q(1) _ _ q(3)])
        show "agree (R - {a}) h h'" using q(2) by (rule agree_mono) auto
        show "maps h' a = (maps h a)(k \<mapsto> w)" using q(2) S(3) a(2) w by (simp add: agree_def fun_upd_idem)
      qed
      then show "rep h' (R \<union> C') v (put_step g p g'')" using p g a(1) False by (simp add: put_step_def)
    qed
  next
    case True
    with u(2) obtain b n where b: "u = HArr b n" "0 \<le> i" "i < int n" "w = arrs h b ! nat i"
      by (auto simp: h_getFromArray_def split: hval.splits if_splits)
    with gu(2) obtain gs where gs: "gu = GArr gs" by (auto elim: rep_arrE)
    have mk: "maps h a k = Some (HArr b n)" "m k = Some (GArr gs)" "nat i < n" using a b gu gs by auto
    obtain C R where S: "S = R \<union> C" "R \<inter> C = {}" "a \<in> R" "b \<in> R" "nat i < length (arrs h b)" "length gs = n"
      and el: "rep h C (arrs h b ! nat i) (gs ! nat i)"
      and put: "\<And>h' C' v' g'. \<lbrakk>rep h' C' v' g'; agree (R - {b}) h h'; maps h' b = maps h b; arrs h' b = (arrs h b)[nat i := v'];
        R \<inter> C' = {}\<rbrakk> \<Longrightarrow> rep h' (R \<union> C') (HMap a) (GMap (m(k \<mapsto> GArr (gs[nat i := g']))))"
      by (rule rep_slot [OF r mk]) (rule that; assumption)
    show ?thesis
    proof (rule that [OF S(1,2)])
      show "navigateStep g p = Some (gs ! nat i)" using p g mk b S(6) True by (simp add: navigateStep_def)
      show "rep h C w (gs ! nat i)" using el b by simp
    next
      fix h' C' g'' assume q: "rep h' C' w g''" "agree R h h'" "R \<inter> C' = {}"
      have "rep h' (R \<union> C') (HMap a) (GMap (m(k \<mapsto> GArr (gs[nat i := g'']))))"
      proof (rule put [OF q(1) _ _ _ q(3)])
        show "agree (R - {b}) h h'" using q(2) by (rule agree_mono) auto
        show "maps h' b = maps h b" "arrs h' b = (arrs h b)[nat i := w]"
          using q(2) S(4) b(4) by (simp_all add: agree_def)
      qed
      then show "rep h' (R \<union> C') v (put_step g p g'')" using p g a(1) True mk(2) by (simp add: put_step_def)
    qed
  qed
qed

lemma delete_at_rep:
  assumes "rep h S v g"
  shows "(h_nav_loop h v ps = None \<longrightarrow> delete_at g ps l = g)
    \<and> (\<forall>w h'. h_nav_loop h v ps = Some w \<longrightarrow> h' = h_deleteLeafFromParent w l h \<longrightarrow>
         changes S h h' \<and> fresh h' = fresh h \<and> (\<exists>S' \<subseteq> S. rep h' S' v (delete_at g ps l)))"
  using assms
proof (induction ps arbitrary: v g S)
  case Nil
  then show ?case using delete_leaf_rep by auto
next
  case (Cons p ps)
  show ?case
  proof (cases "h_navigateStep h v p")
    case None
    with navigateStep_rep [OF Cons.prems, of p] show ?thesis by simp
  next
    case (Some w)
    obtain C R g' where S: "S = R \<union> C" "R \<inter> C = {}" and g': "navigateStep g p = Some g'" "rep h C w g'"
      and put: "\<And>h' C' g''. \<lbrakk>rep h' C' w g''; agree R h h'; R \<inter> C' = {}\<rbrakk> \<Longrightarrow> rep h' (R \<union> C') v (put_step g p g'')"
      by (rule navigateStep_focus [OF Cons.prems Some]) (rule that; assumption)
    note IH = Cons.IH [OF g'(2)]
    show ?thesis
    proof (intro conjI allI impI)
      assume "h_nav_loop h v (p # ps) = None"
      with Some IH have "delete_at g' ps l = g'" by simp
      moreover have "put_step g p g' = g"
        using g'(1) by (auto simp: put_step_def navigateStep_def getFromMap_def getFromArray_def fun_upd_idem
            split: sum.splits option.splits gval.splits if_splits)
      ultimately show "delete_at g (p # ps) l = g" using g'(1) by simp
    next
      fix x h' assume x: "h_nav_loop h v (p # ps) = Some x" and h': "h' = h_deleteLeafFromParent x l h"
      with Some IH obtain C' where c: "changes C h h'" "fresh h' = fresh h" "C' \<subseteq> C" "rep h' C' w (delete_at g' ps l)"
        by auto
      have "R \<subseteq> {..<fresh h}" using rep_below [OF Cons.prems] S(1) by simp
      then have "agree R h h'" using c(1) S(2) by (auto simp: changes_iff agree_def)
      from put [OF c(4) this] c(3) S(2) have "rep h' (R \<union> C') v (delete_at g (p # ps) l)" using g'(1) by auto
      moreover have "R \<union> C' \<subseteq> S" using c(3) S(1) by blast
      ultimately show "\<exists>S' \<subseteq> S. rep h' S' v (delete_at g (p # ps) l)" by blast
      show "changes S h h'" "fresh h' = fresh h" using c(1,2) S(1) by (auto elim: changes_mono)
    qed
  qed
qed

lemma Get_refines:
  assumes "rep h S (HMap a) (GMap m)"
  shows "case h_Get h a path of None \<Rightarrow> Get m path = None
    | Some w \<Rightarrow> \<exists>g C. Get m path = Some g \<and> C \<subseteq> S \<and> rep h C w g"
proof -
  have "Get m path = (if path = [] then None else nav_loop (GMap m) (split_on (CHR ''.'') path))"
    by (simp add: Get_def navigate_def Let_def option.map_comp comp_def option.map_ident)
  with nav_loop_rep [OF assms, of "split_on (CHR ''.'') path"] show ?thesis
    by (auto simp: h_Get_def split: option.split)
qed

lemma Set_refines:
  assumes "rep h S (HMap a) (GMap m)" "rep h T v g" "S \<inter> T = {}" "h_Set spare a path v h = (e, h')"
  shows "e = fst (Set m path g) \<and> changes S h h'
    \<and> (\<exists>S' \<subseteq> S \<union> T \<union> {fresh h..<fresh h'}. rep h' S' (HMap a) (GMap (snd (Set m path g))))"
proof (cases "path = []")
  case True
  with assms show ?thesis by (auto simp: h_Set_def Set_def)
next
  case False
  with set_loop_rep [OF assms(1-3)] assms(4) show ?thesis by (simp add: h_Set_def Set_def)
qed

lemma Delete_refines:
  assumes "rep h S (HMap a) (GMap m)"
  shows "changes S h (h_Delete a path h) \<and> (\<exists>S' \<subseteq> S. rep (h_Delete a path h) S' (HMap a) (GMap (Delete m path)))"
proof (cases "path = []")
  case True
  with assms show ?thesis by (auto simp: h_Delete_def Delete_def navigate_def)
next
  case False
  let ?ps = "butlast (split_on (CHR ''.'') path)" and ?l = "last (split_on (CHR ''.'') path)"
  note r = delete_at_rep [OF assms, of ?ps ?l]
  show ?thesis
  proof (cases "h_nav_loop h (HMap a) ?ps")
    case None
    with nav_loop_rep [OF assms, of ?ps] have "nav_loop (GMap m) ?ps = None" by simp
    with None False assms show ?thesis by (auto simp: h_Delete_def Delete_def navigate_def Let_def)
  next
    case (Some w)
    with nav_loop_rep [OF assms, of ?ps] obtain gw where w: "nav_loop (GMap m) ?ps = Some gw" by blast
    let ?h = "h_deleteLeafFromParent w ?l h"
    from r Some obtain S' where S': "changes S h ?h" "S' \<subseteq> S" "rep ?h S' (HMap a) (delete_at (GMap m) ?ps ?l)" by blast
    then obtain m' where m': "delete_at (GMap m) ?ps ?l = GMap m'" by (auto elim: rep_mapE)
    then have "Delete m path = m'" using w False by (simp add: Delete_def navigate_def Let_def)
    moreover have "h_Delete a path h = ?h" using Some False by (simp add: h_Delete_def Let_def)
    ultimately show ?thesis using S' m' by auto
  qed
qed

subsection \<open>Properties\<close>

text \<open>
  C15. On a record that is a tree, the functions of \<open>recordpath\<close> that walk and mutate shared maps
  and slices compute what the functions on values compute: a lookup finds the same value, a
  write of a tree that shares nothing with the record and a deletion leave the record a tree
  with the value the functions on values return, the same error included, and whatever spare
  capacity Go gives a grown slice, no container outside the record changes.
\<close>
theorem recordpath_refines_values:
  assumes "rep h S (HMap a) (GMap m)"
  shows "(case h_Get h a path of None \<Rightarrow> Get m path = None
          | Some w \<Rightarrow> \<exists>g C. Get m path = Some g \<and> C \<subseteq> S \<and> rep h C w g)
    \<and> (rep h T v g \<and> S \<inter> T = {} \<longrightarrow>
        (case h_Set spare a path v h of (e, h') \<Rightarrow> e = fst (Set m path g) \<and> changes S h h'
           \<and> (\<exists>S' \<subseteq> S \<union> T \<union> {fresh h..<fresh h'}. rep h' S' (HMap a) (GMap (snd (Set m path g))))))
    \<and> changes S h (h_Delete a path h) \<and> (\<exists>S' \<subseteq> S. rep (h_Delete a path h) S' (HMap a) (GMap (Delete m path)))"
  using Get_refines [OF assms] Delete_refines [OF assms] Set_refines [OF assms] by (fastforce split: prod.split)

text \<open>
  The record \<open>{"a": {"x": 1}}\<close> on a heap: setting \<open>a.x\<close>, and setting \<open>b\<close> to the map that is under
  \<open>a\<close>, which makes the two fields one map.
\<close>

definition demo_heap :: heap where
  "demo_heap = \<lparr>maps = (\<lambda>_. Map.empty)(0 := [''a'' \<mapsto> HMap 1], 1 := [''x'' \<mapsto> HInt 1]), arrs = (\<lambda>_. []), fresh = 2\<rparr>"

lemma demo_tree: "rep demo_heap {0, 1} (HMap 0) (GMap [''a'' \<mapsto> GMap [''x'' \<mapsto> GInt 1]])"
proof -
  have "rep demo_heap (insert 1 (\<Union>k. (\<lambda>_. {}) (k :: string))) (HMap 1) (GMap [''x'' \<mapsto> GInt 1])"
    by (rule rep_map) (auto simp: demo_heap_def apart_def intro: rep_scalar split: if_splits)
  then have c: "rep demo_heap {1} (HMap 1) (GMap [''x'' \<mapsto> GInt 1])" by simp
  have "rep demo_heap (insert 0 (\<Union>k. (if k = ''a'' then {1} else {}))) (HMap 0) (GMap [''a'' \<mapsto> GMap [''x'' \<mapsto> GInt 1]])"
  proof (rule rep_map)
    fix k v assume "maps demo_heap 0 k = Some v"
    then have "k = ''a''" "v = HMap 1" by (auto simp: demo_heap_def split: if_splits)
    with c show "\<exists>g. [''a'' \<mapsto> GMap [''x'' \<mapsto> GInt 1]] k = Some g \<and> rep demo_heap (if k = ''a'' then {1} else {}) v g"
      by simp
  qed (auto simp: demo_heap_def apart_def split: if_splits)
  moreover have "insert 0 (\<Union>k. (if k = ''a'' then {1} else {})) = {0, 1 :: nat}" by (auto split: if_splits)
  ultimately show ?thesis by simp
qed

theorem recordpath_refines_values_witness:
  "\<exists>C. rep demo_heap C (HInt 1) (GInt 1) \<and> C \<subseteq> {0, 1}"
proof -
  have g: "h_Get demo_heap 0 ''a.x'' = Some (HInt 1)"
    by (simp add: h_Get_def h_navigateStep_def ParsePart_def h_getFromMap_def demo_heap_def)
  have m: "Get [''a'' \<mapsto> GMap [''x'' \<mapsto> GInt 1]] ''a.x'' = Some (GInt 1)"
    by (simp add: Get_def navigate_def navigateStep_def ParsePart_def Let_def)
  from conjunct1 [OF recordpath_refines_values [OF demo_tree, of "''a.x''"]] show ?thesis
    by (auto simp: g m)
qed

end
