(* ===== verification/MappingFilter.thy ===== *)
theory MappingFilter
  imports FieldFilters RecordHeap
begin

text \<open>
  The mapping filter, \<open>src/internal/modules/filter/mapping.go\<close>, \<open>mapping_parse.go\<close> and
  \<open>mapping_transforms.go\<close>: it copies fields of a record to other fields of the same record,
  through transforms. A copied container is not cloned, so the filter runs on the heap of
  \<open>RecordHeap\<close>; its refinement says when this cannot be observed.

  What Go leaves to the Unicode tables, the calendar, the float conversions and the \<open>%v\<close> verb
  is the argument \<open>map_env\<close>. The integer types of Go are one type here; the values of types
  that no decoded record holds are \<open>HOther\<close>: the arguments \<open>mv_as_time\<close> to \<open>mv_as_string_map\<close>
  are the cases \<open>time.Time\<close>, \<open>[]byte\<close>, \<open>json.Number\<close>, \<open>[]string\<close> and \<open>map[string]string\<close> of a
  type switch, with what the value holds.
\<close>

subsection \<open>Configuration\<close>

record TransformOp =
  to_Op :: string
  to_Format :: string
  to_Pattern :: string
  to_Replacement :: string
  to_Separator :: string

record 'v FieldMapping =
  fm_Source :: "string option"
  fm_Target :: string
  fm_DefaultValue :: 'v
  fm_HasDefaultValue :: bool
  fm_OnMissing :: string
  fm_Transforms :: "TransformOp list option"

record TransformConfig =
  tc_Op :: string
  tc_Format :: string
  tc_Pattern :: string
  tc_Replacement :: string
  tc_Separator :: string
  tc_CompiledPattern :: "(string \<Rightarrow> string \<Rightarrow> string) option"

record 'v MappingConfig =
  mp_Source :: string
  mp_Target :: string
  mp_DefaultValue :: 'v
  mp_OnMissing :: string
  mp_Transforms :: "TransformConfig list"

datatype mapping_config_error =
    MappingNoTarget nat | MappingReserved nat target_error | MappingEmptySource nat
  | MappingNoDefault nat | MappingUnknownOnMissing nat string | MappingUnknownOp nat string nat
  | MappingNoPattern nat nat | MappingBadPattern nat nat gerr
  | MappingStrategy strategy_error
  | MappingNotObject nat | MappingsNotArray | TransformsNotArray nat | TransformNoOp nat nat | TransformBadType nat nat

definition supportedTransformOps :: "string list" where
  "supportedTransformOps =
     [''trim'', ''lowercase'', ''uppercase'', ''dateFormat'', ''replace'', ''split'', ''join'', ''toString'',
      ''toInt'', ''toFloat'', ''toBool'', ''toArray'', ''toObject'']"

definition isSupportedTransformOp :: "string \<Rightarrow> bool" where
  "isSupportedTransformOp op \<longleftrightarrow> op \<in> set supportedTransformOps"

text \<open>The loop over the transforms; \<open>compile\<close> is \<open>regexp.Compile\<close>.\<close>

fun parse_transforms ::
  "(string \<Rightarrow> gerr + (string \<Rightarrow> string \<Rightarrow> string)) \<Rightarrow> nat \<Rightarrow> nat \<Rightarrow> TransformOp list
   \<Rightarrow> mapping_config_error + TransformConfig list" where
  "parse_transforms compile index i [] = Inr []"
| "parse_transforms compile index i (t # ts) =
     (if \<not> isSupportedTransformOp (to_Op t) then Inl (MappingUnknownOp index (to_Op t) i)
      else (case (if to_Op t = ''replace'' then
                    (if to_Pattern t = [] then Inl (MappingNoPattern index i)
                     else (case compile (to_Pattern t) of
                             Inl err \<Rightarrow> Inl (MappingBadPattern index i err) | Inr re \<Rightarrow> Inr (Some re)))
                  else Inr None) of
              Inl err \<Rightarrow> Inl err
            | Inr re \<Rightarrow>
                (case parse_transforms compile index (Suc i) ts of
                   Inl err \<Rightarrow> Inl err
                 | Inr tcs \<Rightarrow>
                     Inr (\<lparr>tc_Op = to_Op t, tc_Format = to_Format t, tc_Pattern = to_Pattern t,
                           tc_Replacement = to_Replacement t, tc_Separator = to_Separator t,
                           tc_CompiledPattern = re\<rparr> # tcs))))"

definition parseMappingConfig ::
  "(string \<Rightarrow> gerr + (string \<Rightarrow> string \<Rightarrow> string)) \<Rightarrow> 'v FieldMapping \<Rightarrow> nat
   \<Rightarrow> mapping_config_error + 'v MappingConfig" where
  "parseMappingConfig compile m index =
     (if fm_Target m = [] then Inl (MappingNoTarget index)
      else (case ValidateRecordTarget (fm_Target m) of
              Some err \<Rightarrow> Inl (MappingReserved index err)
            | None \<Rightarrow>
                if fm_Source m = Some [] then Inl (MappingEmptySource index)
                else (case (if fm_OnMissing m = [] then Inr ''setNull''
                            else if fm_OnMissing m \<in> {''setNull'', ''skipField'', ''fail''} then Inr (fm_OnMissing m)
                            else if fm_OnMissing m = ''useDefault''
                            then (if fm_HasDefaultValue m then Inr (fm_OnMissing m) else Inl (MappingNoDefault index))
                            else Inl (MappingUnknownOnMissing index (fm_OnMissing m))) of
                        Inl err \<Rightarrow> Inl err
                      | Inr onMissing \<Rightarrow>
                          (case parse_transforms compile index 0
                                  (case fm_Transforms m of None \<Rightarrow> [] | Some ts \<Rightarrow> ts) of
                             Inl err \<Rightarrow> Inl err
                           | Inr ts \<Rightarrow>
                               Inr \<lparr>mp_Source = (case fm_Source m of None \<Rightarrow> [] | Some s \<Rightarrow> s),
                                    mp_Target = fm_Target m, mp_DefaultValue = fm_DefaultValue m,
                                    mp_OnMissing = onMissing, mp_Transforms = ts\<rparr>))))"

fun parse_mappings ::
  "(string \<Rightarrow> gerr + (string \<Rightarrow> string \<Rightarrow> string)) \<Rightarrow> nat \<Rightarrow> 'v FieldMapping list
   \<Rightarrow> mapping_config_error + 'v MappingConfig list" where
  "parse_mappings compile i [] = Inr []"
| "parse_mappings compile i (m # ms) =
     (case parseMappingConfig compile m i of
        Inl err \<Rightarrow> Inl err
      | Inr c \<Rightarrow> (case parse_mappings compile (Suc i) ms of Inl err \<Rightarrow> Inl err | Inr cs \<Rightarrow> Inr (c # cs)))"

record 'v MappingModule =
  mm_mappings :: "'v MappingConfig list"
  mm_onError :: strategy

definition NewMappingFromConfig ::
  "(string \<Rightarrow> gerr + (string \<Rightarrow> string \<Rightarrow> string)) \<Rightarrow> 'v FieldMapping list \<Rightarrow> string
   \<Rightarrow> mapping_config_error + 'v MappingModule" where
  "NewMappingFromConfig compile mappings onError =
     (case ParseOnErrorStrategy onError of
        Inl err \<Rightarrow> Inl (MappingStrategy err)
      | Inr strategy \<Rightarrow>
          (case parse_mappings compile 0 mappings of
             Inl err \<Rightarrow> Inl err
           | Inr configs \<Rightarrow> Inr \<lparr>mm_mappings = configs, mm_onError = strategy\<rparr>))"

subsection \<open>Raw configuration\<close>

text \<open>
  The dynamic types \<open>ParseFieldMappings\<close> accepts: typed mappings, a list of maps, and a list of
  maps and typed mappings. \<open>fmt_v\<close> is the \<open>%v\<close> verb.
\<close>

datatype raw_item = ItemMap grecord | ItemTyped "gval FieldMapping" | ItemOther
datatype raw_mappings =
  RawNil | RawTyped "gval FieldMapping list" | RawMaps "grecord list" | RawList "raw_item list" | RawOther

definition stringValue :: "(gval \<Rightarrow> string) \<Rightarrow> gval option \<Rightarrow> string" where
  "stringValue fmt_v v =
     (case v of None \<Rightarrow> [] | Some GNil \<Rightarrow> [] | Some (GStr s) \<Rightarrow> s | Some g \<Rightarrow> fmt_v g)"

fun transform_ops :: "(gval \<Rightarrow> string) \<Rightarrow> nat \<Rightarrow> nat \<Rightarrow> gval list \<Rightarrow> mapping_config_error + TransformOp list" where
  "transform_ops fmt_v mappingIndex i [] = Inr []"
| "transform_ops fmt_v mappingIndex i (item # items) =
     (case (case item of
              GStr v \<Rightarrow> Inr \<lparr>to_Op = v, to_Format = [], to_Pattern = [], to_Replacement = [], to_Separator = []\<rparr>
            | GMap v \<Rightarrow>
                let op = (case Option.bind (v ''op'') as_str of None \<Rightarrow> [] | Some s \<Rightarrow> s)
                in if op = [] then Inl (TransformNoOp mappingIndex i)
                   else Inr \<lparr>to_Op = op, to_Format = stringValue fmt_v (v ''format''),
                             to_Pattern = stringValue fmt_v (v ''pattern''),
                             to_Replacement = stringValue fmt_v (v ''replacement''),
                             to_Separator = stringValue fmt_v (v ''separator'')\<rparr>
            | _ \<Rightarrow> Inl (TransformBadType mappingIndex i)) of
        Inl err \<Rightarrow> Inl err
      | Inr op \<Rightarrow> (case transform_ops fmt_v mappingIndex (Suc i) items of Inl err \<Rightarrow> Inl err | Inr ops \<Rightarrow> Inr (op # ops)))"

text \<open>The transforms of a map, which may be typed already when the map was made from a typed mapping.\<close>

definition parseTransformOps :: "(gval \<Rightarrow> string) \<Rightarrow> gval \<Rightarrow> nat \<Rightarrow> mapping_config_error + TransformOp list option" where
  "parseTransformOps fmt_v raw mappingIndex =
     (case raw of
        GNil \<Rightarrow> Inr None
      | GArr list \<Rightarrow> (case transform_ops fmt_v mappingIndex 0 list of Inl err \<Rightarrow> Inl err | Inr ops \<Rightarrow> Inr (Some ops))
      | _ \<Rightarrow> Inl (TransformsNotArray mappingIndex))"

definition parseFieldMappingMap ::
  "(gval \<Rightarrow> string) \<Rightarrow> grecord \<Rightarrow> nat \<Rightarrow> mapping_config_error + gval FieldMapping" where
  "parseFieldMappingMap fmt_v data index =
     (case (case data ''transforms'' of None \<Rightarrow> Inr None | Some raw \<Rightarrow> parseTransformOps fmt_v raw index) of
        Inl err \<Rightarrow> Inl err
      | Inr transforms \<Rightarrow>
          Inr \<lparr>fm_Source = Option.bind (data ''source'') as_str,
               fm_Target = (case Option.bind (data ''target'') as_str of None \<Rightarrow> [] | Some s \<Rightarrow> s),
               fm_DefaultValue = (case data ''defaultValue'' of None \<Rightarrow> GNil | Some v \<Rightarrow> v),
               fm_HasDefaultValue = (data ''defaultValue'' \<noteq> None),
               fm_OnMissing = (case Option.bind (data ''onMissing'') as_str of None \<Rightarrow> [] | Some s \<Rightarrow> s),
               fm_Transforms = transforms\<rparr>)"

text \<open>
  A typed mapping in a list goes through a map and back: its source is then a \<open>*string\<close>, which
  the type assertion to \<open>string\<close> does not accept, and its transforms stay as they are.
\<close>

definition reparsed :: "gval FieldMapping \<Rightarrow> gval FieldMapping" where
  "reparsed m = m\<lparr>fm_Source := None, fm_DefaultValue := (if fm_HasDefaultValue m then fm_DefaultValue m else GNil)\<rparr>"

fun parse_items :: "(gval \<Rightarrow> string) \<Rightarrow> nat \<Rightarrow> raw_item list \<Rightarrow> mapping_config_error + gval FieldMapping list" where
  "parse_items fmt_v i [] = Inr []"
| "parse_items fmt_v i (item # items) =
     (case (case item of
              ItemMap data \<Rightarrow> parseFieldMappingMap fmt_v data i
            | ItemTyped m \<Rightarrow> Inr (reparsed m)
            | ItemOther \<Rightarrow> Inl (MappingNotObject i)) of
        Inl err \<Rightarrow> Inl err
      | Inr m \<Rightarrow> (case parse_items fmt_v (Suc i) items of Inl err \<Rightarrow> Inl err | Inr ms \<Rightarrow> Inr (m # ms)))"

text \<open>The items are checked to be objects before any of them is parsed.\<close>

definition ParseFieldMappings :: "(gval \<Rightarrow> string) \<Rightarrow> raw_mappings \<Rightarrow> mapping_config_error + gval FieldMapping list" where
  "ParseFieldMappings fmt_v raw =
     (case raw of
        RawNil \<Rightarrow> Inr []
      | RawTyped ms \<Rightarrow> Inr ms
      | RawMaps ms \<Rightarrow> parse_items fmt_v 0 (map ItemMap ms)
      | RawList items \<Rightarrow>
          (case find (\<lambda>(i, item). case item of ItemOther \<Rightarrow> True | _ \<Rightarrow> False) (enumerate 0 items) of
             Some (i, _) \<Rightarrow> Inl (MappingNotObject i)
           | None \<Rightarrow> parse_items fmt_v 0 items)
      | RawOther \<Rightarrow> Inl MappingsNotArray)"

subsection \<open>Transforms\<close>

record 't map_env =
  mv_ToLower :: "string \<Rightarrow> string"
  mv_ToUpper :: "string \<Rightarrow> string"
  mv_time_Parse :: "string \<Rightarrow> string \<Rightarrow> 't option"
  mv_time_Format :: "'t \<Rightarrow> string \<Rightarrow> string"
  mv_as_time :: "string \<Rightarrow> string \<Rightarrow> 't option"
  mv_as_bytes :: "string \<Rightarrow> string \<Rightarrow> string option"
  mv_as_number :: "string \<Rightarrow> string \<Rightarrow> string option"
  mv_as_strings :: "string \<Rightarrow> string \<Rightarrow> string list option"
  mv_as_string_map :: "string \<Rightarrow> string \<Rightarrow> (string \<Rightarrow> string option) option"
  mv_fmt_v :: "heap \<Rightarrow> hval \<Rightarrow> string"
  mv_reify :: "heap \<Rightarrow> hval \<Rightarrow> gval"
  mv_fmt_T :: "hval \<Rightarrow> string"
  mv_ParseFloat :: "string \<Rightarrow> gerr + go_float"
  mv_float_ops :: float_ops
  mv_url :: url_env
  mv_spare :: "nat \<Rightarrow> nat"

definition applyTrim :: "hval \<Rightarrow> hval" where
  "applyTrim v = (case v of HStr s \<Rightarrow> HStr (trim_space s) | _ \<Rightarrow> v)"

definition applyLowercase :: "'t map_env \<Rightarrow> hval \<Rightarrow> hval" where
  "applyLowercase env v = (case v of HStr s \<Rightarrow> HStr (mv_ToLower env s) | _ \<Rightarrow> v)"

definition applyUppercase :: "'t map_env \<Rightarrow> hval \<Rightarrow> hval" where
  "applyUppercase env v = (case v of HStr s \<Rightarrow> HStr (mv_ToUpper env s) | _ \<Rightarrow> v)"

definition date_replacements :: "(string \<times> string) list" where
  "date_replacements =
     [(''YYYY'', ''2006''), (''YY'', ''06''), (''MM'', ''01''), (''DD'', ''02''), (''HH'', ''15''), (''mm'', ''04''),
      (''ss'', ''05''), (''SSS'', ''000'')]"

definition convertDateFormat :: "string \<Rightarrow> string" where
  "convertDateFormat format = foldl (\<lambda>result (p, r). ReplaceAll p r result) format date_replacements"

definition inputFormats :: "string list" where
  "inputFormats =
     [''2006-01-02T15:04:05Z07:00'', ''2006-01-02T15:04:05Z07:00'', ''2006-01-02T15:04:05Z07:00'', ''2006-01-02T15:04:05'', ''2006-01-02'',
      ''Mon, 02 Jan 2006 15:04:05 MST'']"

definition applyDateFormat :: "'t map_env \<Rightarrow> hval \<Rightarrow> string \<Rightarrow> gerr + hval" where
  "applyDateFormat env v format =
     (let format = (if format = [] then ''2006-01-02T15:04:05'' else format);
          goFormat = convertDateFormat format
      in (case v of
            HStr s \<Rightarrow>
              (case first_some (\<lambda>f. mv_time_Parse env f s) inputFormats of
                 None \<Rightarrow> Inl (plain_error (''could not parse date: '' @ s))
               | Some t \<Rightarrow> Inr (HStr (mv_time_Format env t goFormat)))
          | HOther ty s \<Rightarrow>
              (case mv_as_time env ty s of
                 None \<Rightarrow> Inr v | Some t \<Rightarrow> Inr (HStr (mv_time_Format env t goFormat)))
          | _ \<Rightarrow> Inr v))"

definition applyReplace :: "hval \<Rightarrow> (string \<Rightarrow> string \<Rightarrow> string) option \<Rightarrow> string \<Rightarrow> hval" where
  "applyReplace v compiledPattern replacement =
     (case v of
        HStr s \<Rightarrow> (case compiledPattern of None \<Rightarrow> HStr s | Some re \<Rightarrow> HStr (re s replacement))
      | _ \<Rightarrow> v)"

definition applySplit :: "hval \<Rightarrow> string \<Rightarrow> heap \<Rightarrow> hval \<times> heap" where
  "applySplit v separator h =
     (case v of
        HStr s \<Rightarrow>
          let separator = (if separator = [] then '','' else separator);
              parts = split_str separator s
          in (case new_arr (map (\<lambda>p. HStr (trim_space p)) parts) h of (a, h) \<Rightarrow> (HArr a (length parts), h))
      | _ \<Rightarrow> (v, h))"

definition applyJoin :: "'t map_env \<Rightarrow> hval \<Rightarrow> string \<Rightarrow> heap \<Rightarrow> hval" where
  "applyJoin env v separator h =
     (let separator = (if separator = [] then '','' else separator)
      in (case v of
            HArr a n \<Rightarrow> HStr (join_str separator (map (mv_fmt_v env h) (take n (arrs h a))))
          | HOther ty s \<Rightarrow>
              (case mv_as_strings env ty s of Some parts \<Rightarrow> HStr (join_str separator parts) | None \<Rightarrow> v)
          | _ \<Rightarrow> v))"

definition applyToString :: "'t map_env \<Rightarrow> hval \<Rightarrow> heap \<Rightarrow> hval" where
  "applyToString env v h =
     (case v of
        HStr s \<Rightarrow> HStr s
      | HOther ty s \<Rightarrow>
          (case mv_as_bytes env ty s of
             Some b \<Rightarrow> HStr b
           | None \<Rightarrow> (case mv_as_time env ty s of
                        Some t \<Rightarrow> HStr (mv_time_Format env t ''2006-01-02T15:04:05Z07:00'')
                      | None \<Rightarrow> HStr (mv_fmt_v env h v)))
      | _ \<Rightarrow> HStr (mv_fmt_v env h v))"

text \<open>\<open>strconv.Atoi\<close> and \<open>strconv.ParseInt\<close> fail on a syntax error or out of range.\<close>

definition atoi_error :: "string \<Rightarrow> string \<Rightarrow> gerr" where
  "atoi_error fn s =
     (let range = (parse_digits (case s of [] \<Rightarrow> [] | c # cs \<Rightarrow> if c = CHR ''-'' \<or> c = CHR ''+'' then cs else s) \<noteq> None);
          why = (if range then ''value out of range'' else ''invalid syntax'')
      in errorf (''strconv.'' @ fn @ '': parsing \"'' @ s @ ''\": '' @ why) (plain_error why))"

definition applyToInt :: "'t map_env \<Rightarrow> hval \<Rightarrow> heap \<Rightarrow> gerr + hval" where
  "applyToInt env v h =
     (case v of
        HInt i \<Rightarrow> Inr (HInt i)
      | HFloat f \<Rightarrow>
          (case f of
             FFin q \<Rightarrow> if of_int (trunc_rat q) \<noteq> q
                       then Inl (plain_error (''cannot convert float with fractional part to int: '' @ mv_fmt_v env h v))
                       else Inr (HInt (float_to_int64 (mv_float_ops env) f))
           | FNaN \<Rightarrow> Inl (plain_error (''cannot convert float with fractional part to int: '' @ mv_fmt_v env h v))
           | _ \<Rightarrow> Inr (HInt (float_to_int64 (mv_float_ops env) f)))
      | HStr s \<Rightarrow>
          (case atoi (trim_space s) of
             Some i \<Rightarrow> Inr (HInt i)
           | None \<Rightarrow> let e = atoi_error ''Atoi'' (trim_space s)
                      in Inl (errorf (''cannot parse int from string \"'' @ s @ ''\": '' @ err_text e) e))
      | HBool b \<Rightarrow> Inr (HInt (if b then 1 else 0))
      | HOther ty s \<Rightarrow>
          (case mv_as_number env ty s of
             Some n \<Rightarrow>
               (case atoi n of
                  Some i \<Rightarrow> Inr (HInt i)
                | None \<Rightarrow> let e = atoi_error ''ParseInt'' n
                           in Inl (errorf (''cannot convert number to int: '' @ err_text e) e))
           | None \<Rightarrow> Inl (plain_error (''cannot convert '' @ mv_fmt_T env v @ '' to int'')))
      | _ \<Rightarrow> Inl (plain_error (''cannot convert '' @ mv_fmt_T env v @ '' to int'')))"

definition applyToFloat :: "'t map_env \<Rightarrow> hval \<Rightarrow> gerr + hval" where
  "applyToFloat env v =
     (case v of
        HFloat f \<Rightarrow> Inr (HFloat f)
      | HInt i \<Rightarrow> Inr (HFloat (f_of_int (mv_float_ops env) i))
      | HStr s \<Rightarrow>
          (case mv_ParseFloat env (trim_space s) of
             Inr f \<Rightarrow> Inr (HFloat f)
           | Inl e \<Rightarrow> Inl (errorf (''cannot parse float from string \"'' @ s @ ''\": '' @ err_text e) e))
      | HBool b \<Rightarrow> Inr (HFloat (FFin (if b then 1 else 0)))
      | HOther ty s \<Rightarrow>
          (case mv_as_number env ty s of
             Some n \<Rightarrow>
               (case mv_ParseFloat env n of
                  Inr f \<Rightarrow> Inr (HFloat f)
                | Inl e \<Rightarrow> Inl (errorf (''cannot convert number to float: '' @ err_text e) e))
           | None \<Rightarrow> Inl (plain_error (''cannot convert '' @ mv_fmt_T env v @ '' to float'')))
      | _ \<Rightarrow> Inl (plain_error (''cannot convert '' @ mv_fmt_T env v @ '' to float'')))"

definition ParseBool :: "string \<Rightarrow> bool option" where
  "ParseBool s =
     (if s \<in> {''1'', ''t'', ''T'', ''TRUE'', ''true'', ''True''} then Some True
      else if s \<in> {''0'', ''f'', ''F'', ''FALSE'', ''false'', ''False''} then Some False
      else None)"

definition applyToBool :: "'t map_env \<Rightarrow> hval \<Rightarrow> gerr + hval" where
  "applyToBool env v =
     (case v of
        HBool b \<Rightarrow> Inr (HBool b)
      | HStr s \<Rightarrow>
          (case ParseBool (trim_space s) of
             Some b \<Rightarrow> Inr (HBool b)
           | None \<Rightarrow> let e = errorf (''strconv.ParseBool: parsing \"'' @ trim_space s @ ''\": invalid syntax'')
                              (plain_error ''invalid syntax'')
                      in Inl (errorf (''cannot parse bool from string \"'' @ s @ ''\": '' @ err_text e) e))
      | HInt i \<Rightarrow> Inr (HBool (i \<noteq> 0))
      | HFloat f \<Rightarrow> Inr (HBool (f \<noteq> FFin 0))
      | _ \<Rightarrow> Inl (plain_error (''cannot convert '' @ mv_fmt_T env v @ '' to bool'')))"

definition applyToArray :: "'t map_env \<Rightarrow> hval \<Rightarrow> heap \<Rightarrow> hval \<times> heap" where
  "applyToArray env v h =
     (case v of
        HArr a n \<Rightarrow> (v, h)
      | HOther ty s \<Rightarrow>
          (let parts = (case mv_as_strings env ty s of Some parts \<Rightarrow> map HStr parts | None \<Rightarrow> [v])
           in (case new_arr parts h of (a, h) \<Rightarrow> (HArr a (length parts), h)))
      | _ \<Rightarrow> (case new_arr [v] h of (a, h) \<Rightarrow> (HArr a 1, h)))"

definition applyToObject :: "'t map_env \<Rightarrow> hval \<Rightarrow> heap \<Rightarrow> (gerr + hval) \<times> heap" where
  "applyToObject env v h =
     (let failed = Inl (plain_error (''cannot convert '' @ mv_fmt_T env v @ '' to object''))
      in (case v of
            HMap a \<Rightarrow> (Inr v, h)
          | HOther ty s \<Rightarrow>
              (case mv_as_string_map env ty s of
                 Some m \<Rightarrow>
                   (case new_map h of
                      (a, h) \<Rightarrow> (Inr (HMap a), h\<lparr>maps := (maps h)(a := map_option HStr \<circ> m)\<rparr>))
               | None \<Rightarrow> (failed, h))
          | _ \<Rightarrow> (failed, h)))"

definition applyTransformOp :: "'t map_env \<Rightarrow> hval \<Rightarrow> TransformConfig \<Rightarrow> heap \<Rightarrow> (gerr + hval) \<times> heap" where
  "applyTransformOp env v config h =
     (let op = tc_Op config
      in if v = HNil then (Inr HNil, h)
         else if op = ''trim'' then (Inr (applyTrim v), h)
         else if op = ''lowercase'' then (Inr (applyLowercase env v), h)
         else if op = ''uppercase'' then (Inr (applyUppercase env v), h)
         else if op = ''toString'' then (Inr (applyToString env v h), h)
         else if op = ''toInt'' then (applyToInt env v h, h)
         else if op = ''toFloat'' then (applyToFloat env v, h)
         else if op = ''toBool'' then (applyToBool env v, h)
         else if op = ''toArray'' then (case applyToArray env v h of (v, h) \<Rightarrow> (Inr v, h))
         else if op = ''toObject'' then applyToObject env v h
         else if op = ''dateFormat'' then (applyDateFormat env v (tc_Format config), h)
         else if op = ''replace'' then (Inr (applyReplace v (tc_CompiledPattern config) (tc_Replacement config)), h)
         else if op = ''split'' then (case applySplit v (tc_Separator config) h of (v, h) \<Rightarrow> (Inr v, h))
         else if op = ''join'' then (Inr (applyJoin env v (tc_Separator config) h), h)
         else (Inl (errorf (''invalid mapping configuration: unknown transform op \"'' @ op @ ''\"'')
                      (plain_error ''invalid mapping configuration'')), h))"

text \<open>A failed transform is a \<open>TransformError\<close>: its op, and its text.\<close>

fun applyTransforms ::
  "'t map_env \<Rightarrow> hval \<Rightarrow> TransformConfig list \<Rightarrow> heap \<Rightarrow> (string \<times> string + hval) \<times> heap" where
  "applyTransforms env v [] h = (Inr v, h)"
| "applyTransforms env v (t # ts) h =
     (case applyTransformOp env v t h of
        (Inl err, h) \<Rightarrow> (Inl (tc_Op t, ''transform \"'' @ tc_Op t @ ''\" failed: '' @ err_text err), h)
      | (Inr v, h) \<Rightarrow> applyTransforms env v ts h)"

subsection \<open>One record\<close>

definition MappingError_Details :: "'t map_env \<Rightarrow> 'v MappingConfig \<Rightarrow> nat \<Rightarrow> hval \<Rightarrow> string \<Rightarrow> heap \<Rightarrow> grecord" where
  "MappingError_Details env mapping mappingIdx v transformOp h =
     (let d = [''source_field'' \<mapsto> GStr (mp_Source mapping), ''target_field'' \<mapsto> GStr (mp_Target mapping),
               ''mapping_index'' \<mapsto> GInt (int mappingIdx)];
          d = (if transformOp \<noteq> [] then d(''transform_op'' \<mapsto> GStr transformOp) else d)
      in (if v \<noteq> HNil then d(''source_value'' \<mapsto> mv_reify env h v) else d))"

definition newMappingError ::
  "'t map_env \<Rightarrow> string \<Rightarrow> string \<Rightarrow> 'v MappingConfig \<Rightarrow> nat \<Rightarrow> nat \<Rightarrow> hval \<Rightarrow> string \<Rightarrow> heap \<Rightarrow> gerr" where
  "newMappingError env code message mapping recordIdx mappingIdx v transformOp h =
     NodeE KPlain message None
       (Some \<lparr>me_code = code, me_module = ''mapping'', me_index = int recordIdx,
              me_details = MappingError_Details env mapping mappingIdx v transformOp h\<rparr>)
       (Some (Some (Classified CategoryValidation False 0 message None))) [] False"

definition at_indices :: "nat \<Rightarrow> nat \<Rightarrow> string" where
  "at_indices recordIdx mappingIdx = '' at record '' @ itoa (int recordIdx) @ '', mapping '' @ itoa (int mappingIdx)"

text \<open>A nil record reads as an empty map.\<close>

definition getSourceValue ::
  "'t map_env \<Rightarrow> nat option \<Rightarrow> hval MappingConfig \<Rightarrow> nat \<Rightarrow> nat \<Rightarrow> heap \<Rightarrow> gerr + hval option" where
  "getSourceValue env record mapping recordIdx mappingIdx h =
     (let found = Option.bind record (\<lambda>r. h_Get h r (mp_Source mapping))
      in if found = None \<or> found = Some HNil then
           (if mp_OnMissing mapping = ''setNull'' then Inr (Some HNil)
            else if mp_OnMissing mapping = ''skipField'' then Inr None
            else if mp_OnMissing mapping = ''useDefault'' then Inr (Some (mp_DefaultValue mapping))
            else if mp_OnMissing mapping = ''fail'' then
              Inl (newMappingError env ''MISSING_FIELD''
                     (''missing required field \"'' @ mp_Source mapping @ ''\" for target \"'' @ mp_Target mapping @ ''\"''
                      @ at_indices recordIdx mappingIdx) mapping recordIdx mappingIdx HNil [] h)
            else Inr found)
         else Inr found)"

definition typeConversionOps :: "string list" where
  "typeConversionOps = [''toString'', ''toInt'', ''toFloat'', ''toBool'', ''toArray'', ''toObject'']"

definition handleTransformError ::
  "'t map_env \<Rightarrow> string \<times> string \<Rightarrow> hval MappingConfig \<Rightarrow> nat \<Rightarrow> nat \<Rightarrow> hval \<Rightarrow> heap \<Rightarrow> gerr" where
  "handleTransformError env err mapping recordIdx mappingIdx v h =
     (case err of (transformOp, text) \<Rightarrow>
        newMappingError env (if transformOp \<in> set typeConversionOps then ''TYPE_CONVERSION'' else ''TRANSFORM_FAILED'')
          (''transform failed for field \"'' @ mp_Source mapping @ ''\" -> \"'' @ mp_Target mapping @ ''\"''
           @ at_indices recordIdx mappingIdx @ '': '' @ text) mapping recordIdx mappingIdx v transformOp h)"

definition handleSetValueError ::
  "'t map_env \<Rightarrow> gerr \<Rightarrow> hval MappingConfig \<Rightarrow> nat \<Rightarrow> nat \<Rightarrow> hval \<Rightarrow> heap \<Rightarrow> gerr" where
  "handleSetValueError env err mapping recordIdx mappingIdx v h =
     newMappingError env ''NESTED_PATH_FAILED''
       (''failed to set target field \"'' @ mp_Target mapping @ ''\"'' @ at_indices recordIdx mappingIdx @ '': '' @ err_text err)
       mapping recordIdx mappingIdx v [] h"

text \<open>A write to a nil record panics, unless the first segment of its path does not parse.\<close>

definition set_record ::
  "(nat \<Rightarrow> nat) \<Rightarrow> nat option \<Rightarrow> string \<Rightarrow> hval \<Rightarrow> heap \<Rightarrow> path_error option outcome_or_panic \<times> heap" where
  "set_record spare record path v h =
     (case record of
        Some r \<Rightarrow> (case h_Set spare r path v h of (e, h) \<Rightarrow> (Returns e, h))
      | None \<Rightarrow>
          if path = [] then (Returns (Some ErrEmptyPath), h)
          else (case ParsePart (hd (split_on (CHR ''.'') path)) of
                  Inl e \<Rightarrow> (Returns (Some e), h) | Inr _ \<Rightarrow> (NilMapPanic, h)))"

fun map_fields ::
  "'t map_env \<Rightarrow> nat option \<Rightarrow> nat \<Rightarrow> nat \<Rightarrow> hval MappingConfig list \<Rightarrow> heap \<Rightarrow> gerr option outcome_or_panic \<times> heap" where
  "map_fields env record recordIdx i [] h = (Returns None, h)"
| "map_fields env record recordIdx i (mapping # ms) h =
     (if mp_Source mapping = [] then
        map_fields env record recordIdx (Suc i) ms
          (case record of None \<Rightarrow> h | Some r \<Rightarrow> h_Delete r (mp_Target mapping) h)
      else (case getSourceValue env record mapping recordIdx i h of
              Inl err \<Rightarrow> (Returns (Some err), h)
            | Inr None \<Rightarrow> map_fields env record recordIdx (Suc i) ms h
            | Inr (Some v) \<Rightarrow>
                (case applyTransforms env v (mp_Transforms mapping) h of
                   (Inl err, h) \<Rightarrow> (Returns (Some (handleTransformError env err mapping recordIdx i v h)), h)
                 | (Inr tv, h) \<Rightarrow>
                     (case set_record (mv_spare env) record (mp_Target mapping) tv h of
                        (NilMapPanic, h) \<Rightarrow> (NilMapPanic, h)
                      | (Returns (Some e), h) \<Rightarrow>
                          (Returns (Some (handleSetValueError env (path_gerr e) mapping recordIdx i tv h)), h)
                      | (Returns None, h) \<Rightarrow> map_fields env record recordIdx (Suc i) ms h))))"

definition mapping_processRecord ::
  "'t map_env \<Rightarrow> hval MappingModule \<Rightarrow> nat option \<Rightarrow> nat \<Rightarrow> heap \<Rightarrow> gerr option outcome_or_panic \<times> heap" where
  "mapping_processRecord env m record recordIdx h = map_fields env record recordIdx 0 (mm_mappings m) h"

subsection \<open>A batch\<close>

text \<open>\<open>AnnotateRecord\<close> on the heap: the list of markers is copied, not appended to in place.\<close>

fun unscalar :: "gval \<Rightarrow> hval" where
  "unscalar GNil = HNil"
| "unscalar (GBool b) = HBool b"
| "unscalar (GInt i) = HInt i"
| "unscalar (GFloat f) = HFloat f"
| "unscalar (GStr s) = HStr s"
| "unscalar (GOther t s) = HOther t s"
| "unscalar (GArr xs) = HNil"
| "unscalar (GMap m) = HNil"

definition h_AnnotateRecord :: "nat option \<Rightarrow> marker \<Rightarrow> heap \<Rightarrow> nat \<times> heap" where
  "h_AnnotateRecord record m h =
     (let (r, h) = (case record of None \<Rightarrow> new_map h | Some r \<Rightarrow> (r, h));
          existing = (case maps h r RecordErrorsField of Some (HArr b n) \<Rightarrow> take n (arrs h b) | _ \<Rightarrow> []);
          (c, h) = new_map h;
          h = h\<lparr>maps := (maps h)(c := map_option unscalar \<circ> marker_Map m)\<rparr>;
          (b, h) = new_arr (existing @ [HMap c]) h
      in (r, put_map r RecordErrorsField (HArr b (length existing + 1)) h))"

definition mapping_source :: "nat \<Rightarrow> marker_source" where
  "mapping_source recordIdx =
     \<lparr>ms_Module = ''mapping'', ms_RecordIndex = int recordIdx, ms_Attempts = 0,
      ms_Overrides = \<lparr>Functional = [], Technical = []\<rparr>\<rparr>"

definition h_HandleRecordError ::
  "url_env \<Rightarrow> tally option \<Rightarrow> strategy \<Rightarrow> nat option \<Rightarrow> marker_source \<Rightarrow> gerr option \<Rightarrow> heap
   \<Rightarrow> outcome \<times> nat option \<times> tally option \<times> heap" where
  "h_HandleRecordError env t strategy record src err h =
     (if strategy = OnErrorSkip then (OutcomeDrop, None, t, h)
      else if strategy = OnErrorLog then
        (let marker = NewMarker env src err;
             (r, h) = h_AnnotateRecord record marker h
         in (OutcomeKeep, Some r, tally_Record t (mk_Category marker), h))
      else if strategy = OnErrorFail then (OutcomeStop, None, t, h)
      else (OutcomeStop, None, t, h))"

fun mapping_loop ::
  "'t map_env \<Rightarrow> hval MappingModule \<Rightarrow> nat \<Rightarrow> nat option list \<Rightarrow> nat option list \<Rightarrow> tally option \<Rightarrow> heap
   \<Rightarrow> (gerr + nat option list) outcome_or_panic \<times> tally option \<times> heap" where
  "mapping_loop env m i [] result t h = (Returns (Inr result), t, h)"
| "mapping_loop env m i (r # rs) result t h =
     (case mapping_processRecord env m r i h of
        (NilMapPanic, h) \<Rightarrow> (NilMapPanic, t, h)
      | (Returns None, h) \<Rightarrow> mapping_loop env m (Suc i) rs (result @ [r]) t h
      | (Returns (Some err), h) \<Rightarrow>
          (case h_HandleRecordError (mv_url env) t (mm_onError m) r (mapping_source i) (Some err) h of
             (OutcomeStop, _, t, h) \<Rightarrow> (Returns (Inl err), t, h)
           | (OutcomeDrop, _, t, h) \<Rightarrow> mapping_loop env m (Suc i) rs result t h
           | (OutcomeKeep, marked, t, h) \<Rightarrow> mapping_loop env m (Suc i) rs (result @ [marked]) t h))"

definition mapping_Process ::
  "'t map_env \<Rightarrow> hval MappingModule \<Rightarrow> nat option list option \<Rightarrow> tally option \<Rightarrow> heap
   \<Rightarrow> (gerr + nat option list) outcome_or_panic \<times> tally option \<times> heap" where
  "mapping_Process env m records t h =
     (case records of None \<Rightarrow> (Returns (Inr []), t, h) | Some rs \<Rightarrow> mapping_loop env m 0 rs [] t h)"

subsection \<open>Mapping values: the filter without sharing\<close>

text \<open>
  The specification of the filter: on a record that is a value, with no addresses. A transform is
  given by the kind of the value it meets, and by what the parameters do on values; a mapping
  reads, transforms and writes, and the first error ends the record. The specification is
  undefined (\<open>None\<close>) where a mapping would copy a container to a container, which Go shares
  instead of copying, or take a container as its default value, which all records would share.
  How values are printed is the argument \<open>printer\<close>.
\<close>

record printer =
  pr_v :: "gval \<Rightarrow> string"
  pr_T :: "gval \<Rightarrow> string"
  pr_shown :: "gval \<Rightarrow> gval"

definition prints_by_value :: "'t map_env \<Rightarrow> printer \<Rightarrow> bool" where
  "prints_by_value env p \<longleftrightarrow>
     (\<forall>h S v g. rep h S v g \<longrightarrow> mv_fmt_v env h v = pr_v p g \<and> mv_fmt_T env v = pr_T p g \<and> mv_reify env h v = pr_shown p g)"

definition cannot :: "printer \<Rightarrow> gval \<Rightarrow> string \<Rightarrow> gerr + gval" where
  "cannot p g kind = Inl (plain_error (''cannot convert '' @ pr_T p g @ '' to '' @ kind))"

definition wrapped :: "string \<Rightarrow> gerr \<Rightarrow> gerr + gval" where
  "wrapped msg e = Inl (errorf (msg @ err_text e) e)"

definition separator_of :: "TransformConfig \<Rightarrow> string" where
  "separator_of t = (if tc_Separator t = [] then '','' else tc_Separator t)"

definition dated :: "'t map_env \<Rightarrow> TransformConfig \<Rightarrow> 't \<Rightarrow> gval" where
  "dated env t d =
     GStr (mv_time_Format env d (convertDateFormat (if tc_Format t = [] then ''2006-01-02T15:04:05'' else tc_Format t)))"

text \<open>On a text every transform but \<open>join\<close> does something.\<close>

definition text_op :: "'t map_env \<Rightarrow> printer \<Rightarrow> TransformConfig \<Rightarrow> string \<Rightarrow> gerr + gval" where
  "text_op env p t s =
     (if tc_Op t = ''trim'' then Inr (GStr (trim_space s))
      else if tc_Op t = ''lowercase'' then Inr (GStr (mv_ToLower env s))
      else if tc_Op t = ''uppercase'' then Inr (GStr (mv_ToUpper env s))
      else if tc_Op t = ''replace'' then
        Inr (GStr (case tc_CompiledPattern t of None \<Rightarrow> s | Some re \<Rightarrow> re s (tc_Replacement t)))
      else if tc_Op t = ''split'' then Inr (GArr (map (GStr \<circ> trim_space) (split_str (separator_of t) s)))
      else if tc_Op t = ''toString'' \<or> tc_Op t = ''join'' then Inr (GStr s)
      else if tc_Op t = ''toInt'' then
        (case atoi (trim_space s) of
           Some i \<Rightarrow> Inr (GInt i)
         | None \<Rightarrow> wrapped (''cannot parse int from string \"'' @ s @ ''\": '') (atoi_error ''Atoi'' (trim_space s)))
      else if tc_Op t = ''toFloat'' then
        (case mv_ParseFloat env (trim_space s) of
           Inr f \<Rightarrow> Inr (GFloat f) | Inl e \<Rightarrow> wrapped (''cannot parse float from string \"'' @ s @ ''\": '') e)
      else if tc_Op t = ''toBool'' then
        (if trim_space s \<in> {''1'', ''t'', ''T'', ''TRUE'', ''true'', ''True''} then Inr (GBool True)
         else if trim_space s \<in> {''0'', ''f'', ''F'', ''FALSE'', ''false'', ''False''} then Inr (GBool False)
         else wrapped (''cannot parse bool from string \"'' @ s @ ''\": '')
                (errorf (''strconv.ParseBool: parsing \"'' @ trim_space s @ ''\": invalid syntax'') (plain_error ''invalid syntax'')))
      else if tc_Op t = ''toArray'' then Inr (GArr [GStr s])
      else if tc_Op t = ''toObject'' then cannot p (GStr s) ''object''
      else (case filter (\<lambda>f. mv_time_Parse env f s \<noteq> None)
                   [''2006-01-02T15:04:05Z07:00'', ''2006-01-02T15:04:05'', ''2006-01-02'', ''Mon, 02 Jan 2006 15:04:05 MST''] of
              [] \<Rightarrow> Inl (plain_error (''could not parse date: '' @ s))
            | f # _ \<Rightarrow> Inr (dated env t (the (mv_time_Parse env f s)))))"

text \<open>
  A number or truth value is converted, wrapped or printed and otherwise left alone; so is a
  value of another Go type, where its type has a conversion.
\<close>

definition number_op :: "'t map_env \<Rightarrow> printer \<Rightarrow> string \<Rightarrow> gval \<Rightarrow> gerr + gval" where
  "number_op env p op g =
     (if op = ''toString'' then Inr (GStr (pr_v p g))
      else if op = ''toArray'' then Inr (GArr [g])
      else if op = ''toObject'' then cannot p g ''object''
      else (case g of
              GBool b \<Rightarrow>
                if op = ''toInt'' then Inr (GInt (if b then 1 else 0))
                else if op = ''toFloat'' then Inr (GFloat (FFin (if b then 1 else 0))) else Inr g
            | GInt i \<Rightarrow>
                if op = ''toFloat'' then Inr (GFloat (f_of_int (mv_float_ops env) i))
                else if op = ''toBool'' then Inr (GBool (i \<noteq> 0)) else Inr g
            | GFloat f \<Rightarrow>
                if op = ''toInt'' then
                  (if (case f of FFin q \<Rightarrow> of_int \<lfloor>q\<rfloor> \<noteq> q | _ \<Rightarrow> f = FNaN)
                   then Inl (plain_error (''cannot convert float with fractional part to int: '' @ pr_v p g))
                   else Inr (GInt (float_to_int64 (mv_float_ops env) f)))
                else if op = ''toBool'' then Inr (GBool (f \<noteq> FFin 0)) else Inr g
            | _ \<Rightarrow> Inr g))"

definition other_op :: "'t map_env \<Rightarrow> printer \<Rightarrow> TransformConfig \<Rightarrow> string \<Rightarrow> string \<Rightarrow> gerr + gval" where
  "other_op env p t ty s =
     (let g = GOther ty s; op = tc_Op t; number = mv_as_number env ty s; strings = mv_as_strings env ty s
      in if op = ''toString'' then
           Inr (GStr (if mv_as_bytes env ty s \<noteq> None then the (mv_as_bytes env ty s)
                      else if mv_as_time env ty s \<noteq> None
                      then mv_time_Format env (the (mv_as_time env ty s)) ''2006-01-02T15:04:05Z07:00'' else pr_v p g))
         else if op = ''toInt'' then
           (case number of
              None \<Rightarrow> cannot p g ''int''
            | Some n \<Rightarrow> if atoi n = None then wrapped ''cannot convert number to int: '' (atoi_error ''ParseInt'' n)
                        else Inr (GInt (the (atoi n))))
         else if op = ''toFloat'' then
           (case number of
              None \<Rightarrow> cannot p g ''float''
            | Some n \<Rightarrow> (case mv_ParseFloat env n of
                           Inl e \<Rightarrow> wrapped ''cannot convert number to float: '' e | Inr f \<Rightarrow> Inr (GFloat f)))
         else if op = ''toBool'' then cannot p g ''bool''
         else if op = ''toArray'' then Inr (GArr (if strings = None then [g] else map GStr (the strings)))
         else if op = ''toObject'' then
           (case mv_as_string_map env ty s of
              None \<Rightarrow> cannot p g ''object'' | Some m \<Rightarrow> Inr (GMap (\<lambda>k. map_option GStr (m k))))
         else if op = ''join'' then Inr (if strings = None then g else GStr (join_str (separator_of t) (the strings)))
         else if op = ''dateFormat'' then Inr (case mv_as_time env ty s of None \<Rightarrow> g | Some d \<Rightarrow> dated env t d)
         else Inr g)"

definition container_op :: "printer \<Rightarrow> TransformConfig \<Rightarrow> gval \<Rightarrow> gerr + gval" where
  "container_op p t g =
     (let op = tc_Op t
      in if op = ''toInt'' then cannot p g ''int''
         else if op = ''toFloat'' then cannot p g ''float''
         else if op = ''toBool'' then cannot p g ''bool''
         else if op = ''toString'' then Inr (GStr (pr_v p g))
         else (case g of
                 GArr xs \<Rightarrow> if op = ''join'' then Inr (GStr (join_str (separator_of t) (map (pr_v p) xs)))
                            else if op = ''toObject'' then cannot p g ''object'' else Inr g
               | _ \<Rightarrow> if op = ''toArray'' then Inr (GArr [g]) else Inr g))"

definition v_transform :: "'t map_env \<Rightarrow> printer \<Rightarrow> TransformConfig \<Rightarrow> gval \<Rightarrow> gerr + gval" where
  "v_transform env p t g =
     (if g = GNil then Inr GNil
      else if tc_Op t \<notin> set supportedTransformOps then
        Inl (errorf (''invalid mapping configuration: unknown transform op \"'' @ tc_Op t @ ''\"'')
               (plain_error ''invalid mapping configuration''))
      else (case g of
              GStr s \<Rightarrow> text_op env p t s
            | GOther ty s \<Rightarrow> other_op env p t ty s
            | GArr xs \<Rightarrow> container_op p t g
            | GMap m \<Rightarrow> container_op p t g
            | _ \<Rightarrow> number_op env p (tc_Op t) g))"

fun v_transforms :: "'t map_env \<Rightarrow> printer \<Rightarrow> TransformConfig list \<Rightarrow> gval \<Rightarrow> string \<times> string + gval" where
  "v_transforms env p [] g = Inr g"
| "v_transforms env p (t # ts) g =
     (case v_transform env p t g of
        Inl e \<Rightarrow> Inl (tc_Op t, ''transform \"'' @ tc_Op t @ ''\" failed: '' @ err_text e)
      | Inr g' \<Rightarrow> v_transforms env p ts g')"

text \<open>The error of a mapping: a validation error that says which mapping of which record failed on what.\<close>

definition v_error ::
  "printer \<Rightarrow> string \<Rightarrow> string \<Rightarrow> 'v MappingConfig \<Rightarrow> nat \<Rightarrow> nat \<Rightarrow> gval \<Rightarrow> string \<Rightarrow> gerr" where
  "v_error p code message c r i g op =
     NodeE KPlain message None
       (Some \<lparr>me_code = code, me_module = ''mapping'', me_index = int r,
              me_details = (\<lambda>k.
                if k = ''source_field'' then Some (GStr (mp_Source c))
                else if k = ''target_field'' then Some (GStr (mp_Target c))
                else if k = ''mapping_index'' then Some (GInt (int i))
                else if k = ''transform_op'' \<and> op \<noteq> [] then Some (GStr op)
                else if k = ''source_value'' \<and> g \<noteq> GNil then Some (pr_shown p g) else None)\<rparr>)
       (Some (Some (Classified CategoryValidation False 0 message None))) [] False"

text \<open>What a mapping reads: an error, nothing to do, or a value; undefined for a container as default.\<close>

definition v_source ::
  "printer \<Rightarrow> grecord \<Rightarrow> hval MappingConfig \<Rightarrow> nat \<Rightarrow> nat \<Rightarrow> (gerr + gval option) option" where
  "v_source p m c r i =
     (let found = Get m (mp_Source c)
      in if found \<noteq> None \<and> found \<noteq> Some GNil then Some (Inr found)
         else if mp_OnMissing c = ''setNull'' then Some (Inr (Some GNil))
         else if mp_OnMissing c = ''skipField'' then Some (Inr None)
         else if mp_OnMissing c = ''useDefault'' then map_option (Inr \<circ> Some) (scalar (mp_DefaultValue c))
         else if mp_OnMissing c = ''fail'' then
           Some (Inl (v_error p ''MISSING_FIELD''
             (''missing required field \"'' @ mp_Source c @ ''\" for target \"'' @ mp_Target c @ ''\"'' @ at_indices r i) c r i GNil []))
         else Some (Inr found))"

definition container :: "gval \<Rightarrow> bool" where
  "container g \<longleftrightarrow> as_map g \<noteq> None \<or> as_arr g \<noteq> None"

fun v_fields ::
  "'t map_env \<Rightarrow> printer \<Rightarrow> nat \<Rightarrow> nat \<Rightarrow> hval MappingConfig list \<Rightarrow> grecord \<Rightarrow> (gerr option \<times> grecord) option" where
  "v_fields env p r i [] m = Some (None, m)"
| "v_fields env p r i (c # cs) m =
     (if mp_Source c = [] then v_fields env p r (Suc i) cs (Delete m (mp_Target c))
      else (case v_source p m c r i of
              None \<Rightarrow> None
            | Some (Inl err) \<Rightarrow> Some (Some err, m)
            | Some (Inr None) \<Rightarrow> v_fields env p r (Suc i) cs m
            | Some (Inr (Some g)) \<Rightarrow>
                (case v_transforms env p (mp_Transforms c) g of
                   Inl (op, text) \<Rightarrow>
                     Some (Some (v_error p
                       (if op \<in> {''toString'', ''toInt'', ''toFloat'', ''toBool'', ''toArray'', ''toObject''}
                        then ''TYPE_CONVERSION'' else ''TRANSFORM_FAILED'')
                       (''transform failed for field \"'' @ mp_Source c @ ''\" -> \"'' @ mp_Target c @ ''\"''
                        @ at_indices r i @ '': '' @ text) c r i g op), m)
                 | Inr g' \<Rightarrow>
                     if container g \<and> container g' then None
                     else (case Set m (mp_Target c) g' of
                             (Some e, m) \<Rightarrow>
                               Some (Some (v_error p ''NESTED_PATH_FAILED''
                                 (''failed to set target field \"'' @ mp_Target c @ ''\"'' @ at_indices r i @ '': ''
                                  @ err_text (path_gerr e)) c r i g' []), m)
                           | (None, m) \<Rightarrow> v_fields env p r (Suc i) cs m))))"

subsection \<open>The transforms refine their specification\<close>

text \<open>\<open>gives h T x y\<close>: run in \<open>h\<close> on a value made of \<open>T\<close>, the outcome \<open>x\<close> on the heap is \<open>y\<close>, and only new cells are written.\<close>

definition gives :: "heap \<Rightarrow> nat set \<Rightarrow> (gerr + hval) \<times> heap \<Rightarrow> gerr + gval \<Rightarrow> bool" where
  "gives h T x y \<longleftrightarrow>
     (case y of
        Inl e \<Rightarrow> x = (Inl e, h)
      | Inr g \<Rightarrow> (\<exists>w h' T'. x = (Inr w, h') \<and> rep h' T' w g \<and> T' \<subseteq> T \<union> {fresh h..<fresh h'} \<and> changes {} h h'))"

lemma gives_error [simp]: "gives h T (Inl e, h) (Inl e)"
  by (simp add: gives_def)

lemma gives_same: "rep h T v g \<Longrightarrow> gives h T (Inr v, h) (Inr g)"
  unfolding gives_def by auto

lemma gives_scalar: "scalar w = Some g \<Longrightarrow> gives h T (Inr w, h) (Inr g)"
  unfolding gives_def by (auto intro!: exI [of _ "{}"] rep_scalar)

lemma gives_scalars [simp]:
  "gives h T (Inr HNil, h) (Inr GNil)" "gives h T (Inr (HStr s), h) (Inr (GStr s))" "gives h T (Inr (HInt i), h) (Inr (GInt i))"
  "gives h T (Inr (HBool b), h) (Inr (GBool b))" "gives h T (Inr (HFloat f), h) (Inr (GFloat f))"
  "gives h T (Inr (HOther ty s), h) (Inr (GOther ty s))"
  by (simp_all add: gives_scalar)

lemma changes_new:
  "changes {} h (snd (new_arr xs h))" "changes {} h (h\<lparr>maps := (maps h)(fresh h := m), fresh := fresh h + 1\<rparr>)"
  by (auto simp: changes_iff new_arr_def)

lemma gives_list:
  assumes "new_arr vs h = (a, h')" "list_all2 (\<lambda>v g. scalar v = Some g) vs gs"
  shows "gives h T (Inr (HArr a (length vs)), h') (Inr (GArr gs))"
proof -
  have a: "a = fresh h" "fresh h' = fresh h + 1" "arrs h' a = vs" using assms(1) by (auto simp: new_arr_def)
  have "rep h' (insert a (\<Union>i::nat. {})) (HArr a (length vs)) (GArr gs)"
    by (rule rep_arr [where S = "\<lambda>_. {}"]) (use a assms(2) in \<open>auto simp: apart_def list_all2_conv_all_nth intro: rep_scalar\<close>)
  moreover have "changes {} h h'" using changes_new(1) [of h vs] assms(1) by simp
  ultimately show ?thesis using a unfolding gives_def by (auto intro!: exI [of _ "{fresh h}"])
qed

lemma gives_strings: "new_arr (map HStr ss) h = (a, h') \<Longrightarrow> gives h T (Inr (HArr a (length ss)), h') (Inr (GArr (map GStr ss)))"
  using gives_list [of "map HStr ss" h a h' "map GStr ss" T] by (simp add: list_all2_conv_all_nth)

lemma gives_one:
  assumes "new_arr [v] h = (a, h')" "rep h T v g"
  shows "gives h T (Inr (HArr a (Suc 0)), h') (Inr (GArr [g]))"
proof -
  have a: "a = fresh h" "fresh h' = fresh h + 1" "arrs h' a = [v]" using assms(1) by (auto simp: new_arr_def)
  have c: "changes {} h h'" using changes_new(1) [of h "[v]"] assms(1) by simp
  have v: "rep h' T v g" by (rule rep_changes [OF assms(2) c]) simp
  have "rep h' (insert a (\<Union>i. (\<lambda>i::nat. if i = 0 then T else {}) i)) (HArr a 1) (GArr [g])"
    by (rule rep_arr [where S = "\<lambda>i. if i = 0 then T else {}"]) (use a v rep_below [OF assms(2)] in \<open>auto simp: apart_def split: if_splits\<close>)
  moreover have "(\<Union>i. (\<lambda>i::nat. if i = 0 then T else {}) i) = T" by (auto split: if_splits)
  ultimately have "rep h' (insert a T) (HArr a (Suc 0)) (GArr [g])" by (metis One_nat_def)
  with a c show ?thesis unfolding gives_def by (auto intro!: exI [of _ "insert (fresh h) T"])
qed

lemma gives_map:
  "gives h T (Inr (HMap (fresh h)), h\<lparr>maps := (maps h)(fresh h := map_option HStr \<circ> m), fresh := fresh h + 1\<rparr>)
     (Inr (GMap (\<lambda>k. map_option GStr (m k))))"
proof -
  let ?h = "h\<lparr>maps := (maps h)(fresh h := map_option HStr \<circ> m), fresh := fresh h + 1\<rparr>"
  have "rep ?h (insert (fresh h) (\<Union>k::string. {})) (HMap (fresh h)) (GMap (\<lambda>k. map_option GStr (m k)))"
    by (rule rep_map [where S = "\<lambda>_. {}"]) (auto simp: apart_def intro!: rep_scalar)
  with changes_new(2) [of h "map_option HStr \<circ> m"] show ?thesis unfolding gives_def by (auto intro!: exI [of _ "{fresh h}"])
qed

lemma first_some_filter:
  "first_some f xs = (case filter (\<lambda>x. f x \<noteq> None) xs of [] \<Rightarrow> None | x # _ \<Rightarrow> f x)"
  by (induction xs) auto

lemma date_refines:
  "applyDateFormat env (HStr s) (tc_Format t) =
     (case filter (\<lambda>f. mv_time_Parse env f s \<noteq> None)
             [''2006-01-02T15:04:05Z07:00'', ''2006-01-02T15:04:05'', ''2006-01-02'', ''Mon, 02 Jan 2006 15:04:05 MST''] of
        [] \<Rightarrow> Inl (plain_error (''could not parse date: '' @ s))
      | f # _ \<Rightarrow> Inr (unscalar (dated env t (the (mv_time_Parse env f s)))))"
  by (auto simp: applyDateFormat_def inputFormats_def dated_def Let_def split: option.split)

lemmas transform_steps = applyTransformOp_def Let_def applyTrim_def applyLowercase_def applyUppercase_def applyToString_def
  applyReplace_def applyToInt_def applyToFloat_def applyToBool_def applyJoin_def applyToObject_def ParseBool_def

lemma text_op_refines:
  assumes "prints_by_value env p" "tc_Op t \<in> set supportedTransformOps"
  shows "gives h T (applyTransformOp env (HStr s) t h) (text_op env p t s)"
proof -
  have T: "mv_fmt_T env (HStr s) = pr_T p (GStr s)" using assms(1) rep_scalar [of "HStr s" "GStr s" h] by (auto simp: prints_by_value_def)
  obtain a h1 where n: "new_arr (map (\<lambda>q. HStr (trim_space q)) (split_str (separator_of t) s)) h = (a, h1)" by (meson surj_pair)
  obtain b h2 where o: "new_arr [HStr s] h = (b, h2)" by (meson surj_pair)
  from gives_strings [of "map trim_space (split_str (separator_of t) s)" h a h1 T] n
  have sp: "gives h T (Inr (HArr a (length (split_str (separator_of t) s))), h1) (Inr (GArr (map (GStr \<circ> trim_space) (split_str (separator_of t) s))))"
    by (simp add: comp_def)
  have on: "gives h T (Inr (HArr b (Suc 0)), h2) (Inr (GArr [GStr s]))" using gives_strings [of "[s]" h b h2 T] o by simp
  from assms(2) show ?thesis unfolding supportedTransformOps_def list.set
    by (elim insertE emptyE)
      (simp_all add: text_op_def transform_steps applySplit_def applyToArray_def n [unfolded separator_of_def] sp [unfolded separator_of_def]
        separator_of_def o on wrapped_def cannot_def T date_refines dated_def split: option.split sum.split list.split)
qed

lemma number_op_refines:
  assumes "prints_by_value env p" "tc_Op t \<in> set supportedTransformOps" "scalar v = Some g" "v \<noteq> HNil"
    "\<And>s. v \<noteq> HStr s" "\<And>ty s. v \<noteq> HOther ty s"
  shows "gives h T (applyTransformOp env v t h) (number_op env p (tc_Op t) g)"
proof -
  have T: "mv_fmt_T env v = pr_T p g" "mv_fmt_v env h v = pr_v p g"
    using assms(1) rep_scalar [OF assms(3), of h] by (auto simp: prints_by_value_def)
  obtain b h2 where o: "new_arr [v] h = (b, h2)" by (meson surj_pair)
  note on = gives_one [OF o rep_scalar [OF assms(3)]]
  have on: "gives h T (Inr (HArr b (Suc 0)), h2) (Inr (GArr [g]))" using on by (auto simp: gives_def)
  have tr: "of_int (trunc_rat q) = q \<longleftrightarrow> of_int \<lfloor>q\<rfloor> = q" for q
    by (metis ceiling_of_int floor_of_int trunc_rat_def)
  from assms(2) show ?thesis unfolding supportedTransformOps_def list.set
    by (elim insertE emptyE; cases v)
      (use assms(3-6) T o on tr in \<open>auto simp: number_op_def transform_steps applySplit_def applyToArray_def applyDateFormat_def
         cannot_def gives_same [OF rep_scalar] split: go_float.split\<close>)
qed

lemma other_op_refines:
  assumes "prints_by_value env p" "tc_Op t \<in> set supportedTransformOps"
  shows "gives h T (applyTransformOp env (HOther ty s) t h) (other_op env p t ty s)"
proof -
  have r: "rep h {} (HOther ty s) (GOther ty s)" by (simp add: rep_scalar)
  have T: "mv_fmt_T env (HOther ty s) = pr_T p (GOther ty s)" "mv_fmt_v env h (HOther ty s) = pr_v p (GOther ty s)"
    using assms(1) r by (auto simp: prints_by_value_def)
  have ss: "gives h T (Inr (HArr a (length ss)), h1) (Inr (GArr (map GStr ss)))" if "new_arr (map HStr ss) h = (a, h1)" for a h1 ss
    by (rule gives_strings [OF that])
  have on: "gives h T (Inr (HArr a (Suc 0)), h1) (Inr (GArr [GOther ty s]))" if "new_arr [HOther ty s] h = (a, h1)" for a h1
    using gives_list [OF that, of "[GOther ty s]" T] by simp
  have mp: "gives h T (Inr (HMap (fresh h)), h\<lparr>fresh := Suc (fresh h), maps := (maps h)(fresh h := map_option HStr \<circ> m)\<rparr>)
     (Inr (GMap (\<lambda>k. map_option GStr (m k))))" for m
  proof -
    have "h\<lparr>fresh := Suc (fresh h), maps := (maps h)(fresh h := map_option HStr \<circ> m)\<rparr>
        = h\<lparr>maps := (maps h)(fresh h := map_option HStr \<circ> m), fresh := fresh h + 1\<rparr>" by simp
    with gives_map [of h T m] show ?thesis by (simp only:)
  qed
  from assms(2) show ?thesis unfolding supportedTransformOps_def list.set
    by (elim insertE emptyE)
      (auto simp: other_op_def transform_steps applySplit_def applyToArray_def applyDateFormat_def dated_def wrapped_def cannot_def
         separator_of_def T new_map_def intro: ss on mp split: option.split sum.split prod.split)
qed

lemma container_op_refines:
  assumes "prints_by_value env p" "tc_Op t \<in> set supportedTransformOps" "rep h T v g" "container g"
  shows "gives h T (applyTransformOp env v t h) (container_op p t g)"
proof -
  have T: "mv_fmt_T env v = pr_T p g" "mv_fmt_v env h v = pr_v p g"
    using assms(1,3) by (auto simp: prints_by_value_def)
  obtain b h2 where o: "new_arr [v] h = (b, h2)" by (meson surj_pair)
  note on = gives_one [OF o assms(3)]
  note same = gives_same [OF assms(3)]
  from assms(3) show ?thesis
  proof (cases rule: rep.cases)
    case rep_scalar
    with assms(4) show ?thesis by (simp add: container_def scalar_not_container)
  next
    case (rep_map a S m)
    from assms(2) show ?thesis unfolding supportedTransformOps_def list.set
      by (elim insertE emptyE)
        (use rep_map(2,3) T o on same in \<open>simp_all add: container_op_def transform_steps applySplit_def applyToArray_def
           applyDateFormat_def cannot_def\<close>)
  next
    case (rep_arr a S n gs)
    have "mv_fmt_v env h (arrs h a ! i) = pr_v p (gs ! i)" if "i < n" for i
      using assms(1) rep_arr(10) that unfolding prints_by_value_def by blast
    then have "map (mv_fmt_v env h) (take n (arrs h a)) = map (pr_v p) gs"
      by (intro nth_equalityI) (use rep_arr(7,8) in auto)
    moreover from assms(2) show ?thesis unfolding supportedTransformOps_def list.set
      by (elim insertE emptyE)
        (use rep_arr(2,3) T same calculation in \<open>simp_all add: container_op_def transform_steps applySplit_def applyToArray_def
           applyDateFormat_def cannot_def separator_of_def\<close>)
  qed
qed

lemma transform_refines:
  assumes "prints_by_value env p" "rep h T v g"
  shows "gives h T (applyTransformOp env v t h) (v_transform env p t g)"
proof (cases "g = GNil")
  case True
  with assms(2) have "v = HNil" by (cases rule: rep.cases) (auto elim: scalar.elims)
  with True show ?thesis by (simp add: v_transform_def applyTransformOp_def)
next
  case g: False
  show ?thesis
  proof (cases "tc_Op t \<in> set supportedTransformOps")
    case op: True
    show ?thesis
    proof (cases "container g")
      case True
      with g op container_op_refines [OF assms(1) op assms(2) True] show ?thesis
        by (cases g) (auto simp: v_transform_def container_def as_map_def as_arr_def)
    next
      case False
      with assms(2) have s: "scalar v = Some g"
        by (cases rule: rep.cases) (auto simp: container_def as_map_def as_arr_def)
      with g op text_op_refines [OF assms(1) op] other_op_refines [OF assms(1) op] number_op_refines [OF assms(1) op s]
      show ?thesis by (cases v) (auto simp: v_transform_def)
    qed
  next
    case False
    then have "applyTransformOp env v t h = (Inl (errorf (''invalid mapping configuration: unknown transform op \"'' @ tc_Op t @ ''\"'')
       (plain_error ''invalid mapping configuration'')), h)" if "v \<noteq> HNil"
      using that by (auto simp: applyTransformOp_def supportedTransformOps_def)
    moreover have "v \<noteq> HNil" using g assms(2) by (auto elim: rep_scalarE)
    ultimately show ?thesis using g False by (simp add: v_transform_def)
  qed
qed

lemma transforms_refine:
  assumes "prints_by_value env p" "rep h T v g"
  shows "case v_transforms env p ts g of
      Inl e \<Rightarrow> \<exists>h'. applyTransforms env v ts h = (Inl e, h') \<and> changes {} h h'
    | Inr g' \<Rightarrow> \<exists>w h' T'. applyTransforms env v ts h = (Inr w, h') \<and> rep h' T' w g' \<and> T' \<subseteq> T \<union> {fresh h..<fresh h'}
        \<and> changes {} h h'"
  using assms(2)
proof (induction ts arbitrary: h T v g)
  case Nil
  then show ?case by auto
next
  case (Cons t ts)
  note step = transform_refines [OF assms(1) Cons.prems, of t]
  show ?case
  proof (cases "v_transform env p t g")
    case (Inl e)
    with step show ?thesis by (auto simp: gives_def)
  next
    case (Inr g')
    with step obtain w h' T' where s: "applyTransformOp env v t h = (Inr w, h')" "rep h' T' w g'" "T' \<subseteq> T \<union> {fresh h..<fresh h'}"
      "changes {} h h'" by (auto simp: gives_def)
    note f = changes_fresh [OF s(4)]
    have ch: "changes {} h h''" if "changes {} h' h''" for h'' by (rule changes_trans [OF s(4) that]) simp
    have sub: "T'' \<subseteq> T \<union> {fresh h..<fresh h''}" if "T'' \<subseteq> T' \<union> {fresh h'..<fresh h''}" "changes {} h' h''" for T'' h''
      using that s(3) f changes_fresh [OF that(2)] by fastforce
    show ?thesis
    proof (cases "v_transforms env p ts g'")
      case (Inl e)
      with Cons.IH [OF s(2)] obtain h'' where "applyTransforms env w ts h' = (Inl e, h'')" "changes {} h' h''" by auto
      with Inl \<open>v_transform env p t g = Inr g'\<close> s(1) ch show ?thesis by simp
    next
      case (Inr g'')
      with Cons.IH [OF s(2)] obtain w' h'' T'' where r: "applyTransforms env w ts h' = (Inr w', h'')" "rep h'' T'' w' g''"
        "T'' \<subseteq> T' \<union> {fresh h'..<fresh h''}" "changes {} h' h''" by auto
      from sub [OF r(3,4)] ch [OF r(4)] r(1,2) Inr \<open>v_transform env p t g = Inr g'\<close> s(1) show ?thesis by auto
    qed
  qed
qed

subsection \<open>The filter refines its specification\<close>

lemma rep_plain: "rep h S v g \<Longrightarrow> \<not> container g \<Longrightarrow> S = {}"
  by (cases rule: rep.cases) (auto simp: container_def as_map_def as_arr_def)

lemma rep_nil: "rep h S v g \<Longrightarrow> v = HNil \<longleftrightarrow> g = GNil"
  by (cases rule: rep.cases) (auto elim: scalar.elims)

lemma error_refines:
  assumes "prints_by_value env p" "rep h S v g"
  shows "newMappingError env code msg c r i v op h = v_error p code msg c r i g op"
  using assms rep_nil [OF assms(2)]
  by (auto simp: newMappingError_def v_error_def MappingError_Details_def Let_def prints_by_value_def fun_eq_iff)

lemma source_refines:
  assumes "prints_by_value env p" "rep h S (HMap a) (GMap m)" "v_source p m c r i = Some x"
  shows "case x of
      Inl e \<Rightarrow> getSourceValue env (Some a) c r i h = Inl e
    | Inr None \<Rightarrow> getSourceValue env (Some a) c r i h = Inr None
    | Inr (Some g) \<Rightarrow> \<exists>v T. getSourceValue env (Some a) c r i h = Inr (Some v) \<and> rep h T v g \<and> T \<subseteq> S"
proof -
  note g = Get_refines [OF assms(2), of "mp_Source c"]
  note e = error_refines [OF assms(1) rep_scalar [of HNil GNil h], simplified]
  have d: "scalar v = Some g \<Longrightarrow> \<exists>T. rep h T v g \<and> T \<subseteq> S" for v g by (auto intro: rep_scalar)
  have n: "\<exists>T. rep h T HNil GNil \<and> T \<subseteq> S" by (rule d) simp
  show ?thesis
  proof (cases "h_Get h a (mp_Source c)")
    case None
    with g have "Get m (mp_Source c) = None" by simp
    with None assms(3) e n d show ?thesis by (auto simp: v_source_def getSourceValue_def Let_def split: if_splits)
  next
    case (Some w)
    with g obtain gw C where gw: "Get m (mp_Source c) = Some gw" "rep h C w gw" "C \<subseteq> S" by auto
    show ?thesis
    proof (cases "gw = GNil")
      case True
      with rep_nil [OF gw(2)] Some gw(1) assms(3) e n d show ?thesis
        by (auto simp: v_source_def getSourceValue_def Let_def split: if_splits)
    next
      case False
      with rep_nil [OF gw(2)] Some gw assms(3) show ?thesis by (auto simp: v_source_def getSourceValue_def Let_def)
    qed
  qed
qed

lemma write_refines:
  assumes "rep h S (HMap a) (GMap m)" "rep h T v g" "T \<subseteq> S" "\<not> (container g \<and> container g')"
    "rep h1 T' w g'" "T' \<subseteq> T \<union> {fresh h..<fresh h1}" "changes {} h h1"
  shows "case Set m path g' of (er, m1) \<Rightarrow> \<exists>h2 S2. h_Set spare a path w h1 = (er, h2) \<and> rep h2 S2 (HMap a) (GMap m1)
    \<and> S2 \<subseteq> S \<union> {fresh h..<fresh h2} \<and> changes S h h2 \<and> rep h2 T' w g'"
proof -
  have new: "T' \<subseteq> {fresh h..<fresh h1}"
    using assms(4,6) rep_plain [OF assms(2)] rep_plain [OF assms(5)] by auto
  then have dis: "S \<inter> T' = {}" using rep_below [OF assms(1)] by fastforce
  have root: "rep h1 S (HMap a) (GMap m)" by (rule rep_changes [OF assms(1,7)]) simp
  obtain er h2 where run: "h_Set spare a path w h1 = (er, h2)" by (meson surj_pair)
  from Set_refines [OF root assms(5) dis run] obtain S2 where s: "er = fst (Set m path g')" "changes S h1 h2"
    "S2 \<subseteq> S \<union> T' \<union> {fresh h1..<fresh h2}" "rep h2 S2 (HMap a) (GMap (snd (Set m path g')))" by auto
  have "S2 \<subseteq> S \<union> {fresh h..<fresh h2}"
    using s(3) new changes_fresh [OF assms(7)] changes_fresh [OF s(2)] by fastforce
  moreover have "changes S h h2"
    by (rule changes_trans [OF changes_mono [OF assms(7)] s(2)]) auto
  ultimately show ?thesis using s(1,4) run rep_changes [OF assms(5) s(2) dis] by (auto split: prod.split)
qed

lemma map_fields_refines:
  assumes env: "prints_by_value env p"
    and "rep h S (HMap a) (GMap m)" "v_fields env p r i ms m = Some (e, m')"
  shows "\<exists>h' S'. map_fields env (Some a) r i ms h = (Returns e, h') \<and> rep h' S' (HMap a) (GMap m')
    \<and> S' \<subseteq> S \<union> {fresh h..<fresh h'} \<and> changes S h h'"
  using assms(2,3)
proof (induction ms arbitrary: i h S m)
  case Nil
  then show ?case by auto
next
  case (Cons c ms)
  have step: "\<exists>h' S'. map_fields env (Some a) r (Suc i) ms h1 = (Returns e, h') \<and> rep h' S' (HMap a) (GMap m')
      \<and> S' \<subseteq> S \<union> {fresh h..<fresh h'} \<and> changes S h h'"
    if "rep h1 S1 (HMap a) (GMap m1)" "S1 \<subseteq> S \<union> {fresh h..<fresh h1}" "changes S h h1"
      "v_fields env p r (Suc i) ms m1 = Some (e, m')" for h1 S1 m1
  proof -
    from Cons.IH [OF that(1,4)] obtain h' S' where
      x: "map_fields env (Some a) r (Suc i) ms h1 = (Returns e, h')" "rep h' S' (HMap a) (GMap m')"
         "S' \<subseteq> S1 \<union> {fresh h1..<fresh h'}" "changes S1 h1 h'" by auto
    have "changes S h h'" by (rule changes_trans [OF that(3) x(4)]) (use that(2) in auto)
    moreover have "S' \<subseteq> S \<union> {fresh h..<fresh h'}"
      using x(3) that(2) changes_fresh [OF that(3)] changes_fresh [OF x(4)] by fastforce
    ultimately show ?thesis using x by blast
  qed
  show ?case
  proof (cases "mp_Source c = []")
    case True
    from Delete_refines [OF Cons.prems(1), of "mp_Target c"] obtain S1 where
      d: "changes S h (h_Delete a (mp_Target c) h)" "S1 \<subseteq> S"
        "rep (h_Delete a (mp_Target c) h) S1 (HMap a) (GMap (Delete m (mp_Target c)))" by blast
    with step [OF d(3)] Cons.prems(2) True show ?thesis by auto
  next
    case src: False
    then obtain x where x: "v_source p m c r i = Some x"
      using Cons.prems(2) by (cases "v_source p m c r i") auto
    note read = source_refines [OF env Cons.prems(1) x]
    consider err where "x = Inl err" | "x = Inr None" | g where "x = Inr (Some g)"
      by (metis sum.exhaust option.exhaust)
    then show ?thesis
    proof cases
      case 1
      with Cons.prems src x read show ?thesis by auto
    next
      case 2
      with Cons.prems src x read step [OF Cons.prems(1)] show ?thesis by auto
    next
      case (3 g)
      with read obtain v T where v: "getSourceValue env (Some a) c r i h = Inr (Some v)" "rep h T v g" "T \<subseteq> S" by auto
      note tr = transforms_refine [OF env v(2), of "mp_Transforms c"]
      show ?thesis
      proof (cases "v_transforms env p (mp_Transforms c) g")
        case (Inl q)
        obtain op msg where q: "q = (op, msg)" by (cases q)
        from Inl q tr obtain h1 where h1: "applyTransforms env v (mp_Transforms c) h = (Inl (op, msg), h1)" "changes {} h h1" by auto
        have g1: "rep h1 T v g" and r1: "rep h1 S (HMap a) (GMap m)"
          by (rule rep_changes [OF v(2) h1(2)], simp) (rule rep_changes [OF Cons.prems(1) h1(2)], simp)
        from Cons.prems(2) src x 3 Inl q
        have "e = Some (handleTransformError env (op, msg) c r i v h1)" "m' = m"
          by (auto simp: handleTransformError_def error_refines [OF env g1] typeConversionOps_def)
        then show ?thesis using h1(1) src v(1) r1 changes_mono [OF h1(2), of S] by auto
      next
        case (Inr g')
        with tr obtain w h1 T' where t: "applyTransforms env v (mp_Transforms c) h = (Inr w, h1)" "rep h1 T' w g'"
          "T' \<subseteq> T \<union> {fresh h..<fresh h1}" "changes {} h h1" by auto
        have nc: "\<not> (container g \<and> container g')" using Cons.prems(2) src x 3 Inr by auto
        obtain er m1 where vset: "Set m (mp_Target c) g' = (er, m1)" by (meson surj_pair)
        from write_refines [OF Cons.prems(1) v(2,3) nc t(2-4), of "mv_spare env" "mp_Target c"] vset
        obtain h2 S2 where w: "h_Set (mv_spare env) a (mp_Target c) w h1 = (er, h2)" "rep h2 S2 (HMap a) (GMap m1)"
          "S2 \<subseteq> S \<union> {fresh h..<fresh h2}" "changes S h h2" "rep h2 T' w g'" by auto
        show ?thesis
        proof (cases er)
          case None
          with Cons.prems(2) src x 3 Inr vset nc have "v_fields env p r (Suc i) ms m1 = Some (e, m')" by simp
          from step [OF w(2-4) this] show ?thesis using src v(1) t(1) w(1) None by (simp add: set_record_def)
        next
          case (Some pe)
          with Cons.prems(2) src x 3 Inr vset nc
          have "e = Some (handleSetValueError env (path_gerr pe) c r i w h2)" "m' = m1"
            by (auto simp: handleSetValueError_def error_refines [OF env w(5)])
          then show ?thesis using src v(1) t(1) w Some by (auto simp: set_record_def)
        qed
      qed
    qed
  qed
qed

subsection \<open>Facts\<close>

lemma parse_mappings_accepted:
  "parse_mappings compile i ms = Inr cs \<Longrightarrow> c \<in> set cs
   \<Longrightarrow> ValidateRecordTarget (mp_Target c) = None \<and> mp_Target c \<noteq> []"
proof (induction ms arbitrary: i cs)
  case (Cons m ms)
  from Cons.prems(1) obtain c0 cs0 where p: "parseMappingConfig compile m i = Inr c0"
    "parse_mappings compile (Suc i) ms = Inr cs0" "cs = c0 # cs0" by (auto split: sum.splits)
  have "ValidateRecordTarget (mp_Target c0) = None \<and> mp_Target c0 \<noteq> []"
    using p(1) by (auto simp: parseMappingConfig_def split: if_splits option.splits sum.splits)
  with Cons.IH [OF p(2)] Cons.prems(2) p(3) show ?case by auto
qed simp

definition accepted_mapping :: "'v MappingModule \<Rightarrow> bool" where
  "accepted_mapping m \<longleftrightarrow> (\<exists>compile ms onError. NewMappingFromConfig compile ms onError = Inr m)"

lemma accepted_mapping_target:
  "accepted_mapping m \<Longrightarrow> c \<in> set (mm_mappings m) \<Longrightarrow> ValidateRecordTarget (mp_Target c) = None \<and> mp_Target c \<noteq> []"
proof -
  assume a: "accepted_mapping m" and c: "c \<in> set (mm_mappings m)"
  then obtain compile ms onError where "NewMappingFromConfig compile ms onError = Inr m"
    unfolding accepted_mapping_def by blast
  then have "parse_mappings compile 0 ms = Inr (mm_mappings m)"
    by (auto simp: NewMappingFromConfig_def split: sum.splits)
  from parse_mappings_accepted [OF this c] show ?thesis .
qed

lemma v_fields_frame:
  assumes "v_fields env p r i ms m = Some (e, m')" "\<forall>c \<in> set ms. k \<noteq> seg_key (takeWhile (\<lambda>c. c \<noteq> CHR ''.'') (mp_Target c))"
  shows "m' k = m k"
  using assms
proof (induction ms arbitrary: i m)
  case (Cons c ms)
  have k: "k \<noteq> seg_key (takeWhile (\<lambda>c. c \<noteq> CHR ''.'') (mp_Target c))" using Cons.prems(2) by simp
  have rest: "v_fields env p r j ms m1 = Some (e, m') \<Longrightarrow> m1 k = m k \<Longrightarrow> m' k = m k" for j m1
    using Cons.IH [of j m1] Cons.prems(2) by simp
  have set: "Set m (mp_Target c) g = (er, m1) \<Longrightarrow> m1 k = m k" for g er m1
    using Set_root_frame [OF k, of m g] by simp
  show ?case
  proof (cases "mp_Source c = []")
    case True
    with Cons.prems(1) have "v_fields env p r (Suc i) ms (Delete m (mp_Target c)) = Some (e, m')" by simp
    then show ?thesis by (rule rest) (rule Delete_root_frame [OF k])
  next
    case False
    with Cons.prems(1) show ?thesis
      by (auto split: option.splits sum.splits prod.splits if_splits intro: rest set dest!: set)
  qed
qed simp

text \<open>Every error of the filter is a \<open>MappingError\<close>.\<close>

definition mapping_codes :: "string list" where
  "mapping_codes = [''MISSING_FIELD'', ''TYPE_CONVERSION'', ''TRANSFORM_FAILED'', ''NESTED_PATH_FAILED'']"

definition mapping_error :: "'t map_env \<Rightarrow> nat \<Rightarrow> gerr \<Rightarrow> bool" where
  "mapping_error env r err \<longleftrightarrow>
     (\<exists>code \<in> set mapping_codes. \<exists>msg (c :: hval MappingConfig) j v op h. err = newMappingError env code msg c r j v op h)"

lemma mapping_errorI: "code \<in> set mapping_codes \<Longrightarrow> mapping_error env r (newMappingError env code msg (c :: hval MappingConfig) r j v op h)"
  unfolding mapping_error_def by blast

lemma step_errors:
  "getSourceValue env record c r i h = Inl err \<Longrightarrow> mapping_error env r err"
  "mapping_error env r (handleTransformError env e c r i v h)"
  "mapping_error env r (handleSetValueError env q c r i v h)"
proof -
  show "getSourceValue env record c r i h = Inl err \<Longrightarrow> mapping_error env r err"
    by (auto simp: getSourceValue_def Let_def mapping_codes_def intro!: mapping_errorI split: if_splits)
  show "mapping_error env r (handleTransformError env e c r i v h)"
    unfolding handleTransformError_def by (cases e) (simp add: mapping_errorI mapping_codes_def)
  show "mapping_error env r (handleSetValueError env q c r i v h)"
    unfolding handleSetValueError_def by (rule mapping_errorI) (simp add: mapping_codes_def)
qed

lemma map_fields_error:
  "map_fields env record r i ms h = (Returns (Some err), h') \<Longrightarrow> mapping_error env r err"
proof (induction ms arbitrary: i h)
  case (Cons c ms)
  show ?case
  proof (cases "mp_Source c = []")
    case True
    with Cons show ?thesis by auto
  next
    case src: False
    show ?thesis
    proof (cases "getSourceValue env record c r i h")
      case (Inl e)
      with src Cons.prems have "e = err" by simp
      with Inl show ?thesis using step_errors(1) by blast
    next
      case (Inr o')
      show ?thesis
      proof (cases o')
        case None
        with src Inr Cons show ?thesis by simp
      next
        case (Some v)
        obtain tr h1 where tr: "applyTransforms env v (mp_Transforms c) h = (tr, h1)" by (meson surj_pair)
        show ?thesis
        proof (cases tr)
          case (Inl e)
          with src Inr Some tr Cons.prems have "err = handleTransformError env e c r i v h1" by auto
          then show ?thesis by (simp add: step_errors)
        next
          case (Inr tv)
          obtain w h2 where w: "set_record (mv_spare env) record (mp_Target c) tv h1 = (w, h2)" by (meson surj_pair)
          note run = src \<open>getSourceValue env record c r i h = Inr o'\<close> Some tr Inr w
          consider "w = NilMapPanic" | "w = Returns None" | q where "w = Returns (Some q)" by (metis outcome_or_panic.exhaust option.exhaust)
          then show ?thesis
          proof cases
            case 1
            with run Cons.prems show ?thesis by simp
          next
            case 2
            with run Cons.prems Cons.IH show ?thesis by simp
          next
            case (3 q)
            with run Cons.prems have "err = handleSetValueError env (path_gerr q) c r i tv h2" by auto
            then show ?thesis by (simp add: step_errors)
          qed
        qed
      qed
    qed
  qed
qed simp

lemma mapping_loop_records:
  assumes "mapping_loop env m i rs result t h = (Returns (Inr rs'), t', h')"
  shows "\<exists>kept. rs' = result @ kept \<and> (mm_onError m = OnErrorSkip \<longrightarrow> subseq kept rs)
    \<and> (mm_onError m = OnErrorLog \<longrightarrow> list_all2 (\<lambda>r r'. r = None \<or> r' = r) rs kept)
    \<and> (mm_onError m \<noteq> OnErrorSkip \<longrightarrow> mm_onError m \<noteq> OnErrorLog \<longrightarrow> kept = rs)"
  using assms
proof (induction rs arbitrary: i result t h)
  case (Cons r rs)
  obtain x h1 where run: "mapping_processRecord env m r i h = (x, h1)" by (meson surj_pair)
  have add: ?case if "mapping_loop env m (Suc i) rs (result @ [r']) t1 h2 = (Returns (Inr rs'), t', h')" "r = None \<or> r' = r"
    "r' \<noteq> r \<longrightarrow> mm_onError m = OnErrorLog" for r' t1 h2
  proof -
    from Cons.IH [OF that(1)] obtain kept where k: "rs' = (result @ [r']) @ kept"
      "mm_onError m = OnErrorSkip \<longrightarrow> subseq kept rs" "mm_onError m = OnErrorLog \<longrightarrow> list_all2 (\<lambda>r r'. r = None \<or> r' = r) rs kept"
      "mm_onError m \<noteq> OnErrorSkip \<longrightarrow> mm_onError m \<noteq> OnErrorLog \<longrightarrow> kept = rs" by blast
    with that(2,3) show ?thesis by (intro exI [of _ "r' # kept"]) (auto simp: subseq_Cons2)
  qed
  consider "x = NilMapPanic" | "x = Returns None" | err where "x = Returns (Some err)"
    by (metis outcome_or_panic.exhaust option.exhaust)
  then show ?case
  proof cases
    case 1
    with run Cons.prems show ?thesis by simp
  next
    case 2
    with run Cons.prems add [of r t h1] show ?thesis by simp
  next
    case (3 err)
    show ?thesis
    proof (cases "mm_onError m = OnErrorSkip")
      case True
      with 3 run Cons.prems have "mapping_loop env m (Suc i) rs result t h1 = (Returns (Inr rs'), t', h')"
        by (simp add: h_HandleRecordError_def)
      from Cons.IH [OF this] True show ?thesis by auto
    next
      case False
      with 3 run Cons.prems have log: "mm_onError m = OnErrorLog"
        by (auto simp: h_HandleRecordError_def split: if_splits)
      obtain r1 h2 where ann: "h_AnnotateRecord r (NewMarker (mv_url env) (mapping_source i) (Some err)) h1 = (r1, h2)"
        by (meson surj_pair)
      have "r = None \<or> Some r1 = r" using ann
        by (cases r) (auto simp: h_AnnotateRecord_def Let_def split: prod.splits)
      moreover from 3 run Cons.prems log ann obtain t1 where
        "mapping_loop env m (Suc i) rs (result @ [Some r1]) t1 h2 = (Returns (Inr rs'), t', h')"
        by (auto simp: h_HandleRecordError_def Let_def)
      ultimately show ?thesis using add log by blast
    qed
  qed
qed simp

subsection \<open>Conversions\<close>

lemma itoa_plain: "list_all plain_char (itoa i)"
proof -
  have "is_digit c \<Longrightarrow> plain_char c" for c by (simp add: is_digit_def plain_char_def)
  then have "list_all plain_char (show_nat n)" for n using show_nat_digits [of n] by (auto simp: list_all_iff)
  then show ?thesis by (simp add: itoa_def plain_char_def)
qed

subsection \<open>Properties\<close>

text \<open>
  C16. The mapping filter on shared maps and slices is its specification on values, where the
  record is a tree (no container of it is reached twice), printing depends on the value printed
  and not on its address, and no mapping copies a container to a container or takes one as its
  default (there \<open>v_fields\<close> is undefined): the filter returns the same error or none, the record is
  then the tree of the value the specification computes, and nothing outside the record is
  written. The specification states every transform by the kind of the value it meets, the
  missing-field policies, and the write.
\<close>
theorem mapping_refines_values:
  assumes "prints_by_value env p" "rep h S (HMap a) (GMap r)"
    and "v_fields env p i 0 (mm_mappings m) r = Some (e, r')"
  shows "\<exists>h' S'. mapping_processRecord env m (Some a) i h = (Returns e, h') \<and> rep h' S' (HMap a) (GMap r')
    \<and> S' \<subseteq> S \<union> {fresh h..<fresh h'} \<and> changes S h h'"
  unfolding mapping_processRecord_def by (rule map_fields_refines [OF assms])

text \<open>
  Under the same conditions a module the constructor accepts leaves the error markers of
  the record alone, whether it succeeds or fails half way.
\<close>
theorem mapping_keeps_markers:
  assumes "accepted_mapping m" "prints_by_value env p"
    and "rep h S (HMap a) (GMap r)" "v_fields env p i 0 (mm_mappings m) r \<noteq> None"
  shows "\<exists>e h' S' r'. mapping_processRecord env m (Some a) i h = (Returns e, h') \<and> rep h' S' (HMap a) (GMap r')
    \<and> raw_markers (Some r') = raw_markers (Some r)"
proof -
  obtain e r' where v: "v_fields env p i 0 (mm_mappings m) r = Some (e, r')" using assms(4) by auto
  have "\<forall>c \<in> set (mm_mappings m). RecordErrorsField \<noteq> seg_key (takeWhile (\<lambda>c. c \<noteq> CHR ''.'') (mp_Target c))"
    using accepted_mapping_target [OF assms(1)] validated_target_kept by blast
  then have "r' RecordErrorsField = r RecordErrorsField" by (intro v_fields_frame [OF v]) blast
  then have "raw_markers (Some r') = raw_markers (Some r)" by (rule raw_markers_cong)
  with map_fields_refines [OF assms(2,3) v] show ?thesis unfolding mapping_processRecord_def by blast
qed

text \<open>
  A failed mapping is final: whatever the record, the error is a validation error that is
  never retried, its code names one of the four ways a mapping fails, and it carries the index
  of the record.
\<close>
theorem mapping_errors_final:
  assumes "mapping_processRecord env m record i h = (Returns (Some err), h')"
  shows "\<exists>code msg details. code \<in> set mapping_codes
    \<and> ClassifyError (mv_url env) (Some err) = Classified CategoryValidation False 0 msg None
    \<and> AsModuleError (Some err) = Some \<lparr>me_code = code, me_module = ''mapping'', me_index = int i, me_details = details\<rparr>"
proof -
  from map_fields_error [OF assms [unfolded mapping_processRecord_def]] obtain code msg v op h0 j and c :: "hval MappingConfig"
    where e: "code \<in> set mapping_codes" "err = newMappingError env code msg c i j v op h0"
    unfolding mapping_error_def by blast
  then show ?thesis
    by (auto simp: newMappingError_def ClassifyError_def explicitClassification_def as_classified_def
        classifyFromChain.simps as_classifiable_def AsModuleError_def)
qed

text \<open>
  A batch keeps the identity and the order of its records: under skip the result is a
  subsequence of the input, under log it has a record for each input record and the same one
  unless that was nil, under fail it is the input.
\<close>
theorem mapping_Process_records:
  assumes "mapping_Process env m (Some rs) t h = (Returns (Inr rs'), t', h')"
  shows "(mm_onError m = OnErrorSkip \<longrightarrow> subseq rs' rs)
    \<and> (mm_onError m = OnErrorLog \<longrightarrow> list_all2 (\<lambda>r r'. r = None \<or> r' = r) rs rs')
    \<and> (mm_onError m \<noteq> OnErrorSkip \<longrightarrow> mm_onError m \<noteq> OnErrorLog \<longrightarrow> rs' = rs)"
  using mapping_loop_records [of env m 0 rs "[]" t h rs' t' h'] assms by (simp add: mapping_Process_def)

text \<open>
  Conversions that print a value can be undone, where the \<open>%v\<close> verb prints integers in decimal,
  booleans as \<open>true\<close> and \<open>false\<close> and texts as they are: \<open>toInt\<close> undoes \<open>toString\<close> on every 64-bit
  integer, \<open>toBool\<close> on the booleans, and \<open>join\<close> undoes \<open>split\<close> on every text whose parts have
  no surrounding white space.
\<close>
theorem conversions_roundtrip:
  assumes "\<And>h i. mv_fmt_v env h (HInt i) = itoa i" "\<And>h s. mv_fmt_v env h (HStr s) = s"
    and "\<And>h b. mv_fmt_v env h (HBool b) = (if b then ''true'' else ''false'')"
  shows "(int64_min \<le> i \<and> i \<le> int64_max \<longrightarrow> applyToInt env (applyToString env (HInt i) h) h = Inr (HInt i))
    \<and> applyToBool env (applyToString env (HBool b) h) = Inr (HBool b)
    \<and> ((\<forall>p \<in> set (split_str (if sep = [] then '','' else sep) s). trim_space p = p) \<longrightarrow>
        (case applySplit (HStr s) sep h of (v, h') \<Rightarrow> applyJoin env v sep h' = HStr s))"
proof (intro conjI impI)
  assume "int64_min \<le> i \<and> i \<le> int64_max"
  then show "applyToInt env (applyToString env (HInt i) h) h = Inr (HInt i)"
    by (simp add: applyToInt_def applyToString_def assms(1) trim_space_plain [OF itoa_plain] atoi_itoa)
next
  have "trim_space ''true'' = ''true''" "trim_space ''false'' = ''false''"
    by (rule trim_space_plain, simp add: plain_char_def)+
  then show "applyToBool env (applyToString env (HBool b) h) = Inr (HBool b)"
    by (simp add: applyToBool_def applyToString_def assms(3) ParseBool_def)
next
  let ?sep = "if sep = [] then '','' else sep"
  assume t: "\<forall>p \<in> set (split_str ?sep s). trim_space p = p"
  then have m: "map (\<lambda>p. HStr (trim_space p)) (split_str ?sep s) = map HStr (split_str ?sep s)" by simp
  show "case applySplit (HStr s) sep h of (v, h') \<Rightarrow> applyJoin env v sep h' = HStr s"
    by (simp add: applySplit_def applyJoin_def Let_def new_arr_def m comp_def assms(2) del: map_map map_eq_conv)
      (simp add: comp_def assms(2))
qed

subsection \<open>Witnesses\<close>

text \<open>An environment that prints scalars, and a module that prints the field \<open>a.x\<close> into \<open>y\<close>.\<close>

definition demo_map :: "unit map_env" where
  "demo_map =
     \<lparr>mv_ToLower = id, mv_ToUpper = id, mv_time_Parse = \<lambda>_ _. None, mv_time_Format = \<lambda>_ _. [],
      mv_as_time = \<lambda>_ _. None, mv_as_bytes = \<lambda>_ _. None, mv_as_number = \<lambda>_ _. None, mv_as_strings = \<lambda>_ _. None,
      mv_as_string_map = \<lambda>_ _. None,
      mv_fmt_v = \<lambda>_ v. (case v of HStr s \<Rightarrow> s | HInt i \<Rightarrow> itoa i | HBool b \<Rightarrow> if b then ''true'' else ''false'' | _ \<Rightarrow> []),
      mv_reify = \<lambda>_ v. (case scalar v of None \<Rightarrow> GNil | Some g \<Rightarrow> g), mv_fmt_T = \<lambda>_. ''value'',
      mv_ParseFloat = \<lambda>_. Inr FNaN, mv_float_ops = exact_ops, mv_url = demo_env, mv_spare = \<lambda>_. 0\<rparr>"

definition demo_mapping :: "string \<Rightarrow> string \<Rightarrow> string list \<Rightarrow> hval MappingConfig" where
  "demo_mapping source target ops =
     \<lparr>mp_Source = source, mp_Target = target, mp_DefaultValue = HNil, mp_OnMissing = ''setNull'',
      mp_Transforms = map (\<lambda>f. \<lparr>tc_Op = f, tc_Format = [], tc_Pattern = [], tc_Replacement = [], tc_Separator = [],
                                tc_CompiledPattern = None\<rparr>) ops\<rparr>"

definition demo_module :: "hval MappingConfig list \<Rightarrow> strategy \<Rightarrow> hval MappingModule" where
  "demo_module ms strategy = \<lparr>mm_mappings = ms, mm_onError = strategy\<rparr>"

definition mapped_record :: grecord where
  "mapped_record = [''a'' \<mapsto> GMap [''x'' \<mapsto> GInt 1]]"

lemmas demo_map_eval = demo_mapping_def demo_module_def demo_map_def mapped_record_def demo_heap_def

definition demo_printer :: printer where
  "demo_printer =
     \<lparr>pr_v = (\<lambda>g. case g of GStr s \<Rightarrow> s | GInt i \<Rightarrow> itoa i | GBool b \<Rightarrow> if b then ''true'' else ''false'' | _ \<Rightarrow> []),
      pr_T = (\<lambda>_. ''value''), pr_shown = (\<lambda>g. if container g then GNil else g)\<rparr>"

lemma demo_prints: "prints_by_value demo_map demo_printer"
  unfolding prints_by_value_def
proof (intro allI impI)
  fix h S v g assume "rep h S v g"
  then show "mv_fmt_v demo_map h v = pr_v demo_printer g \<and> mv_fmt_T demo_map v = pr_T demo_printer g
    \<and> mv_reify demo_map h v = pr_shown demo_printer g"
  proof (cases rule: rep.cases)
    case rep_scalar
    then show ?thesis by (cases v) (auto simp: demo_map_def demo_printer_def container_def as_map_def as_arr_def)
  qed (auto simp: demo_map_def demo_printer_def container_def as_map_def as_arr_def)
qed

lemma demo_root: "rep demo_heap {0, 1} (HMap 0) (GMap mapped_record)"
  using demo_tree by (simp add: mapped_record_def)

lemma demo_accepted: "accepted_mapping (demo_module [demo_mapping ''a.x'' ''y'' [''toString'', ''toArray'']] OnErrorFail)"
proof -
  have "NewMappingFromConfig (\<lambda>_. Inr (\<lambda>s _. s))
     [\<lparr>fm_Source = Some ''a.x'', fm_Target = ''y'', fm_DefaultValue = HNil, fm_HasDefaultValue = False, fm_OnMissing = [],
       fm_Transforms = Some (map (\<lambda>f. \<lparr>to_Op = f, to_Format = [], to_Pattern = [], to_Replacement = [], to_Separator = []\<rparr>)
         [''toString'', ''toArray''])\<rparr>] []
     = Inr (demo_module [demo_mapping ''a.x'' ''y'' [''toString'', ''toArray'']] OnErrorFail)"
    by (simp add: NewMappingFromConfig_def parse_default_strategy parseMappingConfig_def ValidateRecordTarget_def
        IsReservedRecordPath_def RecordErrorsField_def isSupportedTransformOp_def supportedTransformOps_def
        demo_module_def demo_mapping_def)
  then show ?thesis unfolding accepted_mapping_def by blast
qed

lemma demo_get: "Get mapped_record ''a.x'' = Some (GInt 1)"
  by (simp add: mapped_record_def Get_def navigate_def navigateStep_def ParsePart_def Let_def)

lemma demo_fields:
  "v_fields demo_map demo_printer 0 0 (mm_mappings (demo_module [demo_mapping ''a.x'' ''y'' [''toString'', ''toArray'']] st)) mapped_record
     = Some (None, mapped_record(''y'' \<mapsto> GArr [GStr ''1'']))"
proof -
  have "Set mapped_record ''y'' (GArr [GStr ''1'']) = (None, mapped_record(''y'' \<mapsto> GArr [GStr ''1'']))"
    by (simp add: Set_def ParsePart_def)
  moreover have "v_transforms demo_map demo_printer (mp_Transforms (demo_mapping ''a.x'' ''y'' [''toString'', ''toArray''])) (GInt 1)
      = Inr (GArr [GStr ''1''])"
  proof -
    have "itoa 1 = ''1''" by code_simp
    then show ?thesis
      by (simp add: demo_mapping_def v_transform_def number_op_def text_op_def demo_printer_def supportedTransformOps_def)
  qed
  ultimately show ?thesis
    by (simp add: demo_module_def demo_mapping_def v_source_def demo_get Let_def container_def as_map_def as_arr_def)
qed

theorem mapping_refines_values_witness:
  "\<exists>h' S'. mapping_processRecord demo_map (demo_module [demo_mapping ''a.x'' ''y'' [''toString'', ''toArray'']] OnErrorFail)
        (Some 0) 0 demo_heap = (Returns None, h')
      \<and> rep h' S' (HMap 0) (GMap (mapped_record(''y'' \<mapsto> GArr [GStr ''1''])))"
  using mapping_refines_values [OF demo_prints demo_root demo_fields] by blast

theorem mapping_keeps_markers_witness:
  "\<exists>e h' S' r'. mapping_processRecord demo_map (demo_module [demo_mapping ''a.x'' ''y'' [''toString'', ''toArray'']] OnErrorFail)
        (Some 0) 0 demo_heap = (Returns e, h')
      \<and> rep h' S' (HMap 0) (GMap r') \<and> raw_markers (Some r') = raw_markers (Some mapped_record)"
  using mapping_keeps_markers [OF demo_accepted demo_prints demo_root, of 0] by (simp add: demo_fields)

lemma demo_failure:
  "\<exists>err. mapping_processRecord demo_map (demo_module [demo_mapping ''a'' ''y'' [''toInt'']] OnErrorLog) (Some 0) i demo_heap
   = (Returns (Some err), demo_heap)"
proof -
  have g: "h_Get demo_heap 0 ''a'' = Some (HMap 1)"
    by (simp add: h_Get_def h_navigateStep_def ParsePart_def h_getFromMap_def demo_heap_def)
  have t: "applyTransformOp demo_map (HMap (Suc 0)) \<lparr>tc_Op = ''toInt'', tc_Format = [], tc_Pattern = [], tc_Replacement = [],
      tc_Separator = [], tc_CompiledPattern = None\<rparr> h = (Inl (plain_error ''cannot convert value to int''), h)" for h
    by (simp add: applyTransformOp_def applyToInt_def demo_map_def)
  show ?thesis
    by (simp add: mapping_processRecord_def demo_module_def demo_mapping_def getSourceValue_def g t handleTransformError_def
        typeConversionOps_def)
qed

theorem mapping_errors_final_witness:
  "\<exists>err. \<exists>code msg details. code \<in> set mapping_codes
    \<and> ClassifyError (mv_url demo_map) (Some err) = Classified CategoryValidation False 0 msg None
    \<and> AsModuleError (Some err) = Some \<lparr>me_code = code, me_module = ''mapping'', me_index = 7, me_details = details\<rparr>"
proof -
  obtain err where "mapping_processRecord demo_map (demo_module [demo_mapping ''a'' ''y'' [''toInt'']] OnErrorLog) (Some 0) 7 demo_heap
    = (Returns (Some err), demo_heap)" using demo_failure by blast
  from mapping_errors_final [OF this] show ?thesis by auto
qed

theorem mapping_Process_records_witness:
  "\<exists>rs' t' h'. mapping_Process demo_map (demo_module [demo_mapping ''a'' ''y'' [''toInt'']] OnErrorLog) (Some [Some 0]) None demo_heap
      = (Returns (Inr rs'), t', h') \<and> list_all2 (\<lambda>r r'. r = None \<or> r' = r) [Some 0] rs'"
proof -
  let ?m = "demo_module [demo_mapping ''a'' ''y'' [''toInt'']] OnErrorLog"
  have st: "mm_onError ?m = OnErrorLog" by (simp add: demo_module_def)
  obtain rs' t' h' where run: "mapping_Process demo_map ?m (Some [Some 0]) None demo_heap = (Returns (Inr rs'), t', h')"
  proof -
    obtain err where "mapping_processRecord demo_map ?m (Some 0) 0 demo_heap = (Returns (Some err), demo_heap)"
      using demo_failure by blast
    moreover obtain r1 h1 where "h_AnnotateRecord (Some 0) (NewMarker (mv_url demo_map) (mapping_source 0) (Some err)) demo_heap = (r1, h1)"
      by (meson surj_pair)
    ultimately show ?thesis using that by (simp add: mapping_Process_def h_HandleRecordError_def Let_def st)
  qed
  with st run mapping_Process_records [OF run] show ?thesis by blast
qed

theorem conversions_roundtrip_witness:
  "applyToInt demo_map (applyToString demo_map (HInt (-7)) demo_heap) demo_heap = Inr (HInt (-7))
   \<and> applyToBool demo_map (applyToString demo_map (HBool False) demo_heap) = Inr (HBool False)"
proof -
  have "mv_fmt_v demo_map h (HInt i) = itoa i" "mv_fmt_v demo_map h (HStr s) = s"
    "mv_fmt_v demo_map h (HBool b) = (if b then ''true'' else ''false'')" for h i s b
    by (simp_all add: demo_map_def)
  note r = conversions_roundtrip [OF this, of "-7" demo_heap False]
  have "int64_min \<le> - 7 \<and> - 7 \<le> int64_max" by (simp add: int64_min_def int64_max_def)
  with r show ?thesis by blast
qed

subsection \<open>Surprises\<close>

text \<open>
  The check on reserved targets looks at the path, not at the value: a mapping may copy the
  list of markers, and the next one then writes through the copy into the markers themselves.
\<close>

definition forged_heap :: heap where
  "forged_heap =
     \<lparr>maps = (\<lambda>_. Map.empty)(0 := [RecordErrorsField \<mapsto> HArr 1 1, ''n'' \<mapsto> HStr ''none''], 2 := [''module'' \<mapsto> HStr ''http_call'']),
      arrs = (\<lambda>_. [])(1 := [HMap 2]), fresh = 3\<rparr>"

theorem mapping_forges_markers:
  "\<exists>h'. mapping_processRecord demo_map (demo_module [demo_mapping RecordErrorsField ''copy'' [], demo_mapping ''n'' ''copy[0].module'' []] OnErrorFail)
      (Some 0) 0 forged_heap = (Returns None, h')
    \<and> maps h' 0 RecordErrorsField = Some (HArr 1 1) \<and> arrs h' 1 = [HMap 2]
    \<and> maps forged_heap 2 ''module'' = Some (HStr ''http_call'') \<and> maps h' 2 ''module'' = Some (HStr ''none'')
    \<and> ValidateRecordTarget ''copy'' = None \<and> ValidateRecordTarget ''copy[0].module'' = None"
proof -
  have p: "ParsePart ''copy[0]'' = Inr (''copy'', 0, True)" "ParsePart RecordErrorsField = Inr (RecordErrorsField, -1, False)"
    "split_on (CHR ''.'') RecordErrorsField = [RecordErrorsField]" "split_on (CHR ''.'') ''copy[0].module'' = [''copy[0]'', ''module'']"
    "ValidateRecordTarget ''copy'' = None" "ValidateRecordTarget ''copy[0].module'' = None"
    by code_simp+
  have s: "ParsePart ''copy'' = Inr (''copy'', -1, False)" "ParsePart ''module'' = Inr (''module'', -1, False)"
    "ParsePart ''n'' = Inr (''n'', -1, False)" "RecordErrorsField \<noteq> []" "RecordErrorsField \<noteq> ''copy''" "RecordErrorsField \<noteq> ''n''"
    by (simp_all add: ParsePart_def RecordErrorsField_def)
  show ?thesis
    by (simp add: mapping_processRecord_def demo_module_def demo_mapping_def getSourceValue_def h_Get_def h_navigateStep_def
        h_getFromMap_def forged_heap_def set_record_def h_Set_def put_map_def put_arr_def h_ensureMapInArray_def h_grow_def
        h_ensureArrayAtPath_def p s)
qed

text \<open>A typed mapping inside a list is read as one without a source, which deletes its target.\<close>

theorem typed_item_deletes:
  assumes "ParseFieldMappings fmt_v (RawList [ItemTyped m]) = Inr ms"
  shows "map fm_Source ms = [None] \<and> map fm_Target ms = [fm_Target m]"
  using assms by (auto simp: ParseFieldMappings_def reparsed_def)

theorem typed_item_deletes_witness:
  "\<exists>ms. ParseFieldMappings (\<lambda>_. []) (RawList [ItemTyped \<lparr>fm_Source = Some ''a'', fm_Target = ''b'', fm_DefaultValue = GNil,
      fm_HasDefaultValue = False, fm_OnMissing = [], fm_Transforms = None\<rparr>]) = Inr ms \<and> map fm_Source ms = [None]"
proof -
  have "ParseFieldMappings (\<lambda>_. []) (RawList [ItemTyped m]) = Inr [reparsed m]" for m by (simp add: ParseFieldMappings_def)
  from this typed_item_deletes [OF this] show ?thesis by blast
qed

end
