(* ===== verification/ConditionFilter.thy ===== *)
theory ConditionFilter
  imports MappingFilter
begin

text \<open>
  The condition filter, \<open>src/internal/modules/filter/condition.go\<close>: it evaluates an expression on
  each record and hands the record to one of two chains of nested filters.

  A filter module is an operation on references to records (\<open>Module\<close>): it may write to the heap,
  count markers and act on the world outside. The expression engine is the argument
  \<open>cond_env\<close>; of the value of an expression the filter looks only at what \<open>eval_value\<close> shows.
\<close>

subsection \<open>Filter modules on the heap\<close>

record 'w fstate =
  fs_heap :: heap
  fs_tally :: "tally option"
  fs_world :: 'w

type_synonym 'w process_result = "(gerr + nat option list) outcome_or_panic \<times> 'w fstate"

type_synonym 'w Module = "nat option list option \<Rightarrow> 'w fstate \<Rightarrow> 'w process_result"

definition h_drop_Process :: "'w Module" where
  "h_drop_Process records s = (Returns (Inr []), s)"

text \<open>The mapping filter as such a module.\<close>

definition mapping_Module :: "'t map_env \<Rightarrow> hval MappingModule \<Rightarrow> 'w Module" where
  "mapping_Module env m records s =
     (case mapping_Process env m records (fs_tally s) (fs_heap s) of
        (r, t, h) \<Rightarrow> (r, s\<lparr>fs_heap := h, fs_tally := t\<rparr>))"

subsection \<open>The module\<close>

record ('p, 'w) ConditionModule =
  cd_expression :: string
  cd_onError :: strategy
  cd_program :: 'p
  cd_thenModules :: "'w Module list"
  cd_elseModules :: "'w Module list"

text \<open>What the filter sees of the value of an expression; a collection has its length.\<close>

datatype eval_value =
  EvNil | EvBool bool | EvInt int | EvFloat go_float | EvStr string | EvCollection nat | EvOther

record ('p, 'w) cond_env =
  ce_Compile :: "string \<Rightarrow> gerr + 'p"
  ce_Run :: "'p \<Rightarrow> nat option \<Rightarrow> 'w fstate \<Rightarrow> gerr + eval_value"
  ce_type_of :: "gerr \<Rightarrow> string"

definition MaxExpressionLength :: nat where
  "MaxExpressionLength = 10000"

definition toBool :: "eval_value \<Rightarrow> bool" where
  "toBool v =
     (case v of
        EvNil \<Rightarrow> False
      | EvBool b \<Rightarrow> b
      | EvInt i \<Rightarrow> i \<noteq> 0
      | EvFloat f \<Rightarrow> f \<noteq> FFin 0
      | EvStr s \<Rightarrow> s \<noteq> []
      | EvCollection n \<Rightarrow> n > 0
      | EvOther \<Rightarrow> True)"

definition ConditionError_Details :: "string \<Rightarrow> grecord \<Rightarrow> string \<Rightarrow> grecord" where
  "ConditionError_Details expression details fieldPath =
     (let d = (if expression \<noteq> [] then details(''expression'' \<mapsto> GStr expression) else details)
      in if fieldPath \<noteq> [] then d(''field_path'' \<mapsto> GStr fieldPath) else d)"

definition newConditionError ::
  "(gerr \<Rightarrow> string) \<Rightarrow> string \<Rightarrow> string \<Rightarrow> string \<Rightarrow> int \<Rightarrow> string \<Rightarrow> gerr option \<Rightarrow> gerr" where
  "newConditionError type_of code message expression recordIdx fieldPath underlyingErr =
     (let details = (case underlyingErr of
                       None \<Rightarrow> Map.empty
                     | Some e \<Rightarrow> [''underlying_error'' \<mapsto> GStr (err_text e), ''error_type'' \<mapsto> GStr (type_of e)]);
          details = (if recordIdx \<ge> 0 then details(''record_index'' \<mapsto> GInt recordIdx) else details);
          details = (if fieldPath \<noteq> [] then details(''field_path'' \<mapsto> GStr fieldPath) else details)
      in NodeE KPlain message None
           (Some \<lparr>me_code = code, me_module = ''condition'', me_index = recordIdx,
                  me_details = ConditionError_Details expression details fieldPath\<rparr>) None [] False)"

text \<open>The two error handlers of the module differ in what they log only.\<close>

definition cond_handleError :: "strategy \<Rightarrow> gerr \<Rightarrow> gerr option" where
  "cond_handleError onError err =
     (if onError = OnErrorFail then Some err
      else if onError = OnErrorSkip then None
      else if onError = OnErrorLog then None
      else Some err)"

definition handleNestedModuleError :: "strategy \<Rightarrow> gerr \<Rightarrow> gerr option" where
  "handleNestedModuleError onError err =
     (if onError = OnErrorFail then Some err
      else if onError = OnErrorSkip then None
      else if onError = OnErrorLog then None
      else Some err)"

fun nested_chain :: "strategy \<Rightarrow> 'w Module list \<Rightarrow> nat option list \<Rightarrow> 'w fstate \<Rightarrow> 'w process_result" where
  "nested_chain onError [] records s = (Returns (Inr records), s)"
| "nested_chain onError (m # ms) records s =
     (case m (Some records) s of
        (NilMapPanic, s) \<Rightarrow> (NilMapPanic, s)
      | (Returns (Inl err), s) \<Rightarrow>
          if onError = OnErrorSkip \<or> onError = OnErrorLog
          then (if records = [] then (Returns (Inr records), s) else nested_chain onError ms records s)
          else (Returns (Inl err), s)
      | (Returns (Inr processed), s) \<Rightarrow>
          if processed = [] then (Returns (Inr processed), s) else nested_chain onError ms processed s)"

definition runNestedModules ::
  "('p, 'w) ConditionModule \<Rightarrow> 'w Module list \<Rightarrow> nat option \<Rightarrow> 'w fstate \<Rightarrow> 'w process_result" where
  "runNestedModules c modules r s = nested_chain (cd_onError c) modules [r] s"

definition processConditionResult ::
  "('p, 'w) ConditionModule \<Rightarrow> bool \<Rightarrow> nat option \<Rightarrow> 'w fstate \<Rightarrow> 'w process_result" where
  "processConditionResult c conditionTrue r s =
     (if conditionTrue then
        (if cd_thenModules c \<noteq> [] then runNestedModules c (cd_thenModules c) r s else (Returns (Inr [r]), s))
      else if cd_elseModules c \<noteq> [] then runNestedModules c (cd_elseModules c) r s
      else (Returns (Inr [r]), s))"

fun condition_loop ::
  "('p, 'w) cond_env \<Rightarrow> ('p, 'w) ConditionModule \<Rightarrow> nat \<Rightarrow> nat option list \<Rightarrow> nat option list \<Rightarrow> 'w fstate
   \<Rightarrow> 'w process_result" where
  "condition_loop env c recordIdx [] result s = (Returns (Inr result), s)"
| "condition_loop env c recordIdx (r # rs) result s =
     (case ce_Run env (cd_program c) r s of
        Inl err \<Rightarrow>
          (case cond_handleError (cd_onError c)
                  (newConditionError (ce_type_of env) ''EVALUATION_FAILED''
                     (''condition evaluation failed at record '' @ itoa (int recordIdx) @ '': '' @ err_text err)
                     (cd_expression c) (int recordIdx) [] (Some err)) of
             Some err \<Rightarrow> (Returns (Inl err), s)
           | None \<Rightarrow> condition_loop env c (Suc recordIdx) rs result s)
      | Inr output \<Rightarrow>
          (case processConditionResult c (toBool output) r s of
             (NilMapPanic, s) \<Rightarrow> (NilMapPanic, s)
           | (Returns (Inl err), s) \<Rightarrow>
               (case handleNestedModuleError (cd_onError c) err of
                  Some err \<Rightarrow> (Returns (Inl err), s)
                | None \<Rightarrow> condition_loop env c (Suc recordIdx) rs result s)
           | (Returns (Inr processedRecords), s) \<Rightarrow>
               condition_loop env c (Suc recordIdx) rs (result @ processedRecords) s))"

definition condition_Process :: "('p, 'w) cond_env \<Rightarrow> ('p, 'w) ConditionModule \<Rightarrow> 'w Module" where
  "condition_Process env c records s =
     (case records of None \<Rightarrow> (Returns (Inr []), s) | Some rs \<Rightarrow> condition_loop env c 0 rs [] s)"

subsection \<open>Construction\<close>

text \<open>
  A nested module as it is configured; a nil pointer is \<open>None\<close>. The field \<open>Config\<close> holds what is
  not one of the fields the type names.
\<close>

datatype NestedModuleConfig = NestedModuleConfig
  (nm_Type: string) (nm_Config: "grecord option") (nm_Mappings: "gval FieldMapping list") (nm_Enabled: "bool option")
  (nm_Expression: string) (nm_OnError: string)
  (nm_Then: "NestedModuleConfig option list") (nm_Else: "NestedModuleConfig option list")

definition isNestedModuleStructuralField :: "string \<Rightarrow> bool" where
  "isNestedModuleStructuralField key \<longleftrightarrow>
     key \<in> {''type'', ''config'', ''mappings'', ''expression'', ''onError'', ''then'', ''else''}"

text \<open>
  \<open>UnmarshalJSON\<close>, from the decoded known fields and the decoded object: the fields that are not
  structural join the configuration.
\<close>

definition nested_config :: "grecord option \<Rightarrow> grecord \<Rightarrow> grecord option" where
  "nested_config known raw =
     (let config = (case known of None \<Rightarrow> Map.empty | Some m \<Rightarrow> m);
          config = (\<lambda>k. if isNestedModuleStructuralField k then config k
                        else (case raw k of None \<Rightarrow> config k | Some v \<Rightarrow> Some v))
      in if dom config = {} then None else Some config)"

datatype nested_error =
    NestedEmptyExpression | NestedExpressionTooLong nat | NestedInvalidExpression gerr
  | NestedStrategy strategy_error | NestedThen nat nested_error | NestedElse nat nested_error
  | NestedMapping mapping_config_error | NestedUnknownType string | NestedOther gerr | NestedAt nat nested_error

definition isWhitespaceOnly :: "string \<Rightarrow> bool" where
  "isWhitespaceOnly s \<longleftrightarrow> list_all (\<lambda>c. c = CHR '' '' \<or> c = CHR 0x09 \<or> c = CHR 0x0A \<or> c = CHR 0x0D) s"

definition validateExpression :: "string \<Rightarrow> nested_error + string" where
  "validateExpression expression =
     (if length expression = 0 \<or> isWhitespaceOnly expression then Inl NestedEmptyExpression
      else if length expression > MaxExpressionLength then Inl (NestedExpressionTooLong (length expression))
      else Inr expression)"

definition compileExpression :: "('p, 'w) cond_env \<Rightarrow> string \<Rightarrow> nested_error + 'p" where
  "compileExpression env expression =
     (case ce_Compile env expression of Inl err \<Rightarrow> Inl (NestedInvalidExpression err) | Inr p \<Rightarrow> Inr p)"

text \<open>
  What construction uses beside the expression engine: the regular expressions and the
  environment of a mapping, and where a decoded default value lies in the heap.
\<close>

record ('p, 'w, 't) nested_env =
  ne_cond :: "('p, 'w) cond_env"
  ne_regexp :: "string \<Rightarrow> gerr + (string \<Rightarrow> string \<Rightarrow> string)"
  ne_mapping :: "'t map_env"
  ne_value :: "gval \<Rightarrow> hval"

definition place_default :: "(gval \<Rightarrow> hval) \<Rightarrow> gval FieldMapping \<Rightarrow> hval FieldMapping" where
  "place_default place m =
     \<lparr>fm_Source = fm_Source m, fm_Target = fm_Target m, fm_DefaultValue = place (fm_DefaultValue m),
      fm_HasDefaultValue = fm_HasDefaultValue m, fm_OnMissing = fm_OnMissing m, fm_Transforms = fm_Transforms m\<rparr>"

text \<open>The modules built: a condition keeps the modules of its branches, another module is its operation.\<close>

datatype ('p, 'w) built =
    BuiltCondition (bc_expression: string) (bc_onError: strategy) (bc_program: 'p)
      (bc_then: "('p, 'w) built list") (bc_else: "('p, 'w) built list")
  | BuiltModule (bm_Process: "'w Module")

primrec module_of :: "('p, 'w) cond_env \<Rightarrow> ('p, 'w) built \<Rightarrow> 'w Module" where
  "module_of env (BuiltCondition expression onError p ts es) =
     condition_Process env
       \<lparr>cd_expression = expression, cd_onError = onError, cd_program = p,
        cd_thenModules = map (module_of env) ts, cd_elseModules = map (module_of env) es\<rparr>"
| "module_of env (BuiltModule m) = m"

definition create_leaf ::
  "('p, 'w, 't) nested_env \<Rightarrow> (NestedModuleConfig \<Rightarrow> nested_error + ('p, 'w) built) option \<Rightarrow> NestedModuleConfig
   \<Rightarrow> nested_error + ('p, 'w) built" where
  "create_leaf env nestedCreator config =
     (case nestedCreator of
        Some creator \<Rightarrow> creator config
      | None \<Rightarrow>
          if nm_Type config = ''mapping'' then
            (case ParseFieldMappings (\<lambda>_. []) (RawTyped (nm_Mappings config)) of
               Inl err \<Rightarrow> Inl (NestedMapping err)
             | Inr mappings \<Rightarrow>
                 (case NewMappingFromConfig (ne_regexp env) (map (place_default (ne_value env)) mappings) (nm_OnError config) of
                    Inl err \<Rightarrow> Inl (NestedMapping err)
                  | Inr m \<Rightarrow> Inr (BuiltModule (mapping_Module (ne_mapping env) m))))
          else if nm_Type config = ''drop'' then Inr (BuiltModule h_drop_Process)
          else Inl (NestedUnknownType (nm_Type config)))"

function
  createNestedModule ::
    "('p, 'w, 't) nested_env \<Rightarrow> (NestedModuleConfig \<Rightarrow> nested_error + ('p, 'w) built) option \<Rightarrow> NestedModuleConfig
     \<Rightarrow> nested_error + ('p, 'w) built" and
  nested_modules ::
    "('p, 'w, 't) nested_env \<Rightarrow> (NestedModuleConfig \<Rightarrow> nested_error + ('p, 'w) built) option
     \<Rightarrow> (nat \<Rightarrow> nested_error \<Rightarrow> nested_error) \<Rightarrow> nat \<Rightarrow> NestedModuleConfig option list
     \<Rightarrow> nested_error + ('p, 'w) built list" and
  NewConditionFromConfig ::
    "('p, 'w, 't) nested_env \<Rightarrow> (NestedModuleConfig \<Rightarrow> nested_error + ('p, 'w) built) option
     \<Rightarrow> string \<Rightarrow> string \<Rightarrow> NestedModuleConfig option list \<Rightarrow> NestedModuleConfig option list
     \<Rightarrow> nested_error + ('p, 'w) built" where
  "createNestedModule env nestedCreator (NestedModuleConfig ty cfg ms enabled expression onError thens elses) =
     (if ty = ''condition'' then
        (if expression \<noteq> [] \<and> length expression > MaxExpressionLength
         then Inl (NestedExpressionTooLong (length expression))
         else NewConditionFromConfig env nestedCreator expression onError thens elses)
      else create_leaf env nestedCreator (NestedModuleConfig ty cfg ms enabled expression onError thens elses))"
| "nested_modules env nestedCreator at_error i [] = Inr []"
| "nested_modules env nestedCreator at_error i (None # configs) = nested_modules env nestedCreator at_error (Suc i) configs"
| "nested_modules env nestedCreator at_error i (Some cfg # configs) =
     (if nm_Enabled cfg = Some False then nested_modules env nestedCreator at_error (Suc i) configs
      else (case createNestedModule env nestedCreator cfg of
              Inl err \<Rightarrow> Inl (at_error i err)
            | Inr m \<Rightarrow>
                (case nested_modules env nestedCreator at_error (Suc i) configs of
                   Inl err \<Rightarrow> Inl err | Inr modules \<Rightarrow> Inr (m # modules))))"
| "NewConditionFromConfig env nestedCreator config_expression onError thens elses =
     (case validateExpression config_expression of
        Inl err \<Rightarrow> Inl err
      | Inr expression \<Rightarrow>
          (case ParseOnErrorStrategy onError of
             Inl err \<Rightarrow> Inl (NestedStrategy err)
           | Inr strategy \<Rightarrow>
               (case compileExpression (ne_cond env) expression of
                  Inl err \<Rightarrow> Inl err
                | Inr p \<Rightarrow>
                    (case nested_modules env nestedCreator NestedThen 0 thens of
                       Inl err \<Rightarrow> Inl err
                     | Inr thenModules \<Rightarrow>
                         (case nested_modules env nestedCreator NestedElse 0 elses of
                            Inl err \<Rightarrow> Inl err
                          | Inr elseModules \<Rightarrow>
                              Inr (BuiltCondition expression strategy p thenModules elseModules))))))"
  by pat_completeness auto
termination
  by (relation "measure (\<lambda>x. case x of
        Inl (_, _, c) \<Rightarrow> 2 * size c
      | Inr (Inl (_, _, _, _, cs)) \<Rightarrow> 2 * size_list (size_option size) cs
      | Inr (Inr (_, _, _, _, ts, es)) \<Rightarrow> 2 * (size_list (size_option size) ts + size_list (size_option size) es) + 1)")
    auto

subsection \<open>Strategies\<close>

text \<open>Under skip and log nothing the filter does depends on the position of a record, and nothing fails.\<close>

definition tolerant :: "strategy \<Rightarrow> bool" where
  "tolerant st \<longleftrightarrow> st = OnErrorSkip \<or> st = OnErrorLog"

lemma tolerant_handles [simp]:
  "tolerant st \<Longrightarrow> cond_handleError st e = None" "tolerant st \<Longrightarrow> handleNestedModuleError st e = None"
  by (auto simp: tolerant_def cond_handleError_def handleNestedModuleError_def)

lemma nested_chain_tolerant:
  assumes "tolerant st" "nested_chain st ms rs s = (Returns r, s')"
  shows "\<exists>rs'. r = Inr rs'"
  using assms(2)
proof (induction ms arbitrary: rs s)
  case (Cons m ms)
  with assms(1) show ?case
    by (auto simp: tolerant_def split: outcome_or_panic.splits sum.splits prod.splits if_splits)
qed auto

lemma processConditionResult_tolerant:
  assumes "tolerant (cd_onError c)" "processConditionResult c b x s = (Returns r, s')"
  shows "\<exists>rs'. r = Inr rs'"
  using assms nested_chain_tolerant [OF assms(1)]
  by (auto simp: processConditionResult_def runNestedModules_def split: if_splits)

text \<open>One record under a tolerant strategy.\<close>

definition cond_step ::
  "('p, 'w) cond_env \<Rightarrow> ('p, 'w) ConditionModule \<Rightarrow> nat option \<Rightarrow> 'w fstate \<Rightarrow> nat option list outcome_or_panic \<times> 'w fstate" where
  "cond_step env c x s =
     (case ce_Run env (cd_program c) x s of
        Inl err \<Rightarrow> (Returns [], s)
      | Inr output \<Rightarrow>
          (case processConditionResult c (toBool output) x s of
             (Returns (Inr rs), s) \<Rightarrow> (Returns rs, s) | (Returns (Inl _), s) \<Rightarrow> (Returns [], s) | (NilMapPanic, s) \<Rightarrow> (NilMapPanic, s)))"

lemma condition_loop_step:
  assumes "tolerant (cd_onError c)"
  shows "condition_loop env c i (x # xs) result s =
     (case cond_step env c x s of
        (NilMapPanic, s) \<Rightarrow> (NilMapPanic, s)
      | (Returns rs, s) \<Rightarrow> condition_loop env c (Suc i) xs (result @ rs) s)"
  using assms by (auto simp: cond_step_def split: sum.split outcome_or_panic.split prod.split)

declare condition_loop.simps(2) [simp del]

fun cond_steps ::
  "('p, 'w) cond_env \<Rightarrow> ('p, 'w) ConditionModule \<Rightarrow> nat option list \<Rightarrow> 'w fstate \<Rightarrow> nat option list outcome_or_panic \<times> 'w fstate" where
  "cond_steps env c [] s = (Returns [], s)"
| "cond_steps env c (x # xs) s =
     (case cond_step env c x s of
        (NilMapPanic, s) \<Rightarrow> (NilMapPanic, s)
      | (Returns rs, s) \<Rightarrow>
          (case cond_steps env c xs s of (NilMapPanic, s) \<Rightarrow> (NilMapPanic, s) | (Returns rs', s) \<Rightarrow> (Returns (rs @ rs'), s)))"

lemma cond_steps_append:
  "cond_steps env c (xs @ ys) s =
     (case cond_steps env c xs s of
        (NilMapPanic, s) \<Rightarrow> (NilMapPanic, s)
      | (Returns rs, s) \<Rightarrow>
          (case cond_steps env c ys s of (NilMapPanic, s) \<Rightarrow> (NilMapPanic, s) | (Returns rs', s) \<Rightarrow> (Returns (rs @ rs'), s)))"
  by (induction xs arbitrary: s) (simp_all split: prod.split outcome_or_panic.split)

lemma condition_loop_steps:
  assumes "tolerant (cd_onError c)"
  shows "condition_loop env c i xs result s =
     (case cond_steps env c xs s of (NilMapPanic, s) \<Rightarrow> (NilMapPanic, s) | (Returns rs, s) \<Rightarrow> (Returns (Inr (result @ rs)), s))"
  by (induction xs arbitrary: i result s) (simp_all add: condition_loop_step [OF assms] split: prod.split outcome_or_panic.split)

lemma condition_Process_steps:
  "tolerant (cd_onError c) \<Longrightarrow> condition_Process env c (Some xs) s =
     (case cond_steps env c xs s of (NilMapPanic, s) \<Rightarrow> (NilMapPanic, s) | (Returns rs, s) \<Rightarrow> (Returns (Inr rs), s))"
  by (simp add: condition_Process_def condition_loop_steps split: prod.split outcome_or_panic.split)

text \<open>
  Under skip and log a condition never fails: whatever the expressions and the nested modules
  do, a run that does not panic returns records.
\<close>
theorem condition_never_fails:
  assumes "cd_onError c = OnErrorSkip \<or> cd_onError c = OnErrorLog" "condition_Process env c records s = (Returns r, s')"
  shows "\<exists>rs. r = Inr rs"
proof (cases records)
  case (Some xs)
  have "tolerant (cd_onError c)" using assms(1) by (simp add: tolerant_def)
  from condition_Process_steps [OF this] assms(2) Some show ?thesis
    by (auto split: prod.splits outcome_or_panic.splits)
qed (use assms(2) in \<open>auto simp: condition_Process_def\<close>)

text \<open>
  Under skip and log a batch may be split anywhere: running a condition on two batches one
  after the other gives the records, and leaves the heap, the tally and the world, of running it
  on both at once.
\<close>
theorem condition_batch_split:
  assumes "cd_onError c = OnErrorSkip \<or> cd_onError c = OnErrorLog"
  shows "condition_Process env c (Some (xs @ ys)) s =
     (case condition_Process env c (Some xs) s of
        (Returns (Inr rs), s) \<Rightarrow>
          (case condition_Process env c (Some ys) s of
             (Returns (Inr rs'), s) \<Rightarrow> (Returns (Inr (rs @ rs')), s) | other \<Rightarrow> other)
      | other \<Rightarrow> other)"
proof -
  have t: "tolerant (cd_onError c)" using assms by (simp add: tolerant_def)
  show ?thesis
    by (simp add: condition_Process_steps [OF t] cond_steps_append split: prod.split outcome_or_panic.split)
qed

subsection \<open>Routing\<close>

text \<open>
  The specification of a tree of conditions in a state its modules do not change. \<open>run\<close> is what an
  expression gives for a record, \<open>F\<close> what another module does with a batch; both may fail. A value
  is false when it is nil, false, zero or empty.
\<close>

definition truthy :: "eval_value \<Rightarrow> bool" where
  "truthy v \<longleftrightarrow> v \<notin> {EvNil, EvBool False, EvInt 0, EvFloat (FFin 0), EvStr [], EvCollection 0}"

text \<open>A chain hands on what is left; under skip and log a module that fails hands on what it got.\<close>

fun chain_spec :: "strategy \<Rightarrow> (nat option list \<Rightarrow> gerr + nat option list) list \<Rightarrow> nat option list \<Rightarrow> gerr + nat option list" where
  "chain_spec st [] rs = Inr rs"
| "chain_spec st (F # Fs) rs =
     (if rs = [] then Inr []
      else (case F rs of
              Inr rs' \<Rightarrow> chain_spec st Fs rs'
            | Inl err \<Rightarrow> if tolerant st then chain_spec st Fs rs else Inl err))"

text \<open>The batch: the results of the records in order, up to the first error.\<close>

definition prepend :: "'b list \<Rightarrow> gerr + 'b list \<Rightarrow> gerr + 'b list" where
  "prepend xs y = (case y of Inl err \<Rightarrow> Inl err | Inr ys \<Rightarrow> Inr (xs @ ys))"

lemma prepend_simps [simp]: "prepend xs (Inl err) = Inl err" "prepend xs (Inr ys) = Inr (xs @ ys)" "prepend [] y = y"
    "prepend xs (prepend ys y) = prepend (xs @ ys) y"
  by (simp_all add: prepend_def split: sum.split)

fun batch_spec :: "(nat \<Rightarrow> 'a \<Rightarrow> gerr + 'b list) \<Rightarrow> nat \<Rightarrow> 'a list \<Rightarrow> gerr + 'b list" where
  "batch_spec one i [] = Inr []"
| "batch_spec one i (r # rs) =
     (case one i r of Inl err \<Rightarrow> Inl err | Inr xs \<Rightarrow> prepend xs (batch_spec one (Suc i) rs))"

definition evaluation_error :: "(gerr \<Rightarrow> string) \<Rightarrow> string \<Rightarrow> nat \<Rightarrow> gerr \<Rightarrow> gerr" where
  "evaluation_error type_of expression i err =
     newConditionError type_of ''EVALUATION_FAILED''
       (''condition evaluation failed at record '' @ itoa (int i) @ '': '' @ err_text err) expression (int i) [] (Some err)"

primrec routes ::
  "(gerr \<Rightarrow> string) \<Rightarrow> ('p \<Rightarrow> nat option \<Rightarrow> gerr + eval_value) \<Rightarrow> ('w Module \<Rightarrow> nat option list \<Rightarrow> gerr + nat option list)
   \<Rightarrow> ('p, 'w) built \<Rightarrow> nat option list \<Rightarrow> gerr + nat option list" where
  "routes type_of run F (BuiltCondition expression st p ts es) =
     batch_spec (\<lambda>i r.
       case (case run p r of
               Inl err \<Rightarrow> Inl (evaluation_error type_of expression i err)
             | Inr v \<Rightarrow> if truthy v then chain_spec st (map (routes type_of run F) ts) [r]
                        else chain_spec st (map (routes type_of run F) es) [r]) of
         Inr xs \<Rightarrow> Inr xs
       | Inl err \<Rightarrow> if tolerant st then Inr [] else Inl err) 0"
| "routes type_of run F (BuiltModule m) = F m"

primrec built_leaves :: "('p, 'w) built \<Rightarrow> 'w Module set" where
  "built_leaves (BuiltCondition expression onError p ts es) =
     \<Union> (set (map built_leaves ts)) \<union> \<Union> (set (map built_leaves es))"
| "built_leaves (BuiltModule m) = {m}"

text \<open>A module that does \<open>F\<close> with a batch in the state \<open>s\<close> and leaves \<open>s\<close> as it is.\<close>

definition acts_as :: "'w fstate \<Rightarrow> 'w Module \<Rightarrow> (nat option list \<Rightarrow> gerr + nat option list) \<Rightarrow> bool" where
  "acts_as s m F \<longleftrightarrow> (\<forall>rs. m (Some rs) s = (Returns (F rs), s))"

lemma toBool_truthy: "toBool v = truthy v"
  by (cases v) (auto simp: toBool_def truthy_def)

lemma handles:
  "cond_handleError st err = (if tolerant st then None else Some err)"
  "handleNestedModuleError st err = (if tolerant st then None else Some err)"
  by (auto simp: tolerant_def cond_handleError_def handleNestedModuleError_def)

lemma chain_spec_Nil [simp]: "chain_spec st Fs [] = Inr []"
  by (cases Fs) simp_all

lemma nested_chain_acts:
  assumes "list_all2 (acts_as s) ms Fs" "rs \<noteq> []"
  shows "nested_chain st ms rs s = (Returns (chain_spec st Fs rs), s)"
  using assms
proof (induction arbitrary: rs)
  case (Cons m ms F Fs)
  from Cons.hyps(1) have m: "m (Some rs) s = (Returns (F rs), s)" by (simp add: acts_as_def)
  show ?case
  proof (cases "F rs")
    case (Inl err)
    with m Cons.IH [OF Cons.prems] Cons.prems show ?thesis by (simp add: tolerant_def)
  next
    case (Inr rs')
    with m Cons.IH [of rs'] Cons.prems show ?thesis by simp
  qed
qed simp

lemma condition_acts:
  assumes "list_all2 (acts_as s) (cd_thenModules c) us" "list_all2 (acts_as s) (cd_elseModules c) gs"
  shows "acts_as s (condition_Process env c) (batch_spec (\<lambda>i r.
       case (case ce_Run env (cd_program c) r s of
               Inl err \<Rightarrow> Inl (evaluation_error (ce_type_of env) (cd_expression c) i err)
             | Inr v \<Rightarrow> if truthy v then chain_spec (cd_onError c) us [r] else chain_spec (cd_onError c) gs [r]) of
         Inr xs \<Rightarrow> Inr xs
       | Inl err \<Rightarrow> if tolerant (cd_onError c) then Inr [] else Inl err) 0)"
proof -
  let ?st = "cd_onError c"
  let ?one = "\<lambda>i r. case (case ce_Run env (cd_program c) r s of
               Inl err \<Rightarrow> Inl (evaluation_error (ce_type_of env) (cd_expression c) i err)
             | Inr v \<Rightarrow> if truthy v then chain_spec ?st us [r] else chain_spec ?st gs [r]) of
         Inr xs \<Rightarrow> Inr xs
       | Inl err \<Rightarrow> if tolerant ?st then Inr [] else Inl err"
  have p: "processConditionResult c b r s = (Returns (if b then chain_spec ?st us [r] else chain_spec ?st gs [r]), s)" for b r
    using assms by (auto simp: processConditionResult_def runNestedModules_def nested_chain_acts)
  have "condition_loop env c i rs result s = (Returns (prepend result (batch_spec ?one i rs)), s)" for i rs result
  proof (induction rs arbitrary: i result)
    case (Cons r rs)
    show ?case
    proof (cases "ce_Run env (cd_program c) r s")
      case (Inl err)
      then have one: "?one i r = (if tolerant ?st then Inr [] else Inl (evaluation_error (ce_type_of env) (cd_expression c) i err))"
        by simp
      from Inl have step: "condition_loop env c i (r # rs) result s =
          (if tolerant ?st then condition_loop env c (Suc i) rs result s
           else (Returns (Inl (evaluation_error (ce_type_of env) (cd_expression c) i err)), s))"
        by (simp add: condition_loop.simps(2) handles evaluation_error_def)
      show ?thesis unfolding batch_spec.simps one step using Cons.IH [of "Suc i" result] by simp
    next
      case (Inr v)
      obtain y where y: "y = (if truthy v then chain_spec ?st us [r] else chain_spec ?st gs [r])" by blast
      have one: "?one i r = (case y of Inr xs \<Rightarrow> Inr xs | Inl err \<Rightarrow> if tolerant ?st then Inr [] else Inl err)"
        by (simp add: Inr y)
      have step: "condition_loop env c i (r # rs) result s =
          (case y of Inl err \<Rightarrow> if tolerant ?st then condition_loop env c (Suc i) rs result s else (Returns (Inl err), s)
           | Inr xs \<Rightarrow> condition_loop env c (Suc i) rs (result @ xs) s)"
        by (cases y) (simp_all add: condition_loop.simps(2) handles Inr p toBool_truthy y [symmetric])
      show ?thesis unfolding batch_spec.simps one step
        using Cons.IH [of "Suc i"] by (cases y) simp_all
    qed
  qed simp
  then show ?thesis by (simp add: acts_as_def condition_Process_def)
qed


subsection \<open>What construction guarantees\<close>

text \<open>
  A well-formed tree: every expression is within its bounds and compiles to the program that is
  run, every strategy is one of the three.
\<close>

primrec valid_built :: "('p, 'w) cond_env \<Rightarrow> ('p, 'w) built \<Rightarrow> bool" where
  "valid_built env (BuiltCondition expression onError p ts es) \<longleftrightarrow>
     expression \<noteq> [] \<and> length expression \<le> MaxExpressionLength \<and> ce_Compile env expression = Inr p
     \<and> onError \<in> {OnErrorFail, OnErrorSkip, OnErrorLog}
     \<and> list_all (\<lambda>x. x) (map (valid_built env) ts) \<and> list_all (\<lambda>x. x) (map (valid_built env) es)"
| "valid_built env (BuiltModule m) \<longleftrightarrow> True"

definition enabled_configs :: "NestedModuleConfig option list \<Rightarrow> NestedModuleConfig list" where
  "enabled_configs cs = filter (\<lambda>c. nm_Enabled c \<noteq> Some False) (map the (filter (\<lambda>c. c \<noteq> None) cs))"

lemma validateExpression_bounds:
  "validateExpression e = Inr e' \<Longrightarrow> e' = e \<and> e \<noteq> [] \<and> length e \<le> MaxExpressionLength"
  by (auto simp: validateExpression_def split: if_splits)

lemma ParseOnErrorStrategy_range: "ParseOnErrorStrategy s = Inr st \<Longrightarrow> st \<in> {OnErrorFail, OnErrorSkip, OnErrorLog}"
  by (auto simp: ParseOnErrorStrategy_def Let_def split: if_splits)

lemma built_valid:
  fixes env :: "('p, 'w, 't) nested_env"
  assumes "\<And>f c b. creator = Some f \<Longrightarrow> f c = Inr b \<Longrightarrow> valid_built (ne_cond env) b"
  shows "createNestedModule env creator c = Inr b \<Longrightarrow> valid_built (ne_cond env) b"
    and "nested_modules env creator mk i cs = Inr bs
      \<Longrightarrow> list_all (valid_built (ne_cond env)) bs \<and> length bs = length (enabled_configs cs)"
    and "NewConditionFromConfig env creator e st ts es = Inr b
      \<Longrightarrow> valid_built (ne_cond env) b \<and> length (bc_then b) = length (enabled_configs ts) \<and> length (bc_else b) = length (enabled_configs es)"
  using assms
proof (induction env creator c and env creator mk i cs and env creator e st ts es
    arbitrary: b and bs and b rule: createNestedModule_nested_modules_NewConditionFromConfig.induct)
  case (1 env creator ty cfg ms en e st ts es)
  then show ?case
    by (auto simp: create_leaf_def split: if_splits option.splits sum.splits)
next
  case (4 env creator mk i cfg configs)
  then show ?case
    by (auto simp: enabled_configs_def split: if_splits sum.splits)
next
  case (5 env creator e st ts es)
  then show ?case
    by (auto simp: list_all_length compileExpression_def dest!: validateExpression_bounds dest: ParseOnErrorStrategy_range
        split: sum.splits)
qed (auto simp: enabled_configs_def)

text \<open>
  What the constructor of a condition accepts is well formed all the way down: at any depth of
  the conditions it builds itself, the expression is not blank, within the limit and compiled,
  and the strategy is one of the three. Each branch has one module for each configuration that
  is neither nil nor disabled.
\<close>
theorem conditions_well_formed:
  assumes "NewConditionFromConfig env nestedCreator expression onError thens elses = Inr b"
    and "\<forall>creator c m. nestedCreator = Some creator \<longrightarrow> creator c = Inr m \<longrightarrow> valid_built (ne_cond env) m"
  shows "valid_built (ne_cond env) b
    \<and> length (bc_then b) = length (enabled_configs thens) \<and> length (bc_else b) = length (enabled_configs elses)"
  using built_valid(3) [OF _ assms(1)] assms(2) by blast

subsection \<open>Surprises\<close>

text \<open>
  Under log the other filters keep a failed record, with a marker. The condition drops it, without
  a marker and without a count, exactly as under skip.
\<close>

theorem unevaluable_dropped_unmarked:
  assumes "cd_onError c = OnErrorLog" "\<forall>r s. ce_Run env (cd_program c) r s = Inl err"
  shows "condition_Process env c (Some rs) s = (Returns (Inr []), s)"
proof -
  have "condition_loop env c i rs result s = (Returns (Inr result), s)" for i result
    using assms by (induction rs arbitrary: i) (simp_all add: condition_loop.simps(2) cond_handleError_def)
  then show ?thesis by (simp add: condition_Process_def)
qed

text \<open>
  Under skip a record whose nested filter fails is not skipped: the chain swallows the error, so
  the branch of the module that handles it never runs, and the record goes on.
\<close>

theorem nested_failure_not_skipped:
  assumes "cd_onError c = OnErrorSkip" "cd_thenModules c = [m]" "\<forall>rs s. m rs s = (Returns (Inl err), s)"
    and "\<forall>r s. ce_Run env (cd_program c) r s = Inr (EvBool True)"
  shows "condition_Process env c (Some rs) s = (Returns (Inr rs), s)"
proof -
  have "condition_loop env c i rs result s = (Returns (Inr (result @ rs)), s)" for i result
    using assms
    by (induction rs arbitrary: i result)
      (simp_all add: condition_loop.simps(2) processConditionResult_def runNestedModules_def toBool_def)
  then show ?thesis by (simp add: condition_Process_def)
qed

text \<open>
  The record that goes on is not the one "from before the failed module": a nested filter writes
  to it in place, and what it wrote before it failed stays.
\<close>

definition always_true :: "(unit, unit) cond_env" where
  "always_true = \<lparr>ce_Compile = \<lambda>_. Inr (), ce_Run = \<lambda>_ _ _. Inr (EvBool True), ce_type_of = \<lambda>_. ''error''\<rparr>"

definition half_mapping :: "unit Module" where
  "half_mapping = mapping_Module demo_map
     (demo_module [demo_mapping ''a'' ''b'' [], demo_mapping ''a'' ''y'' [''toInt'']] OnErrorFail)"

definition half_condition :: "(unit, unit) ConditionModule" where
  "half_condition = \<lparr>cd_expression = ''true'', cd_onError = OnErrorSkip, cd_program = (),
     cd_thenModules = [half_mapping], cd_elseModules = []\<rparr>"

definition half_state :: "unit fstate" where
  "half_state = \<lparr>fs_heap = demo_heap, fs_tally = None, fs_world = ()\<rparr>"

theorem failed_module_leaves_writes:
  "\<exists>s'. condition_Process always_true half_condition (Some [Some 0]) half_state = (Returns (Inr [Some 0]), s')
    \<and> maps (fs_heap half_state) 0 ''b'' = None \<and> maps (fs_heap s') 0 ''b'' = Some (HMap 1)"
proof -
  have p: "ParsePart ''a'' = Inr (''a'', -1, False)" "ParsePart ''b'' = Inr (''b'', -1, False)"
    by (simp_all add: ParsePart_def)
  have "\<exists>err h. mapping_processRecord demo_map (demo_module [demo_mapping ''a'' ''b'' [], demo_mapping ''a'' ''y'' [''toInt'']] OnErrorFail)
      (Some 0) 0 demo_heap = (Returns (Some err), h) \<and> maps h 0 ''b'' = Some (HMap 1)"
    by (simp add: mapping_processRecord_def demo_module_def demo_mapping_def getSourceValue_def h_Get_def h_navigateStep_def
        h_getFromMap_def p set_record_def h_Set_def put_map_def demo_heap_def applyTransformOp_def applyToInt_def demo_map_def)
  then obtain err h where "mapping_processRecord demo_map (demo_module [demo_mapping ''a'' ''b'' [], demo_mapping ''a'' ''y'' [''toInt'']] OnErrorFail)
      (Some 0) 0 demo_heap = (Returns (Some err), h)" "maps h 0 ''b'' = Some (HMap 1)" by blast
  moreover have "mm_onError (demo_module ms OnErrorFail) = OnErrorFail" for ms by (simp add: demo_module_def)
  ultimately have m: "half_mapping (Some [Some 0]) half_state = (Returns (Inl err), half_state\<lparr>fs_heap := h\<rparr>)" "maps h 0 ''b'' = Some (HMap 1)"
    by (simp_all add: half_mapping_def mapping_Module_def mapping_Process_def half_state_def h_HandleRecordError_def)
  then show ?thesis
    by (simp add: half_condition_def condition_Process_def condition_loop.simps(2) always_true_def processConditionResult_def
        runNestedModules_def toBool_def half_state_def demo_heap_def)
qed

subsection \<open>Witnesses\<close>

theorem condition_never_fails_witness:
  "\<exists>r s'. condition_Process always_true half_condition (Some [Some 0]) half_state = (Returns r, s') \<and> (\<exists>rs. r = Inr rs)"
proof -
  obtain s' where run: "condition_Process always_true half_condition (Some [Some 0]) half_state = (Returns (Inr [Some 0]), s')"
    using failed_module_leaves_writes by blast
  have "cd_onError half_condition = OnErrorSkip" by (simp add: half_condition_def)
  from condition_never_fails [OF disjI1 [OF this] run] run show ?thesis by blast
qed

theorem condition_batch_split_witness:
  "condition_Process always_true half_condition (Some [Some 0, Some 1]) half_state =
     (case condition_Process always_true half_condition (Some [Some 0]) half_state of
        (Returns (Inr rs), s) \<Rightarrow>
          (case condition_Process always_true half_condition (Some [Some 1]) s of
             (Returns (Inr rs'), s) \<Rightarrow> (Returns (Inr (rs @ rs')), s) | other \<Rightarrow> other)
      | other \<Rightarrow> other)"
proof -
  have "cd_onError half_condition = OnErrorSkip" by (simp add: half_condition_def)
  from condition_batch_split [OF disjI1 [OF this], of always_true "[Some 0]" "[Some 1]" half_state] show ?thesis
    by (simp only: append.simps)
qed

text \<open>A condition on the field \<open>n\<close> of a record; a record without it does not evaluate. One branch drops the others.\<close>

definition field_env :: "(unit, unit) cond_env" where
  "field_env = \<lparr>ce_Compile = \<lambda>_. Inr (),
     ce_Run = \<lambda>_ r s. (case r of None \<Rightarrow> Inl (plain_error ''nil'')
       | Some a \<Rightarrow> (case maps (fs_heap s) a ''n'' of Some (HInt i) \<Rightarrow> Inr (EvInt i) | _ \<Rightarrow> Inl (plain_error ''no n''))),
     ce_type_of = \<lambda>_. ''error''\<rparr>"

definition field_tree :: "(unit, unit) built" where
  "field_tree = BuiltCondition ''n'' OnErrorSkip () [] [BuiltModule h_drop_Process]"

definition field_state :: "unit fstate" where
  "field_state = half_state\<lparr>fs_heap := (fs_heap half_state)\<lparr>maps :=
     (\<lambda>a. if a = 0 then [''n'' \<mapsto> HInt 5] else if a = 1 then [''n'' \<mapsto> HInt 0] else Map.empty)\<rparr>\<rparr>"


definition even_env :: "(unit, unit) cond_env" where
  "even_env = \<lparr>ce_Compile = \<lambda>_. Inr (),
     ce_Run = \<lambda>_ r _. Inr (EvInt (case r of None \<Rightarrow> 0 | Some a \<Rightarrow> if even a then 1 else 0)), ce_type_of = \<lambda>_. ''error''\<rparr>"

definition even_nested :: "(unit, unit, unit) nested_env" where
  "even_nested = \<lparr>ne_cond = even_env, ne_regexp = \<lambda>_. Inr (\<lambda>s _. s), ne_mapping = demo_map, ne_value = unscalar\<rparr>"

theorem conditions_well_formed_witness:
  "\<exists>b. NewConditionFromConfig even_nested None ''even'' [] [None] [Some (NestedModuleConfig ''drop'' None [] None [] [] [] [])] = Inr b
    \<and> valid_built even_env b \<and> length (bc_else b) = 1"
proof -
  have r: "NewConditionFromConfig even_nested None ''even'' [] [None] [Some (NestedModuleConfig ''drop'' None [] None [] [] [] [])]
    = Inr (BuiltCondition ''even'' OnErrorFail () [] [BuiltModule h_drop_Process])"
    by (simp add: validateExpression_def isWhitespaceOnly_def MaxExpressionLength_def parse_default_strategy
        compileExpression_def even_nested_def even_env_def create_leaf_def)
  from conditions_well_formed [OF r] r show ?thesis by (simp add: even_nested_def)
qed

theorem unevaluable_dropped_unmarked_witness:
  "condition_Process (always_true\<lparr>ce_Run := \<lambda>_ _ _. Inl (plain_error ''x'')\<rparr>) (half_condition\<lparr>cd_onError := OnErrorLog\<rparr>) (Some [Some 0]) half_state
    = (Returns (Inr []), half_state)"
  by (rule unevaluable_dropped_unmarked) (simp_all add: half_condition_def always_true_def)

theorem nested_failure_not_skipped_witness:
  "condition_Process always_true (half_condition\<lparr>cd_thenModules := [\<lambda>rs s. (Returns (Inl (plain_error ''x'')), s)]\<rparr>) (Some [Some 0]) half_state
    = (Returns (Inr [Some 0]), half_state)"
proof (rule nested_failure_not_skipped)
  show "\<forall>rs s. (\<lambda>rs s. (Returns (Inl (plain_error ''x'')), s)) rs s = (Returns (Inl (plain_error ''x'')), s)" by blast
qed (simp_all add: half_condition_def always_true_def)

end
