(* ===== verification/LoopFilter.thy ===== *)
theory LoopFilter
  imports ConditionFilter
begin

text \<open>
  The loop filter, \<open>src/internal/modules/filter/loop.go\<close>, and the render context that takes a loop
  scope apart again, \<open>src/internal/template/context.go\<close>. For each item of an array the nested
  filters run on a scope, a record that shares the root record, its metadata and the item; the
  array is replaced by the items they leave. \<open>json.Marshal\<close>, the \<open>%T\<close> verb , the spare capacity of a slice and the state of the
  context are the argument \<open>loop_env\<close>.
\<close>

subsection \<open>The render context\<close>

definition VarRecord :: string where "VarRecord = ''record''"

definition ReservedVarNames :: "string list" where
  "ReservedVarNames = [VarRecord, ''meta'', ''state'', ''pagination'']"

definition IsReservedVarName :: "string \<Rightarrow> bool" where
  "IsReservedVarName name \<longleftrightarrow> name \<in> set ReservedVarNames"

text \<open>Maps of the heap; a nil map is \<open>None\<close>.\<close>

record RenderContext =
  rx_Record :: "nat option"
  rx_Meta :: "nat option"
  rx_State :: "nat option"
  rx_Pagination :: "nat option"
  rx_Extra :: "nat option"

definition map_at :: "heap \<Rightarrow> nat option \<Rightarrow> string \<Rightarrow> nat option" where
  "map_at h record key = (case record of
     None \<Rightarrow> None
   | Some r \<Rightarrow> (case maps h r key of Some (HMap a) \<Rightarrow> Some a | _ \<Rightarrow> None))"

text \<open>\<open>orEmpty\<close> stands for a nil map by an empty one, which no entry of the heap needs.\<close>

definition Vars :: "heap \<Rightarrow> RenderContext \<Rightarrow> string \<Rightarrow> hval option" where
  "Vars h rc =
     (let vars = (case rx_Extra rc of None \<Rightarrow> Map.empty | Some e \<Rightarrow> maps h e);
          place = (\<lambda>m. case m of None \<Rightarrow> HNil | Some a \<Rightarrow> HMap a)
      in vars(VarRecord \<mapsto> place (rx_Record rc), ''meta'' \<mapsto> place (rx_Meta rc), ''state'' \<mapsto> place (rx_State rc),
              ''pagination'' \<mapsto> place (rx_Pagination rc)))"

definition loopScopeRoot :: "heap \<Rightarrow> nat option \<Rightarrow> nat option \<Rightarrow> nat option" where
  "loopScopeRoot h record meta =
     (case meta of
        None \<Rightarrow> None
      | Some m \<Rightarrow>
          if maps h m = Map.empty then None
          else (case map_at h meta LoopFieldName of
                  None \<Rightarrow> None
                | Some loopMeta \<Rightarrow> if maps h loopMeta = Map.empty then None else map_at h record VarRecord))"

definition ContextForRecord :: "heap \<Rightarrow> nat option \<Rightarrow> RenderContext" where
  "ContextForRecord h record =
     (let meta = map_at h record DefaultFieldName
      in case loopScopeRoot h record meta of
           None \<Rightarrow> \<lparr>rx_Record = record, rx_Meta = meta, rx_State = None, rx_Pagination = None, rx_Extra = None\<rparr>
         | Some rootRecord \<Rightarrow> \<lparr>rx_Record = Some rootRecord, rx_Meta = meta, rx_State = None, rx_Pagination = None, rx_Extra = record\<rparr>)"

subsection \<open>Construction\<close>

definition reservedItemNames :: "string list" where
  "reservedItemNames = ReservedVarNames @ [DefaultFieldName, LoopFieldName]"

record 'w LoopModule =
  lp_field :: string
  lp_itemName :: string
  lp_onError :: strategy
  lp_modules :: "'w Module list"

datatype loop_config_error =
    ErrLoopFieldRequired | ErrLoopItemNameRequired | ErrLoopReservedItemName string
  | LoopStrategy strategy_error | LoopNested nested_error

definition NewLoopFromConfig ::
  "('p, 'w, 't) nested_env \<Rightarrow> (NestedModuleConfig \<Rightarrow> nested_error + ('p, 'w) built) option
   \<Rightarrow> string \<Rightarrow> string \<Rightarrow> string \<Rightarrow> NestedModuleConfig option list \<Rightarrow> loop_config_error + 'w LoopModule" where
  "NewLoopFromConfig env nestedCreator config_Field config_ItemName onError filters =
     (let field = trim_space config_Field; itemName = trim_space config_ItemName
      in if field = [] then Inl ErrLoopFieldRequired
         else if itemName = [] then Inl ErrLoopItemNameRequired
         else if itemName \<in> set reservedItemNames then Inl (ErrLoopReservedItemName itemName)
         else (case ParseOnErrorStrategy onError of
                 Inl err \<Rightarrow> Inl (LoopStrategy err)
               | Inr strategy \<Rightarrow>
                   (case nested_modules env nestedCreator NestedAt 0 filters of
                      Inl err \<Rightarrow> Inl (LoopNested err)
                    | Inr modules \<Rightarrow>
                        Inr \<lparr>lp_field = field, lp_itemName = itemName, lp_onError = strategy,
                             lp_modules = map (module_of (ne_cond env)) modules\<rparr>)))"

subsection \<open>One record\<close>

record 'w loop_env =
  le_Marshal :: "heap \<Rightarrow> hval \<Rightarrow> gerr + string"
  le_fmt_T :: "hval \<Rightarrow> string"
  le_ctx_Err :: "'w \<Rightarrow> gerr option \<times> 'w"
  le_spare :: "nat \<Rightarrow> nat"

definition ctx_Err :: "'w loop_env \<Rightarrow> 'w fstate \<Rightarrow> gerr option \<times> 'w fstate" where
  "ctx_Err env s = (case le_ctx_Err env (fs_world s) of (e, w) \<Rightarrow> (e, s\<lparr>fs_world := w\<rparr>))"

definition on_heap :: "(heap \<Rightarrow> heap) \<Rightarrow> 'w fstate \<Rightarrow> 'w fstate" where
  "on_heap f s = s\<lparr>fs_heap := f (fs_heap s)\<rparr>"

definition ensureScopeMap :: "nat \<Rightarrow> string \<Rightarrow> heap \<Rightarrow> nat \<times> bool \<times> heap" where
  "ensureScopeMap parent key h =
     (case maps h parent key of
        Some (HMap existing) \<Rightarrow> (existing, True, h)
      | _ \<Rightarrow> (case new_map h of (created, h) \<Rightarrow> (created, False, put_map parent key (HMap created) h)))"

definition loopBranchFromRoot :: "heap \<Rightarrow> nat \<Rightarrow> hval" where
  "loopBranchFromRoot h rootRecord =
     (case maps h rootRecord DefaultFieldName of
        Some (HMap md) \<Rightarrow> (case maps h md LoopFieldName of None \<Rightarrow> HNil | Some v \<Rightarrow> v)
      | _ \<Rightarrow> HNil)"

definition jsonEqualSnapshot :: "'w loop_env \<Rightarrow> heap \<Rightarrow> hval \<Rightarrow> string \<Rightarrow> bool" where
  "jsonEqualSnapshot env h v snap \<longleftrightarrow> (case le_Marshal env h v of Inl _ \<Rightarrow> False | Inr current \<Rightarrow> current = snap)"

definition buildLoopScope :: "nat \<Rightarrow> nat \<Rightarrow> nat \<Rightarrow> string \<Rightarrow> hval \<Rightarrow> bool \<Rightarrow> heap \<Rightarrow> nat \<times> heap" where
  "buildLoopScope R rootRecord scopeMeta itemName item isNested h =
     (case new_map h of (scope, h1) \<Rightarrow>
        (scope,
         h1\<lparr>maps := (maps h1)(scope :=
              (if isNested then (maps h1 R)(itemName \<mapsto> item)
               else [VarRecord \<mapsto> HMap rootRecord, DefaultFieldName \<mapsto> HMap scopeMeta, itemName \<mapsto> item]))\<rparr>))"

fun runNested :: "'w Module list \<Rightarrow> nat option list \<Rightarrow> 'w fstate \<Rightarrow> 'w process_result" where
  "runNested [] records s = (Returns (Inr records), s)"
| "runNested (m # ms) records s =
     (case m (Some records) s of
        (NilMapPanic, s) \<Rightarrow> (NilMapPanic, s)
      | (Returns (Inl err), s) \<Rightarrow> (Returns (Inl err), s)
      | (Returns (Inr processed), s) \<Rightarrow> if processed = [] then (Returns (Inr processed), s) else runNested ms processed s)"

definition loop_sentinel :: "string \<Rightarrow> string \<Rightarrow> gerr" where
  "loop_sentinel sentinel msg = errorf (sentinel @ msg) (plain_error sentinel)"

definition is_map :: "hval \<Rightarrow> bool" where
  "is_map v \<longleftrightarrow> (case v of HMap _ \<Rightarrow> True | _ \<Rightarrow> False)"

text \<open>
  The loop over the items from \<open>i\<close>, with \<open>k\<close> left: \<open>range\<close> takes the array and its length once and
  reads each item when its turn comes. \<open>newArr\<close> is not visible to anyone until it is written back.
\<close>

fun loop_items ::
  "'w loop_env \<Rightarrow> 'w LoopModule \<Rightarrow> nat \<Rightarrow> nat \<Rightarrow> nat \<Rightarrow> nat \<Rightarrow> bool \<Rightarrow> nat \<Rightarrow> nat \<Rightarrow> nat \<Rightarrow> hval list \<Rightarrow> 'w fstate
   \<Rightarrow> (gerr + hval list) outcome_or_panic \<times> 'w fstate" where
  "loop_items env l R rootRecord scopeMeta aliasState isNested b i 0 newArr s = (Returns (Inr newArr), s)"
| "loop_items env l R rootRecord scopeMeta aliasState isNested b i (Suc k) newArr s =
     (case ctx_Err env s of
        (Some err, s) \<Rightarrow> (Returns (Inl err), s)
      | (None, s) \<Rightarrow>
          let item = arrs (fs_heap s) b ! i;
              h = put_map aliasState ''index'' (HInt (int i)) (fs_heap s)
          in (case buildLoopScope R rootRecord scopeMeta (lp_itemName l) item isNested h of
                (scope, h) \<Rightarrow>
                  let s = s\<lparr>fs_heap := h\<rparr>
                  in (case le_Marshal env h (loopBranchFromRoot h rootRecord) of
                        Inl err \<Rightarrow> (Returns (Inl (errorf (''snapshotting loop metadata: '' @ err_text err) err)), s)
                      | Inr snap \<Rightarrow>
                          (case runNested (lp_modules l) [Some scope] s of
                             (NilMapPanic, s) \<Rightarrow> (NilMapPanic, s)
                           | (Returns (Inl err), s) \<Rightarrow>
                               (Returns (Inl (errorf (''nested filters failed at item '' @ itoa (int i) @ '': '' @ err_text err) err)), s)
                           | (Returns (Inr processed), s) \<Rightarrow>
                               if \<not> jsonEqualSnapshot env (fs_heap s) (loopBranchFromRoot (fs_heap s) rootRecord) snap then
                                 (Returns (Inl (loop_sentinel ''nested filters wrote to _metadata.loop which is read-only''
                                    ('' (alias \"'' @ lp_itemName l @ ''\", index '' @ itoa (int i) @ '')''))), s)
                               else
                                 (case processed of
                                    [] \<Rightarrow> loop_items env l R rootRecord scopeMeta aliasState isNested b (Suc i) k newArr s
                                  | [p] \<Rightarrow>
                                      (case Option.bind p (\<lambda>r. maps (fs_heap s) r (lp_itemName l)) of
                                         None \<Rightarrow> loop_items env l R rootRecord scopeMeta aliasState isNested b (Suc i) k newArr s
                                       | Some updatedItem \<Rightarrow>
                                           if \<not> is_map item \<and> is_map updatedItem then
                                             (Returns (Inl (loop_sentinel ''loop nested filters cannot write sub-fields on a non-object item''
                                                ('' (item '' @ itoa (int i) @ '', type '' @ le_fmt_T env item @
                                                 ''): nested writes silently auto-create a map under the item alias''))), s)
                                           else loop_items env l R rootRecord scopeMeta aliasState isNested b (Suc i) k
                                                  (newArr @ [updatedItem]) s)
                                  | _ \<Rightarrow>
                                      (Returns (Inl (loop_sentinel ''loop nested filters returned more than one record for an item''
                                         ('': '' @ itoa (int (length processed)) @ '' records returned at item '' @ itoa (int i)))), s))))))"

text \<open>The deferred function, on the references the heap holds when the record is done.\<close>

definition loop_cleanup :: "nat \<Rightarrow> string \<Rightarrow> bool \<Rightarrow> bool \<Rightarrow> heap \<Rightarrow> heap" where
  "loop_cleanup rootRecord itemName metadataPreExisted loopMetaPreExisted h =
     (case map_at h (Some rootRecord) DefaultFieldName of
        None \<Rightarrow> h
      | Some md \<Rightarrow>
          let h = (case map_at h (Some md) LoopFieldName of
                     None \<Rightarrow> h
                   | Some lm \<Rightarrow>
                       let h = del_map lm itemName h
                       in if \<not> loopMetaPreExisted \<and> maps h lm = Map.empty then del_map md LoopFieldName h else h)
          in if \<not> metadataPreExisted \<and> maps h md = Map.empty then del_map rootRecord DefaultFieldName h else h)"

definition loop_root :: "heap \<Rightarrow> nat \<Rightarrow> nat \<times> bool" where
  "loop_root h R = (case map_at h (Some R) VarRecord of Some rootRecord \<Rightarrow> (rootRecord, True) | None \<Rightarrow> (R, False))"

text \<open>The items, the array written back, and the deferred function.\<close>

definition loop_array ::
  "'w loop_env \<Rightarrow> 'w LoopModule \<Rightarrow> nat \<Rightarrow> nat \<Rightarrow> nat \<Rightarrow> nat \<Rightarrow> bool \<Rightarrow> nat \<Rightarrow> nat \<Rightarrow> 'w fstate
   \<Rightarrow> gerr option outcome_or_panic \<times> 'w fstate" where
  "loop_array env l R rootRecord scopeMeta aliasState isNested b n s =
     (case loop_items env l R rootRecord scopeMeta aliasState isNested b 0 n [] s of
        (NilMapPanic, s) \<Rightarrow> (NilMapPanic, s)
      | (Returns (Inl err), s) \<Rightarrow> (Returns (Some err), s)
      | (Returns (Inr newArr), s) \<Rightarrow>
          (case new_arr (newArr @ replicate (n - length newArr) HNil) (fs_heap s) of
             (b', h) \<Rightarrow>
               (case h_Set (le_spare env) R (lp_field l) (HArr b' (length newArr)) h of
                  (None, h) \<Rightarrow> (Returns None, s\<lparr>fs_heap := h\<rparr>)
                | (Some e, h) \<Rightarrow>
                    (Returns (Some (errorf (''writing back array to \"'' @ lp_field l @ ''\": '' @ err_text (path_gerr e)) (path_gerr e))),
                     s\<lparr>fs_heap := h\<rparr>))))"

definition loop_processRecord ::
  "'w loop_env \<Rightarrow> 'w LoopModule \<Rightarrow> nat option \<Rightarrow> nat \<Rightarrow> 'w fstate \<Rightarrow> gerr option outcome_or_panic \<times> 'w fstate" where
  "loop_processRecord env l record recordIdx s =
     (case record of
        None \<Rightarrow> (Returns None, s)
      | Some R \<Rightarrow>
          (case h_Get (fs_heap s) R (lp_field l) of
             None \<Rightarrow> (Returns None, s)
           | Some HNil \<Rightarrow> (Returns None, s)
           | Some (HArr b n) \<Rightarrow>
               (case loop_root (fs_heap s) R of (rootRecord, isNested) \<Rightarrow>
                case ensureScopeMap rootRecord DefaultFieldName (fs_heap s) of (scopeMeta, metadataPreExisted, h) \<Rightarrow>
                case ensureScopeMap scopeMeta LoopFieldName h of (loopMeta, loopMetaPreExisted, h) \<Rightarrow>
                  if maps h loopMeta (lp_itemName l) \<noteq> None then
                    (Returns (Some (loop_sentinel ''loop itemName conflicts with an active parent loop alias''
                       ('': alias \"'' @ lp_itemName l @ ''\" already active''))), s\<lparr>fs_heap := h\<rparr>)
                  else (case new_map h of
                          (aliasState, h) \<Rightarrow>
                            (case loop_array env l R rootRecord scopeMeta aliasState isNested b n
                                    (s\<lparr>fs_heap := put_map loopMeta (lp_itemName l) (HMap aliasState) h\<rparr>) of
                               (result, s) \<Rightarrow>
                                 (result, on_heap (loop_cleanup rootRecord (lp_itemName l) metadataPreExisted loopMetaPreExisted) s))))
           | Some raw \<Rightarrow>
               (Returns (Some (loop_sentinel ''loop field is not an array''
                  ('': field \"'' @ lp_field l @ ''\" is '' @ le_fmt_T env raw @ '' at record '' @ itoa (int recordIdx)))), s)))"

subsection \<open>A batch\<close>

fun loop_records ::
  "'w loop_env \<Rightarrow> 'w LoopModule \<Rightarrow> nat \<Rightarrow> nat option list \<Rightarrow> nat option list \<Rightarrow> 'w fstate \<Rightarrow> 'w process_result" where
  "loop_records env l recordIdx [] result s = (Returns (Inr result), s)"
| "loop_records env l recordIdx (r # rs) result s =
     (case ctx_Err env s of
        (Some err, s) \<Rightarrow> (Returns (Inl err), s)
      | (None, s) \<Rightarrow>
          (case loop_processRecord env l r recordIdx s of
             (NilMapPanic, s) \<Rightarrow> (NilMapPanic, s)
           | (Returns None, s) \<Rightarrow> loop_records env l (Suc recordIdx) rs (result @ [r]) s
           | (Returns (Some err), s) \<Rightarrow>
               if lp_onError l = OnErrorFail then (Returns (Inl err), s)
               else if lp_onError l = OnErrorSkip then loop_records env l (Suc recordIdx) rs result s
               else if lp_onError l = OnErrorLog then loop_records env l (Suc recordIdx) rs (result @ [r]) s
               else (Returns (Inl err), s)))"

definition loop_Process :: "'w loop_env \<Rightarrow> 'w LoopModule \<Rightarrow> 'w Module" where
  "loop_Process env l records s =
     (case records of None \<Rightarrow> (Returns (Inr []), s) | Some rs \<Rightarrow> loop_records env l 0 rs [] s)"

declare loop_items.simps(2) [simp del] loop_records.simps(2) [simp del]

subsection \<open>The alias is released\<close>

definition alias_active :: "heap \<Rightarrow> nat \<Rightarrow> string \<Rightarrow> bool" where
  "alias_active h rootRecord alias \<longleftrightarrow>
     (\<exists>md lm. map_at h (Some rootRecord) DefaultFieldName = Some md \<and> map_at h (Some md) LoopFieldName = Some lm
        \<and> maps h lm alias \<noteq> None)"

lemma map_at_Some [simp]: "map_at h (Some r) key = Some a \<longleftrightarrow> maps h r key = Some (HMap a)"
  by (auto simp: map_at_def split: option.splits hval.splits)

lemma map_at_None [simp]: "map_at h (Some r) key = None \<longleftrightarrow> (\<forall>a. maps h r key \<noteq> Some (HMap a))"
  by (auto simp: map_at_def split: option.splits hval.splits)

lemma loop_cleanup_releases: "\<not> alias_active (loop_cleanup rootRecord alias mp lp h) rootRecord alias"
  by (auto simp: alias_active_def loop_cleanup_def Let_def del_map_def split: option.splits if_splits)

lemma ensureScopeMap_cases:
  assumes "ensureScopeMap parent key h = (a, existed, h')"
  obtains "map_at h (Some parent) key = Some a" "existed" "h' = h"
  | "map_at h (Some parent) key = None" "\<not> existed" "a = fresh h" "h' = put_map parent key (HMap a) (snd (new_map h))"
  using assms by (auto simp: ensureScopeMap_def new_map_def split: option.splits hval.splits)

lemma ensureScopeMap_new:
  assumes "ensureScopeMap parent key h = (a, False, h')" "k \<noteq> key"
  shows "maps h' a k = None"
  using assms by (auto elim!: ensureScopeMap_cases simp: new_map_def put_map_def)

lemma ensureScopeMap_idle:
  assumes "alias \<noteq> LoopFieldName" "\<not> alias_active h rootRecord alias"
    and "ensureScopeMap rootRecord DefaultFieldName h = (md, mp, h1)" "ensureScopeMap md LoopFieldName h1 = (lm, lp, h2)"
  shows "maps h2 lm alias = None"
proof (cases lp)
  case False
  with assms(4) show ?thesis by (auto intro: ensureScopeMap_new [OF _ assms(1)])
next
  case True
  with assms(4) have lm: "map_at h1 (Some md) LoopFieldName = Some lm" "h2 = h1" by (auto elim: ensureScopeMap_cases)
  show ?thesis
  proof (cases mp)
    case False
    have "LoopFieldName \<noteq> DefaultFieldName" by (simp add: LoopFieldName_def DefaultFieldName_def)
    with False assms(3) have "maps h1 md LoopFieldName = None" by (auto intro: ensureScopeMap_new)
    with lm show ?thesis by simp
  next
    case True
    with assms(3) have "map_at h (Some rootRecord) DefaultFieldName = Some md" "h1 = h" by (auto elim: ensureScopeMap_cases)
    with lm assms(2) show ?thesis by (auto simp: alias_active_def)
  qed
qed

text \<open>
  C19. Whatever the nested filters do to the record, its metadata and each other, and however the
  loop ends, its alias is not active on the root record afterwards if it was not before.
\<close>
theorem loop_alias_released:
  assumes "lp_itemName l \<notin> set reservedItemNames" "\<not> alias_active (fs_heap s) rootRecord (lp_itemName l)"
    and "loop_root (fs_heap s) R = (rootRecord, isNested)" "loop_processRecord env l (Some R) i s = (Returns e, s')"
  shows "\<not> alias_active (fs_heap s') rootRecord (lp_itemName l)"
proof -
  have n: "lp_itemName l \<noteq> LoopFieldName"
    using assms(1) by (auto simp: reservedItemNames_def)
  obtain md mp h1 where e1: "ensureScopeMap rootRecord DefaultFieldName (fs_heap s) = (md, mp, h1)" by (meson prod_cases3)
  obtain lm lp h2 where e2: "ensureScopeMap md LoopFieldName h1 = (lm, lp, h2)" by (meson prod_cases3)
  have idle: "maps h2 lm (lp_itemName l) = None" by (rule ensureScopeMap_idle [OF n assms(2) e1 e2])
  from assms(4) show ?thesis
    using assms(2)
    by (auto simp: loop_processRecord_def assms(3) e1 e2 idle on_heap_def loop_cleanup_releases
        split: option.splits hval.splits prod.splits)
qed

subsection \<open>What a loop computes\<close>

text \<open>
  The contract with the nested filters, in the style of a frame rule: on a scope whose item is
  \<open>v \<in> V\<close> they leave no record or the scope with the item \<open>f v\<close>, and they write to nothing that
  existed before but the scope and the containers \<open>W\<close>.
\<close>

definition stays :: "nat set \<Rightarrow> heap \<Rightarrow> heap \<Rightarrow> bool" where
  "stays W h h' \<longleftrightarrow>
     fresh h \<le> fresh h' \<and> (\<forall>a < fresh h. a \<notin> W \<longrightarrow> maps h' a = maps h a \<and> arrs h' a = arrs h a)"

definition item_chain :: "'w Module list \<Rightarrow> string \<Rightarrow> hval set \<Rightarrow> nat set \<Rightarrow> (hval \<Rightarrow> hval option) \<Rightarrow> bool" where
  "item_chain ms alias V W f \<longleftrightarrow>
     (\<forall>scope v s. scope < fresh (fs_heap s) \<longrightarrow> scope \<notin> W \<longrightarrow> v \<in> V \<longrightarrow> maps (fs_heap s) scope alias = Some v \<longrightarrow>
        (\<exists>s'. runNested ms [Some scope] s = (Returns (Inr (case f v of None \<Rightarrow> [] | Some _ \<Rightarrow> [Some scope])), s')
           \<and> (\<forall>w. f v = Some w \<longrightarrow> maps (fs_heap s') scope alias = Some w)
           \<and> stays (insert scope W) (fs_heap s) (fs_heap s')))"

lemma stays_refl [simp]: "stays W h h"
  by (simp add: stays_def)

lemma stays_trans: "stays W h h1 \<Longrightarrow> stays W h1 h2 \<Longrightarrow> stays W h h2"
  by (auto simp: stays_def)

text \<open>The heap while a loop runs on a record that had no metadata.\<close>

definition loop_inv :: "string \<Rightarrow> nat \<Rightarrow> nat \<Rightarrow> nat \<Rightarrow> nat \<Rightarrow> heap \<Rightarrow> bool" where
  "loop_inv alias R md lm al h \<longleftrightarrow>
     R < fresh h \<and> md < fresh h \<and> lm < fresh h \<and> al < fresh h \<and> distinct [R, md, lm, al]
     \<and> maps h R DefaultFieldName = Some (HMap md) \<and> maps h md = [LoopFieldName \<mapsto> HMap lm] \<and> maps h lm = [alias \<mapsto> HMap al]"

lemma loop_inv_stays:
  assumes "loop_inv alias R md lm al h" "stays W h h'" "R \<notin> W" "md \<notin> W" "lm \<notin> W"
  shows "loop_inv alias R md lm al h'"
  using assms by (auto simp: loop_inv_def stays_def)

lemma loop_inv_branch: "loop_inv alias R md lm al h \<Longrightarrow> loopBranchFromRoot h R = HMap lm"
  by (simp add: loop_inv_def loopBranchFromRoot_def)

lemma loop_branch_tree:
  assumes "maps h lm = [alias \<mapsto> HMap al]" "maps h al = [''index'' \<mapsto> HInt i]" "lm \<noteq> al" "lm < fresh h" "al < fresh h"
  shows "rep h {lm, al} (HMap lm) (GMap [alias \<mapsto> GMap [''index'' \<mapsto> GInt i]])"
proof -
  have "rep h (insert al (\<Union>k. (\<lambda>_. {}) (k :: string))) (HMap al) (GMap [''index'' \<mapsto> GInt i])"
    by (rule rep_map) (use assms in \<open>auto simp: apart_def intro: rep_scalar split: if_splits\<close>)
  then have c: "rep h {al} (HMap al) (GMap [''index'' \<mapsto> GInt i])" by simp
  have "rep h (insert lm (\<Union>k. (if k = alias then {al} else {}))) (HMap lm) (GMap [alias \<mapsto> GMap [''index'' \<mapsto> GInt i]])"
  proof (rule rep_map)
    fix k v assume "maps h lm k = Some v"
    with assms(1) have "k = alias" "v = HMap al" by (auto split: if_splits)
    with c show "\<exists>g. [alias \<mapsto> GMap [''index'' \<mapsto> GInt i]] k = Some g \<and> rep h (if k = alias then {al} else {}) v g"
      by simp
  qed (use assms in \<open>auto simp: apart_def split: if_splits\<close>)
  moreover have "insert lm (\<Union>k. (if k = alias then {al} else {})) = {lm, al}" by (auto split: if_splits)
  ultimately show ?thesis by simp
qed

text \<open>\<open>json.Marshal\<close> depends only on the value that is marshalled.\<close>

definition marshals_values :: "'w loop_env \<Rightarrow> bool" where
  "marshals_values env \<longleftrightarrow> (\<exists>json. \<forall>h S v g. rep h S v g \<longrightarrow> le_Marshal env h v = Inr (json g))"

definition ctx_open :: "'w loop_env \<Rightarrow> bool" where
  "ctx_open env \<longleftrightarrow> (\<forall>w. fst (le_ctx_Err env w) = None)"

definition item_kept :: "(hval \<Rightarrow> hval option) \<Rightarrow> hval \<Rightarrow> bool" where
  "item_kept f v \<longleftrightarrow> (\<forall>w. f v = Some w \<longrightarrow> is_map w \<longrightarrow> is_map v)"

lemma take_drop_Cons:
  assumes "take (Suc n) (drop i xs) = v # vs"
  shows "xs ! i = v" "take n (drop (Suc i) xs) = vs"
proof -
  have "i < length xs" using assms by (cases "i < length xs") simp_all
  then have "drop i xs = xs ! i # drop (Suc i) xs" by (rule Cons_nth_drop_Suc [symmetric])
  with assms show "xs ! i = v" "take n (drop (Suc i) xs) = vs" by simp_all
qed

lemma loop_items_map:
  assumes chain: "item_chain (lp_modules l) nm V W f" and nm: "lp_itemName l = nm"
    and env: "marshals_values env" "ctx_open env"
    and vals: "set vs \<subseteq> V" "\<forall>v \<in> set vs. item_kept f v"
    and W: "R \<notin> W" "md \<notin> W" "lm \<notin> W" "al \<notin> W" "b \<notin> W" "b \<noteq> al"
    and "loop_inv nm R md lm al (fs_heap s)" "maps (fs_heap s) al = Map.empty \<or> (\<exists>j. maps (fs_heap s) al = [''index'' \<mapsto> j])"
    and "b < fresh (fs_heap s)" "W \<subseteq> {..<fresh (fs_heap s)}" "take (length vs) (drop i (arrs (fs_heap s) b)) = vs"
  shows "\<exists>s'. loop_items env l R R md al False b i (length vs) newArr s = (Returns (Inr (newArr @ List.map_filter f vs)), s')
    \<and> loop_inv nm R md lm al (fs_heap s') \<and> stays (insert al W) (fs_heap s) (fs_heap s')
    \<and> (maps (fs_heap s') al = Map.empty \<or> (\<exists>j. maps (fs_heap s') al = [''index'' \<mapsto> j]))"
  using vals assms(13-)
proof (induction vs arbitrary: i newArr s)
  case Nil
  then show ?case by (simp add: map_filter_simps)
next
  case (Cons v vs)
  let ?h = "fs_heap s"
  obtain w where ctx: "le_ctx_Err env (fs_world s) = (None, w)" using env(2) by (metis ctx_open_def prod.collapse)
  note vs = take_drop_Cons [OF Cons.prems(7) [unfolded length_Cons]]
  define sc where "sc = fresh ?h"
  define h1 where "h1 = snd (buildLoopScope R R md nm v False (put_map al ''index'' (HInt (int i)) ?h))"
  have inv: "R < sc" "md < sc" "lm < sc" "al < sc" "distinct [R, md, lm, al]"
    using Cons.prems(3) by (simp_all add: loop_inv_def sc_def)
  have scope: "buildLoopScope R R md nm v False (put_map al ''index'' (HInt (int i)) ?h) = (sc, h1)"
    by (simp add: h1_def buildLoopScope_def new_map_def put_map_def sc_def)
  have h1: "maps h1 sc nm = Some v" "fresh h1 = Suc sc" "arrs h1 = arrs ?h" "\<And>a. a \<noteq> sc \<Longrightarrow> a \<noteq> al \<Longrightarrow> maps h1 a = maps ?h a"
    by (simp_all add: h1_def buildLoopScope_def new_map_def put_map_def sc_def)
  have al1: "maps h1 al = [''index'' \<mapsto> HInt (int i)]"
    using Cons.prems(4) inv(4) by (auto simp: h1_def buildLoopScope_def new_map_def put_map_def sc_def)
  have inv1: "loop_inv nm R md lm al h1" using Cons.prems(3) inv h1(2,4) by (auto simp: loop_inv_def)
  define s1 where "s1 = s\<lparr>fs_world := w, fs_heap := h1\<rparr>"
  have scW: "sc \<notin> W" using Cons.prems(6) by (auto simp: sc_def)
  obtain s2 where run: "runNested (lp_modules l) [Some sc] s1 = (Returns (Inr (case f v of None \<Rightarrow> [] | Some _ \<Rightarrow> [Some sc])), s2)"
    and res: "\<And>x. f v = Some x \<Longrightarrow> maps (fs_heap s2) sc nm = Some x" and st: "stays (insert sc W) h1 (fs_heap s2)"
  proof -
    have "sc < fresh (fs_heap s1)" "maps (fs_heap s1) sc nm = Some v" "v \<in> V" using h1(1,2) Cons.prems(1) by (simp_all add: s1_def)
    with chain scW obtain s2 where "runNested (lp_modules l) [Some sc] s1 = (Returns (Inr (case f v of None \<Rightarrow> [] | Some _ \<Rightarrow> [Some sc])), s2)"
      "\<forall>x. f v = Some x \<longrightarrow> maps (fs_heap s2) sc nm = Some x" "stays (insert sc W) (fs_heap s1) (fs_heap s2)"
      unfolding item_chain_def by blast
    with that show ?thesis by (simp add: s1_def)
  qed
  have inv2: "loop_inv nm R md lm al (fs_heap s2)"
    by (rule loop_inv_stays [OF inv1 st]) (use W inv in auto)
  have al2: "maps (fs_heap s2) al = [''index'' \<mapsto> HInt (int i)]"
    using st al1 inv(4) W(4) h1(2) by (auto simp: stays_def)
  have branch: "loopBranchFromRoot h1 R = HMap lm" "loopBranchFromRoot (fs_heap s2) R = HMap lm"
    using loop_inv_branch inv1 inv2 by blast+
  have tree: "rep h {lm, al} (HMap lm) (GMap [nm \<mapsto> GMap [''index'' \<mapsto> GInt (int i)]])"
    if "loop_inv nm R md lm al h" "maps h al = [''index'' \<mapsto> HInt (int i)]" for h
    by (rule loop_branch_tree) (use that in \<open>auto simp: loop_inv_def\<close>)
  obtain snap where snap: "le_Marshal env h1 (HMap lm) = Inr snap" "le_Marshal env (fs_heap s2) (HMap lm) = Inr snap"
    using env(1) tree [OF inv1 al1] tree [OF inv2 al2] unfolding marshals_values_def by blast
  have stay: "stays (insert al W) ?h (fs_heap s2)"
    using st h1(2,3,4) scW by (auto simp: stays_def sc_def)
  have nxt: "b < fresh (fs_heap s2)" "W \<subseteq> {..<fresh (fs_heap s2)}" "take (length vs) (drop (Suc i) (arrs (fs_heap s2) b)) = vs"
    using stay Cons.prems(5,6) vs(2) W(5,6) by (auto simp: stays_def)
  have "\<exists>s'. loop_items env l R R md al False b (Suc i) (length vs) (newArr @ (case f v of None \<Rightarrow> [] | Some x \<Rightarrow> [x])) s2
      = (Returns (Inr ((newArr @ (case f v of None \<Rightarrow> [] | Some x \<Rightarrow> [x])) @ List.map_filter f vs)), s')
    \<and> loop_inv nm R md lm al (fs_heap s') \<and> stays (insert al W) (fs_heap s2) (fs_heap s')
    \<and> (maps (fs_heap s') al = Map.empty \<or> (\<exists>j. maps (fs_heap s') al = [''index'' \<mapsto> j]))"
    by (rule Cons.IH) (use Cons.prems inv2 al2 nxt in auto)
  then obtain s' where rest: "loop_items env l R R md al False b (Suc i) (length vs) (newArr @ (case f v of None \<Rightarrow> [] | Some x \<Rightarrow> [x])) s2
      = (Returns (Inr (newArr @ (case f v of None \<Rightarrow> [] | Some x \<Rightarrow> [x]) @ List.map_filter f vs)), s')"
    "loop_inv nm R md lm al (fs_heap s')" "stays (insert al W) (fs_heap s2) (fs_heap s')"
    "maps (fs_heap s') al = Map.empty \<or> (\<exists>j. maps (fs_heap s') al = [''index'' \<mapsto> j])" by auto
  have kept: "\<not> (\<not> is_map v \<and> is_map x)" if "f v = Some x" for x
    using Cons.prems(2) that by (auto simp: item_kept_def)
  have step: "loop_items env l R R md al False b i (Suc (length vs)) newArr s =
      loop_items env l R R md al False b (Suc i) (length vs) (newArr @ (case f v of None \<Rightarrow> [] | Some x \<Rightarrow> [x])) s2"
  proof (cases "f v")
    case (Some x)
    then show ?thesis
      using res [OF Some] kept [OF Some]
      by (auto simp add: loop_items.simps(2) ctx_Err_def ctx vs(1) nm scope Let_def branch snap jsonEqualSnapshot_def
          run [unfolded s1_def])
  qed (simp add: loop_items.simps(2) ctx_Err_def ctx vs(1) nm scope Let_def branch snap jsonEqualSnapshot_def
        run [unfolded s1_def])
  have "(case f v of None \<Rightarrow> [] | Some x \<Rightarrow> [x]) @ List.map_filter f vs = List.map_filter f (v # vs)"
    by (simp add: map_filter_simps split: option.split)
  with step rest(1) have "loop_items env l R R md al False b i (length (v # vs)) newArr s
      = (Returns (Inr (newArr @ List.map_filter f (v # vs))), s')" by simp
  with rest(2,4) stays_trans [OF stay rest(3)] show ?case by blast
qed

definition plain_key :: "string \<Rightarrow> bool" where
  "plain_key k \<longleftrightarrow> k \<noteq> [] \<and> CHR ''.'' \<notin> set k \<and> CHR ''['' \<notin> set k"

lemma plain_key_parts:
  assumes "plain_key k"
  shows "k \<noteq> []" "split_on (CHR ''.'') k = [k]" "ParsePart k = Inr (k, -1, False)"
  using assms by (auto simp: plain_key_def ParsePart_def split_on_no_sep)

text \<open>
  C18. A loop over a record without metadata applies its nested filters to every item in order:
  under the contract \<open>item_chain\<close> the array becomes the items they leave, the rest of the record is
  as before, without metadata, and no other container changes but those the nested filters may
  write.
\<close>
theorem loop_maps_items:
  assumes "item_chain (lp_modules l) (lp_itemName l) (set vs) W f" "marshals_values env" "ctx_open env"
    and "\<forall>v \<in> set vs. item_kept f v" "plain_key (lp_field l)" "lp_field l \<noteq> DefaultFieldName"
    and "maps (fs_heap s) R (lp_field l) = Some (HArr b (length vs))" "take (length vs) (arrs (fs_heap s) b) = vs"
    and "maps (fs_heap s) R DefaultFieldName = None" "map_at (fs_heap s) (Some R) VarRecord = None"
    and "R < fresh (fs_heap s)" "b < fresh (fs_heap s)" "R \<notin> W" "b \<notin> W" "W \<subseteq> {..<fresh (fs_heap s)}"
  shows "\<exists>s' b'. loop_processRecord env l (Some R) i s = (Returns None, s')
    \<and> maps (fs_heap s') R = (maps (fs_heap s) R)(lp_field l \<mapsto> HArr b' (length (List.map_filter f vs)))
    \<and> take (length (List.map_filter f vs)) (arrs (fs_heap s') b') = List.map_filter f vs
    \<and> stays (insert R W) (fs_heap s) (fs_heap s')"
proof -
  let ?h = "fs_heap s" and ?nm = "lp_itemName l" and ?xs = "List.map_filter f vs"
  define md lm al where "md = fresh ?h" and "lm = Suc md" and "al = Suc lm"
  define h1 where "h1 = put_map R DefaultFieldName (HMap md) (snd (new_map ?h))"
  define h2 where "h2 = put_map md LoopFieldName (HMap lm) (snd (new_map h1))"
  define h2' where "h2' = snd (new_map h2)"
  define h3 where "h3 = put_map lm ?nm (HMap al) h2'"
  note hs = h1_def h2_def h2'_def h3_def new_map_def put_map_def
  have ad: "R < md" "b < md" "md < lm" "lm < al" "distinct [R, md, lm, al]" "b \<noteq> al"
    using assms(11,12) by (auto simp: md_def lm_def al_def)
  have fresh3: "fresh h3 = Suc al" by (simp add: hs md_def lm_def al_def)
  have e1: "ensureScopeMap R DefaultFieldName ?h = (md, False, h1)"
    using assms(9) by (simp add: ensureScopeMap_def new_map_def h1_def md_def)
  have e2: "ensureScopeMap md LoopFieldName h1 = (lm, False, h2)"
    using ad(1) by (simp add: ensureScopeMap_def hs md_def lm_def)
  have e3: "new_map h2 = (al, h2')" by (simp add: hs md_def lm_def al_def)
  have idle: "maps h2 lm ?nm = None" by (simp add: hs md_def lm_def)
  have root: "loop_root ?h R = (R, False)" using assms(10) by (simp only: loop_root_def option.case)
  have get: "h_Get ?h R (lp_field l) = Some (HArr b (length vs))"
    using assms(7) by (simp add: h_Get_def plain_key_parts [OF assms(5)] h_navigateStep_def h_getFromMap_def)
  have inv: "loop_inv ?nm R md lm al h3"
    using ad assms(9) by (auto simp: loop_inv_def hs md_def lm_def al_def)
  have al3: "maps h3 al = Map.empty" using ad by (auto simp: hs md_def lm_def al_def)
  have old: "maps h3 a = maps ?h a" "arrs h3 = arrs ?h" if "a < md" "a \<noteq> R" for a
    using that by (auto simp: hs md_def lm_def)
  have R3: "maps h3 R = (maps ?h R)(DefaultFieldName \<mapsto> HMap md)" using ad by (auto simp: hs md_def)
  have arrs3: "arrs h3 = arrs ?h" by (simp add: hs)
  have notW: "md \<notin> W" "lm \<notin> W" "al \<notin> W" using assms(15) by (auto simp: md_def lm_def al_def)
  have "\<exists>s'. loop_items env l R R md al False b 0 (length vs) [] (s\<lparr>fs_heap := h3\<rparr>) = (Returns (Inr ([] @ ?xs)), s')
    \<and> loop_inv ?nm R md lm al (fs_heap s') \<and> stays (insert al W) (fs_heap (s\<lparr>fs_heap := h3\<rparr>)) (fs_heap s')
    \<and> (maps (fs_heap s') al = Map.empty \<or> (\<exists>j. maps (fs_heap s') al = [''index'' \<mapsto> j]))"
    by (rule loop_items_map [OF assms(1) refl assms(2,3) subset_refl assms(4,13) notW assms(14) ad(6)])
      (use inv al3 ad fresh3 assms(8,15) arrs3 in \<open>auto simp: md_def lm_def al_def\<close>)
  then obtain s1 where run: "loop_items env l R R md al False b 0 (length vs) [] (s\<lparr>fs_heap := h3\<rparr>) = (Returns (Inr ?xs), s1)"
    and inv1: "loop_inv ?nm R md lm al (fs_heap s1)" and st: "stays (insert al W) h3 (fs_heap s1)" by auto
  define b' where "b' = fresh (fs_heap s1)"
  define h4 where "h4 = put_map R (lp_field l) (HArr b' (length ?xs)) (snd (new_arr (?xs @ replicate (length vs - length ?xs) HNil) (fs_heap s1)))"
  have b': "al < b'" using inv1 by (simp add: b'_def loop_inv_def)
  have arr: "loop_array env l R R md al False b (length vs) (s\<lparr>fs_heap := h3\<rparr>) = (Returns None, s1\<lparr>fs_heap := h4\<rparr>)"
    by (simp add: loop_array_def run new_arr_def h_Set_def plain_key_parts [OF assms(5)] h4_def b'_def)
  have m4: "maps h4 R = (maps (fs_heap s1) R)(lp_field l \<mapsto> HArr b' (length ?xs))" "\<And>a. a \<noteq> R \<Longrightarrow> maps h4 a = maps (fs_heap s1) a"
    "arrs h4 b' = ?xs @ replicate (length vs - length ?xs) HNil" "\<And>a. a \<noteq> b' \<Longrightarrow> arrs h4 a = arrs (fs_heap s1) a"
    "fresh h4 = Suc b'"
    by (simp_all add: h4_def new_arr_def put_map_def b'_def)
  have four: "maps h4 R DefaultFieldName = Some (HMap md)" "maps h4 md = [LoopFieldName \<mapsto> HMap lm]" "maps h4 lm = [?nm \<mapsto> HMap al]"
    using inv1 assms(6) m4 by (auto simp: loop_inv_def)
  define h5 where "h5 = loop_cleanup R ?nm False False h4"
  have ne: "lm \<noteq> md" "md \<noteq> lm" "R \<noteq> md" "R \<noteq> lm" using ad by auto
  have clean: "h5 = del_map R DefaultFieldName (del_map md LoopFieldName (del_map lm ?nm h4))"
    using four ne unfolding h5_def loop_cleanup_def
    by (simp add: map_at_def del_map_def Let_def)
  have R5: "maps h5 R = (maps h4 R)(DefaultFieldName := None)" using ne by (simp add: clean del_map_def)
  have R1: "maps (fs_heap s1) R = (maps ?h R)(DefaultFieldName \<mapsto> HMap md)"
    using st R3 ad assms(13) fresh3 by (auto simp: stays_def)
  have "maps h5 R = (maps ?h R)(lp_field l \<mapsto> HArr b' (length ?xs))"
    using R5 m4(1) R1 assms(6,9) by (auto simp: fun_eq_iff)
  moreover have "take (length ?xs) (arrs h5 b') = ?xs" by (simp add: clean del_map_def m4(3))
  moreover have "stays (insert R W) ?h h5"
  proof -
    have "fresh ?h \<le> fresh h5" using b' ad by (simp add: clean del_map_def m4(5) md_def)
    moreover have "maps h5 a = maps ?h a \<and> arrs h5 a = arrs ?h a" if "a < fresh ?h" "a \<notin> insert R W" for a
    proof -
      have a: "a < md" "a \<noteq> R" "a \<notin> W" "a < fresh h3" "a \<noteq> al" using that ad fresh3 by (auto simp: md_def lm_def al_def)
      then have "maps h5 a = maps (fs_heap s1) a" "arrs h5 a = arrs (fs_heap s1) a"
        using ad b' m4(2,4) by (auto simp: clean del_map_def)
      moreover have "maps (fs_heap s1) a = maps h3 a" "arrs (fs_heap s1) a = arrs h3 a" using st a by (auto simp: stays_def)
      ultimately show ?thesis using old a by simp
    qed
    ultimately show ?thesis by (simp add: stays_def)
  qed
  moreover have "loop_processRecord env l (Some R) i s = (Returns None, s1\<lparr>fs_heap := h5\<rparr>)"
    by (simp add: loop_processRecord_def get root e1 e2 idle on_heap_def h5_def e3 arr [unfolded h3_def])
  ultimately show ?thesis by (intro exI [of _ "s1\<lparr>fs_heap := h5\<rparr>"] exI [of _ b']) simp
qed

subsection \<open>Scopes and templates\<close>

lemma buildLoopScope_eq:
  "buildLoopScope R rootRecord md nm item isNested h =
     (fresh h, h\<lparr>maps := (maps h)(fresh h :=
        (if isNested then (if R = fresh h then Map.empty else maps h R)(nm \<mapsto> item)
         else [VarRecord \<mapsto> HMap rootRecord, DefaultFieldName \<mapsto> HMap md, nm \<mapsto> item])), fresh := Suc (fresh h)\<rparr>)"
  by (simp add: buildLoopScope_def new_map_def)

lemma scope_names:
  assumes "nm \<notin> set reservedItemNames"
  shows "nm \<noteq> VarRecord" "nm \<noteq> DefaultFieldName" "nm \<noteq> LoopFieldName" "nm \<noteq> ''meta''" "nm \<noteq> ''state''" "nm \<noteq> ''pagination''"
  using assms by (auto simp: reservedItemNames_def ReservedVarNames_def)

text \<open>
  Templates and field paths agree inside a loop: from the scope of an item, at any depth of
  nesting, the render context recovers the root record, its metadata and the item under its
  alias.
\<close>
theorem loop_scope_unwraps:
  assumes "NewLoopFromConfig env nestedCreator field itemName onError filters = Inr l"
    and "md < fresh h" "lm < fresh h" "R < fresh h" "map_at h (Some md) LoopFieldName = Some lm" "maps h lm \<noteq> Map.empty"
    and "isNested \<Longrightarrow> maps h R VarRecord = Some (HMap rootRecord) \<and> maps h R DefaultFieldName = Some (HMap md)"
    and "buildLoopScope R rootRecord md (lp_itemName l) item isNested h = (scope, h')"
  shows "ContextForRecord h' (Some scope) =
      \<lparr>rx_Record = Some rootRecord, rx_Meta = Some md, rx_State = None, rx_Pagination = None, rx_Extra = Some scope\<rparr>
    \<and> Vars h' (ContextForRecord h' (Some scope)) (lp_itemName l) = Some item
    \<and> Vars h' (ContextForRecord h' (Some scope)) VarRecord = Some (HMap rootRecord)"
proof -
  have "lp_itemName l \<notin> set reservedItemNames"
    using assms(1) by (auto simp: NewLoopFromConfig_def Let_def split: if_splits sum.splits)
  note nm = scope_names [OF this]
  have k: "VarRecord \<noteq> DefaultFieldName" "DefaultFieldName \<noteq> VarRecord" "VarRecord \<notin> {''meta'', ''state'', ''pagination''}"
    by (simp_all add: VarRecord_def DefaultFieldName_def)
  have sc: "scope = fresh h" "maps h' scope VarRecord = Some (HMap rootRecord)" "maps h' scope DefaultFieldName = Some (HMap md)"
    "maps h' scope (lp_itemName l) = Some item" "\<And>a. a < fresh h \<Longrightarrow> maps h' a = maps h a"
    using assms(4,7,8) nm k by (auto simp: buildLoopScope_eq)
  have "maps h' md LoopFieldName = Some (HMap lm)" "maps h' lm \<noteq> Map.empty" "maps h' md \<noteq> Map.empty"
    using assms(2,3,5,6) sc(5) by auto
  then have "loopScopeRoot h' (Some scope) (Some md) = Some rootRecord"
    by (simp add: loopScopeRoot_def map_at_def sc(2))
  then have c: "ContextForRecord h' (Some scope) =
      \<lparr>rx_Record = Some rootRecord, rx_Meta = Some md, rx_State = None, rx_Pagination = None, rx_Extra = Some scope\<rparr>"
    by (simp add: ContextForRecord_def map_at_def sc(3))
  then show ?thesis using nm k by (simp add: Vars_def sc(4))
qed

lemma loop_records_kept:
  "loop_records env l i rs result s = (Returns (Inr rs'), s') \<Longrightarrow>
     (\<exists>add. rs' = result @ add \<and> subseq add rs \<and> (lp_onError l \<noteq> OnErrorSkip \<longrightarrow> add = rs))"
proof (induction rs arbitrary: i result s)
  case (Cons r rs)
  from Cons.prems obtain i' result' s1 where
    "loop_records env l i' rs result' s1 = (Returns (Inr rs'), s')"
    "result' = result @ [r] \<or> result' = result \<and> lp_onError l = OnErrorSkip"
    by (auto simp: loop_records.simps(2) split: prod.splits option.splits outcome_or_panic.splits if_splits)
  with Cons.IH obtain add where "rs' = result' @ add" "subseq add rs" "lp_onError l \<noteq> OnErrorSkip \<longrightarrow> add = rs" by blast
  with \<open>result' = _ \<or> _\<close> show ?case by (auto intro: exI [of _ "r # add"])
qed simp

text \<open>
  A batch keeps the identity and the order of its records: under skip a loop leaves out those
  whose loop failed, under every other strategy a batch that succeeds is returned whole.
\<close>
theorem loop_Process_records:
  assumes "loop_Process env l (Some rs) s = (Returns (Inr rs'), s')"
  shows "subseq rs' rs \<and> (lp_onError l \<noteq> OnErrorSkip \<longrightarrow> rs' = rs)"
  using loop_records_kept [of env l 0 rs "[]" s rs' s'] assms by (auto simp: loop_Process_def)

subsection \<open>Surprises\<close>

text \<open>
  A top-level record that has an object under the name \<open>record\<close> is taken for a scope: the loop
  keeps its metadata in that object, and templates, which look for the metadata as well, do not
  see the item at all.
\<close>

theorem loop_misreads_record_field:
  assumes "maps h R VarRecord = Some (HMap sub)" "maps h R DefaultFieldName = None" "R < fresh h"
    and "nm \<notin> set reservedItemNames" "buildLoopScope R sub md nm item True h = (scope, h')"
  shows "loop_root h R = (sub, True) \<and> rx_Record (ContextForRecord h (Some R)) = Some R
    \<and> maps h' scope nm = Some item \<and> Vars h' (ContextForRecord h' (Some scope)) nm = None"
proof -
  note nm = scope_names [OF assms(4)]
  have sc: "scope = fresh h" "maps h' scope = (maps h R)(nm \<mapsto> item)"
    using assms(3,5) by (auto simp: buildLoopScope_eq)
  have "maps h' scope DefaultFieldName = None" using nm(2) sc assms(2) by simp
  then have "rx_Extra (ContextForRecord h' (Some scope)) = None"
    by (simp add: ContextForRecord_def map_at_def loopScopeRoot_def)
  then have "Vars h' (ContextForRecord h' (Some scope)) nm = None" using nm by (simp add: Vars_def Let_def)
  then show ?thesis using assms(1,2) sc by (simp add: loop_root_def map_at_def ContextForRecord_def loopScopeRoot_def)
qed

subsection \<open>Witnesses\<close>

definition loop_demo_env :: "unit loop_env" where
  "loop_demo_env = \<lparr>le_Marshal = \<lambda>_ _. Inr [], le_fmt_T = \<lambda>_. ''value'', le_ctx_Err = \<lambda>w. (None, w), le_spare = \<lambda>_. 0\<rparr>"

text \<open>A nested filter that drops the items with the value 1.\<close>

definition drop_ones :: "unit Module" where
  "drop_ones records s =
     (Returns (Inr (case records of
        None \<Rightarrow> []
      | Some rs \<Rightarrow> filter (\<lambda>r. case r of None \<Rightarrow> True | Some a \<Rightarrow> maps (fs_heap s) a ''it'' \<noteq> Some (HInt 1)) rs)), s)"

definition loop_demo :: "unit LoopModule" where
  "loop_demo = \<lparr>lp_field = ''items'', lp_itemName = ''it'', lp_onError = OnErrorFail, lp_modules = [drop_ones]\<rparr>"

definition loop_heap :: heap where
  "loop_heap = \<lparr>maps = (\<lambda>_. Map.empty)(0 := [''items'' \<mapsto> HArr 1 3, ''id'' \<mapsto> HInt 7]),
     arrs = (\<lambda>_. [])(1 := [HInt 1, HInt 2, HInt 1]), fresh = 2\<rparr>"

definition loop_demo_state :: "unit fstate" where
  "loop_demo_state = \<lparr>fs_heap = loop_heap, fs_tally = None, fs_world = ()\<rparr>"

lemma loop_demo_chain:
  "item_chain (lp_modules loop_demo) (lp_itemName loop_demo) (set [HInt 1, HInt 2, HInt 1]) {} (\<lambda>v. if v = HInt 1 then None else Some v)"
  unfolding item_chain_def
proof (intro allI impI)
  fix scope :: nat and v and s :: "unit fstate"
  assume "maps (fs_heap s) scope (lp_itemName loop_demo) = Some v"
  then show "\<exists>s'. runNested (lp_modules loop_demo) [Some scope] s =
      (Returns (Inr (case if v = HInt 1 then None else Some v of None \<Rightarrow> [] | Some x \<Rightarrow> [Some scope])), s') \<and>
      (\<forall>w. (if v = HInt 1 then None else Some v) = Some w \<longrightarrow> maps (fs_heap s') scope (lp_itemName loop_demo) = Some w) \<and>
      stays (insert scope {}) (fs_heap s) (fs_heap s')"
    by (intro exI [of _ s]) (simp add: loop_demo_def drop_ones_def)
qed

theorem loop_maps_items_witness:
  "\<exists>s' b'. loop_processRecord loop_demo_env loop_demo (Some 0) 0 loop_demo_state = (Returns None, s')
    \<and> maps (fs_heap s') 0 = [''items'' \<mapsto> HArr b' 1, ''id'' \<mapsto> HInt 7] \<and> take 1 (arrs (fs_heap s') b') = [HInt 2]"
proof -
  let ?f = "\<lambda>v. if v = HInt 1 then None else Some v"
  have mf: "List.map_filter ?f [HInt 1, HInt 2, HInt 1] = [HInt 2]" by (simp add: map_filter_simps)
  have "\<exists>s' b'. loop_processRecord loop_demo_env loop_demo (Some 0) 0 loop_demo_state = (Returns None, s')
    \<and> maps (fs_heap s') 0 = (maps (fs_heap loop_demo_state) 0)(lp_field loop_demo \<mapsto> HArr b' (length (List.map_filter ?f [HInt 1, HInt 2, HInt 1])))
    \<and> take (length (List.map_filter ?f [HInt 1, HInt 2, HInt 1])) (arrs (fs_heap s') b') = List.map_filter ?f [HInt 1, HInt 2, HInt 1]
    \<and> stays (insert 0 {}) (fs_heap loop_demo_state) (fs_heap s')"
    by (rule loop_maps_items [where b = 1, OF loop_demo_chain])
      (auto simp: marshals_values_def ctx_open_def loop_demo_env_def item_kept_def is_map_def plain_key_def loop_demo_def
        DefaultFieldName_def VarRecord_def loop_demo_state_def loop_heap_def split: if_splits)
  moreover have "(maps (fs_heap loop_demo_state) 0)(lp_field loop_demo \<mapsto> x) = [''items'' \<mapsto> x, ''id'' \<mapsto> HInt 7]" for x
    by (simp add: loop_demo_state_def loop_heap_def loop_demo_def fun_upd_twist)
  ultimately show ?thesis by (auto simp: mf)
qed

theorem loop_alias_released_witness:
  "\<exists>s'. loop_processRecord loop_demo_env loop_demo (Some 0) 0 loop_demo_state = (Returns None, s') \<and> \<not> alias_active (fs_heap s') 0 ''it''"
proof -
  obtain s' where run: "loop_processRecord loop_demo_env loop_demo (Some 0) 0 loop_demo_state = (Returns None, s')"
    using loop_maps_items_witness by blast
  have n: "lp_itemName loop_demo \<notin> set reservedItemNames"
    by (simp add: loop_demo_def reservedItemNames_def ReservedVarNames_def VarRecord_def DefaultFieldName_def LoopFieldName_def)
  have a: "\<not> alias_active (fs_heap loop_demo_state) 0 (lp_itemName loop_demo)"
    by (simp add: alias_active_def loop_demo_state_def loop_heap_def DefaultFieldName_def)
  have r: "loop_root (fs_heap loop_demo_state) 0 = (0, False)"
    by (simp add: loop_root_def map_at_def loop_demo_state_def loop_heap_def VarRecord_def)
  from loop_alias_released [OF n a r run] run show ?thesis by (simp add: loop_demo_def)
qed

theorem loop_Process_records_witness:
  "\<exists>rs' s'. loop_Process loop_demo_env loop_demo (Some [Some 0]) loop_demo_state = (Returns (Inr rs'), s') \<and> rs' = [Some 0]"
proof -
  obtain s' where run: "loop_processRecord loop_demo_env loop_demo (Some 0) 0 loop_demo_state = (Returns None, s')"
    using loop_maps_items_witness by blast
  then have p: "loop_Process loop_demo_env loop_demo (Some [Some 0]) loop_demo_state = (Returns (Inr [Some 0]), s')"
  proof -
    have "ctx_Err loop_demo_env loop_demo_state = (None, loop_demo_state)"
      by (simp add: ctx_Err_def loop_demo_env_def)
    with run show ?thesis by (simp add: loop_Process_def loop_records.simps(2))
  qed
  from loop_Process_records [OF p] p show ?thesis by (simp add: loop_demo_def)
qed

definition scope_heap :: heap where
  "scope_heap = \<lparr>maps = (\<lambda>_. Map.empty)(0 := [DefaultFieldName \<mapsto> HMap 1], 1 := [LoopFieldName \<mapsto> HMap 2], 2 := [''it'' \<mapsto> HMap 3]),
     arrs = \<lambda>_. [], fresh = 4\<rparr>"

theorem loop_scope_unwraps_witness:
  "\<exists>scope h'. buildLoopScope 0 0 1 ''it'' (HInt 5) False scope_heap = (scope, h')
    \<and> Vars h' (ContextForRecord h' (Some scope)) ''it'' = Some (HInt 5)"
proof -
  obtain l where l: "NewLoopFromConfig even_nested None ''items'' ''it'' [] [] = Inr l" "lp_itemName l = ''it''"
  proof -
    have "trim_space ''items'' = ''items''" "trim_space ''it'' = ''it''" by (rule trim_space_plain, simp add: plain_char_def)+
    then show ?thesis
      using that by (simp add: NewLoopFromConfig_def parse_default_strategy reservedItemNames_def ReservedVarNames_def VarRecord_def
          DefaultFieldName_def LoopFieldName_def)
  qed
  obtain scope h' where b: "buildLoopScope 0 0 1 (lp_itemName l) (HInt 5) False scope_heap = (scope, h')" by (meson surj_pair)
  have "Vars h' (ContextForRecord h' (Some scope)) (lp_itemName l) = Some (HInt 5)"
    by (rule conjunct1 [OF conjunct2 [OF loop_scope_unwraps [OF l(1) _ _ _ _ _ _ b, where lm = 2]]])
      (simp_all add: scope_heap_def map_at_def)
  with b l(2) show ?thesis by auto
qed

theorem loop_misreads_record_field_witness:
  "\<exists>scope h'. buildLoopScope 0 1 2 ''it'' (HInt 5) True (scope_heap\<lparr>maps := (\<lambda>_. Map.empty)(0 := [VarRecord \<mapsto> HMap 1])\<rparr>) = (scope, h')
    \<and> Vars h' (ContextForRecord h' (Some scope)) ''it'' = None"
proof -
  let ?h = "scope_heap\<lparr>maps := (\<lambda>_. Map.empty)(0 := [VarRecord \<mapsto> HMap 1])\<rparr>"
  obtain scope h' where b: "buildLoopScope 0 1 2 ''it'' (HInt 5) True ?h = (scope, h')" by (meson surj_pair)
  have "Vars h' (ContextForRecord h' (Some scope)) ''it'' = None"
    by (rule conjunct2 [OF conjunct2 [OF conjunct2 [OF loop_misreads_record_field [OF _ _ _ _ b]]]])
      (simp_all add: scope_heap_def reservedItemNames_def ReservedVarNames_def VarRecord_def DefaultFieldName_def LoopFieldName_def)
  with b show ?thesis by blast
qed

end
