(* ===== verification/TemplateScan.thy ===== *)
theory TemplateScan
  imports HttpCall
begin

text \<open>
  The tokenizer and the escape injection of \<open>internal/template/rewrite.go\<close>, the boundary that
  decides which parts of a template are values to escape. A position of the Go code is the
  suffix of the source that starts there: \<open>findTagClose q cl s\<close> stands for
  \<open>findTagClose(src, from, closeStr)\<close> with \<open>s = src[from:]\<close> and the open quote \<open>q\<close>, and answers
  the index relative to \<open>from\<close> (\<open>None\<close> for the code's -1). The lemmas show what the tokenizer
  recognises, that it loses no byte, and that the rewriting of output tags does not move any
  tag boundary.
\<close>

subsection \<open>Tags\<close>

datatype tag_kind = KText | KOutput | KBlock | KComment | KRaw

datatype Target = TargetText | TargetURL | TargetJSON | TargetXML

definition Target_String :: "Target \<Rightarrow> string" where
  "Target_String t =
     (case t of TargetURL \<Rightarrow> ''URL'' | TargetJSON \<Rightarrow> ''JSON'' | TargetXML \<Rightarrow> ''XML'' | _ \<Rightarrow> ''text'')"

definition escapes :: "Target \<Rightarrow> bool" where
  "escapes t \<longleftrightarrow> t \<noteq> TargetText"

text \<open>\<open>strings.Index\<close>, \<open>strings.TrimPrefix\<close> and \<open>strings.TrimSuffix\<close>.\<close>

fun str_index :: "string \<Rightarrow> string \<Rightarrow> nat option" where
  "str_index sub [] = (if sub = [] then Some 0 else None)"
| "str_index sub (c # s) =
     (if prefix sub (c # s) then Some 0 else map_option Suc (str_index sub s))"

definition TrimPrefix :: "string \<Rightarrow> string \<Rightarrow> string" where
  "TrimPrefix p s = (if prefix p s then drop (length p) s else s)"

definition TrimSuffix :: "string \<Rightarrow> string \<Rightarrow> string" where
  "TrimSuffix p s = (if suffix p s then take (length s - length p) s else s)"

definition indexAfter :: "string \<Rightarrow> string \<Rightarrow> nat option" where
  "indexAfter sub s = map_option (\<lambda>i. i + length sub) (str_index sub s)"

abbreviation squote :: char where "squote \<equiv> CHR 0x27"
abbreviation dquote :: char where "dquote \<equiv> CHR 0x22"
abbreviation backslash :: char where "backslash \<equiv> CHR 0x5C"
abbreviation tab_char :: char where "tab_char \<equiv> CHR 0x09"

fun findTagClose :: "char option \<Rightarrow> string \<Rightarrow> string \<Rightarrow> nat option" where
  "findTagClose quote closeStr [] = None"
| "findTagClose (Some q) closeStr (c # s) =
     (if c = backslash
      then (case s of [] \<Rightarrow> None | _ # s' \<Rightarrow> map_option (\<lambda>n. n + 2) (findTagClose (Some q) closeStr s'))
      else if c = q then map_option Suc (findTagClose None closeStr s)
      else map_option Suc (findTagClose (Some q) closeStr s))"
| "findTagClose None closeStr (c # s) =
     (if c = squote \<or> c = dquote then map_option Suc (findTagClose (Some c) closeStr s)
      else if prefix closeStr (c # s) then Some (length closeStr)
      else map_option Suc (findTagClose None closeStr s))"

definition tagCloseFor :: "char \<Rightarrow> string" where
  "tagCloseFor c = (if c = CHR ''{'' then ''}}'' else if c = CHR ''%'' then ''%}'' else ''#}'')"

definition blockKeyword :: "string \<Rightarrow> string" where
  "blockKeyword tag =
     (let inner = trim_space (take (length tag - 4) (drop 2 tag));
          inner = trim_space (TrimSuffix ''-'' (TrimPrefix ''-'' inner))
      in takeWhile (\<lambda>c. c \<noteq> CHR '' '' \<and> c \<noteq> tab_char) inner)"

function findRawEnd :: "string \<Rightarrow> nat" where
  "findRawEnd s =
     (if s = [] then 0
      else if prefix ''{%'' s
      then (case findTagClose None ''%}'' (drop 2 s) of
              None \<Rightarrow> length s
            | Some k \<Rightarrow>
                if blockKeyword (take (2 + k) s) = ''endraw'' then 2 + k
                else 2 + k + findRawEnd (drop (2 + k) s))
      else Suc (findRawEnd (tl s)))"
  by pat_completeness auto
termination
  by (relation "measure length") auto

declare findRawEnd.simps [simp del]

subsection \<open>The tokenizer\<close>

definition opens_tag :: "string \<Rightarrow> bool" where
  "opens_tag s \<longleftrightarrow> prefix ''{{'' s \<or> prefix ''{%'' s \<or> prefix ''{#'' s"

text \<open>The end of the tag that starts \<open>s\<close>: the code's \<open>end\<close>, relative to \<open>i\<close>.\<close>

definition tag_end :: "string \<Rightarrow> nat option" where
  "tag_end s =
     map_option (\<lambda>k. 2 + k)
       (if s ! 1 = CHR ''#'' then indexAfter ''#}'' (drop 2 s)
        else findTagClose None (tagCloseFor (s ! 1)) (drop 2 s))"

definition kind_of_open :: "char \<Rightarrow> tag_kind" where
  "kind_of_open c = (if c = CHR ''{'' then KOutput else if c = CHR ''%'' then KBlock else KComment)"

definition flushText :: "string \<Rightarrow> (tag_kind \<times> string) list" where
  "flushText t = (if t = [] then [] else [(KText, t)])"

text \<open>
  The loop of \<open>scanTemplate\<close>: \<open>pending\<close> is \<open>src[textStart:i]\<close>, \<open>s\<close> is \<open>src[i:]\<close>, and the result is
  the sequence of segments handed to \<open>emit\<close>.
\<close>

function scan_loop :: "string \<Rightarrow> string \<Rightarrow> (tag_kind \<times> string) list" where
  "scan_loop pending s =
     (if s = [] then flushText pending
      else if opens_tag s
      then (case tag_end s of
              None \<Rightarrow> flushText (pending @ s)
            | Some e \<Rightarrow>
                if s ! 1 = CHR ''%'' \<and> blockKeyword (take e s) = ''raw''
                then (let rawEnd = e + findRawEnd (drop e s)
                      in flushText pending @ (KRaw, take rawEnd s) # scan_loop [] (drop rawEnd s))
                else flushText pending @ (kind_of_open (s ! 1), take e s) # scan_loop [] (drop e s))
      else scan_loop (pending @ [hd s]) (tl s))"
  by pat_completeness auto
termination
  by (relation "measure (\<lambda>(_, s). length s)") (auto simp: tag_end_def)

declare scan_loop.simps [simp del]

definition scanTemplate :: "string \<Rightarrow> (tag_kind \<times> string) list" where
  "scanTemplate src = scan_loop [] src"

definition rewriteOutputTag :: "string \<Rightarrow> string \<Rightarrow> string" where
  "rewriteOutputTag tag esc =
     (let inner = take (length tag - 4) (drop 2 tag);
          (left, inner) = (if prefix ''-'' inner then (''-'', drop 1 inner) else ([], inner));
          (right, inner) = (if suffix ''-'' inner then (''-'', take (length inner - 1) inner) else ([], inner));
          expr = trim_space inner
      in if expr = [] then tag
         else ''{{'' @ left @ '' ('' @ expr @ '') | '' @ esc @ '' '' @ right @ ''}}'')"

definition rewrite_seg :: "string \<Rightarrow> tag_kind \<times> string \<Rightarrow> tag_kind \<times> string" where
  "rewrite_seg esc kg =
     (case kg of (kind, seg) \<Rightarrow> (kind, if kind = KOutput then rewriteOutputTag seg esc else seg))"

definition injectEscape :: "string \<Rightarrow> string \<Rightarrow> string" where
  "injectEscape src esc =
     (if esc = [] \<or> \<not> contains_sub ''{{'' src then src
      else concat (map snd (map (rewrite_seg esc) (scanTemplate src))))"

definition HasOutputTag :: "string \<Rightarrow> bool" where
  "HasOutputTag src =
     (contains_sub ''{{'' src \<and> list_ex (\<lambda>(kind, _). kind = KOutput) (scanTemplate src))"

datatype block_error = ErrLoadsTemplate string | ErrFilterBlock Target

definition block_problem :: "Target \<Rightarrow> tag_kind \<times> string \<Rightarrow> block_error option" where
  "block_problem target kg =
     (case kg of (kind, seg) \<Rightarrow>
        if kind \<noteq> KBlock then None
        else (let keyword = blockKeyword seg
              in if keyword \<in> {''include'', ''extends'', ''import'', ''from''} then Some (ErrLoadsTemplate keyword)
                 else if keyword = ''filter'' \<and> escapes target then Some (ErrFilterBlock target)
                 else None))"

definition checkBlocks :: "string \<Rightarrow> Target \<Rightarrow> block_error option" where
  "checkBlocks src target =
     (if \<not> contains_sub ''{%'' src then None
      else first_some (block_problem target) (scanTemplate src))"


subsection \<open>What the tokenizer recognises\<close>

text \<open>
  Inside an output tag: \<open>lexes q u\<close> is the quote that is open after \<open>u\<close>, read from quote \<open>q\<close>,
  and \<open>None\<close> if a closing \<open>}}\<close> stands outside the quotes or \<open>u\<close> ends in an escape.
\<close>

fun lexes :: "char option \<Rightarrow> string \<Rightarrow> char option option" where
  "lexes q [] = Some q"
| "lexes (Some q) (c # u) =
     (if c = backslash then (case u of [] \<Rightarrow> None | _ # u' \<Rightarrow> lexes (Some q) u')
      else lexes (if c = q then None else Some q) u)"
| "lexes None (c # u) =
     (if c = squote \<or> c = dquote then lexes (Some c) u
      else if prefix ''}}'' (c # u) then None
      else lexes None u)"

lemma prefix2: "prefix [a, b] (c # s) \<longleftrightarrow> c = a \<and> (\<exists>t. s = b # t)"
  by (cases s) auto

lemma prefix_within:
  assumes "prefix p (take k xs @ t)" "length p \<le> k" "k \<le> length xs"
  shows "prefix p xs"
proof -
  have "prefix p (take k xs)"
    using assms prefix_length_prefix [of p "take k xs @ t" "take k xs"] by simp
  then show ?thesis by (metis take_is_prefix prefix_order.trans)
qed

lemma findTagClose_bound: "findTagClose q cl s = Some n \<Longrightarrow> length cl \<le> n \<and> n \<le> length s"
proof (induction q cl s arbitrary: n rule: findTagClose.induct)
  case (2 q cl c s)
  then show ?case by (cases s) (fastforce split: if_splits)+
next
  case (3 cl c s)
  then show ?case by (fastforce split: if_splits dest: prefix_length_le)
qed auto

lemma findTagClose_prefix:
  "findTagClose q cl s = Some n \<Longrightarrow> cl \<noteq> [] \<Longrightarrow> findTagClose q cl (take n s @ t) = Some n"
proof (induction q cl s arbitrary: n rule: findTagClose.induct)
  case (2 q cl c s)
  then show ?case by (cases s) (auto split: if_splits)
next
  case (3 cl c s)
  show ?case
  proof (cases "c = squote \<or> c = dquote")
    case True
    with 3 show ?thesis by auto
  next
    case F: False
    show ?thesis
    proof (cases "prefix cl (c # s)")
      case True
      with 3(3) F have n: "n = length cl" by auto
      with True 3(4) obtain cl' where cl: "cl = c # cl'" "prefix cl' s"
        by (cases cl) auto
      have "prefix (c # cl') (c # take (length cl') s @ t)"
        using cl(2) by (auto simp: prefix_def)
      then show ?thesis using F n cl by simp
    next
      case False
      with 3(3) F obtain m where m: "findTagClose None cl s = Some m" "n = Suc m" by auto
      have "length cl \<le> m" using findTagClose_bound [OF m(1)] by simp
      moreover have "m \<le> length s" using findTagClose_bound [OF m(1)] by simp
      ultimately have "\<not> prefix cl (c # take m s @ t)"
        using False prefix_within [of cl "Suc m" "c # s" t] by auto
      then show ?thesis using 3(2) [OF F False m(1) 3(4)] m(2) F by simp
    qed
  qed
qed auto


lemma str_index_bound: "str_index sub s = Some i \<Longrightarrow> i + length sub \<le> length s"
  by (induction s arbitrary: i) (auto split: if_splits dest: prefix_length_le)

lemma str_index_prefix:
  "str_index sub s = Some i \<Longrightarrow> sub \<noteq> [] \<Longrightarrow> str_index sub (take (i + length sub) s @ t) = Some i"
proof (induction s arbitrary: i)
  case (Cons c s)
  show ?case
  proof (cases "prefix sub (c # s)")
    case True
    with Cons.prems obtain sub' where sub: "sub = c # sub'" "prefix sub' s" "i = 0"
      by (cases sub) auto
    then have "prefix sub' (take (length sub') s @ t)" by (auto simp: prefix_def)
    then show ?thesis using sub by simp
  next
    case False
    with Cons.prems obtain j where j: "str_index sub s = Some j" "i = Suc j" by auto
    have "\<not> prefix sub (c # take (j + length sub) s @ t)"
      using False prefix_within [of sub "Suc (j + length sub)" "c # s" t] str_index_bound [OF j(1)] by auto
    then show ?thesis using Cons.IH [OF j(1) Cons.prems(2)] j by simp
  qed
qed (auto split: if_splits)

lemma tagCloseFor_length [simp]: "length (tagCloseFor c) = 2" "tagCloseFor c \<noteq> []"
  by (simp_all add: tagCloseFor_def)

lemma tag_end_bound: "tag_end s = Some e \<Longrightarrow> 4 \<le> e \<and> e \<le> length s"
  by (cases "2 \<le> length s")
     (auto simp: tag_end_def indexAfter_def split: if_splits dest!: findTagClose_bound str_index_bound)

lemma take_append_two: "2 \<le> length s \<Longrightarrow> drop 2 (take (2 + k) s @ t) = take k (drop 2 s) @ t"
  by (simp add: drop_take)

lemma tag_end_prefix:
  assumes "tag_end s = Some e"
  shows "tag_end (take e s @ t) = Some e"
proof -
  from assms obtain k where k: "e = 2 + k" by (auto simp: tag_end_def)
  have e: "4 \<le> e" "e \<le> length s" using tag_end_bound [OF assms] by auto
  then have n: "(take e s @ t) ! 1 = s ! 1" by (simp add: nth_append)
  have d: "drop 2 (take e s @ t) = take k (drop 2 s) @ t"
    using e k take_append_two [of s k t] by simp
  show ?thesis
  proof (cases "s ! 1 = CHR ''#''")
    case True
    with assms k obtain i where i: "str_index ''#}'' (drop 2 s) = Some i" "k = i + 2"
      by (auto simp: tag_end_def indexAfter_def)
    with str_index_prefix [OF i(1), of t] True n d k show ?thesis
      by (simp add: tag_end_def indexAfter_def)
  next
    case False
    with assms k have "findTagClose None (tagCloseFor (s ! 1)) (drop 2 s) = Some k"
      by (auto simp: tag_end_def)
    from findTagClose_prefix [OF this, of t] False n d k show ?thesis by (simp add: tag_end_def)
  qed
qed

lemma findTagClose_drop2: "findTagClose None ''%}'' (drop 2 s) = Some k \<Longrightarrow> 2 \<le> k \<and> 2 + k \<le> length s"
  using findTagClose_bound [of None "''%}''" "drop 2 s" k] by (cases "2 \<le> length s") auto

lemma findRawEnd_bound: "findRawEnd s \<le> length s"
proof (induction s rule: findRawEnd.induct)
  case (1 s)
  show ?case
  proof (cases "s \<noteq> [] \<and> prefix ''{%'' s")
    case True
    then show ?thesis
    proof (cases "findTagClose None ''%}'' (drop 2 s)")
      case None
      with True show ?thesis by (subst findRawEnd.simps) simp
    next
      case (Some k)
      have "blockKeyword (take (2 + k) s) \<noteq> ''endraw'' \<Longrightarrow> findRawEnd (drop (2 + k) s) \<le> length (drop (2 + k) s)"
        using 1(1) True Some by simp
      with True Some findTagClose_drop2 [OF Some] show ?thesis
        by (subst findRawEnd.simps) auto
    qed
  next
    case False
    then have "s = [] \<or> findRawEnd s = Suc (findRawEnd (tl s)) \<and> s \<noteq> []"
      by (auto simp: findRawEnd.simps [of s])
    with 1(2) False show ?thesis by (cases s) (auto simp: findRawEnd.simps [of "[]"])
  qed
qed


lemma findRawEnd_text: "s \<noteq> [] \<Longrightarrow> \<not> prefix ''{%'' s \<Longrightarrow> findRawEnd s = Suc (findRawEnd (tl s))"
  by (simp only: findRawEnd.simps [of s] if_False)

lemma findRawEnd_pos: "s \<noteq> [] \<Longrightarrow> 0 < findRawEnd s"
  by (subst findRawEnd.simps) (auto split: option.splits)

lemma findRawEnd_prefix:
  "(findRawEnd s = length s \<Longrightarrow> t = []) \<Longrightarrow> findRawEnd (take (findRawEnd s) s @ t) = findRawEnd s"
proof (induction s rule: findRawEnd.induct)
  case (1 s)
  consider "s = []" | k where "s \<noteq> []" "prefix ''{%'' s" "findTagClose None ''%}'' (drop 2 s) = Some k"
    | "s \<noteq> []" "prefix ''{%'' s" "findTagClose None ''%}'' (drop 2 s) = None" | "s \<noteq> []" "\<not> prefix ''{%'' s"
    by (cases "findTagClose None ''%}'' (drop 2 s)") auto
  then show ?case
  proof cases
    case 1
    with "1.prems" show ?thesis by (simp add: findRawEnd.simps [of "[]"])
  next
    case (2 k)
    have b: "2 \<le> k" "2 + k \<le> length s" using findTagClose_drop2 [OF 2(3)] by auto
    define r where "r = findRawEnd s"
    have r: "r = (if blockKeyword (take (2 + k) s) = ''endraw'' then 2 + k
                  else 2 + k + findRawEnd (drop (2 + k) s))"
      unfolding r_def using 2 by (subst findRawEnd.simps) simp
    define s' where "s' = take r s @ t"
    have le: "2 + k \<le> r" "r \<le> length s" using r findRawEnd_bound [of s] by (auto simp: r_def)
    have tk: "take (2 + k) s' = take (2 + k) s" using le by (simp add: s'_def)
    have ne: "s' \<noteq> []" "prefix ''{%'' s'"
      using 2 le b by (auto simp: s'_def prefix_def le_iff_add)
    have "drop 2 s' = take k (drop 2 s) @ drop (2 + k) s'"
      using b le by (metis append_take_drop_id drop_drop take_drop tk add.commute)
    then have c: "findTagClose None ''%}'' (drop 2 s') = Some k"
      using findTagClose_prefix [OF 2(3), of "drop (2 + k) s'"] by simp
    have "findRawEnd s' = r"
    proof (cases "blockKeyword (take (2 + k) s) = ''endraw''")
      case True
      with ne c tk r show ?thesis by (simp add: findRawEnd.simps [of s'])
    next
      case False
      define u where "u = drop (2 + k) s"
      have d: "drop (2 + k) s' = take (findRawEnd u) u @ t"
        using False r le by (simp add: s'_def u_def drop_take)
      have "findRawEnd u = length u \<Longrightarrow> t = []"
        using "1.prems" False r le by (simp add: u_def flip: r_def)
      then have "findRawEnd (take (findRawEnd u) u @ t) = findRawEnd u"
        using "1.IH"(1) [OF 2(1,2,3) False] by (simp add: u_def)
      with False ne c tk r d show ?thesis by (simp add: findRawEnd.simps [of s'] u_def)
    qed
    then show ?thesis by (simp add: s'_def r_def)
  next
    case 3
    then have "findRawEnd s = length s" by (simp add: findRawEnd.simps [of s])
    with "1.prems" show ?thesis by simp
  next
    case 4
    then obtain c s' where s: "s = c # s'" by (cases s) auto
    have r: "findRawEnd s = Suc (findRawEnd s')" using findRawEnd_text [OF 4] s by simp
    then have "findRawEnd s' = length s' \<Longrightarrow> t = []" using "1.prems" s by simp
    then have IH: "findRawEnd (take (findRawEnd s') s' @ t) = findRawEnd s'"
      using "1.IH"(2) [OF 4] s by simp
    have "\<not> prefix ''{%'' (c # take (findRawEnd s') s' @ t)"
    proof (cases s')
      case Nil
      then show ?thesis using "1.prems" r s by (simp add: findRawEnd.simps [of "[]"])
    next
      case (Cons d s'')
      with findRawEnd_pos [of s'] 4 s show ?thesis by (cases "findRawEnd s'") auto
    qed
    then show ?thesis
      using findRawEnd_text [of "c # take (findRawEnd s') s' @ t"] IH r s by (simp only: take_Suc_Cons append_Cons) simp
  qed
qed


lemma lexes_append:
  "lexes q u = Some q' \<Longrightarrow> v = [] \<or> hd v \<noteq> CHR ''}'' \<Longrightarrow> lexes q (u @ v) = lexes q' v"
proof (induction q u rule: lexes.induct)
  case (2 q c u)
  then show ?case by (cases u) (auto split: if_splits)
next
  case (3 c u)
  then show ?case by (cases u; cases v) (auto split: if_splits)
qed simp

text \<open>Bytes that neither open a quote nor close a tag leave the lexer outside the quotes.\<close>

definition inert :: "char \<Rightarrow> bool" where
  "inert c \<longleftrightarrow> c \<noteq> squote \<and> c \<noteq> dquote \<and> c \<noteq> backslash \<and> c \<noteq> CHR ''}''"

lemma lexes_inert_left: "inert c \<Longrightarrow> lexes None (c # u) = lexes None u"
  by (auto simp: inert_def)

lemma lexes_inert: "list_all inert u \<Longrightarrow> lexes None u = Some None"
  by (induction u) (auto simp: inert_def)

lemma lexes_inert_prefix: "list_all inert u \<Longrightarrow> lexes None (u @ v) = lexes None v"
  by (induction u) (auto simp: inert_def)

definition open_quote :: "char option \<Rightarrow> bool" where
  "open_quote q \<longleftrightarrow> q \<in> {None, Some squote, Some dquote}"

lemma lexes_right:
  "lexes q (u @ [c]) = Some None \<Longrightarrow> c \<notin> {squote, dquote, backslash} \<Longrightarrow> open_quote q \<Longrightarrow>
   lexes q u = Some None"
proof (induction q u rule: lexes.induct)
  case (1 q)
  then show ?case by (cases q) (auto simp: open_quote_def split: if_splits)
next
  case (2 q x u)
  then show ?case by (cases u) (auto split: if_splits simp: open_quote_def)
next
  case (3 x u)
  then show ?case by (cases u) (auto split: if_splits simp: open_quote_def)
qed

lemma lexes_inert_suffix:
  "lexes None (u @ v) = Some None \<Longrightarrow> list_all inert v \<Longrightarrow> lexes None u = Some None"
proof (induction v arbitrary: u)
  case (Cons c v)
  then have "lexes None (u @ [c]) = Some None" using Cons.IH [of "u @ [c]"] by simp
  with Cons.prems show ?case by (auto intro: lexes_right simp: open_quote_def inert_def)
qed simp

text \<open>An output tag is closed exactly where its inside lexes to the end outside the quotes.\<close>

lemma findTagClose_lexes:
  "findTagClose q ''}}'' s = Some n \<Longrightarrow>
   \<exists>u t. s = u @ ''}}'' @ t \<and> n = length u + 2 \<and> lexes q (u @ ''}'') = Some None"
proof (induction q "''}}''" s arbitrary: n rule: findTagClose.induct)
  case (2 q c s)
  show ?case
  proof (cases "c = backslash")
    case True
    with 2(4) obtain d s' m where s: "s = d # s'" "findTagClose (Some q) ''}}'' s' = Some m" "n = m + 2"
      by (cases s) auto
    from 2(1) [OF True s(1,2)] obtain u t
      where "s' = u @ ''}}'' @ t" "m = length u + 2" "lexes (Some q) (u @ ''}'') = Some None" by blast
    then have "c # s = (c # d # u) @ ''}}'' @ t \<and> n = length (c # d # u) + 2
               \<and> lexes (Some q) ((c # d # u) @ ''}'') = Some None"
      using s True by simp
    then show ?thesis by blast
  next
    case False
    define q' where "q' = (if c = q then None else Some q)"
    from False 2(4) obtain m where m: "findTagClose q' ''}}'' s = Some m" "n = Suc m"
      by (auto simp: q'_def split: if_splits)
    then obtain u t where "s = u @ ''}}'' @ t" "m = length u + 2" "lexes q' (u @ ''}'') = Some None"
      using 2(2,3) [OF False] by (auto simp: q'_def split: if_splits)
    then have "c # s = (c # u) @ ''}}'' @ t \<and> n = length (c # u) + 2
               \<and> lexes (Some q) ((c # u) @ ''}'') = Some None"
      using m False by (simp add: q'_def)
    then show ?thesis by blast
  qed
next
  case (3 c s)
  consider "c = squote \<or> c = dquote" | "\<not> (c = squote \<or> c = dquote)" "prefix ''}}'' (c # s)"
    | "\<not> (c = squote \<or> c = dquote)" "\<not> prefix ''}}'' (c # s)" by blast
  then show ?case
  proof cases
    case 1
    with 3(3) obtain m where m: "findTagClose (Some c) ''}}'' s = Some m" "n = Suc m" by auto
    from 3(1) [OF 1 m(1)] obtain u t
      where "s = u @ ''}}'' @ t" "m = length u + 2" "lexes (Some c) (u @ ''}'') = Some None" by blast
    then have "c # s = (c # u) @ ''}}'' @ t \<and> n = length (c # u) + 2
               \<and> lexes None ((c # u) @ ''}'') = Some None"
      using m 1 by auto
    then show ?thesis by blast
  next
    case 2
    then obtain t where "s = CHR ''}'' # t" by (cases s) auto
    with 2 3(3) show ?thesis by (intro exI [of _ "[]"] exI [of _ t]) simp
  next
    case 3: 3
    then have "findTagClose None ''}}'' (c # s) = map_option Suc (findTagClose None ''}}'' s)"
      by (simp only: findTagClose.simps if_False)
    with \<open>findTagClose None ''}}'' (c # s) = Some n\<close>
    have "Some n = map_option Suc (findTagClose None ''}}'' s)" by (simp only:)
    then obtain m where m: "findTagClose None ''}}'' s = Some m" "n = Suc m"
      by (cases "findTagClose None ''}}'' s") simp_all
    from "3.hyps"(2) [OF 3 m(1)] obtain u t
      where u: "s = u @ ''}}'' @ t" "m = length u + 2" "lexes None (u @ ''}'') = Some None" by blast
    have "\<not> prefix ''}}'' (c # u @ ''}'')" using 3(2) u(1) by (cases u) auto
    with u m 3(1) have "c # s = (c # u) @ ''}}'' @ t \<and> n = length (c # u) + 2
               \<and> lexes None ((c # u) @ ''}'') = Some None"
      by auto
    then show ?thesis by blast
  qed
qed simp

lemma lexes_findTagClose:
  "lexes q (u @ ''}'') = Some None \<Longrightarrow> open_quote q \<Longrightarrow>
   findTagClose q ''}}'' (u @ ''}}'' @ t) = Some (length u + 2)"
proof (induction q u rule: lexes.induct)
  case (1 q)
  then show ?case by (cases q) (auto simp: open_quote_def split: if_splits)
next
  case (2 q c u)
  then show ?case by (cases u) (auto simp: open_quote_def split: if_splits)
next
  case (3 c u)
  consider "c = squote \<or> c = dquote" | "\<not> (c = squote \<or> c = dquote)" "\<not> prefix ''}}'' (c # u @ ''}'')"
    using 3(3) by (auto split: if_splits)
  then show ?case
  proof cases
    case 1
    then show ?thesis using 3 by (auto simp: open_quote_def)
  next
    case 2
    then have "\<not> prefix ''}}'' (c # u @ ''}}'' @ t)" by (cases u) auto
    moreover have "\<not> prefix ''}}'' (c # u)" using 2 by (cases u) auto
    moreover have "lexes None (u @ ''}'') = Some None"
      using 3(3) 2 by (simp only: append_Cons lexes.simps if_False)
    ultimately show ?thesis using 3(2) [OF 2(1)] 2(1)
      by (simp only: append_Cons findTagClose.simps if_False) (simp add: open_quote_def)
  qed
qed


subsection \<open>Trimming\<close>

lemma trim_left_split:
  "\<forall>p \<in> set sps. list_all inert p \<Longrightarrow> \<exists>w. s = w @ trim_left sps s \<and> list_all inert w"
proof (induction sps s rule: trim_left.induct)
  case (1 sps s)
  show ?case
  proof (cases "space_prefix sps s = 0 \<or> s = []")
    case True
    then show ?thesis by (simp add: trim_left.simps [of sps s])
  next
    case False
    then obtain p where p: "find (\<lambda>p. prefix p s) sps = Some p" "space_prefix sps s = length p"
      by (auto simp: space_prefix_def split: option.splits)
    from find_SomeD [OF p(1)] have "p \<in> set sps" "prefix p s" by auto
    then have s: "s = p @ drop (length p) s" and i: "list_all inert p"
      using "1.prems" by (auto simp: prefix_def)
    from "1.IH" [OF False "1.prems"] obtain w
      where w: "drop (length p) s = w @ trim_left sps (drop (length p) s)" "list_all inert w"
      using p(2) by auto
    have "trim_left sps s = trim_left sps (drop (length p) s)"
      using False p(2) trim_left.simps [of sps s] by simp
    with s w i have "s = (p @ w) @ trim_left sps s \<and> list_all inert (p @ w)"
      by simp
    then show ?thesis by blast
  qed
qed

lemma inert_code: "inert c \<longleftrightarrow> (of_char c :: nat) \<notin> {39, 34, 92, 125}"
proof -
  have "(of_char c :: nat) = of_char d \<longleftrightarrow> c = d" for d by (rule of_char_eq_iff)
  from this [of squote] this [of dquote] this [of backslash] this [of "CHR ''}''"]
  show ?thesis by (auto simp: inert_def)
qed

lemma inert_spaces: "\<forall>p \<in> set utf8_spaces. list_all inert p" "\<forall>p \<in> set (map rev utf8_spaces). list_all inert p"
proof -
  have "list_all (list_all inert) utf8_spaces"
    by (simp add: utf8_spaces_def bytes_def inert_code upt_rec)
  then show "\<forall>p \<in> set utf8_spaces. list_all inert p" "\<forall>p \<in> set (map rev utf8_spaces). list_all inert p"
    by (auto simp: list_all_iff)
qed

lemma trim_space_split:
  "\<exists>a b. s = a @ trim_space s @ b \<and> list_all inert a \<and> list_all inert b"
proof -
  obtain a where a: "s = a @ trim_left utf8_spaces s" "list_all inert a"
    using trim_left_split [OF inert_spaces(1)] by blast
  define m where "m = trim_left utf8_spaces s"
  obtain w where w: "rev m = w @ trim_left (map rev utf8_spaces) (rev m)" "list_all inert w"
    using trim_left_split [OF inert_spaces(2)] by blast
  then have "m = rev (trim_left (map rev utf8_spaces) (rev m)) @ rev w"
    by (metis rev_append rev_rev_ident)
  then have "m = trim_space s @ rev w" by (simp add: trim_space_def m_def)
  moreover have "list_all inert (rev w)" using w(2) by (simp add: list_all_iff)
  ultimately show ?thesis using a unfolding m_def by metis
qed


definition graphic :: "char \<Rightarrow> bool" where
  "graphic c \<longleftrightarrow> 33 \<le> (of_char c :: nat) \<and> (of_char c :: nat) \<le> 126"

subsection \<open>Rewriting keeps the boundaries\<close>

lemma rewriteOutputTag_shape:
  assumes "tag = ''{{'' @ u @ ''}}''"
  shows "rewriteOutputTag tag f = tag \<and>
           (\<exists>l w r. u = l @ w @ r \<and> l \<in> {[], ''-''} \<and> r \<in> {[], ''-''} \<and> trim_space w = []) \<or>
         (\<exists>l x e y r. e \<noteq> [] \<and> u = l @ x @ e @ y @ r \<and> list_all inert (l @ x) \<and> list_all inert (y @ r) \<and>
            l \<in> {[], ''-''} \<and> r \<in> {[], ''-''} \<and>
            rewriteOutputTag tag f = ''{{'' @ (l @ '' ('' @ e @ '') | '' @ f @ '' '' @ r) @ ''}}'')"
proof -
  define l where "l = (if prefix ''-'' u then ''-'' else [])"
  define v where "v = (if prefix ''-'' u then drop 1 u else u)"
  define r where "r = (if suffix ''-'' v then ''-'' else [])"
  define w where "w = (if suffix ''-'' v then take (length v - 1) v else v)"
  have u: "take (length tag - 4) (drop 2 tag) = u" using assms by simp
  have lr: "l \<in> {[], ''-''}" "r \<in> {[], ''-''}" by (simp_all add: l_def r_def)
  then have il: "list_all inert l" "list_all inert r" by (auto simp: inert_def)
  have uv: "u = l @ v" by (auto simp: l_def v_def prefix_def)
  have vw: "v = w @ r" by (auto simp: w_def r_def suffix_def)
  obtain x y where w: "w = x @ trim_space w @ y" "list_all inert x" "list_all inert y"
    using trim_space_split [of w] by blast
  have s: "u = l @ x @ trim_space w @ y @ r"
    by (subst uv, subst vw, subst w(1)) simp
  have i: "list_all inert (l @ x)" "list_all inert (y @ r)" using il w(2,3) by simp_all
  have "rewriteOutputTag tag f =
        (if trim_space w = [] then tag
         else ''{{'' @ l @ '' ('' @ trim_space w @ '') | '' @ f @ '' '' @ r @ ''}}'')"
    unfolding rewriteOutputTag_def u Let_def l_def r_def w_def v_def by simp
  moreover have "u = l @ w @ r" using uv vw by simp
  ultimately have "rewriteOutputTag tag f = tag \<and> u = l @ w @ r \<and> l \<in> {[], ''-''} \<and> r \<in> {[], ''-''} \<and> trim_space w = [] \<or>
      trim_space w \<noteq> [] \<and> u = l @ x @ trim_space w @ y @ r \<and> list_all inert (l @ x) \<and> list_all inert (y @ r) \<and>
      l \<in> {[], ''-''} \<and> r \<in> {[], ''-''} \<and>
      rewriteOutputTag tag f = ''{{'' @ (l @ '' ('' @ trim_space w @ '') | '' @ f @ '' '' @ r) @ ''}}''"
    using s i lr by (cases "trim_space w = []") (simp_all only: if_True if_False append_assoc simp_thms not_True_eq_False not_False_eq_True)
  then show ?thesis by blast
qed

lemma lexes_expr:
  assumes "lexes None (u @ ''}'') = Some None" "u = l @ x @ e @ y @ r"
    and "list_all inert (l @ x)" "list_all inert (y @ r)"
  shows "lexes None e = Some None"
proof -
  have "lexes None (e @ (y @ r) @ ''}'') = Some None"
    using assms(1) lexes_inert_prefix [OF assms(3)] by (simp add: assms(2))
  then have "lexes None (e @ (y @ r)) = Some None"
    using lexes_right [of None "e @ y @ r" "CHR ''}''"] by (simp add: open_quote_def)
  then show ?thesis by (rule lexes_inert_suffix) (rule assms(4))
qed

lemma lexes_rewritten:
  assumes "lexes None (u @ ''}'') = Some None" "u = l @ x @ e @ y @ r"
    and "list_all inert (l @ x)" "list_all inert (y @ r)" "list_all inert f"
  shows "lexes None ((l @ '' ('' @ e @ '') | '' @ f @ '' '' @ r) @ ''}'') = Some None"
proof -
  have e: "lexes None e = Some None" by (rule lexes_expr [OF assms(1-4)])
  define v where "v = '') | '' @ f @ '' '' @ r @ ''}''"
  have i: "list_all inert (l @ '' ('')" "list_all inert ('') | '' @ f @ '' '' @ r)"
    using assms(3,4,5) by (auto simp: inert_def)
  have "lexes None ((l @ '' ('') @ e @ v) = lexes None (e @ v)"
    by (rule lexes_inert_prefix) (rule i)
  also have "\<dots> = lexes None v" by (rule lexes_append [OF e]) (simp add: v_def)
  also have "\<dots> = lexes None ''}''"
    using lexes_inert_prefix [OF i(2), of "''}''"] by (simp add: v_def)
  finally show ?thesis by (simp add: v_def)
qed

lemma rewritten_tag_end:
  assumes "tag_end s = Some e" "prefix ''{{'' s" "list_all inert f"
  defines "tag \<equiv> rewriteOutputTag (take e s) f"
  shows "tag_end (tag @ t) = Some (length tag)" "prefix ''{{'' tag"
proof -
  from assms(2) obtain s' where s: "s = ''{{'' @ s'" by (auto simp: prefix_def)
  from assms(1) s obtain k where k: "findTagClose None ''}}'' s' = Some k" "e = 2 + k"
    by (auto simp: tag_end_def tagCloseFor_def)
  from findTagClose_lexes [OF k(1)] obtain u r
    where u: "s' = u @ ''}}'' @ r" "k = length u + 2" "lexes None (u @ ''}'') = Some None" by blast
  have tk: "take e s = ''{{'' @ u @ ''}}''" using s u k by simp
  have "\<exists>u'. tag = ''{{'' @ u' @ ''}}'' \<and> lexes None (u' @ ''}'') = Some None"
    using rewriteOutputTag_shape [OF tk, of f]
  proof
    assume "rewriteOutputTag (take e s) f = take e s \<and>
      (\<exists>l w r. u = l @ w @ r \<and> l \<in> {[], ''-''} \<and> r \<in> {[], ''-''} \<and> trim_space w = [])"
    then show ?thesis using tk u by (auto simp: tag_def)
  next
    assume "\<exists>l x e' y r. e' \<noteq> [] \<and> u = l @ x @ e' @ y @ r \<and> list_all inert (l @ x) \<and> list_all inert (y @ r) \<and>
            l \<in> {[], ''-''} \<and> r \<in> {[], ''-''} \<and>
            rewriteOutputTag (take e s) f = ''{{'' @ (l @ '' ('' @ e' @ '') | '' @ f @ '' '' @ r) @ ''}}''"
    then obtain l x e' y r where v: "u = l @ x @ e' @ y @ r" "list_all inert (l @ x)" "list_all inert (y @ r)"
      "tag = ''{{'' @ (l @ '' ('' @ e' @ '') | '' @ f @ '' '' @ r) @ ''}}''"
      unfolding tag_def by blast
    from lexes_rewritten [OF u(3) v(1,2,3) assms(3)] v(4) show ?thesis by blast
  qed
  then obtain u' where u': "tag = ''{{'' @ u' @ ''}}''" "lexes None (u' @ ''}'') = Some None" by blast
  from lexes_findTagClose [OF u'(2), of t] have "findTagClose None ''}}'' (u' @ ''}}'' @ t) = Some (length u' + 2)"
    by (simp add: open_quote_def)
  then show "tag_end (tag @ t) = Some (length tag)" by (simp add: tag_end_def tagCloseFor_def u')
  show "prefix ''{{'' tag" by (simp add: u')
qed


text \<open>The text \<open>injectEscape\<close> writes, without the list of segments.\<close>

function inject :: "string \<Rightarrow> string \<Rightarrow> string" where
  "inject f s =
     (if s = [] then []
      else if opens_tag s
      then (case tag_end s of
              None \<Rightarrow> s
            | Some e \<Rightarrow>
                if s ! 1 = CHR ''%'' \<and> blockKeyword (take e s) = ''raw''
                then take (e + findRawEnd (drop e s)) s @ inject f (drop (e + findRawEnd (drop e s)) s)
                else snd (rewrite_seg f (kind_of_open (s ! 1), take e s)) @ inject f (drop e s))
      else hd s # inject f (tl s))"
  by pat_completeness auto
termination
  by (relation "measure (\<lambda>(_, s). length s)") (auto simp: tag_end_def)

declare inject.simps [simp del]

lemma scan_cases:
  fixes s :: string
  obtains (empty) "s = []"
    | (character) "s \<noteq> []" "\<not> opens_tag s"
    | (unterminated) "s \<noteq> []" "opens_tag s" "tag_end s = None"
    | (raw) e where "s \<noteq> []" "opens_tag s" "tag_end s = Some e" "s ! 1 = CHR ''%'' \<and> blockKeyword (take e s) = ''raw''"
    | (tag) e where "s \<noteq> []" "opens_tag s" "tag_end s = Some e"
        "\<not> (s ! 1 = CHR ''%'' \<and> blockKeyword (take e s) = ''raw'')"
  by (cases "tag_end s") blast+

lemma scan_eqs:
  "scan_loop pending [] = flushText pending"
  "s \<noteq> [] \<Longrightarrow> \<not> opens_tag s \<Longrightarrow> scan_loop pending s = scan_loop (pending @ [hd s]) (tl s)"
  "s \<noteq> [] \<Longrightarrow> opens_tag s \<Longrightarrow> tag_end s = None \<Longrightarrow> scan_loop pending s = flushText (pending @ s)"
  "s \<noteq> [] \<Longrightarrow> opens_tag s \<Longrightarrow> tag_end s = Some e \<Longrightarrow> s ! 1 = CHR ''%'' \<and> blockKeyword (take e s) = ''raw'' \<Longrightarrow>
   scan_loop pending s = flushText pending @ (KRaw, take (e + findRawEnd (drop e s)) s)
                       # scan_loop [] (drop (e + findRawEnd (drop e s)) s)"
  "s \<noteq> [] \<Longrightarrow> opens_tag s \<Longrightarrow> tag_end s = Some e \<Longrightarrow> \<not> (s ! 1 = CHR ''%'' \<and> blockKeyword (take e s) = ''raw'') \<Longrightarrow>
   scan_loop pending s = flushText pending @ (kind_of_open (s ! 1), take e s) # scan_loop [] (drop e s)"
  by (simp_all only: scan_loop.simps [of pending s] scan_loop.simps [of pending "[]"] Let_def if_True if_False option.case simp_thms)

lemma inject_eqs:
  "inject f [] = []"
  "s \<noteq> [] \<Longrightarrow> \<not> opens_tag s \<Longrightarrow> inject f s = hd s # inject f (tl s)"
  "s \<noteq> [] \<Longrightarrow> opens_tag s \<Longrightarrow> tag_end s = None \<Longrightarrow> inject f s = s"
  "s \<noteq> [] \<Longrightarrow> opens_tag s \<Longrightarrow> tag_end s = Some e \<Longrightarrow> s ! 1 = CHR ''%'' \<and> blockKeyword (take e s) = ''raw'' \<Longrightarrow>
   inject f s = take (e + findRawEnd (drop e s)) s @ inject f (drop (e + findRawEnd (drop e s)) s)"
  "s \<noteq> [] \<Longrightarrow> opens_tag s \<Longrightarrow> tag_end s = Some e \<Longrightarrow> \<not> (s ! 1 = CHR ''%'' \<and> blockKeyword (take e s) = ''raw'') \<Longrightarrow>
   inject f s = snd (rewrite_seg f (kind_of_open (s ! 1), take e s)) @ inject f (drop e s)"
  by (simp_all only: inject.simps [of f s] inject.simps [of f "[]"] if_True if_False option.case simp_thms)

lemma scan_induct [case_names empty character unterminated raw tag]:
  assumes "\<And>pending. P pending []"
    and "\<And>pending s. s \<noteq> [] \<Longrightarrow> \<not> opens_tag s \<Longrightarrow> P (pending @ [hd s]) (tl s) \<Longrightarrow> P pending s"
    and "\<And>pending s. s \<noteq> [] \<Longrightarrow> opens_tag s \<Longrightarrow> tag_end s = None \<Longrightarrow> P pending s"
    and "\<And>pending s e. s \<noteq> [] \<Longrightarrow> opens_tag s \<Longrightarrow> tag_end s = Some e \<Longrightarrow>
           s ! 1 = CHR ''%'' \<and> blockKeyword (take e s) = ''raw'' \<Longrightarrow>
           P [] (drop (e + findRawEnd (drop e s)) s) \<Longrightarrow> P pending s"
    and "\<And>pending s e. s \<noteq> [] \<Longrightarrow> opens_tag s \<Longrightarrow> tag_end s = Some e \<Longrightarrow>
           \<not> (s ! 1 = CHR ''%'' \<and> blockKeyword (take e s) = ''raw'') \<Longrightarrow> P [] (drop e s) \<Longrightarrow> P pending s"
  shows "P pending s"
proof (induction pending s rule: scan_loop.induct)
  case (1 pending s)
  show ?case
  proof (cases s rule: scan_cases)
    case empty
    then show ?thesis using assms(1) by simp
  next
    case character
    with 1(3) assms(2) show ?thesis by blast
  next
    case unterminated
    with assms(3) show ?thesis by blast
  next
    case (raw e)
    from 1(1) [OF raw refl] have "P [] (drop (e + findRawEnd (drop e s)) s)" .
    with raw assms(4) show ?thesis by blast
  next
    case (tag e)
    from 1(2) [OF tag] have "P [] (drop e s)" .
    with tag assms(5) show ?thesis by blast
  qed
qed

lemma concat_flushText [simp]: "concat (map snd (flushText t)) = t"
  by (simp add: flushText_def)

lemma rewrite_flushText [simp]: "map (rewrite_seg f) (flushText t) = flushText t"
  by (simp add: flushText_def rewrite_seg_def)

lemma scan_concat: "concat (map snd (scan_loop pending s)) = pending @ s"
  by (induction pending s rule: scan_induct) (simp_all add: scan_eqs)

lemma scan_rewritten: "concat (map snd (map (rewrite_seg f) (scan_loop pending s))) = pending @ inject f s"
proof (induction pending s rule: scan_induct)
  case (empty pending)
  show ?case by (simp only: scan_eqs(1) inject_eqs(1) rewrite_flushText concat_flushText append_Nil2)
next
  case (character pending s)
  show ?case unfolding scan_eqs(2) [OF character(1,2)] inject_eqs(2) [OF character(1,2)]
    using character(3) by simp
next
  case (unterminated pending s)
  show ?case unfolding scan_eqs(3) [OF unterminated] inject_eqs(3) [OF unterminated]
      rewrite_flushText concat_flushText ..
next
  case (raw pending s e)
  have "snd (rewrite_seg f (KRaw, x)) = x" for x by (simp add: rewrite_seg_def)
  then show ?case unfolding scan_eqs(4) [OF raw(1-4)] inject_eqs(4) [OF raw(1-4)] map_append list.map concat_append
      rewrite_flushText concat_flushText using raw(5) by simp
next
  case (tag pending s e)
  show ?case unfolding scan_eqs(5) [OF tag(1-4)] inject_eqs(5) [OF tag(1-4)] map_append list.map concat_append
      rewrite_flushText concat_flushText using tag(5) by simp
qed


lemma opens_hd: "opens_tag (c # s) \<longleftrightarrow> c = CHR ''{'' \<and> s \<noteq> [] \<and> hd s \<in> {CHR ''{'', CHR ''%'', CHR ''#''}"
  by (cases s) (auto simp: opens_tag_def)

lemma inject_hd:
  assumes "list_all inert f"
  shows "(inject f s = [] \<longleftrightarrow> s = []) \<and> (s \<noteq> [] \<longrightarrow> hd (inject f s) = hd s)"
proof (cases s rule: scan_cases)
  case empty
  then show ?thesis by (simp add: inject_eqs)
next
  case character
  then show ?thesis by (simp add: inject_eqs(2))
next
  case unterminated
  then show ?thesis by (simp add: inject_eqs(3))
next
  case (raw e)
  with tag_end_bound [OF raw(3)] show ?thesis
    unfolding inject_eqs(4) [OF raw] by (cases s) (auto simp: take_Cons')
next
  case (tag e)
  define g where "g = snd (rewrite_seg f (kind_of_open (s ! 1), take e s))"
  have "g \<noteq> [] \<and> hd g = hd s"
  proof (cases "kind_of_open (s ! 1) = KOutput")
    case True
    then have "prefix ''{{'' s" using tag(2)
      by (auto simp: opens_tag_def kind_of_open_def prefix_def split: if_splits)
    with rewritten_tag_end(2) [OF tag(3) this assms] True show ?thesis
      by (auto simp: g_def rewrite_seg_def prefix_def)
  next
    case False
    with tag_end_bound [OF tag(3)] show ?thesis by (cases s) (auto simp: g_def rewrite_seg_def take_Cons')
  qed
  then show ?thesis unfolding inject_eqs(5) [OF tag] g_def [symmetric] using tag(1) by auto
qed

lemma opens_take: "2 \<le> e \<Longrightarrow> e \<le> length s \<Longrightarrow> opens_tag s \<Longrightarrow> opens_tag (take e s @ t)"
  by (auto simp: opens_tag_def prefix_def le_iff_add)

lemma scan_inject:
  assumes f: "list_all inert f"
  shows "scan_loop pending (inject f s) = map (rewrite_seg f) (scan_loop pending s)"
proof (induction pending s rule: scan_induct)
  case (empty pending)
  show ?case by (simp only: scan_eqs(1) inject_eqs(1) rewrite_flushText)
next
  case (character pending s)
  then obtain c s' where s: "s = c # s'" by (cases s) auto
  have "\<not> opens_tag (c # inject f s')"
    using character(2) inject_hd [OF f, of s'] by (auto simp: s opens_hd)
  then show ?case using character(3) scan_eqs(2) [OF character(1,2)]
    unfolding inject_eqs(2) [OF character(1,2)] by (simp add: s scan_eqs(2))
next
  case (unterminated pending s)
  show ?case unfolding inject_eqs(3) [OF unterminated] scan_eqs(3) [OF unterminated] rewrite_flushText ..
next
  case (raw pending s e)
  define r where "r = findRawEnd (drop e s)"
  define t where "t = inject f (drop (e + r) s)"
  define s' where "s' = take (e + r) s @ t"
  have e: "4 \<le> e" "e \<le> length s" using tag_end_bound [OF raw(3)] by auto
  have rl: "r \<le> length s - e" using findRawEnd_bound [of "drop e s"] by (simp add: r_def)
  have s'': "s' = take e s @ take r (drop e s) @ t" by (simp add: s'_def take_add)
  have o: "s' \<noteq> []" "opens_tag s'" using opens_take [of e s] e raw(2) by (auto simp: s'')
  have te: "tag_end s' = Some e" using tag_end_prefix [OF raw(3)] by (simp add: s'')
  have kw: "s' ! 1 = CHR ''%'' \<and> blockKeyword (take e s') = ''raw''"
    using raw(4) e by (simp add: s'' nth_append)
  have d: "drop e s' = take (findRawEnd (drop e s)) (drop e s) @ t" using e by (simp add: s'' r_def)
  have "findRawEnd (drop e s) = length (drop e s) \<Longrightarrow> t = []"
    using e by (simp add: t_def r_def inject_eqs(1))
  then have r': "findRawEnd (drop e s') = r"
    unfolding d by (subst findRawEnd_prefix) (simp_all add: r_def)
  have "take (e + r) s' = take (e + r) s" "drop (e + r) s' = t" using e rl by (simp_all add: s'_def)
  then show ?case
    unfolding inject_eqs(4) [OF raw(1-4)] scan_eqs(4) [OF raw(1-4)] r_def [symmetric] t_def [symmetric] s'_def [symmetric]
      scan_eqs(4) [OF o te kw] r' map_append rewrite_flushText list.map using raw(5)
    by (simp add: rewrite_seg_def r_def t_def)
next
  case (tag pending s e)
  define g where "g = snd (rewrite_seg f (kind_of_open (s ! 1), take e s))"
  define s' where "s' = g @ inject f (drop e s)"
  have e: "4 \<le> e" "e \<le> length s" using tag_end_bound [OF tag(3)] by auto
  have g: "tag_end s' = Some (length g) \<and> s' \<noteq> [] \<and> opens_tag s' \<and> s' ! 1 = s ! 1
           \<and> \<not> (s' ! 1 = CHR ''%'' \<and> blockKeyword (take (length g) s') = ''raw'')"
  proof (cases "kind_of_open (s ! 1) = KOutput")
    case True
    then have p: "prefix ''{{'' s" using tag(2)
      by (auto simp: opens_tag_def kind_of_open_def prefix_def split: if_splits)
    have gt: "g = rewriteOutputTag (take e s) f" using True by (simp add: g_def rewrite_seg_def)
    have "prefix ''{{'' g" using rewritten_tag_end(2) [OF tag(3) p f] by (simp add: gt)
    moreover have "tag_end s' = Some (length g)"
      using rewritten_tag_end(1) [OF tag(3) p f] by (simp add: gt s'_def)
    ultimately show ?thesis using p by (auto simp: s'_def prefix_def opens_tag_def)
  next
    case False
    then have gt: "g = take e s" by (simp add: g_def rewrite_seg_def)
    with e tag(2,4) tag_end_prefix [OF tag(3)] show ?thesis
      using opens_take [of e s] by (auto simp: s'_def nth_append)
  qed
  then have k: "s' \<noteq> []" "opens_tag s'" "tag_end s' = Some (length g)"
    "\<not> (s' ! 1 = CHR ''%'' \<and> blockKeyword (take (length g) s') = ''raw'')" "s' ! 1 = s ! 1" by auto
  have "take (length g) s' = g" "drop (length g) s' = inject f (drop e s)" by (simp_all add: s'_def)
  then show ?case
    unfolding inject_eqs(5) [OF tag(1-4)] g_def [symmetric] s'_def [symmetric] scan_eqs(5) [OF tag(1-4)]
      scan_eqs(5) [OF k(1-4)] k(5) map_append rewrite_flushText list.map using tag(5)
    by (simp add: g_def rewrite_seg_def)
qed


text \<open>
  An output segment as the engine hands it over: the expression in parentheses, then the
  escaping filter; or a tag without expression, which the engine leaves to the parser. The
  filter reaches all of the expression when its brackets are balanced: the bracket in front of
  it then closes right before the filter.
\<close>

text \<open>
  Brackets outside string literals: how deep they are open after a text, \<open>None\<close> when one closes that
  is not open; and where, in the text after an opening bracket, this bracket closes.
\<close>

fun depth :: "char option \<Rightarrow> nat \<Rightarrow> string \<Rightarrow> nat option" where
  "depth q n [] = Some n"
| "depth (Some q) n (c # u) =
     (if c = backslash then (case u of [] \<Rightarrow> Some n | _ # u' \<Rightarrow> depth (Some q) n u')
      else depth (if c = q then None else Some q) n u)"
| "depth None n (c # u) =
     (if c = squote \<or> c = dquote then depth (Some c) n u
      else if c = CHR ''('' then depth None (Suc n) u
      else if c = CHR '')'' then (case n of 0 \<Rightarrow> None | Suc m \<Rightarrow> depth None m u)
      else depth None n u)"

fun bracket_end :: "char option \<Rightarrow> nat \<Rightarrow> string \<Rightarrow> nat option" where
  "bracket_end q n [] = None"
| "bracket_end (Some q) n (c # u) =
     (if c = backslash then (case u of [] \<Rightarrow> None | _ # u' \<Rightarrow> map_option (\<lambda>k. k + 2) (bracket_end (Some q) n u'))
      else map_option Suc (bracket_end (if c = q then None else Some q) n u))"
| "bracket_end None n (c # u) =
     (if c = squote \<or> c = dquote then map_option Suc (bracket_end (Some c) n u)
      else if c = CHR ''('' then map_option Suc (bracket_end None (Suc n) u)
      else if c = CHR '')'' then (case n of 0 \<Rightarrow> Some 0 | Suc m \<Rightarrow> map_option Suc (bracket_end None m u))
      else map_option Suc (bracket_end None n u))"

lemma bracket_end_append:
  assumes "lexes q e = Some None" "depth q n e = Some n'"
  shows "bracket_end q n (e @ t) = map_option (\<lambda>k. k + length e) (bracket_end None n' t)"
proof -
  have "bracket_end q n (e @ t) = (case bracket_end None n' t of None \<Rightarrow> None | Some k \<Rightarrow> Some (k + length e))"
    using assms
  proof (induction q n e rule: depth.induct)
    case (1 q n)
    then show ?case by (simp split: option.split)
  next
    case (2 q n c u)
    show ?case
    proof (cases "c = backslash")
      case True
      with 2 show ?thesis by (cases u) (auto split: option.split)
    next
      case False
      with 2 show ?thesis by (auto split: option.split)
    qed
  next
    case (3 n c u)
    from 3(5) have l: "if c = squote \<or> c = dquote then lexes (Some c) u = Some None else lexes None u = Some None"
      by (auto split: if_splits)
    consider "c = squote \<or> c = dquote" | "c = CHR ''(''" | "c = CHR '')''"
      | "c \<noteq> squote" "c \<noteq> dquote" "c \<noteq> CHR ''(''" "c \<noteq> CHR '')''" by blast
    then show ?case
    proof cases
      case 1
      with 3(1) [OF 1] 3(6) l show ?thesis by (auto split: option.split)
    next
      case 2
      with 3(2) 3(6) l show ?thesis by (auto split: option.split)
    next
      case c: 3
      with 3(6) obtain m where "n = Suc m" by (cases n) auto
      with c 3(3) 3(6) l show ?thesis by (auto split: option.split)
    next
      case 4
      with 3(4) 3(6) l show ?thesis by (auto split: option.split)
    qed
  qed
  then show ?thesis by (cases "bracket_end None n' t") simp_all
qed

definition escaped_seg :: "string \<Rightarrow> tag_kind \<times> string \<Rightarrow> bool" where
  "escaped_seg f kg \<longleftrightarrow>
     fst kg = KOutput \<longrightarrow>
       (\<exists>l e r. snd kg = ''{{'' @ l @ '' ('' @ e @ '') | '' @ f @ '' '' @ r @ ''}}'' \<and> e \<noteq> [] \<and> lexes None e = Some None
               \<and> (depth None 0 e = Some 0 \<longrightarrow> bracket_end None 0 (e @ '') | '' @ f @ '' '' @ r @ ''}}'') = Some (length e))
               \<and> l \<in> {[], ''-''} \<and> r \<in> {[], ''-''})
       \<or> (\<exists>l w r. snd kg = ''{{'' @ l @ w @ r @ ''}}'' \<and> trim_space w = [] \<and> l \<in> {[], ''-''} \<and> r \<in> {[], ''-''})"

lemma escaped_rewrite:
  assumes "lexes None (u @ ''}'') = Some None"
  shows "escaped_seg f (rewrite_seg f (KOutput, ''{{'' @ u @ ''}}''))"
proof -
  define tag where "tag = ''{{'' @ u @ ''}}''"
  from rewriteOutputTag_shape [OF tag_def, of f] consider
      (blank) l w r where "rewriteOutputTag tag f = tag" "u = l @ w @ r" "l \<in> {[], ''-''}" "r \<in> {[], ''-''}" "trim_space w = []"
    | (wrapped) l x e y r where "e \<noteq> []" "u = l @ x @ e @ y @ r" "list_all inert (l @ x)" "list_all inert (y @ r)"
        "l \<in> {[], ''-''}" "r \<in> {[], ''-''}"
        "rewriteOutputTag tag f = ''{{'' @ (l @ '' ('' @ e @ '') | '' @ f @ '' '' @ r) @ ''}}''"
    by blast
  then show ?thesis
  proof cases
    case blank
    have "snd (rewrite_seg f (KOutput, tag)) = ''{{'' @ l @ w @ r @ ''}}''"
      using blank(1,2) by (simp add: rewrite_seg_def tag_def)
    with blank(3-5) show ?thesis unfolding escaped_seg_def tag_def by blast
  next
    case wrapped
    have "snd (rewrite_seg f (KOutput, tag)) = ''{{'' @ l @ '' ('' @ e @ '') | '' @ f @ '' '' @ r @ ''}}''"
      using wrapped(7) by (simp add: rewrite_seg_def)
    moreover have "depth None 0 e = Some 0 \<longrightarrow> bracket_end None 0 (e @ '') | '' @ f @ '' '' @ r @ ''}}'') = Some (length e)"
      using bracket_end_append [OF lexes_expr [OF assms wrapped(2-4)], of 0 0 "'') | '' @ f @ '' '' @ r @ ''}}''"] by simp
    ultimately show ?thesis using wrapped(1,5,6) lexes_expr [OF assms wrapped(2-4)] unfolding escaped_seg_def tag_def by blast
  qed
qed

subsection \<open>The segments of a template\<close>

lemma contains_sub_append: "contains_sub p s \<longleftrightarrow> (\<exists>a b. s = a @ p @ b)"
proof
  assume "contains_sub p s"
  then obtain i where "prefix p (drop i s)" by (auto simp: contains_sub_def list_ex_iff)
  then show "\<exists>a b. s = a @ p @ b"
    by (metis append_take_drop_id prefix_def)
next
  assume "\<exists>a b. s = a @ p @ b"
  then obtain a b where s: "s = a @ p @ b" by blast
  then have "length a \<in> set [0..<Suc (length s)]" "prefix p (drop (length a) s)" by simp_all
  then show "contains_sub p s" unfolding contains_sub_def list_ex_iff by blast
qed

lemma contains_sub_take: "contains_sub p (take n s) \<Longrightarrow> contains_sub p s"
  unfolding contains_sub_append by (metis append_assoc append_take_drop_id)

text \<open>What a segment of each kind looks like.\<close>

definition well_formed_seg :: "tag_kind \<times> string \<Rightarrow> bool" where
  "well_formed_seg kg =
     (case kg of
        (KText, g) \<Rightarrow> g \<noteq> []
      | (KOutput, g) \<Rightarrow> (\<exists>u. g = ''{{'' @ u @ ''}}'' \<and> lexes None (u @ ''}'') = Some None)
      | (KBlock, g) \<Rightarrow> prefix ''{%'' g \<and> tag_end g = Some (length g) \<and> blockKeyword g \<noteq> ''raw''
      | (KComment, g) \<Rightarrow> prefix ''{#'' g \<and> tag_end g = Some (length g)
      | (KRaw, g) \<Rightarrow> (\<exists>e. prefix ''{%'' g \<and> tag_end g = Some e \<and> blockKeyword (take e g) = ''raw''
                      \<and> e + findRawEnd (drop e g) = length g))"

lemma tag_end_take: "tag_end s = Some e \<Longrightarrow> e \<le> n \<Longrightarrow> tag_end (take n s) = Some e"
  using tag_end_prefix [of s e "drop e (take n s)"] append_take_drop_id [of e "take n s"]
  by (simp add: min_def)

lemma prefix_take2: "prefix [a, b] s \<Longrightarrow> 2 \<le> n \<Longrightarrow> prefix [a, b] (take n s)"
  by (auto simp: prefix_def le_iff_add)

lemma opens_cases:
  assumes "opens_tag s"
  shows "s ! 1 = CHR ''{'' \<and> prefix ''{{'' s \<or> s ! 1 = CHR ''%'' \<and> prefix ''{%'' s \<or> s ! 1 = CHR ''#'' \<and> prefix ''{#'' s"
  using assms by (auto simp: opens_tag_def prefix_def)

lemma tag_well_formed:
  assumes "opens_tag s" "tag_end s = Some e"
    and "\<not> (s ! 1 = CHR ''%'' \<and> blockKeyword (take e s) = ''raw'')"
  shows "well_formed_seg (kind_of_open (s ! 1), take e s)"
proof -
  have e: "4 \<le> e" "e \<le> length s" using tag_end_bound [OF assms(2)] by auto
  have te: "tag_end (take e s) = Some e" using tag_end_take [OF assms(2)] by simp
  from opens_cases [OF assms(1)] show ?thesis
  proof (elim disjE conjE)
    assume "s ! 1 = CHR ''{''" "prefix ''{{'' s"
    then obtain s' k where s: "s = ''{{'' @ s'" and k: "findTagClose None ''}}'' s' = Some k" "e = 2 + k"
      using assms(2) by (auto simp: prefix_def tag_end_def tagCloseFor_def)
    from findTagClose_lexes [OF k(1)] obtain u r
      where "s' = u @ ''}}'' @ r" "k = length u + 2" "lexes None (u @ ''}'') = Some None" by blast
    then show ?thesis using s k by (auto simp: well_formed_seg_def kind_of_open_def)
  next
    assume "s ! 1 = CHR ''%''" "prefix ''{%'' s"
    with te e assms(3) show ?thesis
      using prefix_take2 [of _ _ s e] by (auto simp: well_formed_seg_def kind_of_open_def)
  next
    assume "s ! 1 = CHR ''#''" "prefix ''{#'' s"
    with te e show ?thesis
      using prefix_take2 [of _ _ s e] by (auto simp: well_formed_seg_def kind_of_open_def)
  qed
qed

lemma raw_well_formed:
  assumes "opens_tag s" "tag_end s = Some e" "s ! 1 = CHR ''%'' \<and> blockKeyword (take e s) = ''raw''"
  shows "well_formed_seg (KRaw, take (e + findRawEnd (drop e s)) s)"
proof -
  define r where "r = findRawEnd (drop e s)"
  have e: "4 \<le> e" "e \<le> length s" using tag_end_bound [OF assms(2)] by auto
  have rl: "r \<le> length s - e" using findRawEnd_bound [of "drop e s"] by (simp add: r_def)
  have "prefix ''{%'' (take (e + r) s)"
    using opens_cases [OF assms(1)] assms(3) e prefix_take2 [of _ _ s "e + r"] by auto
  moreover have "tag_end (take (e + r) s) = Some e" using tag_end_take [OF assms(2)] by simp
  moreover have "blockKeyword (take e (take (e + r) s)) = ''raw''" using assms(3) by simp
  moreover have "findRawEnd (drop e (take (e + r) s)) = r"
    using findRawEnd_prefix [of "drop e s" "[]"] by (simp add: drop_take r_def)
  ultimately have "prefix ''{%'' (take (e + r) s) \<and> tag_end (take (e + r) s) = Some e
       \<and> blockKeyword (take e (take (e + r) s)) = ''raw''
       \<and> e + findRawEnd (drop e (take (e + r) s)) = length (take (e + r) s)"
    using e rl by simp
  then show ?thesis unfolding r_def [symmetric] well_formed_seg_def prod.case tag_kind.case by blast
qed

lemma scan_well_formed: "list_all well_formed_seg (scan_loop pending s)"
proof (induction pending s rule: scan_induct)
  case (raw pending s e)
  then show ?case unfolding scan_eqs(4) [OF raw(1-4)]
    using raw_well_formed [OF raw(2-4)] by (simp add: flushText_def well_formed_seg_def)
next
  case (tag pending s e)
  then show ?case unfolding scan_eqs(5) [OF tag(1-4)]
    using tag_well_formed [OF tag(2-4)] by (simp add: flushText_def well_formed_seg_def)
qed (simp_all add: scan_eqs flushText_def well_formed_seg_def)

lemma output_contains:
  assumes "(KOutput, g) \<in> set (scanTemplate src)"
  shows "contains_sub ''{{'' src"
proof -
  have "well_formed_seg (KOutput, g)" using scan_well_formed [of "[]" src] assms
    unfolding scanTemplate_def list_all_iff by blast
  then obtain u where g: "g = ''{{'' @ u @ ''}}''" by (auto simp: well_formed_seg_def)
  obtain a b where "scanTemplate src = a @ (KOutput, g) # b" using assms by (meson split_list)
  then have "concat (map snd (scanTemplate src)) = concat (map snd a) @ ''{{'' @ (u @ ''}}'' @ concat (map snd b))"
    by (simp add: g)
  then show ?thesis using scan_concat [of "[]" src] unfolding contains_sub_append scanTemplate_def
    by (metis append_Nil)
qed

lemma block_contains:
  assumes "(KBlock, g) \<in> set (scanTemplate src)"
  shows "contains_sub ''{%'' src"
proof -
  have "well_formed_seg (KBlock, g)" using scan_well_formed [of "[]" src] assms
    unfolding scanTemplate_def list_all_iff by blast
  then obtain u where g: "g = ''{%'' @ u" by (auto simp: well_formed_seg_def prefix_def)
  obtain a b where "scanTemplate src = a @ (KBlock, g) # b" using assms by (meson split_list)
  then have "concat (map snd (scanTemplate src)) = concat (map snd a) @ ''{%'' @ (u @ concat (map snd b))"
    by (simp add: g)
  then show ?thesis using scan_concat [of "[]" src] unfolding contains_sub_append scanTemplate_def
    by (metis append_Nil)
qed

lemma injectEscape_eq: "f \<noteq> [] \<Longrightarrow> injectEscape src f = inject f src"
proof -
  assume f: "f \<noteq> []"
  have "concat (map snd (map (rewrite_seg f) (scanTemplate src))) = inject f src"
    using scan_rewritten [of f "[]" src] by (simp add: scanTemplate_def)
  moreover have "concat (map snd (map (rewrite_seg f) (scanTemplate src))) = src" if "\<not> contains_sub ''{{'' src"
  proof -
    have "map (rewrite_seg f) (scanTemplate src) = map id (scanTemplate src)"
      using output_contains that by (intro map_cong) (auto simp: rewrite_seg_def)
    then show ?thesis using scan_concat [of "[]" src] by (simp add: scanTemplate_def)
  qed
  ultimately show ?thesis using f by (auto simp: injectEscape_def)
qed


lemma rewritten_escaped: "list_all (escaped_seg f) (map (rewrite_seg f) (scanTemplate src))"
proof -
  have "escaped_seg f (rewrite_seg f kg)" if "well_formed_seg kg" for kg
  proof (cases "fst kg = KOutput")
    case True
    with that obtain u where "kg = (KOutput, ''{{'' @ u @ ''}}'')" "lexes None (u @ ''}'') = Some None"
      by (cases kg) (auto simp: well_formed_seg_def)
    then show ?thesis by (simp only: escaped_rewrite)
  next
    case False
    then show ?thesis by (cases kg) (simp add: escaped_seg_def rewrite_seg_def)
  qed
  with scan_well_formed [of "[]" src] show ?thesis by (auto simp: scanTemplate_def list_all_iff)
qed

lemma injectEscape_scan:
  "f \<noteq> [] \<Longrightarrow> list_all inert f \<Longrightarrow> scanTemplate (injectEscape src f) = map (rewrite_seg f) (scanTemplate src)"
  by (simp add: injectEscape_eq scanTemplate_def scan_inject)

lemma list_ex_output: "list_ex (\<lambda>(kind, _). kind = KOutput) (scanTemplate src) \<Longrightarrow> contains_sub ''{{'' src"
  using output_contains by (fastforce simp: list_ex_iff)

lemma block_problem_contains:
  assumes "\<not> contains_sub ''{%'' src"
  shows "first_some (block_problem t) (scanTemplate src) = None"
  unfolding first_some_None
proof
  fix kg
  assume "kg \<in> set (scanTemplate src)"
  moreover obtain k g where kg: "kg = (k, g)" by (cases kg)
  ultimately have "k \<noteq> KBlock" using block_contains assms by blast
  then show "block_problem t kg = None" by (simp add: block_problem_def kg)
qed

lemma checkBlocks_scan: "checkBlocks src target = first_some (block_problem target) (scanTemplate src)"
  using block_problem_contains [of src target] by (simp add: checkBlocks_def)

text \<open>
  The tokenizer loses nothing and recognises what it should: the segments of a template,
  in order, are the template; a text segment is not empty, an output segment is \<open>{{ u }}\<close>
  where \<open>u\<close> has balanced quotes and no \<open>}}\<close> outside them, a block or comment segment ends at
  the end the lexer finds for it, and a raw segment starts with \<open>{% raw %}\<close> and reaches the
  matching \<open>{% endraw %}\<close> or the end of the template. The quick exits on a template that has
  no \<open>{{\<close> or no \<open>{%\<close> change no answer: \<open>HasOutputTag\<close> holds exactly when there is an output
  segment, and \<open>checkBlocks\<close> reports the first offending block segment.
\<close>
theorem scanTemplate_segments:
  "concat (map snd (scanTemplate src)) = src \<and> list_all well_formed_seg (scanTemplate src)
   \<and> HasOutputTag src = list_ex (\<lambda>(kind, _). kind = KOutput) (scanTemplate src)
   \<and> checkBlocks src target = first_some (block_problem target) (scanTemplate src)"
proof (intro conjI)
  show "concat (map snd (scanTemplate src)) = src"
    using scan_concat [of "[]" src] by (simp add: scanTemplate_def)
  show "list_all well_formed_seg (scanTemplate src)"
    using scan_well_formed by (simp add: scanTemplate_def)
  show "HasOutputTag src = list_ex (\<lambda>(kind, _). kind = KOutput) (scanTemplate src)"
    using list_ex_output [of src] unfolding HasOutputTag_def by blast
  show "checkBlocks src target = first_some (block_problem target) (scanTemplate src)"
    by (rule checkBlocks_scan)
qed

text \<open>
  A line break or a quote right after the keyword hides a forbidden block: \<open>blockKeyword\<close> cuts
  the keyword at a blank or a tab only.
\<close>

lemma graphic_spaces:
  "\<forall>p \<in> set utf8_spaces. p \<noteq> [] \<and> \<not> graphic (hd p)"
  "\<forall>p \<in> set (map rev utf8_spaces). p \<noteq> [] \<and> \<not> graphic (hd p)"
proof -
  have "list_all (\<lambda>p. p \<noteq> [] \<and> \<not> graphic (hd p)) utf8_spaces"
    "list_all (\<lambda>p. p \<noteq> [] \<and> \<not> graphic (hd p)) (map rev utf8_spaces)"
    by (simp_all add: utf8_spaces_def bytes_def graphic_def upt_rec)
  then show "\<forall>p \<in> set utf8_spaces. p \<noteq> [] \<and> \<not> graphic (hd p)"
    "\<forall>p \<in> set (map rev utf8_spaces). p \<noteq> [] \<and> \<not> graphic (hd p)"
    by (simp_all only: list_all_iff)
qed

lemma trim_left_graphic:
  assumes "\<forall>p \<in> set sps. p \<noteq> [] \<and> \<not> graphic (hd p)" "graphic c"
  shows "trim_left sps (c # s) = c # s"
proof -
  have "\<not> prefix p (c # s)" if "p \<in> set sps" for p
    using assms that by (cases p) auto
  then have "find (\<lambda>p. prefix p (c # s)) sps = None" by (simp add: find_None_iff)
  then show ?thesis by (simp add: trim_left.simps space_prefix_def)
qed

lemma trim_left_blank:
  "trim_left utf8_spaces (CHR '' '' # s) = trim_left utf8_spaces s"
  "trim_left (map rev utf8_spaces) (CHR '' '' # s) = trim_left (map rev utf8_spaces) s"
proof -
  have one: "space_prefix sps (CHR '' '' # s) = 1"
    if sps: "\<forall>p \<in> set sps. p \<noteq> [] \<and> ((of_char (hd p) :: nat) = 32 \<longrightarrow> length p = 1)" "'' '' \<in> set sps" for sps
  proof (cases "find (\<lambda>p. prefix p (CHR '' '' # s)) sps")
    case None
    with sps(2) show ?thesis unfolding find_None_iff_all by (metis Cons_prefix_Cons Nil_prefix)
  next
    case (Some p)
    from find_SomeD [OF Some] have p: "p \<in> set sps" "prefix p (CHR '' '' # s)" by auto
    with sps(1) have "p \<noteq> []" by blast
    with p(2) have "hd p = CHR '' ''" by (cases p) auto
    then have "(of_char (hd p) :: nat) = 32" by simp
    with sps(1) p(1) have "length p = 1" by blast
    then show ?thesis using Some by (simp add: space_prefix_def)
  qed
  have b: "char_of (32 :: nat) = CHR '' ''" by (rule of_char_eqI [where 'a = nat]) simp
  have m: "'' '' \<in> set utf8_spaces" "'' '' \<in> set (map rev utf8_spaces)"
    by (simp_all add: utf8_spaces_def bytes_def b)
  have "list_all (\<lambda>p. p \<noteq> [] \<and> ((of_char (hd p) :: nat) = 32 \<longrightarrow> length p = 1)) utf8_spaces"
    "list_all (\<lambda>p. p \<noteq> [] \<and> ((of_char (hd p) :: nat) = 32 \<longrightarrow> length p = 1)) (map rev utf8_spaces)"
    by (simp_all add: utf8_spaces_def bytes_def upt_rec)
  then have "space_prefix utf8_spaces (CHR '' '' # s) = 1" "space_prefix (map rev utf8_spaces) (CHR '' '' # s) = 1"
    using one [OF _ m(1)] one [OF _ m(2)] unfolding list_all_iff by blast+
  then show "trim_left utf8_spaces (CHR '' '' # s) = trim_left utf8_spaces s"
    "trim_left (map rev utf8_spaces) (CHR '' '' # s) = trim_left (map rev utf8_spaces) s"
    by (simp_all add: trim_left.simps [of _ "CHR '' '' # s"])
qed

lemma hidden_blocks:
  "checkBlocks (''{% include'' @ [CHR 0x0A] @ ''n %}'') TargetXML = None"
  "checkBlocks (''{% filter'' @ [CHR 0x0A] @ ''upper %}'') TargetXML = None"
  "checkBlocks ''{% filter upper %}'' TargetXML = Some (ErrFilterBlock TargetXML)"
proof -
  have g: "graphic CHR ''i''" "graphic CHR ''n''" "graphic CHR ''f''" "graphic CHR ''r''" by (simp_all add: graphic_def)
  note trim = trim_space_def trim_left_blank trim_left_graphic [OF graphic_spaces(1)] trim_left_graphic [OF graphic_spaces(2)]
    g TrimSuffix_def TrimPrefix_def suffix_to_prefix
  have k: "blockKeyword (''{% include'' @ [CHR 0x0A] @ ''n %}'') = ''include'' @ [CHR 0x0A] @ ''n''"
    "blockKeyword (''{% filter'' @ [CHR 0x0A] @ ''upper %}'') = ''filter'' @ [CHR 0x0A] @ ''upper''"
    "blockKeyword ''{% filter upper %}'' = ''filter''"
    by (simp_all add: blockKeyword_def trim)
  have scan: "scanTemplate t = [(KBlock, t)]"
    if "opens_tag t" "tag_end t = Some (length t)" "t ! 1 = CHR ''%''" "blockKeyword t \<noteq> ''raw''" for t
  proof -
    have "t \<noteq> []" using that(1) by (auto simp: opens_tag_def)
    from scan_eqs(5) [OF this that(1,2), of "[]"] that show ?thesis
      by (simp add: scanTemplate_def flushText_def kind_of_open_def scan_eqs(1))
  qed
  have "scanTemplate (''{% include'' @ [CHR 0x0A] @ ''n %}'') = [(KBlock, ''{% include'' @ [CHR 0x0A] @ ''n %}'')]"
    "scanTemplate (''{% filter'' @ [CHR 0x0A] @ ''upper %}'') = [(KBlock, ''{% filter'' @ [CHR 0x0A] @ ''upper %}'')]"
    "scanTemplate ''{% filter upper %}'' = [(KBlock, ''{% filter upper %}'')]"
    by (intro scan; (simp only: k)?; simp add: opens_tag_def tag_end_def tagCloseFor_def)+
  then show "checkBlocks (''{% include'' @ [CHR 0x0A] @ ''n %}'') TargetXML = None"
    "checkBlocks (''{% filter'' @ [CHR 0x0A] @ ''upper %}'') TargetXML = None"
    "checkBlocks ''{% filter upper %}'' TargetXML = Some (ErrFilterBlock TargetXML)"
    unfolding checkBlocks_scan
    by (simp_all only: first_some.simps block_problem_def prod.case k) (simp_all add: escapes_def)
qed


text \<open>
  The code does not count brackets, and the condition above is needed: an expression that closes one it did not open, a syntax error for
  the parser as written, becomes after the rewriting a sum whose first value carries no filter.
\<close>

lemma unbalanced_expression:
  "rewriteOutputTag ''{{ a) ~ (b }}'' f = ''{{ (a) ~ (b) | '' @ f @ '' }}''"
proof -
  have g: "graphic CHR ''a''" "graphic CHR ''b''" by (simp_all add: graphic_def)
  have "trim_space '' a) ~ (b '' = ''a) ~ (b''"
    by (simp add: trim_space_def trim_left_blank trim_left_graphic [OF graphic_spaces(1)] trim_left_graphic [OF graphic_spaces(2)] g)
  then show ?thesis by (simp add: rewriteOutputTag_def suffix_to_prefix)
qed

end
