(* ===== verification/TemplateEngine.thy ===== *)
theory TemplateEngine
  imports TemplateScan HttpOutput
begin

text \<open>
  The template engine of \<open>internal/template/escape.go\<close> and \<open>engine.go\<close>: the escaping of a
  substituted value for each target, the filter registered and injected for it, and the
  compilation of a source with its cache. The gonja library is a parameter: \<open>gonja\<close> holds its
  loader, parser and renderer, \<open>gonja_value\<close> the queries the filters make of one of its values.
  Go's \<open>utf8.DecodeRune\<close>, \<open>xml.EscapeText\<close> and \<open>json.Marshal\<close> of a string are written out.
\<close>

subsection \<open>Runes\<close>

definition fffd :: string where
  "fffd = bytes [0xEF, 0xBF, 0xBD]"

definition tail_byte :: "nat \<Rightarrow> bool" where
  "tail_byte b \<longleftrightarrow> 0x80 \<le> b \<and> b \<le> 0xBF"

text \<open>\<open>utf8.DecodeRune\<close>: the rune and its width; \<open>(0xFFFD, 1)\<close> for an invalid encoding.\<close>

definition DecodeRune :: "string \<Rightarrow> nat \<times> nat" where
  "DecodeRune s =
     (case map of_char s :: nat list of
        [] \<Rightarrow> (0xFFFD, 0)
      | b0 # r \<Rightarrow>
          if b0 < 0x80 then (b0, 1)
          else if 0xC2 \<le> b0 \<and> b0 \<le> 0xDF then
            (case r of
               b1 # _ \<Rightarrow> if tail_byte b1 then ((b0 - 0xC0) * 64 + (b1 - 0x80), 2) else (0xFFFD, 1)
             | _ \<Rightarrow> (0xFFFD, 1))
          else if 0xE0 \<le> b0 \<and> b0 \<le> 0xEF then
            (case r of
               b1 # b2 # _ \<Rightarrow>
                 if tail_byte b1 \<and> tail_byte b2 \<and> (b0 = 0xE0 \<longrightarrow> 0xA0 \<le> b1) \<and> (b0 = 0xED \<longrightarrow> b1 \<le> 0x9F)
                 then ((b0 - 0xE0) * 4096 + (b1 - 0x80) * 64 + (b2 - 0x80), 3) else (0xFFFD, 1)
             | _ \<Rightarrow> (0xFFFD, 1))
          else if 0xF0 \<le> b0 \<and> b0 \<le> 0xF4 then
            (case r of
               b1 # b2 # b3 # _ \<Rightarrow>
                 if tail_byte b1 \<and> tail_byte b2 \<and> tail_byte b3 \<and> (b0 = 0xF0 \<longrightarrow> 0x90 \<le> b1) \<and> (b0 = 0xF4 \<longrightarrow> b1 \<le> 0x8F)
                 then ((b0 - 0xF0) * 262144 + (b1 - 0x80) * 4096 + (b2 - 0x80) * 64 + (b3 - 0x80), 4)
                 else (0xFFFD, 1)
             | _ \<Rightarrow> (0xFFFD, 1))
          else (0xFFFD, 1))"

text \<open>The runes of a string, each with the bytes it was read from.\<close>

function runes :: "string \<Rightarrow> (nat \<times> string) list" where
  "runes s =
     (if s = [] then []
      else (case DecodeRune s of (r, w) \<Rightarrow> (r, take (max 1 w) s) # runes (drop (max 1 w) s)))"
  by pat_completeness auto
termination
  by (relation "measure length") auto

declare runes.simps [simp del]

definition bad_rune :: "nat \<times> string \<Rightarrow> bool" where
  "bad_rune rb \<longleftrightarrow> fst rb = 0xFFFD \<and> length (snd rb) = 1"

subsection \<open>Escaping for each target\<close>

definition noEscape :: "string \<Rightarrow> string" where
  "noEscape s = s"

definition urlEscape :: "string \<Rightarrow> string" where
  "urlEscape s = ReplaceAll ''+'' ''%20'' (QueryEscape s)"

definition isInCharacterRange :: "nat \<Rightarrow> bool" where
  "isInCharacterRange r \<longleftrightarrow>
     r \<in> {0x09, 0x0A, 0x0D} \<or> 0x20 \<le> r \<and> r \<le> 0xD7FF \<or> 0xE000 \<le> r \<and> r \<le> 0xFFFD \<or> 0x10000 \<le> r \<and> r \<le> 0x10FFFF"

definition xml_entities :: "(string \<times> nat) list" where
  "xml_entities =
     [(''&#34;'', 34), (''&#39;'', 39), (''&amp;'', 38), (''&lt;'', 60), (''&gt;'', 62),
      (''&#x9;'', 9), (''&#xA;'', 10), (''&#xD;'', 13)]"

definition xml_rune :: "nat \<times> string \<Rightarrow> string" where
  "xml_rune rb =
     (case find (\<lambda>(_, n). n = fst rb) xml_entities of
        Some (e, _) \<Rightarrow> e
      | None \<Rightarrow> if \<not> isInCharacterRange (fst rb) \<or> bad_rune rb then fffd else snd rb)"

definition xmlEscape :: "string \<Rightarrow> string" where
  "xmlEscape s = concat (map xml_rune (runes s))"

definition json_hex :: "nat \<Rightarrow> char" where
  "json_hex d = (if d < 10 then char_of (48 + d) else char_of (87 + d))"

definition json_short :: "(nat \<times> char) list" where
  "json_short =
     [(0x5C, backslash), (0x22, dquote), (8, CHR ''b''), (12, CHR ''f''), (10, CHR ''n''), (13, CHR ''r''), (9, CHR ''t'')]"

text \<open>\<open>json.Marshal\<close> of a string, without its quotes: \<open>htmlSafeSet\<close> is what stays as it is.\<close>

definition htmlSafeSet :: "nat \<Rightarrow> bool" where
  "htmlSafeSet b \<longleftrightarrow> 0x20 \<le> b \<and> b < 0x80 \<and> b \<notin> {0x22, 0x5C, 0x3C, 0x3E, 0x26}"

definition json_rune :: "nat \<times> string \<Rightarrow> string" where
  "json_rune rb =
     (let r = fst rb
      in if r < 0x80
         then (if htmlSafeSet r then snd rb
               else (case map_of json_short r of
                       Some c \<Rightarrow> [backslash, c]
                     | None \<Rightarrow> [backslash, CHR ''u'', CHR ''0'', CHR ''0'', json_hex (r div 16), json_hex (r mod 16)]))
         else if bad_rune rb then backslash # ''ufffd''
         else if r = 0x2028 \<or> r = 0x2029 then backslash # ''u202'' @ [json_hex (r mod 16)]
         else snd rb)"

definition jsonEscape :: "string \<Rightarrow> string" where
  "jsonEscape s = concat (map json_rune (runes s))"

subsection \<open>Filters\<close>

definition filterURLEsc :: string where "filterURLEsc = ''__cnx_urlesc''"
definition filterXMLEsc :: string where "filterXMLEsc = ''__cnx_xmlesc''"
definition filterJSONEsc :: string where "filterJSONEsc = ''__cnx_jsonesc''"
definition filterTextEsc :: string where "filterTextEsc = ''__cnx_text''"
definition filterURLEscStrict :: string where "filterURLEscStrict = ''__cnx_urlesc_strict''"
definition filterXMLEscStrict :: string where "filterXMLEscStrict = ''__cnx_xmlesc_strict''"
definition filterJSONEscStrict :: string where "filterJSONEscStrict = ''__cnx_jsonesc_strict''"
definition filterTextEscStrict :: string where "filterTextEscStrict = ''__cnx_text_strict''"

text \<open>What the filters ask a gonja value: whether it is an error or nil, its Go value, its text.\<close>

record 'v gonja_value =
  gv_IsError :: "'v \<Rightarrow> bool"
  gv_IsNil :: "'v \<Rightarrow> bool"
  gv_GoSimple :: "'v \<Rightarrow> gval"
  gv_String :: "'v \<Rightarrow> string"

datatype 'v filter_result = FInput 'v | FNullError | FSafe string

definition renderValue :: "'v gonja_value \<Rightarrow> (gval \<Rightarrow> string) \<Rightarrow> 'v \<Rightarrow> string" where
  "renderValue ops fmt_v v =
     (case gv_GoSimple ops v of
        GFloat f \<Rightarrow> ValueToString fmt_v (GFloat f)
      | GInt i \<Rightarrow> ValueToString fmt_v (GInt i)
      | GBool b \<Rightarrow> ValueToString fmt_v (GBool b)
      | _ \<Rightarrow> gv_String ops v)"

definition escapeFilter ::
  "(string \<Rightarrow> string) \<Rightarrow> bool \<Rightarrow> 'v gonja_value \<Rightarrow> (gval \<Rightarrow> string) \<Rightarrow> 'v \<Rightarrow> 'v filter_result" where
  "escapeFilter escape rejectNil ops fmt_v v =
     (if gv_IsError ops v then FInput v
      else if rejectNil \<and> gv_IsNil ops v then FNullError
      else FSafe (escape (renderValue ops fmt_v v)))"

definition registerFilters ::
  "string \<Rightarrow> ('v gonja_value \<Rightarrow> (gval \<Rightarrow> string) \<Rightarrow> 'v \<Rightarrow> 'v filter_result) option" where
  "registerFilters = map_of
     [(filterURLEsc, escapeFilter urlEscape False), (filterXMLEsc, escapeFilter xmlEscape False),
      (filterJSONEsc, escapeFilter jsonEscape False), (filterTextEsc, escapeFilter noEscape False),
      (filterURLEscStrict, escapeFilter urlEscape True), (filterXMLEscStrict, escapeFilter xmlEscape True),
      (filterJSONEscStrict, escapeFilter jsonEscape True), (filterTextEscStrict, escapeFilter noEscape True)]"

definition escapeFilterFor :: "Target \<Rightarrow> bool \<Rightarrow> string" where
  "escapeFilterFor t strict =
     (case t of
        TargetURL \<Rightarrow> if strict then filterURLEscStrict else filterURLEsc
      | TargetXML \<Rightarrow> if strict then filterXMLEscStrict else filterXMLEsc
      | TargetJSON \<Rightarrow> if strict then filterJSONEscStrict else filterJSONEsc
      | _ \<Rightarrow> if strict then filterTextEscStrict else filterTextEsc)"

subsection \<open>Compilation\<close>

record 't gonja =
  gj_load :: "string \<Rightarrow> string \<Rightarrow> gerr option"
  gj_parse :: "string \<Rightarrow> bool \<Rightarrow> string \<Rightarrow> gerr + 't"
  gj_execute :: "'t \<Rightarrow> (string \<Rightarrow> gval option) \<Rightarrow> gerr + string"
  gj_sha256 :: "string \<Rightarrow> string"

record 't Compiled =
  c_tmpl :: 't
  c_source :: string
  c_target :: Target

definition block_error_text :: "block_error \<Rightarrow> string" where
  "block_error_text e =
     (case e of
        ErrLoadsTemplate keyword \<Rightarrow> ''{% '' @ keyword @ '' %} is not supported: a template must be self-contained, because the tags of a loaded template would bypass contextual escaping''
      | ErrFilterBlock target \<Rightarrow> ''{% filter %} is not supported in a '' @ Target_String target @ '' template: it transforms values after they are escaped, which corrupts the output '' @ bytes [0xE2, 0x80, 0x94] @ '' use an inline filter instead ({{ value | upper }})'')"

text \<open>\<open>hex.EncodeToString\<close> of the first eight bytes.\<close>

definition hashSource :: "'t gonja \<Rightarrow> string \<Rightarrow> string" where
  "hashSource g s =
     concat (map (\<lambda>c. [json_hex (of_char c div 16), json_hex (of_char c mod 16)]) (take 8 (gj_sha256 g s)))"

definition compile :: "'t gonja \<Rightarrow> string \<Rightarrow> Target \<Rightarrow> bool \<Rightarrow> gerr + 't Compiled" where
  "compile g source target strict =
     (case checkBlocks source target of
        Some e \<Rightarrow> Inl (plain_error (block_error_text e))
      | None \<Rightarrow>
          (let rewritten = injectEscape source (escapeFilterFor target strict);
               ident = ''cnx-'' @ hashSource g rewritten
           in case gj_load g ident rewritten of
                Some err \<Rightarrow> Inl (errorf (''template loader: '' @ err_text err) err)
              | None \<Rightarrow>
                  (case gj_parse g ident strict rewritten of
                     Inl err \<Rightarrow> Inl (errorf (''compiling template: '' @ err_text err) err)
                   | Inr tmpl \<Rightarrow> Inr \<lparr>c_tmpl = tmpl, c_source = source, c_target = target\<rparr>)))"

definition target_number :: "Target \<Rightarrow> int" where
  "target_number t = (case t of TargetText \<Rightarrow> 0 | TargetURL \<Rightarrow> 1 | TargetJSON \<Rightarrow> 2 | TargetXML \<Rightarrow> 3)"

definition template_cacheKey :: "string \<Rightarrow> Target \<Rightarrow> bool \<Rightarrow> string" where
  "template_cacheKey source target strict =
     itoa (target_number target) @ '':'' @ (if strict then ''true'' else ''false'') @ '':'' @ source"

type_synonym 't Engine = "string \<Rightarrow> (gerr + 't Compiled) option"

definition NewEngine :: "'t Engine" where
  "NewEngine = Map.empty"

definition Engine_Compile ::
  "'t gonja \<Rightarrow> 't Engine \<Rightarrow> string \<Rightarrow> Target \<Rightarrow> bool \<Rightarrow> (gerr + 't Compiled) \<times> 't Engine" where
  "Engine_Compile g e source target strict =
     (let key = template_cacheKey source target strict
      in case e key of
           Some r \<Rightarrow> (r, e)
         | None \<Rightarrow> (let r = compile g source target strict in (r, e(key \<mapsto> r))))"

definition Engine_Validate ::
  "'t gonja \<Rightarrow> 't Engine \<Rightarrow> string \<Rightarrow> Target \<Rightarrow> bool \<Rightarrow> gerr option \<times> 't Engine" where
  "Engine_Validate g e source target strict =
     (case Engine_Compile g e source target strict of (r, e') \<Rightarrow> (case r of Inl err \<Rightarrow> Some err | Inr _ \<Rightarrow> None, e'))"

definition Compiled_Render :: "'t gonja \<Rightarrow> 't Compiled \<Rightarrow> (string \<Rightarrow> gval option) \<Rightarrow> gerr + string" where
  "Compiled_Render g c vars =
     (case gj_execute g (c_tmpl c) vars of
        Inl err \<Rightarrow> Inl (errorf (''rendering template: '' @ err_text err) err)
      | Inr out \<Rightarrow> Inr out)"


subsection \<open>Facts about runes\<close>

definition chunk_ok :: "nat \<times> string \<Rightarrow> bool" where
  "chunk_ok rb \<longleftrightarrow>
     (case rb of (r, bs) \<Rightarrow>
        r < 0x80 \<and> bs = [char_of r] \<or>
        0x80 \<le> r \<and> bs \<noteq> [] \<and> list_all (\<lambda>c. 0x80 \<le> (of_char c :: nat)) bs
          \<and> (r \<in> {0x2028, 0x2029} \<longrightarrow> bs = bytes [0xE2, 0x80, 0xA8 + (r - 0x2028)]))"

lemma bytes_of_char: "map of_char bs = ns \<Longrightarrow> bs = bytes ns"
  by (auto simp: bytes_def comp_def)

lemma three_byte_ls:
  fixes b0 b1 b2 :: nat
  assumes "0xE0 \<le> b0" "tail_byte b1" "tail_byte b2"
    and "(b0 - 0xE0) * 4096 + (b1 - 0x80) * 64 + (b2 - 0x80) = r" "r \<in> {0x2028, 0x2029}"
  shows "b0 = 0xE2 \<and> b1 = 0x80 \<and> b2 = 0xA8 + (r - 0x2028)"
proof -
  obtain x y z where xyz: "b0 = 0xE0 + x" "b1 = 0x80 + y" "b2 = 0x80 + z"
    using assms(1-3) by (auto simp: tail_byte_def le_iff_add)
  with assms have "y < 64" "z < 64" "x * 4096 + y * 64 + z = r" "r = 0x2028 \<or> r = 0x2029"
    by (auto simp: tail_byte_def)
  then have x: "x = 2" by linarith
  with \<open>x * 4096 + y * 64 + z = r\<close> \<open>r = 0x2028 \<or> r = 0x2029\<close> have "y = 0" by linarith
  with x \<open>x * 4096 + y * 64 + z = r\<close> \<open>r = 0x2028 \<or> r = 0x2029\<close> have "x = 2 \<and> y = 0 \<and> z = 0x28 + (r - 0x2028)" by auto
  with xyz show ?thesis by simp
qed

lemma DecodeRune_cases:
  assumes "DecodeRune (c # t) = (r, w)"
  obtains (ascii) "(of_char c :: nat) < 0x80" "r = of_char c" "w = 1"
    | (invalid) "0x80 \<le> (of_char c :: nat)" "r = 0xFFFD" "w = 1"
    | (two) c1 t' where "t = c1 # t'" "0xC2 \<le> (of_char c :: nat)" "of_char c \<le> (0xDF :: nat)" "tail_byte (of_char c1)"
        "r = (of_char c - 0xC0) * 64 + (of_char c1 - 0x80)" "w = 2"
    | (three) c1 c2 t' where "t = c1 # c2 # t'" "0xE0 \<le> (of_char c :: nat)" "tail_byte (of_char c1)" "tail_byte (of_char c2)"
        "of_char c = (0xE0 :: nat) \<longrightarrow> 0xA0 \<le> (of_char c1 :: nat)"
        "r = (of_char c - 0xE0) * 4096 + (of_char c1 - 0x80) * 64 + (of_char c2 - 0x80)" "w = 3"
    | (four) c1 c2 c3 t' where "t = c1 # c2 # c3 # t'" "0xF0 \<le> (of_char c :: nat)"
        "tail_byte (of_char c1)" "tail_byte (of_char c2)" "tail_byte (of_char c3)"
        "of_char c = (0xF0 :: nat) \<longrightarrow> 0x90 \<le> (of_char c1 :: nat)"
        "r = (of_char c - 0xF0) * 262144 + (of_char c1 - 0x80) * 4096 + (of_char c2 - 0x80) * 64 + (of_char c3 - 0x80)" "w = 4"
proof -
  define b where "b = (of_char c :: nat)"
  note D = assms [unfolded DecodeRune_def list.map list.case, folded b_def]
  consider "b < 0x80" | "0xC2 \<le> b \<and> b \<le> 0xDF" | "0xE0 \<le> b \<and> b \<le> 0xEF" | "0xF0 \<le> b \<and> b \<le> 0xF4"
    | "0x80 \<le> b" "\<not> (0xC2 \<le> b \<and> b \<le> 0xDF)" "\<not> (0xE0 \<le> b \<and> b \<le> 0xEF)" "\<not> (0xF0 \<le> b \<and> b \<le> 0xF4)" by linarith
  then show thesis
  proof cases
    case 1
    with D have "r = b \<and> w = 1" by simp
    with 1 ascii show ?thesis by (simp add: b_def)
  next
    case 2
    with D have "(case map of_char t of b1 # _ \<Rightarrow> if tail_byte b1 then ((b - 0xC0) * 64 + (b1 - 0x80), 2) else (0xFFFD, 1)
                 | _ \<Rightarrow> (0xFFFD, 1)) = (r, w)" by simp
    with 2 show ?thesis using invalid two
      by (cases t) (auto simp: b_def split: if_splits)
  next
    case 3
    define t3 where "t3 b1 b2 = (tail_byte b1 \<and> tail_byte b2 \<and> (b = 0xE0 \<longrightarrow> 0xA0 \<le> b1) \<and> (b = 0xED \<longrightarrow> b1 \<le> 0x9F))" for b1 b2
    have "\<not> b < 0x80" "\<not> (0xC2 \<le> b \<and> b \<le> 0xDF)" "0xE0 \<le> b \<and> b \<le> 0xEF" using 3 by auto
    with D have E: "(case map of_char t of b1 # b2 # _ \<Rightarrow> if t3 b1 b2
                 then ((b - 0xE0) * 4096 + (b1 - 0x80) * 64 + (b2 - 0x80), 3) else (0xFFFD, 1)
               | _ \<Rightarrow> (0xFFFD, 1)) = (r, w)" by (simp only: t3_def if_True if_False simp_thms)
    show ?thesis
    proof (cases "\<exists>c1 c2 t'. t = c1 # c2 # t' \<and> t3 (of_char c1) (of_char c2)")
      case True
      with E 3 show ?thesis using three by (auto simp: b_def t3_def)
    next
      case False
      with E have "r = 0xFFFD \<and> w = 1" by (auto split: list.splits if_splits)
      with 3 show ?thesis using invalid by (auto simp: b_def)
    qed
  next
    case 4
    define t4 where "t4 b1 b2 b3 = (tail_byte b1 \<and> tail_byte b2 \<and> tail_byte b3 \<and> (b = 0xF0 \<longrightarrow> 0x90 \<le> b1) \<and> (b = 0xF4 \<longrightarrow> b1 \<le> 0x8F))" for b1 b2 b3
    have "\<not> b < 0x80" "\<not> (0xC2 \<le> b \<and> b \<le> 0xDF)" "\<not> (0xE0 \<le> b \<and> b \<le> 0xEF)" "0xF0 \<le> b \<and> b \<le> 0xF4" using 4 by auto
    with D have E: "(case map of_char t of b1 # b2 # b3 # _ \<Rightarrow> if t4 b1 b2 b3
                 then ((b - 0xF0) * 262144 + (b1 - 0x80) * 4096 + (b2 - 0x80) * 64 + (b3 - 0x80), 4) else (0xFFFD, 1)
               | _ \<Rightarrow> (0xFFFD, 1)) = (r, w)" by (simp only: t4_def if_True if_False simp_thms)
    show ?thesis
    proof (cases "\<exists>c1 c2 c3 t'. t = c1 # c2 # c3 # t' \<and> t4 (of_char c1) (of_char c2) (of_char c3)")
      case True
      with E 4 show ?thesis using four by (auto simp: b_def t4_def)
    next
      case False
      with E have "r = 0xFFFD \<and> w = 1" by (auto split: list.splits if_splits)
      with 4 show ?thesis using invalid by (auto simp: b_def)
    qed
  next
    case 5
    then have "\<not> b < 0x80" by simp
    with D 5 have "r = 0xFFFD \<and> w = 1" by (simp only: if_False Pair_inject) simp
    with 5(1) show ?thesis using invalid by (simp add: b_def)
  qed
qed

lemma DecodeRune_chunk:
  assumes "DecodeRune (c # t) = (r, w)"
  shows "chunk_ok (r, take (max 1 w) (c # t))"
  using assms
proof (cases rule: DecodeRune_cases)
  case ascii
  then show ?thesis by (simp add: chunk_ok_def)
next
  case invalid
  then show ?thesis by (simp add: chunk_ok_def)
next
  case (two c1 t')
  have "2 * 64 \<le> (of_char c - 0xC0) * (64 :: nat)" "(of_char c - 0xC0) * (64 :: nat) \<le> 31 * 64"
    using two(2,3) by (intro mult_right_mono; simp)+
  moreover have "of_char c1 - 0x80 < (64 :: nat)" using two(4) by (auto simp: tail_byte_def)
  ultimately have "0x80 \<le> r" "r < 0x2028" using two(5) by linarith+
  then show ?thesis using two by (auto simp: chunk_ok_def tail_byte_def)
next
  case (three c1 c2 t')
  have t: "take (max 1 w) (c # t) = [c, c1, c2]" using three(1,7) by simp
  have "r \<in> {0x2028, 0x2029} \<Longrightarrow> [c, c1, c2] = bytes [0xE2, 0x80, 0xA8 + (r - 0x2028)]"
    using three_byte_ls [OF three(2,3,4) three(6) [symmetric]] by (intro bytes_of_char) simp
  moreover have "0x80 \<le> r" using three(2-6) by (cases "of_char c = (0xE0::nat)") (auto simp: tail_byte_def)
  moreover have "list_all (\<lambda>c. 0x80 \<le> (of_char c :: nat)) [c, c1, c2]" using three(2-4) by (simp add: tail_byte_def)
  ultimately show ?thesis unfolding chunk_ok_def prod.case t by blast
next
  case (four c1 c2 c3 t')
  have "0x10000 \<le> r" using four(2-7) by (cases "of_char c = (0xF0::nat)") (auto simp: tail_byte_def)
  then show ?thesis using four by (auto simp: chunk_ok_def tail_byte_def)
qed

lemma runes_ok: "list_all chunk_ok (runes s)"
proof (induction s rule: runes.induct)
  case (1 s)
  show ?case
  proof (cases s)
    case Nil
    then show ?thesis by (simp add: runes.simps)
  next
    case (Cons c t)
    obtain r w where d: "DecodeRune s = (r, w)" by (cases "DecodeRune s")
    with 1 [of r w] DecodeRune_chunk [of c t r w] Cons show ?thesis
      by (simp add: runes.simps [of "c # t"])
  qed
qed

lemma runes_concat: "concat (map snd (runes s)) = s"
proof (induction s rule: runes.induct)
  case (1 s)
  show ?case
  proof (cases s)
    case Nil
    then show ?thesis by (simp add: runes.simps)
  next
    case (Cons c t)
    obtain r w where d: "DecodeRune s = (r, w)" by (cases "DecodeRune s")
    with 1 [of r w] Cons show ?thesis
      by (simp add: runes.simps [of "c # t"])
  qed
qed


subsection \<open>Reading escaped values back\<close>

text \<open>
  Readers of the places a value is written to, as the three formats define them: character data
  or an attribute value of an XML document, and the inside of a JSON string literal. They answer
  \<open>None\<close> on text that would leave that place.
\<close>

fun xml_reader :: "string \<Rightarrow> string option" where
  "xml_reader [] = Some []"
| "xml_reader (c # s) =
     (if c \<in> {CHR ''<'', CHR ''>'', squote, dquote} then None
      else if c = CHR ''&''
      then (case find (\<lambda>(e, _). prefix e (c # s)) xml_entities of
              None \<Rightarrow> None
            | Some (e, n) \<Rightarrow> map_option (Cons (char_of n)) (xml_reader (drop (length e - 1) s)))
      else map_option (Cons c) (xml_reader s))"

definition utf8_3 :: "nat \<Rightarrow> string" where
  "utf8_3 n =
     (if n < 0x80 then [char_of n]
      else if n < 0x800 then [char_of (0xC0 + n div 64), char_of (0x80 + n mod 64)]
      else [char_of (0xE0 + n div 4096), char_of (0x80 + n div 64 mod 64), char_of (0x80 + n mod 64)])"

definition hex4 :: "char \<Rightarrow> char \<Rightarrow> char \<Rightarrow> char \<Rightarrow> nat option" where
  "hex4 a b c d =
     (case (hex_value a, hex_value b, hex_value c, hex_value d) of
        (Some i, Some j, Some k, Some l) \<Rightarrow> Some (((i * 16 + j) * 16 + k) * 16 + l)
      | _ \<Rightarrow> None)"

fun json_reader :: "string \<Rightarrow> string option" where
  "json_reader [] = Some []"
| "json_reader (c # s) =
     (if c = dquote \<or> (of_char c :: nat) < 0x20 then None
      else if c = backslash
      then (case s of
              [] \<Rightarrow> None
            | d # s1 \<Rightarrow>
                if d = CHR ''u''
                then (case s1 of
                        x1 # x2 # x3 # x4 # s2 \<Rightarrow>
                          (case hex4 x1 x2 x3 x4 of
                             Some n \<Rightarrow> if 0xD800 \<le> n \<and> n < 0xE000 then None
                                       else map_option (append (utf8_3 n)) (json_reader s2)
                           | None \<Rightarrow> None)
                      | _ \<Rightarrow> None)
                else (case map_of (map (\<lambda>(n, e). (e, n)) json_short) d of
                        Some n \<Rightarrow> map_option (Cons (char_of n)) (json_reader s1)
                      | None \<Rightarrow> None))
      else map_option (Cons c) (json_reader s))"

definition valid_runes :: "string \<Rightarrow> string" where
  "valid_runes s = concat (map (\<lambda>rb. if bad_rune rb then fffd else snd rb) (runes s))"

definition xml_valid_runes :: "string \<Rightarrow> string" where
  "xml_valid_runes s =
     concat (map (\<lambda>rb. if \<not> isInCharacterRange (fst rb) \<or> bad_rune rb then fffd else snd rb) (runes s))"

lemma append_fun: "append [x] = Cons x" "append [] = id"
  by (simp_all add: fun_eq_iff)

lemma of_char_high: "0x80 \<le> (of_char c :: nat) \<Longrightarrow>
   c \<notin> {CHR ''<'', CHR ''>'', squote, dquote, CHR ''&'', backslash} \<and> \<not> (of_char c :: nat) < 0x20"
  by auto

lemma xml_reader_high: "list_all (\<lambda>c. 0x80 \<le> (of_char c :: nat)) bs \<Longrightarrow>
   xml_reader (bs @ t) = map_option (append bs) (xml_reader t)"
proof (induction bs)
  case (Cons c bs)
  then show ?case using of_char_high [of c] by (auto simp: option.map_comp comp_def)
qed (simp add: append_fun option.map_id)

lemma json_reader_high: "list_all (\<lambda>c. 0x80 \<le> (of_char c :: nat)) bs \<Longrightarrow>
   json_reader (bs @ t) = map_option (append bs) (json_reader t)"
proof (induction bs)
  case (Cons c bs)
  then show ?case using of_char_high [of c] by (auto simp: option.map_comp comp_def)
qed (simp add: append_fun option.map_id)

lemma fffd_high: "list_all (\<lambda>c. 0x80 \<le> (of_char c :: nat)) fffd"
  by (simp add: fffd_def bytes_def)

lemma json_hex_value: "d < 16 \<Longrightarrow> hex_value (json_hex d) = Some d"
  by (simp add: hex_value_def json_hex_def Let_def)

lemma xml_entity_read:
  assumes "(e, n) \<in> set xml_entities"
  shows "xml_reader (e @ t) = map_option (Cons (char_of n)) (xml_reader t)"
  using assms unfolding xml_entities_def by (auto simp: xml_entities_def)

lemma xml_rune_read:
  assumes "chunk_ok rb"
  shows "xml_reader (xml_rune rb @ t) =
         map_option (append (if \<not> isInCharacterRange (fst rb) \<or> bad_rune rb then fffd else snd rb)) (xml_reader t)"
proof -
  obtain r bs where rb: "rb = (r, bs)" by (cases rb)
  show ?thesis
  proof (cases "find (\<lambda>(_, n). n = r) xml_entities")
    case (Some en)
    then obtain e where en: "en = (e, r)" "(e, r) \<in> set xml_entities"
      by (cases en) (auto dest!: find_SomeD)
    then have r: "r \<in> {34, 39, 38, 60, 62, 9, 10, 13}" by (auto simp: xml_entities_def)
    then have "bs = [char_of r]" "isInCharacterRange r" "\<not> bad_rune rb"
      using assms by (auto simp: rb chunk_ok_def isInCharacterRange_def bad_rune_def)
    then show ?thesis using Some en xml_entity_read [OF en(2), of t] by (simp add: rb xml_rune_def append_fun)
  next
    case None
    then have no: "r \<notin> {34, 39, 38, 60, 62}" by (auto simp: xml_entities_def)
    have x: "xml_rune rb = (if \<not> isInCharacterRange r \<or> bad_rune rb then fffd else bs)"
      using None by (simp add: xml_rune_def rb)
    show ?thesis
    proof (cases "\<not> isInCharacterRange r \<or> bad_rune rb")
      case True
      then show ?thesis using x xml_reader_high [OF fffd_high] by (simp add: rb)
    next
      case False
      show ?thesis
      proof (cases "r < 0x80")
        case True
        then have bs: "bs = [char_of r]" using assms by (auto simp: rb chunk_ok_def)
        then have "(of_char (hd bs) :: nat) = r" using True by simp
        then have "hd bs \<notin> {CHR ''<'', CHR ''>'', squote, dquote, CHR ''&''}" using no by auto
        then show ?thesis using False x bs by (simp add: rb append_fun)
      next
        case False2: False
        then have "list_all (\<lambda>c. 0x80 \<le> (of_char c :: nat)) bs" using assms by (auto simp: rb chunk_ok_def)
        then show ?thesis using False x xml_reader_high by (simp add: rb)
      qed
    qed
  qed
qed

lemma json_short_read:
  assumes "(n, e) \<in> set json_short"
  shows "json_reader (backslash # e # t) = map_option (Cons (char_of n)) (json_reader t)"
  using assms by (auto simp: json_short_def)

lemma json_u_read:
  assumes "hex4 x1 x2 x3 x4 = Some n" "\<not> (0xD800 \<le> n \<and> n < 0xE000)"
  shows "json_reader (backslash # CHR ''u'' # x1 # x2 # x3 # x4 # t) = map_option (append (utf8_3 n)) (json_reader t)"
  using assms by auto

lemma json_rune_read:
  assumes "chunk_ok rb"
  shows "json_reader (json_rune rb @ t) = map_option (append (if bad_rune rb then fffd else snd rb)) (json_reader t)"
proof -
  obtain r bs where rb: "rb = (r, bs)" by (cases rb)
  have h0: "hex_value (CHR ''0'') = Some 0" "hex_value (CHR ''2'') = Some 2"
    "hex_value (CHR ''f'') = Some 15" "hex_value (CHR ''d'') = Some 13" by (simp_all add: hex_value_def Let_def)
  show ?thesis
  proof (cases "r < 0x80")
    case True
    then have bs: "bs = [char_of r]" "\<not> bad_rune rb" using assms by (auto simp: rb chunk_ok_def bad_rune_def)
    have oc: "(of_char (char_of r :: char) :: nat) = r" using True by simp
    consider (safe) "htmlSafeSet r" | (short) e where "\<not> htmlSafeSet r" "map_of json_short r = Some e"
      | (other) "\<not> htmlSafeSet r" "map_of json_short r = None" by (cases "map_of json_short r") auto
    then show ?thesis
    proof cases
      case safe
      have "char_of r = x \<Longrightarrow> r = of_char x" for x :: char using oc by auto
      from this [of dquote] this [of backslash] safe
      have "char_of r \<noteq> dquote" "char_of r \<noteq> backslash" "\<not> r < 0x20"
        by (auto simp: htmlSafeSet_def)
      then show ?thesis using True safe bs oc by (simp add: rb json_rune_def append_fun)
    next
      case (short e)
      have "json_rune rb @ t = backslash # e # t" using True short by (simp add: rb json_rune_def)
      then show ?thesis
        using json_short_read [OF map_of_SomeD [OF short(2)], of t] bs
        by (simp add: rb append_fun del: json_reader.simps)
    next
      case other
      have d: "r div 16 < 16" "r mod 16 < 16" using True by auto
      then have "hex4 (CHR ''0'') (CHR ''0'') (json_hex (r div 16)) (json_hex (r mod 16)) = Some r"
        by (simp add: hex4_def h0 json_hex_value)
      from json_u_read [OF this, of t] True have
        "json_reader (backslash # CHR ''u'' # CHR ''0'' # CHR ''0'' # json_hex (r div 16) # json_hex (r mod 16) # t)
           = map_option (append [char_of r]) (json_reader t)" by (simp add: utf8_3_def)
      then show ?thesis using True other bs by (simp add: rb json_rune_def)
    qed
  next
    case F: False
    show ?thesis
    proof (cases "bad_rune rb")
      case True
      have "hex4 (CHR ''f'') (CHR ''f'') (CHR ''f'') (CHR ''d'') = Some 0xFFFD" by (simp add: hex4_def h0)
      from json_u_read [OF this, of t]
      have "json_reader (backslash # ''ufffd'' @ t) = map_option (append fffd) (json_reader t)"
        by (simp add: utf8_3_def fffd_def bytes_def)
      then show ?thesis using F True by (simp add: rb json_rune_def)
    next
      case good: False
      show ?thesis
      proof (cases "r = 0x2028 \<or> r = 0x2029")
        case True
        then have bs: "bs = bytes [0xE2, 0x80, 0xA8 + (r - 0x2028)]" using assms F by (auto simp: rb chunk_ok_def)
        have d: "r mod 16 < 16" by simp
        have "hex4 (CHR ''2'') (CHR ''0'') (CHR ''2'') (json_hex (r mod 16)) = Some r"
          using True by (auto simp: hex4_def h0 json_hex_value [OF d])
        from json_u_read [OF this, of t] True
        have "json_reader (backslash # ''u202'' @ [json_hex (r mod 16)] @ t) = map_option (append (utf8_3 r)) (json_reader t)"
          by auto
        moreover have "utf8_3 r = bs" using True bs by (auto simp: utf8_3_def bytes_def)
        ultimately show ?thesis using F True good by (simp add: rb json_rune_def)
      next
        case False
        then have "list_all (\<lambda>c. 0x80 \<le> (of_char c :: nat)) bs" using assms F by (auto simp: rb chunk_ok_def)
        then show ?thesis using F False good json_reader_high by (simp add: rb json_rune_def)
      qed
    qed
  qed
qed


lemma read_concat:
  assumes "reader [] = Some []" "\<And>rb t. chunk_ok rb \<Longrightarrow> reader (esc rb @ t) = map_option (append (clean rb)) (reader t)"
  shows "list_all chunk_ok rs \<Longrightarrow> reader (concat (map esc rs)) = Some (concat (map clean rs))"
  by (induction rs) (simp_all add: assms)

lemma xmlEscape_read: "xml_reader (xmlEscape s) = Some (xml_valid_runes s)"
  unfolding xmlEscape_def xml_valid_runes_def
  by (rule read_concat [where reader = xml_reader, OF _ xml_rune_read runes_ok]) simp

lemma jsonEscape_read: "json_reader (jsonEscape s) = Some (valid_runes s)"
  unfolding jsonEscape_def valid_runes_def
  by (rule read_concat [where reader = json_reader, OF _ json_rune_read runes_ok]) simp

definition url_char :: "char \<Rightarrow> string" where
  "url_char c = (if unreserved c then [c] else percent c)"

lemma plus_free_percent: "CHR ''+'' \<notin> set (percent c)"
  using hex_digit_props(3) [OF nibbles(1), of c] hex_digit_props(3) [OF nibbles(2), of c]
  by (auto simp: percent_def)

lemma ReplaceAll_plus_free: "CHR ''+'' \<notin> set u \<Longrightarrow> ReplaceAll ''+'' new (u @ t) = u @ ReplaceAll ''+'' new t"
  by (induction u) auto

lemma urlEscape_eq: "urlEscape s = concat (map url_char s)"
  unfolding urlEscape_def QueryEscape_def
proof (induction s)
  case (Cons c s)
  have sp: "percent (CHR '' '') = ''%20''" by (simp add: percent_def hex_digit_def digit_chars)
  have un: "\<not> unreserved (CHR '' '')" using unreserved_neq [of "CHR '' ''"] by auto
  consider "unreserved c" | "c = CHR '' ''" | "\<not> unreserved c" "c \<noteq> CHR '' ''" by blast
  then show ?case
  proof cases
    case 1
    then have "CHR ''+'' \<notin> set [c]" using unreserved_neq [of c] by auto
    from ReplaceAll_plus_free [OF this, of "''%20''"] 1 Cons show ?thesis
      by (simp add: url_char_def del: ReplaceAll.simps)
  next
    case 2
    with Cons sp un show ?thesis by (simp add: url_char_def)
  next
    case 3
    with Cons ReplaceAll_plus_free [OF plus_free_percent, of "''%20''" c] show ?thesis by (simp add: url_char_def)
  qed
qed simp

lemma urlEscape_read: "QueryUnescape (urlEscape s) = Some s"
  unfolding urlEscape_eq
proof (induction s)
  case (Cons c s)
  then show ?case
    using unreserved_neq [of c] percent_unescape [of c "concat (map url_char s)"]
    by (cases "unreserved c") (auto simp: url_char_def [of c])
qed simp

lemma urlEscape_safe: "list_all (\<lambda>c. unreserved c \<or> c = CHR ''%'') (urlEscape s)"
  unfolding urlEscape_eq
proof (induction s)
  case (Cons c s)
  then show ?case
    using hex_digit_props(2) [OF nibbles(1), of c] hex_digit_props(2) [OF nibbles(2), of c]
    by (simp add: url_char_def percent_def)
qed simp

text \<open>What the target reads back from an escaped value.\<close>

definition target_reader :: "Target \<Rightarrow> string \<Rightarrow> string option" where
  "target_reader t =
     (case t of TargetText \<Rightarrow> Some | TargetURL \<Rightarrow> QueryUnescape | TargetJSON \<Rightarrow> json_reader | TargetXML \<Rightarrow> xml_reader)"

definition target_value :: "Target \<Rightarrow> string \<Rightarrow> string" where
  "target_value t s =
     (case t of TargetJSON \<Rightarrow> valid_runes s | TargetXML \<Rightarrow> xml_valid_runes s | _ \<Rightarrow> s)"

lemma registered_escape:
  "registerFilters (escapeFilterFor t strict) = Some (escapeFilter
     (case t of TargetText \<Rightarrow> noEscape | TargetURL \<Rightarrow> urlEscape | TargetJSON \<Rightarrow> jsonEscape | TargetXML \<Rightarrow> xmlEscape) strict)"
  by (cases t; cases strict)
     (simp_all add: escapeFilterFor_def registerFilters_def filterURLEsc_def filterXMLEsc_def filterJSONEsc_def
       filterTextEsc_def filterURLEscStrict_def filterXMLEscStrict_def filterJSONEscStrict_def filterTextEscStrict_def)

definition stays_inside :: "Target \<Rightarrow> string \<Rightarrow> bool" where
  "stays_inside t out = (case t of TargetURL \<Rightarrow> list_all (\<lambda>c. unreserved c \<or> c = CHR ''%'') out | _ \<Rightarrow> True)"

definition reads_back :: "Target \<Rightarrow> string \<Rightarrow> 'v filter_result \<Rightarrow> bool" where
  "reads_back t s res = (case res of FSafe out \<Rightarrow> target_reader t out = Some (target_value t s) \<and> stays_inside t out | _ \<Rightarrow> False)"

text \<open>
  C23. The filter the engine injects for a target is registered, and does what the target needs.
  It hands an error on unchanged, it refuses a nil exactly when the template is strict, and any
  other value comes out so that the reader of that target (a percent-decoder for a URL, the
  inside of a JSON string literal, XML character data) reads the value's text back and never
  leaves its place: no quote, bracket, ampersand, separator or control byte of a value reaches
  the target. Bytes that are not valid UTF-8, and for XML code points outside its character
  range, read back as U+FFFD. A URL value holds only unreserved bytes and percent escapes.
\<close>
theorem injected_filter_escapes:
  "case registerFilters (escapeFilterFor t strict) of
     None \<Rightarrow> False
   | Some flt \<Rightarrow>
       (let res = flt ops fmt_v v
        in if gv_IsError ops v then res = FInput v
           else if strict \<and> gv_IsNil ops v then res = FNullError
           else reads_back t (renderValue ops fmt_v v) res)"
  unfolding registered_escape option.case Let_def escapeFilter_def reads_back_def
  by (cases t)
     (simp_all add: target_reader_def target_value_def stays_inside_def noEscape_def xmlEscape_read jsonEscape_read urlEscape_read urlEscape_safe)

subsection \<open>What the parser is given\<close>

lemma inert_filters: "list_all inert (escapeFilterFor t strict)" "escapeFilterFor t strict \<noteq> []"
  by (cases t; cases strict;
      simp add: escapeFilterFor_def inert_def filterURLEsc_def filterXMLEsc_def filterJSONEsc_def
       filterTextEsc_def filterURLEscStrict_def filterXMLEscStrict_def filterJSONEscStrict_def filterTextEscStrict_def)+

lemma block_problem_rewrite: "block_problem t (rewrite_seg f kg) = block_problem t kg"
  by (cases kg) (simp add: block_problem_def rewrite_seg_def)

text \<open>
  C24. What compiling makes of a source, as the tokenizer of the repository reads it. The text
  gonja parsed has the same segments as the source, in the same places, except that each output
  tag \<open>{{ e }}\<close> has become \<open>{{ (e) | filter }}\<close> with the escaping filter of the target, whatever
  comments, raw regions, quotes or stray braces surround it; a tag without an expression stays
  as it was. Tokenizing the text again finds exactly these tags, so the rewriting neither hides
  an output tag nor makes a new one. Where the brackets of \<open>e\<close> are balanced the filter applies to
  the whole of \<open>e\<close>: the bracket put before it closes right before the filter. (Nothing is claimed
  for an expression that closes a bracket it did not open, see \<open>unbalanced_expression\<close>.) No
  block of the text has a keyword that loads another template, and none filters escaped values.
\<close>
theorem compile_escapes_every_output:
  assumes "compile g source target strict = Inr c"
  defines "f \<equiv> escapeFilterFor target strict"
  shows "\<exists>text. gj_parse g (''cnx-'' @ hashSource g text) strict text = Inr (c_tmpl c)
           \<and> scanTemplate text = map (rewrite_seg f) (scanTemplate source)
           \<and> list_all (escaped_seg f) (scanTemplate text)
           \<and> list_all (\<lambda>seg. block_problem target seg = None) (scanTemplate text)
           \<and> c_source c = source \<and> c_target c = target"
proof -
  define text' where "text' = injectEscape source f"
  have blocks: "first_some (block_problem target) (scanTemplate source) = None"
    using assms(1) checkBlocks_scan [of source target] by (auto simp: compile_def split: option.splits)
  have parsed: "gj_parse g (''cnx-'' @ hashSource g text') strict text' = Inr (c_tmpl c) \<and> c_source c = source \<and> c_target c = target"
    using assms(1) by (auto simp: compile_def Let_def text'_def f_def split: option.splits sum.splits)
  have scan: "scanTemplate text' = map (rewrite_seg f) (scanTemplate source)"
    unfolding text'_def f_def by (rule injectEscape_scan [OF inert_filters(2,1)])
  have "list_all (escaped_seg f) (scanTemplate text')"
    unfolding scan by (rule rewritten_escaped)
  moreover have "list_all (\<lambda>seg. block_problem target seg = None) (scanTemplate text')"
    using blocks unfolding scan first_some_None by (simp add: list_all_iff block_problem_rewrite)
  ultimately show ?thesis using parsed scan by blast
qed

subsection \<open>The cache of compiled templates\<close>

text \<open>A memo table: what it remembers under a key is what the function answers for it.\<close>

locale memo_table =
  fixes key :: "'a \<Rightarrow> 'k" and f :: "'a \<Rightarrow> 'b"
  assumes key_determines: "key x = key y \<Longrightarrow> f x = f y"
begin

definition sound :: "('k \<Rightarrow> 'b option) \<Rightarrow> bool" where
  "sound m \<longleftrightarrow> (\<forall>x r. m (key x) = Some r \<longrightarrow> r = f x)"

definition ask :: "('k \<Rightarrow> 'b option) \<Rightarrow> 'a \<Rightarrow> 'b \<times> ('k \<Rightarrow> 'b option)" where
  "ask m x = (case m (key x) of Some r \<Rightarrow> (r, m) | None \<Rightarrow> (f x, m(key x \<mapsto> f x)))"

lemma sound_empty: "sound Map.empty"
  by (simp add: sound_def)

lemma ask_answer: "sound m \<Longrightarrow> fst (ask m x) = f x"
  by (auto simp: ask_def sound_def split: option.splits)

lemma ask_sound: "sound m \<Longrightarrow> sound (snd (ask m x))"
  by (auto simp: ask_def sound_def split: option.splits dest: key_determines)

end

lemma template_cacheKey_inj:
  "template_cacheKey s t b = template_cacheKey s' t' b' \<longleftrightarrow> s = s' \<and> t = t' \<and> b = b'"
proof -
  have i: "itoa (target_number u) = [digit_char (nat (target_number u))]" for u
    by (cases u) (simp_all add: target_number_def itoa_def show_nat.simps)
  have d: "digit_char (nat (target_number u)) = digit_char (nat (target_number u')) \<longleftrightarrow> u = u'" for u u'
  proof -
    have "(of_char (digit_char (nat (target_number u))) :: nat) = 48 + nat (target_number u)" for u
      by (cases u) (simp_all add: target_number_def)
    from this [of u] this [of u']
    have "digit_char (nat (target_number u)) = digit_char (nat (target_number u')) \<Longrightarrow>
          nat (target_number u) = nat (target_number u')" by (metis add_left_cancel)
    moreover have "nat (target_number u) = nat (target_number u') \<Longrightarrow> u = u'"
      by (cases u; cases u') (simp_all add: target_number_def)
    ultimately show ?thesis by blast
  qed
  show ?thesis unfolding template_cacheKey_def i by (cases b; cases b') (simp_all add: d conj_commute)
qed


definition compile_request :: "'t gonja \<Rightarrow> string \<times> Target \<times> bool \<Rightarrow> gerr + 't Compiled" where
  "compile_request g r = (case r of (source, target, strict) \<Rightarrow> compile g source target strict)"

interpretation engine: memo_table "\<lambda>(s, t, b). template_cacheKey s t b" "compile_request g"
  for g :: "'t gonja"
  by unfold_locales (auto simp: template_cacheKey_inj)

lemma Engine_Compile_ask: "Engine_Compile g e s t b = engine.ask g e (s, t, b)"
  by (simp add: Engine_Compile_def engine.ask_def Let_def compile_request_def split: option.splits)

text \<open>A history of \<open>Compile\<close> calls on one engine, and what each answered.\<close>

fun Compile_history ::
  "'t gonja \<Rightarrow> 't Engine \<Rightarrow> (string \<times> Target \<times> bool) list \<Rightarrow> (gerr + 't Compiled) list \<times> 't Engine" where
  "Compile_history g e [] = ([], e)"
| "Compile_history g e ((s, t, b) # rs) =
     (case Engine_Compile g e s t b of (r, e') \<Rightarrow>
        (case Compile_history g e' rs of (outs, e'') \<Rightarrow> (r # outs, e'')))"

lemma history_sound:
  "engine.sound g e \<Longrightarrow> fst (Compile_history g e rs) = map (compile_request g) rs \<and> engine.sound g (snd (Compile_history g e rs))"
proof (induction rs arbitrary: e)
  case (Cons q rs)
  obtain s t b where q: "q = (s, t, b)" by (cases q) auto
  obtain r e' where a: "engine.ask g e q = (r, e')" by (cases "engine.ask g e q")
  with engine.ask_answer [OF Cons.prems, of q] engine.ask_sound [OF Cons.prems, of q]
  have "r = compile_request g q" "engine.sound g e'" by simp_all
  with Cons.IH [of e'] a show ?case by (auto simp: q Engine_Compile_ask split: prod.splits)
qed simp

text \<open>
  The cache of the engine is invisible: in any sequence of \<open>Compile\<close> calls on a new engine,
  for any sources, targets and strictness, each call answers what compiling its own arguments
  answers, errors included; \<open>Validate\<close> after it reports exactly the error of compiling. No two
  different requests share a cache key.
\<close>
theorem engine_cache_transparent:
  "fst (Compile_history g NewEngine rs) = map (\<lambda>(s, t, b). compile g s t b) rs
   \<and> fst (Engine_Validate g (snd (Compile_history g NewEngine rs)) s t b)
       = (case compile g s t b of Inl err \<Rightarrow> Some err | Inr _ \<Rightarrow> None)
   \<and> (template_cacheKey s t b = template_cacheKey s' t' b' \<longleftrightarrow> (s, t, b) = (s', t', b'))"
proof (intro conjI)
  have s: "engine.sound g NewEngine" by (simp add: NewEngine_def engine.sound_empty)
  have "compile_request g = (\<lambda>(s, t, b). compile g s t b)" by (simp add: fun_eq_iff compile_request_def)
  then show "fst (Compile_history g NewEngine rs) = map (\<lambda>(s, t, b). compile g s t b) rs"
    using history_sound [OF s, of rs] by simp
  have "fst (Engine_Compile g (snd (Compile_history g NewEngine rs)) s t b) = compile g s t b"
    using engine.ask_answer [of g "snd (Compile_history g NewEngine rs)" "(s, t, b)"] history_sound [OF s, of rs]
    by (simp add: Engine_Compile_ask compile_request_def)
  then show "fst (Engine_Validate g (snd (Compile_history g NewEngine rs)) s t b)
       = (case compile g s t b of Inl err \<Rightarrow> Some err | Inr _ \<Rightarrow> None)"
    by (cases "Engine_Compile g (snd (Compile_history g NewEngine rs)) s t b") (simp add: Engine_Validate_def)
  show "template_cacheKey s t b = template_cacheKey s' t' b' \<longleftrightarrow> (s, t, b) = (s', t', b')"
    by (simp add: template_cacheKey_inj)
qed

subsection \<open>Concrete templates\<close>

definition demo_gonja :: "string gonja" where
  "demo_gonja = \<lparr>gj_load = \<lambda>i s. None, gj_parse = \<lambda>i b s. Inr s, gj_execute = \<lambda>t v. Inr t, gj_sha256 = \<lambda>s. ''01234567''\<rparr>"

definition demo_template :: string where
  "demo_template = ''a{#{{ b'' @ [squote] @ '' }}#}{{- x -}}''"

definition demo_compiled :: "string Compiled" where
  "demo_compiled = \<lparr>c_tmpl = injectEscape demo_template (escapeFilterFor TargetJSON True),
     c_source = demo_template, c_target = TargetJSON\<rparr>"

lemma demo_compiles: "compile demo_gonja demo_template TargetJSON True = Inr demo_compiled"
proof -
  have "contains_sub ''{%'' demo_template = False" by code_simp
  then have "checkBlocks demo_template TargetJSON = None" by (simp add: checkBlocks_def)
  then show ?thesis by (simp add: compile_def demo_gonja_def demo_compiled_def Let_def)
qed

theorem compile_escapes_every_output_witness:
  "\<exists>text. gj_parse demo_gonja (''cnx-'' @ hashSource demo_gonja text) True text = Inr (c_tmpl demo_compiled)
     \<and> scanTemplate text = map (rewrite_seg (escapeFilterFor TargetJSON True)) (scanTemplate demo_template)
     \<and> list_all (escaped_seg (escapeFilterFor TargetJSON True)) (scanTemplate text)
     \<and> list_all (\<lambda>seg. block_problem TargetJSON seg = None) (scanTemplate text)
     \<and> c_source demo_compiled = demo_template \<and> c_target demo_compiled = TargetJSON"
  by (rule compile_escapes_every_output [OF demo_compiles])

end
