(* ===== verification/SqlTemplate.thy ===== *)
theory SqlTemplate
  imports TemplateEngine
begin

text \<open>
  Parameterized queries (\<open>internal/sqltemplate/sqltemplate.go\<close>): the scanner of placeholders, the
  compilation and its checks, and the building of a query for a driver. The expression library
  is a parameter (\<open>expr_engine\<close>), the template engine is the one of \<open>TemplateEngine\<close>. The regular
  expression \<open>sqlToken\<close> is written out as a search that tries its alternatives in order, with
  the backtracking of the string literal.
\<close>

subsection \<open>Placeholders\<close>

definition DriverPostgres :: string where "DriverPostgres = ''postgres''"
definition DriverMySQL :: string where "DriverMySQL = ''mysql''"
definition DriverSQLite :: string where "DriverSQLite = ''sqlite''"

datatype PlaceholderStyle = PlaceholderQuestion | PlaceholderDollar

definition GetPlaceholderStyle :: "string \<Rightarrow> PlaceholderStyle" where
  "GetPlaceholderStyle driver = (if driver = DriverPostgres then PlaceholderDollar else PlaceholderQuestion)"

text \<open>
  The end of a string literal after its opening quote: a doubled quote is taken as an escape
  when the literal can still end after it, else its first half closes the literal.
\<close>

fun literal_end :: "string \<Rightarrow> nat option" where
  "literal_end [] = None"
| "literal_end (c # s) =
     (if c = squote
      then (case s of
              d # s' \<Rightarrow> if d = squote then (case literal_end s' of Some n \<Rightarrow> Some (n + 2) | None \<Rightarrow> Some 1) else Some 1
            | [] \<Rightarrow> Some 1)
      else map_option Suc (literal_end s))"

abbreviation newline :: char where "newline \<equiv> CHR 0x0A"

text \<open>A match of \<open>sqlToken\<close> at the start of a text: its length, and the digits of a placeholder.\<close>

definition sqlToken :: "string \<Rightarrow> (nat \<times> string option) option" where
  "sqlToken s =
     (case s of
        [] \<Rightarrow> None
      | c # t \<Rightarrow>
          if c = squote then map_option (\<lambda>n. (Suc n, None)) (literal_end t)
          else if prefix ''--'' s then Some (length (takeWhile (\<lambda>x. x \<noteq> newline) s), None)
          else if prefix ''/*'' s then map_option (\<lambda>n. (2 + n, None)) (indexAfter ''*/'' (drop 2 s))
          else if prefix ''$$'' s then map_option (\<lambda>n. (2 + n, None)) (indexAfter ''$$'' (drop 2 s))
          else if c = CHR ''$''
          then (let ds = takeWhile is_digit t in if ds = [] then None else Some (Suc (length ds), Some ds))
          else None)"

text \<open>\<open>strconv.Atoi\<close> with its error ignored: a number out of range is the largest one.\<close>

definition placeholder_number :: "string \<Rightarrow> int" where
  "placeholder_number ds = min (int (digits_value ds)) int64_max"

record placeholderRef =
  pr_start :: nat
  pr_end :: nat
  pr_n :: int

function scan_refs :: "nat \<Rightarrow> string \<Rightarrow> placeholderRef list" where
  "scan_refs pos s =
     (if s = [] then []
      else (case sqlToken s of
              None \<Rightarrow> scan_refs (pos + 1) (drop 1 s)
            | Some (len, None) \<Rightarrow> scan_refs (pos + max 1 len) (drop (max 1 len) s)
            | Some (len, Some ds) \<Rightarrow>
                \<lparr>pr_start = pos, pr_end = pos + max 1 len, pr_n = placeholder_number ds\<rparr>
                  # scan_refs (pos + max 1 len) (drop (max 1 len) s)))"
  by pat_completeness auto
termination
  by (relation "measure (\<lambda>(_, s). length s)") auto

declare scan_refs.simps [simp del]

definition scanPlaceholders :: "string \<Rightarrow> placeholderRef list" where
  "scanPlaceholders sql = scan_refs 0 sql"

definition validatePlaceholders :: "string \<Rightarrow> nat \<Rightarrow> gerr option" where
  "validatePlaceholders querySrc paramCount =
     (case find (\<lambda>ref. pr_n ref > int paramCount) (scanPlaceholders querySrc) of
        Some ref \<Rightarrow> Some (plain_error (''query references $'' @ itoa (pr_n ref) @ '' but only ''
                            @ itoa (int paramCount) @ '' parameter(s) are declared''))
      | None \<Rightarrow>
          (case find (\<lambda>i. int i \<notin> set (map pr_n (scanPlaceholders querySrc))) [1..<Suc paramCount] of
             Some i \<Rightarrow> Some (plain_error (''parameter '' @ itoa (int i) @ '' is declared but $''
                              @ itoa (int i) @ '' never appears in the query''))
           | None \<Rightarrow> None))"

subsection \<open>Compilation\<close>

text \<open>
  What the code asks the expression library: compile, run on the variables, and the identifiers
  of the parsed tree (\<open>None\<close> when the text does not parse).
\<close>

record 'p expr_engine =
  ex_compile :: "string \<Rightarrow> gerr + 'p"
  ex_run :: "'p \<Rightarrow> (string \<Rightarrow> gval option) \<Rightarrow> gerr + gval"
  ex_identifiers :: "string \<Rightarrow> string list option"

record ('t, 'p) Query =
  q_tmpl :: "'t Compiled"
  q_params :: "'p list"
  q_paramSrcs :: "string list"
  q_driver :: string

definition referencesPagination :: "'p expr_engine \<Rightarrow> string \<Rightarrow> bool" where
  "referencesPagination ex src =
     (case ex_identifiers ex src of
        None \<Rightarrow> contains_sub ''pagination'' src
      | Some ids \<Rightarrow> ''pagination'' \<in> set ids)"

definition ReferencesPagination :: "'p expr_engine \<Rightarrow> string list \<Rightarrow> bool" where
  "ReferencesPagination ex srcs = list_ex (referencesPagination ex) srcs"

definition UsesPagination :: "'p expr_engine \<Rightarrow> ('t, 'p) Query \<Rightarrow> bool" where
  "UsesPagination ex q = ReferencesPagination ex (q_paramSrcs q)"

fun compile_params :: "'p expr_engine \<Rightarrow> nat \<Rightarrow> string list \<Rightarrow> gerr + 'p list" where
  "compile_params ex i [] = Inr []"
| "compile_params ex i (src # srcs) =
     (if trim_space src = [] then Inl (plain_error (''parameter '' @ itoa (int i + 1) @ '': expression is empty''))
      else (case ex_compile ex src of
              Inl err \<Rightarrow> Inl (errorf (''parameter '' @ itoa (int i + 1) @ '' (\"'' @ src @ ''\"): '' @ err_text err) err)
            | Inr prog \<Rightarrow>
                (case compile_params ex (Suc i) srcs of
                   Inl err \<Rightarrow> Inl err
                 | Inr progs \<Rightarrow> Inr (prog # progs))))"

definition sql_Compile ::
  "'t gonja \<Rightarrow> 'p expr_engine \<Rightarrow> 't Engine \<Rightarrow> string \<Rightarrow> string list \<Rightarrow> string
   \<Rightarrow> (gerr + ('t, 'p) Query) \<times> 't Engine" where
  "sql_Compile g ex e querySrc paramSrcs driver =
     (if HasOutputTag querySrc
      then (Inl (plain_error ''SQL query must not interpolate values with {{ ... }}; bind dynamic values through $N placeholders and the parameters list''), e)
      else (case Engine_Compile g e querySrc TargetText True of
              (Inl err, e') \<Rightarrow> (Inl (errorf (''compiling query template: '' @ err_text err) err), e')
            | (Inr tmpl, e') \<Rightarrow>
                (case compile_params ex 0 paramSrcs of
                   Inl err \<Rightarrow> (Inl err, e')
                 | Inr params \<Rightarrow>
                     (case validatePlaceholders querySrc (length paramSrcs) of
                        Some err \<Rightarrow> (Inl err, e')
                      | None \<Rightarrow> (Inr \<lparr>q_tmpl = tmpl, q_params = params, q_paramSrcs = paramSrcs,
                                       q_driver = driver\<rparr>, e')))))"

subsection \<open>Building a query\<close>

text \<open>The variables of \<open>template.RenderContext\<close> for values, as \<open>Vars\<close> returns them.\<close>

record value_context =
  vc_Record :: "grecord"
  vc_Meta :: "grecord"
  vc_State :: "grecord"
  vc_Pagination :: "grecord"
  vc_Extra :: "grecord"

definition context_Vars :: "value_context \<Rightarrow> string \<Rightarrow> gval option" where
  "context_Vars rc =
     (vc_Extra rc)(''record'' \<mapsto> GMap (vc_Record rc), ''meta'' \<mapsto> GMap (vc_Meta rc),
        ''state'' \<mapsto> GMap (vc_State rc), ''pagination'' \<mapsto> GMap (vc_Pagination rc))"

record bind_state =
  b_out :: string
  b_args :: "gval list"
  b_sources :: "string list"
  b_last :: nat
  b_values :: "nat \<Rightarrow> gval option"
  b_newIndex :: "int \<Rightarrow> nat option"

text \<open>\<open>evalParam\<close> evaluates a parameter at its first use and remembers the value.\<close>

definition evalParam ::
  "'p expr_engine \<Rightarrow> ('t, 'p) Query \<Rightarrow> (string \<Rightarrow> gval option) \<Rightarrow> int \<Rightarrow> bind_state \<Rightarrow> gerr + (gval \<times> bind_state)" where
  "evalParam ex q vars n st =
     (let idx = nat (n - 1)
      in case b_values st idx of
           Some v \<Rightarrow> Inr (v, st)
         | None \<Rightarrow>
             (case ex_run ex (q_params q ! idx) vars of
                Inl runErr \<Rightarrow> Inl (errorf (''evaluating parameter '' @ itoa n @ '' (\"'' @ q_paramSrcs q ! idx @ ''\"): '' @ err_text runErr) runErr)
              | Inr v \<Rightarrow> Inr (v, st\<lparr>b_values := (b_values st)(idx \<mapsto> v)\<rparr>)))"

definition bind_arg :: "('t, 'p) Query \<Rightarrow> int \<Rightarrow> gval \<Rightarrow> bind_state \<Rightarrow> bind_state" where
  "bind_arg q n v st =
     st\<lparr>b_args := b_args st @ [v], b_sources := b_sources st @ [q_paramSrcs q ! nat (n - 1)]\<rparr>"

definition range_error :: "('t, 'p) Query \<Rightarrow> int \<Rightarrow> gerr" where
  "range_error q n = plain_error (''rendered query references $'' @ itoa n @ '' but only ''
     @ itoa (int (length (q_params q))) @ '' parameter(s) are declared'')"

definition bind_step ::
  "'p expr_engine \<Rightarrow> ('t, 'p) Query \<Rightarrow> (string \<Rightarrow> gval option) \<Rightarrow> string \<Rightarrow> bool \<Rightarrow> placeholderRef \<Rightarrow> bind_state \<Rightarrow> gerr + bind_state" where
  "bind_step ex q vars rendered postgres ref st =
     (if pr_n ref < 1 \<or> pr_n ref > int (length (q_params q)) then Inl (range_error q (pr_n ref))
      else (let st = st\<lparr>b_out := b_out st @ drop (b_last st) (take (pr_start ref) rendered), b_last := pr_end ref\<rparr>
            in if postgres
               then (case b_newIndex st (pr_n ref) of
                       Some idx \<Rightarrow> Inr (st\<lparr>b_out := b_out st @ ''$'' @ itoa (int idx)\<rparr>)
                     | None \<Rightarrow>
                         (case evalParam ex q vars (pr_n ref) st of
                            Inl err \<Rightarrow> Inl err
                          | Inr (v, st) \<Rightarrow>
                              (let st = bind_arg q (pr_n ref) v st;
                                   idx = length (b_args st)
                               in Inr (st\<lparr>b_newIndex := (b_newIndex st)(pr_n ref \<mapsto> idx),
                                          b_out := b_out st @ ''$'' @ itoa (int idx)\<rparr>))))
               else (case evalParam ex q vars (pr_n ref) st of
                       Inl err \<Rightarrow> Inl err
                     | Inr (v, st) \<Rightarrow>
                         (let st = bind_arg q (pr_n ref) v st in Inr (st\<lparr>b_out := b_out st @ ''?''\<rparr>)))))"

fun bind_loop ::
  "'p expr_engine \<Rightarrow> ('t, 'p) Query \<Rightarrow> (string \<Rightarrow> gval option) \<Rightarrow> string \<Rightarrow> bool \<Rightarrow> placeholderRef list \<Rightarrow> bind_state \<Rightarrow> gerr + bind_state" where
  "bind_loop ex q vars rendered postgres [] st = Inr st"
| "bind_loop ex q vars rendered postgres (ref # refs) st =
     (case bind_step ex q vars rendered postgres ref st of
        Inl err \<Rightarrow> Inl err
      | Inr st' \<Rightarrow> bind_loop ex q vars rendered postgres refs st')"

definition BuildDescribed ::
  "'t gonja \<Rightarrow> 'p expr_engine \<Rightarrow> ('t, 'p) Query \<Rightarrow> value_context \<Rightarrow> gerr + (string \<times> gval list \<times> string list)" where
  "BuildDescribed g ex q rc =
     (case Compiled_Render g (q_tmpl q) (context_Vars rc) of
        Inl err \<Rightarrow> Inl (errorf (''rendering query template: '' @ err_text err) err)
      | Inr rendered \<Rightarrow>
          if contains_sub ''{{'' rendered \<or> contains_sub ''}}'' rendered
          then Inl (plain_error ''template delimiters remain in rendered query'')
          else (let vars = context_Vars rc;
                    postgres = (GetPlaceholderStyle (q_driver q) = PlaceholderDollar);
                    st = \<lparr>b_out = [], b_args = [], b_sources = [], b_last = 0, b_values = Map.empty, b_newIndex = Map.empty\<rparr>
                in case bind_loop ex q vars rendered postgres (scanPlaceholders rendered) st of
                     Inl err \<Rightarrow> Inl err
                   | Inr st \<Rightarrow> Inr (b_out st @ drop (b_last st) rendered, b_args st, b_sources st)))"

definition Build ::
  "'t gonja \<Rightarrow> 'p expr_engine \<Rightarrow> ('t, 'p) Query \<Rightarrow> value_context \<Rightarrow> gerr + (string \<times> gval list)" where
  "Build g ex q rc =
     (case BuildDescribed g ex q rc of Inl err \<Rightarrow> Inl err | Inr (sql, args, _) \<Rightarrow> Inr (sql, args))"

subsection \<open>Specification\<close>

text \<open>The pieces of a query text: stretches that hold no placeholder, and placeholders.\<close>

datatype sql_piece = SText string | SRef string

function sql_pieces :: "string \<Rightarrow> sql_piece list" where
  "sql_pieces s =
     (if s = [] then []
      else (case sqlToken s of
              None \<Rightarrow> SText (take 1 s) # sql_pieces (drop 1 s)
            | Some (len, None) \<Rightarrow> SText (take (max 1 len) s) # sql_pieces (drop (max 1 len) s)
            | Some (len, Some ds) \<Rightarrow> SRef ds # sql_pieces (drop (max 1 len) s)))"
  by pat_completeness auto
termination
  by (relation "measure length") auto

declare sql_pieces.simps [simp del]

definition piece_text :: "sql_piece \<Rightarrow> string" where
  "piece_text p = (case p of SText t \<Rightarrow> t | SRef ds \<Rightarrow> CHR ''$'' # ds)"

definition piece_refs :: "sql_piece list \<Rightarrow> int list" where
  "piece_refs ps = concat (map (\<lambda>p. case p of SText t \<Rightarrow> [] | SRef ds \<Rightarrow> [placeholder_number ds]) ps)"

text \<open>
  The parameters bound by a list of placeholders, in the order of the arguments: for postgres
  each once, at its first use; else one for each use.
\<close>

fun bound_params :: "bool \<Rightarrow> int list \<Rightarrow> int list \<Rightarrow> int list" where
  "bound_params postgres us [] = us"
| "bound_params postgres us (n # ns) = bound_params postgres (if postgres \<and> n \<in> set us then us else us @ [n]) ns"

definition bound_index :: "int list \<Rightarrow> int \<Rightarrow> nat" where
  "bound_index us n = Suc (length (takeWhile (\<lambda>m. m \<noteq> n) us))"

definition show_piece :: "bool \<Rightarrow> int list \<Rightarrow> sql_piece \<Rightarrow> string" where
  "show_piece postgres us p =
     (case p of
        SText t \<Rightarrow> t
      | SRef ds \<Rightarrow> if postgres then ''$'' @ itoa (int (bound_index us (placeholder_number ds))) else ''?'')"

definition param_value :: "'p expr_engine \<Rightarrow> ('t, 'p) Query \<Rightarrow> (string \<Rightarrow> gval option) \<Rightarrow> int \<Rightarrow> gerr + gval" where
  "param_value ex q vars n =
     (if n < 1 \<or> n > int (length (q_params q)) then Inl (range_error q n)
      else (case ex_run ex (q_params q ! nat (n - 1)) vars of
              Inl runErr \<Rightarrow> Inl (errorf (''evaluating parameter '' @ itoa n @ '' (\"'' @ q_paramSrcs q ! nat (n - 1) @ ''\"): '' @ err_text runErr) runErr)
            | Inr v \<Rightarrow> Inr v))"

definition is_left :: "'a + 'b \<Rightarrow> 'a option" where
  "is_left r = (case r of Inl e \<Rightarrow> Some e | Inr _ \<Rightarrow> None)"

definition the_right :: "'a + gval \<Rightarrow> gval" where
  "the_right r = (case r of Inr v \<Rightarrow> v | Inl _ \<Rightarrow> GNil)"

definition bound_query ::
  "'p expr_engine \<Rightarrow> ('t, 'p) Query \<Rightarrow> (string \<Rightarrow> gval option) \<Rightarrow> string \<Rightarrow> gerr + (string \<times> gval list \<times> string list)" where
  "bound_query ex q vars rendered =
     (let ps = sql_pieces rendered;
          postgres = (q_driver q = DriverPostgres);
          us = bound_params postgres [] (piece_refs ps)
      in case first_some (\<lambda>n. is_left (param_value ex q vars n)) (piece_refs ps) of
           Some err \<Rightarrow> Inl err
         | None \<Rightarrow> Inr (concat (map (show_piece postgres us) ps),
                        map (\<lambda>n. the_right (param_value ex q vars n)) us,
                        map (\<lambda>n. q_paramSrcs q ! nat (n - 1)) us))"


subsection \<open>The scanner\<close>

lemma literal_end_bound: "literal_end s = Some n \<Longrightarrow> 1 \<le> n \<and> n \<le> length s"
proof (induction s arbitrary: n rule: literal_end.induct)
  case (2 c s)
  show ?case
  proof (cases "c = squote")
    case True
    with 2 show ?thesis by (auto split: list.splits if_splits option.splits)
  next
    case False
    with 2 show ?thesis by auto
  qed
qed simp

lemma indexAfter_bound: "indexAfter sub s = Some n \<Longrightarrow> n \<le> length s"
  using str_index_bound [of sub s] by (auto simp: indexAfter_def)

lemma prefix_two_length: "prefix [a, b] s \<Longrightarrow> 2 \<le> length s"
  by (auto simp: prefix_def)

lemma sqlToken_bound:
  assumes "sqlToken s = Some (len, d)"
  shows "1 \<le> len \<and> len \<le> length s"
proof (cases s)
  case Nil
  with assms show ?thesis by (simp add: sqlToken_def)
next
  case (Cons c t)
  consider "c = squote" | "c \<noteq> squote" "prefix ''--'' s" | "c \<noteq> squote" "\<not> prefix ''--'' s" "prefix ''/*'' s"
    | "c \<noteq> squote" "\<not> prefix ''--'' s" "\<not> prefix ''/*'' s" "prefix ''$$'' s"
    | "c \<noteq> squote" "\<not> prefix ''--'' s" "\<not> prefix ''/*'' s" "\<not> prefix ''$$'' s" by blast
  then show ?thesis
  proof cases
    case 1
    with assms Cons obtain n where "literal_end t = Some n" "len = Suc n" by (auto simp: sqlToken_def)
    with literal_end_bound [of t n] Cons show ?thesis by simp
  next
    case 2
    with assms Cons have "len = length (takeWhile (\<lambda>x. x \<noteq> newline) (c # t))"
      unfolding sqlToken_def Cons list.case by (simp only: if_False if_True) simp
    moreover have "c = CHR ''-''" using 2 Cons by simp
    ultimately show ?thesis using length_takeWhile_le [of "\<lambda>x. x \<noteq> newline" t] Cons by simp
  next
    case 3
    with assms Cons obtain n where n: "indexAfter ''*/'' (drop 2 s) = Some n" "len = 2 + n"
      unfolding sqlToken_def Cons list.case by (simp only: if_False if_True) auto
    from indexAfter_bound [OF n(1)] prefix_two_length [OF 3(3)] n(2) show ?thesis by simp
  next
    case 4
    with assms Cons obtain n where n: "indexAfter ''$$'' (drop 2 s) = Some n" "len = 2 + n"
      unfolding sqlToken_def Cons list.case by (simp only: if_False if_True) auto
    from indexAfter_bound [OF n(1)] prefix_two_length [OF 4(4)] n(2) show ?thesis by simp
  next
    case 5
    with assms Cons have "len = Suc (length (takeWhile is_digit t))"
      unfolding sqlToken_def Cons list.case by (simp only: if_False) (auto simp: Let_def split: if_splits)
    with length_takeWhile_le [of is_digit t] Cons show ?thesis by simp
  qed
qed

lemma sqlToken_ref:
  assumes "sqlToken s = Some (len, Some ds)"
  shows "take len s = CHR ''$'' # ds \<and> ds \<noteq> [] \<and> ds = takeWhile is_digit (tl s)"
proof (cases s)
  case Nil
  with assms show ?thesis by (simp add: sqlToken_def)
next
  case (Cons c t)
  note a = assms [unfolded sqlToken_def Cons list.case]
  have "c \<noteq> squote" using a by auto
  moreover have "\<not> prefix ''--'' (c # t)" using a \<open>c \<noteq> squote\<close> by (simp only: if_False if_True split: if_splits) auto
  moreover have "\<not> prefix ''/*'' (c # t)" using a calculation by (simp only: if_False if_True split: if_splits) auto
  moreover have "\<not> prefix ''$$'' (c # t)" using a calculation by (simp only: if_False if_True split: if_splits) auto
  ultimately have "(if c = CHR ''$'' then let ds = takeWhile is_digit t in if ds = [] then None else Some (Suc (length ds), Some ds)
      else None) = Some (len, Some ds)" using a by (simp only: if_False)
  then show ?thesis using takeWhile_eq_take [of is_digit t] by (auto simp: Cons Let_def split: if_splits)
qed

lemma sql_cases:
  fixes s :: string
  obtains (empty) "s = []"
    | (plain) "s \<noteq> []" "sqlToken s = None"
    | (skipped) len where "s \<noteq> []" "sqlToken s = Some (len, None)" "1 \<le> len" "len \<le> length s"
    | (ref) len ds where "s \<noteq> []" "sqlToken s = Some (len, Some ds)" "1 \<le> len" "len \<le> length s" "take len s = CHR ''$'' # ds"
proof (cases "s = [] \<or> sqlToken s = None")
  case True
  then show ?thesis using empty plain by (cases "s = []") simp_all
next
  case False
  then obtain len d where m: "s \<noteq> []" "sqlToken s = Some (len, d)" by auto
  note b = sqlToken_bound [OF m(2)]
  show ?thesis
  proof (cases d)
    case None
    with m b skipped show ?thesis by blast
  next
    case (Some ds)
    with m b sqlToken_ref [of s len ds] ref show ?thesis by blast
  qed
qed


lemma scan_refs_eqs:
  "scan_refs pos [] = []"
  "s \<noteq> [] \<Longrightarrow> sqlToken s = None \<Longrightarrow> scan_refs pos s = scan_refs (pos + 1) (drop 1 s)"
  "s \<noteq> [] \<Longrightarrow> sqlToken s = Some (len, None) \<Longrightarrow> 1 \<le> len \<Longrightarrow> scan_refs pos s = scan_refs (pos + len) (drop len s)"
  "s \<noteq> [] \<Longrightarrow> sqlToken s = Some (len, Some ds) \<Longrightarrow> 1 \<le> len \<Longrightarrow>
   scan_refs pos s = \<lparr>pr_start = pos, pr_end = pos + len, pr_n = placeholder_number ds\<rparr> # scan_refs (pos + len) (drop len s)"
  by (simp_all add: scan_refs.simps [of pos s] scan_refs.simps [of pos "[]"] max_def)

lemma sql_pieces_eqs:
  "sql_pieces [] = []"
  "s \<noteq> [] \<Longrightarrow> sqlToken s = None \<Longrightarrow> sql_pieces s = SText (take 1 s) # sql_pieces (drop 1 s)"
  "s \<noteq> [] \<Longrightarrow> sqlToken s = Some (len, None) \<Longrightarrow> 1 \<le> len \<Longrightarrow> sql_pieces s = SText (take len s) # sql_pieces (drop len s)"
  "s \<noteq> [] \<Longrightarrow> sqlToken s = Some (len, Some ds) \<Longrightarrow> 1 \<le> len \<Longrightarrow> sql_pieces s = SRef ds # sql_pieces (drop len s)"
  by (simp_all add: sql_pieces.simps [of s] sql_pieces.simps [of "[]"] max_def)

lemma sql_induct [case_names empty plain skipped ref]:
  assumes "P []"
    and "\<And>s. s \<noteq> [] \<Longrightarrow> sqlToken s = None \<Longrightarrow> P (drop 1 s) \<Longrightarrow> P s"
    and "\<And>s len. s \<noteq> [] \<Longrightarrow> sqlToken s = Some (len, None) \<Longrightarrow> 1 \<le> len \<Longrightarrow> len \<le> length s \<Longrightarrow> P (drop len s) \<Longrightarrow> P s"
    and "\<And>s len ds. s \<noteq> [] \<Longrightarrow> sqlToken s = Some (len, Some ds) \<Longrightarrow> 1 \<le> len \<Longrightarrow> len \<le> length s \<Longrightarrow>
           take len s = CHR ''$'' # ds \<Longrightarrow> P (drop len s) \<Longrightarrow> P s"
  shows "P s"
proof (induction "length s" arbitrary: s rule: less_induct)
  case less
  show ?case
  proof (cases s rule: sql_cases)
    case empty
    then show ?thesis using assms(1) by simp
  next
    case plain
    then show ?thesis using assms(2) less by (cases s) auto
  next
    case (skipped len)
    then show ?thesis using assms(3) [OF skipped] less by simp
  next
    case (ref len ds)
    then show ?thesis using assms(4) [OF ref] less by simp
  qed
qed

lemma sql_pieces_text: "concat (map piece_text (sql_pieces s)) = s"
proof (induction s rule: sql_induct)
  case (ref s len ds)
  have "sql_pieces s = SRef ds # sql_pieces (drop len s)" by (rule sql_pieces_eqs(4) [OF ref(1-3)])
  then show ?case using ref(5,6) append_take_drop_id [of len s] by (simp add: piece_text_def)
qed (simp_all add: sql_pieces_eqs piece_text_def)

lemma scan_refs_numbers: "map pr_n (scan_refs pos s) = piece_refs (sql_pieces s)"
proof (induction s arbitrary: pos rule: sql_induct)
  case (ref s len ds)
  show ?case unfolding sql_pieces_eqs(4) [OF ref(1-3)] scan_refs_eqs(4) [OF ref(1-3)]
    using ref(6) by (simp add: piece_refs_def)
qed (simp_all add: scan_refs_eqs sql_pieces_eqs piece_refs_def)

subsection \<open>Building refines its specification\<close>

definition bound_ok ::
  "'p expr_engine \<Rightarrow> ('t, 'p) Query \<Rightarrow> (string \<Rightarrow> gval option) \<Rightarrow> bool \<Rightarrow> bind_state \<Rightarrow> int list \<Rightarrow> bool" where
  "bound_ok ex q vars postgres st us \<longleftrightarrow>
     list_all (\<lambda>n. is_left (param_value ex q vars n) = None) us \<and>
     b_args st = map (\<lambda>n. the_right (param_value ex q vars n)) us \<and>
     b_sources st = map (\<lambda>n. q_paramSrcs q ! nat (n - 1)) us \<and>
     (\<forall>n v. 1 \<le> n \<longrightarrow> n \<le> int (length (q_params q)) \<longrightarrow> b_values st (nat (n - 1)) = Some v \<longrightarrow> param_value ex q vars n = Inr v) \<and>
     (postgres \<longrightarrow> (\<forall>n. b_newIndex st n = (if n \<in> set us then Some (bound_index us n) else None)))"

lemma bound_index_append: "n \<in> set us \<Longrightarrow> bound_index (us @ vs) n = bound_index us n"
  by (induction us) (auto simp: bound_index_def)

lemma bound_index_new: "n \<notin> set us \<Longrightarrow> bound_index (us @ [n]) n = Suc (length us)"
  by (induction us) (auto simp: bound_index_def)

lemma bound_params_extends: "\<exists>vs. bound_params postgres us ns = us @ vs"
proof (induction ns arbitrary: us)
  case (Cons n ns)
  obtain vs where "bound_params postgres (us @ [n]) ns = us @ ([n] @ vs)" using Cons [of "us @ [n]"] by auto
  with Cons [of us] show ?case by (cases "postgres \<and> n \<in> set us") auto
qed simp

lemma show_piece_extends:
  "\<exists>vs. us' = us @ vs \<Longrightarrow> n \<in> set us \<Longrightarrow> bound_index us' n = bound_index us n"
  by (auto simp: bound_index_append)

lemma evalParam_value:
  assumes "bound_ok ex q vars postgres st us" "1 \<le> n" "n \<le> int (length (q_params q))"
  shows "case evalParam ex q vars n st of
           Inl err \<Rightarrow> param_value ex q vars n = Inl err
         | Inr (v, st') \<Rightarrow> param_value ex q vars n = Inr v \<and> bound_ok ex q vars postgres st' us \<and>
             b_out st' = b_out st \<and> b_last st' = b_last st \<and> b_newIndex st' = b_newIndex st"
proof (cases "b_values st (nat (n - 1))")
  case (Some v)
  with assms show ?thesis by (simp add: evalParam_def bound_ok_def)
next
  case None
  show ?thesis
  proof (cases "ex_run ex (q_params q ! nat (n - 1)) vars")
    case (Inl e)
    with None assms(2,3) show ?thesis by (simp add: evalParam_def param_value_def)
  next
    case (Inr v)
    then have "param_value ex q vars n = Inr v" using assms(2,3) by (simp add: param_value_def)
    moreover have "m = n" if "nat (m - 1) = nat (n - 1)" "1 \<le> m" for m using that assms(2) by simp
    ultimately show ?thesis using None Inr assms(1)
      by (simp add: evalParam_def bound_ok_def) blast
  qed
qed

lemma bound_ok_arg:
  assumes "bound_ok ex q vars postgres st us" "param_value ex q vars n = Inr v" "postgres \<Longrightarrow> n \<notin> set us"
  shows "postgres \<Longrightarrow> bound_ok ex q vars postgres
           ((bind_arg q n v st)\<lparr>b_newIndex := (b_newIndex st)(n \<mapsto> Suc (length (b_args st))), b_out := x\<rparr>) (us @ [n])"
    and "\<not> postgres \<Longrightarrow> bound_ok ex q vars postgres ((bind_arg q n v st)\<lparr>b_out := x\<rparr>) (us @ [n])"
  using assms by (auto simp: bound_ok_def bind_arg_def the_right_def is_left_def bound_index_append bound_index_new)

lemma bound_ok_frame [simp]:
  "bound_ok ex q vars postgres (st\<lparr>b_out := x, b_last := y\<rparr>) us = bound_ok ex q vars postgres st us"
  "bound_ok ex q vars postgres (st\<lparr>b_out := x\<rparr>) us = bound_ok ex q vars postgres st us"
  "bound_ok ex q vars postgres (st\<lparr>b_last := y\<rparr>) us = bound_ok ex q vars postgres st us"
  by (simp_all add: bound_ok_def)

lemma bind_step_spec:
  assumes "bound_ok ex q vars postgres st us" "ref = \<lparr>pr_start = length pre, pr_end = length pre + len, pr_n = n\<rparr>"
    and "rendered = pre @ s" "b_last st \<le> length pre"
  defines "us1 \<equiv> if postgres \<and> n \<in> set us then us else us @ [n]"
  shows "case bind_step ex q vars rendered postgres ref st of
           Inl err \<Rightarrow> param_value ex q vars n = Inl err
         | Inr st' \<Rightarrow> is_left (param_value ex q vars n) = None \<and> bound_ok ex q vars postgres st' us1 \<and> b_last st' = length pre + len \<and>
             b_out st' = b_out st @ drop (b_last st) pre @ (if postgres then ''$'' @ itoa (int (bound_index us1 n)) else ''?'')"
proof (cases "n < 1 \<or> n > int (length (q_params q))")
  case True
  then show ?thesis using assms(2) by (auto simp: bind_step_def param_value_def)
next
  case False
  then have n: "1 \<le> n" "n \<le> int (length (q_params q))" by auto
  define out where "out = b_out st @ drop (b_last st) pre"
  define st1 where "st1 = st\<lparr>b_out := out, b_last := length pre + len\<rparr>"
  have ok1: "bound_ok ex q vars postgres st1 us" using assms(1) by (simp add: st1_def)
  have step: "bind_step ex q vars rendered postgres ref st =
     (if postgres
      then (case b_newIndex st1 n of
              Some idx \<Rightarrow> Inr (st1\<lparr>b_out := b_out st1 @ ''$'' @ itoa (int idx)\<rparr>)
            | None \<Rightarrow> (case evalParam ex q vars n st1 of
                 Inl err \<Rightarrow> Inl err
               | Inr (v, st) \<Rightarrow> (let st = bind_arg q n v st; idx = length (b_args st)
                   in Inr (st\<lparr>b_newIndex := (b_newIndex st)(n \<mapsto> idx), b_out := b_out st @ ''$'' @ itoa (int idx)\<rparr>))))
      else (case evalParam ex q vars n st1 of
              Inl err \<Rightarrow> Inl err
            | Inr (v, st) \<Rightarrow> (let st = bind_arg q n v st in Inr (st\<lparr>b_out := b_out st @ ''?''\<rparr>))))"
  proof -
    have "pr_n ref = n" "pr_start ref = length pre" "pr_end ref = length pre + len" using assms(2) by simp_all
    moreover have "drop (b_last st) (take (length pre) rendered) = drop (b_last st) pre" using assms(3) by simp
    ultimately show ?thesis using False unfolding bind_step_def st1_def out_def Let_def by (simp only: if_False)
  qed
  show ?thesis
  proof (cases "postgres \<and> n \<in> set us")
    case True
    then have ni: "b_newIndex st1 n = Some (bound_index us n)" using ok1 by (simp add: bound_ok_def)
    have "is_left (param_value ex q vars n) = None"
      using ok1 True unfolding bound_ok_def list_all_iff by blast
    moreover have "us1 = us" using True by (simp add: us1_def)
    ultimately show ?thesis unfolding step using True ni ok1 by (simp add: out_def st1_def)
  next
    case new: False
    note ev = evalParam_value [OF ok1 n]
    show ?thesis
    proof (cases "evalParam ex q vars n st1")
      case (Inl e)
      with ev new show ?thesis unfolding step
        using ok1 by (auto simp: bound_ok_def)
    next
      case (Inr vs)
      then obtain v st2 where vs: "evalParam ex q vars n st1 = Inr (v, st2)" by (cases vs) auto
      with ev have p: "param_value ex q vars n = Inr v" "bound_ok ex q vars postgres st2 us"
        "b_out st2 = out" "b_last st2 = length pre + len" "b_newIndex st2 = b_newIndex st1" by (auto simp: st1_def)
      have len: "length (b_args st2) = length us" using p(2) by (simp add: bound_ok_def)
      show ?thesis
      proof (cases postgres)
        case True
        with new have nn: "n \<notin> set us" by blast
        then have "b_newIndex st1 n = None" using ok1 True by (simp add: bound_ok_def)
        then show ?thesis unfolding step
          using True vs p nn bound_ok_arg(1) [OF p(2,1) nn True] len
          by (simp add: Let_def bind_arg_def us1_def is_left_def bound_index_new out_def)
      next
        case False
        then show ?thesis unfolding step
          using vs p bound_ok_arg(2) [OF p(2,1) _ False]
          by (simp add: Let_def bind_arg_def us1_def is_left_def out_def)
      qed
    qed
  qed
qed


text \<open>What the loop makes of the pieces \<open>ps\<close> still to come, when \<open>out\<close> is written.\<close>

definition bind_result ::
  "'p expr_engine \<Rightarrow> ('t, 'p) Query \<Rightarrow> (string \<Rightarrow> gval option) \<Rightarrow> bool \<Rightarrow> string \<Rightarrow> int list \<Rightarrow> string \<Rightarrow> sql_piece list
   \<Rightarrow> gerr + bind_state \<Rightarrow> bool" where
  "bind_result ex q vars postgres rendered us out ps r =
     (case r of
        Inl err \<Rightarrow> first_some (\<lambda>n. is_left (param_value ex q vars n)) (piece_refs ps) = Some err
      | Inr st' \<Rightarrow>
          first_some (\<lambda>n. is_left (param_value ex q vars n)) (piece_refs ps) = None \<and>
          bound_ok ex q vars postgres st' (bound_params postgres us (piece_refs ps)) \<and>
          b_out st' @ drop (b_last st') rendered
            = out @ concat (map (show_piece postgres (bound_params postgres us (piece_refs ps))) ps))"

lemma bind_result_text:
  "bind_result ex q vars postgres rendered us (out @ u) ps r \<Longrightarrow>
   bind_result ex q vars postgres rendered us out (SText u # ps) r"
  by (cases r) (simp_all add: bind_result_def piece_refs_def show_piece_def)

lemma bind_result_ref:
  fixes us :: "int list" and ds :: string and postgres :: bool
  defines "n \<equiv> placeholder_number ds"
  defines "us1 \<equiv> if postgres \<and> n \<in> set us then us else us @ [n]"
  assumes "bind_result ex q vars postgres rendered us1
             (out @ (if postgres then ''$'' @ itoa (int (bound_index us1 n)) else ''?'')) ps r"
    and "is_left (param_value ex q vars n) = None"
  shows "bind_result ex q vars postgres rendered us out (SRef ds # ps) r"
proof (cases r)
  case (Inl err)
  with assms(3,4) show ?thesis by (simp add: bind_result_def piece_refs_def n_def)
next
  case (Inr st')
  have bp: "bound_params postgres us (n # ns) = bound_params postgres us1 ns" for ns by (simp add: us1_def)
  have "bound_index (bound_params postgres us1 ns) n = bound_index us1 n" if postgres for ns
    using bound_params_extends [of postgres us1] that by (intro show_piece_extends) (auto simp: us1_def)
  then have sp: "show_piece postgres (bound_params postgres us1 ns) (SRef ds)
      = (if postgres then ''$'' @ itoa (int (bound_index us1 n)) else ''?'')" for ns
    by (simp add: show_piece_def n_def)
  have pr: "piece_refs (SRef ds # ps) = n # piece_refs ps" by (simp add: piece_refs_def n_def)
  show ?thesis using assms(3,4) Inr unfolding bind_result_def pr bp list.map concat.simps sp by simp
qed

lemma bind_loop_spec:
  assumes "rendered = pre @ s" "b_last st \<le> length pre" "bound_ok ex q vars postgres st us"
  shows "bind_result ex q vars postgres rendered us (b_out st @ drop (b_last st) pre) (sql_pieces s)
           (bind_loop ex q vars rendered postgres (scan_refs (length pre) s) st)"
  using assms
proof (induction s arbitrary: pre st us rule: sql_induct)
  case empty
  then show ?case by (simp add: bind_result_def scan_refs_eqs sql_pieces_eqs piece_refs_def)
next
  case (plain s)
  have r: "rendered = (pre @ take 1 s) @ drop 1 s" "b_last st \<le> length (pre @ take 1 s)" using plain(4,5) by simp_all
  have "length (pre @ take 1 s) = length pre + 1" using plain(1) by (cases s) auto
  moreover have "b_out st @ drop (b_last st) (pre @ take 1 s) = (b_out st @ drop (b_last st) pre) @ take 1 s"
    using plain(5) by simp
  ultimately show ?case
    using plain(3) [OF r plain(6)] unfolding scan_refs_eqs(2) [OF plain(1,2)] sql_pieces_eqs(2) [OF plain(1,2)]
    by (intro bind_result_text) (simp only:)
next
  case (skipped s len)
  have r: "rendered = (pre @ take len s) @ drop len s" "b_last st \<le> length (pre @ take len s)" using skipped(6,7) by simp_all
  have "length (pre @ take len s) = length pre + len" using skipped(4) by simp
  moreover have "b_out st @ drop (b_last st) (pre @ take len s) = (b_out st @ drop (b_last st) pre) @ take len s"
    using skipped(7) by simp
  ultimately show ?case
    using skipped(5) [OF r skipped(8)] unfolding scan_refs_eqs(3) [OF skipped(1-3)] sql_pieces_eqs(3) [OF skipped(1-3)]
    by (intro bind_result_text) (simp only:)
next
  case (ref s len ds)
  define n where "n = placeholder_number ds"
  define us1 where "us1 = (if postgres \<and> n \<in> set us then us else us @ [n])"
  define pr where "pr = \<lparr>pr_start = length pre, pr_end = length pre + len, pr_n = n\<rparr>"
  have sc: "scan_refs (length pre) s = pr # scan_refs (length pre + len) (drop len s)"
    using scan_refs_eqs(4) [OF ref(1-3)] by (simp add: pr_def n_def)
  have ps: "sql_pieces s = SRef ds # sql_pieces (drop len s)" by (rule sql_pieces_eqs(4) [OF ref(1-3)])
  have bs: "case bind_step ex q vars rendered postgres pr st of
           Inl err \<Rightarrow> param_value ex q vars n = Inl err
         | Inr st' \<Rightarrow> is_left (param_value ex q vars n) = None \<and> bound_ok ex q vars postgres st' us1 \<and> b_last st' = length pre + len \<and>
             b_out st' = b_out st @ drop (b_last st) pre @ (if postgres then ''$'' @ itoa (int (bound_index us1 n)) else ''?'')"
    unfolding us1_def by (rule bind_step_spec [OF ref(9) pr_def ref(7,8)])
  show ?case
  proof (cases "bind_step ex q vars rendered postgres pr st")
    case (Inl err)
    with bs show ?thesis unfolding sc ps by (simp add: bind_result_def is_left_def piece_refs_def n_def)
  next
    case (Inr st1)
    with bs have st1: "is_left (param_value ex q vars n) = None" "bound_ok ex q vars postgres st1 us1"
      "b_last st1 = length pre + len"
      "b_out st1 = (b_out st @ drop (b_last st) pre) @ (if postgres then ''$'' @ itoa (int (bound_index us1 n)) else ''?'')" by auto
    have r: "rendered = (pre @ take len s) @ drop len s" "b_last st1 \<le> length (pre @ take len s)"
      using ref(4,7) st1(3) by simp_all
    have l: "length (pre @ take len s) = length pre + len" using ref(4) by simp
    have d: "drop (b_last st1) (pre @ take len s) = []" using ref(4) st1(3) by simp
    have loop: "bind_loop ex q vars rendered postgres (pr # scan_refs (length pre + len) (drop len s)) st
               = bind_loop ex q vars rendered postgres (scan_refs (length pre + len) (drop len s)) st1"
      using Inr by simp
    show ?thesis unfolding sc ps loop
      using ref(6) [OF r st1(2), unfolded l d append_Nil2 st1(4)] st1(1)
      unfolding n_def us1_def by (intro bind_result_ref) simp_all
  qed
qed

lemma BuildDescribed_bound:
  "BuildDescribed g ex q rc =
     (case Compiled_Render g (q_tmpl q) (context_Vars rc) of
        Inl err \<Rightarrow> Inl (errorf (''rendering query template: '' @ err_text err) err)
      | Inr rendered \<Rightarrow>
          if contains_sub ''{{'' rendered \<or> contains_sub ''}}'' rendered
          then Inl (plain_error ''template delimiters remain in rendered query'')
          else bound_query ex q (context_Vars rc) rendered)"
proof -
  define st where "st = \<lparr>b_out = [], b_args = [], b_sources = [], b_last = 0, b_values = Map.empty, b_newIndex = Map.empty\<rparr>"
  define vars where "vars = context_Vars rc"
  define pg where "pg = (q_driver q = DriverPostgres)"
  have ok: "bound_ok ex q vars pg st []" by (simp add: bound_ok_def st_def)
  have "(case bind_loop ex q vars rendered pg (scanPlaceholders rendered) st of
           Inl err \<Rightarrow> Inl err | Inr st \<Rightarrow> Inr (b_out st @ drop (b_last st) rendered, b_args st, b_sources st))
        = bound_query ex q vars rendered" for rendered
    using bind_loop_spec [of rendered "[]" rendered st, OF _ _ ok]
    by (cases "bind_loop ex q vars rendered pg (scanPlaceholders rendered) st")
       (auto simp: scanPlaceholders_def bind_result_def bound_query_def Let_def pg_def [symmetric] st_def bound_ok_def)
  moreover have "(GetPlaceholderStyle (q_driver q) = PlaceholderDollar) = pg"
    by (simp add: GetPlaceholderStyle_def pg_def)
  ultimately show ?thesis
    unfolding BuildDescribed_def vars_def [symmetric] st_def [symmetric] Let_def
    by (simp split: sum.splits)
qed


text \<open>
  C25. Building a query is binding by meaning. The text a driver receives is the rendered text
  with each placeholder \<open>$N\<close> outside string literals, comments and dollar quotes replaced, and
  every other byte kept: by \<open>?\<close> for MySQL and SQLite, where the arguments are the values of the
  referenced parameters in the order of their occurrences; by \<open>$i\<close> for postgres, where each
  referenced parameter is bound once, in the order of first use, and \<open>i\<close> is its position among
  the arguments. The described sources name the expression of each argument. A query fails to
  build exactly on the first placeholder without a parameter or whose expression fails, on a
  failed rendering, or when template delimiters remain.
\<close>
theorem BuildDescribed_refines_spec:
  "BuildDescribed g ex q rc =
     (case Compiled_Render g (q_tmpl q) (context_Vars rc) of
        Inl err \<Rightarrow> Inl (errorf (''rendering query template: '' @ err_text err) err)
      | Inr rendered \<Rightarrow>
          if contains_sub ''{{'' rendered \<or> contains_sub ''}}'' rendered
          then Inl (plain_error ''template delimiters remain in rendered query'')
          else bound_query ex q (context_Vars rc) rendered)
   \<and> concat (map piece_text (sql_pieces sql)) = sql"
  using BuildDescribed_bound sql_pieces_text by blast


subsection \<open>What compilation guarantees\<close>

lemma inject_without_output:
  assumes "\<not> HasOutputTag src" "f \<noteq> []"
  shows "injectEscape src f = src"
proof -
  have "\<forall>kg \<in> set (scanTemplate src). fst kg \<noteq> KOutput"
    using assms(1) output_contains by (fastforce simp: HasOutputTag_def list_ex_iff)
  then have "map (rewrite_seg f) (scanTemplate src) = map id (scanTemplate src)"
    by (intro map_cong) (auto simp: rewrite_seg_def)
  then show ?thesis
    using scan_rewritten [of f "[]" src] scan_concat [of "[]" src] assms(2)
    by (simp add: injectEscape_eq scanTemplate_def)
qed

lemma compile_params_each:
  "compile_params ex i srcs = Inr ps \<Longrightarrow> list_all2 (\<lambda>src p. trim_space src \<noteq> [] \<and> ex_compile ex src = Inr p) srcs ps"
  by (induction srcs arbitrary: i ps) (auto split: if_splits sum.splits)

lemma validatePlaceholders_None:
  assumes "validatePlaceholders src n = None"
  shows "list_all (\<lambda>m. m \<le> int n) (piece_refs (sql_pieces src)) \<and> {1..int n} \<subseteq> set (piece_refs (sql_pieces src))"
proof -
  have ns: "map pr_n (scanPlaceholders src) = piece_refs (sql_pieces src)"
    by (simp add: scanPlaceholders_def scan_refs_numbers)
  have 1: "find (\<lambda>ref. pr_n ref > int n) (scanPlaceholders src) = None"
    and 2: "find (\<lambda>i. int i \<notin> set (map pr_n (scanPlaceholders src))) [1..<Suc n] = None"
    using assms by (auto simp: validatePlaceholders_def split: option.splits)
  from 1 have "list_all (\<lambda>m. m \<le> int n) (map pr_n (scanPlaceholders src))"
    by (auto simp: find_None_iff list_all_iff not_less)
  moreover have "{1..int n} \<subseteq> set (map pr_n (scanPlaceholders src))"
  proof
    fix i
    assume "i \<in> {1..int n}"
    then have "nat i \<in> set [1..<Suc n]" "int (nat i) = i" by auto
    with 2 show "i \<in> set (map pr_n (scanPlaceholders src))" unfolding find_None_iff by metis
  qed
  ultimately show ?thesis by (simp only: ns)
qed

text \<open>
  A query that compiles is closed. Its template has no output tag, so the text gonja parsed
  is the source itself and no value is ever written into the SQL; every declared parameter is a
  compiled expression and occurs in the source as a placeholder, outside literals and comments;
  and no placeholder goes past the declared parameters. This holds whatever the shared template
  engine was asked before.
\<close>
theorem sql_Compile_closed:
  assumes "fst (sql_Compile g ex (snd (Compile_history g NewEngine rs)) querySrc paramSrcs driver) = Inr q"
  shows "gj_parse g (''cnx-'' @ hashSource g querySrc) True querySrc = Inr (c_tmpl (q_tmpl q))
    \<and> list_all (\<lambda>kg. fst kg \<noteq> KOutput) (scanTemplate querySrc)
    \<and> q_paramSrcs q = paramSrcs \<and> q_driver q = driver
    \<and> list_all2 (\<lambda>src p. trim_space src \<noteq> [] \<and> ex_compile ex src = Inr p) paramSrcs (q_params q)
    \<and> list_all (\<lambda>n. n \<le> int (length paramSrcs)) (piece_refs (sql_pieces querySrc))
    \<and> {1..int (length paramSrcs)} \<subseteq> set (piece_refs (sql_pieces querySrc))"
proof -
  define e where "e = snd (Compile_history g NewEngine rs)"
  have "engine.sound g NewEngine" by (simp add: NewEngine_def engine.sound_empty)
  then have "engine.sound g e" using history_sound [of g NewEngine rs] by (simp add: e_def)
  then have ask: "fst (Engine_Compile g e querySrc TargetText True) = compile g querySrc TargetText True"
    using engine.ask_answer [of g e "(querySrc, TargetText, True)"] by (simp add: Engine_Compile_ask compile_request_def)
  have no: "\<not> HasOutputTag querySrc" using assms by (auto simp: sql_Compile_def)
  from assms no obtain tmpl e' params where c: "Engine_Compile g e querySrc TargetText True = (Inr tmpl, e')"
    "compile_params ex 0 paramSrcs = Inr params" "validatePlaceholders querySrc (length paramSrcs) = None"
    "q = \<lparr>q_tmpl = tmpl, q_params = params, q_paramSrcs = paramSrcs, q_driver = driver\<rparr>"
    by (auto simp: sql_Compile_def e_def [symmetric] split: prod.splits sum.splits option.splits)
  have "compile g querySrc TargetText True = Inr tmpl" using ask c(1) by simp
  then have "gj_parse g (''cnx-'' @ hashSource g querySrc) True querySrc = Inr (c_tmpl tmpl)"
    using inject_without_output [OF no inert_filters(2)]
    by (auto simp: compile_def Let_def split: option.splits sum.splits)
  moreover have "list_all (\<lambda>kg. fst kg \<noteq> KOutput) (scanTemplate querySrc)"
    using no output_contains by (fastforce simp: HasOutputTag_def list_ex_iff list_all_iff)
  ultimately show ?thesis
    using compile_params_each [OF c(2)] validatePlaceholders_None [OF c(3)] by (simp add: c(4))
qed

subsection \<open>Values never reach the text\<close>

text \<open>
  What gonja does with a template that has no tags but comments and raw regions: it renders the
  same text whatever the variables are.
\<close>

definition renders_static_text :: "'t gonja \<Rightarrow> bool" where
  "renders_static_text g \<longleftrightarrow>
     (\<forall>name strict txt tm vars vars'.
        list_all (\<lambda>kg. fst kg \<noteq> KOutput \<and> fst kg \<noteq> KBlock) (scanTemplate txt)
        \<longrightarrow> gj_parse g name strict txt = Inr tm \<longrightarrow> gj_execute g tm vars = gj_execute g tm vars')"

lemma bound_query_text:
  assumes "bound_query ex q vars r = Inr (sql, args, srcs)" "bound_query ex' q vars' r = Inr (sql', args', srcs')"
  shows "sql = sql' \<and> srcs = srcs' \<and> length args = length srcs \<and> length args' = length srcs"
  using assms by (auto simp: bound_query_def Let_def split: option.splits)

text \<open>
  C26. The SQL of a query without blocks does not depend on values. Let the compiler accept a
  source that has no \<open>{% %}\<close> tag outside raw regions, after whatever it compiled before, and let
  gonja render a template without output tags and blocks to a text that does not depend on the
  variables. Then two builds of the query, from any two contexts and even under two evaluations
  of the expressions, send the driver the same SQL with the same sources and the same number of
  arguments: a value can only arrive as an argument. The compiler has to refuse output tags for
  this. (A block may choose between texts by a value; this is left to the author of a query.)
\<close>
theorem sql_text_ignores_values:
  assumes "fst (sql_Compile g ex (snd (Compile_history g NewEngine rs)) querySrc paramSrcs driver) = Inr q"
    and "list_all (\<lambda>kg. fst kg \<noteq> KBlock) (scanTemplate querySrc)" "renders_static_text g"
    and "BuildDescribed g ex1 q rc1 = Inr (sql1, args1, srcs1)" "BuildDescribed g ex2 q rc2 = Inr (sql2, args2, srcs2)"
  shows "sql1 = sql2 \<and> srcs1 = srcs2 \<and> length args1 = length srcs1 \<and> length args2 = length srcs1"
proof -
  note closed = sql_Compile_closed [OF assms(1)]
  have "list_all (\<lambda>kg. fst kg \<noteq> KOutput \<and> fst kg \<noteq> KBlock) (scanTemplate querySrc)"
    using assms(2) closed by (simp add: list_all_iff)
  then have "gj_execute g (c_tmpl (q_tmpl q)) (context_Vars rc1) = gj_execute g (c_tmpl (q_tmpl q)) (context_Vars rc2)"
    using assms(3) [unfolded renders_static_text_def, rule_format, OF _ conjunct1 [OF closed]] by (simp only:)
  then have same: "Compiled_Render g (q_tmpl q) (context_Vars rc1) = Compiled_Render g (q_tmpl q) (context_Vars rc2)"
    by (simp only: Compiled_Render_def)
  obtain r where r: "Compiled_Render g (q_tmpl q) (context_Vars rc1) = Inr r"
    using assms(4) by (cases "Compiled_Render g (q_tmpl q) (context_Vars rc1)") (simp_all add: BuildDescribed_def)
  have "bound_query ex1 q (context_Vars rc1) r = Inr (sql1, args1, srcs1)"
    using assms(4) r BuildDescribed_bound [of g ex1 q rc1] by (simp split: if_splits)
  moreover have "bound_query ex2 q (context_Vars rc2) r = Inr (sql2, args2, srcs2)"
    using assms(5) r [unfolded same] BuildDescribed_bound [of g ex2 q rc2] by (simp split: if_splits)
  ultimately show ?thesis by (rule bound_query_text)
qed

subsection \<open>Concrete queries\<close>

definition demo_expr :: "string expr_engine" where
  "demo_expr = \<lparr>ex_compile = Inr, ex_run = \<lambda>p vars. Inr (GStr p), ex_identifiers = \<lambda>src. Some [src]\<rparr>"

definition demo_query :: "string \<Rightarrow> string list \<Rightarrow> string \<Rightarrow> (string, string) Query" where
  "demo_query src params driver =
     \<lparr>q_tmpl = \<lparr>c_tmpl = src, c_source = src, c_target = TargetText\<rparr>, q_params = params, q_paramSrcs = params, q_driver = driver\<rparr>"

definition demo_context :: value_context where
  "demo_context = \<lparr>vc_Record = Map.empty, vc_Meta = Map.empty, vc_State = Map.empty, vc_Pagination = Map.empty, vc_Extra = Map.empty\<rparr>"

definition demo_sql :: string where
  "demo_sql = ''$2 '' @ [squote] @ ''$1'' @ [squote] @ '' $1 $2''"

lemma demo_pieces: "sql_pieces demo_sql = [SRef ''2'', SText '' '', SText ([squote] @ ''$1'' @ [squote]), SText '' '', SRef ''1'', SText '' '', SRef ''2'']"
  by (simp add: demo_sql_def sql_pieces.simps sqlToken_def is_digit_def)


definition demo_expr_other :: "string expr_engine" where
  "demo_expr_other = demo_expr\<lparr>ex_run := \<lambda>p vars. Inr (GStr (squote # '' or 1=1''))\<rparr>"

lemma demo_render: "Compiled_Render demo_gonja (q_tmpl (demo_query src ps d)) vars = Inr src"
  by (simp add: Compiled_Render_def demo_gonja_def demo_query_def)

lemma demo_sql_builds:
  "BuildDescribed demo_gonja demo_expr (demo_query demo_sql [''a'', ''b''] DriverPostgres) demo_context
     = Inr (''$1 '' @ [squote] @ ''$1'' @ [squote] @ '' $2 $1'', [GStr ''b'', GStr ''a''], [''b'', ''a''])"
  "BuildDescribed demo_gonja demo_expr_other (demo_query demo_sql [''a'', ''b''] DriverPostgres) demo_context
     = Inr (''$1 '' @ [squote] @ ''$1'' @ [squote] @ '' $2 $1'',
            [GStr (squote # '' or 1=1''), GStr (squote # '' or 1=1'')], [''b'', ''a''])"
  "BuildDescribed demo_gonja demo_expr (demo_query demo_sql [''a'', ''b''] DriverMySQL) demo_context
     = Inr (''? '' @ [squote] @ ''$1'' @ [squote] @ '' ? ?'', [GStr ''b'', GStr ''a'', GStr ''b''], [''b'', ''a'', ''b''])"
proof -
  have n: "placeholder_number ''1'' = 1" "placeholder_number ''2'' = 2"
    by (simp_all add: placeholder_number_def digits_value_def int64_max_def)
  have d: "contains_sub ''{{'' demo_sql = False" "contains_sub ''}}'' demo_sql = False" by code_simp+
  have i: "itoa (int (Suc 0)) = ''1''" "itoa (int (Suc (Suc 0))) = ''2''" by code_simp+
  have dd: "(DriverMySQL = DriverPostgres) = False" by (simp add: DriverMySQL_def DriverPostgres_def)
  note b = BuildDescribed_bound demo_render sum.case d bound_query_def demo_pieces piece_refs_def Let_def
    param_value_def is_left_def n demo_query_def demo_expr_def demo_expr_other_def show_piece_def bound_index_def the_right_def
  show "BuildDescribed demo_gonja demo_expr (demo_query demo_sql [''a'', ''b''] DriverPostgres) demo_context
     = Inr (''$1 '' @ [squote] @ ''$1'' @ [squote] @ '' $2 $1'', [GStr ''b'', GStr ''a''], [''b'', ''a''])"
    by (simp add: BuildDescribed_bound demo_render d) (simp add: b i [simplified])
  show "BuildDescribed demo_gonja demo_expr_other (demo_query demo_sql [''a'', ''b''] DriverPostgres) demo_context
     = Inr (''$1 '' @ [squote] @ ''$1'' @ [squote] @ '' $2 $1'',
            [GStr (squote # '' or 1=1''), GStr (squote # '' or 1=1'')], [''b'', ''a''])"
    by (simp add: BuildDescribed_bound demo_render d) (simp add: b i [simplified])
  show "BuildDescribed demo_gonja demo_expr (demo_query demo_sql [''a'', ''b''] DriverMySQL) demo_context
     = Inr (''? '' @ [squote] @ ''$1'' @ [squote] @ '' ? ?'', [GStr ''b'', GStr ''a'', GStr ''b''], [''b'', ''a'', ''b''])"
    by (simp add: BuildDescribed_bound demo_render d) (simp add: b dd)
qed

lemma demo_sql_compiles:
  "fst (sql_Compile demo_gonja demo_expr (snd (Compile_history demo_gonja NewEngine [])) demo_sql [''a'', ''b''] DriverPostgres)
     = Inr (demo_query demo_sql [''a'', ''b''] DriverPostgres)"
proof -
  have d: "contains_sub ''{{'' demo_sql = False" "contains_sub ''{%'' demo_sql = False" by code_simp+
  have g: "graphic CHR ''a''" "graphic CHR ''b''" by (simp_all add: graphic_def)
  have t: "trim_space ''a'' = ''a''" "trim_space ''b'' = ''b''"
    by (simp_all add: trim_space_def trim_left_graphic [OF graphic_spaces(1)] trim_left_graphic [OF graphic_spaces(2)] g)
  have "compile demo_gonja demo_sql TargetText True = Inr \<lparr>c_tmpl = demo_sql, c_source = demo_sql, c_target = TargetText\<rparr>"
    by (simp add: compile_def checkBlocks_def d injectEscape_def demo_gonja_def Let_def)
  then have "Engine_Compile demo_gonja NewEngine demo_sql TargetText True
      = (Inr \<lparr>c_tmpl = demo_sql, c_source = demo_sql, c_target = TargetText\<rparr>,
         [template_cacheKey demo_sql TargetText True \<mapsto> Inr \<lparr>c_tmpl = demo_sql, c_source = demo_sql, c_target = TargetText\<rparr>])"
    by (simp add: Engine_Compile_def NewEngine_def Let_def)
  moreover have "validatePlaceholders demo_sql 2 = None"
  proof -
    have "map pr_n (scanPlaceholders demo_sql) = [2, 1, 2]"
      by (simp add: scanPlaceholders_def scan_refs_numbers demo_pieces piece_refs_def placeholder_number_def digits_value_def int64_max_def)
    moreover from this have "find (\<lambda>ref. pr_n ref > int 2) (scanPlaceholders demo_sql) = None"
      by (auto simp: find_None_iff map_eq_Cons_conv)
    ultimately show ?thesis by (simp add: validatePlaceholders_def upt_rec numeral_2_eq_2)
  qed
  ultimately show ?thesis
    by (simp add: sql_Compile_def HasOutputTag_def d t demo_expr_def demo_query_def numeral_2_eq_2)
qed

lemma demo_renders_static: "renders_static_text demo_gonja"
  by (simp add: renders_static_text_def demo_gonja_def)

text \<open>The same query, built with the parameters \<open>a\<close> and \<open>b\<close> and with a hostile value for each.\<close>

theorem sql_text_ignores_values_witness:
  "\<exists>sql args1 args2 srcs.
     BuildDescribed demo_gonja demo_expr (demo_query demo_sql [''a'', ''b''] DriverPostgres) demo_context = Inr (sql, args1, srcs)
   \<and> BuildDescribed demo_gonja demo_expr_other (demo_query demo_sql [''a'', ''b''] DriverPostgres) demo_context = Inr (sql, args2, srcs)
   \<and> args1 \<noteq> args2 \<and> length args1 = length srcs \<and> length args2 = length srcs"
proof -
  have t: "list_all (\<lambda>kg. fst kg \<noteq> KBlock) (scanTemplate demo_sql)" by code_simp
  note same = sql_text_ignores_values [OF demo_sql_compiles t demo_renders_static demo_sql_builds(1,2)]
  show ?thesis by (intro exI conjI, rule demo_sql_builds(1), rule demo_sql_builds(2)) (use same in simp_all)
qed

theorem sql_Compile_closed_witness:
  "gj_parse demo_gonja (''cnx-'' @ hashSource demo_gonja demo_sql) True demo_sql = Inr demo_sql
   \<and> {1..int (length [''a'', ''b''])} \<subseteq> set (piece_refs (sql_pieces demo_sql))"
  using sql_Compile_closed [OF demo_sql_compiles] by (simp add: demo_query_def)

text \<open>
  What modelling showed. \<open>$0\<close> compiles and never builds. A text that holds \<open>}}\<close> inside a string
  literal compiles, and every build of it is refused. The scanner follows the lexical rules of
  PostgreSQL for every driver: in MySQL \<open>5--$1\<close> is a subtraction and the double quote opens a
  string, yet the first placeholder is not seen and the second one is replaced.
\<close>

lemma zero_placeholder_compiles:
  "validatePlaceholders ''$0'' 0 = None"
  "bound_query ex (demo_query ''$0'' [] d) vars ''$0'' = Inl (range_error (demo_query ''$0'' [] d) 0)"
proof -
  have p: "sql_pieces ''$0'' = [SRef ''0'']" by (simp add: sql_pieces.simps sqlToken_def is_digit_def)
  have n: "placeholder_number ''0'' = 0" by (simp add: placeholder_number_def digits_value_def int64_max_def)
  have "map pr_n (scanPlaceholders ''$0'') = [0]"
    by (simp add: scanPlaceholders_def scan_refs_numbers p n piece_refs_def)
  then show "validatePlaceholders ''$0'' 0 = None"
    by (auto simp: validatePlaceholders_def find_None_iff map_eq_Cons_conv split: option.splits)
  show "bound_query ex (demo_query ''$0'' [] d) vars ''$0'' = Inl (range_error (demo_query ''$0'' [] d) 0)"
    by (simp add: bound_query_def p n piece_refs_def param_value_def is_left_def)
qed

lemma literal_braces_never_build:
  "HasOutputTag (squote # ''{\"a\":{}}'' @ [squote]) = False"
  "BuildDescribed demo_gonja ex (demo_query (squote # ''{\"a\":{}}'' @ [squote]) [] d) rc
     = Inl (plain_error ''template delimiters remain in rendered query'')"
proof -
  show "HasOutputTag (squote # ''{\"a\":{}}'' @ [squote]) = False" by code_simp
  have "contains_sub ''}}'' (squote # ''{\"a\":{}}'' @ [squote]) = True" by code_simp
  then show "BuildDescribed demo_gonja ex (demo_query (squote # ''{\"a\":{}}'' @ [squote]) [] d) rc
     = Inl (plain_error ''template delimiters remain in rendered query'')"
    unfolding BuildDescribed_bound demo_render by simp
qed

lemma scanner_ignores_driver:
  "piece_refs (sql_pieces ''5--$1'') = []"
  "piece_refs (sql_pieces (dquote # ''$1'' @ [dquote])) = [1]"
  by (simp_all add: sql_pieces.simps sqlToken_def is_digit_def piece_refs_def placeholder_number_def digits_value_def int64_max_def)

end
