(* ===== verification/Database.thy ===== *)
theory Database
  imports SqlTemplate
begin

text \<open>
  The database helpers (\<open>internal/database/database.go\<close>, \<open>errors.go\<close>) and the check of file
  paths (\<open>internal/pathutil\<close>): the resolution of a connection and its driver, the masking of
  connection strings, the opening of a pool, and the classification of driver errors with the
  verdict the runtime takes from it. The environment, \<open>url.Parse\<close> and the driver are parameters;
  the regular expressions of the code are written out.
\<close>

subsection \<open>Configuration\<close>

datatype db_error = ErrMissingConnectionString | ErrUnsupportedDriver string | ErrConnectionFailed bool gerr

record Config =
  dc_ConnectionString :: string
  dc_ConnectionStringRef :: string
  dc_Driver :: string
  dc_MaxOpenConns :: int
  dc_MaxIdleConns :: int
  dc_ConnMaxLifetime :: int
  dc_ConnMaxIdleTime :: int
  dc_ConnectTimeout :: int

record Resolved =
  rs_ConnString :: string
  rs_Driver :: string

definition ResolveEnvRef :: "(string \<Rightarrow> string) \<Rightarrow> string \<Rightarrow> string" where
  "ResolveEnvRef getenv ref =
     (if \<not> prefix ''${'' ref \<or> \<not> suffix ''}'' ref then []
      else getenv (take (length ref - 3) (drop 2 ref)))"

definition ResolveConnectionString :: "(string \<Rightarrow> string) \<Rightarrow> string \<Rightarrow> string \<Rightarrow> db_error + string" where
  "ResolveConnectionString getenv connString connStringRef =
     (let resolved = (if connStringRef \<noteq> [] then ResolveEnvRef getenv connStringRef else [])
      in if connStringRef \<noteq> [] \<and> resolved \<noteq> [] then Inr resolved
         else if connString \<noteq> [] then Inr connString
         else Inl ErrMissingConnectionString)"

text \<open>The regular expression \<open>^[^:]+:[^@]+@[^/]+/\<close>; its classes leave no choice.\<close>

definition mysql_dsn :: "string \<Rightarrow> bool" where
  "mysql_dsn s =
     (let a = takeWhile (\<lambda>c. c \<noteq> CHR '':'') s;
          s1 = drop (Suc (length a)) s;
          b = takeWhile (\<lambda>c. c \<noteq> CHR ''@'') s1;
          s2 = drop (Suc (length b)) s1;
          c = takeWhile (\<lambda>c. c \<noteq> CHR ''/'') s2
      in a \<noteq> [] \<and> CHR '':'' \<in> set s \<and> b \<noteq> [] \<and> CHR ''@'' \<in> set s1 \<and> c \<noteq> [] \<and> CHR ''/'' \<in> set s2)"

definition DetectDriver :: "string \<Rightarrow> db_error + string" where
  "DetectDriver connString =
     (let l = to_lower connString
      in if prefix ''postgres://'' l \<or> prefix ''postgresql://'' l then Inr DriverPostgres
         else if prefix ''file:'' l \<or> suffix ''.db'' l \<or> suffix ''.sqlite'' l then Inr DriverSQLite
         else if contains_sub ''@tcp('' l \<or> contains_sub ''@unix('' l then Inr DriverMySQL
         else if mysql_dsn connString then Inr DriverMySQL
         else Inl (ErrUnsupportedDriver ''cannot detect driver from connection string''))"

definition IsDriverSupported :: "string \<Rightarrow> bool" where
  "IsDriverSupported driver \<longleftrightarrow> driver \<in> {DriverPostgres, DriverMySQL, DriverSQLite}"

definition GetDriverName :: "string \<Rightarrow> string" where
  "GetDriverName driver =
     (if driver = DriverPostgres then ''pgx''
      else if driver = DriverMySQL then ''mysql''
      else if driver = DriverSQLite then ''sqlite''
      else driver)"

definition Resolve :: "(string \<Rightarrow> string) \<Rightarrow> Config \<Rightarrow> db_error + Resolved" where
  "Resolve getenv cfg =
     (case ResolveConnectionString getenv (dc_ConnectionString cfg) (dc_ConnectionStringRef cfg) of
        Inl err \<Rightarrow> Inl err
      | Inr connString \<Rightarrow>
          (case (if dc_Driver cfg = [] then DetectDriver connString else Inr (dc_Driver cfg)) of
             Inl err \<Rightarrow> Inl err
           | Inr driver \<Rightarrow>
               if \<not> IsDriverSupported driver then Inl (ErrUnsupportedDriver driver)
               else Inr \<lparr>rs_ConnString = connString, rs_Driver = driver\<rparr>))"

subsection \<open>Opening a pool\<close>

text \<open>Durations are in nanoseconds.\<close>

definition DefaultMaxOpenConns :: int where "DefaultMaxOpenConns = 10"
definition DefaultMaxIdleConns :: int where "DefaultMaxIdleConns = 5"
definition DefaultConnMaxLifetime :: int where "DefaultConnMaxLifetime = 30 * 60 * 10 ^ 9"
definition DefaultConnMaxIdleTime :: int where "DefaultConnMaxIdleTime = 5 * 60 * 10 ^ 9"
definition DefaultConnectTimeout :: int where "DefaultConnectTimeout = 10 * 10 ^ 9"

record pool_config =
  pl_MaxOpen :: int
  pl_MaxIdle :: int
  pl_MaxLifetime :: int
  pl_MaxIdleTime :: int

text \<open>What the code calls on a driver: open, set the limits, ping within a timeout, close.\<close>

record 'h sql_driver =
  sd_open :: "string \<Rightarrow> string \<Rightarrow> 'h \<Rightarrow> gerr option \<times> 'h"
  sd_limits :: "pool_config \<Rightarrow> 'h \<Rightarrow> 'h"
  sd_ping :: "int \<Rightarrow> 'h \<Rightarrow> gerr option \<times> 'h"
  sd_close :: "'h \<Rightarrow> gerr option \<times> 'h"

definition applyPoolConfig :: "Config \<Rightarrow> pool_config" where
  "applyPoolConfig cfg =
     \<lparr>pl_MaxOpen = (if dc_MaxOpenConns cfg \<le> 0 then DefaultMaxOpenConns else dc_MaxOpenConns cfg),
      pl_MaxIdle = (if dc_MaxIdleConns cfg \<le> 0 then DefaultMaxIdleConns else dc_MaxIdleConns cfg),
      pl_MaxLifetime = (if dc_ConnMaxLifetime cfg \<le> 0 then DefaultConnMaxLifetime else dc_ConnMaxLifetime cfg),
      pl_MaxIdleTime = (if dc_ConnMaxIdleTime cfg \<le> 0 then DefaultConnMaxIdleTime else dc_ConnMaxIdleTime cfg)\<rparr>"

definition OpenResolved :: "'h sql_driver \<Rightarrow> Config \<Rightarrow> Resolved \<Rightarrow> 'h \<Rightarrow> db_error option \<times> 'h" where
  "OpenResolved drv cfg resolved h =
     (case sd_open drv (GetDriverName (rs_Driver resolved)) (rs_ConnString resolved) h of
        (Some err, h) \<Rightarrow> (Some (ErrConnectionFailed False err), h)
      | (None, h) \<Rightarrow>
          (let h = sd_limits drv (applyPoolConfig cfg) h;
               timeout = (if dc_ConnectTimeout cfg \<le> 0 then DefaultConnectTimeout else dc_ConnectTimeout cfg)
           in (case sd_ping drv timeout h of
                 (Some err, h) \<Rightarrow> (Some (ErrConnectionFailed True err), snd (sd_close drv h))
               | (None, h) \<Rightarrow> (None, h))))"

definition Open :: "(string \<Rightarrow> string) \<Rightarrow> 'h sql_driver \<Rightarrow> Config \<Rightarrow> 'h \<Rightarrow> (db_error + string) \<times> 'h" where
  "Open getenv drv cfg h =
     (case Resolve getenv cfg of
        Inl err \<Rightarrow> (Inl err, h)
      | Inr resolved \<Rightarrow>
          (case OpenResolved drv cfg resolved h of
             (Some err, h) \<Rightarrow> (Inl err, h)
           | (None, h) \<Rightarrow> (Inr (rs_Driver resolved), h)))"

subsection \<open>Masking\<close>

text \<open>
  What the masking asks of a parsed connection URL: its user with the password, if any, and its
  text with another password.
\<close>

record conn_url =
  cu_User :: "(string \<times> string option) option"
  cu_String :: "string \<Rightarrow> string \<Rightarrow> string"

definition redactedPlaceholder :: string where
  "redactedPlaceholder = ''[REDACTED]''"

text \<open>\<open>^([^:]+):([^@]+)@\<close> with the second group replaced.\<close>

definition mysqlDSNPassword :: "string \<Rightarrow> string" where
  "mysqlDSNPassword s =
     (let a = takeWhile (\<lambda>c. c \<noteq> CHR '':'') s;
          s1 = drop (Suc (length a)) s;
          b = takeWhile (\<lambda>c. c \<noteq> CHR ''@'') s1
      in if a \<noteq> [] \<and> CHR '':'' \<in> set s \<and> b \<noteq> [] \<and> CHR ''@'' \<in> set s1
         then a @ '':'' @ redactedPlaceholder @ drop (length b) s1
         else s)"

text \<open>One key of \<open>dsnSecretKeyValue\<close>, case-insensitive with the Unicode folds of \<open>s\<close> and \<open>k\<close>.\<close>

fun match_key :: "string \<Rightarrow> string \<Rightarrow> string option" where
  "match_key [] s = Some s"
| "match_key (k # ks) s =
     (if s \<noteq> [] \<and> ascii_lower (hd s) = k then match_key ks (tl s)
      else if k = CHR ''s'' \<and> prefix (bytes [0xC5, 0xBF]) s then match_key ks (drop 2 s)
      else if k = CHR ''k'' \<and> prefix (bytes [0xE2, 0x84, 0xAA]) s then match_key ks (drop 3 s)
      else None)"

definition secret_keys :: "string list" where
  "secret_keys = [''password'', ''passwd'', ''pwd'', ''_pragma_key'', ''_auth_pass'', ''_auth_crypt'']"

definition secret_value_end :: "string \<Rightarrow> nat" where
  "secret_value_end s =
     (let quoted = (\<lambda>q. if s \<noteq> [] \<and> hd s = q then map_option (\<lambda>i. i + 2) (index_of q (tl s)) else None)
      in (case quoted squote of
            Some n \<Rightarrow> n
          | None \<Rightarrow>
              (case quoted dquote of
                 Some n \<Rightarrow> n
               | None \<Rightarrow> length (takeWhile (\<lambda>c. c \<notin> {CHR '' '', tab_char, newline, CHR 0x0C, CHR 0x0D, CHR ''&'', CHR '';''}) s))))"

text \<open>A match at the start of \<open>s\<close>: the length of key and equals sign, and of the whole match.\<close>

definition dsnSecretKeyValue :: "string \<Rightarrow> (nat \<times> nat) option" where
  "dsnSecretKeyValue s =
     first_some (\<lambda>key. case match_key key s of
         Some (c # rest) \<Rightarrow>
           if c = CHR ''='' then Some (length s - length rest, length s - length rest + secret_value_end rest) else None
       | _ \<Rightarrow> None) secret_keys"

definition word_byte :: "char \<Rightarrow> bool" where
  "word_byte c \<longleftrightarrow> (let n = (of_char c :: nat) in 48 \<le> n \<and> n \<le> 57 \<or> 65 \<le> n \<and> n \<le> 90 \<or> 97 \<le> n \<and> n \<le> 122 \<or> n = 95)"

function redact_secrets :: "bool \<Rightarrow> string \<Rightarrow> string" where
  "redact_secrets after_word s =
     (if s = [] then []
      else (case (if after_word then None else dsnSecretKeyValue s) of
              Some (k, n) \<Rightarrow>
                take k s @ redactedPlaceholder
                  @ redact_secrets (word_byte (s ! (max 1 n - 1))) (drop (max 1 n) s)
            | None \<Rightarrow> hd s # redact_secrets (word_byte (hd s)) (tl s)))"
  by pat_completeness auto
termination
  by (relation "measure (\<lambda>(_, s). length s)") auto

declare redact_secrets.simps [simp del]

definition SanitizeConnectionString :: "(string \<Rightarrow> conn_url option) \<Rightarrow> string \<Rightarrow> string" where
  "SanitizeConnectionString parse connString =
     (case Option.bind (parse connString) (\<lambda>u. map_option (Pair u) (cu_User u)) of
        Some (u, (user, password)) \<Rightarrow>
          redact_secrets False
            (case password of
               Some _ \<Rightarrow> replace_first ''%5BREDACTED%5D'' redactedPlaceholder (cu_String u user redactedPlaceholder)
             | None \<Rightarrow> connString)
      | None \<Rightarrow> redact_secrets False (mysqlDSNPassword connString))"

subsection \<open>Classification of driver errors\<close>

definition CategoryConnection :: string where "CategoryConnection = ''connection''"
definition CategoryQuery :: string where "CategoryQuery = ''query''"
definition CategoryConstraint :: string where "CategoryConstraint = ''constraint''"
definition CategoryTimeout :: string where "CategoryTimeout = ''timeout''"

record DatabaseError =
  de_Category :: string
  de_Operation :: string
  de_Message :: string
  de_Query :: string
  de_ParamCount :: int
  de_OriginalErr :: gerr
  de_Retryable :: bool

definition DatabaseError_Error :: "DatabaseError \<Rightarrow> string" where
  "DatabaseError_Error e =
     (if de_Query e \<noteq> [] then ''database '' @ de_Category e @ '' error in '' @ de_Operation e @ '': '' @ de_Message e
      else ''database '' @ de_Category e @ '' error: '' @ de_Message e)
     @ '' (original: '' @ err_text (de_OriginalErr e) @ '')''"

definition DatabaseError_Classify :: "DatabaseError \<Rightarrow> classified" where
  "DatabaseError_Classify e =
     Classified
       (if de_Category e = CategoryConnection \<or> de_Category e = CategoryTimeout then CategoryNetwork
        else if de_Category e = CategoryConstraint then CategoryValidation
        else if de_Category e = CategoryQuery then (if de_Retryable e then CategoryServer else CategoryValidation)
        else CategoryUnknown)
       (de_Retryable e) 0 (de_Message e) (Some (de_OriginalErr e))"

text \<open>A database error as an error value: its \<open>Classify\<close> method, and the driver error it wraps.\<close>

definition database_gerr :: "DatabaseError \<Rightarrow> gerr" where
  "database_gerr e =
     NodeE KPlain (DatabaseError_Error e) None None (Some (Some (DatabaseError_Classify e))) [de_OriginalErr e] False"

definition NewDatabaseError :: "string \<Rightarrow> string \<Rightarrow> string \<Rightarrow> gerr \<Rightarrow> bool \<Rightarrow> DatabaseError" where
  "NewDatabaseError category operation message orig retryable =
     \<lparr>de_Category = category, de_Operation = operation, de_Message = message, de_Query = [], de_ParamCount = 0,
      de_OriginalErr = orig, de_Retryable = retryable\<rparr>"

definition NewConnectionError :: "string \<Rightarrow> gerr \<Rightarrow> DatabaseError" where
  "NewConnectionError message orig = NewDatabaseError CategoryConnection ''connect'' message orig True"

definition sanitizeQuery :: "string \<Rightarrow> string" where
  "sanitizeQuery query =
     (if query = [] then [] else if length query > 500 then take 500 query @ ''... (truncated)'' else query)"

definition NewQueryError :: "string \<Rightarrow> string \<Rightarrow> string \<Rightarrow> int \<Rightarrow> gerr \<Rightarrow> bool \<Rightarrow> DatabaseError" where
  "NewQueryError operation message query paramCount orig retryable =
     \<lparr>de_Category = CategoryQuery, de_Operation = operation, de_Message = message, de_Query = sanitizeQuery query,
      de_ParamCount = paramCount, de_OriginalErr = orig, de_Retryable = retryable\<rparr>"

definition NewConstraintError :: "string \<Rightarrow> string \<Rightarrow> gerr \<Rightarrow> DatabaseError" where
  "NewConstraintError operation message orig = NewDatabaseError CategoryConstraint operation message orig False"

definition NewTimeoutError :: "string \<Rightarrow> string \<Rightarrow> gerr \<Rightarrow> DatabaseError" where
  "NewTimeoutError operation message orig = NewDatabaseError CategoryTimeout operation message orig True"

definition has_any :: "string list \<Rightarrow> string \<Rightarrow> bool" where
  "has_any indicators msg = list_ex (\<lambda>i. contains_sub i msg) indicators"

definition isTimeoutError :: "string \<Rightarrow> bool" where
  "isTimeoutError = has_any
     [''timeout'', ''timed out'', ''deadline exceeded'', ''context deadline'', ''connection timeout'', ''query timeout'']"

definition isConnectionError :: "string \<Rightarrow> bool" where
  "isConnectionError = has_any
     [''connection refused'', ''connection reset'', ''no such host'', ''network is unreachable'', ''connection closed'',
      ''broken pipe'', ''bad connection'', ''invalid connection'', ''unexpected eof'', ''server closed'', ''dial tcp'',
      ''connect: '', ''cannot assign requested address'', ''too many open files'']"

definition isConstraintError :: "string \<Rightarrow> string \<Rightarrow> bool" where
  "isConstraintError msg driver =
     (has_any [''unique constraint'', ''duplicate key'', ''duplicate entry'', ''violates unique'', ''violates foreign key'',
        ''foreign key constraint'', ''violates check constraint'', ''violates not-null'', ''cannot be null'',
        ''integrity constraint'', ''constraint violation''] msg
      \<or> (driver = DriverPostgres \<and> has_any [''23000'', ''23001'', ''23502'', ''23503'', ''23505'', ''23514'', ''23p01''] msg)
      \<or> (driver = DriverMySQL \<and> has_any [''1062'', ''1216'', ''1217'', ''1451'', ''1452''] msg))"

definition isDeadlockError :: "string \<Rightarrow> string \<Rightarrow> bool" where
  "isDeadlockError msg driver =
     (has_any [''deadlock'', ''lock wait timeout'', ''serialization failure'', ''could not serialize''] msg
      \<or> (driver = DriverPostgres \<and> has_any [''40001'', ''40p01''] msg)
      \<or> (driver = DriverMySQL \<and> has_any [''1213''] msg))"

definition isSyntaxError :: "string \<Rightarrow> string \<Rightarrow> bool" where
  "isSyntaxError msg driver =
     (has_any [''syntax error'', ''parse error'', ''near '' @ [dquote], ''at or near''] msg
      \<or> (driver = DriverPostgres \<and> has_any [''42601''] msg)
      \<or> (driver = DriverMySQL \<and> has_any [''1064''] msg))"

definition extractConstraintMessage :: "string \<Rightarrow> string" where
  "extractConstraintMessage msg =
     (if has_any [''unique'', ''duplicate''] msg then ''unique constraint violation: duplicate value exists''
      else if has_any [''foreign key''] msg then ''foreign key constraint violation: referenced record not found or still referenced''
      else if has_any [''not-null'', ''cannot be null''] msg then ''not-null constraint violation: required field is null''
      else if has_any [''check constraint''] msg then ''check constraint violation: value does not meet requirements''
      else ''constraint violation'')"

definition ClassifyDatabaseError :: "gerr \<Rightarrow> string \<Rightarrow> string \<Rightarrow> string \<Rightarrow> int \<Rightarrow> DatabaseError" where
  "ClassifyDatabaseError err driver operation query paramCount =
     (let errMsg = err_text err; l = to_lower errMsg
      in if isTimeoutError l then NewTimeoutError operation ''operation timed out'' err
         else if isConnectionError l then NewConnectionError ''connection failed or lost'' err
         else if isConstraintError l driver then NewConstraintError operation (extractConstraintMessage l) err
         else if isDeadlockError l driver then NewQueryError operation ''deadlock detected'' query paramCount err True
         else if isSyntaxError l driver then NewQueryError operation ''SQL syntax error'' query paramCount err False
         else NewQueryError operation errMsg query paramCount err False)"

subsection \<open>File paths\<close>

definition ValidateFilePath :: "string \<Rightarrow> gerr option" where
  "ValidateFilePath path =
     (if path = [] then Some (plain_error ''file path cannot be empty'')
      else if CHR 0x00 \<in> set path then Some (plain_error ''file path contains invalid characters'')
      else if ''..'' \<in> set (split_on CHR ''/'' path) \<or> prefix ''../'' path \<or> path = ''..''
      then Some (plain_error (''file path contains path traversal: \"'' @ path @ ''\"''))
      else None)"

subsection \<open>The verdict on a driver error\<close>

lemma explicit_database:
  assumes "as_classified (de_OriginalErr e) = None"
  shows "explicitClassification (database_gerr e) = Some (DatabaseError_Classify e)"
proof -
  have "as_classified (database_gerr e) = None"
    using assms by (simp add: as_classified_def database_gerr_def)
  moreover have "classifyFromChain (database_gerr e) = Some (DatabaseError_Classify e)"
    by (subst classifyFromChain.simps) (simp add: as_classifiable_def database_gerr_def)
  ultimately show ?thesis by (simp add: explicitClassification_def)
qed

lemma category_names [simp]:
  "CategoryConnection \<noteq> CategoryQuery" "CategoryTimeout \<noteq> CategoryQuery" "CategoryConstraint \<noteq> CategoryQuery"
  "CategoryConstraint \<noteq> CategoryConnection" "CategoryConstraint \<noteq> CategoryTimeout"
  "CategoryQuery \<noteq> CategoryConnection" "CategoryQuery \<noteq> CategoryTimeout" "CategoryQuery \<noteq> CategoryConstraint"
  by (simp_all add: CategoryConnection_def CategoryQuery_def CategoryConstraint_def CategoryTimeout_def)

lemma wraps_explicit:
  "explicitClassification (foldr wrap_err msgs e) = explicitClassification e"
proof -
  have "as_classified (foldr wrap_err msgs e) = as_classified e" by (induction msgs) (simp_all add: as_classified_def)
  moreover have "classifyFromChain (foldr wrap_err msgs e) = classifyFromChain e"
    by (induction msgs) (simp_all add: classifyFromChain_first)
  ultimately show ?thesis by (simp only: explicitClassification_def)
qed

text \<open>
  C27. One verdict on a driver error, for a driver error that is not a classified error already.
  However many layers of wrapping the runtime puts around it, a classified database error keeps
  the decision of \<open>ClassifyDatabaseError\<close>, which reads the text of the driver's message: it can be
  retried exactly when the text looks like a timeout or a lost connection or, not like a constraint
  violation, like a deadlock. A verdict is fatal exactly when it cannot be retried, and then its
  category is validation: the two questions the runtime asks of an error never contradict each
  other. (The text includes what the database quotes in it, see \<open>quoted_value_decides\<close>.)
\<close>
theorem database_error_verdict:
  fixes err :: gerr and driver operation query :: string and msgs :: "string list" and n :: int
  assumes "as_classified err = None"
  defines "l \<equiv> to_lower (err_text err)"
  defines "e \<equiv> foldr wrap_err msgs (database_gerr (ClassifyDatabaseError err driver operation query n))"
  shows "Retryable (ClassifyError env (Some e)) =
           (isTimeoutError l \<or> isConnectionError l \<or> \<not> isConstraintError l driver \<and> isDeadlockError l driver)
    \<and> IsFatal (Some e) = (\<not> Retryable (ClassifyError env (Some e)))
    \<and> (Category (ClassifyError env (Some e)) = CategoryValidation) = IsFatal (Some e)"
proof -
  define d where "d = ClassifyDatabaseError err driver operation query n"
  have o: "de_OriginalErr d = err"
    by (simp add: d_def ClassifyDatabaseError_def Let_def NewTimeoutError_def NewConnectionError_def NewConstraintError_def
        NewQueryError_def NewDatabaseError_def)
  have x: "explicitClassification e = Some (DatabaseError_Classify d)"
    using explicit_database [of d] assms(1) by (simp add: e_def d_def o [unfolded d_def] wraps_explicit)
  have r: "de_Retryable d = (isTimeoutError l \<or> isConnectionError l \<or> \<not> isConstraintError l driver \<and> isDeadlockError l driver)"
    by (simp add: d_def l_def ClassifyDatabaseError_def Let_def NewTimeoutError_def NewConnectionError_def
        NewConstraintError_def NewQueryError_def NewDatabaseError_def)
  have c: "Category (DatabaseError_Classify d) = (if de_Retryable d then
             (if de_Category d = CategoryQuery then CategoryServer else CategoryNetwork) else CategoryValidation)"
    by (simp add: d_def ClassifyDatabaseError_def Let_def DatabaseError_Classify_def NewTimeoutError_def NewConnectionError_def
        NewConstraintError_def NewQueryError_def NewDatabaseError_def)
  have "Retryable (DatabaseError_Classify d) = de_Retryable d" by (simp add: DatabaseError_Classify_def)
  with x r c show ?thesis by (simp add: ClassifyError_def IsFatal_def GetErrorCategory_def)
qed

theorem database_error_verdict_witness:
  "(\<forall>env. Retryable (ClassifyError env (Some (foldr wrap_err [''run'', ''send''] (database_gerr
       (ClassifyDatabaseError (plain_error ''i/o timeout'') DriverPostgres ''select'' ''select 1'' 0))))))
   \<and> \<not> IsFatal (Some (foldr wrap_err [''run'', ''send''] (database_gerr
       (ClassifyDatabaseError (plain_error ''i/o timeout'') DriverPostgres ''select'' ''select 1'' 0))))"
proof -
  have plain: "as_classified (plain_error ''i/o timeout'') = None" by (simp add: as_classified_def plain_error_def)
  have timeout: "isTimeoutError (to_lower (err_text (plain_error ''i/o timeout'')))" by code_simp
  define e where "e = foldr wrap_err [''run'', ''send''] (database_gerr
      (ClassifyDatabaseError (plain_error ''i/o timeout'') DriverPostgres ''select'' ''select 1'' 0))"
  have "Retryable (ClassifyError env (Some e)) \<and> \<not> IsFatal (Some e)" for env
    using database_error_verdict [OF plain, of env "[''run'', ''send'']" DriverPostgres "''select''" "''select 1''" 0, folded e_def]
      timeout by blast
  then show ?thesis unfolding e_def by blast
qed

text \<open>A MySQL password without \<open>@\<close> is masked, whatever it is; one with \<open>@\<close> only up to there.\<close>

lemma mysql_password_masked:
  assumes "user \<noteq> []" "CHR '':'' \<notin> set user" "password \<noteq> []" "CHR ''@'' \<notin> set password"
  shows "mysqlDSNPassword (user @ '':'' @ password @ ''@'' @ rest) = user @ '':'' @ redactedPlaceholder @ ''@'' @ rest"
  using assms by (auto simp: mysqlDSNPassword_def Let_def takeWhile_append takeWhile_neq_id)

text \<open>
  What modelling showed. The verdict reads the whole message, so data quoted in it decides: a
  duplicate value that holds the word timeout is retried, and so is an unknown column whose name
  holds the number of MySQL's deadlock error. The indicator \<open>lock wait timeout\<close> is never reached.
  The part of a password after an \<open>@\<close> stays readable.
\<close>

lemma quoted_value_decides:
  "de_Retryable (ClassifyDatabaseError (plain_error ''duplicate key (timeout)'') driver op q n)"
  "de_Retryable (ClassifyDatabaseError (plain_error ''no column c1213'') DriverMySQL op q n)"
  "contains_sub ''lock wait timeout'' m \<Longrightarrow> isTimeoutError m"
proof -
  have "isTimeoutError (to_lower (err_text (plain_error ''duplicate key (timeout)'')))" by code_simp
  then show "de_Retryable (ClassifyDatabaseError (plain_error ''duplicate key (timeout)'') driver op q n)"
    by (simp add: ClassifyDatabaseError_def NewTimeoutError_def NewDatabaseError_def)
  have l: "to_lower (err_text (plain_error ''no column c1213'')) = ''no column c1213''" by code_simp
  have "isConstraintError ''no column c1213'' DriverMySQL = False" "isDeadlockError ''no column c1213'' DriverMySQL = True"
    by code_simp+
  then show "de_Retryable (ClassifyDatabaseError (plain_error ''no column c1213'') DriverMySQL op q n)"
    by (simp add: ClassifyDatabaseError_def NewTimeoutError_def NewDatabaseError_def NewConnectionError_def NewQueryError_def l Let_def)
  assume "contains_sub ''lock wait timeout'' m"
  then obtain a b where "m = (a @ ''lock wait '') @ ''timeout'' @ b" unfolding contains_sub_append by auto
  then have "contains_sub ''timeout'' m" unfolding contains_sub_append by blast
  then show "isTimeoutError m" by (simp add: isTimeoutError_def has_any_def)
qed

lemma password_tail_leaks:
  "SanitizeConnectionString (\<lambda>s. None) ''u:p@s3@tcp(h)/d'' = ''u:[REDACTED]@s3@tcp(h)/d''"
proof -
  have "mysqlDSNPassword ''u:p@s3@tcp(h)/d'' = ''u:[REDACTED]@s3@tcp(h)/d''" by code_simp
  then show ?thesis
    by (simp add: SanitizeConnectionString_def) code_simp
qed

end
