(* ===== verification/Pagination.thy ===== *)
theory Pagination
  imports HttpOutput Pipeline
begin

text \<open>
  Pagination of the HTTP polling input: \<open>internal/modules/input/http_polling_pagination.go\<close>, the
  extraction of records in \<open>http_polling.go\<close> and \<open>PaginationConfig\<close> of
  \<open>internal/moduleconfig/shared.go\<close>. The three loops run over the method that fetches and decodes
  one page, which is the argument \<open>fetch\<close>; theory \<open>HttpPolling\<close> gives them the module's own.
\<close>

subsection \<open>Configuration\<close>

record PaginationConfig =
  pg_Type :: string
  pg_Param :: string
  pg_LimitParam :: string
  pg_Limit :: int
  pg_TotalPagesField :: string
  pg_TotalField :: string
  pg_NextCursorField :: string

datatype pagination_error = PaginationTypeRequired | PaginationFieldRequired string string | PaginationUnknownType string

definition PaginationConfig_Validate :: "PaginationConfig option \<Rightarrow> pagination_error option" where
  "PaginationConfig_Validate c =
     (case c of
        None \<Rightarrow> None
      | Some p \<Rightarrow>
          let required = (\<lambda>field extra.
                if pg_Param p = [] then Some (PaginationFieldRequired ''param'' (pg_Type p))
                else if extra = [] then Some (PaginationFieldRequired field (pg_Type p))
                else None)
          in if pg_Type p = [] then Some PaginationTypeRequired
             else if pg_Type p = ''cursor'' then required ''nextCursorField'' (pg_NextCursorField p)
             else if pg_Type p = ''page'' then required ''totalPagesField'' (pg_TotalPagesField p)
             else if pg_Type p = ''offset'' then
               (if pg_Param p = [] then Some (PaginationFieldRequired ''param'' (pg_Type p))
                else if pg_LimitParam p = [] then Some (PaginationFieldRequired ''limitParam'' (pg_Type p))
                else if pg_TotalField p = [] then Some (PaginationFieldRequired ''totalField'' (pg_Type p))
                else None)
             else Some (PaginationUnknownType (pg_Type p)))"

definition maxPaginationPages :: nat where "maxPaginationPages = 1000"

subsection \<open>Fields of a response\<close>

fun walk_path :: "gval \<Rightarrow> string list \<Rightarrow> gval option" where
  "walk_path current [] = Some current"
| "walk_path current (segment # segments) =
     (case as_map current of
        None \<Rightarrow> None
      | Some m \<Rightarrow> (case m segment of None \<Rightarrow> None | Some next \<Rightarrow> walk_path next segments))"

definition resolvePath :: "grecord \<Rightarrow> string \<Rightarrow> gval option" where
  "resolvePath obj path = (if path = [] then None else walk_path (GMap obj) (split_on (CHR ''.'') path))"

definition extractIntField :: "float_ops \<Rightarrow> grecord \<Rightarrow> string \<Rightarrow> int" where
  "extractIntField ops obj field =
     (case resolvePath obj field of
        Some (GFloat num) \<Rightarrow> float_to_int64 ops num
      | _ \<Rightarrow> 0)"

text \<open>\<open>format_float\<close> is \<open>strconv.FormatFloat(v, 'f', -1, 64)\<close>.\<close>

definition extractStringField :: "(go_float \<Rightarrow> string) \<Rightarrow> grecord \<Rightarrow> string \<Rightarrow> string" where
  "extractStringField format_float obj field =
     (case resolvePath obj field of
        None \<Rightarrow> []
      | Some (GStr v) \<Rightarrow> v
      | Some (GFloat v) \<Rightarrow> format_float v
      | Some _ \<Rightarrow> [])"

definition ErrInvalidDataField :: gerr where
  "ErrInvalidDataField = plain_error ''dataField does not contain an array''"

text \<open>What is not an object is left out of an array.\<close>

definition convertToRecords :: "(gval \<Rightarrow> string) \<Rightarrow> gval \<Rightarrow> gerr + records" where
  "convertToRecords fmt_T data =
     (case data of
        GArr v \<Rightarrow> Inr (concat (map (\<lambda>item. case item of GMap m \<Rightarrow> [Some m] | _ \<Rightarrow> []) v))
      | _ \<Rightarrow> Inl (errorf (err_text ErrInvalidDataField @ '': expected array, got '' @ fmt_T data) ErrInvalidDataField))"

definition extractDataFromField :: "(gval \<Rightarrow> string) \<Rightarrow> grecord \<Rightarrow> string \<Rightarrow> gerr + records" where
  "extractDataFromField fmt_T obj field =
     (case resolvePath obj field of
        None \<Rightarrow> Inl (errorf (err_text ErrInvalidDataField @ '': field '' @ CHR 0x27 # field @ CHR 0x27 # '' not found'') ErrInvalidDataField)
      | Some data \<Rightarrow> convertToRecords fmt_T data)"

definition commonFields :: "string list" where
  "commonFields = [''data'', ''items'', ''results'', ''records'']"

text \<open>The first of the common names that holds an array.\<close>

definition common_records :: "(gval \<Rightarrow> string) \<Rightarrow> grecord \<Rightarrow> records option" where
  "common_records fmt_T obj =
     first_some (\<lambda>field. case obj field of
        None \<Rightarrow> None
      | Some data \<Rightarrow> (case convertToRecords fmt_T data of Inl _ \<Rightarrow> None | Inr records \<Rightarrow> Some records)) commonFields"

definition extractRecordsFromObject :: "(gval \<Rightarrow> string) \<Rightarrow> string \<Rightarrow> grecord \<Rightarrow> gerr + records" where
  "extractRecordsFromObject fmt_T dataField obj =
     (if dataField \<noteq> [] then extractDataFromField fmt_T obj dataField
      else (case common_records fmt_T obj of
              Some converted \<Rightarrow> Inr converted
            | None \<Rightarrow>
                Inl (errorf (err_text ErrInvalidDataField @
                       '': pagination requires dataField when response is object (tried common fields: [data items results records])'')
                       ErrInvalidDataField)))"

subsection \<open>One page\<close>

text \<open>What the loops use of the module and its environment.\<close>

record page_env =
  pp_pagination :: PaginationConfig
  pp_dataField :: string
  pp_parse_url :: "string \<Rightarrow> gerr + go_url"
  pp_fmt_T :: "gval \<Rightarrow> string"
  pp_float :: float_ops
  pp_format_float :: "go_float \<Rightarrow> string"

type_synonym 's page_fetch = "string \<Rightarrow> 's \<Rightarrow> (gerr + grecord) maybe_panic \<times> 's"

definition paginationLimitParams :: "page_env \<Rightarrow> (string \<times> string) list" where
  "paginationLimitParams env =
     (if pg_LimitParam (pp_pagination env) \<noteq> [] \<and> pg_Limit (pp_pagination env) > 0
      then [(pg_LimitParam (pp_pagination env), itoa (pg_Limit (pp_pagination env)))] else [])"

definition buildPaginatedURLMultiFrom :: "page_env \<Rightarrow> string \<Rightarrow> (string \<times> string) list \<Rightarrow> gerr + string" where
  "buildPaginatedURLMultiFrom env baseURL params =
     (case MergeQueryParams (pp_parse_url env) baseURL params of
        Inl err \<Rightarrow> Inl (errorf (''parsing endpoint URL: '' @ err_text err) err)
      | Inr merged \<Rightarrow> Inr merged)"

text \<open>A page with what a field says of the rest: \<open>fetchPageWithMeta\<close>, \<open>fetchOffsetWithMeta\<close>, \<open>fetchCursorWithMeta\<close>.\<close>

definition fetch_with ::
  "(grecord \<Rightarrow> 'm) \<Rightarrow> 's page_fetch \<Rightarrow> page_env \<Rightarrow> string \<Rightarrow> 's \<Rightarrow> (gerr + records \<times> 'm) maybe_panic \<times> 's" where
  "fetch_with meta fetch env endpoint s =
     (case fetch endpoint s of
        (NilPointerPanic, s) \<Rightarrow> (NilPointerPanic, s)
      | (Ran (Inl err), s) \<Rightarrow> (Ran (Inl err), s)
      | (Ran (Inr obj), s) \<Rightarrow>
          (case extractRecordsFromObject (pp_fmt_T env) (pp_dataField env) obj of
             Inl err \<Rightarrow> (Ran (Inl err), s)
           | Inr records \<Rightarrow> (Ran (Inr (records, meta obj)), s)))"

definition fetchPageWithMeta ::
  "'s page_fetch \<Rightarrow> page_env \<Rightarrow> string \<Rightarrow> string \<Rightarrow> 's \<Rightarrow> (gerr + records \<times> int) maybe_panic \<times> 's" where
  "fetchPageWithMeta fetch env endpoint totalPagesField s =
     fetch_with (\<lambda>obj. extractIntField (pp_float env) obj totalPagesField) fetch env endpoint s"

definition fetchOffsetWithMeta ::
  "'s page_fetch \<Rightarrow> page_env \<Rightarrow> string \<Rightarrow> string \<Rightarrow> 's \<Rightarrow> (gerr + records \<times> int) maybe_panic \<times> 's" where
  "fetchOffsetWithMeta fetch env endpoint totalField s =
     fetch_with (\<lambda>obj. extractIntField (pp_float env) obj totalField) fetch env endpoint s"

definition fetchCursorWithMeta ::
  "'s page_fetch \<Rightarrow> page_env \<Rightarrow> string \<Rightarrow> string \<Rightarrow> 's \<Rightarrow> (gerr + records \<times> string) maybe_panic \<times> 's" where
  "fetchCursorWithMeta fetch env endpoint nextCursorField s =
     fetch_with (\<lambda>obj. extractStringField (pp_format_float env) obj nextCursorField) fetch env endpoint s"

subsection \<open>The loops\<close>

text \<open>
  \<open>k\<close> is the number of turns the condition of the loop still allows: 1000 for pages and cursors.
\<close>

fun page_loop ::
  "'s page_fetch \<Rightarrow> page_env \<Rightarrow> string \<Rightarrow> nat \<Rightarrow> int \<Rightarrow> records \<Rightarrow> 's \<Rightarrow> (gerr + records) maybe_panic \<times> 's" where
  "page_loop fetch env base 0 page allRecords s = (Ran (Inr allRecords), s)"
| "page_loop fetch env base (Suc k) page allRecords s =
     (case buildPaginatedURLMultiFrom env base
             (put_param (pg_Param (pp_pagination env)) (itoa page) (paginationLimitParams env)) of
        Inl err \<Rightarrow> (Ran (Inl err), s)
      | Inr pageURL \<Rightarrow>
          (case fetchPageWithMeta fetch env pageURL (pg_TotalPagesField (pp_pagination env)) s of
             (NilPointerPanic, s) \<Rightarrow> (NilPointerPanic, s)
           | (Ran (Inl err), s) \<Rightarrow> (Ran (Inl err), s)
           | (Ran (Inr (records, totalPages)), s) \<Rightarrow>
               let allRecords = allRecords @ records
               in if totalPages > 0 \<and> page \<ge> totalPages then (Ran (Inr allRecords), s)
                  else if length records = 0 then (Ran (Inr allRecords), s)
                  else page_loop fetch env base k (page + 1) allRecords s))"

definition fetchPageBased :: "'s page_fetch \<Rightarrow> page_env \<Rightarrow> string \<Rightarrow> 's \<Rightarrow> (gerr + records) maybe_panic \<times> 's" where
  "fetchPageBased fetch env base s = page_loop fetch env base maxPaginationPages 1 [] s"

text \<open>
  The offset loop tests its own condition, whose product wraps around; \<open>k\<close> bounds its turns
  (\<open>offset_loop_fuel\<close> shows that 1000 turns are never reached by a limit that does not wrap).
\<close>

fun offset_loop ::
  "'s page_fetch \<Rightarrow> page_env \<Rightarrow> string \<Rightarrow> int \<Rightarrow> nat \<Rightarrow> int \<Rightarrow> records \<Rightarrow> 's \<Rightarrow> (gerr + records) maybe_panic \<times> 's" where
  "offset_loop fetch env base limit 0 offset allRecords s = (Ran (Inr allRecords), s)"
| "offset_loop fetch env base limit (Suc k) offset allRecords s =
     (if offset < wrap64 (int maxPaginationPages * limit) then
        (case buildPaginatedURLMultiFrom env base
                (put_param (pg_LimitParam (pp_pagination env)) (itoa limit) [(pg_Param (pp_pagination env), itoa offset)]) of
           Inl err \<Rightarrow> (Ran (Inl err), s)
         | Inr offsetURL \<Rightarrow>
             (case fetchOffsetWithMeta fetch env offsetURL (pg_TotalField (pp_pagination env)) s of
                (NilPointerPanic, s) \<Rightarrow> (NilPointerPanic, s)
              | (Ran (Inl err), s) \<Rightarrow> (Ran (Inl err), s)
              | (Ran (Inr (records, total_count)), s) \<Rightarrow>
                  let allRecords = allRecords @ records
                  in if total_count > 0 \<and> int (length allRecords) \<ge> total_count then (Ran (Inr allRecords), s)
                     else if length records = 0 \<or> int (length records) < limit then (Ran (Inr allRecords), s)
                     else offset_loop fetch env base limit k (wrap64 (offset + limit)) allRecords s))
      else (Ran (Inr allRecords), s))"

definition fetchOffsetBased :: "'s page_fetch \<Rightarrow> page_env \<Rightarrow> string \<Rightarrow> 's \<Rightarrow> (gerr + records) maybe_panic \<times> 's" where
  "fetchOffsetBased fetch env base s =
     (let limit = (if pg_Limit (pp_pagination env) = 0 then 100 else pg_Limit (pp_pagination env))
      in offset_loop fetch env base limit (Suc maxPaginationPages) 0 [] s)"

fun cursor_loop ::
  "'s page_fetch \<Rightarrow> page_env \<Rightarrow> string \<Rightarrow> nat \<Rightarrow> string \<Rightarrow> records \<Rightarrow> 's \<Rightarrow> (gerr + records) maybe_panic \<times> 's" where
  "cursor_loop fetch env base 0 cursor allRecords s = (Ran (Inr allRecords), s)"
| "cursor_loop fetch env base (Suc k) cursor allRecords s =
     (case buildPaginatedURLMultiFrom env base
             (if cursor \<noteq> [] then put_param (pg_Param (pp_pagination env)) cursor (paginationLimitParams env)
              else paginationLimitParams env) of
        Inl err \<Rightarrow> (Ran (Inl err), s)
      | Inr fetchURL \<Rightarrow>
          (case fetchCursorWithMeta fetch env fetchURL (pg_NextCursorField (pp_pagination env)) s of
             (NilPointerPanic, s) \<Rightarrow> (NilPointerPanic, s)
           | (Ran (Inl err), s) \<Rightarrow> (Ran (Inl err), s)
           | (Ran (Inr (records, nextCursor)), s) \<Rightarrow>
               let allRecords = allRecords @ records
               in if nextCursor = [] then (Ran (Inr allRecords), s)
                  else cursor_loop fetch env base k nextCursor allRecords s))"

definition fetchCursorBased :: "'s page_fetch \<Rightarrow> page_env \<Rightarrow> string \<Rightarrow> 's \<Rightarrow> (gerr + records) maybe_panic \<times> 's" where
  "fetchCursorBased fetch env base s = cursor_loop fetch env base maxPaginationPages [] [] s"

definition fetchWithPagination :: "'s page_fetch \<Rightarrow> page_env \<Rightarrow> string \<Rightarrow> 's \<Rightarrow> (gerr + records) maybe_panic \<times> 's" where
  "fetchWithPagination fetch env baseEndpoint s =
     (let ty = pg_Type (pp_pagination env)
      in if ty = ''page'' then fetchPageBased fetch env baseEndpoint s
         else if ty = ''offset'' then fetchOffsetBased fetch env baseEndpoint s
         else if ty = ''cursor'' then fetchCursorBased fetch env baseEndpoint s
         else (Ran (Inl (plain_error (''unknown pagination type \"'' @ ty @ ''\" (expected '' @ CHR 0x27 # ''cursor'' @ CHR 0x27 #
                '', '' @ CHR 0x27 # ''page'' @ CHR 0x27 # '' or '' @ CHR 0x27 # ''offset'' @ CHR 0x27 # '')''))), s))"

subsection \<open>Offsets\<close>

definition offset_limit :: "page_env \<Rightarrow> int" where
  "offset_limit env = (if pg_Limit (pp_pagination env) = 0 then 100 else pg_Limit (pp_pagination env))"

definition limit_fits :: "int \<Rightarrow> bool" where
  "limit_fits limit \<longleftrightarrow> int64_min \<le> int maxPaginationPages * limit \<and> int maxPaginationPages * limit \<le> int64_max"

lemma limit_fits_wrap: "limit_fits limit \<Longrightarrow> wrap64 (int maxPaginationPages * limit) = int maxPaginationPages * limit"
  by (simp add: limit_fits_def wrap64_id)

lemma offset_no_wrap:
  assumes "limit_fits limit" "0 < limit" "0 \<le> i" "i < int maxPaginationPages"
  shows "wrap64 (i * limit + limit) = (i + 1) * limit"
proof -
  have "(i + 1) * limit \<le> int maxPaginationPages * limit" using assms by (intro mult_right_mono) auto
  moreover have "0 \<le> (i + 1) * limit" using assms by simp
  ultimately have "wrap64 ((i + 1) * limit) = (i + 1) * limit"
    using assms(1) by (intro wrap64_id) (auto simp: limit_fits_def int64_min_def)
  then show ?thesis by (simp add: algebra_simps)
qed

text \<open>The bound on the turns of the model is not reached when the product fits.\<close>

lemma offset_loop_fuel:
  assumes "limit_fits limit" "0 < limit" "i \<le> maxPaginationPages" "maxPaginationPages - i < k"
  shows "offset_loop fetch env base limit (k + j) (int i * limit) all s = offset_loop fetch env base limit k (int i * limit) all s"
  using assms(3,4)
proof (induction k arbitrary: i all s)
  case (Suc k)
  show ?case
  proof (cases "i < maxPaginationPages")
    case True
    with Suc.prems have "maxPaginationPages - Suc i < k" "Suc i \<le> maxPaginationPages" by auto
    note ih = Suc.IH [OF this(2,1)]
    have "wrap64 (int i * limit + limit) = int (Suc i) * limit"
      using offset_no_wrap [OF assms(1,2), of "int i"] True by (simp add: algebra_simps)
    with ih show ?thesis
      by (simp add: Let_def split: sum.split prod.split maybe_panic.split)
  next
    case False
    with Suc.prems(1) have "i = maxPaginationPages" by simp
    then show ?thesis by (simp add: limit_fits_wrap [OF assms(1)])
  qed
qed simp

text \<open>A server that answers every offset with the next items of a list, and perhaps their number.\<close>

definition serves_offsets :: "'s page_fetch \<Rightarrow> page_env \<Rightarrow> string \<Rightarrow> int \<Rightarrow> records \<Rightarrow> bool" where
  "serves_offsets fetch env base limit rows \<longleftrightarrow>
     (\<exists>total_count. (total_count \<le> 0 \<or> total_count = int (length rows)) \<and>
        (\<forall>offset s. \<exists>url s'.
           buildPaginatedURLMultiFrom env base
             (put_param (pg_LimitParam (pp_pagination env)) (itoa limit) [(pg_Param (pp_pagination env), itoa (int offset))]) = Inr url
           \<and> fetchOffsetWithMeta fetch env url (pg_TotalField (pp_pagination env)) s
               = (Ran (Inr (take (nat limit) (drop offset rows), total_count)), s')))"

lemma offset_loop_collects:
  assumes "serves_offsets fetch env base limit rows" "limit_fits limit" "0 < limit"
    and "i \<le> maxPaginationPages" "maxPaginationPages - i < k" "i * nat limit \<le> length rows"
  shows "\<exists>s'. offset_loop fetch env base limit k (int i * limit) (take (i * nat limit) rows) s
     = (Ran (Inr (take (maxPaginationPages * nat limit) rows)), s')"
  using assms(4-)
proof (induction k arbitrary: i s)
  case (Suc k)
  let ?l = "nat limit" and ?n = maxPaginationPages
  have l: "int ?l = limit" "0 < ?l" using assms(3) by auto
  show ?case
  proof (cases "i < ?n")
    case False
    with Suc.prems(1) show ?thesis by (simp add: limit_fits_wrap [OF assms(2)])
  next
    case True
    have lt: "int i * limit < int ?n * limit" using True assms(3) by simp
    have off: "int i * limit = int (i * ?l)" using l(1) by simp
    obtain total_count where tc: "total_count \<le> 0 \<or> total_count = int (length rows)"
      and srv: "\<And>offset s. \<exists>url s'. buildPaginatedURLMultiFrom env base
             (put_param (pg_LimitParam (pp_pagination env)) (itoa limit) [(pg_Param (pp_pagination env), itoa (int offset))]) = Inr url
           \<and> fetchOffsetWithMeta fetch env url (pg_TotalField (pp_pagination env)) s
               = (Ran (Inr (take ?l (drop offset rows), total_count)), s')"
      using assms(1) unfolding serves_offsets_def by blast
    obtain url s1 where one: "buildPaginatedURLMultiFrom env base
             (put_param (pg_LimitParam (pp_pagination env)) (itoa limit) [(pg_Param (pp_pagination env), itoa (int (i * ?l)))]) = Inr url"
      "fetchOffsetWithMeta fetch env url (pg_TotalField (pp_pagination env)) s
               = (Ran (Inr (take ?l (drop (i * ?l) rows), total_count)), s1)"
      using srv by blast
    have all: "take (i * ?l) rows @ take ?l (drop (i * ?l) rows) = take (Suc i * ?l) rows"
      by (simp add: take_add [symmetric] add.commute)
    have nxt: "wrap64 (int i * limit + limit) = int (Suc i) * limit"
      using offset_no_wrap [OF assms(2,3), of "int i"] True by (simp add: algebra_simps)
    define got where "got = take ?l (drop (i * ?l) rows)"
    define sofar where "sofar = take (Suc i * ?l) rows"
    have short: "length got = 0 \<or> int (length got) < limit \<longleftrightarrow> int (length got) < limit" using assms(3) by auto
    have step: "offset_loop fetch env base limit (Suc k) (int i * limit) (take (i * ?l) rows) s =
      (if total_count > 0 \<and> int (length sofar) \<ge> total_count \<or> int (length got) < limit then (Ran (Inr sofar), s1)
       else offset_loop fetch env base limit k (int (Suc i) * limit) sofar s1)"
      using lt short
      by (simp only: offset_loop.simps limit_fits_wrap [OF assms(2)] if_True one [folded off got_def] sum.case prod.case
          maybe_panic.case Let_def all [folded got_def sofar_def] nxt) auto
    have le: "Suc i * ?l \<le> ?n * ?l" using True by (intro mult_right_mono) auto
    show ?thesis
    proof (cases "length rows < Suc i * ?l")
      case True
      then have "take (Suc i * ?l) rows = rows" "take (?n * ?l) rows = rows" using le by auto
      moreover have "int (length got) < limit"
      proof -
        have "length got < ?l" using True Suc.prems(3) l(2) by (auto simp: got_def)
        with l(1) show ?thesis by linarith
      qed
      ultimately show ?thesis using step by (auto simp: got_def sofar_def)
    next
      case False
      then have full: "\<not> int (length (take ?l (drop (i * ?l) rows))) < limit" using l by auto
      show ?thesis
      proof (cases "total_count > 0 \<and> int (length (take (Suc i * ?l) rows)) \<ge> total_count")
        case True
        with tc have "length rows \<le> length (take (Suc i * ?l) rows)" by linarith
        then have "length rows \<le> Suc i * ?l" by (simp only: length_take min.bounded_iff)
        with le have "take (Suc i * ?l) rows = rows" "take (?n * ?l) rows = rows" by (simp_all only: take_all)
        with True step show ?thesis by (auto simp only: sofar_def simp_thms if_True)
      next
        case more: False
        have "\<exists>s'. offset_loop fetch env base limit k (int (Suc i) * limit) (take (Suc i * ?l) rows) s1
            = (Ran (Inr (take (?n * ?l) rows)), s')"
          by (rule Suc.IH) (use \<open>i < ?n\<close> Suc.prems(2) False in auto)
        with more full step show ?thesis by (auto simp: got_def sofar_def)
      qed
    qed
  qed
qed simp

text \<open>
  C22. Offset pagination fetches everything, in order, once: from a server that answers each offset
  with the next items, and says how many there are or does not, the loop returns all its items,
  up to a thousand pages.
\<close>
theorem offset_pagination_complete:
  assumes "serves_offsets fetch env base (offset_limit env) rows" "limit_fits (offset_limit env)" "0 \<le> pg_Limit (pp_pagination env)"
  shows "\<exists>s'. fetchOffsetBased fetch env base s = (Ran (Inr (take (maxPaginationPages * nat (offset_limit env)) rows)), s')"
proof -
  have "0 < offset_limit env" using assms(3) by (simp add: offset_limit_def)
  from offset_loop_collects [OF assms(1,2) this, of 0 "Suc maxPaginationPages" s] show ?thesis
    by (simp add: fetchOffsetBased_def offset_limit_def Let_def)
qed

subsection \<open>Pages and cursors\<close>

text \<open>A server with numbered pages: page \<open>p\<close> holds \<open>pages p\<close>, and every page says how many there are.\<close>

definition serves_pages :: "'s page_fetch \<Rightarrow> page_env \<Rightarrow> string \<Rightarrow> (nat \<Rightarrow> records) \<Rightarrow> int \<Rightarrow> bool" where
  "serves_pages fetch env base pages total_pages \<longleftrightarrow>
     (\<forall>page s. \<exists>url s'.
        buildPaginatedURLMultiFrom env base
          (put_param (pg_Param (pp_pagination env)) (itoa (int page)) (paginationLimitParams env)) = Inr url
        \<and> fetchPageWithMeta fetch env url (pg_TotalPagesField (pp_pagination env)) s = (Ran (Inr (pages page, total_pages)), s'))"

definition last_page :: "(nat \<Rightarrow> records) \<Rightarrow> int \<Rightarrow> nat \<Rightarrow> bool" where
  "last_page pages total_pages p \<longleftrightarrow> total_pages > 0 \<and> int p \<ge> total_pages \<or> pages p = []"

lemma page_loop_collects:
  assumes "serves_pages fetch env base pages total_pages" "last_page pages total_pages n"
    and "\<forall>q. p \<le> q \<and> q < n \<longrightarrow> \<not> last_page pages total_pages q" "p \<le> n"
  shows "\<exists>s'. page_loop fetch env base k (int p) all s
     = (Ran (Inr (all @ concat (map pages [p..<min (Suc n) (p + k)]))), s')"
  using assms(3,4)
proof (induction k arbitrary: p all s)
  case (Suc k)
  obtain url s1 where one: "buildPaginatedURLMultiFrom env base
          (put_param (pg_Param (pp_pagination env)) (itoa (int p)) (paginationLimitParams env)) = Inr url"
    "fetchPageWithMeta fetch env url (pg_TotalPagesField (pp_pagination env)) s = (Ran (Inr (pages p, total_pages)), s1)"
    using assms(1) unfolding serves_pages_def by blast
  have step: "page_loop fetch env base (Suc k) (int p) all s =
      (if last_page pages total_pages p then (Ran (Inr (all @ pages p)), s1)
       else page_loop fetch env base k (int (Suc p)) (all @ pages p) s1)"
    using one by (auto simp: last_page_def Let_def add.commute)
  show ?case
  proof (cases "p = n")
    case True
    with step assms(2) show ?thesis by auto
  next
    case False
    with Suc.prems have "\<exists>s'. page_loop fetch env base k (int (Suc p)) (all @ pages p) s1
       = (Ran (Inr ((all @ pages p) @ concat (map pages [Suc p..<min (Suc n) (Suc p + k)]))), s')"
      by (intro Suc.IH) auto
    moreover have "[p..<min (Suc n) (p + Suc k)] = p # [Suc p..<min (Suc n) (Suc p + k)]"
      using Suc.prems(2) by (subst upt_conv_Cons) auto
    moreover have "\<not> last_page pages total_pages p" using Suc.prems False by auto
    ultimately show ?thesis using step by auto
  qed
qed simp

text \<open>
  Page pagination fetches the pages from the first to the last, in order, each once: the last
  is the number the server announces, or the first empty page, or the thousandth.
\<close>
theorem page_pagination_complete:
  assumes "serves_pages fetch env base pages total_pages" "last_page pages total_pages n" "1 \<le> n"
    and "\<forall>p. 1 \<le> p \<and> p < n \<longrightarrow> \<not> last_page pages total_pages p"
  shows "\<exists>s'. fetchPageBased fetch env base s = (Ran (Inr (concat (map pages [1..<Suc (min n maxPaginationPages)]))), s')"
  using page_loop_collects [OF assms(1,2,4,3), of maxPaginationPages "[]" s]
  by (simp add: fetchPageBased_def min_def split: if_splits)

text \<open>A server with cursors: at the cursor \<open>c\<close> it answers \<open>recs c\<close> and the cursor \<open>nxt c\<close>.\<close>

definition serves_cursors :: "'s page_fetch \<Rightarrow> page_env \<Rightarrow> string \<Rightarrow> (string \<Rightarrow> records) \<Rightarrow> (string \<Rightarrow> string) \<Rightarrow> bool" where
  "serves_cursors fetch env base recs nxt \<longleftrightarrow>
     (\<forall>cursor s. \<exists>url s'.
        buildPaginatedURLMultiFrom env base
          (if cursor \<noteq> [] then put_param (pg_Param (pp_pagination env)) cursor (paginationLimitParams env)
           else paginationLimitParams env) = Inr url
        \<and> fetchCursorWithMeta fetch env url (pg_NextCursorField (pp_pagination env)) s
            = (Ran (Inr (recs cursor, nxt cursor)), s'))"

fun cursor_chain :: "(string \<Rightarrow> string) \<Rightarrow> nat \<Rightarrow> string \<Rightarrow> string list" where
  "cursor_chain nxt 0 c = []"
| "cursor_chain nxt (Suc k) c = c # (if nxt c = [] then [] else cursor_chain nxt k (nxt c))"

lemma cursor_loop_collects:
  assumes "serves_cursors fetch env base recs nxt"
  shows "\<exists>s'. cursor_loop fetch env base k c all s = (Ran (Inr (all @ concat (map recs (cursor_chain nxt k c)))), s')"
proof (induction k arbitrary: c all s)
  case (Suc k)
  obtain url s1 where one: "buildPaginatedURLMultiFrom env base
          (if c \<noteq> [] then put_param (pg_Param (pp_pagination env)) c (paginationLimitParams env)
           else paginationLimitParams env) = Inr url"
    "fetchCursorWithMeta fetch env url (pg_NextCursorField (pp_pagination env)) s = (Ran (Inr (recs c, nxt c)), s1)"
    using assms unfolding serves_cursors_def by blast
  from Suc.IH [of "nxt c" "all @ recs c" s1] one show ?case by (auto simp: Let_def)
qed simp

text \<open>
  Cursor pagination follows the cursors: it returns what the server answers at the empty
  cursor and at each cursor it is given, in order, until there is none, at most a thousand times.
\<close>
theorem cursor_pagination_complete:
  assumes "serves_cursors fetch env base recs nxt"
  shows "\<exists>s'. fetchCursorBased fetch env base s
     = (Ran (Inr (concat (map recs (cursor_chain nxt maxPaginationPages [])))), s')"
  using cursor_loop_collects [OF assms, of maxPaginationPages "[]" "[]" s] by (simp add: fetchCursorBased_def)


subsection \<open>Bounds and odd servers\<close>

text \<open>The fetch with a counter of its calls beside the state.\<close>

definition counted :: "'s page_fetch \<Rightarrow> ('s \<times> nat) page_fetch" where
  "counted fetch endpoint = (\<lambda>(s, n). case fetch endpoint s of (r, s) \<Rightarrow> (r, (s, Suc n)))"

lemma counted_with:
  "fetch_with meta (counted fetch) env endpoint (s, n) = (r, (s', n')) \<Longrightarrow> n' = Suc n"
  by (auto simp: fetch_with_def counted_def split: prod.splits maybe_panic.splits sum.splits)

lemma page_loop_count: "page_loop (counted fetch) env base k page all (s, n) = (r, (s', n')) \<Longrightarrow> n' \<le> n + k"
proof (induction k arbitrary: page all s n)
  case (Suc k)
  then show ?case
    by (fastforce simp: fetchPageWithMeta_def Let_def dest: counted_with
        split: sum.splits prod.splits maybe_panic.splits if_splits)
qed simp

lemma cursor_loop_count: "cursor_loop (counted fetch) env base k c all (s, n) = (r, (s', n')) \<Longrightarrow> n' \<le> n + k"
proof (induction k arbitrary: c all s n)
  case (Suc k)
  then show ?case
    by (fastforce simp: fetchCursorWithMeta_def Let_def dest: counted_with
        split: sum.splits prod.splits maybe_panic.splits if_splits)
qed simp

lemma offset_loop_count:
  assumes "limit_fits limit" "0 < limit"
  shows "i \<le> maxPaginationPages \<Longrightarrow>
    offset_loop (counted fetch) env base limit k (int i * limit) all (s, n) = (r, (s', n')) \<Longrightarrow>
    n' \<le> n + (maxPaginationPages - i)"
proof (induction k arbitrary: i all s n)
  case (Suc k)
  show ?case
  proof (cases "i < maxPaginationPages")
    case False
    with Suc.prems have "i = maxPaginationPages" by simp
    with Suc.prems(2) show ?thesis by (simp add: limit_fits_wrap [OF assms(1)])
  next
    case True
    have nxt: "wrap64 (int i * limit + limit) = int (Suc i) * limit"
      using offset_no_wrap [OF assms, of "int i"] True by (simp add: algebra_simps)
    have one: "n' \<le> m + (maxPaginationPages - Suc i)"
      if "offset_loop (counted fetch) env base limit k (int (Suc i) * limit) a (s1, m) = (r, (s', n'))" for a s1 m
      using Suc.IH [OF _ that] True by simp
    have lt: "int i * limit < int maxPaginationPages * limit" using True assms(2) by simp
    note run = Suc.prems(2) [unfolded offset_loop.simps nxt limit_fits_wrap [OF assms(1)] if_P [OF lt]]
    show ?thesis
    proof (cases "buildPaginatedURLMultiFrom env base
        (put_param (pg_LimitParam (pp_pagination env)) (itoa limit) [(pg_Param (pp_pagination env), itoa (int i * limit))])")
      case (Inr url)
      obtain out s1 m where page: "fetchOffsetWithMeta (counted fetch) env url (pg_TotalField (pp_pagination env)) (s, n) = (out, (s1, m))"
        by (cases "fetchOffsetWithMeta (counted fetch) env url (pg_TotalField (pp_pagination env)) (s, n)") auto
      then have m: "m = Suc n" by (auto simp: fetchOffsetWithMeta_def dest: counted_with)
      define bound where "bound = n + (maxPaginationPages - i)"
      have one': "n' \<le> bound" if "offset_loop (counted fetch) env base limit k (int (Suc i) * limit) a (s1, m) = (r, (s', n'))" for a
        using one [OF that] m True by (simp add: bound_def)
      have here: "m \<le> bound" using m True by (simp add: bound_def)
      show ?thesis unfolding bound_def [symmetric]
        using run Inr page one' here
        by (auto simp: Let_def split: maybe_panic.splits sum.splits if_splits)
    qed (use run in simp)
  qed
qed simp


text \<open>
  A fetch makes at most a thousand requests, whatever the server answers: for pages and
  cursors always, for offsets when a thousand times the limit fits an \<open>int64\<close>.
\<close>
theorem pagination_bounded:
  assumes "limit_fits (offset_limit env)" "fetchWithPagination (counted fetch) env base (s, 0) = (r, (s', n))"
  shows "n \<le> maxPaginationPages"
proof -
  have "n \<le> maxPaginationPages" if run: "fetchOffsetBased (counted fetch) env base (s, 0) = (r, (s', n))"
  proof (cases "0 < offset_limit env")
    case True
    from offset_loop_count [OF assms(1) this, of 0 fetch env base "Suc maxPaginationPages" "[]" s 0 r s' n] run
    show ?thesis by (simp add: fetchOffsetBased_def offset_limit_def Let_def)
  next
    case False
    then have neg: "\<not> 0 < wrap64 (int maxPaginationPages * offset_limit env)"
      unfolding limit_fits_wrap [OF assms(1)] by (simp add: maxPaginationPages_def)
    with run show ?thesis by (simp add: fetchOffsetBased_def Let_def flip: offset_limit_def)
  qed
  with assms(2) page_loop_count [of fetch env base maxPaginationPages 1 "[]" s 0 r s' n]
    cursor_loop_count [of fetch env base maxPaginationPages "[]" "[]" s 0 r s' n]
  show ?thesis by (auto simp: fetchWithPagination_def fetchPageBased_def fetchCursorBased_def Let_def split: if_splits)
qed

text \<open>A limit below zero fetches nothing and reports no error.\<close>

lemma negative_limit_fetches_nothing:
  assumes "limit_fits (offset_limit env)" "pg_Limit (pp_pagination env) < 0"
  shows "fetchOffsetBased fetch env base s = (Ran (Inr []), s)"
proof -
  have "\<not> 0 < wrap64 (int maxPaginationPages * offset_limit env)"
    unfolding limit_fits_wrap [OF assms(1)] using assms(2) by (simp add: maxPaginationPages_def offset_limit_def)
  then show ?thesis by (simp add: fetchOffsetBased_def Let_def flip: offset_limit_def)
qed

text \<open>A server that answers a cursor with itself: its records are fetched until the thousandth request.\<close>

lemma chain_fixed: "c \<noteq> [] \<Longrightarrow> nxt c = c \<Longrightarrow> cursor_chain nxt k c = replicate k c"
  by (induction k) auto

lemma repeated_cursor_duplicates:
  assumes "serves_cursors fetch env base recs nxt" "nxt [] = c" "c \<noteq> []" "nxt c = c"
  shows "\<exists>s'. fetchCursorBased fetch env base s = (Ran (Inr (recs [] @ concat (replicate 999 (recs c)))), s')"
proof -
  have "maxPaginationPages = Suc 999" by (simp add: maxPaginationPages_def)
  moreover have "cursor_chain nxt (Suc 999) [] = [] # cursor_chain nxt 999 c"
    by (simp only: cursor_chain.simps(2) assms(2,3) if_False)
  ultimately have "cursor_chain nxt maxPaginationPages [] = [] # replicate 999 c"
    using chain_fixed [of c nxt 999] assms(3,4) by metis
  with cursor_loop_collects [OF assms(1), of maxPaginationPages "[]" "[]" s] show ?thesis by (simp add: fetchCursorBased_def)
qed

text \<open>
  A page counts its objects, not its items: one that holds something else ends the loop over the
  offsets, and what follows it is not fetched.
\<close>

lemma dropped_item_stops_offsets:
  assumes "0 < wrap64 (int maxPaginationPages * limit)"
    and "buildPaginatedURLMultiFrom env base
           (put_param (pg_LimitParam (pp_pagination env)) (itoa limit) [(pg_Param (pp_pagination env), itoa 0)]) = Inr url"
    and "fetch url s = (Ran (Inr [''data'' \<mapsto> GArr (GMap r # GNil # map GMap rs)]), s')" "pp_dataField env = []"
    and "length rs < nat limit - 1" "pg_TotalField (pp_pagination env) = ''total''"
  shows "offset_loop fetch env base limit (Suc k) 0 [] s = (Ran (Inr (Some r # map Some rs)), s')"
proof -
  have rs: "concat (map ((\<lambda>item. case item of GMap m \<Rightarrow> [Some m] | _ \<Rightarrow> []) \<circ> GMap) rs) = map Some rs" for rs
    by (induction rs) auto
  have "extractRecordsFromObject (pp_fmt_T env) [] [''data'' \<mapsto> GArr (GMap r # GNil # map GMap rs)] = Inr (Some r # map Some rs)"
    by (simp add: extractRecordsFromObject_def common_records_def commonFields_def convertToRecords_def rs)
  moreover have "extractIntField (pp_float env) [''data'' \<mapsto> GArr (GMap r # GNil # map GMap rs)] ''total'' = 0"
    by (simp add: extractIntField_def resolvePath_def)
  moreover have "int (length rs) + 1 < limit" using assms(5) by linarith
  ultimately show ?thesis using assms by (simp add: fetchOffsetWithMeta_def fetch_with_def)
qed


subsection \<open>Examples\<close>

definition demo_page_env :: "int \<Rightarrow> page_env" where
  "demo_page_env limit =
     \<lparr>pp_pagination = \<lparr>pg_Type = ''offset'', pg_Param = ''p'', pg_LimitParam = ''l'', pg_Limit = limit,
        pg_TotalPagesField = ''tp'', pg_TotalField = ''t'', pg_NextCursorField = ''c''\<rparr>,
      pp_dataField = ''data'', pp_parse_url = (\<lambda>_. Inr \<lparr>url_scheme = ''http'', url_host = ''h'', url_query = [], print_with = id\<rparr>),
      pp_fmt_T = (\<lambda>_. []), pp_float = exact_ops, pp_format_float = (\<lambda>_. [])\<rparr>"

text \<open>One record at the URL \<open>first\<close>, none elsewhere.\<close>

definition demo_fetch :: "string \<Rightarrow> unit page_fetch" where
  "demo_fetch first url u =
     (Ran (Inr [''data'' \<mapsto> GArr (if url = first then [GMap Map.empty] else [])]), ())"

lemma escape_inj: "EscapeQueryComponent a = EscapeQueryComponent b \<Longrightarrow> a = b"
  by (metis EscapeQueryComponent_eq QueryUnescape_component option.inject)

lemma itoa_of_nat_inj: "itoa (int a) = itoa (int b) \<Longrightarrow> a = b"
  by (simp add: itoa_def) (metis digits_value_show_nat)

lemma escape_safe: "encode_spaces (EscapeQueryComponent s) = EscapeQueryComponent s"
  by (rule encode_spaces_id) (use component_safe [of "CHR '' ''" s] unreserved_neq [of "CHR '' ''"] in auto)

lemma encode_spaces_Cons: "c \<noteq> CHR '' '' \<Longrightarrow> encode_spaces (c # s) = c # encode_spaces s"
  by (simp add: encode_spaces_def)

lemma escape_letters [simp]: "EscapeQueryComponent ''l'' = ''l''" "EscapeQueryComponent ''p'' = ''p''"
  by (simp_all add: EscapeQueryComponent_eq component_char_def unreserved_def Let_def)

definition demo_limit :: string where "demo_limit = EscapeQueryComponent ''1''"

lemma demo_url:
  assumes "params = [(''p'', v), (''l'', ''1'')] \<or> params = [(''l'', ''1''), (''p'', v)]"
  shows "buildPaginatedURLMultiFrom (demo_page_env limit) base params = Inr (''l='' @ demo_limit @ ''&p='' @ EscapeQueryComponent v)"
proof -
  have "sort [''p'', ''l''] = [''l'', ''p'']" "sort [''l'', ''p''] = [''l'', ''p'']" by code_simp+
  then show ?thesis using assms
    by (auto simp: buildPaginatedURLMultiFrom_def MergeQueryParams_def demo_page_env_def kept_pairs_def added_pairs_def
        escape_safe demo_limit_def encode_spaces_Cons)
qed

lemma demo_meta:
  "fetch_with meta (demo_fetch first) (demo_page_env limit) url ()
     = (Ran (Inr (if url = first then [Some Map.empty] else [],
                  meta [''data'' \<mapsto> GArr (if url = first then [GMap Map.empty] else [])])), ())"
  by (simp add: fetch_with_def demo_fetch_def demo_page_env_def extractRecordsFromObject_def extractDataFromField_def
      resolvePath_def split_simps convertToRecords_def)

lemma demo_no_count: "extractIntField ops [''data'' \<mapsto> v] ''t'' = 0" "extractIntField ops [''data'' \<mapsto> v] ''tp'' = 0"
  by (simp_all add: extractIntField_def resolvePath_def split_simps)

theorem offset_pagination_complete_witness:
  "fetchOffsetBased (demo_fetch (''l='' @ demo_limit @ ''&p='' @ EscapeQueryComponent (itoa 0))) (demo_page_env 1) ''b'' ()
     = (Ran (Inr [Some Map.empty]), ())"
proof -
  let ?f = "demo_fetch (''l='' @ demo_limit @ ''&p='' @ EscapeQueryComponent (itoa 0))" and ?e = "demo_page_env 1"
  have one: "itoa 1 = ''1''" by code_simp
  have lim: "offset_limit ?e = 1" by (simp add: offset_limit_def demo_page_env_def)
  have pg: "pg_LimitParam (pp_pagination ?e) = ''l''" "pg_Param (pp_pagination ?e) = ''p''" "pg_TotalField (pp_pagination ?e) = ''t''"
    by (simp_all add: demo_page_env_def)
  have zero: "itoa (int n) = itoa 0 \<longleftrightarrow> n = 0" for n using itoa_of_nat_inj [of n 0] by auto
  have "serves_offsets ?f ?e ''b'' 1 [Some Map.empty]" unfolding serves_offsets_def
  proof (rule exI [of _ 0], intro conjI allI)
    fix n :: nat and s :: unit
    let ?url = "''l='' @ demo_limit @ ''&p='' @ EscapeQueryComponent (itoa (int n))"
    have "buildPaginatedURLMultiFrom ?e ''b'' (put_param (pg_LimitParam (pp_pagination ?e)) (itoa 1)
        [(pg_Param (pp_pagination ?e), itoa (int n))]) = Inr ?url"
      by (subst demo_url) (simp_all add: pg put_param_def one)
    moreover have "fetchOffsetWithMeta ?f ?e ?url (pg_TotalField (pp_pagination ?e)) s
        = (Ran (Inr (take (nat 1) (drop n [Some Map.empty]), 0)), ())"
      using escape_inj [of "itoa (int n)" "itoa 0"] zero [of n]
      by (cases n) (auto simp: fetchOffsetWithMeta_def demo_meta pg demo_no_count)
    ultimately show "\<exists>url s'. buildPaginatedURLMultiFrom ?e ''b''
             (put_param (pg_LimitParam (pp_pagination ?e)) (itoa 1) [(pg_Param (pp_pagination ?e), itoa (int n))]) = Inr url
           \<and> fetchOffsetWithMeta ?f ?e url (pg_TotalField (pp_pagination ?e)) s
               = (Ran (Inr (take (nat 1) (drop n [Some Map.empty]), 0)), s')" by blast
  qed simp
  moreover have "limit_fits (offset_limit ?e)"
    by (simp add: lim limit_fits_def maxPaginationPages_def int64_min_def int64_max_def)
  moreover have "take (maxPaginationPages * nat (offset_limit ?e)) [Some Map.empty :: grecord option] = [Some Map.empty]"
    by (rule take_all) (simp add: lim maxPaginationPages_def)
  ultimately show ?thesis
    using offset_pagination_complete [of ?f ?e "''b''" "[Some Map.empty]" "()"] by (simp add: lim) (simp add: demo_page_env_def)
qed


theorem page_pagination_complete_witness:
  "fetchPageBased (demo_fetch (''l='' @ demo_limit @ ''&p='' @ EscapeQueryComponent (itoa 1))) (demo_page_env 1) ''b'' ()
     = (Ran (Inr [Some Map.empty]), ())"
proof -
  let ?f = "demo_fetch (''l='' @ demo_limit @ ''&p='' @ EscapeQueryComponent (itoa 1))" and ?e = "demo_page_env 1"
  let ?pages = "\<lambda>p. if p = 1 then [Some Map.empty] else []"
  have one: "itoa 1 = ''1''" by code_simp
  have pg: "pg_Param (pp_pagination ?e) = ''p''" "pg_TotalPagesField (pp_pagination ?e) = ''tp''"
    by (simp_all add: demo_page_env_def)
  have lim: "paginationLimitParams ?e = [(''l'', ''1'')]" by (simp add: paginationLimitParams_def demo_page_env_def one)
  have first: "itoa (int n) = itoa 1 \<longleftrightarrow> n = 1" for n using itoa_of_nat_inj [of n 1] by auto
  have serves: "serves_pages ?f ?e ''b'' ?pages 0" unfolding serves_pages_def
  proof (intro allI)
    fix n :: nat and s :: unit
    let ?url = "''l='' @ demo_limit @ ''&p='' @ EscapeQueryComponent (itoa (int n))"
    have "buildPaginatedURLMultiFrom ?e ''b'' (put_param (pg_Param (pp_pagination ?e)) (itoa (int n)) (paginationLimitParams ?e)) = Inr ?url"
      by (subst demo_url) (simp_all add: pg put_param_def lim)
    moreover have "fetchPageWithMeta ?f ?e ?url (pg_TotalPagesField (pp_pagination ?e)) s = (Ran (Inr (?pages n, 0)), ())"
    proof (cases "n = 1")
      case False
      then have "EscapeQueryComponent (itoa (int n)) \<noteq> EscapeQueryComponent (itoa 1)" using escape_inj first by blast
      with False show ?thesis by (simp add: fetchPageWithMeta_def demo_meta pg demo_no_count)
    qed (simp add: fetchPageWithMeta_def demo_meta pg demo_no_count)
    ultimately show "\<exists>url s'. buildPaginatedURLMultiFrom ?e ''b'' (put_param (pg_Param (pp_pagination ?e)) (itoa (int n)) (paginationLimitParams ?e)) = Inr url
        \<and> fetchPageWithMeta ?f ?e url (pg_TotalPagesField (pp_pagination ?e)) s = (Ran (Inr (?pages n, 0)), s')" by blast
  qed
  have list: "[1..<Suc (min 2 maxPaginationPages)] = [1, 2]" by (simp add: maxPaginationPages_def upt_conv_Cons)
  have before: "\<forall>p. 1 \<le> p \<and> p < 2 \<longrightarrow> \<not> last_page ?pages 0 p" by (auto simp: last_page_def)
  have last: "last_page ?pages 0 2" by (simp add: last_page_def)
  obtain u where "fetchPageBased ?f ?e ''b'' () = (Ran (Inr (concat (map ?pages [1..<Suc (min 2 maxPaginationPages)]))), u)"
    using page_pagination_complete [OF serves last one_le_numeral before, of "()"] by (elim exE) (rule that)
  moreover have "concat (map ?pages [1..<Suc (min 2 maxPaginationPages)]) = [Some Map.empty]" unfolding list by simp
  ultimately show ?thesis by (cases u) simp
qed

text \<open>A server whose first page names a cursor.\<close>

definition demo_cursor_fetch :: "unit page_fetch" where
  "demo_cursor_fetch url u =
     (Ran (Inr (if url = ''b'' then [''data'' \<mapsto> GArr [GMap Map.empty], ''c'' \<mapsto> GStr ''x''] else [''data'' \<mapsto> GArr []])), ())"

theorem cursor_pagination_complete_witness:
  "fetchCursorBased demo_cursor_fetch (demo_page_env 0) ''b'' () = (Ran (Inr [Some Map.empty]), ())"
proof -
  let ?e = "demo_page_env 0"
  let ?recs = "\<lambda>c. if c = [] then [Some Map.empty] else []" and ?nxt = "\<lambda>c. if c = [] then ''x'' else []"
  have lim: "paginationLimitParams ?e = []" by (simp add: paginationLimitParams_def demo_page_env_def)
  have pg: "pg_Param (pp_pagination ?e) = ''p''" "pg_NextCursorField (pp_pagination ?e) = ''c''"
    by (simp_all add: demo_page_env_def)
  have url0: "buildPaginatedURLMultiFrom ?e ''b'' [] = Inr ''b''"
    by (simp add: buildPaginatedURLMultiFrom_def MergeQueryParams_def)
  have url: "buildPaginatedURLMultiFrom ?e ''b'' [(''p'', c)] = Inr (''p='' @ EscapeQueryComponent c)" for c
    by (simp add: buildPaginatedURLMultiFrom_def MergeQueryParams_def demo_page_env_def kept_pairs_def added_pairs_def
        escape_safe encode_spaces_Cons)
  have page: "fetchCursorWithMeta demo_cursor_fetch ?e u ''c'' s
      = (if u = ''b'' then (Ran (Inr ([Some Map.empty], ''x'')), ()) else (Ran (Inr ([], [])), ()))" for u s
    by (simp add: fetchCursorWithMeta_def fetch_with_def demo_cursor_fetch_def demo_page_env_def extractRecordsFromObject_def
        extractDataFromField_def resolvePath_def split_simps convertToRecords_def extractStringField_def)
  have serves: "serves_cursors demo_cursor_fetch ?e ''b'' ?recs ?nxt" unfolding serves_cursors_def pg lim
    using url url0 by (auto simp: put_param_def page)
  have "cursor_chain ?nxt (Suc (Suc n)) [] = [[], ''x'']" for n by (cases n) auto
  moreover have "maxPaginationPages = Suc (Suc 998)" by (simp add: maxPaginationPages_def)
  ultimately have "cursor_chain ?nxt maxPaginationPages [] = [[], ''x'']" by metis
  with cursor_pagination_complete [OF serves, of "()"] show ?thesis by simp
qed

theorem pagination_bounded_witness:
  "fetchWithPagination (counted (demo_fetch [])) (demo_page_env 1) ''b'' ((), 0) = (Ran (Inr []), ((), 1)) \<and> 1 \<le> maxPaginationPages"
proof
  let ?e = "demo_page_env 1"
  have one: "itoa 1 = ''1''" by code_simp
  have lim: "offset_limit ?e = 1" by (simp add: offset_limit_def demo_page_env_def)
  have fits: "limit_fits (offset_limit ?e)"
    by (simp add: lim limit_fits_def maxPaginationPages_def int64_min_def int64_max_def)
  have lt: "0 < wrap64 (int maxPaginationPages * 1)" using limit_fits_wrap [OF fits] by (simp add: lim) (simp add: maxPaginationPages_def)
  have url: "buildPaginatedURLMultiFrom ?e ''b'' (put_param (pg_LimitParam (pp_pagination ?e)) (itoa 1) [(pg_Param (pp_pagination ?e), itoa 0)])
      = Inr (''l='' @ demo_limit @ ''&p='' @ EscapeQueryComponent (itoa 0))"
    by (subst demo_url) (simp_all add: put_param_def one, simp_all add: demo_page_env_def)
  have page: "fetchOffsetWithMeta (counted (demo_fetch [])) ?e (''l='' @ demo_limit @ ''&p='' @ EscapeQueryComponent (itoa 0)) f ((), 0)
      = (Ran (Inr ([], extractIntField exact_ops [''data'' \<mapsto> GArr []] f)), ((), 1))" for f
    by (simp add: fetchOffsetWithMeta_def fetch_with_def counted_def demo_fetch_def demo_page_env_def extractRecordsFromObject_def
        extractDataFromField_def resolvePath_def split_simps convertToRecords_def)
  have "offset_loop (counted (demo_fetch [])) ?e ''b'' 1 (Suc maxPaginationPages) 0 [] ((), 0) = (Ran (Inr []), ((), 1))"
    by (simp only: offset_loop.simps lt if_True url page sum.case prod.case maybe_panic.case Let_def) simp
  then show run: "fetchWithPagination (counted (demo_fetch [])) ?e ''b'' ((), 0) = (Ran (Inr []), ((), 1))"
    using lim by (simp add: fetchWithPagination_def fetchOffsetBased_def Let_def flip: offset_limit_def) (simp add: demo_page_env_def)
  show "1 \<le> maxPaginationPages" by (rule pagination_bounded [OF fits run])
qed

end
