(* ===== verification/Auth.thy ===== *)
theory Auth
  imports HttpOutput Pipeline
begin

text \<open>
  Authentication: \<open>internal/auth/auth.go\<close>, \<open>oauth2.go\<close> and \<open>oauth2_tokencache.go\<close>. The four
  handlers and their constructors, the token request and the token cache all handlers share,
  and, as a step relation, the callers that miss the cache at the same time and are collapsed
  into one request. Parameters: the decoding of the credentials and of the token response, the
  digest, and the world, which holds the cache, the clock and the token endpoint.
\<close>

subsection \<open>Configuration\<close>

record AuthConfig =
  ac_Type :: string
  ac_Credentials :: string

record CredentialsAPIKey =
  ca_Key :: string
  ca_Location :: string
  ca_HeaderName :: string
  ca_ParamName :: string

record CredentialsBearer =
  cb_Token :: string

record CredentialsBasic =
  cb_Username :: string
  cb_Password :: string

record CredentialsOAuth2 =
  co_TokenURL :: string
  co_ClientID :: string
  co_ClientSecret :: string
  co_Scope :: string

record tokenResponse =
  tr_AccessToken :: string
  tr_TokenType :: string
  tr_ExpiresIn :: int
  tr_Scope :: string

text \<open>\<open>json.Unmarshal\<close> into each of the types.\<close>

record auth_codec =
  un_apikey :: "string \<Rightarrow> gerr + CredentialsAPIKey"
  un_bearer :: "string \<Rightarrow> gerr + CredentialsBearer"
  un_basic :: "string \<Rightarrow> gerr + CredentialsBasic"
  un_oauth2 :: "string \<Rightarrow> gerr + CredentialsOAuth2"
  un_token :: "string \<Rightarrow> gerr + tokenResponse"

record apiKeyHandler =
  ak_key :: string
  ak_location :: string
  ak_paramName :: string
  ak_headerName :: string

record oauth2Handler =
  oa_tokenURL :: string
  oa_clientID :: string
  oa_clientSecret :: string
  oa_scopes :: "string list"
  oa_cacheKey :: string

datatype handler_impl =
    APIKeyImpl apiKeyHandler
  | BearerImpl string
  | BasicImpl string string
  | OAuth2Impl oauth2Handler

definition ErrUnknownType :: gerr where "ErrUnknownType = plain_error ''unknown authentication type''"
definition ErrMissingAPIKey :: gerr where "ErrMissingAPIKey = plain_error ''api key is required for api-key authentication''"
definition ErrMissingBearerToken :: gerr where
  "ErrMissingBearerToken = plain_error ''token is required for bearer authentication''"
definition ErrMissingBasicAuth :: gerr where
  "ErrMissingBasicAuth = plain_error ''username and password are required for basic authentication''"
definition ErrMissingOAuth2Creds :: gerr where
  "ErrMissingOAuth2Creds = plain_error ''tokenUrl, clientId, and clientSecret are required for oauth2 authentication''"
definition ErrPreviewUnavailable :: gerr where
  "ErrPreviewUnavailable = plain_error ''auth preview unavailable without network I/O''"
definition ErrOAuth2TokenFailed :: gerr where
  "ErrOAuth2TokenFailed = plain_error ''failed to obtain OAuth2 access token''"

subsection \<open>The token cache\<close>

record tokenCacheEntry =
  te_token :: string
  te_expiry :: int

type_synonym tokenCache = "string \<Rightarrow> tokenCacheEntry option"

text \<open>The digest of the parts, each ended by a zero byte.\<close>

definition key_material :: "string list \<Rightarrow> string" where
  "key_material parts = concat (map (\<lambda>part. part @ [CHR 0x00]) parts)"

definition tokenCacheKey :: "(string \<Rightarrow> string) \<Rightarrow> string \<Rightarrow> string \<Rightarrow> string \<Rightarrow> string list \<Rightarrow> string" where
  "tokenCacheKey sha256_hex tokenURL clientID clientSecret scopes =
     sha256_hex (key_material ([tokenURL, clientID, clientSecret] @ scopes))"

definition token_get :: "tokenCache \<Rightarrow> int \<Rightarrow> string \<Rightarrow> (string \<times> int) option" where
  "token_get c now key =
     (case c key of
        None \<Rightarrow> None
      | Some entry \<Rightarrow>
          if te_token entry = [] \<or> \<not> now < te_expiry entry then None
          else Some (te_token entry, te_expiry entry))"

definition token_put :: "tokenCache \<Rightarrow> string \<Rightarrow> string \<Rightarrow> int \<Rightarrow> tokenCache" where
  "token_put c key token expiry = c(key \<mapsto> \<lparr>te_token = token, te_expiry = expiry\<rparr>)"

definition token_invalidate :: "tokenCache \<Rightarrow> string \<Rightarrow> tokenCache" where
  "token_invalidate c key = c(key := None)"

subsection \<open>The token request\<close>

definition tokenExpiryBuffer :: int where "tokenExpiryBuffer = 60 * 1000000000"

definition maxTokenResponseSize :: nat where "maxTokenResponseSize = 64 * 1024"

text \<open>\<open>strings.Fields\<close>, on the white space of \<open>trim_space\<close>.\<close>

function fields_of :: "string \<Rightarrow> string \<Rightarrow> string list" where
  "fields_of cur s =
     (if s = [] then (if cur = [] then [] else [cur])
      else if space_prefix utf8_spaces s > 0
      then (if cur = [] then [] else [cur]) @ fields_of [] (drop (space_prefix utf8_spaces s) s)
      else fields_of (cur @ [hd s]) (tl s))"
  by pat_completeness auto
termination
  by (relation "measure (\<lambda>(cur, s). length s)") auto

declare fields_of.simps [simp del]

definition strings_Fields :: "string \<Rightarrow> string list" where
  "strings_Fields s = fields_of [] s"

text \<open>\<open>url.Values.Encode\<close>: the pairs by name.\<close>

definition url_Values_Encode :: "(string \<times> string) list \<Rightarrow> string" where
  "url_Values_Encode ps =
     join_with (CHR ''&'')
       (map (\<lambda>name. QueryEscape name @ ''='' @ QueryEscape (the (map_of ps name))) (sort (map fst ps)))"

definition token_form :: "oauth2Handler \<Rightarrow> (string \<times> string) list" where
  "token_form h =
     [(''grant_type'', ''client_credentials''), (''client_id'', oa_clientID h), (''client_secret'', oa_clientSecret h)]
     @ (if length (oa_scopes h) > 0 then [(''scope'', join_str '' '' (oa_scopes h))] else [])"

text \<open>
  What becomes of the request: \<open>http.NewRequestWithContext\<close> refuses the URL, the client fails,
  or there is a response.
\<close>

datatype token_reply = NoRequest gerr | NoResponse gerr | TokenReply http_response

text \<open>The outcome \<open>fetchToken\<close> reads from it at the time \<open>now\<close>.\<close>

definition token_failed :: "string \<Rightarrow> gerr \<Rightarrow> gerr" where
  "token_failed msg err = errorf2 (err_text ErrOAuth2TokenFailed @ '': '' @ msg @ '': '' @ err_text err) ErrOAuth2TokenFailed err"

definition token_lifetime :: "int \<Rightarrow> int" where
  "token_lifetime expiresIn =
     (if expiresIn > 0
      then (let bufferedExpiry = wrap64 (wrap64 (expiresIn * 1000000000) - tokenExpiryBuffer)
            in if bufferedExpiry < 0 then 0 else bufferedExpiry)
      else 24 * 3600 * 1000000000)"

definition read_token :: "auth_codec \<Rightarrow> int \<Rightarrow> token_reply \<Rightarrow> gerr + string \<times> int" where
  "read_token codec now reply =
     (case reply of
        NoRequest err \<Rightarrow> Inl (token_failed ''creating token request'' err)
      | NoResponse err \<Rightarrow> Inl (token_failed ''executing token request'' err)
      | TokenReply resp \<Rightarrow>
          (case (if length (rs_stream resp) < maxTokenResponseSize then rs_stream_err resp else None) of
             Some err \<Rightarrow> Inl (token_failed ''reading token response'' err)
           | None \<Rightarrow>
               let body = take maxTokenResponseSize (rs_stream resp)
               in if rs_StatusCode resp \<noteq> 200
                  then Inl (errorf (err_text ErrOAuth2TokenFailed @ '': token endpoint returned status ''
                              @ itoa (rs_StatusCode resp)) ErrOAuth2TokenFailed)
                  else (case un_token codec body of
                          Inl err \<Rightarrow> Inl (token_failed ''parsing token response'' err)
                        | Inr tokenResp \<Rightarrow>
                            if trim_space (tr_AccessToken tokenResp) = []
                            then Inl (errorf (err_text ErrOAuth2TokenFailed @ '': token endpoint returned empty access_token'')
                                        ErrOAuth2TokenFailed)
                            else Inr (tr_AccessToken tokenResp, now + token_lifetime (tr_ExpiresIn tokenResp)))))"

text \<open>The world of the handlers.\<close>

record 'h auth_world =
  aw_cache :: "'h \<Rightarrow> tokenCache"
  aw_set_cache :: "tokenCache \<Rightarrow> 'h \<Rightarrow> 'h"
  aw_now :: "'h \<Rightarrow> int"
  aw_post :: "string \<Rightarrow> string \<Rightarrow> 'h \<Rightarrow> token_reply \<times> 'h"
  aw_codec :: auth_codec
  aw_sha256_hex :: "string \<Rightarrow> string"
  aw_parse_url :: "string \<Rightarrow> gerr + go_url"

definition fetchToken :: "'h auth_world \<Rightarrow> oauth2Handler \<Rightarrow> 'h \<Rightarrow> (gerr + string \<times> int) \<times> 'h" where
  "fetchToken w h s =
     (case aw_post w (oa_tokenURL h) (url_Values_Encode (token_form h)) s of
        (reply, s) \<Rightarrow> (read_token (aw_codec w) (aw_now w s) reply, s))"

text \<open>
  \<open>getValidToken\<close> of a caller that is alone: \<open>singleflight\<close> runs its function, which looks in
  the cache again first.
\<close>

definition getValidToken :: "'h auth_world \<Rightarrow> oauth2Handler \<Rightarrow> 'h \<Rightarrow> (gerr + string) \<times> 'h" where
  "getValidToken w h s =
     (case token_get (aw_cache w s) (aw_now w s) (oa_cacheKey h) of
        Some (token, _) \<Rightarrow> (Inr token, s)
      | None \<Rightarrow>
          (case token_get (aw_cache w s) (aw_now w s) (oa_cacheKey h) of
             Some (cached, _) \<Rightarrow> (Inr cached, s)
           | None \<Rightarrow>
               (case fetchToken w h s of
                  (Inl fetchErr, s) \<Rightarrow> (Inl fetchErr, s)
                | (Inr (fetched, expiry), s) \<Rightarrow>
                    (Inr fetched, aw_set_cache w (token_put (aw_cache w s) (oa_cacheKey h) fetched expiry) s))))"

definition InvalidateToken :: "'h auth_world \<Rightarrow> oauth2Handler \<Rightarrow> 'h \<Rightarrow> 'h" where
  "InvalidateToken w h s = aw_set_cache w (token_invalidate (aw_cache w s) (oa_cacheKey h)) s"

definition TokenExpiry :: "'h auth_world \<Rightarrow> oauth2Handler \<Rightarrow> 'h \<Rightarrow> int option" where
  "TokenExpiry w h s = map_option snd (token_get (aw_cache w s) (aw_now w s) (oa_cacheKey h))"

subsection \<open>Applying credentials\<close>

definition set_header :: "string \<Rightarrow> string \<Rightarrow> call_request \<Rightarrow> call_request" where
  "set_header name value req = req\<lparr>cr_Headers := header_Set (cr_Headers req) name value\<rparr>"

text \<open>\<open>encoding/base64\<close>, standard alphabet with padding, for \<open>SetBasicAuth\<close>.\<close>

definition base64_char :: "nat \<Rightarrow> char" where
  "base64_char d =
     (if d < 26 then char_of (65 + d) else if d < 52 then char_of (97 + (d - 26))
      else if d < 62 then char_of (48 + (d - 52)) else if d = 62 then CHR ''+'' else CHR ''/'')"

fun base64 :: "string \<Rightarrow> string" where
  "base64 [] = []"
| "base64 [a] = (let n = of_char a * 16 in [base64_char (n div 64), base64_char (n mod 64), CHR ''='', CHR ''=''])"
| "base64 [a, b] =
     (let n = (of_char a * 256 + of_char b) * 4
      in [base64_char (n div 4096), base64_char (n div 64 mod 64), base64_char (n mod 64), CHR ''=''])"
| "base64 (a # b # c # s) =
     (let n = (of_char a * 256 + of_char b) * 256 + of_char c
      in [base64_char (n div 262144), base64_char (n div 4096 mod 64), base64_char (n div 64 mod 64), base64_char (n mod 64)]
         @ base64 s)"

text \<open>\<open>url.URL.String\<close> of a parsed URL.\<close>

definition url_String :: "go_url \<Rightarrow> string" where
  "url_String u = print_with u (url_query u)"

definition apiKey_ApplyAuth :: "(string \<Rightarrow> gerr + go_url) \<Rightarrow> apiKeyHandler \<Rightarrow> call_request \<Rightarrow> gerr + call_request" where
  "apiKey_ApplyAuth parse h req =
     (let fail = (\<lambda>err. errorf (''adding api-key query parameter: '' @ err_text err) err)
      in if ak_location h = ''query'' then
           (case MergeQueryParams parse (cr_URL req) [(ak_paramName h, ak_key h)] of
              Inl err \<Rightarrow> Inl (fail err)
            | Inr merged \<Rightarrow>
                (case parse merged of
                   Inl err \<Rightarrow> Inl (fail err)
                 | Inr parsed \<Rightarrow> Inr (req\<lparr>cr_URL := url_String parsed\<rparr>)))
         else if ak_location h = ''header'' then Inr (set_header (ak_headerName h) (ak_key h) req)
         else Inr req)"

definition oauth2_ApplyAuth :: "'h auth_world \<Rightarrow> oauth2Handler \<Rightarrow> call_request \<Rightarrow> 'h \<Rightarrow> (gerr + call_request) \<times> 'h" where
  "oauth2_ApplyAuth w h req s =
     (case getValidToken w h s of
        (Inl err, s) \<Rightarrow> (Inl err, s)
      | (Inr token, s) \<Rightarrow> (Inr (set_header ''Authorization'' (''Bearer '' @ token) req), s))"

definition oauth2_PreviewAuth :: "'h auth_world \<Rightarrow> oauth2Handler \<Rightarrow> call_request \<Rightarrow> 'h \<Rightarrow> gerr + call_request" where
  "oauth2_PreviewAuth w h req s =
     (case token_get (aw_cache w s) (aw_now w s) (oa_cacheKey h) of
        None \<Rightarrow> Inl ErrPreviewUnavailable
      | Some (token, _) \<Rightarrow> Inr (set_header ''Authorization'' (''Bearer '' @ token) req))"

definition basic_ApplyAuth :: "string \<Rightarrow> string \<Rightarrow> call_request \<Rightarrow> call_request" where
  "basic_ApplyAuth username password req =
     set_header ''Authorization'' (''Basic '' @ base64 (username @ '':'' @ password)) req"

definition handler_of :: "'h auth_world \<Rightarrow> handler_impl \<Rightarrow> 'h auth_handler" where
  "handler_of w impl =
     (case impl of
        APIKeyImpl k \<Rightarrow> \<lparr>ah_Type = ''api-key'', ah_Apply = (\<lambda>req s. (apiKey_ApplyAuth (aw_parse_url w) k req, s)),
                         ah_Invalidate = None, ah_Preview = None\<rparr>
      | BearerImpl token \<Rightarrow> \<lparr>ah_Type = ''bearer'', ah_Apply = (\<lambda>req s. (Inr (set_header ''Authorization'' (''Bearer '' @ token) req), s)),
                             ah_Invalidate = None, ah_Preview = None\<rparr>
      | BasicImpl u p \<Rightarrow> \<lparr>ah_Type = ''basic'', ah_Apply = (\<lambda>req s. (Inr (basic_ApplyAuth u p req), s)),
                          ah_Invalidate = None, ah_Preview = None\<rparr>
      | OAuth2Impl h \<Rightarrow> \<lparr>ah_Type = ''oauth2'', ah_Apply = oauth2_ApplyAuth w h,
                         ah_Invalidate = Some (InvalidateToken w h), ah_Preview = Some (oauth2_PreviewAuth w h)\<rparr>)"

subsection \<open>Constructors\<close>

definition newAPIKeyHandler :: "auth_codec \<Rightarrow> AuthConfig \<Rightarrow> gerr + apiKeyHandler" where
  "newAPIKeyHandler codec config =
     (case un_apikey codec (ac_Credentials config) of
        Inl err \<Rightarrow> Inl (errorf (''invalid api-key credentials: '' @ err_text err) err)
      | Inr creds \<Rightarrow>
          if ca_Key creds = [] then Inl ErrMissingAPIKey
          else
            let location = (if ca_Location creds = [] then ''header'' else ca_Location creds)
            in if location \<noteq> ''header'' \<and> location \<noteq> ''query''
               then Inl (plain_error (''invalid api-key location \"'' @ location @ ''\" (expected '' @ CHR 0x27 # ''header''
                           @ CHR 0x27 # '' or '' @ CHR 0x27 # ''query'' @ CHR 0x27 # '')''))
               else Inr \<lparr>ak_key = ca_Key creds, ak_location = location,
                         ak_paramName = (if ca_ParamName creds = [] then ''api_key'' else ca_ParamName creds),
                         ak_headerName = (if ca_HeaderName creds = [] then ''X-API-Key'' else ca_HeaderName creds)\<rparr>)"

definition newBearerHandler :: "auth_codec \<Rightarrow> AuthConfig \<Rightarrow> gerr + string" where
  "newBearerHandler codec config =
     (case un_bearer codec (ac_Credentials config) of
        Inl err \<Rightarrow> Inl (errorf (''invalid bearer credentials: '' @ err_text err) err)
      | Inr creds \<Rightarrow> if cb_Token creds = [] then Inl ErrMissingBearerToken else Inr (cb_Token creds))"

definition newBasicHandler :: "auth_codec \<Rightarrow> AuthConfig \<Rightarrow> gerr + string \<times> string" where
  "newBasicHandler codec config =
     (case un_basic codec (ac_Credentials config) of
        Inl err \<Rightarrow> Inl (errorf (''invalid basic credentials: '' @ err_text err) err)
      | Inr creds \<Rightarrow>
          if cb_Username creds = [] \<or> cb_Password creds = [] then Inl ErrMissingBasicAuth
          else Inr (cb_Username creds, cb_Password creds))"

definition parseOAuth2Credentials :: "auth_codec \<Rightarrow> string \<Rightarrow> gerr + CredentialsOAuth2" where
  "parseOAuth2Credentials codec raw =
     (case un_oauth2 codec raw of
        Inl err \<Rightarrow> Inl (errorf (''invalid oauth2 credentials: '' @ err_text err) err)
      | Inr parsed \<Rightarrow> Inr parsed)"

definition newOAuth2Handler :: "auth_codec \<Rightarrow> (string \<Rightarrow> string) \<Rightarrow> AuthConfig \<Rightarrow> gerr + oauth2Handler" where
  "newOAuth2Handler codec sha256_hex config =
     (case parseOAuth2Credentials codec (ac_Credentials config) of
        Inl err \<Rightarrow> Inl err
      | Inr creds \<Rightarrow>
          if co_TokenURL creds = [] \<or> co_ClientID creds = [] \<or> co_ClientSecret creds = [] then Inl ErrMissingOAuth2Creds
          else
            let scopes = strings_Fields (co_Scope creds)
            in Inr \<lparr>oa_tokenURL = co_TokenURL creds, oa_clientID = co_ClientID creds,
                    oa_clientSecret = co_ClientSecret creds, oa_scopes = scopes,
                    oa_cacheKey = tokenCacheKey sha256_hex (co_TokenURL creds) (co_ClientID creds)
                                    (co_ClientSecret creds) scopes\<rparr>)"

text \<open>\<open>NewHandler\<close>, first the handler it builds, then the interface the modules use.\<close>

definition new_impl :: "auth_codec \<Rightarrow> (string \<Rightarrow> string) \<Rightarrow> AuthConfig \<Rightarrow> gerr + handler_impl" where
  "new_impl codec sha256_hex config =
     (if ac_Type config = ''api-key'' then map_sum id APIKeyImpl (newAPIKeyHandler codec config)
      else if ac_Type config = ''bearer'' then map_sum id BearerImpl (newBearerHandler codec config)
      else if ac_Type config = ''basic'' then map_sum id (\<lambda>(u, p). BasicImpl u p) (newBasicHandler codec config)
      else if ac_Type config = ''oauth2'' then map_sum id OAuth2Impl (newOAuth2Handler codec sha256_hex config)
      else Inl (errorf (err_text ErrUnknownType @ '': '' @ ac_Type config) ErrUnknownType))"

definition NewHandler :: "'h auth_world \<Rightarrow> AuthConfig option \<Rightarrow> gerr + 'h auth_handler option" where
  "NewHandler w config =
     (case config of
        None \<Rightarrow> Inr None
      | Some c \<Rightarrow> (case new_impl (aw_codec w) (aw_sha256_hex w) c of
                     Inl err \<Rightarrow> Inl err
                   | Inr impl \<Rightarrow> Inr (Some (handler_of w impl))))"


subsection \<open>Callers at the same time\<close>

text \<open>
  \<open>getValidToken\<close> of many goroutines. A caller looks in the cache, then joins the flight of its
  key or starts one (\<open>singleflight.Group.Do\<close>, a parameter); the
  leader looks again, requests a token, stores it and ends the flight, which gives its result to
  every caller that waits. One step is one critical section, or the request. \<open>fl_sent\<close> counts the
  requests of a key; \<open>fl_lost\<close> counts what forces another one: a request that brings no token, a
  token that expires (before or after it is stored), a token that is invalidated. \<open>fl_issued\<close>
  collects the tokens the endpoint has issued for a key.
\<close>

datatype call_pc =
    Idle
  | Looking string
  | Missed string
  | Waiting string
  | Leading string
  | Requesting string
  | Storing string string int
  | Closing string "gerr + string"
  | Returned string "gerr + string"

text \<open>
  What the code uses of \<open>singleflight.Group\<close>: a call of \<open>Do\<close> either runs the function or waits for
  the call of the same key that runs it, and the end of the function ends the flight of the key
  and gives its result to the calls that wait. \<open>sf_flight\<close> observes which call runs the function.
  \<open>single_flight\<close> is the documented contract: one execution of a key is under way at a time,
  and a call while it is waits.
\<close>

record 'g singleflight =
  sf_new :: 'g
  sf_flight :: "'g \<Rightarrow> string \<Rightarrow> nat option"
  sf_Do :: "'g \<Rightarrow> string \<Rightarrow> nat \<Rightarrow> bool \<times> 'g"
  sf_end :: "'g \<Rightarrow> string \<Rightarrow> 'g"

definition single_flight :: "'g singleflight \<Rightarrow> bool" where
  "single_flight sf \<longleftrightarrow>
     sf_flight sf (sf_new sf) = Map.empty
     \<and> (\<forall>g k t. sf_flight sf g k = None \<longrightarrow>
          fst (sf_Do sf g k t) \<and> sf_flight sf (snd (sf_Do sf g k t)) = (sf_flight sf g)(k \<mapsto> t))
     \<and> (\<forall>g k t. sf_flight sf g k \<noteq> None \<longrightarrow>
          \<not> fst (sf_Do sf g k t) \<and> sf_flight sf (snd (sf_Do sf g k t)) = sf_flight sf g)
     \<and> (\<forall>g k. sf_flight sf (sf_end sf g k) = (sf_flight sf g)(k := None))"

record 'g flight_state =
  fl_cache :: tokenCache
  fl_now :: int
  fl_group :: 'g
  fl_pc :: "nat \<Rightarrow> call_pc"
  fl_sent :: "string \<Rightarrow> nat"
  fl_lost :: "string \<Rightarrow> nat"
  fl_issued :: "(string \<times> string) set"

definition has_token :: "tokenCache \<Rightarrow> int \<Rightarrow> string \<Rightarrow> bool" where
  "has_token c now k \<longleftrightarrow> token_get c now k \<noteq> None"

definition add_lost :: "string \<Rightarrow> bool \<Rightarrow> 'g flight_state \<Rightarrow> 'g flight_state" where
  "add_lost k b s = s\<lparr>fl_lost := (fl_lost s)(k := fl_lost s k + (if b then 1 else 0))\<rparr>"

abbreviation fl_flight :: "'g singleflight \<Rightarrow> 'g flight_state \<Rightarrow> string \<Rightarrow> nat option" where
  "fl_flight sf s \<equiv> sf_flight sf (fl_group s)"

text \<open>The next section of the caller \<open>t\<close>; \<open>reply\<close> is what the endpoint answers if it is asked.\<close>

fun call_section ::
  "'g singleflight \<Rightarrow> auth_codec \<Rightarrow> token_reply \<Rightarrow> nat \<Rightarrow> call_pc \<Rightarrow> 'g flight_state \<Rightarrow> call_pc \<times> 'g flight_state" where
  "call_section sf codec reply t (Looking k) s =
     (case token_get (fl_cache s) (fl_now s) k of
        Some (token, _) \<Rightarrow> (Returned k (Inr token), s)
      | None \<Rightarrow> (Missed k, s))"
| "call_section sf codec reply t (Missed k) s =
     (case sf_Do sf (fl_group s) k t of
        (runs, g) \<Rightarrow> (if runs then Leading k else Waiting k, s\<lparr>fl_group := g\<rparr>))"
| "call_section sf codec reply t (Leading k) s =
     (case token_get (fl_cache s) (fl_now s) k of
        Some (cached, _) \<Rightarrow> (Closing k (Inr cached), s)
      | None \<Rightarrow> (Requesting k, s))"
| "call_section sf codec reply t (Requesting k) s =
     (let s = s\<lparr>fl_sent := (fl_sent s)(k := fl_sent s k + 1)\<rparr>
      in (case read_token codec (fl_now s) reply of
            Inl fetchErr \<Rightarrow> (Closing k (Inl fetchErr), add_lost k True s)
          | Inr (fetched, expiry) \<Rightarrow> (Storing k fetched expiry, s\<lparr>fl_issued := insert (k, fetched) (fl_issued s)\<rparr>)))"
| "call_section sf codec reply t (Storing k token expiry) s =
     (Closing k (Inr token),
      add_lost k (\<not> fl_now s < expiry) (s\<lparr>fl_cache := token_put (fl_cache s) k token expiry\<rparr>))"
| "call_section sf codec reply t (Closing k result) s =
     (Returned k result,
      s\<lparr>fl_group := sf_end sf (fl_group s) k,
        fl_pc := (\<lambda>u. if fl_pc s u = Waiting k then Returned k result else fl_pc s u)\<rparr>)"
| "call_section sf codec reply t p s = (p, s)"

fun can_move :: "call_pc \<Rightarrow> bool" where
  "can_move Idle = False"
| "can_move (Waiting k) = False"
| "can_move (Returned k r) = False"
| "can_move p = True"

inductive call_step :: "'g singleflight \<Rightarrow> auth_codec \<Rightarrow> 'g flight_state \<Rightarrow> 'g flight_state \<Rightarrow> bool" for sf codec where
  "can_move (fl_pc s t) \<Longrightarrow> call_section sf codec reply t (fl_pc s t) s = (p, s')
   \<Longrightarrow> call_step sf codec s (s'\<lparr>fl_pc := (fl_pc s')(t := p)\<rparr>)"

inductive flight_step :: "'g singleflight \<Rightarrow> auth_codec \<Rightarrow> 'g flight_state \<Rightarrow> 'g flight_state \<Rightarrow> bool" for sf codec where
  run: "call_step sf codec s s' \<Longrightarrow> flight_step sf codec s s'"
| call: "fl_pc s t = Idle \<or> (\<exists>k r. fl_pc s t = Returned k r)
         \<Longrightarrow> flight_step sf codec s (s\<lparr>fl_pc := (fl_pc s)(t := Looking key)\<rparr>)"
| tick: "0 \<le> d \<Longrightarrow> flight_step sf codec s
           (s\<lparr>fl_now := fl_now s + d,
              fl_lost := (\<lambda>k. fl_lost s k + (if has_token (fl_cache s) (fl_now s) k
                                              \<and> \<not> has_token (fl_cache s) (fl_now s + d) k then 1 else 0))\<rparr>)"
| invalidate: "flight_step sf codec s
           (add_lost key (has_token (fl_cache s) (fl_now s) key) (s\<lparr>fl_cache := token_invalidate (fl_cache s) key\<rparr>))"

definition flight_start :: "'g singleflight \<Rightarrow> int \<Rightarrow> 'g flight_state" where
  "flight_start sf now =
     \<lparr>fl_cache = Map.empty, fl_now = now, fl_group = sf_new sf, fl_pc = (\<lambda>_. Idle),
      fl_sent = (\<lambda>_. 0), fl_lost = (\<lambda>_. 0), fl_issued = {}\<rparr>"

inductive flight_reach :: "'g singleflight \<Rightarrow> auth_codec \<Rightarrow> 'g flight_state \<Rightarrow> bool" for sf codec where
  start: "flight_reach sf codec (flight_start sf now)"
| step: "flight_reach sf codec s \<Longrightarrow> flight_step sf codec s s' \<Longrightarrow> flight_reach sf codec s'"

subsection \<open>Its invariant\<close>

fun leads :: "string \<Rightarrow> call_pc \<Rightarrow> bool" where
  "leads k (Leading j) = (j = k)"
| "leads k (Requesting j) = (j = k)"
| "leads k (Storing j _ _) = (j = k)"
| "leads k (Closing j _) = (j = k)"
| "leads k _ = False"

fun stores :: "call_pc \<Rightarrow> bool" where
  "stores (Storing _ _ _) = True"
| "stores _ = False"

text \<open>The leader of \<open>k\<close> has a token that is not in the cache yet.\<close>

definition storing :: "'g singleflight \<Rightarrow> 'g flight_state \<Rightarrow> string \<Rightarrow> bool" where
  "storing sf s k = (case fl_flight sf s k of None \<Rightarrow> False | Some t \<Rightarrow> stores (fl_pc s t))"

text \<open>What holds of one caller.\<close>

fun caller_ok :: "'g singleflight \<Rightarrow> 'g flight_state \<Rightarrow> call_pc \<Rightarrow> bool" where
  "caller_ok sf s (Waiting k) = (fl_flight sf s k \<noteq> None)"
| "caller_ok sf s (Requesting k) = (\<not> has_token (fl_cache s) (fl_now s) k)"
| "caller_ok sf s (Storing k tok e) = (\<not> has_token (fl_cache s) (fl_now s) k \<and> tok \<noteq> [] \<and> (k, tok) \<in> fl_issued s)"
| "caller_ok sf s (Closing k r) = (case r of Inl _ \<Rightarrow> True | Inr tok \<Rightarrow> (k, tok) \<in> fl_issued s)"
| "caller_ok sf s (Returned k r) = (case r of Inl _ \<Rightarrow> True | Inr tok \<Rightarrow> (k, tok) \<in> fl_issued s)"
| "caller_ok sf s _ = True"

definition flight_inv :: "'g singleflight \<Rightarrow> 'g flight_state \<Rightarrow> bool" where
  "flight_inv sf s \<longleftrightarrow>
     (\<forall>k t. fl_flight sf s k = Some t \<longleftrightarrow> leads k (fl_pc s t))
   \<and> (\<forall>t. caller_ok sf s (fl_pc s t))
   \<and> (\<forall>k e. fl_cache s k = Some e \<longrightarrow> (k, te_token e) \<in> fl_issued s)
   \<and> (\<forall>k. fl_sent s k = fl_lost s k + (if has_token (fl_cache s) (fl_now s) k \<or> storing sf s k then 1 else 0))"

lemma has_token_put: "tok \<noteq> [] \<Longrightarrow> has_token (token_put c k tok e) now j = (if j = k then now < e else has_token c now j)"
  by (simp add: has_token_def token_get_def token_put_def)

lemma has_token_invalidate: "has_token (token_invalidate c k) now j = (j \<noteq> k \<and> has_token c now j)"
  by (simp add: has_token_def token_get_def token_invalidate_def)

lemma has_token_later: "has_token c (now + d) k \<Longrightarrow> 0 \<le> d \<Longrightarrow> has_token c now k"
  by (auto simp: has_token_def token_get_def split: option.splits if_splits)

lemma token_get_Some: "token_get c now k = Some (tok, e) \<Longrightarrow> has_token c now k \<and> (\<exists>en. c k = Some en \<and> te_token en = tok)"
  by (auto simp: has_token_def token_get_def split: option.splits if_splits)

lemma trim_space_Nil [simp]: "trim_space [] = []"
proof -
  have "trim_left sps [] = []" for sps by (subst trim_left.simps) simp
  then show ?thesis by (simp add: trim_space_def)
qed

lemma read_token_nonempty: "read_token codec now reply = Inr (tok, e) \<Longrightarrow> tok \<noteq> []"
  by (auto simp: read_token_def Let_def split: token_reply.splits option.splits sum.splits if_splits)

lemma add_lost_simps [simp]:
  "fl_cache (add_lost k b s) = fl_cache s" "fl_now (add_lost k b s) = fl_now s" "fl_flight sf (add_lost k b s) = fl_flight sf s"
  "fl_pc (add_lost k b s) = fl_pc s" "fl_sent (add_lost k b s) = fl_sent s" "fl_issued (add_lost k b s) = fl_issued s"
  "fl_lost (add_lost k b s) j = fl_lost s j + (if j = k \<and> b then 1 else 0)"
  by (simp_all add: add_lost_def)

lemma flight_inv_start: "single_flight sf \<Longrightarrow> flight_inv sf (flight_start sf now)"
  by (auto simp: single_flight_def flight_inv_def flight_start_def has_token_def token_get_def storing_def)


lemma inv_leader: "flight_inv sf s \<Longrightarrow> leads k (fl_pc s t) \<Longrightarrow> fl_flight sf s k = Some t"
  by (simp add: flight_inv_def)

lemma inv_storing: "flight_inv sf s \<Longrightarrow> leads k (fl_pc s t) \<Longrightarrow> storing sf s k = stores (fl_pc s t)"
  by (simp add: inv_leader storing_def)

lemma stores_leads: "stores p \<Longrightarrow> \<exists>k. leads k p"
  by (cases p) auto

text \<open>A caller that moves without touching the flights: what is left to show of the others.\<close>

lemma inv_move:
  assumes "flight_inv sf s" "\<And>k. leads k p = leads k (fl_pc s t)" "caller_ok sf s' p"
    and "fl_flight sf s' = fl_flight sf s" "fl_pc s' = fl_pc s"
    and "\<And>u. u \<noteq> t \<Longrightarrow> caller_ok sf s' (fl_pc s u)"
    and "\<And>k e. fl_cache s' k = Some e \<Longrightarrow> (k, te_token e) \<in> fl_issued s'"
    and "\<And>k. fl_sent s' k = fl_lost s' k +
           (if has_token (fl_cache s') (fl_now s') k \<or> (if leads k p then stores p else storing sf s k) then 1 else 0)"
  shows "flight_inv sf (s'\<lparr>fl_pc := (fl_pc s')(t := p)\<rparr>)"
proof -
  have st: "storing sf (s'\<lparr>fl_pc := (fl_pc s')(t := p)\<rparr>) k = (if leads k p then stores p else storing sf s k)" for k
  proof (cases "leads k p")
    case True
    with assms(2) have "fl_flight sf s k = Some t" using inv_leader [OF assms(1)] by simp
    with True assms(4) show ?thesis by (simp add: storing_def)
  next
    case False
    with assms(2) have "fl_flight sf s k \<noteq> Some t" using assms(1) by (auto simp: flight_inv_def)
    with False assms(4,5) show ?thesis by (simp add: storing_def split: option.split)
  qed
  have ok: "caller_ok sf (s'\<lparr>fl_pc := f\<rparr>) q = caller_ok sf s' q" for f q by (cases q) (auto split: sum.split)
  have fl: "fl_flight sf s k = Some u \<longleftrightarrow> leads k (fl_pc s u)" for k u using assms(1) by (simp add: flight_inv_def)
  show ?thesis unfolding flight_inv_def
    using assms(2-) st by (auto simp: ok fl)
qed


text \<open>A caller keeps its condition when issued tokens stay issued and no token and no flight appears that was not there.\<close>

lemma caller_ok_mono:
  assumes "caller_ok sf s p" "fl_issued s \<subseteq> fl_issued s'" "\<And>k. fl_flight sf s k \<noteq> None \<Longrightarrow> fl_flight sf s' k \<noteq> None"
    and "\<And>k. leads k p \<Longrightarrow> has_token (fl_cache s') (fl_now s') k \<Longrightarrow> has_token (fl_cache s) (fl_now s) k"
  shows "caller_ok sf s' p"
  using assms by (cases p) (auto split: sum.split)

lemma call_step_inv:
  assumes "call_step sf codec s s2" "flight_inv sf s" "single_flight sf"
  shows "flight_inv sf s2"
  using assms(1)
proof cases
  case (1 t reply p s')
  note inv = assms(2)
  have lead: "\<And>k. leads k (fl_pc s t) \<Longrightarrow> fl_flight sf s k = Some t" by (rule inv_leader [OF inv])
  have me: "caller_ok sf s (fl_pc s t)" and others: "\<And>u. caller_ok sf s (fl_pc s u)"
    and issued: "\<And>k e. fl_cache s k = Some e \<Longrightarrow> (k, te_token e) \<in> fl_issued s"
    and sums: "\<And>k. fl_sent s k = fl_lost s k + (if has_token (fl_cache s) (fl_now s) k \<or> storing sf s k then 1 else 0)"
    and fl: "\<And>k u. fl_flight sf s k = Some u \<longleftrightarrow> leads k (fl_pc s u)"
    using inv by (auto simp: flight_inv_def)
  show ?thesis
  proof (cases "fl_pc s t")
    case (Looking k)
    show ?thesis unfolding 1(1)
      by (rule inv_move [OF inv])
        (use 1(3) Looking others issued sums in \<open>auto split: option.splits prod.splits dest: token_get_Some\<close>)
  next
    case (Leading k)
    have "storing sf s k = False" using lead [of k] Leading by (simp add: storing_def)
    show ?thesis unfolding 1(1)
      by (rule inv_move [OF inv])
        (use 1(3) Leading others issued sums \<open>storing sf s k = False\<close> in \<open>auto simp: has_token_def split: option.splits prod.splits dest: token_get_Some\<close>)
  next
    case (Requesting k)
    have no: "storing sf s k = False" "\<not> has_token (fl_cache s) (fl_now s) k"
      using lead [of k] Requesting me by (simp_all add: storing_def)
    have keep: "fl_cache s' = fl_cache s" "fl_now s' = fl_now s" "fl_flight sf s' = fl_flight sf s" "fl_pc s' = fl_pc s"
      "fl_issued s \<subseteq> fl_issued s'"
      using 1(3) Requesting by (auto simp: Let_def split: sum.splits prod.splits)
    show ?thesis unfolding 1(1)
    proof (rule inv_move [OF inv])
      fix u show "caller_ok sf s' (fl_pc s u)" by (rule caller_ok_mono [OF others]) (simp_all add: keep)
    qed (use 1(3) Requesting issued sums no keep in \<open>auto simp: Let_def read_token_nonempty split: sum.splits prod.splits\<close>)
  next
    case (Storing k tok e)
    have no: "storing sf s k" "\<not> has_token (fl_cache s) (fl_now s) k" "tok \<noteq> []" "(k, tok) \<in> fl_issued s"
      using lead [of k] Storing me by (simp_all add: storing_def)
    have s': "s' = add_lost k (\<not> fl_now s < e) (s\<lparr>fl_cache := token_put (fl_cache s) k tok e\<rparr>)" "p = Closing k (Inr tok)"
      using 1(3) Storing by simp_all
    show ?thesis unfolding 1(1)
    proof (rule inv_move [OF inv])
      fix u assume "u \<noteq> t"
      then have "\<not> leads k (fl_pc s u)" using lead [of k] Storing fl [of k u] by auto
      then show "caller_ok sf s' (fl_pc s u)"
        by (intro caller_ok_mono [OF others]) (auto simp: s' has_token_put no(3) split: if_splits)
    next
      fix j show "fl_sent s' j = fl_lost s' j +
           (if has_token (fl_cache s') (fl_now s') j \<or> (if leads j p then stores p else storing sf s j) then 1 else 0)"
        using sums [of j] no by (auto simp: s' has_token_put)
    qed (use Storing issued no in \<open>auto simp: s' token_put_def split: if_splits\<close>)
  next
    case (Missed k)
    obtain runs g where d: "sf_Do sf (fl_group s) k t = (runs, g)" by (meson surj_pair)
    show ?thesis
    proof (cases "fl_flight sf s k")
      case (Some v)
      with d assms(3) have g: "\<not> runs" "sf_flight sf g = sf_flight sf (fl_group s)"
        unfolding single_flight_def by (metis fst_conv snd_conv option.distinct(1))+
      then have s': "s' = s\<lparr>fl_group := g\<rparr>" "p = Waiting k" using 1(3) Missed d by simp_all
      have same: "caller_ok sf s' q = caller_ok sf s q" for q by (cases q) (simp_all add: s' g(2) cong: sum.case_cong)
      show ?thesis unfolding 1(1)
        by (rule inv_move [OF inv]) (use s' g Missed Some others issued sums same in auto)
    next
      case None
      with d assms(3) have g: "runs" "sf_flight sf g = (sf_flight sf (fl_group s))(k \<mapsto> t)"
        unfolding single_flight_def by (metis fst_conv snd_conv)+
      then have s': "s' = s\<lparr>fl_group := g\<rparr>" "p = Leading k" using 1(3) Missed d by simp_all
      have st: "storing sf (s'\<lparr>fl_pc := (fl_pc s')(t := p)\<rparr>) j = storing sf s j" for j
        using None lead [of j] Missed fl [of j t] by (auto simp: storing_def s' g split: option.split)
      have "caller_ok sf (s'\<lparr>fl_pc := (fl_pc s')(t := p)\<rparr>) (fl_pc s u)" for u
        by (rule caller_ok_mono [OF others]) (auto simp: s' g)
      moreover have "\<not> leads k (fl_pc s u)" for u using fl [of k u] None by simp
      ultimately show ?thesis unfolding 1(1) flight_inv_def st
        using fl Missed issued sums by (auto simp: s' g)
    qed
  next
    case (Closing k r)
    have no: "storing sf s k = False" using lead [of k] Closing by (simp add: storing_def)
    have e: "sf_flight sf (sf_end sf (fl_group s) k) = (sf_flight sf (fl_group s))(k := None)"
      using assms(3) unfolding single_flight_def by blast
    have s': "s' = s\<lparr>fl_group := sf_end sf (fl_group s) k,
        fl_pc := (\<lambda>u. if fl_pc s u = Waiting k then Returned k r else fl_pc s u)\<rparr>" "p = Returned k r"
      using 1(3) Closing by simp_all
    have st: "storing sf (s'\<lparr>fl_pc := (fl_pc s')(t := p)\<rparr>) j = storing sf s j" for j
    proof (cases "j = k \<or> fl_flight sf s j = None")
      case False
      then obtain u where "fl_flight sf s j = Some u" "leads j (fl_pc s u)" using fl by fastforce
      with False Closing show ?thesis by (auto simp: storing_def s' e)
    qed (use no in \<open>auto simp: storing_def s' e\<close>)
    have ok: "caller_ok sf (s'\<lparr>fl_pc := f\<rparr>) (fl_pc s u)" if "fl_pc s u \<noteq> Waiting k" for u f
      using others [of u] that by (cases "fl_pc s u") (auto simp: s' e split: sum.split)
    have res: "caller_ok sf (s'\<lparr>fl_pc := f\<rparr>) (Returned k r)" for f
      using me Closing by (auto simp: s' e split: sum.split)
    have one: "leads k (fl_pc s u) \<Longrightarrow> u = t" for u using lead [of k] Closing fl [of k u] by auto
    show ?thesis unfolding 1(1) flight_inv_def st
      using fl Closing issued sums ok res one by (auto simp: s' e)
  qed (use 1(2) in simp_all)
qed


lemma inv_storing_no_token:
  assumes "flight_inv sf s" "storing sf s k"
  shows "\<not> has_token (fl_cache s) (fl_now s) k"
proof -
  obtain t where "fl_flight sf s k = Some t" "stores (fl_pc s t)"
    using assms(2) by (auto simp: storing_def split: option.splits)
  moreover have "leads k (fl_pc s t)" "caller_ok sf s (fl_pc s t)" using assms(1) calculation by (auto simp: flight_inv_def)
  ultimately show ?thesis by (cases "fl_pc s t") auto
qed

lemma flight_step_inv:
  assumes "flight_step sf codec s s'" "flight_inv sf s" "single_flight sf"
  shows "flight_inv sf s'"
proof -
  note no = inv_storing_no_token [OF assms(2)]
  from assms(1) show ?thesis
proof cases
  case run
  then show ?thesis using assms(2,3) by (rule call_step_inv)
next
  case (call t key)
  have "\<not> leads k (fl_pc s t)" for k using call(2) by auto
  then show ?thesis unfolding call(1)
    by (intro inv_move [OF assms(2)]) (use assms(2) in \<open>auto simp: flight_inv_def\<close>)
next
  case (tick d)
  have now: "has_token (fl_cache s) (fl_now s + d) k \<Longrightarrow> has_token (fl_cache s) (fl_now s) k" for k
    using has_token_later tick(2) by blast
  have "caller_ok sf s' (fl_pc s u)" for u
    by (rule caller_ok_mono [of sf s]) (use assms(2) now in \<open>auto simp: tick(1) flight_inv_def\<close>)
  moreover have "storing sf s' k = storing sf s k" for k by (simp add: tick(1) storing_def split: option.split)
  ultimately show ?thesis using assms(2) now no unfolding flight_inv_def by (auto simp: tick(1))
next
  case (invalidate key)
  have "caller_ok sf s' (fl_pc s u)" for u
    by (rule caller_ok_mono [of sf s]) (use assms(2) in \<open>auto simp: invalidate flight_inv_def has_token_invalidate\<close>)
  moreover have "storing sf s' k = storing sf s k" for k by (simp add: invalidate storing_def split: option.split)
  ultimately show ?thesis using assms(2) no unfolding flight_inv_def
    by (auto simp: invalidate has_token_invalidate) (auto simp: token_invalidate_def split: if_splits)
qed
qed

lemma flight_reach_inv: "flight_reach sf codec s \<Longrightarrow> single_flight sf \<Longrightarrow> flight_inv sf s"
  by (induction rule: flight_reach.induct) (auto intro: flight_inv_start flight_step_inv)

subsection \<open>What it gives\<close>

text \<open>
  C20. Callers that miss the token cache at the same time share one request, with any group of
  flights that keeps the contract of \<open>singleflight\<close>: whatever the interleaving, a token is requested only when none was ever requested for its credentials or the
  last one was lost (refused, expired or invalidated), and at most one request of a key is under
  way.
\<close>
theorem token_requests_collapsed:
  assumes "single_flight sf" "flight_reach sf codec s"
  shows "fl_sent s k \<le> fl_lost s k + 1
       \<and> (fl_pc s t = Requesting k \<longrightarrow> fl_sent s k = fl_lost s k \<and> (\<forall>u. fl_pc s u = Requesting k \<longrightarrow> u = t))"
proof -
  have inv: "flight_inv sf s" using assms(2,1) by (rule flight_reach_inv)
  then have sums: "fl_sent s k = fl_lost s k + (if has_token (fl_cache s) (fl_now s) k \<or> storing sf s k then 1 else 0)"
    by (simp add: flight_inv_def)
  have "fl_sent s k = fl_lost s k \<and> (\<forall>u. fl_pc s u = Requesting k \<longrightarrow> u = t)" if r: "fl_pc s t = Requesting k"
  proof -
    have "fl_flight sf s k = Some u" if "fl_pc s u = Requesting k" for u using inv_leader [OF inv] that by simp
    moreover have "\<not> has_token (fl_cache s) (fl_now s) k" using inv r by (auto simp: flight_inv_def dest: spec [of _ t])
    moreover have "\<not> storing sf s k" using inv_storing [OF inv, of k t] r by simp
    ultimately show ?thesis using sums r by (metis add_0_right option.inject)
  qed
  with sums show ?thesis by auto
qed

subsection \<open>One caller\<close>

definition world_ok :: "'h auth_world \<Rightarrow> bool" where
  "world_ok w \<longleftrightarrow> (\<forall>c s. aw_cache w (aw_set_cache w c s) = c \<and> aw_now w (aw_set_cache w c s) = aw_now w s)"

text \<open>A request does not touch the cache and takes time.\<close>

definition post_ok :: "'h auth_world \<Rightarrow> bool" where
  "post_ok w \<longleftrightarrow> (\<forall>url form s reply s'. aw_post w url form s = (reply, s') \<longrightarrow>
     aw_cache w s' = aw_cache w s \<and> aw_now w s \<le> aw_now w s')"

lemma section_step:
  assumes "fl_pc s t = q" "can_move q" "call_section sf codec reply t q s = (p, s')"
  shows "flight_step sf codec s (s'\<lparr>fl_pc := (fl_pc s')(t := p)\<rparr>)"
  using assms by (blast intro: flight_step.run call_step.intros)

text \<open>
  A caller that is alone in the step relation computes what \<open>getValidToken\<close> computes: the same
  result, and the same cache at the same time.
\<close>
theorem getValidToken_is_lone_caller:
  assumes "world_ok w" "post_ok w" "getValidToken w h s = (res, s')"
    and "fl_cache f0 = aw_cache w s" "fl_now f0 = aw_now w s" "fl_pc f0 t = Looking (oa_cacheKey h)"
    and "fl_flight sf f0 (oa_cacheKey h) = None" "single_flight sf"
  shows "\<exists>f9. (flight_step sf (aw_codec w))\<^sup>*\<^sup>* f0 f9 \<and> fl_pc f9 t = Returned (oa_cacheKey h) res
       \<and> fl_cache f9 = aw_cache w s' \<and> fl_now f9 = aw_now w s'"
proof (cases "token_get (aw_cache w s) (aw_now w s) (oa_cacheKey h)")
  case (Some te)
  then obtain tok e where te: "token_get (aw_cache w s) (aw_now w s) (oa_cacheKey h) = Some (tok, e)" by (cases te) auto
  let ?k = "oa_cacheKey h"
  have "flight_step sf (aw_codec w) f0 (f0\<lparr>fl_pc := (fl_pc f0)(t := Returned ?k (Inr tok))\<rparr>)"
    by (rule section_step [OF assms(6)]) (simp_all add: assms(4,5) te)
  with te assms(3-5) show ?thesis
    by (intro exI [of _ "f0\<lparr>fl_pc := (fl_pc f0)(t := Returned ?k (Inr tok))\<rparr>"]) (auto simp: getValidToken_def)
next
  case None
  let ?k = "oa_cacheKey h" and ?c = "aw_codec w"
  let ?S = "flight_step sf ?c"
  define f1 where "f1 = f0\<lparr>fl_pc := (fl_pc f0)(t := Missed ?k)\<rparr>"
  obtain g where g: "sf_Do sf (fl_group f0) ?k t = (True, g)"
  proof -
    have "fst (sf_Do sf (fl_group f0) ?k t)" using assms(7,8) unfolding single_flight_def by blast
    with that show thesis by (cases "sf_Do sf (fl_group f0) ?k t") simp
  qed
  define f2 where "f2 = f1\<lparr>fl_group := g, fl_pc := (fl_pc f1)(t := Leading ?k)\<rparr>"
  define f3 where "f3 = f2\<lparr>fl_pc := (fl_pc f2)(t := Requesting ?k)\<rparr>"
  obtain reply s1 where post: "aw_post w (oa_tokenURL h) (url_Values_Encode (token_form h)) s = (reply, s1)" by fastforce
  then have keep: "aw_cache w s1 = aw_cache w s" "aw_now w s \<le> aw_now w s1" using assms(2) unfolding post_ok_def by blast+
  define f4 where "f4 = f3\<lparr>fl_now := fl_now f3 + (aw_now w s1 - aw_now w s),
              fl_lost := (\<lambda>k. fl_lost f3 k + (if has_token (fl_cache f3) (fl_now f3) k
                            \<and> \<not> has_token (fl_cache f3) (fl_now f3 + (aw_now w s1 - aw_now w s)) k then 1 else 0))\<rparr>"
  note cs = assms(4,5)
  have s1: "?S f0 f1" unfolding f1_def by (rule section_step [OF assms(6)]) (simp_all add: cs None)
  have s2: "?S f1 f2"
    using section_step [of f1 t "Missed ?k" sf ?c undefined "Leading ?k" "f1\<lparr>fl_group := g\<rparr>"] g by (simp add: f2_def f1_def)
  have s3: "?S f2 f3" unfolding f3_def by (rule section_step [of _ _ "Leading ?k"]) (simp_all add: f2_def f1_def cs None)
  have s4: "?S f3 f4" unfolding f4_def by (rule flight_step.tick) (use keep in simp)
  have f4: "fl_pc f4 t = Requesting ?k" "fl_now f4 = aw_now w s1" "fl_cache f4 = aw_cache w s1"
    by (simp_all add: f4_def f3_def f2_def f1_def cs keep)
  have so_far: "?S\<^sup>*\<^sup>* f0 f4"
    by (rule rtranclp.rtrancl_into_rtrancl [OF rtranclp.rtrancl_into_rtrancl [OF rtranclp.rtrancl_into_rtrancl
          [OF r_into_rtranclp [of ?S, OF s1] s2] s3] s4])
  show ?thesis
  proof (cases "read_token ?c (aw_now w s1) reply")
    case (Inl err)
    define f5 where "f5 = (add_lost ?k True (f4\<lparr>fl_sent := (fl_sent f4)(?k := fl_sent f4 ?k + 1)\<rparr>))\<lparr>fl_pc := (fl_pc f4)(t := Closing ?k (Inl err))\<rparr>"
    have "?S f4 f5" unfolding f5_def using section_step [of f4 t "Requesting ?k" sf ?c reply] f4 Inl by simp
    moreover obtain f6 where "?S f5 f6" "fl_pc f6 t = Returned ?k (Inl err)" "fl_cache f6 = fl_cache f5" "fl_now f6 = fl_now f5"
      using section_step [of f5 t "Closing ?k (Inl err)" sf ?c reply] by (force simp: f5_def)
    moreover have "res = Inl err" "s' = s1" using assms(3) None post Inl by (simp_all add: getValidToken_def fetchToken_def)
    ultimately show ?thesis using so_far f4 by (intro exI [of _ f6]) (auto simp: f5_def)
  next
    case (Inr te)
    then obtain tok e where te: "read_token ?c (aw_now w s1) reply = Inr (tok, e)" by (cases te) auto
    define f5 where "f5 = f4\<lparr>fl_sent := (fl_sent f4)(?k := fl_sent f4 ?k + 1), fl_issued := insert (?k, tok) (fl_issued f4),
        fl_pc := (fl_pc f4)(t := Storing ?k tok e)\<rparr>"
    have s5: "?S f4 f5" unfolding f5_def using section_step [of f4 t "Requesting ?k" sf ?c reply] f4 te by simp
    define f6 where "f6 = (add_lost ?k (\<not> fl_now f5 < e) (f5\<lparr>fl_cache := token_put (fl_cache f5) ?k tok e\<rparr>))
        \<lparr>fl_pc := (fl_pc f5)(t := Closing ?k (Inr tok))\<rparr>"
    have s6: "?S f5 f6" unfolding f6_def using section_step [of f5 t "Storing ?k tok e" sf ?c reply] by (simp add: f5_def)
    obtain f7 where s7: "?S f6 f7" "fl_pc f7 t = Returned ?k (Inr tok)" "fl_cache f7 = fl_cache f6" "fl_now f7 = fl_now f6"
      using section_step [of f6 t "Closing ?k (Inr tok)" sf ?c reply] by (force simp: f6_def)
    have "res = Inr tok" "s' = aw_set_cache w (token_put (aw_cache w s1) ?k tok e) s1"
      using assms(3) None post te by (simp_all add: getValidToken_def fetchToken_def)
    moreover have "?S\<^sup>*\<^sup>* f0 f7"
      by (rule rtranclp.rtrancl_into_rtrancl [OF rtranclp.rtrancl_into_rtrancl [OF rtranclp.rtrancl_into_rtrancl
            [OF so_far s5] s6] s7(1)])
    ultimately show ?thesis using s7 f4 assms(1)
      by (intro exI [of _ f7]) (auto simp: f6_def f5_def world_ok_def)
  qed
qed

subsection \<open>Credentials and tokens\<close>

lemma takeWhile_upto: "c \<notin> set p \<Longrightarrow> takeWhile (\<lambda>x. x \<noteq> c) (p @ c # s) = p"
  by (induction p) auto

lemma key_material_inj:
  assumes "key_material ps = key_material qs" "\<forall>p \<in> set ps \<union> set qs. CHR 0x00 \<notin> set p"
  shows "ps = qs"
  using assms
proof (induction ps arbitrary: qs)
  case Nil
  then show ?case by (cases qs) (auto simp: key_material_def)
next
  case (Cons p ps)
  then obtain q qs' where qs: "qs = q # qs'" by (cases qs) (auto simp: key_material_def)
  have eq: "p @ CHR 0x00 # key_material ps = q @ CHR 0x00 # key_material qs'"
    using Cons.prems(1) qs by (simp add: key_material_def)
  have "p = q" using arg_cong [OF eq, of "takeWhile (\<lambda>c. c \<noteq> CHR 0x00)"] Cons.prems(2) qs by (simp add: takeWhile_upto)
  with eq Cons qs show ?case by auto
qed

definition credentials_of :: "oauth2Handler \<Rightarrow> string list" where
  "credentials_of h = [oa_tokenURL h, oa_clientID h, oa_clientSecret h] @ oa_scopes h"

text \<open>The digest does not collide on the credentials of the two handlers.\<close>

definition digest_separates :: "'h auth_world \<Rightarrow> oauth2Handler \<Rightarrow> oauth2Handler \<Rightarrow> bool" where
  "digest_separates w h1 h2 \<longleftrightarrow>
     (aw_sha256_hex w (key_material (credentials_of h1)) = aw_sha256_hex w (key_material (credentials_of h2))
      \<longrightarrow> key_material (credentials_of h1) = key_material (credentials_of h2))"


lemma constructed_key:
  "newOAuth2Handler codec sha config = Inr h \<Longrightarrow> oa_cacheKey h = sha (key_material (credentials_of h))"
  by (auto simp: newOAuth2Handler_def parseOAuth2Credentials_def credentials_of_def tokenCacheKey_def Let_def
           split: sum.splits if_splits)

definition nul_free :: "oauth2Handler \<Rightarrow> bool" where
  "nul_free h \<longleftrightarrow> (\<forall>part \<in> set (credentials_of h). CHR 0x00 \<notin> set part)"

lemma same_key_same_credentials:
  assumes "newOAuth2Handler (aw_codec w) (aw_sha256_hex w) c1 = Inr h1" "newOAuth2Handler (aw_codec w) (aw_sha256_hex w) c2 = Inr h2"
    and "nul_free h1" "nul_free h2" "digest_separates w h1 h2"
  shows "oa_cacheKey h1 = oa_cacheKey h2 \<longleftrightarrow> credentials_of h1 = credentials_of h2"
  using key_material_inj [of "credentials_of h1" "credentials_of h2"] assms(3-5)
  by (auto simp: constructed_key [OF assms(1)] constructed_key [OF assms(2)] digest_separates_def nul_free_def)

text \<open>
  A preview of OAuth2 credentials is what applying them does when a token is cached, and has
  no effect; without one, applying them asks the endpoint once and caches the token it issues.
\<close>
theorem oauth2_preview_is_cached_apply:
  "oauth2_ApplyAuth w h req s =
     (case oauth2_PreviewAuth w h req s of
        Inr previewed \<Rightarrow> (Inr previewed, s)
      | Inl _ \<Rightarrow>
          (case fetchToken w h s of
             (Inl err, s) \<Rightarrow> (Inl err, s)
           | (Inr (token, expiry), s) \<Rightarrow>
               (Inr (set_header ''Authorization'' (''Bearer '' @ token) req),
                aw_set_cache w (token_put (aw_cache w s) (oa_cacheKey h) token expiry) s)))"
  by (auto simp: oauth2_ApplyAuth_def oauth2_PreviewAuth_def getValidToken_def split: option.split prod.split sum.split)

text \<open>
  A token rejected through one handler is gone for every handler of the same credentials,
  whichever module built it, and for no other: handlers are told apart by their URL, client,
  secret and scopes.
\<close>
theorem invalidation_reaches_same_credentials:
  assumes "world_ok w"
    and "newOAuth2Handler (aw_codec w) (aw_sha256_hex w) c1 = Inr h1" "newOAuth2Handler (aw_codec w) (aw_sha256_hex w) c2 = Inr h2"
    and "nul_free h1" "nul_free h2" "digest_separates w h1 h2"
  shows "oauth2_PreviewAuth w h2 req (InvalidateToken w h1 s)
     = (if credentials_of h1 = credentials_of h2 then Inl ErrPreviewUnavailable else oauth2_PreviewAuth w h2 req s)"
  using assms(1) same_key_same_credentials [OF assms(2-6)]
  by (auto simp: oauth2_PreviewAuth_def InvalidateToken_def world_ok_def token_get_def token_invalidate_def)

text \<open>A rejection that comes late drops the token that was issued in the meantime.\<close>

lemma late_rejection_drops_fresh_token:
  assumes "world_ok w" "oa_cacheKey h2 = oa_cacheKey h1" "getValidToken w h1 (InvalidateToken w h1 s) = (Inr fresh, s1)"
  shows "token_get (aw_cache w (InvalidateToken w h2 s1)) now (oa_cacheKey h1) = None"
  using assms by (simp add: InvalidateToken_def world_ok_def token_get_def token_invalidate_def)

text \<open>The failure of the leader is the result of every caller that waits for it.\<close>

lemma waiting_callers_share_failure:
  assumes "fl_pc s t = Closing k (Inl err)" "fl_pc s u = Waiting k" "u \<noteq> t"
    and "call_section sf codec reply t (fl_pc s t) s = (p, s')"
  shows "fl_pc (s'\<lparr>fl_pc := (fl_pc s')(t := p)\<rparr>) u = Returned k (Inl err)"
  using assms by auto

subsection \<open>Examples\<close>

type_synonym demo_world = "tokenCache \<times> int"

definition demo_codec :: auth_codec where
  "demo_codec = \<lparr>un_apikey = (\<lambda>_. Inl (plain_error [])), un_bearer = (\<lambda>_. Inl (plain_error [])),
     un_basic = (\<lambda>_. Inl (plain_error [])),
     un_oauth2 = (\<lambda>raw. Inr \<lparr>co_TokenURL = ''u'', co_ClientID = raw, co_ClientSecret = ''s'', co_Scope = []\<rparr>),
     un_token = (\<lambda>raw. Inr \<lparr>tr_AccessToken = raw, tr_TokenType = [], tr_ExpiresIn = 3600, tr_Scope = []\<rparr>)\<rparr>"

definition demo_world :: "demo_world auth_world" where
  "demo_world = \<lparr>aw_cache = fst, aw_set_cache = (\<lambda>c (_, n). (c, n)), aw_now = snd,
     aw_post = (\<lambda>url form (c, n). (NoResponse (plain_error ''down''), (c, n + 1))), aw_codec = demo_codec, aw_sha256_hex = id,
     aw_parse_url = (\<lambda>s. Inl (plain_error []))\<rparr>"

definition demo_oauth :: "string \<Rightarrow> oauth2Handler" where
  "demo_oauth i = \<lparr>oa_tokenURL = ''u'', oa_clientID = i, oa_clientSecret = ''s'', oa_scopes = [],
     oa_cacheKey = key_material [''u'', i, ''s'']\<rparr>"

definition demo_config :: "string \<Rightarrow> AuthConfig" where
  "demo_config i = \<lparr>ac_Type = ''oauth2'', ac_Credentials = i\<rparr>"

lemma demo_oauth_new:
  "i \<noteq> [] \<Longrightarrow> newOAuth2Handler (aw_codec demo_world) (aw_sha256_hex demo_world) (demo_config i) = Inr (demo_oauth i)"
  by (simp add: newOAuth2Handler_def parseOAuth2Credentials_def demo_world_def demo_codec_def demo_config_def demo_oauth_def
      tokenCacheKey_def strings_Fields_def fields_of.simps)

theorem invalidation_reaches_same_credentials_witness:
  "oauth2_PreviewAuth demo_world (demo_oauth ''b'') mockReq (InvalidateToken demo_world (demo_oauth ''a'') (Map.empty, 0))
     = oauth2_PreviewAuth demo_world (demo_oauth ''b'') mockReq (Map.empty, 0)
   \<and> oauth2_PreviewAuth demo_world (demo_oauth ''a'') mockReq (InvalidateToken demo_world (demo_oauth ''a'') (Map.empty, 0))
     = Inl ErrPreviewUnavailable"
proof -
  have w: "world_ok demo_world" by (simp add: world_ok_def demo_world_def split_beta)
  have nf: "nul_free (demo_oauth ''a'')" "nul_free (demo_oauth ''b'')" by (simp_all add: nul_free_def credentials_of_def demo_oauth_def)
  have ds: "digest_separates demo_world h1 h2" for h1 h2 by (simp add: digest_separates_def demo_world_def)
  note both = demo_oauth_new [of "''a''", simplified] demo_oauth_new [of "''b''", simplified]
  show ?thesis
    using invalidation_reaches_same_credentials [OF w both nf ds]
      invalidation_reaches_same_credentials [OF w both(1) both(1) nf(1) nf(1) ds]
    by (simp add: credentials_of_def demo_oauth_def)
qed

text \<open>Two callers: the first requests a token while the second waits.\<close>

type_synonym demo_group = "string \<Rightarrow> nat option"

definition demo_flights :: "demo_group singleflight" where
  "demo_flights =
     \<lparr>sf_new = Map.empty, sf_flight = id,
      sf_Do = (\<lambda>g k t. case g k of None \<Rightarrow> (True, g(k \<mapsto> t)) | Some _ \<Rightarrow> (False, g)), sf_end = (\<lambda>g k. g(k := None))\<rparr>"

lemma demo_single: "single_flight demo_flights"
  by (auto simp: single_flight_def demo_flights_def)

definition demo_move :: "nat \<Rightarrow> token_reply \<Rightarrow> demo_group flight_state \<Rightarrow> demo_group flight_state" where
  "demo_move t reply s = (case call_section demo_flights demo_codec reply t (fl_pc s t) s of (p, s') \<Rightarrow> s'\<lparr>fl_pc := (fl_pc s')(t := p)\<rparr>)"

definition demo_call :: "nat \<Rightarrow> demo_group flight_state \<Rightarrow> demo_group flight_state" where
  "demo_call t s = s\<lparr>fl_pc := (fl_pc s)(t := Looking ''k'')\<rparr>"

lemma reach_move: "flight_reach demo_flights demo_codec s \<Longrightarrow> can_move (fl_pc s t) \<Longrightarrow> flight_reach demo_flights demo_codec (demo_move t reply s)"
  unfolding demo_move_def by (cases "call_section demo_flights demo_codec reply t (fl_pc s t) s")
    (auto intro: flight_reach.step flight_step.run call_step.intros)

lemma reach_call: "flight_reach demo_flights demo_codec s \<Longrightarrow> fl_pc s t = Idle \<Longrightarrow> flight_reach demo_flights demo_codec (demo_call t s)"
  unfolding demo_call_def by (rule flight_reach.step, assumption, rule flight_step.call) simp

definition demo_reply :: token_reply where
  "demo_reply = TokenReply \<lparr>rs_StatusCode = 200, rs_Status = ''200 OK'', rs_RetryAfter = [], rs_stream = ''tok'', rs_stream_err = None\<rparr>"

definition demo_flight :: "demo_group flight_state" where
  "demo_flight = demo_move 1 demo_reply (demo_move 1 demo_reply (demo_move 0 demo_reply (demo_move 0 demo_reply
     (demo_move 0 demo_reply (demo_call 1 (demo_call 0 (flight_start demo_flights 5)))))))"

lemmas demo_flight_defs = demo_flight_def demo_move_def demo_call_def flight_start_def token_get_def demo_flights_def

lemma demo_flight_reach: "flight_reach demo_flights demo_codec demo_flight"
  unfolding demo_flight_def
  by (intro reach_move reach_call flight_reach.start) (simp_all add: demo_flight_defs)

lemma demo_flight_pcs: "fl_pc demo_flight 0 = Requesting ''k''" "fl_pc demo_flight 1 = Waiting ''k''"
  "2 \<le> t \<Longrightarrow> fl_pc demo_flight t = Idle"
  by (simp_all add: demo_flight_defs)

theorem token_requests_collapsed_witness:
  "fl_sent demo_flight ''k'' \<le> fl_lost demo_flight ''k'' + 1
   \<and> fl_sent demo_flight ''k'' = fl_lost demo_flight ''k'' \<and> fl_pc demo_flight 1 \<noteq> Requesting ''k''"
  using token_requests_collapsed [OF demo_single demo_flight_reach, of "''k''" 0] demo_flight_pcs by auto

theorem getValidToken_is_lone_caller_witness:
  "\<exists>f9. (flight_step demo_flights demo_codec)\<^sup>*\<^sup>* (demo_call 0 (flight_start demo_flights 0)\<lparr>fl_pc := (\<lambda>_. Looking (oa_cacheKey (demo_oauth ''a'')))\<rparr>) f9
     \<and> fl_cache f9 = Map.empty \<and> fl_now f9 = 1"
proof -
  have w: "world_ok demo_world" "post_ok demo_world"
    by (auto simp: world_ok_def post_ok_def demo_world_def split_beta)
  have run: "getValidToken demo_world (demo_oauth ''a'') (Map.empty, 0)
     = (Inl (token_failed ''executing token request'' (plain_error ''down'')), (Map.empty, 1))"
    by (simp add: getValidToken_def fetchToken_def read_token_def demo_world_def token_get_def)
  note lone = getValidToken_is_lone_caller [OF w run, of "demo_call 0 (flight_start demo_flights 0)\<lparr>fl_pc := (\<lambda>_. Looking (oa_cacheKey (demo_oauth ''a'')))\<rparr>" 0]
  from lone [of demo_flights] demo_single show ?thesis
    by (auto simp: demo_world_def demo_call_def flight_start_def demo_flights_def)
qed

end
