(* ===== verification/StateRefs.thy ===== *)
theory StateRefs
  imports HttpOutput Persistence Pipeline
begin

text \<open>
  The state variables a template names: \<open>StateReferences\<close> and \<open>ValidateStateReferences\<close> of
  \<open>internal/persistence/render.go\<close>. The three regular expressions are written out as the
  searches they denote, on bytes: leftmost first, without overlaps.
\<close>

subsection \<open>The three searches\<close>

text \<open>\<open>(?s)\{\{(.*?)\}\}\<close>: up to the first \<open>}}\<close>.\<close>

fun until_close :: "string \<Rightarrow> (string \<times> string) option" where
  "until_close (a # b # s) =
     (if a = CHR ''}'' \<and> b = CHR ''}'' then Some ([], s)
      else map_option (\<lambda>(body, rest). (a # body, rest)) (until_close (b # s)))"
| "until_close _ = None"

lemma until_close_shorter: "until_close s = Some (body, rest) \<Longrightarrow> length rest < length s"
  by (induction s arbitrary: body rule: until_close.induct) (fastforce split: if_splits)+

function templateExpr :: "string \<Rightarrow> string list" where
  "templateExpr s =
     (case s of
        [] \<Rightarrow> []
      | _ # t \<Rightarrow>
          if prefix ''{{'' s
          then (case until_close (drop 2 s) of None \<Rightarrow> [] | Some (body, rest) \<Rightarrow> body # templateExpr rest)
          else templateExpr t)"
  by pat_completeness auto
termination
  by (relation "measure length") (auto dest!: until_close_shorter)

declare templateExpr.simps [simp del]

text \<open>\<open>'[^']*'|"[^"]*"\<close>, each match replaced by two quotes.\<close>

function quotedLiteral_blank :: "string \<Rightarrow> string" where
  "quotedLiteral_blank s =
     (case s of
        [] \<Rightarrow> []
      | c # t \<Rightarrow>
          if (c = CHR 0x27 \<or> c = CHR 0x22) \<and> c \<in> set t
          then [CHR 0x27, CHR 0x27] @ quotedLiteral_blank (tl (dropWhile (\<lambda>x. x \<noteq> c) t))
          else c # quotedLiteral_blank t)"
  by pat_completeness auto
termination
  by (relation "measure length") (auto simp: less_Suc_eq_le intro: order_trans [OF length_dropWhile_le] le_trans [OF diff_le_self])

declare quotedLiteral_blank.simps [simp del]

text \<open>\<open>(^|[^.\w])state\.(\w+)\<close>: the names; \<open>start\<close> says whether the text begins here.\<close>

definition name_here :: "string \<Rightarrow> string" where
  "name_here s = (if prefix ''state.'' s then takeWhile word_char (drop 6 s) else [])"

function stateRef :: "bool \<Rightarrow> string \<Rightarrow> string list" where
  "stateRef start s =
     (if start \<and> name_here s \<noteq> [] then name_here s # stateRef False (drop (6 + length (name_here s)) s)
      else (case s of
              [] \<Rightarrow> []
            | c # t \<Rightarrow>
                if c \<noteq> CHR ''.'' \<and> \<not> word_char c \<and> name_here t \<noteq> []
                then name_here t # stateRef False (drop (6 + length (name_here t)) t)
                else stateRef False t))"
  by pat_completeness auto
termination
  by (relation "measure (\<lambda>(_, s). length s)") (auto simp: name_here_def prefix_def split: if_splits)

declare stateRef.simps [simp del]

subsection \<open>References\<close>

definition knownStateVars :: "string list" where
  "knownStateVars = [''lastTimestamp'', ''lastId'']"

definition add_names :: "string list \<Rightarrow> string list \<Rightarrow> string list" where
  "add_names names found = foldl (\<lambda>ns n. if n \<in> set ns then ns else ns @ [n]) names found"

definition StateReferences :: "string \<Rightarrow> string list" where
  "StateReferences src =
     (if \<not> contains_sub ''state.'' src then []
      else foldl (\<lambda>names code. add_names names (stateRef True (quotedLiteral_blank code))) [] (templateExpr src))"

definition ValidateStateReferences :: "string \<Rightarrow> string \<Rightarrow> gerr option" where
  "ValidateStateReferences field src =
     (case find (\<lambda>name. name \<notin> set knownStateVars) (StateReferences src) of
        None \<Rightarrow> None
      | Some name \<Rightarrow>
          Some (plain_error (field @ '' references unknown state variable \"state.'' @ name
                  @ ''\", known variables are lastTimestamp, lastId'')))"

subsection \<open>Facts\<close>

lemma set_add_names [simp]: "set (add_names names found) = set names \<union> set found"
  unfolding add_names_def by (induction found arbitrary: names) auto

lemma distinct_add_names: "distinct names \<Longrightarrow> distinct (add_names names found)"
  unfolding add_names_def by (induction found arbitrary: names) auto

lemma set_StateReferences:
  "set (StateReferences src) = (if contains_sub ''state.'' src
     then (\<Union>code \<in> set (templateExpr src). set (stateRef True (quotedLiteral_blank code))) else {})"
proof -
  have "set (foldl (\<lambda>names code. add_names names (stateRef True (quotedLiteral_blank code))) ns es)
      = set ns \<union> (\<Union>code \<in> set es. set (stateRef True (quotedLiteral_blank code)))" for es ns
    by (induction es arbitrary: ns) auto
  then show ?thesis by (simp add: StateReferences_def)
qed

lemma ValidateStateReferences_ok:
  "ValidateStateReferences field src = None \<longleftrightarrow> set (StateReferences src) \<subseteq> {''lastTimestamp'', ''lastId''}"
  by (auto simp: ValidateStateReferences_def knownStateVars_def find_None_iff_all split: option.split dest: find_SomeD)

text \<open>The guard: what follows an expression is searched too, and every reference of an expression is found.\<close>

lemma until_close_body: "(\<forall>i. \<not> prefix ''}}'' (drop i body)) \<Longrightarrow> last (CHR '' '' # body) \<noteq> CHR ''}'' \<Longrightarrow>
   until_close (body @ ''}}'' @ rest) = Some (body, rest)"
proof (induction body)
  case (Cons a body)
  have ih: "until_close (body @ ''}}'' @ rest) = Some (body, rest)"
  proof (rule Cons.IH)
    show "\<forall>i. \<not> prefix ''}}'' (drop i body)" using Cons.prems(1) by (auto dest: spec [of _ "Suc _"])
    show "last (CHR '' '' # body) \<noteq> CHR ''}''" using Cons.prems(2) by (cases body) auto
  qed
  show ?case
  proof (cases body)
    case Nil
    with Cons.prems(2) ih show ?thesis by simp
  next
    case (Cons b body')
    with \<open>\<forall>i. \<not> prefix ''}}'' (drop i (a # body))\<close> have "\<not> (a = CHR ''}'' \<and> b = CHR ''}'')" by (auto dest: spec [of _ 0])
    with ih Cons show ?thesis by simp
  qed
qed simp

lemma templateExpr_skip: "(\<forall>i. \<not> prefix ''{{'' (drop i before)) \<Longrightarrow> last (CHR '' '' # before) \<noteq> CHR ''{'' \<Longrightarrow>
   templateExpr (before @ s) = templateExpr s"
proof (induction before)
  case (Cons a before)
  have ih: "templateExpr (before @ s) = templateExpr s"
  proof (rule Cons.IH)
    show "\<forall>i. \<not> prefix ''{{'' (drop i before)" using Cons.prems(1) by (auto dest: spec [of _ "Suc _"])
    show "last (CHR '' '' # before) \<noteq> CHR ''{''" using Cons.prems(2) by (cases before) auto
  qed
  have "\<not> prefix ''{{'' ((a # before) @ s)"
  proof (cases before)
    case Nil
    with Cons.prems(2) show ?thesis by simp
  next
    case (Cons b before')
    with \<open>\<forall>i. \<not> prefix ''{{'' (drop i (a # before))\<close> show ?thesis by (auto dest: spec [of _ 0])
  qed
  then have "templateExpr ((a # before) @ s) = templateExpr (before @ s)"
    by (subst templateExpr.simps) (simp only: append_Cons list.case if_False)
  with ih show ?case by simp
qed simp

lemma word_char_simps [simp]:
  "\<not> word_char (CHR '' '')" "\<not> word_char (CHR ''.'')" "\<not> word_char (CHR 0x27)" "\<not> word_char (CHR 0x22)"
  "\<not> word_char (CHR ''}'')" "\<not> word_char (CHR ''{'')"
  by (simp_all add: word_char_def)

lemma quotedLiteral_blank_id: "CHR 0x27 \<notin> set s \<Longrightarrow> CHR 0x22 \<notin> set s \<Longrightarrow> quotedLiteral_blank s = s"
  by (induction s) (subst quotedLiteral_blank.simps, auto)+

lemma contains_sub_middle: "contains_sub p (a @ p @ b)"
  unfolding contains_sub_def list_ex_iff by (rule bexI [of _ "length a"]) auto

text \<open>A name that is not a state variable is found wherever the first expression of a template reads it.\<close>

lemma unknown_reference_rejected:
  assumes "\<forall>i. \<not> prefix ''{{'' (drop i before)" "last (CHR '' '' # before) \<noteq> CHR ''{''"
    and "list_all word_char name" "name \<noteq> []" "name \<notin> set knownStateVars"
  shows "ValidateStateReferences field (before @ ''{{ state.'' @ name @ '' }}'' @ after) \<noteq> None"
proof -
  let ?body = "'' state.'' @ name @ '' ''" and ?src = "before @ ''{{ state.'' @ name @ '' }}'' @ after"
  have w: "x \<in> set name \<Longrightarrow> word_char x" for x using assms(3) by (simp add: list_all_iff)
  have no: "CHR ''}'' \<notin> set ?body" "CHR 0x27 \<notin> set ?body" "CHR 0x22 \<notin> set ?body" using w [of "CHR ''}''"] w [of "CHR 0x27"] w [of "CHR 0x22"] by auto
  have "\<not> prefix ''}}'' (drop i ?body)" for i
  proof
    assume "prefix ''}}'' (drop i ?body)"
    then have "CHR ''}'' \<in> set (drop i ?body)" unfolding prefix_def by (metis append_Cons list.set_intros(1))
    then show False using no(1) in_set_dropD by fast
  qed
  then have "until_close (?body @ ''}}'' @ after) = Some (?body, after)"
    by (intro until_close_body) auto
  moreover have "templateExpr ?src = templateExpr (''{{'' @ ?body @ ''}}'' @ after)"
    using templateExpr_skip [OF assms(1,2), of "''{{'' @ ?body @ ''}}'' @ after"] by simp
  ultimately have expr: "?body \<in> set (templateExpr ?src)" by (subst (asm) (2) templateExpr.simps) simp
  have "takeWhile word_char (name @ '' '') = name" using w by (simp add: takeWhile_append2)
  then have "name_here (tl ?body) = name" by (simp add: name_here_def)
  then have "name \<in> set (stateRef True ?body)" using assms(4) by (subst stateRef.simps) (simp add: name_here_def)
  then have "name \<in> set (stateRef True (quotedLiteral_blank ?body))" by (simp only: quotedLiteral_blank_id [OF no(2,3)])
  moreover have "contains_sub ''state.'' ?src" using contains_sub_middle [of "''state.''" "before @ ''{{ ''" "name @ '' }}'' @ after"] by simp
  ultimately have "name \<in> set (StateReferences ?src)" using expr by (auto simp: set_StateReferences)
  with assms(5) show ?thesis by (auto simp: ValidateStateReferences_ok knownStateVars_def)
qed

lemma block_references_unchecked:
  "HasVariables ''{% if state.lastTimestmp %}x{% endif %}''
   \<and> ValidateStateReferences field ''{% if state.lastTimestmp %}x{% endif %}'' = None"
  by (simp add: ValidateStateReferences_ok set_StateReferences HasVariables_def contains_sub_def templateExpr.simps upt_rec)

end
