(* ===== verification/HttpPolling.thy ===== *)
theory HttpPolling
  imports Pagination Auth StateRefs
begin

text \<open>
  The HTTP polling input: \<open>internal/modules/input/http_polling.go\<close> with \<open>http_polling_state.go\<close>,
  \<open>http_polling_request.go\<close> and \<open>http_polling_render.go\<close>, and \<open>internal/moduleconfig/parse.go\<close>.
  The pagination is in theory \<open>Pagination\<close>, the handlers in \<open>Auth\<close>. The transport, the template
  engine, JSON decoding, the URL parser, the expression engine and media types are parameters.
  Maps are lists of pairs in the order Go visits them.
\<close>

subsection \<open>The module\<close>

record ('h, 'p) poll_env =
  pe_ctx :: "'h run_context"
  pe_client :: "call_request \<Rightarrow> 'h http_client"
  pe_render :: "string \<Rightarrow> string \<Rightarrow> grecord \<Rightarrow> gerr + string"
  pe_parse_url :: "string \<Rightarrow> gerr + go_url"
  pe_rules :: header_rules
  pe_unmarshal :: "string \<Rightarrow> gerr + gval"
  pe_type_error :: "gval \<Rightarrow> gerr"
  pe_hint_data :: "string \<Rightarrow> grecord option"
  pe_expr_run :: "'p \<Rightarrow> grecord \<Rightarrow> gval option"
  pe_media_type :: "string \<Rightarrow> string option"
  pe_fmt_rfc3339 :: "int \<Rightarrow> string"
  pe_fmt_T :: "gval \<Rightarrow> string"
  pe_format_float :: "go_float \<Rightarrow> string"
  pe_order :: "(string \<Rightarrow> string option) \<Rightarrow> string list"

record ('h, 'p) HTTPPolling =
  hp_endpoint :: string
  hp_queryParams :: "(string \<times> string) list"
  hp_method :: string
  hp_body :: string
  hp_bodyTemplateFile :: string
  hp_bodyTemplate :: string
  hp_headers :: "(string \<times> string) list"
  hp_timeout :: int
  hp_dataField :: string
  hp_pagination :: "PaginationConfig option"
  hp_authHandler :: "'h auth_handler option"
  hp_retryConfig :: RetryConfig
  hp_retryHintProgram :: "'p option"
  hp_persistenceConfig :: "StatePersistenceConfig option"
  hp_stateStore :: "StateStore option"
  hp_pipelineID :: string
  hp_lastState :: "State option"

text \<open>The fields a fetch writes, beside the network.\<close>

record 'h poll_state =
  ps_net :: 'h
  ps_lastRetryInfo :: "retry_info option"
  ps_oauth2RetryCount :: int

subsection \<open>State\<close>

definition poll_SetPipelineID :: "string \<Rightarrow> ('h, 'p) HTTPPolling \<Rightarrow> ('h, 'p) HTTPPolling" where
  "poll_SetPipelineID pipelineID m = m\<lparr>hp_pipelineID := pipelineID\<rparr>"

definition poll_SetStateStore :: "StateStore option \<Rightarrow> ('h, 'p) HTTPPolling \<Rightarrow> ('h, 'p) HTTPPolling" where
  "poll_SetStateStore store m = m\<lparr>hp_stateStore := store\<rparr>"

definition poll_LoadState ::
  "fs_ops \<Rightarrow> files \<Rightarrow> ('h, 'p) HTTPPolling \<Rightarrow> (store_error + State option) \<times> ('h, 'p) HTTPPolling" where
  "poll_LoadState ops d m =
     (case hp_stateStore m of
        None \<Rightarrow> (Inr None, m)
      | Some store \<Rightarrow>
          if hp_pipelineID m = [] then (Inr None, m)
          else (case state_Load ops store (hp_pipelineID m) d of
                  Inl err \<Rightarrow> (Inl err, m)
                | Inr state \<Rightarrow> (Inr state, m\<lparr>hp_lastState := state\<rparr>)))"

definition FormatTimestamp :: "(int \<Rightarrow> string) \<Rightarrow> State \<Rightarrow> string" where
  "FormatTimestamp fmt_rfc3339 s = (case LastTimestamp s of None \<Rightarrow> [] | Some t \<Rightarrow> fmt_rfc3339 t)"

text \<open>The parameters the persisted state adds, and the endpoint with them.\<close>

definition state_params :: "(int \<Rightarrow> string) \<Rightarrow> StatePersistenceConfig option \<Rightarrow> State \<Rightarrow> (string \<times> string) list" where
  "state_params fmt_rfc3339 cfg st =
     (let tp = (case Option.bind cfg pc_Timestamp of None \<Rightarrow> [] | Some t \<Rightarrow> ts_QueryParam t);
          ip = (case Option.bind cfg pc_ID of None \<Rightarrow> [] | Some i \<Rightarrow> id_QueryParam i);
          params = (if TimestampEnabled cfg \<and> tp \<noteq> [] \<and> LastTimestamp st \<noteq> None
                    then put_param tp (FormatTimestamp fmt_rfc3339 st) [] else [])
      in (if IDEnabled cfg \<and> ip \<noteq> [] then (case LastID st of None \<Rightarrow> params | Some i \<Rightarrow> put_param ip i params)
          else params))"

definition buildEndpointWithState :: "('h, 'p) poll_env \<Rightarrow> ('h, 'p) HTTPPolling \<Rightarrow> string \<Rightarrow> gerr + string" where
  "buildEndpointWithState env m endpoint =
     (case hp_lastState m of
        None \<Rightarrow> Inr endpoint
      | Some st \<Rightarrow>
          if \<not> persistence_IsEnabled (hp_persistenceConfig m) then Inr endpoint
          else (case MergeQueryParams (pe_parse_url env) endpoint (state_params (pe_fmt_rfc3339 env) (hp_persistenceConfig m) st) of
                  Inl err \<Rightarrow> Inl (errorf (''parsing endpoint URL: '' @ err_text err) err)
                | Inr merged \<Rightarrow> Inr merged))"

subsection \<open>Templates\<close>

definition stateRenderContext :: "('h, 'p) poll_env \<Rightarrow> ('h, 'p) HTTPPolling \<Rightarrow> grecord" where
  "stateRenderContext env m = RenderState (pe_fmt_rfc3339 env) (hp_lastState m) (hp_persistenceConfig m)"

definition renderStateField :: "('h, 'p) poll_env \<Rightarrow> ('h, 'p) HTTPPolling \<Rightarrow> string \<Rightarrow> string \<Rightarrow> gerr + string" where
  "renderStateField env m src target =
     (if \<not> HasVariables src then Inr src else pe_render env src target (stateRenderContext env m))"

definition renderEndpoint :: "('h, 'p) poll_env \<Rightarrow> ('h, 'p) HTTPPolling \<Rightarrow> gerr + string" where
  "renderEndpoint env m =
     (case renderStateField env m (hp_endpoint m) ''url'' of
        Inl err \<Rightarrow> Inl (errorf (''evaluating endpoint template: '' @ err_text err) err)
      | Inr rendered \<Rightarrow> Inr rendered)"

fun render_map ::
  "('h, 'p) poll_env \<Rightarrow> ('h, 'p) HTTPPolling \<Rightarrow> string \<Rightarrow> (string \<times> string) list \<Rightarrow> gerr + (string \<times> string) list" where
  "render_map env m what [] = Inr []"
| "render_map env m what ((name, value) # rest) =
     (case renderStateField env m value ''text'' of
        Inl err \<Rightarrow> Inl (errorf (''evaluating '' @ what @ ''[\"'' @ name @ ''\"] template: '' @ err_text err) err)
      | Inr out \<Rightarrow>
          (case render_map env m what rest of Inl err \<Rightarrow> Inl err | Inr rendered \<Rightarrow> Inr ((name, out) # rendered)))"

definition renderQueryParams :: "('h, 'p) poll_env \<Rightarrow> ('h, 'p) HTTPPolling \<Rightarrow> gerr + (string \<times> string) list" where
  "renderQueryParams env m = render_map env m ''queryParams'' (hp_queryParams m)"

definition renderHeaders :: "('h, 'p) poll_env \<Rightarrow> ('h, 'p) HTTPPolling \<Rightarrow> gerr + (string \<times> string) list" where
  "renderHeaders env m = render_map env m ''headers'' (hp_headers m)"

definition bodyTarget :: "('h, 'p) poll_env \<Rightarrow> ('h, 'p) HTTPPolling \<Rightarrow> string" where
  "bodyTarget env m =
     (let contentType = (case find (\<lambda>(name, _). to_lower name = ''content-type'') (hp_headers m) of
                           None \<Rightarrow> [] | Some (_, value) \<Rightarrow> value)
      in if contentType = [] then ''json''
         else (case pe_media_type env contentType of
                 None \<Rightarrow> ''json''
               | Some mediaType \<Rightarrow>
                   if mediaType = ''application/x-www-form-urlencoded'' then ''url''
                   else if suffix ''/xml'' mediaType \<or> suffix ''+xml'' mediaType then ''xml''
                   else if suffix ''/json'' mediaType \<or> suffix ''+json'' mediaType then ''json''
                   else ''text''))"

definition renderBody :: "('h, 'p) poll_env \<Rightarrow> ('h, 'p) HTTPPolling \<Rightarrow> gerr + string" where
  "renderBody env m =
     (case renderStateField env m (hp_bodyTemplate m) (bodyTarget env m) of
        Inl err \<Rightarrow> Inl (errorf (''evaluating body template: '' @ err_text err) err)
      | Inr rendered \<Rightarrow> Inr rendered)"

definition persistedVariable :: "('h, 'p) HTTPPolling \<Rightarrow> string \<Rightarrow> bool" where
  "persistedVariable m name =
     (if name = ''lastTimestamp'' then TimestampEnabled (hp_persistenceConfig m)
      else if name = ''lastId'' then IDEnabled (hp_persistenceConfig m)
      else True)"

text \<open>The fields that are checked, with the names the errors give them.\<close>

definition state_fields :: "('h, 'p) HTTPPolling \<Rightarrow> (string \<times> string) list" where
  "state_fields m =
     [(''endpoint'', hp_endpoint m), (''body'', hp_bodyTemplate m)]
     @ map (\<lambda>(name, value). (''headers[\"'' @ name @ ''\"]'', value)) (hp_headers m)
     @ map (\<lambda>(name, value). (''queryParams[\"'' @ name @ ''\"]'', value)) (hp_queryParams m)"

definition validateStateTemplates :: "('h, 'p) HTTPPolling \<Rightarrow> gerr option" where
  "validateStateTemplates m =
     first_some (\<lambda>(field, src). map_option (\<lambda>err. errorf (''httpPolling '' @ err_text err) err)
       (ValidateStateReferences field src)) (state_fields m)"

subsection \<open>A request\<close>

fun validate_headers ::
  "header_rules \<Rightarrow> (string \<times> string) list \<Rightarrow> (string \<Rightarrow> string option) \<Rightarrow> gerr + (string \<Rightarrow> string option)" where
  "validate_headers rules [] validated = Inr validated"
| "validate_headers rules ((key, value) # rest) validated =
     (case AddValidatedHeader rules validated key value of
        Inl err \<Rightarrow> Inl (errorf (''invalid header for httpPolling: '' @ err_text err) err)
      | Inr validated \<Rightarrow> validate_headers rules rest validated)"

definition poll_buildRequest ::
  "('h, 'p) poll_env \<Rightarrow> ('h, 'p) HTTPPolling \<Rightarrow> string \<Rightarrow> 'h \<Rightarrow> (gerr + call_request) \<times> 'h" where
  "poll_buildRequest env m endpoint h =
     (case ValidateAbsoluteURL (rc_url (pe_ctx env)) (pe_parse_url env) endpoint of
        Some err \<Rightarrow> (Inl err, h)
      | None \<Rightarrow>
          (case (if hp_bodyTemplate m \<noteq> [] then map_sum id Some (renderBody env m) else Inr None) of
             Inl err \<Rightarrow> (Inl err, h)
           | Inr body \<Rightarrow>
               (case renderHeaders env m of
                  Inl err \<Rightarrow> (Inl err, h)
                | Inr headers \<Rightarrow>
                    (case validate_headers (pe_rules env) headers Map.empty of
                       Inl err \<Rightarrow> (Inl err, h)
                     | Inr validated \<Rightarrow>
                         let req = \<lparr>cr_Method = hp_method m, cr_URL = endpoint,
                                    cr_Headers = set_headers [''User-Agent'' \<mapsto> ''Cannectors-Runtime/1.0''] (pe_order env validated) validated,
                                    cr_Body = body\<rparr>
                         in (case hp_authHandler m of
                               None \<Rightarrow> (Inr req, h)
                             | Some handler \<Rightarrow>
                                 (case ah_Apply handler req h of
                                    (Inl err, h) \<Rightarrow> (Inl (errorf (''applying authentication: '' @ err_text err) err), h)
                                  | (Inr req, h) \<Rightarrow> (Inr req, h)))))))"

text \<open>The hooks close over the delays and, through the module, over the count of invalidations.\<close>

definition poll_handleOAuth2Unauthorized ::
  "('h, 'p) HTTPPolling \<Rightarrow> http_response \<Rightarrow> 'h \<times> int \<times> int list \<Rightarrow> bool \<times> ('h \<times> int \<times> int list)" where
  "poll_handleOAuth2Unauthorized m resp = (\<lambda>(h, retryCount, delays).
     if rs_StatusCode resp \<noteq> 401 then (False, (h, retryCount, delays))
     else (case Option.bind (hp_authHandler m) ah_Invalidate of
             None \<Rightarrow> (False, (h, retryCount, delays))
           | Some invalidate \<Rightarrow>
               if retryCount \<ge> MaxOAuth2Retries then (False, (h, retryCount, delays))
               else (True, (invalidate h, retryCount + 1, delays))))"

definition poll_hooks :: "('h, 'p) poll_env \<Rightarrow> ('h, 'p) HTTPPolling \<Rightarrow> ('h \<times> int \<times> int list) retry_hooks" where
  "poll_hooks env m =
     \<lparr>OnRetry = Some (\<lambda>attempt err nextDelay (h, n, delays).
                  if err = None then (h, n, delays)
                  else (h, n, if nextDelay > 0 then delays @ [duration_ms nextDelay] else delays)),
      ShouldRetryBody = Some (EvalRetryHint (pe_hint_data env) (pe_expr_run env) (hp_retryHintProgram m)),
      OnAttemptFailure = Some (\<lambda>_ resp _ w. poll_handleOAuth2Unauthorized m resp w),
      IsSuccessStatus = None\<rparr>"

definition poll_doRequestWithRetry ::
  "('h, 'p) poll_env \<Rightarrow> ('h, 'p) HTTPPolling \<Rightarrow> string \<Rightarrow> 'h poll_state \<Rightarrow> (gerr + string) maybe_panic \<times> 'h poll_state" where
  "poll_doRequestWithRetry env m endpoint s =
     (case poll_buildRequest env m endpoint (ps_net s) of
        (Inl err, h) \<Rightarrow> (Ran (Inl err), s\<lparr>ps_net := h\<rparr>)
      | (Inr req, h) \<Rightarrow>
          let ((resp, err), (h, count, delays)) =
                DoWithRetry (counting_ctx (pe_ctx env)) (Some (counting_client (pe_client env req)))
                  \<lparr>rq_Method = cr_Method req, rq_URL = cr_URL req\<rparr> (hp_retryConfig m) (poll_hooks env m)
                  (h, ps_oauth2RetryCount s, []);
              s = s\<lparr>ps_net := h, ps_oauth2RetryCount := count,
                    ps_lastRetryInfo := (if length delays > 0 then Some (failure_info delays) else None)\<rparr>
          in (case err of
                Some err \<Rightarrow>
                  (Ran (Inl (case resp of
                               Some r \<Rightarrow> if rs_StatusCode r = 401 \<and> count \<ge> MaxOAuth2Retries
                                         then errorf (err_text ErrOAuth2InvalidCredentials @ '': endpoint='' @ endpoint)
                                                ErrOAuth2InvalidCredentials
                                         else err
                             | None \<Rightarrow> err)), s)
              | None \<Rightarrow>
                  (case resp of
                     None \<Rightarrow> (NilPointerPanic, s)
                   | Some r \<Rightarrow>
                       (case rs_stream_err r of
                          Some readErr \<Rightarrow> (Ran (Inl (errorf (''reading response body: '' @ err_text readErr) readErr)), s)
                        | None \<Rightarrow> (Ran (Inr (rs_stream r)), s)))))"

subsection \<open>The records of a response\<close>

definition ErrJSONParse :: gerr where "ErrJSONParse = plain_error ''failed to parse JSON response''"

text \<open>\<open>json.Unmarshal\<close> into \<open>[]map[string]any\<close> and into \<open>map[string]any\<close>; a null leaves them nil.\<close>

definition decode_array :: "(gval \<Rightarrow> gerr) \<Rightarrow> gval \<Rightarrow> gerr + records" where
  "decode_array type_error v =
     (case v of
        GNil \<Rightarrow> Inr []
      | GArr vs \<Rightarrow>
          if list_all (\<lambda>item. item = GNil \<or> as_map item \<noteq> None) vs then Inr (map as_map vs)
          else Inl (type_error v)
      | _ \<Rightarrow> Inl (type_error v))"

definition decode_object :: "(gval \<Rightarrow> gerr) \<Rightarrow> gval \<Rightarrow> gerr + grecord option" where
  "decode_object type_error v =
     (case v of GNil \<Rightarrow> Inr None | GMap obj \<Rightarrow> Inr (Some obj) | _ \<Rightarrow> Inl (type_error v))"

definition poll_parseResponse :: "('h, 'p) poll_env \<Rightarrow> ('h, 'p) HTTPPolling \<Rightarrow> string \<Rightarrow> gerr + records" where
  "poll_parseResponse env m body =
     (let fail = (\<lambda>err. Inl (errorf2 (err_text ErrJSONParse @ '': '' @ err_text err) ErrJSONParse err))
      in (case pe_unmarshal env body of
            Inl err \<Rightarrow> fail err
          | Inr v \<Rightarrow>
              (case decode_array (pe_type_error env) v of
                 Inr arrayResult \<Rightarrow> Inr arrayResult
               | Inl _ \<Rightarrow>
                   (case decode_object (pe_type_error env) v of
                      Inl err \<Rightarrow> fail err
                    | Inr objectResult \<Rightarrow>
                        let obj = rec_fields objectResult
                        in if hp_dataField m \<noteq> [] then extractDataFromField (pe_fmt_T env) obj (hp_dataField m)
                           else (case common_records (pe_fmt_T env) obj of
                                   Some records \<Rightarrow> Inr records
                                 | None \<Rightarrow> Inr [objectResult])))))"

definition fetchSingle ::
  "('h, 'p) poll_env \<Rightarrow> ('h, 'p) HTTPPolling \<Rightarrow> string \<Rightarrow> 'h poll_state \<Rightarrow> (gerr + records) maybe_panic \<times> 'h poll_state" where
  "fetchSingle env m endpoint s =
     (case poll_doRequestWithRetry env m endpoint s of
        (NilPointerPanic, s) \<Rightarrow> (NilPointerPanic, s)
      | (Ran (Inl err), s) \<Rightarrow> (Ran (Inl err), s)
      | (Ran (Inr body), s) \<Rightarrow> (Ran (poll_parseResponse env m body), s))"

definition fetchAndParseObject ::
  "('h, 'p) poll_env \<Rightarrow> ('h, 'p) HTTPPolling \<Rightarrow> 'h poll_state page_fetch" where
  "fetchAndParseObject env m endpoint s =
     (case poll_doRequestWithRetry env m endpoint s of
        (NilPointerPanic, s) \<Rightarrow> (NilPointerPanic, s)
      | (Ran (Inl err), s) \<Rightarrow> (Ran (Inl err), s)
      | (Ran (Inr body), s) \<Rightarrow>
          (Ran (case (case pe_unmarshal env body of Inl err \<Rightarrow> Inl err | Inr v \<Rightarrow> decode_object (pe_type_error env) v) of
                  Inl err \<Rightarrow> Inl (errorf2 (err_text ErrJSONParse @ '': '' @ err_text err) ErrJSONParse err)
                | Inr obj \<Rightarrow> Inr (rec_fields obj)), s))"

subsection \<open>Fetch\<close>

definition module_page_env :: "('h, 'p) poll_env \<Rightarrow> ('h, 'p) HTTPPolling \<Rightarrow> PaginationConfig \<Rightarrow> page_env" where
  "module_page_env env m p =
     \<lparr>pp_pagination = p, pp_dataField = hp_dataField m, pp_parse_url = pe_parse_url env, pp_fmt_T = pe_fmt_T env,
      pp_float = rc_float (pe_ctx env), pp_format_float = pe_format_float env\<rparr>"

text \<open>The endpoint of this run: templates, static parameters, white space, state parameters.\<close>

definition resolve_endpoint :: "('h, 'p) poll_env \<Rightarrow> ('h, 'p) HTTPPolling \<Rightarrow> gerr + string" where
  "resolve_endpoint env m =
     (case renderEndpoint env m of
        Inl err \<Rightarrow> Inl err
      | Inr renderedEndpoint \<Rightarrow>
          (case renderQueryParams env m of
             Inl err \<Rightarrow> Inl err
           | Inr renderedParams \<Rightarrow>
               (case MergeQueryParams (pe_parse_url env) renderedEndpoint renderedParams of
                  Inl err \<Rightarrow> Inl (errorf (''applying queryParams: '' @ err_text err) err)
                | Inr endpoint \<Rightarrow>
                    (case NormalizeURL (pe_parse_url env) endpoint of
                       Inl err \<Rightarrow> Inl err
                     | Inr endpoint \<Rightarrow>
                         (case buildEndpointWithState env m endpoint of
                            Inl err \<Rightarrow> Inl (errorf (''building endpoint with state: '' @ err_text err) err)
                          | Inr endpoint \<Rightarrow> Inr endpoint)))))"

definition poll_Fetch ::
  "('h, 'p) poll_env \<Rightarrow> ('h, 'p) HTTPPolling \<Rightarrow> 'h poll_state \<Rightarrow> (gerr + records) maybe_panic \<times> 'h poll_state" where
  "poll_Fetch env m s =
     (let s = s\<lparr>ps_oauth2RetryCount := 0\<rparr>
      in (case resolve_endpoint env m of
            Inl err \<Rightarrow> (Ran (Inl err), s)
          | Inr endpoint \<Rightarrow>
              (case hp_pagination m of
                 Some p \<Rightarrow> fetchWithPagination (fetchAndParseObject env m) (module_page_env env m p) endpoint s
               | None \<Rightarrow> fetchSingle env m endpoint s)))"

definition poll_GetRetryInfo :: "'h poll_state \<Rightarrow> retry_info option" where
  "poll_GetRetryInfo s = ps_lastRetryInfo s"


subsection \<open>Construction\<close>

record HTTPPollingInputConfig =
  pi_OnError :: string
  pi_Endpoint :: string
  pi_Method :: string
  pi_Headers :: "(string \<times> string) list"
  pi_QueryParams :: "(string \<times> string) list"
  pi_Body :: string
  pi_BodyTemplateFile :: string
  pi_Authentication :: "AuthConfig option"
  pi_TimeoutMs :: int
  pi_DataField :: string
  pi_Pagination :: "PaginationConfig option"
  pi_Retry :: "RetryConfig option"
  pi_RetryCodesNil :: bool
  pi_StatePersistence :: "StatePersistenceConfig option"

datatype polling_error =
    PollNilConfig
  | PollParse gerr
  | PollMissingEndpoint
  | PollOnError strategy_error
  | PollPagination pagination_error
  | PollMethod string
  | PollBodyFile string gerr
  | PollRetry retry_config_error
  | PollAuth gerr
  | PollHint hint_error
  | PollStateReference gerr

text \<open>\<open>ParseConfig\<close> and \<open>ParseModuleConfig\<close>; \<open>decode\<close> is \<open>json.Unmarshal\<close> into the type.\<close>

definition ParseConfig :: "(string \<Rightarrow> gerr + 'c) \<Rightarrow> string \<Rightarrow> gerr + 'c" where
  "ParseConfig decode raw =
     (case decode raw of Inl err \<Rightarrow> Inl (errorf (''parsing module config: '' @ err_text err) err) | Inr cfg \<Rightarrow> Inr cfg)"

definition ParseModuleConfig :: "(string \<Rightarrow> gerr + 'c) \<Rightarrow> string option \<Rightarrow> gerr + 'c" where
  "ParseModuleConfig decode raw =
     (case raw of None \<Rightarrow> Inl (plain_error ''no config data available (Raw is nil)'') | Some r \<Rightarrow> ParseConfig decode r)"

text \<open>\<open>codes_nil\<close> says whether the list of status codes is nil rather than empty.\<close>

definition ToRetryConfig :: "RetryConfig option \<Rightarrow> bool \<Rightarrow> RetryConfig" where
  "ToRetryConfig rc codes_nil =
     (case rc of
        None \<Rightarrow> DefaultRetryConfig
      | Some cfg \<Rightarrow>
          cfg\<lparr>DelayMs := (if DelayMs cfg = 0 then DelayMs DefaultRetryConfig else DelayMs cfg),
              BackoffMultiplier := (if BackoffMultiplier cfg = FFin 0 then BackoffMultiplier DefaultRetryConfig else BackoffMultiplier cfg),
              MaxDelayMs := (if MaxDelayMs cfg = 0 then MaxDelayMs DefaultRetryConfig else MaxDelayMs cfg),
              RetryableStatusCodes := (if codes_nil then RetryableStatusCodes DefaultRetryConfig else RetryableStatusCodes cfg)\<rparr>)"

text \<open>
  \<open>strings.ToUpper\<close> on the ASCII letters and on the two code points outside ASCII whose upper case
  is an ASCII letter (U+0131 to \<open>I\<close>, U+017F to \<open>S\<close>); any other code point outside ASCII stays
  outside and is no token, which is all that is asked of it.
\<close>

fun to_upper :: "string \<Rightarrow> string" where
  "to_upper [] = []"
| "to_upper (a # s) =
     (case s of
        [] \<Rightarrow> [ascii_upper a]
      | b # s' \<Rightarrow>
          if a = CHR 0xC4 \<and> b = CHR 0xB1 then CHR ''I'' # to_upper s'
          else if a = CHR 0xC5 \<and> b = CHR 0xBF then CHR ''S'' # to_upper s'
          else ascii_upper a # to_upper s)"

definition NormalizeAndValidateMethod :: "header_rules \<Rightarrow> string \<Rightarrow> string + string" where
  "NormalizeAndValidateMethod rules method =
     (let m = trim_space method
      in if m = [] then Inr ''GET''
         else if \<not> ValidHeaderFieldName rules (to_upper m)
         then Inl (''invalid HTTP method: \"'' @ method @ ''\" (must be an RFC 7230 token)'')
         else Inr (to_upper m))"

definition defaultTimeout :: int where "defaultTimeout = 30 * 1000000000"

text \<open>What the constructor uses of its surroundings.\<close>

record ('h, 'p) poll_world =
  pw_decode :: "string \<Rightarrow> gerr + HTTPPollingInputConfig"
  pw_read_file :: "string \<Rightarrow> gerr + string"
  pw_auth :: "'h auth_world"
  pw_expr_compile :: "string \<Rightarrow> 'p option"
  pw_rules :: header_rules

definition body_source :: "('h, 'p) poll_world \<Rightarrow> HTTPPollingInputConfig \<Rightarrow> polling_error + string" where
  "body_source w cfg =
     (if pi_Body cfg = [] \<and> pi_BodyTemplateFile cfg \<noteq> []
      then (case pw_read_file w (pi_BodyTemplateFile cfg) of
              Inl readErr \<Rightarrow> Inl (PollBodyFile (pi_BodyTemplateFile cfg) readErr)
            | Inr raw \<Rightarrow> Inr raw)
      else Inr (pi_Body cfg))"

definition polling_store :: "StatePersistenceConfig option \<Rightarrow> StateStore option" where
  "polling_store sp =
     (case sp of
        None \<Rightarrow> None
      | Some c \<Rightarrow>
          if persistence_IsEnabled sp
          then Some (NewStateStore (if StoragePath c = [] then DefaultStatePath else StoragePath c)) else None)"

definition NewHTTPPollingFromConfig ::
  "('h, 'p) poll_world \<Rightarrow> string option option \<Rightarrow> polling_error + ('h, 'p) HTTPPolling" where
  "NewHTTPPollingFromConfig w config =
     (case config of
        None \<Rightarrow> Inl PollNilConfig
      | Some raw \<Rightarrow>
     (case ParseModuleConfig (pw_decode w) raw of
        Inl err \<Rightarrow> Inl (PollParse err)
      | Inr cfg \<Rightarrow>
      if pi_Endpoint cfg = [] then Inl PollMissingEndpoint
      else (case ParseOnErrorStrategy (pi_OnError cfg) of
        Inl parseErr \<Rightarrow> Inl (PollOnError parseErr)
      | Inr _ \<Rightarrow>
     (case PaginationConfig_Validate (pi_Pagination cfg) of
        Some vErr \<Rightarrow> Inl (PollPagination vErr)
      | None \<Rightarrow>
     (case NormalizeAndValidateMethod (pw_rules w) (pi_Method cfg) of
        Inl err \<Rightarrow> Inl (PollMethod err)
      | Inr http_method \<Rightarrow>
     (case body_source w cfg of
        Inl err \<Rightarrow> Inl err
      | Inr bodyTemplate \<Rightarrow>
          let retryConfig = ToRetryConfig (pi_Retry cfg) (pi_RetryCodesNil cfg)
          in (case RetryConfig_Validate retryConfig of
        Some vErr \<Rightarrow> Inl (PollRetry vErr)
      | None \<Rightarrow>
     (case NewHandler (pw_auth w) (pi_Authentication cfg) of
        Inl err \<Rightarrow> Inl (PollAuth err)
      | Inr authHandler \<Rightarrow>
     (case CompileRetryHint (pw_expr_compile w) (RetryHintFromBody retryConfig) of
        Inl err \<Rightarrow> Inl (PollHint err)
      | Inr retryHintProgram \<Rightarrow>
          let h = \<lparr>hp_endpoint = pi_Endpoint cfg, hp_queryParams = pi_QueryParams cfg, hp_method = http_method,
                   hp_body = pi_Body cfg, hp_bodyTemplateFile = pi_BodyTemplateFile cfg, hp_bodyTemplate = bodyTemplate,
                   hp_headers = pi_Headers cfg, hp_timeout = GetTimeoutDuration (pi_TimeoutMs cfg) defaultTimeout,
                   hp_dataField = pi_DataField cfg, hp_pagination = pi_Pagination cfg, hp_authHandler = authHandler,
                   hp_retryConfig = retryConfig, hp_retryHintProgram = retryHintProgram,
                   hp_persistenceConfig = pi_StatePersistence cfg, hp_stateStore = polling_store (pi_StatePersistence cfg),
                   hp_pipelineID = [], hp_lastState = None\<rparr>
          in (case validateStateTemplates h of
        Some err \<Rightarrow> Inl (PollStateReference err)
      | None \<Rightarrow> Inr h))))))))))"

subsection \<open>What a constructed module is\<close>

definition poll_configured :: "('h, 'p) HTTPPolling \<Rightarrow> bool" where
  "poll_configured m \<longleftrightarrow>
     hp_endpoint m \<noteq> [] \<and> hp_method m \<noteq> []
   \<and> RetryConfig_Validate (hp_retryConfig m) = None
   \<and> (case hp_pagination m of None \<Rightarrow> True | Some p \<Rightarrow> pg_Type p \<in> {''page'', ''offset'', ''cursor''} \<and> pg_Param p \<noteq> [])
   \<and> (\<forall>(field, src) \<in> set (state_fields m). set (StateReferences src) \<subseteq> {''lastTimestamp'', ''lastId''})
   \<and> hp_lastState m = None
   \<and> (hp_stateStore m \<noteq> None \<longleftrightarrow> persistence_IsEnabled (hp_persistenceConfig m))"

lemma pagination_valid: "PaginationConfig_Validate (Some p) = None \<Longrightarrow> pg_Type p \<in> {''page'', ''offset'', ''cursor''} \<and> pg_Param p \<noteq> []"
  by (auto simp: PaginationConfig_Validate_def Let_def split: if_splits)

lemma to_upper_ne: "to_upper s = [] \<longleftrightarrow> s = []"
  by (cases s) (auto split: list.split)

lemma method_ne: "NormalizeAndValidateMethod rules m = Inr m' \<Longrightarrow> m' \<noteq> []"
  by (auto simp: NormalizeAndValidateMethod_def Let_def to_upper_ne split: if_splits)

lemma NewHTTPPolling_cases:
  assumes "NewHTTPPollingFromConfig w config = Inr m"
  obtains cfg raw where "config = Some raw" "ParseModuleConfig (pw_decode w) raw = Inr cfg" "pi_Endpoint cfg \<noteq> []"
    "PaginationConfig_Validate (pi_Pagination cfg) = None"
    "NormalizeAndValidateMethod (pw_rules w) (pi_Method cfg) = Inr (hp_method m)"
    "RetryConfig_Validate (hp_retryConfig m) = None" "validateStateTemplates m = None"
    "NewHandler (pw_auth w) (pi_Authentication cfg) = Inr (hp_authHandler m)"
    "hp_endpoint m = pi_Endpoint cfg" "hp_pagination m = pi_Pagination cfg" "hp_lastState m = None"
    "hp_persistenceConfig m = pi_StatePersistence cfg" "hp_stateStore m = polling_store (pi_StatePersistence cfg)"
  using assms
  by (cases config) (auto simp: NewHTTPPollingFromConfig_def Let_def split: option.splits sum.splits if_splits)

lemma NewHTTPPolling_configured:
  assumes "NewHTTPPollingFromConfig w config = Inr m"
  shows "poll_configured m"
proof (rule NewHTTPPolling_cases [OF assms])
  fix cfg raw
  assume c: "pi_Endpoint cfg \<noteq> []" "PaginationConfig_Validate (pi_Pagination cfg) = None"
    "NormalizeAndValidateMethod (pw_rules w) (pi_Method cfg) = Inr (hp_method m)"
    "RetryConfig_Validate (hp_retryConfig m) = None" "validateStateTemplates m = None"
    "hp_endpoint m = pi_Endpoint cfg" "hp_pagination m = pi_Pagination cfg" "hp_lastState m = None"
    "hp_persistenceConfig m = pi_StatePersistence cfg" "hp_stateStore m = polling_store (pi_StatePersistence cfg)"
  have "ValidateStateReferences field src = None" if "(field, src) \<in> set (state_fields m)" for field src
    using c(5) that unfolding validateStateTemplates_def first_some_None by fastforce
  then have refs: "\<forall>(field, src) \<in> set (state_fields m). set (StateReferences src) \<subseteq> {''lastTimestamp'', ''lastId''}"
    unfolding ValidateStateReferences_ok by blast
  have pg: "case hp_pagination m of None \<Rightarrow> True | Some p \<Rightarrow> pg_Type p \<in> {''page'', ''offset'', ''cursor''} \<and> pg_Param p \<noteq> []"
    using c(2,7) pagination_valid by (cases "pi_Pagination cfg") auto
  have st: "hp_stateStore m \<noteq> None \<longleftrightarrow> persistence_IsEnabled (hp_persistenceConfig m)"
    using c(9,10) by (auto simp: polling_store_def persistence_IsEnabled_def split: option.splits)
  from refs pg st c method_ne [OF c(3)] show ?thesis by (simp add: poll_configured_def)
qed


subsection \<open>No nil response\<close>

lemma request_no_panic:
  assumes "0 \<le> MaxAttempts (hp_retryConfig m)"
  shows "fst (poll_doRequestWithRetry env m endpoint s) \<noteq> NilPointerPanic"
proof -
  obtain built h1 where b: "poll_buildRequest env m endpoint (ps_net s) = (built, h1)" by fastforce
  show ?thesis
  proof (cases built)
    case (Inr req)
    obtain resp err h count delays where d: "DoWithRetry (counting_ctx (pe_ctx env)) (Some (counting_client (pe_client env req)))
        \<lparr>rq_Method = cr_Method req, rq_URL = cr_URL req\<rparr> (hp_retryConfig m) (poll_hooks env m)
        (h1, ps_oauth2RetryCount s, []) = ((resp, err), (h, count, delays))"
      by (metis prod_cases3 surj_pair)
    have "err = None \<Longrightarrow> resp \<noteq> None" using DoWithRetry_end [OF assms d] attempt_fn_success by fastforce
    then show ?thesis using b Inr d by (auto simp: poll_doRequestWithRetry_def Let_def split: option.split)
  qed (simp add: poll_doRequestWithRetry_def b)
qed

definition never_panics :: "'s page_fetch \<Rightarrow> bool" where
  "never_panics fetch \<longleftrightarrow> (\<forall>url s s'. fetch url s \<noteq> (NilPointerPanic, s'))"

lemma fetch_with_no_panic: "never_panics fetch \<Longrightarrow> fetch_with meta fetch env url s \<noteq> (NilPointerPanic, s')"
  by (auto simp: fetch_with_def never_panics_def split: prod.splits maybe_panic.splits sum.splits)

lemmas page_metas = fetchPageWithMeta_def fetchCursorWithMeta_def fetchOffsetWithMeta_def

lemma page_loop_no_panic: "never_panics fetch \<Longrightarrow> page_loop fetch env base k page all s \<noteq> (NilPointerPanic, s')"
  by (induction k arbitrary: page all s)
    (auto simp: Let_def page_metas fetch_with_no_panic split: sum.split prod.split maybe_panic.split)

lemma cursor_loop_no_panic: "never_panics fetch \<Longrightarrow> cursor_loop fetch env base k c all s \<noteq> (NilPointerPanic, s')"
  by (induction k arbitrary: c all s)
    (auto simp: Let_def page_metas fetch_with_no_panic split: sum.split prod.split maybe_panic.split)

lemma offset_loop_no_panic: "never_panics fetch \<Longrightarrow> offset_loop fetch env base limit k offset all s \<noteq> (NilPointerPanic, s')"
  by (induction k arbitrary: offset all s)
    (auto simp: Let_def page_metas fetch_with_no_panic split: sum.split prod.split maybe_panic.split)

lemma fetchWithPagination_no_panic: "never_panics fetch \<Longrightarrow> fetchWithPagination fetch env base s \<noteq> (NilPointerPanic, s')"
  by (simp add: fetchWithPagination_def fetchPageBased_def fetchCursorBased_def fetchOffsetBased_def Let_def
      page_loop_no_panic cursor_loop_no_panic offset_loop_no_panic del: offset_loop.simps page_loop.simps cursor_loop.simps)

lemma Fetch_no_panic:
  assumes "0 \<le> MaxAttempts (hp_retryConfig m)"
  shows "fst (poll_Fetch env m s) \<noteq> NilPointerPanic"
proof -
  have req: "poll_doRequestWithRetry env m url s \<noteq> (NilPointerPanic, s')" for url s s'
    using request_no_panic [OF assms, of env url s] by auto
  then have "never_panics (fetchAndParseObject env m)"
    by (auto simp: never_panics_def fetchAndParseObject_def split: prod.splits maybe_panic.splits sum.splits)
  then have "fetchWithPagination (fetchAndParseObject env m) pe url s \<noteq> (NilPointerPanic, s')" for pe url s s'
    by (rule fetchWithPagination_no_panic)
  moreover have "fetchSingle env m url s \<noteq> (NilPointerPanic, s')" for url s s'
    using req by (auto simp: fetchSingle_def split: prod.splits maybe_panic.splits sum.splits)
  ultimately have "poll_Fetch env m s \<noteq> (NilPointerPanic, s')" for s'
    by (auto simp: poll_Fetch_def Let_def split: sum.split option.split)
  then show ?thesis by (metis prod.collapse)
qed

subsection \<open>Invalidations\<close>

definition fetch_keeps :: "('s \<Rightarrow> bool) \<Rightarrow> 's page_fetch \<Rightarrow> bool" where
  "fetch_keeps P fetch \<longleftrightarrow> (\<forall>url s. P s \<longrightarrow> P (snd (fetch url s)))"

lemma fetch_with_keeps:
  "fetch_keeps P fetch \<Longrightarrow> P s \<Longrightarrow> fetch_with meta fetch env url s = (r, s') \<Longrightarrow> P s'"
  unfolding fetch_with_def fetch_keeps_def
  by (cases "fetch url s") (force split: maybe_panic.splits sum.splits dest: spec [of _ url])

lemma page_loop_keeps: "fetch_keeps P fetch \<Longrightarrow> P s \<Longrightarrow> P (snd (page_loop fetch env base k page all s))"
  by (induction k arbitrary: page all s)
    (auto simp: Let_def page_metas dest: fetch_with_keeps split: sum.split prod.split maybe_panic.split)

lemma cursor_loop_keeps: "fetch_keeps P fetch \<Longrightarrow> P s \<Longrightarrow> P (snd (cursor_loop fetch env base k c all s))"
  by (induction k arbitrary: c all s)
    (auto simp: Let_def page_metas dest: fetch_with_keeps split: sum.split prod.split maybe_panic.split)

lemma offset_loop_keeps: "fetch_keeps P fetch \<Longrightarrow> P s \<Longrightarrow> P (snd (offset_loop fetch env base limit k offset all s))"
  by (induction k arbitrary: offset all s)
    (auto simp: Let_def page_metas dest: fetch_with_keeps split: sum.split prod.split maybe_panic.split)

lemma fetchWithPagination_keeps: "fetch_keeps P fetch \<Longrightarrow> P s \<Longrightarrow> P (snd (fetchWithPagination fetch env base s))"
  by (simp add: fetchWithPagination_def fetchPageBased_def fetchCursorBased_def fetchOffsetBased_def Let_def
      page_loop_keeps cursor_loop_keeps offset_loop_keeps del: offset_loop.simps page_loop.simps cursor_loop.simps)

text \<open>\<open>cnt\<close> counts the invalidations: nothing else changes it.\<close>

definition counts_invalidations :: "('h, 'p) poll_env \<Rightarrow> ('h, 'p) HTTPPolling \<Rightarrow> ('h \<Rightarrow> int) \<Rightarrow> bool" where
  "counts_invalidations env m cnt \<longleftrightarrow>
     (\<forall>inv h. Option.bind (hp_authHandler m) ah_Invalidate = Some inv \<longrightarrow> cnt (inv h) = cnt h + 1)
   \<and> (\<forall>handler req h r h'. hp_authHandler m = Some handler \<longrightarrow> ah_Apply handler req h = (r, h') \<longrightarrow> cnt h' = cnt h)
   \<and> (\<forall>req h r h'. do_request (pe_client env req) h = (r, h') \<longrightarrow> cnt h' = cnt h)
   \<and> (\<forall>req g h r h'. get_body (pe_client env req) = Some g \<longrightarrow> g h = (r, h') \<longrightarrow> cnt h' = cnt h)
   \<and> (\<forall>d h r h'. rc_wait (pe_ctx env) d h = (r, h') \<longrightarrow> cnt h' = cnt h)"

definition refreshes_counted :: "('h \<Rightarrow> int) \<Rightarrow> int \<Rightarrow> 'h \<Rightarrow> int \<Rightarrow> bool" where
  "refreshes_counted cnt before h n \<longleftrightarrow> cnt h = before + n \<and> 0 \<le> n \<and> n \<le> MaxOAuth2Retries"

lemma request_counts:
  assumes "counts_invalidations env m cnt" "refreshes_counted cnt c0 (ps_net s) (ps_oauth2RetryCount s)"
    and "poll_doRequestWithRetry env m endpoint s = (r, s')"
  shows "refreshes_counted cnt c0 (ps_net s') (ps_oauth2RetryCount s')"
proof -
  let ?P = "\<lambda>(h, n, delays). refreshes_counted cnt c0 h n"
  obtain built h1 where b: "poll_buildRequest env m endpoint (ps_net s) = (built, h1)" by fastforce
  have "cnt h1 = cnt (ps_net s)"
    using b assms(1) unfolding poll_buildRequest_def counts_invalidations_def Let_def
    by (auto split: option.splits sum.splits prod.splits if_splits)
  then have h1: "refreshes_counted cnt c0 h1 (ps_oauth2RetryCount s)" using assms(2) by (simp add: refreshes_counted_def)
  show ?thesis
  proof (cases built)
    case (Inl err)
    with assms(3) b h1 show ?thesis by (auto simp: poll_doRequestWithRetry_def)
  next
    case (Inr req)
    obtain resp err h count delays where d: "DoWithRetry (counting_ctx (pe_ctx env)) (Some (counting_client (pe_client env req)))
        \<lparr>rq_Method = cr_Method req, rq_URL = cr_URL req\<rparr> (hp_retryConfig m) (poll_hooks env m)
        (h1, ps_oauth2RetryCount s, []) = ((resp, err), (h, count, delays))"
      by (metis prod_cases3 surj_pair)
    have "?P (h, count, delays)"
      by (rule DoWithRetry_invariant [where P = ?P, OF d])
        (use h1 assms(1) in \<open>auto simp: counting_client_def counting_ctx_def poll_hooks_def poll_handleOAuth2Unauthorized_def
           counts_invalidations_def refreshes_counted_def split: prod.splits option.splits if_splits\<close>)
    with assms(3) b Inr d show ?thesis
      by (auto simp: poll_doRequestWithRetry_def Let_def split: option.splits)
  qed
qed

lemma Fetch_counts:
  assumes "counts_invalidations env m cnt" "poll_Fetch env m s = (r, s')"
  shows "refreshes_counted cnt (cnt (ps_net s)) (ps_net s') (ps_oauth2RetryCount s')"
proof -
  let ?P = "\<lambda>s'. refreshes_counted cnt (cnt (ps_net s)) (ps_net s') (ps_oauth2RetryCount s')"
  let ?s0 = "s\<lparr>ps_oauth2RetryCount := 0\<rparr>"
  have P0: "?P ?s0" by (simp add: refreshes_counted_def MaxOAuth2Retries_def)
  have req: "?P s2" if "?P s1" "poll_doRequestWithRetry env m url s1 = (r, s2)" for url s1 r s2
    using request_counts [OF assms(1) that] .
  have "fetch_keeps ?P (fetchAndParseObject env m)"
    using req by (auto simp: fetch_keeps_def fetchAndParseObject_def split: prod.split maybe_panic.split sum.split)
  moreover have "?P (snd (fetchSingle env m url s1))" if "?P s1" for url s1
    using that req by (auto simp: fetchSingle_def split: prod.split maybe_panic.split sum.split)
  ultimately have "?P (snd (poll_Fetch env m s))"
    using P0 by (auto simp: poll_Fetch_def Let_def intro: fetchWithPagination_keeps split: sum.split option.split)
  with assms(2) show ?thesis by simp
qed


subsection \<open>Resumption\<close>

text \<open>What \<open>net/url\<close> documents: the query is a part of the text, and printing escapes spaces elsewhere.\<close>

definition url_parser_ok :: "(string \<Rightarrow> gerr + go_url) \<Rightarrow> bool" where
  "url_parser_ok parse \<longleftrightarrow>
     (\<forall>s u. parse s = Inr u \<longrightarrow>
        (CHR '' '' \<notin> set s \<longrightarrow> CHR '' '' \<notin> set (url_query u))
      \<and> (\<forall>q. CHR '' '' \<notin> set q \<longrightarrow> CHR '' '' \<notin> set (print_with u q)))"

text \<open>The pairs of a query with a given name.\<close>

definition query_pairs :: "string \<Rightarrow> string \<Rightarrow> string list" where
  "query_pairs name q = filter (\<lambda>pair. queryPairName pair = name) (split_on (CHR ''&'') q)"

lemma NormalizeURL_no_space:
  "url_parser_ok parse \<Longrightarrow> NormalizeURL parse raw = Inr url \<Longrightarrow> CHR '' '' \<notin> set url"
  using encode_spaces_free by (fastforce simp: NormalizeURL_def url_parser_ok_def split: if_splits sum.splits)

lemma filter_single: "distinct xs \<Longrightarrow> p \<in> set xs \<Longrightarrow> filter (\<lambda>x. x = p) xs = [p]"
  by (induction xs) (auto simp: filter_empty_conv)

lemma merged_once:
  assumes "url_parser_ok parse" "CHR '' '' \<notin> set endpoint" "distinct (map fst params)" "(name, value) \<in> set params"
    and "MergeQueryParams parse endpoint params = Inr url"
  shows "\<exists>(u::go_url) q. url = print_with u q
    \<and> query_pairs name q = [EscapeQueryComponent name @ ''='' @ EscapeQueryComponent value]"
proof -
  have ne: "params \<noteq> []" using assms(4) by auto
  obtain u where u: "parse endpoint = Inr u" using assms(5) ne by (auto simp: MergeQueryParams_def split: sum.splits)
  then have "CHR '' '' \<notin> set (url_query u)" using assms(1,2) unfolding url_parser_ok_def by blast
  from MergeQueryParams_correct [where parse_full = parse and endpoint = endpoint and u = u and params = params, OF u assms(3) ne this] assms(5) obtain q where q: "url = print_with u q"
      "split_on (CHR ''&'') q = kept_pairs (url_query u) params @ added_pairs params" by auto
  have mv: "map_of params name = Some value" using assms(3,4) by (rule map_of_is_SomeI)
  then have "filter (\<lambda>pair. queryPairName pair = name) (kept_pairs (url_query u) params) = []"
    by (auto simp: kept_pairs_def filter_empty_conv)
  moreover have "filter (\<lambda>pair. queryPairName pair = name) (added_pairs params)
      = [EscapeQueryComponent name @ ''='' @ EscapeQueryComponent value]"
  proof -
    let ?pair = "\<lambda>n. EscapeQueryComponent n @ ''='' @ EscapeQueryComponent (the (map_of params n))"
    have "filter (\<lambda>pair. queryPairName pair = name) (added_pairs params) = map ?pair (filter (\<lambda>n. n = name) (sort (map fst params)))"
      unfolding added_pairs_def filter_map comp_def
      by (intro arg_cong [of _ _ "map _"] filter_cong refl) (metis component_name component_no(1))
    moreover have "filter (\<lambda>n. n = name) (sort (map fst params)) = [name]"
      by (rule filter_single) (use assms(3,4) in force)+
    ultimately show ?thesis using mv by simp
  qed
  ultimately show ?thesis using q by (intro exI [of _ u] exI [of _ q]) (simp add: query_pairs_def)
qed

text \<open>The two parameters of the state have different names.\<close>

definition separate_params :: "StatePersistenceConfig \<Rightarrow> bool" where
  "separate_params cfg \<longleftrightarrow> (case (pc_Timestamp cfg, pc_ID cfg) of (Some t, Some i) \<Rightarrow> ts_QueryParam t \<noteq> id_QueryParam i | _ \<Rightarrow> True)"

lemma state_params_timestamp:
  assumes "pc_Timestamp cfg = Some tc" "ts_Enabled tc" "ts_QueryParam tc \<noteq> []" "LastTimestamp st = Some t" "separate_params cfg"
  shows "distinct (map fst (state_params fmt_rfc3339 (Some cfg) st)) \<and> (ts_QueryParam tc, fmt_rfc3339 t) \<in> set (state_params fmt_rfc3339 (Some cfg) st)"
  using assms
  by (auto simp: state_params_def TimestampEnabled_def IDEnabled_def FormatTimestamp_def put_param_def separate_params_def Let_def
      split: option.splits)

lemma loaded_state_in_endpoint:
  assumes "hp_lastState m = Some st" "LastTimestamp st = Some t"
    and "hp_persistenceConfig m = Some cfg" "pc_Timestamp cfg = Some tc" "ts_Enabled tc" "ts_QueryParam tc \<noteq> []" "separate_params cfg"
    and "url_parser_ok (pe_parse_url env)" "resolve_endpoint env m = Inr url"
  shows "\<exists>(u::go_url) q. url = print_with u q
    \<and> query_pairs (ts_QueryParam tc) q = [EscapeQueryComponent (ts_QueryParam tc) @ ''='' @ EscapeQueryComponent (pe_fmt_rfc3339 env t)]"
proof -
  obtain plain where plain: "CHR '' '' \<notin> set plain" "buildEndpointWithState env m plain = Inr url"
    using assms(9) NormalizeURL_no_space [OF assms(8)] by (auto simp: resolve_endpoint_def split: sum.splits)
  have "persistence_IsEnabled (hp_persistenceConfig m)" using assms(3-5) by (simp add: persistence_IsEnabled_def)
  then have "MergeQueryParams (pe_parse_url env) plain (state_params (pe_fmt_rfc3339 env) (Some cfg) st) = Inr url"
    using plain(2) assms(1,3) by (auto simp: buildEndpointWithState_def split: sum.splits)
  with merged_once [OF assms(8) plain(1)] state_params_timestamp [OF assms(4-6,2,7)] show ?thesis by blast
qed

text \<open>
  A poll resumes where the last run stopped: after a save of the pipeline's state, the module
  of the next run loads this state, and the endpoint of every request it makes carries the saved
  timestamp exactly once under the configured name, whatever the endpoint, its templates and the
  static parameters already hold under that name.
\<close>
theorem polling_resumes_from_saved_state:
  assumes "state_Save ops store i (Some st) d = (None, d')" "plain_id i" "codec_ok ops store i st"
    and "poll_LoadState ops d' (poll_SetPipelineID i (poll_SetStateStore (Some store) m)) = (loaded, m')"
    and "hp_persistenceConfig m = Some cfg" "pc_Timestamp cfg = Some tc" "ts_Enabled tc" "ts_QueryParam tc \<noteq> []" "separate_params cfg"
    and "LastTimestamp st = Some t" "url_parser_ok (pe_parse_url env)" "resolve_endpoint env m' = Inr url"
  shows "loaded = Inr (Some (st\<lparr>st_PipelineID := i\<rparr>))
    \<and> (\<exists>(u::go_url) q. url = print_with u q
         \<and> query_pairs (ts_QueryParam tc) q
             = [EscapeQueryComponent (ts_QueryParam tc) @ ''='' @ EscapeQueryComponent (pe_fmt_rfc3339 env t)])"
proof -
  have "i \<noteq> []" using assms(2) by (simp add: plain_id_def)
  have "load_state ops store i d' = Some (st\<lparr>st_PipelineID := i\<rparr>)"
    by (rule files.saved [OF assms(2,3), where fs = d]) (simp add: save_ok_def assms(1))
  then have "state_Load ops store i d' = Inr (Some (st\<lparr>st_PipelineID := i\<rparr>))"
    by (auto simp: load_state_def split: sum.splits)
  with assms(4) \<open>i \<noteq> []\<close> have l: "loaded = Inr (Some (st\<lparr>st_PipelineID := i\<rparr>))"
      "hp_lastState m' = Some (st\<lparr>st_PipelineID := i\<rparr>)" "hp_persistenceConfig m' = Some cfg"
    using assms(5) by (auto simp: poll_LoadState_def poll_SetPipelineID_def poll_SetStateStore_def)
  from loaded_state_in_endpoint [OF l(2) _ l(3) assms(6-9,11,12)] assms(10) l(1) show ?thesis by simp
qed

subsection \<open>Properties of a fetch\<close>

text \<open>
  A fetch of a constructed module never dereferences a nil response, its pagination has a
  known type, and every state variable a template of it reads exists.
\<close>
theorem polling_constructed_runs:
  assumes "NewHTTPPollingFromConfig w config = Inr m"
  shows "poll_configured m
    \<and> fst (poll_Fetch env (m\<lparr>hp_stateStore := store, hp_pipelineID := i, hp_lastState := st\<rparr>) s) \<noteq> NilPointerPanic"
proof -
  have c: "poll_configured m" using assms by (rule NewHTTPPolling_configured)
  then have "0 \<le> MaxAttempts (hp_retryConfig m)" by (auto simp: poll_configured_def RetryConfig_Validate_def split: if_splits)
  with c show ?thesis using Fetch_no_panic [of "m\<lparr>hp_stateStore := store, hp_pipelineID := i, hp_lastState := st\<rparr>" env s] by simp
qed

text \<open>
  A fetch invalidates the OAuth2 token at most twice, over all its pages and attempts together.
\<close>
theorem polling_refreshes_bounded:
  assumes "counts_invalidations env m cnt" "poll_Fetch env m s = (r, s')"
  shows "cnt (ps_net s) \<le> cnt (ps_net s') \<and> cnt (ps_net s') \<le> cnt (ps_net s) + MaxOAuth2Retries
    \<and> cnt (ps_net s') - cnt (ps_net s) = ps_oauth2RetryCount s'"
  using Fetch_counts [OF assms] by (auto simp: refreshes_counted_def)


subsection \<open>Examples\<close>

text \<open>A server that always answers 401; the network state counts the invalidations.\<close>

definition demo_poll_env :: "(int, unit) poll_env" where
  "demo_poll_env =
     \<lparr>pe_ctx = \<lparr>rc_done = (\<lambda>_. None), rc_wait = (\<lambda>_ h. (None, h)), rc_elapsed = (\<lambda>_. 0), rc_now = 0,
        rc_parse_http_time = (\<lambda>_. None), rc_url = demo_env, rc_float = exact_ops\<rparr>,
      pe_client = (\<lambda>_. \<lparr>get_body = None, do_request = (\<lambda>h. (Inr (demo_response 401), h))\<rparr>),
      pe_render = (\<lambda>src _ _. Inr src),
      pe_parse_url = (\<lambda>s. Inr \<lparr>url_scheme = ''http'', url_host = ''h'', url_query = [], print_with = (\<lambda>q. ''http://h?'' @ q)\<rparr>),
      pe_rules = \<lparr>ValidHeaderFieldName = (\<lambda>_. True), ValidHeaderFieldValue = (\<lambda>_. True)\<rparr>,
      pe_unmarshal = (\<lambda>_. Inr GNil), pe_type_error = (\<lambda>_. plain_error []), pe_hint_data = (\<lambda>_. None),
      pe_expr_run = (\<lambda>_ _. None), pe_media_type = (\<lambda>_. None), pe_fmt_rfc3339 = itoa, pe_fmt_T = (\<lambda>_. []),
      pe_format_float = (\<lambda>_. []), pe_order = (\<lambda>_. [])\<rparr>"

definition demo_handler :: "int auth_handler" where
  "demo_handler = \<lparr>ah_Type = ''oauth2'', ah_Apply = (\<lambda>req h. (Inr req, h)), ah_Invalidate = Some (\<lambda>h. h + 1), ah_Preview = None\<rparr>"

definition demo_poll_cfg :: HTTPPollingInputConfig where
  "demo_poll_cfg =
     \<lparr>pi_OnError = [], pi_Endpoint = ''http://h'', pi_Method = [], pi_Headers = [], pi_QueryParams = [], pi_Body = [],
      pi_BodyTemplateFile = [], pi_Authentication = None, pi_TimeoutMs = 0, pi_DataField = [],
      pi_Pagination = Some \<lparr>pg_Type = ''cursor'', pg_Param = ''c'', pg_LimitParam = [], pg_Limit = 0, pg_TotalPagesField = [],
        pg_TotalField = [], pg_NextCursorField = ''nxt''\<rparr>,
      pi_Retry = None, pi_RetryCodesNil = True,
      pi_StatePersistence = Some \<lparr>pc_Timestamp = Some \<lparr>ts_Enabled = True, ts_QueryParam = ''since''\<rparr>, pc_ID = None, StoragePath = []\<rparr>\<rparr>"

definition demo_poll_world :: "(demo_world, unit) poll_world" where
  "demo_poll_world = \<lparr>pw_decode = (\<lambda>_. Inr demo_poll_cfg), pw_read_file = (\<lambda>_. Inr []), pw_auth = demo_world,
     pw_expr_compile = (\<lambda>_. Some ()), pw_rules = \<lparr>ValidHeaderFieldName = (\<lambda>_. True), ValidHeaderFieldValue = (\<lambda>_. True)\<rparr>\<rparr>"

definition demo_polling :: "int auth_handler option \<Rightarrow> (int, unit) HTTPPolling" where
  "demo_polling handler =
     \<lparr>hp_endpoint = ''http://h'', hp_queryParams = [], hp_method = ''GET'', hp_body = [], hp_bodyTemplateFile = [],
      hp_bodyTemplate = [], hp_headers = [], hp_timeout = defaultTimeout, hp_dataField = [],
      hp_pagination = pi_Pagination demo_poll_cfg, hp_authHandler = handler, hp_retryConfig = DefaultRetryConfig,
      hp_retryHintProgram = None, hp_persistenceConfig = pi_StatePersistence demo_poll_cfg,
      hp_stateStore = Some (NewStateStore []), hp_pipelineID = [], hp_lastState = None\<rparr>"

theorem polling_refreshes_bounded_witness:
  "ps_net (snd (poll_Fetch demo_poll_env (demo_polling (Some demo_handler))
     \<lparr>ps_net = 0, ps_lastRetryInfo = None, ps_oauth2RetryCount = 0\<rparr>)) \<le> 2"
proof -
  let ?s = "\<lparr>ps_net = 0, ps_lastRetryInfo = None, ps_oauth2RetryCount = 0\<rparr>"
  have "counts_invalidations demo_poll_env (demo_polling (Some demo_handler)) id"
    by (auto simp: counts_invalidations_def demo_poll_env_def demo_polling_def demo_handler_def)
  from polling_refreshes_bounded [OF this, of ?s] show ?thesis
    by (cases "poll_Fetch demo_poll_env (demo_polling (Some demo_handler)) ?s") (auto simp: MaxOAuth2Retries_def)
qed

lemma demo_no_refs: "StateReferences ''http://h'' = []" "StateReferences [] = []"
  by (simp_all add: StateReferences_def contains_sub_def upt_rec)

lemma demo_templates_valid:
  "hp_endpoint h = ''http://h'' \<Longrightarrow> hp_bodyTemplate h = [] \<Longrightarrow> hp_headers h = [] \<Longrightarrow> hp_queryParams h = [] \<Longrightarrow>
   validateStateTemplates h = None"
  by (simp add: validateStateTemplates_def state_fields_def ValidateStateReferences_def demo_no_refs)

lemma demo_constructs: "\<exists>m. NewHTTPPollingFromConfig demo_poll_world (Some (Some [])) = Inr m"
proof -
  let ?w = demo_poll_world and ?c = demo_poll_cfg
  have p: "ParseModuleConfig (pw_decode ?w) (Some []) = Inr ?c" "pi_Endpoint ?c \<noteq> []"
    "ParseOnErrorStrategy (pi_OnError ?c) = Inr OnErrorFail" "PaginationConfig_Validate (pi_Pagination ?c) = None"
    by (simp_all add: ParseModuleConfig_def ParseConfig_def demo_poll_world_def demo_poll_cfg_def
        ParseOnErrorStrategy_def PaginationConfig_Validate_def)
  have q: "NormalizeAndValidateMethod (pw_rules ?w) (pi_Method ?c) = Inr ''GET''" "body_source ?w ?c = Inr []"
    "ToRetryConfig (pi_Retry ?c) (pi_RetryCodesNil ?c) = DefaultRetryConfig" "NewHandler (pw_auth ?w) (pi_Authentication ?c) = Inr None"
    by (simp_all add: NormalizeAndValidateMethod_def body_source_def ToRetryConfig_def NewHandler_def demo_poll_cfg_def)
  have r: "RetryConfig_Validate DefaultRetryConfig = None" "CompileRetryHint (pw_expr_compile ?w) (RetryHintFromBody DefaultRetryConfig) = Inr None"
    by (simp_all add: RetryConfig_Validate_def DefaultRetryConfig_def MaxRetryAttempts_def MinBackoffMultiplier_def CompileRetryHint_def)
  have e: "pi_Endpoint ?c = ''http://h''" "pi_Headers ?c = []" "pi_QueryParams ?c = []" by (simp_all add: demo_poll_cfg_def)
  show ?thesis
    unfolding NewHTTPPollingFromConfig_def
    by (simp only: option.case p(1) sum.case p(2-) q r if_False Let_def) (subst demo_templates_valid, simp_all add: e)
qed

theorem polling_constructed_runs_witness:
  "\<exists>m. NewHTTPPollingFromConfig demo_poll_world (Some (Some [])) = Inr m \<and> poll_configured m"
  using demo_constructs polling_constructed_runs by blast

theorem polling_resumes_from_saved_state_witness:
  "\<exists>m' (u::go_url) q. poll_LoadState demo_ops (snd (state_Save demo_ops (NewStateStore []) ''p'' (Some demo_state) Map.empty))
       (poll_SetPipelineID ''p'' (poll_SetStateStore (Some (NewStateStore [])) (demo_polling None)))
       = (Inr (Some (demo_state\<lparr>st_PipelineID := ''p''\<rparr>)), m')
     \<and> resolve_endpoint demo_poll_env m' = Inr (print_with u q) \<and> length (query_pairs ''since'' q) = 1"
proof -
  let ?m = "poll_SetPipelineID ''p'' (poll_SetStateStore (Some (NewStateStore [])) (demo_polling None))"
  let ?tc = "\<lparr>ts_Enabled = True, ts_QueryParam = ''since''\<rparr>"
  let ?cfg = "\<lparr>pc_Timestamp = Some ?tc, pc_ID = None, StoragePath = []\<rparr>"
  obtain d' where sv: "state_Save demo_ops (NewStateStore []) ''p'' (Some demo_state) Map.empty = (None, d')"
    by (simp add: state_Save_def save_run_def demo_ops_def Let_def)
  have ok: "plain_id ''p''" "codec_ok demo_ops (NewStateStore []) ''p'' demo_state"
    by (simp_all add: plain_id_def codec_ok_def demo_ops_def demo_state_def)
  have cfg: "hp_persistenceConfig (demo_polling None) = Some ?cfg" "pc_Timestamp ?cfg = Some ?tc" "ts_Enabled ?tc"
    "ts_QueryParam ?tc \<noteq> []" "separate_params ?cfg" "LastTimestamp demo_state = Some 5"
    by (simp_all add: demo_polling_def demo_poll_cfg_def separate_params_def demo_state_def)
  have parse: "url_parser_ok (pe_parse_url demo_poll_env)" by (simp add: url_parser_ok_def demo_poll_env_def)
  obtain loaded m' where ld: "poll_LoadState demo_ops d' ?m = (loaded, m')" by fastforce
  then have m': "hp_endpoint m' = ''http://h''" "hp_queryParams m' = []"
    by (auto simp: poll_LoadState_def poll_SetPipelineID_def poll_SetStateStore_def demo_polling_def split: sum.splits)
  have nv: "\<not> HasVariables ''http://h''" by code_simp
  have "buildEndpointWithState demo_poll_env m' ''http://h'' = Inr url \<Longrightarrow> resolve_endpoint demo_poll_env m' = Inr url" for url
    using m' nv by (simp add: resolve_endpoint_def renderEndpoint_def renderStateField_def renderQueryParams_def
        MergeQueryParams_def NormalizeURL_def)
  moreover have "\<exists>url. buildEndpointWithState demo_poll_env m' ''http://h'' = Inr url"
    by (auto simp: buildEndpointWithState_def MergeQueryParams_def demo_poll_env_def split: option.split)
  ultimately obtain url where url: "resolve_endpoint demo_poll_env m' = Inr url" by blast
  from polling_resumes_from_saved_state [OF sv ok ld cfg parse url] sv ld url show ?thesis by fastforce
qed

end
