(* ===== verification/DatabaseInput.thy ===== *)
theory DatabaseInput
  imports Database HttpPolling
begin

text \<open>
  The database input (\<open>internal/modules/input/database.go\<close>, with the SQL parts of
  \<open>internal/moduleconfig/shared.go\<close>): its construction, the conversion of rows, the single query
  and the two pagination loops, and a fetch with its state. The loops have no bound in the code;
  they are partial functions into \<open>option\<close>, where \<open>None\<close> is a fetch that never returns. The
  driver's \<open>QueryContext\<close> is a parameter; the queries are built by \<open>SqlTemplate\<close>.
\<close>

subsection \<open>Configuration\<close>

record DatabasePaginationConfig =
  dp_Type :: string
  dp_Limit :: int
  dp_CursorField :: string

definition DatabasePaginationConfig_Validate :: "DatabasePaginationConfig option \<Rightarrow> gerr option" where
  "DatabasePaginationConfig_Validate p =
     (case p of
        None \<Rightarrow> None
      | Some c \<Rightarrow>
          if dp_Type c = ''limit-offset'' then None
          else if dp_Type c = ''cursor''
          then (if dp_CursorField c = []
                then Some (plain_error ''pagination.cursorField is required when pagination.type is \"cursor\"'') else None)
          else if dp_Type c = []
          then Some (plain_error (''pagination.type is required (expected '' @ [squote] @ ''limit-offset'' @ [squote]
                 @ '' or '' @ [squote] @ ''cursor'' @ [squote] @ '')''))
          else Some (plain_error (''unknown pagination.type \"'' @ dp_Type c @ ''\" (expected '' @ [squote] @ ''limit-offset''
                 @ [squote] @ '' or '' @ [squote] @ ''cursor'' @ [squote] @ '')'')))"

record SQLRequestBase =
  sb_ConnectionString :: string
  sb_ConnectionStringRef :: string
  sb_Driver :: string
  sb_MaxOpenConns :: int
  sb_MaxIdleConns :: int
  sb_ConnMaxLifetimeSeconds :: int
  sb_ConnMaxIdleTimeSeconds :: int
  sb_TimeoutMs :: int
  sb_Query :: string
  sb_QueryFile :: string
  sb_Parameters :: "string list"

definition upper_or_underscore :: "char \<Rightarrow> bool" where
  "upper_or_underscore c \<longleftrightarrow> (let n = (of_char c :: nat) in 65 \<le> n \<and> n \<le> 90 \<or> n = 95)"

definition connectionStringRefPattern :: "string \<Rightarrow> bool" where
  "connectionStringRefPattern s =
     (prefix ''${'' s \<and> suffix ''}'' s
      \<and> (case take (length s - 3) (drop 2 s) of
           [] \<Rightarrow> False
         | c # cs \<Rightarrow> upper_or_underscore c \<and> list_all (\<lambda>x. upper_or_underscore x \<or> is_digit x) cs))"

definition SQLRequestBase_Validate :: "SQLRequestBase \<Rightarrow> gerr option" where
  "SQLRequestBase_Validate s =
     (let hasConn = sb_ConnectionString s \<noteq> []; hasConnRef = sb_ConnectionStringRef s \<noteq> [];
          hasQuery = sb_Query s \<noteq> []; hasQueryFile = sb_QueryFile s \<noteq> []
      in if hasConn \<and> hasConnRef
         then Some (plain_error ''connectionString and connectionStringRef are mutually exclusive; provide exactly one'')
         else if \<not> hasConn \<and> \<not> hasConnRef then Some (plain_error ''connectionString or connectionStringRef is required'')
         else if hasConnRef \<and> \<not> connectionStringRefPattern (sb_ConnectionStringRef s)
         then Some (plain_error (''connectionStringRef \"'' @ sb_ConnectionStringRef s @ ''\" does not match required format ${ENV_VAR_NAME}''))
         else if hasQuery \<and> hasQueryFile
         then Some (plain_error ''query and queryFile are mutually exclusive; provide exactly one'')
         else if \<not> hasQuery \<and> \<not> hasQueryFile then Some (plain_error ''query or queryFile is required'')
         else None)"

record IncrementalConfig =
  ic_Enabled :: bool
  ic_TimestampField :: string
  ic_IDField :: string

record DatabaseInputConfig =
  dbc_OnError :: string
  dbc_Base :: SQLRequestBase
  dbc_Pagination :: "DatabasePaginationConfig option"
  dbc_Incremental :: "IncrementalConfig option"

subsection \<open>The module\<close>

text \<open>What \<open>Scan\<close> stores for a column, and what a query returns: columns, rows, a final error.\<close>

datatype sql_value = SVNil | SVBytes string | SVTime int | SVOther gval

record sql_rows =
  ro_Columns :: "gerr + string list"
  ro_Rows :: "(gerr + sql_value list) list"
  ro_Err :: "gerr option"

record ('h, 't, 'p) db_env =
  dn_gonja :: "'t gonja"
  dn_expr :: "'p expr_engine"
  dn_query :: "string \<Rightarrow> gval list \<Rightarrow> 'h \<Rightarrow> (gerr + sql_rows) \<times> 'h"
  dn_fmt_rfc3339 :: "int \<Rightarrow> string"

record ('t, 'p) DatabaseInput =
  di_Pagination :: "DatabasePaginationConfig option"
  di_Incremental :: "IncrementalConfig option"
  di_driver :: string
  di_sqlQuery :: "('t, 'p) Query"
  di_timeout :: int
  di_pipelineID :: string
  di_stateStore :: "StateStore option"
  di_lastState :: "State option"

definition convertDatabaseValue :: "(int \<Rightarrow> string) \<Rightarrow> sql_value \<Rightarrow> gval" where
  "convertDatabaseValue fmt_rfc3339 v =
     (case v of SVNil \<Rightarrow> GNil | SVBytes b \<Rightarrow> GStr b | SVTime t \<Rightarrow> GStr (fmt_rfc3339 t) | SVOther g \<Rightarrow> g)"

fun rows_loop :: "(int \<Rightarrow> string) \<Rightarrow> string list \<Rightarrow> (gerr + sql_value list) list \<Rightarrow> gerr + grecord list" where
  "rows_loop fmt_time columns [] = Inr []"
| "rows_loop fmt_time columns (row # rows) =
     (case row of
        Inl err \<Rightarrow> Inl (errorf (''scanning row: '' @ err_text err) err)
      | Inr values \<Rightarrow>
          (let record' = foldl (\<lambda>r (col, v). r(col \<mapsto> convertDatabaseValue fmt_time v)) Map.empty (zip columns values)
           in case rows_loop fmt_time columns rows of
                Inl err \<Rightarrow> Inl err
              | Inr records \<Rightarrow> Inr (record' # records)))"

definition rowsToRecords :: "(int \<Rightarrow> string) \<Rightarrow> sql_rows \<Rightarrow> gerr + grecord list" where
  "rowsToRecords fmt_time rows =
     (case ro_Columns rows of
        Inl err \<Rightarrow> Inl (errorf (''getting column names: '' @ err_text err) err)
      | Inr columns \<Rightarrow>
          (case rows_loop fmt_time columns (ro_Rows rows) of
             Inl err \<Rightarrow> Inl err
           | Inr records \<Rightarrow>
               (case ro_Err rows of
                  Some err \<Rightarrow> Inl (errorf (''iterating rows: '' @ err_text err) err)
                | None \<Rightarrow> Inr records)))"

definition db_stateContext :: "('h, 't, 'p) db_env \<Rightarrow> ('t, 'p) DatabaseInput \<Rightarrow> grecord" where
  "db_stateContext env d = RenderState (dn_fmt_rfc3339 env) (di_lastState d) None"

definition buildForPage ::
  "('h, 't, 'p) db_env \<Rightarrow> ('t, 'p) DatabaseInput \<Rightarrow> grecord \<Rightarrow> gerr + (string \<times> gval list)" where
  "buildForPage env d pagination =
     Build (dn_gonja env) (dn_expr env) (di_sqlQuery d)
       \<lparr>vc_Record = Map.empty, vc_Meta = Map.empty, vc_State = db_stateContext env d,
        vc_Pagination = pagination, vc_Extra = Map.empty\<rparr>"

text \<open>Run one query and read its rows, as the three fetch methods do.\<close>

definition query_records ::
  "('h, 't, 'p) db_env \<Rightarrow> ('t, 'p) DatabaseInput \<Rightarrow> string \<Rightarrow> gval list \<Rightarrow> 'h \<Rightarrow> (gerr + grecord list) \<times> 'h" where
  "query_records env d query args h =
     (case dn_query env query args h of
        (Inl err, h') \<Rightarrow>
          (Inl (database_gerr (ClassifyDatabaseError err (di_driver d) ''select'' query (int (length args)))), h')
      | (Inr rows, h') \<Rightarrow> (rowsToRecords (dn_fmt_rfc3339 env) rows, h'))"

definition db_fetchSingle ::
  "('h, 't, 'p) db_env \<Rightarrow> ('t, 'p) DatabaseInput \<Rightarrow> 'h \<Rightarrow> (gerr + grecord list) \<times> 'h" where
  "db_fetchSingle env d h =
     (case buildForPage env d Map.empty of
        Inl err \<Rightarrow> (Inl err, h)
      | Inr (query, args) \<Rightarrow> query_records env d query args h)"

definition defaultQueryLimit :: int where "defaultQueryLimit = 1000"

definition page_limit :: "DatabasePaginationConfig \<Rightarrow> int" where
  "page_limit p = (if dp_Limit p \<le> 0 then defaultQueryLimit else dp_Limit p)"

text \<open>One turn of the limit/offset loop up to its records.\<close>

definition limit_offset_page ::
  "('h, 't, 'p) db_env \<Rightarrow> ('t, 'p) DatabaseInput \<Rightarrow> int \<Rightarrow> int \<Rightarrow> 'h \<Rightarrow> (gerr + grecord list) \<times> 'h" where
  "limit_offset_page env d limit offset h =
     (case buildForPage env d [''offset'' \<mapsto> GInt offset, ''limit'' \<mapsto> GInt limit] of
        Inl err \<Rightarrow> (Inl err, h)
      | Inr (query, args) \<Rightarrow>
          query_records env d
            (if UsesPagination (dn_expr env) (di_sqlQuery d) then query
             else query @ '' LIMIT '' @ itoa limit @ '' OFFSET '' @ itoa offset) args h)"

partial_function (option) limit_offset_loop ::
  "('h, 't, 'p) db_env \<Rightarrow> ('t, 'p) DatabaseInput \<Rightarrow> int \<Rightarrow> int \<Rightarrow> grecord list \<Rightarrow> 'h
   \<Rightarrow> ((gerr + grecord list) \<times> 'h) option" where
  "limit_offset_loop env d limit offset allRecords h =
     (case limit_offset_page env d limit offset h of
        (Inl err, h') \<Rightarrow> Some (Inl err, h')
      | (Inr records, h') \<Rightarrow>
          if int (length records) < limit then Some (Inr (allRecords @ records), h')
          else limit_offset_loop env d limit (wrap64 (offset + limit)) (allRecords @ records) h')"

definition fetchLimitOffset ::
  "('h, 't, 'p) db_env \<Rightarrow> ('t, 'p) DatabaseInput \<Rightarrow> DatabasePaginationConfig \<Rightarrow> 'h
   \<Rightarrow> ((gerr + grecord list) \<times> 'h) option" where
  "fetchLimitOffset env d p h = limit_offset_loop env d (page_limit p) 0 [] h"

definition cursor_page ::
  "('h, 't, 'p) db_env \<Rightarrow> ('t, 'p) DatabaseInput \<Rightarrow> int \<Rightarrow> gval \<Rightarrow> 'h \<Rightarrow> (gerr + grecord list) \<times> 'h" where
  "cursor_page env d limit cursor h =
     (case buildForPage env d [''cursor'' \<mapsto> cursor, ''limit'' \<mapsto> GInt limit] of
        Inl err \<Rightarrow> (Inl err, h)
      | Inr (query, args) \<Rightarrow> query_records env d query args h)"

text \<open>A field that is missing reads as nil.\<close>

definition field_or_nil :: "grecord \<Rightarrow> string \<Rightarrow> gval" where
  "field_or_nil r f = (case r f of Some v \<Rightarrow> v | None \<Rightarrow> GNil)"

partial_function (option) db_cursor_loop ::
  "('h, 't, 'p) db_env \<Rightarrow> ('t, 'p) DatabaseInput \<Rightarrow> int \<Rightarrow> string \<Rightarrow> gval \<Rightarrow> grecord list \<Rightarrow> 'h
   \<Rightarrow> ((gerr + grecord list) \<times> 'h) option" where
  "db_cursor_loop env d limit cursorField cursor allRecords h =
     (case cursor_page env d limit cursor h of
        (Inl err, h') \<Rightarrow> Some (Inl err, h')
      | (Inr records, h') \<Rightarrow>
          if int (length records) < limit then Some (Inr (allRecords @ records), h')
          else if cursorField \<noteq> [] \<and> records \<noteq> []
          then db_cursor_loop env d limit cursorField (field_or_nil (last records) cursorField) (allRecords @ records) h'
          else Some (Inr (allRecords @ records), h'))"

definition fetchCursor ::
  "('h, 't, 'p) db_env \<Rightarrow> ('t, 'p) DatabaseInput \<Rightarrow> DatabasePaginationConfig \<Rightarrow> 'h
   \<Rightarrow> ((gerr + grecord list) \<times> 'h) option" where
  "fetchCursor env d p h = db_cursor_loop env d (page_limit p) (dp_CursorField p) GNil [] h"

definition db_fetchWithPagination ::
  "('h, 't, 'p) db_env \<Rightarrow> ('t, 'p) DatabaseInput \<Rightarrow> DatabasePaginationConfig \<Rightarrow> 'h
   \<Rightarrow> ((gerr + grecord list) \<times> 'h) option" where
  "db_fetchWithPagination env d p h =
     (if dp_Type p = ''limit-offset'' then fetchLimitOffset env d p h
      else if dp_Type p = ''cursor'' then fetchCursor env d p h
      else Some (Inl (plain_error (''database input: unknown pagination type \"'' @ dp_Type p @ ''\" (expected ''
             @ [squote] @ ''limit-offset'' @ [squote] @ '' or '' @ [squote] @ ''cursor'' @ [squote] @ '')'')), h))"

subsection \<open>State\<close>

definition db_SetPipelineID :: "string \<Rightarrow> ('t, 'p) DatabaseInput \<Rightarrow> ('t, 'p) DatabaseInput" where
  "db_SetPipelineID pipelineID d = d\<lparr>di_pipelineID := pipelineID\<rparr>"

definition db_LoadState ::
  "fs_ops \<Rightarrow> files \<Rightarrow> ('t, 'p) DatabaseInput \<Rightarrow> (store_error + State option) \<times> ('t, 'p) DatabaseInput" where
  "db_LoadState ops fl d =
     (case di_stateStore d of
        None \<Rightarrow> (Inr None, d)
      | Some store \<Rightarrow>
          if di_pipelineID d = [] then (Inr None, d)
          else (case state_Load ops store (di_pipelineID d) fl of
                  Inl err \<Rightarrow> (Inl err, d)
                | Inr state \<Rightarrow> (Inr state, d\<lparr>di_lastState := state\<rparr>)))"

definition db_GetLastState :: "('t, 'p) DatabaseInput \<Rightarrow> State option" where
  "db_GetLastState d = di_lastState d"

definition db_GetPersistenceConfig :: "('t, 'p) DatabaseInput \<Rightarrow> StatePersistenceConfig option" where
  "db_GetPersistenceConfig d =
     (case di_Incremental d of
        None \<Rightarrow> None
      | Some i \<Rightarrow>
          if \<not> ic_Enabled i then None
          else Some \<lparr>pc_Timestamp = Some \<lparr>ts_Enabled = (ic_TimestampField i \<noteq> []), ts_QueryParam = []\<rparr>,
                     pc_ID = Some \<lparr>id_Enabled = (ic_IDField i \<noteq> []), id_Field = ic_IDField i, id_QueryParam = []\<rparr>,
                     StoragePath = []\<rparr>)"

definition db_Fetch ::
  "fs_ops \<Rightarrow> files \<Rightarrow> ('h, 't, 'p) db_env \<Rightarrow> ('t, 'p) DatabaseInput \<Rightarrow> 'h
   \<Rightarrow> ((gerr + grecord list) \<times> 'h) option \<times> ('t, 'p) DatabaseInput" where
  "db_Fetch ops fl env d h =
     (let d = (if di_stateStore d \<noteq> None \<and> di_pipelineID d \<noteq> [] then snd (db_LoadState ops fl d) else d)
      in (case di_Pagination d of
            Some p \<Rightarrow> if dp_Type p \<noteq> [] then db_fetchWithPagination env d p h else Some (db_fetchSingle env d h)
          | None \<Rightarrow> Some (db_fetchSingle env d h), d))"

definition db_Close :: "'h sql_driver \<Rightarrow> bool \<Rightarrow> 'h \<Rightarrow> gerr option \<times> 'h" where
  "db_Close drv has_db h = (if has_db then sd_close drv h else (None, h))"


subsection \<open>Construction\<close>

datatype dbin_error =
    DbNilConfig
  | DbParse gerr
  | DbConfig gerr
  | DbCursorUnbound
  | DbQueryPath gerr
  | DbQueryFile gerr
  | DbQueryFileEmpty
  | DbOnError strategy_error
  | DbConnection db_error
  | DbQueryTemplate gerr

text \<open>What the constructor reads: the decoder of its configuration, files, the environment.\<close>

record ('h, 't, 'p) dbin_world =
  dw_decode :: "string \<Rightarrow> gerr + DatabaseInputConfig"
  dw_ReadFile :: "string \<Rightarrow> gerr + string"
  dw_Getenv :: "string \<Rightarrow> string"
  dw_driver :: "'h sql_driver"
  dw_gonja :: "'t gonja"
  dw_expr :: "'p expr_engine"

definition defaultDatabaseTimeout :: int where "defaultDatabaseTimeout = 30 * 10 ^ 9"

definition load_query :: "(string \<Rightarrow> gerr + string) \<Rightarrow> SQLRequestBase \<Rightarrow> dbin_error + string" where
  "load_query readFile b =
     (if sb_QueryFile b = [] then Inr (sb_Query b)
      else (case ValidateFilePath (sb_QueryFile b) of
              Some err \<Rightarrow> Inl (DbQueryPath err)
            | None \<Rightarrow>
                (case readFile (sb_QueryFile b) of
                   Inl err \<Rightarrow> Inl (DbQueryFile err)
                 | Inr text' \<Rightarrow> if text' = [] then Inl DbQueryFileEmpty else Inr text')))"

definition db_config :: "SQLRequestBase \<Rightarrow> int \<Rightarrow> Config" where
  "db_config b timeout =
     \<lparr>dc_ConnectionString = sb_ConnectionString b, dc_ConnectionStringRef = sb_ConnectionStringRef b, dc_Driver = sb_Driver b,
      dc_MaxOpenConns = sb_MaxOpenConns b, dc_MaxIdleConns = sb_MaxIdleConns b,
      dc_ConnMaxLifetime = wrap64 (sb_ConnMaxLifetimeSeconds b * 10 ^ 9),
      dc_ConnMaxIdleTime = wrap64 (sb_ConnMaxIdleTimeSeconds b * 10 ^ 9), dc_ConnectTimeout = timeout\<rparr>"

definition NewDatabaseInputFromConfig ::
  "('h, 't, 'p) dbin_world \<Rightarrow> string option option \<Rightarrow> 't Engine \<Rightarrow> 'h
   \<Rightarrow> (dbin_error + ('t, 'p) DatabaseInput) \<times> 't Engine \<times> 'h" where
  "NewDatabaseInputFromConfig w config e h =
     (case config of
        None \<Rightarrow> (Inl DbNilConfig, e, h)
      | Some raw \<Rightarrow>
     (case ParseModuleConfig (dw_decode w) raw of
        Inl err \<Rightarrow> (Inl (DbParse err), e, h)
      | Inr cfg \<Rightarrow>
     (case SQLRequestBase_Validate (dbc_Base cfg) of
        Some err \<Rightarrow> (Inl (DbConfig err), e, h)
      | None \<Rightarrow>
     (case DatabasePaginationConfig_Validate (dbc_Pagination cfg) of
        Some err \<Rightarrow> (Inl (DbConfig err), e, h)
      | None \<Rightarrow>
          if (case dbc_Pagination cfg of None \<Rightarrow> False | Some p \<Rightarrow> dp_Type p = ''cursor'')
             \<and> \<not> ReferencesPagination (dw_expr w) (sb_Parameters (dbc_Base cfg))
          then (Inl DbCursorUnbound, e, h)
          else
     (case load_query (dw_ReadFile w) (dbc_Base cfg) of
        Inl err \<Rightarrow> (Inl err, e, h)
      | Inr query \<Rightarrow>
     (case ParseOnErrorStrategy (dbc_OnError cfg) of
        Inl err \<Rightarrow> (Inl (DbOnError err), e, h)
      | Inr _ \<Rightarrow>
          (let timeout = GetTimeoutDuration (sb_TimeoutMs (dbc_Base cfg)) defaultDatabaseTimeout
           in case Open (dw_Getenv w) (dw_driver w) (db_config (dbc_Base cfg) timeout) h of
                (Inl err, h) \<Rightarrow> (Inl (DbConnection err), e, h)
              | (Inr driver, h) \<Rightarrow>
                  (case sql_Compile (dw_gonja w) (dw_expr w) e query (sb_Parameters (dbc_Base cfg)) driver of
                     (Inl err, e) \<Rightarrow> (Inl (DbQueryTemplate err), e, snd (sd_close (dw_driver w) h))
                   | (Inr q, e) \<Rightarrow>
                       (Inr \<lparr>di_Pagination = dbc_Pagination cfg, di_Incremental = dbc_Incremental cfg, di_driver = driver,
                             di_sqlQuery = q, di_timeout = timeout, di_pipelineID = [],
                             di_stateStore = (case dbc_Incremental cfg of
                                                Some i \<Rightarrow> if ic_Enabled i then Some (NewStateStore DefaultStatePath) else None
                                              | None \<Rightarrow> None),
                             di_lastState = None\<rparr>, e, h)))))))))"

subsection \<open>Complete results\<close>

text \<open>A database that answers each offset with the next rows of a table.\<close>

definition serves_offsets ::
  "('h, 't, 'p) db_env \<Rightarrow> ('t, 'p) DatabaseInput \<Rightarrow> int \<Rightarrow> grecord list \<Rightarrow> bool" where
  "serves_offsets env d limit T \<longleftrightarrow>
     (\<forall>k h. k \<le> length T \<longrightarrow> fst (limit_offset_page env d limit (int k) h) = Inr (take (nat limit) (drop k T)))"

lemma limit_offset_rest:
  assumes "serves_offsets env d limit T" "0 < limit" "int (length T) \<le> int64_max" "k \<le> length T"
  shows "\<exists>h'. limit_offset_loop env d limit (int k) acc h = Some (Inr (acc @ drop k T), h')"
  using assms(4)
proof (induction "length T - k" arbitrary: k acc h rule: less_induct)
  case less
  obtain r h1 where p: "limit_offset_page env d limit (int k) h = (r, h1)" by (cases "limit_offset_page env d limit (int k) h")
  with assms(1) less(2) have r: "r = Inr (take (nat limit) (drop k T))"
    unfolding serves_offsets_def by (metis fst_conv)
  show ?case
  proof (cases "int (length T - k) < limit")
    case True
    then have "take (nat limit) (drop k T) = drop k T" by simp
    with True p r less(2) show ?thesis
      by (subst limit_offset_loop.simps) (simp add: of_nat_diff)
  next
    case False
    then have le: "k + nat limit \<le> length T" "length T - (k + nat limit) < length T - k"
      using less(2) assms(2) by linarith+
    have w: "wrap64 (int k + limit) = int (k + nat limit)"
      using le(1) assms(2,3) by (subst wrap64_id) (auto simp: int64_min_def)
    have "\<not> int (length (take (nat limit) (drop k T))) < limit" using False by simp
    then have step: "limit_offset_loop env d limit (int k) acc h
        = limit_offset_loop env d limit (int (k + nat limit)) (acc @ take (nat limit) (drop k T)) h1"
      using p r w by (subst limit_offset_loop.simps) simp
    have "take (nat limit) (drop k T) @ drop (k + nat limit) T = drop k T"
      by (metis append_take_drop_id drop_drop add.commute)
    then show ?thesis using less(1) [OF le(2) le(1), of "acc @ take (nat limit) (drop k T)" h1] step by simp
  qed
qed

lemma page_limit_pos: "0 < page_limit p"
  by (simp add: page_limit_def defaultQueryLimit_def)

text \<open>
  C28. Limit/offset pagination returns the whole table: when the database answers the offset of
  each page with the next rows, the fetch returns, and returns every row once, in order, however
  many pages that takes.
\<close>
theorem database_offset_complete:
  assumes "dp_Type p = ''limit-offset''" "serves_offsets env d (page_limit p) T"
    and "int (length T) \<le> int64_max"
  shows "\<exists>h'. db_fetchWithPagination env d p h = Some (Inr T, h')"
  using limit_offset_rest [OF assms(2) page_limit_pos assms(3), of 0 "[]" h] assms(1)
  by (simp add: db_fetchWithPagination_def fetchLimitOffset_def)

text \<open>
  A database that answers no cursor with the first rows of a table, and the cursor of a row with
  the rows after it.
\<close>

definition serves_cursors ::
  "('h, 't, 'p) db_env \<Rightarrow> ('t, 'p) DatabaseInput \<Rightarrow> int \<Rightarrow> string \<Rightarrow> grecord list \<Rightarrow> bool" where
  "serves_cursors env d limit field T \<longleftrightarrow>
     (\<forall>h. fst (cursor_page env d limit GNil h) = Inr (take (nat limit) T)) \<and>
     (\<forall>i h. i < length T \<longrightarrow>
        fst (cursor_page env d limit (field_or_nil (T ! i) field) h) = Inr (take (nat limit) (drop (Suc i) T)))"

lemma cursor_rest:
  assumes "serves_cursors env d limit field T" "0 < limit" "field \<noteq> []" "k \<le> length T"
    and "\<And>h. fst (cursor_page env d limit c h) = Inr (take (nat limit) (drop k T))"
  shows "\<exists>h'. db_cursor_loop env d limit field c acc h = Some (Inr (acc @ drop k T), h')"
  using assms(4,5)
proof (induction "length T - k" arbitrary: k c acc h rule: less_induct)
  case less
  obtain r h1 where p: "cursor_page env d limit c h = (r, h1)" by (cases "cursor_page env d limit c h")
  with less(3) [of h] have r: "r = Inr (take (nat limit) (drop k T))" by simp
  show ?case
  proof (cases "int (length T - k) < limit")
    case True
    then have "take (nat limit) (drop k T) = drop k T" by simp
    with True p r less(2) show ?thesis
      by (subst db_cursor_loop.simps) (simp add: of_nat_diff)
  next
    case False
    define i where "i = k + nat limit - 1"
    have le: "Suc i = k + nat limit" "i < length T" "Suc i \<le> length T" "length T - Suc i < length T - k"
      using less(2) False assms(2) by (auto simp: i_def)
    define recs where "recs = take (nat limit) (drop k T)"
    have ln: "length recs = nat limit" "recs \<noteq> []" using le(1,3) assms(2) by (auto simp: recs_def)
    have la: "last recs = T ! i"
      using ln le(1,3) assms(2) by (simp add: last_conv_nth recs_def i_def nth_append)
    have step: "db_cursor_loop env d limit field c acc h
        = db_cursor_loop env d limit field (field_or_nil (T ! i) field) (acc @ recs) h1"
      using p r ln la assms(2,3) by (subst db_cursor_loop.simps) (simp add: recs_def [symmetric])
    have nxt: "fst (cursor_page env d limit (field_or_nil (T ! i) field) h) = Inr (take (nat limit) (drop (Suc i) T))" for h
      using assms(1) le(2) unfolding serves_cursors_def by blast
    have "recs @ drop (Suc i) T = drop k T"
      unfolding recs_def le(1) by (metis append_take_drop_id drop_drop add.commute)
    then show ?thesis using less(1) [OF le(4,3) nxt, of "acc @ recs" h1] step by simp
  qed
qed

text \<open>
  C29. Cursor pagination returns the whole table: when the database answers the cursor of a row
  with the rows after it, the fetch returns, with every row once and in order.
\<close>
theorem database_cursor_complete:
  assumes "dp_Type p = ''cursor''" "dp_CursorField p \<noteq> []"
    and "serves_cursors env d (page_limit p) (dp_CursorField p) T"
  shows "\<exists>h'. db_fetchWithPagination env d p h = Some (Inr T, h')"
proof -
  have "fst (cursor_page env d (page_limit p) GNil h) = Inr (take (nat (page_limit p)) (drop 0 T))" for h
    using assms(3) by (simp add: serves_cursors_def)
  from cursor_rest [OF assms(3) page_limit_pos assms(2) _ this, of "[]" h] assms(1) show ?thesis
    by (simp add: db_fetchWithPagination_def fetchCursor_def)
qed


subsection \<open>A constructed module\<close>

definition pagination_usable :: "'p expr_engine \<Rightarrow> ('t, 'p) DatabaseInput \<Rightarrow> bool" where
  "pagination_usable ex d =
     (case di_Pagination d of
        None \<Rightarrow> True
      | Some p \<Rightarrow> dp_Type p = ''limit-offset''
                  \<or> dp_Type p = ''cursor'' \<and> dp_CursorField p \<noteq> [] \<and> UsesPagination ex (di_sqlQuery d))"

lemma sql_Compile_sources:
  "fst (sql_Compile g ex e src params driver) = Inr q \<Longrightarrow> q_paramSrcs q = params \<and> q_driver q = driver"
  by (auto simp: sql_Compile_def split: if_splits prod.splits sum.splits option.splits)

lemma Open_supported: "fst (Open getenv drv cfg h) = Inr driver \<Longrightarrow> IsDriverSupported driver"
  by (auto simp: Open_def Resolve_def split: sum.splits prod.splits option.splits if_splits)

lemma db_pagination_valid:
  "DatabasePaginationConfig_Validate (Some p) = None \<Longrightarrow> dp_Type p = ''limit-offset'' \<or> dp_Type p = ''cursor'' \<and> dp_CursorField p \<noteq> []"
  by (auto simp: DatabasePaginationConfig_Validate_def split: if_splits)

text \<open>
  A database input that was constructed can run: its driver is supported, its query is
  compiled for that driver, its pagination has a known type, and with cursor pagination there is
  a cursor field and a parameter that reads the pagination variables.
\<close>
theorem database_input_constructed:
  assumes "fst (NewDatabaseInputFromConfig w config e h) = Inr d"
  shows "IsDriverSupported (di_driver d) \<and> q_driver (di_sqlQuery d) = di_driver d
    \<and> pagination_usable (dw_expr w) d \<and> di_lastState d = None
    \<and> (\<exists>src. fst (sql_Compile (dw_gonja w) (dw_expr w) e src (q_paramSrcs (di_sqlQuery d)) (di_driver d)) = Inr (di_sqlQuery d))"
proof -
  note D = assms [unfolded NewDatabaseInputFromConfig_def]
  obtain raw where config: "config = Some raw" using D by (cases config) simp_all
  obtain cfg where parsed: "ParseModuleConfig (dw_decode w) raw = Inr cfg"
    using D config by (cases "ParseModuleConfig (dw_decode w) raw") simp_all
  have base: "SQLRequestBase_Validate (dbc_Base cfg) = None"
    using D config parsed by (cases "SQLRequestBase_Validate (dbc_Base cfg)") simp_all
  have pag: "DatabasePaginationConfig_Validate (dbc_Pagination cfg) = None"
    using D config parsed base by (cases "DatabasePaginationConfig_Validate (dbc_Pagination cfg)") simp_all
  define unbound where "unbound = ((case dbc_Pagination cfg of None \<Rightarrow> False | Some p \<Rightarrow> dp_Type p = ''cursor'')
       \<and> \<not> ReferencesPagination (dw_expr w) (sb_Parameters (dbc_Base cfg)))"
  have bound: "\<not> unbound"
    using D config parsed base pag by (auto simp: unbound_def [symmetric])
  define timeout where "timeout = GetTimeoutDuration (sb_TimeoutMs (dbc_Base cfg)) defaultDatabaseTimeout"
  note D = D [unfolded config option.case parsed sum.case base pag, folded unbound_def timeout_def]
  obtain query where query: "load_query (dw_ReadFile w) (dbc_Base cfg) = Inr query"
    using D bound by (cases "load_query (dw_ReadFile w) (dbc_Base cfg)") simp_all
  obtain strat where strat: "ParseOnErrorStrategy (dbc_OnError cfg) = Inr strat"
    using D bound query by (cases "ParseOnErrorStrategy (dbc_OnError cfg)") simp_all
  obtain r h1 where opened: "Open (dw_Getenv w) (dw_driver w) (db_config (dbc_Base cfg) timeout) h = (r, h1)"
    by (cases "Open (dw_Getenv w) (dw_driver w) (db_config (dbc_Base cfg) timeout) h")
  then obtain driver where driver: "r = Inr driver"
    using D bound query strat by (cases r) (simp_all add: Let_def)
  obtain s e1 where sql: "sql_Compile (dw_gonja w) (dw_expr w) e query (sb_Parameters (dbc_Base cfg)) driver = (s, e1)"
    by (cases "sql_Compile (dw_gonja w) (dw_expr w) e query (sb_Parameters (dbc_Base cfg)) driver")
  then obtain q where q0: "s = Inr q"
    using D bound query strat opened driver by (cases s) (simp_all add: Let_def)
  have d: "di_Pagination d = dbc_Pagination cfg" "di_driver d = driver" "di_sqlQuery d = q" "di_lastState d = None"
    using D bound query strat opened driver sql q0 by (auto simp: Let_def)
  note c = config pag bound [unfolded unbound_def] opened [unfolded driver] sql [unfolded q0] d
  have q: "q_paramSrcs q = sb_Parameters (dbc_Base cfg)" "q_driver q = driver"
    using sql_Compile_sources [of "dw_gonja w" "dw_expr w" e query "sb_Parameters (dbc_Base cfg)" driver q] c(5) by simp_all
  have "IsDriverSupported driver" using Open_supported c(4) by (metis fst_conv)
  moreover have "pagination_usable (dw_expr w) d"
    using c(2,3,6,8) q(1) db_pagination_valid by (auto simp: pagination_usable_def UsesPagination_def split: option.splits)
  moreover have "fst (sql_Compile (dw_gonja w) (dw_expr w) e query (q_paramSrcs q) driver) = Inr q"
    using c(5) q(1) by simp
  ultimately show ?thesis using c(7-9) q(2) by auto
qed

text \<open>
  A fetch resumes where the last run stopped: after a save of the pipeline's state, the next
  fetch of an incremental input loads it, and the variables its parameter expressions see hold
  the saved timestamp and identifier.
\<close>
theorem database_resumes_from_saved_state:
  assumes "state_Save ops store i (Some st) fl = (None, fl')" "plain_id i" "codec_ok ops store i st"
    and "di_stateStore d = Some store" "LastTimestamp st = Some t" "LastID st = Some lastId"
  shows "di_lastState (snd (db_Fetch ops fl' env (db_SetPipelineID i d) h)) = Some (st\<lparr>st_PipelineID := i\<rparr>)
    \<and> db_stateContext env (snd (db_Fetch ops fl' env (db_SetPipelineID i d) h))
        = [''lastTimestamp'' \<mapsto> GStr (dn_fmt_rfc3339 env t), ''lastId'' \<mapsto> GStr lastId]"
proof -
  have "i \<noteq> []" using assms(2) by (simp add: plain_id_def)
  have "load_state ops store i fl' = Some (st\<lparr>st_PipelineID := i\<rparr>)"
    by (rule files.saved [OF assms(2,3), where fs = fl]) (simp add: save_ok_def assms(1))
  then have l: "state_Load ops store i fl' = Inr (Some (st\<lparr>st_PipelineID := i\<rparr>))"
    by (auto simp: load_state_def split: sum.splits)
  have "di_lastState (snd (db_Fetch ops fl' env (db_SetPipelineID i d) h)) = Some (st\<lparr>st_PipelineID := i\<rparr>)"
    using l assms(4) \<open>i \<noteq> []\<close> by (simp add: db_Fetch_def db_LoadState_def db_SetPipelineID_def Let_def)
  then show ?thesis using assms(5,6) by (simp add: db_stateContext_def RenderState_def)
qed

subsection \<open>Loops that do not end\<close>

definition full_pages :: "('h, 't, 'p) db_env \<Rightarrow> ('t, 'p) DatabaseInput \<Rightarrow> int \<Rightarrow> bool" where
  "full_pages env d limit \<longleftrightarrow>
     (\<forall>offset h. \<exists>records. fst (limit_offset_page env d limit offset h) = Inr records \<and> limit \<le> int (length records))"

lemma limit_offset_diverges:
  assumes "full_pages env d limit"
  shows "limit_offset_loop env d limit offset acc h = None"
proof (rule ccontr)
  assume "limit_offset_loop env d limit offset acc h \<noteq> None"
  then obtain y where y: "limit_offset_loop env d limit offset acc h = Some y" by blast
  have "\<not> full_pages env d limit"
  proof (rule limit_offset_loop.raw_induct [where P = "\<lambda>env d limit offset acc h y. \<not> full_pages env d limit", OF _ y])
    fix loop :: "('a, 'b, 'c) db_env \<Rightarrow> ('b, 'c) DatabaseInput \<Rightarrow> int \<Rightarrow> int \<Rightarrow> grecord list \<Rightarrow> 'a
        \<Rightarrow> ((gerr + grecord list) \<times> 'a) option"
      and env d limit offset acc h y
    assume IH: "\<And>env d limit offset acc h y. loop env d limit offset acc h = Some y \<Longrightarrow> \<not> full_pages env d limit"
      and step: "(case limit_offset_page env d limit offset h of
        (Inl err, h') \<Rightarrow> Some (Inl err, h')
      | (Inr records, h') \<Rightarrow>
          if int (length records) < limit then Some (Inr (acc @ records), h')
          else loop env d limit (wrap64 (offset + limit)) (acc @ records) h') = Some y"
    show "\<not> full_pages env d limit"
    proof
      assume a: "full_pages env d limit"
      then obtain records h1 where "limit_offset_page env d limit offset h = (Inr records, h1)" "limit \<le> int (length records)"
        unfolding full_pages_def by (metis prod.collapse)
      with step have "loop env d limit (wrap64 (offset + limit)) (acc @ records) h1 = Some y" by simp
      from IH [OF this] a show False by blast
    qed
  qed
  with assms show False by blast
qed

definition lost_cursor :: "('h, 't, 'p) db_env \<Rightarrow> ('t, 'p) DatabaseInput \<Rightarrow> int \<Rightarrow> string \<Rightarrow> bool" where
  "lost_cursor env d limit field \<longleftrightarrow>
     field \<noteq> [] \<and> (\<exists>records. records \<noteq> [] \<and> limit \<le> int (length records) \<and> field_or_nil (last records) field = GNil
       \<and> (\<forall>h. fst (cursor_page env d limit GNil h) = Inr records))"

lemma cursor_diverges:
  assumes "lost_cursor env d limit field"
  shows "db_cursor_loop env d limit field GNil acc h = None"
proof (rule ccontr)
  assume "db_cursor_loop env d limit field GNil acc h \<noteq> None"
  then obtain y where y: "db_cursor_loop env d limit field GNil acc h = Some y" by blast
  have "GNil = GNil \<longrightarrow> \<not> lost_cursor env d limit field"
  proof (rule db_cursor_loop.raw_induct [where P = "\<lambda>env d limit field cursor acc h y. cursor = GNil \<longrightarrow> \<not> lost_cursor env d limit field", OF _ y])
    fix loop :: "('a, 'b, 'c) db_env \<Rightarrow> ('b, 'c) DatabaseInput \<Rightarrow> int \<Rightarrow> string \<Rightarrow> gval \<Rightarrow> grecord list \<Rightarrow> 'a
        \<Rightarrow> ((gerr + grecord list) \<times> 'a) option"
      and env d limit field cursor acc h y
    assume IH: "\<And>env d limit field cursor acc h y. loop env d limit field cursor acc h = Some y \<Longrightarrow>
          cursor = GNil \<longrightarrow> \<not> lost_cursor env d limit field"
      and step: "(case cursor_page env d limit cursor h of
        (Inl err, h') \<Rightarrow> Some (Inl err, h')
      | (Inr records, h') \<Rightarrow>
          if int (length records) < limit then Some (Inr (acc @ records), h')
          else if field \<noteq> [] \<and> records \<noteq> []
          then loop env d limit field (field_or_nil (last records) field) (acc @ records) h'
          else Some (Inr (acc @ records), h')) = Some y"
    show "cursor = GNil \<longrightarrow> \<not> lost_cursor env d limit field"
    proof (intro impI notI)
      assume c: "cursor = GNil" and a: "lost_cursor env d limit field"
      then obtain records h1 where r: "field \<noteq> []" "records \<noteq> []" "limit \<le> int (length records)"
        "field_or_nil (last records) field = GNil" "cursor_page env d limit GNil h = (Inr records, h1)"
        unfolding lost_cursor_def by (metis prod.collapse)
      with step c have "loop env d limit field GNil (acc @ records) h1 = Some y" by simp
      from IH [OF this] a show False by blast
    qed
  qed
  with assms show False by blast
qed

text \<open>
  C30. Nothing bounds the pages of a database input. When every answer fills a page, because the
  query does not use the offset or the appended \<open>LIMIT\<close> clause fell into a trailing comment, the
  fetch never returns; neither does it when the cursor field is missing or null in the last record
  of a full first page: the cursor stays nil and the first page is read for ever.
\<close>
theorem database_paging_diverges:
  "(full_pages env d (page_limit p) \<and> dp_Type p = ''limit-offset'' \<or>
    lost_cursor env d (page_limit p) (dp_CursorField p) \<and> dp_Type p = ''cursor'') \<Longrightarrow>
   db_fetchWithPagination env d p h = None"
  using limit_offset_diverges [of env d "page_limit p" 0 "[]" h]
    cursor_diverges [of env d "page_limit p" "dp_CursorField p" "[]" h]
  by (auto simp: db_fetchWithPagination_def fetchLimitOffset_def fetchCursor_def)

lemma limit_in_comment:
  assumes "newline \<notin> set c"
  shows "sql_pieces (''--'' @ c @ '' LIMIT '' @ itoa limit @ '' OFFSET '' @ itoa offset)
       = [SText (''--'' @ c @ '' LIMIT '' @ itoa limit @ '' OFFSET '' @ itoa offset)]"
proof -
  define u where "u = ''--'' @ c @ '' LIMIT '' @ itoa limit @ '' OFFSET '' @ itoa offset"
  have digits: "newline \<notin> set (itoa i)" for i
  proof -
    have "newline \<notin> set (show_nat n)" for n using show_nat_digits [of n] by (auto simp: list_all_iff is_digit_def)
    then show ?thesis by (simp add: itoa_def)
  qed
  define v where "v = c @ '' LIMIT '' @ itoa limit @ '' OFFSET '' @ itoa offset"
  have "newline \<notin> set v" using assms digits by (simp add: v_def)
  then have "takeWhile (\<lambda>x. x \<noteq> newline) v = v" by (rule takeWhile_neq_id)
  moreover have "u = ''--'' @ v" by (simp add: u_def v_def)
  ultimately have "sqlToken u = Some (length u, None)" by (simp add: sqlToken_def del: takeWhile_eq_all_conv)
  then have "sql_pieces u = SText (take (length u) u) # sql_pieces (drop (length u) u)"
    by (intro sql_pieces_eqs) (simp_all add: u_def)
  then show ?thesis by (simp add: u_def sql_pieces_eqs(1))
qed


subsection \<open>A concrete database\<close>

text \<open>
  A table of three rows, read through the query \<open>$1\<close>, whose parameter is a pagination variable.
\<close>

definition demo_rows :: "grecord list" where
  "demo_rows = map (\<lambda>i. [''id'' \<mapsto> GInt i]) [1, 2, 3]"

definition pagination_expr :: "string expr_engine" where
  "pagination_expr =
     \<lparr>ex_compile = Inr,
      ex_run = \<lambda>p vars. Inr (case vars ''pagination'' of Some (GMap m) \<Rightarrow> field_or_nil m p | _ \<Rightarrow> GNil),
      ex_identifiers = \<lambda>src. Some [''pagination'']\<rparr>"

definition rows_of :: "int list \<Rightarrow> gerr + sql_rows" where
  "rows_of ids = Inr \<lparr>ro_Columns = Inr [''id''], ro_Rows = map (\<lambda>i. Inr [SVOther (GInt i)]) ids, ro_Err = None\<rparr>"

definition demo_db_env :: "(unit, string, string) db_env" where
  "demo_db_env =
     \<lparr>dn_gonja = demo_gonja, dn_expr = pagination_expr,
      dn_query = \<lambda>query args h.
        (case args of
           [GNil] \<Rightarrow> rows_of [1, 2]
         | [GInt n] \<Rightarrow> rows_of (take 2 (drop (nat n) [1, 2, 3]))
         | _ \<Rightarrow> rows_of [], h),
      dn_fmt_rfc3339 = \<lambda>t. ''t''\<rparr>"

definition demo_db_input :: "string \<Rightarrow> (string, string) DatabaseInput" where
  "demo_db_input var =
     \<lparr>di_Pagination = None, di_Incremental = None, di_driver = DriverPostgres,
      di_sqlQuery = demo_query ''$1'' [var] DriverPostgres, di_timeout = 1, di_pipelineID = [],
      di_stateStore = Some (NewStateStore []), di_lastState = None\<rparr>"

lemma demo_page_query:
  "buildForPage demo_db_env (demo_db_input v) m = Inr (''$1'', [field_or_nil m v])"
proof -
  have p: "sql_pieces ''$1'' = [SRef ''1'']" by (simp add: sql_pieces.simps sqlToken_def is_digit_def)
  have n: "placeholder_number ''1'' = 1" by (simp add: placeholder_number_def digits_value_def int64_max_def)
  have d: "contains_sub ''{{'' ''$1'' = False" "contains_sub ''}}'' ''$1'' = False" by code_simp+
  have i: "itoa (int (Suc 0)) = ''1''" by code_simp
  show ?thesis
    by (simp add: buildForPage_def Build_def BuildDescribed_bound demo_db_env_def demo_db_input_def demo_render d)
       (simp add: bound_query_def p n piece_refs_def param_value_def is_left_def the_right_def show_piece_def bound_index_def
         demo_query_def pagination_expr_def context_Vars_def i [simplified])
qed

lemma demo_query_records:
  "fst (query_records demo_db_env (demo_db_input v) q [GInt n] h) = Inr (take 2 (drop (nat n) demo_rows))"
  "fst (query_records demo_db_env (demo_db_input v) q [GNil] h) = Inr (take 2 demo_rows)"
proof -
  have "rows_loop f [''id''] (map (\<lambda>i. Inr [SVOther (GInt i)]) ids) = Inr (map (\<lambda>i. [''id'' \<mapsto> GInt i]) ids)" for f ids
  proof -
    have "convertDatabaseValue f (SVOther g) = g" for g by (simp add: convertDatabaseValue_def)
    then show ?thesis by (induction ids) simp_all
  qed
  then have "rowsToRecords f \<lparr>ro_Columns = Inr [''id''], ro_Rows = map (\<lambda>i. Inr [SVOther (GInt i)]) ids, ro_Err = None\<rparr>
      = Inr (map (\<lambda>i. [''id'' \<mapsto> GInt i]) ids)" for f ids
    by (simp add: rowsToRecords_def)
  then have q: "fst (query_records env d q args h) = Inr (map (\<lambda>i. [''id'' \<mapsto> GInt i]) ids)"
    if "dn_query env q args h = (rows_of ids, h')" for env :: "(unit, string, string) db_env" and d args ids h'
    using that by (simp add: query_records_def rows_of_def)
  have "dn_query demo_db_env q [GInt n] h = (rows_of (take 2 (drop (nat n) [1, 2, 3])), h)"
    "dn_query demo_db_env q [GNil] h = (rows_of [1, 2], h)" by (simp_all add: demo_db_env_def)
  from q [OF this(1)] q [OF this(2)]
  show "fst (query_records demo_db_env (demo_db_input v) q [GInt n] h) = Inr (take 2 (drop (nat n) demo_rows))"
    "fst (query_records demo_db_env (demo_db_input v) q [GNil] h) = Inr (take 2 demo_rows)"
    by (simp_all only: demo_rows_def take_map drop_map) simp_all
qed

definition demo_db_pagination :: "string \<Rightarrow> DatabasePaginationConfig" where
  "demo_db_pagination ty = \<lparr>dp_Type = ty, dp_Limit = 2, dp_CursorField = ''id''\<rparr>"

theorem database_offset_complete_witness:
  "\<exists>h'. db_fetchWithPagination demo_db_env (demo_db_input ''offset'') (demo_db_pagination ''limit-offset'') () = Some (Inr demo_rows, h')"
proof (rule database_offset_complete)
  have u: "UsesPagination pagination_expr (demo_query ''$1'' [''offset''] DriverPostgres)"
    by (simp add: UsesPagination_def ReferencesPagination_def referencesPagination_def pagination_expr_def demo_query_def)
  then show "serves_offsets demo_db_env (demo_db_input ''offset'') (page_limit (demo_db_pagination ''limit-offset'')) demo_rows"
    by (simp add: serves_offsets_def limit_offset_page_def demo_page_query field_or_nil_def demo_query_records
        page_limit_def demo_db_pagination_def)
qed (simp_all add: demo_db_pagination_def demo_rows_def int64_max_def)

theorem database_cursor_complete_witness:
  "\<exists>h'. db_fetchWithPagination demo_db_env (demo_db_input ''cursor'') (demo_db_pagination ''cursor'') () = Some (Inr demo_rows, h')"
proof (rule database_cursor_complete)
  have "fst (cursor_page demo_db_env (demo_db_input ''cursor'') 2 (field_or_nil (demo_rows ! i) ''id'') h)
      = Inr (take 2 (drop (Suc i) demo_rows))" if "i < length demo_rows" for i h
  proof -
    from that have "i = 0 \<or> i = 1 \<or> i = 2" by (auto simp: demo_rows_def)
    then have "field_or_nil (demo_rows ! i) ''id'' = GInt (int (Suc i))" by (auto simp: demo_rows_def field_or_nil_def)
    moreover have "nat (int (Suc i)) = Suc i" by simp
    ultimately show ?thesis
      by (simp add: cursor_page_def demo_page_query field_or_nil_def [of "[''cursor'' \<mapsto> _, ''limit'' \<mapsto> _]"] demo_query_records
          del: of_nat_Suc nat_int)
  qed
  then show "serves_cursors demo_db_env (demo_db_input ''cursor'') (page_limit (demo_db_pagination ''cursor''))
      (dp_CursorField (demo_db_pagination ''cursor'')) demo_rows"
    by (simp add: serves_cursors_def page_limit_def demo_db_pagination_def cursor_page_def demo_page_query
        field_or_nil_def [of "[''cursor'' \<mapsto> _, ''limit'' \<mapsto> _]"] demo_query_records)
qed (simp_all add: demo_db_pagination_def)

theorem database_paging_diverges_witness:
  "db_fetchWithPagination demo_db_env (demo_db_input ''cursor'') (demo_db_pagination ''cursor''\<lparr>dp_CursorField := ''ID''\<rparr>) () = None"
proof (rule database_paging_diverges)
  have "lost_cursor demo_db_env (demo_db_input ''cursor'') 2 ''ID''"
    unfolding lost_cursor_def
    by (intro conjI exI [of _ "take 2 demo_rows"])
       (simp_all add: cursor_page_def demo_page_query field_or_nil_def demo_query_records demo_rows_def)
  then show "full_pages demo_db_env (demo_db_input ''cursor'') (page_limit (demo_db_pagination ''cursor''\<lparr>dp_CursorField := ''ID''\<rparr>))
       \<and> dp_Type (demo_db_pagination ''cursor''\<lparr>dp_CursorField := ''ID''\<rparr>) = ''limit-offset'' \<or>
     lost_cursor demo_db_env (demo_db_input ''cursor'') (page_limit (demo_db_pagination ''cursor''\<lparr>dp_CursorField := ''ID''\<rparr>))
       (dp_CursorField (demo_db_pagination ''cursor''\<lparr>dp_CursorField := ''ID''\<rparr>))
       \<and> dp_Type (demo_db_pagination ''cursor''\<lparr>dp_CursorField := ''ID''\<rparr>) = ''cursor''"
    by (simp add: demo_db_pagination_def page_limit_def)
qed

theorem database_resumes_from_saved_state_witness:
  "\<exists>fl. di_lastState (snd (db_Fetch demo_ops fl demo_db_env (db_SetPipelineID ''p'' (demo_db_input ''offset'')) ()))
     = Some (demo_state\<lparr>st_PipelineID := ''p''\<rparr>)"
proof -
  obtain d' where sv: "state_Save demo_ops (NewStateStore []) ''p'' (Some demo_state) Map.empty = (None, d')"
    by (simp add: state_Save_def save_run_def demo_ops_def Let_def)
  have ok: "plain_id ''p''" "codec_ok demo_ops (NewStateStore []) ''p'' demo_state"
    by (simp_all add: plain_id_def codec_ok_def demo_ops_def demo_state_def)
  have "di_stateStore (demo_db_input ''offset'') = Some (NewStateStore [])" "LastTimestamp demo_state = Some 5" "LastID demo_state = Some ''7''"
    by (simp_all add: demo_db_input_def demo_state_def)
  from database_resumes_from_saved_state [OF sv ok this, of demo_db_env "()"] show ?thesis by blast
qed


definition demo_driver :: "unit sql_driver" where
  "demo_driver = \<lparr>sd_open = \<lambda>n c h. (None, h), sd_limits = \<lambda>p h. h, sd_ping = \<lambda>t h. (None, h), sd_close = \<lambda>h. (None, h)\<rparr>"

definition demo_db_cfg :: DatabaseInputConfig where
  "demo_db_cfg =
     \<lparr>dbc_OnError = [],
      dbc_Base = \<lparr>sb_ConnectionString = ''postgres://h/d'', sb_ConnectionStringRef = [], sb_Driver = DriverPostgres,
        sb_MaxOpenConns = 0, sb_MaxIdleConns = 0, sb_ConnMaxLifetimeSeconds = 0, sb_ConnMaxIdleTimeSeconds = 0,
        sb_TimeoutMs = 0, sb_Query = demo_sql, sb_QueryFile = [], sb_Parameters = [''a'', ''b'']\<rparr>,
      dbc_Pagination = Some (demo_db_pagination ''limit-offset''), dbc_Incremental = None\<rparr>"

definition demo_dbin_world :: "(unit, string, string) dbin_world" where
  "demo_dbin_world =
     \<lparr>dw_decode = \<lambda>s. Inr demo_db_cfg, dw_ReadFile = \<lambda>f. Inr [], dw_Getenv = \<lambda>v. [], dw_driver = demo_driver,
      dw_gonja = demo_gonja, dw_expr = demo_expr\<rparr>"

lemma demo_db_constructs:
  "\<exists>d. fst (NewDatabaseInputFromConfig demo_dbin_world (Some (Some [])) (snd (Compile_history demo_gonja NewEngine [])) ()) = Inr d"
proof -
  let ?e = "snd (Compile_history demo_gonja NewEngine [])"
  obtain e' where q: "sql_Compile demo_gonja demo_expr ?e demo_sql [''a'', ''b''] DriverPostgres
      = (Inr (demo_query demo_sql [''a'', ''b''] DriverPostgres), e')"
    using demo_sql_compiles by (metis prod.collapse)
  have p: "ParseModuleConfig (dw_decode demo_dbin_world) (Some []) = Inr demo_db_cfg"
    by (simp add: ParseModuleConfig_def ParseConfig_def demo_dbin_world_def)
  have s: "ParseOnErrorStrategy [] = Inr OnErrorFail"
    by (simp add: ParseOnErrorStrategy_def trim_space_def trim_left.simps)
  have ne: "demo_sql \<noteq> []" by (simp add: demo_sql_def)
  have op: "Open g demo_driver (db_config (dbc_Base demo_db_cfg) t) () = (Inr DriverPostgres, ())" for g t
    by (simp add: Open_def Resolve_def ResolveConnectionString_def db_config_def demo_db_cfg_def IsDriverSupported_def
        OpenResolved_def demo_driver_def DriverPostgres_def)
  have v: "SQLRequestBase_Validate (dbc_Base demo_db_cfg) = None"
    "DatabasePaginationConfig_Validate (dbc_Pagination demo_db_cfg) = None"
    "load_query (dw_ReadFile demo_dbin_world) (dbc_Base demo_db_cfg) = Inr demo_sql" "dbc_OnError demo_db_cfg = []"
    "sb_Parameters (dbc_Base demo_db_cfg) = [''a'', ''b'']"
    "(case dbc_Pagination demo_db_cfg of None \<Rightarrow> False | Some p \<Rightarrow> dp_Type p = ''cursor'') = False"
    "dw_driver demo_dbin_world = demo_driver" "dw_gonja demo_dbin_world = demo_gonja" "dw_expr demo_dbin_world = demo_expr"
    using ne by (simp_all add: SQLRequestBase_Validate_def demo_db_cfg_def DatabasePaginationConfig_Validate_def
        demo_db_pagination_def load_query_def demo_dbin_world_def Let_def)
  show ?thesis
    unfolding NewDatabaseInputFromConfig_def option.case p sum.case v s Let_def op prod.case q simp_thms if_False by simp
qed

theorem database_input_constructed_witness:
  "\<exists>d. fst (NewDatabaseInputFromConfig demo_dbin_world (Some (Some [])) (snd (Compile_history demo_gonja NewEngine [])) ()) = Inr d
     \<and> IsDriverSupported (di_driver d)"
proof -
  obtain d where d: "fst (NewDatabaseInputFromConfig demo_dbin_world (Some (Some []))
      (snd (Compile_history demo_gonja NewEngine [])) ()) = Inr d"
    using demo_db_constructs by blast
  from d database_input_constructed [OF d] show ?thesis by blast
qed

end
