(* ===== verification/TemplateContext.thy ===== *)
theory TemplateContext
  imports SqlTemplate LoopFilter
begin

text \<open>
  The variables a template of a module sees, \<open>ContextForRecord\<close> of
  \<open>src/internal/template/context.go\<close>, for a record that is a value. \<open>LoopFilter\<close> has the same
  function on the heap, where a loop hands its scope to the modules inside it.
\<close>

definition record_context :: "grecord option \<Rightarrow> value_context" where
  "record_context r =
     (let rcd = rec_fields r;
          meta = (case rcd DefaultFieldName of Some (GMap m) \<Rightarrow> m | _ \<Rightarrow> Map.empty);
          plain = \<lparr>vc_Record = rcd, vc_Meta = meta, vc_State = Map.empty, vc_Pagination = Map.empty, vc_Extra = Map.empty\<rparr>
      in (case (meta LoopFieldName, rcd VarRecord) of
            (Some (GMap loopMeta), Some (GMap rootRecord)) \<Rightarrow>
              if loopMeta = Map.empty then plain else plain\<lparr>vc_Record := rootRecord, vc_Extra := rcd\<rparr>
          | _ \<Rightarrow> plain))"

end
