(* ===== verification/DatabaseOutput.thy ===== *)
theory DatabaseOutput
  imports DatabaseInput TemplateContext
begin

text \<open>
  The database output (\<open>internal/modules/output/database.go\<close>, \<open>database_preview.go\<close>): its
  construction, the connection it opens late and closes for good, sending with and without a
  transaction, and the preview of a dry run. The pool of the driver is a parameter.
\<close>

subsection \<open>The module\<close>

text \<open>What the code calls on a pool: outside a transaction, and inside one.\<close>

record 'h sql_pool =
  sp_driver :: "'h sql_driver"
  sp_exec :: "string \<Rightarrow> gval list \<Rightarrow> 'h \<Rightarrow> gerr option \<times> 'h"
  sp_begin :: "'h \<Rightarrow> gerr option \<times> 'h"
  sp_tx_exec :: "string \<Rightarrow> gval list \<Rightarrow> 'h \<Rightarrow> gerr option \<times> 'h"
  sp_commit :: "'h \<Rightarrow> gerr option \<times> 'h"
  sp_rollback :: "'h \<Rightarrow> 'h"

record DatabaseOutputConfig =
  doc_OnError :: string
  doc_Base :: SQLRequestBase
  doc_Transaction :: bool

record ('t, 'p) DatabaseOutput =
  do_dbConfig :: Config
  do_resolved :: Resolved
  do_Transaction :: bool
  do_OnError :: strategy
  do_sqlQuery :: "('t, 'p) Query"
  do_timeout :: int

text \<open>The fields the mutex guards.\<close>

record out_conn =
  oc_open :: bool
  oc_closed :: bool

datatype dbout_error =
    ErrDatabaseOutputNilConfig | OutParse gerr | OutConfig gerr | OutQuery dbin_error | OutOnError strategy_error
  | OutConnection db_error | OutTemplate gerr | ErrDatabaseOutputClosed | ErrDatabaseOutputNotConnected | OutWrite gerr

record ('h, 't, 'p) dbout_world =
  ow_decode :: "string \<Rightarrow> gerr + DatabaseOutputConfig"
  ow_ReadFile :: "string \<Rightarrow> gerr + string"
  ow_Getenv :: "string \<Rightarrow> string"
  ow_gonja :: "'t gonja"
  ow_expr :: "'p expr_engine"
  ow_pool :: "'h sql_pool"
  ow_parse_url :: "string \<Rightarrow> conn_url option"
  ow_fmt_q :: "string \<Rightarrow> string"
  ow_fmt_v :: "gval \<Rightarrow> string"

definition defaultDatabaseOutputTimeout :: int where
  "defaultDatabaseOutputTimeout = 30 * 10 ^ 9"

definition NewDatabaseOutputFromConfig ::
  "('h, 't, 'p) dbout_world \<Rightarrow> string option option \<Rightarrow> 't Engine \<Rightarrow> (dbout_error + ('t, 'p) DatabaseOutput) \<times> 't Engine" where
  "NewDatabaseOutputFromConfig w cfg e =
     (case cfg of
        None \<Rightarrow> (Inl ErrDatabaseOutputNilConfig, e)
      | Some raw \<Rightarrow>
     (case ParseModuleConfig (ow_decode w) raw of
        Inl err \<Rightarrow> (Inl (OutParse err), e)
      | Inr config \<Rightarrow>
     (case SQLRequestBase_Validate (doc_Base config) of
        Some err \<Rightarrow> (Inl (OutConfig err), e)
      | None \<Rightarrow>
     (case load_query (ow_ReadFile w) (doc_Base config) of
        Inl err \<Rightarrow> (Inl (OutQuery err), e)
      | Inr query \<Rightarrow>
     (case ParseOnErrorStrategy (doc_OnError config) of
        Inl err \<Rightarrow> (Inl (OutOnError err), e)
      | Inr strat \<Rightarrow>
          (let timeout = GetTimeoutDuration (sb_TimeoutMs (doc_Base config)) defaultDatabaseOutputTimeout;
               dbConfig = db_config (doc_Base config) timeout
           in case Resolve (ow_Getenv w) dbConfig of
                Inl err \<Rightarrow> (Inl (OutConnection err), e)
              | Inr resolved \<Rightarrow>
                  (case sql_Compile (ow_gonja w) (ow_expr w) e query (sb_Parameters (doc_Base config)) (rs_Driver resolved) of
                     (Inl err, e) \<Rightarrow> (Inl (OutTemplate err), e)
                   | (Inr q, e) \<Rightarrow>
                       (Inr \<lparr>do_dbConfig = dbConfig, do_resolved = resolved, do_Transaction = doc_Transaction config,
                             do_OnError = strat, do_sqlQuery = q, do_timeout = timeout\<rparr>, e))))))))"

subsection \<open>The connection\<close>

definition out_Connect ::
  "('h, 't, 'p) dbout_world \<Rightarrow> ('t, 'p) DatabaseOutput \<Rightarrow> out_conn \<Rightarrow> 'h \<Rightarrow> dbout_error option \<times> out_conn \<times> 'h" where
  "out_Connect w d c h =
     (if oc_closed c then (Some ErrDatabaseOutputClosed, c, h)
      else if oc_open c then (None, c, h)
      else (case OpenResolved (sp_driver (ow_pool w)) (do_dbConfig d) (do_resolved d) h of
              (Some err, h) \<Rightarrow> (Some (OutConnection err), c, h)
            | (None, h) \<Rightarrow> (None, c\<lparr>oc_open := True\<rparr>, h)))"

definition out_conn_error :: "out_conn \<Rightarrow> dbout_error option" where
  "out_conn_error c =
     (if oc_closed c then Some ErrDatabaseOutputClosed
      else if \<not> oc_open c then Some ErrDatabaseOutputNotConnected
      else None)"

definition out_Close :: "('h, 't, 'p) dbout_world \<Rightarrow> out_conn \<Rightarrow> 'h \<Rightarrow> gerr option \<times> out_conn \<times> 'h" where
  "out_Close w c h =
     (if \<not> oc_open c then (None, c\<lparr>oc_closed := True\<rparr>, h)
      else (case sd_close (sp_driver (ow_pool w)) h of (err, h) \<Rightarrow> (err, \<lparr>oc_open = False, oc_closed = True\<rparr>, h)))"

subsection \<open>Sending\<close>

definition out_Build ::
  "('h, 't, 'p) dbout_world \<Rightarrow> ('t, 'p) DatabaseOutput \<Rightarrow> grecord option \<Rightarrow> gerr + (string \<times> gval list)" where
  "out_Build w d r = Build (ow_gonja w) (ow_expr w) (do_sqlQuery d) (record_context r)"

definition handleQueryBuildError :: "('t, 'p) DatabaseOutput \<Rightarrow> gerr \<Rightarrow> dbout_error + bool" where
  "handleQueryBuildError d err =
     (if do_OnError d = OnErrorSkip then Inr False
      else if do_OnError d = OnErrorLog then Inr False
      else Inl (OutWrite (errorf (''building parameterized query: '' @ err_text err) err)))"

definition handleDatabaseError ::
  "('t, 'p) DatabaseOutput \<Rightarrow> gerr \<Rightarrow> string \<Rightarrow> int \<Rightarrow> dbout_error + bool" where
  "handleDatabaseError d err query argCount =
     (if do_OnError d = OnErrorSkip then Inr False
      else if do_OnError d = OnErrorLog then Inr False
      else Inl (OutWrite (database_gerr (ClassifyDatabaseError err (rs_Driver (do_resolved d)) ''exec'' query argCount))))"

definition processRecordInTransaction ::
  "('h, 't, 'p) dbout_world \<Rightarrow> ('t, 'p) DatabaseOutput \<Rightarrow> grecord option \<Rightarrow> 'h \<Rightarrow> (dbout_error + bool) \<times> 'h" where
  "processRecordInTransaction w d r h =
     (case out_Build w d r of
        Inl err \<Rightarrow> (handleQueryBuildError d err, h)
      | Inr (query, args) \<Rightarrow>
          (case sp_tx_exec (ow_pool w) query args h of
             (Some err, h) \<Rightarrow> (handleDatabaseError d err query (int (length args)), h)
           | (None, h) \<Rightarrow> (Inr True, h)))"

definition processRecordWithoutTransaction ::
  "('h, 't, 'p) dbout_world \<Rightarrow> ('t, 'p) DatabaseOutput \<Rightarrow> out_conn \<Rightarrow> grecord option \<Rightarrow> 'h \<Rightarrow> (dbout_error + bool) \<times> 'h" where
  "processRecordWithoutTransaction w d c r h =
     (case out_Build w d r of
        Inl err \<Rightarrow> (handleQueryBuildError d err, h)
      | Inr (query, args) \<Rightarrow>
          (case out_conn_error c of
             Some err \<Rightarrow> (Inl err, h)
           | None \<Rightarrow>
               (case sp_exec (ow_pool w) query args h of
                  (Some err, h) \<Rightarrow> (handleDatabaseError d err query (int (length args)), h)
                | (None, h) \<Rightarrow> (Inr True, h))))"

text \<open>The loop both ways of sending share: the number of records written, and the error that ended it.\<close>

fun write_loop :: "(grecord option \<Rightarrow> 'h \<Rightarrow> (dbout_error + bool) \<times> 'h) \<Rightarrow> records \<Rightarrow> nat \<Rightarrow> 'h \<Rightarrow> (nat \<times> dbout_error option) \<times> 'h" where
  "write_loop process [] successCount h = ((successCount, None), h)"
| "write_loop process (r # rs) successCount h =
     (case process r h of
        (Inl err, h) \<Rightarrow> ((successCount, Some err), h)
      | (Inr written, h) \<Rightarrow> write_loop process rs (if written then Suc successCount else successCount) h)"

definition sendWithTransaction ::
  "('h, 't, 'p) dbout_world \<Rightarrow> ('t, 'p) DatabaseOutput \<Rightarrow> out_conn \<Rightarrow> records \<Rightarrow> 'h \<Rightarrow> (nat \<times> dbout_error option) \<times> 'h" where
  "sendWithTransaction w d c rs h =
     (case out_conn_error c of
        Some err \<Rightarrow> ((0, Some err), h)
      | None \<Rightarrow>
          (case sp_begin (ow_pool w) h of
             (Some err, h) \<Rightarrow> ((0, Some (OutWrite (errorf (''beginning transaction: '' @ err_text err) err))), h)
           | (None, h) \<Rightarrow>
               (case write_loop (processRecordInTransaction w d) rs 0 h of
                  ((n, Some err), h) \<Rightarrow> ((n, Some err), sp_rollback (ow_pool w) h)
                | ((n, None), h) \<Rightarrow>
                    (case sp_commit (ow_pool w) h of
                       (Some err, h) \<Rightarrow> ((n, Some (OutWrite (errorf (''committing transaction: '' @ err_text err) err))), h)
                     | (None, h) \<Rightarrow> ((n, None), h)))))"

definition sendWithoutTransaction ::
  "('h, 't, 'p) dbout_world \<Rightarrow> ('t, 'p) DatabaseOutput \<Rightarrow> out_conn \<Rightarrow> records \<Rightarrow> 'h \<Rightarrow> (nat \<times> dbout_error option) \<times> 'h" where
  "sendWithoutTransaction w d c rs h = write_loop (processRecordWithoutTransaction w d c) rs 0 h"

definition dbout_Send ::
  "('h, 't, 'p) dbout_world \<Rightarrow> ('t, 'p) DatabaseOutput \<Rightarrow> records \<Rightarrow> out_conn \<Rightarrow> 'h
   \<Rightarrow> (nat \<times> dbout_error option) \<times> out_conn \<times> 'h" where
  "dbout_Send w d rs c h =
     (if rs = [] then ((0, None), c, h)
      else (case out_Connect w d c h of
              (Some err, c, h) \<Rightarrow> ((0, Some err), c, h)
            | (None, c, h) \<Rightarrow>
                (case (if do_Transaction d then sendWithTransaction w d c rs h else sendWithoutTransaction w d c rs h) of
                   (res, h) \<Rightarrow> (res, c, h))))"

subsection \<open>The preview\<close>

text \<open>
  The regular expression \<open>sqlOperation\<close>: blanks, one of the keywords, blanks, and a name if one
  follows. \<open>match_key\<close> matches a word without case, \<open>\\s\<close> is a blank as RE2 defines it. Upper case of
  what a keyword matched, with single blanks, is the keyword.
\<close>

definition re_space :: "char \<Rightarrow> bool" where
  "re_space c \<longleftrightarrow> c \<in> {CHR '' '', tab_char, newline, CHR 0x0C, CHR 0x0D}"

fun match_words :: "string list \<Rightarrow> string \<Rightarrow> string option" where
  "match_words [] s = Some s"
| "match_words (k # ks) s =
     (case match_key k s of
        None \<Rightarrow> None
      | Some rest \<Rightarrow> if rest = [] \<or> \<not> re_space (hd rest) then None else match_words ks (dropWhile re_space rest))"

definition sql_operations :: "(string \<times> string list) list" where
  "sql_operations =
     [(''INSERT INTO'', [''insert'', ''into'']), (''UPDATE'', [''update'']), (''DELETE FROM'', [''delete'', ''from'']),
      (''REPLACE INTO'', [''replace'', ''into'']), (''MERGE INTO'', [''merge'', ''into'']), (''SELECT'', [''select'']), (''WITH'', [''with''])]"

definition letter_or_mark :: "char \<Rightarrow> bool" where
  "letter_or_mark c \<longleftrightarrow> word_byte c \<and> \<not> is_digit c \<or> c \<in> {dquote, CHR 0x60, CHR ''[''}"

definition table_char :: "char \<Rightarrow> bool" where
  "table_char c \<longleftrightarrow> word_byte c \<or> c \<in> {CHR ''.'', CHR ''$'', dquote, CHR 0x60, CHR ''['', CHR '']''}"

text \<open>The two runes above ASCII that fold to the letters \<open>s\<close> and \<open>k\<close>.\<close>

definition folded :: "string \<Rightarrow> nat" where
  "folded s = (if prefix (bytes [0xC5, 0xBF]) s then 2 else if prefix (bytes [0xE2, 0x84, 0xAA]) s then 3 else 0)"

function table_rest :: "string \<Rightarrow> string" where
  "table_rest s =
     (if s = [] then []
      else if table_char (hd s) then hd s # table_rest (tl s)
      else if folded s > 0 then take (folded s) s @ table_rest (drop (folded s) s)
      else [])"
  by pat_completeness auto
termination
  by (relation "measure length") auto

definition table_name :: "string \<Rightarrow> string" where
  "table_name s =
     (if s \<noteq> [] \<and> letter_or_mark (hd s) then hd s # table_rest (tl s)
      else if folded s > 0 then take (folded s) s @ table_rest (drop (folded s) s)
      else [])"

definition describeStatement :: "string \<Rightarrow> string \<times> string" where
  "describeStatement statement =
     (case first_some (\<lambda>(operation, ks). map_option (\<lambda>rest. (operation, rest)) (match_words ks (dropWhile re_space statement)))
             sql_operations of
        None \<Rightarrow> (''STATEMENT'', [])
      | Some (operation, rest) \<Rightarrow>
          (operation, if operation = ''SELECT'' \<or> operation = ''WITH'' then [] else table_name rest))"

definition formatSQLArgs :: "(string \<Rightarrow> string) \<Rightarrow> (gval \<Rightarrow> string) \<Rightarrow> gval list \<Rightarrow> string list" where
  "formatSQLArgs fmt_q fmt_v args =
     map (\<lambda>arg. case arg of GNil \<Rightarrow> ''NULL'' | GStr v \<Rightarrow> fmt_q v | _ \<Rightarrow> fmt_v arg) args"

record SQLPreview =
  pv_RecordCount :: nat
  pv_Driver :: string
  pv_Target :: string
  pv_Operation :: string
  pv_Table :: string
  pv_Statement :: string
  pv_Parameters :: "string list"
  pv_Rows :: "string list list"
  pv_RowsOmitted :: nat
  pv_Transaction :: bool

definition maxPreviewRows :: nat where "maxPreviewRows = 100"

record preview_state =
  pw_order :: "string list"
  pw_rows :: "string \<Rightarrow> string list list"
  pw_counts :: "string \<Rightarrow> nat option"
  pw_sources :: "string \<Rightarrow> string list"

definition preview_add :: "string \<Rightarrow> string list \<Rightarrow> string list \<Rightarrow> preview_state \<Rightarrow> preview_state" where
  "preview_add statement row argSources s =
     (let s = (if pw_counts s statement = None
               then s\<lparr>pw_order := pw_order s @ [statement], pw_sources := (pw_sources s)(statement := argSources)\<rparr> else s);
          s = s\<lparr>pw_counts := (pw_counts s)(statement \<mapsto> Suc (case pw_counts s statement of None \<Rightarrow> 0 | Some n \<Rightarrow> n))\<rparr>
      in if length (pw_rows s statement) < maxPreviewRows
         then s\<lparr>pw_rows := (pw_rows s)(statement := pw_rows s statement @ [row])\<rparr> else s)"

definition out_BuildDescribed ::
  "('h, 't, 'p) dbout_world \<Rightarrow> ('t, 'p) DatabaseOutput \<Rightarrow> grecord option \<Rightarrow> gerr + (string \<times> gval list \<times> string list)" where
  "out_BuildDescribed w d r = BuildDescribed (ow_gonja w) (ow_expr w) (do_sqlQuery d) (record_context r)"

fun preview_loop ::
  "('h, 't, 'p) dbout_world \<Rightarrow> ('t, 'p) DatabaseOutput \<Rightarrow> records \<Rightarrow> nat \<Rightarrow> preview_state \<Rightarrow> gerr + preview_state" where
  "preview_loop w d [] i s = Inr s"
| "preview_loop w d (r # rs) i s =
     (case out_BuildDescribed w d r of
        Inl err \<Rightarrow> Inl (errorf (''previewing record '' @ itoa (int i) @ '': '' @ err_text err) err)
      | Inr (statement, args, argSources) \<Rightarrow>
          preview_loop w d rs (Suc i) (preview_add statement (formatSQLArgs (ow_fmt_q w) (ow_fmt_v w) args) argSources s))"

definition preview_of :: "('t, 'p) DatabaseOutput \<Rightarrow> string \<Rightarrow> preview_state \<Rightarrow> string \<Rightarrow> SQLPreview" where
  "preview_of d target s statement =
     (case describeStatement statement of
        (operation, table) \<Rightarrow>
          (let n = (case pw_counts s statement of None \<Rightarrow> 0 | Some n \<Rightarrow> n)
           in \<lparr>pv_RecordCount = n, pv_Driver = rs_Driver (do_resolved d), pv_Target = target, pv_Operation = operation,
               pv_Table = table, pv_Statement = trim_space statement, pv_Parameters = pw_sources s statement,
               pv_Rows = pw_rows s statement, pv_RowsOmitted = n - length (pw_rows s statement), pv_Transaction = do_Transaction d\<rparr>))"

definition preview_target :: "('h, 't, 'p) dbout_world \<Rightarrow> ('t, 'p) DatabaseOutput \<Rightarrow> bool \<Rightarrow> string" where
  "preview_target w d showCredentials =
     (let target = rs_ConnString (do_resolved d)
      in if showCredentials then target else SanitizeConnectionString (ow_parse_url w) target)"

definition dbout_PreviewOperations ::
  "('h, 't, 'p) dbout_world \<Rightarrow> ('t, 'p) DatabaseOutput \<Rightarrow> records \<Rightarrow> bool \<Rightarrow> gerr + SQLPreview list" where
  "dbout_PreviewOperations w d rs showCredentials =
     (if rs = [] then Inr []
      else (case preview_loop w d rs 0 \<lparr>pw_order = [], pw_rows = (\<lambda>_. []), pw_counts = Map.empty, pw_sources = (\<lambda>_. [])\<rparr> of
              Inl err \<Rightarrow> Inl err
            | Inr s \<Rightarrow> Inr (map (preview_of d (preview_target w d showCredentials) s) (pw_order s))))"


subsection \<open>What a send writes\<close>

text \<open>A history of the statements a pool was asked to execute, and whether they succeeded.\<close>

definition records_execs :: "'h sql_pool \<Rightarrow> ('h \<Rightarrow> (string \<times> gval list \<times> bool) list) \<Rightarrow> bool" where
  "records_execs pool execs \<longleftrightarrow>
     (\<forall>q args h. execs (snd (sp_exec pool q args h)) = execs h @ [(q, args, fst (sp_exec pool q args h) = None)])"

definition statements :: "('h, 't, 'p) dbout_world \<Rightarrow> ('t, 'p) DatabaseOutput \<Rightarrow> records \<Rightarrow> (string \<times> gval list) list" where
  "statements w d rs = List.map_filter (\<lambda>r. case out_Build w d r of Inl _ \<Rightarrow> None | Inr x \<Rightarrow> Some x) rs"

lemma statements_Cons:
  "statements w d (r # rs) = (case out_Build w d r of Inl _ \<Rightarrow> [] | Inr x \<Rightarrow> [x]) @ statements w d rs"
  by (simp add: statements_def map_filter_simps split: sum.split)

definition tolerates :: "('t, 'p) DatabaseOutput \<Rightarrow> bool" where
  "tolerates d \<longleftrightarrow> do_OnError d \<in> {OnErrorSkip, OnErrorLog}"

lemma tolerant_handlers:
  "tolerates d \<Longrightarrow> handleQueryBuildError d err = Inr False"
  "tolerates d \<Longrightarrow> handleDatabaseError d err q n = Inr False"
  "\<not> tolerates d \<Longrightarrow> \<exists>e. handleQueryBuildError d err = Inl e"
  "\<not> tolerates d \<Longrightarrow> \<exists>e. handleDatabaseError d err q n = Inl e"
  by (auto simp: tolerates_def handleQueryBuildError_def handleDatabaseError_def split: if_splits)

lemma handlers_false:
  "handleQueryBuildError d err = Inr b \<Longrightarrow> b = False" "handleDatabaseError d err q n = Inr b \<Longrightarrow> b = False"
  by (auto simp: tolerates_def handleQueryBuildError_def handleDatabaseError_def split: if_splits)

definition send_history ::
  "('h, 't, 'p) dbout_world \<Rightarrow> ('t, 'p) DatabaseOutput \<Rightarrow> records \<Rightarrow> nat \<Rightarrow> dbout_error option
   \<Rightarrow> (string \<times> gval list \<times> bool) list \<Rightarrow> bool" where
  "send_history w d rs n err ops \<longleftrightarrow>
     n = length (filter (\<lambda>(q, args, ok). ok) ops)
     \<and> (\<exists>i \<le> length rs. map (\<lambda>(q, args, ok). (q, args)) ops = statements w d (take i rs) \<and> (err = None \<longrightarrow> i = length rs))
     \<and> (\<not> tolerates d \<and> err = None \<longrightarrow> n = length rs)
     \<and> (tolerates d \<longrightarrow> err = None) \<and> (\<not> tolerates d \<longrightarrow> list_all (\<lambda>(q, args, ok). ok) (butlast ops))"

lemma write_loop_history:
  assumes rec: "records_execs (ow_pool w) execs" and conn: "out_conn_error c = None"
    and run: "write_loop (processRecordWithoutTransaction w d c) rs k h = ((n, err), h')"
  shows "\<exists>ops m. execs h' = execs h @ ops \<and> n = k + m \<and> send_history w d rs m err ops"
  using run
proof (induction rs arbitrary: k h)
  case Nil
  then show ?case by (intro exI [of _ "[]"] exI [of _ 0]) (simp add: send_history_def statements_def map_filter_simps)
next
  case (Cons r rs)
  show ?case
  proof (cases "out_Build w d r")
    case (Inl e)
    then have p: "processRecordWithoutTransaction w d c r h = (handleQueryBuildError d e, h)"
      by (simp add: processRecordWithoutTransaction_def)
    show ?thesis
    proof (cases "tolerates d")
      case False
      then obtain x where "handleQueryBuildError d e = Inl x" using tolerant_handlers(3) by blast
      with Cons.prems p have "h' = h" "n = k" "err = Some x" by auto
      then show ?thesis using False
        by (intro exI [of _ "[]"] exI [of _ 0]) (auto simp: send_history_def statements_def map_filter_simps intro: exI [of _ 0])
    next
      case True
      with Cons.prems p tolerant_handlers(1) [OF True] have "write_loop (processRecordWithoutTransaction w d c) rs k h = ((n, err), h')" by simp
      from Cons.IH [OF this] obtain ops m i where ih: "execs h' = execs h @ ops" "n = k + m"
        "m = length (filter (\<lambda>(q, args, ok). ok) ops)" "i \<le> length rs"
        "map (\<lambda>(q, args, ok). (q, args)) ops = statements w d (take i rs)" "err = None \<longrightarrow> i = length rs" "err = None"
        unfolding send_history_def using True by blast
      have "send_history w d (r # rs) m err ops" unfolding send_history_def
        using ih True Inl by (auto simp: statements_Cons intro!: exI [of _ "Suc i"])
      with ih show ?thesis by blast
    qed
  next
    case (Inr qa)
    obtain q args where qa: "qa = (q, args)" by (cases qa)
    obtain e h1 where x: "sp_exec (ow_pool w) q args h = (e, h1)" by fastforce
    from rec x have l: "execs h1 = execs h @ [(q, args, e = None)]" unfolding records_execs_def by (metis fst_conv snd_conv)
    have p: "processRecordWithoutTransaction w d c r h
        = (case e of None \<Rightarrow> Inr True | Some e' \<Rightarrow> handleDatabaseError d e' q (int (length args)), h1)"
      using Inr qa x conn by (simp add: processRecordWithoutTransaction_def split: option.split)
    show ?thesis
    proof (cases "e \<noteq> None \<and> \<not> tolerates d")
      case True
      then obtain e' y where "e = Some e'" "handleDatabaseError d e' q (int (length args)) = Inl y" using tolerant_handlers(4) by blast
      with Cons.prems p have "h' = h1" "n = k" "err = Some y" by auto
      then show ?thesis using True l Inr qa
        by (intro exI [of _ "[(q, args, False)]"] exI [of _ 0])
           (auto simp: send_history_def statements_Cons statements_def [of _ _ "[]"] map_filter_simps intro!: exI [of _ 1])
    next
      case False
      then have "write_loop (processRecordWithoutTransaction w d c) rs (if e = None then Suc k else k) h1 = ((n, err), h')"
        using Cons.prems p tolerant_handlers(2) [of d] by (cases e) auto
      from Cons.IH [OF this] obtain ops m i where ih: "execs h' = execs h1 @ ops" "n = (if e = None then Suc k else k) + m"
        "m = length (filter (\<lambda>(q, args, ok). ok) ops)" "i \<le> length rs"
        "map (\<lambda>(q, args, ok). (q, args)) ops = statements w d (take i rs)" "err = None \<longrightarrow> i = length rs"
        "\<not> tolerates d \<and> err = None \<longrightarrow> m = length rs"
        "tolerates d \<longrightarrow> err = None" "\<not> tolerates d \<longrightarrow> list_all (\<lambda>(q, args, ok). ok) (butlast ops)"
        unfolding send_history_def by blast
      let ?m = "(if e = None then 1 else 0) + m"
      have "send_history w d (r # rs) ?m err ((q, args, e = None) # ops)" unfolding send_history_def
      proof (intro conjI)
        show "\<exists>i \<le> length (r # rs). map (\<lambda>(q, args, ok). (q, args)) ((q, args, e = None) # ops) = statements w d (take i (r # rs))
            \<and> (err = None \<longrightarrow> i = length (r # rs))"
          using ih Inr qa by (auto simp: statements_Cons intro!: exI [of _ "Suc i"])
      qed (use ih False in auto)
      moreover have "execs h' = execs h @ ((q, args, e = None) # ops)" "n = k + ?m" using ih l by auto
      ultimately show ?thesis by blast
    qed
  qed
qed

text \<open>
  C31. What a send without a transaction writes: the statements of the records, in their order and
  each once, up to the record that ended the send, or of all records that can be built when it ends
  without an error. The count it returns is the number of statements that succeeded. Only under the
  strategy fail does an error end the send, and then nothing failed before it.
\<close>
theorem database_send_accounting:
  assumes "records_execs (ow_pool w) execs" "\<not> do_Transaction d" "oc_open c" "\<not> oc_closed c"
    and "dbout_Send w d rs c h = ((n, err), c', h')"
  shows "\<exists>ops. execs h' = execs h @ ops \<and> send_history w d rs n err ops"
proof -
  have conn: "out_conn_error c = None" using assms(3,4) by (simp add: out_conn_error_def)
  have run: "write_loop (processRecordWithoutTransaction w d c) rs 0 h = ((n, err), h')"
    using assms(2-5) by (cases "rs = []") (auto simp: dbout_Send_def out_Connect_def sendWithoutTransaction_def split: prod.splits)
  from write_loop_history [OF assms(1) conn run] show ?thesis by auto
qed


subsection \<open>Transactions\<close>

text \<open>
  What a database promises of a transaction: \<open>committed\<close> is what it has written for good, \<open>pending\<close>
  what the open transaction has executed. A successful commit makes the pending statements
  permanent, all of them; after a commit that returns an error (the connection may be lost on the
  way back) either all of them are permanent or none; nothing else makes them permanent.
\<close>

definition transactional ::
  "'h sql_pool \<Rightarrow> ('h \<Rightarrow> (string \<times> gval list) list) \<Rightarrow> ('h \<Rightarrow> (string \<times> gval list) list) \<Rightarrow> bool" where
  "transactional pool committed pending \<longleftrightarrow>
     (\<forall>h e h'. sp_begin pool h = (e, h') \<longrightarrow> committed h' = committed h \<and> (e = None \<longrightarrow> pending h' = []))
     \<and> (\<forall>q args h e h'. sp_tx_exec pool q args h = (e, h') \<longrightarrow>
          committed h' = committed h \<and> pending h' = pending h @ (if e = None then [(q, args)] else []))
     \<and> (\<forall>h. committed (sp_rollback pool h) = committed h)
     \<and> (\<forall>h e h'. sp_commit pool h = (e, h') \<longrightarrow>
          committed h' = committed h @ pending h \<or> e \<noteq> None \<and> committed h' = committed h)"

lemma tx_loop_pending:
  assumes tx: "transactional (ow_pool w) committed pending"
    and run: "write_loop (processRecordInTransaction w d) rs k h = ((n, err), h')"
  shows "committed h' = committed h \<and> (\<exists>new. pending h' = pending h @ new \<and> n = k + length new
    \<and> subseq new (statements w d rs) \<and> (err = None \<and> \<not> tolerates d \<longrightarrow> new = statements w d rs \<and> length new = length rs))"
  using run
proof (induction rs arbitrary: k h)
  case Nil
  then show ?case by (simp add: statements_def map_filter_simps)
next
  case (Cons r rs)
  show ?case
  proof (cases "out_Build w d r")
    case (Inl e)
    then have p: "processRecordInTransaction w d r h = (handleQueryBuildError d e, h)"
      by (simp add: processRecordInTransaction_def)
    show ?thesis
    proof (cases "tolerates d")
      case False
      then obtain x where "handleQueryBuildError d e = Inl x" using tolerant_handlers(3) by blast
      with Cons.prems p have "h' = h" "n = k" "err = Some x" by auto
      then show ?thesis by simp
    next
      case True
      with Cons.prems p tolerant_handlers(1) [OF True] have "write_loop (processRecordInTransaction w d) rs k h = ((n, err), h')" by simp
      from Cons.IH [OF this] True Inl show ?thesis by (simp add: statements_Cons)
    qed
  next
    case (Inr qa)
    obtain q args where qa: "qa = (q, args)" by (cases qa)
    obtain e h1 where x: "sp_tx_exec (ow_pool w) q args h = (e, h1)" by fastforce
    with tx have h1: "committed h1 = committed h" "pending h1 = pending h @ (if e = None then [(q, args)] else [])"
      unfolding transactional_def by blast+
    have p: "processRecordInTransaction w d r h
        = (case e of None \<Rightarrow> Inr True | Some e' \<Rightarrow> handleDatabaseError d e' q (int (length args)), h1)"
      using Inr qa x by (simp add: processRecordInTransaction_def split: option.split)
    show ?thesis
    proof (cases "e \<noteq> None \<and> \<not> tolerates d")
      case True
      then obtain e' y where "e = Some e'" "handleDatabaseError d e' q (int (length args)) = Inl y" using tolerant_handlers(4) by blast
      with Cons.prems p have "h' = h1" "n = k" "err = Some y" by auto
      with True h1 show ?thesis by auto
    next
      case False
      then have "write_loop (processRecordInTransaction w d) rs (if e = None then Suc k else k) h1 = ((n, err), h')"
        using Cons.prems p tolerant_handlers(2) [of d] by (cases e) auto
      from Cons.IH [OF this] obtain new where new: "committed h' = committed h1" "pending h' = pending h1 @ new"
        "n = (if e = None then Suc k else k) + length new" "subseq new (statements w d rs)"
        "err = None \<and> \<not> tolerates d \<longrightarrow> new = statements w d rs \<and> length new = length rs" by blast
      let ?new = "(if e = None then [(q, args)] else []) @ new"
      have "subseq ?new (statements w d (r # rs))" using new(4) Inr qa by (auto simp: statements_Cons)
      moreover have "pending h' = pending h @ ?new" "n = k + length ?new" "committed h' = committed h" using new h1 by auto
      moreover have "err = None \<and> \<not> tolerates d \<longrightarrow> ?new = statements w d (r # rs) \<and> length ?new = length (r # rs)"
        using new(5) False Inr qa by (auto simp: statements_Cons)
      ultimately show ?thesis by blast
    qed
  qed
qed

text \<open>The statements of a batch that was written: those of the records that could be, in order, \<open>n\<close> of them.\<close>

definition whole_batch ::
  "('h, 't, 'p) dbout_world \<Rightarrow> ('t, 'p) DatabaseOutput \<Rightarrow> records \<Rightarrow> nat \<Rightarrow> (string \<times> gval list) list \<Rightarrow> bool" where
  "whole_batch w d rs n new \<longleftrightarrow>
     length new = n \<and> subseq new (statements w d rs) \<and> (tolerates d \<or> new = statements w d rs \<and> n = length rs)"

text \<open>
  C32. A send in a transaction writes all or nothing. When it returns no error, exactly the
  statements it counted were written, in the order of the records, and under the strategy fail
  these are the statements of all records. When it returns an error nothing was written, or the
  error is that of the commit, which a database may report although it has committed: then the
  statements it counted were all written, as without an error.
\<close>
theorem database_transaction_atomic:
  assumes "transactional (ow_pool w) committed pending" "do_Transaction d" "oc_open c"
    and "dbout_Send w d rs c h = ((n, err), c', h')"
  shows "if err = None
         then (\<exists>new. committed h' = committed h @ new \<and> whole_batch w d rs n new)
         else committed h' = committed h
           \<or> (\<exists>e h2. sp_commit (ow_pool w) h2 = (Some e, h')
                \<and> err = Some (OutWrite (errorf (''committing transaction: '' @ err_text e) e))
                \<and> committed h2 = committed h \<and> whole_batch w d rs n (pending h2)
                \<and> committed h' = committed h @ pending h2)"
proof -
  consider "rs = []" "err = None" "h' = h" "n = 0"
    | "err \<noteq> None" "h' = h"
    | "sendWithTransaction w d c rs h = ((n, err), h')"
    using assms(2-4)
    by (auto simp: dbout_Send_def out_Connect_def out_conn_error_def split: if_split_asm prod.split_asm)
  then show ?thesis
  proof cases
    case 1
    then show ?thesis by (simp add: whole_batch_def statements_def map_filter_simps)
  next
    case 3
    obtain e1 h1 where b: "sp_begin (ow_pool w) h = (e1, h1)" by fastforce
    with assms(1) have h1: "committed h1 = committed h" "e1 = None \<Longrightarrow> pending h1 = []" unfolding transactional_def by blast+
    obtain m e2 h2 where l: "write_loop (processRecordInTransaction w d) rs 0 h1 = ((m, e2), h2)" by (metis prod.collapse)
    from tx_loop_pending [OF assms(1) l] obtain new where new: "committed h2 = committed h1" "pending h2 = pending h1 @ new"
      "m = length new" "subseq new (statements w d rs)"
      "e2 = None \<and> \<not> tolerates d \<longrightarrow> new = statements w d rs \<and> length new = length rs" by auto
    obtain e3 h3 where cm: "sp_commit (ow_pool w) h2 = (e3, h3)" by fastforce
    with assms(1) have h3: "committed h3 = committed h2 @ pending h2 \<or> e3 \<noteq> None \<and> committed h3 = committed h2"
      unfolding transactional_def by blast
    have rb: "committed (sp_rollback (ow_pool w) h2) = committed h2" using assms(1) unfolding transactional_def by blast
    consider "committed h' = committed h" "err \<noteq> None" | "e1 = None" "e2 = None" "out_conn_error c = None"
    proof (cases "out_conn_error c = None \<and> e1 = None \<and> e2 = None")
      case False
      then have "(h' = h \<or> h' = h1 \<or> h' = sp_rollback (ow_pool w) h2) \<and> err \<noteq> None"
      proof (cases "out_conn_error c")
        case (Some x)
        have "((0, Some x), h) = ((n, err), h')" using 3 unfolding sendWithTransaction_def Some option.case .
        then show ?thesis by (metis Pair_inject option.distinct(1))
      next
        case None
        note run = 3 [unfolded sendWithTransaction_def None option.case b prod.case]
        show ?thesis
        proof (cases e1)
          case (Some x)
          have "((0, Some (OutWrite (errorf (''beginning transaction: '' @ err_text x) x))), h1) = ((n, err), h')"
            using run unfolding Some option.case .
          then show ?thesis by (metis Pair_inject option.distinct(1))
        next
          case e1: None
          with None False obtain x where x: "e2 = Some x" by auto
          have "((m, Some x), sp_rollback (ow_pool w) h2) = ((n, err), h')"
            using run unfolding e1 option.case l x prod.case .
          then show ?thesis by (metis Pair_inject option.distinct(1))
        qed
      qed
      with that(1) h1(1) new(1) rb show thesis by auto
    qed (use that(2) in blast)
    then show ?thesis
    proof cases
      case 2
      then have batch: "whole_batch w d rs m new" "pending h2 = new" "committed h2 = committed h"
        using new h1 by (auto simp: whole_batch_def)
      from 2 3 b l cm have r: "n = m" "h' = h3"
        "err = map_option (\<lambda>e. OutWrite (errorf (''committing transaction: '' @ err_text e) e)) e3"
        by (auto simp: sendWithTransaction_def split: option.splits)
      show ?thesis
      proof (cases e3)
        case None
        with r h3 batch show ?thesis by auto
      next
        case (Some e)
        with r h3 batch cm show ?thesis by auto
      qed
    qed auto
  qed auto
qed

text \<open>The count of a rolled back transaction is not zero.\<close>

lemma rolled_back_records_counted:
  assumes "do_Transaction d" "oc_open c" "\<not> oc_closed c" "\<not> tolerates d"
    and "out_Build w d r1 = Inr (q1, a1)" "out_Build w d r2 = Inr (q2, a2)"
    and "sp_begin (ow_pool w) h = (None, h1)" "sp_tx_exec (ow_pool w) q1 a1 h1 = (None, h2)"
    and "sp_tx_exec (ow_pool w) q2 a2 h2 = (Some e, h3)"
  shows "\<exists>err. fst (dbout_Send w d [r1, r2] c h) = (1, Some err)"
proof -
  obtain y where "handleDatabaseError d e q2 (int (length a2)) = Inl y" using tolerant_handlers(4) [OF assms(4)] by blast
  with assms show ?thesis
    by (simp add: dbout_Send_def out_Connect_def out_conn_error_def sendWithTransaction_def processRecordInTransaction_def)
qed


subsection \<open>The preview\<close>

text \<open>
  What a preview says, without the loop: one entry for each statement, in the order of the first
  records that have it, with the number of records that have it, the first hundred of their rows,
  and the sources of the arguments of the first.
\<close>

type_synonym described = "string \<times> gval list \<times> string list"

fun firsts :: "string list \<Rightarrow> string list" where
  "firsts [] = []"
| "firsts (x # xs) = x # filter ((\<noteq>) x) (firsts xs)"

definition of_statement :: "described list \<Rightarrow> string \<Rightarrow> described list" where
  "of_statement built st = filter (\<lambda>b. fst b = st) built"

definition preview_spec ::
  "('h, 't, 'p) dbout_world \<Rightarrow> ('t, 'p) DatabaseOutput \<Rightarrow> bool \<Rightarrow> described list \<Rightarrow> string \<Rightarrow> SQLPreview" where
  "preview_spec w d showCredentials built st =
     (let recs = of_statement built st
      in \<lparr>pv_RecordCount = length recs, pv_Driver = rs_Driver (do_resolved d), pv_Target = preview_target w d showCredentials,
          pv_Operation = fst (describeStatement st), pv_Table = snd (describeStatement st), pv_Statement = trim_space st,
          pv_Parameters = snd (snd (hd recs)),
          pv_Rows = map (\<lambda>(_, args, _). formatSQLArgs (ow_fmt_q w) (ow_fmt_v w) args) (take maxPreviewRows recs),
          pv_RowsOmitted = length recs - maxPreviewRows, pv_Transaction = do_Transaction d\<rparr>)"

lemma firsts_snoc: "firsts (xs @ [x]) = (if x \<in> set xs then firsts xs else firsts xs @ [x])"
  by (induction xs) auto

lemma set_firsts: "set (firsts xs) = set xs"
  by (induction xs) auto

text \<open>The loop after the records \<open>built\<close>.\<close>

definition preview_inv :: "('h, 't, 'p) dbout_world \<Rightarrow> described list \<Rightarrow> preview_state \<Rightarrow> bool" where
  "preview_inv w built s \<longleftrightarrow>
     pw_order s = firsts (map fst built)
     \<and> (\<forall>st. pw_counts s st = (if st \<in> fst ` set built then Some (length (of_statement built st)) else None)
          \<and> pw_rows s st = map (\<lambda>(_, args, _). formatSQLArgs (ow_fmt_q w) (ow_fmt_v w) args) (take maxPreviewRows (of_statement built st))
          \<and> (st \<in> fst ` set built \<longrightarrow> pw_sources s st = snd (snd (hd (of_statement built st)))))"

lemma of_statement_snoc:
  "of_statement (built @ [b]) st = of_statement built st @ (if fst b = st then [b] else [])"
  "of_statement built st = [] \<longleftrightarrow> st \<notin> fst ` set built"
  by (auto simp: of_statement_def filter_empty_conv)

lemma preview_add_inv:
  assumes "preview_inv w built s"
  shows "preview_inv w (built @ [(st, args, srcs)]) (preview_add st (formatSQLArgs (ow_fmt_q w) (ow_fmt_v w) args) srcs s)"
proof -
  let ?row = "formatSQLArgs (ow_fmt_q w) (ow_fmt_v w) args"
  let ?s' = "preview_add st ?row srcs s"
  have c: "pw_counts s st' = (if st' \<in> fst ` set built then Some (length (of_statement built st')) else None)"
    and r: "pw_rows s st' = map (\<lambda>(_, args, _). formatSQLArgs (ow_fmt_q w) (ow_fmt_v w) args) (take maxPreviewRows (of_statement built st'))"
    and q: "st' \<in> fst ` set built \<Longrightarrow> pw_sources s st' = snd (snd (hd (of_statement built st')))"
    and o: "pw_order s = firsts (map fst built)" for st' using assms unfolding preview_inv_def by blast+
  have seen: "pw_counts s st = None \<longleftrightarrow> st \<notin> fst ` set built" using c [of st] by simp
  have "pw_order ?s' = firsts (map fst (built @ [(st, args, srcs)]))"
    using seen o by (simp add: preview_add_def Let_def firsts_snoc)
  moreover have "pw_counts ?s' st' = (if st' \<in> fst ` set (built @ [(st, args, srcs)])
      then Some (length (of_statement (built @ [(st, args, srcs)]) st')) else None)" for st'
    using c [of st] c [of st'] of_statement_snoc(2) [of built st]
    by (auto simp: preview_add_def Let_def of_statement_snoc(1) split: option.split)
  moreover have "pw_rows ?s' st' = map (\<lambda>(_, args, _). formatSQLArgs (ow_fmt_q w) (ow_fmt_v w) args)
      (take maxPreviewRows (of_statement (built @ [(st, args, srcs)]) st'))" for st'
    using r [of st] r [of st'] by (auto simp: preview_add_def Let_def of_statement_snoc(1))
  moreover have "st' \<in> fst ` set (built @ [(st, args, srcs)]) \<Longrightarrow>
      pw_sources ?s' st' = snd (snd (hd (of_statement (built @ [(st, args, srcs)]) st')))" for st'
  proof (cases "st' \<in> fst ` set built")
    case True
    then have "of_statement built st' \<noteq> []" using of_statement_snoc(2) by blast
    with True q [of st'] seen show ?thesis by (auto simp: preview_add_def Let_def of_statement_snoc(1) hd_append)
  next
    case False
    assume "st' \<in> fst ` set (built @ [(st, args, srcs)])"
    with False have "st' = st" by auto
    moreover from False have "of_statement built st' = []" using of_statement_snoc(2) by blast
    ultimately show ?thesis using False seen by (simp add: preview_add_def Let_def of_statement_snoc(1))
  qed
  ultimately show ?thesis unfolding preview_inv_def by blast
qed

lemma preview_loop_inv:
  assumes "preview_inv w built s"
  shows "case preview_loop w d rs i s of
      Inl err \<Rightarrow> \<exists>r \<in> set rs. isl (out_BuildDescribed w d r)
    | Inr s' \<Rightarrow> list_all (\<lambda>r. \<not> isl (out_BuildDescribed w d r)) rs
        \<and> preview_inv w (built @ map (\<lambda>r. projr (out_BuildDescribed w d r)) rs) s'"
  using assms
proof (induction rs arbitrary: i s built)
  case (Cons r rs)
  show ?case
  proof (cases "out_BuildDescribed w d r")
    case (Inr b)
    obtain st args srcs where b: "b = (st, args, srcs)" by (cases b)
    from Cons.IH [where i = "Suc i", OF preview_add_inv [OF Cons.prems, of st args srcs]] Inr b show ?thesis
      by (auto split: sum.splits)
  qed simp
qed simp

lemma firsts_count: "(\<Sum>st \<leftarrow> firsts (map fst built). length (of_statement built st)) = length built"
proof -
  have d: "distinct (firsts xs)" for xs by (induction xs) auto
  have "(\<Sum>st \<leftarrow> firsts (map fst built). length (of_statement built st)) = (\<Sum>st \<in> fst ` set built. length (of_statement built st))"
    using sum_list_distinct_conv_sum_set [OF d, of _ "map fst built"] by (simp add: set_firsts)
  also have "\<dots> = length built"
  proof (induction built)
    case (Cons b built)
    have c: "length (of_statement (b # built) st) = (if st = fst b then 1 else 0) + length (of_statement built st)" for st
      by (simp add: of_statement_def)
    have z: "(\<Sum>st \<in> fst ` set (b # built). length (of_statement built st)) = (\<Sum>st \<in> fst ` set built. length (of_statement built st))"
    proof (cases "fst b \<in> fst ` set built")
      case False
      then have "of_statement built (fst b) = []" using of_statement_snoc(2) by blast
      with False show ?thesis by simp
    qed (simp add: insert_absorb)
    show ?case unfolding c sum.distrib z Cons by (simp add: sum.delta)
  qed simp
  finally show ?thesis .
qed

text \<open>
  C33. The preview of a dry run is what its specification says, for any records: it fails when the
  statement of a record cannot be built, and else lists each statement once, in the order of the
  records, with the right number of records, their first hundred rows and how many are left out;
  the counts add up to the number of records. Nothing is opened or written: the preview is a
  function of the module and the records.
\<close>
theorem database_preview_refines_spec:
  "case dbout_PreviewOperations w d rs showCredentials of
     Inl err \<Rightarrow> list_ex (\<lambda>r. isl (out_BuildDescribed w d r)) rs
   | Inr ps \<Rightarrow>
       list_all (\<lambda>r. \<not> isl (out_BuildDescribed w d r)) rs
       \<and> (let built = map (\<lambda>r. projr (out_BuildDescribed w d r)) rs
          in ps = map (preview_spec w d showCredentials built) (firsts (map fst built))
             \<and> sum_list (map pv_RecordCount ps) = length rs)"
proof (cases "rs = []")
  case False
  let ?s = "\<lparr>pw_order = [], pw_rows = (\<lambda>_. []), pw_counts = Map.empty, pw_sources = (\<lambda>_. [])\<rparr>"
  let ?built = "map (\<lambda>r. projr (out_BuildDescribed w d r)) rs"
  have "preview_inv w [] ?s" by (simp add: preview_inv_def of_statement_def)
  note loop = preview_loop_inv [OF this, where d = d and rs = rs and i = 0]
  show ?thesis
  proof (cases "preview_loop w d rs 0 ?s")
    case (Inl err)
    with False loop show ?thesis by (auto simp: dbout_PreviewOperations_def list_ex_iff)
  next
    case (Inr s')
    with loop have all: "list_all (\<lambda>r. \<not> isl (out_BuildDescribed w d r)) rs" and inv: "preview_inv w ?built s'" by auto
    have p: "preview_of d (preview_target w d showCredentials) s' st = preview_spec w d showCredentials ?built st"
      if "st \<in> set (firsts (map fst ?built))" for st
      using inv that unfolding preview_inv_def set_firsts
      by (auto simp: preview_of_def preview_spec_def Let_def min_def split: prod.split)
    have ps: "dbout_PreviewOperations w d rs showCredentials = Inr (map (preview_spec w d showCredentials ?built) (firsts (map fst ?built)))"
      using False Inr inv p by (simp add: dbout_PreviewOperations_def preview_inv_def)
    have "sum_list (map pv_RecordCount (map (preview_spec w d showCredentials ?built) (firsts (map fst ?built)))) = length rs"
      using firsts_count [of ?built] by (simp add: preview_spec_def Let_def comp_def)
    with ps all show ?thesis by (simp add: Let_def)
  qed
qed (simp add: dbout_PreviewOperations_def)


subsection \<open>Examples\<close>

text \<open>
  A database whose second statement fails: the state is what was committed, what is pending, and
  the history of the executions.
\<close>

type_synonym demo_db = "(string \<times> gval list) list \<times> (string \<times> gval list) list \<times> (string \<times> gval list \<times> bool) list"

definition demo_exec :: "string \<Rightarrow> gval list \<Rightarrow> demo_db \<Rightarrow> gerr option \<times> demo_db" where
  "demo_exec q args h =
     (case h of (done, pend, hist) \<Rightarrow>
        if length hist = 1 then (Some (plain_error ''syntax error''), done, pend, hist @ [(q, args, False)])
        else (None, done, pend @ [(q, args)], hist @ [(q, args, True)]))"

definition demo_pool :: "demo_db sql_pool" where
  "demo_pool =
     \<lparr>sp_driver = \<lparr>sd_open = \<lambda>n c h. (None, h), sd_limits = \<lambda>p h. h, sd_ping = \<lambda>t h. (None, h), sd_close = \<lambda>h. (None, h)\<rparr>,
      sp_exec = demo_exec, sp_begin = (\<lambda>(done, pend, hist). (None, done, [], hist)), sp_tx_exec = demo_exec,
      sp_commit = (\<lambda>(done, pend, hist). (None, done @ pend, pend, hist)), sp_rollback = (\<lambda>(done, pend, hist). (done, [], hist))\<rparr>"

definition demo_dbout_world :: "(demo_db, string, string) dbout_world" where
  "demo_dbout_world =
     \<lparr>ow_decode = (\<lambda>_. Inl (plain_error [])), ow_ReadFile = (\<lambda>_. Inr []), ow_Getenv = (\<lambda>_. []), ow_gonja = demo_gonja,
      ow_expr = demo_expr, ow_pool = demo_pool, ow_parse_url = (\<lambda>_. None), ow_fmt_q = id, ow_fmt_v = (\<lambda>_. [])\<rparr>"

definition demo_dbout :: "bool \<Rightarrow> strategy \<Rightarrow> (string, string) DatabaseOutput" where
  "demo_dbout tx st =
     \<lparr>do_dbConfig = \<lparr>dc_ConnectionString = [], dc_ConnectionStringRef = [], dc_Driver = [], dc_MaxOpenConns = 0, dc_MaxIdleConns = 0,
        dc_ConnMaxLifetime = 0, dc_ConnMaxIdleTime = 0, dc_ConnectTimeout = 0\<rparr>,
      do_resolved = \<lparr>rs_ConnString = [], rs_Driver = DriverPostgres\<rparr>, do_Transaction = tx, do_OnError = st,
      do_sqlQuery = demo_query ''x'' [] DriverPostgres, do_timeout = 0\<rparr>"

lemma demo_out_Build: "out_Build demo_dbout_world (demo_dbout tx st) r = Inr (''x'', [])"
proof -
  have "sql_pieces ''x'' = [SText ''x'']" by (simp add: sql_pieces.simps sqlToken_def)
  moreover have "contains_sub ''{{'' ''x'' = False" "contains_sub ''}}'' ''x'' = False" by code_simp+
  ultimately show ?thesis
    by (simp add: out_Build_def Build_def BuildDescribed_bound demo_dbout_world_def demo_dbout_def demo_render bound_query_def
        piece_refs_def show_piece_def)
qed

lemma demo_connected: "out_conn_error \<lparr>oc_open = True, oc_closed = False\<rparr> = None"
  by (simp add: out_conn_error_def)

theorem database_send_accounting_witness:
  "\<exists>ops. snd (snd (snd (snd (dbout_Send demo_dbout_world (demo_dbout False OnErrorSkip) [None, None, None]
       \<lparr>oc_open = True, oc_closed = False\<rparr> ([], [], []))))) = ops
     \<and> send_history demo_dbout_world (demo_dbout False OnErrorSkip) [None, None, None] 2 None ops"
proof -
  let ?c = "\<lparr>oc_open = True, oc_closed = False\<rparr>" and ?d = "demo_dbout False OnErrorSkip"
  have r: "records_execs (ow_pool demo_dbout_world) (\<lambda>h. snd (snd h))"
    by (auto simp: records_execs_def demo_dbout_world_def demo_pool_def demo_exec_def)
  have tol: "handleDatabaseError ?d e q n = Inr False" for e q n by (simp add: handleDatabaseError_def demo_dbout_def)
  have no_tx: "do_Transaction ?d = False" by (simp add: demo_dbout_def)
  have x: "sp_exec (ow_pool demo_dbout_world) = demo_exec" by (simp add: demo_dbout_world_def demo_pool_def)
  have p: "processRecordWithoutTransaction demo_dbout_world ?d ?c None (dn, pend, hist)
      = (if length hist = 1 then (Inr False, dn, pend, hist @ [(''x'', [], False)])
         else (Inr True, dn, pend @ [(''x'', [])], hist @ [(''x'', [], True)]))" for dn pend hist
    by (simp add: processRecordWithoutTransaction_def demo_out_Build demo_connected tol x demo_exec_def)
  have run: "dbout_Send demo_dbout_world ?d [None, None, None] ?c ([], [], [])
      = ((2, None), ?c, [], [(''x'', []), (''x'', [])], [(''x'', [], True), (''x'', [], False), (''x'', [], True)])"
    by (simp add: dbout_Send_def out_Connect_def sendWithoutTransaction_def p no_tx)
  have "\<not> do_Transaction ?d" by (simp add: demo_dbout_def)
  from database_send_accounting [OF r this _ _ run] run show ?thesis by simp
qed

theorem database_transaction_atomic_witness:
  "\<exists>err h'. snd (snd (dbout_Send demo_dbout_world (demo_dbout True OnErrorFail) [None, None]
       \<lparr>oc_open = True, oc_closed = False\<rparr> ([], [], []))) = h'
     \<and> fst (dbout_Send demo_dbout_world (demo_dbout True OnErrorFail) [None, None] \<lparr>oc_open = True, oc_closed = False\<rparr> ([], [], []))
         = (1, Some err) \<and> fst h' = []"
proof -
  let ?c = "\<lparr>oc_open = True, oc_closed = False\<rparr>" and ?d = "demo_dbout True OnErrorFail"
  have t: "transactional (ow_pool demo_dbout_world) fst (\<lambda>h. fst (snd h))"
    by (auto simp: transactional_def demo_dbout_world_def demo_pool_def demo_exec_def split: if_splits)
  have p: "do_Transaction ?d" "oc_open ?c" "\<not> oc_closed ?c" "\<not> tolerates ?d"
    by (simp_all add: demo_dbout_def tolerates_def)
  have steps: "sp_begin (ow_pool demo_dbout_world) ([], [], []) = (None, [], [], [])"
    "sp_tx_exec (ow_pool demo_dbout_world) ''x'' [] ([], [], []) = (None, [], [(''x'', [])], [(''x'', [], True)])"
    "sp_tx_exec (ow_pool demo_dbout_world) ''x'' [] ([], [(''x'', [])], [(''x'', [], True)])
       = (Some (plain_error ''syntax error''), [], [(''x'', [])], [(''x'', [], True), (''x'', [], False)])"
    by (simp_all add: demo_dbout_world_def demo_pool_def demo_exec_def)
  obtain err where e: "fst (dbout_Send demo_dbout_world ?d [None, None] ?c ([], [], [])) = (1, Some err)"
    using rolled_back_records_counted [OF p demo_out_Build demo_out_Build steps] by blast
  obtain c' h' where run: "dbout_Send demo_dbout_world ?d [None, None] ?c ([], [], []) = ((1, Some err), c', h')"
    using e by (metis prod.collapse)
  have "sp_commit (ow_pool demo_dbout_world) h2 \<noteq> (Some e, h')" for h2 e
    by (cases h2) (simp add: demo_dbout_world_def demo_pool_def)
  with database_transaction_atomic [OF t p(1,2) run] have "fst h' = []" by simp
  with e run show ?thesis by simp
qed

end
