(* ===== verification/CanonicalJson.thy ===== *)
theory CanonicalJson
  imports RecordPath "HOL-Library.List_Lexorder" "HOL-Library.Char_ord"
begin

text \<open>
  The deterministic JSON of a record, \<open>marshalDeterministic\<close>, \<open>canonicalize\<close> and
  \<open>orderedMap\<close> of \<open>src/internal/modules/filter/sql_call.go\<close>: every map becomes the list of its
  entries in the order of the keys. \<open>json.Marshal\<close> of a scalar is a parameter, since its texts
  for numbers and strings belong to the standard library; arrays and ordered maps are written
  out. A \<open>Marshaler\<close> error is wrapped in Go; only whether there is one matters to the caller.
\<close>

subsection \<open>The encoding\<close>

datatype canon = CLeaf gval | CArr "canon list" | CMap "(string \<times> canon) list"

primrec canonicalize :: "gval \<Rightarrow> canon" where
  "canonicalize GNil = CLeaf GNil"
| "canonicalize (GBool b) = CLeaf (GBool b)"
| "canonicalize (GInt i) = CLeaf (GInt i)"
| "canonicalize (GFloat f) = CLeaf (GFloat f)"
| "canonicalize (GStr s) = CLeaf (GStr s)"
| "canonicalize (GOther t s) = CLeaf (GOther t s)"
| "canonicalize (GArr xs) = CArr (map canonicalize xs)"
| "canonicalize (GMap m) =
     (let m' = (\<lambda>k. map_option canonicalize (m k))
      in CMap (map (\<lambda>k. (k, the (m' k))) (sorted_list_of_set (dom m'))))"

fun all_texts :: "('e + string) list \<Rightarrow> 'e + string list" where
  "all_texts [] = Inr []"
| "all_texts (Inl e # ts) = Inl e"
| "all_texts (Inr t # ts) = (case all_texts ts of Inl e \<Rightarrow> Inl e | Inr us \<Rightarrow> Inr (t # us))"

definition orderedMap_MarshalJSON :: "(gval \<Rightarrow> 'e + string) \<Rightarrow> (string \<times> ('e + string)) list \<Rightarrow> 'e + string" where
  "orderedMap_MarshalJSON leaf m =
     (case all_texts (map (\<lambda>(k, val). case leaf (GStr k) of
                                        Inl err \<Rightarrow> Inl err
                                      | Inr key \<Rightarrow> (case val of Inl err \<Rightarrow> Inl err | Inr v \<Rightarrow> Inr (key @ '':'' @ v))) m) of
        Inl err \<Rightarrow> Inl err
      | Inr entries \<Rightarrow> Inr (''{'' @ join_with (CHR '','') entries @ ''}''))"

primrec json_Marshal :: "(gval \<Rightarrow> 'e + string) \<Rightarrow> canon \<Rightarrow> 'e + string" where
  "json_Marshal leaf (CLeaf v) = leaf v"
| "json_Marshal leaf (CArr cs) =
     (case all_texts (map (json_Marshal leaf) cs) of
        Inl err \<Rightarrow> Inl err
      | Inr ts \<Rightarrow> Inr (''['' @ join_with (CHR '','') ts @ '']''))"
| "json_Marshal leaf (CMap kvs) = orderedMap_MarshalJSON leaf (map (map_prod id (json_Marshal leaf)) kvs)"

definition marshalDeterministic :: "(gval \<Rightarrow> 'e + string) \<Rightarrow> grecord \<Rightarrow> 'e + string" where
  "marshalDeterministic leaf r = json_Marshal leaf (canonicalize (GMap r))"

subsection \<open>One text, one value\<close>

text \<open>
  What JSON promises of its tokens: in front of a separator or the end, the text of a scalar
  tells the scalar, for the scalars of a set \<open>L\<close> (the integer 1 and the float 1 share a text, so
  they are not both in \<open>L\<close>), and it does not start like a list or a map.
\<close>

definition ends_token :: "string \<Rightarrow> bool" where
  "ends_token a \<longleftrightarrow> a = [] \<or> hd a \<in> set '',:]}''"

definition tells_scalars :: "gval set \<Rightarrow> (gval \<Rightarrow> 'e + string) \<Rightarrow> bool" where
  "tells_scalars L leaf \<longleftrightarrow>
     (\<forall>v \<in> L. \<forall>s. leaf v = Inr s \<longrightarrow> s \<noteq> [] \<and> hd s \<notin> set ''{[]},''
        \<and> (\<forall>w \<in> L. \<forall>t a b. leaf w = Inr t \<longrightarrow> ends_token a \<longrightarrow> ends_token b \<longrightarrow> s @ a = t @ b \<longrightarrow> v = w))"

primrec canon_over :: "gval set \<Rightarrow> canon \<Rightarrow> bool" where
  "canon_over L (CLeaf v) \<longleftrightarrow> v \<in> L"
| "canon_over L (CArr cs) \<longleftrightarrow> list_all id (map (canon_over L) cs)"
| "canon_over L (CMap kvs) \<longleftrightarrow> list_all (\<lambda>kv. GStr (fst kv) \<in> L \<and> snd kv) (map (map_prod id (canon_over L)) kvs)"

primrec value_over :: "gval set \<Rightarrow> gval \<Rightarrow> bool" where
  "value_over L GNil \<longleftrightarrow> GNil \<in> L"
| "value_over L (GBool b) \<longleftrightarrow> GBool b \<in> L"
| "value_over L (GInt i) \<longleftrightarrow> GInt i \<in> L"
| "value_over L (GFloat f) \<longleftrightarrow> GFloat f \<in> L"
| "value_over L (GStr s) \<longleftrightarrow> GStr s \<in> L"
| "value_over L (GOther t s) \<longleftrightarrow> GOther t s \<in> L"
| "value_over L (GArr xs) \<longleftrightarrow> list_all id (map (value_over L) xs)"
| "value_over L (GMap m) \<longleftrightarrow> (let m' = (\<lambda>k. map_option (value_over L) (m k))
                          in finite (dom m') \<and> (\<forall>k \<in> dom m'. GStr k \<in> L) \<and> False \<notin> ran m')"

lemma value_over_map:
  "value_over L (GMap m) \<longleftrightarrow> finite (dom m) \<and> (\<forall>k v. m k = Some v \<longrightarrow> GStr k \<in> L \<and> value_over L v)"
  by (auto simp: Let_def dom_map_option_comp ran_def dom_def)

lemma canonicalize_map:
  "canonicalize (GMap m) = CMap (map (\<lambda>k. (k, canonicalize (the (m k)))) (sorted_list_of_set (dom m)))"
  if "finite (dom m)"
proof -
  have d: "dom (\<lambda>k. map_option canonicalize (m k)) = dom m" by (auto simp: dom_def)
  show ?thesis using that by (auto simp: Let_def d)
qed

lemma canonicalize_over: "value_over L v \<Longrightarrow> canon_over L (canonicalize v)"
proof (induction v)
  case (GArr xs)
  then show ?case by (auto simp: list_all_iff)
next
  case (GMap m)
  then have "finite (dom m)" by (simp only: value_over_map)
  then show ?case using GMap
    by (fastforce simp only: canonicalize_map canon_over.simps value_over_map list_all_iff image_iff set_map
        set_sorted_list_of_set map_map comp_def dom_def ran_def mem_Collect_eq fst_conv snd_conv map_prod_def split_def id_def
        option.sel range_eqI option.set_intros)
qed simp_all

lemma canonicalize_inj:
  "canonicalize v = canonicalize w \<Longrightarrow> value_over L v \<Longrightarrow> value_over L w \<Longrightarrow> v = w"
proof (induction v arbitrary: w)
  case (GArr xs)
  from GArr.prems(1) obtain ys where w: "w = GArr ys" by (cases w) (auto simp: Let_def)
  from GArr.prems w have eqs: "map canonicalize xs = map canonicalize ys" "\<forall>x \<in> set xs. value_over L x" "\<forall>y \<in> set ys. value_over L y"
    by (auto simp: list_all_iff)
  from eqs(1) have len: "length xs = length ys" by (rule map_eq_imp_length_eq)
  have "xs = ys"
  proof (rule nth_equalityI [OF len])
    fix i assume i: "i < length xs"
    with eqs(1) len have "canonicalize (xs ! i) = canonicalize (ys ! i)" by (metis nth_map)
    with GArr.IH [of "xs ! i" "ys ! i"] eqs(2,3) i len show "xs ! i = ys ! i" by simp
  qed
  with w show ?case by simp
next
  case (GMap m)
  from GMap.prems(1) obtain n where w: "w = GMap n" by (cases w) (auto simp: Let_def)
  from GMap.prems w have fin: "finite (dom m)" "finite (dom n)" by (simp_all only: value_over_map)
  from GMap.prems(1) w have eq: "map (\<lambda>k. (k, canonicalize (the (m k)))) (sorted_list_of_set (dom m))
      = map (\<lambda>k. (k, canonicalize (the (n k)))) (sorted_list_of_set (dom n))"
    by (simp only: canonicalize_map [OF fin(1)] canonicalize_map [OF fin(2)] canon.inject)
  from arg_cong [OF eq, of "map fst"] have "sorted_list_of_set (dom m) = sorted_list_of_set (dom n)"
    by (simp add: comp_def)
  with fin have dom: "dom m = dom n" by (metis set_sorted_list_of_set)
  have "m k = n k" for k
  proof (cases "m k")
    case None
    with dom show ?thesis by (metis domIff)
  next
    case (Some x)
    with dom obtain y where y: "n k = Some y" by (metis domD domI)
    have "k \<in> set (sorted_list_of_set (dom m))" using fin Some by (simp add: domI)
    with eq dom have "canonicalize (the (m k)) = canonicalize (the (n k))" by (auto simp: map_eq_conv)
    with Some y have "canonicalize x = canonicalize y" by simp
    with GMap.IH [of "m k" x y] GMap.prems(2,3) w Some y have "x = y" by (auto simp only: value_over_map) (metis option.set_intros rangeI)
    with Some y show ?thesis by simp
  qed
  with w show ?case by (simp add: fun_eq_iff)
next
  case GNil then show ?case by (cases w) (auto simp: Let_def)
next
  case (GBool b) then show ?case by (cases w) (auto simp: Let_def)
next
  case (GInt b) then show ?case by (cases w) (auto simp: Let_def)
next
  case (GFloat b) then show ?case by (cases w) (auto simp: Let_def)
next
  case (GStr b) then show ?case by (cases w) (auto simp: Let_def)
next
  case (GOther b c) then show ?case by (cases w) (auto simp: Let_def)
qed


text \<open>Texts separated by commas and closed by a bracket can be told apart one by one.\<close>

lemma join_with_Cons: "join_with c (t # ts) = t @ concat (map (Cons c) ts)"
  by (induction ts arbitrary: t) simp_all

lemma all_texts_Inr: "all_texts rs = Inr ts \<longleftrightarrow> rs = map Inr ts"
proof (induction rs arbitrary: ts)
  case (Cons r rs)
  show ?case
  proof (cases r)
    case (Inr t)
    then show ?thesis by (cases "all_texts rs"; cases ts) (simp_all add: Cons.IH [symmetric] eq_commute)
  qed auto
qed auto

lemma ends_tokenI [simp]: "c \<in> set '',:]}'' \<Longrightarrow> ends_token (c # a)"
  by (simp add: ends_token_def)

text \<open>\<open>reads R X Y\<close>: the texts \<open>R\<close> gives to \<open>X\<close> and to \<open>Y\<close> determine them, wherever they stand.\<close>

definition reads :: "('x \<Rightarrow> 'e + string) \<Rightarrow> 'x \<Rightarrow> 'x \<Rightarrow> bool" where
  "reads R x y \<longleftrightarrow> (\<forall>s t a b. R x = Inr s \<longrightarrow> R y = Inr t \<longrightarrow> ends_token a \<longrightarrow> ends_token b \<longrightarrow> s @ a = t @ b \<longrightarrow> x = y \<and> a = b)"

lemma readsD: "\<lbrakk>reads R x y; R x = Inr s; R y = Inr t; s @ a = t @ b; ends_token a; ends_token b\<rbrakk> \<Longrightarrow> x = y \<and> a = b"
  unfolding reads_def by blast

lemma joined_tail:
  assumes "map R xs = map Inr ss" "map R ys = map Inr ts"
    and "concat (map (Cons (CHR '','')) ss) @ close # a = concat (map (Cons (CHR '','')) ts) @ close # b"
    and "\<And>x y. x \<in> set xs \<Longrightarrow> y \<in> set ys \<Longrightarrow> reads R x y" "close \<in> set '']}''"
  shows "xs = ys \<and> a = b"
  using assms
proof (induction xs arbitrary: ss ys ts)
  case Nil
  then show ?case by (cases ts) auto
next
  case (Cons x xs)
  then obtain s ss' where ss: "ss = s # ss'" "R x = Inr s" "map R xs = map Inr ss'" by (cases ss) auto
  from Cons.prems ss obtain t ts' where ts: "ts = t # ts'" by (cases ts) auto
  with Cons.prems(2) obtain y ys' where ys: "ys = y # ys'" "R y = Inr t" "map R ys' = map Inr ts'" by (cases ys) auto
  have rest: "ends_token (concat (map (Cons (CHR '','')) us) @ close # c)" for us c
    using Cons.prems(5) by (cases us) auto
  from Cons.prems(3) ss ts have "s @ (concat (map (Cons (CHR '','')) ss') @ close # a)
      = t @ (concat (map (Cons (CHR '','')) ts') @ close # b)" by simp
  from readsD [OF Cons.prems(4) ss(2) ys(2) this rest rest] ys
  have "x = y" "concat (map (Cons (CHR '','')) ss') @ close # a = concat (map (Cons (CHR '','')) ts') @ close # b" by auto
  with Cons.IH [OF ss(3) ys(3)] Cons.prems(4,5) ys show ?case by auto
qed

lemma joined:
  assumes "map R xs = map Inr ss" "map R ys = map Inr ts"
    and "join_with (CHR '','') ss @ close # a = join_with (CHR '','') ts @ close # b"
    and "\<And>x y. x \<in> set xs \<Longrightarrow> y \<in> set ys \<Longrightarrow> reads R x y" "close \<in> set '']}''"
    and "\<And>s. s \<in> set ss \<union> set ts \<Longrightarrow> s \<noteq> [] \<and> hd s \<notin> set '']}''"
  shows "xs = ys \<and> a = b"
proof (cases ss)
  case Nil
  have "ts = []"
  proof (rule ccontr)
    assume "ts \<noteq> []"
    then obtain t ts' where ts: "ts = t # ts'" by (cases ts) auto
    with assms(6) have t: "t \<noteq> []" "hd t \<notin> set '']}''" by auto
    from arg_cong [OF assms(3), of hd] Nil ts t(1) have "close = hd t" by (simp add: join_with_Cons)
    with t(2) assms(5) show False by simp
  qed
  with Nil assms show ?thesis by simp
next
  case (Cons s ss')
  have "ts \<noteq> []"
  proof
    assume ts: "ts = []"
    from Cons assms(6) have s: "s \<noteq> []" "hd s \<notin> set '']}''" by auto
    from arg_cong [OF assms(3), of hd] Cons ts s(1) have "close = hd s" by (simp add: join_with_Cons)
    with s(2) assms(5) show False by simp
  qed
  then obtain t ts' where ts: "ts = t # ts'" by (cases ts) auto
  with Cons assms(3) have "concat (map (Cons (CHR '','')) ss) @ close # a = concat (map (Cons (CHR '','')) ts) @ close # b"
    by (simp add: join_with_Cons)
  from joined_tail [OF assms(1,2) this assms(4,5)] show ?thesis by blast
qed

text \<open>How a text starts tells scalars, lists and maps apart.\<close>

lemma text_starts:
  assumes "tells_scalars L leaf" "canon_over L c" "json_Marshal leaf c = Inr s"
  shows "s \<noteq> []" and "hd s = (case c of CLeaf _ \<Rightarrow> hd s | CArr _ \<Rightarrow> CHR ''['' | CMap _ \<Rightarrow> CHR ''{'')"
    and "hd s \<notin> set '']},''" and "c = CLeaf v \<Longrightarrow> hd s \<notin> set ''{[''"
proof -
  have leaf: "s \<noteq> [] \<and> hd s \<notin> set ''{[]},''" if "c = CLeaf v" for v
  proof -
    from assms(2,3) that have "v \<in> L" "leaf v = Inr s" by simp_all
    then show ?thesis using assms(1) unfolding tells_scalars_def by blast
  qed
  show "s \<noteq> []" "hd s = (case c of CLeaf _ \<Rightarrow> hd s | CArr _ \<Rightarrow> CHR ''['' | CMap _ \<Rightarrow> CHR ''{'')" "hd s \<notin> set '']},''"
    "c = CLeaf v \<Longrightarrow> hd s \<notin> set ''{[''"
    using assms(3) leaf by (cases c; force simp: orderedMap_MarshalJSON_def split: sum.splits)+
qed

lemma reads_leaf: "tells_scalars L leaf \<Longrightarrow> v \<in> L \<Longrightarrow> w \<in> L \<Longrightarrow> reads leaf v w"
  unfolding reads_def tells_scalars_def by (metis Inr_inject append_same_eq same_append_eq)


definition entry_text :: "(gval \<Rightarrow> 'e + string) \<Rightarrow> string \<times> canon \<Rightarrow> 'e + string" where
  "entry_text leaf kv =
     (case leaf (GStr (fst kv)) of
        Inl err \<Rightarrow> Inl err
      | Inr key \<Rightarrow> (case json_Marshal leaf (snd kv) of Inl err \<Rightarrow> Inl err | Inr v \<Rightarrow> Inr (key @ '':'' @ v)))"

lemma json_Marshal_CMap:
  "json_Marshal leaf (CMap kvs) =
     (case all_texts (map (entry_text leaf) kvs) of
        Inl err \<Rightarrow> Inl err | Inr ts \<Rightarrow> Inr (''{'' @ join_with (CHR '','') ts @ ''}''))"
proof -
  have "map (\<lambda>(k, val). case leaf (GStr k) of
                          Inl err \<Rightarrow> Inl err
                        | Inr key \<Rightarrow> (case val of Inl err \<Rightarrow> Inl err | Inr v \<Rightarrow> Inr (key @ '':'' @ v)))
      (map (map_prod id (json_Marshal leaf)) kvs) = map (entry_text leaf) kvs"
    by (auto simp: entry_text_def split: sum.splits)
  then show ?thesis by (simp only: json_Marshal.simps orderedMap_MarshalJSON_def)
qed

lemma json_CMapD:
  "json_Marshal leaf (CMap kvs) = Inr s
   \<Longrightarrow> \<exists>ss. all_texts (map (entry_text leaf) kvs) = Inr ss \<and> s = CHR ''{'' # join_with (CHR '','') ss @ ''}''"
  unfolding json_Marshal_CMap by (cases "all_texts (map (entry_text leaf) kvs)") simp_all

lemma entry_textD:
  "entry_text leaf kv = Inr s \<Longrightarrow> \<exists>key v. leaf (GStr (fst kv)) = Inr key \<and> json_Marshal leaf (snd kv) = Inr v \<and> s = key @ '':'' @ v"
  by (auto simp: entry_text_def split: sum.splits)

lemma reads_entry:
  assumes "tells_scalars L leaf" "GStr k \<in> L" "GStr k' \<in> L" "reads (json_Marshal leaf) c c'"
  shows "reads (entry_text leaf) (k, c) (k', c')"
  unfolding reads_def
proof (intro allI impI)
  fix s t a b
  assume R: "entry_text leaf (k, c) = Inr s" "entry_text leaf (k', c') = Inr t" and e: "ends_token a" "ends_token b"
    and eq: "s @ a = t @ b"
  from entry_textD [OF R(1)] obtain ks v where s: "leaf (GStr k) = Inr ks" "json_Marshal leaf c = Inr v" "s = ks @ '':'' @ v" by auto
  from entry_textD [OF R(2)] obtain kt w where t: "leaf (GStr k') = Inr kt" "json_Marshal leaf c' = Inr w" "t = kt @ '':'' @ w" by auto
  from eq s t have "ks @ (CHR '':'' # v @ a) = kt @ (CHR '':'' # w @ b)" by simp
  from readsD [OF reads_leaf [OF assms(1-3)] s(1) t(1) this] have k: "k = k'" "v @ a = w @ b" by auto
  from readsD [OF assms(4) s(2) t(2) k(2) e] k(1) show "(k, c) = (k', c') \<and> a = b" by simp
qed

lemma reads_bracketed:
  assumes R: "\<And>x y. x \<in> set xs \<Longrightarrow> y \<in> set ys \<Longrightarrow> reads R x y"
    and starts: "\<And>x s. x \<in> set xs \<union> set ys \<Longrightarrow> R x = Inr s \<Longrightarrow> s \<noteq> [] \<and> hd s \<notin> set '']}''"
    and texts: "all_texts (map R xs) = Inr ss" "all_texts (map R ys) = Inr ts" and close: "close \<in> set '']}''"
    and eq: "(bracket # join_with (CHR '','') ss @ [close]) @ a = (bracket # join_with (CHR '','') ts @ [close]) @ b"
  shows "xs = ys \<and> a = b"
proof (rule joined [OF texts [unfolded all_texts_Inr]])
  show "join_with (CHR '','') ss @ close # a = join_with (CHR '','') ts @ close # b" using eq by simp
  show "reads R x y" if "x \<in> set xs" "y \<in> set ys" for x y using that by (rule R)
  show "close \<in> set '']}''" by (rule close)
  show "s \<noteq> [] \<and> hd s \<notin> set '']}''" if "s \<in> set ss \<union> set ts" for s
  proof -
    from that have "Inr s \<in> set (map R xs) \<union> set (map R ys)" unfolding texts [unfolded all_texts_Inr] by auto
    then obtain x where "x \<in> set xs \<union> set ys" "R x = Inr s" by (auto dest: sym)
    then show ?thesis by (rule starts)
  qed
qed

lemma reads_CLeaf: "reads (json_Marshal leaf) (CLeaf v) (CLeaf w) \<longleftrightarrow> reads leaf v w"
  unfolding reads_def json_Marshal.simps canon.inject by (rule refl)

lemma json_reads:
  assumes tells: "tells_scalars L leaf"
  shows "canon_over L c \<Longrightarrow> canon_over L c' \<Longrightarrow> reads (json_Marshal leaf) c c'"
proof (induction c arbitrary: c')
  case (CLeaf v)
  show ?case
  proof (cases c')
    case (CLeaf w)
    with CLeaf.prems reads_leaf [OF tells, of v w] show ?thesis by (simp add: reads_CLeaf)
  next
    case other: (CArr ds)
    show ?thesis unfolding reads_def
    proof (intro allI impI)
      fix s t a b
      assume *: "json_Marshal leaf (CLeaf v) = Inr s" "json_Marshal leaf c' = Inr t" "s @ a = t @ b"
      from text_starts [OF tells CLeaf.prems(1) *(1)] text_starts [OF tells CLeaf.prems(2) *(2)] *(3) other
      show "CLeaf v = c' \<and> a = b" by (cases s; cases t) auto
    qed
  next
    case other: (CMap ds)
    show ?thesis unfolding reads_def
    proof (intro allI impI)
      fix s t a b
      assume *: "json_Marshal leaf (CLeaf v) = Inr s" "json_Marshal leaf c' = Inr t" "s @ a = t @ b"
      from text_starts [OF tells CLeaf.prems(1) *(1)] text_starts [OF tells CLeaf.prems(2) *(2)] *(3) other
      show "CLeaf v = c' \<and> a = b" by (cases s; cases t) auto
    qed
  qed
next
  case (CArr cs)
  show ?case unfolding reads_def
  proof (intro allI impI)
    fix s t a b
    assume *: "json_Marshal leaf (CArr cs) = Inr s" "json_Marshal leaf c' = Inr t" "s @ a = t @ b"
    note starts = text_starts [OF tells CArr.prems(1) *(1)] text_starts [OF tells CArr.prems(2) *(2)]
    obtain ds where c': "c' = CArr ds" using starts *(3) by (cases c'; cases s; cases t) auto
    from *(1) obtain ss where s: "all_texts (map (json_Marshal leaf) cs) = Inr ss" "s = CHR ''['' # join_with (CHR '','') ss @ '']''"
      by (auto split: sum.splits)
    from *(2) c' obtain ts where t: "all_texts (map (json_Marshal leaf) ds) = Inr ts" "t = CHR ''['' # join_with (CHR '','') ts @ '']''"
      by (auto split: sum.splits)
    have over: "canon_over L x" if "x \<in> set cs \<union> set ds" for x
      using CArr.prems c' that by (auto simp: list_all_iff)
    have "cs = ds \<and> a = b"
      using *(3) s t CArr.IH over text_starts(1,3) [OF tells over]
      by (intro reads_bracketed [OF _ _ s(1) t(1), where close = "CHR '']''" and bracket = "CHR ''[''"]) auto
    with c' show "CArr cs = c' \<and> a = b" by simp
  qed
next
  case (CMap kvs)
  show ?case unfolding reads_def
  proof (intro allI impI)
    fix s t a b
    assume *: "json_Marshal leaf (CMap kvs) = Inr s" "json_Marshal leaf c' = Inr t" "s @ a = t @ b"
    note starts = text_starts [OF tells CMap.prems(1) *(1)] text_starts [OF tells CMap.prems(2) *(2)]
    obtain kws where c': "c' = CMap kws" using starts *(3) by (cases c'; cases s; cases t) auto
    from json_CMapD [OF *(1)] obtain ss
      where s: "all_texts (map (entry_text leaf) kvs) = Inr ss" "s = CHR ''{'' # join_with (CHR '','') ss @ ''}''" by blast
    from json_CMapD [OF *(2) [unfolded c']] obtain ts
      where t: "all_texts (map (entry_text leaf) kws) = Inr ts" "t = CHR ''{'' # join_with (CHR '','') ts @ ''}''" by blast
    have over: "GStr (fst x) \<in> L" "canon_over L (snd x)" if "x \<in> set kvs \<union> set kws" for x
      using CMap.prems c' that by (auto simp: list_all_iff)
    have rd: "reads (entry_text leaf) x y" if "x \<in> set kvs" "y \<in> set kws" for x y
    proof -
      have "reads (json_Marshal leaf) (snd x) (snd y)" using CMap.IH [of x "snd x" "snd y"] over [of x] over(2) [of y] that by (cases x) auto
      from reads_entry [OF tells _ _ this, of "fst x" "fst y"] over that show ?thesis by simp
    qed
    have st: "u \<noteq> [] \<and> hd u \<notin> set '']}''" if x: "x \<in> set kvs \<union> set kws" "entry_text leaf x = Inr u" for x u
    proof -
      from entry_textD [OF x(2)] obtain key v where "leaf (GStr (fst x)) = Inr key" "u = key @ '':'' @ v" by auto
      with tells over(1) [OF x(1)] show ?thesis unfolding tells_scalars_def by fastforce
    qed
    have "kvs = kws \<and> a = b"
      using *(3) s t by (intro reads_bracketed [OF rd st s(1) t(1), where close = "CHR ''}''" and bracket = "CHR ''{''"]) auto
    with c' show "CMap kvs = c' \<and> a = b" by simp
  qed
qed

text \<open>The deterministic JSON of a record identifies it.\<close>

lemma marshalDeterministic_inj:
  assumes "tells_scalars L leaf" "value_over L (GMap r)" "value_over L (GMap r')"
    and "marshalDeterministic leaf r = Inr s" "marshalDeterministic leaf r' = Inr s"
  shows "r = r'"
proof -
  have "ends_token []" by (simp add: ends_token_def)
  with readsD [OF json_reads [OF assms(1) canonicalize_over canonicalize_over], OF assms(2,3)
      assms(4,5) [unfolded marshalDeterministic_def] refl, of "[]"]
  have "canonicalize (GMap r) = canonicalize (GMap r')" by simp
  from canonicalize_inj [OF this assms(2,3)] show ?thesis by simp
qed

end
