(* ===== verification/SqlCall.thy ===== *)
theory SqlCall
  imports DatabaseOutput CanonicalJson LruCache CallMerge
begin

text \<open>
  The sql_call filter, \<open>src/internal/modules/filter/sql_call.go\<close>: one query per record, memoized
  in the LRU cache under a key made of the query and the record, its first row folded into the
  record. The pool of the driver, the clock, \<open>json.Marshal\<close> of scalars and the text of a time
  are parameters. A nil record reads as an empty map, as in \<open>HttpCall\<close>.
\<close>

subsection \<open>Configuration\<close>

record CacheConfig =
  cch_Enabled :: bool
  cch_MaxSize :: int
  cch_TTLSeconds :: int
  cch_Key :: string

record SQLCallConfig =
  qc_OnError :: string
  qc_Base :: SQLRequestBase
  qc_MergeStrategy :: string
  qc_ResultKey :: string
  qc_Cache :: CacheConfig

record ('t, 'p) SQLCallModule =
  sc_driver :: string
  sc_query :: string
  sc_sqlQuery :: "('t, 'p) Query"
  sc_mergeStrategy :: string
  sc_resultKey :: string
  sc_onError :: strategy
  sc_cacheEnabled :: bool
  sc_cacheTTL :: int
  sc_cacheKey :: string
  sc_timeout :: int

text \<open>What the filter shares with others: the database, its cache, the template engine.\<close>

record ('h, 't) sql_call_state =
  qs_db :: 'h
  qs_cache :: "grecord LRUCache"
  qs_engine :: "'t Engine"

record ('h, 't, 'p) sql_call_world =
  sw_ReadFile :: "string \<Rightarrow> gerr + string"
  sw_Getenv :: "string \<Rightarrow> string"
  sw_driver :: "'h sql_driver"
  sw_gonja :: "'t gonja"
  sw_expr :: "'p expr_engine"
  sw_query :: "string \<Rightarrow> gval list \<Rightarrow> 'h \<Rightarrow> (gerr + sql_rows) \<times> 'h"
  sw_time_text :: "int \<Rightarrow> string"
  sw_json :: "gval \<Rightarrow> gerr + string"
  sw_url :: url_env
  sw_done :: "'h \<Rightarrow> gerr option"
  sw_clock :: "'h \<Rightarrow> int"
  sw_order :: "grecord LRUCache \<Rightarrow> string list"

datatype sql_call_error =
    CallConfig gerr | CallQueryFile dbin_error | CallContract contract_error | CallCacheKey gerr
  | CallOnError strategy_error | CallConnection db_error | CallQuery gerr

definition defaultSQLCallTimeout :: int where "defaultSQLCallTimeout = 30 * 10 ^ 9"
definition defaultSQLCallCacheSize :: int where "defaultSQLCallCacheSize = 1000"
definition defaultSQLCallCacheTTL :: int where "defaultSQLCallCacheTTL = 300"

definition setupCache :: "CacheConfig \<Rightarrow> grecord LRUCache option \<times> int \<times> bool" where
  "setupCache c =
     (if \<not> cch_Enabled c then (None, 0, False)
      else (let cacheSize = (if cch_MaxSize c \<le> 0 then defaultSQLCallCacheSize else cch_MaxSize c);
                cacheTTLSeconds = (if cch_TTLSeconds c \<le> 0 then defaultSQLCallCacheTTL else cch_TTLSeconds c);
                cacheTTL = wrap64 (cacheTTLSeconds * 10 ^ 9)
            in (Some (NewLRUCache cacheSize cacheTTL), cacheTTL, True)))"

text \<open>The file of the query is read as in \<open>DatabaseInput\<close>, in the same order with the same checks.\<close>

definition loadQueryFromFile :: "(string \<Rightarrow> gerr + string) \<Rightarrow> SQLCallConfig \<Rightarrow> sql_call_error + SQLCallConfig" where
  "loadQueryFromFile readFile config =
     (case load_query readFile (qc_Base config) of
        Inl err \<Rightarrow> Inl (CallQueryFile err)
      | Inr query \<Rightarrow> Inr (config\<lparr>qc_Base := (qc_Base config)\<lparr>sb_Query := query\<rparr>\<rparr>))"

definition createDatabaseConnection ::
  "('h, 't, 'p) sql_call_world \<Rightarrow> SQLCallConfig \<Rightarrow> int \<Rightarrow> 'h \<Rightarrow> (sql_call_error + string) \<times> 'h" where
  "createDatabaseConnection w config timeout h =
     (case Open (sw_Getenv w) (sw_driver w) (db_config (qc_Base config) timeout) h of
        (Inl err, h) \<Rightarrow> (Inl (CallConnection err), h)
      | (Inr driver, h) \<Rightarrow> (Inr driver, h))"

text \<open>The module is returned with its cache; a disabled cache is nil, here an empty one nobody reads.\<close>

definition NewSQLCallFromConfig ::
  "('h, 't, 'p) sql_call_world \<Rightarrow> SQLCallConfig \<Rightarrow> 't Engine \<Rightarrow> 'h
   \<Rightarrow> (sql_call_error + (('t, 'p) SQLCallModule \<times> grecord LRUCache option)) \<times> 't Engine \<times> 'h" where
  "NewSQLCallFromConfig w config e h =
     (case SQLRequestBase_Validate (qc_Base config) of
        Some err \<Rightarrow> (Inl (CallConfig err), e, h)
      | None \<Rightarrow>
     (case loadQueryFromFile (sw_ReadFile w) config of
        Inl err \<Rightarrow> (Inl err, e, h)
      | Inr config \<Rightarrow>
     (case resolveCallMergeContract ''sql_call'' (qc_MergeStrategy config) (qc_ResultKey config) of
        Inl err \<Rightarrow> (Inl (CallContract err), e, h)
      | Inr (mergeStrategy, resultKey) \<Rightarrow>
     (case (if cch_Key (qc_Cache config) \<noteq> []
            then Engine_Validate (sw_gonja w) e (cch_Key (qc_Cache config)) TargetText False else (None, e)) of
        (Some err, e) \<Rightarrow> (Inl (CallCacheKey err), e, h)
      | (None, e) \<Rightarrow>
     (case ParseOnErrorStrategy (qc_OnError config) of
        Inl err \<Rightarrow> (Inl (CallOnError err), e, h)
      | Inr onError \<Rightarrow>
          (let timeout = GetTimeoutDuration (sb_TimeoutMs (qc_Base config)) defaultSQLCallTimeout
           in case createDatabaseConnection w config timeout h of
                (Inl err, h) \<Rightarrow> (Inl err, e, h)
              | (Inr driver, h) \<Rightarrow>
                  (case sql_Compile (sw_gonja w) (sw_expr w) e (sb_Query (qc_Base config)) (sb_Parameters (qc_Base config)) driver of
                     (Inl err, e) \<Rightarrow> (Inl (CallQuery err), e, snd (sd_close (sw_driver w) h))
                   | (Inr sqlQuery, e) \<Rightarrow>
                       (case setupCache (qc_Cache config) of
                          (cache, cacheTTL, cacheEnabled) \<Rightarrow>
                            (Inr (\<lparr>sc_driver = driver, sc_query = sb_Query (qc_Base config), sc_sqlQuery = sqlQuery,
                                   sc_mergeStrategy = mergeStrategy, sc_resultKey = resultKey, sc_onError = onError,
                                   sc_cacheEnabled = cacheEnabled, sc_cacheTTL = cacheTTL,
                                   sc_cacheKey = cch_Key (qc_Cache config), sc_timeout = timeout\<rparr>, cache), e, h)))))))))"

subsection \<open>The query\<close>

text \<open>Unlike the database input, the filter converts byte slices only; a time stays a \<open>time.Time\<close>.\<close>

definition call_value :: "(int \<Rightarrow> string) \<Rightarrow> sql_value \<Rightarrow> gval" where
  "call_value time_text v =
     (case v of SVNil \<Rightarrow> GNil | SVBytes b \<Rightarrow> GStr b | SVTime t \<Rightarrow> GOther ''time.Time'' (time_text t) | SVOther g \<Rightarrow> g)"

fun call_rows_loop :: "(int \<Rightarrow> string) \<Rightarrow> string list \<Rightarrow> (gerr + sql_value list) list \<Rightarrow> grecord list \<Rightarrow> gerr + grecord list" where
  "call_rows_loop time_text columns [] records = Inr records"
| "call_rows_loop time_text columns (row # rows) records =
     (case row of
        Inl err \<Rightarrow> Inl (errorf (''scanning row: '' @ err_text err) err)
      | Inr values \<Rightarrow>
          call_rows_loop time_text columns rows
            (records @ [foldl (\<lambda>r (col, v). r(col \<mapsto> call_value time_text v)) Map.empty (zip columns values)]))"

definition call_rowsToRecords :: "(int \<Rightarrow> string) \<Rightarrow> sql_rows \<Rightarrow> gerr + grecord list" where
  "call_rowsToRecords time_text rows =
     (case ro_Columns rows of
        Inl err \<Rightarrow> Inl (errorf (''getting column names: '' @ err_text err) err)
      | Inr columns \<Rightarrow>
          (case call_rows_loop time_text columns (ro_Rows rows) [] of
             Inl err \<Rightarrow> Inl err
           | Inr records \<Rightarrow>
               (case ro_Err rows of
                  Some err \<Rightarrow> Inl (errorf (''iterating rows: '' @ err_text err) err)
                | None \<Rightarrow> Inr records)))"

definition executeQuery ::
  "('h, 't, 'p) sql_call_world \<Rightarrow> ('t, 'p) SQLCallModule \<Rightarrow> grecord \<Rightarrow> 'h \<Rightarrow> (gerr + grecord) \<times> 'h" where
  "executeQuery w m record h =
     (case Build (sw_gonja w) (sw_expr w) (sc_sqlQuery m) (record_context (Some record)) of
        Inl err \<Rightarrow> (Inl (errorf (''building parameterized query: '' @ err_text err) err), h)
      | Inr (query, args) \<Rightarrow>
          (case sw_query w query args h of
             (Inl err, h) \<Rightarrow>
               (Inl (database_gerr (ClassifyDatabaseError err (sc_driver m) ''select'' query (int (length args)))), h)
           | (Inr rows, h) \<Rightarrow>
               (case call_rowsToRecords (sw_time_text w) rows of
                  Inl err \<Rightarrow> (Inl err, h)
                | Inr [] \<Rightarrow> (Inr Map.empty, h)
                | Inr (r # _) \<Rightarrow> (Inr r, h))))"

subsection \<open>One record\<close>

definition default_call_key :: "('h, 't, 'p) sql_call_world \<Rightarrow> ('t, 'p) SQLCallModule \<Rightarrow> grecord \<Rightarrow> string" where
  "default_call_key w m record =
     (case marshalDeterministic (sw_json w) record of
        Inl err \<Rightarrow> sc_query m
      | Inr recordJSON \<Rightarrow> sc_query m @ ''::'' @ recordJSON)"

definition sql_buildCacheKey ::
  "('h, 't, 'p) sql_call_world \<Rightarrow> ('t, 'p) SQLCallModule \<Rightarrow> grecord \<Rightarrow> 't Engine \<Rightarrow> string \<times> 't Engine" where
  "sql_buildCacheKey w m record e =
     (if sc_cacheKey m \<noteq> []
      then (case Engine_Compile (sw_gonja w) e (sc_cacheKey m) TargetText False of
              (Inl err, e) \<Rightarrow> (default_call_key w m record, e)
            | (Inr compiled, e) \<Rightarrow>
                (case Compiled_Render (sw_gonja w) compiled (context_Vars (record_context (Some record))) of
                   Inl err \<Rightarrow> (default_call_key w m record, e)
                 | Inr key \<Rightarrow> (key, e)))
      else (default_call_key w m record, e))"

text \<open>A result is never nil here: \<open>executeQuery\<close> returns an empty map for no row.\<close>

definition sql_mergeData :: "('t, 'p) SQLCallModule \<Rightarrow> grecord \<Rightarrow> grecord \<Rightarrow> grecord" where
  "sql_mergeData m record data = mergeCallMap (sc_mergeStrategy m) (sc_resultKey m) record data"

definition sql_processRecord ::
  "('h, 't, 'p) sql_call_world \<Rightarrow> ('t, 'p) SQLCallModule \<Rightarrow> grecord \<Rightarrow> ('h, 't) sql_call_state
   \<Rightarrow> ((gerr + grecord) \<times> bool) \<times> ('h, 't) sql_call_state" where
  "sql_processRecord w m record s =
     (let (cacheKey, s) = (if sc_cacheEnabled m
                           then (case sql_buildCacheKey w m record (qs_engine s) of (k, e) \<Rightarrow> (k, s\<lparr>qs_engine := e\<rparr>))
                           else ([], s));
          (cached, s) = (if sc_cacheEnabled m
                         then (case cache_Get (qs_cache s) (sw_clock w (qs_db s)) cacheKey of (d, c) \<Rightarrow> (d, s\<lparr>qs_cache := c\<rparr>))
                         else (None, s))
      in case cached of
           Some responseData \<Rightarrow> ((Inr (sql_mergeData m record responseData), True), s)
         | None \<Rightarrow>
             (case executeQuery w m record (qs_db s) of
                (Inl err, h) \<Rightarrow> ((Inl err, False), s\<lparr>qs_db := h\<rparr>)
              | (Inr resultData, h) \<Rightarrow>
                  (let s = s\<lparr>qs_db := h\<rparr>;
                       s = (if sc_cacheEnabled m
                            then s\<lparr>qs_cache := cache_Set (sw_order w (qs_cache s)) (qs_cache s) (sw_clock w (qs_db s))
                                                 cacheKey resultData (sc_cacheTTL m)\<rparr>
                            else s)
                   in ((Inr (sql_mergeData m record resultData), False), s))))"

subsection \<open>The batch\<close>

definition sql_source :: "nat \<Rightarrow> marker_source" where
  "sql_source i = \<lparr>ms_Module = ''sql_call'', ms_RecordIndex = int i, ms_Attempts = 0,
                   ms_Overrides = \<lparr>Functional = [], Technical = []\<rparr>\<rparr>"

fun sql_loop ::
  "('h, 't, 'p) sql_call_world \<Rightarrow> ('t, 'p) SQLCallModule \<Rightarrow> nat \<Rightarrow> records \<Rightarrow> records \<Rightarrow> tally option \<Rightarrow> ('h, 't) sql_call_state
   \<Rightarrow> (gerr + records) \<times> tally option \<times> ('h, 't) sql_call_state" where
  "sql_loop w m i [] result t s = (Inr result, t, s)"
| "sql_loop w m i (r # rs) result t s =
     (case sw_done w (qs_db s) of
        Some e \<Rightarrow> (Inl e, t, s)
      | None \<Rightarrow>
          (case sql_processRecord w m (rec_fields r) s of
             ((Inr enriched, _), s) \<Rightarrow> sql_loop w m (Suc i) rs (result @ [Some enriched]) t s
           | ((Inl err, _), s) \<Rightarrow>
               (case HandleRecordError (sw_url w) t (sc_onError m) r (sql_source i) (Some err) of
                  (OutcomeStop, _, t) \<Rightarrow> (Inl err, t, s)
                | (OutcomeDrop, _, t) \<Rightarrow> sql_loop w m (Suc i) rs result t s
                | (OutcomeKeep, marked, t) \<Rightarrow> sql_loop w m (Suc i) rs (result @ [marked]) t s)))"

definition sql_Process ::
  "('h, 't, 'p) sql_call_world \<Rightarrow> ('t, 'p) SQLCallModule \<Rightarrow> records option \<Rightarrow> tally option \<Rightarrow> ('h, 't) sql_call_state
   \<Rightarrow> (gerr + records) \<times> tally option \<times> ('h, 't) sql_call_state" where
  "sql_Process w m records t s =
     (case records of None \<Rightarrow> (Inr [], t, s) | Some rs \<Rightarrow> sql_loop w m 0 rs [] t s)"

definition GetCacheStats :: "grecord LRUCache option \<Rightarrow> cache_stats" where
  "GetCacheStats cache = (case cache of Some c \<Rightarrow> cache_Stats c | None \<Rightarrow> \<lparr>Hits = 0, Misses = 0, Evictions = 0\<rparr>)"

definition ClearCache :: "grecord LRUCache option \<Rightarrow> grecord LRUCache option" where
  "ClearCache cache = map_option cache_Clear cache"

definition sql_Close :: "'h sql_driver \<Rightarrow> bool \<Rightarrow> 'h \<Rightarrow> gerr option \<times> 'h" where
  "sql_Close drv has_db h = (if has_db then sd_close drv h else (None, h))"


subsection \<open>The cache is transparent\<close>

text \<open>The key of a record, whatever the template engine has compiled before.\<close>

definition sql_key :: "('h, 't, 'p) sql_call_world \<Rightarrow> ('t, 'p) SQLCallModule \<Rightarrow> grecord \<Rightarrow> string" where
  "sql_key w m record = fst (sql_buildCacheKey w m record Map.empty)"

lemma sql_buildCacheKey_sound:
  assumes "engine.sound (sw_gonja w) e"
  shows "fst (sql_buildCacheKey w m record e) = sql_key w m record
    \<and> engine.sound (sw_gonja w) (snd (sql_buildCacheKey w m record e))"
proof -
  let ?q = "(sc_cacheKey m, TargetText, False)"
  have ans: "fst (engine.ask (sw_gonja w) d ?q) = compile_request (sw_gonja w) ?q"
    and snd: "engine.sound (sw_gonja w) (snd (engine.ask (sw_gonja w) d ?q))" if "engine.sound (sw_gonja w) d" for d
    using engine.ask_answer [OF that] engine.ask_sound [OF that] by blast+
  have key: "fst (sql_buildCacheKey w m record d) = fst (sql_buildCacheKey w m record d')
      \<and> snd (sql_buildCacheKey w m record d) = (if sc_cacheKey m \<noteq> [] then snd (engine.ask (sw_gonja w) d ?q) else d)"
    if "engine.sound (sw_gonja w) d" "engine.sound (sw_gonja w) d'" for d d'
    using ans [OF that(1)] ans [OF that(2)]
    by (cases "engine.ask (sw_gonja w) d ?q"; cases "engine.ask (sw_gonja w) d' ?q")
      (auto simp: sql_buildCacheKey_def Engine_Compile_ask split: sum.splits)
  from key [OF assms engine.sound_empty] snd [OF assms] assms show ?thesis by (auto simp: sql_key_def)
qed

text \<open>\<open>v\<close> is a row the database gave for a record of \<open>R\<close> with the key \<open>k\<close>.\<close>

definition answers :: "('h, 't, 'p) sql_call_world \<Rightarrow> ('t, 'p) SQLCallModule \<Rightarrow> grecord \<Rightarrow> grecord \<Rightarrow> bool" where
  "answers w m record v \<longleftrightarrow> (\<exists>h h'. executeQuery w m record h = (Inr v, h'))"

definition sql_served :: "('h, 't, 'p) sql_call_world \<Rightarrow> ('t, 'p) SQLCallModule \<Rightarrow> grecord set \<Rightarrow> string \<Rightarrow> grecord \<Rightarrow> bool" where
  "sql_served w m R k v \<longleftrightarrow> (\<exists>r \<in> R. sql_key w m r = k \<and> answers w m r v)"

text \<open>The states a run of the filter on records of \<open>R\<close> goes through.\<close>

definition sql_inv :: "('h, 't, 'p) sql_call_world \<Rightarrow> ('t, 'p) SQLCallModule \<Rightarrow> grecord set \<Rightarrow> ('h, 't) sql_call_state \<Rightarrow> bool" where
  "sql_inv w m R s \<longleftrightarrow> engine.sound (sw_gonja w) (qs_engine s) \<and> lru.faithful (sql_served w m R) (qs_cache s)"

text \<open>
  One record: what is merged into it was answered for a record with its key; and when there is
  no such answer the query failed for this very record.
\<close>

lemma sql_record_served:
  assumes inv: "sql_inv w m R s" and r: "record \<in> R"
    and run: "sql_processRecord w m record s = ((res, hit), s')"
  shows "sql_inv w m R s'"
    and "hit \<Longrightarrow> qs_db s' = qs_db s"
    and "res = Inr x \<Longrightarrow> \<exists>v. (if sc_cacheEnabled m then sql_served w m R (sql_key w m record) v else answers w m record v)
          \<and> x = sql_mergeData m record v"
    and "res = Inl err \<Longrightarrow> \<exists>h h'. executeQuery w m record h = (Inl err, h')"
proof -
  obtain y h where f: "executeQuery w m record (qs_db s) = (y, h)" by (cases "executeQuery w m record (qs_db s)")
  have all: "sql_inv w m R s' \<and> (hit \<longrightarrow> qs_db s' = qs_db s)
      \<and> (\<forall>x. res = Inr x \<longrightarrow> (\<exists>v. (if sc_cacheEnabled m then sql_served w m R (sql_key w m record) v else answers w m record v)
               \<and> x = sql_mergeData m record v))
      \<and> (\<forall>err. res = Inl err \<longrightarrow> (\<exists>h h'. executeQuery w m record h = (Inl err, h')))"
  proof (cases "sc_cacheEnabled m")
    case False
    with run f inv show ?thesis by (cases y) (auto simp: sql_processRecord_def sql_inv_def answers_def)
  next
    case on: True
    define key where "key = sql_key w m record"
    obtain e where k: "sql_buildCacheKey w m record (qs_engine s) = (key, e)" and e: "engine.sound (sw_gonja w) e"
      using sql_buildCacheKey_sound [of w "qs_engine s" m "record"] inv
      by (cases "sql_buildCacheKey w m record (qs_engine s)") (auto simp: key_def sql_inv_def)
    have f0: "lru.faithful (sql_served w m R) (qs_cache s)" using inv by (simp add: sql_inv_def)
    obtain d c where g: "cache_Get (qs_cache s) (sw_clock w (qs_db s)) key = (d, c)"
      by (cases "cache_Get (qs_cache s) (sw_clock w (qs_db s)) key")
    have c: "lru.faithful (sql_served w m R) c" using lru.faithful_lookup [OF f0, of _ key] g by (metis snd_conv)
    show ?thesis
    proof (cases d)
      case (Some data)
      then have "sql_served w m R key data" using lru.faithful_answer [OF f0] g by blast
      with run on k g Some c e show ?thesis by (auto simp: sql_processRecord_def sql_inv_def key_def)
    next
      case None
      show ?thesis
      proof (cases y)
        case (Inl err)
        with run on k g None f c e show ?thesis by (auto simp: sql_processRecord_def sql_inv_def)
      next
        case (Inr v)
        with f r have sv: "sql_served w m R key v" by (auto simp: sql_served_def answers_def key_def)
        then have "lru.faithful (sql_served w m R) (cache_Set ks c t key v ttl)" for ks t ttl
          using lru.faithful_store [OF c, of key v "\<lambda>_. ks" t ttl] by simp
        with run on k g None f e Inr sv show ?thesis
          by (auto simp: sql_processRecord_def sql_inv_def key_def)
      qed
    qed
  qed
  from all show "sql_inv w m R s'" by blast
  from all show "hit \<Longrightarrow> qs_db s' = qs_db s" by blast
  from all show "res = Inr x \<Longrightarrow> \<exists>v. (if sc_cacheEnabled m then sql_served w m R (sql_key w m record) v else answers w m record v)
          \<and> x = sql_mergeData m record v" by blast
  from all show "res = Inl err \<Longrightarrow> \<exists>h h'. executeQuery w m record h = (Inl err, h')" by blast
qed

text \<open>With the default key and records that \<open>json.Marshal\<close> tells apart, a key is one record.\<close>

definition keys_by_record :: "('h, 't, 'p) sql_call_world \<Rightarrow> ('t, 'p) SQLCallModule \<Rightarrow> gval set \<Rightarrow> grecord set \<Rightarrow> bool" where
  "keys_by_record w m L R \<longleftrightarrow>
     sc_cacheKey m = [] \<and> tells_scalars L (sw_json w)
     \<and> (\<forall>r \<in> R. value_over L (GMap r) \<and> \<not> isl (marshalDeterministic (sw_json w) r))"

lemma keys_by_record_inj:
  assumes "keys_by_record w m L R" "r \<in> R" "r' \<in> R" "sql_key w m r = sql_key w m r'"
  shows "r = r'"
proof -
  have no_key: "sc_cacheKey m = []" and tells: "tells_scalars L (sw_json w)"
    and over: "value_over L (GMap r)" "value_over L (GMap r')"
    and ok: "\<not> isl (marshalDeterministic (sw_json w) r)" "\<not> isl (marshalDeterministic (sw_json w) r')"
    using assms unfolding keys_by_record_def by blast+
  from ok obtain t t' where t: "marshalDeterministic (sw_json w) r = Inr t" "marshalDeterministic (sw_json w) r' = Inr t'"
    by (metis isl_def sum.exhaust)
  with assms(4) no_key have "t = t'" by (simp add: sql_key_def sql_buildCacheKey_def default_call_key_def)
  with marshalDeterministic_inj [OF tells over t(1)] t(2) show ?thesis by simp
qed

text \<open>A database whose answer to the query of a record stays the same during the run.\<close>

definition stable_answers :: "('h, 't, 'p) sql_call_world \<Rightarrow> ('t, 'p) SQLCallModule \<Rightarrow> grecord set \<Rightarrow> (grecord \<Rightarrow> gerr + grecord) \<Rightarrow> bool" where
  "stable_answers w m R f \<longleftrightarrow> (\<forall>r \<in> R. \<forall>h. fst (executeQuery w m r h) = f r)"

text \<open>The filter as a function of the records: the specification of a run.\<close>

fun sql_spec ::
  "('h, 't, 'p) sql_call_world \<Rightarrow> ('t, 'p) SQLCallModule \<Rightarrow> (grecord \<Rightarrow> gerr + grecord) \<Rightarrow> nat \<Rightarrow> records \<Rightarrow> tally option
   \<Rightarrow> (gerr + records) \<times> tally option" where
  "sql_spec w m f i [] t = (Inr [], t)"
| "sql_spec w m f i (r # rs) t =
     (case f (rec_fields r) of
        Inr v \<Rightarrow> (case sql_spec w m f (Suc i) rs t of (y, t') \<Rightarrow> (map_sum id (Cons (Some (sql_mergeData m (rec_fields r) v))) y, t'))
      | Inl err \<Rightarrow>
          (case HandleRecordError (sw_url w) t (sc_onError m) r (sql_source i) (Some err) of
             (OutcomeStop, _, t') \<Rightarrow> (Inl err, t')
           | (OutcomeDrop, _, t') \<Rightarrow> sql_spec w m f (Suc i) rs t'
           | (OutcomeKeep, marked, t') \<Rightarrow> (case sql_spec w m f (Suc i) rs t' of (y, t'') \<Rightarrow> (map_sum id (Cons marked) y, t''))))"

lemma sql_record_spec:
  assumes stable: "stable_answers w m R f" and keys: "sc_cacheEnabled m \<longrightarrow> keys_by_record w m L R"
    and inv: "sql_inv w m R s" and r: "record \<in> R"
  shows "\<exists>hit s'. sql_processRecord w m record s
      = ((case f record of Inl err \<Rightarrow> Inl err | Inr v \<Rightarrow> Inr (sql_mergeData m record v), hit), s') \<and> sql_inv w m R s'"
proof -
  obtain res hit s' where run: "sql_processRecord w m record s = ((res, hit), s')" by (metis surj_pair)
  note served = sql_record_served [OF inv r run]
  have same: "f r = x" if "r \<in> R" "executeQuery w m r h = (x, h')" for r h x h'
    using stable that unfolding stable_answers_def by (metis fst_conv)
  have "res = (case f record of Inl err \<Rightarrow> Inl err | Inr v \<Rightarrow> Inr (sql_mergeData m record v))"
  proof (cases res)
    case (Inl err)
    with served(4) obtain h h' where "executeQuery w m record h = (Inl err, h')" by blast
    with same [OF r] Inl show ?thesis by simp
  next
    case (Inr x)
    with served(3) obtain v where v: "if sc_cacheEnabled m then sql_served w m R (sql_key w m record) v else answers w m record v"
      "x = sql_mergeData m record v" by blast
    have "answers w m record v"
    proof (cases "sc_cacheEnabled m")
      case True
      with v obtain r0 where r0: "r0 \<in> R" "sql_key w m r0 = sql_key w m record" "answers w m r0 v" by (auto simp: sql_served_def)
      with True keys keys_by_record_inj r show ?thesis by metis
    qed (use v in simp)
    with same [OF r] have "f record = Inr v" by (auto simp: answers_def)
    with v Inr show ?thesis by simp
  qed
  with run served(1) show ?thesis by blast
qed

lemma sql_loop_spec:
  assumes "stable_answers w m R f" "sc_cacheEnabled m \<longrightarrow> keys_by_record w m L R" "\<And>h. sw_done w h = None"
    and "sql_inv w m R s" "rec_fields ` set rs \<subseteq> R"
  shows "\<exists>s'. sql_loop w m i rs result t s
      = (map_sum id (append result) (fst (sql_spec w m f i rs t)), snd (sql_spec w m f i rs t), s') \<and> sql_inv w m R s'"
  using assms(4,5)
proof (induction rs arbitrary: i result t s)
  case Nil
  then show ?case by auto
next
  case (Cons r rs)
  from sql_record_spec [OF assms(1,2) Cons.prems(1), of "rec_fields r"] Cons.prems(2)
  obtain hit s1 where run: "sql_processRecord w m (rec_fields r) s
      = ((case f (rec_fields r) of Inl err \<Rightarrow> Inl err | Inr v \<Rightarrow> Inr (sql_mergeData m (rec_fields r) v), hit), s1)"
    and inv: "sql_inv w m R s1" by auto
  note IH = Cons.IH [OF inv, of "Suc i"]
  have rs: "rec_fields ` set rs \<subseteq> R" using Cons.prems(2) by simp
  show ?case
  proof (cases "f (rec_fields r)")
    case (Inr v)
    obtain y t2 where sp: "sql_spec w m f (Suc i) rs t = (y, t2)" by (metis surj_pair)
    with Inr IH [OF rs, of "result @ [Some (sql_mergeData m (rec_fields r) v)]" t] run assms(3) show ?thesis
      by (cases y) auto
  next
    case (Inl err)
    obtain oc marked t1 where h: "HandleRecordError (sw_url w) t (sc_onError m) r (sql_source i) (Some err) = (oc, marked, t1)"
      by (metis surj_pair)
    obtain y t2 where sp: "sql_spec w m f (Suc i) rs t1 = (y, t2)" by (metis surj_pair)
    with h Inl run assms(3) IH [OF rs, of result t1] IH [OF rs, of "result @ [marked]" t1] inv show ?thesis
      by (cases oc; cases y) auto
  qed
qed

text \<open>
  C34. The response cache of sql_call is transparent. While the database answers the query of a
  record the same way, a run of the filter over any batch returns what its specification
  returns, which asks the database once for each record in order and knows no cache: the same
  records, the same error, the same tally. This holds with the cache off, and with the cache on
  under the default key from any cache the filter filled itself, however small the cache and
  whatever the clock says, provided \<open>json.Marshal\<close> succeeds on the records and its texts tell
  the scalars in them apart. The database is asked without a cancelled context: its answer to the
  query of a record is a function of the record.
\<close>
theorem sql_cache_transparent:
  assumes "stable_answers w m R f" "sc_cacheEnabled m \<longrightarrow> keys_by_record w m L R"
    and "\<And>h. sw_done w h = None" "sql_inv w m R s" "rec_fields ` set rs \<subseteq> R"
  shows "\<exists>s'. sql_Process w m (Some rs) t s = (fst (sql_spec w m f 0 rs t), snd (sql_spec w m f 0 rs t), s') \<and> sql_inv w m R s'"
proof -
  have "map_sum id (append []) y = y" for y :: "gerr + records" by (cases y) simp_all
  with sql_loop_spec [OF assms, of 0 "[]" t] show ?thesis by (simp add: sql_Process_def)
qed

text \<open>A record that cannot be marshalled has the query as its key: such records share one answer.\<close>

theorem unmarshalled_share_answer:
  assumes "sc_cacheEnabled m" "sc_cacheKey m = []" "0 < sc_cacheTTL m"
    and "isl (marshalDeterministic (sw_json w) r1)" "isl (marshalDeterministic (sw_json w) r2)"
    and "sql_processRecord w m r1 s = ((Inr x, False), s1)"
  shows "\<exists>v s2. x = sql_mergeData m r1 v \<and> sql_processRecord w m r2 s1 = ((Inr (sql_mergeData m r2 v), True), s2)
      \<and> qs_db s2 = qs_db s1"
proof -
  have key: "sql_buildCacheKey w m r e = (sc_query m, e)" if "r = r1 \<or> r = r2" for r e
    using assms(2,4,5) that by (auto simp: sql_buildCacheKey_def default_call_key_def isl_def)
  obtain d c where g: "cache_Get (qs_cache s) (sw_clock w (qs_db s)) (sc_query m) = (d, c)"
    by (cases "cache_Get (qs_cache s) (sw_clock w (qs_db s)) (sc_query m)")
  obtain y h where f: "executeQuery w m r1 (qs_db s) = (y, h)" by (cases "executeQuery w m r1 (qs_db s)")
  have d: "d = None" using assms(1,6) g by (cases d) (simp_all add: sql_processRecord_def key)
  obtain v where y: "y = Inr v" using assms(1,6) g f d by (cases y) (simp_all add: sql_processRecord_def key)
  have x: "x = sql_mergeData m r1 v"
    and s1: "s1 = s\<lparr>qs_db := h, qs_cache := cache_Set (sw_order w c) c (sw_clock w h) (sc_query m) v (sc_cacheTTL m)\<rparr>"
    using assms(1,6) g f d y by (simp_all add: sql_processRecord_def key)
  have "fst (cache_Get (qs_cache s1) (sw_clock w (qs_db s1)) (sc_query m)) = Some v"
    using assms(3) by (simp add: s1 cache_Get_view cache_Set_view)
  then obtain c' where "cache_Get (qs_cache s1) (sw_clock w (qs_db s1)) (sc_query m) = (Some v, c')"
    by (cases "cache_Get (qs_cache s1) (sw_clock w (qs_db s1)) (sc_query m)") simp
  then have "sql_processRecord w m r2 s1 = ((Inr (sql_mergeData m r2 v), True), s1\<lparr>qs_cache := c'\<rparr>)"
    using assms(1) by (simp add: sql_processRecord_def key)
  with x show ?thesis by (intro exI [of _ v] exI [of _ "s1\<lparr>qs_cache := c'\<rparr>"]) simp
qed


subsection \<open>A concrete run\<close>

definition demo_sql_call :: "bool \<Rightarrow> (string, string) SQLCallModule" where
  "demo_sql_call cached =
     \<lparr>sc_driver = DriverPostgres, sc_query = ''x'', sc_sqlQuery = demo_query ''x'' [] DriverPostgres, sc_mergeStrategy = ''replace'',
      sc_resultKey = [], sc_onError = OnErrorFail, sc_cacheEnabled = cached, sc_cacheTTL = 10, sc_cacheKey = [], sc_timeout = 1\<rparr>"

definition demo_sql_world :: "(nat, string, string) sql_call_world" where
  "demo_sql_world =
     \<lparr>sw_ReadFile = (\<lambda>_. Inr []), sw_Getenv = (\<lambda>_. []),
      sw_driver = \<lparr>sd_open = \<lambda>n c h. (None, h), sd_limits = \<lambda>p h. h, sd_ping = \<lambda>t h. (None, h), sd_close = \<lambda>h. (None, h)\<rparr>,
      sw_gonja = demo_gonja, sw_expr = demo_expr,
      sw_query = (\<lambda>q args h. (Inr \<lparr>ro_Columns = Inr [''n''], ro_Rows = [Inr [SVBytes ''7'']], ro_Err = None\<rparr>, Suc h)),
      sw_time_text = (\<lambda>_. []), sw_json = (\<lambda>v. case v of GInt i \<Rightarrow> Inr (itoa i) | GStr s \<Rightarrow> Inr (CHR 0x22 # s @ [CHR 0x22]) | _ \<Rightarrow> Inl (plain_error [])),
      sw_url = demo_env, sw_done = (\<lambda>_. None), sw_clock = int, sw_order = (\<lambda>_. [])\<rparr>"

definition demo_sql_record :: "int \<Rightarrow> grecord" where
  "demo_sql_record i = [''k'' \<mapsto> GInt i]"

definition demo_sql_state :: "(nat, string) sql_call_state" where
  "demo_sql_state = \<lparr>qs_db = 0, qs_cache = NewLRUCache 10 0, qs_engine = Map.empty\<rparr>"

lemma demo_sql_execute: "executeQuery demo_sql_world (demo_sql_call c) r h = (Inr [''n'' \<mapsto> GStr ''7''], Suc h)"
proof -
  have "sql_pieces ''x'' = [SText ''x'']" by (simp add: sql_pieces.simps sqlToken_def)
  moreover have "contains_sub ''{{'' ''x'' = False" "contains_sub ''}}'' ''x'' = False" by code_simp+
  ultimately have "Build (sw_gonja demo_sql_world) (sw_expr demo_sql_world) (sc_sqlQuery (demo_sql_call c)) rc = Inr (''x'', [])" for rc
    by (simp add: Build_def BuildDescribed_bound demo_sql_world_def demo_sql_call_def demo_render bound_query_def
        piece_refs_def show_piece_def)
  then show ?thesis
    by (simp add: executeQuery_def) (simp add: demo_sql_world_def call_rowsToRecords_def call_value_def)
qed

lemma demo_sql_keys: "keys_by_record demo_sql_world (demo_sql_call c) {GStr ''k'', GInt 1, GInt 2} {demo_sql_record 1, demo_sql_record 2}"
proof -
  have i: "itoa 1 = ''1''" "itoa 2 = ''2''" by code_simp+
  have "tells_scalars {GStr ''k'', GInt 1, GInt 2} (sw_json demo_sql_world)"
    by (simp add: tells_scalars_def demo_sql_world_def i)
  moreover have "value_over {GStr ''k'', GInt 1, GInt 2} (GMap (demo_sql_record i))" if "i = 1 \<or> i = 2" for i
    using that by (auto simp only: value_over_map demo_sql_record_def) (auto split: if_splits)
  moreover have "marshalDeterministic (sw_json demo_sql_world) (demo_sql_record i)
      = Inr (CHR ''{'' # CHR 0x22 # ''k'' @ CHR 0x22 # CHR '':'' # itoa i @ ''}'')" for i
  proof -
    have "canonicalize (GMap (demo_sql_record i)) = CMap [(''k'', CLeaf (GInt i))]"
      by (simp add: canonicalize_map demo_sql_record_def del: canonicalize.simps(8))
    then show ?thesis by (simp add: marshalDeterministic_def orderedMap_MarshalJSON_def demo_sql_world_def)
  qed
  ultimately show ?thesis by (auto simp: keys_by_record_def demo_sql_call_def)
qed

theorem sql_cache_transparent_witness:
  "fst (sql_Process demo_sql_world (demo_sql_call True) (Some [Some (demo_sql_record 1), Some (demo_sql_record 2), Some (demo_sql_record 1)])
      None demo_sql_state)
   = Inr [Some [''k'' \<mapsto> GInt 1, ''n'' \<mapsto> GStr ''7''], Some [''k'' \<mapsto> GInt 2, ''n'' \<mapsto> GStr ''7''], Some [''k'' \<mapsto> GInt 1, ''n'' \<mapsto> GStr ''7'']]"
proof -
  let ?R = "{demo_sql_record 1, demo_sql_record 2}" and ?f = "\<lambda>_. Inr [''n'' \<mapsto> GStr ''7'']"
  have st: "stable_answers demo_sql_world (demo_sql_call True) ?R ?f"
    by (simp add: stable_answers_def demo_sql_execute)
  have inv: "sql_inv demo_sql_world (demo_sql_call True) ?R demo_sql_state"
    unfolding sql_inv_def
    by (intro conjI engine.sound_empty lru.faithful_empty) (simp_all add: demo_sql_state_def engine.sound_empty NewLRUCache_def cache_view_def)
  have never: "sw_done demo_sql_world h = None" for h by (simp add: demo_sql_world_def)
  have merge: "sql_mergeData (demo_sql_call True) (demo_sql_record i) [''n'' \<mapsto> GStr ''7''] = [''k'' \<mapsto> GInt i, ''n'' \<mapsto> GStr ''7'']" for i
    by (auto simp: sql_mergeData_def mergeCallMap_def demo_sql_call_def demo_sql_record_def cloneCallMap_def fun_eq_iff map_add_def)
  have "\<exists>s'. sql_Process demo_sql_world (demo_sql_call True) (Some [Some (demo_sql_record 1), Some (demo_sql_record 2), Some (demo_sql_record 1)])
      None demo_sql_state
     = (fst (sql_spec demo_sql_world (demo_sql_call True) ?f 0 [Some (demo_sql_record 1), Some (demo_sql_record 2), Some (demo_sql_record 1)] None),
        snd (sql_spec demo_sql_world (demo_sql_call True) ?f 0 [Some (demo_sql_record 1), Some (demo_sql_record 2), Some (demo_sql_record 1)] None), s')
     \<and> sql_inv demo_sql_world (demo_sql_call True) ?R s'"
    by (rule sql_cache_transparent [OF st]) (use demo_sql_keys never inv in auto)
  then show ?thesis by (auto simp: merge)
qed

end
