(* ===== verification/WebhookRequest.thy ===== *)
theory WebhookRequest
  imports HttpPolling TemplateEngine
begin

text \<open>
  The webhook input, one request at a time (\<open>internal/modules/input/webhook.go\<close>): the constructor,
  the checks a request passes before its records are handed on, and the token bucket of the rate
  limit. The server with its goroutines is in theory \<open>WebhookServer\<close>. HMAC, JSON decoding and the
  lookup of a header are parameters; trace ids, which only reach the log, are left out.
\<close>

subsection \<open>Configuration\<close>

record SignatureConfig =
  sg_Type :: string
  sg_Header :: string
  sg_Secret :: string

record RateLimitConfig =
  rl_RequestsPerSecond :: int
  rl_Burst :: int

record WebhookInputConfig =
  wc_OnError :: string
  wc_Path :: string
  wc_ListenAddress :: string
  wc_DataField :: string
  wc_RequestTimeoutMs :: int
  wc_Signature :: "SignatureConfig option"
  wc_QueueSize :: int
  wc_MaxConcurrent :: int
  wc_RateLimit :: "RateLimitConfig option"

record Webhook =
  wh_endpoint :: string
  wh_listenAddress :: string
  wh_dataField :: string
  wh_timeout :: int
  wh_signature :: "SignatureConfig option"
  wh_queueSize :: int
  wh_maxConcurrent :: int
  wh_rateLimit :: "RateLimitConfig option"

datatype webhook_error =
    ErrWebhookNilConfig | ErrWebhookConfig gerr | ErrWebhookOnError strategy_error
  | ErrInvalidSignature | ErrMissingSignature | ErrMissingSignatureSecret | ErrUnsupportedSignature
  | ErrMissingSignatureType | ErrMissingPath | ErrInvalidQueueSize | ErrInvalidMaxConcurrent

definition defaultListenAddress :: string where
  "defaultListenAddress = ''0.0.0.0:8080''"

definition defaultSignatureHeader :: string where
  "defaultSignatureHeader = ''X-Hub-Signature-256''"

definition defaultReadTimeout :: int where
  "defaultReadTimeout = 15 * 1000 * Millisecond"

definition validateSignatureConfig :: "SignatureConfig \<Rightarrow> webhook_error + SignatureConfig" where
  "validateSignatureConfig sg =
     (if sg_Type sg = [] then Inl ErrMissingSignatureType
      else if sg_Type sg \<noteq> ''hmac-sha256'' then Inl ErrUnsupportedSignature
      else if sg_Secret sg = [] then Inl ErrMissingSignatureSecret
      else Inr (if sg_Header sg = [] then sg\<lparr>sg_Header := defaultSignatureHeader\<rparr> else sg))"

definition webhook_signature :: "SignatureConfig option \<Rightarrow> webhook_error + SignatureConfig option" where
  "webhook_signature sg =
     (case sg of
        None \<Rightarrow> Inr None
      | Some sg \<Rightarrow>
          (case validateSignatureConfig (if sg_Header sg = [] then sg\<lparr>sg_Header := defaultSignatureHeader\<rparr> else sg) of
             Inl err \<Rightarrow> Inl err
           | Inr sg \<Rightarrow> Inr (Some sg)))"

definition webhook_rate :: "RateLimitConfig option \<Rightarrow> RateLimitConfig option" where
  "webhook_rate rl =
     (case rl of
        None \<Rightarrow> None
      | Some rl \<Rightarrow> Some (if rl_RequestsPerSecond rl > 0 \<and> rl_Burst rl \<le> 0
                          then rl\<lparr>rl_Burst := rl_RequestsPerSecond rl\<rparr> else rl))"

definition NewWebhookFromConfig ::
  "(string \<Rightarrow> gerr + WebhookInputConfig) \<Rightarrow> string option option \<Rightarrow> webhook_error + Webhook" where
  "NewWebhookFromConfig decode config =
     (case config of
        None \<Rightarrow> Inl ErrWebhookNilConfig
      | Some raw \<Rightarrow>
          (case ParseModuleConfig decode raw of
             Inl err \<Rightarrow> Inl (ErrWebhookConfig err)
           | Inr cfg \<Rightarrow>
               if wc_Path cfg = [] then Inl ErrMissingPath
               else (case ParseOnErrorStrategy (wc_OnError cfg) of
                       Inl err \<Rightarrow> Inl (ErrWebhookOnError err)
                     | Inr _ \<Rightarrow>
                         (case webhook_signature (wc_Signature cfg) of
                            Inl err \<Rightarrow> Inl err
                          | Inr signature \<Rightarrow>
                              if wc_QueueSize cfg < 0 then Inl ErrInvalidQueueSize
                              else if wc_MaxConcurrent cfg < 0 then Inl ErrInvalidMaxConcurrent
                              else Inr \<lparr>wh_endpoint = wc_Path cfg,
                                 wh_listenAddress = (if wc_ListenAddress cfg = [] then defaultListenAddress else wc_ListenAddress cfg),
                                 wh_dataField = wc_DataField cfg,
                                 wh_timeout = GetTimeoutDuration (wc_RequestTimeoutMs cfg) defaultReadTimeout,
                                 wh_signature = signature,
                                 wh_queueSize = wc_QueueSize cfg,
                                 wh_maxConcurrent = (if wc_QueueSize cfg > 0 \<and> wc_MaxConcurrent cfg = 0 then 1
                                                     else wc_MaxConcurrent cfg),
                                 wh_rateLimit = webhook_rate (wc_RateLimit cfg)\<rparr>))))"

subsection \<open>The rate limiter\<close>

text \<open>
  A token bucket: the channel \<open>tokens\<close> is the number of tokens in it. Its goroutine takes a step
  at every tick until the channel \<open>stop\<close> is closed.
\<close>

record rateLimiter =
  lm_tokens :: nat
  lm_burst :: nat
  lm_interval :: int
  lm_stopped :: bool

definition Second :: int where
  "Second = 1000 * Millisecond"

definition newRateLimiter :: "int \<Rightarrow> int \<Rightarrow> rateLimiter option" where
  "newRateLimiter requestsPerSecond burst =
     (if requestsPerSecond \<le> 0 \<or> burst \<le> 0 then None
      else Some \<lparr>lm_tokens = nat burst, lm_burst = nat burst,
                 lm_interval = max 1 (Second div requestsPerSecond), lm_stopped = False\<rparr>)"

definition refill :: "rateLimiter \<Rightarrow> rateLimiter" where
  "refill l = (if lm_stopped l \<or> lm_tokens l \<ge> lm_burst l then l else l\<lparr>lm_tokens := Suc (lm_tokens l)\<rparr>)"

definition Allow :: "rateLimiter option \<Rightarrow> bool \<times> rateLimiter option" where
  "Allow l =
     (case l of
        None \<Rightarrow> (True, None)
      | Some l \<Rightarrow> if lm_tokens l > 0 then (True, Some (l\<lparr>lm_tokens := lm_tokens l - 1\<rparr>)) else (False, Some l))"

subsection \<open>A request\<close>

record hook_request =
  wr_Method :: string
  wr_Path :: string
  wr_Get :: "string \<Rightarrow> string"
  wr_Body :: "gerr + string"

record hook_env =
  he_unmarshal :: "string \<Rightarrow> gerr + gval"
  he_type_error :: "gval \<Rightarrow> gerr"
  he_fmt_T :: "gval \<Rightarrow> string"
  he_hmac_sha256 :: "string \<Rightarrow> string \<Rightarrow> string"

text \<open>Status and body of an answer; \<open>http.Error\<close> ends the text with a newline.\<close>

type_synonym reply = "nat \<times> string"

definition http_Error :: "string \<Rightarrow> nat \<Rightarrow> reply" where
  "http_Error msg code = (code, msg @ [CHR 0x0A])"

definition checkMethodAndPath :: "Webhook \<Rightarrow> hook_request \<Rightarrow> reply option" where
  "checkMethodAndPath w r =
     (if wr_Method r \<noteq> ''POST'' then Some (http_Error ''Method not allowed'' 405)
      else if wr_Path r \<noteq> wh_endpoint w then Some (http_Error ''Not found'' 404)
      else None)"

definition checkRateLimit :: "rateLimiter option \<Rightarrow> reply option \<times> rateLimiter option" where
  "checkRateLimit l =
     (case Allow l of
        (True, l) \<Rightarrow> (None, l)
      | (False, l) \<Rightarrow> (Some (http_Error ''Rate limit exceeded'' 429), l))"

definition readRequestBody :: "hook_request \<Rightarrow> reply + string" where
  "readRequestBody r =
     (case wr_Body r of
        Inl err \<Rightarrow> Inl (http_Error ''Failed to read request body'' 400)
      | Inr body \<Rightarrow> if body = [] then Inl (http_Error ''Request body is empty'' 400) else Inr body)"

definition hex_encode :: "string \<Rightarrow> string" where
  "hex_encode s = concat (map (\<lambda>c. [json_hex (of_char c div 16), json_hex (of_char c mod 16)]) s)"

definition validateSignature :: "hook_env \<Rightarrow> SignatureConfig \<Rightarrow> hook_request \<Rightarrow> string \<Rightarrow> webhook_error option" where
  "validateSignature env sg r body =
     (if sg_Secret sg = [] then Some ErrMissingSignatureSecret
      else (let receivedSig = wr_Get r (sg_Header sg)
            in if receivedSig = [] then Some ErrMissingSignature
               else if TrimPrefix ''sha256='' receivedSig \<noteq> hex_encode (he_hmac_sha256 env (sg_Secret sg) body)
               then Some ErrInvalidSignature else None))"

definition checkSignature :: "hook_env \<Rightarrow> Webhook \<Rightarrow> hook_request \<Rightarrow> string \<Rightarrow> reply option" where
  "checkSignature env w r body =
     (case wh_signature w of
        None \<Rightarrow> None
      | Some sg \<Rightarrow>
          if sg_Type sg \<noteq> ''hmac-sha256'' then None
          else (case validateSignature env sg r body of
                  None \<Rightarrow> None
                | Some _ \<Rightarrow> Some (http_Error ''Invalid signature'' 401)))"

definition ErrInvalidJSONPayload :: gerr where
  "ErrInvalidJSONPayload = plain_error ''invalid JSON payload''"

definition hook_convertToRecords :: "(gval \<Rightarrow> string) \<Rightarrow> gval \<Rightarrow> gerr + records" where
  "hook_convertToRecords fmt_T data =
     (case data of
        GArr v \<Rightarrow>
          if list_all (\<lambda>item. as_map item \<noteq> None) v then Inr (map as_map v)
          else Inl (errorf (err_text ErrInvalidJSONPayload @ '': array contains non-object'') ErrInvalidJSONPayload)
      | _ \<Rightarrow> Inl (plain_error (''expected array, got '' @ fmt_T data)))"

definition hook_extractDataFromField :: "(gval \<Rightarrow> string) \<Rightarrow> grecord \<Rightarrow> string \<Rightarrow> gerr + records" where
  "hook_extractDataFromField fmt_T obj field =
     (case obj field of
        None \<Rightarrow> Inl (plain_error (''field '' @ [squote] @ field @ [squote] @ '' not found in payload''))
      | Some data \<Rightarrow> hook_convertToRecords fmt_T data)"

text \<open>The first of the common names that holds an array of objects.\<close>

definition hook_common_records :: "(gval \<Rightarrow> string) \<Rightarrow> grecord \<Rightarrow> records option" where
  "hook_common_records fmt_T obj =
     first_some (\<lambda>field. case obj field of
        None \<Rightarrow> None
      | Some data \<Rightarrow> (case hook_convertToRecords fmt_T data of Inl _ \<Rightarrow> None | Inr records \<Rightarrow> Some records)) commonFields"

definition parsePayload :: "hook_env \<Rightarrow> Webhook \<Rightarrow> string \<Rightarrow> gerr + records" where
  "parsePayload env w body =
     (let fail = (\<lambda>err. Inl (errorf2 (err_text ErrInvalidJSONPayload @ '': '' @ err_text err) ErrInvalidJSONPayload err))
      in (case he_unmarshal env body of
            Inl err \<Rightarrow> fail err
          | Inr v \<Rightarrow>
              (case decode_array (he_type_error env) v of
                 Inr arrayResult \<Rightarrow> Inr arrayResult
               | Inl _ \<Rightarrow>
                   (case decode_object (he_type_error env) v of
                      Inl err \<Rightarrow> fail err
                    | Inr objectResult \<Rightarrow>
                        if wh_dataField w \<noteq> []
                        then hook_extractDataFromField (he_fmt_T env) (rec_fields objectResult) (wh_dataField w)
                        else (case hook_common_records (he_fmt_T env) (rec_fields objectResult) of
                                Some records \<Rightarrow> Inr records
                              | None \<Rightarrow> Inr [objectResult])))))"

definition parsePayloadAndLog :: "hook_env \<Rightarrow> Webhook \<Rightarrow> string \<Rightarrow> reply + records" where
  "parsePayloadAndLog env w body =
     (case parsePayload env w body of
        Inl err \<Rightarrow> Inl (http_Error ''Invalid JSON payload'' 400)
      | Inr data \<Rightarrow> Inr data)"

definition writeSuccessResponse :: "bool \<Rightarrow> reply" where
  "writeSuccessResponse queued = (if queued then 202 else 200, ''{'' @ dquote # ''status'' @ dquote # '':'' @ dquote # ''ok'' @ dquote # ''}'')"

text \<open>
  The part of a request between the rate limit and the dispatch, which touches no shared state:
  read the body, check the signature, parse the payload.
\<close>

definition intake :: "hook_env \<Rightarrow> Webhook \<Rightarrow> hook_request \<Rightarrow> reply + records" where
  "intake env w r =
     (case readRequestBody r of
        Inl rep \<Rightarrow> Inl rep
      | Inr body \<Rightarrow>
          (case checkSignature env w r body of
             Some rep \<Rightarrow> Inl rep
           | None \<Rightarrow> parsePayloadAndLog env w body))"


subsection \<open>What a constructed module guarantees\<close>

text \<open>
  C35. A webhook that was constructed is usable: it has a path; a configured signature has the one
  supported type, a secret and a header name, so no request passes unchecked for want of them; a
  queue has a worker; and a configured request rate has a limiter, which is not nil.
\<close>
theorem webhook_constructed:
  assumes "NewWebhookFromConfig decode config = Inr w"
  shows "wh_endpoint w \<noteq> [] \<and> wh_listenAddress w \<noteq> []
    \<and> pred_option (\<lambda>sg. sg_Type sg = ''hmac-sha256'' \<and> sg_Secret sg \<noteq> [] \<and> sg_Header sg \<noteq> []) (wh_signature w)
    \<and> 0 \<le> wh_queueSize w \<and> 0 \<le> wh_maxConcurrent w \<and> (wh_queueSize w = 0 \<or> 1 \<le> wh_maxConcurrent w)
    \<and> pred_option (\<lambda>rl. rl_RequestsPerSecond rl \<le> 0 \<or> newRateLimiter (rl_RequestsPerSecond rl) (rl_Burst rl) \<noteq> None)
        (wh_rateLimit w)"
proof -
  note D = assms [unfolded NewWebhookFromConfig_def]
  obtain raw where config: "config = Some raw" using D by (cases config) simp_all
  obtain cfg where parsed: "ParseModuleConfig decode raw = Inr cfg"
    using D config by (cases "ParseModuleConfig decode raw") simp_all
  have path: "wc_Path cfg \<noteq> []" using D config parsed by auto
  obtain strat where strat: "ParseOnErrorStrategy (wc_OnError cfg) = Inr strat"
    using D config parsed path by (cases "ParseOnErrorStrategy (wc_OnError cfg)") simp_all
  obtain sg where sg: "webhook_signature (wc_Signature cfg) = Inr sg"
    using D config parsed path strat by (cases "webhook_signature (wc_Signature cfg)") simp_all
  have "pred_option (\<lambda>sg. sg_Type sg = ''hmac-sha256'' \<and> sg_Secret sg \<noteq> [] \<and> sg_Header sg \<noteq> []) sg"
    using sg by (auto simp: webhook_signature_def validateSignatureConfig_def defaultSignatureHeader_def
        split: option.splits sum.splits if_splits)
  moreover have "pred_option (\<lambda>rl. rl_RequestsPerSecond rl \<le> 0 \<or> newRateLimiter (rl_RequestsPerSecond rl) (rl_Burst rl) \<noteq> None)
        (webhook_rate rl)" for rl
    by (auto simp: webhook_rate_def newRateLimiter_def split: option.splits)
  moreover have "\<not> wc_QueueSize cfg < 0" "\<not> wc_MaxConcurrent cfg < 0"
    using D path by (simp_all add: config parsed strat sg split: if_split_asm)
  moreover from this have "w = \<lparr>wh_endpoint = wc_Path cfg,
       wh_listenAddress = (if wc_ListenAddress cfg = [] then defaultListenAddress else wc_ListenAddress cfg),
       wh_dataField = wc_DataField cfg, wh_timeout = GetTimeoutDuration (wc_RequestTimeoutMs cfg) defaultReadTimeout,
       wh_signature = sg, wh_queueSize = wc_QueueSize cfg,
       wh_maxConcurrent = (if wc_QueueSize cfg > 0 \<and> wc_MaxConcurrent cfg = 0 then 1 else wc_MaxConcurrent cfg),
       wh_rateLimit = webhook_rate (wc_RateLimit cfg)\<rparr>"
    using D path by (simp add: config parsed strat sg)
  ultimately show ?thesis using path by (simp add: defaultListenAddress_def)
qed

text \<open>A module with a queue, a signature and a rate limit without a burst.\<close>

definition demo_hook_cfg :: WebhookInputConfig where
  "demo_hook_cfg =
     \<lparr>wc_OnError = [], wc_Path = ''/h'', wc_ListenAddress = [], wc_DataField = [], wc_RequestTimeoutMs = 0,
      wc_Signature = Some \<lparr>sg_Type = ''hmac-sha256'', sg_Header = [], sg_Secret = ''k''\<rparr>,
      wc_QueueSize = 1, wc_MaxConcurrent = 0,
      wc_RateLimit = Some \<lparr>rl_RequestsPerSecond = 2, rl_Burst = 0\<rparr>\<rparr>"

definition demo_hook :: Webhook where
  "demo_hook =
     \<lparr>wh_endpoint = ''/h'', wh_listenAddress = defaultListenAddress, wh_dataField = [], wh_timeout = defaultReadTimeout,
      wh_signature = Some \<lparr>sg_Type = ''hmac-sha256'', sg_Header = defaultSignatureHeader, sg_Secret = ''k''\<rparr>,
      wh_queueSize = 1, wh_maxConcurrent = 1,
      wh_rateLimit = Some \<lparr>rl_RequestsPerSecond = 2, rl_Burst = 2\<rparr>\<rparr>"

lemma demo_hook_constructs: "NewWebhookFromConfig (\<lambda>_. Inr demo_hook_cfg) (Some (Some [])) = Inr demo_hook"
proof -
  have "ParseOnErrorStrategy [] = Inr OnErrorFail"
    by (simp add: ParseOnErrorStrategy_def trim_space_def trim_left.simps)
  then show ?thesis
    by (simp add: NewWebhookFromConfig_def ParseModuleConfig_def ParseConfig_def demo_hook_cfg_def demo_hook_def
        webhook_signature_def validateSignatureConfig_def defaultSignatureHeader_def webhook_rate_def GetTimeoutDuration_def)
qed

theorem webhook_constructed_witness:
  "wh_endpoint demo_hook \<noteq> [] \<and> wh_maxConcurrent demo_hook = 1 \<and> newRateLimiter 2 2 \<noteq> None"
  using webhook_constructed [OF demo_hook_constructs] by (simp add: demo_hook_def)

subsection \<open>The rate limit\<close>

datatype limiter_event = Tick | Ask

text \<open>What a sequence of ticks and questions leaves of a limiter, and its answers.\<close>

fun limiter_run :: "rateLimiter \<Rightarrow> limiter_event list \<Rightarrow> rateLimiter \<times> bool list" where
  "limiter_run l [] = (l, [])"
| "limiter_run l (Tick # es) = limiter_run (refill l) es"
| "limiter_run l (Ask # es) =
     (case Allow (Some l) of
        (ok, l') \<Rightarrow> (case limiter_run (the l') es of (l'', oks) \<Rightarrow> (l'', ok # oks)))"

lemma limiter_run_bounds:
  assumes "limiter_run l es = (l', oks)" "lm_tokens l \<le> lm_burst l"
  shows "lm_burst l' = lm_burst l \<and> lm_stopped l' = lm_stopped l \<and> lm_tokens l' \<le> lm_burst l
    \<and> length (filter id oks) \<le> lm_tokens l + length (filter ((=) Tick) es)"
  using assms
proof (induction es arbitrary: l l' oks)
  case (Cons e es)
  show ?case
  proof (cases e)
    case Tick
    have r: "lm_burst (refill l) = lm_burst l" "lm_stopped (refill l) = lm_stopped l" "lm_tokens (refill l) \<le> lm_burst l"
      "lm_tokens (refill l) \<le> Suc (lm_tokens l)" using Cons.prems(2) by (auto simp: refill_def)
    from Cons.IH [of "refill l" l' oks] Cons.prems(1) Tick r show ?thesis by auto
  next
    case Ask
    obtain m oks' where m: "limiter_run (the (snd (Allow (Some l)))) es = (m, oks')" by fastforce
    with Cons.prems(1) Ask have e: "l' = m" "oks = fst (Allow (Some l)) # oks'" by (auto split: prod.splits)
    show ?thesis
    proof (cases "lm_tokens l > 0")
      case True
      have "limiter_run (l\<lparr>lm_tokens := lm_tokens l - 1\<rparr>) es = (m, oks')" using m True by (simp add: Allow_def)
      moreover have "lm_tokens (l\<lparr>lm_tokens := lm_tokens l - 1\<rparr>) \<le> lm_burst (l\<lparr>lm_tokens := lm_tokens l - 1\<rparr>)"
        using Cons.prems(2) by simp
      ultimately have "lm_burst m = lm_burst l \<and> lm_stopped m = lm_stopped l \<and> lm_tokens m \<le> lm_burst l
          \<and> length (filter id oks') \<le> lm_tokens l - 1 + length (filter ((=) Tick) es)"
        using Cons.IH by fastforce
      with e True Ask show ?thesis by (auto simp: Allow_def id_def)
    next
      case False
      with m e Cons.IH [of l m oks'] Cons.prems(2) Ask show ?thesis by (simp add: Allow_def)
    qed
  qed
qed simp

lemma limiter_run_append:
  "fst (limiter_run l (es @ es')) = fst (limiter_run (fst (limiter_run l es)) es')"
  by (induction l es rule: limiter_run.induct) (auto split: prod.splits)

lemma limiter_ticks:
  assumes "\<not> lm_stopped l" "lm_tokens l \<le> lm_burst l"
  shows "lm_tokens (fst (limiter_run l (replicate n Tick))) = min (lm_burst l) (lm_tokens l + n)"
  using assms
proof (induction n arbitrary: l)
  case (Suc n)
  have "lm_burst (refill l) = lm_burst l" "\<not> lm_stopped (refill l)" "lm_tokens (refill l) \<le> lm_burst l"
    "min (lm_burst l) (lm_tokens (refill l) + n) = min (lm_burst l) (lm_tokens l + Suc n)"
    using Suc.prems by (auto simp: refill_def)
  with Suc.IH [of "refill l"] show ?case by simp
qed auto

lemma limiter_asks: "n \<le> lm_tokens l \<Longrightarrow> snd (limiter_run l (replicate n Ask)) = replicate n True"
proof (induction n arbitrary: l)
  case (Suc n)
  then have "snd (limiter_run (l\<lparr>lm_tokens := lm_tokens l - 1\<rparr>) (replicate n Ask)) = replicate n True" by simp
  with Suc.prems show ?case by (auto simp: Allow_def split: prod.splits)
qed simp

text \<open>
  C36. The rate limit holds in every window: whatever happened before, a window lets through at
  most the burst and one request for each tick in it. And it does not refuse more than it must:
  after a pause as long as the bucket is deep, the whole burst is let through.
\<close>
theorem rate_limit_window:
  assumes "newRateLimiter rps burst = Some l"
  shows "length (filter id (snd (limiter_run (fst (limiter_run l before)) window)))
           \<le> nat burst + length (filter ((=) Tick) window)
    \<and> snd (limiter_run (fst (limiter_run l (before @ replicate (nat burst) Tick))) (replicate (nat burst) Ask))
      = replicate (nat burst) True"
proof -
  have l: "lm_tokens l = nat burst" "lm_burst l = nat burst" "\<not> lm_stopped l"
    using assms by (auto simp: newRateLimiter_def split: if_splits)
  obtain m oks where m: "limiter_run l before = (m, oks)" by fastforce
  from limiter_run_bounds [OF m] l have mb: "lm_burst m = nat burst" "lm_tokens m \<le> nat burst" "\<not> lm_stopped m" by auto
  obtain m' oks' where m': "limiter_run m window = (m', oks')" by fastforce
  from limiter_run_bounds [OF m'] mb have "length (filter id oks') \<le> nat burst + length (filter ((=) Tick) window)" by auto
  moreover have "nat burst \<le> lm_tokens (fst (limiter_run l (before @ replicate (nat burst) Tick)))"
    using limiter_ticks [of m "nat burst"] mb m by (simp add: limiter_run_append)
  ultimately show ?thesis using m m' limiter_asks by simp
qed

theorem rate_limit_window_witness:
  "\<exists>l. newRateLimiter 2 2 = Some l
    \<and> length (filter id (snd (limiter_run (fst (limiter_run l [])) [Ask, Ask, Ask, Tick, Ask, Ask]))) \<le> 3
    \<and> snd (limiter_run (fst (limiter_run l [Ask, Ask, Tick, Tick])) [Ask, Ask]) = [True, True]"
proof -
  obtain l where l: "newRateLimiter 2 2 = Some l" by (simp add: newRateLimiter_def)
  have two: "nat 2 = Suc (Suc 0)" "replicate (Suc (Suc 0)) x = [x, x]" for x by simp_all
  from rate_limit_window [OF l, of "[]" "[Ask, Ask, Ask, Tick, Ask, Ask]"] rate_limit_window [OF l, of "[Ask, Ask]" "[]", unfolded two append.simps] l
  show ?thesis by (intro exI [of _ l]) (simp del: limiter_run.simps add: two(1))
qed

subsection \<open>Signatures\<close>

text \<open>The digest a request must carry, bare or with the name of the algorithm in front.\<close>

definition signed_by :: "hook_env \<Rightarrow> SignatureConfig \<Rightarrow> hook_request \<Rightarrow> string \<Rightarrow> bool" where
  "signed_by env sg r body \<longleftrightarrow>
     (let digest = hex_encode (he_hmac_sha256 env (sg_Secret sg) body)
      in wr_Get r (sg_Header sg) \<noteq> [] \<and> wr_Get r (sg_Header sg) \<in> {digest, ''sha256='' @ digest})"

lemma hex_encode_no_prefix: "\<not> prefix ''sha256='' (hex_encode s)"
proof -
  have "CHR ''s'' \<notin> set (hex_encode s)"
  proof
    assume "CHR ''s'' \<in> set (hex_encode s)"
    then obtain c where "CHR ''s'' = json_hex (of_char c div 16) \<or> CHR ''s'' = json_hex (of_char c mod 16)"
      by (auto simp: hex_encode_def)
    moreover have "of_char c div 16 < (16 :: nat)"
      using nat_of_char_less_256 [of c] by (simp add: less_mult_imp_div_less)
    moreover have "of_char c mod 16 < (16 :: nat)" by simp
    ultimately obtain d where "d < 16" "json_hex d = CHR ''s''" by metis
    then have "(of_char (json_hex d) :: nat) = 115" by simp
    with \<open>d < 16\<close> show False by (auto simp: json_hex_def split: if_splits)
  qed
  then show ?thesis using set_mono_prefix by fastforce
qed

lemma TrimPrefix_eq: "\<not> prefix p d \<Longrightarrow> TrimPrefix p h = d \<longleftrightarrow> h \<in> {d, p @ d}"
  unfolding TrimPrefix_def by (cases "prefix p h") (auto elim!: prefixE)

lemma checkSignature_None:
  assumes "wh_signature w = Some sg" "sg_Type sg = ''hmac-sha256''" "sg_Secret sg \<noteq> []"
  shows "checkSignature env w r body = None \<longleftrightarrow> signed_by env sg r body"
proof -
  let ?d = "hex_encode (he_hmac_sha256 env (sg_Secret sg) body)"
  have "TrimPrefix ''sha256='' h = ?d \<longleftrightarrow> h \<in> {?d, ''sha256='' @ ?d}" for h
    by (rule TrimPrefix_eq [OF hex_encode_no_prefix])
  then show ?thesis
    using assms by (simp add: checkSignature_def validateSignature_def signed_by_def Let_def http_Error_def)
qed

text \<open>
  What a payload holds, by its JSON value: \<open>null\<close> no records; an array of objects (or nulls) these;
  an object the array of objects in its data field, when one is configured, else in the first of
  the common fields that holds one, else the object itself.
\<close>

definition holds_objects :: "grecord \<Rightarrow> string \<Rightarrow> grecord list \<Rightarrow> bool" where
  "holds_objects obj field ms \<longleftrightarrow> obj field = Some (GArr (map GMap ms))"

definition payload_records :: "string \<Rightarrow> gval \<Rightarrow> records \<Rightarrow> bool" where
  "payload_records field v data \<longleftrightarrow>
     v = GNil \<and> data = []
     \<or> (\<exists>vs. v = GArr vs \<and> (\<forall>x \<in> set vs. x = GNil \<or> (\<exists>m. x = GMap m)) \<and> data = map as_map vs)
     \<or> (\<exists>obj. v = GMap obj \<and>
          (if field \<noteq> [] then (\<exists>ms. holds_objects obj field ms \<and> data = map Some ms)
           else (\<exists>before name after ms. [''data'', ''items'', ''results'', ''records''] = before @ name # after
                   \<and> (\<forall>other \<in> set before. \<forall>ms. \<not> holds_objects obj other ms)
                   \<and> holds_objects obj name ms \<and> data = map Some ms)
              \<or> (\<forall>name \<in> {''data'', ''items'', ''results'', ''records''}. \<forall>ms. \<not> holds_objects obj name ms)
                \<and> data = [Some obj]))"

text \<open>
  A request whose records may be processed: a POST to the endpoint of the webhook, with a body
  that is not empty and, where a signature is configured, signed, and that is JSON with these
  records.
\<close>

definition genuine :: "hook_env \<Rightarrow> Webhook \<Rightarrow> hook_request \<Rightarrow> records \<Rightarrow> bool" where
  "genuine env w r data \<longleftrightarrow>
     wr_Method r = ''POST'' \<and> wr_Path r = wh_endpoint w
     \<and> (\<exists>body v. wr_Body r = Inr body \<and> body \<noteq> []
          \<and> he_unmarshal env body = Inr v \<and> payload_records (wh_dataField w) v data
          \<and> pred_option (\<lambda>sg. sg_Type sg \<noteq> ''hmac-sha256'' \<or> sg_Secret sg \<noteq> [] \<and> signed_by env sg r body)
              (wh_signature w))"

lemma all_maps: "list_all (\<lambda>item. as_map item \<noteq> None) vs \<longleftrightarrow> (\<exists>ms. vs = map GMap ms)"
proof
  assume "list_all (\<lambda>item. as_map item \<noteq> None) vs"
  then show "\<exists>ms. vs = map GMap ms"
  proof (induction vs)
    case (Cons v vs)
    then obtain m ms where "v = GMap m" "vs = map GMap ms" by (auto simp: as_map_def split: gval.splits)
    then show ?case by (metis list.simps(9))
  qed simp
qed (auto simp: list_all_iff as_map_def)

lemma convert_objects:
  "hook_convertToRecords T v = Inr data \<longleftrightarrow> (\<exists>ms. v = GArr (map GMap ms) \<and> data = map Some ms)"
proof (cases "\<exists>ms. v = GArr (map GMap ms)")
  case True
  then obtain ms where "v = GArr (map GMap ms)" by blast
  moreover have "list_all (\<lambda>item. as_map item \<noteq> None) (map GMap ms)" using all_maps by blast
  moreover have "map GMap ms = map GMap ms' \<longleftrightarrow> ms = ms'" for ms' by (simp add: inj_def inj_map_eq_map)
  ultimately show ?thesis by (auto simp: hook_convertToRecords_def as_map_def comp_def)
next
  case False
  then show ?thesis using all_maps by (cases v) (auto simp: hook_convertToRecords_def)
qed

lemma first_some_split:
  "first_some f xs = Some y \<Longrightarrow> \<exists>before x after. xs = before @ x # after \<and> (\<forall>z \<in> set before. f z = None) \<and> f x = Some y"
proof (induction xs)
  case (Cons a xs)
  show ?case
  proof (cases "f a")
    case None
    with Cons obtain before x after where "xs = before @ x # after" "\<forall>z \<in> set before. f z = None" "f x = Some y" by auto
    with None show ?thesis by (intro exI [of _ "a # before"] exI [of _ x] exI [of _ after]) simp
  next
    case (Some b)
    with Cons.prems show ?thesis by (intro exI [of _ "[]"] exI [of _ a] exI [of _ xs]) simp
  qed
qed simp

lemma common_field:
  fixes T obj
  defines "f \<equiv> \<lambda>field. case obj field of None \<Rightarrow> None
    | Some data \<Rightarrow> (case hook_convertToRecords T data of Inl _ \<Rightarrow> None | Inr records \<Rightarrow> Some records)"
  shows "f name = Some rs \<longleftrightarrow> (\<exists>ms. holds_objects obj name ms \<and> rs = map Some ms)"
    "f name = None \<longleftrightarrow> (\<forall>ms. \<not> holds_objects obj name ms)"
proof -
  show a: "f name = Some rs \<longleftrightarrow> (\<exists>ms. holds_objects obj name ms \<and> rs = map Some ms)" for rs
  proof (cases "obj name")
    case None
    then show ?thesis by (simp add: f_def holds_objects_def)
  next
    case (Some d)
    then have "f name = Some rs \<longleftrightarrow> hook_convertToRecords T d = Inr rs" by (auto simp: f_def split: sum.splits)
    with Some show ?thesis unfolding convert_objects by (auto simp: holds_objects_def)
  qed
  then show "f name = None \<longleftrightarrow> (\<forall>ms. \<not> holds_objects obj name ms)" by (cases "f name") auto
qed

lemma parsed_records:
  assumes "parsePayload env w body = Inr data"
  shows "\<exists>v. he_unmarshal env body = Inr v \<and> payload_records (wh_dataField w) v data"
proof -
  obtain v where v: "he_unmarshal env body = Inr v"
    using assms by (auto simp: parsePayload_def Let_def split: sum.splits)
  show ?thesis
  proof (cases "decode_array (he_type_error env) v")
    case (Inr rs)
    with v assms have "data = rs" by (simp add: parsePayload_def)
    moreover have "as_map x \<noteq> None \<longleftrightarrow> (\<exists>m. x = GMap m)" for x by (cases x) (simp_all add: as_map_def)
    ultimately show ?thesis using Inr v
      by (cases v) (auto simp: decode_array_def payload_records_def list_all_iff split: if_splits)
  next
    case (Inl e)
    with v assms obtain obj where obj: "v = GMap obj"
      by (cases v) (auto simp: parsePayload_def Let_def decode_array_def decode_object_def split: if_splits)
    then have run: "(if wh_dataField w \<noteq> [] then hook_extractDataFromField (he_fmt_T env) obj (wh_dataField w)
        else (case hook_common_records (he_fmt_T env) obj of Some records \<Rightarrow> Inr records | None \<Rightarrow> Inr [Some obj])) = Inr data"
      using v assms Inl by (cases "wh_dataField w = []") (simp_all add: parsePayload_def decode_object_def)
    have "payload_records (wh_dataField w) (GMap obj) data"
    proof (cases "wh_dataField w = []")
      case False
      with run obtain d where "obj (wh_dataField w) = Some d" "hook_convertToRecords (he_fmt_T env) d = Inr data"
        by (auto simp: hook_extractDataFromField_def split: option.splits)
      with False convert_objects show ?thesis by (auto simp: payload_records_def holds_objects_def)
    next
      case field: True
      show ?thesis
      proof (cases "hook_common_records (he_fmt_T env) obj")
        case None
        then have "\<forall>name \<in> set commonFields. \<forall>ms. \<not> holds_objects obj name ms"
          unfolding hook_common_records_def first_some_None common_field by blast
        with None field run show ?thesis by (simp add: payload_records_def commonFields_def)
      next
        case (Some rs)
        from first_some_split [OF Some [unfolded hook_common_records_def], unfolded common_field]
        obtain before name after ms where "commonFields = before @ name # after" "\<forall>z \<in> set before. \<forall>ms. \<not> holds_objects obj z ms"
          "holds_objects obj name ms" "rs = map Some ms" by blast
        moreover have "data = rs" using run field Some by simp
        ultimately show ?thesis using field unfolding payload_records_def commonFields_def by auto
      qed
    qed
    with v obj show ?thesis by blast
  qed
qed

lemma intake_genuine:
  assumes "checkMethodAndPath w r = None" "intake env w r = Inr data"
  shows "genuine env w r data"
proof -
  obtain body where body: "wr_Body r = Inr body" "body \<noteq> []"
    using assms(2) by (auto simp: intake_def readRequestBody_def http_Error_def split: sum.splits if_splits option.splits)
  then have sig: "checkSignature env w r body = None" and parsed: "parsePayload env w body = Inr data"
    using assms(2) by (auto simp: intake_def readRequestBody_def parsePayloadAndLog_def split: option.splits sum.splits)
  have "sg_Type sg \<noteq> ''hmac-sha256'' \<or> sg_Secret sg \<noteq> [] \<and> signed_by env sg r body" if sg: "wh_signature w = Some sg" for sg
  proof (cases "sg_Type sg = ''hmac-sha256''")
    case True
    then have "sg_Secret sg \<noteq> []" using sig sg by (auto simp: checkSignature_def validateSignature_def)
    with True sg sig checkSignature_None show ?thesis by blast
  qed simp
  moreover have "wr_Method r = ''POST''" "wr_Path r = wh_endpoint w"
    using assms(1) by (auto simp: checkMethodAndPath_def split: if_splits)
  ultimately show ?thesis using body parsed_records [OF parsed] by (auto simp: genuine_def option.pred_set)
qed

end
