(* ===== verification/WebhookServer.thy ===== *)
theory WebhookServer
  imports WebhookRequest "HOL-Library.Sublist"
begin

text \<open>
  The webhook server with its goroutines (\<open>internal/modules/input/webhook.go\<close>): the callers of
  \<open>Start\<close>, \<open>Stop\<close> and \<open>Close\<close>, the handlers of requests, the queue workers and the limiter's ticks.
  A step is one access to shared state by one goroutine. The shared fields hold pointers; limiters,
  servers and queues get the next unused number when they are made. \<open>workersOnce\<close> is left out:
  \<open>stopWorkers\<close> is called only in the function that \<open>shutdownOnce\<close> runs at most once.
\<close>

subsection \<open>State\<close>

text \<open>A queued request: the request whose context it carries, and its records.\<close>

type_synonym queuedRequest = "nat \<times> records"

record channel =
  ch_buf :: "queuedRequest list"
  ch_cap :: nat
  ch_closed :: bool

datatype request_pc =
    RGone
  | REntered nat hook_request
  | RAdmitted nat hook_request
  | RParsed nat records
  | RCalling nat records
  | REnqueuing nat records
  | RSending nat records nat
  | RWriting nat
  | RAnswered reply
  | RPanicked

datatype worker_pc = WNone | WSelecting | WHandling | WEnded

datatype panic = NilServer | LimiterClosedTwice | QueueClosedTwice | StopClosedTwice

text \<open>
  A caller of \<open>Start\<close> or \<open>Stop\<close>. From \<open>Stopping\<close> on it is in \<open>shutdown\<close>; \<open>k\<close> is the server error
  \<open>Start\<close> reports in the end, \<open>r\<close> what \<open>server.Shutdown\<close> returned.
\<close>

datatype main_pc =
    MIdle
  | Starting
  | Limiting
  | Serverless
  | Listening nat
  | Unlimiting gerr
  | Unlimited gerr
  | Failing gerr
  | Launching nat
  | Spawning nat nat nat
  | Opening nat
  | Serving nat
  | Broken "gerr option"
  | Stopping "gerr option"
  | Checking "gerr option"
  | Closing "gerr option"
  | Draining nat "gerr option"
  | Halting "gerr option" "gerr option"
  | Halted "gerr option" "gerr option"
  | Taking "gerr option" "gerr option"
  | ClosingQueue "nat option" "nat option" "gerr option" "gerr option"
  | ClosingStop "nat option" "gerr option" "gerr option"
  | Joining "gerr option" "gerr option"
  | MReturned "gerr option"
  | MPanicked panic

datatype once = OncePending | OnceRunning | OnceDone

record server_state =
  sv_running :: bool
  sv_actualAddr :: string
  sv_limiter :: "nat option"
  sv_server :: "nat option"
  sv_queue :: "nat option"
  sv_workerStop :: "nat option"
  sv_shutdownOnce :: once
  sv_limiters :: "nat \<Rightarrow> rateLimiter"
  sv_serving :: "nat \<Rightarrow> bool"
  sv_shut :: "nat \<Rightarrow> bool"
  sv_chans :: "nat \<Rightarrow> channel"
  sv_stops :: "nat \<Rightarrow> bool"
  sv_next :: nat
  sv_main :: "nat \<Rightarrow> main_pc"
  sv_req :: "nat \<Rightarrow> request_pc"
  sv_worker :: "nat \<Rightarrow> nat \<Rightarrow> worker_pc"
  sv_reqs :: "nat \<Rightarrow> hook_request"
  sv_sent :: "nat \<Rightarrow> queuedRequest list"
  sv_calls :: "queuedRequest list"

text \<open>
  The last three fields are history: the request behind each handler, what was ever sent to each
  queue, and the calls of the callback that were begun.
\<close>

record hook_world =
  hw_env :: hook_env
  hw_module :: Webhook
  hw_handler :: bool

subsection \<open>Requests\<close>

definition enqueue :: "nat \<Rightarrow> queuedRequest \<Rightarrow> server_state \<Rightarrow> bool \<times> server_state" where
  "enqueue c item s =
     (let ch = sv_chans s c
      in if length (ch_buf ch) < ch_cap ch
         then (True, s\<lparr>sv_chans := (sv_chans s)(c := ch\<lparr>ch_buf := ch_buf ch @ [item]\<rparr>),
                       sv_sent := (sv_sent s)(c := sv_sent s c @ [item])\<rparr>)
         else (False, s))"

definition queue_full :: reply where
  "queue_full = http_Error ''Queue full'' 429"

text \<open>The next section of the handler of request \<open>t\<close>; \<open>result\<close> is what the callback returns if it is called.\<close>

fun request_section :: "hook_world \<Rightarrow> gerr option \<Rightarrow> nat \<Rightarrow> request_pc \<Rightarrow> server_state \<Rightarrow> request_pc \<times> server_state" where
  "request_section hw result t (REntered g r) s =
     (case checkMethodAndPath (hw_module hw) r of
        Some rep \<Rightarrow> (RAnswered rep, s)
      | None \<Rightarrow>
          (case checkRateLimit (map_option (sv_limiters s) (sv_limiter s)) of
             (rep, l) \<Rightarrow>
               (case rep of Some rep \<Rightarrow> RAnswered rep | None \<Rightarrow> RAdmitted g r,
                case (sv_limiter s, l) of
                  (Some i, Some l) \<Rightarrow> s\<lparr>sv_limiters := (sv_limiters s)(i := l)\<rparr>
                | _ \<Rightarrow> s)))"
| "request_section hw result t (RAdmitted g r) s =
     (case intake (hw_env hw) (hw_module hw) r of
        Inl rep \<Rightarrow> (RAnswered rep, s)
      | Inr data \<Rightarrow> (RParsed g data, s))"
| "request_section hw result t (RParsed g data) s =
     (if \<not> hw_handler hw then (RWriting g, s)
      else if sv_queue s \<noteq> None then (REnqueuing g data, s)
      else (RCalling g data, s))"
| "request_section hw result t (RCalling g data) s =
     (case result of
        None \<Rightarrow> RWriting g
      | Some _ \<Rightarrow> RAnswered (http_Error ''Internal server error'' 500),
      s\<lparr>sv_calls := sv_calls s @ [(t, data)]\<rparr>)"
| "request_section hw result t (REnqueuing g data) s =
     (case sv_queue s of
        None \<Rightarrow> (RAnswered queue_full, s)
      | Some c \<Rightarrow> (RSending g data c, s))"
| "request_section hw result t (RSending g data c) s =
     (if ch_closed (sv_chans s c) then (RPanicked, s)
      else (case enqueue c (t, data) s of
              (True, s) \<Rightarrow> (RWriting g, s)
            | (False, s) \<Rightarrow> (RAnswered queue_full, s)))"
| "request_section hw result t (RWriting g) s = (RAnswered (writeSuccessResponse (sv_queue s \<noteq> None)), s)"
| "request_section hw result t p s = (p, s)"

fun request_server :: "request_pc \<Rightarrow> nat option" where
  "request_server (REntered g r) = Some g"
| "request_server (RAdmitted g r) = Some g"
| "request_server (RParsed g data) = Some g"
| "request_server (RCalling g data) = Some g"
| "request_server (REnqueuing g data) = Some g"
| "request_server (RSending g data c) = Some g"
| "request_server (RWriting g) = Some g"
| "request_server p = None"

subsection \<open>Start, Stop and shutdown\<close>

definition workers :: "Webhook \<Rightarrow> nat" where
  "workers w = nat (if wh_maxConcurrent w \<le> 0 then 1 else wh_maxConcurrent w)"

definition no_requests :: "server_state \<Rightarrow> nat \<Rightarrow> bool" where
  "no_requests s g \<longleftrightarrow> (\<forall>t. request_server (sv_req s t) \<noteq> Some g)"

definition workers_done :: "server_state \<Rightarrow> bool" where
  "workers_done s \<longleftrightarrow> (\<forall>c i. sv_worker s c i \<in> {WNone, WEnded})"

text \<open>What the caller meets outside: the listener, the server, the context and signals.\<close>

datatype answer = Go | ListenFails gerr | Quit | ServeFails gerr | Deadline gerr

text \<open>\<open>shutdownOnce\<close> is over: what \<open>shutdown\<close>, and \<open>Start\<close> after it, return.\<close>

definition shutdown_returns :: "gerr option \<Rightarrow> gerr option \<Rightarrow> main_pc" where
  "shutdown_returns k r =
     MReturned (case k of
        Some err \<Rightarrow> Some (errorf (''webhook server error: '' @ err_text err) err)
      | None \<Rightarrow> map_option (\<lambda>e. errorf (''shutting down webhook server: '' @ err_text e) e) r)"

definition stop_limiter :: "main_pc \<Rightarrow> main_pc \<Rightarrow> server_state \<Rightarrow> main_pc \<times> server_state" where
  "stop_limiter stopped skip s =
     (case sv_limiter s of
        None \<Rightarrow> (skip, s)
      | Some i \<Rightarrow>
          if lm_stopped (sv_limiters s i) then (MPanicked LimiterClosedTwice, s)
          else (stopped, s\<lparr>sv_limiters := (sv_limiters s)(i := (sv_limiters s i)\<lparr>lm_stopped := True\<rparr>)\<rparr>))"

text \<open>The next section of \<open>stopWorkers\<close>, of \<open>shutdown\<close> and of \<open>Start\<close>; \<open>None\<close> when the caller waits.\<close>

fun stop_section :: "main_pc \<Rightarrow> server_state \<Rightarrow> (main_pc \<times> server_state) option" where
  "stop_section (Halting k r) s = Some (stop_limiter (Halted k r) (Taking k r) s)"
| "stop_section (Halted k r) s = Some (Taking k r, s\<lparr>sv_limiter := None\<rparr>)"
| "stop_section (Taking k r) s =
     Some (ClosingQueue (sv_queue s) (sv_workerStop s) k r, s\<lparr>sv_queue := None, sv_workerStop := None\<rparr>)"
| "stop_section (ClosingQueue q st k r) s =
     Some (case q of
             None \<Rightarrow> (ClosingStop st k r, s)
           | Some c \<Rightarrow>
               if ch_closed (sv_chans s c) then (MPanicked QueueClosedTwice, s)
               else (ClosingStop st k r, s\<lparr>sv_chans := (sv_chans s)(c := (sv_chans s c)\<lparr>ch_closed := True\<rparr>)\<rparr>))"
| "stop_section (ClosingStop st k r) s =
     Some (case st of
             None \<Rightarrow> (Joining k r, s)
           | Some c \<Rightarrow>
               if sv_stops s c then (MPanicked StopClosedTwice, s)
               else (Joining k r, s\<lparr>sv_stops := (sv_stops s)(c := True)\<rparr>))"
| "stop_section (Joining k r) s =
     (if workers_done s then Some (shutdown_returns k r, s\<lparr>sv_shutdownOnce := OnceDone\<rparr>) else None)"
| "stop_section p s = None"

fun shutdown_section :: "answer \<Rightarrow> main_pc \<Rightarrow> server_state \<Rightarrow> (main_pc \<times> server_state) option" where
  "shutdown_section a (Stopping k) s =
     (case sv_shutdownOnce s of
        OncePending \<Rightarrow> Some (Checking k, s\<lparr>sv_shutdownOnce := OnceRunning\<rparr>)
      | OnceRunning \<Rightarrow> None
      | OnceDone \<Rightarrow> Some (shutdown_returns k None, s))"
| "shutdown_section a (Checking k) s =
     Some (if \<not> sv_running s then (shutdown_returns k None, s\<lparr>sv_shutdownOnce := OnceDone\<rparr>)
           else (Closing k, s\<lparr>sv_running := False\<rparr>))"
| "shutdown_section a (Closing k) s =
     Some (case sv_server s of
             None \<Rightarrow> (MPanicked NilServer, s)
           | Some g \<Rightarrow> (Draining g k, s\<lparr>sv_shut := (sv_shut s)(g := True), sv_serving := (sv_serving s)(g := False)\<rparr>))"
| "shutdown_section a (Draining g k) s =
     (case a of
        Deadline err \<Rightarrow> Some (Halting k (Some err), s)
      | _ \<Rightarrow> if no_requests s g then Some (Halting k None, s) else None)"
| "shutdown_section a p s = stop_section p s"

fun main_section :: "hook_world \<Rightarrow> answer \<Rightarrow> string \<Rightarrow> main_pc \<Rightarrow> server_state \<Rightarrow> (main_pc \<times> server_state) option" where
  "main_section hw a addr Starting s =
     Some (if sv_running s then (MReturned (Some (plain_error ''webhook server already running'')), s)
           else (Limiting, s\<lparr>sv_running := True\<rparr>))"
| "main_section hw a addr Limiting s =
     Some (Serverless,
       case wh_rateLimit (hw_module hw) of
         None \<Rightarrow> s
       | Some rl \<Rightarrow>
           if rl_RequestsPerSecond rl > 0
           then (case newRateLimiter (rl_RequestsPerSecond rl) (rl_Burst rl) of
                   None \<Rightarrow> s\<lparr>sv_limiter := None\<rparr>
                 | Some l \<Rightarrow> s\<lparr>sv_limiter := Some (sv_next s), sv_limiters := (sv_limiters s)(sv_next s := l), sv_next := Suc (sv_next s)\<rparr>)
           else s)"
| "main_section hw a addr Serverless s = Some (Listening (sv_next s), s\<lparr>sv_server := Some (sv_next s), sv_next := Suc (sv_next s)\<rparr>)"
| "main_section hw a addr (Listening g) s =
     (case a of
        ListenFails err \<Rightarrow> Some (Unlimiting err, s)
      | _ \<Rightarrow> Some (Launching g, s\<lparr>sv_actualAddr := addr\<rparr>))"
| "main_section hw a addr (Unlimiting err) s = Some (stop_limiter (Unlimited err) (Failing err) s)"
| "main_section hw a addr (Unlimited err) s = Some (Failing err, s\<lparr>sv_limiter := None\<rparr>)"
| "main_section hw a addr (Failing err) s =
     Some (MReturned (Some (errorf (''starting webhook listener: '' @ err_text err) err)), s\<lparr>sv_running := False\<rparr>)"
| "main_section hw a addr (Launching g) s =
     Some (if \<not> hw_handler hw \<or> wh_queueSize (hw_module hw) \<le> 0 \<or> sv_queue s \<noteq> None then (Opening g, s)
           else (let c = sv_next s
                 in (Spawning g c 0,
                     s\<lparr>sv_next := Suc c, sv_queue := Some c, sv_workerStop := Some c,
                       sv_chans := (sv_chans s)(c := \<lparr>ch_buf = [], ch_cap = nat (wh_queueSize (hw_module hw)), ch_closed = False\<rparr>),
                       sv_stops := (sv_stops s)(c := False)\<rparr>)))"
| "main_section hw a addr (Spawning g c n) s =
     Some (if n < workers (hw_module hw)
           then (Spawning g c (Suc n), s\<lparr>sv_worker := (sv_worker s)(c := (sv_worker s c)(n := WSelecting))\<rparr>)
           else (Opening g, s))"
| "main_section hw a addr (Opening g) s = Some (Serving g, s\<lparr>sv_serving := (sv_serving s)(g := \<not> sv_shut s g)\<rparr>)"
| "main_section hw a addr (Serving g) s =
     (case a of
        Quit \<Rightarrow> Some (Stopping None, s)
      | ServeFails err \<Rightarrow> if sv_serving s g then Some (Broken (Some err), s\<lparr>sv_serving := (sv_serving s)(g := False)\<rparr>) else None
      | _ \<Rightarrow> if sv_shut s g then Some (Broken None, s) else None)"
| "main_section hw a addr (Broken k) s = Some (Stopping k, s\<lparr>sv_running := False\<rparr>)"
| "main_section hw a addr p s = shutdown_section a p s"

subsection \<open>Steps\<close>

inductive hook_step :: "hook_world \<Rightarrow> server_state \<Rightarrow> server_state \<Rightarrow> bool" for hw where
  call_Start: "sv_main s t \<in> {MIdle} \<union> range MReturned \<Longrightarrow> hook_step hw s (s\<lparr>sv_main := (sv_main s)(t := Starting)\<rparr>)"
| call_Stop: "sv_main s t \<in> {MIdle} \<union> range MReturned \<Longrightarrow> hook_step hw s (s\<lparr>sv_main := (sv_main s)(t := Stopping None)\<rparr>)"
| main: "main_section hw a addr (sv_main s t) s = Some (p, s') \<Longrightarrow> hook_step hw s (s'\<lparr>sv_main := (sv_main s')(t := p)\<rparr>)"
| arrive: "sv_req s t = RGone \<Longrightarrow> sv_serving s g
    \<Longrightarrow> hook_step hw s (s\<lparr>sv_req := (sv_req s)(t := REntered g r), sv_reqs := (sv_reqs s)(t := r)\<rparr>)"
| request: "request_server (sv_req s t) \<noteq> None \<Longrightarrow> request_section hw result t (sv_req s t) s = (p, s')
    \<Longrightarrow> hook_step hw s (s'\<lparr>sv_req := (sv_req s')(t := p)\<rparr>)"
| worker_take: "sv_worker s c i = WSelecting \<Longrightarrow> ch_buf (sv_chans s c) = item # rest
    \<Longrightarrow> hook_step hw s (s\<lparr>sv_chans := (sv_chans s)(c := (sv_chans s c)\<lparr>ch_buf := rest\<rparr>),
          sv_calls := sv_calls s @ [item],
          sv_worker := (sv_worker s)(c := (sv_worker s c)(i := WHandling))\<rparr>)"
| worker_handled: "sv_worker s c i = WHandling
    \<Longrightarrow> hook_step hw s (s\<lparr>sv_worker := (sv_worker s)(c := (sv_worker s c)(i := WSelecting))\<rparr>)"
| worker_end: "sv_worker s c i = WSelecting \<Longrightarrow> sv_stops s c \<or> ch_closed (sv_chans s c) \<and> ch_buf (sv_chans s c) = []
    \<Longrightarrow> hook_step hw s (s\<lparr>sv_worker := (sv_worker s)(c := (sv_worker s c)(i := WEnded))\<rparr>)"
| tick: "hook_step hw s (s\<lparr>sv_limiters := (sv_limiters s)(i := refill (sv_limiters s i))\<rparr>)"

definition server_start :: "server_state" where
  "server_start =
     \<lparr>sv_running = False, sv_actualAddr = [], sv_limiter = None, sv_server = None, sv_queue = None, sv_workerStop = None,
      sv_shutdownOnce = OncePending, sv_limiters = (\<lambda>_. \<lparr>lm_tokens = 0, lm_burst = 0, lm_interval = 1, lm_stopped = False\<rparr>),
      sv_serving = (\<lambda>_. False), sv_shut = (\<lambda>_. False),
      sv_chans = (\<lambda>_. \<lparr>ch_buf = [], ch_cap = 0, ch_closed = False\<rparr>), sv_stops = (\<lambda>_. False), sv_next = 0,
      sv_main = (\<lambda>_. MIdle), sv_req = (\<lambda>_. RGone), sv_worker = (\<lambda>_ _. WNone),
      sv_reqs = (\<lambda>_. \<lparr>wr_Method = [], wr_Path = [], wr_Get = (\<lambda>_. []), wr_Body = Inr []\<rparr>),
      sv_sent = (\<lambda>_. []), sv_calls = []\<rparr>"

inductive hook_reach :: "hook_world \<Rightarrow> server_state \<Rightarrow> bool" for hw where
  start: "hook_reach hw server_start"
| step: "hook_reach hw s \<Longrightarrow> hook_step hw s s' \<Longrightarrow> hook_reach hw s'"


subsection \<open>Every request is handled at most once\<close>

abbreviation buffer :: "server_state \<Rightarrow> nat \<Rightarrow> queuedRequest list" where
  "buffer s c \<equiv> ch_buf (sv_chans s c)"

text \<open>Numbers from \<open>sv_next\<close> on are unused: no field and no goroutine holds one.\<close>

fun main_uses :: "main_pc \<Rightarrow> nat set" where
  "main_uses (Spawning g c n) = {c}"
| "main_uses (ClosingQueue q st k r) = set_option q \<union> set_option st"
| "main_uses (ClosingStop st k r) = set_option st"
| "main_uses p = {}"

fun request_uses :: "request_pc \<Rightarrow> nat set" where
  "request_uses (RSending g data c) = {c}"
| "request_uses p = {}"

definition pristine :: "server_state \<Rightarrow> nat \<Rightarrow> bool" where
  "pristine s c \<longleftrightarrow> buffer s c = [] \<and> sv_sent s c = [] \<and> \<not> ch_closed (sv_chans s c) \<and> \<not> sv_stops s c
     \<and> (\<forall>i. sv_worker s c i = WNone)"

lemma pristine_fields [simp]:
  "pristine (s\<lparr>sv_main := m\<rparr>) c = pristine s c" "pristine (s\<lparr>sv_req := q\<rparr>) c = pristine s c"
  by (simp_all add: pristine_def)

definition unused_ok :: "server_state \<Rightarrow> bool" where
  "unused_ok s \<longleftrightarrow>
     (\<forall>c \<ge> sv_next s. pristine s c)
     \<and> set_option (sv_queue s) \<union> set_option (sv_workerStop s) \<subseteq> {..<sv_next s}
     \<and> (\<forall>t. main_uses (sv_main s t) \<subseteq> {..<sv_next s}) \<and> (\<forall>t. request_uses (sv_req s t) \<subseteq> {..<sv_next s})"

lemmas main_splits = if_split_asm option.split_asm answer.split_asm prod.split_asm once.split_asm

lemmas main_defs = Let_def stop_limiter_def shutdown_returns_def

lemma main_section_frame:
  assumes "main_section hw a addr p s = Some (p', s')" "unused_ok s"
  shows "buffer s' = buffer s \<and> sv_sent s' = sv_sent s \<and> sv_calls s' = sv_calls s \<and> sv_req s' = sv_req s
    \<and> sv_reqs s' = sv_reqs s \<and> sv_main s' = sv_main s \<and> sv_next s \<le> sv_next s'"
proof -
  have "buffer s (sv_next s) = []" using assms(2) by (auto simp: unused_ok_def pristine_def)
  with assms(1) show ?thesis
    by (cases p) (auto simp: fun_eq_iff main_defs split: main_splits)
qed

lemma main_section_unused:
  assumes "main_section hw a addr p s = Some (p', s')" "unused_ok s" "main_uses p \<subseteq> {..<sv_next s}"
  shows "(\<forall>c \<ge> sv_next s'. pristine s' c) \<and> set_option (sv_queue s') \<union> set_option (sv_workerStop s') \<subseteq> {..<sv_next s'}
    \<and> main_uses p' \<subseteq> {..<sv_next s'}"
proof -
  have "\<forall>c \<ge> sv_next s. pristine s c" "\<forall>c \<ge> Suc (sv_next s). pristine s c"
      "set_option (sv_queue s) \<subseteq> {..<sv_next s}" "set_option (sv_workerStop s) \<subseteq> {..<sv_next s}"
      "set_option (sv_queue s) \<subseteq> {..<Suc (sv_next s)}" "set_option (sv_workerStop s) \<subseteq> {..<Suc (sv_next s)}"
    using assms(2) by (auto simp: unused_ok_def)
  with assms(1,3) show ?thesis
    by (cases p) (auto simp: main_defs pristine_def split: main_splits)
qed

lemma enqueue_cases:
  assumes "enqueue c item s = (ok, s')"
  shows "s' = (if ok then s\<lparr>sv_chans := (sv_chans s)(c := (sv_chans s c)\<lparr>ch_buf := buffer s c @ [item]\<rparr>),
                          sv_sent := (sv_sent s)(c := sv_sent s c @ [item])\<rparr> else s)
    \<and> ok = (length (buffer s c) < ch_cap (sv_chans s c))"
  using assms by (auto simp: enqueue_def Let_def split: if_splits)

lemma request_section_frame:
  assumes "request_section hw result t p s = (p', s')"
  shows "sv_next s' = sv_next s \<and> sv_main s' = sv_main s \<and> sv_queue s' = sv_queue s \<and> sv_workerStop s' = sv_workerStop s
    \<and> sv_stops s' = sv_stops s \<and> sv_worker s' = sv_worker s \<and> sv_req s' = sv_req s \<and> sv_reqs s' = sv_reqs s
    \<and> sv_shutdownOnce s' = sv_shutdownOnce s
    \<and> (\<forall>c. c \<notin> request_uses p \<longrightarrow> sv_chans s' c = sv_chans s c \<and> sv_sent s' c = sv_sent s c)
    \<and> (\<forall>c. ch_closed (sv_chans s' c) = ch_closed (sv_chans s c) \<and> ch_cap (sv_chans s' c) = ch_cap (sv_chans s c))
    \<and> request_uses p' \<subseteq> set_option (sv_queue s) \<union> request_uses p"
proof (cases p)
  case (RSending g data c)
  obtain ok u where e: "enqueue c (t, data) s = (ok, u)" by fastforce
  from enqueue_cases [OF e] assms e RSending show ?thesis by (cases ok) (auto split: if_splits)
qed (use assms in \<open>auto split: if_splits option.splits sum.splits prod.splits\<close>)

lemma unused_step:
  assumes "hook_step hw s s'" "unused_ok s"
  shows "unused_ok s'"
  using assms(1)
proof cases
  case (main a addr t p u)
  note frame = main_section_frame [OF main(2) assms(2)]
  then have n: "sv_next s \<le> sv_next u" and m: "sv_main u = sv_main s" and q: "sv_req u = sv_req s" by auto
  have own: "main_uses (sv_main s x) \<subseteq> {..<sv_next u}" "request_uses (sv_req s x) \<subseteq> {..<sv_next u}" for x
    using assms(2) n unfolding unused_ok_def by (meson lessThan_subset_iff subset_trans)+
  have "main_uses (sv_main s t) \<subseteq> {..<sv_next s}" using assms(2) unfolding unused_ok_def by blast
  from main_section_unused [OF main(2) assms(2) this]
  have new: "\<forall>c \<ge> sv_next u. pristine u c" "set_option (sv_queue u) \<union> set_option (sv_workerStop u) \<subseteq> {..<sv_next u}"
    "main_uses p \<subseteq> {..<sv_next u}" by blast+
  then have "main_uses (((sv_main s)(t := p)) x) \<subseteq> {..<sv_next u}" for x using own(1) by (simp only: fun_upd_apply split: if_split) blast
  with new own(2) show ?thesis unfolding main(1) unused_ok_def by (simp add: m q del: fun_upd_apply)
next
  case (request t result p u)
  note frame = request_section_frame [OF request(3)]
  have old: "request_uses (sv_req s t) \<subseteq> {..<sv_next s}" "\<forall>c \<ge> sv_next s. pristine s c"
    "set_option (sv_queue s) \<subseteq> {..<sv_next s}" using assms(2) by (auto simp: unused_ok_def)
  then have "pristine u c" if "sv_next s \<le> c" for c
    using that frame by (metis (no_types, lifting) lessThan_iff linorder_not_le pristine_def subsetD)
  moreover have "request_uses p \<subseteq> {..<sv_next s}" using old frame by blast
  ultimately show ?thesis using assms(2) frame unfolding request(1) unused_ok_def by (simp del: fun_upd_apply) auto
qed (use assms(2) in \<open>auto simp: unused_ok_def pristine_def\<close>)


text \<open>
  Where the data of a request is: not accepted yet or refused, or in a queue or handed to the
  callback. \<open>settled\<close> answers tell the sender that its data was taken.
\<close>

definition fresh_id :: "server_state \<Rightarrow> nat \<Rightarrow> bool" where
  "fresh_id s t \<longleftrightarrow> t \<notin> fst ` set (sv_calls s) \<and> (\<forall>c. t \<notin> fst ` set (buffer s c))"

fun untouched :: "request_pc \<Rightarrow> bool" where
  "untouched (RAnswered rep) = (fst rep \<notin> {200, 202, 500})"
| "untouched (RWriting g) = False"
| "untouched p = True"

fun settled :: "request_pc \<Rightarrow> bool" where
  "settled (RAnswered rep) = (fst rep \<in> {200, 202})"
| "settled (RWriting g) = True"
| "settled p = False"

definition items_ok :: "hook_world \<Rightarrow> server_state \<Rightarrow> bool" where
  "items_ok hw s \<longleftrightarrow>
     distinct (map fst (sv_calls s)) \<and> (\<forall>c. distinct (map fst (buffer s c)))
     \<and> (\<forall>c. fst ` set (buffer s c) \<inter> fst ` set (sv_calls s) = {})
     \<and> (\<forall>c c'. c \<noteq> c' \<longrightarrow> fst ` set (buffer s c) \<inter> fst ` set (buffer s c') = {})
     \<and> (\<forall>t. untouched (sv_req s t) \<longrightarrow> fresh_id s t)
     \<and> (\<forall>t. settled (sv_req s t) \<longrightarrow> \<not> hw_handler hw \<or> \<not> fresh_id s t)"

text \<open>What a section of a request does to the queues and the calls.\<close>

definition hands_over :: "nat \<Rightarrow> server_state \<Rightarrow> request_pc \<Rightarrow> server_state \<Rightarrow> bool" where
  "hands_over t s p s' \<longleftrightarrow>
     buffer s' = buffer s \<and> sv_calls s' = sv_calls s \<and> sv_sent s' = sv_sent s \<and> untouched p
     \<or> (\<exists>data. buffer s' = buffer s \<and> sv_calls s' = sv_calls s @ [(t, data)] \<and> sv_sent s' = sv_sent s \<and> \<not> untouched p)
     \<or> (\<exists>data c. buffer s' = (buffer s)(c := buffer s c @ [(t, data)]) \<and> sv_calls s' = sv_calls s
          \<and> sv_sent s' = (sv_sent s)(c := sv_sent s c @ [(t, data)]) \<and> \<not> untouched p)"

lemma refusals:
  "fst queue_full \<notin> {200, 202, 500}"
  "checkMethodAndPath w r = Some rep \<Longrightarrow> fst rep \<notin> {200, 202, 500}"
  "checkRateLimit l = (Some rep, l') \<Longrightarrow> fst rep \<notin> {200, 202, 500}"
  "intake env w r = Inl rep \<Longrightarrow> fst rep \<notin> {200, 202, 500}"
  "fst (writeSuccessResponse q) \<in> {200, 202}"
  by (auto simp: queue_full_def http_Error_def checkMethodAndPath_def checkRateLimit_def intake_def readRequestBody_def
      checkSignature_def parsePayloadAndLog_def writeSuccessResponse_def split: if_splits sum.splits option.splits prod.splits bool.splits)

lemma request_section_hands:
  assumes "request_section hw result t p s = (p', s')" "request_server p \<noteq> None" "untouched p"
  shows "hands_over t s p' s' \<or> \<not> hw_handler hw \<and> p' \<noteq> RGone \<and> settled p' \<and> buffer s' = buffer s \<and> sv_calls s' = sv_calls s
           \<and> sv_sent s' = sv_sent s"
  using assms
proof (cases p)
  case (REntered g r)
  with assms(1) refusals(2) [of "hw_module hw" r] refusals(3) [of "map_option (sv_limiters s) (sv_limiter s)"] show ?thesis
    by (cases "checkMethodAndPath (hw_module hw) r"; cases "checkRateLimit (map_option (sv_limiters s) (sv_limiter s))")
       (auto simp: hands_over_def split: option.splits)
next
  case (RAdmitted g r)
  with assms(1) refusals(4) [of "hw_env hw" "hw_module hw" r] show ?thesis
    by (auto simp: hands_over_def split: sum.splits)
next
  case (RCalling g data)
  with assms(1) show ?thesis by (auto simp: hands_over_def http_Error_def split: option.splits)
next
  case (RSending g data c)
  obtain ok u where e: "enqueue c (t, data) s = (ok, u)" by fastforce
  show ?thesis
  proof (cases "\<not> ch_closed (sv_chans s c) \<and> ok")
    case True
    with e assms(1) RSending have "p' = RWriting g" "s' = u" by auto
    moreover from True enqueue_cases [OF e] have "buffer u = (buffer s)(c := buffer s c @ [(t, data)])" "sv_calls u = sv_calls s"
      "sv_sent u = (sv_sent s)(c := sv_sent s c @ [(t, data)])" by (simp_all add: fun_eq_iff)
    ultimately show ?thesis unfolding hands_over_def by (metis untouched.simps(2))
  next
    case False
    with e enqueue_cases [OF e] assms(1) RSending refusals(1) have "untouched p'" "s' = s" by (auto split: if_splits)
    then show ?thesis by (simp add: hands_over_def)
  qed
qed (use assms refusals(1) in \<open>auto simp: hands_over_def split: if_splits option.splits\<close>)


lemma fresh_append: "fst ` set (xs @ [(t, d)]) = insert t (fst ` set xs)"
  by simp

lemma items_hand_over:
  assumes "items_ok hw s" "hands_over t s p s'" "untouched (sv_req s t)" "sv_req s' = sv_req s"
    and set: "settled p \<Longrightarrow> \<not> untouched p"
  shows "items_ok hw (s'\<lparr>sv_req := (sv_req s')(t := p)\<rparr>)"
proof -
  have t: "t \<notin> fst ` set (sv_calls s)" "\<And>c. t \<notin> fst ` set (buffer s c)"
    using assms(1,3) unfolding items_ok_def fresh_id_def by blast+
  have un: "untouched p \<Longrightarrow> \<not> settled p" by (cases p rule: untouched.cases) auto
  consider (same) "buffer s' = buffer s" "sv_calls s' = sv_calls s" "untouched p"
    | (called) data where "buffer s' = buffer s" "sv_calls s' = sv_calls s @ [(t, data)]" "\<not> untouched p"
    | (queued) data c where "buffer s' = (buffer s)(c := buffer s c @ [(t, data)])" "sv_calls s' = sv_calls s" "\<not> untouched p"
    using assms(2) unfolding hands_over_def by blast
  then show ?thesis
  proof cases
    case same
    from same(1) have b: "buffer s' c = buffer s c" for c by (rule fun_cong)
    from same assms(1,4) t un show ?thesis by (auto simp: items_ok_def fresh_id_def b)
  next
    case called
    from called(1) have b: "buffer s' c = buffer s c" for c by (rule fun_cong)
    from called assms(1,4) t show ?thesis by (auto simp: items_ok_def fresh_id_def b)
  next
    case queued
    from queued(1) have b: "buffer s' c' = (if c' = c then buffer s c @ [(t, data)] else buffer s c')" for c' by (simp add: fun_eq_iff)
    from queued assms(1,4) t show ?thesis by (auto simp: items_ok_def fresh_id_def b) metis
  qed
qed

end
