(* ===== verification/WebhookRuns.thy ===== *)
theory WebhookRuns
  imports WebhookServer
begin

text \<open>
  Runs of the webhook server as lists of moves, each of which is a step, and a server that serves:
  the examples of theory \<open>WebhookSafety\<close> are runs from there.
\<close>

datatype move =
    MvStart nat | MvStop nat | MvMain nat answer | MvArrive nat nat hook_request | MvRequest nat "gerr option"
  | MvTake nat nat | MvHandled nat nat | MvEnd nat nat

fun make_move :: "hook_world \<Rightarrow> move \<Rightarrow> server_state \<Rightarrow> server_state option" where
  "make_move hw (MvStart t) s = (if sv_main s t = MIdle then Some (s\<lparr>sv_main := (sv_main s)(t := Starting)\<rparr>) else None)"
| "make_move hw (MvStop t) s = (if sv_main s t = MIdle then Some (s\<lparr>sv_main := (sv_main s)(t := Stopping None)\<rparr>) else None)"
| "make_move hw (MvMain t a) s =
     (case main_section hw a [] (sv_main s t) s of
        None \<Rightarrow> None
      | Some (p, s') \<Rightarrow> Some (s'\<lparr>sv_main := (sv_main s')(t := p)\<rparr>))"
| "make_move hw (MvArrive t g r) s =
     (if sv_req s t = RGone \<and> sv_serving s g
      then Some (s\<lparr>sv_req := (sv_req s)(t := REntered g r), sv_reqs := (sv_reqs s)(t := r)\<rparr>) else None)"
| "make_move hw (MvRequest t result) s =
     (if request_server (sv_req s t) = None then None
      else (case request_section hw result t (sv_req s t) s of (p, s') \<Rightarrow> Some (s'\<lparr>sv_req := (sv_req s')(t := p)\<rparr>)))"
| "make_move hw (MvTake c i) s =
     (case (sv_worker s c i, ch_buf (sv_chans s c)) of
        (WSelecting, item # rest) \<Rightarrow>
          Some (s\<lparr>sv_chans := (sv_chans s)(c := (sv_chans s c)\<lparr>ch_buf := rest\<rparr>), sv_calls := sv_calls s @ [item],
                  sv_worker := (sv_worker s)(c := (sv_worker s c)(i := WHandling))\<rparr>)
      | _ \<Rightarrow> None)"
| "make_move hw (MvHandled c i) s =
     (if sv_worker s c i = WHandling
      then Some (s\<lparr>sv_worker := (sv_worker s)(c := (sv_worker s c)(i := WSelecting))\<rparr>) else None)"
| "make_move hw (MvEnd c i) s =
     (if sv_worker s c i = WSelecting \<and> (sv_stops s c \<or> ch_closed (sv_chans s c) \<and> ch_buf (sv_chans s c) = [])
      then Some (s\<lparr>sv_worker := (sv_worker s)(c := (sv_worker s c)(i := WEnded))\<rparr>) else None)"

lemma make_move_step: "make_move hw mv s = Some s' \<Longrightarrow> hook_step hw s s'"
  by (cases mv) (auto split: if_split_asm option.split_asm prod.split_asm worker_pc.split_asm list.split_asm intro: hook_step.intros)

fun make_moves :: "hook_world \<Rightarrow> move list \<Rightarrow> server_state \<Rightarrow> server_state option" where
  "make_moves hw [] s = Some s"
| "make_moves hw (mv # mvs) s = (case make_move hw mv s of None \<Rightarrow> None | Some s' \<Rightarrow> make_moves hw mvs s')"

lemma make_moves_reach: "make_moves hw mvs s = Some s' \<Longrightarrow> hook_reach hw s \<Longrightarrow> hook_reach hw s'"
  by (induction mvs arbitrary: s) (auto split: option.split_asm intro: hook_reach.step dest: make_move_step)

lemma moves_reach: "make_moves hw mvs server_start = Some s \<Longrightarrow> hook_reach hw s"
  using make_moves_reach hook_reach.start by blast

lemma make_moves_append: "make_moves hw (xs @ ys) s = (case make_moves hw xs s of None \<Rightarrow> None | Some s' \<Rightarrow> make_moves hw ys s')"
  by (induction xs arbitrary: s) (auto split: option.splits)

definition demo_hw :: hook_world where
  "demo_hw =
     \<lparr>hw_env = \<lparr>he_unmarshal = (\<lambda>_. Inr (GArr [])), he_type_error = (\<lambda>_. plain_error []), he_fmt_T = (\<lambda>_. []),
                 he_hmac_sha256 = (\<lambda>_ _. [])\<rparr>,
      hw_module = demo_hook\<lparr>wh_signature := None, wh_rateLimit := None\<rparr>, hw_handler = True\<rparr>"

definition demo_hook_request :: hook_request where
  "demo_hook_request = \<lparr>wr_Method = ''POST'', wr_Path = ''/h'', wr_Get = (\<lambda>_. []), wr_Body = Inr ''[]''\<rparr>"

text \<open>Start the server; it is server 0 and its queue is queue 1.\<close>

definition starting :: "move list" where
  "starting = MvStart 0 # replicate 8 (MvMain 0 Go)"

definition serving_state :: server_state where
  "serving_state =
     server_start\<lparr>sv_running := True, sv_server := Some 0, sv_queue := Some 1, sv_workerStop := Some 1,
       sv_serving := (\<lambda>_. False)(0 := True),
       sv_chans := (\<lambda>_. \<lparr>ch_buf = [], ch_cap = 0, ch_closed = False\<rparr>)(1 := \<lparr>ch_buf = [], ch_cap = 1, ch_closed = False\<rparr>),
       sv_stops := (\<lambda>_. False)(1 := False),
       sv_next := 2, sv_main := (\<lambda>_. MIdle)(0 := Serving 0), sv_worker := (\<lambda>_ _. WNone)(1 := (\<lambda>_. WNone)(0 := WSelecting))\<rparr>"

lemma demo_hw_simps:
  "hw_handler demo_hw" "wh_rateLimit (hw_module demo_hw) = None" "wh_queueSize (hw_module demo_hw) = 1"
  "workers (hw_module demo_hw) = 1" "checkMethodAndPath (hw_module demo_hw) demo_hook_request = None"
  "intake (hw_env demo_hw) (hw_module demo_hw) demo_hook_request = Inr []"
  by (simp_all add: demo_hw_def demo_hook_def workers_def checkMethodAndPath_def demo_hook_request_def intake_def readRequestBody_def
      checkSignature_def parsePayloadAndLog_def parsePayload_def decode_array_def)

lemma starting_run: "make_moves demo_hw starting server_start = Some serving_state"
  by (simp add: starting_def numeral_eq_Suc demo_hw_simps server_start_def serving_state_def Let_def fun_eq_iff)

end
