(* ===== verification/WebhookSafety.thy ===== *)
theory WebhookSafety
  imports WebhookRuns
begin

text \<open>
  What the webhook server guarantees in every interleaving of its goroutines: which requests are
  processed and how often, the bounds of queue and workers, that shutdown closes nothing twice and
  that the workers end, and the runs in which the server does not behave as documented.
\<close>

subsection \<open>The invariants over all runs\<close>

lemma main_items:
  assumes "main_section hw a addr p s = Some (p', u)" "unused_ok s" "items_ok hw s"
  shows "items_ok hw u"
proof -
  have "buffer u = buffer s" and e: "sv_calls u = sv_calls s" "sv_req u = sv_req s"
    using main_section_frame [OF assms(1,2)] by blast+
  then have "buffer u c = buffer s c" for c by (simp add: fun_eq_iff)
  with e assms(3) show ?thesis by (simp add: items_ok_def fresh_id_def)
qed

lemma served_untouched: "request_server p \<noteq> None \<Longrightarrow> untouched p \<or> (\<exists>g. p = RWriting g)"
  by (cases p) auto

lemma fresh_fields [simp]:
  "fresh_id (s\<lparr>sv_main := m\<rparr>) t = fresh_id s t" "fresh_id (s\<lparr>sv_req := q\<rparr>) t = fresh_id s t"
  "fresh_id (s\<lparr>sv_reqs := rs\<rparr>) t = fresh_id s t" "fresh_id (s\<lparr>sv_worker := w\<rparr>) t = fresh_id s t"
  "fresh_id (s\<lparr>sv_limiters := l\<rparr>) t = fresh_id s t"
  by (simp_all add: fresh_id_def)

lemma items_fields [simp]:
  "items_ok hw (s\<lparr>sv_main := m\<rparr>) = items_ok hw s" "items_ok hw (s\<lparr>sv_worker := w\<rparr>) = items_ok hw s"
  "items_ok hw (s\<lparr>sv_limiters := l\<rparr>) = items_ok hw s" "items_ok hw (s\<lparr>sv_reqs := rs\<rparr>) = items_ok hw s"
  by (simp_all add: items_ok_def)

lemma items_set_request:
  assumes "items_ok hw s" "untouched p \<Longrightarrow> fresh_id s t" "settled p \<Longrightarrow> \<not> hw_handler hw \<or> \<not> fresh_id s t"
  shows "items_ok hw (s\<lparr>sv_req := (sv_req s)(t := p)\<rparr>)"
  using assms by (auto simp: items_ok_def)

lemma all_if: "(\<forall>c'. P (if c' = c then a else f c')) \<longleftrightarrow> P a \<and> (\<forall>c'. c' \<noteq> c \<longrightarrow> P (f c'))"
  by auto

lemma items_take:
  assumes "items_ok hw s" "buffer s c = item # rest"
  shows "items_ok hw (s\<lparr>sv_chans := (sv_chans s)(c := (sv_chans s c)\<lparr>ch_buf := rest\<rparr>), sv_calls := sv_calls s @ [item],
           sv_worker := w\<rparr>)"
proof -
  have b: "fst item \<notin> fst ` set (sv_calls s)" "fst item \<notin> fst ` set rest" "distinct (map fst rest)"
    "fst ` set rest \<inter> fst ` set (sv_calls s) = {}"
  proof -
    have "distinct (map fst (buffer s c))" "fst ` set (buffer s c) \<inter> fst ` set (sv_calls s) = {}"
      using assms(1) unfolding items_ok_def by blast+
    then show "fst item \<notin> fst ` set (sv_calls s)" "fst item \<notin> fst ` set rest" "distinct (map fst rest)"
      "fst ` set rest \<inter> fst ` set (sv_calls s) = {}" unfolding assms(2) by auto
  qed
  have o: "fst item \<notin> fst ` set (buffer s c') \<and> fst ` set rest \<inter> fst ` set (buffer s c') = {}" if "c' \<noteq> c" for c'
  proof -
    have "fst ` set (buffer s c) \<inter> fst ` set (buffer s c') = {}" using assms(1) that unfolding items_ok_def by metis
    then show ?thesis unfolding assms(2) by auto
  qed
  let ?v = "s\<lparr>sv_chans := (sv_chans s)(c := (sv_chans s c)\<lparr>ch_buf := rest\<rparr>), sv_calls := sv_calls s @ [item], sv_worker := w\<rparr>"
  have v: "buffer ?v c' = (if c' = c then rest else buffer s c')" "sv_calls ?v = sv_calls s @ [item]" "sv_req ?v = sv_req s" for c'
    by simp_all
  have "fst ` set (sv_calls ?v) = insert (fst item) (fst ` set (sv_calls s))"
    "fst ` set (buffer s c) = insert (fst item) (fst ` set rest)" by (simp_all add: assms(2))
  then have calls: "t \<in> fst ` set (sv_calls ?v) \<longleftrightarrow> t = fst item \<or> t \<in> fst ` set (sv_calls s)"
    and head: "t \<in> fst ` set (buffer s c) \<longleftrightarrow> t = fst item \<or> t \<in> fst ` set rest" for t by blast+
  have queues: "(\<forall>c'. t \<notin> fst ` set (buffer ?v c')) \<longleftrightarrow> t \<notin> fst ` set rest \<and> (\<forall>c'. c' \<noteq> c \<longrightarrow> t \<notin> fst ` set (buffer s c'))" for t
    unfolding v(1) by (rule all_if)
  have old: "(\<forall>c'. t \<notin> fst ` set (buffer s c'))
      \<longleftrightarrow> \<not> (t = fst item \<or> t \<in> fst ` set rest) \<and> (\<forall>c'. c' \<noteq> c \<longrightarrow> t \<notin> fst ` set (buffer s c'))" for t
    unfolding head [symmetric] by (rule iffI; metis)
  have fr: "fresh_id ?v t = fresh_id s t" for t
    unfolding fresh_id_def calls queues old de_Morgan_disj by (simp only: conj_ac)
  have i: "distinct (map fst (sv_calls s))" "\<And>c. distinct (map fst (buffer s c))"
    "\<And>c. fst ` set (buffer s c) \<inter> fst ` set (sv_calls s) = {}"
    "\<And>c c'. c \<noteq> c' \<Longrightarrow> fst ` set (buffer s c) \<inter> fst ` set (buffer s c') = {}"
    using assms(1) unfolding items_ok_def by blast+
  show ?thesis unfolding items_ok_def fr v(3)
  proof (intro conjI)
    show "distinct (map fst (sv_calls ?v))" using i(1) b(1) by simp
    show "\<forall>c. distinct (map fst (buffer ?v c))" unfolding v(1) using i(2) b(3) by simp
    show "\<forall>c'. fst ` set (buffer ?v c') \<inter> fst ` set (sv_calls ?v) = {}"
    proof
      fix c'
      show "fst ` set (buffer ?v c') \<inter> fst ` set (sv_calls ?v) = {}"
        unfolding v(1,2) fresh_append [of "sv_calls s" "fst item" "snd item", simplified prod.collapse]
        using i(3) [of c'] b o [of c'] by (cases "c' = c") auto
    qed
    show "\<forall>d d'. d \<noteq> d' \<longrightarrow> fst ` set (buffer ?v d) \<inter> fst ` set (buffer ?v d') = {}"
    proof (intro allI impI)
      fix d d' :: nat
      assume ne: "d \<noteq> d'"
      show "fst ` set (buffer ?v d) \<inter> fst ` set (buffer ?v d') = {}"
        unfolding v(1) using i(4) [OF ne] o [of d] o [of d'] ne by (cases "d = c"; cases "d' = c") auto
    qed
    show "\<forall>t. untouched (sv_req s t) \<longrightarrow> fresh_id s t" "\<forall>t. settled (sv_req s t) \<longrightarrow> \<not> hw_handler hw \<or> \<not> fresh_id s t"
      using assms(1) unfolding items_ok_def by blast+
  qed
qed

lemma items_step:
  assumes "hook_step hw s s'" "unused_ok s" "items_ok hw s"
  shows "items_ok hw s'"
  using assms(1)
proof cases
  case (main a addr t p u)
  with main_items [OF main(2) assms(2,3)] show ?thesis by simp
next
  case (arrive t g r)
  have "fresh_id s t" using assms(3) arrive(2) by (simp add: items_ok_def)
  with items_set_request [OF assms(3), of "REntered g r" t] show ?thesis unfolding arrive(1) by (simp add: items_ok_def)
next
  case (request t result p u)
  show ?thesis
  proof (cases "untouched (sv_req s t)")
    case True
    have set: "settled q \<Longrightarrow> \<not> untouched q" for q by (cases q) auto
    from request_section_hands [OF request(3,2) True] show ?thesis
    proof
      assume "hands_over t s p u"
      from items_hand_over [OF assms(3) this True] set request_section_frame [OF request(3)] show ?thesis
        unfolding request(1) by simp
    next
      assume h: "\<not> hw_handler hw \<and> p \<noteq> RGone \<and> settled p \<and> buffer u = buffer s \<and> sv_calls u = sv_calls s \<and> sv_sent u = sv_sent s"
      then have "buffer u c = buffer s c" for c by (simp add: fun_eq_iff)
      then have "items_ok hw u" using h assms(3) request_section_frame [OF request(3)] by (simp add: items_ok_def fresh_id_def)
      from items_set_request [OF this, of p t] h set show ?thesis unfolding request(1) by blast
    qed
  next
    case False
    with served_untouched [OF request(2)] obtain g where g: "sv_req s t = RWriting g" by blast
    then have "u = s" "p = RAnswered (writeSuccessResponse (sv_queue s \<noteq> None))" using request(3) by auto
    moreover have "\<not> hw_handler hw \<or> \<not> fresh_id s t" using assms(3) g unfolding items_ok_def by (metis settled.simps(2))
    moreover have "\<not> untouched p" using calculation(2) refusals(5) [of "sv_queue s \<noteq> None"] by auto
    ultimately show ?thesis using items_set_request [OF assms(3), of p t] unfolding request(1) by metis
  qed
next
  case (worker_take c i item rest)
  then show ?thesis using items_take [OF assms(3)] by simp
qed (use assms(3) in simp_all)

text \<open>Whose data it is: everything queued or handed to the callback stems from a genuine request.\<close>

fun request_ok :: "hook_world \<Rightarrow> hook_request \<Rightarrow> request_pc \<Rightarrow> bool" where
  "request_ok hw rq (REntered g r) = (r = rq)"
| "request_ok hw rq (RAdmitted g r) = (r = rq \<and> checkMethodAndPath (hw_module hw) r = None)"
| "request_ok hw rq (RParsed g data) = genuine (hw_env hw) (hw_module hw) rq data"
| "request_ok hw rq (RCalling g data) = genuine (hw_env hw) (hw_module hw) rq data"
| "request_ok hw rq (REnqueuing g data) = genuine (hw_env hw) (hw_module hw) rq data"
| "request_ok hw rq (RSending g data c) = genuine (hw_env hw) (hw_module hw) rq data"
| "request_ok hw rq p = True"

definition from_genuine :: "hook_world \<Rightarrow> server_state \<Rightarrow> queuedRequest \<Rightarrow> bool" where
  "from_genuine hw s item \<longleftrightarrow> genuine (hw_env hw) (hw_module hw) (sv_reqs s (fst item)) (snd item)"

definition genuine_ok :: "hook_world \<Rightarrow> server_state \<Rightarrow> bool" where
  "genuine_ok hw s \<longleftrightarrow>
     (\<forall>item \<in> set (sv_calls s). from_genuine hw s item) \<and> (\<forall>c. \<forall>item \<in> set (buffer s c). from_genuine hw s item)
     \<and> (\<forall>t. request_ok hw (sv_reqs s t) (sv_req s t))"

lemma request_section_genuine:
  assumes "request_section hw result t p s = (p', s')" "request_ok hw rq p"
  shows "request_ok hw rq p'
    \<and> (\<forall>item \<in> set (sv_calls s'). item \<in> set (sv_calls s) \<or> fst item = t \<and> genuine (hw_env hw) (hw_module hw) rq (snd item))
    \<and> (\<forall>c. \<forall>item \<in> set (buffer s' c). item \<in> set (buffer s c) \<or> fst item = t \<and> genuine (hw_env hw) (hw_module hw) rq (snd item))"
proof (cases p)
  case (RSending g data c)
  obtain ok u where e: "enqueue c (t, data) s = (ok, u)" by fastforce
  from enqueue_cases [OF e] assms e RSending show ?thesis by (cases ok) (auto split: if_splits)
next
  case (RAdmitted g r)
  with assms intake_genuine [of "hw_module hw" r "hw_env hw"] show ?thesis by (auto split: sum.splits)
qed (use assms in \<open>auto split: if_splits option.splits prod.splits\<close>)

lemma genuine_step:
  assumes "hook_step hw s s'" "unused_ok s" "items_ok hw s" "genuine_ok hw s"
  shows "genuine_ok hw s'"
  using assms(1)
proof cases
  case (main a addr t p u)
  have "buffer u = buffer s" "sv_calls u = sv_calls s" "sv_req u = sv_req s" "sv_reqs u = sv_reqs s"
    using main_section_frame [OF main(2) assms(2)] by blast+
  moreover from this(1) have "buffer u c = buffer s c" for c by (simp add: fun_eq_iff)
  ultimately show ?thesis using assms(4) unfolding main(1) by (simp add: genuine_ok_def from_genuine_def)
next
  case (arrive t g r)
  have "fresh_id s t" using assms(3) arrive(2) by (simp add: items_ok_def)
  then have "item \<in> set (sv_calls s) \<or> item \<in> set (buffer s c) \<Longrightarrow> fst item \<noteq> t" for item c
    unfolding fresh_id_def by blast
  with assms(4) show ?thesis unfolding arrive(1) by (auto simp: genuine_ok_def from_genuine_def)
next
  case (request t result p u)
  have "request_ok hw (sv_reqs s t) (sv_req s t)" using assms(4) by (simp add: genuine_ok_def)
  note g = request_section_genuine [OF request(3) this]
  have "sv_req u = sv_req s" "sv_reqs u = sv_reqs s" using request_section_frame [OF request(3)] by blast+
  with g assms(4) show ?thesis unfolding request(1) genuine_ok_def from_genuine_def by fastforce
next
  case (worker_take c i item rest)
  have "item \<in> set (buffer s c)" "set rest \<subseteq> set (buffer s c)" using worker_take(3) by auto
  with assms(4) show ?thesis unfolding worker_take(1) by (auto simp: genuine_ok_def from_genuine_def)
qed (use assms(4) in \<open>simp_all add: genuine_ok_def from_genuine_def\<close>)

text \<open>Queues are bounded and first in, first out, and have a bounded number of workers.\<close>

definition queues_ok :: "hook_world \<Rightarrow> server_state \<Rightarrow> bool" where
  "queues_ok hw s \<longleftrightarrow>
     (\<forall>c. length (buffer s c) \<le> ch_cap (sv_chans s c) \<and> ch_cap (sv_chans s c) \<le> nat (wh_queueSize (hw_module hw))
        \<and> (\<forall>i. sv_worker s c i = WNone \<or> i < workers (hw_module hw))
        \<and> (\<exists>taken. sv_sent s c = taken @ buffer s c \<and> subseq taken (sv_calls s)))"

lemma main_section_queues:
  assumes "main_section hw a addr p s = Some (p', s')" "unused_ok s" "queues_ok hw s"
  shows "queues_ok hw s'"
proof -
  note frame = main_section_frame [OF assms(1,2)]
  have "ch_cap (sv_chans s' c) \<in> {ch_cap (sv_chans s c), nat (wh_queueSize (hw_module hw))}
      \<and> (\<forall>i. sv_worker s' c i = sv_worker s c i \<or> i < workers (hw_module hw))
      \<and> (ch_cap (sv_chans s' c) = ch_cap (sv_chans s c) \<or> buffer s' c = [])" for c
    using assms(1) by (cases p) (auto simp: main_defs split: main_splits)
  moreover have "buffer s' c = buffer s c" "sv_sent s' c = sv_sent s c" "sv_calls s' = sv_calls s" for c
    using frame by (simp_all add: fun_eq_iff)
  ultimately show ?thesis using assms(3) unfolding queues_ok_def by (metis insertE le_refl list.size(3) singletonD zero_le)
qed

lemma queues_step:
  assumes "hook_step hw s s'" "unused_ok s" "queues_ok hw s"
  shows "queues_ok hw s'"
  using assms(1)
proof cases
  case (main a addr t p u)
  from main_section_queues [OF main(2) assms(2,3)] show ?thesis unfolding main(1) by (simp add: queues_ok_def)
next
  case (request t result p u)
  have w: "sv_worker u = sv_worker s" and cap: "ch_cap (sv_chans u c) = ch_cap (sv_chans s c)" for c
    using request_section_frame [OF request(3)] by blast+
  have len: "length (buffer u c) \<le> ch_cap (sv_chans s c)" for c
  proof (cases "sv_req s t")
    case (RSending g data d)
    obtain ok v where e: "enqueue d (t, data) s = (ok, v)" by fastforce
    from enqueue_cases [OF e] e RSending request(3) assms(3) show ?thesis
      by (cases ok) (auto simp: queues_ok_def split: if_splits)
  next
    case (REntered g r)
    with request(3) assms(3) show ?thesis by (auto simp: queues_ok_def split: option.splits prod.splits)
  qed (use request(3) assms(3) in \<open>auto simp: queues_ok_def split: option.splits sum.splits if_splits\<close>)
  have fifo: "\<exists>taken. sv_sent u c = taken @ buffer u c \<and> subseq taken (sv_calls u)" for c
  proof -
    obtain taken where t: "sv_sent s c = taken @ buffer s c" "subseq taken (sv_calls s)" using assms(3) unfolding queues_ok_def by blast
    then have "subseq taken (sv_calls s @ x)" for x by (metis list_emb_prefix)
    moreover have "untouched (sv_req s t) \<or> u = s"
      using served_untouched [OF request(2)] request(3) by auto
    moreover have "(\<exists>x. sv_sent u c = sv_sent s c @ x \<and> buffer u c = buffer s c @ x) \<and> (\<exists>x. sv_calls u = sv_calls s @ x)"
      if "untouched (sv_req s t)"
      using request_section_hands [OF request(3,2) that] unfolding hands_over_def fun_eq_iff
      by (elim disjE exE conjE) (auto simp: fun_upd_apply)
    ultimately show ?thesis using t by (metis append.assoc append.right_neutral)
  qed
  show ?thesis unfolding request(1) using assms(3) len fifo by (simp add: queues_ok_def w cap)
next
  case (worker_take c i item rest)
  have "length rest \<le> ch_cap (sv_chans s c)" "i < workers (hw_module hw)"
    using assms(3) worker_take(2,3) unfolding queues_ok_def by (metis Suc_le_lessD length_Cons less_imp_le, metis worker_pc.distinct(1))
  moreover have "\<exists>taken. sv_sent s c = taken @ rest \<and> subseq taken (sv_calls s @ [item])"
  proof -
    obtain taken where "sv_sent s c = taken @ buffer s c" "subseq taken (sv_calls s)" using assms(3) unfolding queues_ok_def by blast
    then have "sv_sent s c = (taken @ [item]) @ rest" "subseq (taken @ [item]) (sv_calls s @ [item])"
      using worker_take(3) by (simp_all add: list_emb_append_mono)
    then show ?thesis by blast
  qed
  moreover have "\<exists>taken. sv_sent s d = taken @ buffer s d \<and> subseq taken (sv_calls s @ [item])" for d
    using assms(3) unfolding queues_ok_def by (metis list_emb_prefix)
  ultimately show ?thesis using assms(3) unfolding worker_take(1) by (simp add: queues_ok_def)
next
  case (worker_handled c i)
  then have "i < workers (hw_module hw)" using assms(3) unfolding queues_ok_def by (metis worker_pc.distinct(3))
  then show ?thesis using assms(3) unfolding worker_handled(1) by (simp add: queues_ok_def)
next
  case (worker_end c i)
  then have "i < workers (hw_module hw)" using assms(3) unfolding queues_ok_def by (metis worker_pc.distinct(1))
  then show ?thesis using assms(3) unfolding worker_end(1) by (simp add: queues_ok_def)
qed (use assms(3) in \<open>simp_all add: queues_ok_def\<close>)

lemma hook_invariant:
  assumes "hook_reach hw s"
  shows "unused_ok s \<and> items_ok hw s \<and> genuine_ok hw s \<and> queues_ok hw s"
  using assms
proof induction
  case start
  show ?case
    by (simp add: server_start_def unused_ok_def items_ok_def fresh_id_def pristine_def genuine_ok_def queues_ok_def)
next
  case (step s s')
  then show ?case using unused_step items_step genuine_step queues_step by blast
qed

text \<open>
  C37. Every request is handled at most once, in every interleaving of requests, workers and
  shutdowns: the callback is never called twice for one request, and nothing that was handed to
  it is still in a queue. The sender can rely on the answer: a request that was refused (any
  answer but 200, 202 or 500) was and is not processed, and one that was accepted was handed to
  the callback or is in exactly one queue.
\<close>
theorem webhook_handles_once:
  assumes "hook_reach hw s"
  shows "distinct (map fst (sv_calls s))
    \<and> (untouched (sv_req s t) \<longrightarrow> fresh_id s t)
    \<and> (hw_handler hw \<and> settled (sv_req s t) \<longrightarrow>
         (t \<in> fst ` set (sv_calls s)) \<noteq> (\<exists>!c. t \<in> fst ` set (buffer s c)))"
proof -
  have i: "items_ok hw s" using hook_invariant [OF assms] by blast
  have "(t \<in> fst ` set (sv_calls s)) \<noteq> (\<exists>!c. t \<in> fst ` set (buffer s c))" if "\<not> fresh_id s t"
    using i that unfolding items_ok_def fresh_id_def by (metis disjoint_iff)
  with i show ?thesis unfolding items_ok_def by blast
qed


text \<open>
  C38. Nothing but genuine requests is processed: whatever is handed to the callback or waits in a
  queue are the records of a POST request to the configured endpoint, with a body that is not
  empty, that carries the HMAC of exactly this body (bare or after \<open>sha256=\<close>) when a signature of
  the supported type is configured, and whose JSON value holds these records. (\<open>genuine\<close> says so
  without the functions of the server.)
\<close>
theorem webhook_processes_genuine:
  assumes "hook_reach hw s"
  shows "list_all (from_genuine hw s) (sv_calls s) \<and> list_all (from_genuine hw s) (buffer s c)"
  using hook_invariant [OF assms] by (simp add: genuine_ok_def list_all_iff)

text \<open>
  C39. The bounds of the configuration hold in every interleaving: a queue never holds more than
  \<open>queueSize\<close> requests, at most \<open>maxConcurrent\<close> (at least one) of its workers run the callback at
  once, and the queue is first in, first out: what was sent to it is, in this order, what its
  workers began to process and what still waits.
\<close>
theorem webhook_bounded:
  assumes "hook_reach hw s"
  shows "length (buffer s c) \<le> nat (wh_queueSize (hw_module hw))
    \<and> finite {i. sv_worker s c i = WHandling} \<and> card {i. sv_worker s c i = WHandling} \<le> workers (hw_module hw)
    \<and> (\<exists>taken. sv_sent s c = taken @ buffer s c \<and> subseq taken (sv_calls s))"
proof -
  have q: "queues_ok hw s" using hook_invariant [OF assms] by blast
  have "{i. sv_worker s c i = WHandling} \<subseteq> {..<workers (hw_module hw)}"
    using q unfolding queues_ok_def by (smt (verit, best) lessThan_iff mem_Collect_eq subsetI worker_pc.distinct(3))
  then have "finite {i. sv_worker s c i = WHandling}" "card {i. sv_worker s c i = WHandling} \<le> card {..<workers (hw_module hw)}"
    using finite_subset [OF _ finite_lessThan] card_mono [OF finite_lessThan] by blast+
  then show ?thesis using q by (auto simp: queues_ok_def intro: order_trans)
qed

subsection \<open>Shutdown\<close>

fun in_body :: "main_pc \<Rightarrow> bool" where
  "in_body (Checking k) = True"
| "in_body (Closing k) = True"
| "in_body (Draining g k) = True"
| "in_body (Halting k r) = True"
| "in_body (Halted k r) = True"
| "in_body (Taking k r) = True"
| "in_body (ClosingQueue q st k r) = True"
| "in_body (ClosingStop st k r) = True"
| "in_body (Joining k r) = True"
| "in_body p = False"

text \<open>What a caller knows of the queue: nothing is closed before it closes it, and no field points to it.\<close>

fun holds_open :: "server_state \<Rightarrow> main_pc \<Rightarrow> bool" where
  "holds_open s (ClosingQueue q st k r) =
     ((\<forall>c. \<not> ch_closed (sv_chans s c) \<and> \<not> sv_stops s c) \<and> (\<forall>c. q = Some c \<longrightarrow> sv_queue s \<noteq> Some c)
      \<and> (\<forall>c. st = Some c \<longrightarrow> sv_workerStop s \<noteq> Some c))"
| "holds_open s (ClosingStop st k r) = ((\<forall>c. \<not> sv_stops s c) \<and> (\<forall>c. st = Some c \<longrightarrow> sv_workerStop s \<noteq> Some c))"
| "holds_open s (Joining k r) = True"
| "holds_open s (MPanicked x) = (x \<notin> {QueueClosedTwice, StopClosedTwice})"
| "holds_open s p = (in_body p \<longrightarrow> (\<forall>c. \<not> ch_closed (sv_chans s c) \<and> \<not> sv_stops s c))"

definition shutdown_ok :: "server_state \<Rightarrow> bool" where
  "shutdown_ok s \<longleftrightarrow>
     (sv_shutdownOnce s = OncePending \<longrightarrow> (\<forall>c. \<not> ch_closed (sv_chans s c) \<and> \<not> sv_stops s c))
     \<and> (\<forall>t. in_body (sv_main s t) \<longrightarrow> sv_shutdownOnce s = OnceRunning)
     \<and> (\<forall>t u. in_body (sv_main s t) \<and> in_body (sv_main s u) \<longrightarrow> t = u)
     \<and> (\<forall>c d. ch_closed (sv_chans s c) \<and> ch_closed (sv_chans s d) \<longrightarrow> c = d)
     \<and> (\<forall>c. sv_queue s = Some c \<longrightarrow> \<not> ch_closed (sv_chans s c))
     \<and> (\<forall>c. sv_workerStop s = Some c \<longrightarrow> \<not> sv_stops s c)
     \<and> (\<forall>t. holds_open s (sv_main s t))"

abbreviation closed_chan :: "server_state \<Rightarrow> nat \<Rightarrow> bool" where
  "closed_chan s c \<equiv> ch_closed (sv_chans s c)"

lemma holds_open_outside: "\<not> in_body p \<Longrightarrow> holds_open s p = holds_open s' p"
  by (cases p) auto

lemma holds_open_frame:
  assumes "holds_open s p" "main_uses p \<subseteq> {..<n}"
    "\<And>c. closed_chan s' c = closed_chan s c" "sv_stops s' = sv_stops s"
    "\<And>c. c < n \<Longrightarrow> sv_queue s' = Some c \<Longrightarrow> sv_queue s = Some c"
    "\<And>c. c < n \<Longrightarrow> sv_workerStop s' = Some c \<Longrightarrow> sv_workerStop s = Some c"
  shows "holds_open s' p"
  using assms by (cases p) (auto simp: subset_iff)

text \<open>A section outside \<open>shutdownOnce\<close>, and one inside.\<close>

lemma main_section_outside:
  assumes "main_section hw a addr p s = Some (p', s')" "unused_ok s" "\<not> in_body p" "shutdown_ok s" "holds_open s p"
  shows "(\<forall>c. closed_chan s' c = closed_chan s c) \<and> sv_stops s' = sv_stops s
    \<and> (\<forall>c < sv_next s. (sv_queue s' = Some c \<longrightarrow> sv_queue s = Some c) \<and> (sv_workerStop s' = Some c \<longrightarrow> sv_workerStop s = Some c))
    \<and> (\<forall>c. sv_queue s' = Some c \<longrightarrow> \<not> closed_chan s' c) \<and> (\<forall>c. sv_workerStop s' = Some c \<longrightarrow> \<not> sv_stops s' c)
    \<and> (sv_shutdownOnce s' = sv_shutdownOnce s \<and> \<not> in_body p' \<or> sv_shutdownOnce s = OncePending \<and> sv_shutdownOnce s' = OnceRunning)
    \<and> holds_open s' p'"
proof -
  have f: "\<not> closed_chan s (sv_next s)" "\<not> sv_stops s (sv_next s)" using assms(2) by (auto simp: unused_ok_def pristine_def)
  have o: "\<forall>c. sv_queue s = Some c \<longrightarrow> \<not> closed_chan s c" "\<forall>c. sv_workerStop s = Some c \<longrightarrow> \<not> sv_stops s c"
    "sv_shutdownOnce s = OncePending \<longrightarrow> (\<forall>c. \<not> closed_chan s c \<and> \<not> sv_stops s c)" using assms(4) by (auto simp: shutdown_ok_def)
  show ?thesis
  proof (cases "\<exists>g. p = Launching g")
    case True
    with assms(1) f o show ?thesis by (auto simp: main_defs fun_eq_iff split: main_splits)
  next
    case False
    have "sv_chans s' = sv_chans s \<and> sv_stops s' = sv_stops s \<and> sv_queue s' = sv_queue s \<and> sv_workerStop s' = sv_workerStop s"
      using assms(1,3) False by (cases p) (auto simp: main_defs split: main_splits)
    moreover have "(sv_shutdownOnce s' = sv_shutdownOnce s \<and> \<not> in_body p' \<or> sv_shutdownOnce s = OncePending \<and> sv_shutdownOnce s' = OnceRunning)
        \<and> (p' \<in> {MPanicked QueueClosedTwice, MPanicked StopClosedTwice} \<longrightarrow> p = p')
        \<and> (in_body p' \<longrightarrow> sv_shutdownOnce s = OncePending \<and> (\<exists>k. p' = Checking k))"
      using assms(1,3) False by (cases p) (auto simp: main_defs split: main_splits)
    moreover have "main_section hw a addr (MPanicked x) s = None" for x by simp
    ultimately show ?thesis using o assms(1) by (cases p') auto
  qed
qed

lemma main_section_inside:
  assumes "main_section hw a addr p s = Some (p', s')" "in_body p" "shutdown_ok s" "holds_open s p" "sv_shutdownOnce s = OnceRunning"
  shows "(\<forall>c d. closed_chan s' c \<and> closed_chan s' d \<longrightarrow> c = d)
    \<and> (\<forall>c. sv_queue s' = Some c \<longrightarrow> \<not> closed_chan s' c) \<and> (\<forall>c. sv_workerStop s' = Some c \<longrightarrow> \<not> sv_stops s' c)
    \<and> sv_shutdownOnce s' \<noteq> OncePending \<and> (in_body p' \<longrightarrow> sv_shutdownOnce s' = OnceRunning) \<and> holds_open s' p'"
proof -
  have o: "\<forall>c. sv_queue s = Some c \<longrightarrow> \<not> closed_chan s c" "\<forall>c. sv_workerStop s = Some c \<longrightarrow> \<not> sv_stops s c"
    "\<forall>c d. closed_chan s c \<and> closed_chan s d \<longrightarrow> c = d" using assms(3) unfolding shutdown_ok_def by blast+
  show ?thesis
  proof (cases "(\<exists>q st k r. p = ClosingQueue q st k r) \<or> (\<exists>st k r. p = ClosingStop st k r) \<or> (\<exists>k r. p = Taking k r)")
    case True
    with assms(1,4,5) o show ?thesis by (elim disjE exE) (auto simp: main_defs split: main_splits)
  next
    case False
    have "sv_chans s' = sv_chans s \<and> sv_stops s' = sv_stops s \<and> sv_queue s' = sv_queue s \<and> sv_workerStop s' = sv_workerStop s
        \<and> sv_shutdownOnce s' \<noteq> OncePending \<and> (in_body p' \<longrightarrow> sv_shutdownOnce s' = OnceRunning)"
      using assms(1,2,5) False by (cases p) (auto simp: main_defs split: main_splits)
    moreover have "holds_open s p'" using assms(1,2,4) False by (cases p) (auto simp: main_defs split: main_splits)
    ultimately show ?thesis using o by (cases p') auto
  qed
qed

lemma shutdown_step:
  assumes "hook_step hw s s'" "unused_ok s" "shutdown_ok s"
  shows "shutdown_ok s'"
  using assms(1)
proof cases
  case (main a addr t p u)
  have h: "holds_open s (sv_main s x)" for x using assms(3) by (simp add: shutdown_ok_def)
  have m: "sv_main u = sv_main s" using main_section_frame [OF main(2) assms(2)] by blast
  have v: "holds_open (u\<lparr>sv_main := f\<rparr>) q = holds_open u q" for f q by (cases q) auto
  show ?thesis
  proof (cases "in_body (sv_main s t)")
    case False
    note o = main_section_outside [OF main(2) assms(2) False assms(3) h]
    have "main_uses (sv_main s x) \<subseteq> {..<sv_next s}" for x using assms(2) by (simp add: unused_ok_def)
    then have "holds_open u (sv_main s x)" for x using holds_open_frame [OF h] o by metis
    with o assms(3) show ?thesis unfolding main(1) shutdown_ok_def by (auto simp: m v)
  next
    case True
    have run: "sv_shutdownOnce s = OnceRunning" and only: "\<And>x. x \<noteq> t \<Longrightarrow> \<not> in_body (sv_main s x)"
      using True assms(3) unfolding shutdown_ok_def by blast+
    note i = main_section_inside [OF main(2) True assms(3) h run]
    have "holds_open u (sv_main s x)" if "x \<noteq> t" for x using holds_open_outside [OF only [OF that]] h by blast
    with i only show ?thesis unfolding main(1) shutdown_ok_def by (auto simp: m v)
  qed
next
  case (request t result p u)
  note f = request_section_frame [OF request(3)]
  have "holds_open (u\<lparr>sv_req := g\<rparr>) q = holds_open s q" for g q using f by (cases q) auto
  with f assms(3) show ?thesis unfolding request(1) shutdown_ok_def by auto
next
  case (worker_take c i item rest)
  have "holds_open s' q = holds_open s q" for q unfolding worker_take(1) by (cases q) auto
  with assms(3) show ?thesis unfolding shutdown_ok_def worker_take(1) by auto
next
  case (call_Start t)
  have "holds_open s' q = holds_open s q" for q unfolding call_Start(1) by (cases q) auto
  with assms(3) show ?thesis unfolding shutdown_ok_def call_Start(1) by auto
next
  case (call_Stop t)
  have "holds_open s' q = holds_open s q" for q unfolding call_Stop(1) by (cases q) auto
  with assms(3) show ?thesis unfolding shutdown_ok_def call_Stop(1) by auto
next
  case (arrive t g r)
  have "holds_open s' q = holds_open s q" for q unfolding arrive(1) by (cases q) auto
  with assms(3) show ?thesis unfolding shutdown_ok_def arrive(1) by auto
next
  case (worker_handled c i)
  have "holds_open s' q = holds_open s q" for q unfolding worker_handled(1) by (cases q) auto
  with assms(3) show ?thesis unfolding shutdown_ok_def worker_handled(1) by auto
next
  case (worker_end c i)
  have "holds_open s' q = holds_open s q" for q unfolding worker_end(1) by (cases q) auto
  with assms(3) show ?thesis unfolding shutdown_ok_def worker_end(1) by auto
next
  case (tick i)
  have "holds_open s' q = holds_open s q" for q unfolding tick by (cases q) auto
  with assms(3) show ?thesis unfolding shutdown_ok_def tick by auto
qed

lemma shutdown_invariant:
  assumes "hook_reach hw s"
  shows "shutdown_ok s"
  using assms
proof induction
  case start
  show ?case by (simp add: server_start_def shutdown_ok_def)
next
  case (step s s')
  then show ?case using shutdown_step hook_invariant by blast
qed

text \<open>
  C40. The shutdown runs once: however many callers stop the server, and whether by \<open>Stop\<close>,
  \<open>Close\<close>, a cancelled context, a signal or a server error, at most one of them is in the body of
  \<open>shutdown\<close>, no queue and no stop channel is closed twice, and no field still points to a closed one.
\<close>
theorem webhook_shutdown_once:
  assumes "hook_reach hw s"
  shows "(in_body (sv_main s t) \<and> in_body (sv_main s u) \<longrightarrow> t = u)
    \<and> sv_main s t \<notin> {MPanicked QueueClosedTwice, MPanicked StopClosedTwice}
    \<and> (closed_chan s c \<and> closed_chan s d \<longrightarrow> c = d)
    \<and> (sv_queue s = Some c \<longrightarrow> \<not> closed_chan s c) \<and> (sv_workerStop s = Some c \<longrightarrow> \<not> sv_stops s c)"
proof -
  have i: "shutdown_ok s" by (rule shutdown_invariant [OF assms])
  then have "holds_open s (sv_main s t)" by (simp add: shutdown_ok_def)
  then have "sv_main s t \<notin> {MPanicked QueueClosedTwice, MPanicked StopClosedTwice}" by auto
  with i show ?thesis unfolding shutdown_ok_def by blast
qed


subsection \<open>The workers of a closed queue end\<close>

fun worker_rank :: "worker_pc \<Rightarrow> nat" where
  "worker_rank WHandling = 2"
| "worker_rank WSelecting = 1"
| "worker_rank _ = 0"

definition queue_work :: "hook_world \<Rightarrow> server_state \<Rightarrow> nat \<Rightarrow> nat" where
  "queue_work hw s c = 2 * length (buffer s c) + (\<Sum>i < workers (hw_module hw). worker_rank (sv_worker s c i))"

lemma queue_work_eq:
  "buffer s' c = buffer s c \<Longrightarrow> sv_worker s' c = sv_worker s c \<Longrightarrow> queue_work hw s' c = queue_work hw s c"
  by (simp add: queue_work_def)

lemma worker_sum:
  fixes n :: nat
  assumes "i < n"
  shows "(\<Sum>j < n. worker_rank ((f(i := p)) j)) + worker_rank (f i) = (\<Sum>j < n. worker_rank (f j)) + worker_rank p"
proof -
  have "(\<Sum>j \<in> {..<n} - {i}. worker_rank ((f(i := p)) j)) = (\<Sum>j \<in> {..<n} - {i}. worker_rank (f j))"
    by (rule sum.cong) auto
  then have "(\<Sum>j < n. worker_rank ((f(i := p)) j)) = worker_rank p + (\<Sum>j \<in> {..<n} - {i}. worker_rank (f j))"
    using assms sum.remove [of "{..<n}" i "\<lambda>j. worker_rank ((f(i := p)) j)"] by simp
  moreover have "(\<Sum>j < n. worker_rank (f j)) = worker_rank (f i) + (\<Sum>j \<in> {..<n} - {i}. worker_rank (f j))"
    using assms by (simp add: sum.remove [of "{..<n}" i])
  ultimately show ?thesis by simp
qed

lemma queue_work_worker:
  assumes "i < workers (hw_module hw)" "sv_worker s' c = (sv_worker s c)(i := p)"
    "2 * length (buffer s' c) + worker_rank p < 2 * length (buffer s c) + worker_rank (sv_worker s c i)"
  shows "queue_work hw s' c < queue_work hw s c"
  using worker_sum [OF assms(1), of "sv_worker s c" p] assms(2,3) by (simp add: queue_work_def)

lemma closed_queue_step:
  assumes "hook_reach hw s" "hook_step hw s s'" "closed_chan s c" "\<And>t g n. sv_main s t \<noteq> Spawning g c n"
  shows "sv_worker s' c = sv_worker s c \<and> buffer s' c = buffer s c \<or> queue_work hw s' c < queue_work hw s c"
proof -
  have q: "queues_ok hw s" and u: "unused_ok s" using hook_invariant [OF assms(1)] by blast+
  have idx: "i < workers (hw_module hw)" if "sv_worker s d i \<noteq> WNone" for d i
    using q that unfolding queues_ok_def by metis
  have less: "c < sv_next s" using u assms(3) by (auto simp: unused_ok_def pristine_def not_le)
  show ?thesis using assms(2)
  proof cases
    case (main a addr t p v)
    have "buffer v c = buffer s c" using main_section_frame [OF main(2) u] by (simp add: fun_eq_iff)
    moreover have "sv_worker v c = sv_worker s c"
      using main(2) less assms(4) by (cases "sv_main s t") (auto simp: main_defs split: main_splits)
    ultimately show ?thesis unfolding main(1) by simp
  next
    case (request t result p v)
    have "buffer v c = buffer s c"
    proof (cases "sv_req s t")
      case (RSending g data d)
      obtain ok w where e: "enqueue d (t, data) s = (ok, w)" by fastforce
      from enqueue_cases [OF e] e RSending request(3) assms(3) show ?thesis by (cases ok) (auto split: if_splits)
    qed (use request(3) in \<open>auto split: option.splits prod.splits sum.splits if_splits\<close>)
    with request_section_frame [OF request(3)] show ?thesis unfolding request(1) by simp
  next
    case (worker_take d i item rest)
    show ?thesis
    proof (cases "d = c")
      case True
      have "i < workers (hw_module hw)" using idx [of d i] worker_take(2) by simp
      from queue_work_worker [OF this, of s' c s WHandling] True worker_take show ?thesis by simp
    qed (simp add: worker_take(1))
  next
    case (worker_handled d i)
    show ?thesis
    proof (cases "d = c")
      case True
      have "i < workers (hw_module hw)" using idx [of d i] worker_handled(2) by simp
      from queue_work_worker [OF this, of s' c s WSelecting] True worker_handled show ?thesis by simp
    qed (simp add: worker_handled(1))
  next
    case (worker_end d i)
    show ?thesis
    proof (cases "d = c")
      case True
      have "i < workers (hw_module hw)" using idx [of d i] worker_end(2) by simp
      from queue_work_worker [OF this, of s' c s WEnded] True worker_end show ?thesis by simp
    qed (simp add: worker_end(1))
  qed simp_all
qed

text \<open>
  After the shutdown closed a queue its workers end, whatever else happens: once all of them
  were started, no step adds work to the queue, each step of one of its workers takes some away,
  and as long as one of them has not ended and the stop channel is closed, such a step is possible.
\<close>
theorem webhook_workers_end:
  assumes "hook_reach hw s" "closed_chan s c" "\<not> (\<exists>t g n. sv_main s t = Spawning g c n)"
  shows "(hook_step hw s s' \<longrightarrow> queue_work hw s' c \<le> queue_work hw s c
             \<and> (sv_worker s' c = sv_worker s c \<or> queue_work hw s' c < queue_work hw s c))
    \<and> (sv_stops s c \<and> sv_worker s c i \<in> {WSelecting, WHandling} \<longrightarrow>
         (\<exists>s'. hook_step hw s s' \<and> queue_work hw s' c < queue_work hw s c))"
proof (intro conjI impI)
  assume "hook_step hw s s'"
  from closed_queue_step [OF assms(1) this assms(2)] assms(3)
  show "queue_work hw s' c \<le> queue_work hw s c" "sv_worker s' c = sv_worker s c \<or> queue_work hw s' c < queue_work hw s c"
    using queue_work_eq [of s' c s hw] by fastforce+
next
  assume w: "sv_stops s c \<and> sv_worker s c i \<in> {WSelecting, WHandling}"
  then have i: "i < workers (hw_module hw)" using hook_invariant [OF assms(1)] unfolding queues_ok_def
    by (metis insertE singletonD worker_pc.distinct(1,3))
  show "\<exists>s'. hook_step hw s s' \<and> queue_work hw s' c < queue_work hw s c"
  proof (cases "sv_worker s c i")
    case WSelecting
    with w queue_work_worker [OF i, of _ c s WEnded] worker_end [of s c i hw] show ?thesis by fastforce
  next
    case WHandling
    with queue_work_worker [OF i, of _ c s WSelecting] worker_handled [of s c i hw] show ?thesis by fastforce
  qed (use w in auto)
qed


subsection \<open>Examples\<close>

text \<open>A request is accepted and queued, then a caller stops the server.\<close>

definition accepting :: "move list" where
  "accepting = MvArrive 0 0 demo_hook_request # replicate 5 (MvRequest 0 None)"

definition accepted_state :: server_state where
  "accepted_state =
     serving_state\<lparr>sv_req := (\<lambda>_. RGone)(0 := RWriting 0), sv_reqs := (sv_reqs server_start)(0 := demo_hook_request),
       sv_chans := (sv_chans serving_state)(1 := \<lparr>ch_buf = [(0, [])], ch_cap = 1, ch_closed = False\<rparr>),
       sv_sent := (\<lambda>_. [])(1 := [(0, [])])\<rparr>"

lemmas run_simps = numeral_eq_Suc demo_hw_simps Let_def fun_eq_iff enqueue_def checkRateLimit_def Allow_def
  no_requests_def stop_limiter_def shutdown_returns_def

lemma accepting_run: "make_moves demo_hw (starting @ accepting) server_start = Some accepted_state"
proof -
  have "make_moves demo_hw accepting serving_state = Some accepted_state"
    by (simp add: accepting_def accepted_state_def serving_state_def server_start_def run_simps)
  then show ?thesis by (simp add: make_moves_append starting_run)
qed

definition answered_state :: server_state where
  "answered_state = accepted_state\<lparr>sv_req := (\<lambda>_. RGone)(0 := RAnswered (writeSuccessResponse True))\<rparr>"

lemma answered_run: "make_moves demo_hw (starting @ accepting @ [MvRequest 0 None]) server_start = Some answered_state"
proof -
  have "make_moves demo_hw ((starting @ accepting) @ [MvRequest 0 None]) server_start = Some answered_state"
    unfolding make_moves_append [of _ "starting @ accepting"] accepting_run
    by (simp add: answered_state_def accepted_state_def serving_state_def server_start_def fun_eq_iff)
  then show ?thesis by simp
qed

theorem webhook_handles_once_witness:
  "hook_reach demo_hw answered_state \<and> sv_req answered_state 0 = RAnswered (writeSuccessResponse True)
   \<and> (\<exists>!c. 0 \<in> fst ` set (buffer answered_state c))"
proof -
  have r: "hook_reach demo_hw answered_state" by (rule moves_reach [OF answered_run])
  have q: "sv_req answered_state 0 = RAnswered (writeSuccessResponse True)" "0 \<notin> fst ` set (sv_calls answered_state)"
    by (simp_all add: answered_state_def accepted_state_def serving_state_def server_start_def)
  have "settled (sv_req answered_state 0)" unfolding q(1) by (simp add: writeSuccessResponse_def)
  with webhook_handles_once [OF r, of 0] r q demo_hw_simps(1) show ?thesis by blast
qed

theorem webhook_processes_genuine_witness:
  "list_all (from_genuine demo_hw answered_state) (buffer answered_state 1) \<and> buffer answered_state 1 = [(0, [])]"
  using webhook_processes_genuine [OF moves_reach [OF answered_run], of 1]
  by (simp add: answered_state_def accepted_state_def)

theorem webhook_bounded_witness:
  "length (buffer answered_state 1) \<le> 1 \<and> card {i. sv_worker answered_state 1 i = WHandling} \<le> 1"
  using webhook_bounded [OF moves_reach [OF answered_run], of 1] by (simp add: demo_hw_simps)

text \<open>The callers of \<open>Stop\<close> that meet no rate limiter.\<close>

definition stopping :: "move list" where
  "stopping = MvStop 1 # replicate 8 (MvMain 1 Go)"

definition stopped_state :: server_state where
  "stopped_state =
     answered_state\<lparr>sv_running := False, sv_shutdownOnce := OnceRunning, sv_queue := None, sv_workerStop := None,
       sv_serving := (\<lambda>_. False), sv_shut := (\<lambda>_. False)(0 := True),
       sv_chans := (sv_chans accepted_state)(1 := \<lparr>ch_buf = [(0, [])], ch_cap = 1, ch_closed = True\<rparr>),
       sv_stops := (\<lambda>_. False)(1 := True), sv_main := (\<lambda>_. MIdle)(0 := Serving 0, 1 := Joining None None)\<rparr>"

lemma stopping_run:
  "make_moves demo_hw (starting @ accepting @ [MvRequest 0 None] @ stopping) server_start = Some stopped_state"
proof -
  have "make_moves demo_hw stopping answered_state = Some stopped_state"
    by (simp add: stopping_def stopped_state_def answered_state_def accepted_state_def serving_state_def server_start_def run_simps)
  then show ?thesis using answered_run make_moves_append [of demo_hw "starting @ accepting @ [MvRequest 0 None]" stopping]
    by simp
qed

theorem webhook_shutdown_once_witness:
  "in_body (sv_main stopped_state 1) \<and> closed_chan stopped_state 1 \<and> sv_queue stopped_state \<noteq> Some 1
   \<and> sv_main stopped_state 1 \<notin> {MPanicked QueueClosedTwice, MPanicked StopClosedTwice}"
proof -
  have "in_body (sv_main stopped_state 1)" "closed_chan stopped_state 1" by (simp_all add: stopped_state_def)
  with webhook_shutdown_once [OF moves_reach [OF stopping_run], of 1 1 1 1] show ?thesis by blast
qed

theorem webhook_workers_end_witness:
  "\<exists>s'. hook_step demo_hw stopped_state s' \<and> queue_work demo_hw s' 1 < queue_work demo_hw stopped_state 1"
proof -
  have c: "closed_chan stopped_state 1" by (simp add: stopped_state_def)
  have n: "\<not> (\<exists>t g n. sv_main stopped_state t = Spawning g 1 n)" by (simp add: stopped_state_def)
  have "sv_stops stopped_state 1" "sv_worker stopped_state 1 0 = WSelecting"
    by (simp_all add: stopped_state_def answered_state_def accepted_state_def serving_state_def)
  then show ?thesis using webhook_workers_end [OF moves_reach [OF stopping_run] c n, of _ 0] by blast
qed

subsection \<open>What modelling showed\<close>

text \<open>After \<open>shutdownOnce\<close> is done nothing is ever stopped again.\<close>

lemma done_for_ever:
  assumes "hook_reach hw s" "hook_step hw s s'" "sv_shutdownOnce s = OnceDone"
  shows "sv_shutdownOnce s' = OnceDone \<and> sv_stops s' = sv_stops s \<and> (\<forall>c. closed_chan s' c = closed_chan s c)"
  using assms(2)
proof cases
  case (main a addr t p u)
  have u: "unused_ok s" and i: "shutdown_ok s" using hook_invariant [OF assms(1)] shutdown_invariant [OF assms(1)] by blast+
  then have "\<not> in_body (sv_main s t)" "holds_open s (sv_main s t)" using assms(3) unfolding shutdown_ok_def by force+
  from main_section_outside [OF main(2) u this(1) i this(2)] assms(3) show ?thesis unfolding main(1) by simp
next
  case (request t result p u)
  with request_section_frame [OF request(3)] assms(3) show ?thesis by simp
qed (use assms(3) in auto)

text \<open>
  When the server fails, \<open>Start\<close> clears \<open>running\<close> before it calls \<open>shutdown\<close>, whose body then returns
  at once: \<open>Start\<close> is over, the workers still wait, and nothing will stop them.
\<close>

lemma server_error_leaks_workers:
  "\<exists>s err. hook_reach demo_hw s \<and> sv_main s 0 = MReturned (Some err) \<and> sv_worker s 1 0 = WSelecting
     \<and> \<not> sv_stops s 1 \<and> sv_shutdownOnce s = OnceDone"
proof -
  let ?fail = "MvMain 0 (ServeFails (plain_error [])) # replicate 3 (MvMain 0 Go)"
  obtain s where s: "make_moves demo_hw ?fail serving_state = Some s" "\<exists>err. sv_main s 0 = MReturned (Some err)"
    "sv_worker s 1 0 = WSelecting" "\<not> sv_stops s 1" "sv_shutdownOnce s = OnceDone"
    by (simp add: serving_state_def server_start_def run_simps)
  from s(1) have "hook_reach demo_hw s" using make_moves_reach moves_reach [OF starting_run] by blast
  with s show ?thesis by blast
qed

text \<open>
  A \<open>Stop\<close> before \<open>Start\<close> uses up \<open>shutdownOnce\<close>: the server can be started, and every later \<open>Stop\<close>
  reports success while the server goes on serving.
\<close>

lemma stop_before_start_disables_stop:
  "\<exists>s. hook_reach demo_hw s \<and> sv_main s 2 = MReturned None \<and> sv_running s \<and> sv_serving s 0"
proof -
  let ?mvs = "[MvStop 1, MvMain 1 Go, MvMain 1 Go] @ starting @ [MvStop 2, MvMain 2 Go]"
  obtain s where s: "make_moves demo_hw ?mvs server_start = Some s" "sv_main s 2 = MReturned None" "sv_running s" "sv_serving s 0"
    by (simp add: starting_def server_start_def run_simps)
  from moves_reach [OF s(1)] s show ?thesis by blast
qed

text \<open>A \<open>Stop\<close> while \<open>Start\<close> has not set the server yet calls \<open>Shutdown\<close> on nil.\<close>

lemma stop_during_start_panics:
  "\<exists>s. hook_reach demo_hw s \<and> sv_main s 1 = MPanicked NilServer"
proof -
  let ?mvs = "[MvStart 0, MvMain 0 Go, MvStop 1, MvMain 1 Go, MvMain 1 Go, MvMain 1 Go]"
  obtain s where s: "make_moves demo_hw ?mvs server_start = Some s" "sv_main s 1 = MPanicked NilServer"
    by (simp add: server_start_def run_simps)
  from moves_reach [OF s(1)] s show ?thesis by blast
qed

text \<open>
  When the shutdown deadline passes, the queue is closed under the requests that are still running:
  one that has read the queue panics, and one whose data was queued is answered 200, as if it had
  been processed, although its data is dropped.
\<close>

lemma request_meets_closed_queue:
  "\<exists>s. hook_reach demo_hw s \<and> sv_req s 0 = RPanicked"
proof -
  let ?mvs = "MvArrive 0 0 demo_hook_request # replicate 4 (MvRequest 0 None)
    @ [MvStop 1, MvMain 1 Go, MvMain 1 Go, MvMain 1 Go, MvMain 1 (Deadline (plain_error [])), MvMain 1 Go, MvMain 1 Go, MvMain 1 Go,
       MvRequest 0 None]"
  obtain s where s: "make_moves demo_hw ?mvs serving_state = Some s" "sv_req s 0 = RPanicked"
    by (simp add: serving_state_def server_start_def run_simps)
  from s(1) have "hook_reach demo_hw s" using make_moves_reach moves_reach [OF starting_run] by blast
  with s show ?thesis by blast
qed

lemma dropped_request_answered_200:
  "\<exists>s err. hook_reach demo_hw s \<and> sv_req s 0 = RAnswered (writeSuccessResponse False) \<and> sv_calls s = []
     \<and> (\<forall>c i. sv_worker s c i \<in> {WNone, WEnded}) \<and> sv_main s 1 = MReturned (Some err)"
proof -
  let ?mvs = "[MvStop 1, MvMain 1 Go, MvMain 1 Go, MvMain 1 Go, MvMain 1 (Deadline (plain_error [])), MvMain 1 Go, MvMain 1 Go,
      MvMain 1 Go, MvMain 1 Go, MvEnd 1 0, MvMain 1 Go, MvRequest 0 None]"
  obtain s where s: "make_moves demo_hw ?mvs accepted_state = Some s" "sv_req s 0 = RAnswered (writeSuccessResponse False)"
    "sv_calls s = []" "\<forall>c i. sv_worker s c i \<in> {WNone, WEnded}" "\<exists>err. sv_main s 1 = MReturned (Some err)"
    by (simp add: accepted_state_def serving_state_def server_start_def run_simps workers_done_def)
  from s(1) have "hook_reach demo_hw s" using make_moves_reach moves_reach [OF accepting_run] by blast
  with s show ?thesis by blast
qed

text \<open>A start whose listener fails and a \<open>Stop\<close> at the same time both close the limiter.\<close>

lemma limiter_closed_twice:
  "\<exists>s. hook_reach (demo_hw\<lparr>hw_module := demo_hook\<rparr>) s \<and> sv_main s 0 = MPanicked LimiterClosedTwice"
proof -
  let ?hw = "demo_hw\<lparr>hw_module := demo_hook\<rparr>"
  let ?mvs = "[MvStart 0, MvMain 0 Go, MvMain 0 Go, MvMain 0 Go, MvMain 0 (ListenFails (plain_error [])),
      MvStop 1, MvMain 1 Go, MvMain 1 Go, MvMain 1 Go, MvMain 1 Go, MvMain 1 Go, MvMain 0 Go]"
  have "wh_rateLimit demo_hook = Some \<lparr>rl_RequestsPerSecond = 2, rl_Burst = 2\<rparr>" by (simp add: demo_hook_def)
  then obtain s where s: "make_moves ?hw ?mvs server_start = Some s" "sv_main s 0 = MPanicked LimiterClosedTwice"
    by (simp add: server_start_def newRateLimiter_def Let_def no_requests_def stop_limiter_def)
  from moves_reach [OF s(1)] s show ?thesis by blast
qed

end
