(* ===== verification/SoapClient.thy ===== *)
theory SoapClient
  imports Auth TemplateContext HttpRetry
begin

text \<open>
  The SOAP client, \<open>src/internal/soapclient\<close>: versions, envelopes, WS-Security headers, multipart
  responses, faults and the call itself. The library that writes the envelope of a request
  (\<open>third_party/hooklift_soap\<close>), XML and MIME parsing, SHA-1 and the random source are parameters
  (\<open>soap_env\<close>). The engines of the client cache compiled templates, which no caller can see
  (\<open>TemplateEngine\<close>), so templates are compiled where they are rendered. Header maps are lists in
  the order Go visits them.
\<close>

subsection \<open>Versions\<close>

abbreviation SOAPVersion11 :: string where "SOAPVersion11 \<equiv> ''1.1''"
abbreviation SOAPVersion12 :: string where "SOAPVersion12 \<equiv> ''1.2''"

definition NamespaceSOAP11 :: string where "NamespaceSOAP11 = ''http://schemas.xmlsoap.org/soap/envelope/''"
definition NamespaceSOAP12 :: string where "NamespaceSOAP12 = ''http://www.w3.org/2003/05/soap-envelope''"

definition NormalizeSOAPVersion :: "string \<Rightarrow> gerr + string" where
  "NormalizeSOAPVersion version =
     (if version = [] then Inr SOAPVersion11
      else if version = SOAPVersion11 \<or> version = SOAPVersion12 then Inr version
      else Inl (plain_error (''unsupported SOAP version \"'' @ version @ ''\"'')))"

definition EnvelopeNamespace :: "string \<Rightarrow> gerr + string" where
  "EnvelopeNamespace version =
     (case NormalizeSOAPVersion version of
        Inl err \<Rightarrow> Inl err
      | Inr version \<Rightarrow> Inr (if version = SOAPVersion12 then NamespaceSOAP12 else NamespaceSOAP11))"

text \<open>\<open>mime.FormatMediaType\<close>, which quotes and sorts the parameters, is a parameter.\<close>

definition RequestContentType ::
  "(string \<Rightarrow> (string \<times> string) list \<Rightarrow> string) \<Rightarrow> string \<Rightarrow> string \<Rightarrow> gerr + string" where
  "RequestContentType format_media_type version action =
     (case NormalizeSOAPVersion version of
        Inl err \<Rightarrow> Inl err
      | Inr version \<Rightarrow>
          Inr (if version = SOAPVersion12
               then format_media_type ''application/soap+xml''
                      ((''charset'', ''utf-8'') # (if action \<noteq> [] then [(''action'', action)] else []))
               else format_media_type ''text/xml'' [(''charset'', ''utf-8'')]))"

subsection \<open>WS-Security\<close>

abbreviation WSSPasswordText :: string where "WSSPasswordText \<equiv> ''PasswordText''"
abbreviation WSSPasswordDigest :: string where "WSSPasswordDigest \<equiv> ''PasswordDigest''"

definition wsseNamespace :: string where
  "wsseNamespace = ''http://docs.oasis-open.org/wss/2004/01/oasis-200401-wss-wssecurity-secext-1.0.xsd''"
definition wsuNamespace :: string where
  "wsuNamespace = ''http://docs.oasis-open.org/wss/2004/01/oasis-200401-wss-wssecurity-utility-1.0.xsd''"
definition passwordTypePrefix :: string where
  "passwordTypePrefix = ''http://docs.oasis-open.org/wss/2004/01/oasis-200401-wss-username-token-profile-1.0#''"

text \<open>\<open>Created\<close> is the zero time and \<open>Nonce\<close> is empty unless a caller sets them.\<close>

record WSSecurityConfig =
  ws_Username :: string
  ws_Password :: string
  ws_PasswordType :: string
  ws_TokenID :: string
  ws_MustUnderstand :: bool
  ws_Nonce :: string
  ws_Created :: "int option"

record 'h wss_env =
  we_now :: "'h \<Rightarrow> int"
  we_rfc3339 :: "int \<Rightarrow> string"
  we_rand16 :: "'h \<Rightarrow> (gerr + string) \<times> 'h"
  we_sha1 :: "string \<Rightarrow> string"

definition dquoted :: "string \<Rightarrow> string" where
  "dquoted s = CHR 0x22 # s @ [CHR 0x22]"

definition wss_header :: "WSSecurityConfig \<Rightarrow> string \<Rightarrow> string \<Rightarrow> string \<Rightarrow> string option \<Rightarrow> string" where
  "wss_header cfg created password passwordTypeURI nonceText =
     ''<wsse:Security xmlns:wsse='' @ dquoted wsseNamespace @ '' xmlns:wsu='' @ dquoted wsuNamespace
     @ (if ws_MustUnderstand cfg then '' soap:mustUnderstand='' @ dquoted ''1'' else []) @ ''>''
     @ ''<wsse:UsernameToken'' @ (if ws_TokenID cfg \<noteq> [] then '' wsu:Id='' @ dquoted (xmlEscape (ws_TokenID cfg)) else []) @ ''>''
     @ ''<wsse:Username>'' @ xmlEscape (ws_Username cfg) @ ''</wsse:Username>''
     @ ''<wsse:Password Type='' @ dquoted passwordTypeURI @ ''>'' @ xmlEscape password @ ''</wsse:Password>''
     @ (case nonceText of None \<Rightarrow> [] | Some n \<Rightarrow> ''<wsse:Nonce>'' @ n @ ''</wsse:Nonce>'')
     @ ''<wsu:Created>'' @ xmlEscape created @ ''</wsu:Created>'' @ ''</wsse:UsernameToken></wsse:Security>''"

definition BuildWSSecurityHeader :: "'h wss_env \<Rightarrow> WSSecurityConfig \<Rightarrow> 'h \<Rightarrow> (gerr + string) \<times> 'h" where
  "BuildWSSecurityHeader env cfg h =
     (if ws_Username cfg = [] \<or> ws_Password cfg = []
      then (Inl (plain_error ''WS-Security UsernameToken requires username and password''), h)
      else (let passwordType = (if ws_PasswordType cfg = [] then WSSPasswordText else ws_PasswordType cfg);
                created = we_rfc3339 env (case ws_Created cfg of None \<Rightarrow> we_now env h | Some t \<Rightarrow> t)
            in if passwordType = WSSPasswordText
               then (Inr (wss_header cfg created (ws_Password cfg) (passwordTypePrefix @ ''PasswordText'') None), h)
               else if passwordType = WSSPasswordDigest
               then (case (if ws_Nonce cfg = [] then we_rand16 env h else (Inr (ws_Nonce cfg), h)) of
                       (Inl err, h) \<Rightarrow> (Inl (errorf (''generating WS-Security nonce: '' @ err_text err) err), h)
                     | (Inr nonce, h) \<Rightarrow>
                         (Inr (wss_header cfg created (base64 (we_sha1 env (nonce @ created @ ws_Password cfg)))
                                 (passwordTypePrefix @ ''PasswordDigest'') (Some (base64 nonce))), h))
               else (Inl (plain_error (''unsupported WS-Security password type \"'' @ passwordType @ ''\"'')), h)))"

subsection \<open>Templates and envelopes\<close>

record XMLTemplateVars =
  xv_Record :: "grecord option"
  xv_State :: grecord
  xv_Pagination :: grecord

definition EvaluateXMLTemplate :: "'t gonja \<Rightarrow> string \<Rightarrow> XMLTemplateVars \<Rightarrow> gerr + string" where
  "EvaluateXMLTemplate g raw vars =
     (if \<not> HasVariables raw then Inr raw
      else (case compile g raw TargetXML True of
              Inl err \<Rightarrow> Inl err
            | Inr compiled \<Rightarrow>
                Compiled_Render g compiled
                  (context_Vars ((record_context (xv_Record vars))\<lparr>vc_State := xv_State vars, vc_Pagination := xv_Pagination vars\<rparr>))))"

fun envelope_headers :: "'t gonja \<Rightarrow> XMLTemplateVars \<Rightarrow> nat \<Rightarrow> string list \<Rightarrow> gerr + string list" where
  "envelope_headers g vars i [] = Inr []"
| "envelope_headers g vars i (xml # hs) =
     (if trim_space xml = [] then envelope_headers g vars (Suc i) hs
      else (case EvaluateXMLTemplate g xml vars of
              Inl err \<Rightarrow> Inl (errorf (''evaluating SOAP header '' @ itoa (int i) @ '': '' @ err_text err) err)
            | Inr evaluated \<Rightarrow>
                (case envelope_headers g vars (Suc i) hs of Inl err \<Rightarrow> Inl err | Inr rest \<Rightarrow> Inr (evaluated # rest))))"

definition envelope_text :: "string \<Rightarrow> string list \<Rightarrow> string \<Rightarrow> string" where
  "envelope_text namespace headers body =
     ''<soap:Envelope xmlns:soap='' @ dquoted namespace @ ''>''
     @ (if headers \<noteq> [] then ''<soap:Header>'' @ concat headers @ ''</soap:Header>'' else [])
     @ ''<soap:Body>'' @ body @ ''</soap:Body></soap:Envelope>''"

definition BuildEnvelope ::
  "'t gonja \<Rightarrow> 'h wss_env \<Rightarrow> string \<Rightarrow> string \<Rightarrow> XMLTemplateVars \<Rightarrow> string list \<Rightarrow> WSSecurityConfig option \<Rightarrow> 'h
   \<Rightarrow> (gerr + string) \<times> 'h" where
  "BuildEnvelope g wenv version body vars headers wss h =
     (case EnvelopeNamespace version of
        Inl err \<Rightarrow> (Inl err, h)
      | Inr namespace \<Rightarrow>
          if trim_space body = [] then (Inl (plain_error ''SOAP body is required''), h)
          else (case EvaluateXMLTemplate g body vars of
                  Inl err \<Rightarrow> (Inl err, h)
                | Inr body \<Rightarrow>
                    (case envelope_headers g vars 0 headers of
                       Inl err \<Rightarrow> (Inl err, h)
                     | Inr headers \<Rightarrow>
                         (case wss of
                            None \<Rightarrow> (Inr (envelope_text namespace headers body), h)
                          | Some cfg \<Rightarrow>
                              (case BuildWSSecurityHeader wenv cfg h of
                                 (Inl err, h) \<Rightarrow> (Inl err, h)
                               | (Inr header, h) \<Rightarrow> (Inr (envelope_text namespace (headers @ [header]) body), h))))))"


subsection \<open>Faults\<close>

record SOAPFaultError =
  sf_Version :: string
  sf_Code :: string
  sf_Reason :: string
  sf_Actor :: string
  sf_Detail :: string
  sf_StatusCode :: int

definition SOAPFaultError_Error :: "SOAPFaultError \<Rightarrow> string" where
  "SOAPFaultError_Error e =
     (if sf_Code e = [] then ''SOAP fault: '' @ sf_Reason e else ''SOAP fault '' @ sf_Code e @ '': '' @ sf_Reason e)"

definition faultCodeLocalPart :: "string \<Rightarrow> string" where
  "faultCodeLocalPart code = (if CHR '':'' \<in> set code then rev (takeWhile (\<lambda>c. c \<noteq> CHR '':'') (rev code)) else code)"

definition SOAPFaultError_Classify :: "SOAPFaultError \<Rightarrow> classified" where
  "SOAPFaultError_Classify e =
     (let part = to_lower (faultCodeLocalPart (sf_Code e))
      in if part = ''client'' \<or> part = ''sender'' then Classified CategoryValidation False (sf_StatusCode e) (sf_Reason e) None
         else if part = ''server'' \<or> part = ''receiver'' then Classified CategoryServer True (sf_StatusCode e) (sf_Reason e) None
         else Classified CategoryUnknown False (sf_StatusCode e) (sf_Reason e) None)"

definition fault_gerr :: "SOAPFaultError \<Rightarrow> gerr" where
  "fault_gerr e = NodeE KPlain (SOAPFaultError_Error e) None None (Some (Some (SOAPFaultError_Classify e))) [] False"

text \<open>What \<open>xml.Unmarshal\<close> finds in the body of an envelope.\<close>

record faultPayload =
  fp_Space :: string
  fp_Code11 :: string
  fp_Reason11 :: string
  fp_Actor11 :: string
  fp_Detail11 :: string
  fp_Code12 :: string
  fp_Reason12 :: string
  fp_Detail12 :: string

definition ParseSOAPFault :: "(string \<Rightarrow> gerr + faultPayload option) \<Rightarrow> string \<Rightarrow> gerr + SOAPFaultError option" where
  "ParseSOAPFault unmarshal body =
     (case unmarshal body of
        Inl err \<Rightarrow> Inl err
      | Inr None \<Rightarrow> Inr None
      | Inr (Some f) \<Rightarrow>
          Inr (Some (if fp_Code12 f \<noteq> [] \<or> fp_Reason12 f \<noteq> [] \<or> fp_Space f = NamespaceSOAP12
                     then \<lparr>sf_Version = SOAPVersion12, sf_Code = trim_space (fp_Code12 f), sf_Reason = trim_space (fp_Reason12 f),
                           sf_Actor = [], sf_Detail = trim_space (fp_Detail12 f), sf_StatusCode = 0\<rparr>
                     else \<lparr>sf_Version = SOAPVersion11, sf_Code = trim_space (fp_Code11 f), sf_Reason = trim_space (fp_Reason11 f),
                           sf_Actor = trim_space (fp_Actor11 f), sf_Detail = trim_space (fp_Detail11 f), sf_StatusCode = 0\<rparr>)))"

subsection \<open>Multipart responses\<close>

record MTOMAttachment =
  at_ContentID :: string
  at_ContentType :: string
  at_Data :: string

text \<open>\<open>strings.Trim(s, "<>")\<close>.\<close>

definition trim_angle :: "string \<Rightarrow> string" where
  "trim_angle s = (let f = dropWhile (\<lambda>c. c \<in> set ''<>'') in rev (f (rev (f s))))"

text \<open>A part the multipart reader returns: its \<open>Content-ID\<close>, its \<open>Content-Type\<close> and the reading of its data.\<close>

record mime_part =
  mp_ContentID :: string
  mp_ContentType :: string
  mp_Data :: "gerr + string"

fun mtom_loop ::
  "string \<Rightarrow> nat \<Rightarrow> string option \<Rightarrow> (string \<Rightarrow> MTOMAttachment option) \<Rightarrow> (gerr + mime_part) list
   \<Rightarrow> gerr + (string option \<times> (string \<Rightarrow> MTOMAttachment option))" where
  "mtom_loop startCID partIndex envelope attachments [] = Inr (envelope, attachments)"
| "mtom_loop startCID partIndex envelope attachments (Inl partErr # ps) = Inl partErr"
| "mtom_loop startCID partIndex envelope attachments (Inr part # ps) =
     (case mp_Data part of
        Inl readErr \<Rightarrow> Inl readErr
      | Inr data \<Rightarrow>
          (let contentID = trim_angle (mp_ContentID part)
           in if envelope = None \<and> (startCID \<noteq> [] \<and> contentID = startCID \<or> startCID = [] \<and> partIndex = 0)
              then mtom_loop startCID (Suc partIndex) (Some data) attachments ps
              else if contentID = [] then Inl (plain_error ''multipart attachment missing Content-ID'')
              else mtom_loop startCID (Suc partIndex) envelope
                     (attachments(contentID \<mapsto> \<lparr>at_ContentID = contentID, at_ContentType = mp_ContentType part, at_Data = data\<rparr>)) ps))"

definition ParseMTOMResponse ::
  "(string \<Rightarrow> (string \<times> (string \<Rightarrow> string option)) option) \<Rightarrow> (string \<Rightarrow> string \<Rightarrow> (gerr + mime_part) list) \<Rightarrow> string \<Rightarrow> string
   \<Rightarrow> gerr + (string \<times> (string \<Rightarrow> MTOMAttachment option))" where
  "ParseMTOMResponse parse_media_type parts contentType body =
     (case parse_media_type contentType of
        None \<Rightarrow> Inr (body, Map.empty)
      | Some (mediaType, params) \<Rightarrow>
          if \<not> prefix ''multipart/'' mediaType then Inr (body, Map.empty)
          else (let param = (\<lambda>k. case params k of None \<Rightarrow> [] | Some v \<Rightarrow> v)
                in if param ''boundary'' = [] then Inl (plain_error ''multipart response missing boundary'')
                   else (case mtom_loop (trim_angle (param ''start'')) 0 None Map.empty (parts (param ''boundary'') body) of
                           Inl err \<Rightarrow> Inl err
                         | Inr (None, _) \<Rightarrow> Inl (plain_error ''multipart response missing SOAP envelope part'')
                         | Inr (Some envelope, attachments) \<Rightarrow> Inr (envelope, attachments))))"

subsection \<open>Fragments\<close>

text \<open>
  \<open>rawXMLFragment\<close>: the tokens a decoder reads from a fragment, written to the encoder of the
  envelope without their namespace declarations. An attribute has a namespace, a name and a value.
\<close>

datatype xml_token = StartElement string "(string \<times> string \<times> string) list" | OtherToken string

definition withoutNamespaceDeclarationAttrs :: "(string \<times> string \<times> string) list \<Rightarrow> (string \<times> string \<times> string) list" where
  "withoutNamespaceDeclarationAttrs attrs =
     filter (\<lambda>(space, local, value). \<not> (local = ''xmlns'' \<or> space = ''xmlns'')) attrs"

fun MarshalXML ::
  "(xml_token \<Rightarrow> 'e \<Rightarrow> gerr option \<times> 'e) \<Rightarrow> ('e \<Rightarrow> gerr option \<times> 'e) \<Rightarrow> (gerr + xml_token) list \<Rightarrow> 'e \<Rightarrow> gerr option \<times> 'e" where
  "MarshalXML encode flush [] e = flush e"
| "MarshalXML encode flush (Inl err # ts) e = (Some err, e)"
| "MarshalXML encode flush (Inr t # ts) e =
     (case encode (case t of StartElement name attrs \<Rightarrow> StartElement name (withoutNamespaceDeclarationAttrs attrs)
                           | OtherToken x \<Rightarrow> OtherToken x) e of
        (Some err, e) \<Rightarrow> (Some err, e)
      | (None, e) \<Rightarrow> MarshalXML encode flush ts e)"


subsection \<open>The call\<close>

record MTOMConfig =
  mt_Enabled :: bool
  mt_Attachments :: "MTOMAttachment list"

record 'h SOAPOperation =
  op_Endpoint :: string
  op_SOAPAction :: string
  op_Version :: string
  op_Body :: string
  op_Record :: "grecord option"
  op_State :: grecord
  op_Pagination :: grecord
  op_Headers :: "string list"
  op_HTTPHeaders :: "(string \<times> string) list"
  op_Authentication :: "AuthConfig option"
  op_AuthHandler :: "'h auth_handler option"
  op_WSSecurity :: "WSSecurityConfig option"
  op_MTOM :: MTOMConfig
  op_Retry :: "RetryConfig option"

record SOAPResponse =
  sr_StatusCode :: int
  sr_EnvelopeXML :: string
  sr_Data :: "grecord option"
  sr_Attachments :: "string \<Rightarrow> MTOMAttachment option"
  sr_RetryInfo :: "retry_info option"

definition no_response :: SOAPResponse where
  "no_response = \<lparr>sr_StatusCode = 0, sr_EnvelopeXML = [], sr_Data = None, sr_Attachments = Map.empty, sr_RetryInfo = None\<rparr>"

text \<open>What the library is asked to send; it hands one request to \<open>Do\<close> and reads what comes back.\<close>

record hook_call =
  hk_URL :: string
  hk_SOAP12 :: bool
  hk_HTTPHeaders :: "string \<Rightarrow> string option"
  hk_MTOM :: bool
  hk_Headers :: "string list"
  hk_Attachments :: "(string \<times> string \<times> string) list"
  hk_Action :: string
  hk_Body :: string

record ('h, 't) soap_env =
  se_ctx :: "'h run_context"
  se_client :: "call_request \<Rightarrow> 'h http_client"
  se_gonja :: "'t gonja"
  se_parse_url :: "string \<Rightarrow> gerr + go_url"
  se_rules :: header_rules
  se_wss :: "'h wss_env"
  se_NewHandler :: "AuthConfig option \<Rightarrow> gerr + 'h auth_handler option"
  se_hook_request :: "hook_call \<Rightarrow> gerr + call_request"
  se_hook_result :: "hook_call \<Rightarrow> http_response option \<times> gerr option \<Rightarrow> gerr option"
  se_ContentType :: "http_response \<Rightarrow> string"
  se_ParseMediaType :: "string \<Rightarrow> (string \<times> (string \<Rightarrow> string option)) option"
  se_parts :: "string \<Rightarrow> string \<Rightarrow> (gerr + mime_part) list"
  se_fault :: "string \<Rightarrow> gerr + faultPayload option"
  se_mxj :: "string \<Rightarrow> gerr + grecord"

definition ParseXMLResponse :: "(string \<Rightarrow> gerr + grecord) \<Rightarrow> string \<Rightarrow> gerr + grecord" where
  "ParseXMLResponse mxj body =
     (case mxj body of Inl err \<Rightarrow> Inl (errorf (''parsing SOAP XML response: '' @ err_text err) err) | Inr mv \<Rightarrow> Inr mv)"

text \<open>\<open>soapRetryCollector\<close>: the attempts and the delays in milliseconds.\<close>

type_synonym soap_collector = "int \<times> int list"

definition collector_OnRetry :: "int \<Rightarrow> gerr option \<Rightarrow> int \<Rightarrow> soap_collector \<Rightarrow> soap_collector" where
  "collector_OnRetry attempt retryErr nextDelay c =
     (case c of (_, delaysMs) \<Rightarrow>
        (attempt + 1, if retryErr \<noteq> None \<and> nextDelay > 0 then delaysMs @ [nextDelay div 1000000] else delaysMs))"

definition collector_Info :: "int \<Rightarrow> soap_collector \<Rightarrow> retry_info option" where
  "collector_Info elapsedMs c =
     (case c of (attempts, delaysMs) \<Rightarrow>
        if delaysMs = [] then None
        else Some \<lparr>TotalAttempts = attempts,
                   RetryCount = (if attempts - 1 < int (length delaysMs) then int (length delaysMs) else attempts - 1),
                   RetryDelaysMs = delaysMs, TotalDurationMs = elapsedMs\<rparr>)"

definition soap_hooks :: "('h \<times> soap_collector) retry_hooks" where
  "soap_hooks =
     \<lparr>OnRetry = Some (\<lambda>attempt err d (h, c). (h, collector_OnRetry attempt err d c)), ShouldRetryBody = None,
      OnAttemptFailure = None, IsSuccessStatus = None\<rparr>"

definition capturing_send ::
  "('h, 't) soap_env \<Rightarrow> RetryConfig option \<Rightarrow> call_request \<Rightarrow> 'h
   \<Rightarrow> ((http_response option \<times> gerr option) \<times> retry_info option) \<times> 'h" where
  "capturing_send env retry req h =
     (case retry of
        Some cfg \<Rightarrow>
          (case DoWithRetry (counting_ctx (se_ctx env)) (Some (counting_client (se_client env req)))
                  \<lparr>rq_Method = cr_Method req, rq_URL = cr_URL req\<rparr> cfg soap_hooks (h, 0, []) of
             (r, h, c) \<Rightarrow> ((r, collector_Info (rc_elapsed (se_ctx env) h) c), h))
      | None \<Rightarrow>
          (case do_request (se_client env req) h of
             (Inl err, h) \<Rightarrow> (((None, Some err), None), h)
           | (Inr resp, h) \<Rightarrow> (((Some resp, None), None), h)))"

text \<open>
  \<open>capture\<close>: a response whose body cannot be read is handed on with an empty body and not
  captured.
\<close>

definition capture :: "http_response \<Rightarrow> http_response \<times> http_response option" where
  "capture resp =
     (case rs_stream_err resp of
        Some _ \<Rightarrow> (resp\<lparr>rs_stream := [], rs_stream_err := None\<rparr>, None)
      | None \<Rightarrow> (resp, Some resp))"

definition capturing_Do ::
  "('h, 't) soap_env \<Rightarrow> 'h auth_handler option \<Rightarrow> RetryConfig option \<Rightarrow> call_request \<Rightarrow> 'h
   \<Rightarrow> ((http_response option \<times> gerr option) \<times> http_response option \<times> retry_info option) \<times> 'h" where
  "capturing_Do env handler retry req h =
     (case (case handler of None \<Rightarrow> (Inr req, h) | Some a \<Rightarrow> ah_Apply a req h) of
        (Inl err, h) \<Rightarrow> (((None, Some (errorf (''applying SOAP HTTP auth: '' @ err_text err) err)), None, None), h)
      | (Inr req, h) \<Rightarrow>
          (case capturing_send env retry req h of
             (((None, err), info), h) \<Rightarrow> (((None, err), None, info), h)
           | (((Some resp, err), info), h) \<Rightarrow>
               (case capture resp of (resp, captured) \<Rightarrow> (((Some resp, err), captured, info), h))))"

definition ValidateHeaderName :: "header_rules \<Rightarrow> string \<Rightarrow> gerr option" where
  "ValidateHeaderName rules name =
     (if name = [] then Some (plain_error ''header name cannot be empty'')
      else if \<not> ValidHeaderFieldName rules name
      then Some (plain_error (''header name is not a valid RFC 7230 token: \"'' @ name @ ''\"'')) else None)"

definition ValidateHeaderValue :: "header_rules \<Rightarrow> string \<Rightarrow> gerr option" where
  "ValidateHeaderValue rules value =
     (if \<not> ValidHeaderFieldValue rules value
      then Some (plain_error ''header value is not a valid RFC 7230 field-value'') else None)"

text \<open>A header is added after its name and its value are checked; the first bad one ends the call.\<close>

fun add_http_headers ::
  "header_rules \<Rightarrow> (string \<times> string) list \<Rightarrow> (string \<Rightarrow> string option) \<Rightarrow> gerr + (string \<Rightarrow> string option)" where
  "add_http_headers rules [] headers = Inr headers"
| "add_http_headers rules ((name, value) # hs) headers =
     (case ValidateHeaderName rules name of
        Some err \<Rightarrow> Inl (errorf (''invalid SOAP HTTP header: '' @ err_text err) err)
      | None \<Rightarrow>
          (case ValidateHeaderValue rules value of
             Some err \<Rightarrow> Inl (errorf (''invalid SOAP HTTP header \"'' @ name @ ''\": '' @ err_text err) err)
           | None \<Rightarrow> add_http_headers rules hs (headers(name \<mapsto> value))))"

fun call_headers :: "'t gonja \<Rightarrow> XMLTemplateVars \<Rightarrow> string list \<Rightarrow> gerr + string list" where
  "call_headers g vars [] = Inr []"
| "call_headers g vars (xml # hs) =
     (if trim_space xml = [] then call_headers g vars hs
      else (case EvaluateXMLTemplate g xml vars of
              Inl err \<Rightarrow> Inl (errorf (''evaluating SOAP header: '' @ err_text err) err)
            | Inr evaluated \<Rightarrow>
                (case call_headers g vars hs of Inl err \<Rightarrow> Inl err | Inr rest \<Rightarrow> Inr (evaluated # rest))))"

text \<open>The first part of \<open>Call\<close>: what is asked of the library, and the handler to use.\<close>

definition soap_accept :: string where "soap_accept = ''text/xml, application/soap+xml, multipart/related''"

definition prepare_call ::
  "('h, 't) soap_env \<Rightarrow> 'h SOAPOperation \<Rightarrow> 'h \<Rightarrow> (gerr + (hook_call \<times> 'h auth_handler option)) \<times> 'h" where
  "prepare_call env op h =
     (case ValidateAbsoluteURL (rc_url (se_ctx env)) (se_parse_url env) (op_Endpoint op) of
        Some err \<Rightarrow> (Inl (errorf (''invalid SOAP endpoint: '' @ err_text err) err), h)
      | None \<Rightarrow>
     (case NormalizeSOAPVersion (op_Version op) of
        Inl err \<Rightarrow> (Inl err, h)
      | Inr version \<Rightarrow>
          (let vars = \<lparr>xv_Record = op_Record op, xv_State = op_State op, xv_Pagination = op_Pagination op\<rparr>
           in case EvaluateXMLTemplate (se_gonja env) (op_Body op) vars of
                Inl err \<Rightarrow> (Inl err, h)
              | Inr body \<Rightarrow>
                  if trim_space body = [] then (Inl (plain_error ''SOAP body is required''), h)
                  else
     (case add_http_headers (se_rules env) (op_HTTPHeaders op) [''Accept'' \<mapsto> soap_accept] of
        Inl err \<Rightarrow> (Inl err, h)
      | Inr httpHeaders \<Rightarrow>
     (case (case op_AuthHandler op of
              Some a \<Rightarrow> Inr (Some a)
            | None \<Rightarrow> if op_Authentication op = None then Inr None else se_NewHandler env (op_Authentication op)) of
        Inl authErr \<Rightarrow> (Inl (errorf (''creating SOAP HTTP auth handler: '' @ err_text authErr) authErr), h)
      | Inr handler \<Rightarrow>
     (case call_headers (se_gonja env) vars (op_Headers op) of
        Inl err \<Rightarrow> (Inl err, h)
      | Inr headers \<Rightarrow>
     (case (case op_WSSecurity op of
              None \<Rightarrow> (Inr headers, h)
            | Some cfg \<Rightarrow> (case BuildWSSecurityHeader (se_wss env) cfg h of
                             (Inl err, h) \<Rightarrow> (Inl err, h) | (Inr header, h) \<Rightarrow> (Inr (headers @ [header]), h))) of
        (Inl secErr, h) \<Rightarrow> (Inl secErr, h)
      | (Inr headers, h) \<Rightarrow>
          (Inr (\<lparr>hk_URL = op_Endpoint op, hk_SOAP12 = (version = SOAPVersion12), hk_HTTPHeaders = httpHeaders,
                 hk_MTOM = mt_Enabled (op_MTOM op), hk_Headers = headers,
                 hk_Attachments = (if mt_Enabled (op_MTOM op)
                                   then map (\<lambda>a. (trim_angle (at_ContentID a), at_ContentType a, at_Data a)) (mt_Attachments (op_MTOM op))
                                   else []),
                 hk_Action = op_SOAPAction op, hk_Body = body\<rparr>, handler), h))))))))"

text \<open>The last part: the verdict on a captured response.\<close>

definition judge_captured ::
  "('h, 't) soap_env \<Rightarrow> string \<Rightarrow> gerr option \<Rightarrow> http_response \<Rightarrow> retry_info option \<Rightarrow> SOAPResponse \<times> gerr option" where
  "judge_captured env endpoint callErr captured info =
     (case ParseMTOMResponse (se_ParseMediaType env) (se_parts env) (se_ContentType env captured) (rs_stream captured) of
        Inl err \<Rightarrow> (no_response, Some (errorf (''reading SOAP response: '' @ err_text err) err))
      | Inr (xmlBody, attachments) \<Rightarrow>
          (let soapResp = \<lparr>sr_StatusCode = rs_StatusCode captured, sr_EnvelopeXML = xmlBody, sr_Data = None,
                           sr_Attachments = attachments, sr_RetryInfo = info\<rparr>;
               http = (soapResp, Some (NodeE (KHTTPError (rs_RetryAfter captured))
                        (http_Error_Error (rc_url (se_ctx env)) (rs_StatusCode captured) (rs_Status captured) endpoint ''POST'' (rs_Status captured))
                        None None None [] False));
               data = (case ParseXMLResponse (se_mxj env) xmlBody of
                         Inl err \<Rightarrow> (soapResp, Some (case callErr of
                                        Some e \<Rightarrow> errorf (''executing SOAP request: '' @ err_text e) e | None \<Rightarrow> err))
                       | Inr d \<Rightarrow> (soapResp\<lparr>sr_Data := Some d\<rparr>, None))
           in case ParseSOAPFault (se_fault env) xmlBody of
                Inl faultErr \<Rightarrow>
                  if rs_StatusCode captured \<ge> 400 then http
                  else (soapResp, Some (errorf (''parsing SOAP fault: '' @ err_text faultErr) faultErr))
              | Inr (Some fault) \<Rightarrow> (soapResp, Some (fault_gerr (fault\<lparr>sf_StatusCode := rs_StatusCode captured\<rparr>)))
              | Inr None \<Rightarrow> if rs_StatusCode captured \<ge> 400 then http else data))"

definition soap_Call :: "('h, 't) soap_env \<Rightarrow> 'h SOAPOperation \<Rightarrow> 'h \<Rightarrow> (SOAPResponse \<times> gerr option) \<times> 'h" where
  "soap_Call env op h =
     (case prepare_call env op h of
        (Inl err, h) \<Rightarrow> ((no_response, Some err), h)
      | (Inr (call, handler), h) \<Rightarrow>
          (case (case se_hook_request env call of
                   Inl err \<Rightarrow> ((Some err, None, None), h)
                 | Inr req \<Rightarrow>
                     (case capturing_Do env handler (op_Retry op) req h of
                        ((back, captured, info), h) \<Rightarrow> ((se_hook_result env call back, captured, info), h))) of
             ((callErr, None, info), h) \<Rightarrow>
               ((no_response, Some (case callErr of
                    Some err \<Rightarrow> errorf (''executing SOAP request: '' @ err_text err) err
                  | None \<Rightarrow> plain_error ''executing SOAP request: missing HTTP response'')), h)
           | ((callErr, Some captured, info), h) \<Rightarrow> (judge_captured env (op_Endpoint op) callErr captured info, h)))"


subsection \<open>Faults are classified by their code\<close>

lemma explicit_fault: "explicitClassification (fault_gerr e) = Some (SOAPFaultError_Classify e)"
proof -
  have "as_classified (fault_gerr e) = None" by (simp add: as_classified_def fault_gerr_def)
  moreover have "classifyFromChain (fault_gerr e) = Some (SOAPFaultError_Classify e)"
    by (subst classifyFromChain.simps) (simp add: as_classifiable_def fault_gerr_def)
  ultimately show ?thesis by (simp add: explicitClassification_def)
qed

text \<open>
  A SOAP fault is judged by its code alone. However the runtime wraps it, a fault can be
  retried exactly when its code, without the namespace prefix and in any case, is Server or
  Receiver; it is fatal exactly when the code is Client or Sender; any other code is neither.
  The HTTP status is carried along and decides nothing.
\<close>
theorem soap_fault_verdict:
  fixes e :: SOAPFaultError and msg :: string
  defines "err \<equiv> wrap_err msg (fault_gerr e)" and "part \<equiv> to_lower (faultCodeLocalPart (sf_Code e))"
  shows "Retryable (ClassifyError env (Some err)) = (part = ''server'' \<or> part = ''receiver'')
    \<and> IsFatal (Some err) = (part = ''client'' \<or> part = ''sender'')
    \<and> StatusCode (ClassifyError env (Some err)) = sf_StatusCode e"
proof -
  have x: "explicitClassification err = Some (SOAPFaultError_Classify e)"
    using explicit_fault [of e] by (simp add: err_def)
  show ?thesis
    by (simp add: ClassifyError_def IsFatal_def GetErrorCategory_def x SOAPFaultError_Classify_def part_def Let_def)
qed

subsection \<open>A multipart response is split without loss\<close>

definition mime_id :: "mime_part \<Rightarrow> string" where
  "mime_id p = trim_angle (mp_ContentID p)"

definition mime_entry :: "mime_part \<Rightarrow> string \<times> MTOMAttachment" where
  "mime_entry p =
     (mime_id p, \<lparr>at_ContentID = mime_id p, at_ContentType = mp_ContentType p,
                  at_Data = (case mp_Data p of Inr d \<Rightarrow> d | Inl _ \<Rightarrow> [])\<rparr>)"

lemma mime_entry_pair: "mime_entry p = (mime_id p, snd (mime_entry p))"
  by (simp add: mime_entry_def)

lemma upd_before: "att(k \<mapsto> v) ++ m = att ++ ([k \<mapsto> v] ++ m)"
proof -
  have "att(k \<mapsto> v) = att ++ [k \<mapsto> v]" by (simp only: map_add_upd map_add_empty)
  then show ?thesis by (simp only: map_add_assoc)
qed

lemma mime_entries_Cons:
  "att(mime_id p \<mapsto> snd (mime_entry p)) ++ map_of (rev (map mime_entry ps)) = att ++ map_of (rev (map mime_entry (p # ps)))"
proof -
  have "map_of (rev (map mime_entry (p # ps))) = map_of (rev (map mime_entry ps) @ [(mime_id p, snd (mime_entry p))])"
    using mime_entry_pair [of p, symmetric] by simp
  then show ?thesis by (subst upd_before) (simp only: map_of_append map_of.simps fst_conv snd_conv)
qed

lemma mtom_loop_after_root:
  assumes "mtom_loop cid i (Some e) att (map Inr ps) = Inr (e', att')"
  shows "e' = Some e \<and> att' = att ++ map_of (rev (map mime_entry ps)) \<and> [] \<notin> mime_id ` set ps
    \<and> list_all (\<lambda>p. \<not> isl (mp_Data p)) ps"
  using assms
proof (induction ps arbitrary: i att)
  case (Cons p ps)
  obtain d where d: "mp_Data p = Inr d" using Cons.prems by (cases "mp_Data p") auto
  with Cons.prems have id: "mime_id p \<noteq> []"
    and run: "mtom_loop cid (Suc i) (Some e) (att(mime_id p \<mapsto> snd (mime_entry p))) (map Inr ps) = Inr (e', att')"
    by (auto simp: mime_id_def mime_entry_def Let_def split: if_splits)
  from Cons.IH [OF run] have "att' = att ++ map_of (rev (map mime_entry (p # ps)))"
    using mime_entries_Cons [of att p ps] by (simp only:)
  with Cons.IH [OF run] id d show ?case by auto
qed simp

lemma mtom_loop_root:
  assumes "mtom_loop cid i None att (map Inr ps) = Inr (Some e, att')"
  shows "\<exists>before root after. ps = before @ root # after \<and> mp_Data root = Inr e
    \<and> (if cid = [] then i + length before = 0 else mime_id root = cid \<and> cid \<notin> mime_id ` set before)
    \<and> [] \<notin> mime_id ` set (before @ after) \<and> att' = att ++ map_of (rev (map mime_entry (before @ after)))"
  using assms
proof (induction ps arbitrary: i att)
  case (Cons p ps)
  obtain d where d: "mp_Data p = Inr d" using Cons.prems by (cases "mp_Data p") auto
  show ?case
  proof (cases "cid \<noteq> [] \<and> mime_id p = cid \<or> cid = [] \<and> i = 0")
    case True
    with Cons.prems d have run: "mtom_loop cid (Suc i) (Some d) att (map Inr ps) = Inr (Some e, att')"
      by (auto simp: mime_id_def Let_def)
    from mtom_loop_after_root [OF run] True d show ?thesis
      by (intro exI [of _ "[]"] exI [of _ p] exI [of _ ps]) auto
  next
    case False
    with Cons.prems d have id: "mime_id p \<noteq> []"
      and run: "mtom_loop cid (Suc i) None (att(mime_id p \<mapsto> snd (mime_entry p))) (map Inr ps) = Inr (Some e, att')"
      by (auto simp: mime_id_def mime_entry_def Let_def split: if_splits)
    from Cons.IH [OF run] obtain before root after where split: "ps = before @ root # after" "mp_Data root = Inr e"
      and root: "if cid = [] then Suc i + length before = 0 else mime_id root = cid \<and> cid \<notin> mime_id ` set before"
      and ids: "[] \<notin> mime_id ` set (before @ after)"
      and att': "att' = att(mime_id p \<mapsto> snd (mime_entry p)) ++ map_of (rev (map mime_entry (before @ after)))"
      by blast
    have "att' = att ++ map_of (rev (map mime_entry ((p # before) @ after)))"
      using att' mime_entries_Cons [of att p "before @ after"] by (simp only: append_Cons)
    with split root ids id False show ?thesis
      by (intro exI [of _ "p # before"] exI [of _ root] exI [of _ after]) (auto split: if_splits)
  qed
qed simp

text \<open>
  C21. A multipart response is split into its envelope and its attachments. When a response with a
  boundary is accepted, one of its parts is the envelope: the first part, or the first with the
  Content-ID the start parameter names. Every other part, before or after it, has a Content-ID
  and is kept under it with its data and its type; of two parts with one Content-ID the later is
  kept.
\<close>
theorem mtom_response_parts:
  assumes "parse ct = Some (mediaType, params)" "prefix ''multipart/'' mediaType"
    and "params ''boundary'' = Some boundary" "parts boundary body = map Inr ps"
    and "ParseMTOMResponse parse parts ct body = Inr (envelope, attachments)"
  defines "start \<equiv> trim_angle (case params ''start'' of None \<Rightarrow> [] | Some v \<Rightarrow> v)"
  shows "\<exists>before root after. ps = before @ root # after \<and> mp_Data root = Inr envelope
    \<and> (if start = [] then before = [] else mime_id root = start \<and> start \<notin> mime_id ` set before)
    \<and> [] \<notin> mime_id ` set (before @ after) \<and> attachments = map_of (rev (map mime_entry (before @ after)))"
proof -
  obtain att' where "mtom_loop start 0 None Map.empty (map Inr ps) = Inr (Some envelope, attachments)"
    using assms by (auto simp: ParseMTOMResponse_def Let_def split: if_splits sum.splits option.splits)
  from mtom_loop_root [OF this] show ?thesis by (simp only: empty_map_add add_0 length_0_conv)
qed

definition demo_part :: "string \<Rightarrow> string \<Rightarrow> gerr + mime_part" where
  "demo_part cid data = Inr \<lparr>mp_ContentID = cid, mp_ContentType = ''t'', mp_Data = Inr data\<rparr>"

definition demo_mime :: "string \<Rightarrow> (string \<times> (string \<Rightarrow> string option)) option" where
  "demo_mime ct = (if ct = ''m'' then Some (''multipart/related'', [''boundary'' \<mapsto> ''b'', ''start'' \<mapsto> ''<r>'']) else None)"

definition demo_parts :: "string \<Rightarrow> string \<Rightarrow> (gerr + mime_part) list" where
  "demo_parts boundary body = [demo_part ''<a>'' ''1'', demo_part ''r'' body, demo_part ''a'' ''2'']"

theorem mtom_response_parts_witness:
  "\<exists>att. ParseMTOMResponse demo_mime demo_parts ''m'' ''<e/>'' = Inr (''<e/>'', att)
     \<and> map_option at_Data (att ''a'') = Some ''2''"
proof -
  have p: "demo_mime ''m'' = Some (''multipart/related'', [''boundary'' \<mapsto> ''b'', ''start'' \<mapsto> ''<r>''])"
    by (simp add: demo_mime_def)
  define ps where "ps = map projr (demo_parts ''b'' ''<e/>'')"
  have ps: "demo_parts ''b'' ''<e/>'' = map Inr ps" by (simp add: ps_def demo_parts_def demo_part_def)
  have trim: "trim_angle ''<r>'' = ''r''" "trim_angle ''r'' = ''r''" "trim_angle ''<a>'' = ''a''" "trim_angle ''a'' = ''a''"
    by code_simp+
  have pre: "prefix ''multipart/'' ''multipart/related''" by (simp add: prefix_def)
  obtain att where r: "ParseMTOMResponse demo_mime demo_parts ''m'' ''<e/>'' = Inr (''<e/>'', att)"
    by (simp add: ParseMTOMResponse_def p pre demo_parts_def demo_part_def trim Let_def)
  from mtom_response_parts [OF p pre _ ps r] obtain before root after where
    split: "ps = before @ root # after" "mime_id root = ''r''"
    and rest: "att = map_of (rev (map mime_entry (before @ after)))"
    by (auto simp: trim)
  have ids: "map mime_id ps = [''a'', ''r'', ''a'']" and len: "length ps = 3"
    by (simp_all add: ps_def demo_parts_def demo_part_def mime_id_def trim)
  have "before = [ps ! 0] \<and> after = [ps ! 2]"
  proof (cases before)
    case (Cons b bs)
    with split ids len show ?thesis by (cases bs; cases after) auto
  qed (use split ids in auto)
  with rest have "att = map_of (rev (map mime_entry [ps ! 0, ps ! 2]))" by simp
  then have "map_option at_Data (att ''a'') = Some ''2''"
    by (simp add: ps_def demo_parts_def demo_part_def mime_entry_def mime_id_def trim)
  with r show ?thesis by blast
qed

subsection \<open>The verdict on a call\<close>

text \<open>
  A call is judged by the response it captured. Whatever the retry loop or the library said of
  it, a response whose parts were read is a success exactly when its status is below 400, its
  envelope holds no fault and its XML is parsed; the data returned are that XML. A fault in the
  envelope is always reported as that fault, with the status, even with status 200; and an error
  status without a fault is reported as an error.
\<close>
theorem soap_call_verdict:
  assumes "prepare_call env op h = (Inr (call, handler), h1)" "se_hook_request env call = Inr req"
    and "capturing_Do env handler (op_Retry op) req h1 = ((back, Some captured, info), h2)"
    and "ParseMTOMResponse (se_ParseMediaType env) (se_parts env) (se_ContentType env captured) (rs_stream captured) = Inr (xml, att)"
  shows "\<exists>resp err. soap_Call env op h = ((resp, err), h2)
    \<and> sr_StatusCode resp = rs_StatusCode captured \<and> sr_EnvelopeXML resp = xml \<and> sr_Attachments resp = att
    \<and> (err = None) = (rs_StatusCode captured < 400 \<and> ParseSOAPFault (se_fault env) xml = Inr None \<and> \<not> isl (se_mxj env xml))
    \<and> (err = None \<longrightarrow> (\<exists>d. se_mxj env xml = Inr d \<and> sr_Data resp = Some d))
    \<and> (\<forall>f. ParseSOAPFault (se_fault env) xml = Inr (Some f) \<longrightarrow> err = Some (fault_gerr (f\<lparr>sf_StatusCode := rs_StatusCode captured\<rparr>)))"
proof -
  obtain callErr where "soap_Call env op h = (judge_captured env (op_Endpoint op) callErr captured info, h2)"
    using assms by (simp add: soap_Call_def)
  with assms(4) show ?thesis
    by (auto simp: judge_captured_def ParseXMLResponse_def Let_def split: sum.splits option.splits)
qed

definition demo_fault :: faultPayload where
  "demo_fault = \<lparr>fp_Space = NamespaceSOAP11, fp_Code11 = ''soap:Client'', fp_Reason11 = ''bad'', fp_Actor11 = [], fp_Detail11 = [],
     fp_Code12 = [], fp_Reason12 = [], fp_Detail12 = []\<rparr>"

definition demo_soap_env :: "(http_response list, string) soap_env" where
  "demo_soap_env =
     \<lparr>se_ctx = demo_ctx, se_client = (\<lambda>_. demo_client), se_gonja = demo_gonja,
      se_parse_url = (\<lambda>s. Inr \<lparr>url_scheme = ''https'', url_host = ''h'', url_query = [], print_with = (\<lambda>_. s)\<rparr>),
      se_rules = \<lparr>ValidHeaderFieldName = (\<lambda>_. True), ValidHeaderFieldValue = (\<lambda>_. True)\<rparr>,
      se_wss = \<lparr>we_now = (\<lambda>_. 0), we_rfc3339 = (\<lambda>_. ''now''), we_rand16 = (\<lambda>h. (Inr ''n'', h)), we_sha1 = (\<lambda>s. s)\<rparr>,
      se_NewHandler = (\<lambda>_. Inr None),
      se_hook_request = (\<lambda>c. Inr \<lparr>cr_Method = ''POST'', cr_URL = hk_URL c, cr_Headers = hk_HTTPHeaders c, cr_Body = Some (hk_Body c)\<rparr>),
      se_hook_result = (\<lambda>_ _. None), se_ContentType = (\<lambda>_. ''text/xml''), se_ParseMediaType = (\<lambda>_. None),
      se_parts = (\<lambda>_ _. []),
      se_fault = (\<lambda>s. Inr (if s = ''fault'' then Some demo_fault else None)), se_mxj = (\<lambda>s. Inr [''text'' \<mapsto> GStr s])\<rparr>"

definition demo_operation :: "http_response list SOAPOperation" where
  "demo_operation =
     \<lparr>op_Endpoint = ''https://h'', op_SOAPAction = ''a'', op_Version = [], op_Body = ''<q/>'', op_Record = None,
      op_State = Map.empty, op_Pagination = Map.empty, op_Headers = [], op_HTTPHeaders = [], op_Authentication = None,
      op_AuthHandler = None, op_WSSecurity = None, op_MTOM = \<lparr>mt_Enabled = False, mt_Attachments = []\<rparr>, op_Retry = None\<rparr>"

definition demo_answer :: "string \<Rightarrow> http_response" where
  "demo_answer body = (demo_response 200)\<lparr>rs_stream := body, rs_stream_err := None\<rparr>"

lemma demo_soap_prepared:
  "\<exists>call. prepare_call demo_soap_env demo_operation h = (Inr (call, None), h)"
proof -
  have v: "HasVariables ''<q/>'' = False" by code_simp
  have "trim_space ''https://h'' = ''https://h''" "trim_space ''<q/>'' = ''<q/>''" by (rule trim_space_plain, simp add: plain_char_def)+
  note t = this
  then have "ValidateAbsoluteURL (rc_url (se_ctx demo_soap_env)) (se_parse_url demo_soap_env) ''https://h'' = None"
    by (simp add: ValidateAbsoluteURL_def demo_soap_env_def Let_def)
  with v t show ?thesis
    by (simp add: prepare_call_def demo_operation_def NormalizeSOAPVersion_def EvaluateXMLTemplate_def Let_def)
qed

text \<open>A fault with status 200 is reported as a fault.\<close>

theorem soap_call_verdict_witness:
  "\<exists>resp err. soap_Call demo_soap_env demo_operation [demo_answer ''fault''] = ((resp, Some err), [])
     \<and> IsFatal (Some err) \<and> sr_StatusCode resp = 200"
proof -
  obtain call where p: "prepare_call demo_soap_env demo_operation [demo_answer ''fault''] = (Inr (call, None), [demo_answer ''fault''])"
    using demo_soap_prepared by blast
  obtain req where q: "se_hook_request demo_soap_env call = Inr req" by (simp add: demo_soap_env_def)
  have d: "capturing_Do demo_soap_env None (op_Retry demo_operation) req [demo_answer ''fault'']
      = (((Some (demo_answer ''fault''), None), Some (demo_answer ''fault''), None), [])"
    by (simp add: capturing_Do_def capturing_send_def demo_soap_env_def demo_operation_def demo_client_def capture_def demo_answer_def)
  have m: "ParseMTOMResponse (se_ParseMediaType demo_soap_env) (se_parts demo_soap_env)
      (se_ContentType demo_soap_env (demo_answer ''fault'')) (rs_stream (demo_answer ''fault'')) = Inr (''fault'', Map.empty)"
    by (simp add: ParseMTOMResponse_def demo_soap_env_def demo_answer_def)
  have ne: "NamespaceSOAP11 \<noteq> NamespaceSOAP12" by code_simp
  obtain f where f: "ParseSOAPFault (se_fault demo_soap_env) ''fault'' = Inr (Some f)" "sf_Code f = trim_space ''soap:Client''"
    by (simp add: ParseSOAPFault_def demo_soap_env_def demo_fault_def ne)
  from soap_call_verdict [OF p q d m] f(1) obtain resp where
    r: "soap_Call demo_soap_env demo_operation [demo_answer ''fault'']
        = ((resp, Some (fault_gerr (f\<lparr>sf_StatusCode := rs_StatusCode (demo_answer ''fault'')\<rparr>))), [])"
      "sr_StatusCode resp = rs_StatusCode (demo_answer ''fault'')" by blast
  have "trim_space ''soap:Client'' = ''soap:Client''" by (rule trim_space_plain, simp add: plain_char_def)
  then have code: "to_lower (faultCodeLocalPart (trim_space ''soap:Client'')) = ''client''"
    by (simp add: faultCodeLocalPart_def) code_simp
  have "IsFatal (Some (fault_gerr (f\<lparr>sf_StatusCode := k\<rparr>)))" for k
    by (simp add: IsFatal_def GetErrorCategory_def ClassifyError_def explicit_fault SOAPFaultError_Classify_def f(2) code Let_def)
  with r show ?thesis by (auto simp: demo_answer_def demo_response_def)
qed

end
