(* ===== verification/Spec2Isabelle.thy ===== *)
theory Spec2Isabelle
  imports Pipeline FieldFilters HttpOutput Persistence Scheduler LoopFilter DatabaseInput DatabaseOutput SqlCall WebhookSafety SoapClient
begin

text \<open>
  Cannectors is a runtime for declarative data pipelines: a pipeline has one input module, a
  list of filter modules and one output module, and an execution fetches records, transforms
  them and sends them. This development models the core of that runtime in Go and proves what
  it promises to a pipeline author: the stages run in order, a failed execution keeps its
  cursor, a failed call is retried within its budget, a failed record is dropped, annotated or
  fatal as configured, and its annotation cannot be forged or lost.

  The theories, with the packages under \<open>src/\<close> they model.

  \<^item> \<open>Prelude\<close>: facts and functions on strings, decimal numerals and byte sequences that the Go
    standard library provides and every component uses; the collections \<open>outcome_simps\<close> and others.
  \<^item> \<open>RecordPath\<close> (\<open>internal/recordpath\<close>): the values of a record (\<open>gval\<close>, a JSON value as Go
    decodes it; a record is a map from strings) and the path language \<open>a.b[0].c\<close> of every module.
    Reading what was written, frame conditions, deletion, the syntax of a segment. An array grows
    to any index; an index for which Go cannot make the array ends the program and is outside the
    model.
  \<^item> \<open>Urlsan\<close> (\<open>internal/urlsan\<close>): redaction of URLs in texts; a non-interference theorem.
  \<^item> \<open>Errors\<close> (\<open>internal/errhandling/errors.go\<close>, \<open>module_error.go\<close>): an error value with its chain
    (\<open>gerr\<close>) and the classification of errors; wrapping is transparent.
  \<^item> \<open>Markers\<close> (\<open>internal/errhandling/marker.go\<close>, \<open>marker_tally.go\<close>, \<open>record_error.go\<close>): the error
    markers a record carries under the reserved field \<open>_errors\<close>, the check that protects the field
    and the strategies fail, skip and log.
  \<^item> \<open>Retry\<close> (\<open>internal/errhandling/retry.go\<close>, \<open>pkg/connector/retry.go\<close>): the retry executor as a
    function of the world it runs in (\<open>retry_env\<close>: the function, the context, the clock), the
    backoff with the float operations as a parameter, and its abstract specification
    \<open>retry_spec\<close>. The loop is bounded by its configuration, its termination measure is the
    number of attempts left; no fuel is needed.
  \<^item> \<open>HttpRetry\<close> (\<open>internal/httpclient/doretry.go\<close>, \<open>retry_after.go\<close>, \<open>retry_hint.go\<close>): one HTTP
    request with retries, built on the executor of \<open>Retry\<close>.
  \<^item> \<open>UrlQuery\<close> (\<open>internal/httpclient/url.go\<close>, \<open>headers.go\<close>, \<open>method.go\<close>): escaping and merging of
    query parameters on byte strings.
  \<^item> \<open>CacheContract\<close> and \<open>LruCache\<close> (\<open>internal/cache\<close>): the contract between a call filter and its
    cache as the locale \<open>ttl_cache\<close>, the LRU cache with its invariant over all reachable states,
    and the interpretation \<open>lru\<close> of the contract by the cache.
  \<^item> \<open>CallMerge\<close> (\<open>internal/modules/filter/call_merge.go\<close>): how a response enriches a record.
  \<^item> \<open>HttpCall\<close> (\<open>internal/modules/filter/http_call.go\<close>): the http_call filter, one request per record
    through \<open>HttpRetry\<close>, memoised in the cache of \<open>LruCache\<close>, its response folded in by
    \<open>CallMerge\<close>, its failures handed to \<open>Markers\<close>.
  \<^item> \<open>Persistence\<close> (\<open>internal/persistence\<close>): the state store on a map of files. A save is the list
    of states of the disk it goes through, so that a crash at any moment is a prefix of it; the
    locale \<open>cursor_store\<close> states resumption after any history of saves and deletes and \<open>files\<close>
    interprets it.
  \<^item> \<open>Pipeline\<close> (\<open>internal/runtime\<close>): the executor. A run is a record with the world of the modules,
    the disk, the executor, the result and the list of the calls made so far; the modules are
    records of operations on their world. Order, cursors, dry runs, accounting, resources.
  \<^item> \<open>Scheduler\<close> (\<open>internal/scheduler\<close>): a step relation whose steps are the critical sections of the
    mutex, over the registrations, their queues and the goroutines that execute them. Its
    invariant over all interleavings gives mutual exclusion, that requests are not lost, and that
    a scheduler is quiet once a \<open>Stop\<close> has waited for its executions and returned; a measure shows
    that the goroutines end.
  \<^item> \<open>Batching\<close>, \<open>HttpOutput\<close> (\<open>internal/modules/output/batching.go\<close>, \<open>http_request*.go\<close>): the HTTP
    output. Batches, URLs, headers and bodies, sending with retries and OAuth2 renewal, the
    success condition, and the previews of a dry run, which are what a send would request before
    the credentials are added.
  \<^item> \<open>RecordHeap\<close> (\<open>internal/recordpath\<close>): the path functions on a heap of shared maps and slices,
    with the refinement to \<open>RecordPath\<close> for records that are trees.
  \<^item> \<open>MappingFilter\<close> (\<open>internal/modules/filter/mapping*.go\<close>): the mapping filter on that heap: its
    configuration, its transforms, and the refinement to a specification on values, which states
    each transform by the kind of the value it meets; it is undefined where a mapping would share a
    container.
  \<^item> \<open>ConditionFilter\<close> (\<open>internal/modules/filter/condition.go\<close>): filter modules as operations on the
    heap (\<open>Module\<close>), the condition filter, and the trees of nested conditions it builds, with their
    abstract routing function in a state that the other modules leave as it is.
  \<^item> \<open>LoopFilter\<close> (\<open>internal/modules/filter/loop.go\<close>, \<open>internal/template/context.go\<close>): the loop
    filter with its scopes and its deferred cleanup, under a frame contract for the nested filters
    (\<open>item_chain\<close>).
  \<^item> \<open>FieldFilters\<close> (\<open>internal/modules/filter/set.go\<close>, \<open>remove.go\<close>, \<open>drop.go\<close>, \<open>stub.go\<close>): the filters
    that write fields of the record, as \<open>filter_module\<close>s of \<open>Pipeline\<close>; the locale
    \<open>record_filter\<close> is the contract under which a chain of filters keeps the error markers.

  \<^item> \<open>Auth\<close> (\<open>internal/auth\<close>): the authentication handlers as implementations of the handler interface
    of \<open>HttpOutput\<close>, the token request and the token cache they share. The goroutines that ask for
    a token at the same time are a step relation whose steps are critical sections, over any group
    of flights that keeps the contract of \<open>golang.org/x/sync/singleflight\<close> (\<open>single_flight\<close>); its
    invariant counts token requests against lost tokens, and a lone caller is the sequential
    \<open>getValidToken\<close>.
  \<^item> \<open>StateRefs\<close> (\<open>internal/persistence/render.go\<close>): the state variables a template names, with the
    regular expressions of the code written out as searches.
  \<^item> \<open>Pagination\<close> and \<open>HttpPolling\<close> (\<open>internal/modules/input/http_polling*.go\<close>,
    \<open>internal/moduleconfig/parse.go\<close>): the polling input. The three pagination loops run over any
    method that fetches a page, with completeness theorems against servers that serve offsets,
    pages or cursors; page and cursor loops take the 1000 turns their condition allows, the offset
    loop tests its own condition and \<open>offset_loop_fuel\<close> shows that its bound is not reached.
    \<open>HttpPolling\<close> gives them the module's own request, with the state parameters of
    \<open>Persistence\<close>, the retries of \<open>HttpRetry\<close> and the handlers of \<open>Auth\<close>.
  \<^item> \<open>TemplateScan\<close> and \<open>TemplateEngine\<close> (\<open>internal/template\<close>): the tokenizer that finds the
    tags of a template, the injection of an escaping filter into every output tag and the check of
    its blocks; the escaping of a value for each target, against readers of the formats written
    out, and the cache of compiled templates, an interpretation of the locale \<open>memo_table\<close>.
  \<^item> \<open>TemplateContext\<close> (\<open>internal/template\<close>): the render context of a record that is a value.
  \<^item> \<open>SqlTemplate\<close> (\<open>internal/sqltemplate\<close>): parameterized queries. The scanner of placeholders,
    the compilation, and the building of a query for a driver, refined to a function on the
    pieces of the text; the SQL text of a query without block tags does not depend on the values.
  \<^item> \<open>Database\<close> (\<open>internal/database\<close>, \<open>internal/pathutil\<close>): drivers, opening and its limits,
    the masking of connection strings, and the verdict on a driver error.
  \<^item> \<open>DatabaseInput\<close> (\<open>internal/modules/input/database.go\<close>): the database input with its three ways
    to fetch. Its paging loops have no bound in the code, so they are partial functions:
    completeness theorems show that they return for a database that serves a table, and
    \<open>database_paging_diverges\<close> that they do not for others.
  \<^item> \<open>DatabaseOutput\<close> (\<open>internal/modules/output/database.go\<close>, \<open>database_preview.go\<close>): the database
    output on a connection it opens lazily, sending record by record or in a transaction, and the
    preview of a dry run, refined to a grouping of the rendered statements.
  \<^item> \<open>CanonicalJson\<close> and \<open>SqlCall\<close> (\<open>internal/modules/filter/sql_call.go\<close>): the deterministic JSON
    of a record, which identifies it when the texts of scalars do, and the sql_call filter with the
    cache of \<open>LruCache\<close> under that key: a run with the cache is a run without one.
  \<^item> \<open>WebhookRequest\<close>, \<open>WebhookServer\<close>, \<open>WebhookRuns\<close> and \<open>WebhookSafety\<close>
    (\<open>internal/modules/input/webhook.go\<close>): the webhook input. The first holds the constructor, the
    checks a request passes and the rate limiter; the second the server as a step relation
    \<open>hook_step\<close> over its requests, queues, workers and the callers of Start and Stop, with the
    invariant on identities; the third executable runs of it, for the witnesses; the last the
    invariants: each request handled once, only genuine ones, bounded queues, one shutdown.
  \<^item> \<open>SoapClient\<close> (\<open>internal/soapclient\<close>): the SOAP client on \<open>HttpRetry\<close>, \<open>Auth\<close> and \<open>TemplateEngine\<close>:
    envelopes, WS-Security headers, faults and their verdict, multipart responses, the call.

  What stands for code outside the repository is an argument of the definitions: the URL parser,
  JSON coding, the file system operations that may fail, float arithmetic, the network, the clock,
  the expression and template engines. Their laws, where a property needs one, are named
  hypotheses with a witness (\<open>float_sound\<close>, \<open>codec_ok\<close>, \<open>single_flight\<close>, \<open>transactional\<close>,
  \<open>renders_static_text\<close>).

  Strings are lists of bytes. Error texts are built as the code builds them, except that \<open>%q\<close> is
  rendered as quotes around the text without escapes. Log output and the metrics of stage
  durations are not modelled. Except for the scheduler, the token cache and the webhook server the
  modelled components run on one goroutine, or hold a lock during each operation. The order in
  which Go visits a map is an argument where it can be observed.

  Not modelled: the script and soap_call filters, the SOAP input and output (modules appear as
  records of operations), configuration parsing and the command line.

  Beside the properties, each theory proves what modelling showed of the code where it does not
  behave as its documentation says: \<open>Pipeline.dry_run_saves_state\<close>,
  \<open>Pipeline.connect_failure_unreported\<close>, \<open>Pipeline.empty_fetch_erases_id\<close>,
  \<open>RecordPath.huge_index_accepted\<close>, \<open>LruCache.empty_key_blocks_eviction\<close>, \<open>HttpCall.body_not_in_cache_key\<close>,
  \<open>CallMerge.response_overwrites_markers\<close>, \<open>Retry.RetryCount_not_recorded_on_fatal\<close>,
  \<open>Retry.CalculateDelay_overflow\<close>, \<open>Errors.IsRetryable_ClassifyError_disagree\<close>,
  \<open>HttpRetry.retryable_error_reported_fatal\<close>, \<open>Persistence.state_file_shared\<close>,
  \<open>Scheduler.restart_runs_pipeline_twice\<close>, \<open>Scheduler.unregister_lets_executions_overlap\<close>,
  \<open>MappingFilter.mapping_forges_markers\<close>, \<open>MappingFilter.typed_item_deletes\<close>,
  \<open>ConditionFilter.unevaluable_dropped_unmarked\<close>, \<open>ConditionFilter.nested_failure_not_skipped\<close>,
  \<open>ConditionFilter.failed_module_leaves_writes\<close>, \<open>LoopFilter.loop_misreads_record_field\<close>,
  \<open>Pagination.dropped_item_stops_offsets\<close>, \<open>Pagination.repeated_cursor_duplicates\<close>,
  \<open>Pagination.negative_limit_fetches_nothing\<close>, \<open>StateRefs.block_references_unchecked\<close>,
  \<open>Auth.late_rejection_drops_fresh_token\<close>, \<open>Auth.waiting_callers_share_failure\<close>,
  \<open>TemplateScan.hidden_blocks\<close>, \<open>TemplateScan.unbalanced_expression\<close>,
  \<open>SqlTemplate.zero_placeholder_compiles\<close>, \<open>SqlTemplate.literal_braces_never_build\<close>,
  \<open>SqlTemplate.scanner_ignores_driver\<close>, \<open>Database.quoted_value_decides\<close>,
  \<open>Database.password_tail_leaks\<close>, \<open>DatabaseInput.limit_in_comment\<close>,
  \<open>DatabaseInput.database_paging_diverges\<close>, \<open>DatabaseOutput.rolled_back_records_counted\<close>,
  \<open>SqlCall.unmarshalled_share_answer\<close>, \<open>WebhookSafety.server_error_leaks_workers\<close>,
  \<open>WebhookSafety.stop_before_start_disables_stop\<close>, \<open>WebhookSafety.stop_during_start_panics\<close>,
  \<open>WebhookSafety.request_meets_closed_queue\<close>, \<open>WebhookSafety.dropped_request_answered_200\<close> and
  \<open>WebhookSafety.limiter_closed_twice\<close>.
\<close>

end
